(* ===== verification/Prelude.thy ===== *)
theory Prelude
  imports Main "HOL-Library.Word"
begin

unbundle bit_operations_syntax

text \<open>
  Shared vocabulary of the development: the machine types of the C code, the outcomes of an
  operation (normal return, \<open>abort_with_mutex\<close>, \<open>stm_fatalerror\<close>, blocked), the
  \<open>LIST_FOREACH\<close> loops of \<open>c7/stm/list.h\<close>, and generic lemmas about lists,
  little-endian bytes and bit masks.
\<close>

section \<open>Collections of facts\<close>

named_theorems res_simps \<open>equations of the outcome combinators\<close>
named_theorems frame \<open>what an operation leaves unchanged\<close>

section \<open>Machine integers\<close>

type_synonym u8 = "8 word"
type_synonym u16 = "16 word"
type_synonym u32 = "32 word"
type_synonym u64 = "64 word"

section \<open>Outcomes\<close>

text \<open>
  \<open>Ret a s\<close>: the C function returned \<open>a\<close> and left the state \<open>s\<close>.
  \<open>Aborted s\<close>: it did not return but jumped back to the start of the transaction
  (\<open>abort_with_mutex\<close>). \<open>Fatal m s\<close>: \<open>stm_fatalerror(m)\<close> ended the process.
  \<open>Hang s\<close>: it is still waiting after the wake-ups it was given.
\<close>

datatype ('s, 'a) res = Ret 'a 's | Aborted 's | Fatal string 's | Hang 's

fun bind_res :: "('s, 'a) res \<Rightarrow> ('a \<Rightarrow> 's \<Rightarrow> ('s, 'b) res) \<Rightarrow> ('s, 'b) res" where
  "bind_res (Ret a s) f = f a s"
| "bind_res (Aborted s) f = Aborted s"
| "bind_res (Fatal m s) f = Fatal m s"
| "bind_res (Hang s) f = Hang s"

lemma bind_res_eq_Ret [res_simps]:
  "bind_res r f = Ret b t \<longleftrightarrow> (\<exists>a s. r = Ret a s \<and> f a s = Ret b t)"
  by (cases r) auto

lemma bind_res_eq_Aborted [res_simps]:
  "bind_res r f = Aborted t \<longleftrightarrow> r = Aborted t \<or> (\<exists>a s. r = Ret a s \<and> f a s = Aborted t)"
  by (cases r) auto

lemma bind_res_eq_Hang [res_simps]:
  "bind_res r f = Hang t \<longleftrightarrow> r = Hang t \<or> (\<exists>a s. r = Ret a s \<and> f a s = Hang t)"
  by (cases r) auto

lemma bind_res_eq_Fatal [res_simps]:
  "bind_res r f = Fatal m t \<longleftrightarrow> r = Fatal m t \<or> (\<exists>a s. r = Ret a s \<and> f a s = Fatal m t)"
  by (cases r) auto

lemma bind_res_assoc: "bind_res (bind_res r f) g = bind_res r (\<lambda>a s. bind_res (f a s) g)"
  by (cases r) auto

text \<open>The state an outcome carries, whichever way the operation ended.\<close>

fun res_state :: "('s, 'a) res \<Rightarrow> 's" where
  "res_state (Ret a s) = s"
| "res_state (Aborted s) = s"
| "res_state (Fatal m s) = s"
| "res_state (Hang s) = s"

text \<open>
  The two loops of \<open>list.h\<close>: from the last item to the first, and from the first to
  the last. Loops whose body may leave them early are written out where they occur.
\<close>

definition foreach_r :: "'a list \<Rightarrow> ('a \<Rightarrow> 's \<Rightarrow> 's) \<Rightarrow> 's \<Rightarrow> 's" where
  "foreach_r xs f s = fold f (rev xs) s"

definition foreach_f :: "'a list \<Rightarrow> ('a \<Rightarrow> 's \<Rightarrow> 's) \<Rightarrow> 's \<Rightarrow> 's" where
  "foreach_f xs f s = fold f xs s"

lemma foreach_r_Nil [simp]: "foreach_r [] f s = s"
  by (simp add: foreach_r_def)

lemma foreach_r_snoc [simp]: "foreach_r (xs @ [x]) f s = foreach_r xs f (f x s)"
  by (simp add: foreach_r_def)

lemma foreach_r_append: "foreach_r (xs @ ys) f s = foreach_r xs f (foreach_r ys f s)"
  by (simp add: foreach_r_def)

lemma fold_preserves:
  "(\<And>x s. x \<in> set xs \<Longrightarrow> P s \<Longrightarrow> P (f x s)) \<Longrightarrow> P s \<Longrightarrow> P (fold f xs s)"
  by (induction xs arbitrary: s) auto

lemma foreach_r_preserves:
  "(\<And>x s. x \<in> set xs \<Longrightarrow> P s \<Longrightarrow> P (f x s)) \<Longrightarrow> P s \<Longrightarrow> P (foreach_r xs f s)"
  unfolding foreach_r_def by (rule fold_preserves) auto

lemma fold_frame:
  "(\<And>x s. x \<in> set xs \<Longrightarrow> g (f x s) = g s) \<Longrightarrow> g (fold f xs s) = g s"
  by (induction xs arbitrary: s) auto

lemma foreach_r_frame:
  "(\<And>x s. x \<in> set xs \<Longrightarrow> g (f x s) = g s) \<Longrightarrow> g (foreach_r xs f s) = g s"
  unfolding foreach_r_def by (rule fold_frame) auto

text \<open>
  A loop that establishes a fact for each item in turn, where later iterations keep what
  earlier ones established.
\<close>

lemma fold_establishes:
  assumes est: "\<And>x s. x \<in> set xs \<Longrightarrow> I s \<Longrightarrow> Q x (f x s)"
    and keep: "\<And>x y s. x \<in> set xs \<Longrightarrow> y \<in> set xs \<Longrightarrow> I s \<Longrightarrow> Q y s \<Longrightarrow> Q y (f x s)"
    and inv: "\<And>x s. x \<in> set xs \<Longrightarrow> I s \<Longrightarrow> I (f x s)"
    and init: "I s"
  shows "\<forall>x \<in> set xs. Q x (fold f xs s)"
proof -
  have "set ys \<subseteq> set xs \<Longrightarrow> I s \<Longrightarrow> (\<forall>y \<in> A. Q y s) \<Longrightarrow> A \<subseteq> set xs \<Longrightarrow>
      (\<forall>x \<in> A \<union> set ys. Q x (fold f ys s))" for ys A s
  proof (induction ys arbitrary: A s)
    case Nil
    then show ?case by simp
  next
    case (Cons y ys)
    have "\<forall>x \<in> insert y A. Q x (f y s)"
      using Cons.prems est keep by auto
    then have "\<forall>x \<in> insert y A \<union> set ys. Q x (fold f ys (f y s))"
      using Cons.prems inv by (intro Cons.IH) auto
    then show ?case by simp
  qed
  from this [of xs s "{}"] init show ?thesis by simp
qed

lemma foreach_r_establishes:
  assumes "\<And>x s. x \<in> set xs \<Longrightarrow> I s \<Longrightarrow> Q x (f x s)"
    and "\<And>x y s. x \<in> set xs \<Longrightarrow> y \<in> set xs \<Longrightarrow> I s \<Longrightarrow> Q y s \<Longrightarrow> Q y (f x s)"
    and "\<And>x s. x \<in> set xs \<Longrightarrow> I s \<Longrightarrow> I (f x s)"
    and "I s"
  shows "\<forall>x \<in> set xs. Q x (foreach_r xs f s)"
  using fold_establishes [of "rev xs" I Q f s] assms unfolding foreach_r_def by simp

section \<open>Little-endian bytes\<close>

text \<open>Loads and stores of 32- and 64-bit values in a byte-addressed memory.\<close>

definition load32 :: "(nat \<Rightarrow> u8) \<Rightarrow> nat \<Rightarrow> u32" where
  "load32 m a = ucast (m a) OR push_bit 8 (ucast (m (a + 1)))
     OR push_bit 16 (ucast (m (a + 2))) OR push_bit 24 (ucast (m (a + 3)))"

definition byte_of32 :: "u32 \<Rightarrow> nat \<Rightarrow> u8" where
  "byte_of32 v i = ucast (drop_bit (8 * i) v)"

definition load64 :: "(nat \<Rightarrow> u8) \<Rightarrow> nat \<Rightarrow> u64" where
  "load64 m a = ucast (load32 m a) OR push_bit 32 (ucast (load32 m (a + 4)))"

definition byte_of64 :: "u64 \<Rightarrow> nat \<Rightarrow> u8" where
  "byte_of64 v i = ucast (drop_bit (8 * i) v)"

lemma load32_cong: "(\<And>i. i < 4 \<Longrightarrow> m (a + i) = m' (a + i)) \<Longrightarrow> load32 m a = load32 m' a"
proof -
  assume h: "\<And>i. i < 4 \<Longrightarrow> m (a + i) = m' (a + i)"
  show ?thesis using h [of 0] h [of 1] h [of 2] h [of 3] by (simp add: load32_def)
qed

lemma load64_cong: "(\<And>i. i < 8 \<Longrightarrow> m (a + i) = m' (a + i)) \<Longrightarrow> load64 m a = load64 m' a"
proof -
  assume h: "\<And>i. i < 8 \<Longrightarrow> m (a + i) = m' (a + i)"
  have "load32 m a = load32 m' a" using h by (intro load32_cong) simp
  moreover have "load32 m (a + 4) = load32 m' (a + 4)"
    using h [of "4 + i" for i] by (intro load32_cong) (simp add: add.assoc)
  ultimately show ?thesis by (simp add: load64_def)
qed

lemma load32_bytes:
  assumes "\<And>i. i < 4 \<Longrightarrow> m (a + i) = byte_of32 v i"
  shows "load32 m a = v"
proof -
  have "load32 m a = ucast (byte_of32 v 0) OR push_bit 8 (ucast (byte_of32 v 1))
     OR push_bit 16 (ucast (byte_of32 v 2)) OR push_bit 24 (ucast (byte_of32 v 3))"
    using assms [of 0] assms [of 1] assms [of 2] assms [of 3] by (simp add: load32_def)
  also have "\<dots> = v"
  proof (rule bit_word_eqI)
    fix n :: nat
    assume "n < LENGTH(32)"
    then consider "n < 8" | "8 \<le> n \<and> n < 16" | "16 \<le> n \<and> n < 24" | "24 \<le> n \<and> n < 32"
      by fastforce
    then show "bit (ucast (byte_of32 v 0) OR push_bit 8 (ucast (byte_of32 v 1))
     OR push_bit 16 (ucast (byte_of32 v 2)) OR push_bit 24 (ucast (byte_of32 v 3)) :: u32) n = bit v n"
      by cases (auto simp: byte_of32_def bit_or_iff bit_push_bit_iff bit_ucast_iff bit_drop_bit_eq)
  qed
  finally show ?thesis .
qed

lemma byte_of32_load32:
  assumes "i < 4"
  shows "byte_of32 (load32 m a) i = m (a + i)"
proof (rule bit_word_eqI)
  fix n :: nat
  assume "n < LENGTH(8)"
  then have n: "n < 8" by simp
  consider "i = 0" | "i = 1" | "i = 2" | "i = 3" using assms by linarith
  then show "bit (byte_of32 (load32 m a) i) n = bit (m (a + i)) n"
    using n by cases (auto simp: byte_of32_def load32_def bit_ucast_iff bit_drop_bit_eq bit_or_iff
        bit_push_bit_iff dest: bit_imp_le_length)
qed

text \<open>
  The byte at \<open>b\<close> after a 32-bit (64-bit) value \<open>v\<close> was stored at \<open>a\<close>; the
  result is \<open>None\<close> where the store does not reach.
\<close>

definition stored32 :: "nat \<Rightarrow> u32 \<Rightarrow> nat \<Rightarrow> u8 option" where
  "stored32 a v b = (if a \<le> b \<and> b < a + 4 then Some (byte_of32 v (b - a)) else None)"

definition stored64 :: "nat \<Rightarrow> u64 \<Rightarrow> nat \<Rightarrow> u8 option" where
  "stored64 a v b = (if a \<le> b \<and> b < a + 8 then Some (byte_of64 v (b - a)) else None)"

lemma load64_bytes:
  assumes "\<And>i. i < 8 \<Longrightarrow> m (a + i) = byte_of64 v i"
  shows "load64 m a = v"
proof -
  have lo: "load32 m a = ucast v"
  proof (rule load32_bytes)
    fix i :: nat
    assume "i < 4"
    then have "m (a + i) = byte_of64 v i" using assms by simp
    also have "\<dots> = byte_of32 (ucast v) i"
      using \<open>i < 4\<close>
      by (intro bit_word_eqI) (auto simp: byte_of64_def byte_of32_def bit_ucast_iff bit_drop_bit_eq)
    finally show "m (a + i) = byte_of32 (ucast v) i" .
  qed
  have hi: "load32 m (a + 4) = ucast (drop_bit 32 v)"
  proof (rule load32_bytes)
    fix i :: nat
    assume "i < 4"
    then have "m (a + 4 + i) = byte_of64 v (4 + i)" using assms [of "4 + i"] by (simp add: add.assoc)
    also have "\<dots> = byte_of32 (ucast (drop_bit 32 v)) i"
      using \<open>i < 4\<close>
      by (intro bit_word_eqI)
        (auto simp: byte_of64_def byte_of32_def bit_ucast_iff bit_drop_bit_eq algebra_simps)
    finally show "m (a + 4 + i) = byte_of32 (ucast (drop_bit 32 v)) i" .
  qed
  show ?thesis unfolding load64_def lo hi
  proof (rule bit_word_eqI)
    fix n :: nat
    assume "n < LENGTH(64)"
    then show "bit (ucast (ucast v :: u32) OR push_bit 32 (ucast (ucast (drop_bit 32 v) :: u32)) :: u64) n = bit v n"
      by (cases "n < 32") (auto simp: bit_or_iff bit_push_bit_iff bit_ucast_iff bit_drop_bit_eq)
  qed
qed

section \<open>Bits of small masks\<close>

lemma mask1_neq_0: "(x AND 2 ^ n \<noteq> (0 :: 'a :: len word)) \<longleftrightarrow> n < LENGTH('a) \<and> bit x n"
proof
  assume h: "x AND 2 ^ n \<noteq> 0"
  have "\<exists>i. bit (x AND 2 ^ n) i"
  proof (rule ccontr)
    assume "\<nexists>i. bit (x AND 2 ^ n) i"
    then have "x AND 2 ^ n = 0" by (intro bit_eqI) simp
    with h show False ..
  qed
  then obtain i where "bit (x AND 2 ^ n) i" ..
  then show "n < LENGTH('a) \<and> bit x n"
    by (auto simp: bit_and_iff bit_exp_iff dest: bit_imp_le_length)
next
  assume "n < LENGTH('a) \<and> bit x n"
  then have "bit (x AND 2 ^ n) n" by (simp add: bit_and_iff bit_exp_iff)
  then show "x AND 2 ^ n \<noteq> 0" by force
qed

section \<open>Pages\<close>

lemma div_page_eq: "p * 4096 \<le> a \<Longrightarrow> a < p * 4096 + 4096 \<Longrightarrow> a div 4096 = (p :: nat)"
  by (rule div_nat_eqI) (auto simp: algebra_simps)

end
