(* ===== verification/Lists.thy ===== *)
theory Lists
  imports Prelude
begin

text \<open>
  The growable arrays \<open>struct list_s\<close> of \<open>c7/stm/list.h\<close> and
  \<open>c7/stm/list.c\<close>. A list is its header (\<open>count\<close>, \<open>last_allocated\<close>)
  and its item cells. \<open>malloc\<close> and \<open>realloc\<close> are parameters: \<open>ok n\<close> says
  whether a request of \<open>n\<close> bytes succeeds, \<open>junk\<close> is the content of fresh memory.
  An access past \<open>last_allocated\<close> is the error \<open>OutOfBounds\<close>, so a proof that an
  operation returns is also a proof that it stays inside its block. The other theories use
  plain HOL lists for these arrays; the interpretation at the end of this theory is what
  entitles them to.
\<close>

section \<open>Data\<close>

datatype list_error = FatalError string | OutOfBounds

record list_s =
  lcount :: nat
  last_allocated :: nat
  items :: "nat \<Rightarrow> u64"

definition LIST_ITEMSSIZE :: "nat \<Rightarrow> nat" where
  "LIST_ITEMSSIZE n = n * 8"

definition LIST_SETSIZE :: "nat \<Rightarrow> nat" where
  "LIST_SETSIZE n = 16 + LIST_ITEMSSIZE n"

definition LIST_OVERCNT :: "nat \<Rightarrow> nat" where
  "LIST_OVERCNT n = 33 + (((n div 2) * 3) OR 1)"

text \<open>A store to \<open>items[i]\<close> is checked against the allocated block.\<close>

definition store_item :: "list_s \<Rightarrow> nat \<Rightarrow> u64 \<Rightarrow> list_error + list_s" where
  "store_item lst i v =
     (if i \<le> last_allocated lst then Inr (lst\<lparr>items := (items lst)(i := v)\<rparr>)
      else Inl OutOfBounds)"

definition load_item :: "list_s \<Rightarrow> nat \<Rightarrow> list_error + u64" where
  "load_item lst i = (if i \<le> last_allocated lst then Inr (items lst i) else Inl OutOfBounds)"

section \<open>Operations\<close>

definition list_create :: "(nat \<Rightarrow> bool) \<Rightarrow> (nat \<Rightarrow> u64) \<Rightarrow> list_error + list_s" where
  "list_create ok junk =
     (let initial_allocation = 32
      in if \<not> ok (LIST_SETSIZE initial_allocation)
         then Inl (FatalError ''out of memory in list_create'')
         else Inr \<lparr>lcount = 0, last_allocated = initial_allocation - 1, items = junk\<rparr>)"

definition list_grow :: "(nat \<Rightarrow> bool) \<Rightarrow> list_s \<Rightarrow> nat \<Rightarrow> list_error + list_s" where
  "list_grow ok lst nalloc =
     (let nalloc = LIST_OVERCNT nalloc
      in if \<not> ok (LIST_SETSIZE nalloc)
         then Inl (FatalError ''out of memory in _list_grow'')
         else Inr (lst\<lparr>last_allocated := nalloc - 1\<rparr>))"

definition list_append :: "(nat \<Rightarrow> bool) \<Rightarrow> list_s \<Rightarrow> u64 \<Rightarrow> list_error + list_s" where
  "list_append ok lst item =
     (let index = lcount lst;
          lst = lst\<lparr>lcount := lcount lst + 1\<rparr>
      in case (if index > last_allocated lst then list_grow ok lst index else Inr lst) of
           Inl e \<Rightarrow> Inl e
         | Inr lst \<Rightarrow> store_item lst index item)"

definition list_append2 :: "(nat \<Rightarrow> bool) \<Rightarrow> list_s \<Rightarrow> u64 \<Rightarrow> u64 \<Rightarrow> list_error + list_s" where
  "list_append2 ok lst item0 item1 =
     (let index = lcount lst;
          lst = lst\<lparr>lcount := lcount lst + 2\<rparr>
      in case (if index \<ge> last_allocated lst then list_grow ok lst (index + 1) else Inr lst) of
           Inl e \<Rightarrow> Inl e
         | Inr lst \<Rightarrow>
             (case store_item lst (index + 0) item0 of
                Inl e \<Rightarrow> Inl e
              | Inr lst \<Rightarrow> store_item lst (index + 1) item1))"

definition list_clear :: "list_s \<Rightarrow> list_s" where
  "list_clear lst = lst\<lparr>lcount := 0\<rparr>"

definition list_is_empty :: "list_s \<Rightarrow> bool" where
  "list_is_empty lst \<longleftrightarrow> lcount lst = 0"

definition list_count :: "list_s \<Rightarrow> nat" where
  "list_count lst = lcount lst"

text \<open>\<open>lst->items[--lst->count]\<close>: with \<open>count = 0\<close> the decrement wraps and the read is out of bounds.\<close>

definition list_pop_item :: "list_s \<Rightarrow> list_error + (u64 \<times> list_s)" where
  "list_pop_item lst =
     (if lcount lst = 0 then Inl OutOfBounds
      else let lst = lst\<lparr>lcount := lcount lst - 1\<rparr>
           in case load_item lst (lcount lst) of Inl e \<Rightarrow> Inl e | Inr v \<Rightarrow> Inr (v, lst))"

definition list_item :: "list_s \<Rightarrow> nat \<Rightarrow> list_error + u64" where
  "list_item lst index = load_item lst index"

definition list_set_item :: "list_s \<Rightarrow> nat \<Rightarrow> u64 \<Rightarrow> list_error + list_s" where
  "list_set_item lst index newitem = store_item lst index newitem"

text \<open>\<open>memcpy\<close> of \<open>n\<close> items from \<open>src + j\<close> to \<open>items + i\<close>.\<close>

definition copy_items :: "list_s \<Rightarrow> nat \<Rightarrow> list_s \<Rightarrow> nat \<Rightarrow> nat \<Rightarrow> list_error + list_s" where
  "copy_items lst i src j n =
     (if n \<noteq> 0 \<and> (i + n - 1 > last_allocated lst \<or> j + n - 1 > last_allocated src)
      then Inl OutOfBounds
      else Inr (lst\<lparr>items :=
             (\<lambda>k. if i \<le> k \<and> k < i + n then items src (j + (k - i)) else items lst k)\<rparr>))"

definition list_extend :: "(nat \<Rightarrow> bool) \<Rightarrow> list_s \<Rightarrow> list_s \<Rightarrow> nat \<Rightarrow> list_error + list_s" where
  "list_extend ok lst lst2 slicestart =
     (if lcount lst2 \<le> slicestart then Inr lst
      else let baseindex = lcount lst;
               lst = lst\<lparr>lcount := baseindex + lcount lst2 - slicestart\<rparr>;
               lastindex = lcount lst - 1
           in case (if lastindex > last_allocated lst then list_grow ok lst lastindex else Inr lst) of
                Inl e \<Rightarrow> Inl e
              | Inr lst \<Rightarrow> copy_items lst baseindex lst2 slicestart (lcount lst2 - slicestart))"

section \<open>Abstraction and invariant\<close>

definition list_inv :: "list_s \<Rightarrow> bool" where
  "list_inv lst \<longleftrightarrow> lcount lst \<le> last_allocated lst + 1"

definition list_abs :: "list_s \<Rightarrow> u64 list" where
  "list_abs lst = map (items lst) [0..<lcount lst]"

lemma length_list_abs [simp]: "length (list_abs lst) = lcount lst"
  by (simp add: list_abs_def)

lemma nth_list_abs [simp]: "i < lcount lst \<Longrightarrow> list_abs lst ! i = items lst i"
  by (simp add: list_abs_def)

lemma LIST_OVERCNT_gt: "n + 33 \<le> LIST_OVERCNT n"
proof -
  have "(n div 2) * 3 OR 1 \<ge> (n div 2) * 3"
    by (metis le_add_same_cancel1 one_or_eq or.commute zero_le)
  moreover have "odd ((n div 2) * 3 OR 1)" by (simp add: even_or_iff)
  ultimately have "(n div 2) * 3 OR 1 \<ge> n"
    by (cases "n < 2") (auto elim!: oddE intro: order_trans [rotated])
  then show ?thesis by (simp add: LIST_OVERCNT_def)
qed

lemma list_grow_Inr:
  "list_grow ok lst n = Inr lst' \<Longrightarrow>
    lcount lst' = lcount lst \<and> items lst' = items lst \<and> n + 32 \<le> last_allocated lst'"
  using LIST_OVERCNT_gt [of n] by (auto simp: list_grow_def Let_def split: if_splits)

lemma list_grow_ok: "(\<And>n. ok n) \<Longrightarrow> \<exists>lst'. list_grow ok lst n = Inr lst'"
  by (simp add: list_grow_def Let_def)

lemma list_create_props:
  "list_create ok junk = Inr lst \<Longrightarrow> list_inv lst \<and> list_abs lst = []"
  by (auto simp: list_create_def list_inv_def list_abs_def Let_def split: if_splits)

text \<open>
  An append returns the list with the item at the end or reports that memory ran out; it
  never writes outside the block.
\<close>

lemma list_append_cases:
  assumes "list_inv lst"
  shows "(\<exists>lst'. list_append ok lst x = Inr lst' \<and> list_inv lst' \<and> list_abs lst' = list_abs lst @ [x])
     \<or> (list_append ok lst x = Inl (FatalError ''out of memory in _list_grow'') \<and> (\<exists>n. \<not> ok n))"
proof (cases "lcount lst > last_allocated lst")
  case False
  then show ?thesis
    by (auto simp: list_append_def store_item_def list_inv_def list_abs_def Let_def)
next
  case True
  show ?thesis
  proof (cases "list_grow ok (lst\<lparr>lcount := lcount lst + 1\<rparr>) (lcount lst)")
    case (Inl e)
    with True show ?thesis
      by (auto simp: list_append_def list_grow_def Let_def split: if_splits)
  next
    case (Inr l)
    from list_grow_Inr [OF Inr] True Inr show ?thesis
      by (auto simp: list_append_def store_item_def list_inv_def list_abs_def Let_def)
  qed
qed

lemma list_append2_cases:
  assumes "list_inv lst"
  shows "(\<exists>lst'. list_append2 ok lst x y = Inr lst' \<and> list_inv lst' \<and> list_abs lst' = list_abs lst @ [x, y])
     \<or> (list_append2 ok lst x y = Inl (FatalError ''out of memory in _list_grow'') \<and> (\<exists>n. \<not> ok n))"
proof (cases "lcount lst \<ge> last_allocated lst")
  case False
  then show ?thesis
    by (auto simp: list_append2_def store_item_def list_inv_def list_abs_def Let_def)
next
  case True
  show ?thesis
  proof (cases "list_grow ok (lst\<lparr>lcount := lcount lst + 2\<rparr>) (lcount lst + 1)")
    case (Inl e)
    with True show ?thesis
      by (auto simp: list_append2_def list_grow_def Let_def split: if_splits)
  next
    case (Inr l)
    from list_grow_Inr [OF Inr] True Inr show ?thesis
      by (auto simp: list_append2_def store_item_def list_inv_def list_abs_def Let_def)
  qed
qed

lemma list_extend_cases:
  assumes "list_inv lst" and "list_inv lst2"
  shows "(\<exists>lst'. list_extend ok lst lst2 k = Inr lst' \<and> list_inv lst'
            \<and> list_abs lst' = list_abs lst @ drop k (list_abs lst2))
     \<or> (list_extend ok lst lst2 k = Inl (FatalError ''out of memory in _list_grow'') \<and> (\<exists>n. \<not> ok n))"
proof (cases "lcount lst2 \<le> k")
  case True
  then show ?thesis using assms by (simp add: list_extend_def)
next
  case False
  define n where "n = lcount lst2 - k"
  define l0 where "l0 = lst\<lparr>lcount := lcount lst + n\<rparr>"
  have ext: "list_extend ok lst lst2 k =
     (case (if lcount l0 - 1 > last_allocated l0 then list_grow ok l0 (lcount l0 - 1) else Inr l0) of
        Inl e \<Rightarrow> Inl e | Inr l \<Rightarrow> copy_items l (lcount lst) lst2 k n)"
    using False unfolding l0_def n_def by (simp add: list_extend_def Let_def)
  have copy: "copy_items l (lcount lst) lst2 k n = Inr l' \<Longrightarrow> list_inv l'
       \<and> list_abs l' = list_abs lst @ drop k (list_abs lst2)"
    if "lcount l = lcount lst + n" "items l = items lst" "lcount lst + n \<le> last_allocated l + 1" for l l'
    using that False assms
    by (auto simp: copy_items_def list_inv_def n_def intro!: nth_equalityI
        simp: nth_append list_abs_def split: if_splits)
  have copies: "\<exists>l'. copy_items l (lcount lst) lst2 k n = Inr l'"
    if "lcount lst + n \<le> last_allocated l + 1" for l
    using that False assms by (auto simp: copy_items_def list_inv_def n_def)
  show ?thesis
  proof (cases "lcount l0 - 1 > last_allocated l0")
    case no: False
    then have "lcount lst + n \<le> last_allocated l0 + 1" by (simp add: l0_def)
    with copy [of l0] copies [of l0] no show ?thesis by (force simp: ext l0_def)
  next
    case yes: True
    show ?thesis
    proof (cases "list_grow ok l0 (lcount l0 - 1)")
      case (Inl e)
      with yes show ?thesis by (auto simp: ext list_grow_def Let_def split: if_splits)
    next
      case (Inr l)
      from list_grow_Inr [OF this] have "lcount l = lcount lst + n" "items l = items lst"
        "lcount lst + n \<le> last_allocated l + 1" by (auto simp: l0_def)
      with copy [of l] copies [of l] yes Inr show ?thesis by (force simp: ext)
    qed
  qed
qed

lemma list_pop_item_spec:
  assumes "list_inv lst" and "list_abs lst \<noteq> []"
  shows "\<exists>lst'. list_pop_item lst = Inr (last (list_abs lst), lst') \<and> list_inv lst'
           \<and> list_abs lst' = butlast (list_abs lst)"
proof -
  have pos: "lcount lst > 0" using assms(2) by (auto simp: list_abs_def)
  have "list_pop_item lst = Inr (items lst (lcount lst - 1), lst\<lparr>lcount := lcount lst - 1\<rparr>)"
    using pos assms(1) by (simp add: list_pop_item_def load_item_def list_inv_def Let_def)
  moreover have "last (list_abs lst) = items lst (lcount lst - 1)"
    using pos by (simp add: last_conv_nth assms(2))
  moreover have "list_abs (lst\<lparr>lcount := lcount lst - 1\<rparr>) = butlast (list_abs lst)"
    using pos by (intro nth_equalityI) (auto simp: nth_butlast)
  ultimately show ?thesis using assms(1) by (auto simp: list_inv_def)
qed

lemma list_item_spec: "list_inv lst \<Longrightarrow> i < length (list_abs lst) \<Longrightarrow> list_item lst i = Inr (list_abs lst ! i)"
  by (auto simp: list_item_def load_item_def list_inv_def)

lemma list_set_item_spec:
  "list_inv lst \<Longrightarrow> i < length (list_abs lst) \<Longrightarrow>
    \<exists>lst'. list_set_item lst i v = Inr lst' \<and> list_inv lst' \<and> list_abs lst' = (list_abs lst)[i := v]"
  by (auto simp: list_set_item_def store_item_def list_inv_def nth_list_update intro!: nth_equalityI)

section \<open>The interface the other components rely on\<close>

text \<open>
  A stack of words over an abstraction function: append, pop, read, overwrite and clear act
  as on a HOL list. \<open>run_appends\<close> shows the client side: a run of appends builds the list
  item by item, whatever the growth steps in between.
\<close>

locale word_stack =
  fixes inv :: "'l \<Rightarrow> bool"
    and abs :: "'l \<Rightarrow> u64 list"
    and append1 :: "'l \<Rightarrow> u64 \<Rightarrow> 'e + 'l"
    and pop :: "'l \<Rightarrow> 'e + (u64 \<times> 'l)"
    and clear :: "'l \<Rightarrow> 'l"
  assumes append_ok: "inv l \<Longrightarrow> \<exists>l'. append1 l x = Inr l' \<and> inv l' \<and> abs l' = abs l @ [x]"
    and pop_ok: "inv l \<Longrightarrow> abs l \<noteq> [] \<Longrightarrow>
      \<exists>l'. pop l = Inr (last (abs l), l') \<and> inv l' \<and> abs l' = butlast (abs l)"
    and clear_ok: "inv l \<Longrightarrow> inv (clear l) \<and> abs (clear l) = []"
begin

fun append_all :: "'l \<Rightarrow> u64 list \<Rightarrow> 'e + 'l" where
  "append_all l [] = Inr l"
| "append_all l (x # xs) = (case append1 l x of Inl e \<Rightarrow> Inl e | Inr l' \<Rightarrow> append_all l' xs)"

lemma run_appends: "inv l \<Longrightarrow> \<exists>l'. append_all l xs = Inr l' \<and> inv l' \<and> abs l' = abs l @ xs"
proof (induction xs arbitrary: l)
  case Nil
  then show ?case by simp
next
  case (Cons x xs)
  from append_ok [OF Cons.prems, of x] obtain l' where l': "append1 l x = Inr l'" "inv l'" "abs l' = abs l @ [x]"
    by blast
  from Cons.IH [OF l'(2)] l' show ?case by auto
qed

lemma append_pop: "inv l \<Longrightarrow> \<exists>l' l''. append1 l x = Inr l' \<and> pop l' = Inr (x, l'') \<and> inv l'' \<and> abs l'' = abs l"
  using append_ok [of l x] pop_ok by fastforce

end

interpretation lst: word_stack list_inv list_abs "list_append (\<lambda>_. True)" list_pop_item list_clear
proof
  show "list_inv l \<Longrightarrow> \<exists>l'. list_append (\<lambda>_. True) l x = Inr l' \<and> list_inv l' \<and> list_abs l' = list_abs l @ [x]" for l x
    using list_append_cases [of l "\<lambda>_. True" x] by auto
next
  show "list_inv l \<Longrightarrow> list_abs l \<noteq> [] \<Longrightarrow>
      \<exists>l'. list_pop_item l = Inr (last (list_abs l), l') \<and> list_inv l' \<and> list_abs l' = butlast (list_abs l)" for l
    by (rule list_pop_item_spec)
next
  show "list_inv l \<Longrightarrow> list_inv (list_clear l) \<and> list_abs (list_clear l) = []" for l
    by (simp add: list_inv_def list_clear_def list_abs_def)
qed

end
