(* ===== verification/Tree.thy ===== *)
theory Tree
  imports Prelude
begin

text \<open>
  The radix tree \<open>struct tree_s\<close> of \<open>c7/stm/list.h\<close> and \<open>c7/stm/list.c\<close>:
  a map from non-null addresses to words, used for \<open>young_outside_nursery\<close>,
  \<open>nursery_objects_shadows\<close>, the commit/abort callbacks and the prebuilt objects. Nodes
  and items are carved out of one raw block; when it is full, the block is replaced by a
  bigger one and every live item is inserted again. The model keeps the nodes as a
  datatype and the raw block as its size and the bytes used so far. A deleted item is an
  \<open>EItem\<close> with address 0, as in the code.
\<close>

section \<open>Data\<close>

definition TREE_BITS :: nat where "TREE_BITS = 4"
definition TREE_ARITY :: nat where "TREE_ARITY = 16"
definition TREE_DEPTH_MAX :: nat where "TREE_DEPTH_MAX = (64 + TREE_BITS - 1) div TREE_BITS"

definition TREE_HASH :: "u64 \<Rightarrow> u64" where
  "TREE_HASH key = key XOR push_bit 4 key"

definition TREE_MASK :: u64 where
  "TREE_MASK = 0x78"

text \<open>The slot selected by \<open>(key >> shift) & TREE_MASK\<close>, a byte offset in an array of pointers.\<close>

definition slot :: "u64 \<Rightarrow> nat \<Rightarrow> nat" where
  "slot key shift = unat (drop_bit shift key AND TREE_MASK) div 8"

datatype tree_entry = ENull | EItem u64 u64 | ENode "tree_entry list"

record tree_s =
  raw_size :: nat
  raw_used :: nat
  toplevel :: "tree_entry list"

datatype tree_error = TreeDepth | TreeFatal string | TreeFuel

definition tree_create :: tree_s where
  "tree_create = \<lparr>raw_size = 0, raw_used = 0, toplevel = replicate TREE_ARITY ENull\<rparr>"

definition tree_clear :: "tree_s \<Rightarrow> tree_s" where
  "tree_clear t = (if raw_used t \<noteq> 0
     then t\<lparr>toplevel := replicate TREE_ARITY ENull, raw_used := 0\<rparr> else t)"

definition tree_is_cleared :: "tree_s \<Rightarrow> bool" where
  "tree_is_cleared t \<longleftrightarrow> raw_used t = 0"

section \<open>Enumeration\<close>

text \<open>Reference: the live items below an entry, in slot order.\<close>

fun entry_items :: "tree_entry \<Rightarrow> (u64 \<times> u64) list" where
  "entry_items ENull = []"
| "entry_items (EItem a v) = (if a = 0 then [] else [(a, v)])"
| "entry_items (ENode xs) = concat (map entry_items xs)"

definition tree_items :: "tree_s \<Rightarrow> (u64 \<times> u64) list" where
  "tree_items t = entry_items (ENode (toplevel t))"

text \<open>
  The loop of \<open>TREE_LOOP_FORWARD\<close>: \<open>next\<close> is the rest of the current node
  (\<open>_next\<close> to \<open>_end\<close>), \<open>stk\<close> the array \<open>_stack\<close> of
  \<open>TREE_DEPTH_MAX\<close> entries; overflowing it is \<open>None\<close>.
\<close>

fun entry_weight :: "tree_entry \<Rightarrow> nat" where
  "entry_weight ENull = 1"
| "entry_weight (EItem a v) = 1"
| "entry_weight (ENode xs) = 2 + sum_list (map entry_weight xs)"

function tree_loop :: "tree_entry list \<Rightarrow> tree_entry list list \<Rightarrow> (u64 \<times> u64) list option" where
  "tree_loop [] [] = Some []"
| "tree_loop [] (nxt # stk) = tree_loop nxt stk"
| "tree_loop (ENull # nxt) stk = tree_loop nxt stk"
| "tree_loop (ENode xs # nxt) stk =
     (if length stk < TREE_DEPTH_MAX then tree_loop xs (nxt # stk) else None)"
| "tree_loop (EItem a v # nxt) stk =
     (if a = 0 then tree_loop nxt stk else map_option (Cons (a, v)) (tree_loop nxt stk))"
  by pat_completeness auto
termination
  by (relation "measure (\<lambda>(nxt, stk). sum_list (map entry_weight nxt)
        + sum_list (map (\<lambda>fr. Suc (sum_list (map entry_weight fr))) stk))") auto

section \<open>Lookup and deletion\<close>

lemma entry_weight_nth: "i < length xs \<Longrightarrow> entry_weight (xs ! i) < entry_weight (ENode xs)"
proof -
  assume "i < length xs"
  then have "entry_weight (xs ! i) \<le> sum_list (map entry_weight xs)"
    by (intro member_le_sum_list) auto
  then show ?thesis by simp
qed

text \<open>\<open>_tree_find\<close>: follow the nodes, four bits of the key at a time.\<close>

function tree_find_entry :: "tree_entry \<Rightarrow> u64 \<Rightarrow> (u64 \<times> u64) option" where
  "tree_find_entry ENull key = None"
| "tree_find_entry (EItem a v) key = Some (a, v)"
| "tree_find_entry (ENode xs) key =
     (let key = drop_bit TREE_BITS key; i = slot key 0
      in if i < length xs then tree_find_entry (xs ! i) key else None)"
  by pat_completeness auto
termination
  by (relation "measure (\<lambda>(e, key). entry_weight e)") (auto simp: entry_weight_nth simp del: entry_weight.simps)

text \<open>The macro \<open>TREE_FIND\<close>.\<close>

definition tree_lookup :: "tree_s \<Rightarrow> u64 \<Rightarrow> u64 option" where
  "tree_lookup t addr =
     (let key = TREE_HASH addr; entry = toplevel t ! slot key 0
      in if entry = ENull then None
         else case tree_find_entry entry key of
                None \<Rightarrow> None
              | Some (a, v) \<Rightarrow> if a \<noteq> addr then None else Some v)"

definition tree_contains :: "tree_s \<Rightarrow> u64 \<Rightarrow> bool" where
  "tree_contains t addr = (case tree_lookup t addr of None \<Rightarrow> False | Some _ \<Rightarrow> True)"

text \<open>Deletion overwrites the address of the found item with 0.\<close>

function tree_zero_entry :: "tree_entry \<Rightarrow> u64 \<Rightarrow> tree_entry" where
  "tree_zero_entry ENull key = ENull"
| "tree_zero_entry (EItem a v) key = EItem 0 v"
| "tree_zero_entry (ENode xs) key =
     (let key = drop_bit TREE_BITS key; i = slot key 0
      in if i < length xs then ENode (xs[i := tree_zero_entry (xs ! i) key]) else ENode xs)"
  by pat_completeness auto
termination
  by (relation "measure (\<lambda>(e, key). entry_weight e)") (auto simp: entry_weight_nth simp del: entry_weight.simps)

definition tree_delete_item :: "tree_s \<Rightarrow> u64 \<Rightarrow> bool \<times> tree_s" where
  "tree_delete_item t addr =
     (case tree_lookup t addr of
        None \<Rightarrow> (False, t)
      | Some _ \<Rightarrow>
          (let key = TREE_HASH addr; i = slot key 0
           in (True, t\<lparr>toplevel := (toplevel t)[i := tree_zero_entry (toplevel t ! i) key]\<rparr>)))"

section \<open>Insertion\<close>

text \<open>
  One pass of the loop of \<open>tree_insert\<close> from the slot that holds an entry; \<open>shift\<close>
  is its value after the increment, \<open>used\<close> and \<open>cap\<close> the raw block. \<open>IRetry\<close> is
  \<open>_tree_grab\<close> returning NULL: it carries the entry as modified so far, the advanced
  \<open>raw_current\<close> and the number of bytes asked for. \<open>IDepth\<close> is the failed assertion on
  \<open>shift\<close>.
\<close>

datatype ins_result = IDone tree_entry nat | IRetry tree_entry nat nat | IDepth

fun set_slot :: "tree_entry list \<Rightarrow> nat \<Rightarrow> ins_result \<Rightarrow> ins_result" where
  "set_slot xs i (IDone e u) = IDone (ENode (xs[i := e])) u"
| "set_slot xs i (IRetry e u x) = IRetry (ENode (xs[i := e])) u x"
| "set_slot xs i IDepth = IDepth"

function ins_entry :: "u64 \<Rightarrow> u64 \<Rightarrow> nat \<Rightarrow> nat \<Rightarrow> nat \<Rightarrow> tree_entry \<Rightarrow> ins_result" where
  "ins_entry addr val cap shift used ENull =
     (let used = used + 16
      in if used > cap then IRetry ENull used 16 else IDone (EItem addr val) used)"
| "ins_entry addr val cap shift used (ENode xs) =
     (if shift < TREE_DEPTH_MAX * TREE_BITS
      then let i = slot (TREE_HASH addr) shift
           in set_slot xs i (ins_entry addr val cap (shift + TREE_BITS) used (xs ! i))
      else IDepth)"
| "ins_entry addr val cap shift used (EItem a v) =
     (if a = 0 then IDone (EItem addr val) used
      else let used = used + 128
           in if used > cap then IRetry (EItem a v) used 128
              else ins_entry addr val cap shift used
                     (ENode ((replicate TREE_ARITY ENull)[slot (TREE_HASH a) shift := EItem a v])))"
  by pat_completeness auto
termination
  by (relation "measure (\<lambda>(addr, val, cap, shift, used, e).
        2 * (64 - shift) + (case e of EItem _ _ \<Rightarrow> 1 | _ \<Rightarrow> 0))")
    (auto simp: TREE_DEPTH_MAX_def TREE_BITS_def split: tree_entry.splits)

declare ins_entry.simps [simp del]

fun node_slots :: "tree_entry \<Rightarrow> tree_entry list" where
  "node_slots (ENode xs) = xs"
| "node_slots _ = []"

definition tree_newalloc :: "nat \<Rightarrow> nat \<Rightarrow> nat" where
  "tree_newalloc alloc extra = ((alloc + extra + alloc div 4 + 31) div 16) * 16"

text \<open>
  \<open>tree_insert\<close> with \<open>_tree_grow\<close> unfolded at the \<open>goto retry\<close>: grow, insert
  every live item into the new block, and start over. The fuel bounds the retries.
\<close>

fun tree_insert :: "nat \<Rightarrow> (nat \<Rightarrow> bool) \<Rightarrow> tree_s \<Rightarrow> u64 \<Rightarrow> u64 \<Rightarrow> tree_error + tree_s" where
  "tree_insert 0 ok t addr val = Inl TreeFuel"
| "tree_insert (Suc n) ok t addr val =
     (case ins_entry addr val (raw_size t) 0 (raw_used t) (ENode (toplevel t)) of
        IDone e u \<Rightarrow> Inr (t\<lparr>toplevel := node_slots e, raw_used := u\<rparr>)
      | IDepth \<Rightarrow> Inl TreeDepth
      | IRetry e u extra \<Rightarrow>
          (let t = t\<lparr>toplevel := node_slots e, raw_used := u\<rparr>;
               newalloc = tree_newalloc (raw_size t) extra
           in if \<not> ok newalloc then Inl (TreeFatal ''out of memory!'')
              else case foldl (\<lambda>r (a, v). case r of Inl e \<Rightarrow> Inl e | Inr t' \<Rightarrow> tree_insert n ok t' a v)
                       (Inr \<lparr>raw_size = newalloc, raw_used = 0, toplevel = replicate TREE_ARITY ENull\<rparr>)
                       (tree_items t) of
                     Inl e \<Rightarrow> Inl e
                   | Inr t' \<Rightarrow> tree_insert n ok t' addr val))"

section \<open>Slots and hashes\<close>

lemma bit_TREE_MASK: "bit TREE_MASK n \<longleftrightarrow> 3 \<le> n \<and> n < 7"
proof -
  have "TREE_MASK = push_bit 3 (mask 4)" by (simp add: TREE_MASK_def mask_eq_exp_minus_1)
  then have "bit TREE_MASK n = bit (push_bit 3 (mask 4) :: u64) n" by simp
  also have "\<dots> \<longleftrightarrow> 3 \<le> n \<and> n < 7" by (auto simp: bit_push_bit_iff bit_mask_iff)
  finally show ?thesis .
qed

lemma unat_take_bit_4: "unat (take_bit 4 (w :: u64)) < 16"
  using take_bit_nat_less_exp [of 4 "unat w"] by (simp add: unsigned_take_bit_eq)

lemma slot_take_bit: "slot key s = unat (take_bit 4 (drop_bit (s + 3) key))"
proof -
  let ?x = "take_bit 4 (drop_bit (s + 3) key)"
  have "drop_bit s key AND TREE_MASK = push_bit 3 ?x"
    by (rule bit_word_eqI)
      (auto simp: bit_TREE_MASK bit_and_iff bit_push_bit_iff bit_take_bit_iff bit_drop_bit_eq)
  moreover have "unat (push_bit 3 ?x) = unat ?x * 8"
    using unat_take_bit_4 [of "drop_bit (s + 3) key"]
    by (simp add: push_bit_eq_mult unat_word_ariths)
  ultimately show ?thesis by (simp add: slot_def)
qed

lemma slot_less [simp]: "slot key s < 16"
  by (simp add: slot_take_bit unat_take_bit_4)

lemma slot_drop_bit [simp]: "slot (drop_bit t key) s = slot key (s + t)"
  by (simp add: slot_take_bit ac_simps)

lemma slot_eq_bits:
  assumes "slot k s = slot k' s" and "s + 3 \<le> n" and "n < s + 7"
  shows "bit k n = bit k' n"
proof -
  have "take_bit 4 (drop_bit (s + 3) k) = take_bit 4 (drop_bit (s + 3) k')"
    using assms(1) by (simp add: slot_take_bit word_unat_eq_iff)
  then have "bit (take_bit 4 (drop_bit (s + 3) k)) (n - (s + 3)) = bit (take_bit 4 (drop_bit (s + 3) k')) (n - (s + 3))"
    by simp
  with assms(2,3) show ?thesis by (auto simp: bit_take_bit_iff bit_drop_bit_eq)
qed

text \<open>
  The hash of an 8-aligned key determines the key from its bits 3 to 63, the only bits the
  sixteen levels look at.
\<close>

definition aligned8 :: "u64 \<Rightarrow> bool" where
  "aligned8 a \<longleftrightarrow> a AND 7 = 0"

lemma aligned8_bits: "aligned8 a \<Longrightarrow> n < 3 \<Longrightarrow> \<not> bit a n"
proof
  assume "aligned8 a" "n < 3" "bit a n"
  then have "bit (a AND 7) n"
    by (auto simp: bit_and_iff less_Suc_eq numeral_eq_Suc bit_simps)
  with \<open>aligned8 a\<close> show False by (simp add: aligned8_def)
qed

lemma TREE_HASH_bit: "bit (TREE_HASH a) n \<longleftrightarrow> (bit a n \<noteq> (4 \<le> n \<and> n < 64 \<and> bit a (n - 4)))"
  by (auto simp: TREE_HASH_def bit_xor_iff bit_push_bit_iff)

lemma TREE_HASH_inj:
  assumes al: "aligned8 a" "aligned8 b"
    and eq: "\<And>n. 3 \<le> n \<Longrightarrow> n < 64 \<Longrightarrow> bit (TREE_HASH a) n = bit (TREE_HASH b) n"
  shows "a = b"
proof (rule bit_word_eqI)
  fix n :: nat
  assume "n < LENGTH(64)"
  then have "n < 64" by simp
  then show "bit a n = bit b n"
  proof (induction n rule: less_induct)
    case (less n)
    show ?case
    proof (cases "n < 3")
      case True
      with al show ?thesis by (simp add: aligned8_bits)
    next
      case False
      with eq [of n] less.prems have "bit (TREE_HASH a) n = bit (TREE_HASH b) n" by simp
      moreover have "4 \<le> n \<Longrightarrow> bit a (n - 4) = bit b (n - 4)" using less by simp
      ultimately show ?thesis using less.prems by (auto simp: TREE_HASH_bit)
    qed
  qed
qed

text \<open>\<open>agree s h h'\<close>: the first levels, up to shift \<open>s\<close>, cannot tell the hashes apart.\<close>

definition agree :: "nat \<Rightarrow> u64 \<Rightarrow> u64 \<Rightarrow> bool" where
  "agree s h h' \<longleftrightarrow> (\<forall>n. 3 \<le> n \<longrightarrow> n < s + 3 \<longrightarrow> bit h n = bit h' n)"

lemma agree_0 [simp]: "agree 0 h h'"
  by (simp add: agree_def)

lemma agree_step:
  assumes "agree s h h'" and "slot h s = slot h' s"
  shows "agree (s + 4) h h'"
  unfolding agree_def
proof (intro allI impI)
  fix n :: nat
  assume "3 \<le> n" "n < s + 4 + 3"
  show "bit h n = bit h' n"
  proof (cases "n < s + 3")
    case True
    with assms(1) \<open>3 \<le> n\<close> show ?thesis by (simp add: agree_def)
  next
    case False
    with \<open>n < s + 4 + 3\<close> show ?thesis by (intro slot_eq_bits [OF assms(2)]) auto
  qed
qed

lemma agree_full:
  "aligned8 a \<Longrightarrow> aligned8 b \<Longrightarrow> 64 \<le> s \<Longrightarrow> agree s (TREE_HASH a) (TREE_HASH b) \<Longrightarrow> a = b"
  by (rule TREE_HASH_inj) (auto simp: agree_def)

section \<open>Well-formed trees\<close>

text \<open>
  \<open>wf_entry s e\<close>: below \<open>e\<close>, indexed from shift \<open>s\<close> on, every node has
  sixteen slots and every live item is in the slot its hash selects.
\<close>

inductive wf_entry :: "nat \<Rightarrow> tree_entry \<Rightarrow> bool" where
  null: "wf_entry s ENull"
| item: "wf_entry s (EItem a v)"
| node: "length xs = 16 \<Longrightarrow> s < 64 \<Longrightarrow> (\<And>i. i < 16 \<Longrightarrow> wf_entry (s + 4) (xs ! i)) \<Longrightarrow>
    (\<And>i a v. i < 16 \<Longrightarrow> (a, v) \<in> set (entry_items (xs ! i)) \<Longrightarrow> slot (TREE_HASH a) s = i) \<Longrightarrow>
    wf_entry s (ENode xs)"

inductive_cases wf_nodeE: "wf_entry s (ENode xs)"

declare wf_entry.null [simp] wf_entry.item [simp]

lemma wf_node_iff:
  "wf_entry s (ENode xs) \<longleftrightarrow> length xs = 16 \<and> s < 64 \<and> (\<forall>i < 16. wf_entry (s + 4) (xs ! i)) \<and>
    (\<forall>i < 16. \<forall>(a, v) \<in> set (entry_items (xs ! i)). slot (TREE_HASH a) s = i)"
proof
  assume "wf_entry s (ENode xs)"
  then show "length xs = 16 \<and> s < 64 \<and> (\<forall>i < 16. wf_entry (s + 4) (xs ! i)) \<and>
    (\<forall>i < 16. \<forall>(a, v) \<in> set (entry_items (xs ! i)). slot (TREE_HASH a) s = i)"
    by (rule wf_nodeE) blast
next
  assume "length xs = 16 \<and> s < 64 \<and> (\<forall>i < 16. wf_entry (s + 4) (xs ! i)) \<and>
    (\<forall>i < 16. \<forall>(a, v) \<in> set (entry_items (xs ! i)). slot (TREE_HASH a) s = i)"
  then show "wf_entry s (ENode xs)" by (intro wf_entry.node) blast+
qed

lemma items_node_iff:
  assumes "length xs = 16"
  shows "p \<in> set (entry_items (ENode xs)) \<longleftrightarrow> (\<exists>i < 16. p \<in> set (entry_items (xs ! i)))"
proof -
  have "p \<in> set (entry_items (ENode xs)) \<longleftrightarrow> (\<exists>x \<in> set xs. p \<in> set (entry_items x))" by simp
  also have "\<dots> \<longleftrightarrow> (\<exists>i < 16. p \<in> set (entry_items (xs ! i)))"
    using assms by (metis in_set_conv_nth)
  finally show ?thesis .
qed

lemma items_node_slot:
  assumes "wf_entry s (ENode xs)"
  shows "(a, v) \<in> set (entry_items (ENode xs)) \<longleftrightarrow>
    (a, v) \<in> set (entry_items (xs ! slot (TREE_HASH a) s))"
proof -
  have len: "length xs = 16"
    and all: "\<forall>i < 16. \<forall>(a, v) \<in> set (entry_items (xs ! i)). slot (TREE_HASH a) s = i"
    using assms unfolding wf_node_iff by blast+
  from all have slots: "\<And>i. i < 16 \<Longrightarrow> (a, v) \<in> set (entry_items (xs ! i)) \<Longrightarrow> slot (TREE_HASH a) s = i"
    by blast
  show ?thesis unfolding items_node_iff [OF len] using slots slot_less by metis
qed

lemma items_nonzero: "(a, v) \<in> set (entry_items e) \<Longrightarrow> a \<noteq> 0"
  by (induction e rule: entry_items.induct) (auto split: if_splits)

declare entry_items.simps(3) [simp del]

definition wf_tree :: "tree_s \<Rightarrow> bool" where
  "wf_tree t \<longleftrightarrow> wf_entry 0 (ENode (toplevel t))"

text \<open>\<open>_tree_find\<close> reaches exactly the items: its shifted key tracks the level.\<close>

lemma find_entry_item:
  assumes "wf_entry (t + 4) e" and "(a, v) \<in> set (entry_items e)"
  shows "tree_find_entry e (drop_bit t (TREE_HASH a)) = Some (a, v)"
  using assms
proof (induction e arbitrary: t rule: tree_entry.induct)
  case ENull
  then show ?case by simp
next
  case (EItem x y)
  then show ?case by (simp split: if_splits)
next
  case (ENode xs)
  let ?i = "slot (TREE_HASH a) (t + 4)"
  have len: "length xs = 16" and wf: "wf_entry ((t + 4) + 4) (xs ! ?i)"
    and mem: "(a, v) \<in> set (entry_items (xs ! ?i))"
    using ENode.prems items_node_slot [OF ENode.prems(1)] slot_less by (auto simp: wf_node_iff)
  have "tree_find_entry (xs ! ?i) (drop_bit (t + 4) (TREE_HASH a)) = Some (a, v)"
    using ENode.IH [OF _ wf mem] len by simp
  then show ?case by (simp add: Let_def TREE_BITS_def len add.commute)
qed

lemma find_entry_sound:
  "wf_entry s e \<Longrightarrow> tree_find_entry e k = Some (a, v) \<Longrightarrow> a \<noteq> 0 \<Longrightarrow> (a, v) \<in> set (entry_items e)"
proof (induction e k arbitrary: s rule: tree_find_entry.induct)
  case (3 xs key)
  let ?i = "slot (drop_bit 4 key) 0"
  have len: "length xs = 16" and wf: "wf_entry (s + 4) (xs ! ?i)"
    using "3.prems"(1) by (auto simp: wf_node_iff)
  have "tree_find_entry (xs ! ?i) (drop_bit 4 key) = Some (a, v)"
    using "3.prems"(2) len by (simp add: Let_def TREE_BITS_def)
  then have "(a, v) \<in> set (entry_items (xs ! ?i))"
    using "3.IH" [OF refl refl _ _ _ "3.prems"(3)] wf len by (simp add: TREE_BITS_def)
  then show ?case using len by (auto simp: items_node_iff intro!: exI [of _ ?i])
qed auto

lemma tree_lookup_iff:
  assumes "wf_tree t" and "a \<noteq> 0"
  shows "tree_lookup t a = Some v \<longleftrightarrow> (a, v) \<in> set (tree_items t)"
proof -
  let ?i = "slot (TREE_HASH a) 0"
  let ?e = "toplevel t ! ?i"
  have wf: "wf_entry 4 ?e" and len: "length (toplevel t) = 16"
    using assms(1) by (auto simp: wf_tree_def wf_node_iff)
  have items: "(a, v) \<in> set (tree_items t) \<longleftrightarrow> (a, v) \<in> set (entry_items ?e)"
    using items_node_slot [of 0 "toplevel t" a v] assms(1) by (simp add: tree_items_def wf_tree_def)
  show ?thesis
  proof
    assume "tree_lookup t a = Some v"
    then have "tree_find_entry ?e (TREE_HASH a) = Some (a, v)"
      by (auto simp: tree_lookup_def Let_def split: if_splits option.splits)
    from find_entry_sound [OF wf this assms(2)] items show "(a, v) \<in> set (tree_items t)" by simp
  next
    assume "(a, v) \<in> set (tree_items t)"
    then have mem: "(a, v) \<in> set (entry_items ?e)" using items by simp
    then have "?e \<noteq> ENull" by auto
    moreover have "tree_find_entry ?e (TREE_HASH a) = Some (a, v)"
      using find_entry_item [of 0 ?e a v] wf mem by simp
    ultimately show "tree_lookup t a = Some v" by (simp add: tree_lookup_def Let_def)
  qed
qed

lemma items_functional:
  assumes "wf_tree t" and "(a, v) \<in> set (tree_items t)" and "(a, w) \<in> set (tree_items t)"
  shows "v = w"
proof -
  have "a \<noteq> 0" using assms(2) items_nonzero by (auto simp: tree_items_def)
  then show ?thesis using tree_lookup_iff [OF assms(1)] assms(2,3) by (metis option.inject)
qed

section \<open>Enumeration is the reference enumeration\<close>

lemma tree_loop_gen:
  assumes "\<forall>e \<in> set nxt. wf_entry (4 * (length stk + 1)) e"
    and "\<forall>j < length stk. \<forall>e \<in> set (stk ! j). wf_entry (4 * (length stk - j)) e"
  shows "tree_loop nxt stk =
    Some (concat (map entry_items nxt) @ concat (map (concat \<circ> map entry_items) stk))"
  using assms
proof (induction nxt stk rule: tree_loop.induct)
  case 1
  then show ?case by simp
next
  case (2 nxt stk)
  have "\<forall>e \<in> set nxt. wf_entry (4 * (length stk + 1)) e" using "2.prems"(2) by force
  moreover have "\<forall>j < length stk. \<forall>e \<in> set (stk ! j). wf_entry (4 * (length stk - j)) e"
    using "2.prems"(2) by force
  ultimately show ?case using "2.IH" by simp
next
  case (3 nxt stk)
  then show ?case by simp
next
  case (4 xs nxt stk)
  have wf: "wf_entry (4 * (length stk + 1)) (ENode xs)" using "4.prems"(1) by simp
  then have small: "length stk < TREE_DEPTH_MAX"
    by (simp add: wf_node_iff TREE_DEPTH_MAX_def TREE_BITS_def)
  have a: "\<forall>e \<in> set xs. wf_entry (4 * (length (nxt # stk) + 1)) e"
  proof
    fix e
    assume "e \<in> set xs"
    then obtain i where "i < 16" "e = xs ! i" using wf by (auto simp: wf_node_iff in_set_conv_nth)
    then show "wf_entry (4 * (length (nxt # stk) + 1)) e" using wf by (simp add: wf_node_iff add.commute)
  qed
  have b: "\<forall>j < length (nxt # stk). \<forall>e \<in> set ((nxt # stk) ! j). wf_entry (4 * (length (nxt # stk) - j)) e"
  proof (intro allI impI)
    fix j
    assume j: "j < length (nxt # stk)"
    show "\<forall>e \<in> set ((nxt # stk) ! j). wf_entry (4 * (length (nxt # stk) - j)) e"
    proof (cases j)
      case 0
      then show ?thesis using "4.prems"(1) by simp
    next
      case (Suc i)
      then show ?thesis using "4.prems"(2) j by simp
    qed
  qed
  show ?case using "4.IH" [OF small a b] small by (simp add: entry_items.simps(3))
next
  case (5 a v nxt stk)
  then show ?case by auto
qed

lemma tree_loop_items: "wf_tree t \<Longrightarrow> tree_loop (toplevel t) [] = Some (tree_items t)"
proof -
  assume wf: "wf_tree t"
  have "\<forall>e \<in> set (toplevel t). wf_entry 4 e"
    using wf by (auto simp: wf_tree_def wf_node_iff in_set_conv_nth)
  then show ?thesis
    using tree_loop_gen [of "toplevel t" "[]"] by (simp add: tree_items_def entry_items.simps(3))
qed

section \<open>Insertion below one entry\<close>

abbreviation items :: "tree_entry \<Rightarrow> (u64 \<times> u64) set" where
  "items e \<equiv> set (entry_items e)"

lemma slot_update:
  assumes "length xs = 16"
  shows "items (ENode (xs[i := e])) = (if i < 16 then items e \<union> (\<Union>j \<in> {..<16} - {i}. items (xs ! j)) else items (ENode xs))"
proof (cases "i < 16")
  case True
  have "p \<in> items (ENode (xs[i := e])) \<longleftrightarrow> p \<in> items e \<union> (\<Union>j \<in> {..<16} - {i}. items (xs ! j))" for p
  proof -
    have "p \<in> items (ENode (xs[i := e])) \<longleftrightarrow> (\<exists>j < 16. p \<in> items (xs[i := e] ! j))"
      using assms by (intro items_node_iff) simp
    also have "\<dots> \<longleftrightarrow> p \<in> items e \<union> (\<Union>j \<in> {..<16} - {i}. items (xs ! j))"
      using True assms by (auto simp: nth_list_update)
    finally show ?thesis .
  qed
  with True show ?thesis by auto
next
  case False
  with assms show ?thesis by (simp add: list_update_beyond)
qed

lemma items_node_split:
  assumes "length xs = 16" and "i < 16"
  shows "items (ENode xs) = items (xs ! i) \<union> (\<Union>j \<in> {..<16} - {i}. items (xs ! j))"
  using slot_update [OF assms(1), of i "xs ! i"] assms by simp

lemma wf_slot_update:
  assumes wf: "wf_entry s (ENode xs)" and e: "wf_entry (s + 4) e"
    and sl: "\<And>a v. (a, v) \<in> items e \<Longrightarrow> slot (TREE_HASH a) s = i"
  shows "wf_entry s (ENode (xs[i := e]))"
proof (rule wf_entry.node)
  show "length (xs[i := e]) = 16" "s < 64" using wf by (auto simp: wf_node_iff)
next
  fix j :: nat
  assume "j < 16"
  then show "wf_entry (s + 4) (xs[i := e] ! j)"
    using wf e by (cases "i = j") (auto simp: wf_node_iff)
next
  fix j :: nat and a v
  assume "j < 16" "(a, v) \<in> set (entry_items (xs[i := e] ! j))"
  then show "slot (TREE_HASH a) s = j"
    using wf sl by (cases "i = j") (auto simp: wf_node_iff)
qed

lemma items_index:
  assumes "wf_entry s (ENode xs)" and "i < 16" and "(a, v) \<in> items (xs ! i)"
  shows "slot (TREE_HASH a) s = i"
proof -
  have "\<forall>i < 16. \<forall>(a, v) \<in> items (xs ! i). slot (TREE_HASH a) s = i"
    using assms(1) unfolding wf_node_iff by blast
  with assms(2,3) show ?thesis by blast
qed

lemma items_slot_hash:
  assumes "wf_entry s (ENode xs)" and "(a, v) \<in> items (xs ! slot k s)"
  shows "slot (TREE_HASH a) s = slot k s"
proof -
  have "\<forall>i < 16. \<forall>(a, v) \<in> items (xs ! i). slot (TREE_HASH a) s = i"
    using assms(1) unfolding wf_node_iff by blast
  with assms(2) slot_less [of k s] show ?thesis by blast
qed

text \<open>The node that replaces an item when a second one arrives.\<close>

definition single :: "nat \<Rightarrow> u64 \<Rightarrow> u64 \<Rightarrow> tree_entry list" where
  "single s a v = (replicate TREE_ARITY ENull)[slot (TREE_HASH a) s := EItem a v]"

lemma length_single [simp]: "length (single s a v) = 16"
  by (simp add: single_def TREE_ARITY_def)

lemma single_nth: "i < 16 \<Longrightarrow> single s a v ! i = (if i = slot (TREE_HASH a) s then EItem a v else ENull)"
  by (simp add: single_def TREE_ARITY_def nth_list_update)

lemma items_single: "items (ENode (single s a v)) = items (EItem a v)"
proof -
  have "p \<in> items (ENode (single s a v)) \<longleftrightarrow> p \<in> items (EItem a v)" for p
    unfolding items_node_iff [OF length_single]
    by (auto simp: single_nth intro!: exI [of _ "slot (TREE_HASH a) s"] split: if_splits)
  then show ?thesis by blast
qed

lemma wf_single: "s < 64 \<Longrightarrow> wf_entry s (ENode (single s a v))"
  unfolding wf_node_iff by (auto simp: single_nth split: if_splits)

lemma ins_entry_item:
  "ins_entry addr val cap s used (EItem a v) =
     (if a = 0 then IDone (EItem addr val) used
      else if used + 128 > cap then IRetry (EItem a v) (used + 128) 128
      else ins_entry addr val cap s (used + 128) (ENode (single s a v)))"
  by (simp add: ins_entry.simps(3) [of _ _ _ _ _ a] Let_def single_def)

lemma ins_entry_node:
  "ins_entry addr val cap s used (ENode xs) =
     (if s < 64 then set_slot xs (slot (TREE_HASH addr) s)
        (ins_entry addr val cap (s + 4) used (xs ! slot (TREE_HASH addr) s)) else IDepth)"
  by (simp add: ins_entry.simps(2) Let_def TREE_DEPTH_MAX_def TREE_BITS_def)

lemma ins_entry_null:
  "ins_entry addr val cap s used ENull =
     (if used + 16 > cap then IRetry ENull (used + 16) 16 else IDone (EItem addr val) (used + 16))"
  by (simp add: ins_entry.simps(1) Let_def)

lemma ins_induct [case_names null item node]:
  assumes null: "\<And>s used. P s used ENull"
    and item: "\<And>s used a v. P s (used + 128) (ENode (single s a v)) \<Longrightarrow> P s used (EItem a v)"
    and node: "\<And>s used xs. (s < 64 \<Longrightarrow> P (s + 4) used (xs ! slot (TREE_HASH addr) s)) \<Longrightarrow> P s used (ENode xs)"
  shows "P s used e"
proof (induction "2 * (64 - s) + (case e of EItem _ _ \<Rightarrow> 1 | _ \<Rightarrow> (0 :: nat))" arbitrary: s used e rule: less_induct)
  case less
  show ?case
  proof (cases e)
    case ENull
    then show ?thesis by (simp add: null)
  next
    case (EItem a v)
    have "P s (used + 128) (ENode (single s a v))" by (rule less) (simp add: EItem)
    then show ?thesis unfolding EItem by (rule item)
  next
    case (ENode xs)
    show ?thesis unfolding ENode
      by (rule node, rule less) (auto simp: ENode split: tree_entry.splits)
  qed
qed

fun entry_space :: "tree_entry \<Rightarrow> nat" where
  "entry_space ENull = 0"
| "entry_space (EItem a v) = 16"
| "entry_space (ENode xs) = 128 + sum_list (map entry_space xs)"

lemma space_update:
  assumes "i < length xs"
  shows "entry_space (ENode (xs[i := e])) + entry_space (xs ! i) = entry_space (ENode xs) + entry_space e"
  using assms by (induction xs arbitrary: i) (auto split: nat.splits)

lemma space_single [simp]: "entry_space (ENode (single s a v)) = 144"
proof -
  have "entry_space (ENode (single s a v)) + 0 = 128 + 16"
    using space_update [of "slot (TREE_HASH a) s" "replicate 16 ENull" "EItem a v"]
    by (simp add: single_def TREE_ARITY_def sum_list_replicate)
  then show ?thesis by simp
qed

lemma space_slot: "i < length xs \<Longrightarrow> 128 + entry_space (xs ! i) \<le> entry_space (ENode xs)"
  by (simp add: member_le_sum_list)

lemma items_space: "p \<in> items e \<Longrightarrow> 16 \<le> entry_space e"
  by (cases e) auto

text \<open>A completed pass adds the item, keeps the others, and pays for what it allocates.\<close>

lemma ins_entry_done:
  "wf_entry s e \<Longrightarrow> addr \<noteq> 0 \<Longrightarrow> (\<And>v. (addr, v) \<notin> items e) \<Longrightarrow>
   ins_entry addr val cap s used e = IDone e' u \<Longrightarrow>
   wf_entry s e' \<and> items e' = insert (addr, val) (items e) \<and> u + entry_space e = used + entry_space e'
   \<and> (u \<noteq> used \<longrightarrow> u \<le> cap)"
proof (induction s used e arbitrary: e' u rule: ins_induct [where addr = addr])
  case (null s used)
  then show ?case by (auto simp: ins_entry_null split: if_splits)
next
  case (item s used a v)
  show ?case
  proof (cases "a = 0")
    case True
    with item.prems show ?thesis by (auto simp: ins_entry_item)
  next
    case False
    then have ins: "ins_entry addr val cap s (used + 128) (ENode (single s a v)) = IDone e' u"
      and cap: "used + 128 \<le> cap"
      using item.prems(4) by (auto simp: ins_entry_item split: if_splits)
    then have "s < 64" by (auto simp: ins_entry_node split: if_splits)
    then have "wf_entry s (ENode (single s a v))" by (rule wf_single)
    from item.IH [OF this item.prems(2) _ ins] item.prems(3) cap show ?thesis
      by (auto simp: items_single simp del: entry_space.simps(3))
  qed
next
  case (node s used xs)
  let ?i = "slot (TREE_HASH addr) s"
  have len: "length xs = 16" and s: "s < 64" and wf: "wf_entry (s + 4) (xs ! ?i)"
    using node.prems(1) by (auto simp: wf_node_iff)
  obtain e2 where sub: "ins_entry addr val cap (s + 4) used (xs ! ?i) = IDone e2 u"
    and e': "e' = ENode (xs[?i := e2])"
    using node.prems(4) s by (cases "ins_entry addr val cap (s + 4) used (xs ! ?i)") (auto simp: ins_entry_node)
  have fresh: "(addr, v) \<notin> items (xs ! ?i)" for v
    using node.prems(3) len by (auto simp: items_node_iff)
  note IH = node.IH [OF s wf node.prems(2) fresh sub]
  have "items e' = insert (addr, val) (items (ENode xs))"
    using IH slot_update [OF len, of ?i e2] items_node_split [OF len, of ?i] by (simp add: e')
  moreover have "wf_entry s e'" unfolding e'
  proof (rule wf_slot_update [OF node.prems(1)])
    show "wf_entry (s + 4) e2" using IH by blast
    fix a v assume "(a, v) \<in> items e2"
    then show "slot (TREE_HASH a) s = ?i" using IH items_slot_hash [OF node.prems(1)] by auto
  qed
  moreover have "u + entry_space (ENode xs) = used + entry_space e'"
    using IH space_update [of ?i xs e2] len unfolding e' by simp
  ultimately show ?case using IH by blast
qed

text \<open>A pass that ran out of raw memory has changed no item.\<close>

lemma ins_entry_retry:
  "wf_entry s e \<Longrightarrow> ins_entry addr val cap s used e = IRetry e' u x \<Longrightarrow>
   wf_entry s e' \<and> items e' = items e \<and> 16 \<le> x"
proof (induction s used e arbitrary: e' u x rule: ins_induct [where addr = addr])
  case (null s used)
  then show ?case by (auto simp: ins_entry_null split: if_splits)
next
  case (item s used a v)
  show ?case
  proof (cases "a = 0 \<or> used + 128 > cap")
    case True
    with item.prems show ?thesis by (auto simp: ins_entry_item split: if_splits)
  next
    case False
    then have ins: "ins_entry addr val cap s (used + 128) (ENode (single s a v)) = IRetry e' u x"
      using item.prems(2) by (auto simp: ins_entry_item)
    then have "s < 64" by (auto simp: ins_entry_node split: if_splits)
    from item.IH [OF wf_single [OF this] ins] show ?thesis by (simp add: items_single)
  qed
next
  case (node s used xs)
  let ?i = "slot (TREE_HASH addr) s"
  have len: "length xs = 16" and s: "s < 64" and wf: "wf_entry (s + 4) (xs ! ?i)"
    using node.prems(1) by (auto simp: wf_node_iff)
  obtain e2 where sub: "ins_entry addr val cap (s + 4) used (xs ! ?i) = IRetry e2 u x"
    and e': "e' = ENode (xs[?i := e2])"
    using node.prems(2) s by (cases "ins_entry addr val cap (s + 4) used (xs ! ?i)") (auto simp: ins_entry_node)
  note IH = node.IH [OF s wf sub]
  have "items e' = items (ENode xs)"
    using IH slot_update [OF len, of ?i e2] items_node_split [OF len, of ?i] by (simp add: e')
  moreover have "wf_entry s e'" unfolding e'
  proof (rule wf_slot_update [OF node.prems(1)])
    show "wf_entry (s + 4) e2" using IH by blast
    fix a v assume "(a, v) \<in> items e2"
    then show "slot (TREE_HASH a) s = ?i" using IH items_slot_hash [OF node.prems(1)] by auto
  qed
  ultimately show ?case using IH by blast
qed

text \<open>
  The key is new below the entry, and the levels above could not tell it from the items
  there: what \<open>tree_insert\<close> meets on its way down.
\<close>

definition fresh_at :: "nat \<Rightarrow> u64 \<Rightarrow> tree_entry \<Rightarrow> bool" where
  "fresh_at s addr e \<longleftrightarrow> aligned8 addr \<and> (\<forall>(a, v) \<in> items e. a \<noteq> addr \<and> aligned8 a
     \<and> agree s (TREE_HASH a) (TREE_HASH addr))"

lemma fresh_at_slot:
  assumes wf: "wf_entry s (ENode xs)" and fr: "fresh_at s addr (ENode xs)"
  shows "fresh_at (s + 4) addr (xs ! slot (TREE_HASH addr) s)"
proof -
  have "a \<noteq> addr \<and> aligned8 a \<and> agree (s + 4) (TREE_HASH a) (TREE_HASH addr)"
    if mem: "(a, v) \<in> items (xs ! slot (TREE_HASH addr) s)" for a v
  proof -
    have len: "length xs = 16" using wf by (simp add: wf_node_iff)
    have "(a, v) \<in> items (ENode xs)"
      using mem by (auto simp: items_node_iff [OF len] intro!: exI [of _ "slot (TREE_HASH addr) s"])
    moreover have "slot (TREE_HASH a) s = slot (TREE_HASH addr) s" by (rule items_slot_hash [OF wf mem])
    ultimately show ?thesis using fr agree_step by (auto simp: fresh_at_def)
  qed
  with fr show ?thesis by (auto simp: fresh_at_def)
qed

lemma fresh_at_single: "fresh_at s addr (ENode (single s' a v)) \<longleftrightarrow> fresh_at s addr (EItem a v)"
  by (simp only: fresh_at_def items_single)

lemma fresh_at_shift:
  assumes "fresh_at s addr (EItem a v)" and "a \<noteq> 0"
  shows "s < 64"
  using assms agree_full [of a addr s] by (force simp: fresh_at_def)

text \<open>The assertion on \<open>shift\<close> holds for 8-aligned keys that are not yet in the tree.\<close>

lemma ins_entry_no_depth:
  "wf_entry s e \<Longrightarrow> fresh_at s addr e \<Longrightarrow> ins_entry addr val cap s used e \<noteq> IDepth"
proof (induction s used e rule: ins_induct [where addr = addr])
  case (null s used)
  then show ?case by (auto simp: ins_entry_null)
next
  case (item s used a v)
  then show ?case using fresh_at_shift [of s addr a v] wf_single [of s a v]
    by (auto simp: ins_entry_item fresh_at_single)
next
  case (node s used xs)
  let ?i = "slot (TREE_HASH addr) s"
  have s: "s < 64" and wf: "wf_entry (s + 4) (xs ! ?i)" using node.prems(1) by (auto simp: wf_node_iff)
  have "ins_entry addr val cap (s + 4) used (xs ! ?i) \<noteq> IDepth"
    by (rule node.IH [OF s wf fresh_at_slot [OF node.prems]])
  with s show ?case
    by (cases "ins_entry addr val cap (s + 4) used (xs ! ?i)") (auto simp: ins_entry_node)
qed

text \<open>Enough raw memory: one node per remaining level and the item.\<close>

definition room :: "nat \<Rightarrow> tree_entry \<Rightarrow> nat" where
  "room s e = (case e of EItem _ _ \<Rightarrow> 32 * (64 - s) + 16 | _ \<Rightarrow> 32 * (60 - s) + 16)"

lemma room_le: "s + 4 \<le> 64 \<Longrightarrow> room (s + 4) e \<le> 32 * (60 - s) + 16"
  by (cases e) (auto simp: room_def)

lemma ins_entry_no_retry:
  "wf_entry s e \<Longrightarrow> fresh_at s addr e \<Longrightarrow> 4 dvd s \<Longrightarrow> s \<le> 64 \<Longrightarrow> used + room s e \<le> cap \<Longrightarrow>
   ins_entry addr val cap s used e \<noteq> IRetry e' u x"
proof (induction s used e arbitrary: e' rule: ins_induct [where addr = addr])
  case (null s used)
  then show ?case by (auto simp: ins_entry_null room_def)
next
  case (item s used a v)
  show ?case
  proof (cases "a = 0")
    case False
    with item.prems have "s < 64" using fresh_at_shift by blast
    with item.prems(3) have s: "s \<le> 60" by (auto elim!: dvdE)
    then have "ins_entry addr val cap s (used + 128) (ENode (single s a v)) \<noteq> IRetry e' u x"
      using item.prems wf_single by (intro item.IH) (auto simp: fresh_at_single room_def)
    then show ?thesis using s item.prems(5) False by (auto simp: ins_entry_item room_def)
  qed (simp add: ins_entry_item)
next
  case (node s used xs)
  let ?i = "slot (TREE_HASH addr) s"
  have s: "s < 64" and wf: "wf_entry (s + 4) (xs ! ?i)" using node.prems(1) by (auto simp: wf_node_iff)
  with node.prems(3) have s60: "s + 4 \<le> 64" by (auto elim!: dvdE)
  have "used + room (s + 4) (xs ! ?i) \<le> cap"
    using node.prems(5) room_le [OF s60, of "xs ! ?i"] by (simp add: room_def)
  then have "ins_entry addr val cap (s + 4) used (xs ! ?i) \<noteq> IRetry e2 u x" for e2
    using node.prems(3) s60 by (intro node.IH [OF s wf fresh_at_slot [OF node.prems(1,2)]]) auto
  then show ?case using s
    by (cases "ins_entry addr val cap (s + 4) used (xs ! ?i)") (auto simp: ins_entry_node)
qed

section \<open>Rebuilding fits\<close>

text \<open>
  \<open>embeds e f\<close>: every node of \<open>e\<close> is a node of \<open>f\<close>, and every item of \<open>e\<close> is a
  live item below the corresponding place of \<open>f\<close>. A tree rebuilt from the live items of
  \<open>f\<close> stays embedded in \<open>f\<close>, so it never needs more raw memory than \<open>f\<close> used.
\<close>

fun embeds :: "tree_entry \<Rightarrow> tree_entry \<Rightarrow> bool" where
  "embeds ENull f \<longleftrightarrow> True"
| "embeds (EItem a v) f \<longleftrightarrow> a \<noteq> 0 \<and> (a, v) \<in> items f"
| "embeds (ENode xs) f \<longleftrightarrow> (\<exists>ys. f = ENode ys \<and> list_all2 embeds xs ys)"

lemma embeds_space: "embeds e f \<Longrightarrow> entry_space e \<le> entry_space f"
proof (induction e arbitrary: f rule: tree_entry.induct)
  case (EItem a v)
  then show ?case using items_space by auto
next
  case (ENode xs)
  then obtain ys where f: "f = ENode ys" and all: "list_all2 embeds xs ys" by auto
  have "list_all2 (\<lambda>x y. entry_space x \<le> entry_space y) xs ys"
    using all ENode.IH by (auto simp: list_all2_conv_all_nth)
  then have "sum_list (map entry_space xs) \<le> sum_list (map entry_space ys)"
    by (induction rule: list_all2_induct) auto
  then show ?case by (simp add: f)
qed simp

lemma embeds_single:
  assumes "wf_entry s (ENode ys)" and "(a, v) \<in> items (ENode ys)" and "a \<noteq> 0"
  shows "embeds (ENode (single s a v)) (ENode ys)"
proof -
  have "length ys = 16" using assms(1) by (simp add: wf_node_iff)
  moreover have "(a, v) \<in> items (ys ! slot (TREE_HASH a) s)" using items_node_slot [OF assms(1)] assms(2) by simp
  ultimately show ?thesis using assms(3) by (auto simp: list_all2_conv_all_nth single_nth)
qed

lemma two_items_node:
  assumes "(a, v) \<in> items f" and "(b, w) \<in> items f" and "a \<noteq> b"
  obtains ys where "f = ENode ys"
  using assms by (cases f) (auto split: if_splits)

lemma space_diff_slot:
  assumes all: "list_all2 embeds xs ys" and i: "i < length xs"
    and cap: "used + entry_space (ENode ys) \<le> cap + entry_space (ENode xs)"
  shows "used + entry_space (ys ! i) \<le> cap + entry_space (xs ! i)"
proof -
  have ex: "list_all2 (\<lambda>x y. entry_space x \<le> entry_space y) xs ys"
    using all embeds_space by (auto simp: list_all2_conv_all_nth)
  have "sum_list (map entry_space xs) + entry_space (ys ! i) \<le> sum_list (map entry_space ys) + entry_space (xs ! i)"
    using ex i
  proof (induction arbitrary: i rule: list_all2_induct)
    case (Cons x xs y ys)
    have "sum_list (map entry_space xs) \<le> sum_list (map entry_space ys)"
      using Cons.hyps(2) by (induction rule: list_all2_induct) auto
    with Cons show ?case by (cases i) fastforce+
  qed simp
  with cap show ?thesis by simp
qed

lemma ins_entry_fits:
  "wf_entry s e \<Longrightarrow> wf_entry s f \<Longrightarrow> embeds e f \<Longrightarrow> fresh_at s addr e \<Longrightarrow> addr \<noteq> 0 \<Longrightarrow>
   (addr, val) \<in> items f \<Longrightarrow> used + entry_space f \<le> cap + entry_space e \<Longrightarrow>
   \<exists>e' u. ins_entry addr val cap s used e = IDone e' u \<and> embeds e' f"
proof (induction s used e arbitrary: f rule: ins_induct [where addr = addr])
  case (null s used)
  then show ?case using items_space [of _ f] by (auto simp: ins_entry_null)
next
  case (item s used a v)
  then have a: "a \<noteq> 0" "(a, v) \<in> items f" by auto
  moreover have "a \<noteq> addr" using item.prems(4) a by (auto simp: fresh_at_def)
  ultimately obtain ys where f: "f = ENode ys" using two_items_node item.prems(6) by metis
  have len: "length ys = 16" using item.prems(2) by (simp add: f wf_node_iff)
  have "(a, v) \<in> items (ys ! slot (TREE_HASH a) s)"
    using a(2) items_node_slot [of s ys a v] item.prems(2) by (simp add: f)
  then have "144 \<le> entry_space f"
    using items_space [of _ "ys ! slot (TREE_HASH a) s"] space_slot [of "slot (TREE_HASH a) s" ys] len
    by (fastforce simp: f)
  then have cap: "used + 128 \<le> cap" using item.prems(7) by simp
  have "\<exists>e' u. ins_entry addr val cap s (used + 128) (ENode (single s a v)) = IDone e' u \<and> embeds e' f"
  proof (rule item.IH)
    show "wf_entry s (ENode (single s a v))" using fresh_at_shift item.prems(4) a(1) by (blast intro: wf_single)
    show "embeds (ENode (single s a v)) f" using embeds_single item.prems(2) a unfolding f by blast
  qed (use item.prems in \<open>auto simp: fresh_at_single simp del: entry_space.simps(3)\<close>)
  with cap a(1) show ?case by (simp add: ins_entry_item)
next
  case (node s used xs)
  let ?i = "slot (TREE_HASH addr) s"
  obtain ys where f: "f = ENode ys" and all: "list_all2 embeds xs ys" using node.prems(3) by auto
  have len: "length xs = 16" "length ys = 16" and s: "s < 64"
    and wf: "wf_entry (s + 4) (xs ! ?i)" "wf_entry (s + 4) (ys ! ?i)"
    using node.prems(1,2) by (auto simp: f wf_node_iff)
  have "\<exists>e' u. ins_entry addr val cap (s + 4) used (xs ! ?i) = IDone e' u \<and> embeds e' (ys ! ?i)"
  proof (rule node.IH [OF s wf])
    show "embeds (xs ! ?i) (ys ! ?i)" using all len by (simp add: list_all2_conv_all_nth)
    show "fresh_at (s + 4) addr (xs ! ?i)" by (rule fresh_at_slot [OF node.prems(1,4)])
    show "(addr, val) \<in> items (ys ! ?i)"
      using node.prems(2,6) items_node_slot [of s ys addr val] by (simp add: f)
    show "used + entry_space (ys ! ?i) \<le> cap + entry_space (xs ! ?i)"
      using space_diff_slot [OF all] node.prems(7) len by (simp add: f)
  qed (rule node.prems(5))
  then obtain e2 u where "ins_entry addr val cap (s + 4) used (xs ! ?i) = IDone e2 u"
    and "embeds e2 (ys ! ?i)" by blast
  moreover from this(2) all have "list_all2 embeds (xs[?i := e2]) ys"
    by (metis list_all2_update_cong list_update_id)
  ultimately show ?case using s by (simp add: ins_entry_node f)
qed

section \<open>Insertion\<close>

text \<open>
  The representation invariant: well-formed, 8-aligned keys, and \<open>raw_used\<close> counts the
  nodes and items reachable from the toplevel.
\<close>

definition tree_inv :: "tree_s \<Rightarrow> bool" where
  "tree_inv t \<longleftrightarrow> wf_tree t \<and> (\<forall>(a, v) \<in> set (tree_items t). aligned8 a)
     \<and> raw_used t + 128 = entry_space (ENode (toplevel t)) \<and> raw_used t \<le> raw_size t"

abbreviation empty_top :: "tree_entry list" where
  "empty_top \<equiv> replicate TREE_ARITY ENull"

lemma items_empty_top: "items (ENode empty_top) = {}"
  by (auto simp: entry_items.simps(3) TREE_ARITY_def)

lemma wf_empty_top: "wf_entry 0 (ENode empty_top)"
  unfolding wf_node_iff by (auto simp: TREE_ARITY_def)

lemma space_empty_top: "entry_space (ENode empty_top) = 128"
  by (simp add: TREE_ARITY_def sum_list_replicate)

lemma distinct_concat_slots:
  assumes "\<And>x. x \<in> set xs \<Longrightarrow> distinct (map fst (entry_items x))"
    and "\<And>i j a v w. i < length xs \<Longrightarrow> j < length xs \<Longrightarrow> (a, v) \<in> items (xs ! i) \<Longrightarrow>
          (a, w) \<in> items (xs ! j) \<Longrightarrow> i = j"
  shows "distinct (map fst (concat (map entry_items xs)))"
  using assms
proof (induction xs)
  case (Cons x xs)
  have "distinct (map fst (concat (map entry_items xs)))"
  proof (rule Cons.IH)
    fix i j a v w
    assume "i < length xs" "j < length xs" "(a, v) \<in> items (xs ! i)" "(a, w) \<in> items (xs ! j)"
    then show "i = j" using Cons.prems(2) [of "Suc i" "Suc j" a v w] by simp
  qed (use Cons.prems(1) in simp)
  moreover have "fst p \<noteq> fst q" if "p \<in> items x" "q \<in> set (concat (map entry_items xs))" for p q
  proof
    assume eq: "fst p = fst q"
    from that(2) obtain x' where "x' \<in> set xs" "q \<in> items x'" by auto
    then obtain i where "i < length xs" "q \<in> items (xs ! i)" by (metis in_set_conv_nth)
    moreover have "(fst p, snd p) \<in> items ((x # xs) ! 0)" "(fst p, snd q) \<in> items ((x # xs) ! Suc i)"
      using that(1) calculation by (simp, simp add: eq)
    ultimately show False using Cons.prems(2) [of 0 "Suc i" "fst p" "snd p" "snd q"] by simp
  qed
  ultimately show ?case using Cons.prems(1) by (fastforce simp: image_iff)
qed simp

lemma distinct_items: "wf_entry s e \<Longrightarrow> distinct (map fst (entry_items e))"
proof (induction e arbitrary: s rule: tree_entry.induct)
  case (ENode xs)
  have len: "length xs = 16" and wf: "\<And>i. i < 16 \<Longrightarrow> wf_entry (s + 4) (xs ! i)"
    and sl: "\<And>i a v. i < 16 \<Longrightarrow> (a, v) \<in> items (xs ! i) \<Longrightarrow> slot (TREE_HASH a) s = i"
    using ENode.prems unfolding wf_node_iff by blast+
  show ?case unfolding entry_items.simps(3)
  proof (rule distinct_concat_slots)
    fix x
    assume "x \<in> set xs"
    then show "distinct (map fst (entry_items x))"
      using ENode.IH wf len by (metis in_set_conv_nth)
  next
    fix i j a v w
    assume "i < length xs" "j < length xs" "(a, v) \<in> items (xs ! i)" "(a, w) \<in> items (xs ! j)"
    then show "i = j" using sl len by metis
  qed
qed auto

lemma fresh_at_0:
  "fresh_at 0 addr e \<longleftrightarrow> aligned8 addr \<and> (\<forall>(a, v) \<in> items e. a \<noteq> addr \<and> aligned8 a)"
  by (auto simp: fresh_at_def)

lemma ins_entry_is_node:
  "ins_entry addr val cap s used (ENode xs) = IDone e u \<Longrightarrow> \<exists>ys. e = ENode ys"
  "ins_entry addr val cap s used (ENode xs) = IRetry e u x \<Longrightarrow> \<exists>ys. e = ENode ys"
  by (cases "ins_entry addr val cap (s + 4) used (xs ! slot (TREE_HASH addr) s)";
      force simp: ins_entry_node split: if_splits)+

text \<open>A pass over the whole tree that needs no more raw memory.\<close>

lemma tree_insert_done:
  assumes inv: "tree_inv t" and addr: "aligned8 addr" "addr \<noteq> 0"
    and new: "\<And>v. (addr, v) \<notin> set (tree_items t)"
    and ins: "ins_entry addr val (raw_size t) 0 (raw_used t) (ENode (toplevel t)) = IDone e u"
  shows "tree_inv (t\<lparr>toplevel := node_slots e, raw_used := u\<rparr>)"
    and "set (tree_items (t\<lparr>toplevel := node_slots e, raw_used := u\<rparr>)) = insert (addr, val) (set (tree_items t))"
proof -
  obtain ys where e: "e = ENode ys" using ins_entry_is_node(1) ins by blast
  have wf: "wf_entry 0 (ENode (toplevel t))" using inv by (simp add: tree_inv_def wf_tree_def)
  note r = ins_entry_done [OF wf addr(2) new [unfolded tree_items_def] ins]
  show it: "set (tree_items (t\<lparr>toplevel := node_slots e, raw_used := u\<rparr>)) = insert (addr, val) (set (tree_items t))"
    using r by (simp add: tree_items_def e)
  show "tree_inv (t\<lparr>toplevel := node_slots e, raw_used := u\<rparr>)"
    using r inv addr it by (auto simp: tree_inv_def wf_tree_def e simp del: entry_space.simps(3))
qed

text \<open>The loop of \<open>_tree_grow\<close> inserts every live item without growing again.\<close>

abbreviation ins_fold :: "nat \<Rightarrow> (nat \<Rightarrow> bool) \<Rightarrow> tree_error + tree_s \<Rightarrow> (u64 \<times> u64) list \<Rightarrow> tree_error + tree_s" where
  "ins_fold n ok r xs \<equiv> foldl (\<lambda>r (a, v). case r of Inl e \<Rightarrow> Inl e | Inr t' \<Rightarrow> tree_insert n ok t' a v) r xs"

lemma rebuild:
  assumes wf: "wf_entry 0 f" and al: "\<And>a v. (a, v) \<in> items f \<Longrightarrow> aligned8 a"
    and sp: "entry_space f \<le> cap + 128"
  shows "tree_inv t' \<Longrightarrow> raw_size t' = cap \<Longrightarrow> embeds (ENode (toplevel t')) f \<Longrightarrow>
    distinct (map fst xs) \<Longrightarrow> set xs \<union> set (tree_items t') \<subseteq> items f \<Longrightarrow>
    (\<And>a v w. (a, v) \<in> set xs \<Longrightarrow> (a, w) \<notin> set (tree_items t')) \<Longrightarrow>
    \<exists>t''. ins_fold (Suc n) ok (Inr t') xs = Inr t'' \<and> tree_inv t'' \<and> raw_size t'' = cap
      \<and> embeds (ENode (toplevel t'')) f \<and> set (tree_items t'') = set (tree_items t') \<union> set xs"
proof (induction xs arbitrary: t')
  case Nil
  then show ?case by simp
next
  case (Cons p xs)
  obtain a v where p: "p = (a, v)" by (cases p)
  have av: "(a, v) \<in> items f" and new: "\<And>w. (a, w) \<notin> set (tree_items t')"
    using Cons.prems(5,6) p by auto
  have a: "aligned8 a" "a \<noteq> 0" using al av items_nonzero by blast+
  have wf': "wf_entry 0 (ENode (toplevel t'))" using Cons.prems(1) by (simp add: tree_inv_def wf_tree_def)
  have fr: "fresh_at 0 a (ENode (toplevel t'))"
    using Cons.prems(1) new a(1) by (auto simp: fresh_at_0 tree_inv_def tree_items_def)
  have "raw_used t' + entry_space f \<le> raw_size t' + entry_space (ENode (toplevel t'))"
    using sp Cons.prems(1,2) by (simp add: tree_inv_def del: entry_space.simps(3))
  from ins_entry_fits [OF wf' wf Cons.prems(3) fr a(2) av this] obtain e u
    where ins: "ins_entry a v (raw_size t') 0 (raw_used t') (ENode (toplevel t')) = IDone e u"
      and emb: "embeds e f" by blast
  let ?t = "t'\<lparr>toplevel := node_slots e, raw_used := u\<rparr>"
  note d = tree_insert_done [OF Cons.prems(1) a new ins]
  obtain ys where e: "e = ENode ys" using ins_entry_is_node(1) ins by blast
  have step: "tree_insert (Suc n) ok t' a v = Inr ?t" by (simp add: ins)
  have "\<exists>t''. ins_fold (Suc n) ok (Inr ?t) xs = Inr t'' \<and> tree_inv t'' \<and> raw_size t'' = cap
      \<and> embeds (ENode (toplevel t'')) f \<and> set (tree_items t'') = set (tree_items ?t) \<union> set xs"
  proof (rule Cons.IH)
    show "tree_inv ?t" by (rule d(1))
    show "raw_size ?t = cap" using Cons.prems(2) by simp
    show "embeds (ENode (toplevel ?t)) f" using emb e by simp
    show "distinct (map fst xs)" using Cons.prems(4) by simp
    show "set xs \<union> set (tree_items ?t) \<subseteq> items f" using Cons.prems(5) d(2) av p by auto
    fix b w w'
    assume "(b, w) \<in> set xs"
    then show "(b, w') \<notin> set (tree_items ?t)"
      using Cons.prems(4,6) p unfolding d(2) by (force simp: image_iff)
  qed
  then show ?case unfolding foldl_Cons p prod.case sum.case step d(2) by auto
qed

lemma newalloc_ge: "alloc + extra + 16 \<le> tree_newalloc alloc extra"
  unfolding tree_newalloc_def by linarith

text \<open>
  Insertion of a new 8-aligned key succeeds whenever the allocator does: each retry gains at
  least 32 bytes, and a pass needs at most 1936 bytes beyond those in use.
\<close>

definition insert_fuel :: nat where "insert_fuel = 62"

lemma tree_insert_total:
  assumes ok: "\<And>m. ok m" and addr: "aligned8 addr" "addr \<noteq> 0"
  shows "tree_inv t \<Longrightarrow> (\<And>v. (addr, v) \<notin> set (tree_items t)) \<Longrightarrow>
    raw_used t + 1936 \<le> raw_size t + 32 * n \<Longrightarrow>
    \<exists>t'. tree_insert (Suc n) ok t addr val = Inr t' \<and> tree_inv t'
      \<and> set (tree_items t') = insert (addr, val) (set (tree_items t))"
proof (induction n arbitrary: t)
  case (0 t)
  then have wf: "wf_entry 0 (ENode (toplevel t))" by (simp add: tree_inv_def wf_tree_def)
  have fr: "fresh_at 0 addr (ENode (toplevel t))"
    using 0 addr by (auto simp: fresh_at_0 tree_inv_def tree_items_def)
  from ins_entry_no_depth [OF wf fr] ins_entry_no_retry [OF wf fr, where cap = "raw_size t" and used = "raw_used t"] 0
  obtain e u where "ins_entry addr val (raw_size t) 0 (raw_used t) (ENode (toplevel t)) = IDone e u"
    by (cases "ins_entry addr val (raw_size t) 0 (raw_used t) (ENode (toplevel t))") (auto simp: room_def)
  with tree_insert_done [OF 0(1) addr 0(2) this] show ?case by auto
next
  case (Suc n t)
  let ?r = "ins_entry addr val (raw_size t) 0 (raw_used t) (ENode (toplevel t))"
  have wf: "wf_entry 0 (ENode (toplevel t))" using Suc.prems(1) by (simp add: tree_inv_def wf_tree_def)
  have fr: "fresh_at 0 addr (ENode (toplevel t))"
    using Suc.prems addr by (auto simp: fresh_at_0 tree_inv_def tree_items_def)
  show ?case
  proof (cases ?r)
    case (IDone e u)
    with tree_insert_done [OF Suc.prems(1) addr Suc.prems(2) this] show ?thesis by auto
  next
    case IDepth
    with ins_entry_no_depth [OF wf fr] show ?thesis by blast
  next
    case (IRetry e u x)
    obtain ys where e: "e = ENode ys" using ins_entry_is_node(2) IRetry by blast
    note r = ins_entry_retry [OF wf IRetry]
    let ?cap = "tree_newalloc (raw_size t) x"
    let ?xs = "entry_items e"
    let ?new = "\<lparr>raw_size = ?cap, raw_used = 0, toplevel = empty_top\<rparr>"
    have cap: "raw_size t + 32 \<le> ?cap" using newalloc_ge [of "raw_size t" x] r by linarith
    have "\<exists>t''. ins_fold (Suc n) ok (Inr ?new) ?xs = Inr t'' \<and> tree_inv t'' \<and> raw_size t'' = ?cap
      \<and> embeds (ENode (toplevel t'')) (ENode (toplevel t)) \<and> set (tree_items t'') = set (tree_items ?new) \<union> set ?xs"
    proof (rule rebuild)
      show "wf_entry 0 (ENode (toplevel t))" by (rule wf)
      show "aligned8 a" if "(a, v) \<in> items (ENode (toplevel t))" for a v
        using that Suc.prems(1) by (auto simp: tree_inv_def tree_items_def)
      show "entry_space (ENode (toplevel t)) \<le> ?cap + 128" using Suc.prems(1) cap by (simp add: tree_inv_def)
      show "tree_inv ?new"
        using wf_empty_top items_empty_top space_empty_top
        by (simp add: tree_inv_def wf_tree_def tree_items_def del: entry_space.simps(3))
      show "embeds (ENode (toplevel ?new)) (ENode (toplevel t))"
        using wf by (auto simp: wf_node_iff list_all2_conv_all_nth TREE_ARITY_def)
      show "distinct (map fst ?xs)" using distinct_items r by blast
      show "set ?xs \<union> set (tree_items ?new) \<subseteq> items (ENode (toplevel t))"
        using r items_empty_top by (simp add: tree_items_def)
      show "(a, w) \<notin> set (tree_items ?new)" for a w using items_empty_top by (simp add: tree_items_def)
    qed simp
    then obtain t'' where t'': "ins_fold (Suc n) ok (Inr ?new) ?xs = Inr t''" "tree_inv t''"
      "raw_size t'' = ?cap" "embeds (ENode (toplevel t'')) (ENode (toplevel t))"
      "set (tree_items t'') = items e"
      using items_empty_top by (auto simp: tree_items_def)
    have it: "set (tree_items t'') = set (tree_items t)" using t''(5) r by (simp add: tree_items_def)
    have "raw_used t'' \<le> raw_used t"
      using embeds_space [OF t''(4)] t''(2) Suc.prems(1) by (simp add: tree_inv_def del: entry_space.simps(3))
    then have "raw_used t'' + 1936 \<le> raw_size t'' + 32 * n" using Suc.prems(3) cap t''(3) by simp
    from Suc.IH [OF t''(2) _ this] Suc.prems(2) it obtain t' where
      "tree_insert (Suc n) ok t'' addr val = Inr t'" "tree_inv t'"
      "set (tree_items t') = insert (addr, val) (set (tree_items t))" by auto
    moreover have "tree_insert (Suc (Suc n)) ok t addr val = tree_insert (Suc n) ok t'' addr val"
      using t''(1) ok by (simp add: IRetry e Let_def tree_items_def del: tree_insert.simps(2))
        (simp add: tree_insert.simps(2) [of "Suc n" ok t] IRetry Let_def e tree_items_def del: tree_insert.simps(2))
    ultimately show ?thesis by auto
  qed
qed

section \<open>Deletion\<close>

lemma zero_entry:
  "wf_entry (t + 4) e \<Longrightarrow> (a, v) \<in> items e \<Longrightarrow>
   (let e' = tree_zero_entry e (drop_bit t (TREE_HASH a))
    in wf_entry (t + 4) e' \<and> items e' = items e - {(a, v)} \<and> entry_space e' = entry_space e)"
proof (induction e arbitrary: t rule: tree_entry.induct)
  case ENull
  then show ?case by simp
next
  case (EItem x y)
  then show ?case by (auto simp: Let_def split: if_splits)
next
  case (ENode xs)
  let ?i = "slot (TREE_HASH a) (t + 4)"
  let ?e = "tree_zero_entry (xs ! ?i) (drop_bit (t + 4) (TREE_HASH a))"
  have len: "length xs = 16" and wf: "wf_entry ((t + 4) + 4) (xs ! ?i)"
    using ENode.prems(1) unfolding wf_node_iff by auto
  have mem: "(a, v) \<in> items (xs ! ?i)" using ENode.prems items_node_slot by blast
  have IH: "wf_entry ((t + 4) + 4) ?e" "items ?e = items (xs ! ?i) - {(a, v)}"
    "entry_space ?e = entry_space (xs ! ?i)"
    using ENode.IH [OF _ wf mem] len by (simp_all add: Let_def)
  have e': "tree_zero_entry (ENode xs) (drop_bit t (TREE_HASH a)) = ENode (xs[?i := ?e])"
    by (simp add: Let_def TREE_BITS_def len add.commute)
  have other: "(a, v) \<notin> items (xs ! j)" if "j < 16" "j \<noteq> ?i" for j
    using items_index [OF ENode.prems(1) that(1)] that(2) by metis
  have "items (ENode (xs[?i := ?e])) = items (ENode xs) - {(a, v)}"
    using slot_update [OF len, of ?i ?e] items_node_split [OF len, of ?i] IH(2) other by auto
  moreover have "wf_entry (t + 4) (ENode (xs[?i := ?e]))"
  proof (rule wf_slot_update [OF ENode.prems(1) IH(1)])
    fix b w assume "(b, w) \<in> items ?e"
    then show "slot (TREE_HASH b) (t + 4) = ?i" using IH(2) items_slot_hash [OF ENode.prems(1)] by auto
  qed
  moreover have "entry_space (ENode (xs[?i := ?e])) = entry_space (ENode xs)"
    using space_update [of ?i xs ?e] IH(3) len by simp
  ultimately show ?case unfolding e' Let_def by blast
qed

lemma tree_delete_spec:
  assumes inv: "tree_inv t" and a: "a \<noteq> 0"
  shows "tree_inv (snd (tree_delete_item t a))"
    and "set (tree_items (snd (tree_delete_item t a))) = {p \<in> set (tree_items t). fst p \<noteq> a}"
    and "fst (tree_delete_item t a) = (tree_lookup t a \<noteq> None)"
proof -
  let ?t = "snd (tree_delete_item t a)"
  have wft: "wf_tree t" and wf: "wf_entry 0 (ENode (toplevel t))"
    using inv by (auto simp: tree_inv_def wf_tree_def)
  have "tree_inv ?t \<and> set (tree_items ?t) = {p \<in> set (tree_items t). fst p \<noteq> a} \<and>
    fst (tree_delete_item t a) = (tree_lookup t a \<noteq> None)"
  proof (cases "tree_lookup t a")
    case None
    then have "(a, v) \<notin> set (tree_items t)" for v using tree_lookup_iff [OF wft a] by auto
    then show ?thesis using None inv by (auto simp: tree_delete_item_def)
  next
    case (Some v)
    let ?i = "slot (TREE_HASH a) 0"
    let ?e = "tree_zero_entry (toplevel t ! ?i) (TREE_HASH a)"
    have len: "length (toplevel t) = 16" and wfi: "wf_entry 4 (toplevel t ! ?i)"
      using wf unfolding wf_node_iff by auto
    have it: "(a, v) \<in> set (tree_items t)" using Some tree_lookup_iff [OF wft a] by simp
    have mem: "(a, v) \<in> items (toplevel t ! ?i)"
      using it items_node_slot [OF wf] by (simp add: tree_items_def)
    have z: "wf_entry 4 ?e" "items ?e = items (toplevel t ! ?i) - {(a, v)}"
      "entry_space ?e = entry_space (toplevel t ! ?i)"
      using zero_entry [of 0 "toplevel t ! ?i" a v] wfi mem by (simp_all add: Let_def)
    have t': "?t = t\<lparr>toplevel := (toplevel t)[?i := ?e]\<rparr>"
      using Some by (simp add: tree_delete_item_def Let_def)
    have other: "(a, v) \<notin> items (toplevel t ! j)" if "j < 16" "j \<noteq> ?i" for j
      using items_index [OF wf that(1)] that(2) by metis
    have "items (ENode ((toplevel t)[?i := ?e])) = items (ENode (toplevel t)) - {(a, v)}"
      using slot_update [OF len, of ?i ?e] items_node_split [OF len, of ?i] z(2) other by auto
    then have it': "set (tree_items ?t) = set (tree_items t) - {(a, v)}" by (simp add: t' tree_items_def)
    have wf': "wf_entry 0 (ENode ((toplevel t)[?i := ?e]))"
    proof (rule wf_slot_update [OF wf])
      show "wf_entry (0 + 4) ?e" using z(1) by simp
      fix b w assume "(b, w) \<in> items ?e"
      then show "slot (TREE_HASH b) 0 = ?i" using z(2) items_slot_hash [OF wf] by auto
    qed
    have "entry_space (ENode ((toplevel t)[?i := ?e])) = entry_space (ENode (toplevel t))"
      using space_update [of ?i "toplevel t" ?e] z(3) len by simp
    then have "tree_inv ?t"
      using inv wf' it' unfolding tree_inv_def wf_tree_def t' by (auto simp del: entry_space.simps(3))
    moreover have "set (tree_items t) - {(a, v)} = {p \<in> set (tree_items t). fst p \<noteq> a}"
    proof -
      have "(b, w) = (a, v) \<longleftrightarrow> b = a" if "(b, w) \<in> set (tree_items t)" for b w
        using items_functional [OF wft it] that by blast
      then show ?thesis by fastforce
    qed
    moreover have "fst (tree_delete_item t a)" using Some by (simp add: tree_delete_item_def Let_def)
    ultimately show ?thesis using Some it' by (metis option.distinct(1))
  qed
  then show "tree_inv ?t" "set (tree_items ?t) = {p \<in> set (tree_items t). fst p \<noteq> a}"
    "fst (tree_delete_item t a) = (tree_lookup t a \<noteq> None)" by blast+
qed

section \<open>The map a tree stands for\<close>

definition tree_map :: "tree_s \<Rightarrow> u64 \<Rightarrow> u64 option" where
  "tree_map t = map_of (tree_items t)"

lemma tree_map_Some:
  assumes "tree_inv t"
  shows "tree_map t a = Some v \<longleftrightarrow> (a, v) \<in> set (tree_items t)"
  using assms distinct_items unfolding tree_map_def tree_inv_def wf_tree_def tree_items_def
  by (metis map_of_eq_Some_iff)

lemma map_eq_Some_iff: "(\<And>a v. m a = Some v \<longleftrightarrow> m' a = Some v) \<Longrightarrow> m = m'"
  by (rule ext) (metis not_Some_eq)

lemma tree_map_dom: "tree_inv t \<Longrightarrow> a \<in> dom (tree_map t) \<Longrightarrow> aligned8 a \<and> a \<noteq> 0"
  using tree_map_Some items_nonzero unfolding tree_inv_def tree_items_def by fast

lemma tree_lookup_map: "tree_inv t \<Longrightarrow> a \<noteq> 0 \<Longrightarrow> tree_lookup t a = tree_map t a"
  using tree_lookup_iff tree_map_Some unfolding tree_inv_def by (metis not_Some_eq)

lemma tree_inv_create: "tree_inv tree_create"
  using wf_empty_top items_empty_top space_empty_top
  by (simp add: tree_inv_def wf_tree_def tree_items_def tree_create_def del: entry_space.simps(3))

lemma tree_map_create: "tree_map tree_create = Map.empty"
  using items_empty_top by (simp add: tree_map_def tree_items_def tree_create_def)

lemma tree_space_0: "sum_list (map entry_space xs) = 0 \<Longrightarrow> concat (map entry_items xs) = []"
proof (induction xs)
  case (Cons x xs)
  then show ?case by (cases x) auto
qed simp

lemma tree_clear_spec:
  assumes "tree_inv t"
  shows "tree_inv (tree_clear t) \<and> tree_map (tree_clear t) = Map.empty \<and> tree_is_cleared (tree_clear t)"
proof (cases "raw_used t = 0")
  case True
  then have "sum_list (map entry_space (toplevel t)) = 0"
    using assms by (simp add: tree_inv_def)
  from tree_space_0 [OF this] have "tree_items t = []"
    by (simp only: tree_items_def entry_items.simps(3))
  then show ?thesis using assms True by (simp add: tree_clear_def tree_map_def tree_is_cleared_def)
next
  case False
  then show ?thesis
    using wf_empty_top items_empty_top space_empty_top
    by (simp add: tree_clear_def tree_inv_def wf_tree_def tree_items_def tree_map_def
        tree_is_cleared_def del: entry_space.simps(3))
qed

lemma tree_insert_map:
  assumes "tree_inv t" and "aligned8 a" and "a \<noteq> 0" and "tree_map t a = None" and "\<And>m. ok m"
  shows "\<exists>t'. tree_insert insert_fuel ok t a v = Inr t' \<and> tree_inv t' \<and> tree_map t' = (tree_map t)(a \<mapsto> v)"
proof -
  have new: "(a, w) \<notin> set (tree_items t)" for w using tree_map_Some [OF assms(1)] assms(4) by (metis option.distinct(1))
  have "raw_used t + 1936 \<le> raw_size t + 32 * 61" using assms(1) by (simp add: tree_inv_def)
  from tree_insert_total [of ok, OF assms(5) assms(2,3) assms(1) new this, of v]
  obtain t' where t': "tree_insert (Suc 61) ok t a v = Inr t'" "tree_inv t'"
    "set (tree_items t') = insert (a, v) (set (tree_items t))" by blast
  have "tree_map t' = (tree_map t)(a \<mapsto> v)"
  proof (rule map_eq_Some_iff)
    fix b w
    show "tree_map t' b = Some w \<longleftrightarrow> ((tree_map t)(a \<mapsto> v)) b = Some w"
      using tree_map_Some [OF assms(1)] tree_map_Some [OF t'(2)] t'(3) new by auto
  qed
  then show ?thesis using t' by (simp add: insert_fuel_def)
qed

lemma tree_delete_map:
  assumes "tree_inv t" and "a \<noteq> 0"
  shows "fst (tree_delete_item t a) = (tree_map t a \<noteq> None)
    \<and> tree_inv (snd (tree_delete_item t a)) \<and> tree_map (snd (tree_delete_item t a)) = (tree_map t)(a := None)"
proof -
  note d = tree_delete_spec [OF assms]
  have "tree_map (snd (tree_delete_item t a)) = (tree_map t)(a := None)"
  proof (rule map_eq_Some_iff)
    fix b w
    show "tree_map (snd (tree_delete_item t a)) b = Some w \<longleftrightarrow> ((tree_map t)(a := None)) b = Some w"
      using tree_map_Some [OF assms(1)] tree_map_Some [OF d(1)] d(2) by auto
  qed
  moreover have "fst (tree_delete_item t a) = (tree_map t a \<noteq> None)"
    using d(3) tree_lookup_map [OF assms] by simp
  ultimately show ?thesis using d(1) by blast
qed

text \<open>
  The interface the collector relies on: an address-indexed map with a success-only insert
  of a new key, deletion that says whether the key was there, and an emptying operation.
\<close>

locale addr_map =
  fixes inv :: "'t \<Rightarrow> bool" and valid :: "'k \<Rightarrow> bool" and abs :: "'t \<Rightarrow> 'k \<Rightarrow> 'v option"
    and empty :: 't and insert_new :: "'t \<Rightarrow> 'k \<Rightarrow> 'v \<Rightarrow> 'e + 't"
    and delete :: "'t \<Rightarrow> 'k \<Rightarrow> bool \<times> 't" and clear :: "'t \<Rightarrow> 't" and look :: "'t \<Rightarrow> 'k \<Rightarrow> 'v option"
  assumes inv_empty: "inv empty" and abs_empty: "abs empty = Map.empty"
    and look_abs: "inv t \<Longrightarrow> valid k \<Longrightarrow> look t k = abs t k"
    and insert_new_abs: "inv t \<Longrightarrow> valid k \<Longrightarrow> abs t k = None \<Longrightarrow>
      \<exists>t'. insert_new t k v = Inr t' \<and> inv t' \<and> abs t' = (abs t)(k \<mapsto> v)"
    and delete_abs: "inv t \<Longrightarrow> valid k \<Longrightarrow> fst (delete t k) = (abs t k \<noteq> None) \<and>
      inv (snd (delete t k)) \<and> abs (snd (delete t k)) = (abs t)(k := None)"
    and clear_abs: "inv t \<Longrightarrow> inv (clear t) \<and> abs (clear t) = Map.empty"
begin

text \<open>A sequence of insertions of new keys into a cleared map is the map of the list.\<close>

fun insert_all :: "'t \<Rightarrow> ('k \<times> 'v) list \<Rightarrow> 'e + 't" where
  "insert_all t [] = Inr t"
| "insert_all t ((k, v) # kvs) = (case insert_new t k v of Inl e \<Rightarrow> Inl e | Inr t' \<Rightarrow> insert_all t' kvs)"

lemma insert_all_abs:
  "inv t \<Longrightarrow> distinct (map fst kvs) \<Longrightarrow> (\<forall>(k, v) \<in> set kvs. valid k \<and> abs t k = None) \<Longrightarrow>
   \<exists>t'. insert_all t kvs = Inr t' \<and> inv t' \<and> abs t' = abs t ++ map_of kvs"
proof (induction kvs arbitrary: t)
  case (Cons p kvs)
  obtain k v where p: "p = (k, v)" by (cases p)
  then obtain t1 where t1: "insert_new t k v = Inr t1" "inv t1" "abs t1 = (abs t)(k \<mapsto> v)"
    using insert_new_abs [of t k v] Cons.prems by auto
  have "\<forall>(k', v') \<in> set kvs. valid k' \<and> abs t1 k' = None"
    using Cons.prems(2,3) p t1(3) by (force simp: image_iff)
  then obtain t' where "insert_all t1 kvs = Inr t'" "inv t'" "abs t' = abs t1 ++ map_of kvs"
    using Cons.IH [OF t1(2)] Cons.prems(2) by auto
  moreover have "map_of kvs k = None" using Cons.prems(2) p by (simp add: map_of_eq_None_iff)
  then have "abs t1 ++ map_of kvs = abs t ++ map_of ((k, v) # kvs)"
    unfolding t1(3) by (auto simp: map_add_def fun_eq_iff split: option.splits)
  ultimately show ?case unfolding p by (intro exI [of _ t']) (simp only: t1(1) insert_all.simps sum.case)
qed simp

lemma insert_delete: "inv t \<Longrightarrow> valid k \<Longrightarrow> abs t k = None \<Longrightarrow>
  \<exists>t'. insert_new t k v = Inr t' \<and> look t' k = Some v \<and> fst (delete t' k)
    \<and> abs (snd (delete t' k)) = abs t"
  using insert_new_abs [of t k v] delete_abs look_abs by fastforce

end

interpretation trm: addr_map tree_inv "\<lambda>a. aligned8 a \<and> a \<noteq> 0" tree_map tree_create
  "tree_insert insert_fuel (\<lambda>_. True)" tree_delete_item tree_clear tree_lookup
proof unfold_locales
  show "tree_inv tree_create" by (rule tree_inv_create)
  show "tree_map tree_create = Map.empty" by (rule tree_map_create)
  show "tree_inv (tree_clear t) \<and> tree_map (tree_clear t) = Map.empty" if "tree_inv t" for t
    using tree_clear_spec [OF that] by blast
  fix t a
  assume "tree_inv t" "aligned8 a \<and> a \<noteq> 0"
  then show "fst (tree_delete_item t a) = (tree_map t a \<noteq> None) \<and>
      tree_inv (snd (tree_delete_item t a)) \<and> tree_map (snd (tree_delete_item t a)) = (tree_map t)(a := None)"
    using tree_delete_map [of t a] by blast
  show "tree_lookup t a = tree_map t a"
    using tree_lookup_map \<open>tree_inv t\<close> \<open>aligned8 a \<and> a \<noteq> 0\<close> by blast
  show "\<exists>t'. tree_insert insert_fuel (\<lambda>_. True) t a v = Inr t' \<and> tree_inv t' \<and> tree_map t' = (tree_map t)(a \<mapsto> v)"
    if "tree_map t a = None" for v
    by (rule tree_insert_map) (use \<open>tree_inv t\<close> \<open>aligned8 a \<and> a \<noteq> 0\<close> that in simp_all)
qed

end
