(* ===== verification/Rewind.thy ===== *)
theory Rewind
  imports Prelude
begin

text \<open>
  \<open>c7/stm/rewind_setjmp.c\<close> and \<open>rewind_setjmp.h\<close>: saving slices of the C stack
  and of the shadow stack at a setjmp, extending the saved part when a frame is left, and
  putting both back before the longjmp of an aborted transaction. The C stack is a byte
  array that grows downwards; the shadow stack is the list of its entries, oldest first. A
  pointer into the shadow stack is an index. Saving the registers (\<open>__builtin_setjmp\<close>)
  is not modelled: the flag \<open>again\<close> says which of its two returns is taken.
\<close>

section \<open>Data\<close>

text \<open>
  A \<open>rewind_jmp_buf\<close>: \<open>jit\<close> is the lowest bit of \<open>shadowstack_base\<close>, set by the
  JIT when \<open>frame_base\<close> is missing; \<open>buf_addr\<close> is the address of the structure.
\<close>

record rewind_jmp_buf =
  shadowstack_base :: nat
  jit :: bool
  frame_base :: nat
  buf_addr :: nat

text \<open>The slices \<open>_rewind_jmp_moved_s\<close>: stack bytes and shadow stack entries.\<close>

record moved_s =
  stack_bytes :: "u8 list"
  ss_entries :: "nat list"

text \<open>\<open>head\<close> with its \<open>prev\<close> chain is a list; the null pointer of the moved-off fields is 0 and None.\<close>

record rewind_jmp_thread =
  rj_head :: "rewind_jmp_buf list"
  initial_head :: "rewind_jmp_buf list"
  moved_off_base :: nat
  moved_off_ssbase :: "nat option"
  moved_off :: "moved_s list"
  repeat_count :: nat

definition rj_initial :: rewind_jmp_thread where
  "rj_initial = \<lparr>rj_head = [], initial_head = [], moved_off_base = 0, moved_off_ssbase = None,
     moved_off = [], repeat_count = 0\<rparr>"

section \<open>Operations\<close>

definition rewind_jmp_enterframe ::
  "rewind_jmp_thread \<Rightarrow> nat \<Rightarrow> nat \<Rightarrow> nat \<Rightarrow> rewind_jmp_thread" where
  "rewind_jmp_enterframe rj addr frame ss =
     rj\<lparr>rj_head := \<lparr>shadowstack_base = ss, jit = False, frame_base = frame, buf_addr = addr\<rparr> # rj_head rj\<rparr>"

text \<open>\<open>slice f a b\<close>: the bytes \<open>[a, b)\<close> of a memory.\<close>

definition slice :: "(nat \<Rightarrow> 'a) \<Rightarrow> nat \<Rightarrow> nat \<Rightarrow> 'a list" where
  "slice f a b = map f [a..<b]"

text \<open>
  \<open>copy_stack\<close>: \<open>base\<close> is the newest byte, \<open>ssbase\<close> the newest shadow stack position;
  \<open>head == NULL\<close> is excluded by the callers.
\<close>

definition copy_stack ::
  "rewind_jmp_thread \<Rightarrow> (nat \<Rightarrow> u8) \<Rightarrow> nat list \<Rightarrow> nat \<Rightarrow> nat \<Rightarrow> rewind_jmp_thread" where
  "copy_stack rj stk ss base ssbase =
     (let h = hd (rj_head rj);
          ssstop = shadowstack_base h;
          stop = (if jit h then buf_addr h else frame_base h)
      in rj\<lparr>moved_off_base := stop, moved_off_ssbase := Some ssstop,
            moved_off := \<lparr>stack_bytes = slice stk base stop,
                          ss_entries = drop ssstop (take ssbase ss)\<rparr> # moved_off rj\<rparr>)"

definition rewind_jmp_free_stack_slices :: "rewind_jmp_thread \<Rightarrow> rewind_jmp_thread" where
  "rewind_jmp_free_stack_slices rj =
     rj\<lparr>moved_off := [], moved_off_base := 0, moved_off_ssbase := None\<rparr>"

text \<open>
  \<open>rewind_jmp_setjmp\<close>: \<open>sp\<close> is the address of its local \<open>saved\<close>; \<open>again\<close>
  distinguishes the return by longjmp.
\<close>

definition rewind_jmp_setjmp ::
  "rewind_jmp_thread \<Rightarrow> (nat \<Rightarrow> u8) \<Rightarrow> nat list \<Rightarrow> nat \<Rightarrow> bool \<Rightarrow> nat \<times> rewind_jmp_thread" where
  "rewind_jmp_setjmp rj stk ss sp again =
     (let rj = (if moved_off rj \<noteq> [] then rewind_jmp_free_stack_slices rj else rj);
          (result, rj) = (if \<not> again then (0, rj\<lparr>initial_head := rj_head rj\<rparr>)
                          else (repeat_count rj + 1, rj\<lparr>rj_head := initial_head rj\<rparr>));
          rj = rj\<lparr>repeat_count := result\<rparr>
      in (result, copy_stack rj stk ss sp (length ss)))"

definition rewind_jmp_copy_stack_slice ::
  "rewind_jmp_thread \<Rightarrow> (nat \<Rightarrow> u8) \<Rightarrow> nat list \<Rightarrow> rewind_jmp_thread" where
  "rewind_jmp_copy_stack_slice rj stk ss =
     (if rj_head rj = [] then rewind_jmp_free_stack_slices rj
      else copy_stack rj stk ss (moved_off_base rj) (the (moved_off_ssbase rj)))"

text \<open>The macro \<open>rewind_jmp_leaveframe\<close>, for the frame at the head.\<close>

definition rewind_jmp_leaveframe ::
  "rewind_jmp_thread \<Rightarrow> (nat \<Rightarrow> u8) \<Rightarrow> nat list \<Rightarrow> rewind_jmp_thread" where
  "rewind_jmp_leaveframe rj stk ss =
     (let rjbuf = hd (rj_head rj); rj = rj\<lparr>rj_head := tl (rj_head rj)\<rparr>
      in if frame_base rjbuf = moved_off_base rj then rewind_jmp_copy_stack_slice rj stk ss else rj)"

definition rewind_jmp_forget :: "rewind_jmp_thread \<Rightarrow> rewind_jmp_thread" where
  "rewind_jmp_forget rj =
     (let rj = (if moved_off rj \<noteq> [] then rewind_jmp_free_stack_slices rj else rj)
      in rj\<lparr>moved_off_base := 0, moved_off_ssbase := None\<rparr>)"

definition rewind_jmp_armed :: "rewind_jmp_thread \<Rightarrow> bool" where
  "rewind_jmp_armed rj \<longleftrightarrow> moved_off_base rj \<noteq> 0"

text \<open>
  \<open>rewind_jmp_enum_shadowstack\<close> calls back for every non-empty saved slice with the
  position it belongs to, and returns the position after the last one.
\<close>

fun enum_slices :: "nat \<Rightarrow> moved_s list \<Rightarrow> (nat \<Rightarrow> nat list \<Rightarrow> 's \<Rightarrow> 's) \<Rightarrow> 's \<Rightarrow> nat \<times> 's" where
  "enum_slices sstarget [] callback s = (sstarget, s)"
| "enum_slices sstarget (p # ps) callback s =
     (if ss_entries p \<noteq> []
      then enum_slices (sstarget + length (ss_entries p)) ps callback (callback sstarget (ss_entries p) s)
      else enum_slices sstarget ps callback s)"

definition rewind_jmp_enum_shadowstack ::
  "rewind_jmp_thread \<Rightarrow> (nat \<Rightarrow> nat list \<Rightarrow> 's \<Rightarrow> 's) \<Rightarrow> 's \<Rightarrow> nat \<times> 's" where
  "rewind_jmp_enum_shadowstack rj callback s =
     enum_slices (the (moved_off_ssbase rj)) (moved_off rj) callback s"

text \<open>\<open>memcpy\<close> of entries into the shadow stack memory, a total array.\<close>

definition ss_memcpy :: "nat \<Rightarrow> nat list \<Rightarrow> (nat \<Rightarrow> nat) \<Rightarrow> nat \<Rightarrow> nat" where
  "ss_memcpy target xs m i = (if target \<le> i \<and> i < target + length xs then xs ! (i - target) else m i)"

text \<open>
  \<open>rewind_jmp_restore_shadowstack\<close> copies the slices back; the result is the new
  \<open>shadowstack\<close> pointer, and with it the list of entries below the pointer.
\<close>

definition rewind_jmp_restore_shadowstack :: "rewind_jmp_thread \<Rightarrow> (nat \<Rightarrow> nat) \<Rightarrow> nat \<times> (nat \<Rightarrow> nat)" where
  "rewind_jmp_restore_shadowstack rj ssmem = rewind_jmp_enum_shadowstack rj ss_memcpy ssmem"

text \<open>The same on the list of entries, the form the segments use.\<close>

definition restore_ss :: "rewind_jmp_thread \<Rightarrow> nat list \<Rightarrow> nat list" where
  "restore_ss rj ss =
     (let (top, m) = rewind_jmp_restore_shadowstack rj (\<lambda>i. if i < length ss then ss ! i else 0)
      in map m [0..<top])"

text \<open>
  \<open>do_longjmp\<close>: copy the stack slices back; \<open>stack_free\<close> is the lowest usable byte, and
  recursing through \<open>alloca\<close> only lowers it.
\<close>

fun do_longjmp :: "nat \<Rightarrow> moved_s list \<Rightarrow> nat \<Rightarrow> (nat \<Rightarrow> u8) \<Rightarrow> nat \<times> (nat \<Rightarrow> u8)" where
  "do_longjmp base [] stack_free stk = (base, stk)"
| "do_longjmp base (p # ps) stack_free stk =
     (let target = base - length (stack_bytes p);
          stack_free = (if target < stack_free then target else stack_free)
      in do_longjmp target ps stack_free
           (\<lambda>a. if target \<le> a \<and> a < base then stack_bytes p ! (a - target) else stk a))"

definition rewind_jmp_longjmp ::
  "rewind_jmp_thread \<Rightarrow> nat \<Rightarrow> (nat \<Rightarrow> u8) \<Rightarrow> rewind_jmp_thread \<times> (nat \<Rightarrow> u8)" where
  "rewind_jmp_longjmp rj marker stk =
     (let (base, stk') = do_longjmp (moved_off_base rj) (moved_off rj) marker stk
      in (rj\<lparr>moved_off_base := base, moved_off := []\<rparr>, stk'))"

section \<open>What the slices restore\<close>

abbreviation saved_ss :: "moved_s list \<Rightarrow> nat list" where
  "saved_ss ps \<equiv> concat (map ss_entries ps)"

abbreviation saved_stack :: "moved_s list \<Rightarrow> u8 list" where
  "saved_stack ps \<equiv> concat (map stack_bytes (rev ps))"

lemma ss_memcpy_Nil [simp]: "ss_memcpy t [] m = m"
  by (simp add: ss_memcpy_def fun_eq_iff)

lemma ss_memcpy_append: "ss_memcpy (t + length xs) ys (ss_memcpy t xs m) = ss_memcpy t (xs @ ys) m"
  by (auto simp: ss_memcpy_def fun_eq_iff nth_append)

lemma enum_slices_memcpy:
  "enum_slices t ps ss_memcpy m = (t + length (saved_ss ps), ss_memcpy t (saved_ss ps) m)"
  by (induction ps arbitrary: t m) (auto simp: ss_memcpy_append)

lemma restore_ss_eq:
  assumes "moved_off_ssbase rj = Some b" and "b \<le> length ss"
  shows "restore_ss rj ss = take b ss @ saved_ss (moved_off rj)"
proof (rule nth_equalityI)
  show "length (restore_ss rj ss) = length (take b ss @ saved_ss (moved_off rj))"
    using assms by (simp add: restore_ss_def rewind_jmp_restore_shadowstack_def
        rewind_jmp_enum_shadowstack_def enum_slices_memcpy)
next
  fix i
  assume "i < length (restore_ss rj ss)"
  then show "restore_ss rj ss ! i = (take b ss @ saved_ss (moved_off rj)) ! i"
    using assms by (auto simp: restore_ss_def rewind_jmp_restore_shadowstack_def
        rewind_jmp_enum_shadowstack_def enum_slices_memcpy ss_memcpy_def nth_append)
qed

lemma do_longjmp_eq:
  "length (saved_stack ps) \<le> base \<Longrightarrow>
   do_longjmp base ps free stk =
     (base - length (saved_stack ps),
      \<lambda>a. if base - length (saved_stack ps) \<le> a \<and> a < base
          then saved_stack ps ! (a - (base - length (saved_stack ps))) else stk a)"
proof (induction base ps free stk rule: do_longjmp.induct)
  case (1 base free stk)
  then show ?case by (auto simp: fun_eq_iff)
next
  case (2 base p ps free stk)
  let ?n = "length (stack_bytes p)" and ?m = "length (saved_stack ps)"
  have le: "?m \<le> base - ?n" "?n \<le> base" using 2(2) by auto
  have split: "saved_stack (p # ps) = saved_stack ps @ stack_bytes p" by simp
  show ?case unfolding do_longjmp.simps Let_def
    using le by (auto simp: "2.IH" [OF refl refl] fun_eq_iff nth_append diff_diff_add add.commute)
qed

section \<open>Running between the setjmp and the longjmp\<close>

text \<open>
  Nested frames: going from a frame to an older one, the stack addresses do not decrease
  and the shadow stack positions do not increase. The frames of the JIT keep their own
  record of the stack and are left out.
\<close>

fun nested :: "rewind_jmp_buf list \<Rightarrow> bool" where
  "nested [] \<longleftrightarrow> True"
| "nested [f] \<longleftrightarrow> \<not> jit f"
| "nested (f # g # fs) \<longleftrightarrow> \<not> jit f \<and> frame_base f < frame_base g \<and>
     shadowstack_base g \<le> shadowstack_base f \<and> nested (g # fs)"

text \<open>
  What a thread may do during the transaction: change its own frames and everything newer,
  enter a frame, and leave the frame at the head when there is an older one.
\<close>

type_synonym rj_state = "rewind_jmp_thread \<times> (nat \<Rightarrow> u8) \<times> nat list"

inductive rj_step :: "rj_state \<Rightarrow> rj_state \<Rightarrow> bool" where
  run: "moved_off_ssbase rj = Some b \<Longrightarrow> b \<le> length ss' \<Longrightarrow> take b ss' = take b ss \<Longrightarrow>
    (\<And>a. moved_off_base rj \<le> a \<Longrightarrow> stk' a = stk a) \<Longrightarrow> rj_step (rj, stk, ss) (rj, stk', ss')"
| enter: "frame < moved_off_base rj \<Longrightarrow>
    rj_step (rj, stk, ss) (rewind_jmp_enterframe rj addr frame (length ss), stk, ss)"
| leave: "tl (rj_head rj) \<noteq> [] \<Longrightarrow>
    rj_step (rj, stk, ss) (rewind_jmp_leaveframe rj stk ss, stk, ss)"

inductive_cases rj_stepE: "rj_step (rj, stk, ss) st"

text \<open>The saved slices and the older, untouched part make up the stacks of the setjmp.\<close>

definition rj_saved :: "(nat \<Rightarrow> u8) \<Rightarrow> nat list \<Rightarrow> nat \<Rightarrow> rj_state \<Rightarrow> bool" where
  "rj_saved stk0 ss0 sp st \<longleftrightarrow> (case st of (rj, stk, ss) \<Rightarrow>
     \<exists>young f old. rj_head rj = young @ f # old \<and> nested (f # old) \<and>
       (\<forall>y \<in> set young. frame_base y < moved_off_base rj) \<and>
       frame_base f = moved_off_base rj \<and> moved_off_ssbase rj = Some (shadowstack_base f) \<and>
       shadowstack_base f \<le> length ss \<and> shadowstack_base f \<le> length ss0 \<and>
       take (shadowstack_base f) ss = take (shadowstack_base f) ss0 \<and>
       saved_ss (moved_off rj) = drop (shadowstack_base f) ss0 \<and>
       sp \<le> moved_off_base rj \<and> (\<forall>a \<ge> moved_off_base rj. stk a = stk0 a) \<and>
       saved_stack (moved_off rj) = slice stk0 sp (moved_off_base rj))"

lemma slice_append: "a \<le> b \<Longrightarrow> b \<le> c \<Longrightarrow> slice f a b @ slice f b c = slice f a c"
  unfolding slice_def by (metis map_append upt_add_eq_append le_Suc_ex)

lemma slice_cong: "(\<And>i. a \<le> i \<Longrightarrow> f i = g i) \<Longrightarrow> slice f a b = slice g a b"
  by (simp add: slice_def)

lemma rj_savedE:
  assumes "rj_saved stk0 ss0 sp (rj, stk, ss)"
  obtains young f old where "rj_head rj = young @ f # old" and "nested (f # old)"
    and "\<forall>y \<in> set young. frame_base y < moved_off_base rj" and "frame_base f = moved_off_base rj"
    and "moved_off_ssbase rj = Some (shadowstack_base f)" and "shadowstack_base f \<le> length ss"
    and "shadowstack_base f \<le> length ss0" and "take (shadowstack_base f) ss = take (shadowstack_base f) ss0"
    and "saved_ss (moved_off rj) = drop (shadowstack_base f) ss0" and "sp \<le> moved_off_base rj"
    and "\<forall>a \<ge> moved_off_base rj. stk a = stk0 a"
    and "saved_stack (moved_off rj) = slice stk0 sp (moved_off_base rj)"
  using assms unfolding rj_saved_def prod.case by blast

lemma rj_savedI:
  assumes "rj_head rj = young @ f # old" and "nested (f # old)"
    and "\<forall>y \<in> set young. frame_base y < moved_off_base rj" and "frame_base f = moved_off_base rj"
    and "moved_off_ssbase rj = Some (shadowstack_base f)" and "shadowstack_base f \<le> length ss"
    and "shadowstack_base f \<le> length ss0" and "take (shadowstack_base f) ss = take (shadowstack_base f) ss0"
    and "saved_ss (moved_off rj) = drop (shadowstack_base f) ss0" and "sp \<le> moved_off_base rj"
    and "\<forall>a \<ge> moved_off_base rj. stk a = stk0 a"
    and "saved_stack (moved_off rj) = slice stk0 sp (moved_off_base rj)"
  shows "rj_saved stk0 ss0 sp (rj, stk, ss)"
  unfolding rj_saved_def prod.case using assms by blast

lemma rj_saved_step:
  assumes "rj_saved stk0 ss0 sp st" and "rj_step st st'"
  shows "rj_saved stk0 ss0 sp st'"
  using assms(2,1)
proof cases
  case (run rj b ss' ss stk' stk)
  from assms(1) have "rj_saved stk0 ss0 sp (rj, stk, ss)" by (simp add: run)
  then show ?thesis unfolding run(2)
  proof (rule rj_savedE)
    fix young f old
    assume h: "rj_head rj = young @ f # old" "nested (f # old)"
      "\<forall>y \<in> set young. frame_base y < moved_off_base rj" "frame_base f = moved_off_base rj"
      "moved_off_ssbase rj = Some (shadowstack_base f)" "shadowstack_base f \<le> length ss"
      "shadowstack_base f \<le> length ss0" "take (shadowstack_base f) ss = take (shadowstack_base f) ss0"
      "saved_ss (moved_off rj) = drop (shadowstack_base f) ss0" "sp \<le> moved_off_base rj"
      "\<forall>a \<ge> moved_off_base rj. stk a = stk0 a" "saved_stack (moved_off rj) = slice stk0 sp (moved_off_base rj)"
    show "rj_saved stk0 ss0 sp (rj, stk', ss')"
      by (rule rj_savedI [OF h(1-5)]) (use h run in auto)
  qed
next
  case (enter frame rj stk ss addr)
  let ?y = "\<lparr>shadowstack_base = length ss, jit = False, frame_base = frame, buf_addr = addr\<rparr>"
  from assms(1) have "rj_saved stk0 ss0 sp (rj, stk, ss)" by (simp add: enter)
  then show ?thesis unfolding enter(2)
  proof (rule rj_savedE)
    fix young f old
    assume h: "rj_head rj = young @ f # old" "nested (f # old)"
      "\<forall>y \<in> set young. frame_base y < moved_off_base rj" "frame_base f = moved_off_base rj"
      "moved_off_ssbase rj = Some (shadowstack_base f)" "shadowstack_base f \<le> length ss"
      "shadowstack_base f \<le> length ss0" "take (shadowstack_base f) ss = take (shadowstack_base f) ss0"
      "saved_ss (moved_off rj) = drop (shadowstack_base f) ss0" "sp \<le> moved_off_base rj"
      "\<forall>a \<ge> moved_off_base rj. stk a = stk0 a" "saved_stack (moved_off rj) = slice stk0 sp (moved_off_base rj)"
    show "rj_saved stk0 ss0 sp (rewind_jmp_enterframe rj addr frame (length ss), stk, ss)"
      by (rule rj_savedI [of _ "?y # young" f old])
        (use h enter(3) in \<open>auto simp: rewind_jmp_enterframe_def\<close>)
  qed
next
  case (leave rj stk ss)
  from assms(1) have "rj_saved stk0 ss0 sp (rj, stk, ss)" by (simp add: leave)
  then obtain young f old where h: "rj_head rj = young @ f # old"
    and y: "\<forall>y \<in> set young. frame_base y < moved_off_base rj"
    and n: "nested (f # old)" and f: "frame_base f = moved_off_base rj"
    and rest: "moved_off_ssbase rj = Some (shadowstack_base f)" "shadowstack_base f \<le> length ss"
      "shadowstack_base f \<le> length ss0" "take (shadowstack_base f) ss = take (shadowstack_base f) ss0"
      "saved_ss (moved_off rj) = drop (shadowstack_base f) ss0" "sp \<le> moved_off_base rj"
      "\<forall>a \<ge> moved_off_base rj. stk a = stk0 a" "saved_stack (moved_off rj) = slice stk0 sp (moved_off_base rj)"
    by (rule rj_savedE)
  show ?thesis
  proof (cases young)
    case (Cons g gs)
    then have "rewind_jmp_leaveframe rj stk ss = rj\<lparr>rj_head := gs @ f # old\<rparr>"
      using h y by (auto simp: rewind_jmp_leaveframe_def)
    then show ?thesis unfolding leave(2)
      by (intro rj_savedI [of _ gs f old]) (use Cons h y n f rest in auto)
  next
    case Nil
    then obtain g old' where old: "old = g # old'" using leave h by (cases old) auto
    have g: "\<not> jit g" "frame_base f < frame_base g" "shadowstack_base g \<le> shadowstack_base f"
      and ng: "nested (g # old')"
      using n by (auto simp: old) (cases old'; simp)
    have rj': "rewind_jmp_leaveframe rj stk ss =
      rj\<lparr>rj_head := g # old', moved_off_base := frame_base g, moved_off_ssbase := Some (shadowstack_base g),
        moved_off := \<lparr>stack_bytes = slice stk (moved_off_base rj) (frame_base g),
          ss_entries = drop (shadowstack_base g) (take (shadowstack_base f) ss)\<rparr> # moved_off rj\<rparr>"
      using h Nil old f g(1) rest(1)
      by (simp add: rewind_jmp_leaveframe_def rewind_jmp_copy_stack_slice_def copy_stack_def Let_def)
    have "drop (shadowstack_base g) (take (shadowstack_base f) ss) @ drop (shadowstack_base f) ss0
        = drop (shadowstack_base g) ss0"
      using g(3) rest(3,4) by (metis append_take_drop_id drop_append length_take min.absorb2
          diff_is_0_eq drop0)
    moreover have "take (shadowstack_base g) ss = take (shadowstack_base g) ss0"
      using g(3) rest(4) by (metis min.absorb1 take_take)
    moreover have "slice stk0 sp (moved_off_base rj) @ slice stk (moved_off_base rj) (frame_base g)
        = slice stk0 sp (frame_base g)"
      using slice_append [of sp "moved_off_base rj" "frame_base g" stk0] rest(6,7) f g(2)
        slice_cong [of "moved_off_base rj" stk stk0] by simp
    ultimately show ?thesis unfolding leave(2) rj'
      by (intro rj_savedI [of _ "[]" g old']) (use g ng rest f in auto)
  qed
qed

lemma rj_saved_steps:
  "rj_step\<^sup>*\<^sup>* st st' \<Longrightarrow> rj_saved stk0 ss0 sp st \<Longrightarrow> rj_saved stk0 ss0 sp st'"
  by (induction rule: rtranclp_induct) (auto intro: rj_saved_step)

lemma rj_saved_setjmp:
  assumes "rewind_jmp_setjmp rj stk ss sp again = (n, rj')"
    and "rj_head rj = f # old" and "nested (f # old)" and "shadowstack_base f \<le> length ss"
    and "sp \<le> frame_base f" and "again \<Longrightarrow> initial_head rj = rj_head rj"
  shows "rj_saved stk ss sp (rj', stk, ss)"
proof -
  have j: "\<not> jit f" using assms(3) by (cases old) auto
  have rj': "rj_head rj' = f # old" "moved_off_base rj' = frame_base f"
    "moved_off_ssbase rj' = Some (shadowstack_base f)"
    "moved_off rj' = [\<lparr>stack_bytes = slice stk sp (frame_base f), ss_entries = drop (shadowstack_base f) ss\<rparr>]"
    using assms(1,2,6) j
    by (auto simp: rewind_jmp_setjmp_def Let_def copy_stack_def rewind_jmp_free_stack_slices_def
        split: if_splits)
  show ?thesis
    by (rule rj_savedI [of _ "[]" f old]) (use rj' assms(3-5) in auto)
qed

lemma rj_saved_restores:
  assumes "rj_saved stk0 ss0 sp (rj, stk, ss)"
  shows "restore_ss rj ss = ss0"
    and "sp \<le> a \<Longrightarrow> snd (rewind_jmp_longjmp rj m stk) a = stk0 a"
proof -
  from assms obtain b where b: "moved_off_ssbase rj = Some b" "b \<le> length ss" "b \<le> length ss0"
      "take b ss = take b ss0" "saved_ss (moved_off rj) = drop b ss0"
    and B: "sp \<le> moved_off_base rj" "\<forall>a \<ge> moved_off_base rj. stk a = stk0 a"
      "saved_stack (moved_off rj) = slice stk0 sp (moved_off_base rj)"
    using assms by (elim rj_savedE) blast
  show "restore_ss rj ss = ss0" using restore_ss_eq [OF b(1,2)] b by simp
  have len: "length (saved_stack (moved_off rj)) = moved_off_base rj - sp" using B by (simp add: slice_def)
  show "snd (rewind_jmp_longjmp rj m stk) a = stk0 a" if "sp \<le> a"
    using do_longjmp_eq [of "moved_off rj" "moved_off_base rj" m stk] len B that
    by (auto simp: rewind_jmp_longjmp_def slice_def split: prod.split)
qed

end
