(* ===== verification/Pagectl.thy ===== *)
theory Pagectl
  imports Prelude
begin

text \<open>
  The counters \<open>pages_ctl\<close> of \<open>c7/stm/pages.c\<close>: how much memory is in use outside the
  nurseries, and when to ask for a major collection. 64-bit arithmetic wraps, as in C.
\<close>

record pages_ctl =
  major_collection_requested :: bool
  total_allocated :: u64
  total_allocated_bound :: u64

definition GC_MIN :: u64 where "GC_MIN = 1024 * 4096 * 8"

definition setup_pages :: "pages_ctl \<Rightarrow> pages_ctl" where
  "setup_pages c = c\<lparr>total_allocated_bound := GC_MIN\<rparr>"

definition increment_total_allocated :: "int \<Rightarrow> pages_ctl \<Rightarrow> pages_ctl" where
  "increment_total_allocated add_or_remove c =
     (let ta = total_allocated c + word_of_int add_or_remove;
          c = c\<lparr>total_allocated := ta\<rparr>
      in if ta \<ge> total_allocated_bound c then c\<lparr>major_collection_requested := True\<rparr> else c)"

definition is_major_collection_requested :: "pages_ctl \<Rightarrow> bool" where
  "is_major_collection_requested c = major_collection_requested c"

definition force_major_collection_request :: "pages_ctl \<Rightarrow> pages_ctl" where
  "force_major_collection_request c = c\<lparr>major_collection_requested := True\<rparr>"

text \<open>
  \<open>scale\<close> stands for the floating-point product with \<open>GC_MAJOR_COLLECT\<close>, converted back
  to an integer.
\<close>

definition reset_major_collection_requested :: "(u64 \<Rightarrow> u64) \<Rightarrow> pages_ctl \<Rightarrow> pages_ctl" where
  "reset_major_collection_requested scale c =
     (let next_bound = scale (total_allocated c);
          next_bound = (if next_bound < GC_MIN then GC_MIN else next_bound)
      in c\<lparr>total_allocated_bound := next_bound, major_collection_requested := False\<rparr>)"

lemma total_allocated_increment:
  "total_allocated (increment_total_allocated d c) = total_allocated c + word_of_int d"
  by (simp add: increment_total_allocated_def Let_def)

lemma bound_increment [simp]:
  "total_allocated_bound (increment_total_allocated d c) = total_allocated_bound c"
  by (simp add: increment_total_allocated_def Let_def)

lemma increment_increment:
  "total_allocated (increment_total_allocated d (increment_total_allocated e c))
     = total_allocated c + word_of_int (d + e)"
  by (simp add: total_allocated_increment algebra_simps)

text \<open>The request flag covers every moment at which the bound is reached.\<close>

definition requested_when_full :: "pages_ctl \<Rightarrow> bool" where
  "requested_when_full c \<longleftrightarrow> (total_allocated_bound c \<le> total_allocated c \<longrightarrow> major_collection_requested c)"

lemma increment_requested:
  "requested_when_full (increment_total_allocated d c)"
  by (simp add: requested_when_full_def increment_total_allocated_def Let_def)

lemma reset_bound_min:
  "GC_MIN \<le> total_allocated_bound (reset_major_collection_requested scale c)"
  by (auto simp: reset_major_collection_requested_def Let_def not_less)

end
