(* ===== verification/Largemalloc.thy ===== *)
theory Largemalloc
  imports Pagectl
begin

text \<open>
  The allocator of \<open>c7/stm/largemalloc.c\<close>: an arena tiled by chunks with boundary tags
  (\<open>prev_size\<close>, \<open>size\<close>), free chunks kept in 84 bins. A chunk is its address; the header
  words are maps from addresses. A bin's circular list \<open>d\<close> is the list of its columns
  from \<open>next\<close> to \<open>prev\<close>; a column is an unsorted chunk (\<open>u.up == UU_UNSORTED\<close>) or the
  vertical list \<open>u\<close> of the chunks of one size, the one in the \<open>d\<close> list first. The lock
  is left out: no operation waits while it holds it.
\<close>

section \<open>Data\<close>

definition CHUNK_HEADER_SIZE :: nat where "CHUNK_HEADER_SIZE = 16"
definition MALLOC_CHUNK_SIZE :: nat where "MALLOC_CHUNK_SIZE = 48"
definition MIN_ALLOC_SIZE :: nat where "MIN_ALLOC_SIZE = MALLOC_CHUNK_SIZE - CHUNK_HEADER_SIZE"
definition THIS_CHUNK_FREE :: nat where "THIS_CHUNK_FREE = 1"
definition BOTH_CHUNKS_USED :: nat where "BOTH_CHUNKS_USED = 0"
definition END_MARKER :: nat where "END_MARKER = 0xDEADBEEF"
definition N_BINS :: nat where "N_BINS = 84"
definition LARGE_MALLOC_OVERHEAD :: nat where "LARGE_MALLOC_OVERHEAD = 16"

lemmas lm_consts = CHUNK_HEADER_SIZE_def MALLOC_CHUNK_SIZE_def MIN_ALLOC_SIZE_def
  THIS_CHUNK_FREE_def BOTH_CHUNKS_USED_def N_BINS_def LARGE_MALLOC_OVERHEAD_def

definition largebin_index :: "nat \<Rightarrow> nat" where
  "largebin_index sz =
     (if sz < 48 * 64 then sz div 64
      else if sz < 24 * 512 then 42 + sz div 512
      else if sz < 12 * 4096 then 63 + sz div 4096
      else if sz < 6 * 32768 then 74 + sz div 32768
      else if sz < 3 * 262144 then 80 + sz div 262144
      else 83)"

datatype column = Unsorted nat | Sorted "nat list"

record lm_s =
  prev_size :: "nat \<Rightarrow> nat"
  chunk_size :: "nat \<Rightarrow> nat"
  first_chunk :: nat
  last_chunk :: nat
  largebins :: "nat \<Rightarrow> column list"
  ctl :: pages_ctl

definition data2chunk :: "nat \<Rightarrow> nat" where "data2chunk p = p - CHUNK_HEADER_SIZE"

definition next_chunk :: "lm_s \<Rightarrow> nat \<Rightarrow> nat" where
  "next_chunk s p = p + (CHUNK_HEADER_SIZE + chunk_size s p)"

abbreviation set_prev_size :: "nat \<Rightarrow> nat \<Rightarrow> lm_s \<Rightarrow> lm_s" where
  "set_prev_size c v s \<equiv> s\<lparr>prev_size := (prev_size s)(c := v)\<rparr>"

abbreviation set_chunk_size :: "nat \<Rightarrow> nat \<Rightarrow> lm_s \<Rightarrow> lm_s" where
  "set_chunk_size c v s \<equiv> s\<lparr>chunk_size := (chunk_size s)(c := v)\<rparr>"

section \<open>Bins\<close>

definition bin_of_size :: "nat \<Rightarrow> nat" where
  "bin_of_size sz = (if sz \<ge> 3 * 262144 then N_BINS - 1 else largebin_index sz)"

definition insert_unsorted :: "nat \<Rightarrow> lm_s \<Rightarrow> lm_s" where
  "insert_unsorted new s =
     (let index = bin_of_size (chunk_size s new)
      in s\<lparr>largebins := (largebins s)(index := largebins s index @ [Unsorted new])\<rparr>)"

fun column_chunks :: "column \<Rightarrow> nat list" where
  "column_chunks (Unsorted c) = [c]"
| "column_chunks (Sorted cs) = cs"

text \<open>The chunk of a column that is in the \<open>d\<close> list.\<close>

definition main_chunk :: "column \<Rightarrow> nat" where
  "main_chunk col = hd (column_chunks col)"

fun is_unsorted :: "column \<Rightarrow> bool" where
  "is_unsorted (Unsorted c) = True"
| "is_unsorted (Sorted cs) = False"

text \<open>Insert \<open>chunk\<close> vertically, just above the head of the column.\<close>

fun add_above :: "nat \<Rightarrow> column \<Rightarrow> column" where
  "add_above c (Sorted (m # cs)) = Sorted (m # c # cs)"
| "add_above c col = col"

text \<open>
  The loop of \<open>really_sort_bin\<close>, for the chunks that remain from the largest to the
  smallest, from the current \<open>head\<close> to \<open>end\<close>.
\<close>

function merge_bin :: "(nat \<Rightarrow> nat) \<Rightarrow> column list \<Rightarrow> nat list \<Rightarrow> column list" where
  "merge_bin sz cols [] = cols"
| "merge_bin sz [] (c # cs) = merge_bin sz [Sorted [c]] cs"
| "merge_bin sz (h # hs) (c # cs) =
     (if sz (main_chunk h) < sz c then merge_bin sz (Sorted [c] # h # hs) cs
      else if sz (main_chunk h) = sz c then merge_bin sz (add_above c h # hs) cs
      else h # merge_bin sz hs (c # cs))"
  by pat_completeness auto
termination by (relation "measure (\<lambda>(sz, cols, cs). length cols + 2 * length cs)") auto

text \<open>\<open>qsort\<close> puts the unsorted chunks in increasing size; the code takes them from the end.\<close>

definition really_sort_bin :: "nat \<Rightarrow> lm_s \<Rightarrow> lm_s" where
  "really_sort_bin index s =
     (let cols = largebins s index;
          unsorted = takeWhile is_unsorted (rev cols);
          scan = rev (dropWhile is_unsorted (rev cols));
          chunks = sort_key (chunk_size s) (map main_chunk unsorted)
      in s\<lparr>largebins := (largebins s)(index := merge_bin (chunk_size s) scan (rev chunks))\<rparr>)"

definition sort_bin :: "nat \<Rightarrow> lm_s \<Rightarrow> lm_s" where
  "sort_bin index s =
     (if largebins s index \<noteq> [] \<and> is_unsorted (last (largebins s index))
      then really_sort_bin index s else s)"

text \<open>
  \<open>unlink_chunk\<close>: out of its column; the chunk above takes the place of the head, and
  an empty column leaves the \<open>d\<close> list.
\<close>

fun column_without :: "nat \<Rightarrow> column \<Rightarrow> column list" where
  "column_without c (Unsorted d) = (if c = d then [] else [Unsorted d])"
| "column_without c (Sorted cs) = (let cs = filter (\<lambda>d. d \<noteq> c) cs in if cs = [] then [] else [Sorted cs])"

definition unlink_chunk :: "nat \<Rightarrow> lm_s \<Rightarrow> lm_s" where
  "unlink_chunk mscan s =
     s\<lparr>largebins := (\<lambda>i. concat (map (column_without mscan) (largebins s i)))\<rparr>"

section \<open>Allocation\<close>

text \<open>
  The scan of one bin from \<open>prev\<close>: the last column that is large enough. \<open>None\<close> is
  reaching \<open>end\<close>.
\<close>

definition scan_bin :: "lm_s \<Rightarrow> nat \<Rightarrow> nat \<Rightarrow> column option" where
  "scan_bin s index request_size =
     find (\<lambda>col. chunk_size s (main_chunk col) \<ge> request_size) (rev (largebins s index))"

text \<open>The higher bins, \<open>n\<close> of them left: the smallest chunk of the first non-empty one.\<close>

fun higher_bins :: "nat \<Rightarrow> nat \<Rightarrow> lm_s \<Rightarrow> (column \<times> lm_s) option" where
  "higher_bins 0 index s = None"
| "higher_bins (Suc n) index s =
     (if largebins s index \<noteq> []
      then let s = sort_bin index s in Some (last (largebins s index), s)
      else higher_bins n (Suc index) s)"

text \<open>Take the chunk above the head of the column if there is one, else the head.\<close>

fun grab_chunk :: "column \<Rightarrow> nat" where
  "grab_chunk (Sorted (m # c # cs)) = c"
| "grab_chunk col = main_chunk col"

text \<open>The part of \<open>_stm_large_malloc\<close> after \<open>found\<close>, with the chunk to use already unlinked.\<close>

definition large_malloc_found :: "nat \<Rightarrow> nat \<Rightarrow> lm_s \<Rightarrow> nat \<times> lm_s" where
  "large_malloc_found mscan request_size s =
     (let remaining_size = chunk_size s mscan - request_size;
          (request_size, s) =
            (if remaining_size < MALLOC_CHUNK_SIZE
             then (chunk_size s mscan, set_prev_size (next_chunk s mscan) BOTH_CHUNKS_USED s)
             else let new = mscan + (CHUNK_HEADER_SIZE + request_size);
                      s = set_prev_size new THIS_CHUNK_FREE s;
                      remaining_data_size = remaining_size - CHUNK_HEADER_SIZE;
                      s = set_chunk_size new remaining_data_size s;
                      s = set_prev_size (next_chunk s new) remaining_data_size s
                  in (request_size, insert_unsorted new s));
          s = set_chunk_size mscan request_size s;
          s = set_prev_size mscan BOTH_CHUNKS_USED s;
          s = s\<lparr>ctl := increment_total_allocated (int (request_size + LARGE_MALLOC_OVERHEAD)) (ctl s)\<rparr>
      in (mscan + CHUNK_HEADER_SIZE, s))"

definition large_malloc :: "nat \<Rightarrow> lm_s \<Rightarrow> nat option \<times> lm_s" where
  "large_malloc request_size s =
     (let request_size = (if request_size < MIN_ALLOC_SIZE then MIN_ALLOC_SIZE else request_size);
          index = largebin_index request_size;
          s = sort_bin index s;
          found = (case scan_bin s index request_size of
                     Some col \<Rightarrow> Some (col, s)
                   | None \<Rightarrow> higher_bins (N_BINS - Suc index) (Suc index) s)
      in case found of
           None \<Rightarrow> (None, s)
         | Some (col, s) \<Rightarrow>
             (let mscan = grab_chunk col;
                  (addr, s) = large_malloc_found mscan request_size (unlink_chunk mscan s)
              in (Some addr, s)))"

section \<open>Freeing\<close>

definition large_free_chunk :: "nat \<Rightarrow> lm_s \<Rightarrow> lm_s" where
  "large_free_chunk chunk s =
     (let s = s\<lparr>ctl := increment_total_allocated (- int (chunk_size s chunk + LARGE_MALLOC_OVERHEAD)) (ctl s)\<rparr>;
          msize = chunk_size s chunk + CHUNK_HEADER_SIZE;
          mscan = chunk + msize;
          s = (if prev_size s mscan = BOTH_CHUNKS_USED
               then set_prev_size mscan (chunk_size s chunk) s
               else let fsize = chunk_size s mscan;
                        fscan = mscan + (fsize + CHUNK_HEADER_SIZE);
                        s = unlink_chunk mscan s;
                        fsize = fsize + msize;
                        s = set_prev_size fscan fsize s
                    in set_chunk_size chunk fsize s);
          (chunk, s) =
            (if prev_size s chunk = BOTH_CHUNKS_USED
             then (chunk, set_prev_size chunk THIS_CHUNK_FREE s)
             else let msize = prev_size s chunk + CHUNK_HEADER_SIZE;
                      mscan = chunk - msize;
                      s = unlink_chunk mscan s;
                      s = set_chunk_size mscan (msize + chunk_size s chunk) s
                  in (mscan, set_prev_size (next_chunk s mscan) (chunk_size s mscan) s))
      in insert_unsorted chunk s)"

definition large_free :: "nat \<Rightarrow> lm_s \<Rightarrow> lm_s" where
  "large_free data s = large_free_chunk (data2chunk data) s"

section \<open>The arena\<close>

definition largemalloc_init_arena :: "nat \<Rightarrow> nat \<Rightarrow> lm_s \<Rightarrow> lm_s" where
  "largemalloc_init_arena data_start data_size s =
     (let s = s\<lparr>largebins := (\<lambda>i. []), first_chunk := data_start\<rparr>;
          s = set_prev_size data_start THIS_CHUNK_FREE s;
          s = set_chunk_size data_start (data_size - 2 * CHUNK_HEADER_SIZE) s;
          s = s\<lparr>last_chunk := data_start + (data_size - CHUNK_HEADER_SIZE)\<rparr>;
          s = set_prev_size (last_chunk s) (chunk_size s data_start) s;
          s = set_chunk_size (last_chunk s) END_MARKER s
      in insert_unsorted data_start s)"

definition largemalloc_resize_arena :: "nat \<Rightarrow> lm_s \<Rightarrow> bool \<times> lm_s" where
  "largemalloc_resize_arena new_size s =
     (if new_size < 2 * MALLOC_CHUNK_SIZE then (False, s)
      else let new_size = new_size - CHUNK_HEADER_SIZE;
               new_last = first_chunk s + new_size;
               old_last = last_chunk s;
               old_size = old_last - first_chunk s
           in if new_size < old_size
              then let lsize = prev_size s (last_chunk s)
                   in if lsize = BOTH_CHUNKS_USED then (False, s)
                      else let prev_chunk = last_chunk s - (lsize + CHUNK_HEADER_SIZE)
                           in if new_last < prev_chunk + MALLOC_CHUNK_SIZE then (False, s)
                              else let s = unlink_chunk prev_chunk s;
                                       s = set_chunk_size prev_chunk (new_last - prev_chunk - CHUNK_HEADER_SIZE) s;
                                       s = set_prev_size new_last (chunk_size s prev_chunk) s;
                                       s = set_chunk_size new_last END_MARKER s;
                                       s = s\<lparr>last_chunk := new_last\<rparr>
                                   in (True, insert_unsorted prev_chunk s)
              else if new_size > old_size
              then let s = set_chunk_size old_last ((new_size - old_size) - CHUNK_HEADER_SIZE) s;
                       s = set_prev_size new_last BOTH_CHUNKS_USED s;
                       s = set_chunk_size new_last END_MARKER s;
                       s = s\<lparr>last_chunk := new_last\<rparr>
                   in (True, large_free_chunk old_last s)
              else (True, s))"

text \<open>
  \<open>_stm_largemalloc_sweep\<close>: \<open>keep\<close> is \<open>largemalloc_keep_object_at\<close>, which reads and
  changes the collector's state. The fuel bounds the chunks visited; running out is None.
\<close>

fun sweep_loop :: "nat \<Rightarrow> (nat \<Rightarrow> 's \<Rightarrow> bool \<times> 's) \<Rightarrow> nat \<Rightarrow> 's \<Rightarrow> lm_s \<Rightarrow> ('s \<times> lm_s) option" where
  "sweep_loop 0 keep chunk g s = None"
| "sweep_loop (Suc n) keep chunk g s =
     (if chunk = last_chunk s then Some (g, s)
      else let mnext = next_chunk s chunk;
               mnext = (if prev_size s mnext = THIS_CHUNK_FREE then next_chunk s mnext else mnext);
               (kept, g) = keep (chunk + CHUNK_HEADER_SIZE) g;
               s = (if \<not> kept then large_free_chunk chunk s else s)
           in sweep_loop n keep mnext g s)"

definition largemalloc_sweep :: "nat \<Rightarrow> (nat \<Rightarrow> 's \<Rightarrow> bool \<times> 's) \<Rightarrow> 's \<Rightarrow> lm_s \<Rightarrow> ('s \<times> lm_s) option" where
  "largemalloc_sweep fuel keep g s =
     (let chunk = first_chunk s;
          chunk = (if prev_size s chunk = THIS_CHUNK_FREE then next_chunk s chunk else chunk)
      in sweep_loop fuel keep chunk g s)"

end
