(* ===== verification/State.thy ===== *)
theory State
  imports Lists Tree Rewind Largemalloc
begin

text \<open>
  The state of the library (\<open>c7/stm/core.h\<close>, \<open>pages.h\<close>, \<open>sync.h\<close>, \<open>gcpage.h\<close>,
  \<open>c7/stmgc.h\<close>): the segments' memory as the kernel maps it, the private data of every
  segment, the thread-locals, and the global variables. Addresses are byte offsets in a
  segment. \<open>mem\<close> holds the file behind the mapping: one copy of every page per segment,
  segment 0 being the shared one; \<open>remap s g p\<close> is the copy that page \<open>p\<close> of segment
  \<open>g\<close> is mapped to. The read markers and the write locks are kept apart from the object
  memory, as the code keeps them in other pages. Functions that run through \<open>%gs\<close> take
  the number of the current segment.
\<close>

section \<open>Constants\<close>

definition NB_SEGMENTS :: nat where "NB_SEGMENTS = 4"
definition NB_PAGES :: nat where "NB_PAGES = 640000"
definition NB_NURSERY_PAGES :: nat where "NB_NURSERY_PAGES = 1024"
definition FIRST_OBJECT_PAGE :: nat where "FIRST_OBJECT_PAGE = 40000"
definition FIRST_NURSERY_PAGE :: nat where "FIRST_NURSERY_PAGE = FIRST_OBJECT_PAGE"
definition END_NURSERY_PAGE :: nat where "END_NURSERY_PAGE = FIRST_NURSERY_PAGE + NB_NURSERY_PAGES"
definition WRITELOCK_START :: nat where "WRITELOCK_START = END_NURSERY_PAGE * 256"
definition WRITELOCK_END :: nat where "WRITELOCK_END = NB_PAGES * 256"
definition PAGE_FLAG_START :: nat where "PAGE_FLAG_START = END_NURSERY_PAGE"
definition NURSERY_START :: nat where "NURSERY_START = FIRST_NURSERY_PAGE * 4096"
definition NURSERY_SIZE :: nat where "NURSERY_SIZE = NB_NURSERY_PAGES * 4096"
definition NURSERY_END :: nat where "NURSERY_END = NURSERY_START + NURSERY_SIZE"

lemmas page_consts = NB_PAGES_def NB_NURSERY_PAGES_def FIRST_OBJECT_PAGE_def
  FIRST_NURSERY_PAGE_def END_NURSERY_PAGE_def WRITELOCK_START_def WRITELOCK_END_def
  PAGE_FLAG_START_def NURSERY_START_def NURSERY_SIZE_def NURSERY_END_def

definition CARD_SIZE :: nat where "CARD_SIZE = 32"
definition MIN_CARD_OBJ_SIZE :: nat where "MIN_CARD_OBJ_SIZE = CARD_SIZE * 17"
definition CARD_CLEAR :: u8 where "CARD_CLEAR = 0"
definition CARD_MARKED :: u8 where "CARD_MARKED = 100"
definition CARD_MARKED_OLD :: u8 where "CARD_MARKED_OLD = 101"

lemmas card_consts = CARD_SIZE_def MIN_CARD_OBJ_SIZE_def CARD_CLEAR_def CARD_MARKED_def
  CARD_MARKED_OLD_def

definition GCFLAG_WRITE_BARRIER :: u32 where "GCFLAG_WRITE_BARRIER = 0x01"
definition GCFLAG_SMALL_UNIFORM :: u32 where "GCFLAG_SMALL_UNIFORM = 0x02"
definition GCFLAG_HAS_SHADOW :: u32 where "GCFLAG_HAS_SHADOW = 0x04"
definition GCFLAG_CARDS_SET :: u32 where "GCFLAG_CARDS_SET = 0x08"
definition GCFLAG_OVERFLOW_NUMBER_bit0 :: u32 where "GCFLAG_OVERFLOW_NUMBER_bit0 = 0x10"

lemmas gcflags = GCFLAG_WRITE_BARRIER_def GCFLAG_SMALL_UNIFORM_def GCFLAG_HAS_SHADOW_def
  GCFLAG_CARDS_SET_def GCFLAG_OVERFLOW_NUMBER_bit0_def

definition NSE_SIGABORT :: nat where "NSE_SIGABORT = 1"
definition NSE_SIGPAUSE :: nat where "NSE_SIGPAUSE = 2"
definition NSE_SIGCOMMITSOON :: nat where "NSE_SIGCOMMITSOON = 3"
definition STM_NSE_SIGNAL_MAX :: nat where "STM_NSE_SIGNAL_MAX = 7"

lemmas nse_consts = NSE_SIGABORT_def NSE_SIGPAUSE_def NSE_SIGCOMMITSOON_def STM_NSE_SIGNAL_MAX_def

definition WL_VISITED :: u8 where "WL_VISITED = 255"
definition WL_FINALIZ_ORDER_1 :: u8 where "WL_FINALIZ_ORDER_1 = 253"

text \<open>The stopper at the bottom of every shadow stack, \<open>(object_t *) -1\<close>.\<close>

definition SS_STOPPER :: nat where "SS_STOPPER = 2 ^ 64 - 1"

section \<open>Enumerations\<close>

datatype safe_point = SP_NO_TRANSACTION | SP_RUNNING | SP_WAIT_FOR_C_REQUEST_REMOVED
  | SP_WAIT_FOR_C_AT_SAFE_POINT | SP_WAIT_FOR_C_TRANSACTION_DONE

datatype transaction_state = TS_NONE | TS_REGULAR | TS_INEVITABLE

datatype cond_type_e = C_SEGMENT_FREE | C_AT_SAFE_POINT | C_REQUEST_REMOVED | C_INEVITABLE
  | C_ABORTED | C_TRANSACTION_DONE

datatype sync_type_e = STOP_OTHERS_UNTIL_MUTEX_UNLOCK | STOP_OTHERS_AND_BECOME_GLOBALLY_UNIQUE

datatype stm_event_e = STM_TRANSACTION_START | STM_TRANSACTION_COMMIT | STM_TRANSACTION_ABORT
  | STM_CONTENTION_WRITE_WRITE | STM_CONTENTION_WRITE_READ | STM_CONTENTION_INEVITABLE
  | STM_ABORTING_OTHER_CONTENTION
  | STM_WAIT_FREE_SEGMENT | STM_WAIT_SYNC_PAUSE | STM_WAIT_CONTENTION | STM_WAIT_DONE
  | STM_GC_MINOR_START | STM_GC_MINOR_DONE | STM_GC_MAJOR_START | STM_GC_MAJOR_DONE

text \<open>
  What the library tells the outside, in order: calls of \<open>stmcb_timing_event\<close>, wake-ups
  of other threads, and calls of the other callbacks.
\<close>

datatype event =
    TimingEvent "nat option" stm_event_e
  | TimingContention "nat option" stm_event_e "nat \<times> nat" "nat \<times> nat"
  | CondSignal cond_type_e
  | CondBroadcast cond_type_e
  | CommitSoon nat
  | LightFinalizer nat nat
  | UserCallback u64 u64

section \<open>Records\<close>

record finalizers_s =
  objects_with_finalizers :: "nat list"
  count_non_young :: nat
  run_finalizers :: "nat list option"
  running_next :: "int option"

text \<open>\<open>struct stm_priv_segment_info_s\<close>, with the public part in front.\<close>

record pseg =
  transaction_read_version :: u8
  nursery_current :: nat
  nursery_end :: nat
  running_thread :: "nat option"
  modified_old_objects :: "nat list"
  modified_old_objects_markers :: "nat list"
  modified_old_objects_markers_num_old :: nat
  objects_pointing_to_nursery :: "nat list option"
  old_objects_with_cards :: "nat list"
  large_overflow_objects :: "nat list option"
  young_outside_nursery :: tree_s
  nursery_objects_shadows :: tree_s
  young_weakrefs :: "nat list"
  old_weakrefs :: "nat list"
  callbacks_on_commit_and_abort :: "nat \<Rightarrow> tree_s"
  unique_start_time :: nat
  overflow_number :: u32
  overflow_number_has_been_used :: bool
  write_lock_num :: u8
  safe_point :: safe_point
  transaction_state :: transaction_state
  minor_collect_will_commit_now :: bool
  signal_when_done :: bool
  threadlocal_at_start_of_transaction :: nat
  shadowstack_at_start_of_transaction :: nat
  signalled_to_commit_soon :: bool
  marker_inev_segment_base :: nat
  marker_inev_odd_number :: nat
  marker_inev_object :: nat
  young_objects_with_light_finalizers :: "nat list"
  old_objects_with_light_finalizers :: "nat list"
  finalizers :: "finalizers_s option"

text \<open>\<open>stm_thread_local_t\<close>; the shadow stack is the list of its entries, the stopper first.\<close>

record tl =
  shadowstack :: "nat list"
  rjthread :: rewind_jmp_thread
  thread_local_obj :: nat
  mem_clear_on_abort :: "u8 list option"
  last_abort_bytes_in_nursery :: nat
  associated_segment_num :: nat
  thread_local_counter :: nat
  tl_prev :: "nat option"
  tl_next :: "nat option"

text \<open>
  \<open>by_segment\<close> is \<open>pages_privatized[].by_segment\<close>, indexed from \<open>PAGE_FLAG_START\<close>;
  \<open>rm g i\<close> the read marker of segment \<open>g\<close> for address \<open>16 * i\<close>. \<open>clock\<close>
  counts the waits, for the behaviour of the other threads.
\<close>

record stm =
  mem :: "nat \<Rightarrow> nat \<Rightarrow> u8"
  remap :: "nat \<Rightarrow> nat \<Rightarrow> nat"
  rm :: "nat \<Rightarrow> nat \<Rightarrow> u8"
  write_locks :: "nat \<Rightarrow> u8"
  by_segment :: "nat \<Rightarrow> u8"
  segs :: "nat \<Rightarrow> pseg"
  in_use1 :: "nat \<Rightarrow> u8"
  pause_signalled :: bool
  globally_unique_transaction :: bool
  lm :: lm_s
  uninitialized_page_start :: nat
  uninitialized_page_stop :: nat
  highest_overflow_number :: u32
  global_start_time :: nat
  tls :: "nat \<Rightarrow> tl"
  stm_all_thread_locals :: "nat option"
  thread_local_counters :: nat
  testing_prebuilt_objs :: "nat list option"
  g_finalizers :: finalizers_s
  clock :: nat
  events :: "event list"

text \<open>
  The user of the library: the \<open>stmcb_\<close> callbacks as functions of an object's bytes, the
  result of the floating-point scaling of the collection bound, whether
  \<open>stmcb_timing_event\<close> is set, what finalizers do, and what the other threads do while
  this one waits on a condition variable.
\<close>

record ext =
  stmcb_size_rounded_up :: "(nat \<Rightarrow> u8) \<Rightarrow> nat"
  stmcb_obj_supports_cards :: "(nat \<Rightarrow> u8) \<Rightarrow> bool"
  stmcb_get_card_base_itemsize :: "(nat \<Rightarrow> u8) \<Rightarrow> nat \<times> nat"
  stmcb_trace :: "(nat \<Rightarrow> u8) \<Rightarrow> nat list"
  stmcb_trace_cards :: "(nat \<Rightarrow> u8) \<Rightarrow> nat \<Rightarrow> nat \<Rightarrow> nat list"
  timing_enabled :: bool
  gc_scale :: "u64 \<Rightarrow> u64"
  stmcb_finalizer :: "nat \<Rightarrow> nat \<Rightarrow> stm \<Rightarrow> stm"
  other_threads :: "nat \<Rightarrow> cond_type_e \<Rightarrow> stm \<Rightarrow> stm"

section \<open>Access to the segments\<close>

definition upd_seg :: "nat \<Rightarrow> (pseg \<Rightarrow> pseg) \<Rightarrow> stm \<Rightarrow> stm" where
  "upd_seg g f s = s\<lparr>segs := (segs s)(g := f (segs s g))\<rparr>"

definition upd_tl :: "nat \<Rightarrow> (tl \<Rightarrow> tl) \<Rightarrow> stm \<Rightarrow> stm" where
  "upd_tl i f s = s\<lparr>tls := (tls s)(i := f (tls s i))\<rparr>"

definition upd_ctl :: "(pages_ctl \<Rightarrow> pages_ctl) \<Rightarrow> stm \<Rightarrow> stm" where
  "upd_ctl f s = s\<lparr>lm := (lm s)\<lparr>ctl := f (ctl (lm s))\<rparr>\<rparr>"

definition emit :: "event \<Rightarrow> stm \<Rightarrow> stm" where
  "emit e s = s\<lparr>events := events s @ [e]\<rparr>"

definition cond_wait :: "ext \<Rightarrow> cond_type_e \<Rightarrow> stm \<Rightarrow> stm" where
  "cond_wait X c s = other_threads X (clock s) c (s\<lparr>clock := Suc (clock s)\<rparr>)"

definition cond_signal :: "cond_type_e \<Rightarrow> stm \<Rightarrow> stm" where
  "cond_signal c s = emit (CondSignal c) s"

definition cond_broadcast :: "cond_type_e \<Rightarrow> stm \<Rightarrow> stm" where
  "cond_broadcast c s = emit (CondBroadcast c) s"

definition timing_event :: "ext \<Rightarrow> nat option \<Rightarrow> stm_event_e \<Rightarrow> stm \<Rightarrow> stm" where
  "timing_event X t e s = (if timing_enabled X then emit (TimingEvent t e) s else s)"

lemma segs_upd_seg: "segs (upd_seg g f s) i = (if i = g then f (segs s g) else segs s i)"
  by (simp add: upd_seg_def)

lemma segs_upd_seg_same [simp]: "segs (upd_seg g f s) g = f (segs s g)"
  by (simp add: upd_seg_def)

lemma segs_upd_seg_other [simp]: "i \<noteq> g \<Longrightarrow> segs (upd_seg g f s) i = segs s i"
  by (simp add: upd_seg_def)

lemma upd_seg_frame [simp]:
  "mem (upd_seg g f s) = mem s" "remap (upd_seg g f s) = remap s" "rm (upd_seg g f s) = rm s"
  "write_locks (upd_seg g f s) = write_locks s" "by_segment (upd_seg g f s) = by_segment s"
  "in_use1 (upd_seg g f s) = in_use1 s" "pause_signalled (upd_seg g f s) = pause_signalled s"
  "globally_unique_transaction (upd_seg g f s) = globally_unique_transaction s"
  "lm (upd_seg g f s) = lm s" "tls (upd_seg g f s) = tls s" "events (upd_seg g f s) = events s"
  "highest_overflow_number (upd_seg g f s) = highest_overflow_number s"
  "global_start_time (upd_seg g f s) = global_start_time s"
  "uninitialized_page_start (upd_seg g f s) = uninitialized_page_start s"
  "uninitialized_page_stop (upd_seg g f s) = uninitialized_page_stop s"
  "g_finalizers (upd_seg g f s) = g_finalizers s" "clock (upd_seg g f s) = clock s"
  "testing_prebuilt_objs (upd_seg g f s) = testing_prebuilt_objs s"
  "stm_all_thread_locals (upd_seg g f s) = stm_all_thread_locals s"
  by (simp_all add: upd_seg_def)

lemma upd_tl_frame [simp]:
  "mem (upd_tl g f s) = mem s" "remap (upd_tl g f s) = remap s" "rm (upd_tl g f s) = rm s"
  "write_locks (upd_tl g f s) = write_locks s" "by_segment (upd_tl g f s) = by_segment s"
  "in_use1 (upd_tl g f s) = in_use1 s" "pause_signalled (upd_tl g f s) = pause_signalled s"
  "globally_unique_transaction (upd_tl g f s) = globally_unique_transaction s"
  "lm (upd_tl g f s) = lm s" "segs (upd_tl g f s) = segs s" "events (upd_tl g f s) = events s"
  "highest_overflow_number (upd_tl g f s) = highest_overflow_number s"
  "global_start_time (upd_tl g f s) = global_start_time s"
  "uninitialized_page_start (upd_tl g f s) = uninitialized_page_start s"
  "uninitialized_page_stop (upd_tl g f s) = uninitialized_page_stop s"
  "g_finalizers (upd_tl g f s) = g_finalizers s" "clock (upd_tl g f s) = clock s"
  by (simp_all add: upd_tl_def)

lemma emit_frame [simp]:
  "mem (emit e s) = mem s" "remap (emit e s) = remap s" "rm (emit e s) = rm s"
  "write_locks (emit e s) = write_locks s" "by_segment (emit e s) = by_segment s"
  "in_use1 (emit e s) = in_use1 s" "pause_signalled (emit e s) = pause_signalled s"
  "globally_unique_transaction (emit e s) = globally_unique_transaction s"
  "lm (emit e s) = lm s" "segs (emit e s) = segs s" "tls (emit e s) = tls s"
  "highest_overflow_number (emit e s) = highest_overflow_number s"
  "global_start_time (emit e s) = global_start_time s" "clock (emit e s) = clock s"
  "g_finalizers (emit e s) = g_finalizers s"
  "uninitialized_page_start (emit e s) = uninitialized_page_start s"
  "uninitialized_page_stop (emit e s) = uninitialized_page_stop s"
  by (simp_all add: emit_def)

lemma emit_upd_seg: "emit e (upd_seg g f s) = upd_seg g f (emit e s)"
  by (simp add: emit_def upd_seg_def)

section \<open>Memory\<close>

text \<open>The byte at address \<open>a\<close> as segment \<open>g\<close> sees it.\<close>

definition vread :: "stm \<Rightarrow> nat \<Rightarrow> nat \<Rightarrow> u8" where
  "vread s g a = mem s (remap s g (a div 4096)) a"

text \<open>
  Overwrite the bytes \<open>[a, a + n)\<close> of segment \<open>g\<close>. Every other segment whose page is
  mapped to the same copy sees the change too.
\<close>

definition vfill :: "nat \<Rightarrow> nat \<Rightarrow> nat \<Rightarrow> (nat \<Rightarrow> u8) \<Rightarrow> stm \<Rightarrow> stm" where
  "vfill g a n f s = s\<lparr>mem := (\<lambda>c x. if a \<le> x \<and> x < a + n \<and> remap s g (x div 4096) = c
     then f x else mem s c x)\<rparr>"

definition memcpy :: "nat \<Rightarrow> nat \<Rightarrow> nat \<Rightarrow> nat \<Rightarrow> nat \<Rightarrow> stm \<Rightarrow> stm" where
  "memcpy g dst g' src n s = vfill g dst n (\<lambda>x. vread s g' (src + (x - dst))) s"

definition memset0 :: "nat \<Rightarrow> nat \<Rightarrow> nat \<Rightarrow> stm \<Rightarrow> stm" where
  "memset0 g a n s = vfill g a n (\<lambda>_. 0) s"

definition vload32 :: "stm \<Rightarrow> nat \<Rightarrow> nat \<Rightarrow> u32" where
  "vload32 s g a = load32 (vread s g) a"

definition vstore32 :: "nat \<Rightarrow> nat \<Rightarrow> u32 \<Rightarrow> stm \<Rightarrow> stm" where
  "vstore32 g a v s = vfill g a 4 (\<lambda>x. byte_of32 v (x - a)) s"

definition vload64 :: "stm \<Rightarrow> nat \<Rightarrow> nat \<Rightarrow> nat" where
  "vload64 s g a = unat (load64 (vread s g) a)"

definition vstore64 :: "nat \<Rightarrow> nat \<Rightarrow> nat \<Rightarrow> stm \<Rightarrow> stm" where
  "vstore64 g a v s = vfill g a 8 (\<lambda>x. byte_of64 (of_nat v) (x - a)) s"

lemma vread_vfill:
  "vread (vfill g a n f s) g' x =
    (if a \<le> x \<and> x < a + n \<and> remap s g (x div 4096) = remap s g' (x div 4096) then f x else vread s g' x)"
  by (simp add: vread_def vfill_def)

lemma vfill_frame [simp]:
  "segs (vfill g a n f s) = segs s" "remap (vfill g a n f s) = remap s" "rm (vfill g a n f s) = rm s"
  "write_locks (vfill g a n f s) = write_locks s" "by_segment (vfill g a n f s) = by_segment s"
  "in_use1 (vfill g a n f s) = in_use1 s" "pause_signalled (vfill g a n f s) = pause_signalled s"
  "globally_unique_transaction (vfill g a n f s) = globally_unique_transaction s"
  "lm (vfill g a n f s) = lm s" "tls (vfill g a n f s) = tls s" "events (vfill g a n f s) = events s"
  "highest_overflow_number (vfill g a n f s) = highest_overflow_number s"
  "global_start_time (vfill g a n f s) = global_start_time s" "clock (vfill g a n f s) = clock s"
  "g_finalizers (vfill g a n f s) = g_finalizers s"
  "uninitialized_page_start (vfill g a n f s) = uninitialized_page_start s"
  "uninitialized_page_stop (vfill g a n f s) = uninitialized_page_stop s"
  by (simp_all add: vfill_def)

lemma vread_upd_seg [simp]: "vread (upd_seg g f s) = vread s"
  by (simp add: vread_def fun_eq_iff)

lemma vread_upd_tl [simp]: "vread (upd_tl g f s) = vread s"
  by (simp add: vread_def fun_eq_iff)

lemma vread_emit [simp]: "vread (emit e s) = vread s"
  by (simp add: vread_def fun_eq_iff)

lemma vread_wl [simp]: "vread (s\<lparr>write_locks := w\<rparr>) = vread s"
  by (simp add: vread_def fun_eq_iff)

lemma vload32_vstore32: "vload32 (vstore32 g a v s) g a = v"
  unfolding vload32_def by (rule load32_bytes) (simp add: vstore32_def vread_vfill)

section \<open>Objects\<close>

definition obj_bytes :: "stm \<Rightarrow> nat \<Rightarrow> nat \<Rightarrow> nat \<Rightarrow> u8" where
  "obj_bytes s g obj i = vread s g (obj + i)"

definition obj_size :: "ext \<Rightarrow> stm \<Rightarrow> nat \<Rightarrow> nat \<Rightarrow> nat" where
  "obj_size X s g obj = stmcb_size_rounded_up X (obj_bytes s g obj)"

definition stm_flags :: "stm \<Rightarrow> nat \<Rightarrow> nat \<Rightarrow> u32" where
  "stm_flags s g obj = vload32 s g obj"

definition set_stm_flags :: "nat \<Rightarrow> nat \<Rightarrow> u32 \<Rightarrow> stm \<Rightarrow> stm" where
  "set_stm_flags g obj v s = vstore32 g obj v s"

definition has_flag :: "u32 \<Rightarrow> u32 \<Rightarrow> bool" where
  "has_flag flags f \<longleftrightarrow> flags AND f \<noteq> 0"

definition IS_OVERFLOW_OBJ :: "stm \<Rightarrow> nat \<Rightarrow> u32 \<Rightarrow> bool" where
  "IS_OVERFLOW_OBJ s g flags \<longleftrightarrow> flags AND (- GCFLAG_OVERFLOW_NUMBER_bit0) = overflow_number (segs s g)"

definition get_index_to_card_index :: "nat \<Rightarrow> nat" where
  "get_index_to_card_index index = index div CARD_SIZE + 1"

definition get_card_index_to_index :: "nat \<Rightarrow> nat" where
  "get_card_index_to_index card_index = (card_index - 1) * CARD_SIZE"

definition get_write_lock_idx :: "nat \<Rightarrow> nat" where
  "get_write_lock_idx obj = obj div 16 - WRITELOCK_START"

text \<open>The read barrier: remember that the current transaction has read \<open>obj\<close>.\<close>

definition stm_read :: "nat \<Rightarrow> nat \<Rightarrow> stm \<Rightarrow> stm" where
  "stm_read me obj s =
     s\<lparr>rm := (rm s)(me := (rm s me)(obj div 16 := transaction_read_version (segs s me)))\<rparr>"

definition was_read_remote :: "stm \<Rightarrow> nat \<Rightarrow> nat \<Rightarrow> u8 \<Rightarrow> bool" where
  "was_read_remote s g obj other_transaction_read_version \<longleftrightarrow>
     rm s g (obj div 16) = other_transaction_read_version"

lemma stm_read_frame [simp]:
  "mem (stm_read me obj s) = mem s" "remap (stm_read me obj s) = remap s"
  "write_locks (stm_read me obj s) = write_locks s" "by_segment (stm_read me obj s) = by_segment s"
  "segs (stm_read me obj s) = segs s" "lm (stm_read me obj s) = lm s"
  "tls (stm_read me obj s) = tls s"
  by (simp_all add: stm_read_def)

lemma vread_stm_read [simp]: "vread (stm_read me obj s) = vread s"
  by (simp add: vread_def fun_eq_iff)

definition is_in_nursery :: "nat \<Rightarrow> bool" where
  "is_in_nursery obj \<longleftrightarrow> obj < NURSERY_END"

definition tree_has :: "tree_s \<Rightarrow> nat \<Rightarrow> bool" where
  "tree_has t a = tree_contains t (of_nat a)"

definition is_young :: "stm \<Rightarrow> nat \<Rightarrow> nat \<Rightarrow> bool" where
  "is_young s me obj \<longleftrightarrow> is_in_nursery obj \<or> tree_has (young_outside_nursery (segs s me)) obj"

definition is_from_same_transaction :: "stm \<Rightarrow> nat \<Rightarrow> nat \<Rightarrow> bool" where
  "is_from_same_transaction s me obj \<longleftrightarrow>
     is_young s me obj \<or> IS_OVERFLOW_OBJ s me (stm_flags s me obj)"

definition is_abort :: "nat \<Rightarrow> bool" where
  "is_abort ne \<longleftrightarrow> ne \<le> STM_NSE_SIGNAL_MAX \<and> ne \<noteq> NSE_SIGPAUSE \<and> ne \<noteq> NSE_SIGCOMMITSOON"

definition is_aborting_now :: "stm \<Rightarrow> nat \<Rightarrow> bool" where
  "is_aborting_now s g \<longleftrightarrow> is_abort (nursery_end (segs s g)) \<and> safe_point (segs s g) \<noteq> SP_RUNNING"

definition must_abort :: "stm \<Rightarrow> nat \<Rightarrow> bool" where
  "must_abort s me = is_abort (nursery_end (segs s me))"

text \<open>The segments, in the order of the loops \<open>for (i = 1; i <= NB_SEGMENTS; i++)\<close>.\<close>

definition segments :: "nat list" where
  "segments = [1..<NB_SEGMENTS + 1]"

lemma segments_eq: "segments = [1, 2, 3, 4]"
  by (simp add: segments_def NB_SEGMENTS_def upt_rec)

lemma set_segments: "set segments = {1..4}"
  by (auto simp: segments_eq)

text \<open>
  What the callbacks promise (\<open>c7/stmgc.h\<close>): sizes are multiples of 8 and at least 16,
  they and the card layout are functions of the object's own bytes after \<open>stm_flags\<close>, and
  the items of an object with cards are inside the object.
\<close>

definition same_content :: "ext \<Rightarrow> (nat \<Rightarrow> u8) \<Rightarrow> (nat \<Rightarrow> u8) \<Rightarrow> bool" where
  "same_content X b b' \<longleftrightarrow> (\<forall>i. 4 \<le> i \<longrightarrow> i < stmcb_size_rounded_up X b \<longrightarrow> b i = b' i)"

definition cb_ok :: "ext \<Rightarrow> bool" where
  "cb_ok X \<longleftrightarrow>
     (\<forall>b. 16 \<le> stmcb_size_rounded_up X b \<and> 8 dvd stmcb_size_rounded_up X b) \<and>
     (\<forall>b b'. same_content X b b' \<longrightarrow>
        stmcb_size_rounded_up X b' = stmcb_size_rounded_up X b \<and>
        stmcb_obj_supports_cards X b' = stmcb_obj_supports_cards X b \<and>
        stmcb_get_card_base_itemsize X b' = stmcb_get_card_base_itemsize X b) \<and>
     (\<forall>b. stmcb_obj_supports_cards X b \<longrightarrow>
        0 < snd (stmcb_get_card_base_itemsize X b) \<and>
        4 \<le> fst (stmcb_get_card_base_itemsize X b) \<and>
        fst (stmcb_get_card_base_itemsize X b) + snd (stmcb_get_card_base_itemsize X b)
          \<le> stmcb_size_rounded_up X b)"

lemma cb_ok_size: "cb_ok X \<Longrightarrow> 16 \<le> stmcb_size_rounded_up X b"
  by (simp add: cb_ok_def)

lemma cb_ok_content:
  assumes "cb_ok X" and "\<And>i. 4 \<le> i \<Longrightarrow> i < stmcb_size_rounded_up X b \<Longrightarrow> b i = b' i"
  shows "stmcb_size_rounded_up X b' = stmcb_size_rounded_up X b"
    and "stmcb_obj_supports_cards X b' = stmcb_obj_supports_cards X b"
    and "stmcb_get_card_base_itemsize X b' = stmcb_get_card_base_itemsize X b"
  using assms unfolding cb_ok_def same_content_def by blast+

end
