(* ===== verification/Pages.thy ===== *)
theory Pages
  imports State
begin

text \<open>
  \<open>c7/stm/pages.c\<close>, \<open>pages.h\<close> and \<open>pagecopy.c\<close>: which copy of a page a segment is mapped
  to. The privatization locks are taken and released without a wait in between; the
  sections they protect are atomic here.
\<close>

section \<open>Operations\<close>

definition is_private_page :: "stm \<Rightarrow> nat \<Rightarrow> nat \<Rightarrow> bool" where
  "is_private_page s segnum pagenum \<longleftrightarrow>
     by_segment s (pagenum - PAGE_FLAG_START) AND push_bit (segnum - 1) 1 \<noteq> 0"

text \<open>
  \<open>d_remap_file_pages\<close>: map \<open>count\<close> pages of segment \<open>g\<close>, from \<open>pagenum\<close> on, to the
  same pages of copy \<open>c\<close> (the file offset \<open>c * NB_PAGES + pagenum\<close>).
\<close>

definition d_remap_file_pages :: "nat \<Rightarrow> nat \<Rightarrow> nat \<Rightarrow> nat \<Rightarrow> stm \<Rightarrow> stm" where
  "d_remap_file_pages g pagenum count c s =
     s\<lparr>remap := (remap s)(g := (\<lambda>p. if pagenum \<le> p \<and> p < pagenum + count then c else remap s g p))\<rparr>"

definition pages_initialize_shared :: "nat \<Rightarrow> nat \<Rightarrow> stm \<Rightarrow> stm" where
  "pages_initialize_shared pagenum count s =
     (if count = 0 then s else foreach_f segments (\<lambda>i. d_remap_file_pages i pagenum count 0) s)"

definition pagecopy :: "nat \<Rightarrow> nat \<Rightarrow> nat \<Rightarrow> stm \<Rightarrow> stm" where
  "pagecopy g g' a s = memcpy g a g' a 4096 s"

definition page_privatize :: "nat \<Rightarrow> nat \<Rightarrow> stm \<Rightarrow> stm" where
  "page_privatize me pagenum s =
     (let bitmask = push_bit (me - 1) 1; i = pagenum - PAGE_FLAG_START
      in if by_segment s i AND bitmask \<noteq> 0 then s
         else let s = s\<lparr>by_segment := (by_segment s)(i := by_segment s i OR bitmask)\<rparr>;
                  s = d_remap_file_pages me pagenum 1 me s;
                  s = upd_ctl (increment_total_allocated 4096) s
              in pagecopy me 0 (pagenum * 4096) s)"

definition page_do_reshare :: "nat \<Rightarrow> nat \<Rightarrow> stm \<Rightarrow> stm" where
  "page_do_reshare segnum pagenum s = d_remap_file_pages segnum pagenum 1 0 s"

text \<open>
  \<open>page_reshare\<close>: \<open>madvise(MADV_DONTNEED)\<close> lets the kernel drop the pages of the private
  copy; no segment is mapped to it afterwards.
\<close>

definition page_reshare :: "nat \<Rightarrow> stm \<Rightarrow> stm" where
  "page_reshare pagenum s =
     (let i = pagenum - PAGE_FLAG_START; ps = by_segment s i;
          s = s\<lparr>by_segment := (by_segment s)(i := 0)\<rparr>;
          (tot, s) = foreach_f [0..<NB_SEGMENTS]
            (\<lambda>j (tot, s). if ps AND push_bit j 1 \<noteq> 0
                then (tot - 4096, page_do_reshare (j + 1) pagenum s) else (tot, s)) (0, s)
      in upd_ctl (increment_total_allocated tot) s)"

definition page_check_and_reshare :: "nat \<Rightarrow> stm \<Rightarrow> stm" where
  "page_check_and_reshare pagenum s =
     (if by_segment s (pagenum - PAGE_FLAG_START) \<noteq> 0 then page_reshare pagenum s else s)"

section \<open>The mapping follows the bits\<close>

text \<open>
  Page \<open>p\<close> is mapped the way its bits say: to the segment's own copy if it is private there,
  to the shared copy otherwise.
\<close>

definition mapped_ok :: "stm \<Rightarrow> nat \<Rightarrow> bool" where
  "mapped_ok s p \<longleftrightarrow> remap s 0 p = 0 \<and>
     (\<forall>g \<in> {1..4}. remap s g p = (if is_private_page s g p then g else 0))"

lemma mappedD: "mapped_ok s p \<Longrightarrow> g \<in> {1..4} \<Longrightarrow> remap s g p = (if is_private_page s g p then g else 0)"
  by (simp add: mapped_ok_def)

lemma mapped0: "mapped_ok s p \<Longrightarrow> remap s 0 p = 0"
  by (simp add: mapped_ok_def)

lemma is_private_bit: "g \<in> {1..4} \<Longrightarrow> is_private_page s g p \<longleftrightarrow> bit (by_segment s (p - PAGE_FLAG_START)) (g - 1)"
  using mask1_neq_0 [of "by_segment s (p - PAGE_FLAG_START)" "g - 1"]
  by (auto simp: is_private_page_def push_bit_eq_mult)

lemma bits_cong: "by_segment s = by_segment s' \<Longrightarrow> is_private_page s = is_private_page s'"
  by (simp add: is_private_page_def fun_eq_iff)

lemma mapped_ok_cong: "by_segment s = by_segment s' \<Longrightarrow> remap s = remap s' \<Longrightarrow> mapped_ok s = mapped_ok s'"
  by (simp add: mapped_ok_def fun_eq_iff bits_cong [of s s'])

lemma mapped_ok_frame [simp]:
  "mapped_ok (vfill g a n f s) = mapped_ok s" "mapped_ok (upd_seg g h s) = mapped_ok s"
  "mapped_ok (emit e s) = mapped_ok s" "mapped_ok (stm_read me obj s) = mapped_ok s"
  "mapped_ok (s\<lparr>write_locks := w\<rparr>) = mapped_ok s"
  by (rule mapped_ok_cong; simp)+

lemma is_private_frame [simp]:
  "is_private_page (vfill g a n f s) = is_private_page s" "is_private_page (upd_seg g h s) = is_private_page s"
  "is_private_page (emit e s) = is_private_page s" "is_private_page (stm_read me obj s) = is_private_page s"
  "is_private_page (s\<lparr>write_locks := w\<rparr>) = is_private_page s"
  by (rule bits_cong; simp)+

section \<open>Privatizing\<close>

lemma upd_ctl_frame [simp]:
  "mem (upd_ctl f s) = mem s" "remap (upd_ctl f s) = remap s" "rm (upd_ctl f s) = rm s"
  "write_locks (upd_ctl f s) = write_locks s" "by_segment (upd_ctl f s) = by_segment s"
  "segs (upd_ctl f s) = segs s" "tls (upd_ctl f s) = tls s" "events (upd_ctl f s) = events s"
  "ctl (lm (upd_ctl f s)) = f (ctl (lm s))" "in_use1 (upd_ctl f s) = in_use1 s"
  "pause_signalled (upd_ctl f s) = pause_signalled s"
  by (simp_all add: upd_ctl_def)

lemma page_privatize_private:
  "is_private_page s me p \<Longrightarrow> page_privatize me p s = s"
  by (simp add: page_privatize_def is_private_page_def Let_def)

lemma page_privatize_shared:
  assumes "\<not> is_private_page s me p"
  shows "by_segment (page_privatize me p s) =
      (by_segment s)(p - PAGE_FLAG_START := by_segment s (p - PAGE_FLAG_START) OR push_bit (me - 1) 1)"
    and "remap (page_privatize me p s) = (remap s)(me := (remap s me)(p := me))"
    and "ctl (lm (page_privatize me p s)) = increment_total_allocated 4096 (ctl (lm s))"
    and "mem (page_privatize me p s) c x =
      (if p * 4096 \<le> x \<and> x < p * 4096 + 4096 \<and> c = me then mem s (if me = 0 then me else remap s 0 p) x else mem s c x)"
  using assms
  by (auto simp: page_privatize_def is_private_page_def Let_def pagecopy_def memcpy_def vfill_def
      d_remap_file_pages_def fun_eq_iff vread_def dest: div_page_eq)

lemma page_privatize_frame [simp]:
  "segs (page_privatize me p s) = segs s" "rm (page_privatize me p s) = rm s"
  "write_locks (page_privatize me p s) = write_locks s" "tls (page_privatize me p s) = tls s"
  "events (page_privatize me p s) = events s" "in_use1 (page_privatize me p s) = in_use1 s"
  "pause_signalled (page_privatize me p s) = pause_signalled s"
  by (simp_all add: page_privatize_def Let_def pagecopy_def memcpy_def d_remap_file_pages_def)

lemma bit_own: "me \<in> {1..4} \<Longrightarrow> bit (2 ^ (me - Suc 0) :: u8) i \<longleftrightarrow> i = me - Suc 0"
  by (auto simp: bit_exp_iff)

lemma page_privatize_is_private:
  assumes "me \<in> {1..4}" and "g \<in> {1..4}" and "PAGE_FLAG_START \<le> p" and "PAGE_FLAG_START \<le> q"
  shows "is_private_page (page_privatize me p s) g q \<longleftrightarrow> is_private_page s g q \<or> (g = me \<and> q = p)"
proof (cases "is_private_page s me p")
  case True
  then show ?thesis by (auto simp: page_privatize_private)
next
  case False
  then show ?thesis
    using assms bit_own [OF assms(1)]
    by (auto simp: is_private_bit page_privatize_shared bit_or_iff)
qed

lemma page_privatize_mapped:
  assumes "me \<in> {1..4}" and "PAGE_FLAG_START \<le> p" and "PAGE_FLAG_START \<le> q" and "mapped_ok s q"
  shows "mapped_ok (page_privatize me p s) q"
proof (cases "is_private_page s me p")
  case True
  then show ?thesis using assms by (simp add: page_privatize_private)
next
  case False
  then show ?thesis using assms
    by (auto simp: mapped_ok_def page_privatize_is_private page_privatize_shared(2))
qed

lemma page_bounds: "x div 4096 = p \<Longrightarrow> p * 4096 \<le> x \<and> x < p * 4096 + (4096 :: nat)"
proof -
  assume "x div 4096 = p"
  moreover have "x div 4096 * 4096 + x mod 4096 = x" "x mod 4096 < 4096" by (rule div_mult_mod_eq, simp)
  ultimately show ?thesis by linarith
qed

text \<open>Privatizing a page changes no byte that any segment can see.\<close>

lemma page_privatize_vread:
  assumes me: "me \<in> {1..4}" and g: "g \<in> {0..4}" and p: "PAGE_FLAG_START \<le> p"
    and ok: "mapped_ok s p" and dom: "\<And>q. remap s g q \<in> {0, g}"
  shows "vread (page_privatize me p s) g x = vread s g x"
proof (cases "is_private_page s me p")
  case True
  then show ?thesis by (simp add: page_privatize_private)
next
  case False
  note sh = page_privatize_shared [OF False]
  have r0: "remap s me p = 0" "remap s 0 p = 0" using ok me False by (auto simp: mapped_ok_def)
  show ?thesis
  proof (cases "g = me \<and> x div 4096 = p")
    case True
    moreover from True have "p * 4096 \<le> x \<and> x < p * 4096 + 4096"
      by (simp add: page_bounds)
    ultimately show ?thesis using r0 me by (simp add: vread_def sh)
  next
    case False
    have "remap (page_privatize me p s) g (x div 4096) = remap s g (x div 4096)" using False by (auto simp: sh)
    moreover have "mem (page_privatize me p s) (remap s g (x div 4096)) x = mem s (remap s g (x div 4096)) x"
    proof (cases "remap s g (x div 4096) = me")
      case True
      then have "g = me" using dom [of "x div 4096"] me by auto
      with False have "x div 4096 \<noteq> p" by simp
      then have "\<not> (p * 4096 \<le> x \<and> x < p * 4096 + 4096)" using div_page_eq by auto
      then show ?thesis by (subst sh(4)) auto
    qed (simp add: sh)
    ultimately show ?thesis by (simp add: vread_def)
  qed
qed

section \<open>Resharing\<close>

lemma mask_bit: "j < 8 \<Longrightarrow> (ps :: u8) AND push_bit j 1 \<noteq> 0 \<longleftrightarrow> bit ps j"
  using mask1_neq_0 [of ps j] by (auto simp: push_bit_eq_mult)

lemma remap_one: "d_remap_file_pages g p 1 c s = s\<lparr>remap := (remap s)(g := (remap s g)(p := c))\<rparr>"
proof -
  have "(\<lambda>p'. if p \<le> p' \<and> p' < p + 1 then c else remap s g p') = (remap s g)(p := c)"
    by (auto simp: fun_eq_iff)
  then show ?thesis by (simp add: d_remap_file_pages_def)
qed

abbreviation reshare_step :: "u8 \<Rightarrow> nat \<Rightarrow> nat \<Rightarrow> int \<times> stm \<Rightarrow> int \<times> stm" where
  "reshare_step ps p \<equiv> \<lambda>j (tot, s). if ps AND push_bit j 1 \<noteq> 0
     then (tot - 4096, page_do_reshare (j + 1) p s) else (tot, s)"

lemma reshare_fold:
  assumes "\<And>j. j \<in> set js \<Longrightarrow> j < 8"
  shows "fold (reshare_step ps p) js (tot, s)
    = (tot - 4096 * int (length (filter (bit ps) js)),
       s\<lparr>remap := (\<lambda>g. if g \<in> Suc ` set (filter (bit ps) js) then (remap s g)(p := 0) else remap s g)\<rparr>)"
  using assms
proof (induction js arbitrary: tot s)
  case Nil
  then show ?case by simp
next
  case (Cons j js)
  have j: "ps AND push_bit j 1 \<noteq> 0 \<longleftrightarrow> bit ps j" using Cons.prems by (intro mask_bit) simp
  have IH: "fold (reshare_step ps p) js (tt, s') = (tt - 4096 * int (length (filter (bit ps) js)),
       s'\<lparr>remap := (\<lambda>g. if g \<in> Suc ` set (filter (bit ps) js) then (remap s' g)(p := 0) else remap s' g)\<rparr>)"
    for tt s' using Cons.prems by (intro Cons.IH) simp
  have step: "reshare_step ps p j (tot, s) =
      (if bit ps j then (tot - 4096, s\<lparr>remap := (remap s)(Suc j := (remap s (Suc j))(p := 0))\<rparr>) else (tot, s))"
    unfolding prod.case j by (simp add: page_do_reshare_def remap_one [simplified])
  show ?case
    unfolding fold_simps o_apply step
    by (cases "bit ps j") (auto simp: IH fun_eq_iff simp del: push_bit_of_1)
qed

lemma page_reshare_closed:
  "page_reshare p s =
     (let ps = by_segment s (p - PAGE_FLAG_START); js = filter (bit ps) [0..<NB_SEGMENTS]
      in upd_ctl (increment_total_allocated (- (4096 * int (length js))))
           (s\<lparr>by_segment := (by_segment s)(p - PAGE_FLAG_START := 0),
              remap := (\<lambda>g. if g \<in> Suc ` set js then (remap s g)(p := 0) else remap s g)\<rparr>))"
  unfolding page_reshare_def foreach_f_def Let_def
  by (subst reshare_fold) (auto simp: NB_SEGMENTS_def cong: if_cong)

lemma page_reshare_frame [simp]:
  "mem (page_reshare p s) = mem s" "segs (page_reshare p s) = segs s" "rm (page_reshare p s) = rm s"
  "write_locks (page_reshare p s) = write_locks s" "tls (page_reshare p s) = tls s"
  by (simp_all add: page_reshare_closed Let_def)

lemma page_reshare_is_private:
  "PAGE_FLAG_START \<le> p \<Longrightarrow> PAGE_FLAG_START \<le> q \<Longrightarrow>
   is_private_page (page_reshare p s) g q \<longleftrightarrow> q \<noteq> p \<and> is_private_page s g q"
  by (auto simp: page_reshare_closed Let_def is_private_page_def)

lemma page_reshare_remap:
  assumes "mapped_ok s p"
  shows "g \<in> {0..4} \<Longrightarrow> remap (page_reshare p s) g = (remap s g)(p := 0)"
proof -
  assume g: "g \<in> {0..4}"
  let ?js = "filter (bit (by_segment s (p - PAGE_FLAG_START))) [0..<NB_SEGMENTS]"
  have "g \<in> Suc ` set ?js \<or> remap s g p = 0"
  proof (cases "g = 0")
    case True
    then show ?thesis using assms by (simp add: mapped_ok_def)
  next
    case False
    then have "g \<in> {1..4}" using g by simp
    then have "remap s g p = (if bit (by_segment s (p - PAGE_FLAG_START)) (g - 1) then g else 0)"
      using assms is_private_bit by (simp add: mapped_ok_def)
    moreover have "g = Suc (g - 1)" "g - 1 < 4" using \<open>g \<in> {1..4}\<close> by auto
    ultimately show ?thesis
      by (cases "bit (by_segment s (p - PAGE_FLAG_START)) (g - 1)")
        (auto simp: NB_SEGMENTS_def intro!: image_eqI [of g Suc "g - 1"])
  qed
  then show ?thesis by (auto simp: page_reshare_closed Let_def fun_eq_iff)
qed

lemma page_reshare_mapped:
  assumes "mapped_ok s p" and "mapped_ok s q" and "PAGE_FLAG_START \<le> p" and "PAGE_FLAG_START \<le> q"
  shows "mapped_ok (page_reshare p s) q"
  using assms page_reshare_remap [OF assms(1)]
  by (auto simp: mapped_ok_def page_reshare_is_private)

lemma page_reshare_vread:
  assumes "mapped_ok s p" and "g \<in> {0..4}"
  shows "vread (page_reshare p s) g x = (if x div 4096 = p then vread s 0 x else vread s g x)"
  using assms(1) page_reshare_remap [OF assms]
  by (simp add: vread_def mapped_ok_def)

text \<open>
  Accounting: privatizing charges one page, resharing gives back one page for every
  private copy; so the memory used apart from the private copies does not move.
\<close>

definition private_copies :: "stm \<Rightarrow> nat \<Rightarrow> nat" where
  "private_copies s p = length (filter (\<lambda>g. is_private_page s g p) segments)"

lemma page_reshare_allocated:
  assumes "PAGE_FLAG_START \<le> p"
  shows "total_allocated (ctl (lm (page_reshare p s))) =
    total_allocated (ctl (lm s)) - of_nat (4096 * private_copies s p)"
proof -
  let ?ps = "by_segment s (p - PAGE_FLAG_START)"
  have "filter (\<lambda>g. is_private_page s g p) segments = filter (\<lambda>g. bit ?ps (g - 1)) segments"
    by (rule filter_cong [OF refl]) (simp add: is_private_bit set_segments)
  also have "\<dots> = filter (\<lambda>g. bit ?ps (g - 1)) (map Suc [0..<NB_SEGMENTS])"
    by (simp add: segments_eq NB_SEGMENTS_def upt_rec numeral_eq_Suc)
  also have "length \<dots> = length (filter (bit ?ps) [0..<NB_SEGMENTS])"
    by (simp add: filter_map o_def)
  finally have "private_copies s p = length (filter (bit ?ps) [0..<NB_SEGMENTS])"
    by (simp add: private_copies_def)
  then show ?thesis
    by (simp add: page_reshare_closed Let_def total_allocated_increment)
qed

end
