(* ===== verification/Cards.thy ===== *)
theory Cards
  imports Pages
begin

text \<open>
  The cards of large objects: \<open>obj_should_use_cards\<close> of \<open>c7/stm/core.c\<close> and
  \<open>_reset_object_cards\<close> of \<open>nursery.c\<close>. The card \<open>i\<close> of an object has the entry of
  \<open>write_locks\<close> \<open>i\<close> after the object's own.
\<close>

definition obj_should_use_cards :: "ext \<Rightarrow> stm \<Rightarrow> nat \<Rightarrow> nat \<Rightarrow> bool" where
  "obj_should_use_cards X s me obj =
     (if \<not> stmcb_obj_supports_cards X (obj_bytes s me obj) then False
      else obj_size X s me obj \<ge> MIN_CARD_OBJ_SIZE)"

text \<open>The index of the last card, from the number of items.\<close>

definition last_card_index :: "ext \<Rightarrow> stm \<Rightarrow> nat \<Rightarrow> nat \<Rightarrow> nat" where
  "last_card_index X s g obj =
     (let (offset, itemsize) = stmcb_get_card_base_itemsize X (obj_bytes s g obj);
          size = (obj_size X s g obj - offset) div itemsize
      in get_index_to_card_index (size - 1))"

definition reset_object_cards :: "ext \<Rightarrow> nat \<Rightarrow> nat \<Rightarrow> u8 \<Rightarrow> bool \<Rightarrow> stm \<Rightarrow> stm" where
  "reset_object_cards X g obj mark_value mark_all s =
     (let first_card_index = get_write_lock_idx obj;
          last = last_card_index X s g obj;
          s = foreach_f [1..<last + 1] (\<lambda>card_index s.
                let card_lock_idx = first_card_index + card_index
                in if mark_all \<or> write_locks s card_lock_idx \<noteq> CARD_CLEAR
                   then s\<lparr>write_locks := (write_locks s)(card_lock_idx := mark_value)\<rparr> else s) s
      in set_stm_flags g obj (stm_flags s g obj AND NOT GCFLAG_CARDS_SET) s)"

definition card_range :: "ext \<Rightarrow> stm \<Rightarrow> nat \<Rightarrow> nat \<Rightarrow> nat set" where
  "card_range X s g obj = {get_write_lock_idx obj + 1 .. get_write_lock_idx obj + last_card_index X s g obj}"

lemma card_fold:
  "fold (\<lambda>ci s. if mark_all \<or> write_locks s (b + ci) \<noteq> c
         then s\<lparr>write_locks := (write_locks s)(b + ci := v)\<rparr> else s) [k..<n] s
   = s\<lparr>write_locks := (\<lambda>i. if b + k \<le> i \<and> i < b + n \<and> (mark_all \<or> write_locks s i \<noteq> c) then v else write_locks s i)\<rparr>"
proof (induction n)
  case 0
  have "(\<lambda>i. if b + k \<le> i \<and> i < b + 0 \<and> (mark_all \<or> write_locks s i \<noteq> c) then v else write_locks s i) = write_locks s"
    by (auto simp: fun_eq_iff)
  then show ?case by simp
next
  case (Suc n)
  let ?W = "\<lambda>n i. if b + k \<le> i \<and> i < b + n \<and> (mark_all \<or> write_locks s i \<noteq> c) then v else write_locks s i"
  show ?case
  proof (cases "k \<le> n")
    case True
    have upt: "[k..<Suc n] = [k..<n] @ [n]" using True by simp
    have "(if mark_all \<or> ?W n (b + n) \<noteq> c then (?W n)(b + n := v) else ?W n) = ?W (Suc n)"
      using True by (auto simp: fun_eq_iff less_Suc_eq)
    moreover have "fold (\<lambda>ci s. if mark_all \<or> write_locks s (b + ci) \<noteq> c
         then s\<lparr>write_locks := (write_locks s)(b + ci := v)\<rparr> else s) [n] (s\<lparr>write_locks := W\<rparr>)
      = s\<lparr>write_locks := if mark_all \<or> W (b + n) \<noteq> c then W(b + n := v) else W\<rparr>" for W
      by simp
    ultimately show ?thesis unfolding upt fold_append o_apply Suc.IH by (simp only:)
  next
    case False
    then have "?W n = ?W (Suc n)" "[k..<Suc n] = [k..<n]" by (auto simp: fun_eq_iff)
    then show ?thesis using Suc by simp
  qed
qed

lemma reset_object_cards_eq:
  "reset_object_cards X g obj v mark_all s =
     set_stm_flags g obj (stm_flags s g obj AND NOT GCFLAG_CARDS_SET)
       (s\<lparr>write_locks := (\<lambda>i. if i \<in> card_range X s g obj \<and> (mark_all \<or> write_locks s i \<noteq> CARD_CLEAR)
          then v else write_locks s i)\<rparr>)"
proof -
  have r: "b + 1 \<le> i \<and> i < b + (l + 1) \<longleftrightarrow> b + 1 \<le> i \<and> i \<le> b + l" for b i l :: nat by auto
  show ?thesis
    unfolding reset_object_cards_def foreach_f_def Let_def card_fold card_range_def
    by (simp add: r less_Suc_eq_le stm_flags_def vload32_def vread_def [abs_def] cong: if_cong conj_cong)
qed

lemma set_stm_flags_frame [simp]:
  "segs (set_stm_flags g obj v s) = segs s" "remap (set_stm_flags g obj v s) = remap s"
  "rm (set_stm_flags g obj v s) = rm s" "write_locks (set_stm_flags g obj v s) = write_locks s"
  "by_segment (set_stm_flags g obj v s) = by_segment s" "tls (set_stm_flags g obj v s) = tls s"
  "lm (set_stm_flags g obj v s) = lm s" "in_use1 (set_stm_flags g obj v s) = in_use1 s"
  "events (set_stm_flags g obj v s) = events s" "pause_signalled (set_stm_flags g obj v s) = pause_signalled s"
  "mapped_ok (set_stm_flags g obj v s) = mapped_ok s"
  "is_private_page (set_stm_flags g obj v s) = is_private_page s"
  by (simp_all add: set_stm_flags_def vstore32_def)

lemma reset_object_cards_frame [simp]:
  "segs (reset_object_cards X g obj v a s) = segs s" "remap (reset_object_cards X g obj v a s) = remap s"
  "rm (reset_object_cards X g obj v a s) = rm s" "by_segment (reset_object_cards X g obj v a s) = by_segment s"
  "tls (reset_object_cards X g obj v a s) = tls s" "lm (reset_object_cards X g obj v a s) = lm s"
  "in_use1 (reset_object_cards X g obj v a s) = in_use1 s" "events (reset_object_cards X g obj v a s) = events s"
  "pause_signalled (reset_object_cards X g obj v a s) = pause_signalled s"
  by (simp_all add: reset_object_cards_eq)

lemma reset_object_cards_write_locks:
  "write_locks (reset_object_cards X g obj v mark_all s) i =
     (if i \<in> card_range X s g obj \<and> (mark_all \<or> write_locks s i \<noteq> CARD_CLEAR) then v else write_locks s i)"
  by (simp add: reset_object_cards_eq)

lemma stm_flags_set: "stm_flags (set_stm_flags g obj v s) g obj = v"
  by (simp add: stm_flags_def set_stm_flags_def vload32_vstore32)

lemma vread_set_stm_flags:
  "vread (set_stm_flags g obj v s) g' x =
    (if obj \<le> x \<and> x < obj + 4 \<and> remap s g (x div 4096) = remap s g' (x div 4096)
     then byte_of32 v (x - obj) else vread s g' x)"
  by (simp add: set_stm_flags_def vstore32_def vread_vfill)

lemma vread_reset_object_cards:
  "vread (reset_object_cards X g obj v a s) g' x =
    (if obj \<le> x \<and> x < obj + 4 \<and> remap s g (x div 4096) = remap s g' (x div 4096)
     then byte_of32 (stm_flags s g obj AND NOT GCFLAG_CARDS_SET) (x - obj) else vread s g' x)"
  by (simp add: reset_object_cards_eq vread_set_stm_flags)

end
