(* ===== verification/Marker.thy ===== *)
theory Marker
  imports State
begin

text \<open>
  \<open>c7/stm/marker.c\<close>: the location reported with a timing event, taken from the shadow
  stack (an odd number followed by a pointer) or recorded at the time of a write.
\<close>

text \<open>
  \<open>marker_fetch\<close> scans down from the top of the shadow stack to the first odd entry; the
  stopper is at index 0. The entry after an odd number on the very top has not been pushed
  and counts as 0.
\<close>

definition marker_fetch :: "nat list \<Rightarrow> nat \<times> nat" where
  "marker_fetch ss =
     (let current = length ss - 1 - length (takeWhile even (rev ss))
      in if current \<noteq> 0
         then (ss ! current, if current + 1 < length ss then ss ! (current + 1) else 0)
         else (0, 0))"

definition thread_marker :: "stm \<Rightarrow> nat option \<Rightarrow> nat \<times> nat" where
  "thread_marker s t = (case t of None \<Rightarrow> (0, 0) | Some t \<Rightarrow> marker_fetch (shadowstack (tls s t)))"

definition timing_fetch_inev :: "ext \<Rightarrow> nat \<Rightarrow> stm \<Rightarrow> stm" where
  "timing_fetch_inev X me s =
     (if timing_enabled X
      then let (odd_number, object) = thread_marker s (running_thread (segs s me))
           in upd_seg me (\<lambda>p. p\<lparr>marker_inev_odd_number := odd_number, marker_inev_object := object\<rparr>) s
      else s)"

text \<open>The search of \<open>marker_fetch_obj_write\<close>, from the last pair to the first.\<close>

fun find_write_marker :: "nat \<Rightarrow> nat list \<Rightarrow> nat list \<Rightarrow> nat \<Rightarrow> nat \<times> nat" where
  "find_write_marker 0 mlst mlstm obj = (0, 0)"
| "find_write_marker (Suc i) mlst mlstm obj =
     (if mlst ! i = obj then (mlstm ! (i * 2), mlstm ! (i * 2 + 1)) else find_write_marker i mlst mlstm obj)"

definition marker_fetch_obj_write :: "stm \<Rightarrow> nat option \<Rightarrow> nat \<Rightarrow> nat \<times> nat" where
  "marker_fetch_obj_write s t obj =
     (case t of None \<Rightarrow> (0, 0)
      | Some t \<Rightarrow>
          (let pseg = segs s (associated_segment_num (tls s t));
               mlst = modified_old_objects pseg; mlstm = modified_old_objects_markers pseg
           in find_write_marker (length mlstm div 2) mlst mlstm obj))"

definition timing_record_write :: "ext \<Rightarrow> nat \<Rightarrow> stm \<Rightarrow> stm" where
  "timing_record_write X me s =
     (if timing_enabled X
      then let (odd_number, object) = thread_marker s (running_thread (segs s me));
               base_count = length (modified_old_objects (segs s me));
               mlstm = modified_old_objects_markers (segs s me);
               mlstm = mlstm @ concat (replicate ((2 * base_count - length mlstm + 1) div 2) [0, 0])
           in upd_seg me (\<lambda>p. p\<lparr>modified_old_objects_markers := mlstm @ [odd_number, object]\<rparr>) s
      else s)"

definition timing_contention :: "ext \<Rightarrow> nat \<Rightarrow> stm_event_e \<Rightarrow> nat \<Rightarrow> nat \<Rightarrow> stm \<Rightarrow> stm" where
  "timing_contention X me kind other_segment_num obj s =
     (if timing_enabled X
      then let t0 = running_thread (segs s me);
               m0 = (if kind = STM_CONTENTION_WRITE_READ then marker_fetch_obj_write s t0 obj
                     else thread_marker s t0);
               other = segs s other_segment_num;
               m1 = (case kind of
                       STM_CONTENTION_WRITE_WRITE \<Rightarrow> marker_fetch_obj_write s (running_thread other) obj
                     | STM_CONTENTION_INEVITABLE \<Rightarrow> (marker_inev_odd_number other, marker_inev_object other)
                     | _ \<Rightarrow> (0, 0))
           in emit (TimingContention t0 kind m0 m1) s
      else s)"

text \<open>
  A write recorded when the object became the next entry of \<open>modified_old_objects\<close> is found
  again by the search.
\<close>

lemma length_pairs [simp]: "length (concat (replicate n [0, 0 :: nat])) = 2 * n"
  by (induction n) auto

lemma find_write_marker_last:
  assumes "length mlstm = 2 * n" and "n \<le> length mlst" and "obj \<notin> set (drop n mlst)"
  shows "find_write_marker (Suc n) (take n mlst @ obj # xs) (mlstm @ [a, b]) obj = (a, b)"
  using assms by (simp add: nth_append)

end
