(* ===== verification/Extra.thy ===== *)
theory Extra
  imports State
begin

text \<open>
  \<open>c7/stm/extra.c\<close>: callbacks to run when the transaction commits (index 0) or aborts
  (index 1). Calling a callback is the event \<open>UserCallback\<close>. A null callback is \<open>None\<close>.
\<close>

definition stm_in_transaction :: "stm \<Rightarrow> nat \<Rightarrow> bool" where
  "stm_in_transaction s t \<longleftrightarrow> running_thread (segs s (associated_segment_num (tls s t))) = Some t"

text \<open>Double-registering the same key is an error of the caller (\<open>TreeDepth\<close>).\<close>

definition register_callbacks ::
  "nat \<Rightarrow> nat \<Rightarrow> u64 \<Rightarrow> u64 option \<Rightarrow> nat \<Rightarrow> stm \<Rightarrow> (stm, int) res" where
  "register_callbacks me t key callback index s =
     (if \<not> stm_in_transaction s t then Ret (-1) s
      else if transaction_state (segs s me) = TS_INEVITABLE then Ret (-1) s
      else let callbacks = callbacks_on_commit_and_abort (segs s me) index;
               put = (\<lambda>c. upd_seg me (\<lambda>p. p\<lparr>callbacks_on_commit_and_abort :=
                        (callbacks_on_commit_and_abort p)(index := c)\<rparr>) s)
           in case callback of
                None \<Rightarrow> (let (found, callbacks) = tree_delete_item callbacks key
                         in Ret (if found then 1 else 0) (put callbacks))
              | Some cb \<Rightarrow> (case tree_insert insert_fuel (\<lambda>_. True) callbacks key cb of
                              Inl e \<Rightarrow> Fatal ''tree_insert'' s
                            | Inr callbacks \<Rightarrow> Ret 1 (put callbacks)))"

definition stm_call_on_commit :: "nat \<Rightarrow> nat \<Rightarrow> u64 \<Rightarrow> u64 option \<Rightarrow> stm \<Rightarrow> (stm, int) res" where
  "stm_call_on_commit me t key callback s =
     bind_res (register_callbacks me t key callback 0 s) (\<lambda>result s.
       case callback of
         Some cb \<Rightarrow> (if result < 0 then Ret result (emit (UserCallback key cb) s) else Ret result s)
       | None \<Rightarrow> Ret result s)"

definition stm_call_on_abort :: "nat \<Rightarrow> nat \<Rightarrow> u64 \<Rightarrow> u64 option \<Rightarrow> stm \<Rightarrow> (stm, int) res" where
  "stm_call_on_abort me t key callback s = register_callbacks me t key callback 1 s"

definition invoke_and_clear_user_callbacks :: "nat \<Rightarrow> nat \<Rightarrow> stm \<Rightarrow> stm" where
  "invoke_and_clear_user_callbacks me index s =
     (let callbacks = callbacks_on_commit_and_abort (segs s me) (1 - index);
          s = (if \<not> tree_is_cleared callbacks
               then upd_seg me (\<lambda>p. p\<lparr>callbacks_on_commit_and_abort :=
                      (callbacks_on_commit_and_abort p)(1 - index := tree_clear callbacks)\<rparr>) s else s);
          callbacks = callbacks_on_commit_and_abort (segs s me) index
      in if tree_is_cleared callbacks then s
         else let s = upd_seg me (\<lambda>p. p\<lparr>callbacks_on_commit_and_abort :=
                        (callbacks_on_commit_and_abort p)(index := tree_create)\<rparr>) s
              in foreach_f (tree_items callbacks) (\<lambda>(key, callback) s. emit (UserCallback key callback) s) s)"

lemma emit_callbacks:
  "fold (\<lambda>(k, c) s. emit (UserCallback k c) s) xs s =
     s\<lparr>events := events s @ map (\<lambda>(k, c). UserCallback k c) xs\<rparr>"
  by (induction xs arbitrary: s) (auto simp: emit_def)

lemma invoke_frame [simp]:
  "mem (invoke_and_clear_user_callbacks me i s) = mem s" "remap (invoke_and_clear_user_callbacks me i s) = remap s"
  "rm (invoke_and_clear_user_callbacks me i s) = rm s" "lm (invoke_and_clear_user_callbacks me i s) = lm s"
  "write_locks (invoke_and_clear_user_callbacks me i s) = write_locks s"
  "by_segment (invoke_and_clear_user_callbacks me i s) = by_segment s"
  "tls (invoke_and_clear_user_callbacks me i s) = tls s"
  "in_use1 (invoke_and_clear_user_callbacks me i s) = in_use1 s"
  "pause_signalled (invoke_and_clear_user_callbacks me i s) = pause_signalled s"
  "globally_unique_transaction (invoke_and_clear_user_callbacks me i s) = globally_unique_transaction s"
  "g \<noteq> me \<Longrightarrow> segs (invoke_and_clear_user_callbacks me i s) g = segs s g"
  by (simp_all add: invoke_and_clear_user_callbacks_def Let_def foreach_f_def emit_callbacks)

lemma invoke_seg:
  "segs (invoke_and_clear_user_callbacks me i s) me = (segs s me)\<lparr>callbacks_on_commit_and_abort :=
     callbacks_on_commit_and_abort (segs (invoke_and_clear_user_callbacks me i s) me)\<rparr>"
  by (simp add: invoke_and_clear_user_callbacks_def Let_def foreach_f_def emit_callbacks)

end
