(* ===== verification/Abort.thy ===== *)
theory Abort
  imports Cards Marker Extra
begin

text \<open>
  Undoing a transaction: \<open>throw_away_nursery\<close> (\<open>nursery.c\<close>), \<open>abort_finalizers\<close>
  (\<open>finalizer.c\<close>), \<open>release_thread_segment\<close> (\<open>sync.c\<close>), and the abort and end of a
  transaction of \<open>core.c\<close>. A segment can be aborted by its own thread or, at a safe
  point, by another one; \<open>me\<close> is then the segment of the thread that runs the code and
  \<open>g\<close> the one aborted.
\<close>

section \<open>The nursery\<close>

definition nursery_used :: "stm \<Rightarrow> nat \<Rightarrow> nat" where
  "nursery_used s g =
     (let n = nursery_current (segs s g) - NURSERY_START
      in if n > NB_NURSERY_PAGES * 4096 then NB_NURSERY_PAGES * 4096 else n)"

definition throw_away_nursery :: "nat \<Rightarrow> stm \<Rightarrow> nat \<times> stm" where
  "throw_away_nursery g s =
     (let used = nursery_used s g;
          s = memset0 g NURSERY_START used s;
          s = upd_seg g (\<lambda>p. p\<lparr>nursery_current := NURSERY_START\<rparr>) s;
          t = young_outside_nursery (segs s g);
          s = (if \<not> tree_is_cleared t
               then let s = foreach_f (tree_items t) (\<lambda>(addr, val) s.
                          let s = s\<lparr>rm := (rm s)(g := (rm s g)(unat addr div 16 := 0))\<rparr>
                          in s\<lparr>lm := large_free (unat addr) (lm s)\<rparr>) s
                    in upd_seg g (\<lambda>p. p\<lparr>young_outside_nursery := tree_clear t\<rparr>) s
               else s);
          s = upd_seg g (\<lambda>p. p\<lparr>nursery_objects_shadows := tree_clear (nursery_objects_shadows p)\<rparr>) s
      in (used, s))"

section \<open>Finalizers of the aborted transaction\<close>

text \<open>
  The overflow objects at the tail of \<open>old_objects_with_light_finalizers\<close>, last first.
  \<open>gs\<close> is the segment the \<open>%gs\<close> register points to: the flags of \<open>obj\<close> are read
  through it. The list is given reversed.
\<close>

fun abort_old_light :: "nat \<Rightarrow> nat \<Rightarrow> nat list \<Rightarrow> stm \<Rightarrow> stm" where
  "abort_old_light g gs [] s = s"
| "abort_old_light g gs (obj # rest) s =
     (if \<not> IS_OVERFLOW_OBJ s g (stm_flags s gs obj) then s
      else let s = upd_seg g (\<lambda>p. p\<lparr>old_objects_with_light_finalizers := rev rest\<rparr>) s
           in abort_old_light g g rest (emit (LightFinalizer g obj) s))"

definition abort_finalizers :: "nat \<Rightarrow> nat \<Rightarrow> stm \<Rightarrow> stm" where
  "abort_finalizers me g s =
     (let s = upd_seg g (\<lambda>p. p\<lparr>finalizers := None\<rparr>) s;
          lst = young_objects_with_light_finalizers (segs s g);
          gs = (if lst \<noteq> [] then g else me);
          s = foreach_f lst (\<lambda>obj s. emit (LightFinalizer g obj) s) s;
          s = upd_seg g (\<lambda>p. p\<lparr>young_objects_with_light_finalizers := []\<rparr>) s
      in abort_old_light g gs (rev (old_objects_with_light_finalizers (segs s g))) s)"

section \<open>Modified objects\<close>

text \<open>
  \<open>obj_should_use_cards\<close> looks at the object through the current segment, \<open>me\<close>.
\<close>

definition reset_modified_object :: "ext \<Rightarrow> nat \<Rightarrow> nat \<Rightarrow> nat \<Rightarrow> stm \<Rightarrow> stm" where
  "reset_modified_object X me g item s =
     (let size = obj_size X s 0 item;
          s = memcpy g item 0 item size s;
          s = (if obj_should_use_cards X s me item then reset_object_cards X g item CARD_CLEAR False s else s)
      in s\<lparr>write_locks := (write_locks s)(item div 16 - WRITELOCK_START := 0)\<rparr>)"

definition reset_modified_from_other_segments :: "ext \<Rightarrow> nat \<Rightarrow> nat \<Rightarrow> stm \<Rightarrow> stm" where
  "reset_modified_from_other_segments X me g s =
     (let s = foreach_r (modified_old_objects (segs s g)) (reset_modified_object X me g) s
      in upd_seg g (\<lambda>p. p\<lparr>modified_old_objects := [], modified_old_objects_markers := []\<rparr>) s)"

text \<open>A thread without a shadow stack, a NULL pointer, has the empty list; a stack has its stopper.\<close>

definition restored_shadowstack :: "tl \<Rightarrow> nat list" where
  "restored_shadowstack x = (if shadowstack x = [] then [] else restore_ss (rjthread x) (shadowstack x))"

definition restore_thread :: "nat \<Rightarrow> nat \<Rightarrow> stm \<Rightarrow> stm" where
  "restore_thread g bytes_in_nursery s =
     (case running_thread (segs s g) of
        None \<Rightarrow> s
      | Some t \<Rightarrow>
          upd_tl t (\<lambda>x. x\<lparr>shadowstack := restored_shadowstack x,
             thread_local_obj := threadlocal_at_start_of_transaction (segs s g),
             last_abort_bytes_in_nursery := bytes_in_nursery\<rparr>) s)"

text \<open>
  The assertion after the restoring: the position of the shadow stack is the one noted when the
  transaction started. It is compared as a length, a NULL pointer being the position 0.
\<close>

definition shadowstack_restored :: "nat \<Rightarrow> stm \<Rightarrow> bool" where
  "shadowstack_restored g s \<longleftrightarrow>
     (case running_thread (segs s g) of
        None \<Rightarrow> True
      | Some t \<Rightarrow> length (shadowstack (tls s t)) = shadowstack_at_start_of_transaction (segs s g))"

definition abort_data_structures_from_segment_num :: "ext \<Rightarrow> nat \<Rightarrow> nat \<Rightarrow> stm \<Rightarrow> (stm, unit) res" where
  "abort_data_structures_from_segment_num X me g s =
     (case transaction_state (segs s g) of
        TS_INEVITABLE \<Rightarrow> Fatal ''abort: transaction_state == TS_INEVITABLE'' s
      | TS_NONE \<Rightarrow> Fatal ''abort: bad transaction_state'' s
      | TS_REGULAR \<Rightarrow>
          (let s = abort_finalizers me g s;
               (bytes_in_nursery, s) = throw_away_nursery g s;
               s = (case large_overflow_objects (segs s g) of
                      None \<Rightarrow> s
                    | Some lst \<Rightarrow> foreach_r lst (\<lambda>item s.
                        if has_flag (stm_flags s g item) GCFLAG_CARDS_SET
                        then reset_object_cards X g item CARD_CLEAR False s else s) s);
               s = reset_modified_from_other_segments X me g s;
               s = restore_thread g bytes_in_nursery s
           in if \<not> shadowstack_restored g s then Fatal ''assert: shadowstack'' s
              else Ret () (upd_seg g (\<lambda>p. p\<lparr>objects_pointing_to_nursery := None, old_objects_with_cards := [],
                     large_overflow_objects := None, young_weakrefs := []\<rparr>) s)))"

section \<open>The end of a transaction\<close>

definition release_thread_segment :: "nat \<Rightarrow> nat \<Rightarrow> stm \<Rightarrow> stm" where
  "release_thread_segment me t s =
     (let s = cond_signal C_SEGMENT_FREE s;
          s = (if signal_when_done (segs s me)
               then upd_seg me (\<lambda>p. p\<lparr>signal_when_done := False\<rparr>) (cond_broadcast C_TRANSACTION_DONE s) else s);
          s = upd_seg me (\<lambda>p. p\<lparr>running_thread := None\<rparr>) s
      in s\<lparr>in_use1 := (in_use1 s)(associated_segment_num (tls s t) - 1 := 0)\<rparr>)"

definition finish_transaction :: "ext \<Rightarrow> nat \<Rightarrow> stm_event_e \<Rightarrow> stm \<Rightarrow> stm" where
  "finish_transaction X me ev s =
     (let s = upd_seg me (\<lambda>p. p\<lparr>safe_point := SP_NO_TRANSACTION, transaction_state := TS_NONE,
                marker_inev_object := 0, objects_pointing_to_nursery := None,
                old_objects_with_cards := [], large_overflow_objects := None\<rparr>) s;
          t = running_thread (segs s me);
          s = timing_event X t ev s
      in case t of None \<Rightarrow> s | Some t \<Rightarrow> release_thread_segment me t s)"

definition clear_mem_on_abort :: "nat option \<Rightarrow> stm \<Rightarrow> stm" where
  "clear_mem_on_abort t s =
     (case t of None \<Rightarrow> s
      | Some t \<Rightarrow> upd_tl t (\<lambda>x. x\<lparr>mem_clear_on_abort :=
          map_option (\<lambda>m. replicate (length m) 0) (mem_clear_on_abort x)\<rparr>) s)"

definition abort_with_mutex_no_longjmp :: "ext \<Rightarrow> nat \<Rightarrow> stm \<Rightarrow> (stm, nat option) res" where
  "abort_with_mutex_no_longjmp X me s =
     bind_res (abort_data_structures_from_segment_num X me me s) (\<lambda>_ s.
       let t = running_thread (segs s me);
           s = clear_mem_on_abort t s;
           s = invoke_and_clear_user_callbacks me 1 s;
           s = (if is_abort (nursery_end (segs s me))
                then upd_seg me (\<lambda>p. p\<lparr>nursery_end := if pause_signalled s then NSE_SIGPAUSE else NURSERY_END\<rparr>) s
                else s);
           s = finish_transaction X me STM_TRANSACTION_ABORT s;
           s = cond_broadcast C_ABORTED s
       in Ret t s)"

text \<open>
  \<open>abort_with_mutex\<close> does not return: with the mutex released and taken again it jumps
  back to the \<open>setjmp\<close> of the start of the transaction, which empties the saved slices.
\<close>

definition abort_with_mutex :: "ext \<Rightarrow> nat \<Rightarrow> stm \<Rightarrow> (stm, 'a) res" where
  "abort_with_mutex X me s =
     bind_res (abort_with_mutex_no_longjmp X me s) (\<lambda>t s.
       case t of None \<Rightarrow> Aborted s
       | Some t \<Rightarrow> Aborted (upd_tl t (\<lambda>x. x\<lparr>rjthread := fst (rewind_jmp_longjmp (rjthread x) 0 (\<lambda>_. 0))\<rparr>) s))"

definition stm_abort_transaction :: "ext \<Rightarrow> nat \<Rightarrow> stm \<Rightarrow> (stm, 'a) res" where
  "stm_abort_transaction X me s = abort_with_mutex X me s"

end
