(* ===== verification/Sync.thy ===== *)
theory Sync
  imports Abort
begin

text \<open>
  \<open>c7/stm/sync.c\<close>: owning a segment, safe points, and stopping all the other threads. The
  caller holds the mutex; waiting on a condition variable gives it up, and what the other
  threads do meanwhile is \<open>other_threads\<close>. Loops that wait take fuel, the number of
  wake-ups they may need; \<open>Hang\<close> is running out of it.
\<close>

section \<open>Segments\<close>

text \<open>The search for the next free segment; \<open>retries\<close> of them are left to look at.\<close>

fun next_free_segment :: "(nat \<Rightarrow> u8) \<Rightarrow> nat \<Rightarrow> nat \<Rightarrow> nat option" where
  "next_free_segment in_use 0 num = None"
| "next_free_segment in_use (Suc retries) num =
     (let num = (num mod NB_SEGMENTS) + 1
      in if in_use (num - 1) = 0 then Some num else next_free_segment in_use retries num)"

text \<open>The result is the segment that \<open>%gs\<close> points to afterwards, None for \<open>false\<close>.\<close>

definition acquire_thread_segment :: "ext \<Rightarrow> nat \<Rightarrow> stm \<Rightarrow> nat option \<times> stm" where
  "acquire_thread_segment X t s =
     (let num = associated_segment_num (tls s t);
          got = (if in_use1 s (num - 1) = 0 then Some (num, s)
                 else case next_free_segment (in_use1 s) NB_SEGMENTS num of
                        Some num \<Rightarrow> Some (num, upd_tl t (\<lambda>x. x\<lparr>associated_segment_num := num\<rparr>) s)
                      | None \<Rightarrow> None)
      in case got of
           None \<Rightarrow> (None, timing_event X (Some t) STM_WAIT_DONE
                     (cond_wait X C_SEGMENT_FREE (timing_event X (Some t) STM_WAIT_FREE_SEGMENT s)))
         | Some (num, s) \<Rightarrow>
             (let s = s\<lparr>in_use1 := (in_use1 s)(num - 1 := 1)\<rparr>
              in (Some num, upd_seg num (\<lambda>p. p\<lparr>running_thread := Some t\<rparr>) s)))"

section \<open>Signals\<close>

definition signal_other_to_commit_soon :: "nat \<Rightarrow> stm \<Rightarrow> stm" where
  "signal_other_to_commit_soon other s =
     (if \<not> signalled_to_commit_soon (segs s other) \<and> \<not> is_abort (nursery_end (segs s other))
         \<and> \<not> pause_signalled s
      then upd_seg other (\<lambda>p. p\<lparr>nursery_end := NSE_SIGCOMMITSOON\<rparr>) s else s)"

definition signal_everybody_to_pause_running :: "stm \<Rightarrow> stm" where
  "signal_everybody_to_pause_running s =
     (let s = foreach_f segments (\<lambda>i s. if nursery_end (segs s i) = NURSERY_END
                then upd_seg i (\<lambda>p. p\<lparr>nursery_end := NSE_SIGPAUSE\<rparr>) s else s) s
      in s\<lparr>pause_signalled := True\<rparr>)"

definition count_other_threads_sp_running :: "nat \<Rightarrow> stm \<Rightarrow> nat" where
  "count_other_threads_sp_running me s =
     length (filter (\<lambda>i. i \<noteq> me \<and> safe_point (segs s i) = SP_RUNNING) segments)"

definition remove_requests_for_safe_point :: "stm \<Rightarrow> stm" where
  "remove_requests_for_safe_point s =
     (let s = s\<lparr>pause_signalled := False\<rparr>;
          s = foreach_f segments (\<lambda>i s. if nursery_end (segs s i) = NSE_SIGPAUSE
                then upd_seg i (\<lambda>p. p\<lparr>nursery_end := NURSERY_END\<rparr>) s else s) s
      in cond_broadcast C_REQUEST_REMOVED s)"

section \<open>Safe points\<close>

abbreviation set_safe_point :: "nat \<Rightarrow> safe_point \<Rightarrow> stm \<Rightarrow> stm" where
  "set_safe_point me sp \<equiv> upd_seg me (\<lambda>p. p\<lparr>safe_point := sp\<rparr>)"

definition pause_at_safe_point :: "ext \<Rightarrow> nat \<Rightarrow> stm \<Rightarrow> stm" where
  "pause_at_safe_point X me s =
     (let s = timing_event X (running_thread (segs s me)) STM_WAIT_SYNC_PAUSE s;
          s = cond_signal C_AT_SAFE_POINT s;
          s = set_safe_point me SP_WAIT_FOR_C_REQUEST_REMOVED s;
          s = cond_wait X C_REQUEST_REMOVED s;
          s = set_safe_point me SP_RUNNING s
      in timing_event X (running_thread (segs s me)) STM_WAIT_DONE s)"

fun enter_safe_point_loop :: "nat \<Rightarrow> ext \<Rightarrow> nat \<Rightarrow> stm \<Rightarrow> (stm, unit) res" where
  "enter_safe_point_loop 0 X me s = Hang s"
| "enter_safe_point_loop (Suc n) X me s =
     (if must_abort s me then abort_with_mutex X me s
      else if nursery_end (segs s me) = NURSERY_END then Ret () s
      else if nursery_end (segs s me) = NSE_SIGCOMMITSOON
      then let s = upd_seg me (\<lambda>p. p\<lparr>signalled_to_commit_soon := True\<rparr>) s;
               s = emit (CommitSoon me) s
           in if \<not> pause_signalled s then Ret () (upd_seg me (\<lambda>p. p\<lparr>nursery_end := NURSERY_END\<rparr>) s)
              else let s = upd_seg me (\<lambda>p. p\<lparr>nursery_end := NSE_SIGPAUSE\<rparr>) s
                   in enter_safe_point_loop n X me (pause_at_safe_point X me s)
      else enter_safe_point_loop n X me (pause_at_safe_point X me s))"

definition enter_safe_point_if_requested :: "nat \<Rightarrow> ext \<Rightarrow> nat \<Rightarrow> stm \<Rightarrow> (stm, unit) res" where
  "enter_safe_point_if_requested fuel X me s =
     (if nursery_end (segs s me) = NURSERY_END then Ret () s else enter_safe_point_loop fuel X me s)"

section \<open>Stopping the others\<close>

text \<open>The loop of \<open>synchronize_all_threads\<close> that waits until no other thread runs.\<close>

fun wait_for_others :: "nat \<Rightarrow> ext \<Rightarrow> nat \<Rightarrow> stm \<Rightarrow> (stm, unit) res" where
  "wait_for_others 0 X me s = Hang s"
| "wait_for_others (Suc n) X me s =
     (if count_other_threads_sp_running me s > 0
      then let s = set_safe_point me SP_WAIT_FOR_C_AT_SAFE_POINT s;
               s = cond_wait X C_AT_SAFE_POINT s;
               s = set_safe_point me SP_RUNNING s
           in if must_abort s me
              then abort_with_mutex X me (remove_requests_for_safe_point s)
              else wait_for_others n X me s
      else Ret () s)"

definition synchronize_all_threads :: "nat \<Rightarrow> ext \<Rightarrow> nat \<Rightarrow> sync_type_e \<Rightarrow> stm \<Rightarrow> (stm, unit) res" where
  "synchronize_all_threads fuel X me sync_type s =
     bind_res (enter_safe_point_if_requested fuel X me s) (\<lambda>_ s.
       if globally_unique_transaction s
       then if count_other_threads_sp_running me s \<noteq> 0 then Fatal ''assert'' s else Ret () s
       else bind_res (wait_for_others fuel X me (signal_everybody_to_pause_running s)) (\<lambda>_ s.
         if sync_type = STOP_OTHERS_AND_BECOME_GLOBALLY_UNIQUE
         then let s = s\<lparr>globally_unique_transaction := True\<rparr>
              in if nursery_end (segs s me) \<noteq> NSE_SIGPAUSE then Fatal ''assert'' s
                 else Ret () (upd_seg me (\<lambda>p. p\<lparr>nursery_end := NURSERY_END\<rparr>) s)
         else Ret () (remove_requests_for_safe_point s)))"

definition committed_globally_unique_transaction :: "nat \<Rightarrow> stm \<Rightarrow> stm" where
  "committed_globally_unique_transaction me s =
     (let s = upd_seg me (\<lambda>p. p\<lparr>nursery_end := NSE_SIGPAUSE\<rparr>) s;
          s = s\<lparr>globally_unique_transaction := False\<rparr>
      in remove_requests_for_safe_point s)"

definition stm_collectable_safe_point :: "nat \<Rightarrow> ext \<Rightarrow> nat \<Rightarrow> stm \<Rightarrow> (stm, unit) res" where
  "stm_collectable_safe_point fuel X me s = enter_safe_point_if_requested fuel X me s"

definition stm_safe_point :: "nat \<Rightarrow> ext \<Rightarrow> nat \<Rightarrow> stm \<Rightarrow> (stm, unit) res" where
  "stm_safe_point fuel X me s =
     (if nursery_end (segs s me) \<le> STM_NSE_SIGNAL_MAX then stm_collectable_safe_point fuel X me s
      else Ret () s)"

end
