(* ===== verification/Contention.thy ===== *)
theory Contention
  imports Sync
begin

text \<open>
  \<open>c7/stm/contention.c\<close>: who aborts or waits when two transactions conflict; and
  \<open>wait_for_end_of_inevitable_transaction\<close> of \<open>sync.c\<close>, which treats another
  inevitable transaction as a contention.
\<close>

section \<open>The policies\<close>

record contmgr_s =
  abort_other :: bool
  try_sleep :: bool

definition cm_always_abort_myself :: "contmgr_s \<Rightarrow> contmgr_s" where
  "cm_always_abort_myself cm = cm\<lparr>abort_other := False\<rparr>"

definition cm_always_abort_other :: "contmgr_s \<Rightarrow> contmgr_s" where
  "cm_always_abort_other cm = cm\<lparr>abort_other := True\<rparr>"

definition cm_abort_the_younger :: "stm \<Rightarrow> nat \<Rightarrow> nat \<Rightarrow> contmgr_s \<Rightarrow> contmgr_s" where
  "cm_abort_the_younger s me other cm =
     (if unique_start_time (segs s me) \<ge> unique_start_time (segs s other)
      then cm\<lparr>abort_other := False\<rparr> else cm\<lparr>abort_other := True\<rparr>)"

definition cm_always_wait_for_other_thread :: "stm \<Rightarrow> nat \<Rightarrow> nat \<Rightarrow> contmgr_s \<Rightarrow> contmgr_s" where
  "cm_always_wait_for_other_thread s me other cm =
     (cm_abort_the_younger s me other cm)\<lparr>try_sleep := True\<rparr>"

definition cm_pause_if_younger :: "stm \<Rightarrow> nat \<Rightarrow> nat \<Rightarrow> contmgr_s \<Rightarrow> contmgr_s" where
  "cm_pause_if_younger s me other cm =
     (if unique_start_time (segs s me) \<ge> unique_start_time (segs s other)
      then cm\<lparr>try_sleep := True, abort_other := False\<rparr> else cm\<lparr>abort_other := True\<rparr>)"

text \<open>The choice, with the corrections for inevitable transactions and pending aborts.\<close>

definition contention_choice :: "stm \<Rightarrow> nat \<Rightarrow> nat \<Rightarrow> contmgr_s" where
  "contention_choice s me other =
     (let cm = cm_pause_if_younger s me other \<lparr>abort_other = False, try_sleep = False\<rparr>
      in if is_abort (nursery_end (segs s other)) then cm\<lparr>abort_other := True, try_sleep := False\<rparr>
         else if transaction_state (segs s me) = TS_INEVITABLE
         then cm\<lparr>abort_other := True, try_sleep := False\<rparr>
         else if transaction_state (segs s other) = TS_INEVITABLE then cm\<lparr>abort_other := False\<rparr>
         else cm)"

section \<open>The three outcomes\<close>

definition contention_sleep :: "ext \<Rightarrow> nat \<Rightarrow> nat \<Rightarrow> stm \<Rightarrow> (stm, bool) res" where
  "contention_sleep X me other s =
     (let s = upd_seg other (\<lambda>p. p\<lparr>signal_when_done := True\<rparr>) s;
          s = signal_other_to_commit_soon other s;
          s = timing_event X (running_thread (segs s me)) STM_WAIT_CONTENTION s;
          s = cond_signal C_AT_SAFE_POINT s;
          s = set_safe_point me SP_WAIT_FOR_C_TRANSACTION_DONE s;
          s = cond_wait X C_TRANSACTION_DONE s;
          s = set_safe_point me SP_RUNNING s;
          s = timing_event X (running_thread (segs s me)) STM_WAIT_DONE s
      in if must_abort s me then abort_with_mutex X me s else Ret True s)"

definition contention_abort_myself :: "ext \<Rightarrow> nat \<Rightarrow> nat \<Rightarrow> stm \<Rightarrow> (stm, bool) res" where
  "contention_abort_myself X me other s = abort_with_mutex X me (signal_other_to_commit_soon other s)"

text \<open>The second half of aborting the other thread, after it was woken up or waited for.\<close>

definition contention_kill_data :: "ext \<Rightarrow> nat \<Rightarrow> nat \<Rightarrow> bool \<Rightarrow> stm \<Rightarrow> (stm, bool) res" where
  "contention_kill_data X me other others_may_have_run s =
     bind_res (if is_aborting_now s other then abort_data_structures_from_segment_num X me other s
               else Ret () s)
       (\<lambda>_ s. if \<not> signalled_to_commit_soon (segs s me)
              then Ret others_may_have_run
                     (emit (CommitSoon me) (upd_seg me (\<lambda>p. p\<lparr>signalled_to_commit_soon := True\<rparr>) s))
              else Ret others_may_have_run s)"

definition contention_abort_other :: "ext \<Rightarrow> nat \<Rightarrow> nat \<Rightarrow> stm \<Rightarrow> (stm, bool) res" where
  "contention_abort_other X me other s =
     (let s = upd_seg other (\<lambda>p. p\<lparr>nursery_end := NSE_SIGABORT\<rparr>) s;
          s = timing_event X (running_thread (segs s me)) STM_ABORTING_OTHER_CONTENTION s
      in case safe_point (segs s other) of
           SP_RUNNING \<Rightarrow>
             (if must_abort s me then abort_with_mutex X me s
              else let s = cond_wait X C_ABORTED s
                   in if must_abort s me then abort_with_mutex X me s
                      else contention_kill_data X me other True s)
         | SP_WAIT_FOR_C_REQUEST_REMOVED \<Rightarrow>
             contention_kill_data X me other False (cond_broadcast C_REQUEST_REMOVED s)
         | SP_WAIT_FOR_C_AT_SAFE_POINT \<Rightarrow>
             contention_kill_data X me other False (cond_broadcast C_AT_SAFE_POINT s)
         | SP_WAIT_FOR_C_TRANSACTION_DONE \<Rightarrow>
             contention_kill_data X me other False (cond_broadcast C_TRANSACTION_DONE s)
         | SP_NO_TRANSACTION \<Rightarrow> Fatal ''unexpected other_pseg->safe_point'' s)"

definition contention_management :: "ext \<Rightarrow> nat \<Rightarrow> nat \<Rightarrow> stm_event_e \<Rightarrow> nat \<Rightarrow> stm \<Rightarrow> (stm, bool) res" where
  "contention_management X me other kind obj s =
     (if must_abort s me then abort_with_mutex X me s
      else let s = timing_contention X me kind other obj s;
               cm = contention_choice s me other
           in if try_sleep cm \<and> kind \<noteq> STM_CONTENTION_WRITE_WRITE
                 \<and> safe_point (segs s other) \<noteq> SP_WAIT_FOR_C_TRANSACTION_DONE
              then contention_sleep X me other s
              else if \<not> abort_other cm then contention_abort_myself X me other s
              else contention_abort_other X me other s)"

definition write_write_contention_management :: "ext \<Rightarrow> nat \<Rightarrow> nat \<Rightarrow> nat \<Rightarrow> stm \<Rightarrow> (stm, unit) res" where
  "write_write_contention_management X me lock_idx obj s =
     (let prev_owner = write_locks s lock_idx
      in if prev_owner \<noteq> 0 \<and> prev_owner \<noteq> write_lock_num (segs s me)
         then bind_res (contention_management X me (unat prev_owner) STM_CONTENTION_WRITE_WRITE obj s)
                (\<lambda>_ s. Ret () s)
         else Ret () s)"

definition write_read_contention_management :: "ext \<Rightarrow> nat \<Rightarrow> nat \<Rightarrow> nat \<Rightarrow> stm \<Rightarrow> (stm, bool) res" where
  "write_read_contention_management X me other obj s =
     contention_management X me other STM_CONTENTION_WRITE_READ obj s"

definition inevitable_contention_management :: "ext \<Rightarrow> nat \<Rightarrow> nat \<Rightarrow> stm \<Rightarrow> (stm, bool) res" where
  "inevitable_contention_management X me other s =
     contention_management X me other STM_CONTENTION_INEVITABLE 0 s"

section \<open>Inevitable transactions\<close>

text \<open>The first segment, in order, that runs an inevitable transaction.\<close>

definition first_inevitable :: "stm \<Rightarrow> nat option" where
  "first_inevitable s = find (\<lambda>i. transaction_state (segs s i) = TS_INEVITABLE) segments"

fun wait_for_end_of_inevitable_transaction :: "nat \<Rightarrow> ext \<Rightarrow> nat \<Rightarrow> stm \<Rightarrow> (stm, unit) res" where
  "wait_for_end_of_inevitable_transaction 0 X me s = Hang s"
| "wait_for_end_of_inevitable_transaction (Suc n) X me s =
     (case first_inevitable s of
        None \<Rightarrow> Ret () s
      | Some i \<Rightarrow> bind_res (inevitable_contention_management X me i s)
                    (\<lambda>_ s. wait_for_end_of_inevitable_transaction n X me s))"

end
