(* ===== verification/Barrier.thy ===== *)
theory Barrier
  imports Contention
begin

text \<open>
  The write barrier of \<open>c7/stm/core.c\<close> and \<open>c7/stmgc.h\<close>: claim the write lock of an
  old object, privatize its pages, and remember it; or mark one card of a large object.
  The compare-and-swap on \<open>write_locks\<close> and the marker lock are one atomic step with the
  test before them.
\<close>

definition stm_flags_and_not :: "nat \<Rightarrow> nat \<Rightarrow> u32 \<Rightarrow> stm \<Rightarrow> stm" where
  "stm_flags_and_not me obj f s = set_stm_flags me obj (stm_flags s me obj AND NOT f) s"

definition stm_flags_or :: "nat \<Rightarrow> nat \<Rightarrow> u32 \<Rightarrow> stm \<Rightarrow> stm" where
  "stm_flags_or me obj f s = set_stm_flags me obj (stm_flags s me obj OR f) s"

text \<open>\<open>LIST_APPEND\<close> on a list that may be NULL; the callers check that it is not.\<close>

definition append_opt :: "nat \<Rightarrow> nat list option \<Rightarrow> nat list option" where
  "append_opt x = map_option (\<lambda>xs. xs @ [x])"

definition write_slowpath_overflow_obj :: "ext \<Rightarrow> nat \<Rightarrow> nat \<Rightarrow> bool \<Rightarrow> stm \<Rightarrow> stm" where
  "write_slowpath_overflow_obj X me obj mark_card s =
     (if \<not> mark_card
      then let s = (if has_flag (stm_flags s me obj) GCFLAG_CARDS_SET
                    then reset_object_cards X me obj CARD_CLEAR False s else s);
               s = stm_flags_and_not me obj (GCFLAG_WRITE_BARRIER OR GCFLAG_CARDS_SET) s
           in upd_seg me (\<lambda>p. p\<lparr>objects_pointing_to_nursery := append_opt obj (objects_pointing_to_nursery p)\<rparr>) s
      else let s = stm_flags_or me obj GCFLAG_CARDS_SET s
           in upd_seg me (\<lambda>p. p\<lparr>old_objects_with_cards := old_objects_with_cards p @ [obj]\<rparr>) s)"

text \<open>The pages of an object, privatized from the first to the last.\<close>

definition privatize_object_pages :: "ext \<Rightarrow> nat \<Rightarrow> nat \<Rightarrow> stm \<Rightarrow> stm" where
  "privatize_object_pages X me obj s =
     (let first_page = obj div 4096
      in if has_flag (stm_flags s me obj) GCFLAG_SMALL_UNIFORM then page_privatize me first_page s
         else let size = obj_size X s me obj; end_page = (obj + size - 1) div 4096
              in foreach_f [first_page..<end_page + 1] (page_privatize me) s)"

text \<open>The end of \<open>write_slowpath_common\<close>, once the object is owned.\<close>

definition write_slowpath_owned :: "ext \<Rightarrow> nat \<Rightarrow> nat \<Rightarrow> bool \<Rightarrow> stm \<Rightarrow> stm" where
  "write_slowpath_owned X me obj mark_card s =
     (if \<not> mark_card
      then let s = (if objects_pointing_to_nursery (segs s me) \<noteq> None
                    then upd_seg me (\<lambda>p. p\<lparr>objects_pointing_to_nursery :=
                           append_opt obj (objects_pointing_to_nursery p)\<rparr>) s else s);
               s = (if has_flag (stm_flags s me obj) GCFLAG_CARDS_SET
                    then reset_object_cards X me obj CARD_MARKED_OLD True s else s)
           in stm_flags_and_not me obj (GCFLAG_WRITE_BARRIER OR GCFLAG_CARDS_SET) s
      else let s = stm_flags_or me obj GCFLAG_CARDS_SET s
           in upd_seg me (\<lambda>p. p\<lparr>old_objects_with_cards := old_objects_with_cards p @ [obj]\<rparr>) s)"

definition claim_object :: "ext \<Rightarrow> nat \<Rightarrow> nat \<Rightarrow> stm \<Rightarrow> stm" where
  "claim_object X me obj s =
     (let s = s\<lparr>write_locks := (write_locks s)(get_write_lock_idx obj := write_lock_num (segs s me))\<rparr>;
          s = timing_record_write X me s;
          s = upd_seg me (\<lambda>p. p\<lparr>modified_old_objects := modified_old_objects p @ [obj]\<rparr>) s
      in privatize_object_pages X me obj s)"

text \<open>From the label \<open>retry\<close> on; the fuel bounds the contentions.\<close>

fun write_slowpath_retry :: "nat \<Rightarrow> ext \<Rightarrow> nat \<Rightarrow> nat \<Rightarrow> bool \<Rightarrow> stm \<Rightarrow> (stm, unit) res" where
  "write_slowpath_retry 0 X me obj mark_card s = Hang s"
| "write_slowpath_retry (Suc n) X me obj mark_card s =
     (let base_lock_idx = get_write_lock_idx obj
      in if write_locks s base_lock_idx = 0
         then Ret () (write_slowpath_owned X me obj mark_card (claim_object X me obj s))
         else if write_locks s base_lock_idx = write_lock_num (segs s me)
         then Ret () (write_slowpath_owned X me obj mark_card s)
         else bind_res (write_write_contention_management X me base_lock_idx obj s)
                (\<lambda>_ s. write_slowpath_retry n X me obj mark_card s))"

definition write_slowpath_common :: "nat \<Rightarrow> ext \<Rightarrow> nat \<Rightarrow> nat \<Rightarrow> bool \<Rightarrow> stm \<Rightarrow> (stm, unit) res" where
  "write_slowpath_common fuel X me obj mark_card s =
     (if IS_OVERFLOW_OBJ s me (stm_flags s me obj)
      then Ret () (write_slowpath_overflow_obj X me obj mark_card s)
      else write_slowpath_retry fuel X me obj mark_card (stm_read me obj s))"

definition stm_write_slowpath :: "nat \<Rightarrow> ext \<Rightarrow> nat \<Rightarrow> nat \<Rightarrow> stm \<Rightarrow> (stm, unit) res" where
  "stm_write_slowpath fuel X me obj s = write_slowpath_common fuel X me obj False s"

definition stm_write :: "nat \<Rightarrow> ext \<Rightarrow> nat \<Rightarrow> nat \<Rightarrow> stm \<Rightarrow> (stm, unit) res" where
  "stm_write fuel X me obj s =
     (if has_flag (stm_flags s me obj) GCFLAG_WRITE_BARRIER then stm_write_slowpath fuel X me obj s
      else Ret () s)"

definition stm_write_slowpath_card_extra :: "nat \<Rightarrow> ext \<Rightarrow> nat \<Rightarrow> nat \<Rightarrow> stm \<Rightarrow> (stm, bool) res" where
  "stm_write_slowpath_card_extra fuel X me obj s =
     (let mark_card = obj_should_use_cards X s me obj
      in bind_res (write_slowpath_common fuel X me obj mark_card s) (\<lambda>_ s. Ret mark_card s))"

definition stm_write_slowpath_card :: "nat \<Rightarrow> ext \<Rightarrow> nat \<Rightarrow> nat \<Rightarrow> nat \<Rightarrow> stm \<Rightarrow> (stm, unit) res" where
  "stm_write_slowpath_card fuel X me obj index s =
     bind_res (if \<not> has_flag (stm_flags s me obj) GCFLAG_CARDS_SET
               then stm_write_slowpath_card_extra fuel X me obj s else Ret True s)
       (\<lambda>mark_card s. if \<not> mark_card then Ret () s
          else let card_lock_idx = get_write_lock_idx obj + get_index_to_card_index index
               in Ret () (s\<lparr>write_locks := (write_locks s)(card_lock_idx := CARD_MARKED)\<rparr>))"

definition stm_write_card :: "nat \<Rightarrow> ext \<Rightarrow> nat \<Rightarrow> nat \<Rightarrow> nat \<Rightarrow> stm \<Rightarrow> (stm, unit) res" where
  "stm_write_card fuel X me obj index s =
     (if has_flag (stm_flags s me obj) GCFLAG_WRITE_BARRIER then stm_write_slowpath_card fuel X me obj index s
      else Ret () s)"

end
