(* ===== verification/Syncobj.thy ===== *)
theory Syncobj
  imports Barrier
begin

text \<open>
  Publishing an object (\<open>c7/stm/core.c\<close>): copying the version of one segment to the
  shared copy of its pages and to the private copies of the other segments, page by page or
  only for the marked cards.
\<close>

text \<open>
  One step of the loop over the pages of \<open>[start, end)\<close>: \<open>start\<close> is inside page
  \<open>first_page\<close>, \<open>copy_size\<close> the part of the object in that page.
\<close>

definition page_fragment :: "nat \<Rightarrow> nat \<Rightarrow> nat \<Rightarrow> nat \<Rightarrow> nat" where
  "page_fragment first_page last_page start end_addr =
     (if first_page = last_page then end_addr - start else 4096 - start mod 4096)"

definition next_page_start :: "nat \<Rightarrow> nat" where
  "next_page_start start = (start + 4096) div 4096 * 4096"

definition copy_fragment :: "nat \<Rightarrow> nat \<Rightarrow> nat \<Rightarrow> nat \<Rightarrow> stm \<Rightarrow> stm" where
  "copy_fragment dst src start copy_size s =
     (if copy_size = 4096 then pagecopy dst src start s else memcpy dst start src start copy_size s)"

text \<open>The body of \<open>_page_wise_synchronize_object_now\<close> for one page.\<close>

definition sync_page :: "nat \<Rightarrow> nat \<Rightarrow> nat \<Rightarrow> nat \<Rightarrow> stm \<Rightarrow> stm" where
  "sync_page myself page start copy_size s =
     (let s = (if is_private_page s myself page then copy_fragment 0 myself start copy_size s else s)
      in foreach_f segments (\<lambda>i s. if i = myself then s
           else if is_private_page s i page then copy_fragment i myself start copy_size s else s) s)"

fun sync_pages :: "nat \<Rightarrow> nat \<Rightarrow> nat list \<Rightarrow> nat \<Rightarrow> nat \<Rightarrow> stm \<Rightarrow> stm" where
  "sync_pages myself last_page [] start end_addr s = s"
| "sync_pages myself last_page (page # pages) start end_addr s =
     sync_pages myself last_page pages (next_page_start start) end_addr
       (sync_page myself page start (page_fragment page last_page start end_addr) s)"

definition page_wise_synchronize_object_now :: "ext \<Rightarrow> nat \<Rightarrow> nat \<Rightarrow> stm \<Rightarrow> stm" where
  "page_wise_synchronize_object_now X me obj s =
     (let end_addr = obj + obj_size X s me obj; last_page = (end_addr - 1) div 4096
      in sync_pages me last_page [obj div 4096..<last_page + 1] obj end_addr s)"

definition has_private_page_in_range :: "stm \<Rightarrow> nat \<Rightarrow> nat \<Rightarrow> nat \<Rightarrow> bool" where
  "has_private_page_in_range s seg_num start sz =
     list_ex (is_private_page s seg_num) [start div 4096..<(start + sz) div 4096 + 1]"

text \<open>
  Copy the cards \<open>[start_card, next_card)\<close>; \<open>(base, itemsize)\<close> is the card layout.
\<close>

definition card_offset :: "nat \<times> nat \<Rightarrow> nat \<Rightarrow> nat" where
  "card_offset layout card_index = fst layout + get_card_index_to_index card_index * snd layout"

definition copy_cards :: "nat \<Rightarrow> nat \<Rightarrow> nat \<Rightarrow> nat \<times> nat \<Rightarrow> nat \<Rightarrow> nat \<Rightarrow> stm \<Rightarrow> stm" where
  "copy_cards myself obj sz layout start_card_index next_card_index s =
     (let start_card_offset = card_offset layout start_card_index;
          next_card_offset = card_offset layout next_card_index;
          next_card_offset = (if next_card_offset > sz then sz else next_card_offset);
          start = obj + start_card_offset;
          copy_size = next_card_offset - start_card_offset;
          s = memcpy 0 start myself start copy_size s
      in foreach_f segments (\<lambda>i s. if i = myself then s
           else if \<not> has_private_page_in_range s i start copy_size then s
           else memcpy i start myself start copy_size s) s)"

text \<open>
  The loop of \<open>_card_wise_synchronize_object_now\<close> over the cards still to look at;
  \<open>start\<close> is \<open>start_card_index\<close>, None for -1. The result says whether no card was
  marked.
\<close>

fun sync_cards :: "nat \<Rightarrow> nat \<Rightarrow> nat \<Rightarrow> nat \<times> nat \<Rightarrow> nat \<Rightarrow> nat list \<Rightarrow> nat option \<Rightarrow> bool \<Rightarrow> stm \<Rightarrow> bool \<times> stm" where
  "sync_cards myself obj sz layout last_card [] start all_cleared s = (all_cleared, s)"
| "sync_cards myself obj sz layout last_card (card_index # cards) start all_cleared s =
     (let card_lock_idx = get_write_lock_idx obj + card_index;
          card_value = write_locks s card_lock_idx;
          marked = (card_value = CARD_MARKED_OLD);
          s = (if marked then s\<lparr>write_locks := (write_locks s)(card_lock_idx := CARD_CLEAR)\<rparr> else s);
          all_cleared = (all_cleared \<and> \<not> (marked \<and> start = None));
          start = (if marked \<and> start = None then Some card_index else start)
      in case start of
           Some start_card \<Rightarrow>
             if \<not> marked \<or> card_index = last_card
             then sync_cards myself obj sz layout last_card cards None all_cleared
                    (copy_cards myself obj sz layout start_card
                       (if marked then card_index + 1 else card_index) s)
             else sync_cards myself obj sz layout last_card cards start all_cleared s
         | None \<Rightarrow> sync_cards myself obj sz layout last_card cards start all_cleared s)"

definition card_wise_synchronize_object_now :: "ext \<Rightarrow> nat \<Rightarrow> nat \<Rightarrow> stm \<Rightarrow> stm" where
  "card_wise_synchronize_object_now X me obj s =
     (let layout = stmcb_get_card_base_itemsize X (obj_bytes s me obj);
          sz = obj_size X s me obj;
          real_idx_count = (sz - fst layout) div snd layout;
          first_card_index = get_write_lock_idx obj;
          last_card = get_index_to_card_index (real_idx_count - 1)
      in if write_locks s (first_card_index + 1) = CARD_MARKED_OLD
            \<and> write_locks s (first_card_index + last_card) = CARD_MARKED_OLD
            \<and> write_locks s (first_card_index + (last_card div 2) + 1) = CARD_MARKED_OLD
         then page_wise_synchronize_object_now X me obj (reset_object_cards X me obj CARD_CLEAR False s)
         else let (all_cards_were_cleared, s) =
                    sync_cards me obj sz layout last_card [1..<last_card + 1] None True s
              in if all_cards_were_cleared then page_wise_synchronize_object_now X me obj s else s)"

text \<open>
  \<open>synchronize_object_now\<close>: the fast case for objects in small uniform pages is not
  written in the code, which stops the process there.
\<close>

definition synchronize_object_now :: "ext \<Rightarrow> nat \<Rightarrow> nat \<Rightarrow> bool \<Rightarrow> stm \<Rightarrow> (stm, unit) res" where
  "synchronize_object_now X me obj ignore_cards s =
     (if has_flag (stm_flags s me obj) GCFLAG_SMALL_UNIFORM then Fatal ''abort'' s
      else if ignore_cards \<or> \<not> obj_should_use_cards X s me obj
      then Ret () (page_wise_synchronize_object_now X me obj s)
      else Ret () (card_wise_synchronize_object_now X me obj s))"

text \<open>A loop over a list from the last item to the first, whose body can end the process.\<close>

fun foreach_res :: "'a list \<Rightarrow> ('a \<Rightarrow> 's \<Rightarrow> ('s, unit) res) \<Rightarrow> 's \<Rightarrow> ('s, unit) res" where
  "foreach_res [] f s = Ret () s"
| "foreach_res (x # xs) f s = bind_res (f x s) (\<lambda>_ s. foreach_res xs f s)"

definition push_overflow_objects_from_privatized_pages :: "ext \<Rightarrow> nat \<Rightarrow> stm \<Rightarrow> (stm, unit) res" where
  "push_overflow_objects_from_privatized_pages X me s =
     (case large_overflow_objects (segs s me) of
        None \<Rightarrow> Ret () s
      | Some lst \<Rightarrow> foreach_res (rev lst) (\<lambda>item. synchronize_object_now X me item True) s)"

definition push_modified_to_other_segments :: "ext \<Rightarrow> nat \<Rightarrow> stm \<Rightarrow> (stm, unit) res" where
  "push_modified_to_other_segments X me s =
     bind_res (foreach_res (rev (modified_old_objects (segs s me))) (\<lambda>item s.
         let lock_idx = item div 16 - WRITELOCK_START
         in synchronize_object_now X me item False (s\<lparr>write_locks := (write_locks s)(lock_idx := 0)\<rparr>)) s)
       (\<lambda>_ s. Ret () (upd_seg me (\<lambda>p. p\<lparr>modified_old_objects := [], modified_old_objects_markers := []\<rparr>) s))"

text \<open>\<open>copy_object_to_shared\<close>, used by the major collection before pages are shared again.\<close>

fun copy_pages_to_shared :: "nat \<Rightarrow> nat \<Rightarrow> nat list \<Rightarrow> nat \<Rightarrow> nat \<Rightarrow> stm \<Rightarrow> stm" where
  "copy_pages_to_shared source last_page [] start end_addr s = s"
| "copy_pages_to_shared source last_page (page # pages) start end_addr s =
     copy_pages_to_shared source last_page pages (next_page_start start) end_addr
       (if is_private_page s source page
        then copy_fragment 0 source start (page_fragment page last_page start end_addr) s else s)"

definition copy_object_to_shared :: "ext \<Rightarrow> nat \<Rightarrow> nat \<Rightarrow> stm \<Rightarrow> (stm, unit) res" where
  "copy_object_to_shared X obj source s =
     (if has_flag (stm_flags s source obj) GCFLAG_SMALL_UNIFORM then Fatal ''abort'' s
      else let end_addr = obj + obj_size X s source obj; last_page = (end_addr - 1) div 4096
           in Ret () (copy_pages_to_shared source last_page [obj div 4096..<last_page + 1] obj end_addr s))"

section \<open>Publishing\<close>

text \<open>
  \<open>published s me R s'\<close>: in \<open>s'\<close> every segment sees in \<open>R\<close> what segment \<open>me\<close> saw
  there in \<open>s\<close>, and everything else as before; the mapping has not changed.
\<close>

definition published :: "stm \<Rightarrow> nat \<Rightarrow> nat set \<Rightarrow> stm \<Rightarrow> bool" where
  "published s me R s' \<longleftrightarrow> remap s' = remap s \<and> by_segment s' = by_segment s \<and>
     (\<forall>g x. g \<le> 4 \<longrightarrow> vread s' g x = (if x \<in> R then vread s me x else vread s g x))"

lemma publishedD:
  "published s me R s' \<Longrightarrow> g \<le> 4 \<Longrightarrow> vread s' g x = (if x \<in> R then vread s me x else vread s g x)"
  by (simp add: published_def)

lemma published_refl: "published s me {} s"
  by (simp add: published_def)

lemma published_trans:
  "published s me R s' \<Longrightarrow> published s' me R' s'' \<Longrightarrow> me \<le> 4 \<Longrightarrow> published s me (R \<union> R') s''"
  by (auto simp: published_def)

lemma published_mapped: "published s me R s' \<Longrightarrow> mapped_ok s' = mapped_ok s"
  by (intro mapped_ok_cong) (simp_all add: published_def)

lemma published_private: "published s me R s' \<Longrightarrow> is_private_page s' = is_private_page s"
  by (intro bits_cong) (simp add: published_def)

lemma memcpy_frame [simp]:
  "segs (memcpy g a g' b n s) = segs s" "remap (memcpy g a g' b n s) = remap s"
  "by_segment (memcpy g a g' b n s) = by_segment s" "write_locks (memcpy g a g' b n s) = write_locks s"
  "rm (memcpy g a g' b n s) = rm s" "tls (memcpy g a g' b n s) = tls s" "lm (memcpy g a g' b n s) = lm s"
  "events (memcpy g a g' b n s) = events s" "in_use1 (memcpy g a g' b n s) = in_use1 s"
  "pause_signalled (memcpy g a g' b n s) = pause_signalled s"
  "is_private_page (memcpy g a g' b n s) = is_private_page s"
  "mapped_ok (memcpy g a g' b n s) = mapped_ok s"
  by (simp_all add: memcpy_def)

lemma vread_memcpy_same:
  "vread (memcpy i a me a n s) g x =
    (if a \<le> x \<and> x < a + n \<and> remap s i (x div 4096) = remap s g (x div 4096) then vread s me x else vread s g x)"
  by (simp add: memcpy_def vread_vfill)

lemma copy_fragment_memcpy: "copy_fragment dst src start n s = memcpy dst start src start n s"
  by (simp add: copy_fragment_def pagecopy_def)

text \<open>Copying one range from \<open>me\<close> to several segments, in any order.\<close>

lemma fold_memcpy:
  assumes C: "\<And>s i j. C (memcpy j a me a n s) i = C s i"
  shows "remap (fold (\<lambda>i s. if C s i then memcpy i a me a n s else s) js s) = remap s \<and>
    by_segment (fold (\<lambda>i s. if C s i then memcpy i a me a n s else s) js s) = by_segment s \<and>
    vread (fold (\<lambda>i s. if C s i then memcpy i a me a n s else s) js s) g x =
      (if a \<le> x \<and> x < a + n \<and> (\<exists>i \<in> set js. C s i \<and> remap s i (x div 4096) = remap s g (x div 4096))
       then vread s me x else vread s g x)"
proof (induction js arbitrary: s g x)
  case Nil
  then show ?case by simp
next
  case (Cons j js)
  show ?case
  proof (cases "C s j")
    case True
    let ?s = "memcpy j a me a n s"
    have me: "vread ?s me x = vread s me x" by (simp add: vread_memcpy_same)
    show ?thesis using Cons [of ?s g x] True
      by (simp add: C me) (auto simp: vread_memcpy_same)
  next
    case False
    then show ?thesis using Cons [of s g x] by auto
  qed
qed

lemma fold_memcpy_published:
  assumes C: "\<And>s i j. C (memcpy j a me a n s) i = C s i"
    and cover: "\<And>g x. g \<le> 4 \<Longrightarrow> a \<le> x \<Longrightarrow> x < a + n \<Longrightarrow> remap s g (x div 4096) \<noteq> remap s me (x div 4096) \<Longrightarrow>
      \<exists>i \<in> set js. C s i \<and> remap s i (x div 4096) = remap s g (x div 4096)"
  shows "published s me {a..<a + n} (fold (\<lambda>i s. if C s i then memcpy i a me a n s else s) js s)"
proof -
  have same: "vread s g x = vread s me x" if "remap s g (x div 4096) = remap s me (x div 4096)" for g x
    using that by (simp add: vread_def)
  show ?thesis unfolding published_def
  proof (intro conjI allI impI)
    fix g x :: nat
    assume g: "g \<le> 4"
    let ?s = "fold (\<lambda>i s. if C s i then memcpy i a me a n s else s) js s"
    have v: "vread ?s g x =
      (if a \<le> x \<and> x < a + n \<and> (\<exists>i \<in> set js. C s i \<and> remap s i (x div 4096) = remap s g (x div 4096))
       then vread s me x else vread s g x)"
      using fold_memcpy [of C a me n, OF C, of js s g x] by blast
    show "vread ?s g x = (if x \<in> {a..<a + n} then vread s me x else vread s g x)"
      unfolding v using cover [OF g, of x] same [of g x] by auto
  qed (use fold_memcpy [of C a me n, OF C, of js s] in auto)
qed

lemma cover_private:
  assumes "mapped_ok s p" and "g \<le> 4" and "me \<in> {1..4}" and "remap s g p \<noteq> remap s me p"
  shows "(g \<noteq> me \<and> g \<in> {1..4} \<and> is_private_page s g p) \<or> (remap s g p = 0 \<and> is_private_page s me p)"
proof (cases "g = 0")
  case True
  then show ?thesis using assms mappedD [OF assms(1,3)] by (auto simp: mapped_ok_def split: if_splits)
next
  case False
  then have g: "g \<in> {1..4}" using assms(2) by simp
  then show ?thesis using assms(4) mappedD [OF assms(1) g] mappedD [OF assms(1,3)]
    by (auto split: if_splits)
qed

lemma sync_page_published:
  assumes ok: "mapped_ok s page" and me: "me \<in> {1..4}"
    and range: "start div 4096 = page" "(start + n - 1) div 4096 = page" "0 < n"
  shows "published s me {start..<start + n} (sync_page me page start n s)"
proof -
  have pg: "x div 4096 = page" if "start \<le> x" "x < start + n" for x
  proof -
    have "start div 4096 \<le> x div 4096" "x div 4096 \<le> (start + n - 1) div 4096"
      using that by (intro div_le_mono; simp)+
    with range show ?thesis by simp
  qed
  let ?C = "\<lambda>s i. if i = 0 then is_private_page s me page else i \<noteq> me \<and> is_private_page s i page"
  have eq: "sync_page me page start n s =
      fold (\<lambda>i s. if ?C s i then memcpy i start me start n s else s) (0 # segments) s"
  proof -
    have "fold (\<lambda>i s. if i = me then s else if is_private_page s i page then memcpy i start me start n s else s) segments s'
       = fold (\<lambda>i s. if ?C s i then memcpy i start me start n s else s) segments s'" for s'
      by (rule fold_cong) (auto simp: segments_eq fun_eq_iff)
    then show ?thesis unfolding sync_page_def foreach_f_def copy_fragment_memcpy Let_def by simp
  qed
  show ?thesis unfolding eq
  proof (rule fold_memcpy_published)
    fix g x :: nat
    assume g: "g \<le> 4" and x: "start \<le> x" "x < start + n"
      and ne: "remap s g (x div 4096) \<noteq> remap s me (x div 4096)"
    from cover_private [OF ok g me] ne pg [OF x]
    consider "g \<noteq> me" "g \<in> {1..4}" "is_private_page s g page" | "remap s g page = 0" "is_private_page s me page"
      by auto
    then show "\<exists>i \<in> set (0 # segments). ?C s i \<and> remap s i (x div 4096) = remap s g (x div 4096)"
    proof cases
      case 1
      then show ?thesis by (intro bexI [of _ g]) (auto simp: set_segments)
    next
      case 2
      then show ?thesis using mapped0 [OF ok] pg [OF x] by (intro bexI [of _ 0]) auto
    qed
  qed simp
qed

lemma round_up: "a = q * 4096 + r \<Longrightarrow> r < 4096 \<Longrightarrow> a + (4096 - r) = (q + 1) * (4096 :: nat)"
  by simp

lemma sync_pages_published:
  assumes me: "me \<in> {1..4}"
  shows "pages = [start div 4096..<last_page + 1] \<Longrightarrow> start < end_addr \<Longrightarrow> (end_addr - 1) div 4096 = last_page \<Longrightarrow>
    (\<forall>p \<in> set pages. mapped_ok s p) \<Longrightarrow>
    published s me {start..<end_addr} (sync_pages me last_page pages start end_addr s)"
proof (induction pages arbitrary: start s)
  case Nil
  have "start div 4096 \<le> (end_addr - 1) div 4096" using Nil(2) by (intro div_le_mono) simp
  then show ?case using Nil by simp
next
  case (Cons page pages)
  have page: "page = start div 4096" and pages: "pages = [Suc (start div 4096)..<last_page + 1]"
    and le: "start div 4096 \<le> last_page"
    using Cons.prems(1) [symmetric] unfolding upt_eq_Cons_conv by (auto simp del: upt_Suc)
  let ?n = "page_fragment page last_page start end_addr"
  let ?s = "sync_page me page start ?n s"
  let ?st = "next_page_start start"
  have ok: "mapped_ok s page" using Cons.prems(4) by simp
  have st: "?st = (start div 4096 + 1) * 4096"
  proof -
    have "(start + 4096) div 4096 = start div 4096 + 1" by (rule div_add_self2) simp
    then show ?thesis by (simp only: next_page_start_def)
  qed
  have dm: "start = start div 4096 * 4096 + start mod 4096" by simp
  show ?case
  proof (cases "page = last_page")
    case True
    have n: "start + ?n = end_addr" "0 < ?n" using True Cons.prems(2) by (simp_all add: page_fragment_def)
    have "pages = []" using pages True page by simp
    moreover have "published s me {start..<start + ?n} ?s"
      using n Cons.prems(3) page True by (intro sync_page_published [OF ok me]) auto
    ultimately show ?thesis using n(1) by simp
  next
    case False
    then have lt: "start div 4096 < last_page" using le page by simp
    have m: "start mod 4096 < 4096" by simp
    have n: "start + ?n = ?st" "0 < ?n"
      unfolding page_fragment_def st if_not_P [OF False] using round_up [OF dm m] m by simp_all
    have "(?st - 1) div 4096 = page" using page unfolding st by (intro div_nat_eqI) auto
    then have pub: "published s me {start..<?st} ?s"
      using sync_page_published [OF ok me, of start ?n] n page by simp
    have "last_page * 4096 \<le> end_addr - 1" using Cons.prems(3) by (metis div_times_less_eq_dividend)
    moreover have "(start div 4096 + 1) * 4096 \<le> last_page * 4096" using lt by (intro mult_le_mono1) simp
    ultimately have lte: "?st < end_addr" using Cons.prems(2) by (simp add: st)
    have "published ?s me {?st..<end_addr} (sync_pages me last_page pages ?st end_addr ?s)"
    proof (rule Cons.IH)
      show "pages = [?st div 4096..<last_page + 1]" by (simp add: st pages)
      show "\<forall>p \<in> set pages. mapped_ok ?s p" using Cons.prems(4) published_mapped [OF pub] by simp
    qed (use lte Cons.prems(3) in auto)
    from published_trans [OF pub this] me have
      "published s me ({start..<?st} \<union> {?st..<end_addr}) (sync_pages me last_page pages ?st end_addr ?s)" by simp
    moreover have "{start..<?st} \<union> {?st..<end_addr} = {start..<end_addr}" using n lte by auto
    ultimately show ?thesis by simp
  qed
qed

text \<open>The pages of an object are mapped as their bits say.\<close>

definition obj_mapped :: "ext \<Rightarrow> stm \<Rightarrow> nat \<Rightarrow> nat \<Rightarrow> bool" where
  "obj_mapped X s g obj \<longleftrightarrow>
     (\<forall>p. obj div 4096 \<le> p \<longrightarrow> p \<le> (obj + obj_size X s g obj - 1) div 4096 \<longrightarrow> mapped_ok s p)"

lemma obj_mappedD:
  "obj_mapped X s g obj \<Longrightarrow> obj \<le> a \<Longrightarrow> a < obj + obj_size X s g obj \<Longrightarrow> mapped_ok s (a div 4096)"
  unfolding obj_mapped_def by (simp add: div_le_mono)

lemma page_wise_published:
  assumes me: "me \<in> {1..4}" and X: "cb_ok X" and ok: "obj_mapped X s me obj"
  shows "published s me {obj..<obj + obj_size X s me obj} (page_wise_synchronize_object_now X me obj s)"
proof -
  let ?stop = "obj + obj_size X s me obj"
  have pos: "obj < ?stop" using cb_ok_size [OF X, of "obj_bytes s me obj"] by (simp add: obj_size_def)
  have "\<forall>p \<in> set [obj div 4096..<(?stop - 1) div 4096 + 1]. mapped_ok s p"
    using ok by (auto simp: obj_mapped_def)
  then show ?thesis
    unfolding page_wise_synchronize_object_now_def Let_def
    using pos by (intro sync_pages_published [OF me]) auto
qed

section \<open>Publishing cards\<close>

lemma no_private_in_range:
  assumes "\<not> has_private_page_in_range s i start n" and "start \<le> x" and "x < start + n"
  shows "\<not> is_private_page s i (x div 4096)"
proof -
  have "start div 4096 \<le> x div 4096" "x div 4096 \<le> (start + n) div 4096"
    using assms(2,3) by (intro div_le_mono; simp)+
  then show ?thesis using assms(1) by (auto simp: has_private_page_in_range_def list_ex_iff)
qed

lemma copy_cards_published:
  assumes me: "me \<in> {1..4}"
    and range: "a = obj + card_offset layout c" "a + n = obj + min sz (card_offset layout d)"
    and ok: "\<And>x. a \<le> x \<Longrightarrow> x < a + n \<Longrightarrow> mapped_ok s (x div 4096)"
  shows "published s me {a..<a + n} (copy_cards me obj sz layout c d s)"
proof -
  let ?C = "\<lambda>s i. i = 0 \<or> i \<noteq> me \<and> has_private_page_in_range s i a n"
  have hp: "has_private_page_in_range s' i a n = has_private_page_in_range s'' i a n"
    if "by_segment s' = by_segment s''" for s' s'' i
    using bits_cong [OF that] by (simp add: has_private_page_in_range_def)
  have n: "min sz (card_offset layout d) - card_offset layout c = n" using range by simp
  have mn: "(if v < u then v else u) = min v u" for u v :: nat by (simp add: min_def)
  have eq: "copy_cards me obj sz layout c d s =
      fold (\<lambda>i s. if ?C s i then memcpy i a me a n s else s) (0 # segments) s"
  proof -
    have "fold (\<lambda>i s. if i = me then s else if \<not> has_private_page_in_range s i a n then s else memcpy i a me a n s) segments s'
       = fold (\<lambda>i s. if ?C s i then memcpy i a me a n s else s) segments s'" for s'
      by (rule fold_cong) (auto simp: segments_eq fun_eq_iff)
    then show ?thesis unfolding copy_cards_def Let_def foreach_f_def mn n range(1) [symmetric]
      by simp
  qed
  show ?thesis unfolding eq
  proof (rule fold_memcpy_published)
    fix g x :: nat
    assume g: "g \<le> 4" and x: "a \<le> x" "x < a + n"
      and ne: "remap s g (x div 4096) \<noteq> remap s me (x div 4096)"
    from cover_private [OF ok [OF x] g me ne]
    consider "g \<noteq> me" "g \<in> {1..4}" "is_private_page s g (x div 4096)" | "remap s g (x div 4096) = 0"
      by auto
    then show "\<exists>i \<in> set (0 # segments). ?C s i \<and> remap s i (x div 4096) = remap s g (x div 4096)"
    proof cases
      case 1
      then show ?thesis using no_private_in_range [OF _ x] by (intro bexI [of _ g]) (auto simp: set_segments)
    next
      case 2
      then show ?thesis using mapped0 [OF ok [OF x]] by (intro bexI [of _ 0]) auto
    qed
  qed (simp add: hp [of "memcpy _ _ _ _ _ _"])
qed

lemma published_wl [simp]:
  "published (s\<lparr>write_locks := w\<rparr>) me R s' = published s me R s'"
  "published s me R (s'\<lparr>write_locks := w\<rparr>) = published s me R s'"
  by (simp_all add: published_def)

lemma fold_write_locks:
  "(\<And>i s. write_locks (f i s) = write_locks s) \<Longrightarrow> write_locks (fold f xs s) = write_locks s"
  by (rule fold_frame)

lemma copy_cards_write_locks [simp]: "write_locks (copy_cards me obj sz layout c d s) = write_locks s"
  unfolding copy_cards_def Let_def foreach_f_def
  by (subst fold_frame [where g = write_locks]) (auto split: if_splits)

abbreviation marked_at :: "stm \<Rightarrow> nat \<Rightarrow> nat \<Rightarrow> bool" where
  "marked_at s obj c \<equiv> write_locks s (get_write_lock_idx obj + c) = CARD_MARKED_OLD"

text \<open>The bytes of the cards from \<open>c\<close> up to, but without, \<open>d\<close>.\<close>

definition card_bytes :: "nat \<Rightarrow> nat \<Rightarrow> nat \<times> nat \<Rightarrow> nat \<Rightarrow> nat \<Rightarrow> nat set" where
  "card_bytes obj sz layout c d = {obj + card_offset layout c ..< obj + min sz (card_offset layout d)}"

lemma card_offset_mono: "c \<le> d \<Longrightarrow> card_offset layout c \<le> card_offset layout d"
  by (auto simp: card_offset_def get_card_index_to_index_def intro!: mult_le_mono)

lemma card_bytes_join:
  "c \<le> d \<Longrightarrow> d \<le> e \<Longrightarrow> card_offset layout d \<le> sz \<Longrightarrow>
   card_bytes obj sz layout c d \<union> card_bytes obj sz layout d e = card_bytes obj sz layout c e"
  using card_offset_mono [of c d layout] card_offset_mono [of d e layout]
  by (auto simp: card_bytes_def)

lemma card_bytes_in: "x \<in> card_bytes obj sz layout c d \<Longrightarrow> obj \<le> x \<and> x < obj + sz"
  by (auto simp: card_bytes_def)

text \<open>What remains to be copied when the loop is at card \<open>k\<close>.\<close>

definition pending_bytes :: "stm \<Rightarrow> nat \<Rightarrow> nat \<Rightarrow> nat \<times> nat \<Rightarrow> nat \<Rightarrow> nat option \<Rightarrow> nat \<Rightarrow> nat set" where
  "pending_bytes s obj sz layout last_card start k =
     (case start of None \<Rightarrow> {} | Some j \<Rightarrow> card_bytes obj sz layout j k) \<union>
     (\<Union>c \<in> {c. k \<le> c \<and> c \<le> last_card \<and> marked_at s obj c}. card_bytes obj sz layout c (c + 1))"

lemma pending_step:
  assumes "k \<le> last_card"
  shows "pending_bytes s obj sz layout last_card start k =
    (case start of None \<Rightarrow> {} | Some j \<Rightarrow> card_bytes obj sz layout j k) \<union>
    (if marked_at s obj k then card_bytes obj sz layout k (k + 1) else {}) \<union>
    pending_bytes s obj sz layout last_card None (k + 1)"
proof -
  have "{c. k \<le> c \<and> c \<le> last_card \<and> marked_at s obj c} =
    (if marked_at s obj k then {k} else {}) \<union> {c. k + 1 \<le> c \<and> c \<le> last_card \<and> marked_at s obj c}"
    using assms by (auto simp: le_less)
  then show ?thesis by (simp add: pending_bytes_def Un_assoc UN_Un)
qed

lemma pending_cong:
  "(\<And>c. k \<le> c \<Longrightarrow> c \<le> last_card \<Longrightarrow> marked_at s obj c = marked_at s' obj c) \<Longrightarrow>
   pending_bytes s obj sz layout last_card start k = pending_bytes s' obj sz layout last_card start k"
  unfolding pending_bytes_def by (intro arg_cong2 [where f = "(\<union>)"] refl SUP_cong) auto

lemma copy_cards_card_bytes:
  assumes me: "me \<in> {1..4}" and ok: "\<And>x. obj \<le> x \<Longrightarrow> x < obj + sz \<Longrightarrow> mapped_ok s (x div 4096)"
    and le: "c \<le> d" "card_offset layout c \<le> sz"
  shows "published s me (card_bytes obj sz layout c d) (copy_cards me obj sz layout c d s)"
proof -
  let ?a = "obj + card_offset layout c"
  let ?n = "min sz (card_offset layout d) - card_offset layout c"
  have an: "?a + ?n = obj + min sz (card_offset layout d)"
    using le card_offset_mono [OF le(1), of layout] by simp
  have "published s me {?a..<?a + ?n} (copy_cards me obj sz layout c d s)"
    by (rule copy_cards_published [OF me refl an]) (use ok an in auto)
  then show ?thesis using an by (simp add: card_bytes_def)
qed

lemma sync_cards_spec:
  assumes me: "me \<in> {1..4}" and off: "\<And>c. c \<le> last_card \<Longrightarrow> card_offset layout c \<le> sz"
  shows "cards = [k..<last_card + 1] \<Longrightarrow> (\<And>j. start = Some j \<Longrightarrow> j < k \<and> k \<le> last_card \<and> \<not> all_cleared) \<Longrightarrow>
    (\<And>x. obj \<le> x \<Longrightarrow> x < obj + sz \<Longrightarrow> mapped_ok s (x div 4096)) \<Longrightarrow>
    sync_cards me obj sz layout last_card cards start all_cleared s = (b, s') \<Longrightarrow>
    published s me (pending_bytes s obj sz layout last_card start k) s' \<and>
    write_locks s' = (\<lambda>i. if (\<exists>c. k \<le> c \<and> c \<le> last_card \<and> i = get_write_lock_idx obj + c) \<and> write_locks s i = CARD_MARKED_OLD
        then CARD_CLEAR else write_locks s i) \<and>
    (b \<longleftrightarrow> all_cleared \<and> (\<forall>c. k \<le> c \<longrightarrow> c \<le> last_card \<longrightarrow> \<not> marked_at s obj c))"
proof (induction cards arbitrary: k start all_cleared s b s')
  case Nil
  have k: "last_card < k" using Nil.prems(1) [symmetric] unfolding upt_eq_Nil_conv by simp
  then have "start = None" using Nil.prems(2) by (cases start) force+
  moreover from k have "{c. k \<le> c \<and> c \<le> last_card \<and> marked_at s obj c} = {}"
    "\<And>i. \<not> (\<exists>c. k \<le> c \<and> c \<le> last_card \<and> i = get_write_lock_idx obj + c)" by auto
  ultimately show ?case using k Nil.prems(4)
    by (simp add: pending_bytes_def published_refl del: Collect_empty_eq) (auto simp: fun_eq_iff)
next
  case (Cons ci cards)
  have ci: "ci = k" and cards: "cards = [k + 1..<last_card + 1]" and kl: "k \<le> last_card"
    using Cons.prems(1) [symmetric] unfolding upt_eq_Cons_conv by (auto simp del: upt_Suc)
  let ?i = "get_write_lock_idx obj + k"
  define m where "m = marked_at s obj k"
  define s1 where "s1 = (if m then s\<lparr>write_locks := (write_locks s)(?i := CARD_CLEAR)\<rparr> else s)"
  define ac where "ac = (all_cleared \<and> \<not> (m \<and> start = None))"
  define st where "st = (if m \<and> start = None then Some k else start)"
  have run: "(b, s') = (case st of
           Some start_card \<Rightarrow>
             if \<not> m \<or> k = last_card
             then sync_cards me obj sz layout last_card cards None ac
                    (copy_cards me obj sz layout start_card (if m then k + 1 else k) s1)
             else sync_cards me obj sz layout last_card cards st ac s1
         | None \<Rightarrow> sync_cards me obj sz layout last_card cards st ac s1)"
    using Cons.prems(4) unfolding sync_cards.simps Let_def ci m_def s1_def ac_def st_def
    by (simp split: option.split)
  have ne: "CARD_CLEAR \<noteq> CARD_MARKED_OLD" by (simp add: card_consts)
  have s1: "published s me R t = published s1 me R t" "mapped_ok s1 = mapped_ok s"
    "c \<noteq> k \<Longrightarrow> marked_at s1 obj c = marked_at s obj c" "\<not> marked_at s1 obj k" for R t c
    unfolding s1_def using ne by (auto simp: m_def)
  have wl1: "write_locks s1 = (\<lambda>i. if i = ?i \<and> write_locks s i = CARD_MARKED_OLD then CARD_CLEAR else write_locks s i)"
    unfolding s1_def m_def by (auto simp: fun_eq_iff)
  have rest: "pending_bytes t obj sz layout last_card None (k + 1) = pending_bytes s obj sz layout last_card None (k + 1)"
    if "write_locks t = write_locks s1" for t
    using that s1(3) by (intro pending_cong) auto
  have wl_join: "(\<lambda>i. if (\<exists>c. k + 1 \<le> c \<and> c \<le> last_card \<and> i = get_write_lock_idx obj + c) \<and> write_locks s1 i = CARD_MARKED_OLD
        then CARD_CLEAR else write_locks s1 i)
     = (\<lambda>i. if (\<exists>c. k \<le> c \<and> c \<le> last_card \<and> i = get_write_lock_idx obj + c) \<and> write_locks s i = CARD_MARKED_OLD
        then CARD_CLEAR else write_locks s i)"
  proof -
    have kc: "k \<le> c \<longleftrightarrow> c = k \<or> k + 1 \<le> c" for c by auto
    have "(\<exists>c. k \<le> c \<and> c \<le> last_card \<and> i = get_write_lock_idx obj + c) \<longleftrightarrow>
        i = ?i \<or> (\<exists>c. k + 1 \<le> c \<and> c \<le> last_card \<and> i = get_write_lock_idx obj + c)" for i
      unfolding kc using kl by auto
    then show ?thesis unfolding wl1 fun_eq_iff using ne by auto
  qed
  have b_join: "(ac \<and> (\<forall>c. k + 1 \<le> c \<longrightarrow> c \<le> last_card \<longrightarrow> \<not> marked_at s1 obj c)) \<longleftrightarrow>
      (all_cleared \<and> (\<forall>c. k \<le> c \<longrightarrow> c \<le> last_card \<longrightarrow> \<not> marked_at s obj c))"
  proof -
    have "(\<forall>c. k \<le> c \<longrightarrow> c \<le> last_card \<longrightarrow> \<not> marked_at s obj c) \<longleftrightarrow>
        \<not> m \<and> (\<forall>c. k + 1 \<le> c \<longrightarrow> c \<le> last_card \<longrightarrow> \<not> marked_at s1 obj c)"
    proof -
      have kc: "k \<le> c \<longleftrightarrow> c = k \<or> k + 1 \<le> c" for c by auto
      have "(\<forall>c. k + 1 \<le> c \<longrightarrow> c \<le> last_card \<longrightarrow> \<not> marked_at s1 obj c) \<longleftrightarrow>
          (\<forall>c. k + 1 \<le> c \<longrightarrow> c \<le> last_card \<longrightarrow> \<not> marked_at s obj c)" using s1(3) by auto
      then show ?thesis unfolding m_def kc using kl by blast
    qed
    moreover have "start \<noteq> None \<Longrightarrow> \<not> all_cleared" using Cons.prems(2) by auto
    ultimately show ?thesis by (auto simp: ac_def)
  qed
  show ?case
  proof (cases st)
    case None
    then have m: "\<not> m" and start: "start = None" by (auto simp: st_def split: if_splits)
    have run': "sync_cards me obj sz layout last_card cards None ac s1 = (b, s')" using run None by simp
    have IH: "published s1 me (pending_bytes s1 obj sz layout last_card None (k + 1)) s' \<and>
      write_locks s' = (\<lambda>i. if (\<exists>c. k + 1 \<le> c \<and> c \<le> last_card \<and> i = get_write_lock_idx obj + c) \<and> write_locks s1 i = CARD_MARKED_OLD
        then CARD_CLEAR else write_locks s1 i) \<and>
      (b \<longleftrightarrow> ac \<and> (\<forall>c. k + 1 \<le> c \<longrightarrow> c \<le> last_card \<longrightarrow> \<not> marked_at s1 obj c))"
      by (rule Cons.IH [OF cards _ _ run']) (use s1(2) Cons.prems(3) in auto)
    have "pending_bytes s1 obj sz layout last_card None (k + 1) = pending_bytes s obj sz layout last_card start k"
      unfolding pending_step [OF kl, of s] rest [OF refl] using m start by (simp add: m_def)
    with IH [unfolded wl_join b_join] show ?thesis unfolding s1(1) by simp
  next
    case (Some j)
    have j: "j \<le> k" "m \<Longrightarrow> start = None \<Longrightarrow> j = k" "start = None \<Longrightarrow> m" "start \<noteq> None \<Longrightarrow> start = Some j \<and> j < k"
      using Some Cons.prems(2) by (auto simp: st_def split: if_splits)
    have nac: "\<not> ac" using Some Cons.prems(2) by (auto simp: ac_def st_def split: if_splits)
    let ?e = "if m then k + 1 else k"
    have pend: "(case start of None \<Rightarrow> {} | Some j \<Rightarrow> card_bytes obj sz layout j k) \<union>
        (if marked_at s obj k then card_bytes obj sz layout k (k + 1) else {}) = card_bytes obj sz layout j ?e"
    proof (cases start)
      case None
      then show ?thesis using j by (auto simp: m_def)
    next
      case (Some j')
      then have "start = Some j" using j by auto
      then show ?thesis using card_bytes_join [of j k "k + 1" layout sz obj] j(1) off [OF kl]
        by (auto simp: m_def)
    qed
    show ?thesis
    proof (cases "\<not> m \<or> k = last_card")
      case True
      let ?s = "copy_cards me obj sz layout j ?e s1"
      have run': "sync_cards me obj sz layout last_card cards None ac ?s = (b, s')" using run Some True by simp
      have pub: "published s1 me (card_bytes obj sz layout j ?e) ?s"
        using j(1) kl Cons.prems(3) s1(2) by (intro copy_cards_card_bytes [OF me _ _ off]) auto
      have IH: "published ?s me (pending_bytes ?s obj sz layout last_card None (k + 1)) s' \<and>
        write_locks s' = (\<lambda>i. if (\<exists>c. k + 1 \<le> c \<and> c \<le> last_card \<and> i = get_write_lock_idx obj + c) \<and> write_locks ?s i = CARD_MARKED_OLD
          then CARD_CLEAR else write_locks ?s i) \<and>
        (b \<longleftrightarrow> ac \<and> (\<forall>c. k + 1 \<le> c \<longrightarrow> c \<le> last_card \<longrightarrow> \<not> marked_at ?s obj c))"
        by (rule Cons.IH [OF cards _ _ run']) (use s1(2) Cons.prems(3) published_mapped [OF pub] in auto)
      have "published s1 me (card_bytes obj sz layout j ?e \<union> pending_bytes ?s obj sz layout last_card None (k + 1)) s'"
        using published_trans [OF pub conjunct1 [OF IH]] me by simp
      then have "published s1 me (pending_bytes s obj sz layout last_card start k) s'"
        unfolding pending_step [OF kl, of s] pend [symmetric] using rest [of ?s] by simp
      moreover note IH [unfolded copy_cards_write_locks wl_join b_join]
      ultimately show ?thesis unfolding s1(1) by blast
    next
      case False
      then have m: "m" and lt: "k + 1 \<le> last_card" using kl by auto
      have run': "sync_cards me obj sz layout last_card cards (Some j) ac s1 = (b, s')" using run Some False by simp
      have IH: "published s1 me (pending_bytes s1 obj sz layout last_card (Some j) (k + 1)) s' \<and>
        write_locks s' = (\<lambda>i. if (\<exists>c. k + 1 \<le> c \<and> c \<le> last_card \<and> i = get_write_lock_idx obj + c) \<and> write_locks s1 i = CARD_MARKED_OLD
          then CARD_CLEAR else write_locks s1 i) \<and>
        (b \<longleftrightarrow> ac \<and> (\<forall>c. k + 1 \<le> c \<longrightarrow> c \<le> last_card \<longrightarrow> \<not> marked_at s1 obj c))"
        by (rule Cons.IH [OF cards _ _ run']) (use s1(2) Cons.prems(3) j(1) lt nac in auto)
      have "pending_bytes s1 obj sz layout last_card (Some j) (k + 1) =
          card_bytes obj sz layout j (k + 1) \<union> pending_bytes s1 obj sz layout last_card None (k + 1)"
        by (simp add: pending_bytes_def)
      also have "\<dots> = pending_bytes s obj sz layout last_card start k"
        unfolding pending_step [OF kl, of s] pend rest [OF refl] using m by simp
      finally show ?thesis using IH [unfolded wl_join b_join] unfolding s1(1) by simp
    qed
  qed
qed

section \<open>Publishing one object\<close>

lemma and_not_absent: "\<not> has_flag v f \<Longrightarrow> v AND NOT f = v"
proof -
  assume "\<not> has_flag v f"
  then have z: "v AND f = 0" by (simp add: has_flag_def)
  show ?thesis
  proof (rule bit_word_eqI)
    fix n
    have "\<not> bit (v AND f) n" unfolding z by simp
    then show "n < LENGTH(32) \<Longrightarrow> bit (v AND NOT f) n = bit v n"
      by (auto simp: bit_and_iff bit_not_iff)
  qed
qed

lemma set_same_flags: "vread (set_stm_flags g obj (stm_flags s g obj) s) g' x = vread s g' x"
proof (cases "obj \<le> x \<and> x < obj + 4 \<and> remap s g (x div 4096) = remap s g' (x div 4096)")
  case True
  then have x: "x - obj < 4" "obj + (x - obj) = x" by auto
  have "byte_of32 (stm_flags s g obj) (x - obj) = vread s g x"
    using byte_of32_load32 [OF x(1), of "vread s g" obj] x(2) by (simp add: stm_flags_def vload32_def)
  moreover have "vread s g x = vread s g' x" using True by (simp add: vread_def)
  ultimately show ?thesis unfolding vread_set_stm_flags if_P [OF True] by simp
next
  case False
  then show ?thesis unfolding vread_set_stm_flags by (rule if_not_P)
qed

lemma reset_cards_same_memory:
  assumes "\<not> has_flag (stm_flags s g obj) GCFLAG_CARDS_SET"
  shows "vread (reset_object_cards X g obj v a s) g' x = vread s g' x"
  using set_same_flags [of g obj s g' x] assms
  by (auto simp: vread_reset_object_cards vread_set_stm_flags and_not_absent split: if_splits)

lemma published_same_view:
  assumes "published s me R s'" and "\<And>g x. vread t g x = vread s g x" and "remap t = remap s"
    and "by_segment t = by_segment s"
  shows "published t me R s'"
  using assms by (simp add: published_def)

text \<open>The bytes of the marked cards of an object.\<close>

definition marked_bytes :: "ext \<Rightarrow> stm \<Rightarrow> nat \<Rightarrow> nat \<Rightarrow> nat set" where
  "marked_bytes X s me obj =
     (\<Union>c \<in> {c. 1 \<le> c \<and> c \<le> last_card_index X s me obj \<and> marked_at s obj c}.
        card_bytes obj (obj_size X s me obj) (stmcb_get_card_base_itemsize X (obj_bytes s me obj)) c (c + 1))"

definition no_card_marked :: "ext \<Rightarrow> stm \<Rightarrow> nat \<Rightarrow> nat \<Rightarrow> bool" where
  "no_card_marked X s me obj \<longleftrightarrow> (\<forall>c. 1 \<le> c \<longrightarrow> c \<le> last_card_index X s me obj \<longrightarrow> \<not> marked_at s obj c)"

text \<open>The heuristic by which the code decides to copy the whole object: three cards are marked.\<close>

definition seems_all_marked :: "ext \<Rightarrow> stm \<Rightarrow> nat \<Rightarrow> nat \<Rightarrow> bool" where
  "seems_all_marked X s me obj \<longleftrightarrow> marked_at s obj 1 \<and> marked_at s obj (last_card_index X s me obj) \<and>
     marked_at s obj (last_card_index X s me obj div 2 + 1)"

lemma last_card_offset:
  assumes X: "cb_ok X" and sup: "stmcb_obj_supports_cards X b"
    and c: "c \<le> get_index_to_card_index ((stmcb_size_rounded_up X b - fst (stmcb_get_card_base_itemsize X b))
      div snd (stmcb_get_card_base_itemsize X b) - 1)"
  shows "card_offset (stmcb_get_card_base_itemsize X b) c \<le> stmcb_size_rounded_up X b"
proof -
  obtain base item where l: "stmcb_get_card_base_itemsize X b = (base, item)" by (cases "stmcb_get_card_base_itemsize X b")
  let ?sz = "stmcb_size_rounded_up X b"
  have item: "0 < item" "base + item \<le> ?sz" using X sup l unfolding cb_ok_def by (metis fst_conv snd_conv)+
  let ?n = "(?sz - base) div item"
  have "item div item \<le> ?n" using item by (intro div_le_mono) simp
  then have n: "1 \<le> ?n" using item(1) by simp
  have "c - 1 \<le> (?n - 1) div 32" using c l by (simp add: get_index_to_card_index_def CARD_SIZE_def)
  then have "(c - 1) * 32 \<le> (?n - 1) div 32 * 32" by (rule mult_le_mono1)
  also have "\<dots> \<le> ?n - 1" by (rule div_times_less_eq_dividend)
  finally have "(c - 1) * 32 * item \<le> ?n * item" by (intro mult_le_mono1) simp
  also have "\<dots> \<le> ?sz - base" by (rule div_times_less_eq_dividend)
  finally show ?thesis using item(2) l by (simp add: card_offset_def get_card_index_to_index_def CARD_SIZE_def)
qed

lemma card_wise_published:
  assumes me: "me \<in> {1..4}" and X: "cb_ok X" and ok: "obj_mapped X s me obj"
    and cs: "\<not> has_flag (stm_flags s me obj) GCFLAG_CARDS_SET"
    and sup: "stmcb_obj_supports_cards X (obj_bytes s me obj)"
  shows "\<exists>R. published s me R (card_wise_synchronize_object_now X me obj s) \<and>
    R \<subseteq> {obj..<obj + obj_size X s me obj} \<and>
    marked_bytes X s me obj \<subseteq> R \<and> (no_card_marked X s me obj \<longrightarrow> R = {obj..<obj + obj_size X s me obj}) \<and>
    (\<not> no_card_marked X s me obj \<longrightarrow> \<not> seems_all_marked X s me obj \<longrightarrow> R = marked_bytes X s me obj)"
proof -
  let ?b = "obj_bytes s me obj"
  let ?sz = "obj_size X s me obj"
  let ?l = "stmcb_get_card_base_itemsize X ?b"
  let ?last = "get_index_to_card_index ((?sz - fst ?l) div snd ?l - 1)"
  have last: "last_card_index X s me obj = ?last" by (simp add: last_card_index_def case_prod_beta)
  let ?all = "{obj..<obj + ?sz}"
  have mb: "marked_bytes X s me obj \<subseteq> ?all" by (auto simp: marked_bytes_def dest: card_bytes_in)
  let ?heur = "write_locks s (get_write_lock_idx obj + 1) = CARD_MARKED_OLD
            \<and> write_locks s (get_write_lock_idx obj + ?last) = CARD_MARKED_OLD
            \<and> write_locks s (get_write_lock_idx obj + (?last div 2) + 1) = CARD_MARKED_OLD"
  show ?thesis
  proof (cases ?heur)
    case True
    let ?s = "reset_object_cards X me obj CARD_CLEAR False s"
    have v: "vread ?s g x = vread s g x" for g x by (rule reset_cards_same_memory [OF cs])
    have b: "obj_bytes ?s me obj = ?b" by (simp add: obj_bytes_def fun_eq_iff v)
    have "obj_mapped X ?s me obj" using ok mapped_ok_cong [of ?s s]
      by (simp add: obj_mapped_def obj_size_def b)
    from page_wise_published [OF me X this] have
      "published s me ?all (page_wise_synchronize_object_now X me obj ?s)"
      using published_same_view [of ?s me ?all _ s] by (simp add: v obj_size_def b)
    moreover have "card_wise_synchronize_object_now X me obj s = page_wise_synchronize_object_now X me obj ?s"
      unfolding card_wise_synchronize_object_now_def Let_def using True by simp
    moreover have "seems_all_marked X s me obj" using True by (simp add: seems_all_marked_def last add.assoc)
    ultimately show ?thesis using mb by auto
  next
    case False
    obtain b s1 where run: "sync_cards me obj ?sz ?l ?last [1..<?last + 1] None True s = (b, s1)" by fastforce
    have off: "\<And>c. c \<le> ?last \<Longrightarrow> card_offset ?l c \<le> ?sz"
      using last_card_offset [OF X sup] by (simp add: obj_size_def)
    have mok: "mapped_ok s (x div 4096)" if "obj \<le> x" "x < obj + ?sz" for x
      using obj_mappedD [OF ok] that by simp
    note spec = sync_cards_spec [OF me off refl _ mok run]
    have pend: "pending_bytes s obj ?sz ?l ?last None 1 = marked_bytes X s me obj"
      by (simp add: pending_bytes_def marked_bytes_def last)
    have pub: "published s me (marked_bytes X s me obj) s1" using spec pend by simp
    have b: "b \<longleftrightarrow> no_card_marked X s me obj" using spec by (simp add: no_card_marked_def last)
    have cw: "card_wise_synchronize_object_now X me obj s =
        (if b then page_wise_synchronize_object_now X me obj s1 else s1)"
      unfolding card_wise_synchronize_object_now_def Let_def
      unfolding if_not_P [OF False] run by (simp only: case_prod_conv)
    show ?thesis
    proof (cases b)
      case True
      then have "marked_bytes X s me obj = {}" using b by (auto simp: no_card_marked_def marked_bytes_def)
      then have v: "vread s1 g x = vread s g x" if "g \<le> 4" for g x using publishedD [OF pub that] by simp
      have bb: "obj_bytes s1 me obj = ?b" using v me by (simp add: obj_bytes_def fun_eq_iff)
      have "obj_mapped X s1 me obj" using ok published_mapped [OF pub] by (simp add: obj_mapped_def obj_size_def bb)
      from page_wise_published [OF me X this] have
        "published s1 me ?all (page_wise_synchronize_object_now X me obj s1)" by (simp add: obj_size_def bb)
      from published_trans [OF pub this] me mb have
        "published s me ?all (page_wise_synchronize_object_now X me obj s1)" by (simp add: Un_absorb1)
      then show ?thesis using cw True mb b by auto
    next
      case False
      then show ?thesis using cw pub mb b by auto
    qed
  qed
qed

text \<open>
  The whole of \<open>synchronize_object_now\<close>: every segment ends up with the publisher's
  version, provided what the publisher changed is in marked cards (or no card is marked, or
  cards do not apply), and the other segments agreed with the shared copy before.
\<close>

definition changes_covered :: "ext \<Rightarrow> stm \<Rightarrow> nat \<Rightarrow> nat \<Rightarrow> bool \<Rightarrow> bool" where
  "changes_covered X s me obj ignore_cards \<longleftrightarrow>
     ignore_cards \<or> \<not> obj_should_use_cards X s me obj \<or> no_card_marked X s me obj \<or>
     (\<forall>x. obj \<le> x \<longrightarrow> x < obj + obj_size X s me obj \<longrightarrow> vread s me x \<noteq> vread s 0 x \<longrightarrow> x \<in> marked_bytes X s me obj)"

lemma synchronize_object_agree:
  assumes me: "me \<in> {1..4}" and X: "cb_ok X" and ok: "obj_mapped X s me obj"
    and fl: "\<not> has_flag (stm_flags s me obj) GCFLAG_SMALL_UNIFORM" "\<not> has_flag (stm_flags s me obj) GCFLAG_CARDS_SET"
    and others: "\<And>g x. g \<le> 4 \<Longrightarrow> g \<noteq> me \<Longrightarrow> obj \<le> x \<Longrightarrow> x < obj + obj_size X s me obj \<Longrightarrow> vread s g x = vread s 0 x"
    and cov: "changes_covered X s me obj ign"
  shows "\<exists>s'. synchronize_object_now X me obj ign s = Ret () s' \<and>
    published s me {obj..<obj + obj_size X s me obj} s'"
proof -
  let ?all = "{obj..<obj + obj_size X s me obj}"
  show ?thesis
  proof (cases "ign \<or> \<not> obj_should_use_cards X s me obj")
    case True
    then show ?thesis using page_wise_published [OF me X ok] fl(1) by (simp add: synchronize_object_now_def)
  next
    case False
    then have sup: "stmcb_obj_supports_cards X (obj_bytes s me obj)"
      by (auto simp: obj_should_use_cards_def split: if_splits)
    let ?s' = "card_wise_synchronize_object_now X me obj s"
    from card_wise_published [OF me X ok fl(2) sup] obtain R where
      pub: "published s me R ?s'" and R: "R \<subseteq> ?all" "marked_bytes X s me obj \<subseteq> R"
      "no_card_marked X s me obj \<longrightarrow> R = ?all" by blast
    have "published s me ?all ?s'"
      unfolding published_def
    proof (intro conjI allI impI)
      show "remap ?s' = remap s" "by_segment ?s' = by_segment s" using pub by (simp_all add: published_def)
      fix g x :: nat
      assume g: "g \<le> 4"
      have "vread s g x = vread s me x" if "x \<in> ?all" "x \<notin> R"
      proof -
        have "vread s me x = vread s 0 x"
          using cov False that R by (auto simp: changes_covered_def)
        then show ?thesis using others [OF g, of x] that(1) by (cases "g = me") auto
      qed
      then show "vread ?s' g x = (if x \<in> ?all then vread s me x else vread s g x)"
        using publishedD [OF pub g, of x] R(1) by auto
    qed
    then show ?thesis using False fl(1) by (simp add: synchronize_object_now_def)
  qed
qed

end
