(* ===== verification/Gcalloc.thy ===== *)
theory Gcalloc
  imports Syncobj
begin

text \<open>
  Allocation outside the nursery (the first part of \<open>c7/stm/gcpage.c\<close>): large objects from
  the arena of \<open>largemalloc.c\<close>, whose pages are shared with all segments when they are first
  used. Small uniform pages are not used by the code (it calls \<open>abort()\<close> there).
\<close>

definition GCPAGE_NUM_PAGES :: nat where "GCPAGE_NUM_PAGES = 20"

definition setup_gcpage :: "stm \<Rightarrow> stm" where
  "setup_gcpage s =
     (let base = END_NURSERY_PAGE * 4096;
          len = (NB_PAGES - END_NURSERY_PAGE) * 4096
      in s\<lparr>lm := largemalloc_init_arena base len (lm s),
           uninitialized_page_start := END_NURSERY_PAGE * 4096,
           uninitialized_page_stop := NB_PAGES * 4096\<rparr>)"

definition setup_N_pages :: "nat \<Rightarrow> nat \<Rightarrow> stm \<Rightarrow> stm" where
  "setup_N_pages pages_addr num s = pages_initialize_shared (pages_addr div 4096) num s"

text \<open>The growth of the initialized part of the arena, under \<open>lock_growth_large\<close>.\<close>

definition grow_large :: "nat \<Rightarrow> nat \<Rightarrow> stm \<Rightarrow> (stm, nat) res" where
  "grow_large addr sz s =
     (let start = uninitialized_page_start s
      in if addr + sz > start
         then let npages = (addr + sz - start) div 4096 + GCPAGE_NUM_PAGES
              in if uninitialized_page_stop s - start < npages * 4096 then Fatal ''out of memory!'' s
                 else Ret addr ((setup_N_pages start npages s)
                        \<lparr>uninitialized_page_start := start + npages * 4096\<rparr>)
         else Ret addr s)"

definition allocate_outside_nursery_large :: "nat \<Rightarrow> stm \<Rightarrow> (stm, nat) res" where
  "allocate_outside_nursery_large sz s =
     (let (addr, l) = large_malloc sz (lm s); s = s\<lparr>lm := l\<rparr>
      in case addr of
           None \<Rightarrow> Fatal ''not enough memory!'' s
         | Some addr \<Rightarrow>
             if addr + sz \<le> uninitialized_page_start s then Ret addr s else grow_large addr sz s)"

text \<open>
  \<open>_stm_allocate_old\<close> clears the shared copy; the flags are written through the current
  segment.
\<close>

definition stm_allocate_old :: "nat \<Rightarrow> nat \<Rightarrow> stm \<Rightarrow> (stm, nat) res" where
  "stm_allocate_old me sz s =
     bind_res (allocate_outside_nursery_large sz s) (\<lambda>p s.
       let s = memset0 0 p sz s;
           s = set_stm_flags me p GCFLAG_WRITE_BARRIER s;
           s = s\<lparr>testing_prebuilt_objs := append_opt p
                  (case testing_prebuilt_objs s of None \<Rightarrow> Some [] | l \<Rightarrow> l)\<rparr>
       in Ret p s)"

end
