(* ===== verification/Nursery.thy ===== *)
theory Nursery
  imports Gcalloc
begin

text \<open>
  \<open>c7/stm/nursery.c\<close>: allocation in the nursery and the minor collection, which moves every
  reachable young object of one segment out of its nursery. The functions run with \<open>%gs\<close>
  pointing to segment \<open>me\<close>. A visitor passed to \<open>stmcb_trace\<close> returns what it stores into
  the field, or None when it leaves the field alone.
\<close>

section \<open>Allocation in the nursery\<close>

definition setup_nursery :: "stm \<Rightarrow> stm" where
  "setup_nursery s = foreach_f segments (\<lambda>i.
     upd_seg i (\<lambda>p. p\<lparr>nursery_current := NURSERY_START, nursery_end := NURSERY_END\<rparr>)) s"

definition stm_can_move :: "nat \<Rightarrow> bool" where
  "stm_can_move obj = is_in_nursery obj"

definition STM_FAST_ALLOC :: nat where "STM_FAST_ALLOC = 66 * 1024"

section \<open>Moving an object\<close>

definition GCWORD_MOVED :: nat where "GCWORD_MOVED = 2 ^ 64 - 1"
definition FLAG_SYNC_LARGE :: nat where "FLAG_SYNC_LARGE = 1"

definition find_existing_shadow :: "nat \<Rightarrow> nat \<Rightarrow> stm \<Rightarrow> (stm, nat) res" where
  "find_existing_shadow me obj s =
     (case tree_lookup (nursery_objects_shadows (segs s me)) (of_nat obj) of
        Some v \<Rightarrow> Ret (unat v) s
      | None \<Rightarrow> Fatal ''GCFLAG_HAS_SHADOW but no shadow found'' s)"

text \<open>The end of \<open>minor_trace_if_young\<close>, for an object that has just become old.\<close>

definition minor_trace_later :: "nat \<Rightarrow> nat \<Rightarrow> stm \<Rightarrow> stm" where
  "minor_trace_later me nobj s =
     (let s = (if \<not> minor_collect_will_commit_now (segs s me)
               then set_stm_flags me nobj (stm_flags s me nobj OR overflow_number (segs s me)) s else s)
      in upd_seg me (\<lambda>p. p\<lparr>objects_pointing_to_nursery :=
           append_opt (nobj OR FLAG_SYNC_LARGE) (objects_pointing_to_nursery p)\<rparr>) s)"

text \<open>From \<open>copy_large_object\<close> on.\<close>

definition minor_copy_object :: "nat \<Rightarrow> nat \<Rightarrow> nat \<Rightarrow> nat \<Rightarrow> stm \<Rightarrow> stm" where
  "minor_copy_object me obj nobj sz s =
     (let s = memcpy me nobj me obj sz s;
          s = vstore64 me obj GCWORD_MOVED s;
          s = vstore64 me (obj + 8) nobj s
      in minor_trace_later me nobj s)"

definition minor_trace_if_young :: "ext \<Rightarrow> nat \<Rightarrow> nat \<Rightarrow> stm \<Rightarrow> (stm, nat option) res" where
  "minor_trace_if_young X me obj s =
     (if obj = 0 then Ret None s
      else if is_in_nursery obj
      then if has_flag (stm_flags s me obj) GCFLAG_HAS_SHADOW
           then if vload64 s me obj = GCWORD_MOVED then Ret (Some (vload64 s me (obj + 8))) s
                else bind_res (find_existing_shadow me obj s) (\<lambda>nobj s.
                       let s = stm_flags_and_not me obj GCFLAG_HAS_SHADOW s
                       in Ret (Some nobj) (minor_copy_object me obj nobj (obj_size X s me obj) s))
           else let sz = obj_size X s me obj
                in bind_res (allocate_outside_nursery_large sz s) (\<lambda>nobj s.
                     Ret (Some nobj) (minor_copy_object me obj nobj sz s))
      else if \<not> tree_has (young_outside_nursery (segs s me)) obj then Ret None s
      else let s = upd_seg me (\<lambda>p. p\<lparr>young_outside_nursery :=
                     snd (tree_delete_item (young_outside_nursery p) (of_nat obj))\<rparr>) s
           in Ret None (minor_trace_later me obj s))"

text \<open>Apply a visitor to the fields of \<open>obj\<close> at the given offsets.\<close>

fun trace_fields :: "(nat \<Rightarrow> stm \<Rightarrow> (stm, nat option) res) \<Rightarrow> nat \<Rightarrow> nat \<Rightarrow> nat list \<Rightarrow> stm \<Rightarrow> (stm, unit) res" where
  "trace_fields f g obj [] s = Ret () s"
| "trace_fields f g obj (off # offs) s =
     bind_res (f (vload64 s g (obj + off)) s) (\<lambda>r s.
       trace_fields f g obj offs (case r of None \<Rightarrow> s | Some p \<Rightarrow> vstore64 g (obj + off) p s))"

definition trace_object :: "ext \<Rightarrow> (nat \<Rightarrow> stm \<Rightarrow> (stm, nat option) res) \<Rightarrow> nat \<Rightarrow> nat \<Rightarrow> stm \<Rightarrow> (stm, unit) res" where
  "trace_object X f g obj s = trace_fields f g obj (stmcb_trace X (obj_bytes s g obj)) s"

section \<open>Roots\<close>

text \<open>
  The entries of the shadow stack above \<open>ssbase\<close>, from the top down; \<open>n\<close> is the index
  \<open>current\<close>.
\<close>

fun collect_shadowstack :: "ext \<Rightarrow> nat \<Rightarrow> nat \<Rightarrow> nat \<Rightarrow> nat \<Rightarrow> stm \<Rightarrow> (stm, unit) res" where
  "collect_shadowstack X me t ssbase 0 s = Ret () s"
| "collect_shadowstack X me t ssbase (Suc current) s =
     (if Suc current > ssbase
      then let x = shadowstack (tls s t) ! current
           in if x AND 3 = 0
              then bind_res (minor_trace_if_young X me x s) (\<lambda>r s.
                     collect_shadowstack X me t ssbase current
                       (case r of None \<Rightarrow> s
                        | Some p \<Rightarrow> upd_tl t (\<lambda>x. x\<lparr>shadowstack := (shadowstack x)[current := p]\<rparr>) s))
              else collect_shadowstack X me t ssbase current s
      else Ret () s)"

definition collect_roots_in_nursery :: "ext \<Rightarrow> nat \<Rightarrow> stm \<Rightarrow> (stm, unit) res" where
  "collect_roots_in_nursery X me s =
     (case running_thread (segs s me) of
        None \<Rightarrow> Fatal ''running_thread'' s
      | Some t \<Rightarrow>
          (let ssbase = (case moved_off_ssbase (rjthread (tls s t)) of None \<Rightarrow> 0 | Some b \<Rightarrow> b)
           in bind_res (collect_shadowstack X me t ssbase (length (shadowstack (tls s t))) s) (\<lambda>_ s.
                bind_res (minor_trace_if_young X me (thread_local_obj (tls s t)) s) (\<lambda>r s.
                  Ret () (case r of None \<Rightarrow> s
                    | Some p \<Rightarrow> upd_tl t (\<lambda>x. x\<lparr>thread_local_obj := p\<rparr>) s)))))"

section \<open>Cards\<close>

definition trace_card_object :: "ext \<Rightarrow> nat \<Rightarrow> nat \<Rightarrow> stm \<Rightarrow> (stm, unit) res" where
  "trace_card_object X me obj s =
     (let mark_value = (if IS_OVERFLOW_OBJ s me (stm_flags s me obj) then CARD_CLEAR else CARD_MARKED_OLD);
          first_card_index = get_write_lock_idx obj;
          last = last_card_index X s me obj
      in bind_res
           (foreach_res [1..<last + 1] (\<lambda>card_index s.
              let card_lock_idx = first_card_index + card_index
              in if write_locks s card_lock_idx = CARD_MARKED
                 then let s = s\<lparr>write_locks := (write_locks s)(card_lock_idx := mark_value)\<rparr>;
                          start = get_card_index_to_index card_index;
                          stop = get_card_index_to_index (card_index + 1)
                      in trace_fields (minor_trace_if_young X me) me obj
                           (stmcb_trace_cards X (obj_bytes s me obj) start stop) s
                 else Ret () s) s)
           (\<lambda>_ s. Ret () (stm_flags_and_not me obj GCFLAG_CARDS_SET s)))"

definition collect_now :: "ext \<Rightarrow> nat \<Rightarrow> nat \<Rightarrow> stm \<Rightarrow> (stm, unit) res" where
  "collect_now X me obj s =
     (if \<not> has_flag (stm_flags s me obj) GCFLAG_WRITE_BARRIER
      then bind_res (trace_object X (minor_trace_if_young X me) me obj s)
             (\<lambda>_ s. Ret () (stm_flags_or me obj GCFLAG_WRITE_BARRIER s))
      else Ret () s)"

text \<open>
  The list is popped until it is empty; nothing is appended to it during a collection, so
  its length is enough fuel.
\<close>

fun collect_cardrefs_loop :: "nat \<Rightarrow> ext \<Rightarrow> nat \<Rightarrow> stm \<Rightarrow> (stm, unit) res" where
  "collect_cardrefs_loop 0 X me s =
     (if old_objects_with_cards (segs s me) = [] then Ret () s else Hang s)"
| "collect_cardrefs_loop (Suc n) X me s =
     (let lst = old_objects_with_cards (segs s me)
      in if lst = [] then Ret () s
         else let obj = last lst;
                  s = upd_seg me (\<lambda>p. p\<lparr>old_objects_with_cards := butlast lst\<rparr>) s
              in if \<not> has_flag (stm_flags s me obj) GCFLAG_CARDS_SET then collect_cardrefs_loop n X me s
                 else bind_res (trace_card_object X me obj s) (\<lambda>_ s. collect_cardrefs_loop n X me s))"

definition collect_cardrefs_to_nursery :: "ext \<Rightarrow> nat \<Rightarrow> stm \<Rightarrow> (stm, unit) res" where
  "collect_cardrefs_to_nursery X me s =
     collect_cardrefs_loop (length (old_objects_with_cards (segs s me))) X me s"

section \<open>Tracing old objects\<close>

text \<open>
  Every pass takes one object off the list and may append the objects it moves out; the fuel
  bounds the number of passes.
\<close>

fun collect_oldrefs_to_nursery :: "nat \<Rightarrow> ext \<Rightarrow> nat \<Rightarrow> stm \<Rightarrow> (stm, unit) res" where
  "collect_oldrefs_to_nursery 0 X me s = Hang s"
| "collect_oldrefs_to_nursery (Suc n) X me s =
     (let lst = (case objects_pointing_to_nursery (segs s me) of None \<Rightarrow> [] | Some l \<Rightarrow> l)
      in if lst = [] then Ret () s
         else let obj_sync_now = last lst;
                  s = upd_seg me (\<lambda>p. p\<lparr>objects_pointing_to_nursery := Some (butlast lst)\<rparr>) s;
                  obj = obj_sync_now - obj_sync_now mod 2
              in bind_res (collect_now X me obj s) (\<lambda>_ s.
                   bind_res
                     (if odd obj_sync_now
                      then if minor_collect_will_commit_now (segs s me)
                           then synchronize_object_now X me obj True s
                           else Ret () (upd_seg me (\<lambda>p. p\<lparr>large_overflow_objects :=
                                  append_opt obj (large_overflow_objects p)\<rparr>) s)
                      else Ret () s)
                     (\<lambda>_ s. collect_oldrefs_to_nursery n X me s)))"

definition collect_modified_old_objects :: "ext \<Rightarrow> nat \<Rightarrow> stm \<Rightarrow> (stm, unit) res" where
  "collect_modified_old_objects X me s =
     foreach_res (rev (modified_old_objects (segs s me))) (collect_now X me) s"

text \<open>The objects of the markers from index \<open>num_old\<close> on: every second entry.\<close>

definition collect_roots_from_markers :: "ext \<Rightarrow> nat \<Rightarrow> nat \<Rightarrow> stm \<Rightarrow> (stm, unit) res" where
  "collect_roots_from_markers X me num_old s =
     (let total = length (modified_old_objects_markers (segs s me));
          s = upd_seg me (\<lambda>p. p\<lparr>modified_old_objects_markers_num_old := total\<rparr>) s
      in bind_res
           (foreach_res (filter (\<lambda>i. even (i - (num_old + 1))) [num_old + 1..<total]) (\<lambda>i s.
              bind_res (minor_trace_if_young X me (modified_old_objects_markers (segs s me) ! i) s) (\<lambda>r s.
                Ret () (case r of None \<Rightarrow> s
                  | Some p \<Rightarrow> upd_seg me (\<lambda>ps. ps\<lparr>modified_old_objects_markers :=
                      (modified_old_objects_markers ps)[i := p]\<rparr>) s))) s)
           (\<lambda>_ s. if marker_inev_segment_base (segs s me) \<noteq> 0
              then bind_res (minor_trace_if_young X me (marker_inev_object (segs s me)) s) (\<lambda>r s.
                     Ret () (case r of None \<Rightarrow> s
                       | Some p \<Rightarrow> upd_seg me (\<lambda>ps. ps\<lparr>marker_inev_object := p\<rparr>) s))
              else Ret () s))"

text \<open>Objects with finalizers are never moved, so what the visitor stores into \<open>o\<close> is dropped.\<close>

definition collect_objs_still_young_but_with_finalizers :: "ext \<Rightarrow> nat \<Rightarrow> finalizers_s \<Rightarrow> stm \<Rightarrow> (stm, unit) res" where
  "collect_objs_still_young_but_with_finalizers X me f s =
     bind_res (foreach_res (drop (count_non_young f) (objects_with_finalizers f))
                 (\<lambda>x s. bind_res (minor_trace_if_young X me x s) (\<lambda>_ s. Ret () s)) s)
       (\<lambda>_ s. Ret () (upd_seg me (\<lambda>p. p\<lparr>finalizers := map_option
          (\<lambda>f. f\<lparr>count_non_young := length (objects_with_finalizers f)\<rparr>) (finalizers p)\<rparr>) s))"

end
