(* ===== verification/Minor.thy ===== *)
theory Minor
  imports Nursery Sync
begin

text \<open>
  The minor collection as a whole (\<open>nursery.c\<close>), with the young weakrefs of \<open>weakref.c\<close> and
  the young light finalizers of \<open>finalizer.c\<close>.
\<close>

section \<open>Weakrefs\<close>

text \<open>The pointer of a weakref is its last word; weakrefs have 16 bytes.\<close>

definition WEAKREF_PTR :: "nat \<Rightarrow> nat \<Rightarrow> nat" where
  "WEAKREF_PTR wr sz = wr + sz - 8"

definition set_weakref_in_all_segments :: "nat \<Rightarrow> nat \<Rightarrow> stm \<Rightarrow> stm" where
  "set_weakref_in_all_segments weakref val s =
     foreach_f [0..<NB_SEGMENTS + 1] (\<lambda>i. vstore64 i (WEAKREF_PTR weakref 16) val) s"

text \<open>Whether an object in the nursery was moved out, and where to.\<close>

definition was_moved :: "stm \<Rightarrow> nat \<Rightarrow> nat \<Rightarrow> bool" where
  "was_moved s me obj \<longleftrightarrow> vload64 s me obj = GCWORD_MOVED"

definition moved_to :: "stm \<Rightarrow> nat \<Rightarrow> nat \<Rightarrow> nat" where
  "moved_to s me obj = vload64 s me (obj + 8)"

definition move_young_weakref :: "nat \<Rightarrow> nat \<Rightarrow> stm \<Rightarrow> stm" where
  "move_young_weakref me item s =
     (if \<not> was_moved s me item then s
      else let item = moved_to s me item;
               pointing_to = vload64 s me (WEAKREF_PTR item 16);
               remember = upd_seg me (\<lambda>p. p\<lparr>old_weakrefs := old_weakrefs p @ [item]\<rparr>)
           in if is_in_nursery pointing_to
              then if \<not> was_moved s me pointing_to then set_weakref_in_all_segments item 0 s
                   else remember (set_weakref_in_all_segments item (moved_to s me pointing_to) s)
              else if tree_has (young_outside_nursery (segs s me)) pointing_to
                   then set_weakref_in_all_segments item 0 s
                   else remember s)"

definition stm_move_young_weakrefs :: "nat \<Rightarrow> stm \<Rightarrow> stm" where
  "stm_move_young_weakrefs me s =
     (let s = foreach_r (young_weakrefs (segs s me)) (move_young_weakref me) s
      in upd_seg me (\<lambda>p. p\<lparr>young_weakrefs := []\<rparr>) s)"

section \<open>Light finalizers of young objects\<close>

definition deal_with_young_objects_with_finalizers :: "nat \<Rightarrow> stm \<Rightarrow> stm" where
  "deal_with_young_objects_with_finalizers me s =
     (let s = foreach_f (young_objects_with_light_finalizers (segs s me)) (\<lambda>obj s.
                if \<not> was_moved s me obj then emit (LightFinalizer me obj) s
                else upd_seg me (\<lambda>p. p\<lparr>old_objects_with_light_finalizers :=
                       old_objects_with_light_finalizers p @ [moved_to s me obj]\<rparr>) s) s
      in upd_seg me (\<lambda>p. p\<lparr>young_objects_with_light_finalizers := []\<rparr>) s)"

section \<open>The collection\<close>

definition MINOR_NOTHING_TO_DO :: "pseg \<Rightarrow> bool" where
  "MINOR_NOTHING_TO_DO p \<longleftrightarrow>
     nursery_current p = NURSERY_START \<and> tree_is_cleared (young_outside_nursery p)"

definition begin_minor_collection :: "nat \<Rightarrow> bool \<Rightarrow> stm \<Rightarrow> stm" where
  "begin_minor_collection me commit s =
     (let s = upd_seg me (\<lambda>p. p\<lparr>minor_collect_will_commit_now := commit\<rparr>) s;
          s = (if \<not> commit
               then upd_seg me (\<lambda>p. p\<lparr>overflow_number_has_been_used := True\<rparr>) (emit (CommitSoon me) s) else s)
      in if \<not> commit \<and> large_overflow_objects (segs s me) = None
         then upd_seg me (\<lambda>p. p\<lparr>large_overflow_objects := Some []\<rparr>) s else s)"

text \<open>
  The roots among the old objects: the marked cards, and the modified objects when this is
  the first collection of the transaction. The result is \<open>num_old\<close>.
\<close>

definition collect_old_roots :: "ext \<Rightarrow> nat \<Rightarrow> stm \<Rightarrow> (stm, nat) res" where
  "collect_old_roots X me s =
     (if objects_pointing_to_nursery (segs s me) = None
      then let s = upd_seg me (\<lambda>p. p\<lparr>objects_pointing_to_nursery := Some []\<rparr>) s
           in bind_res (collect_cardrefs_to_nursery X me s) (\<lambda>_ s.
                bind_res (collect_modified_old_objects X me s) (\<lambda>_ s. Ret 0 s))
      else bind_res (collect_cardrefs_to_nursery X me s) (\<lambda>_ s.
             Ret (modified_old_objects_markers_num_old (segs s me)) s))"

definition end_minor_collection :: "nat \<Rightarrow> stm \<Rightarrow> stm" where
  "end_minor_collection me s =
     (let s = stm_move_young_weakrefs me s;
          s = deal_with_young_objects_with_finalizers me s
      in snd (throw_away_nursery me s))"

text \<open>\<open>modified_bags\<close> is always NULL: nothing in the library sets it.\<close>

definition do_minor_collection :: "nat \<Rightarrow> ext \<Rightarrow> nat \<Rightarrow> bool \<Rightarrow> stm \<Rightarrow> (stm, unit) res" where
  "do_minor_collection fuel X me commit s =
     bind_res (collect_old_roots X me (begin_minor_collection me commit s)) (\<lambda>num_old s.
     bind_res (collect_roots_from_markers X me num_old s) (\<lambda>_ s.
     bind_res (collect_roots_in_nursery X me s) (\<lambda>_ s.
     bind_res (case finalizers (segs s me) of None \<Rightarrow> Ret () s
               | Some f \<Rightarrow> collect_objs_still_young_but_with_finalizers X me f s) (\<lambda>_ s.
     bind_res (collect_oldrefs_to_nursery fuel X me s) (\<lambda>_ s.
       Ret () (end_minor_collection me s))))))"

definition minor_collection :: "nat \<Rightarrow> ext \<Rightarrow> nat \<Rightarrow> bool \<Rightarrow> stm \<Rightarrow> (stm, unit) res" where
  "minor_collection fuel X me commit s =
     bind_res (stm_safe_point fuel X me s) (\<lambda>_ s.
       let s = timing_event X (running_thread (segs s me)) STM_GC_MINOR_START s
       in bind_res (do_minor_collection fuel X me commit s) (\<lambda>_ s.
            Ret () (timing_event X (running_thread (segs s me)) STM_GC_MINOR_DONE s)))"

text \<open>
  The minor collections of all segments before a major one; \<open>me\<close> is the segment of the
  thread that collects. A segment whose transaction must abort is aborted instead.
\<close>

definition major_do_minor_collection :: "nat \<Rightarrow> ext \<Rightarrow> nat \<Rightarrow> stm \<Rightarrow> (stm, unit) res" where
  "major_do_minor_collection fuel X i s =
     (if MINOR_NOTHING_TO_DO (segs s i) then Ret () s
      else if \<not> must_abort s i then do_minor_collection fuel X i False s
      else abort_data_structures_from_segment_num X i i s)"

definition major_do_minor_collections :: "nat \<Rightarrow> ext \<Rightarrow> stm \<Rightarrow> (stm, unit) res" where
  "major_do_minor_collections fuel X s = foreach_res segments (major_do_minor_collection fuel X) s"

end
