(* ===== verification/Mark.thy ===== *)
theory Mark
  imports Minor
begin

text \<open>
  The mark phase and the page re-sharing of the major collection (\<open>c7/stm/gcpage.c\<close>). The
  write locks double as the visit marks: \<open>WL_VISITED\<close> is a visited object. It runs at a
  safe point, with all other threads stopped.
\<close>

section \<open>Visit marks\<close>

definition mark_loc :: "nat \<Rightarrow> nat" where
  "mark_loc obj = get_write_lock_idx obj"

definition mark_visited_test :: "stm \<Rightarrow> nat \<Rightarrow> bool" where
  "mark_visited_test s obj \<longleftrightarrow> write_locks s (mark_loc obj) = WL_VISITED"

definition mark_visited_test_and_set :: "nat \<Rightarrow> stm \<Rightarrow> bool \<times> stm" where
  "mark_visited_test_and_set obj s =
     (if write_locks s (mark_loc obj) = WL_VISITED then (True, s)
      else (False, s\<lparr>write_locks := (write_locks s)(mark_loc obj := WL_VISITED)\<rparr>))"

definition mark_visited_test_and_clear :: "nat \<Rightarrow> stm \<Rightarrow> bool \<times> stm" where
  "mark_visited_test_and_clear obj s =
     (if write_locks s (mark_loc obj) = WL_VISITED
      then (True, s\<lparr>write_locks := (write_locks s)(mark_loc obj := 0)\<rparr>) else (False, s))"

section \<open>Re-sharing pages\<close>

definition object_last_page :: "ext \<Rightarrow> stm \<Rightarrow> nat \<Rightarrow> nat" where
  "object_last_page X s obj =
     (let lastbyte = (if has_flag (stm_flags s 0 obj) GCFLAG_SMALL_UNIFORM then obj
                      else obj + obj_size X s 0 obj - 1)
      in lastbyte div 4096)"

text \<open>\<open>BITOP\<close>: an operation on the bits of every page of the modified objects of a segment.\<close>

definition BITOP :: "ext \<Rightarrow> nat \<Rightarrow> (u8 \<Rightarrow> u8) \<Rightarrow> stm \<Rightarrow> stm" where
  "BITOP X segment_num expression s =
     foreach_r (modified_old_objects (segs s segment_num)) (\<lambda>item s.
       foreach_f [item div 4096..<object_last_page X s item + 1] (\<lambda>pagenum s.
         let ps = pagenum - PAGE_FLAG_START
         in s\<lparr>by_segment := (by_segment s)(ps := expression (by_segment s ps))\<rparr>) s) s"

definition major_hide_private_bits_for_modified_objects :: "ext \<Rightarrow> nat \<Rightarrow> stm \<Rightarrow> stm" where
  "major_hide_private_bits_for_modified_objects X segment_num s =
     (let negativebitmask = NOT (push_bit (segment_num - 1) 1)
      in BITOP X segment_num (\<lambda>b. b AND negativebitmask) s)"

definition major_restore_private_bits_for_modified_objects :: "ext \<Rightarrow> nat \<Rightarrow> stm \<Rightarrow> stm" where
  "major_restore_private_bits_for_modified_objects X segment_num s =
     (let positivebitmask = push_bit (segment_num - 1) 1
      in BITOP X segment_num (\<lambda>b. b OR positivebitmask) s)"

text \<open>
  The pages of the loop: up to \<open>uninitialized_page_start\<close>, then from
  \<open>uninitialized_page_stop\<close> on.
\<close>

definition pages_to_reshare :: "stm \<Rightarrow> nat list" where
  "pages_to_reshare s =
     (let endpagenum = uninitialized_page_start s div 4096
      in [END_NURSERY_PAGE..<endpagenum] @
         (if endpagenum = NB_PAGES then [] else [uninitialized_page_stop s div 4096..<NB_PAGES]))"

definition major_reshare_pages :: "ext \<Rightarrow> stm \<Rightarrow> (stm, unit) res" where
  "major_reshare_pages X s =
     bind_res (foreach_res segments (\<lambda>i s.
         let s = major_hide_private_bits_for_modified_objects X i s
         in case large_overflow_objects (segs s i) of
              None \<Rightarrow> Ret () s
            | Some lst \<Rightarrow> foreach_res (rev lst) (\<lambda>item. copy_object_to_shared X item i) s) s)
       (\<lambda>_ s. let s = foreach_f (pages_to_reshare s) page_check_and_reshare s
              in Ret () (foreach_f segments (major_restore_private_bits_for_modified_objects X) s))"

section \<open>Marking\<close>

text \<open>The visitor of the mark phase; the list is \<open>mark_objects_to_trace\<close>.\<close>

definition mark_record_trace :: "nat \<Rightarrow> nat list \<times> stm \<Rightarrow> nat list \<times> stm" where
  "mark_record_trace obj = (\<lambda>(to_trace, s).
     if obj = 0 then (to_trace, s)
     else let (visited, s) = mark_visited_test_and_set obj s
          in if visited then (to_trace, s) else (to_trace @ [obj], s))"

text \<open>The pointers stored in an object, as segment \<open>g\<close> sees it.\<close>

definition obj_refs :: "ext \<Rightarrow> stm \<Rightarrow> nat \<Rightarrow> nat \<Rightarrow> nat list" where
  "obj_refs X s g obj = map (\<lambda>off. vload64 s g (obj + off)) (stmcb_trace X (obj_bytes s g obj))"

text \<open>\<open>mark_trace\<close>; the fuel bounds the number of objects traced.\<close>

fun mark_trace_loop :: "nat \<Rightarrow> ext \<Rightarrow> nat \<Rightarrow> nat \<Rightarrow> nat list \<Rightarrow> stm \<Rightarrow> (stm, unit) res" where
  "mark_trace_loop 0 X g obj to_trace s = Hang s"
| "mark_trace_loop (Suc n) X g obj to_trace s =
     (let (to_trace, s) = fold mark_record_trace (obj_refs X s g obj) (to_trace, s)
      in if to_trace = [] then Ret () s
         else mark_trace_loop n X g (last to_trace) (butlast to_trace) s)"

definition mark_trace :: "nat \<Rightarrow> ext \<Rightarrow> nat \<Rightarrow> nat \<Rightarrow> stm \<Rightarrow> (stm, unit) res" where
  "mark_trace fuel X g obj s = mark_trace_loop fuel X g obj [] s"

definition mark_visit_object :: "nat \<Rightarrow> ext \<Rightarrow> nat \<Rightarrow> nat \<Rightarrow> stm \<Rightarrow> (stm, unit) res" where
  "mark_visit_object fuel X g obj s =
     (if obj = 0 then Ret () s
      else let (visited, s) = mark_visited_test_and_set obj s
           in if visited then Ret () s else mark_trace fuel X g obj s)"

text \<open>The entries of a shadow stack that are pointers, in the given order.\<close>

definition mark_visit_entries :: "nat \<Rightarrow> ext \<Rightarrow> nat \<Rightarrow> nat list \<Rightarrow> stm \<Rightarrow> (stm, unit) res" where
  "mark_visit_entries fuel X g entries s =
     foreach_res entries (\<lambda>x s. if x AND 3 = 0 then mark_visit_object fuel X g x s else Ret () s) s"

definition mark_visit_objects_from_ss :: "nat \<Rightarrow> ext \<Rightarrow> nat \<Rightarrow> nat list \<Rightarrow> (stm, unit) res \<Rightarrow> (stm, unit) res" where
  "mark_visit_objects_from_ss fuel X target entries r = bind_res r (\<lambda>_ s. mark_visit_entries fuel X 0 entries s)"

definition mark_visit_thread :: "nat \<Rightarrow> ext \<Rightarrow> nat \<Rightarrow> stm \<Rightarrow> (stm, unit) res" where
  "mark_visit_thread fuel X t s =
     (let g = associated_segment_num (tls s t)
      in bind_res (mark_visit_entries fuel X g (rev (shadowstack (tls s t))) s) (\<lambda>_ s.
           mark_visit_object fuel X g (thread_local_obj (tls s t)) s))"

text \<open>The ring of the thread-locals; \<open>n\<close> bounds their number.\<close>

fun mark_visit_threads :: "nat \<Rightarrow> nat \<Rightarrow> ext \<Rightarrow> nat option \<Rightarrow> stm \<Rightarrow> (stm, unit) res" where
  "mark_visit_threads 0 fuel X t s = Hang s"
| "mark_visit_threads (Suc n) fuel X t s =
     (case t of
        None \<Rightarrow> Fatal ''stm_all_thread_locals'' s
      | Some t \<Rightarrow> bind_res (mark_visit_thread fuel X t s) (\<lambda>_ s.
          let t = tl_next (tls s t)
          in if t \<noteq> stm_all_thread_locals s then mark_visit_threads n fuel X t s else Ret () s))"

definition mark_visit_segment_roots :: "nat \<Rightarrow> ext \<Rightarrow> nat \<Rightarrow> stm \<Rightarrow> (stm, unit) res" where
  "mark_visit_segment_roots fuel X i s =
     (if transaction_state (segs s i) \<noteq> TS_NONE
      then bind_res (mark_visit_object fuel X i (threadlocal_at_start_of_transaction (segs s i)) s) (\<lambda>_ s.
             case running_thread (segs s i) of
               None \<Rightarrow> Fatal ''running_thread'' s
             | Some t \<Rightarrow> snd (rewind_jmp_enum_shadowstack (rjthread (tls s t))
                               (mark_visit_objects_from_ss fuel X) (Ret () s)))
      else Ret () s)"

definition mark_visit_from_roots :: "nat \<Rightarrow> ext \<Rightarrow> stm \<Rightarrow> (stm, unit) res" where
  "mark_visit_from_roots fuel X s =
     bind_res (case testing_prebuilt_objs s of None \<Rightarrow> Ret () s
               | Some lst \<Rightarrow> foreach_res (rev lst) (mark_visit_object fuel X 0) s) (\<lambda>_ s.
     bind_res (mark_visit_threads fuel fuel X (stm_all_thread_locals s) s) (\<lambda>_ s.
       foreach_res segments (mark_visit_segment_roots fuel X) s))"

definition mark_visit_from_modified_objects :: "nat \<Rightarrow> ext \<Rightarrow> stm \<Rightarrow> (stm, unit) res" where
  "mark_visit_from_modified_objects fuel X s =
     foreach_res segments (\<lambda>i s.
       foreach_res (rev (modified_old_objects (segs s i))) (\<lambda>item s.
         let s = snd (mark_visited_test_and_set item s)
         in bind_res (mark_trace fuel X 0 item s) (\<lambda>_ s. mark_trace fuel X i item s)) s) s"

text \<open>The markers, from the last pair to the first; the object is the second of the pair.\<close>

definition mark_visit_from_markers :: "nat \<Rightarrow> ext \<Rightarrow> stm \<Rightarrow> (stm, unit) res" where
  "mark_visit_from_markers fuel X s =
     foreach_res segments (\<lambda>j s.
       let lst = modified_old_objects_markers (segs s j)
       in bind_res (foreach_res (rev (filter (\<lambda>i. even (length lst - i)) [1..<length lst + 1]))
                     (\<lambda>i s. mark_visit_object fuel X j (lst ! (i - 1)) s) s) (\<lambda>_ s.
            if marker_inev_segment_base (segs s j) \<noteq> 0
            then mark_visit_object fuel X j (marker_inev_object (segs s j)) s else Ret () s)) s"

section \<open>Cleaning up\<close>

text \<open>
  Remove from a list the items that do not satisfy \<open>keep\<close>: from the last index down, the
  last item takes the place of the removed one.
\<close>

fun prune :: "(nat \<Rightarrow> bool) \<Rightarrow> nat \<Rightarrow> nat list \<Rightarrow> nat list" where
  "prune keep 0 lst = lst"
| "prune keep (Suc n) lst =
     (if \<not> keep (lst ! n) then prune keep n (butlast (lst[n := last lst])) else prune keep n lst)"

text \<open>
  One segment of \<open>clean_up_segment_lists\<close>. The flag that is tested after
  \<open>GCFLAG_WRITE_BARRIER\<close> was set is \<open>GCFLAG_CARDS_SET\<close> of the same object.
\<close>

definition clean_written_object :: "ext \<Rightarrow> nat \<Rightarrow> nat \<Rightarrow> stm \<Rightarrow> stm" where
  "clean_written_object X i item s =
     (let s = stm_flags_or i item GCFLAG_WRITE_BARRIER s
      in if has_flag (stm_flags s i item) GCFLAG_CARDS_SET
         then if \<not> IS_OVERFLOW_OBJ s i (stm_flags s i item)
              then reset_object_cards X i item CARD_MARKED_OLD True s
              else reset_object_cards X i item CARD_CLEAR False s
         else s)"

definition clean_card_object :: "ext \<Rightarrow> nat \<Rightarrow> nat \<Rightarrow> stm \<Rightarrow> stm" where
  "clean_card_object X i item s =
     (let mark_value = (if IS_OVERFLOW_OBJ s i (stm_flags s i item) then CARD_CLEAR else CARD_MARKED_OLD)
      in reset_object_cards X i item mark_value False s)"

definition clean_up_segment :: "ext \<Rightarrow> nat \<Rightarrow> stm \<Rightarrow> stm" where
  "clean_up_segment X i s =
     (let s = (case objects_pointing_to_nursery (segs s i) of
                 None \<Rightarrow> s
               | Some lst \<Rightarrow> upd_seg i (\<lambda>p. p\<lparr>objects_pointing_to_nursery := Some []\<rparr>)
                   (foreach_r lst (clean_written_object X i) s));
          s = foreach_r (old_objects_with_cards (segs s i)) (clean_card_object X i) s;
          s = upd_seg i (\<lambda>p. p\<lparr>old_objects_with_cards := []\<rparr>) s
      in case large_overflow_objects (segs s i) of
           None \<Rightarrow> s
         | Some lst \<Rightarrow> upd_seg i (\<lambda>p. p\<lparr>large_overflow_objects :=
             Some (prune (mark_visited_test s) (length lst) lst)\<rparr>) s)"

definition clean_up_segment_lists :: "ext \<Rightarrow> stm \<Rightarrow> stm" where
  "clean_up_segment_lists X s = foreach_f segments (clean_up_segment X) s"

text \<open>\<open>largemalloc_keep_object_at\<close>: a dead object also loses its read markers.\<close>

definition largemalloc_keep_object_at :: "nat \<Rightarrow> stm \<Rightarrow> bool \<times> stm" where
  "largemalloc_keep_object_at obj s =
     (let (visited, s) = mark_visited_test_and_clear obj s
      in if \<not> visited
         then (False, foreach_f segments (\<lambda>i s. s\<lparr>rm := (rm s)(i := (rm s i)(obj div 16 := 0))\<rparr>) s)
         else (True, s))"

definition sweep_large_objects :: "nat \<Rightarrow> stm \<Rightarrow> (stm, unit) res" where
  "sweep_large_objects fuel s =
     (case largemalloc_sweep fuel largemalloc_keep_object_at s (lm s) of
        None \<Rightarrow> Hang s
      | Some (s, l) \<Rightarrow> Ret () (s\<lparr>lm := l\<rparr>))"

definition clean_write_locks :: "stm \<Rightarrow> stm" where
  "clean_write_locks s =
     (let lock2_idx = mark_loc (uninitialized_page_stop s - 4) + 1
      in s\<lparr>write_locks := (\<lambda>i. if lock2_idx \<le> i \<and> i < WRITELOCK_END - WRITELOCK_START
             then 0 else write_locks s i)\<rparr>)"

definition major_restore_write_locks :: "stm \<Rightarrow> stm" where
  "major_restore_write_locks s =
     foreach_f segments (\<lambda>i s. foreach_r (modified_old_objects (segs s i)) (\<lambda>item s.
       s\<lparr>write_locks := (write_locks s)(mark_loc item := write_lock_num (segs s i))\<rparr>) s) s"

end
