(* ===== verification/Finalizer.thy ===== *)
theory Finalizer
  imports Mark
begin

text \<open>
  \<open>c7/stm/finalizer.c\<close>: the regular finalizers. The objects are classified by the states 0
  to 3 of PyPy's finalizer order, kept in the write locks during the collection (253, 254 and
  255 are the states 1, 2 and 3). The list of segment \<open>j\<close> is the one of its transaction,
  list 0 the global one. A finalizer is a step of the program, \<open>stmcb_finalizer\<close>.
\<close>

definition init_finalizers :: finalizers_s where
  "init_finalizers = \<lparr>objects_with_finalizers = [], count_non_young = 0, run_finalizers = None, running_next = None\<rparr>"

definition setup_finalizer :: "stm \<Rightarrow> stm" where
  "setup_finalizer s = s\<lparr>g_finalizers := init_finalizers\<rparr>"

definition get_finalizers :: "nat \<Rightarrow> stm \<Rightarrow> finalizers_s option" where
  "get_finalizers j s = (if j = 0 then Some (g_finalizers s) else finalizers (segs s j))"

definition set_finalizers :: "nat \<Rightarrow> finalizers_s \<Rightarrow> stm \<Rightarrow> stm" where
  "set_finalizers j f s =
     (if j = 0 then s\<lparr>g_finalizers := f\<rparr> else upd_seg j (\<lambda>p. p\<lparr>finalizers := Some f\<rparr>) s)"

section \<open>Commit\<close>

text \<open>
  \<open>_commit_finalizers\<close>. \<open>list_extend\<close> on the global list, which may be NULL only for
  \<open>run_finalizers\<close>; \<open>frm\<close> is -1 only when the transaction has committed already.
\<close>

definition commit_finalizers_f :: "nat \<Rightarrow> finalizers_s \<Rightarrow> stm \<Rightarrow> stm" where
  "commit_finalizers_f me f s =
     (let gf = g_finalizers s;
          gf = (case run_finalizers f of
                  None \<Rightarrow> gf
                | Some src \<Rightarrow>
                    (let frm = (case running_next f of None \<Rightarrow> 0 | Some n \<Rightarrow> nat n)
                     in if frm < length src
                        then gf\<lparr>run_finalizers := Some ((case run_finalizers gf of None \<Rightarrow> [] | Some l \<Rightarrow> l) @ drop frm src)\<rparr>
                        else gf));
          gf = gf\<lparr>objects_with_finalizers := objects_with_finalizers gf @ objects_with_finalizers f\<rparr>
      in upd_seg me (\<lambda>p. p\<lparr>finalizers := None\<rparr>) (s\<lparr>g_finalizers := gf\<rparr>))"

definition commit_finalizers :: "nat \<Rightarrow> stm \<Rightarrow> stm" where
  "commit_finalizers me s =
     (case finalizers (segs s me) of None \<Rightarrow> s | Some f \<Rightarrow> commit_finalizers_f me f s)"

section \<open>Registration\<close>

definition stm_enable_light_finalizer :: "nat \<Rightarrow> nat \<Rightarrow> stm \<Rightarrow> stm" where
  "stm_enable_light_finalizer me obj s =
     (if is_young s me obj
      then upd_seg me (\<lambda>p. p\<lparr>young_objects_with_light_finalizers := young_objects_with_light_finalizers p @ [obj]\<rparr>) s
      else upd_seg me (\<lambda>p. p\<lparr>old_objects_with_light_finalizers := old_objects_with_light_finalizers p @ [obj]\<rparr>) s)"

section \<open>Old light finalizers\<close>

definition deal_with_old_objects_of_segment :: "nat \<Rightarrow> stm \<Rightarrow> stm" where
  "deal_with_old_objects_of_segment j s =
     (let lst = old_objects_with_light_finalizers (segs s j);
          s = upd_seg j (\<lambda>p. p\<lparr>old_objects_with_light_finalizers := []\<rparr>) s
      in foreach_f lst (\<lambda>obj s.
           if \<not> mark_visited_test s obj then emit (LightFinalizer j obj) s
           else upd_seg j (\<lambda>p. p\<lparr>old_objects_with_light_finalizers :=
                  old_objects_with_light_finalizers p @ [obj]\<rparr>) s) s)"

definition deal_with_old_objects_with_finalizers :: "stm \<Rightarrow> stm" where
  "deal_with_old_objects_with_finalizers s = foreach_f segments deal_with_old_objects_of_segment s"

section \<open>The order of finalizers\<close>

definition finalization_state :: "stm \<Rightarrow> nat \<Rightarrow> int" where
  "finalization_state s obj = uint (write_locks s (mark_loc obj)) - (uint WL_FINALIZ_ORDER_1 - 1)"

definition bump_finalization_state_from_0_to_1 :: "nat \<Rightarrow> stm \<Rightarrow> stm" where
  "bump_finalization_state_from_0_to_1 obj s =
     s\<lparr>write_locks := (write_locks s)(mark_loc obj := WL_FINALIZ_ORDER_1)\<rparr>"

text \<open>\<open>finalizer_trace\<close> appends the non-null references of \<open>obj\<close>.\<close>

definition finalizer_trace :: "ext \<Rightarrow> stm \<Rightarrow> nat \<Rightarrow> nat \<Rightarrow> nat list \<Rightarrow> nat list" where
  "finalizer_trace X s g obj lst = lst @ filter (\<lambda>p. p \<noteq> 0) (obj_refs X s g obj)"

fun recursively_bump :: "nat \<Rightarrow> ext \<Rightarrow> nat \<Rightarrow> nat \<Rightarrow> int \<Rightarrow> nat list \<Rightarrow> stm \<Rightarrow> (stm, unit) res" where
  "recursively_bump 0 X g obj to_state tmpstack s = Hang s"
| "recursively_bump (Suc n) X g obj to_state tmpstack s =
     (let (tmpstack, s) =
            (if finalization_state s obj = to_state - 1
             then let s = s\<lparr>write_locks := (write_locks s)(mark_loc obj := write_locks s (mark_loc obj) + 1)\<rparr>
                  in (finalizer_trace X s g obj tmpstack, s)
             else (tmpstack, s))
      in if tmpstack = [] then Ret () s
         else recursively_bump n X g (last tmpstack) to_state (butlast tmpstack) s)"

definition recursively_bump_finalization_state :: "nat \<Rightarrow> ext \<Rightarrow> nat \<Rightarrow> nat \<Rightarrow> int \<Rightarrow> stm \<Rightarrow> (stm, unit) res" where
  "recursively_bump_finalization_state fuel X g obj to_state s = recursively_bump fuel X g obj to_state [] s"

text \<open>The loop over \<open>pending\<close> in \<open>mark_finalize_step1\<close>.\<close>

fun step1_pending :: "nat \<Rightarrow> ext \<Rightarrow> nat \<Rightarrow> nat list \<Rightarrow> stm \<Rightarrow> (stm, unit) res" where
  "step1_pending 0 X g pending s = Hang s"
| "step1_pending (Suc n) X g pending s =
     (if pending = [] then Ret () s
      else let y = last pending; pending = butlast pending; state = finalization_state s y
           in if state \<le> 0
              then let s = bump_finalization_state_from_0_to_1 y s
                   in step1_pending n X g (finalizer_trace X s g y pending) s
              else if state = 2
              then bind_res (recursively_bump_finalization_state n X g y 3 s) (\<lambda>_ s. step1_pending n X g pending s)
              else step1_pending n X g pending s)"

text \<open>The result is \<open>marked\<close>; the objects that stay in the list are kept in \<open>f\<close>.\<close>

fun step1_objects :: "nat \<Rightarrow> ext \<Rightarrow> nat \<Rightarrow> nat list \<Rightarrow> nat list \<Rightarrow> nat list \<Rightarrow> stm \<Rightarrow> (stm, nat list \<times> nat list) res" where
  "step1_objects fuel X g [] kept marked s = Ret (kept, marked) s"
| "step1_objects fuel X g (x # xs) kept marked s =
     (if finalization_state s x \<ge> 2 then step1_objects fuel X g xs (kept @ [x]) marked s
      else bind_res (step1_pending fuel X g [x] s) (\<lambda>_ s.
             bind_res (recursively_bump_finalization_state fuel X g x 2 s) (\<lambda>_ s.
               step1_objects fuel X g xs kept (marked @ [x]) s)))"

definition mark_finalize_step1 :: "nat \<Rightarrow> ext \<Rightarrow> nat \<Rightarrow> stm \<Rightarrow> (stm, nat list) res" where
  "mark_finalize_step1 fuel X j s =
     (case get_finalizers j s of
        None \<Rightarrow> Ret [] s
      | Some f \<Rightarrow> bind_res (step1_objects fuel X j (objects_with_finalizers f) [] [] s) (\<lambda>(kept, marked) s.
          Ret marked (set_finalizers j (f\<lparr>objects_with_finalizers := kept\<rparr>) s)))"

fun step2_objects :: "nat \<Rightarrow> ext \<Rightarrow> nat \<Rightarrow> nat list \<Rightarrow> finalizers_s \<Rightarrow> stm \<Rightarrow> (stm, finalizers_s) res" where
  "step2_objects fuel X g [] f s = Ret f s"
| "step2_objects fuel X g (x # xs) f s =
     (if finalization_state s x = 2
      then let f = f\<lparr>run_finalizers := Some ((case run_finalizers f of None \<Rightarrow> [] | Some l \<Rightarrow> l) @ [x])\<rparr>
           in bind_res (recursively_bump_finalization_state fuel X g x 3 s) (\<lambda>_ s. step2_objects fuel X g xs f s)
      else step2_objects fuel X g xs (f\<lparr>objects_with_finalizers := objects_with_finalizers f @ [x]\<rparr>) s)"

definition mark_finalize_step2 :: "nat \<Rightarrow> ext \<Rightarrow> nat \<Rightarrow> nat list \<Rightarrow> stm \<Rightarrow> (stm, unit) res" where
  "mark_finalize_step2 fuel X j marked s =
     (case get_finalizers j s of
        None \<Rightarrow> Ret () s
      | Some f \<Rightarrow> bind_res (step2_objects fuel X j marked f s) (\<lambda>f s. Ret () (set_finalizers j f s)))"

text \<open>The segments in order, then the global list; \<open>marked_seg\<close> is the list of results.\<close>

fun step1_all :: "nat \<Rightarrow> ext \<Rightarrow> nat list \<Rightarrow> stm \<Rightarrow> (stm, nat list list) res" where
  "step1_all fuel X [] s = Ret [] s"
| "step1_all fuel X (j # js) s =
     bind_res (mark_finalize_step1 fuel X j s) (\<lambda>marked s.
       bind_res (step1_all fuel X js s) (\<lambda>rest s. Ret (marked # rest) s))"

definition deal_with_objects_with_finalizers :: "nat \<Rightarrow> ext \<Rightarrow> stm \<Rightarrow> (stm, unit) res" where
  "deal_with_objects_with_finalizers fuel X s =
     bind_res (step1_all fuel X (segments @ [0]) s) (\<lambda>marked_seg s.
       foreach_res (zip (segments @ [0]) marked_seg) (\<lambda>(j, marked). mark_finalize_step2 fuel X j marked) s)"

definition mark_visit_from_finalizer1 :: "nat \<Rightarrow> ext \<Rightarrow> nat \<Rightarrow> stm \<Rightarrow> (stm, unit) res" where
  "mark_visit_from_finalizer1 fuel X j s =
     (case get_finalizers j s of
        None \<Rightarrow> Ret () s
      | Some f \<Rightarrow> (case run_finalizers f of
          None \<Rightarrow> Ret () s
        | Some lst \<Rightarrow> foreach_res (rev lst) (mark_visit_object fuel X j) s))"

definition mark_visit_from_finalizer_pending :: "nat \<Rightarrow> ext \<Rightarrow> stm \<Rightarrow> (stm, unit) res" where
  "mark_visit_from_finalizer_pending fuel X s =
     foreach_res (segments @ [0]) (mark_visit_from_finalizer1 fuel X) s"

section \<open>Running finalizers\<close>

text \<open>
  The list is shared with the finalizers that run, which may append to it or commit. \<open>next\<close>
  is a local variable that the commit sets to -1 through \<open>running_next\<close>: the list of the
  segment is then gone. \<open>tot\<close> is \<open>total\<close>.
\<close>

definition read_next :: "nat \<Rightarrow> stm \<Rightarrow> int" where
  "read_next j s =
     (case get_finalizers j s of None \<Rightarrow> -1
      | Some f \<Rightarrow> (case running_next f of None \<Rightarrow> -1 | Some n \<Rightarrow> n))"

fun run_loop :: "nat \<Rightarrow> ext \<Rightarrow> nat \<Rightarrow> nat \<Rightarrow> nat \<Rightarrow> stm \<Rightarrow> (stm, unit) res" where
  "run_loop 0 X me j tot s = Hang s"
| "run_loop (Suc n) X me j tot s =
     (let next = read_next j s
      in if next \<noteq> -1 \<and> nat next < tot
         then case get_finalizers j s of
                None \<Rightarrow> Ret () s
              | Some f \<Rightarrow>
                  (let lst = (case run_finalizers f of None \<Rightarrow> [] | Some l \<Rightarrow> l);
                       obj = lst ! nat next;
                       s = set_finalizers j (f\<lparr>run_finalizers := Some (lst[nat next := 0]),
                                               running_next := Some (next + 1)\<rparr>) s
                   in run_loop n X me j tot (stmcb_finalizer X me obj s))
         else Ret () s)"

text \<open>The \<open>memmove\<close>: the items after \<open>tot\<close> come first, the count stays.\<close>

definition moved_items :: "nat \<Rightarrow> nat list \<Rightarrow> nat list" where
  "moved_items tot lst = drop tot lst @ drop (length lst - tot) lst"

fun execute_finalizers_restart :: "nat \<Rightarrow> nat \<Rightarrow> ext \<Rightarrow> nat \<Rightarrow> nat \<Rightarrow> stm \<Rightarrow> (stm, unit) res" where
  "execute_finalizers_restart 0 fuel X me j s = Hang s"
| "execute_finalizers_restart (Suc n) fuel X me j s =
     (case get_finalizers j s of
        None \<Rightarrow> Ret () s
      | Some f \<Rightarrow>
          if running_next f \<noteq> None then Ret () s
          else let lst = (case run_finalizers f of None \<Rightarrow> [] | Some l \<Rightarrow> l);
                   tot = length lst
               in bind_res (run_loop fuel X me j tot (set_finalizers j (f\<lparr>running_next := Some 0\<rparr>) s)) (\<lambda>_ s.
                    if read_next j s = -1 then Ret () s
                    else case get_finalizers j s of
                           None \<Rightarrow> Ret () s
                         | Some f \<Rightarrow>
                             (let lst = (case run_finalizers f of None \<Rightarrow> [] | Some l \<Rightarrow> l);
                                  f = f\<lparr>running_next := None\<rparr>
                              in if length lst > tot
                                 then execute_finalizers_restart n fuel X me j
                                        (set_finalizers j (f\<lparr>run_finalizers := Some (moved_items tot lst)\<rparr>) s)
                                 else Ret () (set_finalizers j (f\<lparr>run_finalizers := None\<rparr>) s))))"

definition execute_finalizers :: "nat \<Rightarrow> ext \<Rightarrow> nat \<Rightarrow> nat \<Rightarrow> stm \<Rightarrow> (stm, unit) res" where
  "execute_finalizers fuel X me j s =
     (case get_finalizers j s of
        None \<Rightarrow> Ret () s
      | Some f \<Rightarrow> if run_finalizers f = None then Ret () s
                  else execute_finalizers_restart fuel fuel X me j s)"

definition any_local_finalizers :: "nat \<Rightarrow> stm \<Rightarrow> bool" where
  "any_local_finalizers me s \<longleftrightarrow>
     (case finalizers (segs s me) of None \<Rightarrow> False | Some f \<Rightarrow> run_finalizers f \<noteq> None)"

definition exec_local_finalizers :: "nat \<Rightarrow> ext \<Rightarrow> nat \<Rightarrow> stm \<Rightarrow> (stm, unit) res" where
  "exec_local_finalizers fuel X me s =
     (if any_local_finalizers me s then execute_finalizers fuel X me me s else Ret () s)"

section \<open>Finalizers that are appended while others run\<close>

lemma get_set_finalizers [simp]: "get_finalizers j (set_finalizers j f s) = Some f"
  by (simp add: get_finalizers_def set_finalizers_def)

text \<open>What a major collection inside a finalizer does: \<open>LIST_APPEND\<close> to the list that is being run.\<close>

definition append_run_finalizers :: "nat \<Rightarrow> nat list \<Rightarrow> stm \<Rightarrow> stm" where
  "append_run_finalizers j xs s =
     (case get_finalizers j s of
        None \<Rightarrow> s
      | Some f \<Rightarrow> set_finalizers j (f\<lparr>run_finalizers :=
          Some ((case run_finalizers f of None \<Rightarrow> [] | Some l \<Rightarrow> l) @ xs)\<rparr>) s)"

text \<open>
  A finalizer that is called is noted by \<open>note\<close>; the one of \<open>a\<close> also makes the objects \<open>xs\<close> ready for
  theirs. \<open>calls\<close> is the list of the calls so far.
\<close>

definition noted_calls :: "ext \<Rightarrow> nat \<Rightarrow> nat \<Rightarrow> nat \<Rightarrow> nat list \<Rightarrow> (nat \<Rightarrow> stm \<Rightarrow> stm) \<Rightarrow> (stm \<Rightarrow> nat list) \<Rightarrow> bool" where
  "noted_calls X me j a xs note_call calls \<longleftrightarrow>
     (\<forall>obj s. stmcb_finalizer X me obj s =
        (if obj = a then append_run_finalizers j xs (note_call obj s) else note_call obj s)) \<and>
     (\<forall>obj s. get_finalizers j (note_call obj s) = get_finalizers j s) \<and>
     (\<forall>obj s. calls (note_call obj s) = calls s @ [obj]) \<and> (\<forall>f s. calls (set_finalizers j f s) = calls s)"

abbreviation appended_by :: "nat \<Rightarrow> nat list \<Rightarrow> nat list \<Rightarrow> nat list" where
  "appended_by a xs objs \<equiv> concat (map (\<lambda>obj. if obj = a then xs else []) objs)"

text \<open>One pass over the first \<open>tot\<close> items, from the item \<open>k\<close> on.\<close>

lemma run_loop_pass:
  assumes cb: "noted_calls X me j a xs note_call calls"
  shows "get_finalizers j s = Some f \<Longrightarrow> run_finalizers f = Some lst \<Longrightarrow> running_next f = Some (int k) \<Longrightarrow>
    tot \<le> length lst \<Longrightarrow> k \<le> tot \<Longrightarrow> tot - k < n \<Longrightarrow>
    \<exists>s' f'. run_loop n X me j tot s = Ret () s' \<and> get_finalizers j s' = Some f' \<and> running_next f' = Some (int tot) \<and>
      run_finalizers f' = Some (take k lst @ replicate (tot - k) 0 @ drop tot lst @ appended_by a xs (drop k (take tot lst))) \<and>
      calls s' = calls s @ drop k (take tot lst)"
proof (induction n arbitrary: s f lst k)
  case (Suc n)
  have nx: "read_next j s = int k" using Suc.prems by (simp add: read_next_def)
  show ?case
  proof (cases "k < tot")
    case True
    define obj where "obj = lst ! k"
    let ?f = "f\<lparr>run_finalizers := Some (lst[k := 0]), running_next := Some (int k + 1)\<rparr>"
    define u where "u = stmcb_finalizer X me obj (set_finalizers j ?f s)"
    let ?new = "if obj = a then xs else []"
    define g where "g = ?f\<lparr>run_finalizers := Some (lst[k := 0] @ ?new)\<rparr>"
    have step: "run_loop (Suc n) X me j tot s = run_loop n X me j tot u"
      using True Suc.prems(1,2) nx by (simp add: Let_def u_def obj_def)
    have u: "get_finalizers j u = Some g" "calls u = calls s @ [obj]"
      using cb by (simp_all add: noted_calls_def u_def append_run_finalizers_def g_def)
    have "\<exists>s' f'. run_loop n X me j tot u = Ret () s' \<and> get_finalizers j s' = Some f' \<and> running_next f' = Some (int tot) \<and>
      run_finalizers f' = Some (take (Suc k) (lst[k := 0] @ ?new) @ replicate (tot - Suc k) 0 @ drop tot (lst[k := 0] @ ?new) @
        appended_by a xs (drop (Suc k) (take tot (lst[k := 0] @ ?new)))) \<and>
      calls s' = calls u @ drop (Suc k) (take tot (lst[k := 0] @ ?new))"
      by (rule Suc.IH [OF u(1)]) (use True Suc.prems in \<open>simp_all add: g_def\<close>)
    then obtain s' f' where s': "run_loop n X me j tot u = Ret () s'" "get_finalizers j s' = Some f'"
      "running_next f' = Some (int tot)"
      "run_finalizers f' = Some (take (Suc k) (lst[k := 0] @ ?new) @ replicate (tot - Suc k) 0 @ drop tot (lst[k := 0] @ ?new) @
        appended_by a xs (drop (Suc k) (take tot (lst[k := 0] @ ?new))))"
      "calls s' = calls u @ drop (Suc k) (take tot (lst[k := 0] @ ?new))" by blast
    have k: "k < length lst" using True Suc.prems(4) by simp
    have d: "drop (Suc k) (take tot (lst[k := 0] @ ?new)) = drop (Suc k) (take tot lst)"
      using True Suc.prems(4) by (simp add: drop_take)
    have hd: "drop k (take tot lst) = obj # drop (Suc k) (take tot lst)"
      using True Suc.prems(4) by (simp add: obj_def Cons_nth_drop_Suc [symmetric])
    have "take (Suc k) (lst[k := 0]) = take k lst @ [0]" using k by (simp add: take_Suc_conv_app_nth)
    moreover have "replicate (tot - k) (0 :: nat) = 0 # replicate (tot - Suc k) 0"
      using True by (simp add: Suc_diff_Suc replicate_Suc [symmetric] del: replicate_Suc)
    moreover have "drop tot (lst[k := 0]) = drop tot lst" using True by simp
    ultimately have l: "take (Suc k) (lst[k := 0] @ ?new) @ replicate (tot - Suc k) 0 @ drop tot (lst[k := 0] @ ?new) @
        appended_by a xs (drop (Suc k) (take tot lst)) =
      take k lst @ replicate (tot - k) 0 @ drop tot lst @ appended_by a xs (drop k (take tot lst))"
      using k Suc.prems(4) unfolding hd by simp
    show ?thesis unfolding step using s' u(2) unfolding d l hd by (intro exI [of _ s'] exI [of _ f']) simp
  next
    case False
    then have "k = tot" using Suc.prems(5) by simp
    moreover have "run_loop (Suc n) X me j tot s = Ret () s" using False nx by (simp add: Let_def)
    ultimately show ?thesis using Suc.prems by (intro exI [of _ s] exI [of _ f]) simp
  qed
qed simp

lemma appended_once: "distinct ys \<Longrightarrow> appended_by a xs ys = (if a \<in> set ys then xs else [])"
  by (induction ys) auto

lemma execute_appended:
  assumes cb: "noted_calls X me j a xs note_call calls"
    and f: "get_finalizers j s = Some f" "run_finalizers f = Some ys" "running_next f = None"
    and a: "distinct ys" "a \<in> set ys" "a \<noteq> 0" "a \<notin> set xs" and xs: "xs \<noteq> []" and fuel: "length ys + length xs < fuel"
  shows "\<exists>s' f'. execute_finalizers fuel X me j s = Ret () s' \<and>
    calls s' = calls s @ ys @ xs @ drop (length xs) (replicate (length ys) 0 @ xs) \<and>
    get_finalizers j s' = Some f' \<and> run_finalizers f' = None \<and> running_next f' = None"
proof -
  let ?m = "length ys" let ?two = "xs @ drop (length xs) (replicate ?m 0 @ xs)"
  obtain n where n: "fuel = Suc (Suc n)" using fuel xs a(2) by (cases fuel; cases "fuel - 1"; cases ys; cases xs) auto
  let ?s1 = "set_finalizers j (f\<lparr>running_next := Some 0\<rparr>) s"
  obtain s2 f2 where one: "run_loop fuel X me j ?m ?s1 = Ret () s2" "get_finalizers j s2 = Some f2" "running_next f2 = Some (int ?m)"
    "run_finalizers f2 = Some (replicate ?m 0 @ xs)" "calls s2 = calls s @ ys"
    using run_loop_pass [OF cb, of ?s1 "f\<lparr>running_next := Some 0\<rparr>" ys 0 ?m fuel] f fuel a appended_once [OF a(1), of a xs] cb
    by (auto simp: noted_calls_def)
  have r1: "read_next j s2 \<noteq> -1" using one by (simp add: read_next_def)
  have m: "moved_items ?m (replicate ?m 0 @ xs) = ?two" by (simp add: moved_items_def)
  let ?f3 = "f2\<lparr>running_next := None, run_finalizers := Some ?two\<rparr>"
  let ?s3 = "set_finalizers j ?f3 s2"
  have len: "length ?two = ?m + length xs" by simp
  have na: "appended_by a xs ?two = []" using a(3,4) set_drop_subset [of "length xs" "replicate ?m 0 @ xs"] by auto
  let ?s4 = "set_finalizers j (?f3\<lparr>running_next := Some 0\<rparr>) ?s3"
  obtain s5 f5 where two: "run_loop fuel X me j (length ?two) ?s4 = Ret () s5" "get_finalizers j s5 = Some f5"
    "running_next f5 = Some (int (length ?two))" "run_finalizers f5 = Some (replicate (length ?two) 0)" "calls s5 = calls s @ ys @ ?two"
  proof -
    have c4: "calls ?s4 = calls s @ ys" using cb one(5) by (simp only: noted_calls_def)
    have "length ?two - 0 < fuel" using fuel len by simp
    note pass = run_loop_pass [OF cb, of ?s4 "?f3\<lparr>running_next := Some 0\<rparr>" ?two 0 "length ?two" fuel, OF _ _ _ order_refl _ this]
    have "\<exists>s5 f5. run_loop fuel X me j (length ?two) ?s4 = Ret () s5 \<and> get_finalizers j s5 = Some f5 \<and>
      running_next f5 = Some (int (length ?two)) \<and>
      run_finalizers f5 = Some (take 0 ?two @ replicate (length ?two - 0) 0 @ drop (length ?two) ?two @
        appended_by a xs (drop 0 (take (length ?two) ?two))) \<and>
      calls s5 = calls ?s4 @ drop 0 (take (length ?two) ?two)"
      by (rule pass) simp_all
    moreover have "drop 0 (take (length ?two) ?two) = ?two" by (simp only: take_all order_refl drop_0)
    moreover have "take 0 ?two @ replicate (length ?two - 0) 0 @ drop (length ?two) ?two @ [] = replicate (length ?two) 0"
      by (simp only: take_0 drop_all order_refl diff_zero append_Nil append_Nil2)
    ultimately show thesis using that na c4 by (simp only: append_assoc) blast
  qed
  have r2: "read_next j s5 \<noteq> -1" using two by (simp add: read_next_def)
  let ?s6 = "set_finalizers j (f5\<lparr>running_next := None, run_finalizers := None\<rparr>) s5"
  have e1: "execute_finalizers_restart (Suc (Suc n)) fuel X me j s = execute_finalizers_restart (Suc n) fuel X me j ?s3"
    using f one r1 xs m by (simp add: Let_def)
  have e2: "execute_finalizers_restart (Suc n) fuel X me j ?s3 = Ret () ?s6"
    using two r2 by (simp add: Let_def)
  have "execute_finalizers fuel X me j s = execute_finalizers_restart (Suc (Suc n)) fuel X me j s"
    using f n by (simp add: execute_finalizers_def)
  then have "execute_finalizers fuel X me j s = Ret () ?s6" unfolding e1 e2 .
  moreover have "calls ?s6 = calls s @ ys @ ?two" using two(5) cb by (simp add: noted_calls_def)
  ultimately show ?thesis
    by (intro exI [of _ ?s6] exI [of _ "f5\<lparr>running_next := None, run_finalizers := None\<rparr>"]) simp
qed

end
