(* ===== verification/Majorgc.thy ===== *)
theory Majorgc
  imports Finalizer
begin

text \<open>
  The major collection as a whole (\<open>gcpage.c\<close>), the old weakrefs (\<open>weakref.c\<close>), and what
  may collect: \<open>stm_collect\<close>, the allocators of \<open>nursery.c\<close>, \<open>weakref.c\<close> and
  \<open>finalizer.c\<close>; also the shadows of \<open>nursery.c\<close> and \<open>hash_id.c\<close>.
\<close>

section \<open>Old weakrefs\<close>

text \<open>The loop of \<open>stm_visit_old_weakrefs\<close> over one list, from index \<open>n\<close> down.\<close>

fun visit_old_weakrefs :: "nat \<Rightarrow> nat \<Rightarrow> nat list \<Rightarrow> stm \<Rightarrow> nat list \<times> stm" where
  "visit_old_weakrefs i 0 lst s = (lst, s)"
| "visit_old_weakrefs i (Suc n) lst s =
     (let weakref = lst ! n; removed = butlast (lst[n := last lst])
      in if \<not> mark_visited_test s weakref then visit_old_weakrefs i n removed s
         else let pointing_to = vload64 s i (WEAKREF_PTR weakref 16)
              in if \<not> mark_visited_test s pointing_to
                 then visit_old_weakrefs i n removed (set_weakref_in_all_segments weakref 0 s)
                 else visit_old_weakrefs i n lst s)"

definition stm_visit_old_weakrefs :: "stm \<Rightarrow> stm" where
  "stm_visit_old_weakrefs s = foreach_f segments (\<lambda>i s.
     let lst = old_weakrefs (segs s i); (lst, s) = visit_old_weakrefs i (length lst) lst s
     in upd_seg i (\<lambda>p. p\<lparr>old_weakrefs := lst\<rparr>) s) s"

section \<open>The collection\<close>

definition major_mark :: "nat \<Rightarrow> ext \<Rightarrow> stm \<Rightarrow> (stm, unit) res" where
  "major_mark fuel X s =
     bind_res (mark_visit_from_modified_objects fuel X s) (\<lambda>_ s.
     bind_res (mark_visit_from_markers fuel X s) (\<lambda>_ s.
     bind_res (mark_visit_from_roots fuel X s) (\<lambda>_ s.
       mark_visit_from_finalizer_pending fuel X s)))"

definition major_collection_now_at_safe_point :: "nat \<Rightarrow> ext \<Rightarrow> stm \<Rightarrow> (stm, unit) res" where
  "major_collection_now_at_safe_point fuel X s =
     bind_res (major_do_minor_collections fuel X s) (\<lambda>_ s.
     bind_res (major_reshare_pages X s) (\<lambda>_ s.
     bind_res (major_mark fuel X s) (\<lambda>_ s.
     bind_res (deal_with_objects_with_finalizers fuel X s) (\<lambda>_ s.
       let s = stm_visit_old_weakrefs s;
           s = deal_with_old_objects_with_finalizers s;
           s = clean_up_segment_lists X s
       in bind_res (sweep_large_objects fuel s) (\<lambda>_ s.
            Ret () (upd_ctl (reset_major_collection_requested (gc_scale X))
              (major_restore_write_locks (clean_write_locks s))))))))"

definition major_requested :: "stm \<Rightarrow> bool" where
  "major_requested s = is_major_collection_requested (ctl (lm s))"

definition major_collection_if_requested :: "nat \<Rightarrow> ext \<Rightarrow> nat \<Rightarrow> stm \<Rightarrow> (stm, unit) res" where
  "major_collection_if_requested fuel X me s =
     (if \<not> major_requested s then Ret () s
      else let s = timing_event X (running_thread (segs s me)) STM_GC_MAJOR_START s
           in bind_res (synchronize_all_threads fuel X me STOP_OTHERS_UNTIL_MUTEX_UNLOCK s) (\<lambda>_ s.
              bind_res (if major_requested s then major_collection_now_at_safe_point fuel X s else Ret () s) (\<lambda>_ s.
                let s = timing_event X (running_thread (segs s me)) STM_GC_MAJOR_DONE s
                in exec_local_finalizers fuel X me s)))"

definition stm_collect :: "nat \<Rightarrow> ext \<Rightarrow> nat \<Rightarrow> int \<Rightarrow> stm \<Rightarrow> (stm, unit) res" where
  "stm_collect fuel X me level s =
     (let s = (if level > 0 then upd_ctl force_major_collection_request s else s)
      in bind_res (minor_collection fuel X me False s) (\<lambda>_ s. major_collection_if_requested fuel X me s))"

section \<open>Allocation\<close>

text \<open>The loop \<open>restart\<close>; \<open>n\<close> bounds the collections it takes to make room.\<close>

fun stm_allocate_restart :: "nat \<Rightarrow> nat \<Rightarrow> ext \<Rightarrow> nat \<Rightarrow> nat \<Rightarrow> stm \<Rightarrow> (stm, nat) res" where
  "stm_allocate_restart 0 fuel X me sz s = Hang s"
| "stm_allocate_restart (Suc n) fuel X me sz s =
     bind_res (stm_safe_point fuel X me s) (\<lambda>_ s.
       let p = nursery_current (segs s me); end_addr = p + sz
       in if end_addr \<le> NURSERY_END then Ret p (upd_seg me (\<lambda>ps. ps\<lparr>nursery_current := end_addr\<rparr>) s)
          else bind_res (stm_collect fuel X me 0 s) (\<lambda>_ s. stm_allocate_restart n fuel X me sz s))"

definition stm_allocate_slowpath :: "nat \<Rightarrow> ext \<Rightarrow> nat \<Rightarrow> nat \<Rightarrow> stm \<Rightarrow> (stm, nat) res" where
  "stm_allocate_slowpath fuel X me sz s =
     stm_allocate_restart fuel fuel X me sz (upd_seg me (\<lambda>p. p\<lparr>nursery_current := nursery_current p - sz\<rparr>) s)"

definition stm_allocate_external :: "nat \<Rightarrow> ext \<Rightarrow> nat \<Rightarrow> nat \<Rightarrow> stm \<Rightarrow> (stm, nat) res" where
  "stm_allocate_external fuel X me sz s =
     bind_res (if major_requested s then stm_collect fuel X me 0 s else Ret () s) (\<lambda>_ s.
     bind_res (allocate_outside_nursery_large sz s) (\<lambda>x s.
       case tree_insert insert_fuel (\<lambda>_. True) (young_outside_nursery (segs s me)) (of_nat x) 0 of
         Inl e \<Rightarrow> Fatal ''tree_insert'' s
       | Inr t \<Rightarrow> Ret x (memset0 me x sz (upd_seg me (\<lambda>p. p\<lparr>young_outside_nursery := t\<rparr>) s))))"

definition stm_allocate :: "nat \<Rightarrow> ext \<Rightarrow> nat \<Rightarrow> nat \<Rightarrow> stm \<Rightarrow> (stm, nat) res" where
  "stm_allocate fuel X me sz s =
     (if sz \<ge> STM_FAST_ALLOC then stm_allocate_external fuel X me sz s
      else let p = nursery_current (segs s me); end_addr = p + sz;
               s = upd_seg me (\<lambda>ps. ps\<lparr>nursery_current := end_addr\<rparr>) s
           in if end_addr > nursery_end (segs s me) then stm_allocate_slowpath fuel X me sz s
              else Ret p s)"

definition stm_allocate_weakref :: "nat \<Rightarrow> ext \<Rightarrow> nat \<Rightarrow> nat \<Rightarrow> stm \<Rightarrow> (stm, nat) res" where
  "stm_allocate_weakref fuel X me sz s =
     bind_res (stm_allocate fuel X me sz s) (\<lambda>obj s.
       Ret obj (upd_seg me (\<lambda>p. p\<lparr>young_weakrefs := young_weakrefs p @ [obj]\<rparr>) s))"

definition stm_allocate_with_finalizer :: "nat \<Rightarrow> ext \<Rightarrow> nat \<Rightarrow> nat \<Rightarrow> stm \<Rightarrow> (stm, nat) res" where
  "stm_allocate_with_finalizer fuel X me sz s =
     bind_res (stm_allocate_external fuel X me sz s) (\<lambda>obj s.
       let f = (case finalizers (segs s me) of None \<Rightarrow> init_finalizers | Some f \<Rightarrow> f)
       in Ret obj (upd_seg me (\<lambda>p. p\<lparr>finalizers :=
            Some (f\<lparr>objects_with_finalizers := objects_with_finalizers f @ [obj]\<rparr>)\<rparr>) s))"

section \<open>Shadows, identity and hash\<close>

definition allocate_shadow :: "ext \<Rightarrow> nat \<Rightarrow> nat \<Rightarrow> stm \<Rightarrow> (stm, nat) res" where
  "allocate_shadow X me obj s =
     (let sz = obj_size X s me obj
      in bind_res (allocate_outside_nursery_large sz s) (\<lambda>nobj s.
           let s = memcpy me nobj me obj sz s;
               s = stm_flags_or me obj GCFLAG_HAS_SHADOW s
           in case tree_insert insert_fuel (\<lambda>_. True) (nursery_objects_shadows (segs s me)) (of_nat obj) (of_nat nobj) of
                Inl e \<Rightarrow> Fatal ''tree_insert'' s
              | Inr t \<Rightarrow> Ret nobj (upd_seg me (\<lambda>p. p\<lparr>nursery_objects_shadows := t\<rparr>) s)))"

definition find_shadow :: "ext \<Rightarrow> nat \<Rightarrow> nat \<Rightarrow> stm \<Rightarrow> (stm, nat) res" where
  "find_shadow X me obj s =
     (if has_flag (stm_flags s me obj) GCFLAG_HAS_SHADOW then find_existing_shadow me obj s
      else allocate_shadow X me obj s)"

text \<open>\<open>long\<close> values are 64-bit words; the shift is arithmetic.\<close>

definition mangle_hash :: "u64 \<Rightarrow> u64" where
  "mangle_hash i = i XOR signed_drop_bit 5 i"

definition id_or_identityhash :: "ext \<Rightarrow> nat \<Rightarrow> nat \<Rightarrow> bool \<Rightarrow> stm \<Rightarrow> (stm, u64) res" where
  "id_or_identityhash X me obj is_hash s =
     (let finish = (\<lambda>obj s. let result = of_nat obj
                            in Ret (if is_hash then mangle_hash result else result) s)
      in if obj \<noteq> 0
         then if is_in_nursery obj then bind_res (find_shadow X me obj s) (\<lambda>obj s. finish obj s)
              else if is_hash \<and> has_flag (stm_flags s me obj) GCFLAG_HAS_SHADOW
              then Ret (load64 (vread s me) (obj + obj_size X s me obj)) s
              else finish obj s
         else finish obj s)"

definition stm_id :: "ext \<Rightarrow> nat \<Rightarrow> nat \<Rightarrow> stm \<Rightarrow> (stm, u64) res" where
  "stm_id X me obj s = id_or_identityhash X me obj False s"

definition stm_identityhash :: "ext \<Rightarrow> nat \<Rightarrow> nat \<Rightarrow> stm \<Rightarrow> (stm, u64) res" where
  "stm_identityhash X me obj s = id_or_identityhash X me obj True s"

definition stm_set_prebuilt_identityhash :: "ext \<Rightarrow> nat \<Rightarrow> u64 \<Rightarrow> stm \<Rightarrow> stm" where
  "stm_set_prebuilt_identityhash X obj hash s =
     (let s = set_stm_flags 0 obj (stm_flags s 0 obj OR GCFLAG_HAS_SHADOW) s
      in vfill 0 (obj + obj_size X s 0 obj) 8 (\<lambda>x. byte_of64 hash (x - (obj + obj_size X s 0 obj))) s)"

end
