(* ===== verification/Prebuilt.thy ===== *)
theory Prebuilt
  imports Majorgc
begin

text \<open>
  \<open>c7/stm/prebuilt.c\<close>: the objects compiled into the program are copied to the heap, each one
  once, and the references between the copies are redirected. \<open>static\<close> is the memory of the
  program that holds the originals; the copies are written in segment 0.
\<close>

type_synonym prebuilt = "tree_s \<times> nat list \<times> stm"

text \<open>The result is what \<open>prebuilt_trace\<close> stores into the field.\<close>

definition prebuilt_trace :: "ext \<Rightarrow> (nat \<Rightarrow> u8) \<Rightarrow> nat \<Rightarrow> nat \<Rightarrow> prebuilt \<Rightarrow> (prebuilt, nat) res" where
  "prebuilt_trace X static me obj st =
     (let (tr, todo, s) = st
      in if obj = 0 then Ret 0 st
         else case tree_lookup tr (of_nat obj) of
                Some v \<Rightarrow> Ret (unat v) st
              | None \<Rightarrow>
                  let sz = stmcb_size_rounded_up X (\<lambda>i. static (obj + i))
                  in case stm_allocate_old me (sz + 8) s of
                       Ret nobj s \<Rightarrow>
                         let s = vfill 0 nobj sz (\<lambda>x. static (obj + (x - nobj))) s;
                             s = set_stm_flags me nobj GCFLAG_WRITE_BARRIER s
                         in (case tree_insert insert_fuel (\<lambda>_. True) tr (of_nat obj) (of_nat nobj) of
                               Inl e \<Rightarrow> Fatal ''tree_insert'' (tr, todo, s)
                             | Inr tr \<Rightarrow> Ret nobj (tr, todo @ [nobj], s))
                     | Aborted s \<Rightarrow> Aborted (tr, todo, s)
                     | Fatal m s \<Rightarrow> Fatal m (tr, todo, s)
                     | Hang s \<Rightarrow> Hang (tr, todo, s))"

fun prebuilt_fields :: "ext \<Rightarrow> (nat \<Rightarrow> u8) \<Rightarrow> nat \<Rightarrow> nat \<Rightarrow> nat list \<Rightarrow> prebuilt \<Rightarrow> (prebuilt, unit) res" where
  "prebuilt_fields X static me obj [] st = Ret () st"
| "prebuilt_fields X static me obj (off # offs) st =
     bind_res (prebuilt_trace X static me (vload64 (snd (snd st)) 0 (obj + off)) st)
       (\<lambda>p (tr, todo, s). prebuilt_fields X static me obj offs (tr, todo, vstore64 0 (obj + off) p s))"

text \<open>The fuel is the number of objects to copy.\<close>

fun prebuilt_loop :: "nat \<Rightarrow> ext \<Rightarrow> (nat \<Rightarrow> u8) \<Rightarrow> nat \<Rightarrow> prebuilt \<Rightarrow> (prebuilt, unit) res" where
  "prebuilt_loop 0 X static me (tr, todo, s) = (if todo = [] then Ret () (tr, todo, s) else Hang (tr, todo, s))"
| "prebuilt_loop (Suc n) X static me (tr, todo, s) =
     (if todo = [] then Ret () (tr, todo, s)
      else let obj = last todo
           in bind_res (prebuilt_fields X static me obj (stmcb_trace X (obj_bytes s 0 obj)) (tr, butlast todo, s))
                (\<lambda>_. prebuilt_loop n X static me))"

text \<open>\<open>tr\<close> is \<open>tree_prebuilt_objs\<close>, which lives on between the calls, None when NULL.\<close>

definition stm_setup_prebuilt ::
  "nat \<Rightarrow> ext \<Rightarrow> (nat \<Rightarrow> u8) \<Rightarrow> nat \<Rightarrow> nat \<Rightarrow> tree_s option \<Rightarrow> stm \<Rightarrow> (prebuilt, nat) res" where
  "stm_setup_prebuilt fuel X static me staticobj tr s =
     (let tr = (case tr of None \<Rightarrow> tree_create | Some t \<Rightarrow> t)
      in bind_res (prebuilt_trace X static me staticobj (tr, [], s)) (\<lambda>obj st.
         bind_res (prebuilt_loop fuel X static me st) (\<lambda>_ st. Ret obj st)))"

end
