(* ===== verification/Hashtable.thy ===== *)
theory Hashtable
  imports Majorgc
begin

text \<open>
  \<open>c7/stm/hashtable.c\<close>: open addressing with entries that are objects of the heap. A table
  is raw memory: \<open>hs_tables\<close> maps the address of an allocated table to its contents, and an
  even non-zero \<open>resize_counter\<close> is the address of the next table. The items are the
  addresses of the entries, 0 for NULL. A lookup is one atomic step, so it never finds the
  table locked by another thread.
\<close>

section \<open>Tables\<close>

definition INITIAL_HASHTABLE_SIZE :: nat where "INITIAL_HASHTABLE_SIZE = 8"
definition PERTURB_SHIFT :: nat where "PERTURB_SHIFT = 5"
definition RESIZING_LOCK :: u64 where "RESIZING_LOCK = 0"

record hashtable_table =
  mask :: u64
  resize_counter :: u64
  items :: "nat list"

text \<open>\<open>hs_malloc\<close> is the address that the next \<open>malloc\<close> returns; \<open>INITIAL_TABLE\<close> that of \<open>initial_table\<close>.\<close>

record hashtable_s =
  hs_table :: u64
  hs_tables :: "u64 \<Rightarrow> hashtable_table option"
  additions :: u64
  hs_malloc :: u64

definition INITIAL_TABLE :: u64 where "INITIAL_TABLE = 16"

definition IS_EVEN :: "u64 \<Rightarrow> bool" where "IS_EVEN p \<longleftrightarrow> p AND 1 = 0"

definition init_table :: "u64 \<Rightarrow> hashtable_table" where
  "init_table itemcount = \<lparr>mask = itemcount - 1, resize_counter = itemcount * 4 + 1,
     items = replicate (unat itemcount) 0\<rparr>"

definition stm_hashtable_create :: "u64 \<Rightarrow> hashtable_s" where
  "stm_hashtable_create next_malloc =
     \<lparr>hs_table = INITIAL_TABLE, hs_tables = [INITIAL_TABLE \<mapsto> init_table (of_nat INITIAL_HASHTABLE_SIZE)],
      additions = 0, hs_malloc = next_malloc\<rparr>"

text \<open>\<open>stm_hashtable_free\<close> follows the chain of tables; the result is what stays allocated.\<close>

fun free_chain :: "nat \<Rightarrow> u64 \<Rightarrow> (u64 \<Rightarrow> hashtable_table option) \<Rightarrow> (u64 \<Rightarrow> hashtable_table option) option" where
  "free_chain 0 rc tabs = None"
| "free_chain (Suc n) rc tabs =
     (if \<not> IS_EVEN rc then Some tabs
      else case tabs rc of
             None \<Rightarrow> None
           | Some t \<Rightarrow> free_chain n (resize_counter t) (tabs(rc := None)))"

definition stm_hashtable_free :: "nat \<Rightarrow> hashtable_s \<Rightarrow> (u64 \<Rightarrow> hashtable_table option) option" where
  "stm_hashtable_free fuel h =
     (case hs_tables h INITIAL_TABLE of
        None \<Rightarrow> None
      | Some t \<Rightarrow> free_chain fuel (resize_counter t) ((hs_tables h)(INITIAL_TABLE := None)))"

section \<open>Probing\<close>

text \<open>One step: \<open>i = (i << 2) + i + perturb + 1\<close>, masked.\<close>

definition next_probe :: "u64 \<Rightarrow> u64 \<Rightarrow> u64 \<Rightarrow> u64" where
  "next_probe msk i perturb = (push_bit 2 i + i + perturb + 1) AND msk"

text \<open>
  The slot where the probing from slot \<open>i\<close> on stops: the first one that is NULL or, if
  \<open>stop\<close> says so of the entry there, not. The fuel bounds the number of slots.
\<close>

fun probe :: "nat \<Rightarrow> (nat \<Rightarrow> bool) \<Rightarrow> hashtable_table \<Rightarrow> u64 \<Rightarrow> u64 \<Rightarrow> u64 option" where
  "probe 0 stop t i perturb = None"
| "probe (Suc n) stop t i perturb =
     (if items t ! unat i = 0 \<or> stop (items t ! unat i) then Some i
      else probe n stop t (next_probe (mask t) i perturb) (drop_bit PERTURB_SHIFT perturb))"

definition probe_from :: "nat \<Rightarrow> (nat \<Rightarrow> bool) \<Rightarrow> hashtable_table \<Rightarrow> u64 \<Rightarrow> u64 option" where
  "probe_from n stop t index = probe n stop t (index AND mask t) index"

text \<open>The fuel: the steps until \<open>perturb\<close> is 0, then one round over the table.\<close>

definition probe_fuel :: "hashtable_table \<Rightarrow> nat" where
  "probe_fuel t = 13 + length (items t)"

definition set_item :: "u64 \<Rightarrow> nat \<Rightarrow> hashtable_table \<Rightarrow> hashtable_table" where
  "set_item i entry t = t\<lparr>items := (items t)[unat i := entry]\<rparr>"

text \<open>\<open>idx\<close> reads the field \<open>index\<close> of an entry. None stands for probing forever.\<close>

definition insert_clean :: "(nat \<Rightarrow> u64) \<Rightarrow> nat \<Rightarrow> hashtable_table \<Rightarrow> hashtable_table option" where
  "insert_clean idx entry t =
     map_option (\<lambda>i. set_item i entry t) (probe_from (probe_fuel t) (\<lambda>_. False) t (idx entry))"

text \<open>The loop of \<open>_stm_rehash_hashtable\<close> over the items; \<open>dead\<close> says which entries go.\<close>

fun rehash_loop :: "(nat \<Rightarrow> u64) \<Rightarrow> (nat \<Rightarrow> bool) \<Rightarrow> nat list \<Rightarrow> u64 \<Rightarrow> hashtable_table \<Rightarrow> (u64 \<times> hashtable_table) option" where
  "rehash_loop idx dead [] rc t = Some (rc, t)"
| "rehash_loop idx dead (entry # es) rc t =
     (if entry = 0 \<or> dead entry then rehash_loop idx dead es rc t
      else case insert_clean idx entry t of
             None \<Rightarrow> None
           | Some t \<Rightarrow> rehash_loop idx dead es (rc - 6) t)"

definition rehash_hashtable :: "(nat \<Rightarrow> u64) \<Rightarrow> (nat \<Rightarrow> bool) \<Rightarrow> u64 \<Rightarrow> hashtable_s \<Rightarrow> hashtable_s option" where
  "rehash_hashtable idx dead biggercount h =
     (let bigger = hs_malloc h
      in case hs_tables h (hs_table h) of
           None \<Rightarrow> None
         | Some t \<Rightarrow>
             (let t = t\<lparr>resize_counter := bigger\<rparr>; b = init_table biggercount
              in case rehash_loop idx dead (items t) (resize_counter b) b of
                   None \<Rightarrow> None
                 | Some (rc, b) \<Rightarrow>
                     Some (h\<lparr>hs_tables := (hs_tables h)(hs_table h \<mapsto> t, bigger \<mapsto> b\<lparr>resize_counter := rc\<rparr>),
                             hs_table := bigger, hs_malloc := bigger + 16\<rparr>)))"

definition bigger_count :: "hashtable_table \<Rightarrow> u64" where
  "bigger_count t = (let c = mask t + 1 in if c < 50000 then c * 4 else c * 2)"

section \<open>Entries\<close>

text \<open>\<open>struct stm_hashtable_entry_s\<close>: \<open>userdata\<close> at 4, \<open>index\<close> at 8, \<open>object\<close> at 16.\<close>

definition ENTRY_SIZE :: nat where "ENTRY_SIZE = 24"

definition entry_index :: "stm \<Rightarrow> nat \<Rightarrow> nat \<Rightarrow> u64" where
  "entry_index s g e = load64 (vread s g) (e + 8)"

definition entry_object :: "stm \<Rightarrow> nat \<Rightarrow> nat \<Rightarrow> nat" where
  "entry_object s g e = vload64 s g (e + 16)"

definition was_read_by_anybody :: "stm \<Rightarrow> nat \<Rightarrow> bool" where
  "was_read_by_anybody s obj =
     list_ex (\<lambda>i. was_read_remote s i obj (transaction_read_version (segs s i))) segments"

definition dead_entry :: "stm \<Rightarrow> nat \<Rightarrow> nat \<Rightarrow> bool" where
  "dead_entry s remove_unread_from_seg e \<longleftrightarrow> remove_unread_from_seg \<noteq> 0 \<and>
     entry_object s remove_unread_from_seg e = 0 \<and> \<not> was_read_by_anybody s e"

definition fill_entry :: "nat \<Rightarrow> u32 \<Rightarrow> u64 \<Rightarrow> nat \<Rightarrow> stm \<Rightarrow> stm" where
  "fill_entry g userdata index e s =
     vstore64 g (e + 16) 0 (vstore64 g (e + 8) (unat index) (vstore32 g (e + 4) userdata s))"

definition fill_old_entry :: "u32 \<Rightarrow> u64 \<Rightarrow> nat \<Rightarrow> stm \<Rightarrow> stm" where
  "fill_old_entry userdata index e s =
     foreach_f [0..<NB_SEGMENTS + 1] (\<lambda>j s. fill_entry j userdata index e (set_stm_flags j e GCFLAG_WRITE_BARRIER s)) s"

section \<open>Lookup\<close>

text \<open>
  The new entry of \<open>stm_hashtable_lookup\<close> and the new \<open>additions\<close>; \<open>ud\<close> is
  \<open>stm_hashtable_entry_userdata\<close>. The allocation may collect, and the tracing of the
  hashtable by the program then replaces every item \<open>e\<close> by \<open>mv s e\<close>, its address in the
  state after the collection.
\<close>

definition new_entry :: "nat \<Rightarrow> ext \<Rightarrow> u32 \<Rightarrow> nat \<Rightarrow> nat \<Rightarrow> u64 \<Rightarrow> u64 \<Rightarrow> stm \<Rightarrow> (stm, nat \<times> u64) res" where
  "new_entry fuel X ud me hashtableobj adds index s =
     (if is_in_nursery hashtableobj
      then bind_res (stm_allocate fuel X me ENTRY_SIZE s) (\<lambda>e s.
             Ret (e, of_nat me) (fill_entry me ud index e s))
      else bind_res (allocate_outside_nursery_large ENTRY_SIZE s) (\<lambda>e s.
             Ret (e, adds + 0x100) (fill_old_entry ud index e s)))"

definition move_items :: "(nat \<Rightarrow> nat) \<Rightarrow> hashtable_table \<Rightarrow> hashtable_table" where
  "move_items f t = t\<lparr>items := map (\<lambda>e. if e = 0 then 0 else f e) (items t)\<rparr>"

text \<open>The end of the lookup, for a slot that is still NULL: with the lock taken.\<close>

definition add_entry ::
  "nat \<Rightarrow> ext \<Rightarrow> u32 \<Rightarrow> (stm \<Rightarrow> nat \<Rightarrow> nat) \<Rightarrow> nat \<Rightarrow> nat \<Rightarrow> hashtable_s \<Rightarrow> hashtable_table \<Rightarrow> u64 \<Rightarrow> u64 \<Rightarrow> stm \<Rightarrow>
   (stm, nat \<times> hashtable_s) res" where
  "add_entry fuel X ud mv me hashtableobj h t i index s =
     bind_res (new_entry fuel X ud me hashtableobj (additions h) index s) (\<lambda>(e, adds) s.
       let t' = (if is_in_nursery hashtableobj then move_items (mv s) t else t)
       in Ret (e, h\<lparr>hs_tables := (hs_tables h)(hs_table h \<mapsto>
                  (set_item i e t')\<lparr>resize_counter := resize_counter t - 6\<rparr>), additions := adds\<rparr>) s)"

text \<open>From \<open>restart\<close> on; after one rehash the second attempt finds room, so 2 is enough fuel.\<close>

fun hashtable_lookup ::
  "nat \<Rightarrow> nat \<Rightarrow> ext \<Rightarrow> u32 \<Rightarrow> (stm \<Rightarrow> nat \<Rightarrow> nat) \<Rightarrow> nat \<Rightarrow> nat \<Rightarrow> hashtable_s \<Rightarrow> u64 \<Rightarrow> stm \<Rightarrow> (stm, nat \<times> hashtable_s) res" where
  "hashtable_lookup 0 fuel X ud mv me hashtableobj h index s = Hang s"
| "hashtable_lookup (Suc n) fuel X ud mv me hashtableobj h index s =
     (case hs_tables h (hs_table h) of
        None \<Rightarrow> Fatal ''freed table'' s
      | Some t \<Rightarrow>
          (case probe_from (probe_fuel t) (\<lambda>e. entry_index s me e = index) t index of
             None \<Rightarrow> Hang s
           | Some i \<Rightarrow>
               let entry = items t ! unat i; rc = resize_counter t
               in if entry \<noteq> 0 then Ret (entry, h) s
                  else if IS_EVEN rc then hashtable_lookup n fuel X ud mv me hashtableobj h index s
                  else if rc > 6 then add_entry fuel X ud mv me hashtableobj h t i index s
                  else case rehash_hashtable (entry_index s me) (\<lambda>_. False) (bigger_count t) h of
                         None \<Rightarrow> Hang s
                       | Some h \<Rightarrow> hashtable_lookup n fuel X ud mv me hashtableobj h index s))"

definition stm_hashtable_lookup ::
  "nat \<Rightarrow> ext \<Rightarrow> u32 \<Rightarrow> (stm \<Rightarrow> nat \<Rightarrow> nat) \<Rightarrow> nat \<Rightarrow> nat \<Rightarrow> hashtable_s \<Rightarrow> u64 \<Rightarrow> stm \<Rightarrow> (stm, nat \<times> hashtable_s) res" where
  "stm_hashtable_lookup fuel X ud mv me hashtableobj h index s =
     hashtable_lookup 2 fuel X ud mv me hashtableobj h index s"

definition stm_hashtable_read ::
  "nat \<Rightarrow> ext \<Rightarrow> u32 \<Rightarrow> (stm \<Rightarrow> nat \<Rightarrow> nat) \<Rightarrow> nat \<Rightarrow> nat \<Rightarrow> hashtable_s \<Rightarrow> u64 \<Rightarrow> stm \<Rightarrow> (stm, nat \<times> hashtable_s) res" where
  "stm_hashtable_read fuel X ud mv me hobj h key s =
     bind_res (stm_hashtable_lookup fuel X ud mv me hobj h key s) (\<lambda>(e, h) s.
       let s = stm_read me e s in Ret (entry_object s me e, h) s)"

definition stm_hashtable_write ::
  "nat \<Rightarrow> ext \<Rightarrow> u32 \<Rightarrow> (stm \<Rightarrow> nat \<Rightarrow> nat) \<Rightarrow> nat \<Rightarrow> nat \<Rightarrow> hashtable_s \<Rightarrow> u64 \<Rightarrow> nat \<Rightarrow> nat \<Rightarrow> stm \<Rightarrow> (stm, hashtable_s) res" where
  "stm_hashtable_write fuel X ud mv me hobj h key nvalue t s =
     (let s = upd_tl t (\<lambda>x. x\<lparr>shadowstack := shadowstack x @ [nvalue]\<rparr>) s
      in bind_res (stm_hashtable_lookup fuel X ud mv me hobj h key s) (\<lambda>(e, h) s.
         bind_res (stm_write fuel X me e s) (\<lambda>_ s.
           let nvalue = last (shadowstack (tls s t));
               s = upd_tl t (\<lambda>x. x\<lparr>shadowstack := butlast (shadowstack x)\<rparr>) s
           in Ret h (vstore64 me (e + 16) nvalue s))))"

section \<open>Compaction\<close>

text \<open>\<open>while (count * 4 < num_entries_times_6) count *= 2;\<close>\<close>

fun compact_count :: "nat \<Rightarrow> u64 \<Rightarrow> u64 \<Rightarrow> u64" where
  "compact_count 0 needed count = count"
| "compact_count (Suc n) needed count =
     (if count * 4 < needed then compact_count n needed (count * 2) else count)"

text \<open>The old tables between the initial one and the current one are freed.\<close>

fun free_until :: "nat \<Rightarrow> u64 \<Rightarrow> u64 \<Rightarrow> (u64 \<Rightarrow> hashtable_table option) \<Rightarrow> (u64 \<Rightarrow> hashtable_table option) option" where
  "free_until 0 cur rc tabs = None"
| "free_until (Suc n) cur rc tabs =
     (if rc = cur then Some tabs
      else case tabs rc of
             None \<Rightarrow> None
           | Some t \<Rightarrow> free_until n cur (resize_counter t) (tabs(rc := None)))"

definition free_old_tables :: "nat \<Rightarrow> hashtable_s \<Rightarrow> hashtable_s option" where
  "free_old_tables fuel h =
     (if hs_table h = INITIAL_TABLE then Some h
      else case hs_tables h INITIAL_TABLE of
             None \<Rightarrow> None
           | Some t0 \<Rightarrow>
               (case free_until fuel (hs_table h) (resize_counter t0) (hs_tables h) of
                  None \<Rightarrow> None
                | Some tabs \<Rightarrow>
                    Some (h\<lparr>hs_tables := tabs(INITIAL_TABLE \<mapsto> t0\<lparr>resize_counter := hs_table h\<rparr>)\<rparr>)))"

definition compact_hashtable :: "nat \<Rightarrow> stm \<Rightarrow> nat \<Rightarrow> hashtable_s \<Rightarrow> hashtable_s option" where
  "compact_hashtable fuel s me h =
     (case hs_tables h (hs_table h) of
        None \<Rightarrow> None
      | Some t \<Rightarrow>
          (case (if drop_bit 8 (additions h) * 4 > mask t
                 then let segment_num = additions h AND 0xFF;
                          segment_num = (if segment_num = 0 then 1 else segment_num);
                          h = h\<lparr>additions := segment_num\<rparr>;
                          initial_rc = (mask t + 1) * 4 + 1;
                          num_entries_times_6 = initial_rc - resize_counter t;
                          count = compact_count 64 num_entries_times_6 (of_nat INITIAL_HASHTABLE_SIZE)
                      in rehash_hashtable (entry_index s me) (dead_entry s (unat segment_num)) count h
                 else Some h) of
             None \<Rightarrow> None
           | Some h \<Rightarrow> free_old_tables fuel h))"

text \<open>
  \<open>stm_hashtable_tracefn\<close>: the visitor may store a new address into an item. The table is
  compacted when \<open>trace\<close> is that of a major collection.
\<close>

fun trace_items :: "(nat \<Rightarrow> stm \<Rightarrow> (stm, nat option) res) \<Rightarrow> nat list \<Rightarrow> stm \<Rightarrow> (stm, nat list) res" where
  "trace_items f [] s = Ret [] s"
| "trace_items f (e # es) s =
     (if e = 0 then bind_res (trace_items f es s) (\<lambda>es s. Ret (0 # es) s)
      else bind_res (f e s) (\<lambda>r s. bind_res (trace_items f es s) (\<lambda>es s.
             Ret ((case r of None \<Rightarrow> e | Some p \<Rightarrow> p) # es) s)))"

definition stm_hashtable_tracefn ::
  "nat \<Rightarrow> bool \<Rightarrow> nat \<Rightarrow> (nat \<Rightarrow> stm \<Rightarrow> (stm, nat option) res) \<Rightarrow> hashtable_s \<Rightarrow> stm \<Rightarrow> (stm, hashtable_s) res" where
  "stm_hashtable_tracefn fuel is_major me f h s =
     (case (if is_major then compact_hashtable fuel s me h else Some h) of
        None \<Rightarrow> Hang s
      | Some h \<Rightarrow>
          (case hs_tables h (hs_table h) of
             None \<Rightarrow> Fatal ''freed table'' s
           | Some t \<Rightarrow> bind_res (trace_items f (items t) s) (\<lambda>es s.
               Ret (h\<lparr>hs_tables := (hs_tables h)(hs_table h \<mapsto> t\<lparr>items := es\<rparr>)\<rparr>) s)))"

end
