(* ===== verification/Probing.thy ===== *)
theory Probing
  imports Hashtable
begin

text \<open>
  The probe sequence of \<open>hashtable.c\<close>. Once \<open>perturb\<close> has run out, \<open>i \<mapsto> 5 * i + 1\<close>
  visits every slot of a table whose size is a power of two, so a lookup ends at the entry or
  at a free slot.
\<close>

section \<open>The period of \<open>5 * i + 1\<close>\<close>

definition lcg :: "nat \<Rightarrow> nat" where "lcg x = 5 * x + 1"

lemma lcg_pow: "(lcg ^^ n) x = x + (lcg ^^ n) 0 * (4 * x + 1)"
proof (induction n arbitrary: x)
  case (Suc n)
  have step: "(lcg ^^ Suc n) x = (lcg ^^ n) (5 * x + 1)" for x
    by (simp only: funpow_Suc_right o_apply lcg_def)
  have one: "(lcg ^^ Suc n) 0 = 1 + (lcg ^^ n) 0 * 5"
    using Suc [of 1] unfolding step by simp
  show ?case unfolding one unfolding step Suc [of "5 * x + 1"] by (simp only: algebra_simps)
qed simp

lemma lcg_double: "(lcg ^^ (n + n)) 0 = 2 * (lcg ^^ n) 0 * (2 * (lcg ^^ n) 0 + 1)"
  unfolding funpow_add o_apply by (subst lcg_pow) (simp add: algebra_simps)

lemma lcg_round: "\<exists>c. (lcg ^^ (2 ^ k)) 0 = 2 ^ k * (2 * c + 1)"
proof (induction k)
  case (Suc k)
  then obtain c where c: "(lcg ^^ (2 ^ k)) 0 = 2 ^ k * (2 * c + 1)" by blast
  let ?s = "2 ^ k * (2 * c + 1)"
  have "(lcg ^^ (2 ^ Suc k)) 0 = 2 * ?s * (2 * ?s + 1)"
    using lcg_double [of "2 ^ k"] unfolding c by (simp add: mult_2)
  also have "\<dots> = 2 ^ Suc k * (2 * (c * (2 * ?s + 1) + ?s) + 1)" by (simp add: algebra_simps)
  finally show ?case by blast
qed (auto simp: lcg_def intro: exI [of _ 0])

lemma lcg_covers: "\<exists>n < 2 ^ k. (lcg ^^ n) x mod 2 ^ k = y mod 2 ^ k"
proof (induction k)
  case (Suc k)
  then obtain n where n: "n < 2 ^ k" "(lcg ^^ n) x mod 2 ^ k = y mod 2 ^ k" by blast
  let ?z = "(lcg ^^ n) x"
  have two: "u mod (2 * 2 ^ k) = u mod 2 ^ k + 2 ^ k * (u div 2 ^ k mod 2)" for u :: nat
    by (metis add.commute mod_mult2_eq mult.commute)
  show ?case
  proof (cases "?z mod 2 ^ Suc k = y mod 2 ^ Suc k")
    case True
    then show ?thesis using n by (intro exI [of _ n]) simp
  next
    case False
    obtain c where c: "(lcg ^^ (2 ^ k)) 0 = 2 ^ k * (2 * c + 1)" using lcg_round by blast
    have "odd ((2 * c + 1) * (4 * ?z + 1))" by simp
    then obtain d where d: "(2 * c + 1) * (4 * ?z + 1) = 2 * d + 1" by (rule oddE)
    have "(lcg ^^ (n + 2 ^ k)) x = (lcg ^^ (2 ^ k)) ?z" by (simp only: add.commute [of n] funpow_add o_apply)
    also have "\<dots> = ?z + 2 ^ k * (2 * d + 1)" unfolding lcg_pow [of _ ?z] c d [symmetric] by (simp only: mult.assoc)
    finally have r: "(lcg ^^ (n + 2 ^ k)) x = ?z + 2 ^ k * (2 * d + 1)" .
    have "(?z + 2 ^ k * (2 * d + 1)) div 2 ^ k = ?z div 2 ^ k + (2 * d + 1)"
      by (subst div_mult_self2) simp_all
    moreover have "(u + (2 * d + 1)) mod 2 = 1 - u mod 2" for u :: nat by presburger
    moreover have "(?z + 2 ^ k * (2 * d + 1)) mod 2 ^ k = ?z mod 2 ^ k" by (rule mod_mult_self2)
    moreover have "?z div 2 ^ k mod 2 \<noteq> y div 2 ^ k mod 2" using False n(2) by (auto simp: two)
    moreover have "y div 2 ^ k mod 2 < 2" "?z div 2 ^ k mod 2 < 2" by simp_all
    ultimately have "(?z + 2 ^ k * (2 * d + 1)) mod (2 * 2 ^ k) = y mod (2 * 2 ^ k)"
      unfolding two n(2) by auto
    then show ?thesis using n(1) unfolding r [symmetric] by (intro exI [of _ "n + 2 ^ k"]) simp
  qed
qed simp

section \<open>The sequence of slots\<close>

definition probe_step :: "u64 \<Rightarrow> u64 \<times> u64 \<Rightarrow> u64 \<times> u64" where
  "probe_step msk = (\<lambda>(i, perturb). (next_probe msk i perturb, drop_bit PERTURB_SHIFT perturb))"

definition probe_slot :: "u64 \<Rightarrow> u64 \<Rightarrow> nat \<Rightarrow> u64" where
  "probe_slot msk index n = fst ((probe_step msk ^^ n) (index AND msk, index))"

lemma probe_Some:
  "probe n stop t i p = Some j \<longleftrightarrow> (\<exists>m < n. j = fst ((probe_step (mask t) ^^ m) (i, p)) \<and>
     (items t ! unat j = 0 \<or> stop (items t ! unat j)) \<and>
     (\<forall>m' < m. items t ! unat (fst ((probe_step (mask t) ^^ m') (i, p))) \<noteq> 0 \<and>
        \<not> stop (items t ! unat (fst ((probe_step (mask t) ^^ m') (i, p))))))"
  (is "?L n i p \<longleftrightarrow> ?R n i p")
proof (induction n arbitrary: i p)
  case (Suc n)
  let ?hit = "items t ! unat i = 0 \<or> stop (items t ! unat i)"
  have shift: "(probe_step (mask t) ^^ Suc m) (i, p) =
      (probe_step (mask t) ^^ m) (next_probe (mask t) i p, drop_bit PERTURB_SHIFT p)" for m
    by (simp add: funpow_swap1 probe_step_def)
  show ?case
  proof (cases ?hit)
    case True
    then show ?thesis by (fastforce intro: exI [of _ 0])
  next
    case False
    let ?i = "next_probe (mask t) i p" let ?p = "drop_bit PERTURB_SHIFT p"
    have "?L (Suc n) i p \<longleftrightarrow> ?R n ?i ?p" using False Suc [of ?i ?p] by simp
    also have "\<dots> \<longleftrightarrow> ?R (Suc n) i p"
    proof
      assume "?R n ?i ?p"
      then obtain m where m: "m < n" "j = fst ((probe_step (mask t) ^^ m) (?i, ?p))"
        "items t ! unat j = 0 \<or> stop (items t ! unat j)"
        "\<forall>m' < m. items t ! unat (fst ((probe_step (mask t) ^^ m') (?i, ?p))) \<noteq> 0 \<and>
          \<not> stop (items t ! unat (fst ((probe_step (mask t) ^^ m') (?i, ?p))))" by blast
      have "items t ! unat (fst ((probe_step (mask t) ^^ m') (i, p))) \<noteq> 0 \<and>
          \<not> stop (items t ! unat (fst ((probe_step (mask t) ^^ m') (i, p))))" if "m' < Suc m" for m'
        using that m(4) False shift by (cases m') auto
      then show "?R (Suc n) i p" using m(1-3) shift [of m] by (intro exI [of _ "Suc m"]) auto
    next
      assume "?R (Suc n) i p"
      then obtain m where m: "m < Suc n" "j = fst ((probe_step (mask t) ^^ m) (i, p))"
        "items t ! unat j = 0 \<or> stop (items t ! unat j)"
        "\<And>m'. m' < m \<Longrightarrow> items t ! unat (fst ((probe_step (mask t) ^^ m') (i, p))) \<noteq> 0 \<and>
          \<not> stop (items t ! unat (fst ((probe_step (mask t) ^^ m') (i, p))))" by blast
      obtain m0 where m0: "m = Suc m0" using m(2,3) False by (cases m) auto
      have "items t ! unat (fst ((probe_step (mask t) ^^ m') (?i, ?p))) \<noteq> 0 \<and>
          \<not> stop (items t ! unat (fst ((probe_step (mask t) ^^ m') (?i, ?p))))" if "m' < m0" for m'
        using m(4) [of "Suc m'"] that m0 shift by simp
      then show "?R n ?i ?p" using m(1-3) m0 shift [of m0] by (intro exI [of _ m0]) auto
    qed
    finally show ?thesis .
  qed
qed simp

text \<open>A table with a power of two slots.\<close>

definition table_sized :: "nat \<Rightarrow> hashtable_table \<Rightarrow> bool" where
  "table_sized k t \<longleftrightarrow> 3 \<le> k \<and> k \<le> 60 \<and> mask t = 2 ^ k - 1 \<and> length (items t) = 2 ^ k"

lemma and_mask: "k \<le> 60 \<Longrightarrow> unat (x AND (2 ^ k - 1 :: u64)) = unat x mod 2 ^ k"
proof -
  have "x AND (2 ^ k - 1) = take_bit k x" by (simp add: take_bit_eq_mask mask_eq_exp_minus_1)
  then show ?thesis by (simp only: unsigned_take_bit_eq take_bit_eq_mod [of k "unat x"])
qed

lemma perturb_runs_out: "drop_bit PERTURB_SHIFT ^^ n = (drop_bit (PERTURB_SHIFT * n) :: u64 \<Rightarrow> u64)"
  by (induction n) (auto simp: fun_eq_iff drop_bit_drop_bit add.commute)

lemma probe_step_snd: "snd ((probe_step msk ^^ n) (i, p)) = drop_bit (PERTURB_SHIFT * n) p"
proof (induction n)
  case (Suc n)
  then show ?case by (simp add: probe_step_def case_prod_beta drop_bit_drop_bit add.commute)
qed simp

lemma drop_all: "64 \<le> n \<Longrightarrow> drop_bit n (p :: u64) = 0"
  by (rule bit_word_eqI) (auto simp: bit_drop_bit_eq dest: bit_imp_le_length)

lemma probe_no_perturb:
  assumes "k \<le> 60" and "unat i < 2 ^ k"
  shows "unat (fst ((probe_step (2 ^ k - 1) ^^ n) (i, 0))) = (lcg ^^ n) (unat i) mod 2 ^ k"
proof (induction n)
  case 0
  then show ?case using assms by simp
next
  case (Suc n)
  let ?j = "fst ((probe_step (2 ^ k - 1) ^^ n) (i, 0))"
  have z: "snd ((probe_step (2 ^ k - 1) ^^ n) (i, 0)) = 0" by (simp add: probe_step_snd)
  have le: "(2 :: nat) ^ k dvd 2 ^ 64" using assms(1) by (intro le_imp_power_dvd) simp
  have "unat (push_bit 2 ?j + ?j + 0 + 1) = (5 * unat ?j + 1) mod 2 ^ 64"
  proof -
    have "push_bit 2 ?j + ?j + 0 + 1 = of_nat (5 * unat ?j + 1)" by (simp add: push_bit_eq_mult)
    then show ?thesis by (simp only: unat_of_nat) simp
  qed
  then have "unat (next_probe (2 ^ k - 1) ?j 0) = (5 * unat ?j + 1) mod 2 ^ k"
    unfolding next_probe_def and_mask [OF assms(1)] using mod_mod_cancel [OF le] by simp
  moreover have "fst ((probe_step (2 ^ k - 1) ^^ Suc n) (i, 0)) = next_probe (2 ^ k - 1) ?j 0"
    using z by (simp add: probe_step_def case_prod_beta)
  ultimately have "unat (fst ((probe_step (2 ^ k - 1) ^^ Suc n) (i, 0))) = (5 * ((lcg ^^ n) (unat i) mod 2 ^ k) + 1) mod 2 ^ k"
    using Suc by simp
  also have "\<dots> = lcg ((lcg ^^ n) (unat i)) mod 2 ^ k" unfolding lcg_def
    by (metis mod_add_left_eq mod_mult_right_eq)
  finally show ?case by simp
qed

lemma probe_slot_less: "table_sized k t \<Longrightarrow> unat (probe_slot (mask t) index n) < length (items t)"
proof -
  assume t: "table_sized k t"
  have "unat (x AND mask t) < 2 ^ k" for x using t and_mask by (simp add: table_sized_def)
  then show ?thesis using t
    by (cases n) (simp_all add: probe_slot_def table_sized_def probe_step_def case_prod_beta next_probe_def)
qed

lemma probe_slots_cover:
  assumes t: "table_sized k t" and j: "j < length (items t)"
  shows "\<exists>n < probe_fuel t. unat (probe_slot (mask t) index n) = j"
proof -
  let ?m = "2 ^ k - 1 :: u64"
  have k: "k \<le> 60" "mask t = ?m" "length (items t) = 2 ^ k" using t by (simp_all add: table_sized_def)
  obtain i p where ip: "(probe_step ?m ^^ 13) (index AND ?m, index) = (i, p)" by fastforce
  have p: "p = 0" using probe_step_snd [of 13 ?m "index AND ?m" index] drop_all [of "PERTURB_SHIFT * 13" index] ip
    by (simp add: PERTURB_SHIFT_def)
  have i: "unat i < 2 ^ k" using probe_slot_less [OF t, of index 13] ip k by (simp add: probe_slot_def)
  obtain n where n: "n < 2 ^ k" "(lcg ^^ n) (unat i) mod 2 ^ k = j mod 2 ^ k" using lcg_covers by blast
  have "(probe_step ?m ^^ (n + 13)) (index AND ?m, index) = (probe_step ?m ^^ n) (i, 0)"
    using ip p by (simp add: funpow_add)
  then have "unat (probe_slot (mask t) index (n + 13)) = (lcg ^^ n) (unat i) mod 2 ^ k"
    using probe_no_perturb [OF k(1) i] k(2) by (simp add: probe_slot_def)
  then show ?thesis using n j k by (intro exI [of _ "n + 13"]) (simp add: probe_fuel_def)
qed

text \<open>Where a probing stops.\<close>

lemma probe_from_Some:
  "probe_from n stop t index = Some j \<longleftrightarrow> (\<exists>m < n. j = probe_slot (mask t) index m \<and>
     (items t ! unat j = 0 \<or> stop (items t ! unat j)) \<and>
     (\<forall>m' < m. items t ! unat (probe_slot (mask t) index m') \<noteq> 0 \<and> \<not> stop (items t ! unat (probe_slot (mask t) index m'))))"
  unfolding probe_from_def probe_Some probe_slot_def ..

lemma probe_stops:
  assumes "table_sized k t" and "j < length (items t)" and "items t ! j = 0 \<or> stop (items t ! j)"
  shows "\<exists>i. probe_from (probe_fuel t) stop t index = Some i"
proof -
  let ?P = "\<lambda>n. items t ! unat (probe_slot (mask t) index n) = 0 \<or> stop (items t ! unat (probe_slot (mask t) index n))"
  obtain n where n: "n < probe_fuel t" "unat (probe_slot (mask t) index n) = j" using probe_slots_cover [OF assms(1,2)] by blast
  then have P: "?P n" using assms(3) by simp
  define m where "m = (LEAST n. ?P n)"
  have "?P m" "m \<le> n" unfolding m_def using LeastI [of ?P, OF P] Least_le [of ?P, OF P] by blast+
  moreover have "\<not> ?P m'" if "m' < m" for m' using not_less_Least that unfolding m_def by blast
  ultimately have "probe_from (probe_fuel t) stop t index = Some (probe_slot (mask t) index m)"
    unfolding probe_from_Some using n(1) by (intro exI [of _ m]) auto
  then show ?thesis ..
qed

end
