(* ===== verification/Hashmap.thy ===== *)
theory Hashmap
  imports Probing
begin

text \<open>
  A hashtable stands for a finite map from indexes to entries: lookups agree with the map,
  insertion updates it, growing keeps it, and compaction removes exactly the dead entries.
\<close>

section \<open>Tables and maps\<close>

definition used :: "hashtable_table \<Rightarrow> nat" where
  "used t = length (filter (\<lambda>e. e \<noteq> 0) (items t))"

definition table_rep :: "(nat \<Rightarrow> u64) \<Rightarrow> hashtable_table \<Rightarrow> (u64 \<Rightarrow> nat option) \<Rightarrow> bool" where
  "table_rep idx t M \<longleftrightarrow> (\<exists>k. table_sized k t) \<and>
     (\<forall>j < length (items t). items t ! j \<noteq> 0 \<longrightarrow> M (idx (items t ! j)) = Some (items t ! j)) \<and>
     (\<forall>i < length (items t). \<forall>j < length (items t). items t ! i \<noteq> 0 \<longrightarrow> items t ! i = items t ! j \<longrightarrow> i = j) \<and>
     (\<forall>index e. M index = Some e \<longrightarrow> e \<noteq> 0 \<and> idx e = index \<and>
        (\<exists>n. items t ! unat (probe_slot (mask t) index n) = e \<and>
           (\<forall>m < n. items t ! unat (probe_slot (mask t) index m) \<noteq> 0)))"

lemma rep_item: "table_rep idx t M \<Longrightarrow> j < length (items t) \<Longrightarrow> items t ! j \<noteq> 0 \<Longrightarrow> M (idx (items t ! j)) = Some (items t ! j)"
  by (simp add: table_rep_def)

lemma rep_sized: "table_rep idx t M \<Longrightarrow> \<exists>k. table_sized k t"
  by (simp add: table_rep_def)

lemma rep_SomeD:
  assumes "table_rep idx t M" and "M index = Some e"
  shows "e \<noteq> 0" and "idx e = index"
    and "\<exists>n. items t ! unat (probe_slot (mask t) index n) = e \<and> (\<forall>m < n. items t ! unat (probe_slot (mask t) index m) \<noteq> 0)"
  using assms unfolding table_rep_def by blast+

lemma rep_ran:
  assumes "table_rep idx t M"
  shows "ran M = set (items t) - {0}"
proof
  obtain k where k: "table_sized k t" using rep_sized [OF assms] by blast
  show "ran M \<subseteq> set (items t) - {0}"
  proof
    fix e
    assume "e \<in> ran M"
    then obtain index where m: "M index = Some e" by (auto simp: ran_def)
    obtain n where "items t ! unat (probe_slot (mask t) index n) = e" using rep_SomeD(3) [OF assms m] by blast
    then show "e \<in> set (items t) - {0}"
      using probe_slot_less [OF k, of index n] rep_SomeD(1) [OF assms m] by (auto simp: set_conv_nth)
  qed
  show "set (items t) - {0} \<subseteq> ran M" using rep_item [OF assms] by (auto simp: set_conv_nth ran_def)
qed

lemma rep_index_inj:
  assumes "table_rep idx t M" and "a \<in> set (items t)" and "b \<in> set (items t)" and "a \<noteq> 0" and "b \<noteq> 0" and "idx a = idx b"
  shows "a = b"
proof -
  have in_map: "M (idx x) = Some x" if x: "x \<in> set (items t)" "x \<noteq> 0" for x
  proof -
    obtain j where "j < length (items t)" "items t ! j = x" using x(1) by (auto simp: in_set_conv_nth)
    then show ?thesis using rep_item [OF assms(1), of j] x(2) by simp
  qed
  show ?thesis using in_map [OF assms(2,4)] in_map [OF assms(3,5)] assms(6) by (metis option.inject)
qed

text \<open>Where the lookup stops tells whether the index is there.\<close>

lemma lookup_rep:
  assumes rep: "table_rep idx t M" and p: "probe_from n (\<lambda>e. idx e = index) t index = Some i"
  shows "items t ! unat i \<noteq> 0 \<Longrightarrow> M index = Some (items t ! unat i)"
    and "items t ! unat i = 0 \<Longrightarrow> M index = None"
proof -
  obtain m where m: "i = probe_slot (mask t) index m" "items t ! unat i = 0 \<or> idx (items t ! unat i) = index"
    "\<And>m'. m' < m \<Longrightarrow> items t ! unat (probe_slot (mask t) index m') \<noteq> 0 \<and> idx (items t ! unat (probe_slot (mask t) index m')) \<noteq> index"
    using p unfolding probe_from_Some by blast
  obtain k where k: "table_sized k t" using rep_sized [OF rep] by blast
  have i: "unat i < length (items t)" using probe_slot_less [OF k, of index m] m(1) by simp
  show "items t ! unat i \<noteq> 0 \<Longrightarrow> M index = Some (items t ! unat i)" using rep_item [OF rep i] m(2) by auto
  assume z: "items t ! unat i = 0"
  show "M index = None"
  proof (rule ccontr)
    assume "M index \<noteq> None"
    then obtain e where e: "M index = Some e" by blast
    obtain n where n: "items t ! unat (probe_slot (mask t) index n) = e"
      "\<And>m. m < n \<Longrightarrow> items t ! unat (probe_slot (mask t) index m) \<noteq> 0" using rep_SomeD(3) [OF rep e] by blast
    have "\<not> m < n" using n(2) z m(1) by blast
    moreover have "m \<noteq> n" using n(1) z m(1) rep_SomeD(1) [OF rep e] by auto
    moreover have "\<not> n < m" using m(3) n(1) rep_SomeD(2) [OF rep e] by blast
    ultimately show False by simp
  qed
qed

lemma used_update:
  assumes "i < length (items t)" and "items t ! i = 0" and "e \<noteq> 0"
  shows "length (filter (\<lambda>e. e \<noteq> 0) ((items t)[i := e])) = used t + 1"
proof -
  have split: "items t = take i (items t) @ 0 # drop (Suc i) (items t)"
    using assms(1,2) by (metis id_take_nth_drop)
  have "(items t)[i := e] = take i (items t) @ e # drop (Suc i) (items t)" using assms(1) by (simp add: upd_conv_take_nth_drop)
  moreover have "used t = length (filter (\<lambda>e. e \<noteq> 0) (take i (items t) @ 0 # drop (Suc i) (items t)))"
    unfolding used_def by (subst split) (rule refl)
  ultimately show ?thesis using assms(3) by simp
qed

text \<open>Filling the free slot where a probing stops.\<close>

lemma insert_rep:
  assumes rep: "table_rep idx t M" and new: "M index = None" and e: "e \<noteq> 0" "idx' e = index" "e \<notin> set (items t)"
    and i: "i = probe_slot (mask t) index n" "items t ! unat i = 0" "\<And>m. m < n \<Longrightarrow> items t ! unat (probe_slot (mask t) index m) \<noteq> 0"
    and same: "\<And>x. x \<in> set (items t) \<Longrightarrow> x \<noteq> 0 \<Longrightarrow> idx' x = idx x"
  shows "table_rep idx' (set_item i e t) (M(index \<mapsto> e))" and "used (set_item i e t) = used t + 1"
proof -
  let ?t = "set_item i e t"
  obtain k where k: "table_sized k t" using rep_sized [OF rep] by blast
  have il: "unat i < length (items t)" using probe_slot_less [OF k, of index n] i(1) by simp
  have it: "items ?t ! j = (if j = unat i then e else items t ! j)" if "j < length (items t)" for j
    using that by (simp add: set_item_def)
  have len: "length (items ?t) = length (items t)" "mask ?t = mask t" by (simp_all add: set_item_def)
  show "used ?t = used t + 1" using used_update [OF il i(2) e(1)] by (simp add: used_def set_item_def)
  have "table_sized k ?t" using k by (simp add: table_sized_def set_item_def)
  moreover have "(M(index \<mapsto> e)) (idx' (items ?t ! j)) = Some (items ?t ! j)"
    if j: "j < length (items ?t)" "items ?t ! j \<noteq> 0" for j
  proof (cases "j = unat i")
    case True
    then show ?thesis using it il e(2) by simp
  next
    case False
    then have x: "items ?t ! j = items t ! j" using it j len by simp
    then have m: "M (idx (items t ! j)) = Some (items t ! j)" using rep_item [OF rep, of j] j len by simp
    moreover have "idx' (items t ! j) = idx (items t ! j)" using same j x len by simp
    ultimately show ?thesis using new x by auto
  qed
  moreover have "a = b" if "a < length (items ?t)" "b < length (items ?t)" "items ?t ! a \<noteq> 0" "items ?t ! a = items ?t ! b" for a b
  proof (cases "a = unat i \<or> b = unat i")
    case True
    then show ?thesis using that it len e(3) il by (metis nth_mem)
  next
    case False
    then have "items t ! a \<noteq> 0" "items t ! a = items t ! b" using that it len by auto
    then show ?thesis using rep that(1,2) len unfolding table_rep_def by metis
  qed
  moreover have "x \<noteq> 0 \<and> idx' x = ix \<and> (\<exists>n. items ?t ! unat (probe_slot (mask ?t) ix n) = x \<and>
           (\<forall>m < n. items ?t ! unat (probe_slot (mask ?t) ix m) \<noteq> 0))"
    if x: "(M(index \<mapsto> e)) ix = Some x" for ix x
  proof -
    have nz: "items ?t ! unat (probe_slot (mask t) ix m) \<noteq> 0" if "items t ! unat (probe_slot (mask t) ix m) \<noteq> 0" for m
      using it [OF probe_slot_less [OF k, of ix m]] that e(1) by simp
    show ?thesis
    proof (cases "ix = index")
      case True
      then show ?thesis using x e(1,2) it [OF probe_slot_less [OF k, of index n]] i(1,3) nz len
        by (intro conjI exI [of _ n]) auto
    next
      case False
      then have m: "M ix = Some x" using x by simp
      obtain n where n: "items t ! unat (probe_slot (mask t) ix n) = x"
        "\<And>m. m < n \<Longrightarrow> items t ! unat (probe_slot (mask t) ix m) \<noteq> 0" using rep_SomeD(3) [OF rep m] by blast
      note d = rep_SomeD(1,2) [OF rep m]
      have "x \<in> set (items t)" using n(1) probe_slot_less [OF k, of ix n] by auto
      then have "idx' x = ix" using same d by simp
      moreover have "items ?t ! unat (probe_slot (mask t) ix n) = x"
        using it [OF probe_slot_less [OF k, of ix n]] n(1) i(2) d(1) by auto
      ultimately show ?thesis using d(1) n(2) nz len by (intro conjI exI [of _ n]) auto
    qed
  qed
  ultimately show "table_rep idx' ?t (M(index \<mapsto> e))" unfolding table_rep_def by blast
qed

section \<open>The counter\<close>

text \<open>\<open>resize_counter\<close> counts down by 6 for every item; there is always a free slot.\<close>

definition counted :: "hashtable_table \<Rightarrow> u64 \<Rightarrow> bool" where
  "counted t rc \<longleftrightarrow> unat rc + 6 * used t = 4 * length (items t) + 1"

lemma counted_free:
  assumes "counted t rc" and "items t \<noteq> []"
  shows "\<exists>j < length (items t). items t ! j = 0"
proof (rule ccontr)
  assume "\<not> ?thesis"
  then have "filter (\<lambda>e. e \<noteq> 0) (items t) = items t" by (auto simp: set_conv_nth filter_id_conv)
  then have "used t = length (items t)" by (simp add: used_def)
  then have "6 * length (items t) \<le> 4 * length (items t) + 1" using assms(1) by (simp add: counted_def)
  then show False using assms(2) by (cases "items t") auto
qed

lemma counted_odd: "counted t rc \<Longrightarrow> \<not> IS_EVEN rc"
proof -
  assume "counted t rc"
  then have "odd (unat rc)" unfolding counted_def by presburger
  moreover have "unat (rc AND 1) = unat rc mod 2" by (simp only: unsigned_and_eq unsigned_1) (simp only: and_one_eq)
  ultimately have "unat (rc AND 1) \<noteq> 0" by presburger
  then show ?thesis by (auto simp: IS_EVEN_def)
qed

lemma counted_dec: "counted t rc \<Longrightarrow> used t' = used t + 1 \<Longrightarrow> length (items t') = length (items t) \<Longrightarrow> 6 \<le> unat rc \<Longrightarrow> counted t' (rc - 6)"
  by (simp add: counted_def unat_sub word_le_nat_alt)

lemma rep_stops:
  assumes "table_rep idx t M" and "counted t rc"
  shows "\<exists>i. probe_from (probe_fuel t) stop t index = Some i"
proof -
  obtain k where k: "table_sized k t" using rep_sized [OF assms(1)] by blast
  then have "items t \<noteq> []" by (auto simp: table_sized_def)
  then obtain j where "j < length (items t)" "items t ! j = 0" using counted_free [OF assms(2)] by blast
  then show ?thesis using probe_stops [OF k] by blast
qed

section \<open>Rehashing\<close>

lemma init_table_rep:
  assumes "3 \<le> k" and "k \<le> 60"
  shows "table_rep idx (init_table (2 ^ k)) (\<lambda>_. None)" and "counted (init_table (2 ^ k)) (2 ^ k * 4 + 1)"
    and "used (init_table (2 ^ k)) = 0" and "length (items (init_table (2 ^ k))) = 2 ^ k"
    and "resize_counter (init_table (2 ^ k)) = 2 ^ k * 4 + 1"
proof -
  have less: "(2 :: nat) ^ k < 2 ^ 61" using assms(2) by (intro power_strict_increasing) simp_all
  have un: "unat (2 ^ k :: u64) = 2 ^ k"
  proof -
    have "unat (of_nat (2 ^ k) :: u64) = 2 ^ k mod 2 ^ 64" by (simp only: unat_of_nat) simp
    then show ?thesis using less by simp
  qed
  have len: "items (init_table (2 ^ k)) = replicate (2 ^ k) 0" by (simp add: init_table_def un)
  show "length (items (init_table (2 ^ k))) = 2 ^ k" "used (init_table (2 ^ k)) = 0"
    by (simp_all add: len used_def)
  show "resize_counter (init_table (2 ^ k)) = 2 ^ k * 4 + 1" by (simp add: init_table_def)
  have "unat (of_nat (2 ^ k * 4 + 1) :: u64) = 2 ^ k * 4 + 1"
  proof -
    have "unat (of_nat (2 ^ k * 4 + 1) :: u64) = (2 ^ k * 4 + 1) mod 2 ^ 64" by (simp only: unat_of_nat) simp
    moreover have "(of_nat (2 ^ k * 4 + 1) :: u64) = 2 ^ k * 4 + 1" by simp
    ultimately show ?thesis using less by (simp only:) simp
  qed
  moreover have "(of_nat (2 ^ k * 4 + 1) :: u64) = 2 ^ k * 4 + 1" by simp
  ultimately have "unat (2 ^ k * 4 + 1 :: u64) = 2 ^ k * 4 + 1" by (simp only:)
  then show "counted (init_table (2 ^ k)) (2 ^ k * 4 + 1)" by (simp only: counted_def) (simp add: len used_def)
  have "table_sized k (init_table (2 ^ k))" using assms by (simp add: table_sized_def len) (simp add: init_table_def)
  then show "table_rep idx (init_table (2 ^ k)) (\<lambda>_. None)" by (auto simp: table_rep_def len)
qed

text \<open>An entry whose index is not in the table yet goes to the first free slot.\<close>

lemma insert_clean_rep:
  assumes rep: "table_rep idx t M" and cnt: "counted t rc" and new: "M (idx e) = None" and e: "e \<noteq> 0"
  shows "\<exists>t'. insert_clean idx e t = Some t' \<and> table_rep idx t' (M(idx e \<mapsto> e)) \<and> used t' = used t + 1 \<and>
    length (items t') = length (items t)"
proof -
  obtain i where i: "probe_from (probe_fuel t) (\<lambda>_. False) t (idx e) = Some i" using rep_stops [OF rep cnt] by blast
  then obtain n where n: "i = probe_slot (mask t) (idx e) n" "items t ! unat i = 0"
    "\<And>m. m < n \<Longrightarrow> items t ! unat (probe_slot (mask t) (idx e) m) \<noteq> 0" unfolding probe_from_Some by blast
  have "e \<notin> set (items t)"
  proof
    assume "e \<in> set (items t)"
    then have "e \<in> ran M" using rep_ran [OF rep] e by blast
    then show False using rep_SomeD(2) [OF rep] new by (auto simp: ran_def)
  qed
  from insert_rep [where idx' = idx, OF rep new e refl this n refl] show ?thesis
    by (simp add: insert_clean_def i) (simp add: set_item_def)
qed

text \<open>The map after the live entries of a list were added.\<close>

definition add_all :: "(nat \<Rightarrow> u64) \<Rightarrow> nat list \<Rightarrow> (u64 \<Rightarrow> nat option) \<Rightarrow> u64 \<Rightarrow> nat option" where
  "add_all idx es M = fold (\<lambda>e M. M(idx e \<mapsto> e)) es M"

lemma add_all_iff:
  assumes "distinct (map idx es)" and "\<And>e. e \<in> set es \<Longrightarrow> M (idx e) = None"
  shows "add_all idx es M index = Some e \<longleftrightarrow> (e \<in> set es \<and> idx e = index) \<or> M index = Some e"
  using assms
proof (induction es arbitrary: M)
  case (Cons a es)
  have "(M(idx a \<mapsto> a)) (idx e) = None" if e: "e \<in> set es" for e
  proof -
    have "idx a \<notin> idx ` set es" using Cons.prems(1) by simp
    then have "idx e \<noteq> idx a" using e by (metis image_eqI)
    then show ?thesis using Cons.prems(2) e by simp
  qed
  then have "add_all idx es (M(idx a \<mapsto> a)) index = Some e \<longleftrightarrow>
    (e \<in> set es \<and> idx e = index) \<or> (M(idx a \<mapsto> a)) index = Some e" using Cons.prems(1) by (intro Cons.IH) simp_all
  then show ?case using Cons.prems by (auto simp: add_all_def)
qed (simp add: add_all_def)

lemma rehash_loop_rep:
  assumes "distinct (map idx (filter (\<lambda>e. e \<noteq> 0 \<and> \<not> dead e) es))"
    and "\<And>e. e \<in> set es \<Longrightarrow> e \<noteq> 0 \<Longrightarrow> \<not> dead e \<Longrightarrow> M (idx e) = None"
    and "table_rep idx t M" and "counted t rc"
    and "6 * length (filter (\<lambda>e. e \<noteq> 0 \<and> \<not> dead e) es) < unat rc"
  shows "\<exists>rc' t'. rehash_loop idx dead es rc t = Some (rc', t') \<and>
    table_rep idx t' (add_all idx (filter (\<lambda>e. e \<noteq> 0 \<and> \<not> dead e) es) M) \<and> counted t' rc' \<and>
    length (items t') = length (items t) \<and>
    unat rc' = unat rc - 6 * length (filter (\<lambda>e. e \<noteq> 0 \<and> \<not> dead e) es)"
  using assms
proof (induction es arbitrary: M t rc)
  case (Cons e es)
  show ?case
  proof (cases "e = 0 \<or> dead e")
    case True
    then have filt: "filter (\<lambda>e. e \<noteq> 0 \<and> \<not> dead e) (e # es) = filter (\<lambda>e. e \<noteq> 0 \<and> \<not> dead e) es"
      and loop: "rehash_loop idx dead (e # es) rc t = rehash_loop idx dead es rc t" by auto
    show ?thesis unfolding filt loop
    proof (rule Cons.IH)
      show "M (idx x) = None" if "x \<in> set es" "x \<noteq> 0" "\<not> dead x" for x using Cons.prems(2) that by simp
    qed (use Cons.prems filt in \<open>simp_all only:\<close>)
  next
    case False
    then have new: "M (idx e) = None" and e: "e \<noteq> 0" using Cons.prems(2) by simp_all
    obtain t1 where t1: "insert_clean idx e t = Some t1" "table_rep idx t1 (M(idx e \<mapsto> e))" "used t1 = used t + 1"
      "length (items t1) = length (items t)" using insert_clean_rep [OF Cons.prems(3,4) new e] by blast
    have rc: "6 \<le> unat rc" using Cons.prems(5) False by simp
    have rc1: "unat (rc - 6) = unat rc - 6" using rc by (simp add: unat_sub word_le_nat_alt)
    have fresh: "(M(idx e \<mapsto> e)) (idx x) = None" if "x \<in> set es" "x \<noteq> 0" "\<not> dead x" for x
    proof -
      have "idx e \<notin> idx ` set (filter (\<lambda>e. e \<noteq> 0 \<and> \<not> dead e) es)" using Cons.prems(1) False by simp
      moreover have "x \<in> set (filter (\<lambda>e. e \<noteq> 0 \<and> \<not> dead e) es)" using that by simp
      ultimately have "idx x \<noteq> idx e" by (metis image_eqI)
      then show ?thesis using Cons.prems(2) that by simp
    qed
    have "\<exists>rc' t'. rehash_loop idx dead es (rc - 6) t1 = Some (rc', t') \<and>
      table_rep idx t' (add_all idx (filter (\<lambda>e. e \<noteq> 0 \<and> \<not> dead e) es) (M(idx e \<mapsto> e))) \<and> counted t' rc' \<and>
      length (items t') = length (items t1) \<and>
      unat rc' = unat (rc - 6) - 6 * length (filter (\<lambda>e. e \<noteq> 0 \<and> \<not> dead e) es)"
      by (rule Cons.IH [OF _ fresh t1(2) counted_dec [OF Cons.prems(4) t1(3,4) rc]])
        (use Cons.prems(1,5) False rc1 in auto)
    then show ?thesis using False t1(1,4) rc1 by (auto simp: add_all_def)
  qed
qed (auto simp: add_all_def)

text \<open>What is left of a map when the dead entries are gone.\<close>

definition without :: "(nat \<Rightarrow> bool) \<Rightarrow> (u64 \<Rightarrow> nat option) \<Rightarrow> u64 \<Rightarrow> nat option" where
  "without dead M index = (case M index of None \<Rightarrow> None | Some e \<Rightarrow> if dead e then None else Some e)"

lemma without_none: "without (\<lambda>_. False) M = M"
  by (auto simp: without_def fun_eq_iff split: option.split)

lemma rep_distinct:
  assumes rep: "table_rep idx t M"
  shows "distinct (filter (\<lambda>e. e \<noteq> 0) (items t))"
proof -
  have nth: "items t ! i \<noteq> 0 \<Longrightarrow> items t ! i = items t ! j \<Longrightarrow> i = j"
    if "i < length (items t)" "j < length (items t)" for i j
    using rep that by (simp add: table_rep_def)
  have dist: "distinct (filter P xs)"
    if "\<And>i j. i < length xs \<Longrightarrow> j < length xs \<Longrightarrow> P (xs ! i) \<Longrightarrow> xs ! i = xs ! j \<Longrightarrow> i = j" for P and xs :: "nat list"
    using that
  proof (induction xs)
    case (Cons x xs)
    have "distinct (filter P xs)"
    proof (rule Cons.IH)
      fix i j
      assume "i < length xs" "j < length xs" "P (xs ! i)" "xs ! i = xs ! j"
      then show "i = j" using Cons.prems [of "Suc i" "Suc j"] by simp
    qed
    moreover have "\<not> (P x \<and> x \<in> set xs)"
    proof
      assume h: "P x \<and> x \<in> set xs"
      then obtain j where "j < length xs" "xs ! j = x" by (auto simp: in_set_conv_nth)
      then show False using h Cons.prems [of 0 "Suc j"] by simp
    qed
    ultimately show ?case by auto
  qed simp
  show ?thesis by (rule dist) (rule nth)
qed

lemma rep_used:
  assumes "table_rep idx t M"
  shows "used t = card (ran M)"
proof -
  have "used t = card (set (filter (\<lambda>e. e \<noteq> 0) (items t)))"
    unfolding used_def by (rule sym, rule distinct_card) (rule rep_distinct [OF assms])
  also have "set (filter (\<lambda>e. e \<noteq> 0) (items t)) = ran M" using rep_ran [OF assms] by auto
  finally show ?thesis .
qed

lemma live_items:
  assumes rep: "table_rep idx t M"
  shows "distinct (map idx (filter (\<lambda>e. e \<noteq> 0 \<and> \<not> dead e) (items t)))"
    and "add_all idx (filter (\<lambda>e. e \<noteq> 0 \<and> \<not> dead e) (items t)) (\<lambda>_. None) = without dead M"
proof -
  let ?l = "filter (\<lambda>e. e \<noteq> 0 \<and> \<not> dead e) (items t)"
  have inj: "inj_on idx (set ?l)" by (rule inj_onI) (use rep_index_inj [OF rep] in auto)
  have "distinct (filter (\<lambda>e. \<not> dead e) (filter (\<lambda>e. e \<noteq> 0) (items t)))"
    using rep_distinct [OF rep] by (rule distinct_filter)
  moreover have "filter (\<lambda>e. \<not> dead e) (filter (\<lambda>e. e \<noteq> 0) (items t)) = ?l" by simp
  ultimately have "distinct ?l" by (simp only:)
  then show d: "distinct (map idx ?l)" using inj by (simp only: distinct_map)
  have same: "add_all idx ?l (\<lambda>_. None) index = Some e \<longleftrightarrow> without dead M index = Some e" for index e
  proof -
    have "add_all idx ?l (\<lambda>_. None) index = Some e \<longleftrightarrow> e \<in> set ?l \<and> idx e = index"
      using add_all_iff [OF d, of "\<lambda>_. None"] by simp
    also have "\<dots> \<longleftrightarrow> e \<in> ran M \<and> idx e = index \<and> \<not> dead e" by (auto simp: rep_ran [OF rep])
    also have "\<dots> \<longleftrightarrow> M index = Some e \<and> \<not> dead e" using rep_SomeD(2) [OF rep] by (auto simp: ran_def)
    also have "\<dots> \<longleftrightarrow> without dead M index = Some e" by (auto simp: without_def split: option.split)
    finally show ?thesis .
  qed
  have opt: "(\<And>e. u = Some e \<longleftrightarrow> v = Some e) \<Longrightarrow> u = v" for u v :: "nat option" by (cases u; cases v) auto
  show "add_all idx ?l (\<lambda>_. None) = without dead M" by (rule ext) (rule opt [OF same])
qed

text \<open>The hashtable as a whole.\<close>

definition hashtable_rep :: "(nat \<Rightarrow> u64) \<Rightarrow> hashtable_s \<Rightarrow> (u64 \<Rightarrow> nat option) \<Rightarrow> bool" where
  "hashtable_rep idx h M \<longleftrightarrow> (\<exists>t. hs_tables h (hs_table h) = Some t \<and> table_rep idx t M \<and> counted t (resize_counter t))"

lemma create_rep: "hashtable_rep idx (stm_hashtable_create m) (\<lambda>_. None)"
  using init_table_rep(1) [of 3 idx] init_table_rep(2,5) [of 3]
  by (simp add: hashtable_rep_def stm_hashtable_create_def INITIAL_HASHTABLE_SIZE_def)

lemma rehash_rep:
  assumes t: "hs_tables h (hs_table h) = Some t" and rep: "table_rep idx t M"
    and k: "3 \<le> k" "k \<le> 60" and room: "6 * used t \<le> 4 * 2 ^ k"
  shows "\<exists>h' b. rehash_hashtable idx dead (2 ^ k) h = Some h' \<and> hs_tables h' (hs_table h') = Some b \<and>
    table_rep idx b (without dead M) \<and> counted b (resize_counter b) \<and> length (items b) = 2 ^ k \<and>
    hs_table h' = hs_malloc h \<and> additions h' = additions h"
proof -
  let ?l = "filter (\<lambda>e. e \<noteq> 0 \<and> \<not> dead e) (items t)"
  note it = init_table_rep [OF k]
  have "length ?l \<le> used t"
  proof -
    have "?l = filter (\<lambda>e. \<not> dead e) (filter (\<lambda>e. e \<noteq> 0) (items t))" by simp
    then show ?thesis unfolding used_def by (metis length_filter_le)
  qed
  moreover have "unat (2 ^ k * 4 + 1 :: u64) = 4 * 2 ^ k + 1" using it(2,3,4) by (simp add: counted_def)
  ultimately have "6 * length ?l < unat (2 ^ k * 4 + 1 :: u64)" using room by linarith
  from rehash_loop_rep [OF live_items(1) [OF rep] _ it(1,2) this] obtain rc b where
    b: "rehash_loop idx dead (items t) (2 ^ k * 4 + 1) (init_table (2 ^ k)) = Some (rc, b)"
    "table_rep idx b (add_all idx ?l (\<lambda>_. None))" "counted b rc" "length (items b) = 2 ^ k"
    using it(4) by auto
  have "table_rep idx (b\<lparr>resize_counter := rc\<rparr>) (without dead M)"
    using b(2) unfolding live_items(2) [OF rep] by (simp add: table_rep_def table_sized_def)
  moreover have "counted (b\<lparr>resize_counter := rc\<rparr>) rc" using b(3) by (simp add: counted_def used_def)
  ultimately show ?thesis using b(1,4) by (simp add: rehash_hashtable_def t Let_def it(5))
qed

section \<open>Lookup\<close>

text \<open>A table whose entries were moved, by a collection, to the addresses \<open>f e\<close>.\<close>

lemma move_rep:
  assumes rep: "table_rep idx t M" and inj: "inj_on f (ran M)"
    and f: "\<And>e. e \<in> ran M \<Longrightarrow> f e \<noteq> 0 \<and> idx' (f e) = idx e"
  shows "table_rep idx' (move_items f t) (map_option f \<circ> M)" and "used (move_items f t) = used t"
proof -
  let ?t = "move_items f t"
  have ran: "x \<in> ran M" if "x \<in> set (items t)" "x \<noteq> 0" for x using that rep_ran [OF rep] by simp
  have len: "length (items ?t) = length (items t)" "mask ?t = mask t" by (simp_all add: move_items_def)
  have it: "items ?t ! j = (if items t ! j = 0 then 0 else f (items t ! j))" if "j < length (items t)" for j
    using that by (simp add: move_items_def)
  have nz: "items ?t ! j \<noteq> 0 \<longleftrightarrow> items t ! j \<noteq> 0" if "j < length (items t)" for j
    using it [OF that] f [OF ran [of "items t ! j"]] that by auto
  obtain k where k: "table_sized k t" using rep_sized [OF rep] by blast
  then have "table_sized k ?t" by (simp add: table_sized_def len)
  moreover have "(map_option f \<circ> M) (idx' (items ?t ! j)) = Some (items ?t ! j)"
    if j: "j < length (items ?t)" "items ?t ! j \<noteq> 0" for j
  proof -
    have j': "j < length (items t)" "items t ! j \<noteq> 0" using j nz len by simp_all
    have "items t ! j \<in> ran M" using j' ran by simp
    then show ?thesis using it [OF j'(1)] j'(2) rep_item [OF rep j'] f by simp
  qed
  moreover have "a = b" if "a < length (items ?t)" "b < length (items ?t)" "items ?t ! a \<noteq> 0" "items ?t ! a = items ?t ! b" for a b
  proof -
    have l: "a < length (items t)" "b < length (items t)" using that len by simp_all
    have n: "items t ! a \<noteq> 0" "items t ! b \<noteq> 0" using nz [OF l(1)] nz [OF l(2)] that(3,4) by auto
    have "f (items t ! a) = f (items t ! b)" using it [OF l(1)] it [OF l(2)] n that(4) by simp
    then have "items t ! a = items t ! b" using inj ran l n by (meson inj_onD nth_mem)
    then show ?thesis using rep l n unfolding table_rep_def by metis
  qed
  moreover have "x \<noteq> 0 \<and> idx' x = ix \<and> (\<exists>n. items ?t ! unat (probe_slot (mask ?t) ix n) = x \<and>
           (\<forall>m < n. items ?t ! unat (probe_slot (mask ?t) ix m) \<noteq> 0))"
    if x: "(map_option f \<circ> M) ix = Some x" for ix x
  proof -
    obtain y where y: "M ix = Some y" "x = f y" using x by auto
    obtain n where n: "items t ! unat (probe_slot (mask t) ix n) = y"
      "\<And>m. m < n \<Longrightarrow> items t ! unat (probe_slot (mask t) ix m) \<noteq> 0" using rep_SomeD(3) [OF rep y(1)] by blast
    note d = rep_SomeD(1,2) [OF rep y(1)]
    have "y \<in> ran M" using y(1) by (rule ranI)
    then show ?thesis using f [of y] y(2) d n it nz probe_slot_less [OF k] len by (intro conjI exI [of _ n]) auto
  qed
  ultimately show "table_rep idx' ?t (map_option f \<circ> M)" unfolding table_rep_def by blast
  have "filter (\<lambda>e. e \<noteq> 0) (map (\<lambda>e. if e = 0 then 0 else f e) es) = map f (filter (\<lambda>e. e \<noteq> 0) es)"
    if "\<And>e. e \<in> set es \<Longrightarrow> e \<noteq> 0 \<Longrightarrow> f e \<noteq> 0" for es using that by (induction es) auto
  from this [of "items t"] show "used ?t = used t" using f ran by (simp add: used_def move_items_def)
qed

text \<open>An index that is in the table: its entry is returned and nothing changes.\<close>

lemma lookup_found:
  assumes rep: "hashtable_rep (entry_index s me) h M" and found: "M index = Some e"
  shows "stm_hashtable_lookup fuel X ud mv me hobj h index s = Ret (e, h) s"
proof -
  obtain t where t: "hs_tables h (hs_table h) = Some t" "table_rep (entry_index s me) t M" "counted t (resize_counter t)"
    using rep by (auto simp: hashtable_rep_def)
  obtain i where i: "probe_from (probe_fuel t) (\<lambda>e. entry_index s me e = index) t index = Some i"
    using rep_stops [OF t(2,3)] by blast
  have "items t ! unat i \<noteq> 0" using lookup_rep(2) [OF t(2) i] found by fastforce
  moreover have "items t ! unat i = e" using lookup_rep(1) [OF t(2) i calculation] found by simp
  ultimately show ?thesis by (simp add: stm_hashtable_lookup_def numeral_2_eq_2 t(1) i Let_def)
qed

text \<open>Where the entries of the table are after the allocation of a new one.\<close>

definition moved_by :: "(stm \<Rightarrow> nat \<Rightarrow> nat) \<Rightarrow> nat \<Rightarrow> stm \<Rightarrow> nat \<Rightarrow> nat" where
  "moved_by mv hobj s e = (if is_in_nursery hobj then mv s e else e)"

text \<open>What a lookup relies on of the allocation: it keeps the entries and their indexes.\<close>

definition entry_added ::
  "(stm \<Rightarrow> nat \<Rightarrow> nat) \<Rightarrow> nat \<Rightarrow> nat \<Rightarrow> u64 \<Rightarrow> (u64 \<Rightarrow> nat option) \<Rightarrow> stm \<Rightarrow> nat \<Rightarrow> stm \<Rightarrow> bool" where
  "entry_added mv me hobj index M s e s' \<longleftrightarrow> e \<noteq> 0 \<and> entry_index s' me e = index \<and>
     inj_on (moved_by mv hobj s') (ran M) \<and> e \<notin> moved_by mv hobj s' ` ran M \<and>
     (\<forall>x \<in> ran M. moved_by mv hobj s' x \<noteq> 0 \<and> entry_index s' me (moved_by mv hobj s' x) = entry_index s me x)"

lemma add_entry_rep:
  assumes t: "hs_tables h (hs_table h) = Some t" "table_rep (entry_index s me) t M" "counted t (resize_counter t)"
    and new: "M index = None" and i: "probe_from (probe_fuel t) (\<lambda>e. entry_index s me e = index) t index = Some i"
    and room: "6 < resize_counter t"
    and alloc: "new_entry fuel X ud me hobj (additions h) index s = Ret (e, adds) s'"
    and added: "entry_added mv me hobj index M s e s'"
  shows "\<exists>h'. add_entry fuel X ud mv me hobj h t i index s = Ret (e, h') s' \<and> additions h' = adds \<and>
    hashtable_rep (entry_index s' me) h' ((map_option (moved_by mv hobj s') \<circ> M)(index \<mapsto> e))"
proof -
  let ?f = "moved_by mv hobj s'" and ?idx = "entry_index s' me"
  let ?t = "if is_in_nursery hobj then move_items (mv s') t else t"
  have id: "move_items (\<lambda>x. x) t = t" by (simp add: move_items_def)
  have "?f = (if is_in_nursery hobj then mv s' else (\<lambda>x. x))" by (simp add: moved_by_def fun_eq_iff)
  then have tt: "?t = move_items ?f t" by (simp only: id split: if_split) simp
  have rep: "table_rep ?idx ?t (map_option ?f \<circ> M)" and us: "used ?t = used t"
    unfolding tt using added by (auto intro!: move_rep [OF t(2)] simp: entry_added_def)
  have len: "length (items ?t) = length (items t)" "mask ?t = mask t" by (simp_all add: move_items_def)
  obtain n where n: "i = probe_slot (mask t) index n" "items t ! unat i = 0 \<or> entry_index s me (items t ! unat i) = index"
    "\<And>m. m < n \<Longrightarrow> items t ! unat (probe_slot (mask t) index m) \<noteq> 0" using i unfolding probe_from_Some by blast
  obtain k where k: "table_sized k t" using rep_sized [OF t(2)] by blast
  have z: "items t ! unat i = 0" using lookup_rep(1) [OF t(2) i] new by fastforce
  have mz: "items ?t ! unat (probe_slot (mask t) index m) = 0 \<longleftrightarrow> items t ! unat (probe_slot (mask t) index m) = 0" for m
    using probe_slot_less [OF k, of index m] added rep_ran [OF t(2)]
    by (auto simp: tt move_items_def entry_added_def)
  have e: "e \<noteq> 0" "?idx e = index" using added by (simp_all add: entry_added_def)
  have out: "e \<notin> set (items ?t)"
  proof
    assume "e \<in> set (items ?t)"
    then have "e \<in> ran (map_option ?f \<circ> M)" unfolding rep_ran [OF rep] using e(1) by blast
    then have "e \<in> ?f ` ran M" by (auto simp: ran_def)
    then show False using added by (simp add: entry_added_def)
  qed
  have ins: "table_rep ?idx (set_item i e ?t) ((map_option ?f \<circ> M)(index \<mapsto> e))" "used (set_item i e ?t) = used ?t + 1"
    using insert_rep [where idx' = ?idx, OF rep _ e(1) e(2) out, of i n] new n(1) z mz n(3) len(2) by (simp_all del: fun_upd_apply)
  let ?b = "(set_item i e ?t)\<lparr>resize_counter := resize_counter t - 6\<rparr>"
  have "table_rep ?idx ?b ((map_option ?f \<circ> M)(index \<mapsto> e))" using ins(1) by (simp add: table_rep_def table_sized_def)
  moreover have "counted ?b (resize_counter ?b)"
    using counted_dec [OF t(3), of "?b"] ins(2) us room len by (simp add: used_def set_item_def word_less_nat_alt)
  ultimately show ?thesis by (simp add: add_entry_def alloc Let_def hashtable_rep_def)
qed

text \<open>A full table grows first; the second attempt then finds room.\<close>

lemma lookup_missing:
  assumes rep: "hashtable_rep (entry_index s me) h M" and new: "M index = None"
    and bound: "\<And>t. hs_tables h (hs_table h) = Some t \<Longrightarrow> mask t < 2 ^ 58"
    and alloc: "new_entry fuel X ud me hobj (additions h) index s = Ret (e, adds) s'"
    and added: "entry_added mv me hobj index M s e s'"
  shows "\<exists>h'. stm_hashtable_lookup fuel X ud mv me hobj h index s = Ret (e, h') s' \<and> additions h' = adds \<and>
    hashtable_rep (entry_index s' me) h' ((map_option (moved_by mv hobj s') \<circ> M)(index \<mapsto> e))"
proof -
  let ?idx = "entry_index s me"
  obtain t where t: "hs_tables h (hs_table h) = Some t" "table_rep ?idx t M" "counted t (resize_counter t)"
    using rep by (auto simp: hashtable_rep_def)
  obtain i where i: "probe_from (probe_fuel t) (\<lambda>e. ?idx e = index) t index = Some i"
    using rep_stops [OF t(2,3)] by blast
  have z: "items t ! unat i = 0" using lookup_rep(1) [OF t(2) i] new by fastforce
  note unf = stm_hashtable_lookup_def numeral_2_eq_2 t(1) i Let_def z counted_odd [OF t(3)]
  show ?thesis
  proof (cases "6 < resize_counter t")
    case True
    then show ?thesis using add_entry_rep [OF t new i True alloc added] by (simp add: unf)
  next
    case False
    obtain k where k: "3 \<le> k" "k \<le> 60" "mask t = 2 ^ k - 1" "length (items t) = 2 ^ k"
      using rep_sized [OF t(2)] by (auto simp: table_sized_def)
    have pow: "unat (2 ^ k - 1 :: u64) = 2 ^ k - 1"
    proof -
      have "(2 :: nat) ^ k < 2 ^ 64" using k(2) by (intro power_strict_increasing) simp_all
      then have "unat (of_nat (2 ^ k - 1) :: u64) = 2 ^ k - 1" by (simp only: unat_of_nat) simp
      moreover have "(of_nat (2 ^ k - 1) :: u64) = 2 ^ k - 1" by (simp add: of_nat_diff)
      ultimately show ?thesis by (simp only:)
    qed
    have "unat (mask t) < 2 ^ 58" using bound [OF t(1)] by (simp add: word_less_nat_alt)
    then have "(2 :: nat) ^ k \<le> 2 ^ 58" using pow k(3) by simp
    then have k58: "k \<le> 58" by (rule power_le_imp_le_exp [rotated]) simp
    have full: "6 * used t \<le> 4 * 2 ^ k"
    proof -
      have "resize_counter t \<noteq> 0" using counted_odd [OF t(3)] by (auto simp: IS_EVEN_def)
      then have "unat (resize_counter t) \<noteq> 0" by (metis unat_eq_zero)
      then show ?thesis using t(3) k(4) by (simp add: counted_def)
    qed
    obtain k' where k': "bigger_count t = 2 ^ k'" "k < k'" "k' \<le> 60"
    proof (cases "mask t + 1 < 50000")
      case True
      then have "bigger_count t = 2 ^ (k + 2)" by (simp add: bigger_count_def k(3) Let_def)
      then show ?thesis using that [of "k + 2"] k58 by simp
    next
      case False
      then have "bigger_count t = 2 ^ (k + 1)" by (simp add: bigger_count_def k(3) Let_def)
      then show ?thesis using that [of "k + 1"] k58 by simp
    qed
    have grow: "(2 :: nat) ^ k * 2 \<le> 2 ^ k'" using power_increasing [of "Suc k" k' "2 :: nat"] k'(2) by simp
    have "3 \<le> k'" "6 * used t \<le> 4 * 2 ^ k'" using k k'(2) full grow by linarith+
    from rehash_rep [OF t(1,2) this(1) k'(3) this(2), of "\<lambda>_. False"] obtain h1 b where
      h1: "rehash_hashtable ?idx (\<lambda>_. False) (2 ^ k') h = Some h1" "hs_tables h1 (hs_table h1) = Some b"
      "table_rep ?idx b M" "counted b (resize_counter b)" "length (items b) = 2 ^ k'" "additions h1 = additions h"
      unfolding without_none by blast
    obtain i' where i': "probe_from (probe_fuel b) (\<lambda>e. ?idx e = index) b index = Some i'"
      using rep_stops [OF h1(3,4)] by blast
    have z': "items b ! unat i' = 0" using lookup_rep(1) [OF h1(3) i'] new by fastforce
    have "used b = used t" using rep_used [OF h1(3)] rep_used [OF t(2)] by simp
    then have room: "6 < resize_counter b"
      using h1(4,5) full grow power_increasing [OF k(1), of "2 :: nat"] by (simp add: counted_def word_less_nat_alt)
    have alloc': "new_entry fuel X ud me hobj (additions h1) index s = Ret (e, adds) s'" using alloc h1(6) by simp
    show ?thesis using add_entry_rep [OF h1(2,3,4) new i' room alloc' added] False
      by (simp add: unf h1(1,2) k'(1) i' z' counted_odd [OF h1(4)] room)
  qed
qed

section \<open>The chain of tables\<close>

text \<open>
  The tables ever used are linked from the initial one to the current one by their
  \<open>resize_counter\<close>, which is even once it is a link. The memory of the tables is exactly
  that of the chain.
\<close>

fun linked :: "(u64 \<Rightarrow> hashtable_table option) \<Rightarrow> u64 list \<Rightarrow> bool" where
  "linked tabs [] \<longleftrightarrow> False"
| "linked tabs [p] \<longleftrightarrow> (\<exists>t. tabs p = Some t \<and> \<not> IS_EVEN (resize_counter t))"
| "linked tabs (p # q # ps) \<longleftrightarrow> (\<exists>t. tabs p = Some t \<and> resize_counter t = q \<and> IS_EVEN q) \<and> linked tabs (q # ps)"

definition chained :: "hashtable_s \<Rightarrow> u64 list \<Rightarrow> bool" where
  "chained h ps \<longleftrightarrow> ps \<noteq> [] \<and> hd ps = INITIAL_TABLE \<and> last ps = hs_table h \<and> distinct ps \<and>
     dom (hs_tables h) = set ps \<and> linked (hs_tables h) ps"

lemma linked_cong: "linked tabs ps \<Longrightarrow> (\<And>p. p \<in> set ps \<Longrightarrow> tabs' p = tabs p) \<Longrightarrow> linked tabs' ps"
  by (induction tabs ps rule: linked.induct) auto

lemma create_chained: "chained (stm_hashtable_create m) [INITIAL_TABLE]"
  by (simp add: chained_def stm_hashtable_create_def IS_EVEN_def init_table_def INITIAL_HASHTABLE_SIZE_def)

text \<open>\<open>stm_hashtable_free\<close> frees every table, once.\<close>

lemma free_chain_all:
  "linked tabs (p # ps) \<Longrightarrow> distinct (p # ps) \<Longrightarrow> tabs p = Some t \<Longrightarrow> length ps < n \<Longrightarrow>
   free_chain n (resize_counter t) (tabs(p := None)) = Some (\<lambda>x. if x \<in> set (p # ps) then None else tabs x)"
proof (induction ps arbitrary: p tabs t n)
  case Nil
  then obtain m where "n = Suc m" by (cases n) auto
  then show ?case using Nil by (auto simp: fun_eq_iff)
next
  case (Cons q ps)
  obtain m where m: "n = Suc m" "length ps < m" using Cons.prems(4) by (cases n) auto
  have q: "resize_counter t = q" "IS_EVEN q" "linked tabs (q # ps)" using Cons.prems(1,3) by auto
  obtain u where u: "tabs q = Some u" using q(3) by (cases ps) auto
  have pq: "p \<noteq> q" "p \<notin> set ps" using Cons.prems(2) by auto
  let ?tabs = "tabs(p := None)"
  have "linked ?tabs (q # ps)" using q(3) by (rule linked_cong) (use pq in auto)
  moreover have "distinct (q # ps)" "?tabs q = Some u" using Cons.prems(2) u pq by auto
  ultimately have "free_chain m (resize_counter u) (?tabs(q := None)) =
    Some (\<lambda>x. if x \<in> set (q # ps) then None else ?tabs x)" using m(2) by (rule Cons.IH)
  moreover have "(\<lambda>x. if x \<in> set (q # ps) then None else ?tabs x) = (\<lambda>x. if x \<in> set (p # q # ps) then None else tabs x)"
    by (rule ext) simp
  moreover have "?tabs q = Some u" using u pq by simp
  ultimately show ?case using m(1) q(1,2) by (simp del: fun_upd_apply)
qed

lemma free_all:
  assumes "chained h ps" and "length ps \<le> fuel"
  shows "stm_hashtable_free fuel h = Some Map.empty"
proof -
  obtain qs where ps: "ps = INITIAL_TABLE # qs" using assms(1) by (cases ps) (auto simp: chained_def)
  obtain t where t: "hs_tables h INITIAL_TABLE = Some t" using assms(1) by (force simp: chained_def ps)
  have "free_chain fuel (resize_counter t) ((hs_tables h)(INITIAL_TABLE := None)) =
    Some (\<lambda>x. if x \<in> set (INITIAL_TABLE # qs) then None else hs_tables h x)"
    by (rule free_chain_all) (use assms ps t in \<open>auto simp: chained_def\<close>)
  moreover have "(\<lambda>x. if x \<in> set (INITIAL_TABLE # qs) then None else hs_tables h x) = Map.empty"
    using assms(1) by (auto simp: chained_def ps fun_eq_iff)
  ultimately show ?thesis by (simp add: stm_hashtable_free_def t)
qed

text \<open>A compaction leaves the initial table and the current one.\<close>

lemma free_until_all:
  "linked tabs (q # ps) \<Longrightarrow> distinct (q # ps) \<Longrightarrow> length ps < n \<Longrightarrow>
   free_until n (last (q # ps)) q tabs = Some (\<lambda>x. if x \<in> set (butlast (q # ps)) then None else tabs x)"
proof (induction ps arbitrary: q tabs n)
  case Nil
  then show ?case by (cases n) auto
next
  case (Cons r ps)
  obtain m where m: "n = Suc m" "length ps < m" using Cons.prems(3) by (cases n) auto
  obtain t where t: "tabs q = Some t" "resize_counter t = r" "linked tabs (r # ps)" using Cons.prems(1) by auto
  have q: "q \<notin> set (r # ps)" "distinct (r # ps)" using Cons.prems(2) by auto
  let ?tabs = "tabs(q := None)"
  have "linked ?tabs (r # ps)" using t(3) by (rule linked_cong) (use q in auto)
  from Cons.IH [OF this q(2) m(2)] have
    "free_until m (last (r # ps)) r ?tabs = Some (\<lambda>x. if x \<in> set (butlast (r # ps)) then None else ?tabs x)" .
  moreover have "q \<noteq> last (r # ps)" using q(1) last_in_set by fastforce
  ultimately show ?case using m(1) t(1,2) by (auto simp: fun_eq_iff)
qed

lemma free_old_rep:
  assumes ch: "chained h ps" and fuel: "length ps \<le> fuel" and even: "IS_EVEN (hs_table h)"
  shows "\<exists>h'. free_old_tables fuel h = Some h' \<and> hs_table h' = hs_table h \<and> additions h' = additions h \<and>
    dom (hs_tables h') = {INITIAL_TABLE, hs_table h} \<and> hs_tables h' (hs_table h) = hs_tables h (hs_table h) \<and>
    (\<exists>qs. chained h' qs)"
proof (cases "hs_table h = INITIAL_TABLE")
  case True
  then have "ps = [INITIAL_TABLE]" using ch
    by (cases ps rule: rev_cases) (auto simp: chained_def hd_append split: if_splits dest: hd_in_set)
  then have "dom (hs_tables h) = {INITIAL_TABLE, hs_table h}" using ch True by (simp add: chained_def)
  then show ?thesis using True ch by (auto simp: free_old_tables_def)
next
  case False
  obtain qs where qs: "ps = INITIAL_TABLE # qs" using ch by (cases ps) (auto simp: chained_def)
  then obtain q rs where rs: "ps = INITIAL_TABLE # q # rs" using ch False by (cases qs) (auto simp: chained_def)
  have lst: "last (q # rs) = hs_table h" and dis: "distinct ps" and dom: "dom (hs_tables h) = set ps"
    and link: "linked (hs_tables h) ps" using ch rs by (simp_all add: chained_def)
  obtain t0 where t0: "hs_tables h INITIAL_TABLE = Some t0" "resize_counter t0 = q" using link rs by auto
  obtain t where t: "hs_tables h (hs_table h) = Some t" "\<not> IS_EVEN (resize_counter t)"
  proof -
    have "linked tabs ps \<Longrightarrow> \<exists>t. tabs (last ps) = Some t \<and> \<not> IS_EVEN (resize_counter t)" for tabs ps
      by (induction tabs ps rule: linked.induct) auto
    then show ?thesis using link lst rs that by fastforce
  qed
  have "linked (hs_tables h) (q # rs)" "distinct (q # rs)" "length rs < fuel" using link dis fuel rs by auto
  from free_until_all [OF this] have fu: "free_until fuel (hs_table h) q (hs_tables h) =
    Some (\<lambda>x. if x \<in> set (butlast (q # rs)) then None else hs_tables h x)" unfolding lst .
  let ?tabs = "(\<lambda>x. if x \<in> set (butlast (q # rs)) then None else hs_tables h x)
    (INITIAL_TABLE \<mapsto> t0\<lparr>resize_counter := hs_table h\<rparr>)"
  have split: "q # rs = butlast (q # rs) @ [hs_table h]" using append_butlast_last_id [of "q # rs"] lst by simp
  have notin: "hs_table h \<notin> set (butlast (q # rs))" using dis rs split
    by (metis distinct.simps(2) distinct_append disjoint_insert(2) list.simps(15))
  have sets: "set (q # rs) = insert (hs_table h) (set (butlast (q # rs)))" by (subst split) auto
  have cur: "?tabs (hs_table h) = Some t" using False notin t(1) by simp
  have d: "dom ?tabs = {INITIAL_TABLE, hs_table h}"
  proof -
    have "hs_tables h x \<noteq> None \<longleftrightarrow> x \<in> set ps" for x unfolding dom [symmetric] by blast
    then have "dom ?tabs = insert INITIAL_TABLE (set ps - set (butlast (q # rs)))" by (auto simp: dom_def)
    also have "\<dots> = {INITIAL_TABLE, hs_table h}" using notin sets rs by auto
    finally show ?thesis .
  qed
  have "chained (h\<lparr>hs_tables := ?tabs\<rparr>) [INITIAL_TABLE, hs_table h]"
    using d cur False t(2) even by (auto simp: chained_def)
  moreover have "free_old_tables fuel h = Some (h\<lparr>hs_tables := ?tabs\<rparr>)"
    using False t0 fu by (simp add: free_old_tables_def)
  moreover have "hs_tables (h\<lparr>hs_tables := ?tabs\<rparr>) (hs_table h) = hs_tables h (hs_table h)"
    using cur t(1) by simp
  moreover have "dom (hs_tables (h\<lparr>hs_tables := ?tabs\<rparr>)) = {INITIAL_TABLE, hs_table h}"
    using d by (simp del: fun_upd_apply dom_fun_upd)
  moreover have "hs_table (h\<lparr>hs_tables := ?tabs\<rparr>) = hs_table h" "additions (h\<lparr>hs_tables := ?tabs\<rparr>) = additions h" by simp_all
  ultimately show ?thesis by blast
qed

section \<open>Compaction\<close>

lemma pow_word: "k \<le> 62 \<Longrightarrow> unat (2 ^ k :: u64) = 2 ^ k"
proof -
  assume "k \<le> 62"
  then have "(2 :: nat) ^ k < 2 ^ 64" by (intro power_strict_increasing) simp_all
  moreover have "unat (of_nat (2 ^ k) :: u64) = 2 ^ k mod 2 ^ 64" by (simp only: unat_of_nat) simp
  ultimately show ?thesis by simp
qed

lemma compact_count_pow:
  "j \<le> k \<Longrightarrow> k \<le> 60 \<Longrightarrow> unat needed \<le> 4 * 2 ^ k \<Longrightarrow> k - j < n \<Longrightarrow>
   \<exists>j'. compact_count n needed (2 ^ j) = 2 ^ j' \<and> j \<le> j' \<and> j' \<le> k \<and> unat needed \<le> 4 * 2 ^ j'"
proof (induction n arbitrary: j)
  case (Suc n)
  have "(2 ^ j :: u64) * 4 = 2 ^ (j + 2)" by (simp add: power_add)
  then have four: "unat ((2 ^ j :: u64) * 4) = 4 * 2 ^ j"
    using pow_word [of "j + 2"] Suc.prems(1,2) by (simp add: power_add mult.commute)
  show ?case
  proof (cases "(2 ^ j :: u64) * 4 < needed")
    case False
    then have "unat needed \<le> 4 * 2 ^ j" using four by (simp add: word_less_nat_alt)
    then show ?thesis using False Suc.prems(1) by (intro exI [of _ j]) simp
  next
    case True
    then have "unat ((2 ^ j :: u64) * 4) < unat needed" by (simp only: word_less_nat_alt)
    then have "(2 :: nat) ^ j < 2 ^ k" using four Suc.prems(3) by linarith
    then have "j < k" by (rule power_less_imp_less_exp [rotated]) simp
    then have "\<exists>j'. compact_count n needed (2 ^ Suc j) = 2 ^ j' \<and> Suc j \<le> j' \<and> j' \<le> k \<and> unat needed \<le> 4 * 2 ^ j'"
      using Suc.prems by (intro Suc.IH) auto
    then show ?thesis using True by (auto simp: mult.commute)
  qed
qed simp

lemma rehash_chained:
  assumes ch: "chained h ps" and fresh: "hs_malloc h \<notin> set ps" "IS_EVEN (hs_malloc h)"
    and re: "rehash_hashtable idx dead c h = Some h'" and cnt: "\<not> IS_EVEN (resize_counter b)" "hs_tables h' (hs_table h') = Some b"
  shows "chained h' (ps @ [hs_malloc h])"
proof -
  obtain t where t: "hs_tables h (hs_table h) = Some t"
    using re by (auto simp: rehash_hashtable_def Let_def split: option.splits)
  obtain rc b' where b': "h' = h\<lparr>hs_tables := (hs_tables h)(hs_table h \<mapsto> t\<lparr>resize_counter := hs_malloc h\<rparr>,
    hs_malloc h \<mapsto> b'\<lparr>resize_counter := rc\<rparr>), hs_table := hs_malloc h, hs_malloc := hs_malloc h + 16\<rparr>"
    using re by (auto simp: rehash_hashtable_def t Let_def split: option.splits)
  have link: "linked tabs ps \<Longrightarrow> distinct ps \<Longrightarrow> q \<notin> set ps \<Longrightarrow> IS_EVEN q \<Longrightarrow> tabs (last ps) = Some u \<Longrightarrow>
    \<not> IS_EVEN (resize_counter v) \<Longrightarrow> linked (tabs(last ps \<mapsto> u\<lparr>resize_counter := q\<rparr>, q \<mapsto> v)) (ps @ [q])" for tabs ps q u v
  proof (induction tabs ps rule: linked.induct)
    case (3 tabs p p' ps)
    then show ?case by (auto dest: last_in_set)
  qed auto
  have b: "b = b'\<lparr>resize_counter := rc\<rparr>" using cnt(2) b' by simp
  have lst: "last ps = hs_table h" "hs_table h \<in> set ps" using ch last_in_set [of ps] by (auto simp: chained_def)
  have "linked ((hs_tables h)(last ps \<mapsto> t\<lparr>resize_counter := hs_malloc h\<rparr>, hs_malloc h \<mapsto> b)) (ps @ [hs_malloc h])"
    by (rule link) (use ch fresh t lst cnt(1) in \<open>simp_all add: chained_def\<close>)
  then have "linked (hs_tables h') (ps @ [hs_malloc h])" using b' b lst(1) by simp
  moreover have "dom (hs_tables h') = set (ps @ [hs_malloc h])" using ch b' lst(2) by (auto simp: chained_def)
  ultimately show ?thesis using ch fresh(1) b' by (simp add: chained_def)
qed

text \<open>
  A compaction removes exactly the entries that are dead for the segment in \<open>additions\<close>,
  if there were enough additions, and frees the tables that are not in use.
\<close>

definition compacting :: "hashtable_s \<Rightarrow> hashtable_table \<Rightarrow> bool" where
  "compacting h t \<longleftrightarrow> drop_bit 8 (additions h) * 4 > mask t"

definition last_adder :: "hashtable_s \<Rightarrow> nat" where
  "last_adder h = (if additions h AND 0xFF = 0 then 1 else unat (additions h AND 0xFF))"

lemma compact_rep:
  assumes rep: "hashtable_rep (entry_index s me) h M" and ch: "chained h ps" and fuel: "length ps < fuel"
    and fresh: "hs_malloc h \<notin> set ps" "IS_EVEN (hs_malloc h)" and even: "IS_EVEN (hs_table h)"
    and t: "hs_tables h (hs_table h) = Some t"
  shows "\<exists>h'. compact_hashtable fuel s me h = Some h' \<and>
    hashtable_rep (entry_index s me) h'
      (if compacting h t then without (dead_entry s (last_adder h)) M else M) \<and>
    dom (hs_tables h') = {INITIAL_TABLE, hs_table h'} \<and> (\<exists>qs. chained h' qs)"
proof (cases "compacting h t")
  case False
  obtain h' where h': "free_old_tables fuel h = Some h'" "hs_table h' = hs_table h"
    "dom (hs_tables h') = {INITIAL_TABLE, hs_table h}" "hs_tables h' (hs_table h) = hs_tables h (hs_table h)" "\<exists>qs. chained h' qs"
    using free_old_rep [OF ch _ even, of fuel] fuel by auto
  have "hashtable_rep (entry_index s me) h' M" using rep h'(2,4) by (simp add: hashtable_rep_def)
  then show ?thesis using False h' t by (simp add: compact_hashtable_def compacting_def)
next
  case True
  have tr: "table_rep (entry_index s me) t M" "counted t (resize_counter t)" using rep t by (auto simp: hashtable_rep_def)
  obtain k where k: "3 \<le> k" "k \<le> 60" "mask t = 2 ^ k - 1" "length (items t) = 2 ^ k"
    using rep_sized [OF tr(1)] by (auto simp: table_sized_def)
  have init: "unat ((mask t + 1) * 4 + 1) = 4 * 2 ^ k + 1"
    using init_table_rep(2,3,4) [OF k(1,2)] k(3) by (simp add: counted_def)
  have needed: "unat ((mask t + 1) * 4 + 1 - resize_counter t) = 6 * used t"
    using init tr(2) k(4) by (simp add: counted_def unat_sub word_le_nat_alt)
  have "resize_counter t \<noteq> 0" using counted_odd [OF tr(2)] by (auto simp: IS_EVEN_def)
  then have "unat (resize_counter t) \<noteq> 0" by (metis unat_eq_zero)
  then have full: "6 * used t \<le> 4 * 2 ^ k" using tr(2) k(4) by (simp add: counted_def)
  have kn: "k - 3 < 64" using k(2) by simp
  from compact_count_pow [OF k(1,2) full [folded needed] kn] obtain j where j: "compact_count 64 ((mask t + 1) * 4 + 1 - resize_counter t) (2 ^ 3) = 2 ^ j" "3 \<le> j" "j \<le> k" "6 * used t \<le> 4 * 2 ^ j"
    unfolding needed by blast
  let ?seg = "if additions h AND 0xFF = 0 then 1 else additions h AND 0xFF"
  let ?h = "h\<lparr>additions := ?seg\<rparr>" and ?dead = "dead_entry s (unat ?seg)"
  have "?dead = dead_entry s (last_adder h)" by (simp add: last_adder_def)
  have "hs_tables ?h (hs_table ?h) = Some t" "j \<le> 60" using t j(3) k(2) by simp_all
  from rehash_rep [OF this(1) tr(1) j(2) this(2) j(4), of ?dead] obtain h1 b where
    h1: "rehash_hashtable (entry_index s me) ?dead (2 ^ j) ?h = Some h1" "hs_tables h1 (hs_table h1) = Some b"
    "table_rep (entry_index s me) b (without ?dead M)" "counted b (resize_counter b)" "hs_table h1 = hs_malloc h"
    by auto
  have ch': "chained ?h ps" using ch by (simp add: chained_def)
  have ch1: "chained h1 (ps @ [hs_malloc h])"
    using rehash_chained [OF ch' _ _ h1(1) counted_odd [OF h1(4)] h1(2)] fresh by simp
  obtain h' where h': "free_old_tables fuel h1 = Some h'" "hs_table h' = hs_table h1"
    "dom (hs_tables h') = {INITIAL_TABLE, hs_table h1}" "hs_tables h' (hs_table h1) = hs_tables h1 (hs_table h1)" "\<exists>qs. chained h' qs"
    using free_old_rep [OF ch1, of fuel] fuel fresh(2) h1(5) by auto
  have "hashtable_rep (entry_index s me) h' (without (dead_entry s (last_adder h)) M)"
    using h1(2,3,4) h'(2,4) \<open>?dead = _\<close> by (simp add: hashtable_rep_def)
  moreover have "compact_hashtable fuel s me h = Some h'"
    using True t h1(1) h'(1) j(1) by (simp add: compact_hashtable_def compacting_def Let_def INITIAL_HASHTABLE_SIZE_def)
  ultimately show ?thesis using True h'(2,3,5) by simp
qed

section \<open>A new entry in old memory\<close>

text \<open>The bytes of a new entry: its flags, the user's data, the index and a NULL object.\<close>

definition entry_byte :: "u32 \<Rightarrow> u64 \<Rightarrow> nat \<Rightarrow> u8" where
  "entry_byte userdata index i =
     (if i < 4 then byte_of32 GCFLAG_WRITE_BARRIER i else if i < 8 then byte_of32 userdata (i - 4)
      else if i < 16 then byte_of64 index (i - 8) else byte_of64 0 (i - 16))"

lemma vread_fill_entry:
  "vread (fill_entry j ud index e (set_stm_flags j e GCFLAG_WRITE_BARRIER s)) g x =
     (if e \<le> x \<and> x < e + 24 \<and> remap s j (x div 4096) = remap s g (x div 4096)
      then entry_byte ud index (x - e) else vread s g x)"
proof -
  have "x - (e + k) = x - e - k" for k by simp
  then show ?thesis
    by (auto simp: fill_entry_def vstore64_def vstore32_def vread_vfill vread_set_stm_flags entry_byte_def)
qed

lemma fill_entry_remap: "remap (fill_entry j ud index e (set_stm_flags j e v s)) = remap s"
  by (simp add: fill_entry_def vstore64_def vstore32_def)

lemma fold_fill_entry:
  "remap (fold (\<lambda>j s. fill_entry j ud index e (set_stm_flags j e GCFLAG_WRITE_BARRIER s)) js s) = remap s \<and>
   vread (fold (\<lambda>j s. fill_entry j ud index e (set_stm_flags j e GCFLAG_WRITE_BARRIER s)) js s) g x =
     (if e \<le> x \<and> x < e + 24 \<and> (\<exists>j \<in> set js. remap s j (x div 4096) = remap s g (x div 4096))
      then entry_byte ud index (x - e) else vread s g x)"
proof (induction js arbitrary: s)
  case (Cons j js)
  then show ?case by (auto simp: fill_entry_remap vread_fill_entry)
qed simp

lemma fill_old_entry_read:
  assumes "g \<le> 4"
  shows "vread (fill_old_entry ud index e s) g x =
    (if e \<le> x \<and> x < e + 24 then entry_byte ud index (x - e) else vread s g x)"
proof -
  have "\<exists>j \<in> set [0..<NB_SEGMENTS + 1]. remap s j (x div 4096) = remap s g (x div 4096)"
    using assms by (auto simp: NB_SEGMENTS_def)
  then show ?thesis using fold_fill_entry [of ud index e "[0..<NB_SEGMENTS + 1]" s g x]
    by (simp add: fill_old_entry_def foreach_f_def)
qed

lemma fill_old_entry_fields:
  assumes "g \<le> 4"
  shows "entry_index (fill_old_entry ud index e s) g e = index" and "entry_object (fill_old_entry ud index e s) g e = 0"
    and "stm_flags (fill_old_entry ud index e s) g e = GCFLAG_WRITE_BARRIER"
    and "vload32 (fill_old_entry ud index e s) g (e + 4) = ud"
    and "x + 24 \<le> e \<or> e + 24 \<le> x \<Longrightarrow> entry_index (fill_old_entry ud index e s) g x = entry_index s g x"
proof -
  note r = fill_old_entry_read [OF assms]
  show "entry_index (fill_old_entry ud index e s) g e = index"
    unfolding entry_index_def by (rule load64_bytes) (simp add: r entry_byte_def)
  have "load64 (vread (fill_old_entry ud index e s) g) (e + 16) = 0"
    by (rule load64_bytes) (simp add: r entry_byte_def)
  then show "entry_object (fill_old_entry ud index e s) g e = 0" by (simp add: entry_object_def vload64_def)
  show "stm_flags (fill_old_entry ud index e s) g e = GCFLAG_WRITE_BARRIER"
    unfolding stm_flags_def vload32_def by (rule load32_bytes) (simp add: r entry_byte_def)
  show "vload32 (fill_old_entry ud index e s) g (e + 4) = ud"
    unfolding vload32_def by (rule load32_bytes) (simp add: r entry_byte_def)
  assume "x + 24 \<le> e \<or> e + 24 \<le> x"
  then show "entry_index (fill_old_entry ud index e s) g x = entry_index s g x"
    unfolding entry_index_def by (intro load64_cong) (auto simp: r)
qed

text \<open>
  A lookup of a new index in an old hashtable, given the memory for the entry: no other entry
  moves or changes.
\<close>

lemma lookup_missing_old:
  assumes rep: "hashtable_rep (entry_index s me) h M" and new: "M index = None" and me: "me \<le> 4"
    and old: "\<not> is_in_nursery hobj"
    and bound: "\<And>t. hs_tables h (hs_table h) = Some t \<Longrightarrow> mask t < 2 ^ 58"
    and alloc: "allocate_outside_nursery_large ENTRY_SIZE s = Ret e s1"
    and apart: "e \<noteq> 0" "\<And>x. x \<in> ran M \<Longrightarrow> x + 24 \<le> e \<or> e + 24 \<le> x"
    and same: "\<And>x. x \<in> ran M \<Longrightarrow> entry_index s1 me x = entry_index s me x"
  shows "\<exists>h'. stm_hashtable_lookup fuel X ud mv me hobj h index s = Ret (e, h') (fill_old_entry ud index e s1) \<and>
    additions h' = additions h + 0x100 \<and>
    hashtable_rep (entry_index (fill_old_entry ud index e s1) me) h' (M(index \<mapsto> e))"
proof -
  let ?s = "fill_old_entry ud index e s1"
  have id: "moved_by mv hobj ?s = (\<lambda>x. x)" using old by (simp add: moved_by_def fun_eq_iff)
  have M: "map_option (\<lambda>x. x) \<circ> M = M" by (simp add: fun_eq_iff option.map_ident)
  have e: "e \<notin> ran M" using apart(2) by fastforce
  have nz: "x \<noteq> 0" if "x \<in> ran M" for x
    using that rep rep_SomeD(1) by (fastforce simp: hashtable_rep_def ran_def)
  have a: "new_entry fuel X ud me hobj (additions h) index s = Ret (e, additions h + 0x100) ?s"
    using old alloc by (simp add: new_entry_def)
  have b: "entry_added mv me hobj index M s e ?s"
    using fill_old_entry_fields(1,5) [OF me] apart e same nz by (simp add: entry_added_def id)
  have "\<exists>h'. stm_hashtable_lookup fuel X ud mv me hobj h index s = Ret (e, h') ?s \<and>
      additions h' = additions h + 0x100 \<and>
      hashtable_rep (entry_index ?s me) h' ((map_option (moved_by mv hobj ?s) \<circ> M)(index \<mapsto> e))"
    by (rule lookup_missing [OF rep new _ a b]) (rule bound)
  then show ?thesis unfolding id M .
qed

end
