(* ===== verification/Commit.thy ===== *)
theory Commit
  imports Majorgc
begin

text \<open>
  The life of a transaction (\<open>c7/stm/core.c\<close>): start, becoming inevitable, conflict
  detection and commit. The C stack is a parameter: \<open>stk\<close> its bytes, \<open>sp\<close> the address
  that \<open>setjmp\<close> saves from, \<open>again\<close> whether \<open>setjmp\<close> returns a second time.
\<close>

section \<open>Start\<close>

definition FIRST_READMARKER :: nat where "FIRST_READMARKER = FIRST_OBJECT_PAGE * 4096 div 16 div 4096 * 4096"
definition READMARKERS_END :: nat where "READMARKERS_END = FIRST_OBJECT_PAGE * 4096"

definition reset_transaction_read_version :: "nat \<Rightarrow> stm \<Rightarrow> stm" where
  "reset_transaction_read_version me s =
     (let s = s\<lparr>rm := (rm s)(me := (\<lambda>i. if FIRST_READMARKER \<le> i \<and> i < READMARKERS_END then 0 else rm s me i))\<rparr>
      in upd_seg me (\<lambda>p. p\<lparr>transaction_read_version := 1\<rparr>) s)"

text \<open>\<open>while (!acquire_thread_segment(tl));\<close> with \<open>n\<close> wake-ups; the result is the segment.\<close>

fun acquire_loop :: "nat \<Rightarrow> ext \<Rightarrow> nat \<Rightarrow> stm \<Rightarrow> (stm, nat) res" where
  "acquire_loop 0 X t s = Hang s"
| "acquire_loop (Suc n) X t s =
     (case acquire_thread_segment X t s of
        (Some me, s) \<Rightarrow> Ret me s
      | (None, s) \<Rightarrow> acquire_loop n X t s)"

text \<open>The new transaction's state, set with the mutex held.\<close>

definition begin_transaction :: "ext \<Rightarrow> nat \<Rightarrow> nat \<Rightarrow> stm \<Rightarrow> stm" where
  "begin_transaction X me t s =
     (let s = timing_event X (Some t) STM_TRANSACTION_START s;
          start_time = global_start_time s;
          s = s\<lparr>global_start_time := start_time + 1\<rparr>
      in upd_seg me (\<lambda>p. p\<lparr>unique_start_time := start_time, signalled_to_commit_soon := False,
           safe_point := SP_RUNNING, marker_inev_object := 0, transaction_state := TS_REGULAR,
           shadowstack_at_start_of_transaction := length (shadowstack (tls s t)),
           threadlocal_at_start_of_transaction := thread_local_obj (tls s t)\<rparr>) s)"

text \<open>The new read version, set after the mutex was released.\<close>

definition next_read_version :: "nat \<Rightarrow> stm \<Rightarrow> stm" where
  "next_read_version me s =
     (let old_rv = transaction_read_version (segs s me);
          s = upd_seg me (\<lambda>p. p\<lparr>transaction_read_version := old_rv + 1\<rparr>) s
      in if old_rv = 0xff then reset_transaction_read_version me s else s)"

definition start_transaction :: "nat \<Rightarrow> ext \<Rightarrow> nat \<Rightarrow> stm \<Rightarrow> (stm, nat) res" where
  "start_transaction fuel X t s =
     bind_res (acquire_loop fuel X t s) (\<lambda>me s.
     bind_res (enter_safe_point_if_requested fuel X me (begin_transaction X me t s)) (\<lambda>_ s.
       Ret me (next_read_version me s)))"

text \<open>The result is the segment and the repeat count.\<close>

definition stm_start_transaction ::
  "nat \<Rightarrow> ext \<Rightarrow> nat \<Rightarrow> (nat \<Rightarrow> u8) \<Rightarrow> nat \<Rightarrow> bool \<Rightarrow> stm \<Rightarrow> (stm, nat \<times> nat) res" where
  "stm_start_transaction fuel X t stk sp again s =
     (let (repeat_count, rj) = rewind_jmp_setjmp (rjthread (tls s t)) stk (shadowstack (tls s t)) sp again;
          s = upd_tl t (\<lambda>x. x\<lparr>rjthread := rj\<rparr>) s
      in bind_res (start_transaction fuel X t s) (\<lambda>me s. Ret (me, repeat_count) s))"

section \<open>Inevitable transactions\<close>

definition stm_is_inevitable :: "nat \<Rightarrow> stm \<Rightarrow> bool" where
  "stm_is_inevitable t s \<longleftrightarrow> \<not> rewind_jmp_armed (rjthread (tls s t))"

definition forget_rewind :: "nat option \<Rightarrow> stm \<Rightarrow> stm" where
  "forget_rewind t s =
     (case t of None \<Rightarrow> s | Some t \<Rightarrow> upd_tl t (\<lambda>x. x\<lparr>rjthread := rewind_jmp_forget (rjthread x)\<rparr>) s)"

definition become_inevitable :: "nat \<Rightarrow> ext \<Rightarrow> nat \<Rightarrow> stm \<Rightarrow> (stm, unit) res" where
  "become_inevitable fuel X me s =
     bind_res (enter_safe_point_if_requested fuel X me s) (\<lambda>_ s.
       if transaction_state (segs s me) = TS_REGULAR
       then let s = timing_fetch_inev X me s
            in bind_res (wait_for_end_of_inevitable_transaction fuel X me s) (\<lambda>_ s.
                 let s = upd_seg me (\<lambda>p. p\<lparr>transaction_state := TS_INEVITABLE\<rparr>) s;
                     s = forget_rewind (running_thread (segs s me)) s
                 in Ret () (invoke_and_clear_user_callbacks me 0 s))
       else Ret () s)"

definition stm_become_inevitable :: "nat \<Rightarrow> ext \<Rightarrow> nat \<Rightarrow> nat \<Rightarrow> stm \<Rightarrow> (stm, unit) res" where
  "stm_become_inevitable fuel X me t s =
     (if \<not> stm_is_inevitable t s then become_inevitable fuel X me s else Ret () s)"

definition stm_become_globally_unique_transaction :: "nat \<Rightarrow> ext \<Rightarrow> nat \<Rightarrow> nat \<Rightarrow> stm \<Rightarrow> (stm, unit) res" where
  "stm_become_globally_unique_transaction fuel X me t s =
     bind_res (stm_become_inevitable fuel X me t s) (\<lambda>_ s.
       synchronize_all_threads fuel X me STOP_OTHERS_AND_BECOME_GLOBALLY_UNIQUE s)"

text \<open>
  \<open>stm_start_inevitable_transaction\<close> runs inside a frame of its own, at address \<open>frame\<close>
  with its buffer at \<open>buf\<close>; \<open>stk'\<close> is the stack when the frame is left.
\<close>

definition stm_start_inevitable_transaction ::
  "nat \<Rightarrow> ext \<Rightarrow> nat \<Rightarrow> nat \<Rightarrow> nat \<Rightarrow> (nat \<Rightarrow> u8) \<Rightarrow> (nat \<Rightarrow> u8) \<Rightarrow> nat \<Rightarrow> bool \<Rightarrow> stm \<Rightarrow> (stm, nat) res" where
  "stm_start_inevitable_transaction fuel X t buf frame stk stk' sp again s =
     (let s = upd_tl t (\<lambda>x. x\<lparr>rjthread := rewind_jmp_enterframe (rjthread x) buf frame (length (shadowstack x))\<rparr>) s
      in bind_res (stm_start_transaction fuel X t stk sp again s) (\<lambda>(me, _) s.
         bind_res (stm_become_inevitable fuel X me t s) (\<lambda>_ s.
           Ret me (upd_tl t (\<lambda>x. x\<lparr>rjthread := rewind_jmp_leaveframe (rjthread x) stk' (shadowstack x)\<rparr>) s))))"

section \<open>Conflicts\<close>

text \<open>
  The loop over the modified objects, last first, against one other segment; the first
  conflict ends it. The result True means that the other threads may have run.
\<close>

fun detect_objects :: "ext \<Rightarrow> nat \<Rightarrow> nat \<Rightarrow> u8 \<Rightarrow> nat list \<Rightarrow> stm \<Rightarrow> (stm, bool) res" where
  "detect_objects X me i remote_version [] s = Ret False s"
| "detect_objects X me i remote_version (item # rest) s =
     (if was_read_remote s i item remote_version
      then write_read_contention_management X me i item s
      else detect_objects X me i remote_version rest s)"

fun detect_segments :: "ext \<Rightarrow> nat \<Rightarrow> nat list \<Rightarrow> stm \<Rightarrow> (stm, bool) res" where
  "detect_segments X me [] s = Ret False s"
| "detect_segments X me (i # segs_left) s =
     (if i = me then detect_segments X me segs_left s
      else if transaction_state (segs s i) = TS_NONE then detect_segments X me segs_left s
      else if is_aborting_now s i then detect_segments X me segs_left s
      else bind_res (detect_objects X me i (transaction_read_version (segs s i))
                       (rev (modified_old_objects (segs s me))) s)
             (\<lambda>restart s. if restart then Ret True s else detect_segments X me segs_left s))"

definition detect_write_read_conflicts :: "ext \<Rightarrow> nat \<Rightarrow> stm \<Rightarrow> (stm, bool) res" where
  "detect_write_read_conflicts X me s = detect_segments X me segments s"

section \<open>Commit\<close>

text \<open>From the label \<open>restart_all\<close>, the part before the mutex is taken.\<close>

definition commit_prepare :: "nat \<Rightarrow> ext \<Rightarrow> nat \<Rightarrow> stm \<Rightarrow> (stm, unit) res" where
  "commit_prepare fuel X me s =
     bind_res (exec_local_finalizers fuel X me s) (\<lambda>_ s.
     bind_res (minor_collection fuel X me True s) (\<lambda>_ s.
       push_overflow_objects_from_privatized_pages X me s))"

text \<open>
  The loop over both labels: \<open>restart_all\<close> when the flag is set, else \<open>restart\<close>. It ends
  when the transaction cannot abort any more.
\<close>

fun commit_validate :: "nat \<Rightarrow> nat \<Rightarrow> ext \<Rightarrow> nat \<Rightarrow> bool \<Rightarrow> stm \<Rightarrow> (stm, unit) res" where
  "commit_validate 0 fuel X me restart_all s = Hang s"
| "commit_validate (Suc n) fuel X me restart_all s =
     bind_res (if restart_all then commit_prepare fuel X me s else Ret () s) (\<lambda>_ s.
     bind_res (synchronize_all_threads fuel X me STOP_OTHERS_UNTIL_MUTEX_UNLOCK s) (\<lambda>_ s.
       if any_local_finalizers me s then commit_validate n fuel X me True s
       else bind_res (detect_write_read_conflicts X me s) (\<lambda>restart s.
              if restart then commit_validate n fuel X me False s else Ret () s)))"

definition update_overflow_number :: "nat \<Rightarrow> stm \<Rightarrow> stm" where
  "update_overflow_number me s =
     (if overflow_number_has_been_used (segs s me)
      then let highest = highest_overflow_number s + GCFLAG_OVERFLOW_NUMBER_bit0
           in upd_seg me (\<lambda>p. p\<lparr>overflow_number := highest, overflow_number_has_been_used := False\<rparr>)
                (s\<lparr>highest_overflow_number := highest\<rparr>)
      else s)"

definition commit_signals :: "nat \<Rightarrow> stm \<Rightarrow> stm" where
  "commit_signals me s =
     (if transaction_state (segs s me) = TS_INEVITABLE
      then let s = cond_signal C_INEVITABLE s
           in if globally_unique_transaction s then committed_globally_unique_transaction me s else s
      else s)"

text \<open>After the validation, with the mutex held until the end.\<close>

definition commit_now :: "nat \<Rightarrow> ext \<Rightarrow> nat \<Rightarrow> stm \<Rightarrow> (stm, unit) res" where
  "commit_now fuel X me s =
     (let s = forget_rewind (running_thread (segs s me)) s
      in bind_res (if major_requested s
                   then bind_res (major_collection_now_at_safe_point fuel X
                          (timing_event X (running_thread (segs s me)) STM_GC_MAJOR_START s))
                          (\<lambda>_ s. Ret () (timing_event X (running_thread (segs s me)) STM_GC_MAJOR_DONE s))
                   else Ret () s) (\<lambda>_ s.
         bind_res (push_modified_to_other_segments X me s) (\<lambda>_ s.
           let s = commit_finalizers me s;
               s = update_overflow_number me s;
               s = invoke_and_clear_user_callbacks me 0 s;
               s = commit_signals me s
           in Ret () (finish_transaction X me STM_TRANSACTION_COMMIT s))))"

definition commit_transaction :: "nat \<Rightarrow> ext \<Rightarrow> nat \<Rightarrow> stm \<Rightarrow> (stm, unit) res" where
  "commit_transaction fuel X me s =
     bind_res (commit_validate fuel fuel X me True s) (\<lambda>_ s. commit_now fuel X me s)"

text \<open>
  The general finalizers run between transactions, in a transaction of their own, if
  \<open>lock_free\<close>: the static lock of \<open>_invoke_general_finalizers\<close> was not taken. The nested
  commit finds the lock taken and does not come back here.
\<close>

definition invoke_general_finalizers ::
  "nat \<Rightarrow> ext \<Rightarrow> nat \<Rightarrow> nat \<Rightarrow> nat \<Rightarrow> (nat \<Rightarrow> u8) \<Rightarrow> (nat \<Rightarrow> u8) \<Rightarrow> nat \<Rightarrow> bool \<Rightarrow> bool \<Rightarrow> stm \<Rightarrow> (stm, unit) res" where
  "invoke_general_finalizers fuel X t buf frame stk stk' sp again lock_free s =
     (if run_finalizers (g_finalizers s) = None \<or> \<not> lock_free then Ret () s
      else let s = upd_tl t (\<lambda>x. x\<lparr>rjthread := rewind_jmp_enterframe (rjthread x) buf frame (length (shadowstack x))\<rparr>) s
           in bind_res (stm_start_transaction fuel X t stk sp again s) (\<lambda>(me, _) s.
              bind_res (execute_finalizers fuel X me 0 s) (\<lambda>_ s.
              bind_res (commit_transaction fuel X me s) (\<lambda>_ s.
                Ret () (upd_tl t (\<lambda>x. x\<lparr>rjthread := rewind_jmp_leaveframe (rjthread x) stk' (shadowstack x)\<rparr>) s)))))"

definition stm_commit_transaction ::
  "nat \<Rightarrow> ext \<Rightarrow> nat \<Rightarrow> nat \<Rightarrow> nat \<Rightarrow> (nat \<Rightarrow> u8) \<Rightarrow> (nat \<Rightarrow> u8) \<Rightarrow> nat \<Rightarrow> bool \<Rightarrow> bool \<Rightarrow> stm \<Rightarrow> (stm, unit) res" where
  "stm_commit_transaction fuel X me buf frame stk stk' sp again lock_free s =
     (let t = running_thread (segs s me)
      in bind_res (commit_transaction fuel X me s) (\<lambda>_ s.
           case t of None \<Rightarrow> Ret () s
           | Some t \<Rightarrow> invoke_general_finalizers fuel X t buf frame stk stk' sp again lock_free s))"

end
