(* ===== verification/Publish.thy ===== *)
theory Publish
  imports Syncobj
begin

text \<open>
  What \<open>push_modified_to_other_segments\<close> achieves: every segment sees the committing
  transaction's version of every modified object, and the write locks are free again. Objects
  are disjoint and use their own entries of \<open>write_locks\<close>.
\<close>

section \<open>Only memory and locks change\<close>

definition mem_only :: "stm \<Rightarrow> stm \<Rightarrow> bool" where
  "mem_only s s' \<longleftrightarrow> s' = s\<lparr>mem := mem s', write_locks := write_locks s'\<rparr>"

lemma mem_onlyI: "s' = s\<lparr>mem := m, write_locks := w\<rparr> \<Longrightarrow> mem_only s s'"
  by (simp add: mem_only_def)

lemma mem_only_refl [simp]: "mem_only s s"
  by (simp add: mem_only_def)

lemma mem_only_trans: "mem_only s s' \<Longrightarrow> mem_only s' s'' \<Longrightarrow> mem_only s s''"
  unfolding mem_only_def by (cases s; cases s'; cases s'') simp

lemma mem_only_segs: "mem_only s s' \<Longrightarrow> segs s' = segs s"
  unfolding mem_only_def by (cases s; cases s') simp

lemma mem_only_vfill: "mem_only s (vfill g a n f s)"
  by (rule mem_onlyI [where w = "write_locks s"]) (simp add: vfill_def)

lemma mem_only_memcpy: "mem_only s (memcpy g a g' b n s)"
  by (simp add: memcpy_def mem_only_vfill)

lemma mem_only_locks: "mem_only s (s\<lparr>write_locks := w\<rparr>)"
  by (rule mem_onlyI [where m = "mem s"]) simp

lemma mem_only_fold: "(\<And>x s. mem_only s (f x s)) \<Longrightarrow> mem_only s (fold f xs s)"
  by (induction xs arbitrary: s) (auto intro: mem_only_trans)

lemma mem_only_set_flags: "mem_only s (set_stm_flags g obj v s)"
  by (simp add: set_stm_flags_def vstore32_def mem_only_vfill)

lemma mem_only_reset_cards: "mem_only s (reset_object_cards X g obj v a s)"
  unfolding reset_object_cards_eq by (rule mem_only_trans [OF mem_only_locks mem_only_set_flags])

lemma mem_only_sync_page: "mem_only s (sync_page me page start n s)"
  unfolding sync_page_def Let_def foreach_f_def
  by (rule mem_only_trans [OF _ mem_only_fold]) (auto simp: copy_fragment_memcpy mem_only_memcpy)

lemma mem_only_sync_pages: "mem_only s (sync_pages me lp pages start e s)"
proof (induction pages arbitrary: start s)
  case (Cons p ps)
  show ?case using mem_only_trans [OF mem_only_sync_page Cons] by simp
qed simp

lemma mem_only_page_wise: "mem_only s (page_wise_synchronize_object_now X me obj s)"
  by (simp add: page_wise_synchronize_object_now_def Let_def mem_only_sync_pages)

lemma mem_only_copy_cards: "mem_only s (copy_cards me obj sz layout c d s)"
  unfolding copy_cards_def Let_def foreach_f_def
  by (rule mem_only_trans [OF mem_only_memcpy mem_only_fold]) (simp add: mem_only_memcpy)

lemma mem_only_if: "mem_only s (snd p) \<Longrightarrow> mem_only s (snd q) \<Longrightarrow> mem_only s (snd (if c then p else q))"
  by simp

lemma mem_only_sync_cards:
  "mem_only s (snd (sync_cards me obj sz layout lc cards start b s))"
proof (induction cards arbitrary: start b s)
  case Nil
  then show ?case by simp
next
  case (Cons c cs)
  let ?l = "get_write_lock_idx obj + c"
  let ?m = "write_locks s ?l = CARD_MARKED_OLD"
  let ?s = "if ?m then s\<lparr>write_locks := (write_locks s)(?l := CARD_CLEAR)\<rparr> else s"
  have s: "mem_only s ?s" by (simp add: mem_only_locks)
  note ih = mem_only_trans [OF s Cons] mem_only_trans [OF mem_only_trans [OF s mem_only_copy_cards] Cons]
  show ?case
  proof (cases "if ?m \<and> start = None then Some c else start")
    case None
    show ?thesis unfolding sync_cards.simps Let_def None option.case by (rule ih(1))
  next
    case (Some a)
    show ?thesis unfolding sync_cards.simps Let_def Some option.case by (rule mem_only_if [OF ih(2) ih(1)])
  qed
qed

lemma mem_only_card_wise: "mem_only s (card_wise_synchronize_object_now X me obj s)"
proof -
  have fin: "mem_only s (snd r) \<Longrightarrow> mem_only s (case r of (b, s') \<Rightarrow> if b then page_wise_synchronize_object_now X me obj s' else s')" for r
    by (cases r) (auto intro: mem_only_trans mem_only_page_wise)
  have sel: "mem_only s p \<Longrightarrow> mem_only s q \<Longrightarrow> mem_only s (if c then p else q)" for p q c by simp
  show ?thesis
    unfolding card_wise_synchronize_object_now_def Let_def
    by (rule sel [OF mem_only_trans [OF mem_only_reset_cards mem_only_page_wise] fin [OF mem_only_sync_cards]])
qed

lemma mem_only_synchronize:
  "synchronize_object_now X me obj ign s = Ret u s' \<Longrightarrow> mem_only s s'"
  by (auto simp: synchronize_object_now_def mem_only_page_wise mem_only_card_wise split: if_splits)

section \<open>The locks that change\<close>

lemma sync_page_locks [simp]: "write_locks (sync_page me page start n s) = write_locks s"
  unfolding sync_page_def Let_def foreach_f_def
  by (subst fold_frame [where g = write_locks]) (auto simp: copy_fragment_memcpy)

lemma sync_pages_locks [simp]: "write_locks (sync_pages me lp pages start e s) = write_locks s"
  by (induction pages arbitrary: start s) simp_all

lemma page_wise_locks [simp]: "write_locks (page_wise_synchronize_object_now X me obj s) = write_locks s"
  by (simp add: page_wise_synchronize_object_now_def Let_def)

lemma sync_cards_locks:
  "i \<notin> (\<lambda>c. get_write_lock_idx obj + c) ` set cards \<Longrightarrow>
   write_locks (snd (sync_cards me obj sz layout lc cards start b s)) i = write_locks s i"
proof (induction cards arbitrary: start b s)
  case Nil
  then show ?case by simp
next
  case (Cons c cs)
  let ?l = "get_write_lock_idx obj + c"
  let ?m = "write_locks s ?l = CARD_MARKED_OLD"
  have i: "i \<notin> (\<lambda>c. get_write_lock_idx obj + c) ` set cs" "i \<noteq> ?l" using Cons.prems by auto
  let ?s = "if ?m then s\<lparr>write_locks := (write_locks s)(?l := CARD_CLEAR)\<rparr> else s"
  have s: "write_locks ?s i = write_locks s i" using i(2) by simp
  have ih: "write_locks (snd (sync_cards me obj sz layout lc cs st b' ?s)) i = write_locks s i"
    "write_locks (snd (sync_cards me obj sz layout lc cs st b' (copy_cards me obj sz layout c' d' ?s))) i = write_locks s i"
    for st b' c' d' unfolding Cons.IH [OF i(1)] copy_cards_write_locks by (rule s)+
  have sel: "write_locks (snd p) i = w \<Longrightarrow> write_locks (snd q) i = w \<Longrightarrow> write_locks (snd (if c then p else q)) i = w"
    for p q :: "bool \<times> stm" and c w by simp
  show ?case
  proof (cases "if ?m \<and> start = None then Some c else start")
    case None
    show ?thesis unfolding sync_cards.simps Let_def None option.case by (rule ih(1))
  next
    case (Some a)
    show ?thesis unfolding sync_cards.simps Let_def Some option.case by (rule sel [OF ih(2) ih(1)])
  qed
qed

lemma card_wise_locks:
  assumes "i \<notin> card_range X s me obj"
  shows "write_locks (card_wise_synchronize_object_now X me obj s) i = write_locks s i"
proof -
  let ?l = "stmcb_get_card_base_itemsize X (obj_bytes s me obj)"
  let ?last = "get_index_to_card_index ((obj_size X s me obj - fst ?l) div snd ?l - 1)"
  have last: "last_card_index X s me obj = ?last" by (simp add: last_card_index_def case_prod_beta)
  have i: "i \<notin> (\<lambda>c. get_write_lock_idx obj + c) ` set [1..<?last + 1]"
    using assms by (auto simp: card_range_def last)
  have r: "write_locks (reset_object_cards X me obj v False s) i = write_locks s i" for v
    using assms by (simp add: reset_object_cards_eq)
  have fin: "write_locks (snd r) i = write_locks s i \<Longrightarrow> write_locks (case r of (b, s') \<Rightarrow>
      if b then page_wise_synchronize_object_now X me obj s' else s') i = write_locks s i" for r
    by (cases r) simp
  have sel: "write_locks p i = w \<Longrightarrow> write_locks q i = w \<Longrightarrow> write_locks (if c then p else q) i = w" for p q c w by simp
  show ?thesis
    unfolding card_wise_synchronize_object_now_def Let_def
    by (rule sel [OF _ fin [OF sync_cards_locks [OF i]]]) (simp add: r)
qed

lemma synchronize_locks:
  assumes "synchronize_object_now X me obj ign s = Ret u s'"
    and "ign \<or> \<not> obj_should_use_cards X s me obj \<or> i \<notin> card_range X s me obj"
  shows "write_locks s' i = write_locks s i"
  using assms card_wise_locks [of i X s me obj] by (auto simp: synchronize_object_now_def split: if_splits)

section \<open>Separate objects\<close>

definition extent :: "ext \<Rightarrow> stm \<Rightarrow> nat \<Rightarrow> nat \<Rightarrow> nat set" where
  "extent X s g obj = {obj..<obj + obj_size X s g obj}"

definition separated :: "ext \<Rightarrow> stm \<Rightarrow> nat \<Rightarrow> nat list \<Rightarrow> bool" where
  "separated X s g objs \<longleftrightarrow> distinct objs \<and> (\<forall>a \<in> set objs. WRITELOCK_START * 16 \<le> a) \<and>
     (\<forall>a \<in> set objs. \<forall>b \<in> set objs. a \<noteq> b \<longrightarrow>
        a + obj_size X s g a + 16 \<le> b \<or> b + obj_size X s g b + 16 \<le> a)"

lemma card_in_object:
  assumes X: "cb_ok X" and u: "obj_should_use_cards X s g a" and c: "c \<le> last_card_index X s g a"
  shows "c * 16 < obj_size X s g a"
proof -
  let ?b = "obj_bytes s g a"
  obtain base item where l: "stmcb_get_card_base_itemsize X ?b = (base, item)"
    by (cases "stmcb_get_card_base_itemsize X ?b")
  let ?sz = "obj_size X s g a"
  have sup: "stmcb_obj_supports_cards X ?b" and big: "544 \<le> ?sz"
    using u by (auto simp: obj_should_use_cards_def card_consts split: if_splits)
  have "0 < item" using X sup l unfolding cb_ok_def by (metis snd_conv)
  then have n: "(?sz - base) div item \<le> ?sz" by (meson diff_le_self div_le_dividend le_trans)
  have "c \<le> ((?sz - base) div item - 1) div 32 + 1"
    using c l by (simp add: last_card_index_def get_index_to_card_index_def CARD_SIZE_def)
  also have "\<dots> \<le> ?sz div 32 + 1" using n by (intro add_le_mono div_le_mono) simp_all
  finally have "c * 16 \<le> ?sz div 32 * 16 + 16" by simp
  moreover have "?sz div 32 * 32 \<le> ?sz" by (rule div_times_less_eq_dividend)
  ultimately show ?thesis using big by linarith
qed

lemma card_range_iff:
  "i \<in> card_range X s g b \<longleftrightarrow> (\<exists>c. 1 \<le> c \<and> c \<le> last_card_index X s g b \<and> i = get_write_lock_idx b + c)"
proof
  assume "i \<in> card_range X s g b"
  then show "\<exists>c. 1 \<le> c \<and> c \<le> last_card_index X s g b \<and> i = get_write_lock_idx b + c"
    by (intro exI [of _ "i - get_write_lock_idx b"]) (auto simp: card_range_def)
qed (auto simp: card_range_def)

text \<open>The entries of \<open>write_locks\<close> of an object: its own and its cards'.\<close>

lemma lock_entry_apart:
  assumes X: "cb_ok X" and ws: "WRITELOCK_START * 16 \<le> a" "WRITELOCK_START * 16 \<le> b"
    and sep: "a + obj_size X s g a + 16 \<le> b \<or> b + obj_size X s' g' b + 16 \<le> a"
    and c: "c = 0 \<or> obj_should_use_cards X s g a \<and> c \<le> last_card_index X s g a"
    and d: "d = 0 \<or> obj_should_use_cards X s' g' b \<and> d \<le> last_card_index X s' g' b"
  shows "get_write_lock_idx a + c \<noteq> get_write_lock_idx b + d"
proof -
  have lt: "a' div 16 + c' < b' div 16"
    if "a' + z + 16 \<le> b'" and "c' * 16 < z" for a' b' c' z :: nat
  proof -
    have "a' + c' * 16 + 16 \<le> b'" using that by linarith
    then have "(a' + c' * 16 + 16) div 16 \<le> b' div 16" by (rule div_le_mono)
    then show ?thesis by simp
  qed
  have cz: "c * 16 < obj_size X s g a" using c card_in_object [OF X] cb_ok_size [OF X, of "obj_bytes s g a"]
    by (auto simp: obj_size_def)
  have dz: "d * 16 < obj_size X s' g' b" using d card_in_object [OF X] cb_ok_size [OF X, of "obj_bytes s' g' b"]
    by (auto simp: obj_size_def)
  have w: "WRITELOCK_START \<le> a div 16" "WRITELOCK_START \<le> b div 16" using ws div_le_mono [OF ws(1), of 16] div_le_mono [OF ws(2), of 16] by simp_all
  from sep show ?thesis
  proof
    assume "a + obj_size X s g a + 16 \<le> b"
    from lt [OF this cz] show ?thesis using w by (simp add: get_write_lock_idx_def)
  next
    assume "b + obj_size X s' g' b + 16 \<le> a"
    from lt [OF this dz] show ?thesis using w by (simp add: get_write_lock_idx_def)
  qed
qed

section \<open>Publishing all modified objects\<close>

text \<open>
  What holds of a modified object when the commit publishes it: its pages are mapped as
  their bits say, no card write is in progress, the other segments still agree with the
  shared copy, and what was changed is covered by the marked cards.
\<close>

definition publishable :: "ext \<Rightarrow> stm \<Rightarrow> nat \<Rightarrow> nat \<Rightarrow> bool" where
  "publishable X s me obj \<longleftrightarrow> obj_mapped X s me obj \<and>
     \<not> has_flag (stm_flags s me obj) GCFLAG_SMALL_UNIFORM \<and> \<not> has_flag (stm_flags s me obj) GCFLAG_CARDS_SET \<and>
     (\<forall>g x. g \<le> 4 \<longrightarrow> g \<noteq> me \<longrightarrow> x \<in> extent X s me obj \<longrightarrow> vread s g x = vread s 0 x) \<and>
     changes_covered X s me obj False"

lemma publishable_synchronize:
  assumes "me \<in> {1..4}" and "cb_ok X" and "publishable X s me obj"
  shows "\<exists>s'. synchronize_object_now X me obj False s = Ret () s' \<and> published s me (extent X s me obj) s'"
  unfolding extent_def
  by (rule synchronize_object_agree [OF assms(1,2)])
    (use assms(3) in \<open>auto simp: publishable_def extent_def\<close>)

text \<open>The view of the publisher does not change, so nothing derived from it does.\<close>

lemma same_view_object:
  assumes "vread s' me = vread s me"
  shows "obj_bytes s' me obj = obj_bytes s me obj" and "obj_size X s' me obj = obj_size X s me obj"
    and "stm_flags s' me obj = stm_flags s me obj" and "extent X s' me obj = extent X s me obj"
    and "obj_should_use_cards X s' me obj = obj_should_use_cards X s me obj"
    and "last_card_index X s' me obj = last_card_index X s me obj"
proof -
  show b: "obj_bytes s' me obj = obj_bytes s me obj" using assms by (simp add: obj_bytes_def fun_eq_iff)
  show z: "obj_size X s' me obj = obj_size X s me obj" by (simp add: obj_size_def b)
  show "stm_flags s' me obj = stm_flags s me obj" using assms by (simp add: stm_flags_def vload32_def)
  show "extent X s' me obj = extent X s me obj" by (simp add: extent_def z)
  show "obj_should_use_cards X s' me obj = obj_should_use_cards X s me obj"
    by (simp add: obj_should_use_cards_def b z)
  show "last_card_index X s' me obj = last_card_index X s me obj" by (simp add: last_card_index_def b z)
qed

lemma publishable_keep:
  assumes P: "publishable X s me b" and pub: "published s me R s'" and me: "me \<in> {1..4}"
    and apart: "extent X s me b \<inter> R = {}"
    and locks: "\<And>c. obj_should_use_cards X s me b \<Longrightarrow> 1 \<le> c \<Longrightarrow> c \<le> last_card_index X s me b \<Longrightarrow>
      write_locks s' (get_write_lock_idx b + c) = write_locks s (get_write_lock_idx b + c)"
  shows "publishable X s' me b"
proof -
  have v: "vread s' me = vread s me" using publishedD [OF pub] me by (auto simp: fun_eq_iff)
  note eq = same_view_object [OF v]
  have bits: "by_segment s' = by_segment s" "remap s' = remap s" using pub by (simp_all add: published_def)
  have "obj_mapped X s' me b"
    using P mapped_ok_cong [OF bits(1) bits(2)] by (simp add: publishable_def obj_mapped_def eq)
  moreover have "vread s' g x = vread s' 0 x" if "g \<le> 4" "g \<noteq> me" "x \<in> extent X s me b" for g x
    using that P apart publishedD [OF pub that(1), of x] publishedD [OF pub, of 0 x]
    by (auto simp: publishable_def)
  moreover have "changes_covered X s' me b False"
  proof (cases "obj_should_use_cards X s me b")
    case True
    have m: "marked_at s' b c \<longleftrightarrow> marked_at s b c" if "1 \<le> c" "c \<le> last_card_index X s me b" for c
      using locks [OF True that] by simp
    have "marked_bytes X s' me b = marked_bytes X s me b" "no_card_marked X s' me b = no_card_marked X s me b"
      using m by (auto simp: marked_bytes_def no_card_marked_def eq)
    moreover have "vread s' 0 x = vread s 0 x" if "b \<le> x" "x < b + obj_size X s me b" for x
      using publishedD [OF pub, of 0 x] apart that by (auto simp: extent_def)
    ultimately show ?thesis using P by (auto simp: publishable_def changes_covered_def eq v)
  qed (simp add: changes_covered_def eq)
  ultimately show ?thesis using P by (simp add: publishable_def eq)
qed

definition push_one :: "ext \<Rightarrow> nat \<Rightarrow> nat \<Rightarrow> stm \<Rightarrow> (stm, unit) res" where
  "push_one X me item s =
     synchronize_object_now X me item False (s\<lparr>write_locks := (write_locks s)(get_write_lock_idx item := 0)\<rparr>)"

lemma published_trans_view:
  assumes "published s me R s'" and "published s' me R' s''" and "me \<in> {1..4}"
  shows "published s me (R \<union> R') s''"
  using published_trans [OF assms(1,2)] assms(3) by simp

lemma push_one_step:
  assumes me: "me \<in> {1..4}" and X: "cb_ok X" and P: "publishable X s me a" and ws: "WRITELOCK_START * 16 \<le> a"
  shows "\<exists>s'. push_one X me a s = Ret () s' \<and> published s me (extent X s me a) s' \<and> mem_only s s' \<and>
    write_locks s' (get_write_lock_idx a) = 0 \<and>
    (\<forall>i. i \<noteq> get_write_lock_idx a \<longrightarrow> \<not> obj_should_use_cards X s me a \<or> i \<notin> card_range X s me a \<longrightarrow>
       write_locks s' i = write_locks s i)"
proof -
  let ?s = "s\<lparr>write_locks := (write_locks s)(get_write_lock_idx a := 0)\<rparr>"
  have v: "vread ?s me = vread s me" by simp
  note eq = same_view_object [OF v]
  have P': "publishable X ?s me a"
    by (rule publishable_keep [OF P _ me, of "{}"]) (auto simp: published_refl)
  from publishable_synchronize [OF me X P'] obtain s' where
    s': "synchronize_object_now X me a False ?s = Ret () s'" "published ?s me (extent X ?s me a) s'" by blast
  have cr: "card_range X ?s me a = card_range X s me a" by (simp add: card_range_def eq)
  have own: "get_write_lock_idx a \<notin> card_range X s me a" by (simp add: card_range_def)
  have "mem_only s s'" using mem_only_trans [OF mem_only_locks mem_only_synchronize [OF s'(1)]] .
  moreover have "write_locks s' (get_write_lock_idx a) = 0"
    using synchronize_locks [OF s'(1), of "get_write_lock_idx a"] own cr by simp
  moreover have "write_locks s' i = write_locks s i"
    if "i \<noteq> get_write_lock_idx a" "\<not> obj_should_use_cards X s me a \<or> i \<notin> card_range X s me a" for i
    using synchronize_locks [OF s'(1), of i] that cr eq by auto
  ultimately show ?thesis using s' by (simp add: push_one_def eq)
qed

lemma push_loop:
  assumes me: "me \<in> {1..4}" and X: "cb_ok X"
  shows "separated X s me objs \<Longrightarrow> (\<forall>a \<in> set objs. publishable X s me a) \<Longrightarrow>
    \<exists>s'. foreach_res objs (push_one X me) s = Ret () s' \<and> published s me (\<Union>a \<in> set objs. extent X s me a) s' \<and>
      mem_only s s' \<and> (\<forall>a \<in> set objs. write_locks s' (get_write_lock_idx a) = 0) \<and>
      (\<forall>i. (\<forall>a \<in> set objs. i \<noteq> get_write_lock_idx a \<and>
         (obj_should_use_cards X s me a \<longrightarrow> i \<notin> card_range X s me a)) \<longrightarrow> write_locks s' i = write_locks s i)"
proof (induction objs arbitrary: s)
  case Nil
  then show ?case by (simp add: published_refl)
next
  case (Cons a objs)
  have ws: "WRITELOCK_START * 16 \<le> a" and Pa: "publishable X s me a"
    using Cons.prems by (simp_all add: separated_def)
  from push_one_step [OF me X Pa ws] obtain s1 where
    s1: "push_one X me a s = Ret () s1" "published s me (extent X s me a) s1" "mem_only s s1"
    "write_locks s1 (get_write_lock_idx a) = 0"
    "\<And>i. i \<noteq> get_write_lock_idx a \<Longrightarrow> \<not> obj_should_use_cards X s me a \<or> i \<notin> card_range X s me a \<Longrightarrow>
       write_locks s1 i = write_locks s i" by blast
  have v: "vread s1 me = vread s me" using publishedD [OF s1(2)] me by (auto simp: fun_eq_iff)
  note eq = same_view_object [OF v]
  have sep: "a + obj_size X s me a + 16 \<le> b \<or> b + obj_size X s me b + 16 \<le> a"
    and wsb: "WRITELOCK_START * 16 \<le> b" if "b \<in> set objs" for b
    using Cons.prems(1) that by (auto simp: separated_def)
  have locks: "write_locks s1 (get_write_lock_idx b + c) = write_locks s (get_write_lock_idx b + c)"
    if b: "b \<in> set objs" and c: "c = 0 \<or> obj_should_use_cards X s me b \<and> c \<le> last_card_index X s me b" for b c
  proof (rule s1(5))
    note apart = lock_entry_apart [OF X ws wsb [OF b] sep [OF b] _ c]
    show "get_write_lock_idx b + c \<noteq> get_write_lock_idx a" using apart [of 0] by simp
    have "get_write_lock_idx b + c \<noteq> get_write_lock_idx a + d"
      if "obj_should_use_cards X s me a" "d \<le> last_card_index X s me a" for d
      using apart [of d] that by auto
    then show "\<not> obj_should_use_cards X s me a \<or> get_write_lock_idx b + c \<notin> card_range X s me a"
      unfolding card_range_iff by blast
  qed
  have "publishable X s1 me b" if "b \<in> set objs" for b
  proof (rule publishable_keep [OF _ s1(2) me])
    show "publishable X s me b" using Cons.prems(2) that by simp
    show "extent X s me b \<inter> extent X s me a = {}" using sep [OF that] by (auto simp: extent_def)
    show "write_locks s1 (get_write_lock_idx b + c) = write_locks s (get_write_lock_idx b + c)"
      if "obj_should_use_cards X s me b" "1 \<le> c" "c \<le> last_card_index X s me b" for c
      using locks [OF \<open>b \<in> set objs\<close>] that by blast
  qed
  moreover have "separated X s1 me objs" using Cons.prems(1) by (simp add: separated_def eq)
  ultimately obtain s2 where s2: "foreach_res objs (push_one X me) s1 = Ret () s2"
    "published s1 me (\<Union>a \<in> set objs. extent X s me a) s2" "mem_only s1 s2"
    "\<And>b. b \<in> set objs \<Longrightarrow> write_locks s2 (get_write_lock_idx b) = 0"
    "\<And>i. (\<And>b. b \<in> set objs \<Longrightarrow> i \<noteq> get_write_lock_idx b \<and>
         (obj_should_use_cards X s me b \<longrightarrow> i \<notin> card_range X s me b)) \<Longrightarrow> write_locks s2 i = write_locks s1 i"
    using Cons.IH [of s1] by (auto simp: eq card_range_def)
  have own: "write_locks s2 (get_write_lock_idx a) = 0"
  proof -
    have "get_write_lock_idx a \<noteq> get_write_lock_idx b + d"
      if b: "b \<in> set objs" and d: "d = 0 \<or> obj_should_use_cards X s me b \<and> d \<le> last_card_index X s me b" for b d
      using lock_entry_apart [OF X ws wsb [OF b] sep [OF b], of 0 d] d by simp
    then have "get_write_lock_idx a \<noteq> get_write_lock_idx b \<and>
       (obj_should_use_cards X s me b \<longrightarrow> get_write_lock_idx a \<notin> card_range X s me b)" if "b \<in> set objs" for b
      using that unfolding card_range_iff by (metis add.right_neutral)
    then show ?thesis using s2(5) [of "get_write_lock_idx a"] s1(4) by simp
  qed
  have "published s me (extent X s me a \<union> (\<Union>a \<in> set objs. extent X s me a)) s2"
    by (rule published_trans_view [OF s1(2) s2(2) me])
  moreover have "write_locks s2 i = write_locks s i"
    if "\<forall>b \<in> set (a # objs). i \<noteq> get_write_lock_idx b \<and> (obj_should_use_cards X s me b \<longrightarrow> i \<notin> card_range X s me b)" for i
    using s2(5) [of i] s1(5) [of i] that by auto
  ultimately show ?case
    using s1(1) s2(1,4) own mem_only_trans [OF s1(3) s2(3)] by (intro exI [of _ s2]) auto
qed

end
