(* ===== verification/Undo.thy ===== *)
theory Undo
  imports Publish Minor
begin

text \<open>
  What an abort achieves: the objects the transaction modified are again what the shared copy
  says, their write locks are free, the nursery is empty and zero, and the thread gets back
  the shadow stack and the thread-local object of the start of the transaction.
\<close>

section \<open>Closed forms\<close>

lemma emit_many: "fold (\<lambda>obj. emit (h obj)) xs s = s\<lparr>events := events s @ map h xs\<rparr>"
  by (induction xs arbitrary: s) (auto simp: emit_def)

lemma abort_old_light_form:
  "\<exists>l e. abort_old_light g gs xs s = (upd_seg g (\<lambda>p. p\<lparr>old_objects_with_light_finalizers := l\<rparr>) s)\<lparr>events := e\<rparr>"
proof (induction xs arbitrary: gs s)
  case Nil
  show ?case
    by (rule exI [of _ "old_objects_with_light_finalizers (segs s g)"], rule exI [of _ "events s"])
      (simp add: upd_seg_def)
next
  case (Cons x xs)
  show ?case
  proof (cases "IS_OVERFLOW_OBJ s g (stm_flags s gs x)")
    case True
    let ?s = "emit (LightFinalizer g x) (upd_seg g (\<lambda>p. p\<lparr>old_objects_with_light_finalizers := rev xs\<rparr>) s)"
    from Cons [of g ?s] obtain l e where
      "abort_old_light g g xs ?s = (upd_seg g (\<lambda>p. p\<lparr>old_objects_with_light_finalizers := l\<rparr>) ?s)\<lparr>events := e\<rparr>" by blast
    then show ?thesis using True by (intro exI [of _ l] exI [of _ e]) (simp add: upd_seg_def emit_def Let_def)
  next
    case False
    then show ?thesis
      by (intro exI [of _ "old_objects_with_light_finalizers (segs s g)"] exI [of _ "events s"]) (simp add: upd_seg_def)
  qed
qed

lemma abort_finalizers_form:
  "\<exists>l e. abort_finalizers me g s =
     (upd_seg g (\<lambda>p. p\<lparr>finalizers := None, young_objects_with_light_finalizers := [],
        old_objects_with_light_finalizers := l\<rparr>) s)\<lparr>events := e\<rparr>"
proof -
  let ?s1 = "upd_seg g (\<lambda>p. p\<lparr>finalizers := None\<rparr>) s"
  let ?lst = "young_objects_with_light_finalizers (segs ?s1 g)"
  let ?s2 = "upd_seg g (\<lambda>p. p\<lparr>young_objects_with_light_finalizers := []\<rparr>)
     (fold (\<lambda>obj s. emit (LightFinalizer g obj) s) ?lst ?s1)"
  obtain l e where "abort_old_light g (if ?lst \<noteq> [] then g else me) (rev (old_objects_with_light_finalizers (segs ?s2 g))) ?s2
      = (upd_seg g (\<lambda>p. p\<lparr>old_objects_with_light_finalizers := l\<rparr>) ?s2)\<lparr>events := e\<rparr>"
    using abort_old_light_form by blast
  then show ?thesis
    unfolding abort_finalizers_def Let_def foreach_f_def emit_many
    by (intro exI [of _ l] exI [of _ e]) (simp add: upd_seg_def)
qed

lemma tree_clear_cleared: "tree_is_cleared t \<Longrightarrow> tree_clear t = t"
  by (simp add: tree_is_cleared_def tree_clear_def)

lemma throw_away_form:
  "\<exists>r l. snd (throw_away_nursery g s) =
     (upd_seg g (\<lambda>p. p\<lparr>nursery_current := NURSERY_START, young_outside_nursery := tree_clear (young_outside_nursery p),
        nursery_objects_shadows := tree_clear (nursery_objects_shadows p)\<rparr>)
       (memset0 g NURSERY_START (nursery_used s g) s))\<lparr>rm := (rm s)(g := r), lm := l\<rparr>"
proof -
  let ?f = "\<lambda>(addr :: u64, val :: u64) s. (let s = s\<lparr>rm := (rm s)(g := (rm s g)(unat addr div 16 := 0))\<rparr>
                          in s\<lparr>lm := large_free (unat addr) (lm s)\<rparr>)"
  have f: "\<exists>r l. fold ?f xs s = s\<lparr>rm := (rm s)(g := r), lm := l\<rparr>" for xs s
  proof (induction xs arbitrary: s)
    case Nil
    show ?case by (rule exI [of _ "rm s g"], rule exI [of _ "lm s"]) simp
  next
    case (Cons x xs)
    have step: "(?f x s)\<lparr>rm := (rm (?f x s))(g := r), lm := l\<rparr> = s\<lparr>rm := (rm s)(g := r), lm := l\<rparr>" for r l
      by (cases x) (simp add: Let_def)
    from Cons [of "?f x s"] obtain r l where "fold ?f xs (?f x s) = (?f x s)\<lparr>rm := (rm (?f x s))(g := r), lm := l\<rparr>" by blast
    then show ?case unfolding fold_simps o_apply step by blast
  qed
  let ?s1 = "upd_seg g (\<lambda>p. p\<lparr>nursery_current := NURSERY_START\<rparr>) (memset0 g NURSERY_START (nursery_used s g) s)"
  let ?t = "young_outside_nursery (segs ?s1 g)"
  show ?thesis
  proof (cases "tree_is_cleared ?t")
    case True
    then show ?thesis
      unfolding throw_away_nursery_def Let_def
      by (intro exI [of _ "rm s g"] exI [of _ "lm s"]) (simp add: upd_seg_def tree_clear_cleared memset0_def)
  next
    case False
    obtain r l where "fold ?f (tree_items ?t) ?s1 = ?s1\<lparr>rm := (rm ?s1)(g := r), lm := l\<rparr>" using f by blast
    then show ?thesis using False
      unfolding throw_away_nursery_def Let_def foreach_f_def
      by (intro exI [of _ r] exI [of _ l]) (simp add: upd_seg_def memset0_def Let_def cong: if_cong)
  qed
qed

section \<open>Resetting the modified objects\<close>

definition remap_dom :: "stm \<Rightarrow> bool" where
  "remap_dom s \<longleftrightarrow> (\<forall>h q. remap s h q \<in> {0, h})"

lemma remap_domD: "remap_dom s \<Longrightarrow> remap s 0 q = 0" "remap_dom s \<Longrightarrow> remap s h q = 0 \<or> remap s h q = h"
  unfolding remap_dom_def by (metis insertE singletonD)+

lemma remap_dom_cong: "remap s' = remap s \<Longrightarrow> remap_dom s' = remap_dom s"
  by (simp add: remap_dom_def)

text \<open>Copying the shared version over the private one: only the segment itself sees it.\<close>

lemma vread_copy_shared:
  assumes "remap_dom s"
  shows "vread (memcpy g a 0 a n s) h x =
    (if h = g \<and> a \<le> x \<and> x < a + n then vread s 0 x else vread s h x)"
proof -
  have *: "a \<le> x \<Longrightarrow> a + (x - a) = x" by simp
  show ?thesis
    using remap_domD(2) [OF assms, of g "x div 4096"] remap_domD(2) [OF assms, of h "x div 4096"] remap_domD(1) [OF assms, of "x div 4096"]
    unfolding memcpy_def vread_vfill using * by (auto simp: vread_def)
qed

lemma same_reads_object:
  assumes "\<And>i. i < obj_size X s 0 a \<Longrightarrow> vread s' g (a + i) = vread s 0 (a + i)" and X: "cb_ok X"
  shows "obj_size X s' g a = obj_size X s 0 a" and "last_card_index X s' g a = last_card_index X s 0 a"
    and "stm_flags s' g a = stm_flags s 0 a"
proof -
  have c: "obj_bytes s 0 a i = obj_bytes s' g a i" if "i < stmcb_size_rounded_up X (obj_bytes s 0 a)" for i
    using assms(1) [of i] that by (simp add: obj_bytes_def obj_size_def)
  note cb = cb_ok_content [OF X, of "obj_bytes s 0 a" "obj_bytes s' g a", OF c]
  show z: "obj_size X s' g a = obj_size X s 0 a" using cb(1) by (simp add: obj_size_def)
  show "last_card_index X s' g a = last_card_index X s 0 a" using cb(3) z by (simp add: last_card_index_def)
  have "16 \<le> obj_size X s 0 a" using cb_ok_size [OF X] by (simp add: obj_size_def)
  then show "stm_flags s' g a = stm_flags s 0 a"
    unfolding stm_flags_def vload32_def by (intro load32_cong) (use assms(1) in auto)
qed

lemma reset_modified_object_spec:
  fixes me g :: nat
  assumes X: "cb_ok X" and dom: "remap_dom s" and fl: "\<not> has_flag (stm_flags s 0 a) GCFLAG_CARDS_SET"
  defines "r \<equiv> reset_modified_object X me g a s"
  shows "vread r h x = (if h = g \<and> x \<in> extent X s 0 a then vread s 0 x else vread s h x)"
    and "mem_only s r" and "write_locks r (get_write_lock_idx a) = 0"
    and "write_locks r i = 0 \<or> write_locks r i = write_locks s i"
    and "i \<noteq> get_write_lock_idx a \<Longrightarrow> i \<notin> card_range X s 0 a \<Longrightarrow> write_locks r i = write_locks s i"
proof -
  let ?n = "obj_size X s 0 a"
  let ?s1 = "memcpy g a 0 a ?n s"
  let ?s2 = "if obj_should_use_cards X ?s1 me a then reset_object_cards X g a CARD_CLEAR False ?s1 else ?s1"
  have r: "r = ?s2\<lparr>write_locks := (write_locks ?s2)(get_write_lock_idx a := 0)\<rparr>"
    by (simp add: r_def reset_modified_object_def Let_def get_write_lock_idx_def)
  have v1: "vread ?s1 h x = (if h = g \<and> x \<in> extent X s 0 a then vread s 0 x else vread s h x)" for h x
    unfolding vread_copy_shared [OF dom] by (simp add: extent_def)
  have obj: "last_card_index X ?s1 g a = last_card_index X s 0 a" "stm_flags ?s1 g a = stm_flags s 0 a"
    using same_reads_object [OF _ X, of s a ?s1 g] by (simp_all add: v1 extent_def)
  have v2: "vread ?s2 h x = vread ?s1 h x" for h x
    using reset_cards_same_memory [of ?s1 g a X CARD_CLEAR False h x] fl obj(2) by simp
  show "vread r h x = (if h = g \<and> x \<in> extent X s 0 a then vread s 0 x else vread s h x)"
    using v1 v2 by (simp add: r)
  have "mem_only s ?s2" using mem_only_trans [OF mem_only_memcpy mem_only_reset_cards] mem_only_memcpy by auto
  then show "mem_only s r" unfolding r by (rule mem_only_trans [OF _ mem_only_locks])
  have cr: "card_range X ?s1 g a = card_range X s 0 a" by (simp add: card_range_def obj)
  have l2: "write_locks ?s2 i = (if obj_should_use_cards X ?s1 me a \<and> i \<in> card_range X s 0 a \<and> write_locks s i \<noteq> CARD_CLEAR
      then CARD_CLEAR else write_locks s i)" for i
    by (simp add: reset_object_cards_eq cr)
  show "write_locks r (get_write_lock_idx a) = 0" by (simp add: r)
  show "write_locks r i = 0 \<or> write_locks r i = write_locks s i" using l2 by (auto simp: r CARD_CLEAR_def)
  show "i \<noteq> get_write_lock_idx a \<Longrightarrow> i \<notin> card_range X s 0 a \<Longrightarrow> write_locks r i = write_locks s i"
    using l2 by (simp add: r)
qed

lemma mem_only_remap: "mem_only s s' \<Longrightarrow> remap s' = remap s"
  unfolding mem_only_def by (cases s; cases s') simp

lemma mem_only_tls: "mem_only s s' \<Longrightarrow> tls s' = tls s"
  unfolding mem_only_def by (cases s; cases s') simp

lemma reset_loop:
  assumes X: "cb_ok X" and g: "g \<noteq> 0"
  shows "remap_dom s \<Longrightarrow> (\<forall>a \<in> set objs. \<not> has_flag (stm_flags s 0 a) GCFLAG_CARDS_SET) \<Longrightarrow>
    (\<forall>h x. vread (fold (reset_modified_object X me g) objs s) h x =
       (if h = g \<and> x \<in> (\<Union>a \<in> set objs. extent X s 0 a) then vread s 0 x else vread s h x)) \<and>
    mem_only s (fold (reset_modified_object X me g) objs s) \<and>
    (\<forall>a \<in> set objs. write_locks (fold (reset_modified_object X me g) objs s) (get_write_lock_idx a) = 0) \<and>
    (\<forall>i. (write_locks (fold (reset_modified_object X me g) objs s) i = 0 \<or>
          write_locks (fold (reset_modified_object X me g) objs s) i = write_locks s i) \<and>
       ((\<forall>a \<in> set objs. i \<noteq> get_write_lock_idx a \<and> i \<notin> card_range X s 0 a) \<longrightarrow>
          write_locks (fold (reset_modified_object X me g) objs s) i = write_locks s i))"
proof (induction objs arbitrary: s)
  case Nil
  then show ?case by simp
next
  case (Cons a objs)
  let ?r = "reset_modified_object X me g a s"
  have fl: "\<not> has_flag (stm_flags s 0 a) GCFLAG_CARDS_SET" using Cons.prems(2) by simp
  note st = reset_modified_object_spec [OF X Cons.prems(1) fl, where me = me and g = g]
  have v0: "vread ?r 0 = vread s 0" using st(1) g by (simp add: fun_eq_iff)
  note eq = same_view_object [OF v0]
  have dom: "remap_dom ?r" using Cons.prems(1) remap_dom_cong [OF mem_only_remap [OF st(2)]] by simp
  have "\<forall>a \<in> set objs. \<not> has_flag (stm_flags ?r 0 a) GCFLAG_CARDS_SET" using Cons.prems(2) by (simp add: eq)
  note ih = Cons.IH [OF dom this]
  let ?f = "fold (reset_modified_object X me g) objs ?r"
  have ihv: "vread ?f h x = (if h = g \<and> x \<in> (\<Union>a \<in> set objs. extent X s 0 a) then vread s 0 x else vread ?r h x)" for h x
  proof -
    have "vread ?f h x = (if h = g \<and> x \<in> (\<Union>a \<in> set objs. extent X ?r 0 a) then vread ?r 0 x else vread ?r h x)"
      using ih by blast
    then show ?thesis unfolding eq v0 .
  qed
  have ihl: "write_locks ?f i = 0 \<or> write_locks ?f i = write_locks ?r i" for i using ih by blast
  have ihc: "write_locks ?f i = write_locks ?r i"
    if "\<forall>a \<in> set objs. i \<noteq> get_write_lock_idx a \<and> i \<notin> card_range X s 0 a" for i
    using ih that by (simp add: eq card_range_def)
  show ?case unfolding fold_simps o_apply
  proof (intro conjI allI ballI impI)
    show "vread ?f h x = (if h = g \<and> x \<in> (\<Union>a \<in> set (a # objs). extent X s 0 a) then vread s 0 x else vread s h x)" for h x
      unfolding ihv st(1) by auto
    show "mem_only s ?f" using mem_only_trans [OF st(2)] ih by blast
    show "write_locks ?f (get_write_lock_idx b) = 0" if "b \<in> set (a # objs)" for b
      using that ih st(3) ihl [of "get_write_lock_idx a"] by auto
    show "write_locks ?f i = 0 \<or> write_locks ?f i = write_locks s i" for i using ihl [of i] st(4) [of i] by auto
    show "write_locks ?f i = write_locks s i"
      if "\<forall>b \<in> set (a # objs). i \<noteq> get_write_lock_idx b \<and> i \<notin> card_range X s 0 b" for i
      using ihc [of i] st(5) [of i] that by simp
  qed
qed

section \<open>The cards of the overflow objects\<close>

definition reset_overflow_cards :: "ext \<Rightarrow> nat \<Rightarrow> nat \<Rightarrow> stm \<Rightarrow> stm" where
  "reset_overflow_cards X g item s =
     (if has_flag (stm_flags s g item) GCFLAG_CARDS_SET then reset_object_cards X g item CARD_CLEAR False s else s)"

lemma overflow_loop:
  "mem_only s (fold (reset_overflow_cards X g) objs s) \<and>
   ((\<forall>a \<in> set objs. x \<notin> {a..<a + 4}) \<longrightarrow> vread (fold (reset_overflow_cards X g) objs s) h x = vread s h x)"
proof (induction objs arbitrary: s)
  case (Cons a objs)
  have m: "mem_only s (reset_overflow_cards X g a s)"
    by (simp add: reset_overflow_cards_def mem_only_reset_cards)
  have v: "x \<notin> {a..<a + 4} \<Longrightarrow> vread (reset_overflow_cards X g a s) h x = vread s h x"
    by (auto simp: reset_overflow_cards_def vread_reset_object_cards)
  show ?case using Cons [of "reset_overflow_cards X g a s"] mem_only_trans [OF m] v by auto
qed simp

section \<open>The abort\<close>

text \<open>What an abort relies on: the shared copies of the modified objects are intact and apart from
  the nursery and from the flags of the overflow objects.\<close>

definition abortable :: "ext \<Rightarrow> stm \<Rightarrow> nat \<Rightarrow> bool" where
  "abortable X s g \<longleftrightarrow> remap_dom s \<and>
     (\<forall>a \<in> set (modified_old_objects (segs s g)).
        \<not> has_flag (stm_flags s 0 a) GCFLAG_CARDS_SET \<and> NURSERY_END \<le> a \<and>
        (\<forall>lst. large_overflow_objects (segs s g) = Some lst \<longrightarrow>
           (\<forall>b \<in> set lst. extent X s 0 a \<inter> {b..<b + 4} = {})))"

text \<open>
  The thread of the segment did the \<open>setjmp\<close> of the start of the transaction with the shadow stack
  \<open>ss0\<close>, whose position the segment noted; since then it only ran, entered and left frames.
\<close>

definition saved_at_start :: "stm \<Rightarrow> nat \<Rightarrow> nat list \<Rightarrow> bool" where
  "saved_at_start s g ss0 \<longleftrightarrow>
     (\<exists>t. running_thread (segs s g) = Some t \<and> shadowstack (tls s t) \<noteq> [] \<and>
        length ss0 = shadowstack_at_start_of_transaction (segs s g) \<and>
        (\<exists>rj stk sp again n rj0 f old stk'.
           rewind_jmp_setjmp rj stk ss0 sp again = (n, rj0) \<and> rj_head rj = f # old \<and> nested (f # old) \<and>
           shadowstack_base f \<le> length ss0 \<and> sp \<le> frame_base f \<and> (again \<longrightarrow> initial_head rj = rj_head rj) \<and>
           rj_step\<^sup>*\<^sup>* (rj0, stk, ss0) (rjthread (tls s t), stk', shadowstack (tls s t))))"

lemma saved_at_start_restored:
  assumes "saved_at_start s g ss0"
  shows "\<exists>t. running_thread (segs s g) = Some t \<and> restored_shadowstack (tls s t) = ss0 \<and>
    length ss0 = shadowstack_at_start_of_transaction (segs s g)"
proof -
  from assms obtain t rj stk sp again n rj0 f old stk' where
    t: "running_thread (segs s g) = Some t" "shadowstack (tls s t) \<noteq> []"
      "length ss0 = shadowstack_at_start_of_transaction (segs s g)" and
    setjmp: "rewind_jmp_setjmp rj stk ss0 sp again = (n, rj0)" "rj_head rj = f # old" "nested (f # old)"
      "shadowstack_base f \<le> length ss0" "sp \<le> frame_base f" "again \<longrightarrow> initial_head rj = rj_head rj" and
    steps: "rj_step\<^sup>*\<^sup>* (rj0, stk, ss0) (rjthread (tls s t), stk', shadowstack (tls s t))"
    unfolding saved_at_start_def by blast
  have "restore_ss (rjthread (tls s t)) (shadowstack (tls s t)) = ss0"
    using rj_saved_restores(1) [OF rj_saved_steps [OF steps rj_saved_setjmp [OF setjmp(1-5)]]] setjmp(6) by blast
  then show ?thesis using t by (simp add: restored_shadowstack_def)
qed

lemma nursery_used_le: "NURSERY_START + nursery_used s g \<le> NURSERY_END"
  by (simp add: nursery_used_def Let_def NURSERY_END_def NURSERY_SIZE_def)

lemma abort_data_unfold:
  assumes "transaction_state (segs s g) = TS_REGULAR"
  shows "abort_data_structures_from_segment_num X me g s =
    (let s1 = snd (throw_away_nursery g (abort_finalizers me g s));
         n = fst (throw_away_nursery g (abort_finalizers me g s));
         s2 = (case large_overflow_objects (segs s1 g) of None \<Rightarrow> s1
               | Some lst \<Rightarrow> fold (reset_overflow_cards X g) (rev lst) s1);
         s3 = reset_modified_from_other_segments X me g s2;
         s4 = restore_thread g n s3
     in if \<not> shadowstack_restored g s4 then Fatal ''assert: shadowstack'' s4
        else Ret () (upd_seg g (\<lambda>p. p\<lparr>objects_pointing_to_nursery := None, old_objects_with_cards := [],
                     large_overflow_objects := None, young_weakrefs := []\<rparr>) s4))"
proof -
  obtain n s1 where t: "throw_away_nursery g (abort_finalizers me g s) = (n, s1)" by fastforce
  have r: "foreach_r lst (\<lambda>item s. if has_flag (stm_flags s g item) GCFLAG_CARDS_SET
      then reset_object_cards X g item CARD_CLEAR False s else s) s1 = fold (reset_overflow_cards X g) (rev lst) s1" for lst
    by (simp add: foreach_r_def reset_overflow_cards_def [abs_def])
  show ?thesis
    unfolding abort_data_structures_from_segment_num_def assms transaction_state.case Let_def t prod.case fst_conv snd_conv r ..
qed

lemma abort_step1:
  fixes me g :: nat and s :: stm
  defines "r \<equiv> snd (throw_away_nursery g (abort_finalizers me g s))"
  shows "remap r = remap s" and "by_segment r = by_segment s" and "write_locks r = write_locks s" and "tls r = tls s"
    and "h \<noteq> g \<Longrightarrow> segs r h = segs s h"
    and "modified_old_objects (segs r g) = modified_old_objects (segs s g)"
    and "large_overflow_objects (segs r g) = large_overflow_objects (segs s g)"
    and "running_thread (segs r g) = running_thread (segs s g)"
    and "threadlocal_at_start_of_transaction (segs r g) = threadlocal_at_start_of_transaction (segs s g)"
    and "nursery_current (segs r g) = NURSERY_START" and "tree_is_cleared (young_outside_nursery (segs r g))"
    and "vread r h x = (if NURSERY_START \<le> x \<and> x < NURSERY_START + nursery_used s g \<and>
           remap s g (x div 4096) = remap s h (x div 4096) then 0 else vread s h x)"
    and "h \<noteq> g \<Longrightarrow> rm r h = rm s h" and "nursery_end (segs r g) = nursery_end (segs s g)"
    and "safe_point (segs r g) = safe_point (segs s g)" and "transaction_state (segs r g) = transaction_state (segs s g)"
    and "transaction_read_version (segs r g) = transaction_read_version (segs s g)"
    and "write_lock_num (segs r g) = write_lock_num (segs s g)"
    and "in_use1 r = in_use1 s" and "globally_unique_transaction r = globally_unique_transaction s"
    and "pause_signalled r = pause_signalled s"
    and "shadowstack_at_start_of_transaction (segs r g) = shadowstack_at_start_of_transaction (segs s g)"
proof -
  obtain l e where f: "abort_finalizers me g s = (upd_seg g (\<lambda>p. p\<lparr>finalizers := None, young_objects_with_light_finalizers := [],
        old_objects_with_light_finalizers := l\<rparr>) s)\<lparr>events := e\<rparr>" using abort_finalizers_form by blast
  let ?s = "abort_finalizers me g s"
  obtain rr ll where t: "r = (upd_seg g (\<lambda>p. p\<lparr>nursery_current := NURSERY_START, young_outside_nursery := tree_clear (young_outside_nursery p),
        nursery_objects_shadows := tree_clear (nursery_objects_shadows p)\<rparr>)
       (memset0 g NURSERY_START (nursery_used ?s g) ?s))\<lparr>rm := (rm ?s)(g := rr), lm := ll\<rparr>"
    unfolding r_def using throw_away_form by blast
  have u: "nursery_used ?s g = nursery_used s g" by (simp add: f nursery_used_def upd_seg_def)
  show "remap r = remap s" "by_segment r = by_segment s" "write_locks r = write_locks s" "tls r = tls s"
    "h \<noteq> g \<Longrightarrow> segs r h = segs s h"
    "modified_old_objects (segs r g) = modified_old_objects (segs s g)"
    "large_overflow_objects (segs r g) = large_overflow_objects (segs s g)"
    "running_thread (segs r g) = running_thread (segs s g)"
    "threadlocal_at_start_of_transaction (segs r g) = threadlocal_at_start_of_transaction (segs s g)"
    "nursery_current (segs r g) = NURSERY_START" "tree_is_cleared (young_outside_nursery (segs r g))"
    "h \<noteq> g \<Longrightarrow> rm r h = rm s h" "nursery_end (segs r g) = nursery_end (segs s g)"
    "safe_point (segs r g) = safe_point (segs s g)" "transaction_state (segs r g) = transaction_state (segs s g)"
    "transaction_read_version (segs r g) = transaction_read_version (segs s g)"
    "write_lock_num (segs r g) = write_lock_num (segs s g)"
    "in_use1 r = in_use1 s" "globally_unique_transaction r = globally_unique_transaction s"
    "pause_signalled r = pause_signalled s"
    "shadowstack_at_start_of_transaction (segs r g) = shadowstack_at_start_of_transaction (segs s g)"
    by (simp_all add: t f upd_seg_def memset0_def tree_is_cleared_def tree_clear_def)
  show "vread r h x = (if NURSERY_START \<le> x \<and> x < NURSERY_START + nursery_used s g \<and>
           remap s g (x div 4096) = remap s h (x div 4096) then 0 else vread s h x)"
    unfolding t u by (simp add: f upd_seg_def memset0_def vread_def vfill_def)
qed

definition overflow_flags :: "stm \<Rightarrow> nat \<Rightarrow> nat set" where
  "overflow_flags s g =
     (case large_overflow_objects (segs s g) of None \<Rightarrow> {} | Some lst \<Rightarrow> (\<Union>b \<in> set lst. {b..<b + 4}))"

lemma abort_step2:
  fixes X :: ext and g :: nat and s1 :: stm
  defines "s2 \<equiv> (case large_overflow_objects (segs s1 g) of None \<Rightarrow> s1
               | Some lst \<Rightarrow> fold (reset_overflow_cards X g) (rev lst) s1)"
  shows "mem_only s1 s2" and "x \<notin> overflow_flags s1 g \<Longrightarrow> vread s2 h x = vread s1 h x"
  using overflow_loop [of s1 X g _ x h]
  by (auto simp: s2_def overflow_flags_def split: option.split)

lemma mem_only_others:
  assumes "mem_only s s'"
  shows "rm s' = rm s" and "in_use1 s' = in_use1 s" and "globally_unique_transaction s' = globally_unique_transaction s"
    and "pause_signalled s' = pause_signalled s"
  using assms unfolding mem_only_def by (cases s; cases s'; simp)+

lemma restore_thread_frame [simp]:
  "mem (restore_thread g n s) = mem s" "remap (restore_thread g n s) = remap s"
  "segs (restore_thread g n s) = segs s" "write_locks (restore_thread g n s) = write_locks s"
  "rm (restore_thread g n s) = rm s" "in_use1 (restore_thread g n s) = in_use1 s"
  "globally_unique_transaction (restore_thread g n s) = globally_unique_transaction s"
  "pause_signalled (restore_thread g n s) = pause_signalled s"
  by (simp_all add: restore_thread_def split: option.split)

lemma vread_cong: "mem s' = mem s \<Longrightarrow> remap s' = remap s \<Longrightarrow> vread s' = vread s"
  by (simp add: vread_def fun_eq_iff)

lemma mem_only_reset_modified: "mem_only s (reset_modified_object X me g a s)"
  unfolding reset_modified_object_def Let_def
  by (rule mem_only_trans [OF _ mem_only_locks])
    (auto intro: mem_only_trans [OF mem_only_memcpy mem_only_reset_cards] mem_only_memcpy)

text \<open>The assertion at the end compares what the restoring gives with what the segment noted.\<close>

lemma abort_check:
  fixes me g n :: nat and s :: stm and X :: ext
  defines "s1 \<equiv> snd (throw_away_nursery g (abort_finalizers me g s))"
  defines "s2 \<equiv> (case large_overflow_objects (segs s1 g) of None \<Rightarrow> s1
               | Some lst \<Rightarrow> fold (reset_overflow_cards X g) (rev lst) s1)"
  shows "shadowstack_restored g (restore_thread g n (reset_modified_from_other_segments X me g s2)) \<longleftrightarrow>
    (\<forall>t. running_thread (segs s g) = Some t \<longrightarrow>
       length (restored_shadowstack (tls s t)) = shadowstack_at_start_of_transaction (segs s g))"
proof -
  define f where "f = fold (reset_modified_object X me g) (rev (modified_old_objects (segs s2 g))) s2"
  note st1 = abort_step1 [where me = me and g = g and s = s, folded s1_def]
  have "mem_only s1 f"
    unfolding f_def
    by (rule mem_only_trans [OF abort_step2(1) [where X = X and g = g and ?s1.0 = s1, folded s2_def] mem_only_fold])
      (rule mem_only_reset_modified)
  then have "tls f = tls s" "running_thread (segs f g) = running_thread (segs s g)"
    "shadowstack_at_start_of_transaction (segs f g) = shadowstack_at_start_of_transaction (segs s g)"
    using mem_only_tls [of s1 f] mem_only_segs [of s1 f] st1(4,8,22) by simp_all
  moreover have "reset_modified_from_other_segments X me g s2 =
      upd_seg g (\<lambda>p. p\<lparr>modified_old_objects := [], modified_old_objects_markers := []\<rparr>) f"
    by (simp add: reset_modified_from_other_segments_def foreach_r_def f_def)
  ultimately show ?thesis
    by (auto simp: shadowstack_restored_def restore_thread_def upd_tl_def split: option.split)
qed

lemma abort_data_returns:
  assumes "transaction_state (segs s g) = TS_REGULAR"
    and "\<And>t. running_thread (segs s g) = Some t \<Longrightarrow>
      length (restored_shadowstack (tls s t)) = shadowstack_at_start_of_transaction (segs s g)"
  shows "\<exists>s'. abort_data_structures_from_segment_num X me g s = Ret () s'"
  using abort_check [where me = me and g = g and s = s and X = X] assms(2)
  unfolding abort_data_unfold [OF assms(1)] Let_def by auto

lemma abort_restores:
  assumes X: "cb_ok X" and g: "g \<in> {1..4}" and ts: "transaction_state (segs s g) = TS_REGULAR"
    and ok: "abortable X s g" and start: "saved_at_start s g ss0"
  shows "\<exists>s'. abort_data_structures_from_segment_num X me g s = Ret () s' \<and>
    (\<forall>a \<in> set (modified_old_objects (segs s g)).
       (\<forall>x \<in> extent X s 0 a. vread s' g x = vread s 0 x) \<and> write_locks s' (get_write_lock_idx a) = 0) \<and>
    (\<forall>h x. h \<noteq> g \<longrightarrow> NURSERY_END \<le> x \<longrightarrow> x \<notin> overflow_flags s g \<longrightarrow> vread s' h x = vread s h x) \<and>
    (\<forall>h. h \<noteq> g \<longrightarrow> segs s' h = segs s h) \<and>
    modified_old_objects (segs s' g) = [] \<and> MINOR_NOTHING_TO_DO (segs s' g) \<and>
    (\<forall>t. running_thread (segs s g) = Some t \<longrightarrow>
       shadowstack (tls s' t) = ss0 \<and>
       thread_local_obj (tls s' t) = threadlocal_at_start_of_transaction (segs s g))"
proof -
  let ?mods = "modified_old_objects (segs s g)"
  define s1 where "s1 = snd (throw_away_nursery g (abort_finalizers me g s))"
  define n where "n = fst (throw_away_nursery g (abort_finalizers me g s))"
  define s2 where "s2 = (case large_overflow_objects (segs s1 g) of None \<Rightarrow> s1
               | Some lst \<Rightarrow> fold (reset_overflow_cards X g) (rev lst) s1)"
  define f where "f = fold (reset_modified_object X me g) (rev ?mods) s2"
  define s3 where "s3 = reset_modified_from_other_segments X me g s2"
  define s' where "s' = upd_seg g (\<lambda>p. p\<lparr>objects_pointing_to_nursery := None, old_objects_with_cards := [],
                     large_overflow_objects := None, young_weakrefs := []\<rparr>) (restore_thread g n s3)"
  note st1 = abort_step1 [where me = me and g = g and s = s, folded s1_def]
  have of1: "overflow_flags s1 g = overflow_flags s g" by (simp add: overflow_flags_def st1)
  note st2 = abort_step2 [where X = X and g = g and ?s1.0 = s1, folded s2_def, unfolded of1]
  note segs2 = mem_only_segs [OF st2(1)]
  have dom: "remap_dom s" using ok by (simp add: abortable_def)
  have dom2: "remap_dom s2" using dom remap_dom_cong mem_only_remap [OF st2(1)] st1(1) by metis
  have sh: "vread s2 0 x = vread s 0 x" if "NURSERY_END \<le> x" "x \<notin> overflow_flags s g" for x
    using st2(2) [OF that(2)] that(1) nursery_used_le [of s g] by (simp add: st1(12))
  have vh: "vread s2 h x = vread s h x" if "NURSERY_END \<le> x" "x \<notin> overflow_flags s g" for h x
    using st2(2) [OF that(2)] that(1) nursery_used_le [of s g] by (simp add: st1(12))
  have in_ext: "NURSERY_END \<le> x" "x \<notin> overflow_flags s g" if "a \<in> set ?mods" "x \<in> extent X s 0 a" for a x
  proof -
    have "a \<le> x" using that(2) by (simp add: extent_def)
    then show "NURSERY_END \<le> x" using ok that(1) unfolding abortable_def by (meson le_trans)
    show "x \<notin> overflow_flags s g"
    proof (cases "large_overflow_objects (segs s g)")
      case (Some lst)
      then have "extent X s 0 a \<inter> {b..<b + 4} = {}" if "b \<in> set lst" for b
        using ok \<open>a \<in> set ?mods\<close> that unfolding abortable_def by blast
      then show ?thesis using that(2) Some by (auto simp only: overflow_flags_def option.case)
    qed (simp add: overflow_flags_def)
  qed
  have obj: "obj_size X s2 0 a = obj_size X s 0 a" "stm_flags s2 0 a = stm_flags s 0 a" if "a \<in> set ?mods" for a
    using same_reads_object [where X = X and s = s and a = a and s' = s2 and g = 0, OF _ X] sh in_ext [OF that] by (simp_all add: extent_def)
  have ext: "extent X s2 0 a = extent X s 0 a" if "a \<in> set ?mods" for a using obj [OF that] by (simp add: extent_def)
  have fl: "\<forall>a \<in> set (rev ?mods). \<not> has_flag (stm_flags s2 0 a) GCFLAG_CARDS_SET"
    using ok obj by (simp add: abortable_def)
  have "g \<noteq> 0" using g by simp
  note loop = reset_loop [OF X this dom2 fl, where me = me, folded f_def]
  note loopv = loop [THEN conjunct1, rule_format]
    and loopm = loop [THEN conjunct2, THEN conjunct1]
    and loopl = loop [THEN conjunct2, THEN conjunct2, THEN conjunct1, rule_format]
  have mods2: "modified_old_objects (segs s2 g) = ?mods" using segs2 st1(6) by simp
  have s3: "s3 = upd_seg g (\<lambda>p. p\<lparr>modified_old_objects := [], modified_old_objects_markers := []\<rparr>) f"
    by (simp add: s3_def reset_modified_from_other_segments_def foreach_r_def mods2 f_def)
  have v': "vread s' = vread f" unfolding s'_def s3 by (rule vread_cong) simp_all
  have l': "write_locks s' = write_locks f" by (simp add: s'_def s3)
  have segf: "segs f = segs s1" using mem_only_segs [OF loopm] segs2 by simp
  have tlsf: "tls f = tls s" using mem_only_tls [OF loopm] mem_only_tls [OF st2(1)] st1(4) by simp
  have "vread s' g x = vread s 0 x" if "a \<in> set ?mods" "x \<in> extent X s 0 a" for a x
  proof -
    have "x \<in> (\<Union>a \<in> set (rev ?mods). extent X s2 0 a)" using that ext by auto
    then have "vread f g x = vread s2 0 x" unfolding loopv by simp
    then show ?thesis using sh in_ext [OF that] by (simp add: v')
  qed
  moreover have "vread s' h x = vread s h x" if "h \<noteq> g" "NURSERY_END \<le> x" "x \<notin> overflow_flags s g" for h x
    using that vh unfolding v' loopv by simp
  moreover have "write_locks s' (get_write_lock_idx a) = 0" if "a \<in> set ?mods" for a
    unfolding l' by (rule loopl) (use that in simp)
  moreover have "segs s' h = segs s h" if "h \<noteq> g" for h using that segf st1(5) by (simp add: s'_def s3)
  moreover have "modified_old_objects (segs s' g) = []" by (simp add: s'_def s3)
  moreover have "MINOR_NOTHING_TO_DO (segs s' g)" using segf st1(10,11) by (simp add: s'_def s3 MINOR_NOTHING_TO_DO_def)
  moreover have "shadowstack (tls s' t) = ss0 \<and>
       thread_local_obj (tls s' t) = threadlocal_at_start_of_transaction (segs s g)"
    if "running_thread (segs s g) = Some t" for t
    using that segf st1(8,9) tlsf saved_at_start_restored [OF start]
    by (simp add: s'_def s3 restore_thread_def upd_tl_def)
  moreover have run: "abort_data_structures_from_segment_num X me g s = Ret () s'"
    using abort_check [where me = me and g = g and s = s and X = X and n = n] saved_at_start_restored [OF start]
    unfolding abort_data_unfold [OF ts] Let_def s'_def s3_def s2_def s1_def n_def by auto
  ultimately show ?thesis by (intro exI [of _ s']) blast
qed

text \<open>What an abort leaves alone, whatever the state of the modified objects.\<close>

lemma abort_data_frame:
  assumes "abort_data_structures_from_segment_num X me g s = Ret () s'"
  shows "h \<noteq> g \<Longrightarrow> segs s' h = segs s h" and "h \<noteq> g \<Longrightarrow> rm s' h = rm s h"
    and "nursery_end (segs s' g) = nursery_end (segs s g)" and "safe_point (segs s' g) = safe_point (segs s g)"
    and "transaction_state (segs s' g) = TS_REGULAR" and "transaction_state (segs s g) = TS_REGULAR"
    and "running_thread (segs s' g) = running_thread (segs s g)"
    and "modified_old_objects (segs s' g) = []"
    and "in_use1 s' = in_use1 s" and "globally_unique_transaction s' = globally_unique_transaction s"
    and "pause_signalled s' = pause_signalled s"
proof -
  show ts: "transaction_state (segs s g) = TS_REGULAR"
    using assms by (cases "transaction_state (segs s g)") (auto simp: abort_data_structures_from_segment_num_def)
  define s1 where "s1 = snd (throw_away_nursery g (abort_finalizers me g s))"
  define n where "n = fst (throw_away_nursery g (abort_finalizers me g s))"
  define s2 where "s2 = (case large_overflow_objects (segs s1 g) of None \<Rightarrow> s1
               | Some lst \<Rightarrow> fold (reset_overflow_cards X g) (rev lst) s1)"
  define f where "f = fold (reset_modified_object X me g) (rev (modified_old_objects (segs s2 g))) s2"
  have s': "s' = upd_seg g (\<lambda>p. p\<lparr>objects_pointing_to_nursery := None, old_objects_with_cards := [],
                     large_overflow_objects := None, young_weakrefs := []\<rparr>)
        (restore_thread g n (upd_seg g (\<lambda>p. p\<lparr>modified_old_objects := [], modified_old_objects_markers := []\<rparr>) f))"
    using assms unfolding abort_data_unfold [OF ts] Let_def s1_def n_def s2_def f_def
    by (simp add: reset_modified_from_other_segments_def foreach_r_def split: if_splits)
  note st1 = abort_step1 [where me = me and g = g and s = s, folded s1_def]
  have m: "mem_only s1 f"
    unfolding f_def
    by (rule mem_only_trans [OF abort_step2(1) [where X = X and g = g and ?s1.0 = s1, folded s2_def] mem_only_fold])
      (rule mem_only_reset_modified)
  note same = mem_only_segs [OF m] mem_only_others [OF m]
  show "h \<noteq> g \<Longrightarrow> segs s' h = segs s h" "h \<noteq> g \<Longrightarrow> rm s' h = rm s h"
    "nursery_end (segs s' g) = nursery_end (segs s g)" "safe_point (segs s' g) = safe_point (segs s g)"
    "transaction_state (segs s' g) = TS_REGULAR" "running_thread (segs s' g) = running_thread (segs s g)"
    "modified_old_objects (segs s' g) = []" "in_use1 s' = in_use1 s"
    "globally_unique_transaction s' = globally_unique_transaction s" "pause_signalled s' = pause_signalled s"
    by (simp_all add: s' same st1 ts)
qed

end
