(* ===== verification/Conflict.thy ===== *)
theory Conflict
  imports Commit Undo
begin

text \<open>
  What the validation of a commit establishes: when \<open>detect_write_read_conflicts\<close> lets the
  commit go on, no other transaction that is still alive has read an object that this
  transaction modified.
\<close>

section \<open>One contention\<close>

lemma timing_contention_frame [simp]:
  "segs (timing_contention X me k other obj s) = segs s" "rm (timing_contention X me k other obj s) = rm s"
  "globally_unique_transaction (timing_contention X me k other obj s) = globally_unique_transaction s"
  by (simp_all add: timing_contention_def Let_def case_prod_beta)

lemma timing_event_frame [simp]:
  "segs (timing_event X t e s) = segs s" "rm (timing_event X t e s) = rm s" "mem (timing_event X t e s) = mem s"
  "remap (timing_event X t e s) = remap s" "write_locks (timing_event X t e s) = write_locks s"
  "tls (timing_event X t e s) = tls s" "in_use1 (timing_event X t e s) = in_use1 s"
  "pause_signalled (timing_event X t e s) = pause_signalled s"
  "globally_unique_transaction (timing_event X t e s) = globally_unique_transaction s"
  by (simp_all add: timing_event_def)

lemma cond_frame [simp]:
  "segs (cond_signal c s) = segs s" "rm (cond_signal c s) = rm s" "segs (cond_broadcast c s) = segs s"
  "rm (cond_broadcast c s) = rm s"
  "globally_unique_transaction (cond_signal c s) = globally_unique_transaction s"
  "globally_unique_transaction (cond_broadcast c s) = globally_unique_transaction s"
  by (simp_all add: cond_signal_def cond_broadcast_def)

text \<open>The other segment is about to abort and has lost its changes; nothing else moved.\<close>

definition killed :: "nat \<Rightarrow> nat \<Rightarrow> stm \<Rightarrow> stm \<Rightarrow> bool" where
  "killed me other s s' \<longleftrightarrow> is_aborting_now s' other \<and> modified_old_objects (segs s' other) = [] \<and>
     (\<forall>h. h \<noteq> other \<longrightarrow> h \<noteq> me \<longrightarrow> segs s' h = segs s h) \<and> (\<forall>h. h \<noteq> other \<longrightarrow> rm s' h = rm s h) \<and>
     (\<exists>v. segs s' me = (segs s me)\<lparr>signalled_to_commit_soon := v\<rparr>) \<and>
     globally_unique_transaction s' = globally_unique_transaction s"

lemma abort_with_mutex_not_Ret: "abort_with_mutex X me s \<noteq> Ret b s'"
  by (auto simp: abort_with_mutex_def bind_res_eq_Ret split: option.splits)

lemma kill_data_killed:
  assumes "contention_kill_data X me other b s = Ret c s'" and "is_aborting_now s other" and "me \<noteq> other"
  shows "c = b" and "killed me other s s'"
proof -
  from assms(1) [unfolded contention_kill_data_def if_P [OF assms(2)] bind_res_eq_Ret]
  obtain u s1 where s1: "abort_data_structures_from_segment_num X me other s = Ret u s1"
    and r: "(if \<not> signalled_to_commit_soon (segs s1 me)
        then Ret b (emit (CommitSoon me) (upd_seg me (\<lambda>p. p\<lparr>signalled_to_commit_soon := True\<rparr>) s1)) else Ret b s1) = Ret c s'"
    by blast
  have s': "s' = (if \<not> signalled_to_commit_soon (segs s1 me)
        then emit (CommitSoon me) (upd_seg me (\<lambda>p. p\<lparr>signalled_to_commit_soon := True\<rparr>) s1) else s1)" "c = b"
    using r by (cases "signalled_to_commit_soon (segs s1 me)"; simp)+
  note fr = abort_data_frame [OF s1 [unfolded unit_eq [of u]]]
  show "c = b" by (fact s'(2))
  have "\<exists>v. segs s' me = (segs s me)\<lparr>signalled_to_commit_soon := v\<rparr>"
  proof (cases "signalled_to_commit_soon (segs s1 me)")
    case True
    then show ?thesis using fr(1) [of me] assms(3) s' by (intro exI [of _ True]) (auto simp: s'(1))
  next
    case False
    then show ?thesis using fr(1) [of me] assms(3) by (intro exI [of _ True]) (simp add: s'(1))
  qed
  moreover have "is_aborting_now s' other"
    using assms(2,3) fr(3,4) by (auto simp: s'(1) is_aborting_now_def)
  ultimately show "killed me other s s'" using fr(1,2,8,10) assms(3) by (auto simp: killed_def s'(1))
qed

lemma killed_signal:
  assumes "killed me other (upd_seg other (\<lambda>p. p\<lparr>nursery_end := v\<rparr>) s) s'" and "me \<noteq> other"
  shows "killed me other s s'"
  using assms by (auto simp: killed_def)

lemma killed_frame: "segs t = segs s \<Longrightarrow> rm t = rm s \<Longrightarrow>
  globally_unique_transaction t = globally_unique_transaction s \<Longrightarrow> killed me other t s' = killed me other s s'"
  by (simp add: killed_def)

lemma contention_False:
  assumes "contention_management X me other kind obj s = Ret False s'" and "me \<noteq> other"
  shows "killed me other s s'"
proof -
  let ?s = "timing_contention X me kind other obj s"
  have run: "contention_abort_other X me other ?s = Ret False s'"
    using assms(1)
    by (auto simp: contention_management_def Let_def abort_with_mutex_not_Ret contention_sleep_def
        contention_abort_myself_def split: if_splits)
  let ?s1 = "timing_event X (running_thread (segs (upd_seg other (\<lambda>p. p\<lparr>nursery_end := NSE_SIGABORT\<rparr>) ?s) me))
     STM_ABORTING_OTHER_CONTENTION (upd_seg other (\<lambda>p. p\<lparr>nursery_end := NSE_SIGABORT\<rparr>) ?s)"
  from run obtain c where c: "contention_kill_data X me other False (cond_broadcast c ?s1) = Ret False s'"
    and sp: "safe_point (segs s other) \<noteq> SP_RUNNING"
    unfolding contention_abort_other_def Let_def
    by (cases "safe_point (segs s other)")
      (auto simp: abort_with_mutex_not_Ret contention_kill_data_def bind_res_eq_Ret split: if_splits)
  have "is_aborting_now (cond_broadcast c ?s1) other"
    using sp by (simp add: is_aborting_now_def is_abort_def nse_consts)
  from kill_data_killed(2) [OF c this assms(2)] have "killed me other (cond_broadcast c ?s1) s'" .
  moreover have "killed me other (cond_broadcast c ?s1) s' =
      killed me other (upd_seg other (\<lambda>p. p\<lparr>nursery_end := NSE_SIGABORT\<rparr>) s) s'"
    by (rule killed_frame) (simp_all add: fun_eq_iff segs_upd_seg)
  ultimately show ?thesis using killed_signal [OF _ assms(2)] by blast
qed

section \<open>All conflicts\<close>

text \<open>Segment \<open>i\<close> is no obstacle to the commit of \<open>me\<close>.\<close>

definition no_conflict :: "nat \<Rightarrow> stm \<Rightarrow> nat \<Rightarrow> bool" where
  "no_conflict me s i \<longleftrightarrow> i = me \<or> transaction_state (segs s i) = TS_NONE \<or> is_aborting_now s i \<or>
     (\<forall>obj \<in> set (modified_old_objects (segs s me)).
        \<not> was_read_remote s i obj (transaction_read_version (segs s i)))"

lemma no_conflict_killed:
  assumes "no_conflict me s i" and "killed me j s s'" and "me \<noteq> j"
  shows "no_conflict me s' i"
proof (cases "i = j \<or> i = me")
  case True
  then show ?thesis using assms(2) by (auto simp: no_conflict_def killed_def)
next
  case False
  then have "segs s' i = segs s i" "rm s' i = rm s i" using assms(2) by (auto simp: killed_def)
  moreover obtain v where "segs s' me = (segs s me)\<lparr>signalled_to_commit_soon := v\<rparr>"
    using assms(2) by (auto simp: killed_def)
  ultimately show ?thesis using assms(1)
    by (simp add: no_conflict_def is_aborting_now_def was_read_remote_def)
qed

lemma detect_objects_False:
  assumes "me \<noteq> i"
  shows "detect_objects X me i v objs s = Ret False s' \<Longrightarrow>
    killed me i s s' \<or> s' = s \<and> (\<forall>obj \<in> set objs. \<not> was_read_remote s i obj v)"
proof (induction objs)
  case (Cons a objs)
  show ?case
  proof (cases "was_read_remote s i a v")
    case True
    then have "contention_management X me i STM_CONTENTION_WRITE_READ a s = Ret False s'"
      using Cons.prems by (simp add: write_read_contention_management_def)
    then show ?thesis using contention_False assms by blast
  next
    case False
    then show ?thesis using Cons by simp
  qed
qed simp

lemma detect_segments_False:
  "detect_segments X me is s = Ret False s' \<Longrightarrow> (\<forall>i \<in> seen. no_conflict me s i) \<Longrightarrow>
   \<forall>i \<in> seen \<union> set is. no_conflict me s' i"
proof (induction "is" arbitrary: s seen)
  case (Cons i rest)
  show ?case
  proof (cases "i = me \<or> transaction_state (segs s i) = TS_NONE \<or> is_aborting_now s i")
    case True
    then have "detect_segments X me rest s = Ret False s'" using Cons.prems(1) by (auto split: if_splits)
    moreover have "\<forall>j \<in> insert i seen. no_conflict me s j" using True Cons.prems(2) by (auto simp: no_conflict_def)
    ultimately show ?thesis using Cons.IH [of s "insert i seen"] by simp
  next
    case False
    then obtain b s1 where b: "detect_objects X me i (transaction_read_version (segs s i))
        (rev (modified_old_objects (segs s me))) s = Ret b s1"
      and rest: "(if b then Ret True s1 else detect_segments X me rest s1) = Ret False s'"
      using Cons.prems(1) by (auto simp: bind_res_eq_Ret)
    then have nb: "\<not> b" and rest: "detect_segments X me rest s1 = Ret False s'" by (auto split: if_splits)
    have me: "me \<noteq> i" using False by auto
    from detect_objects_False [OF me b [unfolded eq_False [THEN iffD2, OF nb]]]
    have "\<forall>j \<in> insert i seen. no_conflict me s1 j"
    proof
      assume k: "killed me i s s1"
      then have "no_conflict me s1 i" by (simp add: no_conflict_def killed_def)
      then show ?thesis using no_conflict_killed [OF _ k me] Cons.prems(2) by auto
    next
      assume "s1 = s \<and> (\<forall>obj \<in> set (rev (modified_old_objects (segs s me))).
          \<not> was_read_remote s i obj (transaction_read_version (segs s i)))"
      then show ?thesis using Cons.prems(2) by (auto simp: no_conflict_def)
    qed
    then show ?thesis using Cons.IH [OF rest, of "insert i seen"] by simp
  qed
qed simp

text \<open>What killing other transactions keeps is kept by the whole detection.\<close>

lemma detect_segments_keeps:
  assumes keep: "\<And>j s s'. me \<noteq> j \<Longrightarrow> killed me j s s' \<Longrightarrow> P s \<Longrightarrow> P s'"
  shows "detect_segments X me is s = Ret False s' \<Longrightarrow> P s \<Longrightarrow> P s'"
proof (induction "is" arbitrary: s)
  case (Cons i rest)
  show ?case
  proof (cases "i = me \<or> transaction_state (segs s i) = TS_NONE \<or> is_aborting_now s i")
    case True
    then show ?thesis using Cons by (auto split: if_splits)
  next
    case False
    then obtain b s1 where b: "detect_objects X me i (transaction_read_version (segs s i))
        (rev (modified_old_objects (segs s me))) s = Ret b s1"
      and rest: "(if b then Ret True s1 else detect_segments X me rest s1) = Ret False s'"
      using Cons.prems(1) by (auto simp: bind_res_eq_Ret)
    then have nb: "\<not> b" and rest: "detect_segments X me rest s1 = Ret False s'" by (auto split: if_splits)
    have me: "me \<noteq> i" using False by auto
    have "P s1" using detect_objects_False [OF me b [unfolded eq_False [THEN iffD2, OF nb]]] keep [OF me] Cons.prems(2)
      by blast
    then show ?thesis using Cons.IH [OF rest] by simp
  qed
qed simp

lemma detect_conflicts_False:
  assumes "detect_write_read_conflicts X me s = Ret False s'" and "i \<in> {1..4}"
  shows "no_conflict me s' i"
  using detect_segments_False [of X me segments s s' "{}"] assms
  by (simp add: detect_write_read_conflicts_def set_segments)

end
