(* ===== verification/Txn.thy ===== *)
theory Txn
  imports Conflict
begin

text \<open>
  The protocol around a transaction: read versions, stopping the other threads, the single
  inevitable transaction, and what holds when a commit can no longer be refused.
\<close>

section \<open>Read versions\<close>

text \<open>No read marker of the segment is newer than its read version.\<close>

definition markers_ok :: "stm \<Rightarrow> nat \<Rightarrow> bool" where
  "markers_ok s g \<longleftrightarrow> (\<forall>i. FIRST_READMARKER \<le> i \<longrightarrow> i < READMARKERS_END \<longrightarrow>
     rm s g i \<le> transaction_read_version (segs s g))"

lemma markers_range:
  assumes "FIRST_OBJECT_PAGE * 4096 \<le> obj" and "obj < NB_PAGES * 4096"
  shows "FIRST_READMARKER \<le> obj div 16" and "obj div 16 < READMARKERS_END"
proof -
  have "FIRST_OBJECT_PAGE * 4096 div 16 \<le> obj div 16" using assms(1) by (rule div_le_mono)
  then show "FIRST_READMARKER \<le> obj div 16" by (simp add: FIRST_READMARKER_def page_consts)
  show "obj div 16 < READMARKERS_END" using assms(2) by (simp add: READMARKERS_END_def page_consts less_mult_imp_div_less)
qed

lemma markers_ok_read: "markers_ok s g \<Longrightarrow> markers_ok (stm_read g obj s) g"
  by (auto simp: markers_ok_def stm_read_def)

text \<open>\<open>stm_start_transaction\<close> does the \<open>setjmp\<close> first and notes the position afterwards.\<close>

lemma begin_transaction_saves:
  assumes "rewind_jmp_setjmp rj stk (shadowstack (tls s t)) sp again = (n, rjthread (tls s t))"
    and "rj_head rj = f # old" and "nested (f # old)" and "shadowstack_base f \<le> length (shadowstack (tls s t))"
    and "sp \<le> frame_base f" and "again \<longrightarrow> initial_head rj = rj_head rj"
    and "shadowstack (tls s t) \<noteq> []" and "running_thread (segs s me) = Some t"
  shows "saved_at_start (begin_transaction X me t s) me (shadowstack (tls s t))"
proof -
  have "tls (begin_transaction X me t s) = tls s" "running_thread (segs (begin_transaction X me t s) me) = Some t"
    "shadowstack_at_start_of_transaction (segs (begin_transaction X me t s) me) = length (shadowstack (tls s t))"
    using assms(8) by (simp_all add: begin_transaction_def Let_def timing_event_def emit_def upd_seg_def)
  then show ?thesis unfolding saved_at_start_def using assms(1-7) by force
qed

lemma u8_less_succ: "(v :: u8) \<noteq> 0xff \<Longrightarrow> v < v + 1"
proof -
  assume "v \<noteq> 0xff"
  then have "unat v \<noteq> 255" by (simp add: word_unat_eq_iff)
  moreover have "unat v < 256" using unsigned_less [of v] by simp
  ultimately have "unat (v + 1) = unat v + 1" by (simp add: unat_word_ariths)
  then show ?thesis by (simp add: word_less_nat_alt)
qed

lemma fresh_version:
  assumes ok: "markers_ok s me" and obj: "FIRST_OBJECT_PAGE * 4096 \<le> obj" "obj < NB_PAGES * 4096"
  shows "\<not> was_read_remote (next_read_version me s) me obj
      (transaction_read_version (segs (next_read_version me s) me))"
    and "markers_ok (next_read_version me s) me"
proof -
  let ?v = "transaction_read_version (segs s me)"
  have le: "rm s me i \<le> ?v" if "FIRST_READMARKER \<le> i" "i < READMARKERS_END" for i
    using ok that by (simp add: markers_ok_def)
  show "\<not> was_read_remote (next_read_version me s) me obj
      (transaction_read_version (segs (next_read_version me s) me))"
  proof (cases "?v = 0xff")
    case True
    then show ?thesis using markers_range [OF obj]
      by (simp add: next_read_version_def Let_def reset_transaction_read_version_def was_read_remote_def)
  next
    case False
    then have "?v < ?v + 1" by (rule u8_less_succ)
    then show ?thesis using le [OF markers_range [OF obj]] False
      by (auto simp: next_read_version_def Let_def was_read_remote_def)
  qed
  show "markers_ok (next_read_version me s) me"
  proof (cases "?v = 0xff")
    case True
    then show ?thesis
      by (simp add: markers_ok_def next_read_version_def Let_def reset_transaction_read_version_def)
  next
    case False
    then have "?v < ?v + 1" by (rule u8_less_succ)
    then have "rm s me i \<le> ?v + 1" if "FIRST_READMARKER \<le> i" "i < READMARKERS_END" for i
      using le [OF that] by simp
    then show ?thesis using False by (simp add: markers_ok_def next_read_version_def Let_def)
  qed
qed

section \<open>Safe points\<close>

lemma enter_loop_Ret:
  "enter_safe_point_loop n X me s = Ret u s' \<Longrightarrow> nursery_end (segs s' me) = NURSERY_END"
  by (induction n X me s rule: enter_safe_point_loop.induct)
    (auto simp: abort_with_mutex_not_Ret Let_def split: if_splits)

lemma enter_safe_point_Ret:
  "enter_safe_point_if_requested fuel X me s = Ret u s' \<Longrightarrow> nursery_end (segs s' me) = NURSERY_END"
  by (auto simp: enter_safe_point_if_requested_def enter_loop_Ret split: if_splits)

lemma wait_for_others_count:
  "wait_for_others n X me s = Ret u s' \<Longrightarrow> count_other_threads_sp_running me s' = 0"
  by (induction n X me s rule: wait_for_others.induct)
    (auto simp: abort_with_mutex_not_Ret Let_def split: if_splits)

text \<open>The loops that set or clear the requests change only the \<open>nursery_end\<close> of the segments.\<close>

lemma nursery_end_fold:
  "segs (fold (\<lambda>i s. if nursery_end (segs s i) = v then upd_seg i (\<lambda>p. p\<lparr>nursery_end := w\<rparr>) s else s) is s) h =
     (if h \<in> set is \<and> nursery_end (segs s h) = v then (segs s h)\<lparr>nursery_end := w\<rparr> else segs s h)"
proof (induction "is" arbitrary: s)
  case (Cons i rest)
  have idem: "(p\<lparr>nursery_end := w\<rparr>)\<lparr>nursery_end := w\<rparr> = p\<lparr>nursery_end := w\<rparr>" for p :: pseg by simp
  show ?case using Cons by (auto simp: segs_upd_seg)
qed simp

lemma remove_requests_segs:
  "segs (remove_requests_for_safe_point s) h =
     (if h \<in> {1..4} \<and> nursery_end (segs s h) = NSE_SIGPAUSE then (segs s h)\<lparr>nursery_end := NURSERY_END\<rparr> else segs s h)"
  unfolding remove_requests_for_safe_point_def Let_def foreach_f_def cond_frame
  by (simp add: nursery_end_fold set_segments)

lemma signal_everybody_segs:
  "segs (signal_everybody_to_pause_running s) h =
     (if h \<in> {1..4} \<and> nursery_end (segs s h) = NURSERY_END then (segs s h)\<lparr>nursery_end := NSE_SIGPAUSE\<rparr> else segs s h)"
  unfolding signal_everybody_to_pause_running_def Let_def foreach_f_def
  by (simp add: nursery_end_fold set_segments)

lemma count_cong:
  "(\<And>i. i \<in> {1..4} \<Longrightarrow> safe_point (segs s' i) = safe_point (segs s i)) \<Longrightarrow>
   count_other_threads_sp_running me s' = count_other_threads_sp_running me s"
  unfolding count_other_threads_sp_running_def
  by (intro arg_cong [where f = length] filter_cong refl) (simp add: set_segments)

lemma count_zero:
  "count_other_threads_sp_running me s = 0 \<longleftrightarrow> (\<forall>i \<in> {1..4}. i \<noteq> me \<longrightarrow> safe_point (segs s i) \<noteq> SP_RUNNING)"
  by (auto simp: count_other_threads_sp_running_def filter_empty_conv set_segments)

lemma synchronize_Ret:
  assumes "synchronize_all_threads fuel X me ty s = Ret u s'"
  shows "count_other_threads_sp_running me s' = 0"
    and "ty = STOP_OTHERS_AND_BECOME_GLOBALLY_UNIQUE \<Longrightarrow> globally_unique_transaction s'"
proof -
  from assms obtain v s1 where s1: "enter_safe_point_if_requested fuel X me s = Ret v s1"
    and r: "(if globally_unique_transaction s1
       then if count_other_threads_sp_running me s1 \<noteq> 0 then Fatal ''assert'' s1 else Ret () s1
       else bind_res (wait_for_others fuel X me (signal_everybody_to_pause_running s1)) (\<lambda>_ s.
         if ty = STOP_OTHERS_AND_BECOME_GLOBALLY_UNIQUE
         then let s = s\<lparr>globally_unique_transaction := True\<rparr>
              in if nursery_end (segs s me) \<noteq> NSE_SIGPAUSE then Fatal ''assert'' s
                 else Ret () (upd_seg me (\<lambda>p. p\<lparr>nursery_end := NURSERY_END\<rparr>) s)
         else Ret () (remove_requests_for_safe_point s))) = Ret u s'"
    unfolding synchronize_all_threads_def bind_res_eq_Ret by blast
  have "count_other_threads_sp_running me s' = 0 \<and>
      (ty = STOP_OTHERS_AND_BECOME_GLOBALLY_UNIQUE \<longrightarrow> globally_unique_transaction s')"
  proof (cases "globally_unique_transaction s1")
    case True
    then show ?thesis using r by (auto split: if_splits)
  next
    case False
    then obtain w s2 where s2: "wait_for_others fuel X me (signal_everybody_to_pause_running s1) = Ret w s2"
      and r2: "(if ty = STOP_OTHERS_AND_BECOME_GLOBALLY_UNIQUE
         then let s = s2\<lparr>globally_unique_transaction := True\<rparr>
              in if nursery_end (segs s me) \<noteq> NSE_SIGPAUSE then Fatal ''assert'' s
                 else Ret () (upd_seg me (\<lambda>p. p\<lparr>nursery_end := NURSERY_END\<rparr>) s)
         else Ret () (remove_requests_for_safe_point s2)) = Ret u s'"
      using r by (auto simp: bind_res_eq_Ret)
    then have s': "s' = (if ty = STOP_OTHERS_AND_BECOME_GLOBALLY_UNIQUE
        then upd_seg me (\<lambda>p. p\<lparr>nursery_end := NURSERY_END\<rparr>) (s2\<lparr>globally_unique_transaction := True\<rparr>)
        else remove_requests_for_safe_point s2)"
      by (auto simp: Let_def split: if_splits)
    have "count_other_threads_sp_running me s' = count_other_threads_sp_running me s2"
      by (rule count_cong) (simp add: s' remove_requests_segs segs_upd_seg)
    then show ?thesis using wait_for_others_count [OF s2] by (simp add: s')
  qed
  then show "count_other_threads_sp_running me s' = 0"
    and "ty = STOP_OTHERS_AND_BECOME_GLOBALLY_UNIQUE \<Longrightarrow> globally_unique_transaction s'" by auto
qed

section \<open>Inevitable transactions\<close>

lemma wait_inevitable_Ret:
  "wait_for_end_of_inevitable_transaction n X me s = Ret u s' \<Longrightarrow> first_inevitable s' = None"
  by (induction n X me s rule: wait_for_end_of_inevitable_transaction.induct)
    (auto simp: bind_res_eq_Ret split: option.splits)

lemma first_inevitable_None:
  "first_inevitable s = None \<longleftrightarrow> (\<forall>i \<in> {1..4}. transaction_state (segs s i) \<noteq> TS_INEVITABLE)"
  by (auto simp: first_inevitable_def find_None_iff set_segments)

lemma forget_rewind_frame [simp]: "segs (forget_rewind t s) = segs s"
  by (simp add: forget_rewind_def split: option.split)

lemma become_inevitable_unique:
  assumes "become_inevitable fuel X me s = Ret u s'"
    and "enter_safe_point_if_requested fuel X me s = Ret u1 s1" and "transaction_state (segs s1 me) = TS_REGULAR"
  shows "transaction_state (segs s' me) = TS_INEVITABLE"
    and "i \<in> {1..4} \<Longrightarrow> i \<noteq> me \<Longrightarrow> transaction_state (segs s' i) \<noteq> TS_INEVITABLE"
    and "running_thread (segs s' me) = Some t \<Longrightarrow> stm_is_inevitable t s'"
proof -
  from assms obtain v s2 where s2: "wait_for_end_of_inevitable_transaction fuel X me (timing_fetch_inev X me s1) = Ret v s2"
    and s': "s' = invoke_and_clear_user_callbacks me 0 (forget_rewind (running_thread (segs s2 me))
       (upd_seg me (\<lambda>p. p\<lparr>transaction_state := TS_INEVITABLE\<rparr>) s2))"
    by (auto simp: become_inevitable_def bind_res_eq_Ret Let_def)
  note first = wait_inevitable_Ret [OF s2, unfolded first_inevitable_None]
  note sg = invoke_seg [of me 0 "forget_rewind (running_thread (segs s2 me))
       (upd_seg me (\<lambda>p. p\<lparr>transaction_state := TS_INEVITABLE\<rparr>) s2)"]
  show "transaction_state (segs s' me) = TS_INEVITABLE" unfolding s' by (subst sg) simp
  show "i \<in> {1..4} \<Longrightarrow> i \<noteq> me \<Longrightarrow> transaction_state (segs s' i) \<noteq> TS_INEVITABLE"
    using first by (simp add: s')
  assume t: "running_thread (segs s' me) = Some t"
  have "running_thread (segs s' me) = running_thread (segs s2 me)" unfolding s' by (subst sg) simp
  then show "stm_is_inevitable t s'" using t
    by (simp add: s' forget_rewind_def stm_is_inevitable_def upd_tl_def rewind_jmp_forget_def rewind_jmp_armed_def Let_def)
qed

section \<open>Validation\<close>

text \<open>No other thread runs in a transaction: each is outside of one or waits at a safe point.\<close>

definition others_stopped :: "nat \<Rightarrow> stm \<Rightarrow> bool" where
  "others_stopped me s \<longleftrightarrow> (\<forall>i \<in> {1..4}. i \<noteq> me \<longrightarrow> safe_point (segs s i) \<noteq> SP_RUNNING)"

lemma others_stopped_killed:
  assumes "me \<noteq> j" and "killed me j s s'" and "others_stopped me s"
  shows "others_stopped me s'"
proof -
  have "safe_point (segs s' i) \<noteq> SP_RUNNING" if "i \<noteq> me" "safe_point (segs s i) \<noteq> SP_RUNNING" for i
    using assms(2) that by (cases "i = j") (auto simp: killed_def is_aborting_now_def)
  then show ?thesis using assms(2,3) by (auto simp: others_stopped_def killed_def)
qed

lemma no_finalizers_killed:
  assumes "me \<noteq> j" and "killed me j s s'" and "\<not> any_local_finalizers me s"
  shows "\<not> any_local_finalizers me s'"
proof -
  obtain v where "segs s' me = (segs s me)\<lparr>signalled_to_commit_soon := v\<rparr>" using assms(2) by (auto simp: killed_def)
  then show ?thesis using assms(3) by (simp add: any_local_finalizers_def)
qed

lemma commit_validate_Ret:
  "commit_validate n fuel X me b s = Ret u s' \<Longrightarrow>
   \<not> any_local_finalizers me s' \<and> others_stopped me s' \<and> (\<forall>i \<in> {1..4}. no_conflict me s' i)"
proof (induction n arbitrary: b s)
  case (Suc n)
  from Suc.prems obtain v s1 where
    s1: "bind_res (synchronize_all_threads fuel X me STOP_OTHERS_UNTIL_MUTEX_UNLOCK v) (\<lambda>_ s.
       if any_local_finalizers me s then commit_validate n fuel X me True s
       else bind_res (detect_write_read_conflicts X me s) (\<lambda>restart s.
              if restart then commit_validate n fuel X me False s else Ret () s)) = Ret u s'"
    by (auto simp: bind_res_eq_Ret)
  then obtain w s2 where sy: "synchronize_all_threads fuel X me STOP_OTHERS_UNTIL_MUTEX_UNLOCK v = Ret w s2"
    and r: "(if any_local_finalizers me s2 then commit_validate n fuel X me True s2
       else bind_res (detect_write_read_conflicts X me s2) (\<lambda>restart s.
              if restart then commit_validate n fuel X me False s else Ret () s)) = Ret u s'"
    by (auto simp: bind_res_eq_Ret)
  show ?case
  proof (cases "any_local_finalizers me s2")
    case True
    then show ?thesis using r Suc.IH by simp
  next
    case False
    with r obtain c s3 where d: "detect_write_read_conflicts X me s2 = Ret c s3"
      and r3: "(if c then commit_validate n fuel X me False s3 else Ret () s3) = Ret u s'"
      by (auto simp: bind_res_eq_Ret)
    show ?thesis
    proof (cases c)
      case True
      then show ?thesis using r3 Suc.IH by simp
    next
      case c: False
      then have s3: "s3 = s'" using r3 by simp
      have d': "detect_write_read_conflicts X me s2 = Ret False s'" using d c s3 by simp
      have st: "others_stopped me s2" using synchronize_Ret(1) [OF sy] by (simp add: others_stopped_def count_zero)
      note keeps = detect_segments_keeps [OF _ d' [unfolded detect_write_read_conflicts_def]]
      have "others_stopped me s'" by (rule keeps [OF others_stopped_killed]) (auto intro: st)
      moreover have "\<not> any_local_finalizers me s'" by (rule keeps [OF no_finalizers_killed]) (auto simp: False)
      ultimately show ?thesis using detect_conflicts_False [OF d'] by blast
    qed
  qed
qed simp

section \<open>Owning a segment\<close>

text \<open>A segment is taken exactly when a thread runs in it, and a thread runs in at most one.\<close>

definition owned :: "stm \<Rightarrow> bool" where
  "owned s \<longleftrightarrow> (\<forall>i \<in> {1..4}. (in_use1 s (i - 1) \<noteq> 0) = (running_thread (segs s i) \<noteq> None)) \<and>
     (\<forall>i \<in> {1..4}. \<forall>t. running_thread (segs s i) = Some t \<longrightarrow> associated_segment_num (tls s t) = i)"

definition idle :: "nat \<Rightarrow> stm \<Rightarrow> bool" where
  "idle t s \<longleftrightarrow> associated_segment_num (tls s t) \<in> {1..4} \<and> (\<forall>i \<in> {1..4}. running_thread (segs s i) \<noteq> Some t)"

lemma owned_unique:
  "owned s \<Longrightarrow> i \<in> {1..4} \<Longrightarrow> j \<in> {1..4} \<Longrightarrow> running_thread (segs s i) = Some t \<Longrightarrow>
   running_thread (segs s j) = Some t \<Longrightarrow> i = j"
  unfolding owned_def by metis

lemma next_free_Some:
  "next_free_segment iu n num = Some m \<Longrightarrow> iu (m - 1) = 0 \<and> m \<in> {1..4}"
  by (induction iu n num rule: next_free_segment.induct)
    (auto simp: Let_def NB_SEGMENTS_def split: if_splits)

text \<open>The search comes back only empty-handed when every segment is taken.\<close>

lemma NB_SEGMENTS_Suc: "NB_SEGMENTS = Suc (Suc (Suc (Suc 0)))"
  by (simp add: NB_SEGMENTS_def)

lemma next_free_None:
  assumes "next_free_segment iu NB_SEGMENTS num = None" and "num \<in> {1..4}"
  shows "\<forall>i < 4. iu i \<noteq> 0"
proof -
  have small: "Suc (Suc 0) = 2" "Suc 2 = 3" by simp_all
  from assms(2) have "num = 1 \<or> num = 2 \<or> num = 3 \<or> num = 4" by auto
  then have "iu 0 \<noteq> 0 \<and> iu 1 \<noteq> 0 \<and> iu 2 \<noteq> 0 \<and> iu 3 \<noteq> 0"
    using assms(1) [unfolded NB_SEGMENTS_Suc next_free_segment.simps Let_def]
    by (elim disjE) (simp_all add: small split: if_splits)
  moreover have "i < 4 \<Longrightarrow> i = 0 \<or> i = 1 \<or> i = 2 \<or> i = 3" for i :: nat by auto
  ultimately show ?thesis by blast
qed

lemma acquire_Some:
  assumes "owned s" and "idle t s" and "acquire_thread_segment X t s = (Some me, s')"
  shows "owned s'" and "me \<in> {1..4}" and "in_use1 s (me - 1) = 0" and "running_thread (segs s' me) = Some t"
    and "\<And>i. i \<noteq> me \<Longrightarrow> segs s' i = segs s i"
proof -
  obtain s0 where s0: "s0 = s \<or> s0 = upd_tl t (\<lambda>x. x\<lparr>associated_segment_num := me\<rparr>) s"
    and me: "in_use1 s (me - 1) = 0" "me \<in> {1..4}" "associated_segment_num (tls s0 t) = me"
    and s': "s' = upd_seg me (\<lambda>p. p\<lparr>running_thread := Some t\<rparr>) (s0\<lparr>in_use1 := (in_use1 s0)(me - 1 := 1)\<rparr>)"
  proof (cases "in_use1 s (associated_segment_num (tls s t) - 1) = 0")
    case True
    then show ?thesis using assms(2,3)
      by (intro that [of s]) (auto simp add: acquire_thread_segment_def Let_def idle_def)
  next
    case False
    with assms(3) obtain m where m: "next_free_segment (in_use1 s) NB_SEGMENTS (associated_segment_num (tls s t)) = Some m"
      by (cases "next_free_segment (in_use1 s) NB_SEGMENTS (associated_segment_num (tls s t))")
        (simp_all add: acquire_thread_segment_def Let_def)
    then have "m = me" using False assms(3) by (simp add: acquire_thread_segment_def Let_def)
    then show ?thesis using next_free_Some [OF m] False m assms(3)
      by (intro that [of "upd_tl t (\<lambda>x. x\<lparr>associated_segment_num := me\<rparr>) s"])
        (simp_all add: acquire_thread_segment_def Let_def upd_tl_def)
  qed
  show "me \<in> {1..4}" "in_use1 s (me - 1) = 0" by (fact me)+
  have sg: "segs s0 = segs s" "in_use1 s0 = in_use1 s" using s0 by auto
  have tls: "u \<noteq> t \<Longrightarrow> tls s0 u = tls s u" for u using s0 by (auto simp: upd_tl_def)
  show "running_thread (segs s' me) = Some t" by (simp add: s')
  show "i \<noteq> me \<Longrightarrow> segs s' i = segs s i" for i by (simp add: s' sg)
  have "(in_use1 s' (i - 1) \<noteq> 0) = (running_thread (segs s' i) \<noteq> None)" if "i \<in> {1..4}" for i
    using that assms(1) me(2) by (cases "i = me") (auto simp: s' sg owned_def)
  moreover have "associated_segment_num (tls s' u) = i" if "i \<in> {1..4}" "running_thread (segs s' i) = Some u" for i u
  proof (cases "i = me")
    case True
    then show ?thesis using that me(3) by (simp add: s')
  next
    case False
    then have run: "running_thread (segs s i) = Some u" using that by (simp add: s' sg)
    then have "u \<noteq> t" using assms(2) that(1) by (auto simp: idle_def)
    then show ?thesis using run assms(1) that(1) tls [of u] by (simp add: s' owned_def)
  qed
  ultimately show "owned s'" unfolding owned_def by blast
qed

lemma release_owned:
  assumes "owned s" and "me \<in> {1..4}" and "running_thread (segs s me) = Some t"
  shows "owned (release_thread_segment me t s)" and "idle t (release_thread_segment me t s)"
    and "in_use1 (release_thread_segment me t s) (me - 1) = 0"
proof -
  let ?s = "release_thread_segment me t s"
  have a: "associated_segment_num (tls s t) = me" using assms by (auto simp: owned_def)
  have sg: "segs ?s i = (if i = me then (segs s me)\<lparr>signal_when_done := False, running_thread := None\<rparr> else segs s i)" for i
    by (cases "signal_when_done (segs s me)") (auto simp: release_thread_segment_def Let_def segs_upd_seg)
  have tl: "tls ?s = tls s" "in_use1 ?s = (in_use1 s)(me - 1 := 0)"
    using a by (auto simp: release_thread_segment_def Let_def cond_signal_def cond_broadcast_def)
  show "in_use1 ?s (me - 1) = 0" by (simp add: tl)
  show "owned ?s" using assms(1,2) by (auto simp: owned_def sg tl)
  show "idle t ?s" using assms owned_unique [OF assms(1)] a by (auto simp: idle_def sg tl)
qed

end
