(* ===== verification/Isolation.thy ===== *)
theory Isolation
  imports Txn
begin

text \<open>
  The protocol of the old objects as a transition system: write barriers, stores, commits and
  aborts of several segments, in any order. The invariant says that a segment sees the last
  committed version of every object that it has not locked itself.
\<close>

section \<open>Agreement on one object\<close>

lemma agree_object:
  assumes X: "cb_ok X" and v: "\<And>x. x \<in> extent X s h a \<Longrightarrow> vread s' g x = vread s h x"
  shows "obj_size X s' g a = obj_size X s h a" and "stm_flags s' g a = stm_flags s h a"
    and "obj_should_use_cards X s' g a = obj_should_use_cards X s h a"
    and "last_card_index X s' g a = last_card_index X s h a"
proof -
  have c: "obj_bytes s h a i = obj_bytes s' g a i" if "i < stmcb_size_rounded_up X (obj_bytes s h a)" for i
    using v [of "a + i"] that by (simp add: obj_bytes_def obj_size_def extent_def)
  note cb = cb_ok_content [OF X, of "obj_bytes s h a" "obj_bytes s' g a", OF c]
  show z: "obj_size X s' g a = obj_size X s h a" using cb(1) by (simp add: obj_size_def)
  show "obj_should_use_cards X s' g a = obj_should_use_cards X s h a"
    using cb(2) z by (simp add: obj_should_use_cards_def)
  show "last_card_index X s' g a = last_card_index X s h a" using cb(3) z by (simp add: last_card_index_def)
  have "16 \<le> obj_size X s h a" using cb_ok_size [OF X] by (simp add: obj_size_def)
  then show "stm_flags s' g a = stm_flags s h a"
    using v [of "a + i" for i] by (auto simp: stm_flags_def vload32_def extent_def intro!: load32_cong)
qed

section \<open>The invariant\<close>

abbreviation mods :: "stm \<Rightarrow> nat \<Rightarrow> nat list" where
  "mods s g \<equiv> modified_old_objects (segs s g)"

text \<open>The pages of old objects that are in use: \<open>grow_large\<close> has mapped them.\<close>

definition old_page :: "stm \<Rightarrow> nat \<Rightarrow> bool" where
  "old_page s p \<longleftrightarrow> PAGE_FLAG_START \<le> p \<and> p < uninitialized_page_start s div 4096"

definition object_pages :: "ext \<Rightarrow> stm \<Rightarrow> nat \<Rightarrow> nat set" where
  "object_pages X s a = {a div 4096 .. (a + obj_size X s 0 a - 1) div 4096}"

text \<open>The objects are in such pages and apart; their sizes are those of the shared copy.\<close>

definition layout_ok :: "ext \<Rightarrow> nat set \<Rightarrow> stm \<Rightarrow> bool" where
  "layout_ok X objs s \<longleftrightarrow>
     (\<forall>a \<in> objs. WRITELOCK_START * 16 \<le> a \<and> (\<forall>p \<in> object_pages X s a. old_page s p)) \<and>
     (\<forall>a \<in> objs. \<forall>b \<in> objs. a \<noteq> b \<longrightarrow> a + obj_size X s 0 a + 16 \<le> b \<or> b + obj_size X s 0 b + 16 \<le> a)"

lemma layoutD:
  "layout_ok X objs s \<Longrightarrow> a \<in> objs \<Longrightarrow> b \<in> objs \<Longrightarrow> a \<noteq> b \<Longrightarrow>
   a + obj_size X s 0 a + 16 \<le> b \<or> b + obj_size X s 0 b + 16 \<le> a"
  by (simp add: layout_ok_def)

text \<open>The write locks say who has which object in its list of modified objects.\<close>

definition locks_ok :: "nat set \<Rightarrow> stm \<Rightarrow> bool" where
  "locks_ok objs s \<longleftrightarrow> (\<forall>g \<in> {1..4}. write_lock_num (segs s g) = of_nat g \<and> set (mods s g) \<subseteq> objs \<and> distinct (mods s g)) \<and>
     (\<forall>a \<in> objs. \<forall>g \<in> {1..4}. a \<in> set (mods s g) \<longleftrightarrow> write_locks s (get_write_lock_idx a) = of_nat g)"

definition heads_ok :: "ext \<Rightarrow> nat set \<Rightarrow> stm \<Rightarrow> bool" where
  "heads_ok X objs s \<longleftrightarrow> (\<forall>a \<in> objs. has_flag (stm_flags s 0 a) GCFLAG_WRITE_BARRIER) \<and>
     (\<forall>a \<in> objs. \<forall>g \<le> 4. \<not> has_flag (stm_flags s g a) GCFLAG_SMALL_UNIFORM \<and>
        \<not> has_flag (stm_flags s g a) GCFLAG_CARDS_SET \<and> obj_size X s g a = obj_size X s 0 a)"

lemma headsI:
  assumes "\<And>a. a \<in> objs \<Longrightarrow> has_flag (stm_flags s 0 a) GCFLAG_WRITE_BARRIER"
    and "\<And>a g. a \<in> objs \<Longrightarrow> g \<le> 4 \<Longrightarrow> \<not> has_flag (stm_flags s g a) GCFLAG_SMALL_UNIFORM"
    and "\<And>a g. a \<in> objs \<Longrightarrow> g \<le> 4 \<Longrightarrow> \<not> has_flag (stm_flags s g a) GCFLAG_CARDS_SET"
    and "\<And>a g. a \<in> objs \<Longrightarrow> g \<le> 4 \<Longrightarrow> obj_size X s g a = obj_size X s 0 a"
  shows "heads_ok X objs s"
  unfolding heads_ok_def using assms by blast

lemma headsD:
  assumes "heads_ok X objs s" and "a \<in> objs"
  shows "has_flag (stm_flags s 0 a) GCFLAG_WRITE_BARRIER"
    and "g \<le> 4 \<Longrightarrow> \<not> has_flag (stm_flags s g a) GCFLAG_SMALL_UNIFORM"
    and "g \<le> 4 \<Longrightarrow> \<not> has_flag (stm_flags s g a) GCFLAG_CARDS_SET"
    and "g \<le> 4 \<Longrightarrow> obj_size X s g a = obj_size X s 0 a"
  using assms unfolding heads_ok_def by blast+

definition own_ok :: "ext \<Rightarrow> stm \<Rightarrow> bool" where
  "own_ok X s \<longleftrightarrow> (\<forall>g \<in> {1..4}. \<forall>a \<in> set (mods s g). \<forall>p \<in> object_pages X s a. is_private_page s g p)"

definition views_ok :: "ext \<Rightarrow> nat set \<Rightarrow> stm \<Rightarrow> bool" where
  "views_ok X objs s \<longleftrightarrow> (\<forall>g \<in> {1..4}. \<forall>a \<in> objs. a \<notin> set (mods s g) \<longrightarrow>
     (\<forall>x \<in> extent X s 0 a. vread s g x = vread s 0 x))"

definition maps_ok :: "stm \<Rightarrow> bool" where
  "maps_ok s \<longleftrightarrow> remap_dom s \<and> (\<forall>p. old_page s p \<longrightarrow> mapped_ok s p)"

definition isolated :: "ext \<Rightarrow> nat set \<Rightarrow> stm \<Rightarrow> bool" where
  "isolated X objs s \<longleftrightarrow> maps_ok s \<and> layout_ok X objs s \<and> locks_ok objs s \<and> heads_ok X objs s \<and>
     own_ok X s \<and> views_ok X objs s"

lemmas isolated_defs = isolated_def layout_ok_def locks_ok_def heads_ok_def own_ok_def views_ok_def maps_ok_def

lemma isolated_mapped:
  "isolated X objs s \<Longrightarrow> a \<in> objs \<Longrightarrow> p \<in> object_pages X s a \<Longrightarrow> mapped_ok s p"
  by (simp add: isolated_def maps_ok_def layout_ok_def)

text \<open>Two segments never hold the same object.\<close>

lemma of_nat_segment:
  "g \<in> {1..4} \<Longrightarrow> h \<in> {1..4} \<Longrightarrow> (of_nat g :: u8) = of_nat h \<longleftrightarrow> g = h"
  "g \<in> {1..4} \<Longrightarrow> (of_nat g :: u8) \<noteq> 0"
proof -
  have *: "g \<in> {1..4} \<Longrightarrow> unat (of_nat g :: u8) = g" for g :: nat
    by (simp add: unat_of_nat)
  show "g \<in> {1..4} \<Longrightarrow> h \<in> {1..4} \<Longrightarrow> (of_nat g :: u8) = of_nat h \<longleftrightarrow> g = h" using * by metis
  show "g \<in> {1..4} \<Longrightarrow> (of_nat g :: u8) \<noteq> 0" using * by force
qed

lemma one_owner:
  assumes "locks_ok objs s" and "g \<in> {1..4}" and "h \<in> {1..4}" and "a \<in> set (mods s g)" and "a \<in> set (mods s h)"
  shows "g = h"
proof -
  have "a \<in> objs" using assms(1,2,4) unfolding locks_ok_def by blast
  then have "(of_nat g :: u8) = of_nat h" using assms unfolding locks_ok_def by metis
  then show ?thesis using of_nat_segment(1) assms(2,3) by blast
qed

text \<open>What the invariant looks at.\<close>

lemma same_view_funs:
  assumes "vread s' g = vread s g"
  shows "obj_size X s' g = obj_size X s g" and "stm_flags s' g = stm_flags s g" and "extent X s' g = extent X s g"
  using assms same_view_object(2,3,4) by (simp_all add: fun_eq_iff)

lemma isolated_cong:
  assumes v: "\<And>g. g \<le> 4 \<Longrightarrow> vread s' g = vread s g" and m: "maps_ok s'"
    and u: "uninitialized_page_start s' = uninitialized_page_start s"
    and p: "\<And>g p. g \<in> {1..4} \<Longrightarrow> old_page s p \<Longrightarrow> is_private_page s g p \<Longrightarrow> is_private_page s' g p"
    and l: "\<And>a. a \<in> objs \<Longrightarrow> write_locks s' (get_write_lock_idx a) = write_locks s (get_write_lock_idx a)"
    and sg: "\<And>g. g \<in> {1..4} \<Longrightarrow> mods s' g = mods s g \<and> write_lock_num (segs s' g) = write_lock_num (segs s g)"
    and iso: "isolated X objs s"
  shows "isolated X objs s'"
proof -
  note eq = same_view_funs [OF v]
  have up: "old_page s' = old_page s" by (simp add: old_page_def u fun_eq_iff)
  have lay: "layout_ok X objs s'" using iso by (simp add: isolated_def layout_ok_def object_pages_def up eq)
  have lk: "locks_ok objs s'" using iso l sg unfolding isolated_def locks_ok_def by metis
  have "heads_ok X objs s" using iso by (simp add: isolated_def)
  note hD = headsD [OF this]
  have hd: "heads_ok X objs s'" 
  proof (rule headsI)
    show "obj_size X s' g a = obj_size X s' 0 a" if "a \<in> objs" "g \<le> 4" for a g
      using hD(4) [OF that] that(2) by (simp only: eq(1) le0)
  qed (use hD(1-3) eq(2) in simp_all)
  have "is_private_page s' g q" if "g \<in> {1..4}" "a \<in> set (mods s g)" "q \<in> object_pages X s a" for g a q
  proof (rule p [OF that(1)])
    show "is_private_page s g q" using iso that unfolding isolated_def own_ok_def by blast
    have "a \<in> objs" using iso that(1,2) unfolding isolated_def locks_ok_def by blast
    then show "old_page s q" using iso that(3) unfolding isolated_def layout_ok_def by blast
  qed
  then have own: "own_ok X s'" using sg by (simp add: own_ok_def object_pages_def eq)
  have vw: "views_ok X objs s'" using iso v sg by (simp add: isolated_def views_ok_def eq)
  show ?thesis using m lay lk hd own vw by (simp add: isolated_def)
qed

section \<open>Writing to an own object\<close>

text \<open>An own object is in private pages: a store to it is seen by its owner only.\<close>

lemma own_remap:
  assumes iso: "isolated X objs s" and me: "me \<in> {1..4}" and obj: "obj \<in> set (mods s me)" and x: "x \<in> extent X s 0 obj"
  shows "remap s me (x div 4096) = me"
proof -
  have xr: "obj \<le> x" "x \<le> obj + obj_size X s 0 obj - 1" using x by (auto simp: extent_def)
  then have pg: "x div 4096 \<in> object_pages X s obj" by (simp add: object_pages_def div_le_mono)
  then have "is_private_page s me (x div 4096)" using iso me obj unfolding isolated_def own_ok_def by blast
  moreover have "obj \<in> objs" using iso me obj unfolding isolated_def locks_ok_def by blast
  then have "mapped_ok s (x div 4096)" using iso pg unfolding isolated_def maps_ok_def layout_ok_def by blast
  ultimately show ?thesis using mappedD [OF _ me] by simp
qed

lemma own_vfill:
  assumes iso: "isolated X objs s" and me: "me \<in> {1..4}" and obj: "obj \<in> set (mods s me)"
    and r: "{a..<a + n} \<subseteq> extent X s 0 obj"
  shows "vread (vfill me a n f s) g x = (if g = me \<and> a \<le> x \<and> x < a + n then f x else vread s g x)"
proof -
  have "remap s g (x div 4096) = me \<longleftrightarrow> g = me" if "a \<le> x" "x < a + n"
  proof -
    have "remap s me (x div 4096) = me" using own_remap [OF iso me obj] r that by auto
    moreover have "remap s g (x div 4096) \<in> {0, g}" using iso by (simp add: isolated_def maps_ok_def remap_dom_def)
    ultimately show ?thesis using me by auto
  qed
  moreover have "remap s me (x div 4096) = me" if "a \<le> x" "x < a + n" using own_remap [OF iso me obj] r that by auto
  ultimately show ?thesis by (auto simp: vread_vfill)
qed

lemma isolated_write:
  assumes iso: "isolated X objs s" and me: "me \<in> {1..4}" and obj: "obj \<in> set (mods s me)"
    and r: "{a..<a + n} \<subseteq> extent X s 0 obj"
    and fl: "\<not> has_flag (stm_flags (vfill me a n f s) me obj) GCFLAG_SMALL_UNIFORM"
      "\<not> has_flag (stm_flags (vfill me a n f s) me obj) GCFLAG_CARDS_SET"
    and sz: "obj_size X (vfill me a n f s) me obj = obj_size X s me obj" and X: "cb_ok X"
  shows "isolated X objs (vfill me a n f s)"
proof -
  let ?s = "vfill me a n f s"
  note v = own_vfill [OF iso me obj r]
  have v': "g \<noteq> me \<Longrightarrow> vread ?s g = vread s g" for g by (auto simp: v fun_eq_iff)
  have eq0: "vread ?s 0 = vread s 0" using v' me by auto
  note eq = same_view_funs [OF eq0]
  have objs: "obj \<in> objs" using iso me obj unfolding isolated_def locks_ok_def by blast
  have "heads_ok X objs s" using iso by (simp add: isolated_def)
  note hD = headsD [OF this]
  have other: "vread ?s me x = vread s me x" if "b \<in> objs" "b \<noteq> obj" "x \<in> extent X s 0 b" for b x
  proof -
    have "b + obj_size X s 0 b + 16 \<le> obj \<or> obj + obj_size X s 0 obj + 16 \<le> b"
      using iso that(1,2) objs unfolding isolated_def layout_ok_def by blast
    then have "x \<notin> {a..<a + n}" using r that(3) by (auto simp: extent_def subset_iff)
    then show ?thesis by (auto simp: v)
  qed
  have up: "old_page ?s = old_page s" by (simp add: old_page_def fun_eq_iff)
  have maps: "maps_ok ?s" using iso remap_dom_cong [of ?s s] by (simp add: isolated_def maps_ok_def up)
  have lay: "layout_ok X objs ?s" using iso by (simp add: isolated_def layout_ok_def object_pages_def up eq)
  have lk: "locks_ok objs ?s" using iso by (simp add: isolated_def locks_ok_def)
  have own: "own_ok X ?s" using iso by (simp add: isolated_def own_ok_def object_pages_def eq)
  have sizes: "obj_size X s g b = obj_size X s 0 b" if "b \<in> objs" "g \<le> 4" for b g
    using iso that headsD(4) unfolding isolated_def by blast
  have "\<not> has_flag (stm_flags ?s g b) GCFLAG_SMALL_UNIFORM \<and> \<not> has_flag (stm_flags ?s g b) GCFLAG_CARDS_SET \<and>
      obj_size X ?s g b = obj_size X s 0 b" if b: "b \<in> objs" and g: "g \<le> 4" for g b
  proof (cases "g = me \<and> b = obj")
    case True
    then show ?thesis using fl sz sizes [OF b g] by simp
  next
    case False
    have "vread ?s g x = vread s g x" if "x \<in> extent X s g b" for x
      using False other [OF b] v' [of g] that sizes [OF b g] by (cases "g = me") (auto simp: extent_def)
    note ag = agree_object [OF X this]
    show ?thesis using hD(2,3) [OF b g] sizes [OF b g] by (simp add: ag)
  qed
  then have hd: "heads_ok X objs ?s" using hD(1) by (intro headsI) (simp_all add: eq)
  have "vread ?s g x = vread s 0 x" if "g \<in> {1..4}" "b \<in> objs" "b \<notin> set (mods s g)" "x \<in> extent X s 0 b" for g b x
  proof -
    have "vread s g x = vread s 0 x" using iso that unfolding isolated_def views_ok_def by blast
    then show ?thesis using other [OF that(2) _ that(4)] v' [of g] that(3) obj by (cases "g = me") auto
  qed
  then have vw: "views_ok X objs ?s" by (simp add: views_ok_def eq eq0)
  show ?thesis using maps lay lk hd own vw by (simp add: isolated_def)
qed

section \<open>Claiming an object\<close>

lemma page_privatize_start [simp]:
  "uninitialized_page_start (page_privatize me p s) = uninitialized_page_start s"
  by (simp add: page_privatize_def Let_def pagecopy_def memcpy_def d_remap_file_pages_def upd_ctl_def)

lemma old_pageD: "old_page s p \<Longrightarrow> PAGE_FLAG_START \<le> p"
  by (simp add: old_page_def)

lemma old_page_cong: "uninitialized_page_start s' = uninitialized_page_start s \<Longrightarrow> old_page s' = old_page s"
  by (simp add: old_page_def fun_eq_iff)

lemma privatize_pages:
  assumes me: "me \<in> {1..4}"
  shows "maps_ok s \<Longrightarrow> (\<forall>p \<in> set ps. old_page s p) \<Longrightarrow>
    maps_ok (fold (page_privatize me) ps s) \<and>
    (\<forall>g \<le> 4. vread (fold (page_privatize me) ps s) g = vread s g) \<and>
    (\<forall>g \<in> {1..4}. \<forall>q. old_page s q \<longrightarrow> (is_private_page (fold (page_privatize me) ps s) g q \<longleftrightarrow>
       is_private_page s g q \<or> g = me \<and> q \<in> set ps)) \<and>
    segs (fold (page_privatize me) ps s) = segs s \<and> write_locks (fold (page_privatize me) ps s) = write_locks s \<and>
    uninitialized_page_start (fold (page_privatize me) ps s) = uninitialized_page_start s"
proof (induction ps arbitrary: s)
  case (Cons p ps)
  have op: "old_page s p" using Cons.prems by simp
  note p = old_pageD [OF op]
  have oc: "old_page (page_privatize me p s) = old_page s" by (rule old_page_cong) simp
  have dom: "remap s g q \<in> {0, g}" for g q using Cons.prems(1) by (simp add: maps_ok_def remap_dom_def)
  have mp: "mapped_ok s p" using Cons.prems(1) op by (simp add: maps_ok_def)
  have "remap (page_privatize me p s) g q \<in> {0, g}" for g q
    using dom [of g q] page_privatize_shared(2) [of s me p] page_privatize_private [of s me p]
    by (cases "is_private_page s me p") (auto simp: fun_eq_iff)
  then have "maps_ok (page_privatize me p s)"
    using Cons.prems(1) page_privatize_mapped [OF me p] old_pageD by (simp add: maps_ok_def remap_dom_def oc)
  note IH = Cons.IH [OF this]
  have "vread (page_privatize me p s) g = vread s g" if "g \<le> 4" for g
    using page_privatize_vread [OF me _ p mp dom, of g] that by (auto simp: fun_eq_iff)
  then show ?case using IH Cons.prems(2) page_privatize_is_private [OF me _ p] old_pageD by (simp add: oc) blast
qed simp

lemma timing_record_write_frame [simp]:
  "vread (timing_record_write X me s) = vread s" "write_locks (timing_record_write X me s) = write_locks s"
  "mods (timing_record_write X me s) g = mods s g"
  "write_lock_num (segs (timing_record_write X me s) g) = write_lock_num (segs s g)"
  "remap (timing_record_write X me s) = remap s" "by_segment (timing_record_write X me s) = by_segment s"
  "uninitialized_page_start (timing_record_write X me s) = uninitialized_page_start s"
  by (auto simp: timing_record_write_def Let_def case_prod_beta segs_upd_seg)

lemma maps_ok_cong: "remap s' = remap s \<Longrightarrow> by_segment s' = by_segment s \<Longrightarrow>
  uninitialized_page_start s' = uninitialized_page_start s \<Longrightarrow> maps_ok s' = maps_ok s"
  using mapped_ok_cong [of s' s] remap_dom_cong [of s' s] old_page_cong [of s' s] by (simp add: maps_ok_def)

text \<open>What claiming does, as the invariant sees it.\<close>

lemma claim_form:
  assumes iso: "isolated X objs s" and me: "me \<in> {1..4}" and obj: "obj \<in> objs"
  defines "r \<equiv> claim_object X me obj s"
  shows "maps_ok r" and "uninitialized_page_start r = uninitialized_page_start s"
    and "g \<le> 4 \<Longrightarrow> vread r g = vread s g"
    and "g \<in> {1..4} \<Longrightarrow> old_page s q \<Longrightarrow>
      is_private_page r g q \<longleftrightarrow> is_private_page s g q \<or> g = me \<and> q \<in> object_pages X s obj"
    and "mods r g = (if g = me then mods s me @ [obj] else mods s g)"
    and "write_lock_num (segs r g) = write_lock_num (segs s g)"
    and "write_locks r = (write_locks s)(get_write_lock_idx obj := of_nat me)"
proof -
  define s1 where "s1 = timing_record_write X me
    (s\<lparr>write_locks := (write_locks s)(get_write_lock_idx obj := write_lock_num (segs s me))\<rparr>)"
  define s2 where "s2 = upd_seg me (\<lambda>p. p\<lparr>modified_old_objects := modified_old_objects p @ [obj]\<rparr>) s1"
  have v2: "vread s2 = vread s" by (simp add: s2_def s1_def)
  note eq2 = same_view_funs [of s2 _ s, OF fun_cong [OF v2]]
  have num: "write_lock_num (segs s me) = of_nat me" using iso me unfolding isolated_def locks_ok_def by blast
  have hdD: "heads_ok X objs s" using iso by (simp add: isolated_def)
  have small: "\<not> has_flag (stm_flags s2 me obj) GCFLAG_SMALL_UNIFORM" and size: "obj_size X s2 me obj = obj_size X s 0 obj"
    using headsD(2,4) [OF hdD obj, of me] me by (simp_all add: eq2)
  let ?ps = "[obj div 4096..<(obj + obj_size X s 0 obj - 1) div 4096 + 1]"
  have r: "r = fold (page_privatize me) ?ps s2"
    using small size unfolding r_def claim_object_def Let_def s2_def s1_def privatize_object_pages_def foreach_f_def by simp
  have "maps_ok s2" using iso maps_ok_cong [of s2 s] by (simp add: s2_def s1_def isolated_def)
  moreover have oc: "old_page s2 = old_page s" by (rule old_page_cong) (simp add: s2_def s1_def)
  have "\<forall>p \<in> set ?ps. old_page s p"
    using iso obj unfolding isolated_def layout_ok_def by (auto simp: object_pages_def less_Suc_eq_le)
  moreover have "object_pages X s obj = set ?ps" by (auto simp: object_pages_def less_Suc_eq_le)
  moreover have "is_private_page s2 = is_private_page s" by (rule bits_cong) (simp add: s2_def s1_def)
  ultimately have P: "maps_ok r" "\<forall>g \<le> 4. vread r g = vread s g"
    "\<forall>g \<in> {1..4}. \<forall>q. old_page s q \<longrightarrow> (is_private_page r g q \<longleftrightarrow> is_private_page s g q \<or> g = me \<and> q \<in> object_pages X s obj)"
    "segs r = segs s2" "write_locks r = write_locks s2" "uninitialized_page_start r = uninitialized_page_start s2"
    using privatize_pages [OF me, of s2 ?ps] unfolding r v2 oc by simp_all
  show "maps_ok r" by (fact P(1))
  show "g \<le> 4 \<Longrightarrow> vread r g = vread s g" using P(2) by blast
  show "g \<in> {1..4} \<Longrightarrow> old_page s q \<Longrightarrow>
      is_private_page r g q \<longleftrightarrow> is_private_page s g q \<or> g = me \<and> q \<in> object_pages X s obj" using P(3) by blast
  show "uninitialized_page_start r = uninitialized_page_start s" "mods r g = (if g = me then mods s me @ [obj] else mods s g)"
    "write_lock_num (segs r g) = write_lock_num (segs s g)"
    "write_locks r = (write_locks s)(get_write_lock_idx obj := of_nat me)"
    using P(4-6) num by (simp_all add: s2_def s1_def segs_upd_seg)
qed

lemma claim_locks:
  assumes iso: "isolated X objs s" and me: "me \<in> {1..4}" and obj: "obj \<in> objs" and X: "cb_ok X"
    and free: "write_locks s (get_write_lock_idx obj) = 0"
  shows "locks_ok objs (claim_object X me obj s)"
proof -
  let ?r = "claim_object X me obj s"
  note C = claim_form [OF iso me obj]
  have lk: "locks_ok objs s" using iso by (simp add: isolated_def)
  have nobody: "obj \<notin> set (mods s g)" if "g \<in> {1..4}" for g
    using lk that obj free of_nat_segment(2) [OF that] unfolding locks_ok_def by metis
  have idx: "get_write_lock_idx a \<noteq> get_write_lock_idx obj" if "a \<in> objs" "a \<noteq> obj" for a
  proof -
    have "layout_ok X objs s" using iso by (simp add: isolated_def)
    then have "WRITELOCK_START * 16 \<le> a" "WRITELOCK_START * 16 \<le> obj"
      "a + obj_size X s 0 a + 16 \<le> obj \<or> obj + obj_size X s 0 obj + 16 \<le> a"
      using that obj layoutD by (auto simp: layout_ok_def)
    then show ?thesis using lock_entry_apart [OF X, of a obj s 0 s 0 0 0] by simp
  qed
  have "a \<in> set (mods ?r g) \<longleftrightarrow> write_locks ?r (get_write_lock_idx a) = of_nat g" if "a \<in> objs" "g \<in> {1..4}" for a g
  proof (cases "a = obj")
    case True
    then show ?thesis using of_nat_segment(1) [OF me that(2)] nobody [OF that(2)] by (auto simp: C(5,7))
  next
    case False
    have "a \<in> set (mods s g) \<longleftrightarrow> write_locks s (get_write_lock_idx a) = of_nat g"
      using lk that unfolding locks_ok_def by blast
    then show ?thesis using idx [OF that(1) False] False by (auto simp: C(5,7))
  qed
  moreover have "write_lock_num (segs ?r g) = of_nat g \<and> set (mods ?r g) \<subseteq> objs \<and> distinct (mods ?r g)" if "g \<in> {1..4}" for g
  proof -
    have "write_lock_num (segs s g) = of_nat g \<and> set (mods s g) \<subseteq> objs \<and> distinct (mods s g)"
      using lk that unfolding locks_ok_def by blast
    then show ?thesis using nobody [OF that] obj by (auto simp: C(5,6))
  qed
  ultimately show ?thesis unfolding locks_ok_def by blast
qed

lemma isolated_claim:
  assumes iso: "isolated X objs s" and me: "me \<in> {1..4}" and obj: "obj \<in> objs" and X: "cb_ok X"
    and free: "write_locks s (get_write_lock_idx obj) = 0"
  shows "isolated X objs (claim_object X me obj s)"
proof -
  let ?r = "claim_object X me obj s"
  note C = claim_form [OF iso me obj]
  note eq = same_view_funs [OF C(3)]
  have hdD: "heads_ok X objs s" and lay0: "layout_ok X objs s" using iso by (simp_all add: isolated_def)
  have lay: "layout_ok X objs ?r" using lay0 old_page_cong [OF C(2)] by (simp add: layout_ok_def object_pages_def eq)
  have hd: "heads_ok X objs ?r"
  proof (rule headsI)
    show "obj_size X ?r g a = obj_size X ?r 0 a" if "a \<in> objs" "g \<le> 4" for a g
      using headsD(4) [OF hdD that] that(2) by (simp only: eq(1) le0)
  qed (use headsD(1-3) [OF hdD] eq(2) in simp_all)
  have lk: "locks_ok objs ?r" by (rule claim_locks [OF iso me obj X free])
  have "is_private_page ?r g q" if g: "g \<in> {1..4}" and a: "a \<in> set (mods ?r g)" and q: "q \<in> object_pages X s a" for g a q
  proof -
    have "a \<in> objs" using lk g a unfolding locks_ok_def by blast
    then have op: "old_page s q" using lay0 q unfolding layout_ok_def by blast
    show ?thesis
    proof (cases "a \<in> set (mods s g)")
      case True
      then have "is_private_page s g q" using iso g q unfolding isolated_def own_ok_def by blast
      then show ?thesis using C(4) [OF g op] by simp
    next
      case False
      then have "g = me \<and> a = obj" using a by (simp add: C(5) split: if_splits)
      then show ?thesis using C(4) [OF g op] q by simp
    qed
  qed
  then have own: "own_ok X ?r" by (simp add: own_ok_def object_pages_def eq)
  have "vread ?r g x = vread ?r 0 x" if "g \<in> {1..4}" "a \<in> objs" "a \<notin> set (mods ?r g)" "x \<in> extent X s 0 a" for g a x
  proof -
    have "a \<notin> set (mods s g)" using that(3) by (simp add: C(5) split: if_splits)
    then show ?thesis using iso that C(3) unfolding isolated_def views_ok_def by simp
  qed
  then have vw: "views_ok X objs ?r" by (simp add: views_ok_def eq)
  show ?thesis using C(1) lay hd lk own vw by (simp add: isolated_def)
qed

section \<open>The write barrier\<close>

lemma flag_masks:
  fixes v :: u32
  shows "\<not> has_flag v GCFLAG_SMALL_UNIFORM \<Longrightarrow> \<not> has_flag (v AND m) GCFLAG_SMALL_UNIFORM"
    and "\<not> has_flag v GCFLAG_CARDS_SET \<Longrightarrow> \<not> has_flag (v AND m) GCFLAG_CARDS_SET"
    and "\<not> has_flag v GCFLAG_SMALL_UNIFORM \<Longrightarrow> \<not> has_flag (v OR GCFLAG_WRITE_BARRIER) GCFLAG_SMALL_UNIFORM"
    and "\<not> has_flag v GCFLAG_CARDS_SET \<Longrightarrow> \<not> has_flag (v OR GCFLAG_WRITE_BARRIER) GCFLAG_CARDS_SET"
    and "has_flag (v OR GCFLAG_WRITE_BARRIER) GCFLAG_WRITE_BARRIER"
    and "\<not> has_flag (v AND NOT (GCFLAG_WRITE_BARRIER OR GCFLAG_CARDS_SET)) GCFLAG_WRITE_BARRIER"
proof -
  have comm: "(v AND m) AND f = 0" if "v AND f = 0" for f :: u32
    using that by (metis and.assoc and.commute and_zero_eq)
  show "\<not> has_flag v GCFLAG_SMALL_UNIFORM \<Longrightarrow> \<not> has_flag (v AND m) GCFLAG_SMALL_UNIFORM"
    "\<not> has_flag v GCFLAG_CARDS_SET \<Longrightarrow> \<not> has_flag (v AND m) GCFLAG_CARDS_SET"
    unfolding has_flag_def using comm by blast+
  show "\<not> has_flag v GCFLAG_SMALL_UNIFORM \<Longrightarrow> \<not> has_flag (v OR GCFLAG_WRITE_BARRIER) GCFLAG_SMALL_UNIFORM"
    "\<not> has_flag v GCFLAG_CARDS_SET \<Longrightarrow> \<not> has_flag (v OR GCFLAG_WRITE_BARRIER) GCFLAG_CARDS_SET"
    by (simp_all add: has_flag_def gcflags bit.conj_disj_distrib2)
  have "(v OR 1) AND 1 = 1" by (rule bit_word_eqI) (auto simp: bit_and_iff bit_or_iff)
  then show "has_flag (v OR GCFLAG_WRITE_BARRIER) GCFLAG_WRITE_BARRIER" by (simp add: has_flag_def gcflags)
  have "(v AND NOT 9) AND 1 = 0" by (simp only: and.assoc) simp
  then show "\<not> has_flag (v AND NOT (GCFLAG_WRITE_BARRIER OR GCFLAG_CARDS_SET)) GCFLAG_WRITE_BARRIER"
    by (simp add: has_flag_def gcflags)
qed

lemma isolated_set_flags:
  assumes iso: "isolated X objs s" and me: "me \<in> {1..4}" and obj: "obj \<in> set (mods s me)" and X: "cb_ok X"
    and fl: "\<not> has_flag v GCFLAG_SMALL_UNIFORM" "\<not> has_flag v GCFLAG_CARDS_SET"
  shows "isolated X objs (set_stm_flags me obj v s)"
    and "\<And>h. h \<noteq> me \<Longrightarrow> vread (set_stm_flags me obj v s) h = vread s h"
    and "vread (set_stm_flags me obj v s) me x = (if obj \<le> x \<and> x < obj + 4 then byte_of32 v (x - obj) else vread s me x)"
proof -
  have o: "obj \<in> objs" using iso me obj unfolding isolated_def locks_ok_def by blast
  have hd: "heads_ok X objs s" using iso by (simp add: isolated_def)
  have r: "{obj..<obj + 4} \<subseteq> extent X s 0 obj" using cb_ok_size [OF X, of "obj_bytes s 0 obj"] by (auto simp: extent_def obj_size_def)
  note w = own_vfill [OF iso me obj r]
  show "\<And>h. h \<noteq> me \<Longrightarrow> vread (set_stm_flags me obj v s) h = vread s h"
    "vread (set_stm_flags me obj v s) me x = (if obj \<le> x \<and> x < obj + 4 then byte_of32 v (x - obj) else vread s me x)"
    by (auto simp: set_stm_flags_def vstore32_def w fun_eq_iff)
  have f: "stm_flags (vfill me obj 4 (\<lambda>x. byte_of32 v (x - obj)) s) me obj = v"
    using stm_flags_set [of me obj v s] by (simp add: set_stm_flags_def vstore32_def)
  have "obj_bytes s me obj i = obj_bytes (vfill me obj 4 (\<lambda>x. byte_of32 v (x - obj)) s) me obj i" if "4 \<le> i" for i
    using that by (simp add: obj_bytes_def w)
  then have "obj_size X (vfill me obj 4 (\<lambda>x. byte_of32 v (x - obj)) s) me obj = obj_size X s me obj"
    using cb_ok_content(1) [OF X] unfolding obj_size_def by blast
  then show "isolated X objs (set_stm_flags me obj v s)"
    using isolated_write [OF iso me obj r _ _ _ X] fl by (simp add: set_stm_flags_def vstore32_def f)
qed

lemma stm_read_start [simp]: "uninitialized_page_start (stm_read me obj s) = uninitialized_page_start s"
  by (simp add: stm_read_def)

lemma isolated_read:
  assumes "isolated X objs s"
  shows "isolated X objs (stm_read me obj s)"
  using assms maps_ok_cong [of "stm_read me obj s" s]
  by - (rule isolated_cong [where s = s, rotated 5]; simp add: isolated_def)

lemma isolated_upd_seg:
  assumes "isolated X objs s" and "\<And>p. modified_old_objects (f p) = modified_old_objects p"
    and "\<And>p. write_lock_num (f p) = write_lock_num p"
  shows "isolated X objs (upd_seg me f s)"
  using assms maps_ok_cong [of "upd_seg me f s" s]
  by - (rule isolated_cong [where s = s, rotated 5]; simp add: isolated_def segs_upd_seg)

text \<open>
  The barrier on an object that is free or already own: the object is in the list of modified
  objects, its flag is off, and nobody's view of the contents has changed.
\<close>

lemma owned_barrier:
  assumes iso: "isolated X objs s" and me: "me \<in> {1..4}" and obj: "obj \<in> set (mods s me)" and X: "cb_ok X"
  shows "isolated X objs (write_slowpath_owned X me obj False s)"
    and "mods (write_slowpath_owned X me obj False s) g = mods s g"
    and "\<not> has_flag (stm_flags (write_slowpath_owned X me obj False s) me obj) GCFLAG_WRITE_BARRIER"
    and "h \<le> 4 \<Longrightarrow> h \<noteq> me \<or> x \<notin> {obj..<obj + 4} \<Longrightarrow> vread (write_slowpath_owned X me obj False s) h x = vread s h x"
proof -
  define s1 where "s1 = (if objects_pointing_to_nursery (segs s me) \<noteq> None
      then upd_seg me (\<lambda>p. p\<lparr>objects_pointing_to_nursery := append_opt obj (objects_pointing_to_nursery p)\<rparr>) s else s)"
  have iso1: "isolated X objs s1" using iso by (auto simp: s1_def intro: isolated_upd_seg)
  have v1: "vread s1 = vread s" by (simp add: s1_def)
  have m1: "mods s1 g = mods s g" for g by (simp add: s1_def segs_upd_seg)
  have o: "obj \<in> objs" using iso me obj unfolding isolated_def locks_ok_def by blast
  have hd: "heads_ok X objs s1" using iso1 by (simp add: isolated_def)
  have le: "me \<le> 4" using me by simp
  note fl = headsD(2,3) [OF hd o le]
  let ?v = "stm_flags s1 me obj AND NOT (GCFLAG_WRITE_BARRIER OR GCFLAG_CARDS_SET)"
  have r: "write_slowpath_owned X me obj False s = set_stm_flags me obj ?v s1"
    using fl(2) by (simp add: write_slowpath_owned_def Let_def s1_def stm_flags_and_not_def cong: if_cong)
  have obj1: "obj \<in> set (mods s1 me)" using obj m1 by simp
  note sf = isolated_set_flags [OF iso1 me obj1 X flag_masks(1) [OF fl(1)] flag_masks(2) [OF fl(2)]]
  show "isolated X objs (write_slowpath_owned X me obj False s)" unfolding r by (rule sf(1))
  show "mods (write_slowpath_owned X me obj False s) g = mods s g" by (simp add: r m1)
  show "\<not> has_flag (stm_flags (write_slowpath_owned X me obj False s) me obj) GCFLAG_WRITE_BARRIER"
    unfolding r stm_flags_set by (rule flag_masks(6))
  show "h \<noteq> me \<or> x \<notin> {obj..<obj + 4} \<Longrightarrow> vread (write_slowpath_owned X me obj False s) h x = vread s h x"
    unfolding r using sf(2) [of h] sf(3) [where x = x] by (cases "h = me") (auto simp: v1)
qed

lemma barrier_ok:
  assumes iso: "isolated X objs s" and me: "me \<in> {1..4}" and obj: "obj \<in> objs" and X: "cb_ok X"
    and lock: "write_locks s (get_write_lock_idx obj) \<in> {0, of_nat me}"
    and old: "\<not> IS_OVERFLOW_OBJ s me (stm_flags s me obj)"
    and on: "has_flag (stm_flags s me obj) GCFLAG_WRITE_BARRIER"
  shows "\<exists>s'. stm_write (Suc n) X me obj s = Ret () s' \<and> isolated X objs s' \<and> obj \<in> set (mods s' me) \<and>
    (\<forall>g. g \<noteq> me \<longrightarrow> mods s' g = mods s g) \<and> set (mods s' me) = insert obj (set (mods s me)) \<and>
    \<not> has_flag (stm_flags s' me obj) GCFLAG_WRITE_BARRIER \<and>
    (\<forall>h \<le> 4. \<forall>x. h \<noteq> me \<or> x \<notin> {obj..<obj + 4} \<longrightarrow> vread s' h x = vread s h x)"
proof -
  let ?s = "stm_read me obj s"
  have iso1: "isolated X objs ?s" using iso by (rule isolated_read)
  have num: "write_lock_num (segs ?s me) = of_nat me" using iso me by (simp add: isolated_def locks_ok_def)
  have start: "stm_write (Suc n) X me obj s = write_slowpath_retry (Suc n) X me obj False ?s"
    using on old by (simp add: stm_write_def stm_write_slowpath_def write_slowpath_common_def)
  show ?thesis
  proof (cases "write_locks s (get_write_lock_idx obj) = 0")
    case True
    let ?t = "claim_object X me obj ?s"
    have run: "stm_write (Suc n) X me obj s = Ret () (write_slowpath_owned X me obj False ?t)"
      using True unfolding start by simp
    note c = claim_form [OF iso1 me obj]
    have iso2: "isolated X objs ?t" by (rule isolated_claim [OF iso1 me obj X]) (simp add: True)
    have "obj \<in> set (mods ?t me)" by (simp add: c(5))
    note ow = owned_barrier [OF iso2 me this X]
    show ?thesis using c(3,5) ow by (intro exI [of _ "write_slowpath_owned X me obj False ?t"] conjI) (simp_all add: run)
  next
    case False
    then have own: "write_locks s (get_write_lock_idx obj) = of_nat me" using lock by simp
    have run: "stm_write (Suc n) X me obj s = Ret () (write_slowpath_owned X me obj False ?s)"
      using False own num unfolding start by (simp add: Let_def)
    have "locks_ok objs s" using iso by (simp add: isolated_def)
    then have "obj \<in> set (mods ?s me)" using me obj own unfolding locks_ok_def by simp
    note ow = owned_barrier [OF iso1 me this X]
    then show ?thesis using \<open>obj \<in> set (mods ?s me)\<close>
      by (intro exI [of _ "write_slowpath_owned X me obj False ?s"] conjI) (auto simp: run)
  qed
qed

section \<open>Commit\<close>

lemma apart_indexes:
  assumes lay: "layout_ok X objs s" and X: "cb_ok X" and ab: "a \<in> objs" "b \<in> objs" "a \<noteq> b"
    and sz: "obj_size X s' h b = obj_size X s 0 b" "obj_size X s g a = obj_size X s 0 a"
    and c: "c = 0 \<or> obj_should_use_cards X s g a \<and> c \<le> last_card_index X s g a"
    and d: "d = 0 \<or> obj_should_use_cards X s' h b \<and> d \<le> last_card_index X s' h b"
  shows "get_write_lock_idx a + c \<noteq> get_write_lock_idx b + d"
proof -
  have "WRITELOCK_START * 16 \<le> a" "WRITELOCK_START * 16 \<le> b" using lay ab by (simp_all add: layout_ok_def)
  moreover have "a + obj_size X s g a + 16 \<le> b \<or> b + obj_size X s' h b + 16 \<le> a"
    using layoutD [OF lay ab] unfolding sz .
  ultimately show ?thesis using lock_entry_apart [OF X _ _ _ c d] by blast
qed

lemma not_a_card:
  assumes lay: "layout_ok X objs s" and X: "cb_ok X" and ab: "a \<in> objs" "b \<in> objs"
    and sz: "obj_size X s g b = obj_size X s 0 b" and cards: "obj_should_use_cards X s g b"
  shows "get_write_lock_idx a \<notin> card_range X s g b"
proof (cases "a = b")
  case True
  then show ?thesis by (simp add: card_range_def)
next
  case False
  have "get_write_lock_idx a + 0 \<noteq> get_write_lock_idx b + d" if "d \<le> last_card_index X s g b" for d
    by (rule apart_indexes [OF lay X ab False sz refl]) (use cards that in auto)
  then show ?thesis unfolding card_range_iff by auto
qed

lemma mem_only_isolated:
  assumes "mem_only s s'"
  shows "maps_ok s' = maps_ok s" and "mods s' g = mods s g" and "write_lock_num (segs s' g) = write_lock_num (segs s g)"
    and "is_private_page s' = is_private_page s" and "uninitialized_page_start s' = uninitialized_page_start s"
proof -
  have e: "by_segment s' = by_segment s" "remap s' = remap s" "uninitialized_page_start s' = uninitialized_page_start s"
    using assms unfolding mem_only_def by (cases s; cases s'; simp)+
  show "maps_ok s' = maps_ok s" by (rule maps_ok_cong) (fact e)+
  show "is_private_page s' = is_private_page s" by (rule bits_cong) (fact e)
  show "uninitialized_page_start s' = uninitialized_page_start s" by (fact e)
  show "mods s' g = mods s g" "write_lock_num (segs s' g) = write_lock_num (segs s g)"
    by (simp_all add: mem_only_segs [OF assms])
qed

text \<open>
  A step that takes all the modified objects of \<open>g\<close> away from it, and after which everybody
  sees the same in them: what commit and abort have in common. \<open>src\<close> is the version that
  stays.
\<close>

lemma isolated_release:
  assumes iso: "isolated X objs s" and g: "g \<in> {1..4}" and X: "cb_ok X" and src: "src \<in> {0, g}"
    and m: "mem_only s t" and s': "s' = upd_seg g (\<lambda>p. p\<lparr>modified_old_objects := [], modified_old_objects_markers := []\<rparr>) t"
    and inside: "\<And>a x h. a \<in> set (mods s g) \<Longrightarrow> x \<in> extent X s 0 a \<Longrightarrow> h \<le> 4 \<Longrightarrow> vread t h x = vread s src x"
    and outside: "\<And>x h. (\<And>a. a \<in> set (mods s g) \<Longrightarrow> x \<notin> extent X s 0 a) \<Longrightarrow> h \<le> 4 \<Longrightarrow> vread t h x = vread s h x"
    and freed: "\<And>a. a \<in> set (mods s g) \<Longrightarrow> write_locks t (get_write_lock_idx a) = 0"
    and kept: "\<And>a. a \<in> objs \<Longrightarrow> a \<notin> set (mods s g) \<Longrightarrow>
      write_locks t (get_write_lock_idx a) = write_locks s (get_write_lock_idx a)"
    and wb: "\<And>a. a \<in> set (mods s g) \<Longrightarrow> has_flag (stm_flags s src a) GCFLAG_WRITE_BARRIER"
  shows "isolated X objs s'"
proof -
  have v: "vread s' = vread t" by (simp add: s')
  note mo = mem_only_isolated [OF m]
  have hdD: "heads_ok X objs s" and lay: "layout_ok X objs s" and lk: "locks_ok objs s" using iso by (simp_all add: isolated_def)
  have sub: "set (mods s g) \<subseteq> objs" using lk g unfolding locks_ok_def by blast
  have src4: "src \<le> 4" using src g by auto
  have out: "vread s' h x = vread s h x" if "a \<in> objs" "a \<notin> set (mods s g)" "x \<in> extent X s 0 a" "h \<le> 4" for a x h
  proof -
    have "x \<notin> extent X s 0 b" if b: "b \<in> set (mods s g)" for b
    proof -
      have "a + obj_size X s 0 a + 16 \<le> b \<or> b + obj_size X s 0 b + 16 \<le> a"
        by (rule layoutD [OF lay \<open>a \<in> objs\<close>]) (use b sub \<open>a \<notin> set (mods s g)\<close> in auto)
      then show ?thesis using \<open>x \<in> extent X s 0 a\<close> by (auto simp: extent_def)
    qed
    then show ?thesis using outside that(4) v by simp
  qed
  have inn: "vread s' h x = vread s src x" if "a \<in> set (mods s g)" "x \<in> extent X s 0 a" "h \<le> 4" for a x h
    using inside that v by simp
  have sizes: "obj_size X s h a = obj_size X s 0 a" if "a \<in> objs" "h \<le> 4" for a h by (rule headsD(4) [OF hdD that])
  have ext: "extent X s h a = extent X s 0 a" if "a \<in> objs" "h \<le> 4" for a h using sizes [OF that] by (simp add: extent_def)
  have obj: "obj_size X s' h a = obj_size X s 0 a \<and> stm_flags s' h a = stm_flags s (if a \<in> set (mods s g) then src else h) a"
    if "a \<in> objs" "h \<le> 4" for a h
  proof -
    let ?h = "if a \<in> set (mods s g) then src else h"
    have h4: "?h \<le> 4" using src4 \<open>h \<le> 4\<close> by simp
    have "vread s' h x = vread s ?h x" if x: "x \<in> extent X s ?h a" for x
    proof -
      have x0: "x \<in> extent X s 0 a" using x ext [OF \<open>a \<in> objs\<close> h4] by blast
      show ?thesis
      proof (cases "a \<in> set (mods s g)")
        case True
        then show ?thesis using inn [OF True x0 \<open>h \<le> 4\<close>] by simp
      next
        case False
        then show ?thesis using out [OF \<open>a \<in> objs\<close> False x0 \<open>h \<le> 4\<close>] by simp
      qed
    qed
    note ag = agree_object(1,2) [where X = X and a = a, OF X this]
    show ?thesis using ag(1) sizes [OF that(1) h4] by (intro conjI ag(2)) (rule trans)
  qed
  have ext': "extent X s' 0 a = extent X s 0 a" if "a \<in> objs" for a using obj [OF that, of 0] by (simp add: extent_def)
  have md: "mods s' h = (if h = g then [] else mods s h)" for h by (simp add: s' segs_upd_seg mo)
  have maps: "maps_ok s'" using iso mo(1) maps_ok_cong [of s' t] by (simp add: s' isolated_def)
  have sz0: "obj_size X s' 0 a = obj_size X s 0 a" if "a \<in> objs" for a using obj [OF that, of 0] by simp
  have up: "old_page s' = old_page s" by (rule old_page_cong) (simp add: s' mo)
  have lay': "layout_ok X objs s'" using lay unfolding layout_ok_def by (simp add: sz0 object_pages_def up)
  have hd: "heads_ok X objs s'"
  proof (rule headsI)
    show "has_flag (stm_flags s' 0 a) GCFLAG_WRITE_BARRIER" if "a \<in> objs" for a
      using obj [OF that, of 0] wb [of a] headsD(1) [OF hdD that] by auto
    show "\<not> has_flag (stm_flags s' h a) GCFLAG_SMALL_UNIFORM" "\<not> has_flag (stm_flags s' h a) GCFLAG_CARDS_SET"
      "obj_size X s' h a = obj_size X s' 0 a" if "a \<in> objs" "h \<le> 4" for a h
      using obj [OF that] obj [OF that(1), of 0] headsD(2,3) [OF hdD that(1)] src4 that(2) by auto
  qed
  have nl: "write_lock_num (segs s' h) = write_lock_num (segs s h)" for h by (simp add: s' segs_upd_seg mo)
  have wl: "write_locks s' = write_locks t" by (simp add: s')
  have "a \<in> set (mods s' h) \<longleftrightarrow> write_locks s' (get_write_lock_idx a) = of_nat h" if a: "a \<in> objs" and h: "h \<in> {1..4}" for a h
  proof (cases "a \<in> set (mods s g)")
    case True
    then have "write_locks s' (get_write_lock_idx a) \<noteq> of_nat h" using freed of_nat_segment(2) [OF h] wl by simp
    moreover have "h \<noteq> g \<Longrightarrow> a \<notin> set (mods s h)" using one_owner [OF lk g h True] by blast
    ultimately show ?thesis by (auto simp: md)
  next
    case False
    then show ?thesis using kept [OF a False] lk a h wl unfolding locks_ok_def by (auto simp: md)
  qed
  moreover have "write_lock_num (segs s' h) = of_nat h \<and> set (mods s' h) \<subseteq> objs \<and> distinct (mods s' h)" if "h \<in> {1..4}" for h
    using lk that unfolding locks_ok_def by (simp add: md nl)
  ultimately have lk': "locks_ok objs s'" unfolding locks_ok_def by blast
  have pr: "is_private_page s' = is_private_page s" by (simp add: s' mo)
  have "is_private_page s' h p" if "h \<in> {1..4}" "a \<in> set (mods s' h)" "p \<in> object_pages X s' a" for h a p
  proof -
    have a: "a \<in> set (mods s h)" using that(2) by (simp add: md split: if_splits)
    then have "a \<in> objs" using lk that(1) unfolding locks_ok_def by blast
    then have "p \<in> object_pages X s a" using that(3) sz0 by (simp add: object_pages_def)
    then show ?thesis using iso that(1) a unfolding isolated_def own_ok_def pr by blast
  qed
  then have own: "own_ok X s'" unfolding own_ok_def by blast
  have "vread s' h x = vread s' 0 x" if "h \<in> {1..4}" "a \<in> objs" "a \<notin> set (mods s' h)" "x \<in> extent X s 0 a" for h a x
  proof (cases "a \<in> set (mods s g)")
    case True
    then show ?thesis using inn [OF True that(4)] that(1) by simp
  next
    case False
    then have "a \<notin> set (mods s h)" using that(3) by (auto simp: md split: if_splits)
    then have "vread s h x = vread s 0 x" using iso that unfolding isolated_def views_ok_def by blast
    then show ?thesis using out [OF that(2) False that(4)] that(1) by simp
  qed
  then have vw: "views_ok X objs s'" unfolding views_ok_def using ext' by simp
  show ?thesis using maps lay' hd lk' own vw by (simp add: isolated_def)
qed

text \<open>
  The commit's copying. Its modified objects have their flag on again (the minor collection of
  the commit sets it), and the changes to an object with cards are covered by its marked cards.
\<close>

definition committable :: "ext \<Rightarrow> stm \<Rightarrow> nat \<Rightarrow> bool" where
  "committable X s me \<longleftrightarrow> (\<forall>a \<in> set (mods s me).
     has_flag (stm_flags s me a) GCFLAG_WRITE_BARRIER \<and> changes_covered X s me a False)"

lemma push_form:
  assumes "foreach_res (rev (mods s me)) (push_one X me) s = Ret () t"
  shows "push_modified_to_other_segments X me s =
    Ret () (upd_seg me (\<lambda>p. p\<lparr>modified_old_objects := [], modified_old_objects_markers := []\<rparr>) t)"
  using assms
  by (simp add: push_modified_to_other_segments_def push_one_def [abs_def] get_write_lock_idx_def Let_def)

lemma commit_ok:
  assumes iso: "isolated X objs s" and me: "me \<in> {1..4}" and X: "cb_ok X" and ok: "committable X s me"
  shows "\<exists>s'. push_modified_to_other_segments X me s = Ret () s' \<and> isolated X objs s' \<and>
    mods s' me = [] \<and> (\<forall>g. g \<noteq> me \<longrightarrow> mods s' g = mods s g) \<and>
    (\<forall>h \<le> 4. \<forall>x. vread s' h x = (if x \<in> (\<Union>a \<in> set (mods s me). extent X s 0 a) then vread s me x else vread s h x))"
proof -
  let ?ms = "mods s me"
  have hdD: "heads_ok X objs s" and lay: "layout_ok X objs s" and lk: "locks_ok objs s" using iso by (simp_all add: isolated_def)
  have sub: "set ?ms \<subseteq> objs" and dist: "distinct ?ms" using lk me unfolding locks_ok_def by blast+
  have me4: "me \<le> 4" using me by simp
  have size: "obj_size X s me a = obj_size X s 0 a" if "a \<in> set ?ms" for a using headsD(4) [OF hdD _ me4] that sub by blast
  have ext: "extent X s me a = extent X s 0 a" if "a \<in> set ?ms" for a using size [OF that] by (simp add: extent_def)
  have start: "WRITELOCK_START * 16 \<le> a" if "a \<in> set ?ms" for a using lay that sub by (auto simp: layout_ok_def)
  have "separated X s me ?ms"
    unfolding separated_def using dist start layoutD [OF lay] sub by (simp add: size subset_iff)
  moreover have "publishable X s me a" if a: "a \<in> set ?ms" for a
    unfolding publishable_def
  proof (intro conjI allI impI)
    have "a \<in> objs" using a sub by blast
    note isolated_mapped [OF iso this]
    then show "obj_mapped X s me a" by (simp add: obj_mapped_def object_pages_def size [OF a])
    show "\<not> has_flag (stm_flags s me a) GCFLAG_SMALL_UNIFORM" "\<not> has_flag (stm_flags s me a) GCFLAG_CARDS_SET"
      using headsD(2,3) [OF hdD _ me4] a sub by blast+
    show "changes_covered X s me a False" using ok a unfolding committable_def by blast
    fix g x
    assume g: "g \<le> 4" "g \<noteq> me" and x: "x \<in> extent X s me a"
    show "vread s g x = vread s 0 x"
    proof (cases "g = 0")
      case False
      then have g1: "g \<in> {1..4}" using g by simp
      then have "a \<notin> set (mods s g)" using one_owner [OF lk g1 me] a g(2) by blast
      then show ?thesis using iso g1 a sub x ext [OF a] unfolding isolated_def views_ok_def by blast
    qed simp
  qed
  ultimately obtain t where t: "foreach_res (rev ?ms) (push_one X me) s = Ret () t"
    "published s me (\<Union>a \<in> set ?ms. extent X s me a) t" "mem_only s t"
    "\<And>a. a \<in> set ?ms \<Longrightarrow> write_locks t (get_write_lock_idx a) = 0"
    "\<And>i. (\<And>a. a \<in> set ?ms \<Longrightarrow> i \<noteq> get_write_lock_idx a \<and>
         (obj_should_use_cards X s me a \<longrightarrow> i \<notin> card_range X s me a)) \<Longrightarrow> write_locks t i = write_locks s i"
    using push_loop [OF me X, of s "rev ?ms"] by (auto simp: separated_def)
  let ?s = "upd_seg me (\<lambda>p. p\<lparr>modified_old_objects := [], modified_old_objects_markers := []\<rparr>) t"
  have R: "(\<Union>a \<in> set ?ms. extent X s me a) = (\<Union>a \<in> set ?ms. extent X s 0 a)" using ext by simp
  have v: "vread t h x = (if x \<in> (\<Union>a \<in> set ?ms. extent X s 0 a) then vread s me x else vread s h x)" if "h \<le> 4" for h x
    using publishedD [OF t(2) that, of x] unfolding R .
  have "isolated X objs ?s"
  proof (rule isolated_release [OF iso me X _ t(3) refl, where src = me])
    show "write_locks t (get_write_lock_idx a) = write_locks s (get_write_lock_idx a)" if a: "a \<in> objs" "a \<notin> set ?ms" for a
    proof (rule t(5))
      fix b
      assume b: "b \<in> set ?ms"
      have "get_write_lock_idx a + 0 \<noteq> get_write_lock_idx b + 0"
        by (rule apart_indexes [OF lay X a(1) _ _ refl refl]) (use a b sub in auto)
      then show "get_write_lock_idx a \<noteq> get_write_lock_idx b \<and>
          (obj_should_use_cards X s me b \<longrightarrow> get_write_lock_idx a \<notin> card_range X s me b)"
        using not_a_card [OF lay X a(1) _ size [OF b]] b sub by auto
    qed
    show "has_flag (stm_flags s me a) GCFLAG_WRITE_BARRIER" if "a \<in> set ?ms" for a
      using ok that unfolding committable_def by blast
  qed (use v t(4) in auto)
  then show ?thesis using push_form [OF t(1)] v mem_only_isolated(2) [OF t(3)]
    by (intro exI [of _ ?s]) (simp add: segs_upd_seg)
qed

section \<open>Abort\<close>

lemma reset_locks:
  assumes X: "cb_ok X" and me: "me \<le> 4" and g: "g \<in> {1..4}"
  shows "remap_dom s \<Longrightarrow> (\<forall>a \<in> set as. me = g \<or> (\<forall>x \<in> extent X s 0 a. vread s me x = vread s 0 x)) \<Longrightarrow>
    (\<forall>a \<in> set as. \<not> has_flag (stm_flags s 0 a) GCFLAG_CARDS_SET) \<Longrightarrow>
    (\<forall>a \<in> set as. i \<noteq> get_write_lock_idx a \<and> (obj_should_use_cards X s 0 a \<longrightarrow> i \<notin> card_range X s 0 a)) \<Longrightarrow>
    write_locks (fold (reset_modified_object X me g) as s) i = write_locks s i"
proof (induction as arbitrary: s)
  case (Cons a as)
  let ?c = "memcpy g a 0 a (obj_size X s 0 a) s"
  let ?r = "reset_modified_object X me g a s"
  have nf: "\<not> has_flag (stm_flags s 0 a) GCFLAG_CARDS_SET" using Cons.prems(3) by simp
  note sp = reset_modified_object_spec [OF X Cons.prems(1) nf, of me g]
  have v0: "vread ?r 0 = vread s 0" using sp(1) [of 0] g by (auto simp: fun_eq_iff)
  note eq = same_view_object [OF v0]
  have dom: "remap_dom ?r" using Cons.prems(1) remap_dom_cong [OF mem_only_remap [OF sp(2)]] by simp
  have vm: "vread ?r me x = (if me = g \<and> x \<in> extent X s 0 a then vread s 0 x else vread s me x)" for x by (rule sp(1))
  have here: "vread ?c me x = vread s 0 x" if "x \<in> extent X s 0 a" for x
    using that Cons.prems(2) unfolding vread_copy_shared [OF Cons.prems(1)] by (auto simp: extent_def)
  have hereg: "vread ?c g x = vread s 0 x" if "x \<in> extent X s 0 a" for x
    using that unfolding vread_copy_shared [OF Cons.prems(1)] by (auto simp: extent_def)
  have u: "obj_should_use_cards X ?c me a = obj_should_use_cards X s 0 a" by (rule agree_object(3) [OF X here])
  have l: "card_range X ?c g a = card_range X s 0 a"
    using agree_object(4) [OF X hereg] by (simp add: card_range_def)
  have "write_locks ?r i = write_locks s i"
  proof -
    have i: "i \<noteq> get_write_lock_idx a" "obj_should_use_cards X s 0 a \<Longrightarrow> i \<notin> card_range X s 0 a" using Cons.prems(4) by simp_all
    then show ?thesis unfolding reset_modified_object_def Let_def
      by (cases "obj_should_use_cards X s 0 a") (simp_all add: u reset_object_cards_write_locks l get_write_lock_idx_def)
  qed
  moreover have "write_locks (fold (reset_modified_object X me g) as ?r) i = write_locks ?r i"
  proof (rule Cons.IH [OF dom])
    show "\<forall>a \<in> set as. me = g \<or> (\<forall>x \<in> extent X ?r 0 a. vread ?r me x = vread ?r 0 x)"
      using Cons.prems(2) by (auto simp: eq vm v0)
    show "\<forall>a \<in> set as. \<not> has_flag (stm_flags ?r 0 a) GCFLAG_CARDS_SET" using Cons.prems(3) by (simp add: eq)
    show "\<forall>a \<in> set as. i \<noteq> get_write_lock_idx a \<and> (obj_should_use_cards X ?r 0 a \<longrightarrow> i \<notin> card_range X ?r 0 a)"
      using Cons.prems(4) by (simp add: eq card_range_def)
  qed
  ultimately show ?case by simp
qed simp

lemma abort_ok:
  assumes iso: "isolated X objs s" and me: "me \<in> {1..4}" and g: "g \<in> {1..4}" and X: "cb_ok X"
  defines "s' \<equiv> reset_modified_from_other_segments X me g s"
  shows "isolated X objs s'" and "mods s' h = (if h = g then [] else mods s h)"
    and "h \<le> 4 \<Longrightarrow> vread s' h x = (if h = g \<and> x \<in> (\<Union>a \<in> set (mods s g). extent X s 0 a) then vread s 0 x else vread s h x)"
proof -
  let ?ms = "mods s g"
  define t where "t = fold (reset_modified_object X me g) (rev ?ms) s"
  have hdD: "heads_ok X objs s" and lay: "layout_ok X objs s" and lk: "locks_ok objs s" using iso by (simp_all add: isolated_def)
  have sub: "set ?ms \<subseteq> objs" using lk g unfolding locks_ok_def by blast
  have dom: "remap_dom s" using iso by (simp add: isolated_def maps_ok_def)
  have nf: "\<forall>a \<in> set (rev ?ms). \<not> has_flag (stm_flags s 0 a) GCFLAG_CARDS_SET" using headsD(3) [OF hdD, of _ 0] sub by auto
  have g0: "g \<noteq> 0" using g by simp
  note loop = reset_loop [OF X g0 dom nf, of me, folded t_def]
  have v: "vread t h x = (if h = g \<and> x \<in> (\<Union>a \<in> set ?ms. extent X s 0 a) then vread s 0 x else vread s h x)" for h x
    using loop by simp
  have m: "mem_only s t" using loop by blast
  have free: "write_locks t (get_write_lock_idx a) = 0" if "a \<in> set ?ms" for a using loop that by simp
  have s': "s' = upd_seg g (\<lambda>p. p\<lparr>modified_old_objects := [], modified_old_objects_markers := []\<rparr>) t"
    by (simp add: s'_def t_def reset_modified_from_other_segments_def foreach_r_def)
  show "mods s' h = (if h = g then [] else mods s h)" by (simp add: s' segs_upd_seg mem_only_isolated(2) [OF m])
  show "h \<le> 4 \<Longrightarrow> vread s' h x = (if h = g \<and> x \<in> (\<Union>a \<in> set ?ms. extent X s 0 a) then vread s 0 x else vread s h x)"
    by (simp add: s' v)
  have agree: "vread s h x = vread s 0 x" if "a \<in> set ?ms" "x \<in> extent X s 0 a" "h \<le> 4" "h \<noteq> g" for a x h
  proof (cases "h = 0")
    case False
    then have h: "h \<in> {1..4}" using that by simp
    then have "a \<notin> set (mods s h)" using one_owner [OF lk h g] that by blast
    then show ?thesis using iso h that sub unfolding isolated_def views_ok_def by blast
  qed simp
  have "isolated X objs s'"
  proof (rule isolated_release [OF iso g X _ m s', where src = 0])
    show "vread t h x = vread s 0 x" if "a \<in> set ?ms" "x \<in> extent X s 0 a" "h \<le> 4" for a x h
      using v [of h x] agree [OF that] that by auto
    show "write_locks t (get_write_lock_idx a) = write_locks s (get_write_lock_idx a)" if a: "a \<in> objs" "a \<notin> set ?ms" for a
      unfolding t_def
    proof (rule reset_locks [OF X _ g dom _ nf])
      show "\<forall>b \<in> set (rev ?ms). me = g \<or> (\<forall>x \<in> extent X s 0 b. vread s me x = vread s 0 x)"
        using agree me by auto
      have "get_write_lock_idx a \<noteq> get_write_lock_idx b" if b: "b \<in> set ?ms" for b
      proof -
        have "get_write_lock_idx a + 0 \<noteq> get_write_lock_idx b + 0"
          by (rule apart_indexes [OF lay X a(1) _ _ refl refl]) (use a b sub in auto)
        then show ?thesis by simp
      qed
      then show "\<forall>b \<in> set (rev ?ms). get_write_lock_idx a \<noteq> get_write_lock_idx b \<and>
          (obj_should_use_cards X s 0 b \<longrightarrow> get_write_lock_idx a \<notin> card_range X s 0 b)"
        using not_a_card [OF lay X a(1) _ refl] sub by auto
    qed (use me in simp)
    show "has_flag (stm_flags s 0 a) GCFLAG_WRITE_BARRIER" if "a \<in> set ?ms" for a
      using headsD(1) [OF hdD] sub that by blast
  qed (use v free in auto)
  then show "isolated X objs s'" .
qed

end
