(* ===== verification/Refine.thy ===== *)
theory Refine
  imports Isolation
begin

text \<open>
  The transition system of the old objects, its invariant, and the abstract machine that it
  implements: a shared heap, a view for every segment, and the set of objects it owns. The
  abstract machine knows no pages, no locks and no copies.
\<close>

section \<open>The concrete steps\<close>

datatype action = Read | Acquire nat | Write nat | Rearm | Commit | Undo nat

text \<open>
  Segment \<open>me\<close> runs the read barrier; the write barrier on an object that no other segment
  has locked; stores to an object whose flag is off, which do not change its size; sets the
  flag of an own object again; copies its changes when it commits; or undoes the changes of
  \<open>g\<close>, its own or those of another segment it aborts.
\<close>

inductive obj_step :: "ext \<Rightarrow> nat set \<Rightarrow> nat \<Rightarrow> action \<Rightarrow> stm \<Rightarrow> stm \<Rightarrow> bool"
  for X objs where
  step_read: "me \<in> {1..4} \<Longrightarrow> obj_step X objs me Read s (stm_read me obj s)"
| step_barrier: "me \<in> {1..4} \<Longrightarrow> obj \<in> objs \<Longrightarrow> write_locks s (get_write_lock_idx obj) \<in> {0, of_nat me} \<Longrightarrow>
    \<not> IS_OVERFLOW_OBJ s me (stm_flags s me obj) \<Longrightarrow> stm_write fuel X me obj s = Ret () s' \<Longrightarrow>
    obj_step X objs me (Acquire obj) s s'"
| step_store: "me \<in> {1..4} \<Longrightarrow> obj \<in> objs \<Longrightarrow> \<not> has_flag (stm_flags s me obj) GCFLAG_WRITE_BARRIER \<Longrightarrow>
    {a..<a + n} \<subseteq> {obj + 4..<obj + obj_size X s me obj} \<Longrightarrow>
    obj_size X (vfill me a n f s) me obj = obj_size X s me obj \<Longrightarrow>
    obj_step X objs me (Write obj) s (vfill me a n f s)"
| step_rearm: "me \<in> {1..4} \<Longrightarrow> obj \<in> set (mods s me) \<Longrightarrow>
    obj_step X objs me Rearm s (stm_flags_or me obj GCFLAG_WRITE_BARRIER s)"
| step_commit: "me \<in> {1..4} \<Longrightarrow> committable X s me \<Longrightarrow> push_modified_to_other_segments X me s = Ret () s' \<Longrightarrow>
    obj_step X objs me Commit s s'"
| step_undo: "me \<in> {1..4} \<Longrightarrow> g \<in> {1..4} \<Longrightarrow>
    obj_step X objs me (Undo g) s (reset_modified_from_other_segments X me g s)"

inductive_cases obj_step_cases: "obj_step X objs me act s s'"

section \<open>The abstract machine\<close>

record heap_spec =
  shared :: "nat \<Rightarrow> u8"
  view :: "nat \<Rightarrow> nat \<Rightarrow> u8"
  own :: "nat \<Rightarrow> nat set"

text \<open>The contents of an object, after its \<open>stm_flags\<close>; \<open>sz\<close> gives the sizes.\<close>

definition content :: "(nat \<Rightarrow> nat) \<Rightarrow> nat \<Rightarrow> nat set" where
  "content sz a = {a + 4..<a + sz a}"

definition contents :: "(nat \<Rightarrow> nat) \<Rightarrow> nat set \<Rightarrow> nat set" where
  "contents sz A = (\<Union>a \<in> A. content sz a)"

inductive spec_step :: "(nat \<Rightarrow> nat) \<Rightarrow> nat \<Rightarrow> action \<Rightarrow> heap_spec \<Rightarrow> heap_spec \<Rightarrow> bool"
  for sz where
  "spec_step sz me Read h h"
| "spec_step sz me Rearm h h"
| "(\<And>g. g \<noteq> me \<Longrightarrow> obj \<notin> own h g) \<Longrightarrow>
   spec_step sz me (Acquire obj) h (h\<lparr>own := (own h)(me := insert obj (own h me))\<rparr>)"
| "obj \<in> own h me \<Longrightarrow> A \<subseteq> content sz obj \<Longrightarrow>
   spec_step sz me (Write obj) h (h\<lparr>view := (view h)(me := (\<lambda>x. if x \<in> A then f x else view h me x))\<rparr>)"
| "spec_step sz me Commit h
     (h\<lparr>shared := (\<lambda>x. if x \<in> contents sz (own h me) then view h me x else shared h x),
        view := (\<lambda>g x. if g \<in> {1..4} \<and> x \<in> contents sz (own h me) then view h me x else view h g x),
        own := (own h)(me := {})\<rparr>)"
| "spec_step sz me (Undo g) h
     (h\<lparr>view := (view h)(g := (\<lambda>x. if x \<in> contents sz (own h g) then shared h x else view h g x)),
        own := (own h)(g := {})\<rparr>)"

section \<open>The abstraction\<close>

definition heap_abs :: "(nat \<Rightarrow> nat) \<Rightarrow> nat set \<Rightarrow> stm \<Rightarrow> heap_spec" where
  "heap_abs sz objs s =
     \<lparr>shared = (\<lambda>x. if x \<in> contents sz objs then vread s 0 x else 0),
      view = (\<lambda>g x. if g \<in> {1..4} \<and> x \<in> contents sz objs then vread s g x else 0),
      own = (\<lambda>g. if g \<in> {1..4} then set (mods s g) else {})\<rparr>"

definition sized :: "ext \<Rightarrow> nat set \<Rightarrow> (nat \<Rightarrow> nat) \<Rightarrow> stm \<Rightarrow> bool" where
  "sized X objs sz s \<longleftrightarrow> (\<forall>a \<in> objs. obj_size X s 0 a = sz a)"

text \<open>The flag of an object is on unless the segment owns it.\<close>

lemma flag_off_owned:
  assumes iso: "isolated X objs s" and g: "g \<in> {1..4}" and a: "a \<in> objs" and X: "cb_ok X"
    and off: "\<not> has_flag (stm_flags s g a) GCFLAG_WRITE_BARRIER"
  shows "a \<in> set (mods s g)"
proof (rule ccontr)
  assume "a \<notin> set (mods s g)"
  then have "vread s g x = vread s 0 x" if "x \<in> extent X s 0 a" for x
    using iso g a that unfolding isolated_def views_ok_def by blast
  then have "stm_flags s g a = stm_flags s 0 a" by (rule agree_object(2) [OF X])
  then show False using off headsD(1) [of X objs s a] iso a by (simp add: isolated_def)
qed

lemma content_extent: "sized X objs sz s \<Longrightarrow> a \<in> objs \<Longrightarrow> x \<in> content sz a \<Longrightarrow> x \<in> extent X s 0 a"
  by (auto simp: sized_def content_def extent_def)

lemma content_not_head:
  assumes "layout_ok X objs s" and "sized X objs sz s" and "a \<in> objs" and "x \<in> contents sz objs"
  shows "x \<notin> {a..<a + 4}"
proof -
  obtain b where b: "b \<in> objs" "x \<in> content sz b" using assms(4) by (auto simp: contents_def)
  show ?thesis
  proof (cases "a = b")
    case True
    then show ?thesis using b by (auto simp: content_def)
  next
    case False
    from layoutD [OF assms(1) assms(3) b(1) this] show ?thesis using b assms(2,3) by (auto simp: content_def sized_def)
  qed
qed

text \<open>The bytes of the owned objects, among all the contents, are their contents.\<close>

lemma own_bytes:
  assumes lay: "layout_ok X objs s" and sz: "sized X objs sz s" and A: "A \<subseteq> objs" and x: "x \<in> contents sz objs"
  shows "x \<in> (\<Union>a \<in> A. extent X s 0 a) \<longleftrightarrow> x \<in> contents sz A"
proof
  assume "x \<in> (\<Union>a \<in> A. extent X s 0 a)"
  then obtain a where a: "a \<in> A" "x \<in> extent X s 0 a" by blast
  have "x \<notin> {a..<a + 4}" using content_not_head [OF lay sz _ x] a A by blast
  then have "x \<in> content sz a" using a A sz by (auto simp: content_def extent_def sized_def)
  then show "x \<in> contents sz A" using a by (auto simp: contents_def)
next
  assume "x \<in> contents sz A"
  then show "x \<in> (\<Union>a \<in> A. extent X s 0 a)" using content_extent [OF sz] A by (auto simp: contents_def)
qed

lemma contents_mono: "A \<subseteq> B \<Longrightarrow> contents sz A \<subseteq> contents sz B"
  by (auto simp: contents_def)

lemma owned_objs: "isolated X objs s \<Longrightarrow> g \<in> {1..4} \<Longrightarrow> set (mods s g) \<subseteq> objs"
  unfolding isolated_def locks_ok_def by blast

text \<open>Abstractions are equal when owners and visible contents are.\<close>

lemma heap_absI:
  assumes "\<And>x. x \<in> contents sz objs \<Longrightarrow> vread s 0 x = shared h x" and "\<And>x. x \<notin> contents sz objs \<Longrightarrow> shared h x = 0"
    and "\<And>g x. g \<in> {1..4} \<Longrightarrow> x \<in> contents sz objs \<Longrightarrow> vread s g x = view h g x"
    and "\<And>g x. g \<notin> {1..4} \<or> x \<notin> contents sz objs \<Longrightarrow> view h g x = 0"
    and "\<And>g. g \<in> {1..4} \<Longrightarrow> set (mods s g) = own h g" and "\<And>g. g \<notin> {1..4} \<Longrightarrow> own h g = {}"
  shows "heap_abs sz objs s = h"
  by (rule heap_spec.equality) (use assms in \<open>auto simp: heap_abs_def fun_eq_iff\<close>)

lemma heap_abs_sel [simp]:
  "shared (heap_abs sz objs s) x = (if x \<in> contents sz objs then vread s 0 x else 0)"
  "view (heap_abs sz objs s) g x = (if g \<in> {1..4} \<and> x \<in> contents sz objs then vread s g x else 0)"
  "own (heap_abs sz objs s) g = (if g \<in> {1..4} then set (mods s g) else {})"
  by (simp_all add: heap_abs_def)

lemma sized_cong: "sized X objs sz s \<Longrightarrow> (\<And>a. a \<in> objs \<Longrightarrow> obj_size X s' 0 a = obj_size X s 0 a) \<Longrightarrow> sized X objs sz s'"
  by (simp add: sized_def)

section \<open>Every step refines\<close>

text \<open>A step of the implementation that keeps the invariant and is an abstract step.\<close>

definition refines :: "ext \<Rightarrow> nat set \<Rightarrow> (nat \<Rightarrow> nat) \<Rightarrow> nat \<Rightarrow> action \<Rightarrow> stm \<Rightarrow> stm \<Rightarrow> bool" where
  "refines X objs sz me act s s' \<longleftrightarrow> isolated X objs s' \<and> sized X objs sz s' \<and>
     spec_step sz me act (heap_abs sz objs s) (heap_abs sz objs s')"

lemma refines_same:
  assumes "isolated X objs s'" and "sized X objs sz s" and "act \<in> {Read, Rearm}"
    and "\<And>a. a \<in> objs \<Longrightarrow> obj_size X s' 0 a = obj_size X s 0 a"
    and "\<And>g x. g \<le> 4 \<Longrightarrow> x \<in> contents sz objs \<Longrightarrow> vread s' g x = vread s g x"
    and "\<And>g. mods s' g = mods s g"
  shows "refines X objs sz me act s s'"
proof -
  have "heap_abs sz objs s' = heap_abs sz objs s" by (rule heap_absI) (use assms(5,6) in auto)
  moreover have "spec_step sz me act h h" for h using assms(3) by (auto intro: spec_step.intros)
  ultimately show ?thesis using assms(1) sized_cong [OF assms(2,4)] by (simp add: refines_def)
qed

lemma refine_acquire:
  assumes X: "cb_ok X" and iso: "isolated X objs s" and sz: "sized X objs sz s" and me: "me \<in> {1..4}" and obj: "obj \<in> objs"
    and lock: "write_locks s (get_write_lock_idx obj) \<in> {0, of_nat me}"
    and old: "\<not> IS_OVERFLOW_OBJ s me (stm_flags s me obj)" and run: "stm_write fuel X me obj s = Ret () s'"
  shows "refines X objs sz me (Acquire obj) s s'"
proof -
  have lk: "locks_ok objs s" using iso by (simp add: isolated_def)
  have lay: "layout_ok X objs s" using iso by (simp add: isolated_def)
  have free: "obj \<notin> own (heap_abs sz objs s) g" if "g \<noteq> me" for g
    using lk lock obj that of_nat_segment(1) [OF me] of_nat_segment(2) [of g] unfolding locks_ok_def
    by (cases "g \<in> {1..4}") auto
  have "isolated X objs s' \<and> set (mods s' me) = insert obj (set (mods s me)) \<and> (\<forall>g. g \<noteq> me \<longrightarrow> mods s' g = mods s g) \<and>
    (\<forall>h \<le> 4. \<forall>x. h \<noteq> me \<or> x \<notin> {obj..<obj + 4} \<longrightarrow> vread s' h x = vread s h x)"
  proof (cases "has_flag (stm_flags s me obj) GCFLAG_WRITE_BARRIER")
    case True
    obtain n where "fuel = Suc n"
      using run old True by (cases fuel) (simp_all add: stm_write_def stm_write_slowpath_def write_slowpath_common_def)
    then show ?thesis using barrier_ok [OF iso me obj X lock old True, of n] run by auto
  next
    case False
    then have "s' = s" using run by (simp add: stm_write_def)
    then show ?thesis using iso flag_off_owned [OF iso me obj X False] by auto
  qed
  then have s': "isolated X objs s'" "set (mods s' me) = insert obj (set (mods s me))" "\<And>g. g \<noteq> me \<Longrightarrow> mods s' g = mods s g"
    "\<And>h x. h \<le> 4 \<Longrightarrow> h \<noteq> me \<or> x \<notin> {obj..<obj + 4} \<Longrightarrow> vread s' h x = vread s h x" by auto
  have v0: "vread s' 0 = vread s 0" using s'(4) [of 0] me by (auto simp: fun_eq_iff)
  have sz': "sized X objs sz s'" using sized_cong [OF sz] same_view_funs(1) [OF v0] by simp
  have ab: "heap_abs sz objs s' = (heap_abs sz objs s)\<lparr>own := (own (heap_abs sz objs s))(me := insert obj (own (heap_abs sz objs s) me))\<rparr>"
  proof (rule heap_absI)
    show "vread s' g x = view ((heap_abs sz objs s)\<lparr>own := (own (heap_abs sz objs s))(me := insert obj (own (heap_abs sz objs s) me))\<rparr>) g x"
      if "g \<in> {1..4}" "x \<in> contents sz objs" for g x
      using s'(4) [of g x] content_not_head [OF lay sz obj that(2)] that by simp
  qed (use s'(2,3) me v0 in auto)
  show ?thesis unfolding refines_def ab using s'(1) sz' free by (intro conjI spec_step.intros)
qed

lemma refine_write:
  assumes X: "cb_ok X" and iso: "isolated X objs s" and sz: "sized X objs sz s" and me: "me \<in> {1..4}" and obj: "obj \<in> objs"
    and off: "\<not> has_flag (stm_flags s me obj) GCFLAG_WRITE_BARRIER"
    and r: "{a..<a + n} \<subseteq> {obj + 4..<obj + obj_size X s me obj}"
    and keep: "obj_size X (vfill me a n f s) me obj = obj_size X s me obj"
  shows "refines X objs sz me (Write obj) s (vfill me a n f s)"
proof -
  let ?s = "vfill me a n f s"
  have hdD: "heads_ok X objs s" using iso by (simp add: isolated_def)
  have me4: "me \<le> 4" using me by simp
  have size: "obj_size X s me obj = obj_size X s 0 obj" by (rule headsD(4) [OF hdD obj me4])
  have owned: "obj \<in> set (mods s me)" by (rule flag_off_owned [OF iso me obj X off])
  have r0: "{a..<a + n} \<subseteq> extent X s 0 obj" using r size by (auto simp: extent_def)
  note w = own_vfill [OF iso me owned r0]
  have "stm_flags ?s me obj = stm_flags s me obj"
  proof -
    have "vread ?s me (obj + i) = vread s me (obj + i)" if "i < 4" for i
      using r that by (auto simp: w subset_iff)
    then show ?thesis unfolding stm_flags_def vload32_def by (rule load32_cong)
  qed
  then have iso': "isolated X objs ?s"
    using isolated_write [OF iso me owned r0 _ _ keep X] headsD(2,3) [OF hdD obj me4] by simp
  have v0: "vread ?s 0 = vread s 0" using me by (auto simp: w fun_eq_iff)
  have sz': "sized X objs sz ?s" using sized_cong [OF sz] same_view_funs(1) [OF v0] by simp
  let ?h = "heap_abs sz objs s"
  have sub: "{a..<a + n} \<subseteq> content sz obj" using r size sz obj by (simp add: content_def sized_def)
  have inC: "a \<le> x \<Longrightarrow> x < a + n \<Longrightarrow> x \<in> contents sz objs" for x using sub obj by (auto simp: contents_def)
  have ab: "heap_abs sz objs ?s = ?h\<lparr>view := (view ?h)(me := (\<lambda>x. if x \<in> {a..<a + n} then f x else view ?h me x))\<rparr>"
    by (rule heap_absI) (use me inC in \<open>auto simp: w v0\<close>)
  show ?thesis unfolding refines_def ab using iso' sz' sub owned me by (intro conjI spec_step.intros) simp_all
qed

lemma refine_rearm:
  assumes X: "cb_ok X" and iso: "isolated X objs s" and sz: "sized X objs sz s" and me: "me \<in> {1..4}" and obj: "obj \<in> set (mods s me)"
  shows "refines X objs sz me Rearm s (stm_flags_or me obj GCFLAG_WRITE_BARRIER s)"
proof -
  have o: "obj \<in> objs" using owned_objs [OF iso me] obj by blast
  have hdD: "heads_ok X objs s" and lay: "layout_ok X objs s" using iso by (simp_all add: isolated_def)
  have me4: "me \<le> 4" using me by simp
  note fl = headsD(2,3) [OF hdD o me4]
  note sf = isolated_set_flags [OF iso me obj X flag_masks(3) [OF fl(1)] flag_masks(4) [OF fl(2)]]
  let ?s = "stm_flags_or me obj GCFLAG_WRITE_BARRIER s"
  have v0: "vread ?s 0 = vread s 0" using sf(2) [of 0] me by (simp add: stm_flags_or_def)
  show ?thesis
  proof (rule refines_same)
    show "isolated X objs ?s" unfolding stm_flags_or_def by (rule sf(1))
    show "obj_size X ?s 0 a = obj_size X s 0 a" for a by (simp add: same_view_funs(1) [OF v0])
    show "vread ?s g x = vread s g x" if "x \<in> contents sz objs" for g x
      unfolding stm_flags_or_def using sf(2) [of g] sf(3) [of x] content_not_head [OF lay sz o that] by (cases "g = me") auto
  qed (simp_all add: sz stm_flags_or_def)
qed

lemma refine_commit:
  assumes X: "cb_ok X" and iso: "isolated X objs s" and sz: "sized X objs sz s" and me: "me \<in> {1..4}"
    and ok: "committable X s me" and run: "push_modified_to_other_segments X me s = Ret () s'"
  shows "refines X objs sz me Commit s s'"
proof -
  have lay: "layout_ok X objs s" using iso by (simp add: isolated_def)
  have s': "isolated X objs s'" "mods s' me = []" "\<And>g. g \<noteq> me \<Longrightarrow> mods s' g = mods s g"
    "\<And>h x. h \<le> 4 \<Longrightarrow> vread s' h x = (if x \<in> (\<Union>a \<in> set (mods s me). extent X s 0 a) then vread s me x else vread s h x)"
    using commit_ok [OF iso me X ok] run by auto
  let ?C = "contents sz (set (mods s me))"
  have sub: "set (mods s me) \<subseteq> objs" by (rule owned_objs [OF iso me])
  have v: "vread s' h x = (if x \<in> ?C then vread s me x else vread s h x)" if "h \<le> 4" "x \<in> contents sz objs" for h x
    unfolding s'(4) [OF that(1)] own_bytes [OF lay sz sub that(2)] ..
  have C: "?C \<subseteq> contents sz objs" by (rule contents_mono [OF sub])
  have me4: "me \<le> 4" using me by simp
  have hdD: "heads_ok X objs s" using iso by (simp add: isolated_def)
  have ext: "extent X s me a = extent X s 0 a" if "a \<in> objs" for a
    using headsD(4) [OF hdD that me4] by (simp add: extent_def)
  have "obj_size X s' 0 a = obj_size X s 0 a" if a: "a \<in> objs" for a
  proof (cases "a \<in> set (mods s me)")
    case True
    have "vread s' 0 x = vread s me x" if "x \<in> extent X s me a" for x
      using True that ext [OF a] by (subst s'(4)) auto
    from agree_object(1) [where a = a, OF X this] show ?thesis using headsD(4) [OF hdD a me4] by simp
  next
    case False
    have "vread s' 0 x = vread s 0 x" if x: "x \<in> extent X s 0 a" for x
    proof -
      have "x \<notin> extent X s 0 b" if b: "b \<in> set (mods s me)" for b
      proof -
        have "b \<in> objs" "a \<noteq> b" using b sub False by auto
        from layoutD [OF lay a this] show ?thesis using x by (auto simp: extent_def)
      qed
      then show ?thesis by (subst s'(4)) auto
    qed
    from agree_object(1) [where a = a, OF X this] show ?thesis .
  qed
  then have sz': "sized X objs sz s'" by (rule sized_cong [OF sz])
  let ?h = "heap_abs sz objs s"
  have ab: "heap_abs sz objs s' = ?h\<lparr>shared := (\<lambda>x. if x \<in> contents sz (own ?h me) then view ?h me x else shared ?h x),
        view := (\<lambda>g x. if g \<in> {1..4} \<and> x \<in> contents sz (own ?h me) then view ?h me x else view ?h g x),
        own := (own ?h)(me := {})\<rparr>"
    by (rule heap_absI) (use me s'(2,3) v C in auto)
  show ?thesis unfolding refines_def ab using s'(1) sz' by (intro conjI spec_step.intros)
qed

lemma refine_undo:
  assumes X: "cb_ok X" and iso: "isolated X objs s" and sz: "sized X objs sz s" and me: "me \<in> {1..4}" and g: "g \<in> {1..4}"
  shows "refines X objs sz me (Undo g) s (reset_modified_from_other_segments X me g s)"
proof -
  let ?s = "reset_modified_from_other_segments X me g s"
  note ab = abort_ok [OF iso me g X]
  have lay: "layout_ok X objs s" using iso by (simp add: isolated_def)
  have sub: "set (mods s g) \<subseteq> objs" by (rule owned_objs [OF iso g])
  have v0: "vread ?s 0 = vread s 0" using ab(3) [of 0] g by (auto simp: fun_eq_iff)
  have sz': "sized X objs sz ?s" using sized_cong [OF sz] same_view_funs(1) [OF v0] by simp
  let ?h = "heap_abs sz objs s"
  have v: "vread ?s h x = (if h = g \<and> x \<in> contents sz (set (mods s g)) then vread s 0 x else vread s h x)"
    if "h \<le> 4" "x \<in> contents sz objs" for h x
    using ab(3) [OF that(1)] own_bytes [OF lay sz sub that(2)] by simp
  have C: "contents sz (set (mods s g)) \<subseteq> contents sz objs" by (rule contents_mono [OF sub])
  have ha: "heap_abs sz objs ?s = ?h\<lparr>view := (view ?h)(g := (\<lambda>x. if x \<in> contents sz (own ?h g) then shared ?h x else view ?h g x)),
        own := (own ?h)(g := {})\<rparr>"
    by (rule heap_absI) (use g v v0 C ab(2) in auto)
  show ?thesis unfolding refines_def ha using ab(1) sz' by (intro conjI spec_step.intros)
qed

lemma obj_step_refines:
  assumes "cb_ok X" and "isolated X objs s" and "sized X objs sz s" and "obj_step X objs me act s s'"
  shows "refines X objs sz me act s s'"
  using assms(4)
proof cases
  case (step_read obj)
  have v: "vread (stm_read me obj s) = vread s" by simp
  show ?thesis unfolding step_read(2)
    by (rule refines_same [OF isolated_read [OF assms(2)] assms(3)])
      (simp_all add: step_read(1) same_view_funs(1) [OF fun_cong [OF v]])
qed (use assms(1-3) in \<open>simp_all add: refine_acquire refine_write refine_rearm refine_commit refine_undo\<close>)

section \<open>Runs\<close>

inductive run :: "ext \<Rightarrow> nat set \<Rightarrow> stm \<Rightarrow> (nat \<times> action) list \<Rightarrow> stm \<Rightarrow> bool" for X objs s where
  run_Nil: "run X objs s [] s"
| run_snoc: "run X objs s tr s' \<Longrightarrow> obj_step X objs me act s' s'' \<Longrightarrow> run X objs s (tr @ [(me, act)]) s''"

inductive spec_run :: "(nat \<Rightarrow> nat) \<Rightarrow> heap_spec \<Rightarrow> (nat \<times> action) list \<Rightarrow> heap_spec \<Rightarrow> bool" for sz h where
  spec_Nil: "spec_run sz h [] h"
| spec_snoc: "spec_run sz h tr h' \<Longrightarrow> spec_step sz me act h' h'' \<Longrightarrow> spec_run sz h (tr @ [(me, act)]) h''"

lemma run_refines:
  assumes "run X objs s tr s'" and "cb_ok X" and "isolated X objs s" and "sized X objs sz s"
  shows "isolated X objs s' \<and> sized X objs sz s' \<and> spec_run sz (heap_abs sz objs s) tr (heap_abs sz objs s')"
  using assms(1)
proof induction
  case run_Nil
  then show ?case using assms by (blast intro: spec_Nil)
next
  case (run_snoc tr s' me act s'')
  have inv: "isolated X objs s'" "sized X objs sz s'" using run_snoc assms by blast+
  have "refines X objs sz me act s' s''" by (rule obj_step_refines [OF assms(2) inv run_snoc(2)])
  moreover have "spec_run sz (heap_abs sz objs s) tr (heap_abs sz objs s')" using run_snoc assms by blast
  ultimately show ?case unfolding refines_def by (blast intro: spec_snoc)
qed

end
