(* ===== verification/Setup.thy ===== *)
theory Setup
  imports Commit
begin

text \<open>
  \<open>c7/stm/setup.c\<close>: the state after \<open>stm_setup\<close>, and the circular list of thread-locals. A
  list that \<open>stm_teardown\<close> leaves NULL is the empty list.
\<close>

section \<open>Starting the library\<close>

text \<open>The segment's private data, cleared.\<close>

definition zero_pseg :: pseg where
  "zero_pseg = \<lparr>transaction_read_version = 0, nursery_current = 0, nursery_end = 0, running_thread = None,
     modified_old_objects = [], modified_old_objects_markers = [], modified_old_objects_markers_num_old = 0,
     objects_pointing_to_nursery = None, old_objects_with_cards = [], large_overflow_objects = None,
     young_outside_nursery = tree_create, nursery_objects_shadows = tree_create, young_weakrefs = [],
     old_weakrefs = [], callbacks_on_commit_and_abort = (\<lambda>_. tree_create), unique_start_time = 0,
     overflow_number = 0, overflow_number_has_been_used = False, write_lock_num = 0,
     safe_point = SP_NO_TRANSACTION, transaction_state = TS_NONE, minor_collect_will_commit_now = False,
     signal_when_done = False, threadlocal_at_start_of_transaction = 0,
     shadowstack_at_start_of_transaction = 0, signalled_to_commit_soon = False,
     marker_inev_segment_base = 0, marker_inev_odd_number = 0, marker_inev_object = 0,
     young_objects_with_light_finalizers = [], old_objects_with_light_finalizers = [], finalizers = None\<rparr>"

definition setup_segment :: "nat \<Rightarrow> stm \<Rightarrow> stm" where
  "setup_segment i s =
     (let s = upd_seg i (\<lambda>_. zero_pseg\<lparr>write_lock_num := of_nat i,
                overflow_number := GCFLAG_OVERFLOW_NUMBER_bit0 * of_nat i,
                transaction_read_version := 0xff\<rparr>) s
      in s\<lparr>highest_overflow_number := overflow_number (segs s i)\<rparr>)"

text \<open>The anonymous mapping is full of zeros, and every page of a segment is its own.\<close>

definition setup_mmap :: "stm \<Rightarrow> stm" where
  "setup_mmap s = s\<lparr>mem := (\<lambda>_ _. 0), remap := (\<lambda>g _. g), rm := (\<lambda>_ _. 0)\<rparr>"

definition stm_setup :: "stm \<Rightarrow> stm" where
  "stm_setup s =
     (let s = setup_mmap s;
          s = foreach_f segments setup_segment s;
          s = setup_nursery s;
          s = setup_gcpage s;
          s = upd_ctl setup_pages s
      in setup_finalizer s)"

text \<open>The static variables when the process starts; \<open>tls\<close> are the program's thread-locals.\<close>

definition static_state :: "(nat \<Rightarrow> tl) \<Rightarrow> stm" where
  "static_state t = \<lparr>mem = (\<lambda>_ _. 0), remap = (\<lambda>_ _. 0), rm = (\<lambda>_ _. 0), write_locks = (\<lambda>_. 0),
     by_segment = (\<lambda>_. 0), segs = (\<lambda>_. zero_pseg), in_use1 = (\<lambda>_. 0), pause_signalled = False,
     globally_unique_transaction = False,
     lm = \<lparr>prev_size = (\<lambda>_. 0), chunk_size = (\<lambda>_. 0), first_chunk = 0, last_chunk = 0, largebins = (\<lambda>_. []),
       ctl = \<lparr>major_collection_requested = False, total_allocated = 0, total_allocated_bound = 0\<rparr>\<rparr>,
     uninitialized_page_start = 0, uninitialized_page_stop = 0, highest_overflow_number = 0,
     global_start_time = 1, tls = t, stm_all_thread_locals = None, thread_local_counters = 0,
     testing_prebuilt_objs = None, g_finalizers = init_finalizers, clock = 0, events = []\<rparr>"

text \<open>
  \<open>stm_teardown\<close>, for tests: the static variables that it resets. The memory it frees and
  unmaps is not looked at afterwards.
\<close>

definition stm_teardown :: "stm \<Rightarrow> stm" where
  "stm_teardown s =
     s\<lparr>g_finalizers := init_finalizers, write_locks := (\<lambda>_. 0), in_use1 := (\<lambda>_. 0), pause_signalled := False,
        globally_unique_transaction := False, testing_prebuilt_objs := None, by_segment := (\<lambda>_. 0),
        lm := (lm s)\<lparr>ctl := \<lparr>major_collection_requested = False, total_allocated = 0, total_allocated_bound = 0\<rparr>\<rparr>\<rparr>"

section \<open>Thread-locals\<close>

definition init_shadow_stack :: "nat \<Rightarrow> stm \<Rightarrow> stm" where
  "init_shadow_stack t s = upd_tl t (\<lambda>x. x\<lparr>shadowstack := [SS_STOPPER]\<rparr>) s"

definition done_shadow_stack :: "nat \<Rightarrow> stm \<Rightarrow> stm" where
  "done_shadow_stack t s = upd_tl t (\<lambda>x. x\<lparr>shadowstack := []\<rparr>) s"

text \<open>The result is the segment that \<open>%gs\<close> points to afterwards.\<close>

definition stm_register_thread_local :: "nat \<Rightarrow> stm \<Rightarrow> nat \<times> stm" where
  "stm_register_thread_local t s =
     (let (num, s) =
        (case stm_all_thread_locals s of
           None \<Rightarrow> (0, (upd_tl t (\<lambda>x. x\<lparr>tl_next := Some t, tl_prev := Some t\<rparr>) s)\<lparr>stm_all_thread_locals := Some t\<rparr>)
         | Some h \<Rightarrow>
             let s = upd_tl t (\<lambda>x. x\<lparr>tl_next := Some h\<rparr>) s;
                 s = upd_tl t (\<lambda>x. x\<lparr>tl_prev := tl_prev (tls s h)\<rparr>) s;
                 s = upd_tl (the (tl_prev (tls s h))) (\<lambda>x. x\<lparr>tl_next := Some t\<rparr>) s;
                 s = upd_tl h (\<lambda>x. x\<lparr>tl_prev := Some t\<rparr>) s
             in (associated_segment_num (tls s (the (tl_prev (tls s t)))), s));
        num = (num mod NB_SEGMENTS) + 1;
        counter = thread_local_counters s + 1;
        s = upd_tl t (\<lambda>x. x\<lparr>thread_local_obj := 0, associated_segment_num := num,
                thread_local_counter := counter\<rparr>) (s\<lparr>thread_local_counters := counter\<rparr>)
      in (num, init_shadow_stack t s))"

definition stm_unregister_thread_local :: "nat \<Rightarrow> stm \<Rightarrow> stm" where
  "stm_unregister_thread_local t s =
     (let s = done_shadow_stack t s;
          s = (if stm_all_thread_locals s = Some t
               then s\<lparr>stm_all_thread_locals := tl_next (tls s t)\<rparr> else s)
      in if stm_all_thread_locals s = Some t then s\<lparr>stm_all_thread_locals := None\<rparr>
         else let s = upd_tl (the (tl_prev (tls s t))) (\<lambda>x. x\<lparr>tl_next := tl_next (tls s t)\<rparr>) s;
                  s = upd_tl (the (tl_next (tls s t))) (\<lambda>x. x\<lparr>tl_prev := tl_prev (tls s t)\<rparr>) s
              in upd_tl t (\<lambda>x. x\<lparr>tl_prev := None, tl_next := None\<rparr>) s)"

definition is_tl_registered :: "nat \<Rightarrow> stm \<Rightarrow> bool" where
  "is_tl_registered t s \<longleftrightarrow> tl_next (tls s t) \<noteq> None"

end
