(* ===== verification/Sample.thy ===== *)
theory Sample
  imports Refine Setup Hashtable
begin

text \<open>
  A program with two objects of 16 bytes, in the first pages after the nursery: the state of
  the library after \<open>stm_setup\<close> and the growth of the arena, with the objects' flags set as
  \<open>stm_allocate_old\<close> leaves them. The concrete instances of the theorems are about it.
\<close>

definition sample_ext :: ext where
  "sample_ext = \<lparr>stmcb_size_rounded_up = (\<lambda>_. 16), stmcb_obj_supports_cards = (\<lambda>_. False),
     stmcb_get_card_base_itemsize = (\<lambda>_. (8, 8)), stmcb_trace = (\<lambda>_. []), stmcb_trace_cards = (\<lambda>_ _ _. []),
     timing_enabled = False, gc_scale = (\<lambda>x. x), stmcb_finalizer = (\<lambda>_ _ s. s), other_threads = (\<lambda>_ _ s. s)\<rparr>"

text \<open>A frame was entered when the shadow stack held its stopper, and then came the \<open>setjmp\<close>.\<close>

definition sample_frame_rj :: rewind_jmp_thread where
  "sample_frame_rj = rewind_jmp_enterframe rj_initial 100 100 1"

definition sample_setjmp :: rewind_jmp_thread where
  "sample_setjmp = snd (rewind_jmp_setjmp sample_frame_rj (\<lambda>_. 0) [SS_STOPPER] 96 False)"

lemma sample_setjmp_slices: "moved_off sample_setjmp = [\<lparr>stack_bytes = [0, 0, 0, 0], ss_entries = []\<rparr>]"
  by (simp add: sample_setjmp_def sample_frame_rj_def rewind_jmp_setjmp_def rewind_jmp_enterframe_def rj_initial_def
    copy_stack_def slice_def Let_def upt_rec)

definition sample_tl :: tl where
  "sample_tl = \<lparr>shadowstack = [SS_STOPPER], rjthread = sample_setjmp,
     thread_local_obj = 0, mem_clear_on_abort = None, last_abort_bytes_in_nursery = 0,
     associated_segment_num = 1, thread_local_counter = 1, tl_prev = None, tl_next = None\<rparr>"

definition OBJ1 :: nat where "OBJ1 = PAGE_FLAG_START * 4096 + 16"
definition OBJ2 :: nat where "OBJ2 = PAGE_FLAG_START * 4096 + 48"

definition started :: stm where
  "started = stm_setup (static_state (\<lambda>_. sample_tl))"

text \<open>The thread 0 has started a transaction; it runs in segment 1.\<close>

definition running :: stm where
  "running = res_state (start_transaction 1 sample_ext 0 started)"

definition sample :: stm where
  "sample = running\<lparr>mem := (\<lambda>c a. if a = OBJ1 \<or> a = OBJ2 then 1 else 0),
     remap := (\<lambda>g p. if PAGE_FLAG_START \<le> p \<and> p < PAGE_FLAG_START + 20 then 0 else g),
     uninitialized_page_start := (PAGE_FLAG_START + 20) * 4096\<rparr>"

lemma sample_setjmp_saved:
  assumes "running_thread (segs s g) = Some t" and "tls s t = sample_tl"
    and "shadowstack_at_start_of_transaction (segs s g) = 1"
  shows "saved_at_start s g [SS_STOPPER]"
proof -
  obtain n where n: "rewind_jmp_setjmp sample_frame_rj (\<lambda>_. 0) [SS_STOPPER] 96 False = (n, sample_setjmp)"
    by (simp add: sample_setjmp_def prod_eq_iff)
  have h: "rj_head sample_frame_rj = \<lparr>shadowstack_base = 1, jit = False, frame_base = 100, buf_addr = 100\<rparr> # []"
    by (simp add: sample_frame_rj_def rewind_jmp_enterframe_def rj_initial_def)
  have t: "shadowstack (tls s t) = [SS_STOPPER]" "rjthread (tls s t) = sample_setjmp"
    using assms(2) by (simp_all add: sample_tl_def)
  show ?thesis
    unfolding saved_at_start_def
    by (intro exI [of _ t] conjI exI [of _ sample_frame_rj] exI [of _ "\<lambda>_. 0"] exI [of _ 96] exI [of _ False]
        exI [of _ n] exI [of _ sample_setjmp] exI) (use assms n h t in auto)
qed

lemma sample_cb_ok: "cb_ok sample_ext"
  by (simp add: cb_ok_def sample_ext_def)

lemma sample_ext_simps [simp]: "timing_enabled sample_ext = False" "other_threads sample_ext c k s = s"
  "stmcb_trace sample_ext b = []"
  by (simp_all add: sample_ext_def)

lemma sample_size [simp]: "obj_size sample_ext s g a = 16"
  by (simp add: obj_size_def sample_ext_def)

lemma sample_no_cards [simp]: "\<not> obj_should_use_cards sample_ext s g a"
  by (simp add: obj_should_use_cards_def sample_ext_def)

lemma foreach_f_Cons [simp]: "foreach_f (x # xs) f s = foreach_f xs f (f x s)" "foreach_f [] f s = s"
  by (simp_all add: foreach_f_def)

lemma started_seg:
  "g \<in> {1..4} \<Longrightarrow> segs started g = zero_pseg\<lparr>write_lock_num := of_nat g,
     overflow_number := GCFLAG_OVERFLOW_NUMBER_bit0 * of_nat g, transaction_read_version := 0xff,
     nursery_current := NURSERY_START, nursery_end := NURSERY_END\<rparr>"
proof -
  assume "g \<in> {1..4}"
  then have "g = 1 \<or> g = 2 \<or> g = 3 \<or> g = 4" by auto
  then show ?thesis
    by (elim disjE) (simp_all add: started_def stm_setup_def Let_def setup_mmap_def segments_eq setup_segment_def
      setup_nursery_def setup_gcpage_def setup_finalizer_def segs_upd_seg)
qed


lemma started_frame: "write_locks started = (\<lambda>_. 0)" "by_segment started = (\<lambda>_. 0)" "in_use1 started = (\<lambda>_. 0)"
  "rm started = (\<lambda>_ _. 0)" "globally_unique_transaction started = False" "pause_signalled started = False"
  by (simp_all add: started_def stm_setup_def Let_def setup_mmap_def segments_eq setup_segment_def
      setup_nursery_def setup_gcpage_def setup_finalizer_def static_state_def upd_ctl_def)

lemma started_running:
  "start_transaction 1 sample_ext 0 started = Ret 1 running"
  "segs running g = (if g = 1 then (segs started 1)\<lparr>running_thread := Some 0, unique_start_time := 1,
     signalled_to_commit_soon := False, safe_point := SP_RUNNING, marker_inev_object := 0, transaction_state := TS_REGULAR,
     shadowstack_at_start_of_transaction := 1, threadlocal_at_start_of_transaction := 0,
     transaction_read_version := 1\<rparr> else segs started g)"
  "write_locks running = (\<lambda>_. 0)" "by_segment running = (\<lambda>_. 0)" "rm running = (\<lambda>_ _. 0)"
  "in_use1 running = (\<lambda>_. 0)(0 := 1)" "tls running = (\<lambda>_. sample_tl)"
  "globally_unique_transaction running = False" "lm running = lm started"
  "uninitialized_page_start running = uninitialized_page_start started"
  "uninitialized_page_stop running = uninitialized_page_stop started" "global_start_time running = 2"
  "testing_prebuilt_objs running = None" "g_finalizers running = init_finalizers"
proof -
  define r where "r = next_read_version 1 (begin_transaction sample_ext 1 0
    (upd_seg 1 (\<lambda>p. p\<lparr>running_thread := Some 0\<rparr>) (started\<lparr>in_use1 := (in_use1 started)(0 := 1)\<rparr>)))"
  have t: "tls started = (\<lambda>_. sample_tl)" "global_start_time started = 1"
    by (simp_all add: started_def stm_setup_def Let_def setup_mmap_def segments_eq setup_segment_def
      setup_nursery_def setup_gcpage_def setup_finalizer_def static_state_def upd_ctl_def upd_seg_def)
  have acq: "acquire_thread_segment sample_ext 0 started =
    (Some 1, upd_seg 1 (\<lambda>p. p\<lparr>running_thread := Some 0\<rparr>) (started\<lparr>in_use1 := (in_use1 started)(0 := 1)\<rparr>))"
    by (simp add: acquire_thread_segment_def t sample_tl_def started_frame Let_def)
  have run: "start_transaction 1 sample_ext 0 started = Ret 1 r"
    by (simp add: start_transaction_def acq r_def enter_safe_point_if_requested_def begin_transaction_def
      timing_event_def Let_def started_seg)
  show "start_transaction 1 sample_ext 0 started = Ret 1 running" unfolding running_def run by simp
  have r: "running = r" unfolding running_def run by simp
  have t2: "testing_prebuilt_objs started = None" "g_finalizers started = init_finalizers"
    by (simp_all add: started_def stm_setup_def Let_def setup_mmap_def segments_eq setup_segment_def
      setup_nursery_def setup_gcpage_def setup_finalizer_def static_state_def upd_ctl_def upd_seg_def)
  note unf = r r_def next_read_version_def begin_transaction_def timing_event_def Let_def
    reset_transaction_read_version_def t started_frame
  show "segs running g = (if g = 1 then (segs started 1)\<lparr>running_thread := Some 0, unique_start_time := 1,
     signalled_to_commit_soon := False, safe_point := SP_RUNNING, marker_inev_object := 0, transaction_state := TS_REGULAR,
     shadowstack_at_start_of_transaction := 1, threadlocal_at_start_of_transaction := 0,
     transaction_read_version := 1\<rparr> else segs started g)"
    by (simp add: unf segs_upd_seg started_seg sample_tl_def)
  show "write_locks running = (\<lambda>_. 0)" "by_segment running = (\<lambda>_. 0)" "rm running = (\<lambda>_ _. 0)"
    "in_use1 running = (\<lambda>_. 0)(0 := 1)" "tls running = (\<lambda>_. sample_tl)" "globally_unique_transaction running = False"
    "lm running = lm started" "uninitialized_page_start running = uninitialized_page_start started"
    "uninitialized_page_stop running = uninitialized_page_stop started" "global_start_time running = 2"
    "testing_prebuilt_objs running = None" "g_finalizers running = init_finalizers"
    by (simp_all add: unf started_seg fun_eq_iff t2)
qed

lemma sample_seg: "segs sample = segs running"
  by (simp add: sample_def)

lemma sample_frame: "write_locks sample = (\<lambda>_. 0)" "by_segment sample = (\<lambda>_. 0)" "in_use1 sample = (\<lambda>_. 0)(0 := 1)"
  "rm sample = (\<lambda>_ _. 0)" "tls sample = (\<lambda>_. sample_tl)" "globally_unique_transaction sample = False"
  "uninitialized_page_start sample = (PAGE_FLAG_START + 20) * 4096"
  by (simp_all add: sample_def started_running)

lemma sample_mods: "g \<in> {1..4} \<Longrightarrow> mods sample g = []"
  by (simp add: sample_seg started_running started_seg zero_pseg_def)

lemma sample_vread: "vread sample g x = (if x = OBJ1 \<or> x = OBJ2 then 1 else 0)"
  by (simp add: vread_def sample_def)

lemma sample_flags: "stm_flags sample g a = (if a = OBJ1 \<or> a = OBJ2 then 1 else stm_flags sample g a)"
  by (auto simp: stm_flags_def vload32_def load32_def sample_vread OBJ1_def OBJ2_def)

lemma sample_isolated: "isolated sample_ext {OBJ1, OBJ2} sample"
proof -
  have old: "old_page sample p \<longleftrightarrow> PAGE_FLAG_START \<le> p \<and> p < PAGE_FLAG_START + 20" for p
    by (simp add: old_page_def sample_frame)
  have pages: "object_pages sample_ext sample a = {PAGE_FLAG_START}" if "a \<in> {OBJ1, OBJ2}" for a
  proof -
    have "a div 4096 = PAGE_FLAG_START \<and> (a + 15) div 4096 = PAGE_FLAG_START"
      using that by (auto simp: OBJ1_def OBJ2_def PAGE_FLAG_START_def page_consts)
    then show ?thesis by (simp add: object_pages_def add.commute [of 15])
  qed
  have flag: "stm_flags sample g a = 1" if "a \<in> {OBJ1, OBJ2}" for g a using sample_flags [of g a] that by auto
  have priv: "\<not> is_private_page sample g p" for g p by (simp add: is_private_page_def sample_frame)
  have "maps_ok sample"
    by (auto simp: maps_ok_def remap_dom_def mapped_ok_def old priv) (auto simp: sample_def)
  moreover have "layout_ok sample_ext {OBJ1, OBJ2} sample"
    using pages old by (auto simp: layout_ok_def OBJ1_def OBJ2_def page_consts)
  moreover have "locks_ok {OBJ1, OBJ2} sample"
  proof -
    have "write_lock_num (segs sample g) = of_nat g" if "g \<in> {1..4}" for g
      using that by (simp add: sample_seg started_running started_seg zero_pseg_def)
    then show ?thesis using of_nat_segment(2) by (auto simp: locks_ok_def sample_mods sample_frame)
  qed
  moreover have "heads_ok sample_ext {OBJ1, OBJ2} sample"
    using flag by (auto simp: heads_ok_def has_flag_def gcflags)
  ultimately show ?thesis by (simp add: isolated_def own_ok_def views_ok_def sample_mods sample_vread)
qed

lemma sample_sized: "sized sample_ext {OBJ1, OBJ2} (\<lambda>_. 16) sample"
  by (simp add: sized_def)

text \<open>Segment 1 takes the first object, writes into it, and commits.\<close>

abbreviation sample_objs :: "nat set" where "sample_objs \<equiv> {OBJ1, OBJ2}"

definition sample_trace :: "(nat \<times> action) list" where
  "sample_trace = [(1, Acquire OBJ1), (1, Write OBJ1), (1, Rearm), (1, Commit)]"

lemma sample_overflow: "\<not> IS_OVERFLOW_OBJ sample 1 (stm_flags sample 1 OBJ1)"
  by (subst sample_flags) (simp add: IS_OVERFLOW_OBJ_def sample_seg started_running started_seg gcflags)

lemma sample_has_flag: "has_flag (stm_flags sample 1 OBJ1) GCFLAG_WRITE_BARRIER"
  by (subst sample_flags) (simp add: has_flag_def gcflags)

definition sample_owned :: stm where
  "sample_owned = res_state (stm_write 1 sample_ext 1 OBJ1 sample)"

definition sample_ready :: stm where
  "sample_ready = stm_flags_or 1 OBJ1 GCFLAG_WRITE_BARRIER (vfill 1 (OBJ1 + 8) 8 (\<lambda>_. 7) sample_owned)"

lemma sample_claim:
  "stm_write 1 sample_ext 1 OBJ1 sample =
     Ret () (write_slowpath_owned sample_ext 1 OBJ1 False (claim_object sample_ext 1 OBJ1 (stm_read 1 OBJ1 sample)))"
  using sample_has_flag sample_overflow
  by (simp add: stm_write_def stm_write_slowpath_def write_slowpath_common_def sample_frame Let_def)

lemma sample_owned_eq:
  "sample_owned = write_slowpath_owned sample_ext 1 OBJ1 False (claim_object sample_ext 1 OBJ1 (stm_read 1 OBJ1 sample))"
  unfolding sample_owned_def sample_claim by simp

lemma sample_write: "stm_write 1 sample_ext 1 OBJ1 sample = Ret () sample_owned"
  unfolding sample_owned_eq by (rule sample_claim)

lemma sample_owned:
  "isolated sample_ext sample_objs sample_owned" "mods sample_owned 1 = [OBJ1]"
  "\<not> has_flag (stm_flags sample_owned 1 OBJ1) GCFLAG_WRITE_BARRIER"
  "h \<le> 4 \<Longrightarrow> h \<noteq> 1 \<or> x \<notin> {OBJ1..<OBJ1 + 4} \<Longrightarrow> vread sample_owned h x = vread sample h x"
proof -
  have lock: "write_locks sample (get_write_lock_idx OBJ1) \<in> {0, of_nat 1}" by (simp add: sample_frame)
  have m: "1 \<in> {1..4 :: nat}" "OBJ1 \<in> sample_objs" by simp_all
  from barrier_ok [OF sample_isolated m sample_cb_ok lock sample_overflow sample_has_flag, of 0] have
    s: "isolated sample_ext sample_objs sample_owned" "set (mods sample_owned 1) = {OBJ1}"
    "\<not> has_flag (stm_flags sample_owned 1 OBJ1) GCFLAG_WRITE_BARRIER"
    "\<forall>h \<le> 4. \<forall>x. h \<noteq> 1 \<or> x \<notin> {OBJ1..<OBJ1 + 4} \<longrightarrow> vread sample_owned h x = vread sample h x"
    using sample_write sample_mods [of 1] by auto
  have "distinct (mods sample_owned 1)" using s(1) m(1) unfolding isolated_def locks_ok_def by blast
  then have "length (mods sample_owned 1) = 1" using s(2) distinct_card [of "mods sample_owned 1"] by simp
  then show "mods sample_owned 1 = [OBJ1]" using s(2) by (cases "mods sample_owned 1") auto
  show "isolated sample_ext sample_objs sample_owned" "\<not> has_flag (stm_flags sample_owned 1 OBJ1) GCFLAG_WRITE_BARRIER"
    "h \<le> 4 \<Longrightarrow> h \<noteq> 1 \<or> x \<notin> {OBJ1..<OBJ1 + 4} \<Longrightarrow> vread sample_owned h x = vread sample h x" using s by auto
qed

lemma sample_run_ready:
  "run sample_ext sample_objs sample [(1, Acquire OBJ1), (1, Write OBJ1), (1, Rearm)] sample_ready"
proof -
  let ?X = sample_ext and ?O = sample_objs
  have m: "1 \<in> {1..4 :: nat}" "OBJ1 \<in> ?O" by simp_all
  have a1: "obj_step ?X ?O 1 (Acquire OBJ1) sample sample_owned"
    by (rule step_barrier [OF m _ sample_overflow sample_write]) (simp add: sample_frame)
  let ?s2 = "vfill 1 (OBJ1 + 8) 8 (\<lambda>_. 7) sample_owned"
  have a2: "obj_step ?X ?O 1 (Write OBJ1) sample_owned ?s2"
    by (rule step_store [OF m sample_owned(3)]) auto
  have m2: "OBJ1 \<in> set (mods ?s2 1)" using sample_owned(2) by simp
  have a3: "obj_step ?X ?O 1 Rearm ?s2 sample_ready" unfolding sample_ready_def by (rule step_rearm [OF m(1) m2])
  show ?thesis using run_snoc [OF run_snoc [OF run_snoc [OF run_Nil a1] a2] a3] by simp
qed

lemma sample_ready:
  "isolated sample_ext sample_objs sample_ready" "mods sample_ready 1 = [OBJ1]" "committable sample_ext sample_ready 1"
  "vread sample_ready 1 (OBJ1 + 8) = 7"
proof -
  show "isolated sample_ext sample_objs sample_ready"
    using run_refines [OF sample_run_ready sample_cb_ok sample_isolated sample_sized] by blast
  show m: "mods sample_ready 1 = [OBJ1]" using sample_owned(2) by (simp add: stm_flags_or_def sample_ready_def)
  have "has_flag (stm_flags sample_ready 1 OBJ1) GCFLAG_WRITE_BARRIER"
    by (simp add: sample_ready_def stm_flags_or_def stm_flags_set has_flag_def gcflags)
  then show "committable sample_ext sample_ready 1" unfolding committable_def m by (simp add: changes_covered_def)
  show "vread sample_ready 1 (OBJ1 + 8) = 7"
    by (simp add: sample_ready_def stm_flags_or_def vread_set_stm_flags vread_vfill)
qed

lemma sample_run:
  "\<exists>s'. run sample_ext sample_objs sample [(1, Acquire OBJ1), (1, Write OBJ1), (1, Rearm), (1, Commit)] s' \<and>
    vread s' 2 (OBJ1 + 8) = 7"
proof -
  have m: "1 \<in> {1..4 :: nat}" by simp
  obtain s4 where s4: "push_modified_to_other_segments sample_ext 1 sample_ready = Ret () s4"
    "\<And>h x. h \<le> 4 \<Longrightarrow> vread s4 h x = (if x \<in> extent sample_ext sample_ready 0 OBJ1 then vread sample_ready 1 x else vread sample_ready h x)"
    using commit_ok [OF sample_ready(1) m sample_cb_ok sample_ready(3)] unfolding sample_ready(2) by auto
  have a4: "obj_step sample_ext sample_objs 1 Commit sample_ready s4" by (rule step_commit [OF m sample_ready(3) s4(1)])
  have "vread s4 2 (OBJ1 + 8) = 7" using sample_ready(4) by (simp add: s4(2) extent_def)
  then show ?thesis using run_snoc [OF sample_run_ready a4] by auto
qed

text \<open>What the write changed in the private data of segment 1.\<close>

lemma privatize_object_pages_frame: "segs (privatize_object_pages X me obj s) = segs s"
  "rm (privatize_object_pages X me obj s) = rm s" "tls (privatize_object_pages X me obj s) = tls s"
  "in_use1 (privatize_object_pages X me obj s) = in_use1 s"
  by (simp_all add: privatize_object_pages_def Let_def foreach_f_def fold_frame)

lemma sample_ready_seg:
  "segs sample_ready g = (if g = 1 then (segs sample 1)\<lparr>modified_old_objects := [OBJ1]\<rparr> else segs sample g)"
  by (simp add: sample_ready_def stm_flags_or_def sample_owned_eq write_slowpath_owned_def claim_object_def Let_def
    stm_flags_and_not_def segs_upd_seg privatize_object_pages_frame timing_record_write_def sample_seg started_running
    started_seg zero_pseg_def)

lemma sample_ready_tls: "tls sample_ready t = sample_tl"
  by (simp add: sample_ready_def stm_flags_or_def sample_owned_eq write_slowpath_owned_def claim_object_def Let_def
    stm_flags_and_not_def privatize_object_pages_frame timing_record_write_def sample_frame stm_read_def
    set_stm_flags_def vstore32_def vfill_def)

lemma page_privatize_time: "global_start_time (page_privatize me p s) = global_start_time s"
  by (simp add: page_privatize_def Let_def pagecopy_def memcpy_def d_remap_file_pages_def upd_ctl_def)

lemma privatize_object_pages_time: "global_start_time (privatize_object_pages X me obj s) = global_start_time s"
  by (simp add: privatize_object_pages_def Let_def foreach_f_def fold_frame page_privatize_time)

lemma reset_object_cards_time: "global_start_time (reset_object_cards X g obj v a s) = global_start_time s"
  by (simp add: reset_object_cards_eq set_stm_flags_def vstore32_def)

lemma sample_ready_time: "global_start_time sample_ready = 2"
  by (simp add: sample_ready_def stm_flags_or_def sample_owned_eq write_slowpath_owned_def claim_object_def Let_def
    stm_flags_and_not_def privatize_object_pages_time timing_record_write_def sample_def started_running
    reset_object_cards_time set_stm_flags_def vstore32_def stm_read_def)

section \<open>The arena\<close>

text \<open>The arena of the started library is one free chunk, in the last bin.\<close>

lemma running_lm:
  "largebins (lm running) = (\<lambda>_. [])(83 := [Unsorted NURSERY_END])"
  "chunk_size (lm running) NURSERY_END = (NB_PAGES - END_NURSERY_PAGE) * 4096 - 32"
  "uninitialized_page_start running = NURSERY_END" "uninitialized_page_stop running = NB_PAGES * 4096"
  by (simp_all add: started_running started_def stm_setup_def Let_def setup_gcpage_def setup_finalizer_def upd_ctl_def
    largemalloc_init_arena_def insert_unsorted_def bin_of_size_def lm_consts page_consts fun_eq_iff)

lemma higher_skip:
  "\<forall>j. i \<le> j \<longrightarrow> j < i + k \<longrightarrow> largebins s j = [] \<Longrightarrow> largebins s (i + k) \<noteq> [] \<Longrightarrow> k < n \<Longrightarrow>
   higher_bins n i s = Some (last (largebins (sort_bin (i + k) s) (i + k)), sort_bin (i + k) s)"
proof (induction n arbitrary: i k)
  case (Suc n)
  show ?case
  proof (cases k)
    case (Suc k')
    have "higher_bins n (Suc i) s = Some (last (largebins (sort_bin (Suc i + k') s) (Suc i + k')), sort_bin (Suc i + k') s)"
      by (rule Suc.IH) (use Suc.prems Suc in auto)
    then show ?thesis using Suc.prems Suc by simp
  qed (use Suc.prems in \<open>simp add: Let_def\<close>)
qed simp

lemma running_malloc: "\<exists>l. large_malloc ENTRY_SIZE (lm running) = (Some (NURSERY_END + 16), l)"
proof -
  have "higher_bins 83 (Suc 0) (lm running) =
    Some (last (largebins (sort_bin (1 + 82) (lm running)) (1 + 82)), sort_bin (1 + 82) (lm running))"
    using higher_skip [of "Suc 0" 82 "lm running" 83] by (simp add: running_lm)
  then have h: "higher_bins 83 (Suc 0) (lm running) = Some (Sorted [NURSERY_END],
      (lm running)\<lparr>largebins := (\<lambda>_. [])(83 := [Sorted [NURSERY_END]])\<rparr>)"
    by (simp add: sort_bin_def running_lm really_sort_bin_def main_chunk_def)
  show ?thesis
    by (simp add: large_malloc_def ENTRY_SIZE_def lm_consts largebin_index_def sort_bin_def running_lm scan_bin_def h
      Let_def large_malloc_found_def main_chunk_def case_prod_beta)
qed

lemma running_alloc: "\<exists>s1. allocate_outside_nursery_large ENTRY_SIZE running = Ret (NURSERY_END + 16) s1"
proof -
  obtain l where l: "large_malloc ENTRY_SIZE (lm running) = (Some (NURSERY_END + 16), l)" using running_malloc by blast
  show ?thesis
    unfolding allocate_outside_nursery_large_def l
    by (simp add: grow_large_def running_lm ENTRY_SIZE_def GCPAGE_NUM_PAGES_def page_consts)
qed

end
