(* ===== verification/Threads.thy ===== *)
theory Threads
  imports Setup
begin

text \<open>
  The circular doubly-linked list of the registered thread-locals (\<open>setup.c\<close>). Registering
  appends, before the head; unregistering unlinks, and moves the head on when it was the head.
\<close>

section \<open>The ring\<close>

fun links :: "stm \<Rightarrow> nat list \<Rightarrow> bool" where
  "links s (x # y # xs) \<longleftrightarrow> tl_next (tls s x) = Some y \<and> tl_prev (tls s y) = Some x \<and> links s (y # xs)"
| "links s xs \<longleftrightarrow> True"

definition ring :: "stm \<Rightarrow> nat list \<Rightarrow> bool" where
  "ring s ts \<longleftrightarrow> distinct ts \<and>
     (case ts of [] \<Rightarrow> stm_all_thread_locals s = None
      | h # _ \<Rightarrow> stm_all_thread_locals s = Some h \<and> links s (ts @ [h]))"

lemma links_append: "links s (xs @ y # ys) \<longleftrightarrow> links s (xs @ [y]) \<and> links s (y # ys)"
proof (induction xs)
  case (Cons x xs)
  then show ?case by (cases xs) auto
qed simp

lemma links_cong:
  assumes "links s xs" and "\<And>x. x \<in> set (butlast xs) \<Longrightarrow> tl_next (tls s' x) = tl_next (tls s x)"
    and "\<And>x. x \<in> set (tl xs) \<Longrightarrow> tl_prev (tls s' x) = tl_prev (tls s x)"
  shows "links s' xs"
  using assms by (induction s xs rule: links.induct) (auto split: if_splits)

lemma links_ends:
  assumes "links s (x # xs @ [y])"
  shows "tl_next (tls s x) = Some (hd (xs @ [y]))" and "tl_prev (tls s y) = Some (last (x # xs))"
proof -
  show "tl_next (tls s x) = Some (hd (xs @ [y]))" using assms by (cases xs) auto
  show "tl_prev (tls s y) = Some (last (x # xs))"
  proof (cases xs rule: rev_cases)
    case (snoc ys z)
    then show ?thesis using assms links_append [of s "x # ys" z "[y]"] by simp
  qed (use assms in simp)
qed

section \<open>Registering\<close>

lemma register_ring:
  assumes r: "ring s ts" and t: "t \<notin> set ts"
  shows "ring (snd (stm_register_thread_local t s)) (ts @ [t])"
proof (cases ts)
  case Nil
  then show ?thesis using r
    by (simp add: ring_def stm_register_thread_local_def Let_def init_shadow_stack_def upd_tl_def)
next
  case (Cons h us)
  let ?s' = "snd (stm_register_thread_local t s)" and ?l = "last ts"
  have h: "stm_all_thread_locals s = Some h" "links s (h # us @ [h])" "distinct ts" using r by (simp_all add: ring_def Cons)
  have th: "t \<noteq> h" using t by (simp add: Cons)
  have pv: "tl_prev (tls s h) = Some ?l" using links_ends(2) [OF h(2)] by (simp add: Cons)
  have lt: "?l \<noteq> t" using t Cons by (metis last_in_set list.distinct(1))
  have all: "stm_all_thread_locals ?s' = Some h"
    using h(1) by (simp add: stm_register_thread_local_def init_shadow_stack_def upd_tl_def case_prod_beta Let_def del: fun_upd_apply)
  have nx: "tl_next (tls ?s' x) = (if x = t then Some h else if x = ?l then Some t else tl_next (tls s x))" for x
    using h(1) th pv lt by (simp add: stm_register_thread_local_def Let_def init_shadow_stack_def upd_tl_def)
  have pr: "tl_prev (tls ?s' x) = (if x = t then Some ?l else if x = h then Some t else tl_prev (tls s x))" for x
    using h(1) th pv lt by (simp add: stm_register_thread_local_def Let_def init_shadow_stack_def upd_tl_def)
  have ne: "ts = butlast ts @ [?l]" by (simp add: Cons)
  have "links ?s' ts"
  proof (rule links_cong)
    have "links s (butlast ts @ [?l] @ [h])" using h(2) ne by (metis append_assoc append_Cons Cons)
    then show "links s ts" using links_append [of s "butlast ts" ?l "[h]"] ne by simp
    show "tl_next (tls ?s' x) = tl_next (tls s x)" if x: "x \<in> set (butlast ts)" for x
    proof -
      have "x \<noteq> ?l" using x h(3) ne by (metis distinct_append disjoint_iff list.set_intros(1))
      moreover have "x \<noteq> t" using in_set_butlastD [OF x] t by auto
      ultimately show ?thesis by (simp add: nx)
    qed
    show "tl_prev (tls ?s' x) = tl_prev (tls s x)" if x: "x \<in> set (tl ts)" for x
    proof -
      have "x \<noteq> h" "x \<noteq> t" using x h(3) t by (auto simp: Cons)
      then show ?thesis by (simp add: pr)
    qed
  qed
  moreover have "links ?s' (?l # t # [h])" using th lt by (simp add: nx pr)
  ultimately have "links ?s' (butlast ts @ ?l # [t, h])" using links_append [of ?s' "butlast ts" ?l "[t, h]"] ne by simp
  then have "links ?s' ((ts @ [t]) @ [h])" using ne by (metis append_assoc append_Cons append_Nil)
  then show ?thesis using all h(3) t by (simp add: ring_def Cons)
qed

lemma register_number: "associated_segment_num (tls (snd (stm_register_thread_local t s)) t) \<in> {1..4}"
proof -
  have *: "x mod NB_SEGMENTS + 1 \<in> {1..4}" for x
    using mod_less_divisor [of 4 x] by (simp add: NB_SEGMENTS_def)
  show ?thesis using *
    by (simp add: stm_register_thread_local_def init_shadow_stack_def upd_tl_def case_prod_beta Let_def del: atLeastAtMost_iff)
qed

section \<open>Unregistering\<close>

lemma unregister_last:
  assumes "ring s [t]"
  shows "ring (stm_unregister_thread_local t s) []" and "is_tl_registered t (stm_unregister_thread_local t s)"
  using assms by (simp_all add: ring_def stm_unregister_thread_local_def done_shadow_stack_def upd_tl_def Let_def
      is_tl_registered_def)

lemma unregister_fields:
  assumes p: "tl_prev (tls s t) = Some p" and q: "tl_next (tls s t) = Some q" and ne: "p \<noteq> t" "q \<noteq> t"
  defines "s' \<equiv> stm_unregister_thread_local t s"
  shows "tl_next (tls s' x) = (if x = t then None else if x = p then Some q else tl_next (tls s x))"
    and "tl_prev (tls s' x) = (if x = t then None else if x = q then Some p else tl_prev (tls s x))"
    and "stm_all_thread_locals s' = (if stm_all_thread_locals s = Some t then Some q else stm_all_thread_locals s)"
  using assms by (simp_all add: s'_def stm_unregister_thread_local_def done_shadow_stack_def upd_tl_def Let_def)

lemma unregister_head:
  assumes r: "ring s (t # ys)" and ne: "ys \<noteq> []"
  shows "ring (stm_unregister_thread_local t s) ys" and "\<not> is_tl_registered t (stm_unregister_thread_local t s)"
proof -
  let ?s' = "stm_unregister_thread_local t s" and ?p = "last ys" and ?q = "hd ys"
  have l: "links s (t # ys @ [t])" "distinct (t # ys)" "stm_all_thread_locals s = Some t" using r by (simp_all add: ring_def)
  have pq: "tl_prev (tls s t) = Some ?p" "tl_next (tls s t) = Some ?q" using links_ends [OF l(1)] ne by simp_all
  have nt: "?p \<noteq> t" "?q \<noteq> t" using l(2) ne last_in_set [OF ne] hd_in_set [OF ne] by auto
  note f = unregister_fields [OF pq nt]
  have yb: "ys = butlast ys @ [?p]" "ys = ?q # tl ys" using ne by simp_all
  have "links ?s' ys"
  proof (rule links_cong)
    have "links s (t # butlast ys @ ?p # [t])" using l(1) yb(1) by (metis append_assoc append_Cons append_Nil)
    then have "links s (t # ys)" using links_append [of s "t # butlast ys" ?p "[t]"] yb(1) by simp
    then show "links s ys" using yb(2) by (metis links.simps(1))
    show "tl_next (tls ?s' x) = tl_next (tls s x)" if x: "x \<in> set (butlast ys)" for x
    proof -
      have "x \<noteq> ?p" using x l(2) yb(1) by (metis distinct.simps(2) distinct_append disjoint_iff list.set_intros(1))
      moreover have "x \<noteq> t" using in_set_butlastD [OF x] l(2) by auto
      ultimately show ?thesis by (simp add: f)
    qed
    show "tl_prev (tls ?s' x) = tl_prev (tls s x)" if x: "x \<in> set (tl ys)" for x
    proof -
      have "x \<noteq> ?q" "x \<noteq> t" using x l(2) yb(2) by (metis distinct.simps(2), metis distinct.simps(2) list.set_intros(2))
      then show ?thesis by (simp add: f)
    qed
  qed
  moreover have "links ?s' (?p # [?q])" using nt by (simp add: f)
  ultimately have "links ?s' (butlast ys @ ?p # [?q])" using links_append [of ?s' "butlast ys" ?p "[?q]"] yb(1) by simp
  then have "links ?s' (ys @ [?q])" using yb(1) by (metis append_assoc append_Cons append_Nil)
  then show "ring ?s' ys" using l f(3) yb(2) by (cases ys) (simp_all add: ring_def)
  show "\<not> is_tl_registered t ?s'" by (simp add: is_tl_registered_def f)
qed

lemma unregister_inner:
  assumes r: "ring s (xs @ t # ys)" and ne: "xs \<noteq> []"
  shows "ring (stm_unregister_thread_local t s) (xs @ ys)" and "\<not> is_tl_registered t (stm_unregister_thread_local t s)"
proof -
  let ?s' = "stm_unregister_thread_local t s" and ?h = "hd xs" and ?p = "last xs" and ?q = "hd (ys @ [hd xs])"
  have xb: "xs = butlast xs @ [?p]" "xs = ?h # tl xs" using ne by simp_all
  have d: "distinct xs" "distinct ys" "t \<notin> set xs" "t \<notin> set ys" "set xs \<inter> set ys = {}"
    using r by (auto simp: ring_def split: list.splits)
  have l: "links s (xs @ t # ys @ [?h])" "stm_all_thread_locals s = Some ?h"
    using r ne by (cases xs; simp add: ring_def)+
  have l2: "links s (xs @ [t])" "links s (t # ys @ [?h])" using l(1) links_append [of s xs t "ys @ [?h]"] by auto
  have l3: "links s xs" "links s [?p, t]"
    using l2(1) links_append [of s "butlast xs" ?p "[t]"] xb(1) by (metis append_assoc append_Cons append_Nil)+
  have pq: "tl_prev (tls s t) = Some ?p" "tl_next (tls s t) = Some ?q" using l3(2) links_ends(1) [OF l2(2)] by simp_all
  have nt: "?p \<noteq> t" "?q \<noteq> t" using d last_in_set [OF ne] hd_in_set [OF ne] by (auto simp: hd_append)
  note f = unregister_fields [OF pq nt]
  have "links ?s' xs"
  proof (rule links_cong [OF l3(1)])
    show "tl_next (tls ?s' x) = tl_next (tls s x)" if x: "x \<in> set (butlast xs)" for x
    proof -
      have "x \<noteq> ?p" using x d(1) xb(1) by (metis distinct_append disjoint_iff list.set_intros(1))
      moreover have "x \<noteq> t" using in_set_butlastD [OF x] d(3) by auto
      ultimately show ?thesis by (simp add: f)
    qed
    show "tl_prev (tls ?s' x) = tl_prev (tls s x)" if x: "x \<in> set (tl xs)" for x
    proof -
      have "x \<in> set xs" "x \<noteq> ?h" using x xb(2) d(1) by (metis list.set_intros(2), metis distinct.simps(2))
      then have "x \<noteq> ?q" "x \<noteq> t" using d by (cases ys; auto)+
      then show ?thesis by (simp add: f)
    qed
  qed
  moreover have "links ?s' (?p # ys @ [?h])"
  proof -
    have "links s (ys @ [?h])" using l2(2) by (cases ys) simp_all
    then have "links ?s' (ys @ [?h])"
    proof (rule links_cong)
      show "tl_next (tls ?s' x) = tl_next (tls s x)" if "x \<in> set (butlast (ys @ [?h]))" for x
        using that d last_in_set [OF ne] by (auto simp: f)
      show "tl_prev (tls ?s' x) = tl_prev (tls s x)" if x: "x \<in> set (tl (ys @ [?h]))" for x
      proof -
        have "x \<noteq> ?q" "x \<noteq> t" using x d hd_in_set [OF ne] by (cases ys; auto)+
        then show ?thesis by (simp add: f)
      qed
    qed
    then show ?thesis using nt f by (cases ys) auto
  qed
  ultimately have "links ?s' (butlast xs @ ?p # ys @ [?h])" using links_append [of ?s' "butlast xs" ?p "ys @ [?h]"] xb(1) by simp
  then have "links ?s' ((xs @ ys) @ [?h])" using xb(1) by (metis append_assoc append_Cons append_Nil)
  moreover have "?h \<noteq> t" using d hd_in_set [OF ne] by auto
  ultimately show "ring ?s' (xs @ ys)" using l(2) f(3) d ne by (cases xs) (auto simp: ring_def)
  show "\<not> is_tl_registered t ?s'" by (simp add: is_tl_registered_def f)
qed

text \<open>Unregistering the only thread leaves its own links in place, and it looks registered.\<close>

lemma unregister_ring:
  assumes r: "ring s ts" and t: "t \<in> set ts"
  shows "ring (stm_unregister_thread_local t s) (remove1 t ts)"
    and "is_tl_registered t (stm_unregister_thread_local t s) \<longleftrightarrow> ts = [t]"
proof -
  obtain xs ys where ts: "ts = xs @ t # ys" using t by (auto dest: split_list)
  have "t \<notin> set xs" using r ts by (auto simp: ring_def)
  then have rm: "remove1 t ts = xs @ ys" by (simp add: ts remove1_append)
  consider "xs = []" "ys = []" | "xs = []" "ys \<noteq> []" | "xs \<noteq> []" by blast
  then have "ring (stm_unregister_thread_local t s) (xs @ ys) \<and>
    (is_tl_registered t (stm_unregister_thread_local t s) \<longleftrightarrow> ts = [t])"
  proof cases
    case 1
    then show ?thesis using unregister_last r ts by simp
  next
    case 2
    then show ?thesis using unregister_head [of s t ys] r ts by simp
  next
    case 3
    then show ?thesis using unregister_inner [of s xs t ys] r ts by (auto simp: append_eq_Cons_conv)
  qed
  then show "ring (stm_unregister_thread_local t s) (remove1 t ts)"
    "is_tl_registered t (stm_unregister_thread_local t s) \<longleftrightarrow> ts = [t]" by (simp_all add: rm)
qed

end
