(* ===== verification/Marking.thy ===== *)
theory Marking
  imports Majorgc Threads
begin

text \<open>
  What the mark phase of the major collection marks: exactly the objects that some segment, or
  the shared copy, can reach from its roots, each in its own view.
\<close>

section \<open>Reachability\<close>

text \<open>The pointers among the entries of a shadow stack.\<close>

definition ss_pointers :: "nat list \<Rightarrow> nat set" where
  "ss_pointers xs = {x \<in> set xs. x AND 3 = 0}"

definition marker_objects :: "pseg \<Rightarrow> nat set" where
  "marker_objects p =
     (let lst = modified_old_objects_markers p
      in {lst ! i |i. i < length lst \<and> even (length lst - Suc i)} \<union>
         (if marker_inev_segment_base p \<noteq> 0 then {marker_inev_object p} else {}))"

definition pending_finalizers :: "nat \<Rightarrow> stm \<Rightarrow> nat set" where
  "pending_finalizers j s =
     (case get_finalizers j s of None \<Rightarrow> {} | Some f \<Rightarrow> (case run_finalizers f of None \<Rightarrow> {} | Some lst \<Rightarrow> set lst))"

definition modified_roots :: "stm \<Rightarrow> (nat \<times> nat) set" where
  "modified_roots s = (\<Union>i \<in> {1..4}. \<Union>item \<in> set (modified_old_objects (segs s i)). {(0, item), (i, item)})"

definition thread_roots :: "nat \<Rightarrow> stm \<Rightarrow> (nat \<times> nat) set" where
  "thread_roots t s = Pair (associated_segment_num (tls s t)) `
     (ss_pointers (shadowstack (tls s t)) \<union> {thread_local_obj (tls s t)})"

text \<open>The saved shadow stack of a running transaction, and its \<open>thread_local_obj\<close>, for an abort.\<close>

definition transaction_roots :: "nat \<Rightarrow> stm \<Rightarrow> (nat \<times> nat) set" where
  "transaction_roots i s =
     (if transaction_state (segs s i) = TS_NONE then {}
      else insert (i, threadlocal_at_start_of_transaction (segs s i))
        (Pair 0 ` ss_pointers (concat (map ss_entries (moved_off (rjthread (tls s (the (running_thread (segs s i)))))))))) "

text \<open>A root is a segment, in whose view the object is looked at, and the object.\<close>

definition roots :: "nat list \<Rightarrow> stm \<Rightarrow> (nat \<times> nat) set" where
  "roots ts s = modified_roots s \<union> (\<Union>j \<in> {1..4}. Pair j ` marker_objects (segs s j)) \<union>
     Pair 0 ` (case testing_prebuilt_objs s of None \<Rightarrow> {} | Some lst \<Rightarrow> set lst) \<union>
     (\<Union>t \<in> set ts. thread_roots t s) \<union> (\<Union>i \<in> {1..4}. transaction_roots i s) \<union>
     (\<Union>j \<in> {0..4}. Pair j ` pending_finalizers j s)"

inductive live :: "ext \<Rightarrow> stm \<Rightarrow> (nat \<times> nat) set \<Rightarrow> nat \<Rightarrow> nat \<Rightarrow> bool" for X s R where
  root: "live X s R g obj" if "(g, obj) \<in> R" and "obj \<noteq> 0"
| field: "live X s R g p" if "live X s R g obj" and "p \<in> set (obj_refs X s g obj)" and "p \<noteq> 0"

definition live_objects :: "ext \<Rightarrow> stm \<Rightarrow> (nat \<times> nat) set \<Rightarrow> nat set" where
  "live_objects X s R = {obj. \<exists>g. live X s R g obj}"

text \<open>
  The heap can be marked: the live objects have different marks, none set; segments that did
  not modify an object agree on what it refers to.
\<close>

definition coherent :: "ext \<Rightarrow> stm \<Rightarrow> (nat \<times> nat) set \<Rightarrow> bool" where
  "coherent X s R \<longleftrightarrow> (\<forall>g h obj. live X s R g obj \<longrightarrow> live X s R h obj \<longrightarrow>
     obj \<notin> set (modified_old_objects (segs s g)) \<longrightarrow> obj \<notin> set (modified_old_objects (segs s h)) \<longrightarrow>
     set (obj_refs X s g obj) = set (obj_refs X s h obj))"

definition markable :: "ext \<Rightarrow> stm \<Rightarrow> (nat \<times> nat) set \<Rightarrow> bool" where
  "markable X s R \<longleftrightarrow> finite (live_objects X s R) \<and> inj_on mark_loc (live_objects X s R) \<and>
     (\<forall>obj \<in> live_objects X s R. \<not> mark_visited_test s obj)"

section \<open>States during the mark phase\<close>

definition visit :: "nat set \<Rightarrow> stm \<Rightarrow> stm" where
  "visit N s = s\<lparr>write_locks := (\<lambda>i. if i \<in> mark_loc ` N then WL_VISITED else write_locks s i)\<rparr>"

lemma obj_refs_write_locks: "obj_refs X (s\<lparr>write_locks := w\<rparr>) g obj = obj_refs X s g obj"
proof -
  have "obj_bytes (s\<lparr>write_locks := w\<rparr>) g obj = obj_bytes s g obj" by (simp add: obj_bytes_def fun_eq_iff)
  then show ?thesis by (simp add: obj_refs_def vload64_def)
qed

lemma visit_frame [simp]:
  "segs (visit N s) = segs s" "tls (visit N s) = tls s" "stm_all_thread_locals (visit N s) = stm_all_thread_locals s"
  "testing_prebuilt_objs (visit N s) = testing_prebuilt_objs s" "get_finalizers j (visit N s) = get_finalizers j s"
  "obj_refs X (visit N s) g obj = obj_refs X s g obj" "vread (visit N s) = vread s"
  by (simp_all add: visit_def get_finalizers_def obj_refs_write_locks)

lemma visit_empty [simp]: "visit {} s = s"
  by (simp add: visit_def)

lemma visit_lock: "(visit N s)\<lparr>write_locks := (write_locks (visit N s))(mark_loc obj := WL_VISITED)\<rparr> = visit (insert obj N) s"
  by (auto simp: visit_def fun_eq_iff)

lemma test_and_set_visit:
  assumes "markable X s R" and "N \<subseteq> live_objects X s R" and "obj \<in> live_objects X s R"
  shows "mark_visited_test_and_set obj (visit N s) = (obj \<in> N, visit (insert obj N) s)"
proof (cases "obj \<in> N")
  case True
  then show ?thesis by (simp add: mark_visited_test_and_set_def visit_def insert_absorb)
next
  case False
  then have "mark_loc obj \<notin> mark_loc ` N"
    using assms inj_onD [of mark_loc "live_objects X s R"] unfolding markable_def by blast
  moreover have "write_locks s (mark_loc obj) \<noteq> WL_VISITED"
    using assms(1,3) by (simp add: markable_def mark_visited_test_def)
  ultimately have "write_locks (visit N s) (mark_loc obj) \<noteq> WL_VISITED" by (simp add: visit_def)
  then show ?thesis using False by (simp add: mark_visited_test_and_set_def visit_lock)
qed

lemma record_refs:
  assumes m: "markable X s R" and "N \<subseteq> live_objects X s R" and "set ps - {0} \<subseteq> live_objects X s R"
  shows "\<exists>new. fold mark_record_trace ps (tt, visit N s) = (tt @ new, visit (N \<union> (set ps - {0})) s) \<and>
    set new = set ps - {0} - N \<and> distinct new"
  using assms(2,3)
proof (induction ps arbitrary: tt N)
  case (Cons p ps)
  show ?case
  proof (cases "p = 0")
    case True
    then show ?thesis using Cons.IH [of N tt] Cons.prems by (auto simp: mark_record_trace_def)
  next
    case False
    have p: "p \<in> live_objects X s R" using False Cons.prems(2) by auto
    let ?t = "if p \<in> N then tt else tt @ [p]"
    have step: "mark_record_trace p (tt, visit N s) = (?t, visit (insert p N) s)"
      using False by (simp add: mark_record_trace_def test_and_set_visit [OF m Cons.prems(1) p])
    have "insert p N \<subseteq> live_objects X s R" "set ps - {0} \<subseteq> live_objects X s R" using p Cons.prems by auto
    from Cons.IH [OF this, of ?t] obtain new where
      new: "fold mark_record_trace ps (?t, visit (insert p N) s) = (?t @ new, visit (insert p N \<union> (set ps - {0})) s)"
      "set new = set ps - {0} - insert p N" "distinct new" by blast
    have eq: "insert p N \<union> (set ps - {0}) = N \<union> (set (p # ps) - {0})" using False by auto
    show ?thesis
    proof (cases "p \<in> N")
      case True
      then show ?thesis using new step eq False by (intro exI [of _ new]) auto
    next
      case nN: False
      then show ?thesis using new step eq False by (intro exI [of _ "p # new"]) auto
    qed
  qed
qed (simp add: visit_def)

section \<open>Tracing\<close>

text \<open>
  \<open>N\<close> is the set of the objects marked so far. Each has been traced in a view in which it is live,
  except for the modified objects, which are traced in two views at any rate, and the ones that
  are still to be traced.
\<close>

definition mods_all :: "stm \<Rightarrow> nat set" where
  "mods_all s = (\<Union>i \<in> {1..4}. set (modified_old_objects (segs s i)))"

definition refs :: "ext \<Rightarrow> stm \<Rightarrow> nat \<Rightarrow> nat \<Rightarrow> nat set" where
  "refs X s g obj = set (obj_refs X s g obj) - {0}"

definition marked_ok :: "ext \<Rightarrow> stm \<Rightarrow> (nat \<times> nat) set \<Rightarrow> nat set \<Rightarrow> bool" where
  "marked_ok X s R N \<longleftrightarrow> N \<subseteq> live_objects X s R \<and>
     (\<forall>obj \<in> N. obj \<in> mods_all s \<or> (\<exists>g. live X s R g obj \<and> refs X s g obj \<subseteq> N))"

lemma live_refs: "live X s R g obj \<Longrightarrow> refs X s g obj \<subseteq> live_objects X s R"
  by (auto simp: refs_def live_objects_def intro: live.field)

lemma mark_trace_loop_ok:
  assumes m: "markable X s R" and "N \<subseteq> live_objects X s R" and "live X s R g obj"
    and "\<forall>x \<in> set tt. live X s R g x \<and> x \<in> N" and "card (live_objects X s R - N) + length tt < fuel"
  shows "\<exists>N'. mark_trace_loop fuel X g obj tt (visit N s) = Ret () (visit N' s) \<and> N \<subseteq> N' \<and> N' \<subseteq> live_objects X s R \<and>
    refs X s g obj \<subseteq> N' \<and> (\<forall>x \<in> set tt \<union> (N' - N). live X s R g x \<and> refs X s g x \<subseteq> N')"
  using assms(2-)
proof (induction fuel arbitrary: N obj tt)
  case (Suc fuel)
  let ?L = "live_objects X s R" and ?r = "refs X s g obj"
  have r: "?r \<subseteq> ?L" by (rule live_refs [OF Suc.prems(2)])
  obtain new where new: "fold mark_record_trace (obj_refs X s g obj) (tt, visit N s) = (tt @ new, visit (N \<union> ?r) s)"
    "set new = ?r - N" "distinct new" using record_refs [OF m Suc.prems(1)] r unfolding refs_def by blast
  have lnew: "live X s R g x" if "x \<in> set new" for x
    using that new(2) Suc.prems(2) by (auto simp: refs_def intro: live.field)
  show ?case
  proof (cases "tt @ new = []")
    case True
    then have "N \<union> ?r = N" using new(2) by auto
    then show ?thesis using True new(1) Suc.prems(1) r by (intro exI [of _ N]) auto
  next
    case False
    let ?N = "N \<union> ?r" and ?x = "last (tt @ new)" and ?t = "butlast (tt @ new)"
    have tx: "set (tt @ new) = insert ?x (set ?t)"
      using False append_butlast_last_id [OF False] by (metis Un_insert_right list.simps(15) set_append sup_bot.right_neutral list.set(1))
    have fin: "finite (?L - N)" using m by (simp add: markable_def)
    have "card (?L - ?N) + length new = card (?L - N)"
    proof -
      have "?L - N = (?L - ?N) \<union> set new" using new(2) r by auto
      moreover have "(?L - ?N) \<inter> set new = {}" using new(2) by auto
      moreover have "card (set new) = length new" by (rule distinct_card [OF new(3)])
      ultimately show ?thesis using fin by (metis card_Un_disjoint finite_Un)
    qed
    moreover have "length ?t < length tt + length new" using False by simp
    ultimately have fuel: "card (?L - ?N) + length ?t < fuel" using Suc.prems(4) by simp
    have all: "\<forall>x \<in> set (tt @ new). live X s R g x \<and> x \<in> ?N" using Suc.prems(3) lnew new(2) by auto
    have "?N \<subseteq> ?L" "live X s R g ?x" "\<forall>x \<in> set ?t. live X s R g x \<and> x \<in> ?N" using Suc.prems(1) r all tx by auto
    from Suc.IH [OF this fuel] obtain N' where N': "mark_trace_loop fuel X g ?x ?t (visit ?N s) = Ret () (visit N' s)"
      "?N \<subseteq> N'" "N' \<subseteq> ?L" "refs X s g ?x \<subseteq> N'" "\<forall>x \<in> set ?t \<union> (N' - ?N). live X s R g x \<and> refs X s g x \<subseteq> N'" by blast
    have "live X s R g x \<and> refs X s g x \<subseteq> N'" if x: "x \<in> set tt \<union> (N' - N)" for x
    proof -
      have "x \<in> insert ?x (set ?t) \<or> x \<in> N' - ?N" using x new(2) tx by auto
      then show ?thesis using N'(4,5) all tx by auto
    qed
    moreover have "mark_trace_loop (Suc fuel) X g obj tt (visit N s) = mark_trace_loop fuel X g ?x ?t (visit ?N s)"
      using new(1) False by (simp only: mark_trace_loop.simps visit_frame Let_def prod.case if_False)
    ultimately show ?thesis using N' by (intro exI [of _ N']) simp
  qed
qed simp

section \<open>Steps of the mark phase\<close>

text \<open>A step that, with enough fuel, returns and marks at least \<open>A\<close>.\<close>

definition marks :: "ext \<Rightarrow> stm \<Rightarrow> (nat \<times> nat) set \<Rightarrow> nat set \<Rightarrow> (stm \<Rightarrow> (stm, unit) res) \<Rightarrow> bool" where
  "marks X s R A f \<longleftrightarrow> (\<forall>N. marked_ok X s R N \<longrightarrow>
     (\<exists>N'. f (visit N s) = Ret () (visit N' s) \<and> N \<union> A \<subseteq> N' \<and> marked_ok X s R N'))"

lemma marks_skip: "marks X s R {} (\<lambda>t. Ret () t)"
  by (auto simp: marks_def)

lemma marks_seq:
  assumes "marks X s R A f" and "marks X s R B (g ())"
  shows "marks X s R (A \<union> B) (\<lambda>t. bind_res (f t) g)"
  unfolding marks_def
proof (intro allI impI)
  fix N assume "marked_ok X s R N"
  then obtain N1 where N1: "f (visit N s) = Ret () (visit N1 s)" "N \<union> A \<subseteq> N1" "marked_ok X s R N1"
    using assms(1) unfolding marks_def by blast
  obtain N2 where "g () (visit N1 s) = Ret () (visit N2 s)" "N1 \<union> B \<subseteq> N2" "marked_ok X s R N2"
    using assms(2) N1(3) unfolding marks_def by blast
  then show "\<exists>N'. bind_res (f (visit N s)) g = Ret () (visit N' s) \<and> N \<union> (A \<union> B) \<subseteq> N' \<and> marked_ok X s R N'"
    using N1(1,2) by (intro exI [of _ N2]) auto
qed

lemma marks_each:
  assumes "\<And>x. x \<in> set xs \<Longrightarrow> marks X s R (A x) (f x)"
  shows "marks X s R (\<Union>x \<in> set xs. A x) (foreach_res xs f)"
  using assms
proof (induction xs)
  case (Cons x xs)
  have eq: "foreach_res (x # xs) f = (\<lambda>t. bind_res (f x t) (\<lambda>_. foreach_res xs f))" by (simp add: fun_eq_iff)
  show ?case using marks_seq [of X s R "A x" "f x" _ "\<lambda>_. foreach_res xs f", OF Cons.prems [of x] Cons.IH] Cons.prems unfolding eq by simp
qed (simp add: marks_def, blast)

text \<open>A step may read the parts of the state that marking does not change.\<close>

lemma marks_cong: "(\<And>N. f (visit N s) = g (visit N s)) \<Longrightarrow> marks X s R A g \<Longrightarrow> marks X s R A f"
  by (simp add: marks_def)

lemma marks_mono: "marks X s R A f \<Longrightarrow> B \<subseteq> A \<Longrightarrow> marks X s R B f"
  unfolding marks_def by (meson Un_mono order_refl subset_trans)

text \<open>The mark phase has more fuel than there are live objects.\<close>

definition enough :: "ext \<Rightarrow> stm \<Rightarrow> (nat \<times> nat) set \<Rightarrow> nat \<Rightarrow> bool" where
  "enough X s R fuel \<longleftrightarrow> card (live_objects X s R) < fuel"

lemma mark_trace_ok:
  assumes m: "markable X s R" and f: "enough X s R fuel" and g: "live X s R g obj"
    and N: "N \<subseteq> live_objects X s R"
    and ok: "\<forall>x \<in> N. x = obj \<or> x \<in> mods_all s \<or> (\<exists>h. live X s R h x \<and> refs X s h x \<subseteq> N)"
  shows "\<exists>N'. mark_trace fuel X g obj (visit N s) = Ret () (visit N' s) \<and> N \<union> refs X s g obj \<subseteq> N' \<and> marked_ok X s R N'"
proof -
  let ?L = "live_objects X s R"
  have "finite ?L" using m by (simp add: markable_def)
  then have "card (?L - N) \<le> card ?L" by (simp add: card_mono)
  then have "card (?L - N) + length [] < fuel" using f by (simp add: enough_def)
  from mark_trace_loop_ok [OF m N g _ this] obtain N' where
    N': "mark_trace_loop fuel X g obj [] (visit N s) = Ret () (visit N' s)" "N \<subseteq> N'" "N' \<subseteq> ?L" "refs X s g obj \<subseteq> N'"
    "\<forall>x \<in> N' - N. live X s R g x \<and> refs X s g x \<subseteq> N'" by auto
  have "x \<in> mods_all s \<or> (\<exists>h. live X s R h x \<and> refs X s h x \<subseteq> N')" if x: "x \<in> N'" for x
  proof (cases "x \<in> N")
    case True
    then consider "x = obj" | "x \<in> mods_all s" | h where "live X s R h x" "refs X s h x \<subseteq> N" using ok by blast
    then show ?thesis
    proof cases
      case 3
      then show ?thesis using N'(2) by blast
    qed (use g N'(4) in blast)+
  next
    case False
    then show ?thesis using x N'(5) by blast
  qed
  then show ?thesis using N' unfolding mark_trace_def marked_ok_def by blast
qed

lemma mark_visit_object_ok:
  assumes m: "markable X s R" and f: "enough X s R fuel" and g: "obj \<noteq> 0 \<Longrightarrow> live X s R g obj"
  shows "marks X s R ({obj} - {0}) (mark_visit_object fuel X g obj)"
  unfolding marks_def
proof (intro allI impI)
  fix N assume N: "marked_ok X s R N"
  show "\<exists>N'. mark_visit_object fuel X g obj (visit N s) = Ret () (visit N' s) \<and> N \<union> ({obj} - {0}) \<subseteq> N' \<and> marked_ok X s R N'"
  proof (cases "obj = 0 \<or> obj \<in> N")
    case True
    have "obj \<in> live_objects X s R" if "obj \<noteq> 0" using g [OF that] by (auto simp: live_objects_def)
    then have "mark_visit_object fuel X g obj (visit N s) = Ret () (visit N s)"
      using True N test_and_set_visit [OF m, of N obj] by (auto simp: mark_visit_object_def marked_ok_def insert_absorb)
    then show ?thesis using True N by (intro exI [of _ N]) auto
  next
    case False
    have l: "live X s R g obj" "obj \<in> live_objects X s R" using g False by (auto simp: live_objects_def)
    have sub: "insert obj N \<subseteq> live_objects X s R" "N \<subseteq> live_objects X s R" using N l(2) by (auto simp: marked_ok_def)
    have ok: "\<forall>x \<in> insert obj N. x = obj \<or> x \<in> mods_all s \<or> (\<exists>h. live X s R h x \<and> refs X s h x \<subseteq> insert obj N)"
      using N unfolding marked_ok_def by (blast intro: subset_insertI2)
    from mark_trace_ok [OF m f l(1) sub(1) ok] obtain N' where
      "mark_trace fuel X g obj (visit (insert obj N) s) = Ret () (visit N' s)"
      "insert obj N \<union> refs X s g obj \<subseteq> N'" "marked_ok X s R N'" by blast
    then show ?thesis
      using False test_and_set_visit [OF m sub(2) l(2)]
      by (intro exI [of _ N']) (auto simp: mark_visit_object_def)
  qed
qed

section \<open>The roots\<close>

lemma mark_visit_entries_ok:
  assumes m: "markable X s R" and f: "enough X s R fuel" and g: "\<And>x. x \<in> ss_pointers xs \<Longrightarrow> x \<noteq> 0 \<Longrightarrow> live X s R g x"
  shows "marks X s R (ss_pointers xs - {0}) (mark_visit_entries fuel X g xs)"
proof -
  have each: "marks X s R (if x AND 3 = 0 then {x} - {0} else {})
      (\<lambda>t. if x AND 3 = 0 then mark_visit_object fuel X g x t else Ret () t)" if x: "x \<in> set xs" for x
    using mark_visit_object_ok [OF m f, of x g] g x marks_skip by (simp add: ss_pointers_def)
  have "marks X s R (\<Union>x \<in> set xs. if x AND 3 = 0 then {x} - {0} else {}) (mark_visit_entries fuel X g xs)"
    by (rule marks_cong [OF mark_visit_entries_def marks_each]) (rule each)
  then show ?thesis by (rule marks_mono) (auto simp: ss_pointers_def)
qed

lemma mark_visit_thread_ok:
  assumes m: "markable X s R" and f: "enough X s R fuel" and R: "thread_roots t s \<subseteq> R"
  shows "marks X s R (snd ` thread_roots t s - {0}) (mark_visit_thread fuel X t)"
proof -
  let ?g = "associated_segment_num (tls s t)" and ?ss = "shadowstack (tls s t)" and ?o = "thread_local_obj (tls s t)"
  have live: "live X s R ?g x" if "x \<in> insert ?o (ss_pointers ?ss)" "x \<noteq> 0" for x
    using that R by (auto simp: thread_roots_def intro: live.root)
  have "marks X s R (ss_pointers (rev ?ss) - {0}) (mark_visit_entries fuel X ?g (rev ?ss))"
    by (rule mark_visit_entries_ok [OF m f]) (simp add: live ss_pointers_def)
  moreover have "marks X s R ({?o} - {0}) (mark_visit_object fuel X ?g ?o)"
    by (rule mark_visit_object_ok [OF m f]) (simp add: live)
  then have "marks X s R ({?o} - {0}) (\<lambda>s. mark_visit_object fuel X ?g (thread_local_obj (tls s t)) s)"
    by (rule marks_cong [rotated]) simp
  ultimately have "marks X s R ((ss_pointers (rev ?ss) - {0}) \<union> ({?o} - {0})) (\<lambda>s'. bind_res
      (mark_visit_entries fuel X ?g (rev ?ss) s') (\<lambda>_ s. mark_visit_object fuel X ?g (thread_local_obj (tls s t)) s))"
    by (rule marks_seq)
  then have "marks X s R ((ss_pointers (rev ?ss) - {0}) \<union> ({?o} - {0})) (mark_visit_thread fuel X t)"
    by (rule marks_cong [rotated]) (simp add: mark_visit_thread_def Let_def)
  then show ?thesis by (rule marks_mono) (auto simp: thread_roots_def ss_pointers_def image_Un)
qed

text \<open>The ring of the registered thread-locals, from \<open>stm_all_thread_locals\<close> on.\<close>

fun next_chain :: "stm \<Rightarrow> nat list \<Rightarrow> nat option \<Rightarrow> bool" where
  "next_chain s [] e \<longleftrightarrow> True"
| "next_chain s [t] e \<longleftrightarrow> tl_next (tls s t) = e"
| "next_chain s (t # u # ts) e \<longleftrightarrow> tl_next (tls s t) = Some u \<and> next_chain s (u # ts) e"

definition next_ring :: "stm \<Rightarrow> nat list \<Rightarrow> bool" where
  "next_ring s ts \<longleftrightarrow> ts \<noteq> [] \<and> distinct ts \<and> stm_all_thread_locals s = Some (hd ts) \<and> next_chain s ts (Some (hd ts))"

lemma next_chain_links: "links s (ts @ [h]) \<Longrightarrow> next_chain s ts (Some h)"
  by (induction s ts "Some h" rule: next_chain.induct) auto

lemma ring_next: "ring s ts \<Longrightarrow> ts \<noteq> [] \<Longrightarrow> next_ring s ts"
  by (cases ts) (auto simp: ring_def next_ring_def intro: next_chain_links [of s "_ # _", simplified])

lemma next_chain_visit [simp]: "next_chain (visit N s) ts e = next_chain s ts e"
  by (induction s ts e rule: next_chain.induct) simp_all

lemma mark_visit_threads_ok:
  assumes m: "markable X s R" and f: "enough X s R fuel" and "(\<Union>t \<in> set ts. thread_roots t s) \<subseteq> R"
    and "next_chain s ts (stm_all_thread_locals s)" and "ts \<noteq> []" and "\<forall>t \<in> set (tl ts). Some t \<noteq> stm_all_thread_locals s"
    and "length ts \<le> n"
  shows "marks X s R (snd ` (\<Union>t \<in> set ts. thread_roots t s) - {0}) (mark_visit_threads n fuel X (Some (hd ts)))"
  using assms(3-)
proof (induction ts arbitrary: n)
  case (Cons t us)
  obtain n' where n: "n = Suc n'" using Cons.prems(5) by (cases n) auto
  have t: "marks X s R (snd ` thread_roots t s - {0}) (mark_visit_thread fuel X t)"
    by (rule mark_visit_thread_ok [OF m f]) (use Cons.prems(1) in auto)
  define k where "k = (\<lambda>s'. let t' = tl_next (tls s' t)
    in if t' \<noteq> stm_all_thread_locals s' then mark_visit_threads n' fuel X t' s' else Ret () s')"
  have k: "marks X s R (snd ` (\<Union>u \<in> set us. thread_roots u s) - {0}) k"
  proof (cases us)
    case Nil
    then have "k (visit N s) = Ret () (visit N s)" for N using Cons.prems(2) by (simp add: k_def)
    then have "marks X s R {} k" by (rule marks_cong) (rule marks_skip)
    then show ?thesis by (simp add: Nil)
  next
    case (Cons u vs)
    have "tl_next (tls s t) = Some u" "next_chain s us (stm_all_thread_locals s)" "Some u \<noteq> stm_all_thread_locals s"
      using Cons.prems(2,4) Cons by auto
    then have "k (visit N s) = mark_visit_threads n' fuel X (Some (hd us)) (visit N s)" for N
      using Cons by (simp add: k_def)
    moreover have "marks X s R (snd ` (\<Union>u \<in> set us. thread_roots u s) - {0}) (mark_visit_threads n' fuel X (Some (hd us)))"
      by (rule Cons.IH) (use Cons.prems n Cons \<open>next_chain s us (stm_all_thread_locals s)\<close> in auto)
    ultimately show ?thesis by (rule marks_cong)
  qed
  have "marks X s R ((snd ` thread_roots t s - {0}) \<union> (snd ` (\<Union>u \<in> set us. thread_roots u s) - {0}))
      (\<lambda>s'. bind_res (mark_visit_thread fuel X t s') (\<lambda>_. k))" by (rule marks_seq [OF t k])
  then have "marks X s R ((snd ` thread_roots t s - {0}) \<union> (snd ` (\<Union>u \<in> set us. thread_roots u s) - {0}))
      (mark_visit_threads n fuel X (Some (hd (t # us))))"
    by (rule marks_cong [rotated]) (simp add: n k_def)
  then show ?case by (rule marks_mono) auto
qed simp

lemma enum_slices_marks:
  assumes m: "markable X s R" and f: "enough X s R fuel"
    and "\<And>x. x \<in> ss_pointers (concat (map ss_entries ps)) \<Longrightarrow> x \<noteq> 0 \<Longrightarrow> live X s R 0 x" and "marks X s R A h"
  shows "marks X s R (A \<union> (ss_pointers (concat (map ss_entries ps)) - {0}))
    (\<lambda>t. snd (enum_slices k ps (mark_visit_objects_from_ss fuel X) (h t)))"
  using assms(3,4)
proof (induction ps arbitrary: A h k)
  case (Cons p ps)
  let ?h = "if ss_entries p \<noteq> [] then (\<lambda>t. bind_res (h t) (\<lambda>_. mark_visit_entries fuel X 0 (ss_entries p))) else h"
    and ?k = "if ss_entries p \<noteq> [] then k + length (ss_entries p) else k"
  have "marks X s R (ss_pointers (ss_entries p) - {0}) (mark_visit_entries fuel X 0 (ss_entries p))"
    by (rule mark_visit_entries_ok [OF m f]) (use Cons.prems(1) in \<open>simp add: ss_pointers_def\<close>)
  then have h: "marks X s R (A \<union> (ss_pointers (ss_entries p) - {0})) ?h"
    using marks_seq [OF Cons.prems(2)] Cons.prems(2) by (simp add: ss_pointers_def)
  have "marks X s R (A \<union> (ss_pointers (ss_entries p) - {0}) \<union> (ss_pointers (concat (map ss_entries ps)) - {0}))
      (\<lambda>t. snd (enum_slices ?k ps (mark_visit_objects_from_ss fuel X) (?h t)))"
    by (rule Cons.IH [OF _ h]) (use Cons.prems(1) in \<open>simp add: ss_pointers_def\<close>)
  then have "marks X s R (A \<union> (ss_pointers (concat (map ss_entries (p # ps))) - {0}))
      (\<lambda>t. snd (enum_slices ?k ps (mark_visit_objects_from_ss fuel X) (?h t)))"
    by (rule marks_mono) (auto simp: ss_pointers_def)
  then show ?case by (rule marks_cong [rotated]) (simp add: mark_visit_objects_from_ss_def [of fuel X k "ss_entries p"])
qed (simp add: ss_pointers_def)

lemma mark_visit_segment_roots_ok:
  assumes m: "markable X s R" and f: "enough X s R fuel" and R: "transaction_roots i s \<subseteq> R"
    and run: "transaction_state (segs s i) \<noteq> TS_NONE \<Longrightarrow> running_thread (segs s i) \<noteq> None"
  shows "marks X s R (snd ` transaction_roots i s - {0}) (mark_visit_segment_roots fuel X i)"
proof (cases "transaction_state (segs s i) = TS_NONE")
  case True
  have "marks X s R {} (mark_visit_segment_roots fuel X i)"
    by (rule marks_cong [OF _ marks_skip]) (simp add: mark_visit_segment_roots_def True)
  then show ?thesis by (simp add: transaction_roots_def True)
next
  case False
  obtain t where t: "running_thread (segs s i) = Some t" using run [OF False] by auto
  let ?o = "threadlocal_at_start_of_transaction (segs s i)" and ?ps = "moved_off (rjthread (tls s t))"
  have live: "?o \<noteq> 0 \<Longrightarrow> live X s R i ?o"
    and live_ss: "\<And>x. x \<in> ss_pointers (concat (map ss_entries ?ps)) \<Longrightarrow> x \<noteq> 0 \<Longrightarrow> live X s R 0 x"
    using R by (auto simp: transaction_roots_def False t intro: live.root)
  define k where "k = (\<lambda>s'. case running_thread (segs s' i) of None \<Rightarrow> Fatal ''running_thread'' s'
    | Some t \<Rightarrow> snd (rewind_jmp_enum_shadowstack (rjthread (tls s' t)) (mark_visit_objects_from_ss fuel X) (Ret () s')))"
  have "marks X s R ({} \<union> (ss_pointers (concat (map ss_entries ?ps)) - {0})) (\<lambda>s'. snd (enum_slices
      (the (moved_off_ssbase (rjthread (tls s t)))) ?ps (mark_visit_objects_from_ss fuel X) (Ret () s')))"
    by (rule enum_slices_marks [OF m f live_ss marks_skip])
  then have k: "marks X s R (ss_pointers (concat (map ss_entries ?ps)) - {0}) k"
    by (intro marks_cong [of k s "\<lambda>s'. snd (enum_slices (the (moved_off_ssbase (rjthread (tls s t)))) ?ps
      (mark_visit_objects_from_ss fuel X) (Ret () s'))"]) (simp_all add: k_def t rewind_jmp_enum_shadowstack_def)
  have "marks X s R (({?o} - {0}) \<union> (ss_pointers (concat (map ss_entries ?ps)) - {0}))
      (\<lambda>s'. bind_res (mark_visit_object fuel X i ?o s') (\<lambda>_. k))"
    by (rule marks_seq [OF mark_visit_object_ok [OF m f live] k])
  then have "marks X s R (({?o} - {0}) \<union> (ss_pointers (concat (map ss_entries ?ps)) - {0})) (mark_visit_segment_roots fuel X i)"
    by (rule marks_cong [rotated]) (simp add: mark_visit_segment_roots_def False k_def)
  then show ?thesis by (rule marks_mono) (auto simp: transaction_roots_def False t)
qed

definition visit_modified :: "nat \<Rightarrow> ext \<Rightarrow> nat \<Rightarrow> nat \<Rightarrow> stm \<Rightarrow> (stm, unit) res" where
  "visit_modified fuel X i item s =
     (let s = snd (mark_visited_test_and_set item s)
      in bind_res (mark_trace fuel X 0 item s) (\<lambda>_ s. mark_trace fuel X i item s))"

lemma visit_modified_ok:
  assumes m: "markable X s R" and f: "enough X s R fuel" and i: "i \<in> {1..4}" "item \<in> set (modified_old_objects (segs s i))"
    and nz: "item \<noteq> 0" and R: "modified_roots s \<subseteq> R"
  shows "marks X s R ({item} \<union> refs X s 0 item \<union> refs X s i item) (visit_modified fuel X i item)"
  unfolding marks_def
proof (intro allI impI)
  fix N assume N: "marked_ok X s R N"
  have "(0, item) \<in> R" "(i, item) \<in> R" using i R unfolding modified_roots_def by blast+
  then have live: "live X s R 0 item" "live X s R i item" using nz by (auto intro: live.root)
  have all: "item \<in> mods_all s" using i by (auto simp: mods_all_def)
  have l: "item \<in> live_objects X s R" using live by (auto simp: live_objects_def)
  have sub: "N \<subseteq> live_objects X s R" "insert item N \<subseteq> live_objects X s R" using N l by (auto simp: marked_ok_def)
  have set: "snd (mark_visited_test_and_set item (visit N s)) = visit (insert item N) s"
    by (simp add: test_and_set_visit [OF m sub(1) l])
  have ok: "\<forall>x \<in> insert item N. x = item \<or> x \<in> mods_all s \<or> (\<exists>h. live X s R h x \<and> refs X s h x \<subseteq> insert item N)"
    using N unfolding marked_ok_def by (blast intro: subset_insertI2)
  from mark_trace_ok [OF m f live(1) sub(2) ok] obtain N1 where
    N1: "mark_trace fuel X 0 item (visit (insert item N) s) = Ret () (visit N1 s)"
    "insert item N \<union> refs X s 0 item \<subseteq> N1" "marked_ok X s R N1" by blast
  have sub1: "N1 \<subseteq> live_objects X s R" using N1(3) by (simp add: marked_ok_def)
  have ok1: "\<forall>x \<in> N1. x = item \<or> x \<in> mods_all s \<or> (\<exists>h. live X s R h x \<and> refs X s h x \<subseteq> N1)"
    using N1(3) by (simp add: marked_ok_def)
  from mark_trace_ok [OF m f live(2) sub1 ok1] obtain N2 where
    N2: "mark_trace fuel X i item (visit N1 s) = Ret () (visit N2 s)" "N1 \<union> refs X s i item \<subseteq> N2" "marked_ok X s R N2" by blast
  then show "\<exists>N'. visit_modified fuel X i item (visit N s) = Ret () (visit N' s) \<and>
      N \<union> ({item} \<union> refs X s 0 item \<union> refs X s i item) \<subseteq> N' \<and> marked_ok X s R N'"
    using N1 set by (intro exI [of _ N2]) (auto simp: visit_modified_def)
qed

definition modified_marks :: "ext \<Rightarrow> stm \<Rightarrow> nat set" where
  "modified_marks X s = (\<Union>i \<in> {1..4}. \<Union>item \<in> set (modified_old_objects (segs s i)). {item} \<union> refs X s 0 item \<union> refs X s i item)"

lemma mark_visit_from_modified_objects_ok:
  assumes m: "markable X s R" and f: "enough X s R fuel" and nz: "0 \<notin> mods_all s" and R: "modified_roots s \<subseteq> R"
  shows "marks X s R (modified_marks X s) (mark_visit_from_modified_objects fuel X)"
proof -
  let ?A = "\<lambda>i item. {item} \<union> refs X s 0 item \<union> refs X s i item" and ?m = "\<lambda>i. rev (modified_old_objects (segs s i))"
  have "marks X s R (\<Union>item \<in> set (?m i). ?A i item) (\<lambda>s'. foreach_res (rev (modified_old_objects (segs s' i))) (visit_modified fuel X i) s')"
    if i: "i \<in> set segments" for i
  proof (rule marks_cong [OF _ marks_each])
    fix item assume "item \<in> set (?m i)"
    then show "marks X s R (?A i item) (visit_modified fuel X i item)"
      using i nz visit_modified_ok [OF m f _ _ _ R, of i item] unfolding set_segments mods_all_def by fastforce
  qed simp
  then have "marks X s R (\<Union>i \<in> set segments. \<Union>item \<in> set (?m i). ?A i item)
      (foreach_res segments (\<lambda>i s'. foreach_res (rev (modified_old_objects (segs s' i))) (visit_modified fuel X i) s'))"
    by (rule marks_each)
  then have "marks X s R (\<Union>i \<in> set segments. \<Union>item \<in> set (?m i). ?A i item) (mark_visit_from_modified_objects fuel X)"
    by (rule marks_cong [rotated]) (simp add: mark_visit_from_modified_objects_def visit_modified_def [abs_def])
  then show ?thesis by (simp add: modified_marks_def set_segments)
qed

lemma mark_visit_from_markers_ok:
  assumes m: "markable X s R" and f: "enough X s R fuel" and R: "(\<Union>j \<in> {1..4}. Pair j ` marker_objects (segs s j)) \<subseteq> R"
  shows "marks X s R ((\<Union>j \<in> {1..4}. marker_objects (segs s j)) - {0}) (mark_visit_from_markers fuel X)"
proof -
  define body where "body = (\<lambda>j s'. let lst = modified_old_objects_markers (segs s' j)
    in bind_res (foreach_res (rev (filter (\<lambda>i. even (length lst - i)) [1..<length lst + 1]))
         (\<lambda>i s. mark_visit_object fuel X j (lst ! (i - 1)) s) s') (\<lambda>_ s'.
       if marker_inev_segment_base (segs s' j) \<noteq> 0
       then mark_visit_object fuel X j (marker_inev_object (segs s' j)) s' else Ret () s'))"
  have "marks X s R (marker_objects (segs s j) - {0}) (body j)" if j: "j \<in> set segments" for j
  proof -
    have live: "live X s R j x" if "x \<in> marker_objects (segs s j)" "x \<noteq> 0" for x
      using R j that unfolding set_segments by (blast intro: live.root)
    let ?lst = "modified_old_objects_markers (segs s j)" and ?o = "marker_inev_object (segs s j)"
    let ?is = "rev (filter (\<lambda>i. even (length ?lst - i)) [1..<length ?lst + 1])"
    define k where "k = (\<lambda>s'. if marker_inev_segment_base (segs s' j) \<noteq> 0
       then mark_visit_object fuel X j (marker_inev_object (segs s' j)) s' else Ret () s')"
    have one: "marks X s R ({?lst ! (i - 1)} - {0}) (mark_visit_object fuel X j (?lst ! (i - 1)))" if i: "i \<in> set ?is" for i
    proof (rule mark_visit_object_ok [OF m f live])
      have "i - 1 < length ?lst" "even (length ?lst - Suc (i - 1))" using i by auto
      then show "?lst ! (i - 1) \<in> marker_objects (segs s j)" by (auto simp: marker_objects_def Let_def)
    qed
    have k: "marks X s R ((if marker_inev_segment_base (segs s j) \<noteq> 0 then {?o} else {}) - {0}) k"
    proof (cases "marker_inev_segment_base (segs s j) \<noteq> 0")
      case True
      have "marks X s R ({?o} - {0}) (mark_visit_object fuel X j ?o)"
        by (rule mark_visit_object_ok [OF m f live]) (simp_all add: marker_objects_def Let_def True)
      then have "marks X s R ({?o} - {0}) k" by (rule marks_cong [rotated]) (simp add: k_def True)
      then show ?thesis using True by simp
    next
      case False
      have "marks X s R {} k" by (rule marks_cong [OF _ marks_skip]) (use False in \<open>simp add: k_def\<close>)
      then show ?thesis using False by simp
    qed
    have "marks X s R ((\<Union>i \<in> set ?is. {?lst ! (i - 1)} - {0}) \<union>
        ((if marker_inev_segment_base (segs s j) \<noteq> 0 then {?o} else {}) - {0}))
        (\<lambda>s'. bind_res (foreach_res ?is (\<lambda>i. mark_visit_object fuel X j (?lst ! (i - 1))) s') (\<lambda>_. k))"
      by (rule marks_seq [OF marks_each k]) (rule one)
    then have "marks X s R ((\<Union>i \<in> set ?is. {?lst ! (i - 1)} - {0}) \<union>
        ((if marker_inev_segment_base (segs s j) \<noteq> 0 then {?o} else {}) - {0})) (body j)"
      by (rule marks_cong [rotated]) (simp add: body_def k_def Let_def)
    moreover have "marker_objects (segs s j) - {0} \<subseteq> (\<Union>i \<in> set ?is. {?lst ! (i - 1)} - {0}) \<union>
        ((if marker_inev_segment_base (segs s j) \<noteq> 0 then {?o} else {}) - {0})"
    proof
      fix x assume x: "x \<in> marker_objects (segs s j) - {0}"
      show "x \<in> (\<Union>i \<in> set ?is. {?lst ! (i - 1)} - {0}) \<union>
        ((if marker_inev_segment_base (segs s j) \<noteq> 0 then {?o} else {}) - {0})"
      proof (cases "\<exists>i. i < length ?lst \<and> even (length ?lst - Suc i) \<and> x = ?lst ! i")
        case True
        then obtain i where i: "i < length ?lst" "even (length ?lst - Suc i)" "x = ?lst ! i" by blast
        then have "Suc i \<in> set ?is" "x \<in> {?lst ! (Suc i - 1)} - {0}" using x by auto
        then show ?thesis by blast
      next
        case False
        then show ?thesis using x by (auto simp: marker_objects_def Let_def split: if_splits)
      qed
    qed
    ultimately show ?thesis by (rule marks_mono)
  qed
  then have "marks X s R (\<Union>j \<in> set segments. marker_objects (segs s j) - {0}) (foreach_res segments body)" by (rule marks_each)
  then have "marks X s R (\<Union>j \<in> set segments. marker_objects (segs s j) - {0}) (mark_visit_from_markers fuel X)"
    by (rule marks_cong [rotated]) (simp add: mark_visit_from_markers_def body_def)
  then show ?thesis by (rule marks_mono) (auto simp: set_segments)
qed


lemma mark_visit_from_finalizer_pending_ok:
  assumes m: "markable X s R" and f: "enough X s R fuel" and R: "(\<Union>j \<in> {0..4}. Pair j ` pending_finalizers j s) \<subseteq> R"
  shows "marks X s R ((\<Union>j \<in> {0..4}. pending_finalizers j s) - {0}) (mark_visit_from_finalizer_pending fuel X)"
proof -
  have "marks X s R (pending_finalizers j s - {0}) (mark_visit_from_finalizer1 fuel X j)" if j: "j \<in> {0..4}" for j
  proof -
    define lst where "lst = (case get_finalizers j s of None \<Rightarrow> [] | Some f \<Rightarrow> (case run_finalizers f of None \<Rightarrow> [] | Some l \<Rightarrow> l))"
    have p: "pending_finalizers j s = set lst" by (simp add: pending_finalizers_def lst_def split: option.split)
    have "marks X s R ({x} - {0}) (mark_visit_object fuel X j x)" if x: "x \<in> set (rev lst)" for x
    proof (rule mark_visit_object_ok [OF m f live.root])
      have "x \<in> pending_finalizers j s" using x p by simp
      then show "(j, x) \<in> R" using R j by blast
    qed
    then have "marks X s R (\<Union>x \<in> set (rev lst). {x} - {0}) (foreach_res (rev lst) (mark_visit_object fuel X j))" by (rule marks_each)
    then have "marks X s R (\<Union>x \<in> set (rev lst). {x} - {0}) (mark_visit_from_finalizer1 fuel X j)"
      by (rule marks_cong [rotated]) (simp add: mark_visit_from_finalizer1_def lst_def split: option.split)
    then show ?thesis by (rule marks_mono) (auto simp: p)
  qed
  moreover have s: "set (segments @ [0]) = {0..4}" by (auto simp: segments_eq)
  ultimately have "marks X s R (\<Union>j \<in> set (segments @ [0]). pending_finalizers j s - {0})
      (foreach_res (segments @ [0]) (mark_visit_from_finalizer1 fuel X))" by (intro marks_each) simp
  then have "marks X s R (\<Union>j \<in> set (segments @ [0]). pending_finalizers j s - {0}) (mark_visit_from_finalizer_pending fuel X)"
    by (rule marks_cong [rotated]) (simp add: mark_visit_from_finalizer_pending_def)
  then show ?thesis unfolding s by (rule marks_mono) auto
qed

lemma mark_visit_from_roots_ok:
  fixes ts s
  defines "prebuilt \<equiv> (case testing_prebuilt_objs s of None \<Rightarrow> {} | Some lst \<Rightarrow> set lst)"
  assumes m: "markable X s R" and f: "enough X s R fuel" and R: "roots ts s \<subseteq> R"
    and ring: "next_ring s ts" and len: "length ts \<le> fuel"
    and run: "\<forall>i \<in> {1..4}. transaction_state (segs s i) \<noteq> TS_NONE \<longrightarrow> running_thread (segs s i) \<noteq> None"
  shows "marks X s R (prebuilt \<union> snd ` (\<Union>t \<in> set ts. thread_roots t s) \<union> snd ` (\<Union>i \<in> {1..4}. transaction_roots i s) - {0})
    (mark_visit_from_roots fuel X)"
proof -
  let ?T = "snd ` (\<Union>t \<in> set ts. thread_roots t s)" and ?S = "\<Union>i \<in> set segments. snd ` transaction_roots i s - {0}"
  define pre where "pre = (\<lambda>s'. case testing_prebuilt_objs s' of None \<Rightarrow> Ret () s'
    | Some lst \<Rightarrow> foreach_res (rev lst) (mark_visit_object fuel X 0) s')"
  define lst where "lst = (case testing_prebuilt_objs s of None \<Rightarrow> [] | Some lst \<Rightarrow> lst)"
  have p: "prebuilt = set lst" by (simp add: prebuilt_def lst_def split: option.split)
  have "Pair 0 ` prebuilt \<subseteq> R" using R unfolding roots_def prebuilt_def by blast
  then have "marks X s R ({x} - {0}) (mark_visit_object fuel X 0 x)" if x: "x \<in> set (rev lst)" for x
    by (intro mark_visit_object_ok [OF m f] live.root) (use x p in auto)
  then have "marks X s R (\<Union>x \<in> set (rev lst). {x} - {0}) (foreach_res (rev lst) (mark_visit_object fuel X 0))" by (rule marks_each)
  then have pre: "marks X s R (\<Union>x \<in> set (rev lst). {x} - {0}) pre"
    by (rule marks_cong [rotated]) (simp add: pre_def lst_def split: option.split)
  have h: "stm_all_thread_locals s = Some (hd ts)" "next_chain s ts (Some (hd ts))" "ts \<noteq> []" "distinct ts"
    using ring by (simp_all add: next_ring_def)
  have tl: "\<forall>t \<in> set (tl ts). Some t \<noteq> stm_all_thread_locals s" using h by (cases ts) auto
  have "(\<Union>t \<in> set ts. thread_roots t s) \<subseteq> R" using R unfolding roots_def by blast
  then have "marks X s R (?T - {0}) (mark_visit_threads fuel fuel X (Some (hd ts)))"
    by (rule mark_visit_threads_ok [OF m f]) (use h len tl in simp_all)
  then have thr: "marks X s R (?T - {0}) (\<lambda>s'. mark_visit_threads fuel fuel X (stm_all_thread_locals s') s')"
    by (rule marks_cong [rotated]) (simp add: h(1))
  have seg: "marks X s R ?S (foreach_res segments (mark_visit_segment_roots fuel X))"
  proof (rule marks_each)
    fix i assume i: "i \<in> set segments"
    then have "transaction_roots i s \<subseteq> R" using R unfolding roots_def set_segments by blast
    then show "marks X s R (snd ` transaction_roots i s - {0}) (mark_visit_segment_roots fuel X i)"
      by (rule mark_visit_segment_roots_ok [OF m f]) (use run i in \<open>simp add: set_segments\<close>)
  qed
  have "marks X s R ((\<Union>x \<in> set (rev lst). {x} - {0}) \<union> ((?T - {0}) \<union> ?S)) (\<lambda>s'. bind_res (pre s') (\<lambda>_ s'. bind_res
      (mark_visit_threads fuel fuel X (stm_all_thread_locals s') s') (\<lambda>_. foreach_res segments (mark_visit_segment_roots fuel X))))"
    by (rule marks_seq [OF pre marks_seq [OF thr seg]])
  then have "marks X s R ((\<Union>x \<in> set (rev lst). {x} - {0}) \<union> ((?T - {0}) \<union> ?S)) (mark_visit_from_roots fuel X)"
    by (rule marks_cong [rotated]) (simp add: mark_visit_from_roots_def pre_def)
  then show ?thesis by (rule marks_mono) (auto simp: p set_segments)
qed

section \<open>The whole mark phase\<close>

lemma coherentD:
  "coherent X s R \<Longrightarrow> live X s R g obj \<Longrightarrow> live X s R h obj \<Longrightarrow> obj \<notin> set (modified_old_objects (segs s g)) \<Longrightarrow>
   obj \<notin> set (modified_old_objects (segs s h)) \<Longrightarrow> refs X s g obj = refs X s h obj"
  unfolding coherent_def refs_def by blast

lemma major_mark_ok:
  assumes m: "markable X s (roots ts s)" and coh: "coherent X s (roots ts s)" and f: "enough X s (roots ts s) fuel"
    and ring: "next_ring s ts" and len: "length ts \<le> fuel" and nz: "0 \<notin> mods_all s" and s0: "modified_old_objects (segs s 0) = []"
    and run: "\<forall>i \<in> {1..4}. transaction_state (segs s i) \<noteq> TS_NONE \<longrightarrow> running_thread (segs s i) \<noteq> None"
    and num: "\<forall>t \<in> set ts. associated_segment_num (tls s t) \<le> 4"
  shows "major_mark fuel X s = Ret () (visit (live_objects X s (roots ts s)) s)"
proof -
  define R where "R = roots ts s"
  have parts: "modified_roots s \<subseteq> R" "(\<Union>j \<in> {1..4}. Pair j ` marker_objects (segs s j)) \<subseteq> R"
    "(\<Union>j \<in> {0..4}. Pair j ` pending_finalizers j s) \<subseteq> R" "roots ts s \<subseteq> R" unfolding R_def roots_def by blast+
  let ?pre = "case testing_prebuilt_objs s of None \<Rightarrow> {} | Some lst \<Rightarrow> set lst"
  let ?A = "modified_marks X s \<union> (((\<Union>j \<in> {1..4}. marker_objects (segs s j)) - {0}) \<union>
    ((?pre \<union> snd ` (\<Union>t \<in> set ts. thread_roots t s) \<union> snd ` (\<Union>i \<in> {1..4}. transaction_roots i s) - {0}) \<union>
     ((\<Union>j \<in> {0..4}. pending_finalizers j s) - {0})))"
  have le4: "live X s R g obj \<Longrightarrow> g \<le> 4" for g obj
    by (induction rule: live.induct)
      (use num in \<open>auto simp: R_def roots_def modified_roots_def thread_roots_def transaction_roots_def split: if_splits\<close>)
  note m = m [folded R_def] and coh = coh [folded R_def] and f = f [folded R_def]
  have "marks X s R ?A (\<lambda>s. bind_res (mark_visit_from_modified_objects fuel X s) (\<lambda>_ s. bind_res (mark_visit_from_markers fuel X s)
      (\<lambda>_ s. bind_res (mark_visit_from_roots fuel X s) (\<lambda>_. mark_visit_from_finalizer_pending fuel X))))"
    by (rule marks_seq [OF mark_visit_from_modified_objects_ok [OF m f nz parts(1)]
        marks_seq [OF mark_visit_from_markers_ok [OF m f parts(2)]
        marks_seq [OF mark_visit_from_roots_ok [OF m f parts(4) ring len run] mark_visit_from_finalizer_pending_ok [OF m f parts(3)]]]])
  then have "marks X s R ?A (major_mark fuel X)" by (rule marks_cong [rotated]) (simp add: major_mark_def)
  moreover have "marked_ok X s R {}" by (simp add: marked_ok_def)
  ultimately obtain N where N: "major_mark fuel X s = Ret () (visit N s)" "?A \<subseteq> N" "marked_ok X s R N"
    unfolding marks_def by (metis visit_empty Un_empty_left)
  have mod: "snd ` modified_roots s \<subseteq> modified_marks X s" unfolding modified_roots_def modified_marks_def by fastforce
  have all: "snd ` roots ts s = snd ` modified_roots s \<union> (\<Union>j \<in> {1..4}. marker_objects (segs s j)) \<union> ?pre \<union>
      snd ` (\<Union>t \<in> set ts. thread_roots t s) \<union> snd ` (\<Union>i \<in> {1..4}. transaction_roots i s) \<union>
      (\<Union>j \<in> {0..4}. pending_finalizers j s)" by (simp add: roots_def image_Un image_UN image_image)
  have cover: "A0 \<subseteq> B0 \<Longrightarrow> (A0 \<union> A1 \<union> A2 \<union> A3 \<union> A4 \<union> A5) - {0} \<subseteq>
      B0 \<union> ((A1 - {0}) \<union> ((A2 \<union> A3 \<union> A4 - {0}) \<union> (A5 - {0})))" for A0 A1 A2 A3 A4 A5 B0 :: "nat set" by blast
  have "obj \<in> N" if "live X s R g obj" for g obj
    using that
  proof (induction rule: live.induct)
    case (root g obj)
    have "obj \<in> snd ` roots ts s - {0}" using root image_eqI [of obj snd "(g, obj)" "roots ts s"] by (simp add: R_def)
    also have "\<dots> \<subseteq> ?A" unfolding all by (rule cover [OF mod])
    finally show ?case by (rule subsetD [OF N(2)])
  next
    case (field g obj p)
    have p: "p \<in> refs X s g obj" using field by (simp add: refs_def)
    have g: "g \<le> 4" by (rule le4 [OF field.hyps(1)])
    have not: "obj \<notin> set (modified_old_objects (segs s h))" if "obj \<notin> mods_all s" "h \<le> 4" for h
      using that s0 by (cases "h = 0") (auto simp: mods_all_def)
    have agree: "refs X s g obj = refs X s h obj" if "live X s R h obj" "obj \<notin> set (modified_old_objects (segs s g))"
        "obj \<notin> set (modified_old_objects (segs s h))" for h
      by (rule coherentD [OF coh field.hyps(1) that])
    show ?case
    proof (cases "obj \<in> mods_all s")
      case False
      then obtain h where h: "live X s R h obj" "refs X s h obj \<subseteq> N" using N(3) field.IH by (auto simp: marked_ok_def)
      then show ?thesis using agree [OF h(1)] not [OF False] g le4 [OF h(1)] p by auto
    next
      case True
      then obtain i where i: "i \<in> {1..4}" "obj \<in> set (modified_old_objects (segs s i))" by (auto simp: mods_all_def)
      have m0: "refs X s 0 obj \<subseteq> modified_marks X s" using i by (auto simp: modified_marks_def)
      show ?thesis
      proof (cases "obj \<in> set (modified_old_objects (segs s g))")
        case gm: True
        then have "g \<in> {1..4}" using g s0 by (cases "g = 0") auto
        then have "p \<in> modified_marks X s" using gm p by (auto simp: modified_marks_def)
        then show ?thesis using N(2) by blast
      next
        case False
        have "(0, obj) \<in> R" using i parts(1) unfolding modified_roots_def by blast
        then have "live X s R 0 obj" using nz True by (intro live.root) metis+
        then show ?thesis using agree [of 0] False s0 p m0 N(2) by auto
      qed
    qed
  qed
  then have "N = live_objects X s R" using N(3) by (auto simp: live_objects_def marked_ok_def)
  then show ?thesis using N(1) by (simp add: R_def)
qed

end
