(* ===== verification/Bins.thy ===== *)
theory Bins
  imports Largemalloc "HOL-Library.Multiset"
begin

text \<open>
  The bins of the large object allocator: sorting a bin keeps its chunks and puts one column per
  size in decreasing order; linking and unlinking a chunk changes the set of free chunks by it.
\<close>

section \<open>One bin\<close>

definition bin_chunks :: "column list \<Rightarrow> nat list" where
  "bin_chunks cols = concat (map column_chunks cols)"

lemma bin_chunks_simps [simp]:
  "bin_chunks [] = []" "bin_chunks (col # cols) = column_chunks col @ bin_chunks cols"
  "bin_chunks (xs @ ys) = bin_chunks xs @ bin_chunks ys"
  by (simp_all add: bin_chunks_def)

text \<open>The sorted columns: one per size, in decreasing order.\<close>

definition col_ok :: "(nat \<Rightarrow> nat) \<Rightarrow> column \<Rightarrow> bool" where
  "col_ok sz col \<longleftrightarrow> \<not> is_unsorted col \<and> column_chunks col \<noteq> [] \<and> (\<forall>c \<in> set (column_chunks col). sz c = sz (main_chunk col))"

definition sorted_cols :: "(nat \<Rightarrow> nat) \<Rightarrow> column list \<Rightarrow> bool" where
  "sorted_cols sz cols \<longleftrightarrow> (\<forall>col \<in> set cols. col_ok sz col) \<and> sorted_wrt (\<lambda>x y. sz (main_chunk x) > sz (main_chunk y)) cols"

definition bin_ok :: "(nat \<Rightarrow> nat) \<Rightarrow> nat \<Rightarrow> column list \<Rightarrow> bool" where
  "bin_ok sz i cols \<longleftrightarrow> (\<exists>ss us. cols = ss @ us \<and> sorted_cols sz ss \<and> (\<forall>u \<in> set us. is_unsorted u)) \<and>
     distinct (bin_chunks cols) \<and> (\<forall>c \<in> set (bin_chunks cols). bin_of_size (sz c) = i)"

lemma col_ok_main: "col_ok sz col \<Longrightarrow> main_chunk col \<in> set (column_chunks col)"
  by (simp add: col_ok_def main_chunk_def)

lemma sorted_cols_Cons:
  "sorted_cols sz (h # hs) \<longleftrightarrow> col_ok sz h \<and> sorted_cols sz hs \<and> (\<forall>x \<in> set hs. sz (main_chunk x) < sz (main_chunk h))"
  by (auto simp: sorted_cols_def)

lemma sorted_cols_cong:
  assumes "\<And>c. c \<in> set (bin_chunks cols) \<Longrightarrow> sz' c = sz c" and "sorted_cols sz cols"
  shows "sorted_cols sz' cols"
  using assms
proof (induction cols)
  case (Cons col cols)
  have s: "col_ok sz col" "sorted_cols sz cols" using Cons.prems(2) by (simp_all add: sorted_cols_Cons)
  have "main_chunk x \<in> set (bin_chunks (col # cols))" if "x \<in> set (col # cols)" for x
  proof -
    have "main_chunk x \<in> set (column_chunks x)"
      using Cons.prems(2) that by (auto simp: sorted_cols_def intro!: col_ok_main)
    then show ?thesis using that by (auto simp: bin_chunks_def)
  qed
  then have m: "sz' (main_chunk x) = sz (main_chunk x)" if "x \<in> set (col # cols)" for x using Cons.prems(1) that by blast
  have "col_ok sz' col" using s(1) Cons.prems(1) m [of col] by (simp add: col_ok_def)
  moreover have "sorted_cols sz' cols" by (rule Cons.IH) (use Cons.prems(1) s in auto)
  ultimately show ?case using Cons.prems(2) m by (simp add: sorted_cols_Cons)
qed (simp add: sorted_cols_def)

lemma bin_ok_cong:
  assumes "bin_ok sz i cols" and "\<And>c. c \<in> set (bin_chunks cols) \<Longrightarrow> sz' c = sz c"
  shows "bin_ok sz' i cols"
proof -
  obtain ss us where c: "cols = ss @ us" "sorted_cols sz ss" "\<forall>u \<in> set us. is_unsorted u"
    using assms(1) by (auto simp: bin_ok_def)
  then have "sorted_cols sz' ss" using sorted_cols_cong [OF _ c(2), of sz'] assms(2) by simp
  then show ?thesis using assms c unfolding bin_ok_def by auto
qed

section \<open>Sorting\<close>

text \<open>
  The loop of \<open>really_sort_bin\<close> keeps the chunks and, on chunks in decreasing order, the
  columns sorted.
\<close>

lemma merge_bin_chunks:
  "\<forall>col \<in> set cols. \<not> is_unsorted col \<and> column_chunks col \<noteq> [] \<Longrightarrow>
   mset (bin_chunks (merge_bin sz cols cs)) = mset (bin_chunks cols) + mset cs"
proof (induction sz cols cs rule: merge_bin.induct)
  case (3 sz h hs c cs)
  obtain m ms where h: "h = Sorted (m # ms)" using "3.prems" by (cases h rule: column_chunks.cases; force simp: neq_Nil_conv)
  show ?case using 3 h by auto
qed auto

lemma merge_bin_sorted:
  "sorted_cols sz cols \<Longrightarrow> sorted_wrt (\<lambda>x y. sz x \<ge> sz y) cs \<Longrightarrow>
   sorted_cols sz (merge_bin sz cols cs) \<and>
   (\<forall>b. (\<forall>x \<in> set cols. sz (main_chunk x) < b) \<longrightarrow> (\<forall>c \<in> set cs. sz c < b) \<longrightarrow>
      (\<forall>x \<in> set (merge_bin sz cols cs). sz (main_chunk x) < b))"
proof (induction sz cols cs rule: merge_bin.induct)
  case (1 sz cols)
  then show ?case by simp
next
  case (2 sz c cs)
  have "sorted_cols sz [Sorted [c]]" by (simp add: sorted_cols_def col_ok_def main_chunk_def)
  then show ?case using 2 by (simp add: main_chunk_def)
next
  case (3 sz h hs c cs)
  obtain m ms where h: "h = Sorted (m # ms)"
    using "3.prems"(1) by (cases h rule: column_chunks.cases) (auto simp: sorted_cols_Cons col_ok_def neq_Nil_conv)
  have hm: "main_chunk h = m" by (simp add: h main_chunk_def)
  have s: "col_ok sz h" "sorted_cols sz hs" "\<forall>x \<in> set hs. sz (main_chunk x) < sz m"
    using "3.prems"(1) hm by (simp_all add: sorted_cols_Cons)
  have cs: "sorted_wrt (\<lambda>x y. sz x \<ge> sz y) cs" "\<forall>x \<in> set cs. sz x \<le> sz c" using "3.prems"(2) by auto
  consider (less) "sz m < sz c" | (eq) "sz m = sz c" | (more) "sz c < sz m" by linarith
  then show ?case
  proof cases
    case less
    have mc: "main_chunk (Sorted [c]) = c" "col_ok sz (Sorted [c])" by (simp_all add: col_ok_def main_chunk_def)
    have sc: "sorted_cols sz (Sorted [c] # h # hs)"
      using s less by (auto simp: sorted_cols_Cons mc hm dest: less_trans)
    have "sorted_cols sz (merge_bin sz (Sorted [c] # h # hs) cs) \<and>
      (\<forall>b. (\<forall>x \<in> set (Sorted [c] # h # hs). sz (main_chunk x) < b) \<longrightarrow> (\<forall>c \<in> set cs. sz c < b) \<longrightarrow>
        (\<forall>x \<in> set (merge_bin sz (Sorted [c] # h # hs) cs). sz (main_chunk x) < b))"
      by (rule "3.IH"(1) [OF _ sc cs(1)]) (simp add: hm less)
    then show ?thesis using less hm by (simp add: main_chunk_def)
  next
    case eq
    have ab: "add_above c h = Sorted (m # c # ms)" by (simp add: h)
    have mc: "main_chunk (add_above c h) = m" by (simp add: ab main_chunk_def)
    have "col_ok sz (add_above c h)" using s(1) eq by (simp add: ab h col_ok_def main_chunk_def)
    then have sc: "sorted_cols sz (add_above c h # hs)" using s by (simp add: sorted_cols_Cons mc)
    have "sorted_cols sz (merge_bin sz (add_above c h # hs) cs) \<and>
      (\<forall>b. (\<forall>x \<in> set (add_above c h # hs). sz (main_chunk x) < b) \<longrightarrow> (\<forall>c \<in> set cs. sz c < b) \<longrightarrow>
        (\<forall>x \<in> set (merge_bin sz (add_above c h # hs) cs). sz (main_chunk x) < b))"
      by (rule "3.IH"(2) [OF _ _ sc cs(1)]) (simp_all add: hm eq)
    then show ?thesis using eq hm mc by simp
  next
    case more
    have IH: "sorted_cols sz (merge_bin sz hs (c # cs)) \<and>
      (\<forall>b. (\<forall>x \<in> set hs. sz (main_chunk x) < b) \<longrightarrow> (\<forall>x \<in> set (c # cs). sz x < b) \<longrightarrow>
        (\<forall>x \<in> set (merge_bin sz hs (c # cs)). sz (main_chunk x) < b))"
      by (rule "3.IH"(3) [OF _ _ s(2) "3.prems"(2)]) (use more hm in simp_all)
    have "\<forall>x \<in> set (c # cs). sz x < sz m" using more cs(2) by auto
    then have "\<forall>x \<in> set (merge_bin sz hs (c # cs)). sz (main_chunk x) < sz m" using IH s(3) by blast
    then have "sorted_cols sz (h # merge_bin sz hs (c # cs))" using IH s(1) hm by (simp add: sorted_cols_Cons)
    then show ?thesis using more hm IH by auto
  qed
qed

lemma sorted_not_unsorted: "sorted_cols sz ss \<Longrightarrow> col \<in> set ss \<Longrightarrow> \<not> is_unsorted col"
  by (auto simp: sorted_cols_def col_ok_def)

lemma sort_bin_spec:
  assumes ok: "bin_ok (chunk_size s) index (largebins s index)"
  shows "\<exists>cols. sort_bin index s = s\<lparr>largebins := (largebins s)(index := cols)\<rparr> \<and> sorted_cols (chunk_size s) cols \<and>
    mset (bin_chunks cols) = mset (bin_chunks (largebins s index))"
proof -
  let ?sz = "chunk_size s"
  obtain ss us where c: "largebins s index = ss @ us" "sorted_cols ?sz ss" "\<forall>u \<in> set us. is_unsorted u"
    using ok by (auto simp: bin_ok_def)
  show ?thesis
  proof (cases "us = []")
    case True
    then have "\<not> (largebins s index \<noteq> [] \<and> is_unsorted (last (largebins s index)))"
      using c sorted_not_unsorted [OF c(2)] last_in_set by auto
    then have "sort_bin index s = s" unfolding sort_bin_def by (rule if_not_P)
    moreover have "(largebins s)(index := ss) = largebins s" using c(1) True by auto
    ultimately show ?thesis using c True by (intro exI [of _ ss]) simp
  next
    case False
    have unl: "is_unsorted (last us)" using c(3) False last_in_set by blast
    have "takeWhile is_unsorted (rev us @ rev ss) = rev us @ takeWhile is_unsorted (rev ss)"
      using c(3) by (intro takeWhile_append2) simp
    moreover have "takeWhile is_unsorted (rev ss) = []"
      using sorted_not_unsorted [OF c(2)] by (cases "rev ss") (auto dest: arg_cong [of _ _ rev])
    ultimately have tk: "takeWhile is_unsorted (rev (ss @ us)) = rev us" by simp
    have "dropWhile is_unsorted (rev us @ rev ss) = dropWhile is_unsorted (rev ss)"
      using c(3) by (intro dropWhile_append2) simp
    moreover have "dropWhile is_unsorted (rev ss) = rev ss"
      using sorted_not_unsorted [OF c(2)] by (cases "rev ss") (auto dest: arg_cong [of _ _ rev])
    ultimately have dr: "dropWhile is_unsorted (rev (ss @ us)) = rev ss" by simp
    let ?cs = "rev (sort_key ?sz (map main_chunk (rev us)))"
    let ?cols = "merge_bin ?sz ss ?cs"
    have run: "sort_bin index s = s\<lparr>largebins := (largebins s)(index := ?cols)\<rparr>"
      unfolding sort_bin_def really_sort_bin_def Let_def c(1) tk dr rev_rev_ident using False unl by simp
    have dec: "sorted_wrt (\<lambda>x y. ?sz x \<ge> ?sz y) ?cs"
    proof -
      have "sorted (map ?sz (sort_key ?sz (map main_chunk (rev us))))" by simp
      then show ?thesis by (simp only: sorted_wrt_rev sorted_map)
    qed
    have "set (map main_chunk us) = set (bin_chunks us)" "mset (map main_chunk us) = mset (bin_chunks us)"
    proof -
      have "map main_chunk us = bin_chunks us" if "\<forall>u \<in> set us. is_unsorted u" for us
        using that
      proof (induction us)
        case (Cons u us)
        then show ?case by (cases u) (auto simp: main_chunk_def)
      qed simp
      then show "set (map main_chunk us) = set (bin_chunks us)" "mset (map main_chunk us) = mset (bin_chunks us)"
        using c(3) by simp_all
    qed
    then have us: "mset ?cs = mset (bin_chunks us)" by simp
    have "\<forall>col \<in> set ss. \<not> is_unsorted col \<and> column_chunks col \<noteq> []" using c(2) by (auto simp: sorted_cols_def col_ok_def)
    then have "mset (bin_chunks ?cols) = mset (bin_chunks (ss @ us))" using merge_bin_chunks us by simp
    moreover have "sorted_cols ?sz ?cols" using merge_bin_sorted [OF c(2) dec] by (rule conjunct1)
    ultimately show ?thesis unfolding c(1) using run by blast
  qed
qed

section \<open>All the bins\<close>

definition bins_ok :: "lm_s \<Rightarrow> nat set \<Rightarrow> bool" where
  "bins_ok s F \<longleftrightarrow> (\<forall>i. bin_ok (chunk_size s) i (largebins s i)) \<and> (\<Union>i. set (bin_chunks (largebins s i))) = F"

lemma bins_okD: "bins_ok s F \<Longrightarrow> bin_ok (chunk_size s) i (largebins s i)"
  by (simp add: bins_ok_def)

lemma bins_ok_bin:
  assumes "bins_ok s F" and "c \<in> F"
  shows "c \<in> set (bin_chunks (largebins s (bin_of_size (chunk_size s c))))"
proof -
  obtain i where i: "c \<in> set (bin_chunks (largebins s i))" using assms by (auto simp: bins_ok_def)
  then have "bin_of_size (chunk_size s c) = i" using bins_okD [OF assms(1), of i] by (simp add: bin_ok_def)
  then show ?thesis using i by simp
qed

lemma bins_ok_cong:
  assumes "bins_ok s F" and "largebins s' = largebins s" and "\<And>c. c \<in> F \<Longrightarrow> chunk_size s' c = chunk_size s c"
  shows "bins_ok s' F"
  unfolding bins_ok_def
proof (intro conjI allI)
  show "bin_ok (chunk_size s') i (largebins s' i)" for i
    using bin_ok_cong [OF bins_okD [OF assms(1), of i], of "chunk_size s'"] assms by (auto simp: bins_ok_def)
  show "(\<Union>i. set (bin_chunks (largebins s' i))) = F" using assms by (simp add: bins_ok_def)
qed

lemma sort_bin_ok:
  assumes "bins_ok s F"
  shows "bins_ok (sort_bin i s) F" and "sorted_cols (chunk_size s) (largebins (sort_bin i s) i)"
    and "set (bin_chunks (largebins (sort_bin i s) j)) = set (bin_chunks (largebins s j))"
    and "j \<noteq> i \<Longrightarrow> largebins (sort_bin i s) j = largebins s j"
    and "sort_bin i s = s\<lparr>largebins := largebins (sort_bin i s)\<rparr>"
proof -
  obtain cols where c: "sort_bin i s = s\<lparr>largebins := (largebins s)(i := cols)\<rparr>" "sorted_cols (chunk_size s) cols"
    "mset (bin_chunks cols) = mset (bin_chunks (largebins s i))" using sort_bin_spec [OF bins_okD [OF assms]] by blast
  have st: "set (bin_chunks cols) = set (bin_chunks (largebins s i))" using c(3) by (rule mset_eq_setD)
  have "distinct (bin_chunks cols)"
    using c(3) bins_okD [OF assms, of i] mset_eq_imp_distinct_iff unfolding bin_ok_def by blast
  then have "bin_ok (chunk_size s) i cols"
    using c(2) st bins_okD [OF assms, of i] unfolding bin_ok_def by (metis append_Nil2 empty_iff list.set(1))
  moreover have "set (bin_chunks (if j = i then cols else largebins s j)) = set (bin_chunks (largebins s j))" for j
    using st by simp
  ultimately show "bins_ok (sort_bin i s) F" using assms by (simp add: bins_ok_def c(1))
  show "sorted_cols (chunk_size s) (largebins (sort_bin i s) i)" using c(1,2) by simp
  show "set (bin_chunks (largebins (sort_bin i s) j)) = set (bin_chunks (largebins s j))" using c(1) st by simp
  show "j \<noteq> i \<Longrightarrow> largebins (sort_bin i s) j = largebins s j" using c(1) by simp
  show "sort_bin i s = s\<lparr>largebins := largebins (sort_bin i s)\<rparr>" using c(1) by simp
qed

lemma insert_unsorted_ok:
  assumes "bins_ok s F" and "new \<notin> F"
  shows "bins_ok (insert_unsorted new s) (insert new F)"
proof -
  let ?i = "bin_of_size (chunk_size s new)"
  have new: "new \<notin> set (bin_chunks (largebins s j))" for j using assms by (auto simp: bins_ok_def)
  obtain ss us where c: "largebins s ?i = ss @ us" "sorted_cols (chunk_size s) ss" "\<forall>u \<in> set us. is_unsorted u"
    using bins_okD [OF assms(1), of ?i] by (auto simp: bin_ok_def)
  have "bin_ok (chunk_size s) ?i (largebins s ?i @ [Unsorted new])"
    unfolding bin_ok_def
  proof (intro conjI)
    show "\<exists>ss us. largebins s ?i @ [Unsorted new] = ss @ us \<and> sorted_cols (chunk_size s) ss \<and> (\<forall>u \<in> set us. is_unsorted u)"
      using c by (intro exI [of _ ss] exI [of _ "us @ [Unsorted new]"]) auto
    show "distinct (bin_chunks (largebins s ?i @ [Unsorted new]))"
      using bins_okD [OF assms(1), of ?i] new by (simp add: bin_ok_def)
    show "\<forall>c \<in> set (bin_chunks (largebins s ?i @ [Unsorted new])). bin_of_size (chunk_size s c) = ?i"
      using bins_okD [OF assms(1), of ?i] by (auto simp: bin_ok_def)
  qed
  then show ?thesis using assms(1) by (auto simp: bins_ok_def insert_unsorted_def Let_def split: if_splits)
qed

text \<open>Unlinking.\<close>

lemma without_chunks: "bin_chunks (concat (map (column_without c) cols)) = filter (\<lambda>d. d \<noteq> c) (bin_chunks cols)"
proof (induction cols)
  case (Cons col cols)
  then show ?case by (cases col) (auto simp: Let_def)
qed simp

lemma without_sorted:
  assumes "sorted_cols sz cols"
  shows "sorted_cols sz (concat (map (column_without c) cols)) \<and>
    (\<forall>b. (\<forall>x \<in> set cols. sz (main_chunk x) < b) \<longrightarrow> (\<forall>x \<in> set (concat (map (column_without c) cols)). sz (main_chunk x) < b))"
  using assms
proof (induction cols)
  case (Cons col cols)
  have s: "col_ok sz col" "sorted_cols sz cols" "\<forall>x \<in> set cols. sz (main_chunk x) < sz (main_chunk col)"
    using Cons.prems by (simp_all add: sorted_cols_Cons)
  obtain cs where cs: "col = Sorted cs" using s(1) by (cases col) (auto simp: col_ok_def)
  let ?r = "concat (map (column_without c) cols)"
  note IH = Cons.IH [OF s(2)]
  show ?case
  proof (cases "filter (\<lambda>d. d \<noteq> c) cs = []")
    case True
    then show ?thesis using IH s(3) by (simp add: cs Let_def)
  next
    case False
    let ?f = "filter (\<lambda>d. d \<noteq> c) cs"
    have sub: "\<forall>d \<in> set ?f. sz d = sz (main_chunk col)" using s(1) by (simp add: col_ok_def cs)
    have m: "sz (main_chunk (Sorted ?f)) = sz (main_chunk col)" using sub False hd_in_set [OF False] by (simp add: main_chunk_def)
    have "col_ok sz (Sorted ?f)" using False sub m by (simp add: col_ok_def)
    moreover have "\<forall>x \<in> set ?r. sz (main_chunk x) < sz (main_chunk col)" using IH s(3) by blast
    ultimately have "sorted_cols sz (Sorted ?f # ?r)" using IH m by (simp add: sorted_cols_Cons)
    then show ?thesis using False IH m by (auto simp: cs Let_def)
  qed
qed (simp add: sorted_cols_def)

lemma unlink_ok:
  assumes "bins_ok s F"
  shows "bins_ok (unlink_chunk c s) (F - {c})"
proof -
  have "bin_ok (chunk_size s) i (concat (map (column_without c) (largebins s i)))" for i
  proof -
    obtain ss us where k: "largebins s i = ss @ us" "sorted_cols (chunk_size s) ss" "\<forall>u \<in> set us. is_unsorted u"
      using bins_okD [OF assms, of i] by (auto simp: bin_ok_def)
    have "\<forall>u \<in> set (concat (map (column_without c) us)). is_unsorted u"
    proof
      fix u
      assume "u \<in> set (concat (map (column_without c) us))"
      then obtain v where "v \<in> set us" "u \<in> set (column_without c v)" by auto
      then have "is_unsorted v" "u \<in> set (column_without c v)" using k(3) by blast+
      then show "is_unsorted u" by (cases v) (auto split: if_splits)
    qed
    then have "\<exists>ss us'. concat (map (column_without c) (largebins s i)) = ss @ us' \<and> sorted_cols (chunk_size s) ss \<and> (\<forall>u \<in> set us'. is_unsorted u)"
      using without_sorted [OF k(2), of c] k(1)
      by (intro exI [of _ "concat (map (column_without c) ss)"] exI [of _ "concat (map (column_without c) us)"]) simp
    then show ?thesis using bins_okD [OF assms, of i] by (auto simp: bin_ok_def without_chunks)
  qed
  moreover have "(\<Union>i. set (bin_chunks (concat (map (column_without c) (largebins s i))))) = F - {c}"
    using assms by (auto simp: bins_ok_def without_chunks)
  ultimately show ?thesis by (simp add: bins_ok_def unlink_chunk_def)
qed

end
