(* ===== verification/Arena.thy ===== *)
theory Arena
  imports Bins
begin

text \<open>
  The arena of the large object allocator is a row of chunks. Allocation takes the smallest free
  chunk that is large enough, and fails only if there is none; freeing merges a chunk with
  its free neighbours. Both keep the boundary tags and the bins in order.
\<close>

section \<open>Choosing a chunk\<close>

lemma largebin_index_bounds:
  "largebin_index sz < 48 \<longleftrightarrow> sz < 3072" "largebin_index sz < 66 \<longleftrightarrow> sz < 12288" "largebin_index sz < 75 \<longleftrightarrow> sz < 49152"
  "largebin_index sz < 80 \<longleftrightarrow> sz < 196608" "largebin_index sz < 83 \<longleftrightarrow> sz < 786432" "largebin_index sz < N_BINS"
proof -
  have lo: "k \<le> x div n" if "k * n \<le> x" "0 < n" for k n x :: nat using that by (simp add: less_eq_div_iff_mult_less_eq)
  have hi: "x div n < k" if "x < k * n" for k n x :: nat using that by (simp add: less_mult_imp_div_less)
  consider "sz < 3072" | "3072 \<le> sz" "sz < 12288" | "12288 \<le> sz" "sz < 49152" | "49152 \<le> sz" "sz < 196608"
    | "196608 \<le> sz" "sz < 786432" | "786432 \<le> sz" by linarith
  then have "(sz < 3072 \<and> largebin_index sz < 48) \<or> (3072 \<le> sz \<and> sz < 12288 \<and> 48 \<le> largebin_index sz \<and> largebin_index sz < 66) \<or>
    (12288 \<le> sz \<and> sz < 49152 \<and> 66 \<le> largebin_index sz \<and> largebin_index sz < 75) \<or>
    (49152 \<le> sz \<and> sz < 196608 \<and> 75 \<le> largebin_index sz \<and> largebin_index sz < 80) \<or>
    (196608 \<le> sz \<and> sz < 786432 \<and> 80 \<le> largebin_index sz \<and> largebin_index sz < 83) \<or> (786432 \<le> sz \<and> largebin_index sz = 83)"
  proof cases
    case 1
    then have "largebin_index sz = sz div 64" by (simp add: largebin_index_def)
    then show ?thesis using hi [of sz 48 64] 1 by simp
  next
    case 2
    then have "largebin_index sz = 42 + sz div 512" by (simp add: largebin_index_def)
    then show ?thesis using hi [of sz 24 512] lo [of 6 512 sz] 2 by simp
  next
    case 3
    then have "largebin_index sz = 63 + sz div 4096" by (simp add: largebin_index_def)
    then show ?thesis using hi [of sz 12 4096] lo [of 3 4096 sz] 3 by simp
  next
    case 4
    then have "largebin_index sz = 74 + sz div 32768" by (simp add: largebin_index_def)
    then show ?thesis using hi [of sz 6 32768] lo [of 1 32768 sz] 4 by simp
  next
    case 5
    then have "largebin_index sz = 80 + sz div 262144" by (simp add: largebin_index_def)
    then show ?thesis using hi [of sz 3 262144] 5 by simp
  next
    case 6
    then show ?thesis by (simp add: largebin_index_def)
  qed
  then show "largebin_index sz < 48 \<longleftrightarrow> sz < 3072" "largebin_index sz < 66 \<longleftrightarrow> sz < 12288" "largebin_index sz < 75 \<longleftrightarrow> sz < 49152"
    "largebin_index sz < 80 \<longleftrightarrow> sz < 196608" "largebin_index sz < 83 \<longleftrightarrow> sz < 786432" "largebin_index sz < N_BINS"
    unfolding N_BINS_def by linarith+
qed

lemma largebin_index_mono:
  assumes ab: "a \<le> b"
  shows "largebin_index a \<le> largebin_index b"
proof (cases "\<exists>k \<in> {3072, 12288, 49152, 196608, 786432}. a < k \<and> k \<le> b")
  case True
  have between: "largebin_index a \<le> largebin_index b"
    if "a < k" "k \<le> b" "\<And>x. largebin_index x < n \<longleftrightarrow> x < k" for k n
    using that(1,2) that(3) [of a] that(3) [of b] by simp
  show ?thesis using True between [OF _ _ largebin_index_bounds(1)] between [OF _ _ largebin_index_bounds(2)]
    between [OF _ _ largebin_index_bounds(3)] between [OF _ _ largebin_index_bounds(4)]
    between [OF _ _ largebin_index_bounds(5)] by blast
next
  case False
  then have same: "a < 48 * 64 \<longleftrightarrow> b < 48 * 64" "a < 24 * 512 \<longleftrightarrow> b < 24 * 512" "a < 12 * 4096 \<longleftrightarrow> b < 12 * 4096"
    "a < 6 * 32768 \<longleftrightarrow> b < 6 * 32768" "a < 3 * 262144 \<longleftrightarrow> b < 3 * 262144" using ab by auto
  have "a div k \<le> b div k" for k using ab by (rule div_le_mono)
  then show ?thesis unfolding largebin_index_def same by simp
qed

lemma bin_of_size_index: "bin_of_size sz = largebin_index sz"
  by (simp add: bin_of_size_def largebin_index_def N_BINS_def)

text \<open>The last sorted column, the last one that is large enough.\<close>

lemma sorted_last:
  assumes "sorted_cols sz cols" and "cols \<noteq> []" and "col \<in> set cols"
  shows "sz (main_chunk (last cols)) \<le> sz (main_chunk col)"
proof -
  obtain pre where p: "cols = pre @ [last cols]" using assms(2) by (metis append_butlast_last_id)
  then have "col \<in> set pre \<or> col = last cols" using assms(3) by (metis Un_iff empty_iff insert_iff list.set set_append)
  moreover have "\<forall>x \<in> set pre. sz (main_chunk x) > sz (main_chunk (last cols))"
    using assms(1) unfolding sorted_cols_def by (subst (asm) (2) p) (auto simp: sorted_wrt_append)
  ultimately show ?thesis by auto
qed

lemma find_rev_Some:
  assumes "find P (rev xs) = Some x"
  shows "\<exists>us vs. xs = us @ x # vs \<and> P x \<and> (\<forall>v \<in> set vs. \<not> P v)"
proof -
  obtain i where i: "i < length (rev xs)" "P (rev xs ! i)" "x = rev xs ! i" "\<forall>j < i. \<not> P (rev xs ! j)"
    using assms by (auto simp: find_Some_iff)
  have "rev xs = take i (rev xs) @ x # drop (Suc i) (rev xs)" using i(1,3) by (simp add: id_take_nth_drop)
  then have "xs = rev (drop (Suc i) (rev xs)) @ x # rev (take i (rev xs))" by (metis append.assoc append_Cons append_Nil rev.simps(2) rev_append rev_rev_ident)
  moreover have "\<not> P v" if "v \<in> set (rev (take i (rev xs)))" for v
    using that i(1,4) by (auto simp: in_set_conv_nth)
  ultimately show ?thesis using i(2,3) by blast
qed

definition pick :: "nat \<Rightarrow> lm_s \<Rightarrow> (column \<times> lm_s) option" where
  "pick request_size s =
     (let index = largebin_index request_size; s = sort_bin index s
      in case scan_bin s index request_size of
           Some col \<Rightarrow> Some (col, s)
         | None \<Rightarrow> higher_bins (N_BINS - Suc index) (Suc index) s)"

lemma higher_bins_Some:
  "higher_bins n i s = Some (col, s') \<Longrightarrow>
   \<exists>j. i \<le> j \<and> j < i + n \<and> s' = sort_bin j s \<and> largebins s j \<noteq> [] \<and> col = last (largebins s' j) \<and> (\<forall>k. i \<le> k \<longrightarrow> k < j \<longrightarrow> largebins s k = [])"
proof (induction n arbitrary: i)
  case (Suc n)
  show ?case
  proof (cases "largebins s i = []")
    case True
    then have "higher_bins n (Suc i) s = Some (col, s')" using Suc.prems by simp
    from Suc.IH [OF this] obtain j where "Suc i \<le> j" "j < Suc i + n" "s' = sort_bin j s" "largebins s j \<noteq> []"
      "col = last (largebins s' j)" "\<forall>k. Suc i \<le> k \<longrightarrow> k < j \<longrightarrow> largebins s k = []" by blast
    then show ?thesis using True by (intro exI [of _ j]) (auto simp: not_less_eq_eq le_Suc_eq dest: le_neq_implies_less)
  next
    case False
    then show ?thesis using Suc.prems by (intro exI [of _ i]) (auto simp: Let_def)
  qed
qed simp

lemma higher_bins_None: "higher_bins n i s = None \<Longrightarrow> i \<le> j \<Longrightarrow> j < i + n \<Longrightarrow> largebins s j = []"
proof (induction n arbitrary: i)
  case (Suc n)
  then show ?case by (cases "i = j") (auto simp: Let_def split: if_splits)
qed simp

text \<open>Every chunk of a column has the size of the column; \<open>grab_chunk\<close> is one of them.\<close>

lemma grab_in: "col_ok sz col \<Longrightarrow> grab_chunk col \<in> set (column_chunks col) \<and> sz (grab_chunk col) = sz (main_chunk col)"
proof -
  assume ok: "col_ok sz col"
  then obtain m cs where col: "col = Sorted (m # cs)" by (cases col rule: column_chunks.cases) (auto simp: col_ok_def neq_Nil_conv)
  then show ?thesis using ok by (cases cs) (auto simp: col_ok_def main_chunk_def)
qed

lemma chunk_column:
  assumes "sorted_cols sz cols" and "c \<in> set (bin_chunks cols)"
  shows "\<exists>col \<in> set cols. c \<in> set (column_chunks col) \<and> sz c = sz (main_chunk col)"
  using assms by (auto simp: bin_chunks_def sorted_cols_def col_ok_def)

lemma column_chunk: "sorted_cols sz cols \<Longrightarrow> col \<in> set cols \<Longrightarrow> main_chunk col \<in> set (bin_chunks cols)"
  using col_ok_main by (auto simp: bin_chunks_def sorted_cols_def)

text \<open>
  The chunk that \<open>pick\<close> finds is free, large enough, and not larger than any other such
  chunk; when it finds none, there is none.
\<close>

lemma pick_Some:
  assumes ok: "bins_ok s F" and p: "pick req s = Some (col, s')"
  shows "bins_ok s' F" and "s' = s\<lparr>largebins := largebins s'\<rparr>" and "grab_chunk col \<in> F"
    and "req \<le> chunk_size s (grab_chunk col)"
    and "d \<in> F \<Longrightarrow> req \<le> chunk_size s d \<Longrightarrow> chunk_size s (grab_chunk col) \<le> chunk_size s d"
proof -
  let ?i = "largebin_index req" and ?sz = "chunk_size s"
  let ?s1 = "sort_bin ?i s"
  note s1 = sort_bin_ok [OF ok, of ?i]
  have sz1: "chunk_size ?s1 = ?sz" by (subst s1(5)) simp
  have bin: "d \<in> set (bin_chunks (largebins t (largebin_index (?sz d))))"
    if "bins_ok t F" "chunk_size t = ?sz" "d \<in> F" for t d
    using bins_ok_bin [OF that(1,3)] that(2) by (simp add: bin_of_size_index)
  have ge: "?i \<le> largebin_index (?sz d)" if "req \<le> ?sz d" for d using that by (rule largebin_index_mono)
  have inF: "c \<in> F \<and> largebin_index (?sz c) = j" if "bins_ok t F" "chunk_size t = ?sz" "c \<in> set (bin_chunks (largebins t j))" for t c j
    using that bins_okD [OF that(1), of j] by (auto simp: bins_ok_def bin_ok_def bin_of_size_index)
  have above: "?sz c \<le> ?sz d" if "largebin_index (?sz c) < largebin_index (?sz d)" for c d
    using that largebin_index_mono [of "?sz d" "?sz c"] by linarith
  have "bins_ok s' F \<and> s' = s\<lparr>largebins := largebins s'\<rparr> \<and> grab_chunk col \<in> F \<and> req \<le> ?sz (grab_chunk col) \<and>
      (d \<in> F \<longrightarrow> req \<le> ?sz d \<longrightarrow> ?sz (grab_chunk col) \<le> ?sz d)"
  proof (cases "scan_bin ?s1 ?i req")
    case (Some c)
    then have c: "col = c" "s' = ?s1" using p by (auto simp: pick_def Let_def)
    obtain us vs where v: "largebins ?s1 ?i = us @ col # vs" "req \<le> ?sz (main_chunk col)"
      "\<forall>v \<in> set vs. \<not> req \<le> ?sz (main_chunk v)"
      using find_rev_Some [OF Some [unfolded scan_bin_def]] sz1 c by auto
    have so: "sorted_cols ?sz (largebins ?s1 ?i)" by (rule s1(2))
    have colin: "col \<in> set (largebins ?s1 ?i)" by (simp add: v(1))
    have "col_ok ?sz col" using so colin by (simp add: sorted_cols_def)
    note g = grab_in [OF this]
    have gin: "grab_chunk col \<in> set (bin_chunks (largebins ?s1 ?i))" using g colin by (auto simp: bin_chunks_def)
    note gF = inF [OF s1(1) sz1 gin]
    have min: "?sz (grab_chunk col) \<le> ?sz d" if d: "d \<in> F" "req \<le> ?sz d" for d
    proof (cases "largebin_index (?sz d) = ?i")
      case False
      then show ?thesis using ge [OF d(2)] gF above [of "grab_chunk col" d] by simp
    next
      case True
      then obtain x where x: "x \<in> set (largebins ?s1 ?i)" "?sz d = ?sz (main_chunk x)"
        using bin [OF s1(1) sz1 d(1)] chunk_column [OF so] by auto
      then have "x \<notin> set vs" using v(3) d(2) by auto
      then have "x \<in> set us \<or> x = col" using x(1) v(1) by auto
      then show ?thesis using so g x(2) unfolding v(1) sorted_cols_def by (auto simp: sorted_wrt_append)
    qed
    show "bins_ok s' F \<and> s' = s\<lparr>largebins := largebins s'\<rparr> \<and> grab_chunk col \<in> F \<and> req \<le> ?sz (grab_chunk col) \<and>
      (d \<in> F \<longrightarrow> req \<le> ?sz d \<longrightarrow> ?sz (grab_chunk col) \<le> ?sz d)"
      using s1(1,5) gF g v(2) min c(2) by auto
  next
    case None
    then have "higher_bins (N_BINS - Suc ?i) (Suc ?i) ?s1 = Some (col, s')" using p by (simp add: pick_def Let_def)
    from higher_bins_Some [OF this] obtain j where j: "Suc ?i \<le> j" "s' = sort_bin j ?s1" "largebins ?s1 j \<noteq> []"
      "col = last (largebins s' j)" "\<And>k. Suc ?i \<le> k \<Longrightarrow> k < j \<Longrightarrow> largebins ?s1 k = []" by blast
    note s2 = sort_bin_ok [OF s1(1), of j, folded j(2)]
    have sz2: "chunk_size s' = ?sz" using s2(5) sz1 by (metis lm_s.select_convs(2) lm_s.surjective lm_s.update_convs(5))
    have so: "sorted_cols ?sz (largebins s' j)" using s2(2) sz1 by simp
    have "set (bin_chunks (largebins ?s1 j)) \<noteq> {}"
    proof -
      obtain x xs where "largebins ?s1 j = x # xs" using j(3) by (cases "largebins ?s1 j") auto
      moreover have "column_chunks x \<noteq> []"
      proof -
        obtain ss us where k: "largebins ?s1 j = ss @ us" "sorted_cols (chunk_size ?s1) ss" "\<forall>u \<in> set us. is_unsorted u"
          using bins_okD [OF s1(1), of j] by (auto simp: bin_ok_def)
        have "x \<in> set ss \<or> x \<in> set us" using calculation k(1) by (metis Un_iff list.set_intros(1) set_append)
        then show ?thesis using k(2,3) by (cases x) (auto simp: sorted_cols_def col_ok_def)
      qed
      ultimately show ?thesis by simp
    qed
    then have "largebins s' j \<noteq> []" using s2(3) [of j] by auto
    then have colin: "col \<in> set (largebins s' j)" using j(4) by simp
    have "col_ok ?sz col" using so colin by (simp add: sorted_cols_def)
    note g = grab_in [OF this]
    have gin: "grab_chunk col \<in> set (bin_chunks (largebins s' j))" using g colin by (auto simp: bin_chunks_def)
    note gF = inF [OF s2(1) sz2 gin]
    have big: "req \<le> ?sz (grab_chunk col)" using gF j(1) largebin_index_mono [of "?sz (grab_chunk col)" req] by linarith
    have no: "\<not> req \<le> ?sz (main_chunk x)" if "x \<in> set (largebins ?s1 ?i)" for x
      using None that sz1 by (auto simp: scan_bin_def find_None_iff)
    have min: "?sz (grab_chunk col) \<le> ?sz d" if d: "d \<in> F" "req \<le> ?sz d" for d
    proof -
      let ?k = "largebin_index (?sz d)"
      have "?k \<noteq> ?i"
      proof
        assume "?k = ?i"
        then obtain x where "x \<in> set (largebins ?s1 ?i)" "?sz d = ?sz (main_chunk x)"
          using bin [OF s1(1) sz1 d(1)] chunk_column [OF s1(2)] by auto
        then show False using no d(2) by auto
      qed
      moreover have "largebins ?s1 ?k \<noteq> []" using bin [OF s1(1) sz1 d(1)] by auto
      ultimately have "j \<le> ?k" using ge [OF d(2)] j(5) [of ?k] by fastforce
      then consider "j = ?k" | "j < ?k" by linarith
      then show ?thesis
      proof cases
        case 1
        have "d \<in> set (bin_chunks (largebins s' j))" unfolding 1 by (rule bin [OF s2(1) sz2 d(1)])
        from chunk_column [OF so this] obtain x where x: "x \<in> set (largebins s' j)" "?sz d = ?sz (main_chunk x)" by blast
        then show ?thesis using sorted_last [OF so _ x(1)] j(4) g by (metis empty_iff list.set(1))
      next
        case 2
        then show ?thesis using gF above [of "grab_chunk col" d] by simp
      qed
    qed
    have "s' = s\<lparr>largebins := largebins s'\<rparr>"
      using s2(5) s1(5) by (metis lm_s.surjective lm_s.update_convs(5))
    then show "bins_ok s' F \<and> s' = s\<lparr>largebins := largebins s'\<rparr> \<and> grab_chunk col \<in> F \<and> req \<le> ?sz (grab_chunk col) \<and>
      (d \<in> F \<longrightarrow> req \<le> ?sz d \<longrightarrow> ?sz (grab_chunk col) \<le> ?sz d)"
      using s2(1) gF big min by auto
  qed
  then show "bins_ok s' F" "s' = s\<lparr>largebins := largebins s'\<rparr>" "grab_chunk col \<in> F" "req \<le> ?sz (grab_chunk col)"
    "d \<in> F \<Longrightarrow> req \<le> ?sz d \<Longrightarrow> ?sz (grab_chunk col) \<le> ?sz d" by blast+
qed

lemma pick_None:
  assumes ok: "bins_ok s F" and p: "pick req s = None" and d: "d \<in> F"
  shows "chunk_size s d < req"
proof (rule ccontr)
  assume "\<not> chunk_size s d < req"
  then have big: "req \<le> chunk_size s d" by simp
  let ?i = "largebin_index req" and ?k = "largebin_index (chunk_size s d)"
  let ?s1 = "sort_bin ?i s"
  note s1 = sort_bin_ok [OF ok, of ?i]
  have sz1: "chunk_size ?s1 = chunk_size s" by (subst s1(5)) simp
  have scan: "scan_bin ?s1 ?i req = None" and hi: "higher_bins (N_BINS - Suc ?i) (Suc ?i) ?s1 = None"
    using p by (auto simp: pick_def Let_def split: option.splits)
  have din: "d \<in> set (bin_chunks (largebins ?s1 ?k))" using bins_ok_bin [OF s1(1) d] sz1 by (simp add: bin_of_size_index)
  have "?i \<le> ?k" using big by (rule largebin_index_mono)
  moreover have "?k \<noteq> ?i"
  proof
    assume "?k = ?i"
    then obtain x where "x \<in> set (largebins ?s1 ?i)" "chunk_size s d = chunk_size s (main_chunk x)"
      using din chunk_column [OF s1(2)] by auto
    then show False using scan big sz1 by (auto simp: scan_bin_def find_None_iff)
  qed
  ultimately have "largebins ?s1 ?k = []"
    using higher_bins_None [OF hi, of ?k] largebin_index_bounds(6) [of "chunk_size s d"] by simp
  then show False using din by simp
qed

section \<open>The row of chunks\<close>

text \<open>
  A chunk is its address, its size and whether it is free. \<open>row s p a cs q e\<close>: the chunks
  \<open>cs\<close> tile the addresses from \<open>a\<close> to \<open>e\<close> with the boundary tags in order; \<open>p\<close> is the tag
  that the chunk at \<open>a\<close> has because of the one before it, 0 or the size of a free one, and
  \<open>q\<close> the tag that follows at \<open>e\<close>. No two free chunks are neighbours.
\<close>

type_synonym chunk = "nat \<times> nat \<times> bool"

fun row :: "lm_s \<Rightarrow> nat \<Rightarrow> nat \<Rightarrow> chunk list \<Rightarrow> nat \<Rightarrow> nat \<Rightarrow> bool" where
  "row s p a [] q e \<longleftrightarrow> q = p \<and> e = a"
| "row s p a ((c, n, f) # cs) q e \<longleftrightarrow> c = a \<and> chunk_size s a = n \<and> 32 \<le> n \<and>
     (if f then p = 0 \<and> prev_size s a = THIS_CHUNK_FREE else prev_size s a = p) \<and>
     row s (if f then n else 0) (a + 16 + n) cs q e"

lemma row_append: "row s p a (xs @ ys) q e \<longleftrightarrow> (\<exists>p' b. row s p a xs p' b \<and> row s p' b ys q e)"
  by (induction s p a xs q e rule: row.induct) auto

lemma row_le: "row s p a cs q e \<Longrightarrow> a \<le> e \<and> (cs \<noteq> [] \<longrightarrow> a + 48 \<le> e)"
  by (induction s p a cs q e rule: row.induct) auto

lemma row_in: "row s p a cs q e \<Longrightarrow> (c, n, f) \<in> set cs \<Longrightarrow> a \<le> c \<and> c + 16 + n \<le> e \<and> chunk_size s c = n \<and> 32 \<le> n"
proof (induction s p a cs q e rule: row.induct)
  case (2 s p a c' n' f' cs q e)
  then show ?case using row_le [of s "if f' then n' else 0" "a + 16 + n'" cs q e] by auto
qed simp

lemma row_cong:
  assumes "row s p a cs q e" and "\<And>x. a \<le> x \<Longrightarrow> x < e \<Longrightarrow> prev_size s' x = prev_size s x \<and> chunk_size s' x = chunk_size s x"
  shows "row s' p a cs q e"
  using assms
proof (induction s p a cs q e rule: row.induct)
  case (2 s p a c n f cs q e)
  have r: "row s (if f then n else 0) (a + 16 + n) cs q e" using "2.prems"(1) by simp
  have "row s' (if f then n else 0) (a + 16 + n) cs q e" by (rule "2.IH" [OF r]) (use "2.prems"(2) in simp)
  moreover have "a < e" using row_le [OF r] by simp
  ultimately show ?case using "2.prems"(1) "2.prems"(2) [of a] by simp
qed simp

lemma row_distinct: "row s p a cs q e \<Longrightarrow> distinct (map fst cs)"
proof (induction s p a cs q e rule: row.induct)
  case (2 s p a c n f cs q e)
  have r: "row s (if f then n else 0) (a + 16 + n) cs q e" using "2.prems" by simp
  have "a \<notin> fst ` set cs" using row_in [OF r] by fastforce
  then show ?case using "2.IH" [OF r] "2.prems" by simp
qed simp

definition free_chunks :: "chunk list \<Rightarrow> nat set" where
  "free_chunks cs = {c. \<exists>n. (c, n, True) \<in> set cs}"

lemma free_chunks_simps [simp]:
  "free_chunks [] = {}" "free_chunks ((c, n, f) # cs) = (if f then insert c (free_chunks cs) else free_chunks cs)"
  "free_chunks (xs @ ys) = free_chunks xs \<union> free_chunks ys"
  by (auto simp: free_chunks_def)

text \<open>The invariant of the allocator.\<close>

definition arena_ok :: "lm_s \<Rightarrow> chunk list \<Rightarrow> bool" where
  "arena_ok s cs \<longleftrightarrow> row s 0 (first_chunk s) cs (prev_size s (last_chunk s)) (last_chunk s) \<and>
     chunk_size s (last_chunk s) = END_MARKER \<and> bins_ok s (free_chunks cs)"

text \<open>Setting the tag of the chunk after a free one, or after one that is in use.\<close>

lemma retag:
  assumes "row s p a cs (prev_size s e) e" and "p \<noteq> 0 \<or> (\<forall>c n f. cs \<noteq> [] \<longrightarrow> hd cs = (c, n, f) \<longrightarrow> \<not> f)"
  shows "row (set_prev_size a p' s) p' a cs (prev_size (set_prev_size a p' s) e) e"
proof (cases cs)
  case Nil
  then show ?thesis using assms(1) by simp
next
  case (Cons x ys)
  obtain c n f where x: "x = (c, n, f)" by (cases x)
  have nf: "\<not> f" using assms(1,2) by (auto simp: Cons x split: if_splits)
  have r: "row s 0 (a + 16 + n) ys (prev_size s e) e" "c = a" "chunk_size s a = n" "32 \<le> n"
    using assms(1) nf by (simp_all add: Cons x)
  have "row (set_prev_size a p' s) 0 (a + 16 + n) ys (prev_size s e) e" by (rule row_cong [OF r(1)]) simp
  moreover have "e \<noteq> a" using row_le [OF r(1)] by simp
  ultimately show ?thesis using r nf by (simp add: Cons x)
qed

text \<open>Looking at one chunk of the row.\<close>

lemma row_split:
  assumes "row s p a (xs @ (c, n, f) # ys) q e"
  obtains p' where "row s p a xs p' c" and "chunk_size s c = n" and "32 \<le> n"
    and "if f then p' = 0 \<and> prev_size s c = THIS_CHUNK_FREE else prev_size s c = p'"
    and "row s (if f then n else 0) (c + 16 + n) ys q e"
  using assms unfolding row_append by auto

lemma row_used:
  assumes "row s p a xs p' c" and "chunk_size s c = n" and "32 \<le> n" and "prev_size s c = p'" and "row s 0 (c + 16 + n) ys q e"
  shows "row s p a (xs @ (c, n, False) # ys) q e"
  unfolding row_append by (intro exI [of _ p'] exI [of _ c]) (simp add: assms)

lemma row_free:
  assumes "row s p a xs 0 c" and "chunk_size s c = n" and "32 \<le> n" and "prev_size s c = 1" and "row s n (c + 16 + n) ys q e"
  shows "row s p a (xs @ (c, n, True) # ys) q e"
  unfolding row_append by (intro exI [of _ 0] exI [of _ c]) (simp add: assms THIS_CHUNK_FREE_def)

lemma row_outside:
  assumes "row s p a xs p' c" and "row s q (c + 16 + n) ys q' e" and "d \<in> free_chunks xs \<union> free_chunks ys"
  shows "d < c \<or> c + 16 + n \<le> d"
proof -
  obtain m where "(d, m, True) \<in> set xs \<or> (d, m, True) \<in> set ys" using assms(3) by (auto simp: free_chunks_def)
  then show ?thesis using row_in [OF assms(1), of d m True] row_in [OF assms(2), of d m True] by auto
qed

section \<open>Allocation\<close>

lemma insert_unsorted_frame [simp]:
  "prev_size (insert_unsorted c s) = prev_size s" "chunk_size (insert_unsorted c s) = chunk_size s"
  "first_chunk (insert_unsorted c s) = first_chunk s" "last_chunk (insert_unsorted c s) = last_chunk s"
  "ctl (insert_unsorted c s) = ctl s"
  by (simp_all add: insert_unsorted_def Let_def)

lemma unlink_chunk_frame [simp]:
  "prev_size (unlink_chunk c s) = prev_size s" "chunk_size (unlink_chunk c s) = chunk_size s"
  "first_chunk (unlink_chunk c s) = first_chunk s" "last_chunk (unlink_chunk c s) = last_chunk s"
  "ctl (unlink_chunk c s) = ctl s"
  by (simp_all add: unlink_chunk_def)

text \<open>What becomes of a free chunk of size \<open>n\<close> of which \<open>req\<close> bytes are used.\<close>

definition carve :: "nat \<Rightarrow> nat \<Rightarrow> nat \<Rightarrow> chunk list" where
  "carve c n req = (if n - req < 48 then [(c, n, False)] else [(c, req, False), (c + 16 + req, n - req - 16, True)])"

lemma found_ok:
  assumes r: "row s 0 (first_chunk s) (xs @ (c, n, True) # ys) (prev_size s (last_chunk s)) (last_chunk s)"
    and e: "chunk_size s (last_chunk s) = END_MARKER" and b: "bins_ok s (free_chunks xs \<union> free_chunks ys)"
    and req: "req \<le> n" "32 \<le> req"
  shows "fst (large_malloc_found c req s) = c + 16" and "arena_ok (snd (large_malloc_found c req s)) (xs @ carve c n req @ ys)"
    and "first_chunk (snd (large_malloc_found c req s)) = first_chunk s"
    and "last_chunk (snd (large_malloc_found c req s)) = last_chunk s"
    and "ctl (snd (large_malloc_found c req s)) =
      increment_total_allocated (int ((if n - req < 48 then n else req) + 16)) (ctl s)"
proof -
  obtain p' where x: "row s 0 (first_chunk s) xs p' c" "chunk_size s c = n" "32 \<le> n" "p' = 0" "prev_size s c = THIS_CHUNK_FREE"
    "row s n (c + 16 + n) ys (prev_size s (last_chunk s)) (last_chunk s)" using row_split [OF r] by fastforce
  let ?next = "c + 16 + n" and ?l = "last_chunk s"
  have l: "?next \<le> ?l" using row_le [OF x(6)] by simp
  note out = row_outside [OF x(1,6)]
  have res: "fst (large_malloc_found c req s) = c + 16 \<and> arena_ok (snd (large_malloc_found c req s)) (xs @ carve c n req @ ys) \<and>
    first_chunk (snd (large_malloc_found c req s)) = first_chunk s \<and> last_chunk (snd (large_malloc_found c req s)) = ?l \<and>
    ctl (snd (large_malloc_found c req s)) = increment_total_allocated (int ((if n - req < 48 then n else req) + 16)) (ctl s)"
  proof (cases "n - req < 48")
    case True
    define s' where "s' = snd (large_malloc_found c req s)"
    have run: "fst (large_malloc_found c req s) = c + 16" "prev_size s' = (prev_size s)(?next := 0, c := 0)"
      "chunk_size s' = (chunk_size s)(c := n)" "largebins s' = largebins s" "first_chunk s' = first_chunk s" "last_chunk s' = ?l"
      "ctl s' = increment_total_allocated (int (n + 16)) (ctl s)"
      using True by (simp_all add: s'_def large_malloc_found_def Let_def x(2) lm_consts next_chunk_def add.assoc)
    have "row s' 0 (first_chunk s) xs 0 c" by (rule row_cong [OF x(1)[unfolded x(4)]]) (simp add: run)
    moreover have "row s' 0 ?next ys (prev_size s' ?l) ?l"
    proof -
      have "row (set_prev_size ?next 0 s) 0 ?next ys (prev_size (set_prev_size ?next 0 s) ?l) ?l"
        by (rule retag [OF x(6)]) (use x(3) in simp)
      then have "row s' 0 ?next ys (prev_size (set_prev_size ?next 0 s) ?l) ?l" by (rule row_cong) (simp add: run)
      then show ?thesis using l by (simp add: run)
    qed
    ultimately have "row s' 0 (first_chunk s) (xs @ (c, n, False) # ys) (prev_size s' ?l) ?l"
      by (intro row_used [where p' = 0]) (use x(3) in \<open>simp_all add: run\<close>)
    then have "row s' 0 (first_chunk s) (xs @ carve c n req @ ys) (prev_size s' ?l) ?l"
      using True by (simp only: carve_def append.simps if_True)
    moreover have "bins_ok s' (free_chunks (xs @ carve c n req @ ys))"
      using bins_ok_cong [OF b run(4)] True x(2) by (simp add: carve_def run)
    ultimately have "arena_ok s' (xs @ carve c n req @ ys)" using e l by (simp add: arena_ok_def run)
    then show ?thesis using run True by (simp add: s'_def)
  next
    case False
    let ?new = "c + (16 + req)" and ?m = "n - req - 16"
    define s' where "s' = snd (large_malloc_found c req s)"
    let ?s2 = "set_chunk_size ?new ?m (set_prev_size ?new 1 s)"
    let ?s3 = "set_prev_size (?new + (16 + ?m)) ?m ?s2"
    have nn: "?new + (16 + ?m) = ?next" using False by simp
    have run: "fst (large_malloc_found c req s) = c + 16" "prev_size s' = (prev_size s)(?new := 1, ?next := ?m, c := 0)"
      "chunk_size s' = (chunk_size s)(?new := ?m, c := req)" "largebins s' = largebins (insert_unsorted ?new ?s3)"
      "first_chunk s' = first_chunk s" "last_chunk s' = ?l" "ctl s' = increment_total_allocated (int (req + 16)) (ctl s)"
      using False nn by (simp_all add: s'_def large_malloc_found_def Let_def x(2) lm_consts next_chunk_def add.assoc)
    have "row s' 0 (first_chunk s) xs 0 c" by (rule row_cong [OF x(1)[unfolded x(4)]]) (simp add: run)
    moreover have "row s' ?m ?next ys (prev_size s' ?l) ?l"
    proof -
      have "row (set_prev_size ?next ?m s) ?m ?next ys (prev_size (set_prev_size ?next ?m s) ?l) ?l"
        by (rule retag [OF x(6)]) (use x(3) in simp)
      then have "row s' ?m ?next ys (prev_size (set_prev_size ?next ?m s) ?l) ?l"
        by (rule row_cong) (use False in \<open>auto simp: run\<close>)
      moreover have "prev_size (set_prev_size ?next ?m s) ?l = prev_size s' ?l" using l False by (auto simp: run)
      ultimately show ?thesis by simp
    qed
    moreover have "prev_size s' ?new = 1" "chunk_size s' ?new = ?m" "prev_size s' c = 0" "chunk_size s' c = req"
      using False by (simp_all add: run)
    moreover have "?new = c + 16 + req" "?new + 16 + ?m = ?next" "32 \<le> ?m" using False by simp_all
    ultimately have "row s' 0 (first_chunk s) xs 0 c" "row s' 0 ?new ([] @ (?new, ?m, True) # ys) (prev_size s' ?l) ?l"
      "prev_size s' c = 0" "chunk_size s' c = req" "?new = c + 16 + req"
      using row_free [of s' 0 ?new "[]" ?new ?m ys] by (simp_all only: row.simps simp_thms)
    then have "row s' 0 (first_chunk s) (xs @ (c, req, False) # (?new, ?m, True) # ys) (prev_size s' ?l) ?l"
      using req by (intro row_used [where p' = 0]) (simp_all only: append.simps)
    then have "row s' 0 (first_chunk s) (xs @ carve c n req @ ys) (prev_size s' ?l) ?l"
      using False by (simp only: carve_def append.simps if_False add.assoc)
    moreover have "bins_ok s' (free_chunks (xs @ carve c n req @ ys))"
    proof -
      have no: "?new \<notin> free_chunks xs \<union> free_chunks ys" "c \<notin> free_chunks xs \<union> free_chunks ys" using out False by force+
      have "bins_ok ?s3 (free_chunks xs \<union> free_chunks ys)" by (rule bins_ok_cong [OF b]) (use no in auto)
      from insert_unsorted_ok [OF this no(1)] have
        "bins_ok (insert_unsorted ?new ?s3) (insert ?new (free_chunks xs \<union> free_chunks ys))" .
      then have "bins_ok s' (insert ?new (free_chunks xs \<union> free_chunks ys))"
        by (rule bins_ok_cong) (use no run in auto)
      then show ?thesis using False by (simp add: carve_def add.assoc)
    qed
    moreover have "chunk_size s' ?l = END_MARKER" using e l False by (auto simp: run)
    ultimately have "arena_ok s' (xs @ carve c n req @ ys)" by (simp only: arena_ok_def run(5,6) simp_thms)
    then show ?thesis using run False by (simp add: s'_def)
  qed
  then show "fst (large_malloc_found c req s) = c + 16" "arena_ok (snd (large_malloc_found c req s)) (xs @ carve c n req @ ys)"
    "first_chunk (snd (large_malloc_found c req s)) = first_chunk s" "last_chunk (snd (large_malloc_found c req s)) = last_chunk s"
    "ctl (snd (large_malloc_found c req s)) = increment_total_allocated (int ((if n - req < 48 then n else req) + 16)) (ctl s)"
    by blast+
qed

text \<open>The whole of \<open>_stm_large_malloc\<close>: best fit.\<close>

lemma malloc_ok:
  fixes request_size :: nat
  assumes ok: "arena_ok s cs"
  defines "req \<equiv> max 32 request_size"
  shows "(\<exists>xs c n ys s'. large_malloc request_size s = (Some (c + 16), s') \<and> cs = xs @ (c, n, True) # ys \<and> req \<le> n \<and>
      (\<forall>d m. (d, m, True) \<in> set cs \<longrightarrow> req \<le> m \<longrightarrow> n \<le> m) \<and> arena_ok s' (xs @ carve c n req @ ys) \<and>
      first_chunk s' = first_chunk s \<and> last_chunk s' = last_chunk s \<and>
      ctl s' = increment_total_allocated (int ((if n - req < 48 then n else req) + 16)) (ctl s)) \<or>
    (\<exists>s'. large_malloc request_size s = (None, s') \<and> (\<forall>d m. (d, m, True) \<in> set cs \<longrightarrow> m < req) \<and> arena_ok s' cs \<and>
      ctl s' = ctl s)"
proof -
  have b: "bins_ok s (free_chunks cs)" and r: "row s 0 (first_chunk s) cs (prev_size s (last_chunk s)) (last_chunk s)"
    and e: "chunk_size s (last_chunk s) = END_MARKER" using ok by (simp_all add: arena_ok_def)
  have size: "chunk_size s d = m" if "(d, m, True) \<in> set cs" for d m using row_in [OF r that] by simp
  have rq: "(if request_size < MIN_ALLOC_SIZE then MIN_ALLOC_SIZE else request_size) = req"
    by (simp add: req_def lm_consts)
  have mal: "large_malloc request_size s = (case pick req s of None \<Rightarrow> (None, sort_bin (largebin_index req) s)
      | Some (col, s) \<Rightarrow> let (addr, s) = large_malloc_found (grab_chunk col) req (unlink_chunk (grab_chunk col) s) in (Some addr, s))"
    unfolding large_malloc_def rq Let_def pick_def by (simp add: Let_def split: option.splits)
  show ?thesis
  proof (cases "pick req s")
    case None
    let ?s = "sort_bin (largebin_index req) s"
    note sb = sort_bin_ok [OF b, of "largebin_index req"]
    have f: "prev_size ?s = prev_size s" "chunk_size ?s = chunk_size s" "first_chunk ?s = first_chunk s"
      "last_chunk ?s = last_chunk s" "ctl ?s = ctl s" by (subst sb(5), simp)+
    have "row ?s 0 (first_chunk s) cs (prev_size s (last_chunk s)) (last_chunk s)" by (rule row_cong [OF r]) (simp add: f)
    then have "arena_ok ?s cs" using sb(1) e by (simp add: arena_ok_def f)
    moreover have "m < req" if "(d, m, True) \<in> set cs" for d m
      using pick_None [OF b None, of d] size [OF that] that by (auto simp: free_chunks_def)
    ultimately show ?thesis using None mal f by auto
  next
    case (Some q)
    obtain col s1 where q: "q = (col, s1)" by (cases q)
    note p = pick_Some [OF b Some [unfolded q]]
    let ?c = "grab_chunk col"
    obtain n where n: "(?c, n, True) \<in> set cs" using p(3) by (auto simp: free_chunks_def)
    then obtain xs ys where cs: "cs = xs @ (?c, n, True) # ys" by (auto dest: split_list)
    let ?u = "unlink_chunk ?c s1"
    have f: "prev_size s1 = prev_size s" "chunk_size s1 = chunk_size s" "first_chunk s1 = first_chunk s"
      "last_chunk s1 = last_chunk s" "ctl s1 = ctl s" by (subst p(2), simp)+
    have ru: "row ?u 0 (first_chunk ?u) (xs @ (?c, n, True) # ys) (prev_size ?u (last_chunk ?u)) (last_chunk ?u)"
      unfolding cs [symmetric] unlink_chunk_frame f by (rule row_cong [OF r]) (simp add: f)
    have dis: "?c \<notin> free_chunks xs \<union> free_chunks ys"
      using row_distinct [OF r] unfolding cs by (force simp: free_chunks_def)
    have bu: "bins_ok ?u (free_chunks xs \<union> free_chunks ys)"
      using unlink_ok [OF p(1), of ?c] dis unfolding cs by (simp add: Un_commute insert_commute)
    have le: "req \<le> n" "32 \<le> req" using p(4) size [OF n] by (simp_all add: req_def)
    have eu: "chunk_size ?u (last_chunk ?u) = END_MARKER" using e by (simp add: f)
    note fo = found_ok [OF ru eu bu le]
    let ?s' = "snd (large_malloc_found ?c req ?u)"
    have "large_malloc request_size s = (Some (?c + 16), ?s')"
      unfolding mal Some q using fo(1) by (simp add: case_prod_beta)
    moreover have "n \<le> m" if "(d, m, True) \<in> set cs" "req \<le> m" for d m
      using p(5) [of d] that size [OF n] size [OF that(1)] by (auto simp: free_chunks_def)
    moreover have "first_chunk ?s' = first_chunk s" "last_chunk ?s' = last_chunk s"
      "ctl ?s' = increment_total_allocated (int ((if n - req < 48 then n else req) + 16)) (ctl s)"
      using fo(3-5) f by simp_all
    ultimately show ?thesis using cs le(1) fo(2) by blast
  qed
qed

section \<open>Freeing\<close>

text \<open>The row after the chunk \<open>c\<close> between \<open>xs\<close> and \<open>ys\<close> was freed: merged with its free neighbours.\<close>

fun merge_next :: "nat \<Rightarrow> chunk list \<Rightarrow> nat \<times> chunk list" where
  "merge_next n ((d, m, True) # ys) = (n + 16 + m, ys)"
| "merge_next n ys = (n, ys)"

fun merge_prev :: "chunk list \<Rightarrow> nat \<Rightarrow> nat \<Rightarrow> chunk list \<Rightarrow> chunk list" where
  "merge_prev ((b, k, True) # ws) c n ys = rev ws @ (b, k + 16 + n, True) # ys"
| "merge_prev ws c n ys = rev ws @ (c, n, True) # ys"

definition freed :: "chunk list \<Rightarrow> nat \<Rightarrow> nat \<Rightarrow> chunk list \<Rightarrow> chunk list" where
  "freed xs c n ys = (case merge_next n ys of (n, ys) \<Rightarrow> merge_prev (rev xs) c n ys)"

text \<open>The first half of \<open>_large_free\<close> merges with the chunk behind.\<close>

definition free_next :: "nat \<Rightarrow> lm_s \<Rightarrow> lm_s" where
  "free_next chunk s =
     (let msize = chunk_size s chunk + CHUNK_HEADER_SIZE;
          mscan = chunk + msize
      in if prev_size s mscan = BOTH_CHUNKS_USED then set_prev_size mscan (chunk_size s chunk) s
         else let fsize = chunk_size s mscan;
                  fscan = mscan + (fsize + CHUNK_HEADER_SIZE);
                  s = unlink_chunk mscan s;
                  fsize = fsize + msize;
                  s = set_prev_size fscan fsize s
              in set_chunk_size chunk fsize s)"

definition free_prev :: "nat \<Rightarrow> lm_s \<Rightarrow> lm_s" where
  "free_prev chunk s =
     (let (chunk, s) =
            (if prev_size s chunk = BOTH_CHUNKS_USED
             then (chunk, set_prev_size chunk THIS_CHUNK_FREE s)
             else let msize = prev_size s chunk + CHUNK_HEADER_SIZE;
                      mscan = chunk - msize;
                      s = unlink_chunk mscan s;
                      s = set_chunk_size mscan (msize + chunk_size s chunk) s
                  in (mscan, set_prev_size (next_chunk s mscan) (chunk_size s mscan) s))
      in insert_unsorted chunk s)"

lemma large_free_chunk_steps:
  "large_free_chunk c s = free_prev c (free_next c
     (s\<lparr>ctl := increment_total_allocated (- int (chunk_size s c + LARGE_MALLOC_OVERHEAD)) (ctl s)\<rparr>))"
  by (simp add: large_free_chunk_def free_prev_def free_next_def Let_def)

lemma free_next_ok:
  assumes x: "row s 0 (first_chunk s) xs p' c" and c: "chunk_size s c = n" "32 \<le> n" "prev_size s c = p'"
    and y: "row s 0 (c + 16 + n) ys (prev_size s (last_chunk s)) (last_chunk s)"
    and e: "chunk_size s (last_chunk s) = END_MARKER" and b: "bins_ok s (free_chunks xs \<union> free_chunks ys)"
    and m: "merge_next n ys = (n1, ys1)"
  defines "s1 \<equiv> free_next c s"
  shows "row s1 0 (first_chunk s) xs p' c" and "chunk_size s1 c = n1" and "32 \<le> n1" and "prev_size s1 c = p'"
    and "row s1 n1 (c + 16 + n1) ys1 (prev_size s1 (last_chunk s)) (last_chunk s)"
    and "chunk_size s1 (last_chunk s) = END_MARKER" and "bins_ok s1 (free_chunks xs \<union> free_chunks ys1)"
    and "first_chunk s1 = first_chunk s" and "last_chunk s1 = last_chunk s" and "ctl s1 = ctl s"
proof -
  let ?next = "c + 16 + n" and ?l = "last_chunk s"
  have l: "?next \<le> ?l" using row_le [OF y] by simp
  note out = row_outside [OF x y]
  have "row s1 0 (first_chunk s) xs p' c \<and> chunk_size s1 c = n1 \<and> 32 \<le> n1 \<and> prev_size s1 c = p' \<and>
    row s1 n1 (c + 16 + n1) ys1 (prev_size s1 ?l) ?l \<and> chunk_size s1 ?l = END_MARKER \<and>
    bins_ok s1 (free_chunks xs \<union> free_chunks ys1) \<and> first_chunk s1 = first_chunk s \<and> last_chunk s1 = ?l \<and> ctl s1 = ctl s"
  proof (cases "\<exists>d k zs. ys = (d, k, True) # zs")
    case False
    then have nf: "n1 = n" "ys1 = ys" using m by (cases "(n, ys)" rule: merge_next.cases; auto)+
    have tag: "prev_size s ?next = 0"
      using y False by (cases ys) (auto split: if_splits)
    have s1: "s1 = set_prev_size ?next n s"
      using tag by (simp add: s1_def free_next_def Let_def c(1) lm_consts add.commute add.left_commute)
    have "row s1 n ?next ys (prev_size s1 ?l) ?l"
      unfolding s1 by (rule retag [OF y]) (use False in \<open>cases ys; auto\<close>)
    moreover have "row s1 0 (first_chunk s) xs p' c" by (rule row_cong [OF x]) (simp add: s1)
    moreover have "bins_ok s1 (free_chunks xs \<union> free_chunks ys)" by (rule bins_ok_cong [OF b]) (simp_all add: s1)
    ultimately show ?thesis using c e nf by (simp add: s1)
  next
    case True
    then obtain d k zs where ys: "ys = (d, k, True) # zs" by blast
    then have mm: "n1 = n + 16 + k" "ys1 = zs" using m by auto
    have z: "d = ?next" "chunk_size s ?next = k" "32 \<le> k" "prev_size s ?next = 1"
      "row s k (?next + 16 + k) zs (prev_size s ?l) ?l" using y ys by (simp_all add: THIS_CHUNK_FREE_def)
    have nn: "?next + 16 + k = c + 16 + n1" by (simp add: mm)
    have l': "c + 16 + n1 \<le> ?l" using row_le [OF z(5)] nn by simp
    have s1: "prev_size s1 = (prev_size s)(c + 16 + n1 := n1)" "chunk_size s1 = (chunk_size s)(c := n1)"
      "largebins s1 = largebins (unlink_chunk ?next s)" "first_chunk s1 = first_chunk s" "last_chunk s1 = ?l" "ctl s1 = ctl s"
      using z by (simp_all add: s1_def free_next_def Let_def c(1) lm_consts mm add.commute add.left_commute)
    have "row s1 n1 (c + 16 + n1) zs (prev_size s1 ?l) ?l"
    proof -
      have "row (set_prev_size (c + 16 + n1) n1 s) n1 (c + 16 + n1) zs (prev_size (set_prev_size (c + 16 + n1) n1 s) ?l) ?l"
        by (rule retag [OF z(5)[unfolded nn]]) (use z(3) in simp)
      then have "row s1 n1 (c + 16 + n1) zs (prev_size (set_prev_size (c + 16 + n1) n1 s) ?l) ?l"
        by (rule row_cong) (simp add: s1)
      then show ?thesis by (simp add: s1)
    qed
    moreover have "row s1 0 (first_chunk s) xs p' c" by (rule row_cong [OF x]) (simp add: s1)
    moreover have "bins_ok s1 (free_chunks xs \<union> free_chunks zs)"
    proof -
      have "?next \<notin> free_chunks xs \<union> free_chunks zs" using row_outside [OF x z(5) [unfolded nn]] by (fastforce simp: mm)
      then have "free_chunks xs \<union> free_chunks ys - {?next} = free_chunks xs \<union> free_chunks zs" by (auto simp: ys z(1))
      then have "bins_ok (unlink_chunk ?next s) (free_chunks xs \<union> free_chunks zs)" using unlink_ok [OF b, of ?next] by simp
      then show ?thesis by (rule bins_ok_cong) (use out [of c] ys in \<open>auto simp: s1\<close>)
    qed
    ultimately show ?thesis using c e l' mm by (simp add: s1)
  qed
  then show "row s1 0 (first_chunk s) xs p' c" "chunk_size s1 c = n1" "32 \<le> n1" "prev_size s1 c = p'"
    "row s1 n1 (c + 16 + n1) ys1 (prev_size s1 (last_chunk s)) (last_chunk s)"
    "chunk_size s1 (last_chunk s) = END_MARKER" "bins_ok s1 (free_chunks xs \<union> free_chunks ys1)"
    "first_chunk s1 = first_chunk s" "last_chunk s1 = last_chunk s" "ctl s1 = ctl s" by blast+
qed

lemma free_prev_ok:
  assumes x: "row s 0 (first_chunk s) xs p' c" and c: "chunk_size s c = n" "32 \<le> n" "prev_size s c = p'"
    and y: "row s n (c + 16 + n) ys (prev_size s (last_chunk s)) (last_chunk s)"
    and e: "chunk_size s (last_chunk s) = END_MARKER" and b: "bins_ok s (free_chunks xs \<union> free_chunks ys)"
  defines "s1 \<equiv> free_prev c s"
  shows "arena_ok s1 (merge_prev (rev xs) c n ys)" and "first_chunk s1 = first_chunk s" and "last_chunk s1 = last_chunk s"
    and "ctl s1 = ctl s"
proof -
  let ?next = "c + 16 + n" and ?l = "last_chunk s"
  have l: "?next \<le> ?l" using row_le [OF y] by simp
  note out = row_outside [OF x y]
  have "arena_ok s1 (merge_prev (rev xs) c n ys) \<and> first_chunk s1 = first_chunk s \<and> last_chunk s1 = ?l \<and> ctl s1 = ctl s"
  proof (cases "\<exists>ws d k. xs = ws @ [(d, k, True)]")
    case False
    have p: "p' = 0"
    proof (cases xs rule: rev_cases)
      case (snoc ws w)
      obtain d k f where w: "w = (d, k, f)" by (cases w)
      then have "\<not> f" using False snoc by auto
      then show ?thesis using x unfolding snoc w row_append by auto
    qed (use x in simp)
    have mp: "merge_prev (rev xs) c n ys = xs @ (c, n, True) # ys"
    proof (cases xs rule: rev_cases)
      case (snoc ws w)
      then show ?thesis using False by (cases w) auto
    qed simp
    have s1: "s1 = insert_unsorted c (set_prev_size c 1 s)"
      using c(3) p by (simp add: s1_def free_prev_def lm_consts)
    have "row s1 0 (first_chunk s) xs 0 c" by (rule row_cong [OF x [unfolded p]]) (simp add: s1)
    moreover have "row s1 n ?next ys (prev_size s ?l) ?l" by (rule row_cong [OF y]) (simp add: s1)
    moreover have "prev_size s1 ?l = prev_size s ?l" using l by (simp add: s1)
    ultimately have "row s1 0 (first_chunk s) (xs @ (c, n, True) # ys) (prev_size s1 ?l) ?l"
      by (intro row_free) (use c in \<open>simp_all add: s1\<close>)
    moreover have "bins_ok s1 (insert c (free_chunks xs \<union> free_chunks ys))"
      unfolding s1
    proof (rule insert_unsorted_ok)
      show "bins_ok (set_prev_size c 1 s) (free_chunks xs \<union> free_chunks ys)" by (rule bins_ok_cong [OF b]) simp_all
      show "c \<notin> free_chunks xs \<union> free_chunks ys" using out [of c] c(2) by auto
    qed
    ultimately show ?thesis using e l by (simp add: arena_ok_def mp s1)
  next
    case True
    then obtain ws d k where xs: "xs = ws @ [(d, k, True)]" by blast
    have w: "row s 0 (first_chunk s) ws 0 d" "chunk_size s d = k" "32 \<le> k" "prev_size s d = 1" "p' = k" "c = d + 16 + k"
      using x unfolding xs row_append by (auto simp: THIS_CHUNK_FREE_def)
    let ?n = "k + 16 + n"
    have nn: "c + 16 + n = d + 16 + ?n" using w(6) by simp
    have mp: "merge_prev (rev xs) c n ys = ws @ (d, ?n, True) # ys" by (simp add: xs)
    have dc: "c - (k + 16) = d" using w(6) by simp
    let ?s2 = "set_prev_size (d + 16 + ?n) ?n (set_chunk_size d ?n (unlink_chunk d s))"
    have s1: "s1 = insert_unsorted d ?s2"
      using c w(3,5) dc by (simp add: s1_def free_prev_def lm_consts Let_def next_chunk_def add.commute add.left_commute)
    have "row s1 0 (first_chunk s) ws 0 d" by (rule row_cong [OF w(1)]) (simp add: s1)
    moreover have "row s1 ?n (d + 16 + ?n) ys (prev_size s1 ?l) ?l"
    proof -
      have "row (set_prev_size (d + 16 + ?n) ?n s) ?n (d + 16 + ?n) ys (prev_size (set_prev_size (d + 16 + ?n) ?n s) ?l) ?l"
        by (rule retag [OF y [unfolded nn]]) (use c(2) in simp)
      then have "row s1 ?n (d + 16 + ?n) ys (prev_size (set_prev_size (d + 16 + ?n) ?n s) ?l) ?l"
        by (rule row_cong) (simp add: s1)
      then show ?thesis by (simp add: s1)
    qed
    ultimately have "row s1 0 (first_chunk s) (ws @ (d, ?n, True) # ys) (prev_size s1 ?l) ?l"
      by (intro row_free) (use c w(4) in \<open>simp_all add: s1\<close>)
    moreover have "bins_ok s1 (insert d (free_chunks ws \<union> free_chunks ys))"
      unfolding s1
    proof (rule insert_unsorted_ok)
      show no: "d \<notin> free_chunks ws \<union> free_chunks ys"
        using row_outside [OF w(1) y [unfolded nn], of d] by auto
      have "free_chunks xs \<union> free_chunks ys - {d} = free_chunks ws \<union> free_chunks ys" using no by (auto simp: xs)
      then have "bins_ok (unlink_chunk d s) (free_chunks ws \<union> free_chunks ys)" using unlink_ok [OF b, of d] by simp
      then show "bins_ok ?s2 (free_chunks ws \<union> free_chunks ys)" by (rule bins_ok_cong) (use no in auto)
    qed
    moreover have "first_chunk s1 = first_chunk s" "last_chunk s1 = ?l" "ctl s1 = ctl s" "chunk_size s1 ?l = END_MARKER"
      using e l w(6) by (simp_all add: s1)
    ultimately show ?thesis by (simp add: arena_ok_def mp)
  qed
  then show "arena_ok s1 (merge_prev (rev xs) c n ys)" "first_chunk s1 = first_chunk s" "last_chunk s1 = last_chunk s"
    "ctl s1 = ctl s" by blast+
qed

lemma free_ok:
  assumes ok: "arena_ok s (xs @ (c, n, False) # ys)"
  shows "arena_ok (large_free (c + 16) s) (freed xs c n ys)" and "first_chunk (large_free (c + 16) s) = first_chunk s"
    and "last_chunk (large_free (c + 16) s) = last_chunk s"
    and "ctl (large_free (c + 16) s) = increment_total_allocated (- int (n + 16)) (ctl s)"
proof -
  let ?s0 = "s\<lparr>ctl := increment_total_allocated (- int (n + 16)) (ctl s)\<rparr>"
  have r: "row s 0 (first_chunk s) (xs @ (c, n, False) # ys) (prev_size s (last_chunk s)) (last_chunk s)"
    and e: "chunk_size s (last_chunk s) = END_MARKER" and b: "bins_ok s (free_chunks xs \<union> free_chunks ys)"
    using ok by (simp_all add: arena_ok_def)
  obtain p' where x: "row s 0 (first_chunk s) xs p' c" "chunk_size s c = n" "32 \<le> n" "prev_size s c = p'"
    "row s 0 (c + 16 + n) ys (prev_size s (last_chunk s)) (last_chunk s)" using row_split [OF r] by fastforce
  obtain n1 ys1 where m: "merge_next n ys = (n1, ys1)" by fastforce
  have x0: "row ?s0 0 (first_chunk ?s0) xs p' c" by (rule row_cong) (use x in simp_all)
  have y0: "row ?s0 0 (c + 16 + n) ys (prev_size ?s0 (last_chunk ?s0)) (last_chunk ?s0)" by (rule row_cong) (use x in simp_all)
  have b0: "bins_ok ?s0 (free_chunks xs \<union> free_chunks ys)" by (rule bins_ok_cong [OF b]) simp_all
  note n1 = free_next_ok [OF x0 _ x(3) _ y0 _ b0 m]
  let ?s1 = "free_next c ?s0"
  have f: "row ?s1 0 (first_chunk ?s1) xs p' c" "chunk_size ?s1 c = n1" "32 \<le> n1" "prev_size ?s1 c = p'"
    "row ?s1 n1 (c + 16 + n1) ys1 (prev_size ?s1 (last_chunk ?s1)) (last_chunk ?s1)"
    "chunk_size ?s1 (last_chunk ?s1) = END_MARKER" "bins_ok ?s1 (free_chunks xs \<union> free_chunks ys1)"
    "first_chunk ?s1 = first_chunk s" "last_chunk ?s1 = last_chunk s" "ctl ?s1 = ctl ?s0"
    using n1 x e by simp_all
  note p = free_prev_ok [OF f(1-7)]
  have "large_free (c + 16) s = free_prev c ?s1"
    by (simp add: large_free_def data2chunk_def CHUNK_HEADER_SIZE_def large_free_chunk_steps x(2) LARGE_MALLOC_OVERHEAD_def)
  then show "arena_ok (large_free (c + 16) s) (freed xs c n ys)" "first_chunk (large_free (c + 16) s) = first_chunk s"
    "last_chunk (large_free (c + 16) s) = last_chunk s"
    "ctl (large_free (c + 16) s) = increment_total_allocated (- int (n + 16)) (ctl s)"
    using p f(8-10) m by (simp_all add: freed_def)
qed

section \<open>The first arena\<close>

lemma init_ok:
  assumes "64 \<le> data_size"
  shows "arena_ok (largemalloc_init_arena data_start data_size s) [(data_start, data_size - 32, True)]"
proof -
  define t where "t = largemalloc_init_arena data_start data_size s"
  have f: "first_chunk t = data_start" "last_chunk t = data_start + (data_size - 16)" "chunk_size t data_start = data_size - 32"
    "prev_size t data_start = 1" "prev_size t (last_chunk t) = data_size - 32" "chunk_size t (last_chunk t) = END_MARKER"
    "largebins t = (\<lambda>i. if i = bin_of_size (data_size - 32) then [Unsorted data_start] else [])"
    using assms by (auto simp: t_def largemalloc_init_arena_def Let_def lm_consts insert_unsorted_def)
  have "bins_ok t {data_start}"
    by (auto simp: bins_ok_def bin_ok_def f sorted_cols_def intro: exI [of _ "[]"] split: if_splits)
  then have "arena_ok t [(data_start, data_size - 32, True)]"
    using assms f by (simp add: arena_ok_def THIS_CHUNK_FREE_def)
  then show ?thesis by (simp add: t_def)
qed

end
