(* ===== verification/Sweep.thy ===== *)
theory Sweep
  imports Arena
begin

text \<open>
  \<open>_stm_largemalloc_sweep\<close> asks about every used chunk once, in the order of the addresses, and
  frees those that are not kept. \<open>_stm_largemalloc_resize_arena\<close> moves the end of the arena.
\<close>

section \<open>The chunks in use\<close>

definition in_use :: "chunk list \<Rightarrow> (nat \<times> nat) list" where
  "in_use cs = [(c, n). (c, n, f) \<leftarrow> cs, \<not> f]"

lemma in_use_simps [simp]:
  "in_use [] = []" "in_use ((c, n, f) # cs) = (if f then in_use cs else (c, n) # in_use cs)" "in_use (xs @ ys) = in_use xs @ in_use ys"
  by (simp_all add: in_use_def)

lemma in_use_merge_prev: "in_use (merge_prev ws c n ys) = in_use (rev ws) @ in_use ys"
  by (cases "(ws, c, n, ys)" rule: merge_prev.cases) simp_all

lemma merge_prev_append: "merge_prev ws c n (ys @ zs) = merge_prev ws c n ys @ zs"
  by (cases "(ws, c, n, ys)" rule: merge_prev.cases) simp_all

text \<open>The row from the next used chunk on.\<close>

fun skip_free :: "chunk list \<Rightarrow> chunk list" where
  "skip_free ((c, n, True) # cs) = cs"
| "skip_free cs = cs"

lemma merge_next_skip: "snd (merge_next n ys) = skip_free ys"
  by (cases "(n, ys)" rule: merge_next.cases) simp_all

lemma in_use_skip_free [simp]: "in_use (skip_free cs) = in_use cs"
  by (cases cs rule: skip_free.cases) simp_all

lemma freed_split: "\<exists>xs'. freed xs c n ys = xs' @ skip_free ys \<and> in_use xs' = in_use xs"
proof -
  obtain n1 where m: "merge_next n ys = (n1, skip_free ys)" using merge_next_skip [of n ys] by (cases "merge_next n ys") auto
  have "freed xs c n ys = merge_prev (rev xs) c n1 [] @ skip_free ys"
    using merge_prev_append [of "rev xs" c n1 "[]" "skip_free ys"] by (simp add: freed_def m)
  moreover have "in_use (merge_prev (rev xs) c n1 []) = in_use xs" by (simp add: in_use_merge_prev)
  ultimately show ?thesis by blast
qed

text \<open>The address of the first chunk of a row that ends at \<open>e\<close>.\<close>

definition start :: "chunk list \<Rightarrow> nat \<Rightarrow> nat" where
  "start cs e = (case cs of [] \<Rightarrow> e | (c, n, f) # _ \<Rightarrow> c)"

lemma row_start: "row s p a cs q e \<Longrightarrow> start cs e = a"
  by (cases "(s, p, a, cs, q, e)" rule: row.cases) (auto simp: start_def)

definition used_first :: "chunk list \<Rightarrow> bool" where
  "used_first cs \<longleftrightarrow> (\<forall>c n f zs. cs = (c, n, f) # zs \<longrightarrow> \<not> f)"

lemma used_first_after_free: "row s p a cs q e \<Longrightarrow> p \<noteq> 0 \<Longrightarrow> used_first cs"
  by (auto simp: used_first_def)

lemma step_over:
  assumes r: "row s 0 a cs (prev_size s e) e"
  shows "(if prev_size s a = THIS_CHUNK_FREE then next_chunk s a else a) = start (skip_free cs) e" and "used_first (skip_free cs)"
proof -
  have "(if prev_size s a = THIS_CHUNK_FREE then next_chunk s a else a) = start (skip_free cs) e \<and> used_first (skip_free cs)"
  proof (cases cs)
    case Nil
    then show ?thesis using r by (auto simp: used_first_def start_def THIS_CHUNK_FREE_def)
  next
    case (Cons x zs)
    obtain c n f where x: "x = (c, n, f)" by (cases x)
    show ?thesis
    proof (cases f)
      case True
      have z: "row s n (a + 16 + n) zs (prev_size s e) e" "n \<noteq> 0" "prev_size s a = THIS_CHUNK_FREE" "chunk_size s a = n"
        using r by (auto simp: Cons x True)
      have "start zs e = a + 16 + n" by (rule row_start [OF z(1)])
      then show ?thesis using z used_first_after_free [OF z(1,2)] by (simp add: Cons x True next_chunk_def lm_consts)
    qed (use r in \<open>auto simp: Cons x used_first_def start_def THIS_CHUNK_FREE_def\<close>)
  qed
  then show "(if prev_size s a = THIS_CHUNK_FREE then next_chunk s a else a) = start (skip_free cs) e"
    "used_first (skip_free cs)" by blast+
qed

section \<open>Sweeping\<close>

text \<open>What the questions answer, one after the other, and the bytes that are freed.\<close>

fun survivors :: "(nat \<Rightarrow> 's \<Rightarrow> bool \<times> 's) \<Rightarrow> (nat \<times> nat) list \<Rightarrow> 's \<Rightarrow> (nat \<times> nat) list \<times> 's" where
  "survivors keep [] g = ([], g)"
| "survivors keep ((c, n) # us) g =
     (case keep (c + 16) g of (kept, g) \<Rightarrow> case survivors keep us g of (vs, g) \<Rightarrow> (if kept then (c, n) # vs else vs, g))"

definition bytes :: "(nat \<times> nat) list \<Rightarrow> int" where
  "bytes us = (\<Sum>(c, n) \<leftarrow> us. int (n + 16))"

lemma bytes_simps [simp]: "bytes [] = 0" "bytes ((c, n) # us) = int (n + 16) + bytes us" "bytes (us @ vs) = bytes us + bytes vs"
  by (simp_all add: bytes_def)

lemma sweep_loop_ok:
  assumes "arena_ok s (xs @ ys)" and "used_first ys" and "length (in_use ys) < fuel"
  shows "\<exists>cs s'. sweep_loop fuel keep (start ys (last_chunk s)) g s = Some (snd (survivors keep (in_use ys) g), s') \<and>
    arena_ok s' cs \<and> in_use cs = in_use xs @ fst (survivors keep (in_use ys) g) \<and>
    first_chunk s' = first_chunk s \<and> last_chunk s' = last_chunk s \<and>
    total_allocated (ctl s') = total_allocated (ctl s) -
      word_of_int (bytes (in_use ys) - bytes (fst (survivors keep (in_use ys) g)))"
  using assms
proof (induction fuel arbitrary: s xs ys g)
  case (Suc fuel)
  have r: "row s 0 (first_chunk s) (xs @ ys) (prev_size s (last_chunk s)) (last_chunk s)"
    using Suc.prems(1) by (simp add: arena_ok_def)
  show ?case
  proof (cases ys)
    case Nil
    show ?thesis
      by (rule exI [of _ xs], rule exI [of _ s]) (use Suc.prems(1) in \<open>simp add: Nil start_def\<close>)
  next
    case (Cons x zs)
    obtain c n where x: "x = (c, n, False)" using Suc.prems(2) by (cases x) (auto simp: used_first_def Cons)
    obtain p' where c: "chunk_size s c = n" "32 \<le> n" "row s 0 (c + 16 + n) zs (prev_size s (last_chunk s)) (last_chunk s)"
      using row_split [OF r [unfolded Cons x]] by fastforce
    have ne: "c \<noteq> last_chunk s" using row_le [OF c(3)] by simp
    obtain k g1 where k: "keep (c + 16) g = (k, g1)" by fastforce
    let ?l = "last_chunk s" and ?s1 = "if k then s else large_free (c + 16) s" and ?sv = "survivors keep (in_use zs) g1"
    have nx: "next_chunk s c = c + 16 + n" by (simp add: next_chunk_def c(1) lm_consts)
    have step: "sweep_loop (Suc fuel) keep (start ys ?l) g s = sweep_loop fuel keep (start (skip_free zs) ?l) g1 ?s1"
      using ne step_over(1) [OF c(3)] k
      by (simp add: Cons x start_def [of "(c, n, False) # zs"] Let_def nx large_free_def data2chunk_def lm_consts)
    have sv: "survivors keep (in_use ys) g = (if k then (c, n) # fst ?sv else fst ?sv, snd ?sv)"
      by (simp add: Cons x k split: prod.split)
    have "\<exists>xs'. arena_ok ?s1 (xs' @ skip_free zs) \<and> in_use xs' = (if k then in_use xs @ [(c, n)] else in_use xs) \<and>
      first_chunk ?s1 = first_chunk s \<and> last_chunk ?s1 = ?l \<and>
      total_allocated (ctl ?s1) = total_allocated (ctl s) - (if k then 0 else word_of_int (int (n + 16)))"
    proof (cases k)
      case True
      have "\<exists>ws. zs = ws @ skip_free zs \<and> in_use ws = []" by (cases zs rule: skip_free.cases) auto
      then obtain ws where ws: "zs = ws @ skip_free zs" "in_use ws = []" by blast
      have "arena_ok s ((xs @ (c, n, False) # ws) @ skip_free zs)" using Suc.prems(1) ws(1) by (simp add: Cons x)
      then show ?thesis using True ws(2) by (intro exI [of _ "xs @ (c, n, False) # ws"]) simp
    next
      case False
      note f = free_ok [OF Suc.prems(1) [unfolded Cons x]]
      obtain xs' where "freed xs c n zs = xs' @ skip_free zs" "in_use xs' = in_use xs" using freed_split by blast
      then show ?thesis using False f by (intro exI [of _ xs']) (simp add: total_allocated_increment)
    qed
    then obtain xs' where xs': "arena_ok ?s1 (xs' @ skip_free zs)" "in_use xs' = (if k then in_use xs @ [(c, n)] else in_use xs)"
      "first_chunk ?s1 = first_chunk s" "last_chunk ?s1 = ?l"
      "total_allocated (ctl ?s1) = total_allocated (ctl s) - (if k then 0 else word_of_int (int (n + 16)))" by blast
    have "length (in_use (skip_free zs)) < fuel" using Suc.prems(3) by (simp add: Cons x)
    from Suc.IH [OF xs'(1) step_over(2) [OF c(3)] this, of g1] obtain cs s' where
      s': "sweep_loop fuel keep (start (skip_free zs) ?l) g1 ?s1 = Some (snd ?sv, s')" "arena_ok s' cs"
      "in_use cs = in_use xs' @ fst ?sv" "first_chunk s' = first_chunk s" "last_chunk s' = ?l"
      "total_allocated (ctl s') = total_allocated (ctl ?s1) - word_of_int (bytes (in_use zs) - bytes (fst ?sv))"
      unfolding xs'(3,4) in_use_skip_free by blast
    have "total_allocated (ctl s') = total_allocated (ctl s) -
        word_of_int (bytes (in_use ys) - bytes (fst (survivors keep (in_use ys) g)))"
      unfolding s'(6) xs'(5) sv by (simp add: Cons x algebra_simps)
    moreover have "in_use cs = in_use xs @ fst (survivors keep (in_use ys) g)" unfolding s'(3) xs'(2) sv by simp
    ultimately show ?thesis using s' step sv by (intro exI [of _ cs] exI [of _ s']) simp
  qed
qed simp

lemma sweep_ok:
  assumes ok: "arena_ok s cs" and fuel: "length (in_use cs) < fuel"
  shows "\<exists>cs' s'. largemalloc_sweep fuel keep g s = Some (snd (survivors keep (in_use cs) g), s') \<and>
    arena_ok s' cs' \<and> in_use cs' = fst (survivors keep (in_use cs) g) \<and>
    first_chunk s' = first_chunk s \<and> last_chunk s' = last_chunk s \<and>
    total_allocated (ctl s') = total_allocated (ctl s) -
      word_of_int (bytes (in_use cs) - bytes (fst (survivors keep (in_use cs) g)))"
proof -
  have r: "row s 0 (first_chunk s) cs (prev_size s (last_chunk s)) (last_chunk s)" using ok by (simp add: arena_ok_def)
  obtain ws where ws: "cs = ws @ skip_free cs" "in_use ws = []" by (cases cs rule: skip_free.cases) auto
  have "arena_ok s (ws @ skip_free cs)" using ok ws(1) by simp
  from sweep_loop_ok [OF this step_over(2) [OF r], of fuel keep g] show ?thesis
    using fuel ws(2) step_over(1) [OF r] by (simp add: largemalloc_sweep_def Let_def)
qed


section \<open>Moving the end of the arena\<close>

lemma resize_shrink:
  assumes ok: "arena_ok s (xs @ [(c, n, True)])" and big: "96 \<le> new_size"
    and sh: "first_chunk s + (new_size - 16) < last_chunk s" and fit: "c + 48 \<le> first_chunk s + (new_size - 16)"
  defines "new_last \<equiv> first_chunk s + (new_size - 16)"
  shows "\<exists>s'. largemalloc_resize_arena new_size s = (True, s') \<and> arena_ok s' (xs @ [(c, new_last - (c + 16), True)]) \<and>
    first_chunk s' = first_chunk s \<and> last_chunk s' = new_last \<and> ctl s' = ctl s"
proof -
  have r: "row s 0 (first_chunk s) (xs @ (c, n, True) # []) (prev_size s (last_chunk s)) (last_chunk s)"
    and b: "bins_ok s (insert c (free_chunks xs))" using ok by (simp_all add: arena_ok_def)
  have x: "row s 0 (first_chunk s) xs 0 c" "chunk_size s c = n" "32 \<le> n" "prev_size s c = THIS_CHUNK_FREE"
    "prev_size s (last_chunk s) = n" "last_chunk s = c + 16 + n" using row_split [OF r] by force+
  let ?m = "new_last - (c + 16)"
  let ?u = "unlink_chunk c s"
  let ?s2 = "?u\<lparr>prev_size := (prev_size s)(new_last := ?m), chunk_size := ((chunk_size s)(c := ?m))(new_last := END_MARKER),
    last_chunk := new_last\<rparr>"
  have nl: "c + 16 + ?m = new_last" "32 \<le> ?m" "c < new_last" using fit by (simp_all add: new_last_def)
  have pc: "c + 16 + n - (n + 16) = c" by simp
  have run: "largemalloc_resize_arena new_size s = (True, insert_unsorted c ?s2)"
    using big sh fit x(3,5,6) nl pc unfolding largemalloc_resize_arena_def
    by (simp add: lm_consts Let_def new_last_def)
  have no: "c \<notin> free_chunks xs" using row_in [OF x(1)] by (auto simp: free_chunks_def) force
  have "insert c (free_chunks xs) - {c} = free_chunks xs" using no by simp
  then have "bins_ok ?u (free_chunks xs)" using unlink_ok [OF b, of c] by simp
  then have "bins_ok ?s2 (free_chunks xs)"
    by (rule bins_ok_cong) (use no row_in [OF x(1)] nl in \<open>fastforce simp: free_chunks_def\<close>)+
  from insert_unsorted_ok [OF this no] have b2: "bins_ok (insert_unsorted c ?s2) (insert c (free_chunks xs))" .
  have "row (insert_unsorted c ?s2) 0 (first_chunk s) xs 0 c" by (rule row_cong [OF x(1)]) (use nl in simp)
  then have "row (insert_unsorted c ?s2) 0 (first_chunk s) (xs @ (c, ?m, True) # []) ?m new_last"
    by (rule row_free) (use nl x(4) in \<open>simp_all add: THIS_CHUNK_FREE_def\<close>)
  then have "arena_ok (insert_unsorted c ?s2) (xs @ [(c, ?m, True)])" using b2 by (simp add: arena_ok_def)
  then show ?thesis using run by simp
qed

lemma resize_grow:
  assumes ok: "arena_ok s cs" and gr: "last_chunk s + 48 \<le> first_chunk s + (new_size - 16)" and big: "96 \<le> new_size"
  defines "new_last \<equiv> first_chunk s + (new_size - 16)"
  shows "\<exists>s'. largemalloc_resize_arena new_size s = (True, s') \<and>
    arena_ok s' (freed cs (last_chunk s) (new_last - (last_chunk s + 16)) []) \<and> first_chunk s' = first_chunk s \<and>
    last_chunk s' = new_last \<and>
    total_allocated (ctl s') = total_allocated (ctl s) - word_of_nat (new_last - last_chunk s)"
proof -
  let ?l = "last_chunk s"
  let ?n = "new_last - (?l + 16)"
  define t where "t = s\<lparr>prev_size := (prev_size s)(new_last := 0), chunk_size := ((chunk_size s)(?l := ?n))(new_last := END_MARKER),
    last_chunk := new_last\<rparr>"
  have r: "row s 0 (first_chunk s) cs (prev_size s ?l) ?l" and b: "bins_ok s (free_chunks cs)" using ok by (simp_all add: arena_ok_def)
  have fl: "first_chunk s \<le> ?l" using row_le [OF r] by simp
  have nl: "?l + 16 + ?n = new_last" "32 \<le> ?n" "?l < new_last" using gr by (simp_all add: new_last_def)
  have sz: "new_size - 16 - (?l - first_chunk s) - 16 = ?n" using fl gr by (simp add: new_last_def)
  have run: "largemalloc_resize_arena new_size s = (True, large_free_chunk ?l t)"
    using big gr fl sz unfolding largemalloc_resize_arena_def
    by (simp add: lm_consts Let_def new_last_def t_def)
  have "row t 0 (first_chunk s) cs (prev_size s ?l) ?l" by (rule row_cong [OF r]) (use nl in \<open>simp add: t_def\<close>)
  then have "row t 0 (first_chunk s) (cs @ (?l, ?n, False) # []) 0 new_last"
    by (rule row_used) (use nl in \<open>simp_all add: t_def\<close>)
  moreover have "bins_ok t (free_chunks cs)"
  proof (rule bins_ok_cong [OF b])
    fix d assume "d \<in> free_chunks cs"
    then have "d < ?l" using row_in [OF r] by (fastforce simp: free_chunks_def)
    then show "chunk_size t d = chunk_size s d" using nl by (simp add: t_def)
  qed (simp add: t_def)
  ultimately have "arena_ok t (cs @ (?l, ?n, False) # [])" using nl by (simp add: arena_ok_def t_def)
  note f = free_ok [OF this]
  have eq: "large_free (?l + 16) t = large_free_chunk ?l t" by (simp add: large_free_def data2chunk_def lm_consts)
  have "int (?n + 16) = int (new_last - ?l)" using nl by simp
  then have "total_allocated (ctl (large_free_chunk ?l t)) = total_allocated (ctl s) - word_of_nat (new_last - ?l)"
    using f(4) unfolding eq by (simp add: total_allocated_increment t_def)
  then show ?thesis using run f(1-3) unfolding eq by (simp add: t_def)
qed

text \<open>The end stays where it is when the last chunk is in use or too large to be cut.\<close>

lemma resize_fails:
  assumes ok: "arena_ok s cs" and sh: "first_chunk s + (new_size - 16) < last_chunk s"
    and no: "\<And>xs c n. cs = xs @ [(c, n, True)] \<Longrightarrow> first_chunk s + (new_size - 16) < c + 48"
  shows "largemalloc_resize_arena new_size s = (False, s)"
proof -
  have r: "row s 0 (first_chunk s) cs (prev_size s (last_chunk s)) (last_chunk s)" using ok by (simp add: arena_ok_def)
  show ?thesis
  proof (cases "\<exists>xs c n. cs = xs @ [(c, n, True)]")
    case True
    then obtain xs c n where cs: "cs = xs @ [(c, n, True)]" by blast
    have "prev_size s (last_chunk s) = n" "last_chunk s = c + 16 + n" using r unfolding cs row_append by auto
    then show ?thesis using sh no [OF cs] by (auto simp: largemalloc_resize_arena_def lm_consts Let_def)
  next
    case False
    have "prev_size s (last_chunk s) = 0"
    proof (cases cs rule: rev_cases)
      case (snoc ws w)
      obtain c n f where w: "w = (c, n, f)" by (cases w)
      have "\<not> f" using False unfolding snoc w by auto
      then show ?thesis using r unfolding snoc w row_append by auto
    qed (use r in auto)
    then show ?thesis using sh by (auto simp: largemalloc_resize_arena_def lm_consts Let_def)
  qed
qed

end
