(* ===== verification/Collecting.thy ===== *)
theory Collecting
  imports Marking Sweep Isolation
begin

text \<open>
  The mark phase meets its surroundings: when the invariant of the barriers holds, segments agree
  on the references of the objects that they did not modify; and the sweep of the arena keeps
  exactly the objects that were marked.
\<close>

section \<open>Agreement of the segments\<close>

text \<open>\<open>stmcb_trace\<close> looks at the object only, and visits fields inside it.\<close>

definition trace_ok :: "ext \<Rightarrow> bool" where
  "trace_ok X \<longleftrightarrow>
     (\<forall>b b'. (\<forall>i < stmcb_size_rounded_up X b. b i = b' i) \<longrightarrow> stmcb_trace X b = stmcb_trace X b') \<and>
     (\<forall>b. \<forall>off \<in> set (stmcb_trace X b). off + 8 \<le> stmcb_size_rounded_up X b)"

lemma obj_refs_cong:
  assumes "trace_ok X" and "\<And>x. x \<in> extent X s g obj \<Longrightarrow> vread s g x = vread s h x"
  shows "obj_refs X s g obj = obj_refs X s h obj"
proof -
  let ?n = "stmcb_size_rounded_up X (obj_bytes s g obj)"
  have eq: "obj_bytes s g obj i = obj_bytes s h obj i" if "i < ?n" for i
    using assms(2) [of "obj + i"] that by (simp add: extent_def obj_size_def obj_bytes_def)
  have t: "stmcb_trace X (obj_bytes s g obj) = stmcb_trace X (obj_bytes s h obj)"
    using assms(1) eq unfolding trace_ok_def by blast
  have "vload64 s g (obj + off) = vload64 s h (obj + off)" if off: "off \<in> set (stmcb_trace X (obj_bytes s g obj))" for off
  proof -
    have "off + 8 \<le> ?n" using assms(1) off by (auto simp: trace_ok_def)
    then have "load64 (vread s g) (obj + off) = load64 (vread s h) (obj + off)"
      by (intro load64_cong assms(2)) (simp add: extent_def obj_size_def)
    then show ?thesis by (simp add: vload64_def)
  qed
  then show ?thesis unfolding obj_refs_def t [symmetric] by simp
qed

lemma isolated_coherent:
  assumes iso: "isolated X objs s" and tr: "trace_ok X" and objs: "live_objects X s (roots ts s) \<subseteq> objs"
    and num: "\<forall>t \<in> set ts. associated_segment_num (tls s t) \<le> 4"
  shows "coherent X s (roots ts s)"
  unfolding coherent_def
proof (intro allI impI)
  fix g h obj
  assume live: "live X s (roots ts s) g obj" "live X s (roots ts s) h obj"
    and no: "obj \<notin> set (modified_old_objects (segs s g))" "obj \<notin> set (modified_old_objects (segs s h))"
  have le4: "live X s (roots ts s) g obj \<Longrightarrow> g \<le> 4" for g obj
    by (induction rule: live.induct)
      (use num in \<open>auto simp: roots_def modified_roots_def thread_roots_def transaction_roots_def split: if_splits\<close>)
  have in_objs: "obj \<in> objs" using objs live by (auto simp: live_objects_def)
  have "obj_refs X s 0 obj = obj_refs X s k obj" if k: "k \<le> 4" "obj \<notin> set (modified_old_objects (segs s k))" for k
  proof (cases "k = 0")
    case False
    then have "\<forall>x \<in> extent X s 0 obj. vread s k x = vread s 0 x"
      using iso k in_objs unfolding isolated_def views_ok_def by auto
    then show ?thesis by (intro obj_refs_cong [OF tr]) simp
  qed simp
  then show "set (obj_refs X s g obj) = set (obj_refs X s h obj)" using le4 live no by metis
qed

section \<open>Sweeping what is not marked\<close>

lemma used_locs:
  assumes "row s p a cs q e" and "NURSERY_END \<le> a"
  shows "distinct (map (\<lambda>(c, n). mark_loc (c + 16)) (in_use cs)) \<and>
    (\<forall>(c, n) \<in> set (in_use cs). a div 16 - WRITELOCK_START < mark_loc (c + 16))"
  using assms
proof (induction s p a cs q e rule: row.induct)
  case (2 s p a c n f cs q e)
  have r: "row s (if f then n else 0) (a + 16 + n) cs q e" "c = a" "32 \<le> n" using "2.prems"(1) by simp_all
  have a: "NURSERY_END \<le> a + 16 + n" "WRITELOCK_START \<le> a div 16" using "2.prems"(2) by (simp_all add: page_consts)
  have "a div 16 + 1 < (a + 16 + n) div 16" using r(3) div_le_mono [of "a + 48" "a + 16 + n" 16] by simp
  then have lt: "mark_loc (a + 16) < (a + 16 + n) div 16 - WRITELOCK_START"
    "a div 16 - WRITELOCK_START < mark_loc (a + 16)" using a(2) by (simp_all add: mark_loc_def get_write_lock_idx_def)
  note IH = "2.IH" [OF r(1) a(1)]
  have "mark_loc (a + 16) \<noteq> mark_loc (c' + 16)" if "(c', n') \<in> set (in_use cs)" for c' n' using IH that lt(1) by fastforce
  moreover have "a div 16 - WRITELOCK_START < mark_loc (c' + 16)" if "(c', n') \<in> set (in_use cs)" for c' n'
    using IH that lt by fastforce
  ultimately show ?case using IH r lt by auto
qed simp

definition forget_reads :: "nat set \<Rightarrow> stm \<Rightarrow> stm" where
  "forget_reads A s = s\<lparr>rm := (\<lambda>g x. if g \<in> {1..4} \<and> x \<in> (\<lambda>obj. obj div 16) ` A then 0 else rm s g x)\<rparr>"

definition unmark :: "nat set \<Rightarrow> stm \<Rightarrow> stm" where
  "unmark A s = s\<lparr>write_locks := (\<lambda>i. if i \<in> mark_loc ` A then 0 else write_locks s i)\<rparr>"

lemma keep_object:
  "largemalloc_keep_object_at obj s =
    (if mark_visited_test s obj then (True, unmark {obj} s) else (False, forget_reads {obj} s))"
proof -
  have "foreach_f segments (\<lambda>i s. s\<lparr>rm := (rm s)(i := (rm s i)(obj div 16 := 0))\<rparr>) s = forget_reads {obj} s"
    by (rule stm.equality) (auto simp: foreach_f_def segments_eq forget_reads_def fun_eq_iff)
  moreover have "s\<lparr>write_locks := (write_locks s)(mark_loc obj := 0)\<rparr> = unmark {obj} s"
    by (rule stm.equality) (auto simp: unmark_def fun_eq_iff)
  ultimately show ?thesis
    by (simp add: largemalloc_keep_object_at_def mark_visited_test_and_clear_def mark_visited_test_def)
qed

lemma unmark_unmark: "unmark A (unmark B s) = unmark (A \<union> B) s"
  by (rule stm.equality) (auto simp: unmark_def fun_eq_iff)

lemma forget_forget: "forget_reads A (forget_reads B s) = forget_reads (A \<union> B) s"
  by (rule stm.equality) (auto simp: forget_reads_def fun_eq_iff)

lemma unmark_forget: "unmark A (forget_reads B s) = forget_reads B (unmark A s)"
  by (rule stm.equality) (auto simp: unmark_def forget_reads_def fun_eq_iff)

lemma visited_forget [simp]: "mark_visited_test (forget_reads A s) obj = mark_visited_test s obj"
  by (simp add: mark_visited_test_def forget_reads_def)

lemma visited_unmark: "mark_visited_test (unmark A s) obj \<longleftrightarrow> mark_loc obj \<notin> mark_loc ` A \<and> mark_visited_test s obj"
  by (simp add: mark_visited_test_def unmark_def WL_VISITED_def)

definition kept :: "stm \<Rightarrow> (nat \<times> nat) list \<Rightarrow> (nat \<times> nat) list" where
  "kept s us = filter (\<lambda>(c, n). mark_visited_test s (c + 16)) us"

text \<open>The object in a chunk starts after the header.\<close>

definition objects_of :: "(nat \<times> nat) list \<Rightarrow> nat set" where
  "objects_of us = (\<lambda>(c, n). c + 16) ` set us"

definition dead :: "stm \<Rightarrow> (nat \<times> nat) list \<Rightarrow> nat set" where
  "dead s us = {obj \<in> objects_of us. \<not> mark_visited_test s obj}"

lemma survivors_marked:
  assumes "distinct (map (\<lambda>(c, n). mark_loc (c + 16)) us)"
  shows "survivors largemalloc_keep_object_at us s =
    (kept s us, forget_reads (dead s us) (unmark (objects_of (kept s us)) s))"
  using assms
proof (induction us arbitrary: s)
  case Nil
  then show ?case by (simp add: kept_def dead_def objects_of_def forget_reads_def unmark_def)
next
  case (Cons u us)
  obtain c n where u: "u = (c, n)" by (cases u)
  have d: "distinct (map (\<lambda>(c, n). mark_loc (c + 16)) us)" "\<And>c' n'. (c', n') \<in> set us \<Longrightarrow> mark_loc (c' + 16) \<noteq> mark_loc (c + 16)"
    using Cons.prems by (force simp: u)+
  show ?case
  proof (cases "mark_visited_test s (c + 16)")
    case True
    let ?s = "unmark {c + 16} s"
    have v: "mark_visited_test ?s (c' + 16) = mark_visited_test s (c' + 16)" if "(c', n') \<in> set us" for c' n'
      using d(2) [OF that] by (simp add: visited_unmark)
    have k: "kept ?s us = kept s us" unfolding kept_def by (rule filter_cong) (use v in auto)
    have dd: "dead ?s us = dead s us" using v by (auto simp: dead_def objects_of_def)
    have dd2: "dead s (u # us) = dead s us" using True by (auto simp: dead_def objects_of_def u)
    have k2: "kept s (u # us) = (c, n) # kept s us" using True by (simp add: kept_def u)
    have "objects_of ((c, n) # kept s us) = objects_of (kept s us) \<union> {c + 16}" by (auto simp: objects_of_def)
    then show ?thesis using True Cons.IH [OF d(1), of ?s] by (simp add: u keep_object k dd k2 dd2 [unfolded u] k2 [unfolded u] unmark_unmark)
  next
    case False
    let ?s = "forget_reads {c + 16} s"
    have k: "kept ?s us = kept s us" "kept s (u # us) = kept s us" using False by (simp_all add: kept_def u)
    have "dead ?s us \<union> {c + 16} = dead s (u # us)" using False by (auto simp: dead_def objects_of_def u)
    then show ?thesis using False Cons.IH [OF d(1), of ?s]
      by (simp add: u keep_object k(1) k(2) [unfolded u] unmark_forget forget_forget)
  qed
qed

lemma sweep_frees:
  assumes ok: "arena_ok (lm s) cs" and a: "NURSERY_END \<le> first_chunk (lm s)" and fuel: "length (in_use cs) < fuel"
  shows "\<exists>cs' l. sweep_large_objects fuel s =
      Ret () ((forget_reads (dead s (in_use cs)) (unmark (objects_of (kept s (in_use cs))) s))\<lparr>lm := l\<rparr>) \<and>
    arena_ok l cs' \<and> in_use cs' = kept s (in_use cs) \<and> last_chunk l = last_chunk (lm s)"
proof -
  have "row (lm s) 0 (first_chunk (lm s)) cs (prev_size (lm s) (last_chunk (lm s))) (last_chunk (lm s))"
    using ok by (simp add: arena_ok_def)
  from used_locs [OF this a] have d: "distinct (map (\<lambda>(c, n). mark_loc (c + 16)) (in_use cs))" by blast
  from sweep_ok [OF ok fuel, of largemalloc_keep_object_at s] obtain cs' l where
    "largemalloc_sweep fuel largemalloc_keep_object_at s (lm s) =
      Some (forget_reads (dead s (in_use cs)) (unmark (objects_of (kept s (in_use cs))) s), l)"
    "arena_ok l cs'" "in_use cs' = kept s (in_use cs)" "last_chunk l = last_chunk (lm s)"
    unfolding survivors_marked [OF d] by auto
  then show ?thesis by (intro exI [of _ cs'] exI [of _ l]) (simp add: sweep_large_objects_def)
qed

end
