(* ===== verification/Sampleheap.thy ===== *)
theory Sampleheap
  imports Sample Collecting
begin

text \<open>
  The sample program with a reference: the first object points to the second one, and is on the
  shadow stack of the only thread. The concrete instances of the collector's theorems are about it.
\<close>

definition heap_ext :: ext where
  "heap_ext = sample_ext\<lparr>stmcb_trace := (\<lambda>_. [8])\<rparr>"

definition heap :: stm where
  "heap = (upd_tl 0 (\<lambda>x. x\<lparr>shadowstack := [SS_STOPPER, OBJ1], tl_next := Some 0, tl_prev := Some 0\<rparr>)
     (vstore64 1 (OBJ1 + 8) OBJ2 sample))\<lparr>stm_all_thread_locals := Some 0\<rparr>"

lemma vload64_vstore64: "v < 2 ^ 64 \<Longrightarrow> vload64 (vstore64 g a v s) g a = v"
proof -
  assume v: "v < 2 ^ 64"
  have "load64 (vread (vstore64 g a v s) g) a = of_nat v"
    by (rule load64_bytes) (simp add: vstore64_def vread_vfill)
  then show ?thesis using v by (simp add: vload64_def unat_of_nat)
qed

lemma heap_frame: "segs heap = segs sample" "write_locks heap = (\<lambda>_. 0)" "stm_all_thread_locals heap = Some 0"
  "tls heap = (\<lambda>_. sample_tl)(0 := sample_tl\<lparr>shadowstack := [SS_STOPPER, OBJ1], tl_next := Some 0, tl_prev := Some 0\<rparr>)"
  "testing_prebuilt_objs heap = testing_prebuilt_objs sample" "g_finalizers heap = g_finalizers sample"
  by (simp_all add: heap_def vstore64_def sample_frame upd_tl_def vfill_def)

lemma heap_load1: "vload64 heap g (OBJ1 + 8) = OBJ2"
proof -
  have r: "remap sample g PAGE_FLAG_START = 0" for g by (simp add: sample_def)
  have eq: "vread heap g x = vread (vstore64 1 (OBJ1 + 8) OBJ2 sample) 1 x" if "x div 4096 = PAGE_FLAG_START" for x
    using that by (simp add: heap_def vread_def upd_tl_def vstore64_def vfill_def r sample_def)
  have "load64 (vread heap g) (OBJ1 + 8) = load64 (vread (vstore64 1 (OBJ1 + 8) OBJ2 sample) 1) (OBJ1 + 8)"
    by (rule load64_cong, rule eq) (simp add: OBJ1_def page_consts)
  then have "vload64 heap g (OBJ1 + 8) = vload64 (vstore64 1 (OBJ1 + 8) OBJ2 sample) 1 (OBJ1 + 8)" by (simp add: vload64_def)
  then show ?thesis using vload64_vstore64 [of OBJ2 1 "OBJ1 + 8" sample] by (simp add: OBJ2_def page_consts)
qed

lemma heap_load2: "vload64 heap g (OBJ2 + 8) = 0"
proof -
  have "load64 (vread heap g) (OBJ2 + 8) = load64 (\<lambda>_. 0) (OBJ2 + 8)"
    by (rule load64_cong) (simp add: heap_def vread_def upd_tl_def vstore64_def vfill_def sample_def OBJ1_def OBJ2_def)
  then show ?thesis by (simp add: vload64_def load64_def load32_def)
qed

lemma heap_refs: "obj_refs heap_ext heap g OBJ1 = [OBJ2]" "obj_refs heap_ext heap g OBJ2 = [0]"
  by (simp_all add: obj_refs_def heap_ext_def heap_load1 heap_load2)

lemma heap_roots: "(g, obj) \<in> roots [0] heap \<Longrightarrow> obj \<noteq> 0 \<Longrightarrow> (g, obj) = (1, OBJ1)" "(1, OBJ1) \<in> roots [0] heap"
proof -
  have seg: "modified_old_objects (segs heap j) = []" "marker_objects (segs heap j) = {}" "finalizers (segs heap j) = None"
    "transaction_roots j heap \<subseteq> {(j, 0)}" if "j \<in> {1..4}" for j
    using that by (auto simp: heap_frame sample_seg started_running started_seg zero_pseg_def marker_objects_def
      transaction_roots_def sample_tl_def sample_setjmp_slices ss_pointers_def)
  have g: "testing_prebuilt_objs heap = None" "run_finalizers (g_finalizers heap) = None"
    by (simp_all add: heap_frame sample_def started_running init_finalizers_def)
  have t: "thread_roots 0 heap = {(1, OBJ1), (1, 0)}"
    by (auto simp: thread_roots_def heap_frame sample_tl_def ss_pointers_def SS_STOPPER_def OBJ1_def page_consts)
  have p: "pending_finalizers j heap = {}" if "j \<in> {0..4}" for j
    using that seg(3) [of j] g(2) by (cases "j = 0") (simp_all add: pending_finalizers_def get_finalizers_def)
  have none: "modified_roots heap = {}" "(\<Union>j \<in> {1..4}. Pair j ` marker_objects (segs heap j)) = {}"
    "(\<Union>j \<in> {0..4}. Pair j ` pending_finalizers j heap) = {}"
    using seg(1,2) p by (simp_all add: modified_roots_def)
  have r: "roots [0] heap = {(1, OBJ1), (1, 0)} \<union> (\<Union>i \<in> {1..4}. transaction_roots i heap)"
    unfolding roots_def none g(1) t by (simp add: t)
  have null: "b = 0" if "(a, b) \<in> (\<Union>i \<in> {1..4}. transaction_roots i heap)" for a b using that seg(4) by blast
  show "(g, obj) \<in> roots [0] heap \<Longrightarrow> obj \<noteq> 0 \<Longrightarrow> (g, obj) = (1, OBJ1)"
    unfolding r using null [of g obj] by blast
  show "(1, OBJ1) \<in> roots [0] heap" by (simp add: r)
qed

lemma heap_live: "live heap_ext heap (roots [0] heap) g obj \<longleftrightarrow> g = 1 \<and> (obj = OBJ1 \<or> obj = OBJ2)"
proof
  assume "live heap_ext heap (roots [0] heap) g obj"
  then show "g = 1 \<and> (obj = OBJ1 \<or> obj = OBJ2)"
  proof (induction rule: live.induct)
    case (root g obj)
    then show ?case using heap_roots(1) by blast
  next
    case (field g obj p)
    then show ?case using heap_refs by auto
  qed
next
  have one: "live heap_ext heap (roots [0] heap) 1 OBJ1" by (rule live.root [OF heap_roots(2)]) (simp add: OBJ1_def)
  then have "live heap_ext heap (roots [0] heap) 1 OBJ2" by (rule live.field) (simp_all add: heap_refs OBJ2_def)
  then show "g = 1 \<and> (obj = OBJ1 \<or> obj = OBJ2) \<Longrightarrow> live heap_ext heap (roots [0] heap) g obj" using one by auto
qed

lemma heap_live_objects: "live_objects heap_ext heap (roots [0] heap) = {OBJ1, OBJ2}"
  by (auto simp: live_objects_def heap_live)

lemma heap_markable: "markable heap_ext heap (roots [0] heap)" "coherent heap_ext heap (roots [0] heap)"
  by (auto simp: markable_def heap_live_objects coherent_def heap_live mark_visited_test_def heap_frame WL_VISITED_def
    mark_loc_def get_write_lock_idx_def OBJ1_def OBJ2_def page_consts)

lemma heap_ring: "next_ring heap [0]"
  by (simp add: next_ring_def heap_frame)


lemma heap_seg0: "modified_old_objects (segs running 0) = []" "modified_old_objects (segs started 0) = []"
  by (simp_all add: started_running started_def stm_setup_def Let_def setup_mmap_def segments_eq setup_segment_def
      setup_nursery_def setup_gcpage_def setup_finalizer_def static_state_def upd_ctl_def segs_upd_seg zero_pseg_def)

lemma arena_ok_ctl: "arena_ok s cs \<Longrightarrow> arena_ok (s\<lparr>ctl := c\<rparr>) cs"
proof -
  assume "arena_ok s cs"
  then have r: "row s 0 (first_chunk s) cs (prev_size s (last_chunk s)) (last_chunk s)"
    and b: "chunk_size s (last_chunk s) = END_MARKER" "bins_ok s (free_chunks cs)" by (simp_all add: arena_ok_def)
  have "row (s\<lparr>ctl := c\<rparr>) 0 (first_chunk s) cs (prev_size s (last_chunk s)) (last_chunk s)" by (rule row_cong [OF r]) simp
  moreover have "bins_ok (s\<lparr>ctl := c\<rparr>) (free_chunks cs)" by (rule bins_ok_cong [OF b(2)]) simp_all
  ultimately show ?thesis using b(1) by (simp add: arena_ok_def)
qed

lemma heap_lm: "arena_ok (lm heap) [(NURSERY_END, (NB_PAGES - END_NURSERY_PAGE) * 4096 - 32, True)]"
  "first_chunk (lm heap) = NURSERY_END"
proof -
  define t where "t = largemalloc_init_arena (END_NURSERY_PAGE * 4096) ((NB_PAGES - END_NURSERY_PAGE) * 4096) (lm (static_state (\<lambda>_. sample_tl)))"
  have l: "\<exists>c. lm heap = t\<lparr>ctl := c\<rparr>"
    by (simp add: heap_def upd_tl_def vstore64_def vfill_def sample_def started_running started_def stm_setup_def Let_def
      setup_mmap_def segments_eq setup_segment_def setup_nursery_def setup_gcpage_def setup_finalizer_def upd_ctl_def t_def) blast
  have "arena_ok t [(NURSERY_END, (NB_PAGES - END_NURSERY_PAGE) * 4096 - 32, True)]"
    using init_ok [of "(NB_PAGES - END_NURSERY_PAGE) * 4096" "END_NURSERY_PAGE * 4096"] by (simp add: t_def page_consts)
  then show "arena_ok (lm heap) [(NURSERY_END, (NB_PAGES - END_NURSERY_PAGE) * 4096 - 32, True)]" using l arena_ok_ctl by auto
  have "first_chunk t = NURSERY_END" by (simp add: t_def largemalloc_init_arena_def Let_def insert_unsorted_def page_consts)
  then show "first_chunk (lm heap) = NURSERY_END" using l by auto
qed

lemma started_threads: "stm_all_thread_locals started = None"
  by (simp add: started_def stm_setup_def Let_def setup_mmap_def segments_eq setup_segment_def
      setup_nursery_def setup_gcpage_def setup_finalizer_def static_state_def upd_ctl_def)

end
