(* ===== verification/C8state.thy ===== *)
theory C8state
  imports Tree Rewind
begin

text \<open>
  The state of the later prototype in \<open>c8/\<close>, where transactions are ordered by a commit log
  (\<open>c8/stm/core.h\<close>, \<open>sync.h\<close>, \<open>nursery.h\<close>, \<open>pages.h\<close>, \<open>list.h\<close>, \<open>misc.c\<close>,
  \<open>c8/stmgc.h\<close>). Names that the model of \<open>c7/\<close> also has end in 8. There are 4 segments, from
  0; a page is shared, all segments being mapped to the page of segment 0, or private in
  all of them. Addresses are byte offsets in a segment. \<open>malloc\<close> is a parameter; \<open>blocks\<close> has
  the bytes of the blocks that it gave out and that were not freed.
\<close>

section \<open>Constants\<close>

definition NB_SEGMENTS8 :: nat where "NB_SEGMENTS8 = 4"
definition NB_PAGES8 :: nat where "NB_PAGES8 = 2500 * 256"
definition NB_NURSERY_PAGES8 :: nat where "NB_NURSERY_PAGES8 = 4096 div 4"
definition READMARKER_END8 :: nat where "READMARKER_END8 = NB_PAGES8 * 4096 div 16"
definition FIRST_OBJECT_PAGE8 :: nat where "FIRST_OBJECT_PAGE8 = (READMARKER_END8 + 4095) div 4096"
definition FIRST_NURSERY_PAGE8 :: nat where "FIRST_NURSERY_PAGE8 = FIRST_OBJECT_PAGE8"
definition END_NURSERY_PAGE8 :: nat where "END_NURSERY_PAGE8 = FIRST_NURSERY_PAGE8 + NB_NURSERY_PAGES8"
definition PAGE_FLAG_START8 :: nat where "PAGE_FLAG_START8 = END_NURSERY_PAGE8"
definition NURSERY_START8 :: nat where "NURSERY_START8 = FIRST_NURSERY_PAGE8 * 4096"
definition NURSERY_SIZE8 :: nat where "NURSERY_SIZE8 = NB_NURSERY_PAGES8 * 4096"
definition NURSERY_END8 :: nat where "NURSERY_END8 = NURSERY_START8 + NURSERY_SIZE8"

lemmas page_consts8 = NB_PAGES8_def NB_NURSERY_PAGES8_def READMARKER_END8_def FIRST_OBJECT_PAGE8_def
  FIRST_NURSERY_PAGE8_def END_NURSERY_PAGE8_def PAGE_FLAG_START8_def NURSERY_START8_def NURSERY_SIZE8_def
  NURSERY_END8_def

definition GCFLAG_WRITE_BARRIER8 :: u32 where "GCFLAG_WRITE_BARRIER8 = 0x01"
definition GCFLAG_HAS_SHADOW8 :: u32 where "GCFLAG_HAS_SHADOW8 = 0x02"
definition STM_NSE_SIGNAL_MAX8 :: nat where "STM_NSE_SIGNAL_MAX8 = 1"
definition NSE_SIGPAUSE8 :: nat where "NSE_SIGPAUSE8 = STM_NSE_SIGNAL_MAX8"
definition STM_FAST_ALLOC8 :: nat where "STM_FAST_ALLOC8 = 66 * 1024"

lemmas consts8 = GCFLAG_WRITE_BARRIER8_def GCFLAG_HAS_SHADOW8_def STM_NSE_SIGNAL_MAX8_def NSE_SIGPAUSE8_def

section \<open>Trees that count\<close>

text \<open>The tree of \<open>c8/stm/list.c\<close> is that of \<open>c7/stm/list.c\<close> with the number of its items.\<close>

record tree8 =
  nodes :: tree_s
  tcount :: nat

definition tree_create8 :: tree8 where
  "tree_create8 = \<lparr>nodes = tree_create, tcount = 0\<rparr>"

definition tree_is_cleared8 :: "tree8 \<Rightarrow> bool" where
  "tree_is_cleared8 t = tree_is_cleared (nodes t)"

definition tree_clear8 :: "tree8 \<Rightarrow> tree8" where
  "tree_clear8 t = (if tree_is_cleared8 t then t else \<lparr>nodes = tree_clear (nodes t), tcount = 0\<rparr>)"

definition tree_is_empty :: "tree8 \<Rightarrow> bool" where
  "tree_is_empty t \<longleftrightarrow> tcount t = 0"

definition tree_contains8 :: "tree8 \<Rightarrow> u64 \<Rightarrow> bool" where
  "tree_contains8 t addr = tree_contains (nodes t) addr"

definition tree_find8 :: "tree8 \<Rightarrow> u64 \<Rightarrow> u64 option" where
  "tree_find8 t addr = tree_lookup (nodes t) addr"

definition tree_insert8 :: "tree8 \<Rightarrow> u64 \<Rightarrow> u64 \<Rightarrow> tree_error + tree8" where
  "tree_insert8 t addr val = (case tree_insert insert_fuel (\<lambda>_. True) (nodes t) addr val of
     Inl e \<Rightarrow> Inl e | Inr n \<Rightarrow> Inr \<lparr>nodes = n, tcount = tcount t + 1\<rparr>)"

definition tree_delete_item8 :: "tree8 \<Rightarrow> u64 \<Rightarrow> bool \<times> tree8" where
  "tree_delete_item8 t addr = (let (found, n) = tree_delete_item (nodes t) addr
     in if found then (True, \<lparr>nodes = n, tcount = tcount t - 1\<rparr>) else (False, t))"

text \<open>\<open>TREE_LOOP_FORWARD\<close> and \<open>tree_item\<close>.\<close>

definition tree_items8 :: "tree8 \<Rightarrow> (u64 \<times> u64) list" where
  "tree_items8 t = tree_items (nodes t)"

definition tree_item :: "tree8 \<Rightarrow> nat \<Rightarrow> (u64 \<times> u64) option" where
  "tree_item t index = (let xs = tree_items8 t in if index < length xs then Some (xs ! index) else None)"

section \<open>The state\<close>

datatype safe_point8 = SP_NO_TRANSACTION8 | SP_RUNNING8 | SP_WAIT_FOR_C_REQUEST_REMOVED8
  | SP_WAIT_FOR_C_AT_SAFE_POINT8

datatype transaction_state8 = TS_NONE8 | TS_REGULAR8 | TS_INEVITABLE8

datatype cond_type8 = C_AT_SAFE_POINT8 | C_REQUEST_REMOVED8 | C_SEGMENT_FREE8

datatype sync_type8 = STOP_OTHERS_UNTIL_MUTEX_UNLOCK8 | STOP_OTHERS_AND_BECOME_GLOBALLY_UNIQUE8

datatype event8 = CondSignal8 cond_type8 | CondBroadcast8 cond_type8 | UserCallback8 u64 u64

text \<open>
  \<open>struct stm_priv_segment_info_s\<close>, with the public part in front. \<open>last_commit_log_entry\<close> is
  the number of entries of the log up to it, 0 for \<open>commit_log_root\<close>.
\<close>

record pseg8 =
  transaction_read_version8 :: u8
  nursery_current8 :: nat
  nursery_end8 :: nat
  running_thread8 :: "nat option"
  modified_old_objects8 :: tree8
  objects_pointing_to_nursery8 :: "nat list"
  young_outside_nursery8 :: tree8
  nursery_objects_shadows8 :: tree8
  safe_point8 :: safe_point8
  transaction_state8 :: transaction_state8
  callbacks_on_commit_and_abort8 :: "nat \<Rightarrow> tree8"
  last_commit_log_entry :: nat
  shadowstack_at_start_of_transaction8 :: nat

text \<open>\<open>struct stm_commit_log_entry_s\<close>; \<open>written\<close> without the NULL at its end.\<close>

record log_entry =
  segment_num :: nat
  written :: "nat list"

text \<open>\<open>stm_thread_local_t\<close>; the shadow stack is the list of its entries, the stopper first.\<close>

record tl8 =
  shadowstack8 :: "nat list"
  rjthread8 :: rewind_jmp_thread
  mem_clear_on_abort8 :: "u8 list option"
  last_abort_bytes_in_nursery8 :: nat
  associated_segment_num8 :: nat
  tl_prev8 :: "nat option"
  tl_next8 :: "nat option"

text \<open>
  \<open>commit_log\<close> is the chain of entries from \<open>commit_log_root.next\<close> on. The \<open>next\<close> of the last
  one is NULL, or -1 while an inevitable transaction runs: \<open>log_taken\<close>.
\<close>

record stm8 =
  mem8 :: "nat \<Rightarrow> nat \<Rightarrow> u8"
  remap8 :: "nat \<Rightarrow> nat \<Rightarrow> nat"
  rm8 :: "nat \<Rightarrow> nat \<Rightarrow> u8"
  by_segment8 :: "nat \<Rightarrow> u8"
  segs8 :: "nat \<Rightarrow> pseg8"
  blocks :: "u64 \<Rightarrow> (nat \<Rightarrow> u8) option"
  commit_log :: "log_entry list"
  log_taken :: bool
  in_use8 :: "nat \<Rightarrow> u8"
  pause_signalled8 :: bool
  globally_unique_transaction8 :: bool
  uninitialized_page_start8 :: nat
  uninitialized_page_stop8 :: nat
  tls8 :: "nat \<Rightarrow> tl8"
  stm_all_thread_locals8 :: "nat option"
  clock8 :: nat
  events8 :: "event8 list"

text \<open>
  The user's callbacks, as functions of an object's bytes; \<open>malloc\<close>, which chooses a free address;
  what the other threads do while this one waits on a condition variable, and what they do
  before this one, without the mutex, looks at the end of the commit log.
\<close>

record ext8 =
  stmcb_size_rounded_up8 :: "(nat \<Rightarrow> u8) \<Rightarrow> nat"
  stmcb_trace8 :: "(nat \<Rightarrow> u8) \<Rightarrow> nat list"
  malloc :: "stm8 \<Rightarrow> u64"
  other_threads8 :: "nat \<Rightarrow> cond_type8 \<Rightarrow> stm8 \<Rightarrow> stm8"
  others_run8 :: "nat \<Rightarrow> stm8 \<Rightarrow> stm8"

definition upd_seg8 :: "nat \<Rightarrow> (pseg8 \<Rightarrow> pseg8) \<Rightarrow> stm8 \<Rightarrow> stm8" where
  "upd_seg8 g f s = s\<lparr>segs8 := (segs8 s)(g := f (segs8 s g))\<rparr>"

definition upd_tl8 :: "nat \<Rightarrow> (tl8 \<Rightarrow> tl8) \<Rightarrow> stm8 \<Rightarrow> stm8" where
  "upd_tl8 i f s = s\<lparr>tls8 := (tls8 s)(i := f (tls8 s i))\<rparr>"

definition emit8 :: "event8 \<Rightarrow> stm8 \<Rightarrow> stm8" where
  "emit8 e s = s\<lparr>events8 := events8 s @ [e]\<rparr>"

definition cond_wait8 :: "ext8 \<Rightarrow> cond_type8 \<Rightarrow> stm8 \<Rightarrow> stm8" where
  "cond_wait8 X c s = other_threads8 X (clock8 s) c (s\<lparr>clock8 := Suc (clock8 s)\<rparr>)"

definition interleave8 :: "ext8 \<Rightarrow> stm8 \<Rightarrow> stm8" where
  "interleave8 X s = others_run8 X (clock8 s) (s\<lparr>clock8 := Suc (clock8 s)\<rparr>)"

definition segments8 :: "nat list" where
  "segments8 = [0..<NB_SEGMENTS8]"

lemma segments8_eq: "segments8 = [0, 1, 2, 3]"
  by (simp add: segments8_def NB_SEGMENTS8_def upt_rec)

lemma set_segments8: "set segments8 = {0..3}"
  by (auto simp: segments8_eq)

section \<open>Memory\<close>

definition vread8 :: "stm8 \<Rightarrow> nat \<Rightarrow> nat \<Rightarrow> u8" where
  "vread8 s g a = mem8 s (remap8 s g (a div 4096)) a"

definition vfill8 :: "nat \<Rightarrow> nat \<Rightarrow> nat \<Rightarrow> (nat \<Rightarrow> u8) \<Rightarrow> stm8 \<Rightarrow> stm8" where
  "vfill8 g a n f s = s\<lparr>mem8 := (\<lambda>c x. if a \<le> x \<and> x < a + n \<and> remap8 s g (x div 4096) = c
     then f x else mem8 s c x)\<rparr>"

definition memcpy8 :: "nat \<Rightarrow> nat \<Rightarrow> nat \<Rightarrow> nat \<Rightarrow> nat \<Rightarrow> stm8 \<Rightarrow> stm8" where
  "memcpy8 g dst g' src n s = vfill8 g dst n (\<lambda>x. vread8 s g' (src + (x - dst))) s"

definition vload64_8 :: "stm8 \<Rightarrow> nat \<Rightarrow> nat \<Rightarrow> nat" where
  "vload64_8 s g a = unat (load64 (vread8 s g) a)"

definition vstore64_8 :: "nat \<Rightarrow> nat \<Rightarrow> nat \<Rightarrow> stm8 \<Rightarrow> stm8" where
  "vstore64_8 g a v s = vfill8 g a 8 (\<lambda>x. byte_of64 (of_nat v) (x - a)) s"

section \<open>Objects\<close>

definition obj_bytes8 :: "stm8 \<Rightarrow> nat \<Rightarrow> nat \<Rightarrow> nat \<Rightarrow> u8" where
  "obj_bytes8 s g obj i = vread8 s g (obj + i)"

definition obj_size8 :: "ext8 \<Rightarrow> stm8 \<Rightarrow> nat \<Rightarrow> nat \<Rightarrow> nat" where
  "obj_size8 X s g obj = stmcb_size_rounded_up8 X (obj_bytes8 s g obj)"

definition stm_flags8 :: "stm8 \<Rightarrow> nat \<Rightarrow> nat \<Rightarrow> u32" where
  "stm_flags8 s g obj = load32 (vread8 s g) obj"

definition set_stm_flags8 :: "nat \<Rightarrow> nat \<Rightarrow> u32 \<Rightarrow> stm8 \<Rightarrow> stm8" where
  "set_stm_flags8 g obj v s = vfill8 g obj 4 (\<lambda>x. byte_of32 v (x - obj)) s"

definition has_flag8 :: "u32 \<Rightarrow> u32 \<Rightarrow> bool" where
  "has_flag8 flags f \<longleftrightarrow> flags AND f \<noteq> 0"

definition stm_read8 :: "nat \<Rightarrow> nat \<Rightarrow> stm8 \<Rightarrow> stm8" where
  "stm_read8 me obj s =
     s\<lparr>rm8 := (rm8 s)(me := (rm8 s me)(obj div 16 := transaction_read_version8 (segs8 s me)))\<rparr>"

definition stm_was_read :: "nat \<Rightarrow> nat \<Rightarrow> stm8 \<Rightarrow> bool" where
  "stm_was_read me obj s \<longleftrightarrow> rm8 s me (obj div 16) = transaction_read_version8 (segs8 s me)"

definition stm_was_written :: "nat \<Rightarrow> nat \<Rightarrow> stm8 \<Rightarrow> bool" where
  "stm_was_written me obj s \<longleftrightarrow> stm_flags8 s me obj AND GCFLAG_WRITE_BARRIER8 = 0"

definition is_in_nursery8 :: "nat \<Rightarrow> bool" where
  "is_in_nursery8 obj \<longleftrightarrow> obj < NURSERY_END8"

definition is_young8 :: "nat \<Rightarrow> nat \<Rightarrow> stm8 \<Rightarrow> bool" where
  "is_young8 me obj s \<longleftrightarrow> is_in_nursery8 obj \<or> tree_contains8 (young_outside_nursery8 (segs8 s me)) (of_nat obj)"

definition is_abort8 :: "nat \<Rightarrow> bool" where
  "is_abort8 ne \<longleftrightarrow> ne \<le> STM_NSE_SIGNAL_MAX8 \<and> ne \<noteq> NSE_SIGPAUSE8"

definition must_abort8 :: "stm8 \<Rightarrow> nat \<Rightarrow> bool" where
  "must_abort8 s me = is_abort8 (nursery_end8 (segs8 s me))"

text \<open>\<open>malloc\<close> and \<open>free\<close> of a block.\<close>

definition malloc_block :: "ext8 \<Rightarrow> (nat \<Rightarrow> u8) \<Rightarrow> stm8 \<Rightarrow> u64 \<times> stm8" where
  "malloc_block X f s = (let p = malloc X s in (p, s\<lparr>blocks := (blocks s)(p \<mapsto> f)\<rparr>))"

definition free_block :: "u64 \<Rightarrow> stm8 \<Rightarrow> stm8" where
  "free_block p s = s\<lparr>blocks := (blocks s)(p := None)\<rparr>"

definition block_bytes :: "stm8 \<Rightarrow> u64 \<Rightarrow> nat \<Rightarrow> u8" where
  "block_bytes s p = (case blocks s p of Some f \<Rightarrow> f | None \<Rightarrow> (\<lambda>_. 0))"

end
