(* ===== verification/C8pages.thy ===== *)
theory C8pages
  imports C8state
begin

text \<open>
  \<open>c8/stm/pages.c\<close>, \<open>pages.h\<close> and \<open>gcpage.c\<close>: shared and private pages, and the allocation of
  old objects, which takes fresh pages every time. All privatization locks are held by the
  sections here; they are atomic.
\<close>

section \<open>Pages\<close>

definition is_shared_log_page :: "stm8 \<Rightarrow> nat \<Rightarrow> bool" where
  "is_shared_log_page s pagenum \<longleftrightarrow> by_segment8 s (pagenum - PAGE_FLAG_START8) = 0"

definition set_page_private_in :: "nat \<Rightarrow> nat \<Rightarrow> stm8 \<Rightarrow> stm8" where
  "set_page_private_in segnum pagenum s =
     (let i = pagenum - PAGE_FLAG_START8
      in s\<lparr>by_segment8 := (by_segment8 s)(i := by_segment8 s i OR push_bit segnum 1)\<rparr>)"

definition is_private_log_page_in :: "stm8 \<Rightarrow> nat \<Rightarrow> nat \<Rightarrow> bool" where
  "is_private_log_page_in s segnum pagenum \<longleftrightarrow> by_segment8 s (pagenum - PAGE_FLAG_START8) AND push_bit segnum 1 \<noteq> 0"

text \<open>Map \<open>count\<close> pages of segment \<open>g\<close>, from \<open>pagenum\<close> on, to the same pages of the file's copy \<open>c\<close>.\<close>

definition d_remap_file_pages8 :: "nat \<Rightarrow> nat \<Rightarrow> nat \<Rightarrow> nat \<Rightarrow> stm8 \<Rightarrow> stm8" where
  "d_remap_file_pages8 g pagenum count c s =
     s\<lparr>remap8 := (remap8 s)(g := (\<lambda>p. if pagenum \<le> p \<and> p < pagenum + count then c else remap8 s g p))\<rparr>"

definition pages_initialize_shared8 :: "nat \<Rightarrow> nat \<Rightarrow> stm8 \<Rightarrow> stm8" where
  "pages_initialize_shared8 pagenum count s =
     (if count = 0 then s
      else let s = foreach_f [1..<NB_SEGMENTS8] (\<lambda>i. d_remap_file_pages8 i pagenum count 0) s
           in s\<lparr>by_segment8 := (\<lambda>i. if pagenum - PAGE_FLAG_START8 \<le> i \<and> i < pagenum + count - PAGE_FLAG_START8
                then 0 else by_segment8 s i)\<rparr>)"

text \<open>\<open>pwrite\<close> puts the bytes at \<open>initialize_from\<close> into the segment's own page of the file.\<close>

definition page_privatize_in :: "nat \<Rightarrow> nat \<Rightarrow> (nat \<Rightarrow> u8) \<Rightarrow> stm8 \<Rightarrow> stm8" where
  "page_privatize_in segnum pagenum initialize_from s =
     (if is_private_log_page_in s segnum pagenum then s
      else let s = set_page_private_in segnum pagenum s;
               s = s\<lparr>mem8 := (\<lambda>c x. if c = segnum \<and> x div 4096 = pagenum then initialize_from x else mem8 s c x)\<rparr>
           in d_remap_file_pages8 segnum pagenum 1 segnum s)"

definition privatize_shared_page :: "nat \<Rightarrow> stm8 \<Rightarrow> stm8" where
  "privatize_shared_page pagenum s =
     (let src = vread8 s 0;
          s = foreach_f [1..<NB_SEGMENTS8] (\<lambda>i. page_privatize_in i pagenum src) s
      in set_page_private_in 0 pagenum s)"

definition teardown_pages8 :: "stm8 \<Rightarrow> stm8" where
  "teardown_pages8 s = s\<lparr>by_segment8 := (\<lambda>_. 0)\<rparr>"

section \<open>Allocation of old objects\<close>

definition setup_gcpage8 :: "stm8 \<Rightarrow> stm8" where
  "setup_gcpage8 s = s\<lparr>uninitialized_page_start8 := END_NURSERY_PAGE8 * 4096,
     uninitialized_page_stop8 := NB_PAGES8 * 4096\<rparr>"

definition setup_N_pages8 :: "nat \<Rightarrow> nat \<Rightarrow> stm8 \<Rightarrow> stm8" where
  "setup_N_pages8 pages_addr num s = pages_initialize_shared8 (pages_addr div 4096) num s"

definition allocate_outside_nursery_large8 :: "nat \<Rightarrow> stm8 \<Rightarrow> (stm8, nat) res" where
  "allocate_outside_nursery_large8 sz s =
     (let addr = uninitialized_page_start8 s; start = uninitialized_page_start8 s
      in if addr + sz > start
         then let npages = (addr + sz - start) div 4096 + 1
              in if uninitialized_page_stop8 s - start < npages * 4096 then Fatal ''out of memory!'' s
                 else Ret addr ((setup_N_pages8 start npages s)\<lparr>uninitialized_page_start8 := start + npages * 4096\<rparr>)
         else Ret addr s)"

text \<open>The linear address is in segment 0; the flags are stored through \<open>%gs\<close>.\<close>

definition stm_allocate_old8 :: "nat \<Rightarrow> nat \<Rightarrow> stm8 \<Rightarrow> (stm8, nat) res" where
  "stm_allocate_old8 me sz s =
     bind_res (allocate_outside_nursery_large8 sz s) (\<lambda>p s.
       Ret p (set_stm_flags8 me p GCFLAG_WRITE_BARRIER8 (vfill8 0 p sz (\<lambda>_. 0) s)))"

section \<open>Views\<close>

text \<open>A page of old objects is shared by all segments or private in all of them.\<close>

definition mapped8 :: "stm8 \<Rightarrow> nat \<Rightarrow> bool" where
  "mapped8 s p \<longleftrightarrow> (if is_shared_log_page s p then \<forall>g \<le> 3. remap8 s g p = 0
     else by_segment8 s (p - PAGE_FLAG_START8) = 15 \<and> (\<forall>g \<le> 3. remap8 s g p = g))"

lemma privatize_in_new:
  assumes "\<not> is_private_log_page_in s g p"
  shows "page_privatize_in g p src s = s\<lparr>
    by_segment8 := (by_segment8 s)(p - PAGE_FLAG_START8 := by_segment8 s (p - PAGE_FLAG_START8) OR push_bit g 1),
    mem8 := (\<lambda>c x. if c = g \<and> x div 4096 = p then src x else mem8 s c x),
    remap8 := (remap8 s)(g := (\<lambda>q. if p \<le> q \<and> q < p + 1 then g else remap8 s g q))\<rparr>"
  using assms by (intro stm8.equality) (auto simp: page_privatize_in_def Let_def set_page_private_in_def d_remap_file_pages8_def fun_eq_iff)

text \<open>Privatizing a shared page changes no segment's view.\<close>

lemma privatize_shared_page_eq:
  assumes "is_shared_log_page s p"
  shows "privatize_shared_page p s = s\<lparr>by_segment8 := (by_segment8 s)(p - PAGE_FLAG_START8 := 15),
    mem8 := (\<lambda>c x. if c \<in> {1..3} \<and> x div 4096 = p then vread8 s 0 x else mem8 s c x),
    remap8 := (\<lambda>g q. if g \<in> {1..3} \<and> q = p then g else remap8 s g q)\<rparr>"
proof -
  have z: "by_segment8 s (p - PAGE_FLAG_START8) = 0" using assms by (simp add: is_shared_log_page_def)
  have l: "[1..<NB_SEGMENTS8] = [1, 2, 3]" by (simp add: NB_SEGMENTS8_def upt_rec)
  show ?thesis
    unfolding privatize_shared_page_def l
    by (rule stm8.equality) (auto simp: foreach_f_def Let_def privatize_in_new is_private_log_page_in_def z
      set_page_private_in_def fun_eq_iff)
qed

lemma privatize_shared_page_views:
  assumes "mapped8 s p" and "is_shared_log_page s p" and g: "g \<le> 3"
  shows "vread8 (privatize_shared_page p s) g = vread8 s g"
proof
  fix x
  have z: "remap8 s h p = 0" if "h \<le> 3" for h using assms that by (simp add: mapped8_def)
  show "vread8 (privatize_shared_page p s) g x = vread8 s g x"
    unfolding privatize_shared_page_eq [OF assms(2)] using g z by (auto simp: vread8_def)
qed

lemma privatize_shared_page_mapped:
  assumes "mapped8 s q" and "is_shared_log_page s p" and "PAGE_FLAG_START8 \<le> p" and "PAGE_FLAG_START8 \<le> q"
  shows "mapped8 (privatize_shared_page p s) q" and "\<not> is_shared_log_page (privatize_shared_page p s) p"
proof -
  show "\<not> is_shared_log_page (privatize_shared_page p s) p"
    unfolding privatize_shared_page_eq [OF assms(2)] by (simp add: is_shared_log_page_def)
  have "remap8 s g p = 0" if "mapped8 s p" "g \<le> 3" for g using that assms(2) by (simp add: mapped8_def)
  moreover have "q - PAGE_FLAG_START8 = p - PAGE_FLAG_START8 \<longleftrightarrow> q = p" using assms(3,4) by auto
  ultimately show "mapped8 (privatize_shared_page p s) q"
    using assms(1,2) unfolding privatize_shared_page_eq [OF assms(2)]
    by (cases "q = p") (auto simp: mapped8_def is_shared_log_page_def)
qed

end
