(* ===== verification/C8sync.thy ===== *)
theory C8sync
  imports C8pages
begin

text \<open>
  The abort of a transaction (\<open>c8/stm/core.c\<close>, \<open>nursery.c\<close>), the callbacks of
  \<open>c8/stm/extra.c\<close>, and segments and safe points (\<open>c8/stm/sync.c\<close>). Loops that wait take fuel,
  the number of wake-ups they may need.
\<close>

section \<open>Callbacks\<close>

definition stm_in_transaction8 :: "stm8 \<Rightarrow> nat \<Rightarrow> bool" where
  "stm_in_transaction8 s t \<longleftrightarrow> running_thread8 (segs8 s (associated_segment_num8 (tls8 s t))) = Some t"

definition register_callbacks8 ::
  "nat \<Rightarrow> nat \<Rightarrow> u64 \<Rightarrow> u64 option \<Rightarrow> nat \<Rightarrow> stm8 \<Rightarrow> (stm8, int) res" where
  "register_callbacks8 me t key callback index s =
     (if \<not> stm_in_transaction8 s t then Ret (-1) s
      else if transaction_state8 (segs8 s me) = TS_INEVITABLE8 then Ret (-1) s
      else let callbacks = callbacks_on_commit_and_abort8 (segs8 s me) index;
               put = (\<lambda>c. upd_seg8 me (\<lambda>p. p\<lparr>callbacks_on_commit_and_abort8 :=
                        (callbacks_on_commit_and_abort8 p)(index := c)\<rparr>) s)
           in case callback of
                None \<Rightarrow> (let (found, callbacks) = tree_delete_item8 callbacks key
                         in Ret (if found then 1 else 0) (put callbacks))
              | Some cb \<Rightarrow> (case tree_insert8 callbacks key cb of
                              Inl e \<Rightarrow> Fatal ''tree_insert'' s
                            | Inr callbacks \<Rightarrow> Ret 1 (put callbacks)))"

definition stm_call_on_commit8 :: "nat \<Rightarrow> nat \<Rightarrow> u64 \<Rightarrow> u64 option \<Rightarrow> stm8 \<Rightarrow> (stm8, int) res" where
  "stm_call_on_commit8 me t key callback s =
     bind_res (register_callbacks8 me t key callback 0 s) (\<lambda>result s.
       case callback of
         Some cb \<Rightarrow> (if result < 0 then Ret result (emit8 (UserCallback8 key cb) s) else Ret result s)
       | None \<Rightarrow> Ret result s)"

definition stm_call_on_abort8 :: "nat \<Rightarrow> nat \<Rightarrow> u64 \<Rightarrow> u64 option \<Rightarrow> stm8 \<Rightarrow> (stm8, int) res" where
  "stm_call_on_abort8 me t key callback s = register_callbacks8 me t key callback 1 s"

definition invoke_and_clear_user_callbacks8 :: "nat \<Rightarrow> nat \<Rightarrow> stm8 \<Rightarrow> stm8" where
  "invoke_and_clear_user_callbacks8 me index s =
     (let callbacks = callbacks_on_commit_and_abort8 (segs8 s me) (1 - index);
          s = (if \<not> tree_is_cleared8 callbacks
               then upd_seg8 me (\<lambda>p. p\<lparr>callbacks_on_commit_and_abort8 :=
                      (callbacks_on_commit_and_abort8 p)(1 - index := tree_clear8 callbacks)\<rparr>) s else s);
          callbacks = callbacks_on_commit_and_abort8 (segs8 s me) index
      in if tree_is_cleared8 callbacks then s
         else let s = upd_seg8 me (\<lambda>p. p\<lparr>callbacks_on_commit_and_abort8 :=
                        (callbacks_on_commit_and_abort8 p)(index := tree_create8)\<rparr>) s
              in foreach_f (tree_items8 callbacks) (\<lambda>(key, callback) s. emit8 (UserCallback8 key callback) s) s)"

section \<open>Abort\<close>

definition nursery_used8 :: "stm8 \<Rightarrow> nat \<Rightarrow> nat" where
  "nursery_used8 s g =
     (let n = nursery_current8 (segs8 s g) - NURSERY_START8
      in if n > NB_NURSERY_PAGES8 * 4096 then NB_NURSERY_PAGES8 * 4096 else n)"

definition throw_away_nursery8 :: "nat \<Rightarrow> stm8 \<Rightarrow> nat \<times> stm8" where
  "throw_away_nursery8 g s =
     (let nursery_used = nursery_used8 s g;
          s = vfill8 g NURSERY_START8 nursery_used (\<lambda>_. 0) s;
          s = upd_seg8 g (\<lambda>p. p\<lparr>nursery_current8 := NURSERY_START8\<rparr>) s;
          t = young_outside_nursery8 (segs8 s g);
          s = (if \<not> tree_is_cleared8 t
               then let s = (if \<not> tree_is_empty t
                             then foreach_f (tree_items8 t) (\<lambda>(addr, val) s.
                                    s\<lparr>rm8 := (rm8 s)(g := (rm8 s g)(unat addr div 16 := 0))\<rparr>) s
                             else s)
                    in upd_seg8 g (\<lambda>p. p\<lparr>young_outside_nursery8 := tree_clear8 t\<rparr>) s
               else s);
          s = upd_seg8 g (\<lambda>p. p\<lparr>nursery_objects_shadows8 := tree_clear8 (nursery_objects_shadows8 p)\<rparr>) s
      in (nursery_used, s))"

text \<open>One object of the segment's write set: restored from its backup copy, which is freed.\<close>

definition restore_backup :: "ext8 \<Rightarrow> nat \<Rightarrow> u64 \<times> u64 \<Rightarrow> stm8 \<Rightarrow> stm8" where
  "restore_backup X g = (\<lambda>(addr, val) s.
     let obj = unat addr; bk_obj = block_bytes s val; obj_size = stmcb_size_rounded_up8 X bk_obj;
         s = vfill8 g obj obj_size (\<lambda>x. bk_obj (x - obj)) s
     in free_block val s)"

definition reset_modified_from_backup_copies :: "ext8 \<Rightarrow> nat \<Rightarrow> stm8 \<Rightarrow> stm8" where
  "reset_modified_from_backup_copies X g s =
     (let tree = modified_old_objects8 (segs8 s g);
          s = foreach_f (tree_items8 tree) (restore_backup X g) s
      in upd_seg8 g (\<lambda>p. p\<lparr>modified_old_objects8 := tree_clear8 tree\<rparr>) s)"

definition abort_data_structures8 :: "ext8 \<Rightarrow> nat \<Rightarrow> stm8 \<Rightarrow> (stm8, unit) res" where
  "abort_data_structures8 X g s =
     (case transaction_state8 (segs8 s g) of
        TS_INEVITABLE8 \<Rightarrow> Fatal ''abort: transaction_state == TS_INEVITABLE'' s
      | TS_NONE8 \<Rightarrow> Fatal ''abort: bad transaction_state'' s
      | TS_REGULAR8 \<Rightarrow>
          (let (bytes_in_nursery, s) = throw_away_nursery8 g s;
               s = reset_modified_from_backup_copies X g s
           in Ret () (case running_thread8 (segs8 s g) of
                None \<Rightarrow> s
              | Some t \<Rightarrow> upd_tl8 t (\<lambda>x. x\<lparr>shadowstack8 := restore_ss (rjthread8 x) (shadowstack8 x),
                  last_abort_bytes_in_nursery8 := bytes_in_nursery\<rparr>) s)))"

definition release_thread_segment8 :: "nat \<Rightarrow> nat \<Rightarrow> stm8 \<Rightarrow> stm8" where
  "release_thread_segment8 me t s =
     (let s = emit8 (CondSignal8 C_SEGMENT_FREE8) s;
          s = upd_seg8 me (\<lambda>p. p\<lparr>running_thread8 := None\<rparr>) s
      in s\<lparr>in_use8 := (in_use8 s)(associated_segment_num8 (tls8 s t) := 0)\<rparr>)"

definition finish_transaction8 :: "nat \<Rightarrow> stm8 \<Rightarrow> stm8" where
  "finish_transaction8 me s =
     (let t = running_thread8 (segs8 s me);
          s = upd_seg8 me (\<lambda>p. p\<lparr>safe_point8 := SP_NO_TRANSACTION8, transaction_state8 := TS_NONE8,
                objects_pointing_to_nursery8 := []\<rparr>) s
      in case t of None \<Rightarrow> s | Some t \<Rightarrow> release_thread_segment8 me t s)"

definition abort_with_mutex_no_longjmp8 :: "ext8 \<Rightarrow> nat \<Rightarrow> stm8 \<Rightarrow> (stm8, nat option) res" where
  "abort_with_mutex_no_longjmp8 X me s =
     bind_res (abort_data_structures8 X me s) (\<lambda>_ s.
       let t = running_thread8 (segs8 s me);
           s = (case t of None \<Rightarrow> s
                | Some t \<Rightarrow> upd_tl8 t (\<lambda>x. x\<lparr>mem_clear_on_abort8 :=
                    map_option (\<lambda>m. replicate (length m) 0) (mem_clear_on_abort8 x)\<rparr>) s);
           s = invoke_and_clear_user_callbacks8 me 1 s;
           s = (if is_abort8 (nursery_end8 (segs8 s me))
                then upd_seg8 me (\<lambda>p. p\<lparr>nursery_end8 := if pause_signalled8 s then NSE_SIGPAUSE8 else NURSERY_END8\<rparr>) s
                else s)
       in Ret t (finish_transaction8 me s))"

text \<open>The jump back to the \<open>setjmp\<close> at the start of the transaction is the outcome \<open>Aborted\<close>.\<close>

definition abort_with_mutex8 :: "ext8 \<Rightarrow> nat \<Rightarrow> stm8 \<Rightarrow> (stm8, 'a) res" where
  "abort_with_mutex8 X me s =
     bind_res (abort_with_mutex_no_longjmp8 X me s) (\<lambda>t s.
       case t of None \<Rightarrow> Aborted s
       | Some t \<Rightarrow> Aborted (upd_tl8 t (\<lambda>x. x\<lparr>rjthread8 := fst (rewind_jmp_longjmp (rjthread8 x) 0 (\<lambda>_. 0))\<rparr>) s))"

definition stm_abort_transaction8 :: "ext8 \<Rightarrow> nat \<Rightarrow> stm8 \<Rightarrow> (stm8, 'a) res" where
  "stm_abort_transaction8 X me s = abort_with_mutex8 X me s"

section \<open>Segments\<close>

text \<open>The search for a free segment; \<open>num\<close> is not advanced in the loop.\<close>

fun next_free_segment8 :: "(nat \<Rightarrow> u8) \<Rightarrow> nat \<Rightarrow> nat \<Rightarrow> nat option" where
  "next_free_segment8 in_use 0 num = None"
| "next_free_segment8 in_use (Suc retries) num =
     (let num = num mod NB_SEGMENTS8
      in if in_use num = 0 then Some num else next_free_segment8 in_use retries num)"

text \<open>The result is the segment that \<open>%gs\<close> points to afterwards, None for \<open>false\<close>.\<close>

definition acquire_thread_segment8 :: "ext8 \<Rightarrow> nat \<Rightarrow> stm8 \<Rightarrow> nat option \<times> stm8" where
  "acquire_thread_segment8 X t s =
     (let num = associated_segment_num8 (tls8 s t);
          got = (if in_use8 s num = 0 then Some (num, s)
                 else case next_free_segment8 (in_use8 s) NB_SEGMENTS8 num of
                        Some num \<Rightarrow> Some (num, upd_tl8 t (\<lambda>x. x\<lparr>associated_segment_num8 := num\<rparr>) s)
                      | None \<Rightarrow> None)
      in case got of
           None \<Rightarrow> (None, cond_wait8 X C_SEGMENT_FREE8 s)
         | Some (num, s) \<Rightarrow>
             (let s = s\<lparr>in_use8 := (in_use8 s)(num := 1)\<rparr>
              in (Some num, upd_seg8 num (\<lambda>p. p\<lparr>running_thread8 := Some t\<rparr>) s)))"

section \<open>Safe points\<close>

definition signal_everybody_to_pause_running8 :: "stm8 \<Rightarrow> stm8" where
  "signal_everybody_to_pause_running8 s =
     (let s = foreach_f segments8 (\<lambda>i s. if nursery_end8 (segs8 s i) = NURSERY_END8
                then upd_seg8 i (\<lambda>p. p\<lparr>nursery_end8 := NSE_SIGPAUSE8\<rparr>) s else s) s
      in s\<lparr>pause_signalled8 := True\<rparr>)"

definition count_other_threads_sp_running8 :: "nat \<Rightarrow> stm8 \<Rightarrow> nat" where
  "count_other_threads_sp_running8 me s =
     length (filter (\<lambda>i. i \<noteq> me \<and> safe_point8 (segs8 s i) = SP_RUNNING8) segments8)"

definition remove_requests_for_safe_point8 :: "stm8 \<Rightarrow> stm8" where
  "remove_requests_for_safe_point8 s =
     (let s = s\<lparr>pause_signalled8 := False\<rparr>;
          s = foreach_f segments8 (\<lambda>i s. if nursery_end8 (segs8 s i) = NSE_SIGPAUSE8
                then upd_seg8 i (\<lambda>p. p\<lparr>nursery_end8 := NURSERY_END8\<rparr>) s else s) s
      in emit8 (CondBroadcast8 C_REQUEST_REMOVED8) s)"

abbreviation set_safe_point8 :: "nat \<Rightarrow> safe_point8 \<Rightarrow> stm8 \<Rightarrow> stm8" where
  "set_safe_point8 me sp \<equiv> upd_seg8 me (\<lambda>p. p\<lparr>safe_point8 := sp\<rparr>)"

fun enter_safe_point_loop8 :: "nat \<Rightarrow> ext8 \<Rightarrow> nat \<Rightarrow> stm8 \<Rightarrow> (stm8, unit) res" where
  "enter_safe_point_loop8 0 X me s = Hang s"
| "enter_safe_point_loop8 (Suc n) X me s =
     (if must_abort8 s me then abort_with_mutex8 X me s
      else if nursery_end8 (segs8 s me) = NURSERY_END8 then Ret () s
      else let s = emit8 (CondSignal8 C_AT_SAFE_POINT8) s;
               s = set_safe_point8 me SP_WAIT_FOR_C_REQUEST_REMOVED8 s;
               s = cond_wait8 X C_REQUEST_REMOVED8 s;
               s = set_safe_point8 me SP_RUNNING8 s
           in enter_safe_point_loop8 n X me s)"

definition enter_safe_point_if_requested8 :: "nat \<Rightarrow> ext8 \<Rightarrow> nat \<Rightarrow> stm8 \<Rightarrow> (stm8, unit) res" where
  "enter_safe_point_if_requested8 fuel X me s =
     (if nursery_end8 (segs8 s me) = NURSERY_END8 then Ret () s else enter_safe_point_loop8 fuel X me s)"

fun wait_for_others8 :: "nat \<Rightarrow> ext8 \<Rightarrow> nat \<Rightarrow> stm8 \<Rightarrow> (stm8, unit) res" where
  "wait_for_others8 0 X me s = Hang s"
| "wait_for_others8 (Suc n) X me s =
     (if count_other_threads_sp_running8 me s > 0
      then let s = set_safe_point8 me SP_WAIT_FOR_C_AT_SAFE_POINT8 s;
               s = cond_wait8 X C_AT_SAFE_POINT8 s;
               s = set_safe_point8 me SP_RUNNING8 s
           in if must_abort8 s me
              then abort_with_mutex8 X me (remove_requests_for_safe_point8 s)
              else wait_for_others8 n X me s
      else Ret () s)"

definition synchronize_all_threads8 :: "nat \<Rightarrow> ext8 \<Rightarrow> nat \<Rightarrow> sync_type8 \<Rightarrow> stm8 \<Rightarrow> (stm8, unit) res" where
  "synchronize_all_threads8 fuel X me sync_type s =
     bind_res (enter_safe_point_if_requested8 fuel X me s) (\<lambda>_ s.
       if globally_unique_transaction8 s
       then if count_other_threads_sp_running8 me s \<noteq> 0 then Fatal ''assert'' s else Ret () s
       else bind_res (wait_for_others8 fuel X me (signal_everybody_to_pause_running8 s)) (\<lambda>_ s.
         if sync_type = STOP_OTHERS_AND_BECOME_GLOBALLY_UNIQUE8
         then let s = s\<lparr>globally_unique_transaction8 := True\<rparr>
              in if nursery_end8 (segs8 s me) \<noteq> NSE_SIGPAUSE8 then Fatal ''assert'' s
                 else Ret () (upd_seg8 me (\<lambda>p. p\<lparr>nursery_end8 := NURSERY_END8\<rparr>) s)
         else Ret () (remove_requests_for_safe_point8 s)))"

definition committed_globally_unique_transaction8 :: "nat \<Rightarrow> stm8 \<Rightarrow> stm8" where
  "committed_globally_unique_transaction8 me s =
     (let s = upd_seg8 me (\<lambda>p. p\<lparr>nursery_end8 := NSE_SIGPAUSE8\<rparr>) s;
          s = s\<lparr>globally_unique_transaction8 := False\<rparr>
      in remove_requests_for_safe_point8 s)"

definition stm_collectable_safe_point8 :: "nat \<Rightarrow> ext8 \<Rightarrow> nat \<Rightarrow> stm8 \<Rightarrow> (stm8, unit) res" where
  "stm_collectable_safe_point8 fuel X me s = enter_safe_point_if_requested8 fuel X me s"

definition stm_safe_point8 :: "nat \<Rightarrow> ext8 \<Rightarrow> nat \<Rightarrow> stm8 \<Rightarrow> (stm8, unit) res" where
  "stm_safe_point8 fuel X me s =
     (if nursery_end8 (segs8 s me) \<le> STM_NSE_SIGNAL_MAX8 then stm_collectable_safe_point8 fuel X me s else Ret () s)"

section \<open>The search for a segment\<close>

text \<open>
  As \<open>num\<close> does not change, the loop looks at the thread's own segment again and again: a
  thread whose segment is taken waits, whether or not another one is free.
\<close>

lemma next_free_segment8_stuck: "num < NB_SEGMENTS8 \<Longrightarrow> in_use num \<noteq> 0 \<Longrightarrow> next_free_segment8 in_use retries num = None"
  by (induction retries) simp_all

end
