(* ===== verification/C8nursery.thy ===== *)
theory C8nursery
  imports C8sync
begin

text \<open>
  \<open>c8/stm/nursery.c\<close>: allocation in the nursery, shadows, and the minor collection, which
  moves the objects that survive to fresh pages. The fuel of the loop over
  \<open>objects_pointing_to_nursery\<close> bounds the number of objects traced.
\<close>

section \<open>Shadows\<close>

definition setup_nursery8 :: "stm8 \<Rightarrow> stm8" where
  "setup_nursery8 s = foreach_f segments8 (\<lambda>i. upd_seg8 i (\<lambda>p.
     p\<lparr>nursery_current8 := NURSERY_START8, nursery_end8 := NURSERY_END8\<rparr>)) s"

definition stm_can_move8 :: "nat \<Rightarrow> bool" where
  "stm_can_move8 obj = is_in_nursery8 obj"

definition find_existing_shadow8 :: "nat \<Rightarrow> nat \<Rightarrow> stm8 \<Rightarrow> (stm8, nat) res" where
  "find_existing_shadow8 me obj s =
     (case tree_find8 (nursery_objects_shadows8 (segs8 s me)) (of_nat obj) of
        Some val \<Rightarrow> Ret (unat val) s
      | None \<Rightarrow> Fatal ''GCFLAG_HAS_SHADOW but no shadow found'' s)"

definition allocate_shadow8 :: "ext8 \<Rightarrow> nat \<Rightarrow> nat \<Rightarrow> stm8 \<Rightarrow> (stm8, nat) res" where
  "allocate_shadow8 X me obj s =
     (let sz = obj_size8 X s me obj
      in bind_res (allocate_outside_nursery_large8 sz s) (\<lambda>nobj s.
           let s = memcpy8 me nobj me obj sz s;
               s = set_stm_flags8 me obj (stm_flags8 s me obj OR GCFLAG_HAS_SHADOW8) s
           in case tree_insert8 (nursery_objects_shadows8 (segs8 s me)) (of_nat obj) (of_nat nobj) of
                Inl e \<Rightarrow> Fatal ''tree_insert'' s
              | Inr t \<Rightarrow> Ret nobj (upd_seg8 me (\<lambda>p. p\<lparr>nursery_objects_shadows8 := t\<rparr>) s)))"

definition find_shadow8 :: "ext8 \<Rightarrow> nat \<Rightarrow> nat \<Rightarrow> stm8 \<Rightarrow> (stm8, nat) res" where
  "find_shadow8 X me obj s =
     (if has_flag8 (stm_flags8 s me obj) GCFLAG_HAS_SHADOW8 then find_existing_shadow8 me obj s
      else allocate_shadow8 X me obj s)"

section \<open>Tracing\<close>

definition GCWORD_MOVED8 :: nat where "GCWORD_MOVED8 = 2 ^ 64 - 1"

definition copy_large_object8 :: "nat \<Rightarrow> nat \<Rightarrow> nat \<Rightarrow> nat \<Rightarrow> stm8 \<Rightarrow> stm8" where
  "copy_large_object8 me obj nobj sz s =
     vstore64_8 me (obj + 8) nobj (vstore64_8 me obj GCWORD_MOVED8 (memcpy8 me nobj me obj sz s))"

definition trace_later8 :: "nat \<Rightarrow> nat \<Rightarrow> stm8 \<Rightarrow> stm8" where
  "trace_later8 me nobj =
     upd_seg8 me (\<lambda>p. p\<lparr>objects_pointing_to_nursery8 := objects_pointing_to_nursery8 p @ [nobj]\<rparr>)"

text \<open>The object that \<open>*pobj\<close> is; the result is what \<open>*pobj\<close> becomes.\<close>

definition minor_trace_if_young8 :: "ext8 \<Rightarrow> nat \<Rightarrow> nat \<Rightarrow> stm8 \<Rightarrow> (stm8, nat) res" where
  "minor_trace_if_young8 X me obj s =
     (if obj = 0 then Ret 0 s
      else if is_in_nursery8 obj
      then if has_flag8 (stm_flags8 s me obj) GCFLAG_HAS_SHADOW8
           then if vload64_8 s me obj = GCWORD_MOVED8 then Ret (vload64_8 s me (obj + 8)) s
                else bind_res (find_existing_shadow8 me obj s) (\<lambda>nobj s.
                       let s = set_stm_flags8 me obj (stm_flags8 s me obj AND NOT GCFLAG_HAS_SHADOW8) s;
                           sz = obj_size8 X s me obj
                       in Ret nobj (trace_later8 me nobj (copy_large_object8 me obj nobj sz s)))
           else let sz = obj_size8 X s me obj
                in bind_res (allocate_outside_nursery_large8 sz s) (\<lambda>nobj s.
                     Ret nobj (trace_later8 me nobj (copy_large_object8 me obj nobj sz s)))
      else if \<not> tree_contains8 (young_outside_nursery8 (segs8 s me)) (of_nat obj) then Ret obj s
      else Ret obj (trace_later8 me obj (upd_seg8 me (\<lambda>p. p\<lparr>young_outside_nursery8 :=
             snd (tree_delete_item8 (young_outside_nursery8 p) (of_nat obj))\<rparr>) s)))"

text \<open>The shadow stack from its top down; \<open>current\<close> is the number of entries below.\<close>

fun collect_shadowstack8 :: "ext8 \<Rightarrow> nat \<Rightarrow> nat \<Rightarrow> nat \<Rightarrow> nat \<Rightarrow> stm8 \<Rightarrow> (stm8, unit) res" where
  "collect_shadowstack8 X me t ssbase 0 s = Ret () s"
| "collect_shadowstack8 X me t ssbase (Suc current) s =
     (if Suc current > ssbase
      then let x = shadowstack8 (tls8 s t) ! current
           in if x AND 3 = 0
              then bind_res (minor_trace_if_young8 X me x s) (\<lambda>y s.
                     collect_shadowstack8 X me t ssbase current
                       (upd_tl8 t (\<lambda>x. x\<lparr>shadowstack8 := (shadowstack8 x)[current := y]\<rparr>) s))
              else collect_shadowstack8 X me t ssbase current s
      else Ret () s)"

definition collect_roots_in_nursery8 :: "ext8 \<Rightarrow> nat \<Rightarrow> stm8 \<Rightarrow> (stm8, unit) res" where
  "collect_roots_in_nursery8 X me s =
     (case running_thread8 (segs8 s me) of
        None \<Rightarrow> Fatal ''running_thread'' s
      | Some t \<Rightarrow>
          (let ssbase = (case moved_off_ssbase (rjthread8 (tls8 s t)) of None \<Rightarrow> 0 | Some b \<Rightarrow> b)
           in collect_shadowstack8 X me t ssbase (length (shadowstack8 (tls8 s t))) s))"

text \<open>\<open>stmcb_trace\<close> calls the visitor on the fields one after the other.\<close>

fun trace_fields8 :: "ext8 \<Rightarrow> nat \<Rightarrow> nat \<Rightarrow> nat list \<Rightarrow> stm8 \<Rightarrow> (stm8, unit) res" where
  "trace_fields8 X me obj [] s = Ret () s"
| "trace_fields8 X me obj (off # offs) s =
     bind_res (minor_trace_if_young8 X me (vload64_8 s me (obj + off)) s) (\<lambda>p s.
       trace_fields8 X me obj offs (vstore64_8 me (obj + off) p s))"

definition collect_now8 :: "ext8 \<Rightarrow> nat \<Rightarrow> nat \<Rightarrow> stm8 \<Rightarrow> (stm8, unit) res" where
  "collect_now8 X me obj s =
     bind_res (trace_fields8 X me obj (stmcb_trace8 X (obj_bytes8 s me obj)) s) (\<lambda>_ s.
       Ret () (set_stm_flags8 me obj (stm_flags8 s me obj OR GCFLAG_WRITE_BARRIER8) s))"

fun collect_oldrefs_to_nursery8 :: "nat \<Rightarrow> ext8 \<Rightarrow> nat \<Rightarrow> stm8 \<Rightarrow> (stm8, unit) res" where
  "collect_oldrefs_to_nursery8 0 X me s =
     (if objects_pointing_to_nursery8 (segs8 s me) = [] then Ret () s else Hang s)"
| "collect_oldrefs_to_nursery8 (Suc n) X me s =
     (let lst = objects_pointing_to_nursery8 (segs8 s me)
      in if lst = [] then Ret () s
         else bind_res (collect_now8 X me (last lst)
                (upd_seg8 me (\<lambda>p. p\<lparr>objects_pointing_to_nursery8 := butlast lst\<rparr>) s))
                (\<lambda>_. collect_oldrefs_to_nursery8 n X me))"

section \<open>The collection\<close>

definition do_minor_collection8 :: "nat \<Rightarrow> ext8 \<Rightarrow> nat \<Rightarrow> stm8 \<Rightarrow> (stm8, unit) res" where
  "do_minor_collection8 fuel X me s =
     bind_res (collect_roots_in_nursery8 X me s) (\<lambda>_ s.
     bind_res (collect_oldrefs_to_nursery8 fuel X me s) (\<lambda>_ s.
       Ret () (snd (throw_away_nursery8 me s))))"

definition minor_collection8 :: "nat \<Rightarrow> ext8 \<Rightarrow> nat \<Rightarrow> stm8 \<Rightarrow> (stm8, unit) res" where
  "minor_collection8 fuel X me s =
     bind_res (stm_safe_point8 fuel X me s) (\<lambda>_. do_minor_collection8 fuel X me)"

text \<open>\<open>abort()\<close> for a level above 0.\<close>

definition stm_collect8 :: "nat \<Rightarrow> ext8 \<Rightarrow> nat \<Rightarrow> nat \<Rightarrow> stm8 \<Rightarrow> (stm8, unit) res" where
  "stm_collect8 fuel X me level s =
     (if level > 0 then Fatal ''abort'' s else minor_collection8 fuel X me s)"

section \<open>Allocation\<close>

text \<open>The fuel is also the number of collections tried.\<close>

fun allocate_restart8 :: "nat \<Rightarrow> ext8 \<Rightarrow> nat \<Rightarrow> nat \<Rightarrow> stm8 \<Rightarrow> (stm8, nat) res" where
  "allocate_restart8 0 X me size_rounded_up s = Hang s"
| "allocate_restart8 (Suc n) X me size_rounded_up s =
     bind_res (stm_safe_point8 n X me s) (\<lambda>_ s.
       let p = nursery_current8 (segs8 s me); stop = p + size_rounded_up
       in if stop \<le> NURSERY_END8
          then Ret p (upd_seg8 me (\<lambda>x. x\<lparr>nursery_current8 := stop\<rparr>) s)
          else bind_res (stm_collect8 n X me 0 s) (\<lambda>_. allocate_restart8 n X me size_rounded_up))"

definition stm_allocate_slowpath8 :: "nat \<Rightarrow> ext8 \<Rightarrow> nat \<Rightarrow> nat \<Rightarrow> stm8 \<Rightarrow> (stm8, nat) res" where
  "stm_allocate_slowpath8 fuel X me size_rounded_up s =
     allocate_restart8 fuel X me size_rounded_up
       (upd_seg8 me (\<lambda>p. p\<lparr>nursery_current8 := nursery_current8 p - size_rounded_up\<rparr>) s)"

definition stm_allocate_external8 :: "nat \<Rightarrow> nat \<Rightarrow> stm8 \<Rightarrow> (stm8, nat) res" where
  "stm_allocate_external8 me size_rounded_up s =
     bind_res (allocate_outside_nursery_large8 size_rounded_up s) (\<lambda>o' s.
       case tree_insert8 (young_outside_nursery8 (segs8 s me)) (of_nat o') 0 of
         Inl e \<Rightarrow> Fatal ''tree_insert'' s
       | Inr t \<Rightarrow> Ret o' (vfill8 me o' size_rounded_up (\<lambda>_. 0)
                    (upd_seg8 me (\<lambda>p. p\<lparr>young_outside_nursery8 := t\<rparr>) s)))"

definition stm_allocate8 :: "nat \<Rightarrow> ext8 \<Rightarrow> nat \<Rightarrow> nat \<Rightarrow> stm8 \<Rightarrow> (stm8, nat) res" where
  "stm_allocate8 fuel X me size_rounded_up s =
     (if size_rounded_up \<ge> STM_FAST_ALLOC8 then stm_allocate_external8 me size_rounded_up s
      else let p = nursery_current8 (segs8 s me); stop = p + size_rounded_up;
               s = upd_seg8 me (\<lambda>x. x\<lparr>nursery_current8 := stop\<rparr>) s
           in if stop > nursery_end8 (segs8 s me) then stm_allocate_slowpath8 fuel X me size_rounded_up s
              else Ret p s)"

section \<open>Identities\<close>

text \<open>\<open>mangle_hash\<close> and the identity of an object (\<open>c8/stm/hash_id.c\<close>); \<open>long\<close> as its 64 bits.\<close>

definition mangle_hash8 :: "u64 \<Rightarrow> u64" where
  "mangle_hash8 i = i XOR signed_drop_bit 5 i"

definition id_or_identityhash8 :: "ext8 \<Rightarrow> nat \<Rightarrow> nat \<Rightarrow> bool \<Rightarrow> stm8 \<Rightarrow> (stm8, u64) res" where
  "id_or_identityhash8 X me obj is_hash s =
     (if obj \<noteq> 0 \<and> \<not> is_in_nursery8 obj \<and> is_hash \<and> has_flag8 (stm_flags8 s me obj) GCFLAG_HAS_SHADOW8
      then Ret (of_nat (vload64_8 s me (obj + obj_size8 X s me obj))) s
      else bind_res (if obj \<noteq> 0 \<and> is_in_nursery8 obj then find_shadow8 X me obj s else Ret obj s) (\<lambda>obj s.
             let result = of_nat obj in Ret (if is_hash then mangle_hash8 result else result) s))"

definition stm_id8 :: "ext8 \<Rightarrow> nat \<Rightarrow> nat \<Rightarrow> stm8 \<Rightarrow> (stm8, u64) res" where
  "stm_id8 X me obj = id_or_identityhash8 X me obj False"

definition stm_identityhash8 :: "ext8 \<Rightarrow> nat \<Rightarrow> nat \<Rightarrow> stm8 \<Rightarrow> (stm8, u64) res" where
  "stm_identityhash8 X me obj = id_or_identityhash8 X me obj True"

definition stm_set_prebuilt_identityhash8 :: "ext8 \<Rightarrow> nat \<Rightarrow> u64 \<Rightarrow> stm8 \<Rightarrow> stm8" where
  "stm_set_prebuilt_identityhash8 X obj hash s =
     (let s = set_stm_flags8 0 obj (stm_flags8 s 0 obj OR GCFLAG_HAS_SHADOW8) s;
          sz = obj_size8 X s 0 obj
      in vstore64_8 0 (obj + sz) (unat hash) s)"

end
