(* ===== verification/C8core.thy ===== *)
theory C8core
  imports C8nursery
begin

text \<open>
  Transactions and the commit log (\<open>c8/stm/core.c\<close>). A transaction validates by replaying the
  log entries that it has not seen yet, and commits by attaching an entry of its own to the
  end of the log. Neither holds the mutex: before each look at the end of the log, other
  threads run (\<open>interleave8\<close>). The memory of a log entry that is not used is not modelled.
\<close>

section \<open>Validation\<close>

text \<open>Copy the version of \<open>obj\<close> in segment \<open>from\<close>, its backup if it has one, into this segment.\<close>

definition update_obj_from8 :: "ext8 \<Rightarrow> nat \<Rightarrow> nat \<Rightarrow> nat \<Rightarrow> stm8 \<Rightarrow> stm8" where
  "update_obj_from8 X me from_seg obj s =
     (case tree_find8 (modified_old_objects8 (segs8 s from_seg)) (of_nat obj) of
        Some val \<Rightarrow>
          (let bk_obj = block_bytes s val; obj_size = stmcb_size_rounded_up8 X bk_obj
           in vfill8 me obj obj_size (\<lambda>x. bk_obj (x - obj)) s)
      | None \<Rightarrow>
          (let obj_size = obj_size8 X s from_seg obj;
               s = memcpy8 me obj from_seg obj obj_size s
           in set_stm_flags8 me obj (stm_flags8 s me obj OR GCFLAG_WRITE_BARRIER8) s))"

definition drop_own_backup8 :: "nat \<Rightarrow> nat \<Rightarrow> stm8 \<Rightarrow> stm8" where
  "drop_own_backup8 me obj s =
     (case tree_find8 (modified_old_objects8 (segs8 s me)) (of_nat obj) of
        Some val \<Rightarrow> upd_seg8 me (\<lambda>p. p\<lparr>modified_old_objects8 :=
           snd (tree_delete_item8 (modified_old_objects8 p) (of_nat obj))\<rparr>) (free_block val s)
      | None \<Rightarrow> s)"

text \<open>One object of an entry; the flag is \<open>needs_abort\<close>.\<close>

definition replay_object8 :: "ext8 \<Rightarrow> nat \<Rightarrow> nat \<Rightarrow> nat \<Rightarrow> bool \<times> stm8 \<Rightarrow> bool \<times> stm8" where
  "replay_object8 X me from_seg obj = (\<lambda>(needs_abort, s).
     let s = update_obj_from8 X me from_seg obj s
     in if stm_was_read me obj s then (True, drop_own_backup8 me obj s) else (needs_abort, s))"

definition replay_entry8 :: "ext8 \<Rightarrow> nat \<Rightarrow> log_entry \<Rightarrow> bool \<Rightarrow> stm8 \<Rightarrow> bool \<times> stm8" where
  "replay_entry8 X me cl needs_abort s =
     foreach_f (written cl) (replay_object8 X me (segment_num cl)) (needs_abort, s)"

text \<open>\<open>cl\<close> is the position of \<open>prev_cl\<close>; the fuel counts the looks at \<open>cl->next\<close>.\<close>

fun validate_loop8 :: "nat \<Rightarrow> ext8 \<Rightarrow> nat \<Rightarrow> nat \<Rightarrow> bool \<Rightarrow> stm8 \<Rightarrow> (stm8, bool) res" where
  "validate_loop8 0 X me cl needs_abort s = Hang s"
| "validate_loop8 (Suc n) X me cl needs_abort s =
     (let s = interleave8 X s
      in if cl < length (commit_log s)
         then let (needs_abort, s) = replay_entry8 X me (commit_log s ! cl) needs_abort s;
                  s = upd_seg8 me (\<lambda>p. p\<lparr>last_commit_log_entry := cl + 1\<rparr>) s
              in validate_loop8 n X me (cl + 1) needs_abort s
         else if log_taken s
         then bind_res (stm_collectable_safe_point8 n X me s) (\<lambda>_. validate_loop8 n X me cl needs_abort)
         else Ret needs_abort s)"

definition stm_validate8 :: "nat \<Rightarrow> ext8 \<Rightarrow> nat \<Rightarrow> stm8 \<Rightarrow> (stm8, unit) res" where
  "stm_validate8 fuel X me s =
     (if transaction_state8 (segs8 s me) = TS_INEVITABLE8 then Ret () s
      else bind_res (validate_loop8 fuel X me (last_commit_log_entry (segs8 s me)) False s) (\<lambda>needs_abort s.
             if needs_abort then stm_abort_transaction8 X me s else Ret () s))"

section \<open>The commit log\<close>

definition create_commit_log_entry8 :: "nat \<Rightarrow> stm8 \<Rightarrow> log_entry" where
  "create_commit_log_entry8 me s =
     \<lparr>segment_num = me, written = map (\<lambda>(addr, val). unat addr) (tree_items8 (modified_old_objects8 (segs8 s me)))\<rparr>"

text \<open>The compare-and-swap succeeds when the last known entry is the last one and its \<open>next\<close> is NULL.\<close>

fun attach_loop8 :: "nat \<Rightarrow> ext8 \<Rightarrow> nat \<Rightarrow> (stm8 \<Rightarrow> stm8) \<Rightarrow> stm8 \<Rightarrow> (stm8, unit) res" where
  "attach_loop8 0 X me attach s = Hang s"
| "attach_loop8 (Suc n) X me attach s =
     bind_res (stm_validate8 n X me s) (\<lambda>_ s.
       let s = interleave8 X s
       in if last_commit_log_entry (segs8 s me) = length (commit_log s) \<and> \<not> log_taken s then Ret () (attach s)
          else attach_loop8 n X me attach s)"

definition validate_and_add_to_commit_log8 :: "nat \<Rightarrow> ext8 \<Rightarrow> nat \<Rightarrow> stm8 \<Rightarrow> (stm8, unit) res" where
  "validate_and_add_to_commit_log8 fuel X me s =
     (let new = create_commit_log_entry8 me s
      in if transaction_state8 (segs8 s me) = TS_INEVITABLE8
         then if last_commit_log_entry (segs8 s me) = length (commit_log s) \<and> log_taken s
              then Ret () (s\<lparr>commit_log := commit_log s @ [new], log_taken := False\<rparr>)
              else Fatal ''OPT_ASSERT'' s
         else attach_loop8 fuel X me (\<lambda>s. s\<lparr>commit_log := commit_log s @ [new]\<rparr>) s)"

definition validate_and_turn_inevitable8 :: "nat \<Rightarrow> ext8 \<Rightarrow> nat \<Rightarrow> stm8 \<Rightarrow> (stm8, unit) res" where
  "validate_and_turn_inevitable8 fuel X me s = attach_loop8 fuel X me (\<lambda>s. s\<lparr>log_taken := True\<rparr>) s"

section \<open>The write barrier\<close>

definition privatize_if_shared8 :: "nat \<Rightarrow> stm8 \<Rightarrow> stm8" where
  "privatize_if_shared8 page s = (if is_shared_log_page s page then privatize_shared_page page s else s)"

definition register_backup8 :: "nat \<Rightarrow> nat \<Rightarrow> u64 \<Rightarrow> stm8 \<Rightarrow> (stm8, unit) res" where
  "register_backup8 me obj bk_obj s =
     (let tree = modified_old_objects8 (segs8 s me)
      in if tree_contains8 tree (of_nat obj) then Ret () s
         else case tree_insert8 tree (of_nat obj) bk_obj of
                Inl e \<Rightarrow> Fatal ''tree_insert'' s
              | Inr t \<Rightarrow> Ret () (upd_seg8 me (\<lambda>p. p\<lparr>modified_old_objects8 := t\<rparr>) s))"

definition stm_write_slowpath8 :: "ext8 \<Rightarrow> nat \<Rightarrow> nat \<Rightarrow> stm8 \<Rightarrow> (stm8, unit) res" where
  "stm_write_slowpath8 X me obj s =
     (let obj_size = obj_size8 X s me obj;
          first_page = obj div 4096;
          end_page = (obj + obj_size - 1) div 4096;
          s = stm_read8 me obj s;
          (bk_obj, s) = malloc_block X (\<lambda>i. if i < obj_size then obj_bytes8 s me obj i else 0) s;
          s = foreach_f [first_page..<Suc end_page] privatize_if_shared8 s;
          s = set_stm_flags8 me obj (stm_flags8 s me obj AND NOT GCFLAG_WRITE_BARRIER8) s;
          s = trace_later8 me obj s
      in register_backup8 me obj bk_obj s)"

definition stm_write8 :: "ext8 \<Rightarrow> nat \<Rightarrow> nat \<Rightarrow> stm8 \<Rightarrow> (stm8, unit) res" where
  "stm_write8 X me obj s =
     (if has_flag8 (stm_flags8 s me obj) GCFLAG_WRITE_BARRIER8 then stm_write_slowpath8 X me obj s else Ret () s)"

section \<open>Transactions\<close>

definition reset_transaction_read_version8 :: "nat \<Rightarrow> stm8 \<Rightarrow> stm8" where
  "reset_transaction_read_version8 me s =
     upd_seg8 me (\<lambda>p. p\<lparr>transaction_read_version8 := 1\<rparr>) (s\<lparr>rm8 := (rm8 s)(me := (\<lambda>_. 0))\<rparr>)"

definition next_read_version8 :: "nat \<Rightarrow> stm8 \<Rightarrow> stm8" where
  "next_read_version8 me s =
     (let old_rv = transaction_read_version8 (segs8 s me);
          s = upd_seg8 me (\<lambda>p. p\<lparr>transaction_read_version8 := old_rv + 1\<rparr>) s
      in if old_rv = 0xff then reset_transaction_read_version8 me s else s)"

fun acquire_loop8 :: "nat \<Rightarrow> ext8 \<Rightarrow> nat \<Rightarrow> stm8 \<Rightarrow> (stm8, nat) res" where
  "acquire_loop8 0 X t s = Hang s"
| "acquire_loop8 (Suc n) X t s =
     (case acquire_thread_segment8 X t s of
        (Some num, s) \<Rightarrow> Ret num s
      | (None, s) \<Rightarrow> acquire_loop8 n X t s)"

definition start_transaction8 :: "nat \<Rightarrow> ext8 \<Rightarrow> nat \<Rightarrow> stm8 \<Rightarrow> (stm8, nat) res" where
  "start_transaction8 fuel X t s =
     bind_res (acquire_loop8 fuel X t s) (\<lambda>me s.
       let s = upd_seg8 me (\<lambda>p. p\<lparr>transaction_state8 := TS_REGULAR8, safe_point8 := SP_RUNNING8,
                 shadowstack_at_start_of_transaction8 := length (shadowstack8 (tls8 s t))\<rparr>) s
       in bind_res (enter_safe_point_if_requested8 fuel X me s) (\<lambda>_ s.
          bind_res (stm_validate8 fuel X me (next_read_version8 me s)) (\<lambda>_ s.
            Ret me s)))"

text \<open>The result is the segment and the repeat count.\<close>

definition stm_start_transaction8 ::
  "nat \<Rightarrow> ext8 \<Rightarrow> nat \<Rightarrow> (nat \<Rightarrow> u8) \<Rightarrow> nat \<Rightarrow> bool \<Rightarrow> stm8 \<Rightarrow> (stm8, nat \<times> nat) res" where
  "stm_start_transaction8 fuel X t stk sp again s =
     (let (repeat_count, rj) = rewind_jmp_setjmp (rjthread8 (tls8 s t)) stk (shadowstack8 (tls8 s t)) sp again;
          s = upd_tl8 t (\<lambda>x. x\<lparr>rjthread8 := rj\<rparr>) s
      in bind_res (start_transaction8 fuel X t s) (\<lambda>me s. Ret (me, repeat_count) s))"

definition forget_rewind8 :: "nat option \<Rightarrow> stm8 \<Rightarrow> stm8" where
  "forget_rewind8 t s =
     (case t of None \<Rightarrow> s | Some t \<Rightarrow> upd_tl8 t (\<lambda>x. x\<lparr>rjthread8 := rewind_jmp_forget (rjthread8 x)\<rparr>) s)"

definition become_inevitable8 :: "nat \<Rightarrow> ext8 \<Rightarrow> nat \<Rightarrow> stm8 \<Rightarrow> (stm8, unit) res" where
  "become_inevitable8 fuel X me s =
     (if transaction_state8 (segs8 s me) = TS_REGULAR8
      then bind_res (stm_collectable_safe_point8 fuel X me s) (\<lambda>_ s.
           bind_res (validate_and_turn_inevitable8 fuel X me s) (\<lambda>_ s.
             let s = upd_seg8 me (\<lambda>p. p\<lparr>transaction_state8 := TS_INEVITABLE8\<rparr>) s;
                 s = forget_rewind8 (running_thread8 (segs8 s me)) s
             in Ret () (invoke_and_clear_user_callbacks8 me 0 s)))
      else Ret () s)"

definition stm_is_inevitable8 :: "nat \<Rightarrow> stm8 \<Rightarrow> bool" where
  "stm_is_inevitable8 t s \<longleftrightarrow> \<not> rewind_jmp_armed (rjthread8 (tls8 s t))"

definition stm_become_inevitable8 :: "nat \<Rightarrow> ext8 \<Rightarrow> nat \<Rightarrow> nat \<Rightarrow> stm8 \<Rightarrow> (stm8, unit) res" where
  "stm_become_inevitable8 fuel X me t s =
     (if \<not> stm_is_inevitable8 t s then become_inevitable8 fuel X me s else Ret () s)"

definition stm_start_inevitable_transaction8 :: "nat \<Rightarrow> ext8 \<Rightarrow> nat \<Rightarrow> stm8 \<Rightarrow> (stm8, nat) res" where
  "stm_start_inevitable_transaction8 fuel X t s =
     bind_res (start_transaction8 fuel X t s) (\<lambda>me s.
     bind_res (become_inevitable8 fuel X me s) (\<lambda>_ s. Ret me s))"

definition stm_become_globally_unique_transaction8 :: "nat \<Rightarrow> ext8 \<Rightarrow> nat \<Rightarrow> nat \<Rightarrow> stm8 \<Rightarrow> (stm8, unit) res" where
  "stm_become_globally_unique_transaction8 fuel X me t s =
     bind_res (stm_become_inevitable8 fuel X me t s) (\<lambda>_.
       synchronize_all_threads8 fuel X me STOP_OTHERS_AND_BECOME_GLOBALLY_UNIQUE8)"

text \<open>The write set after its entry was attached: backups freed, flags set again, tree cleared.\<close>

definition clear_write_set8 :: "nat \<Rightarrow> stm8 \<Rightarrow> stm8" where
  "clear_write_set8 me s =
     (let tree = modified_old_objects8 (segs8 s me);
          s = foreach_f (tree_items8 tree) (\<lambda>(addr, val) s.
                let obj = unat addr; s = free_block val s
                in set_stm_flags8 me obj (stm_flags8 s me obj OR GCFLAG_WRITE_BARRIER8) s) s
      in upd_seg8 me (\<lambda>p. p\<lparr>modified_old_objects8 := tree_clear8 tree\<rparr>) s)"

text \<open>
  The entry is attached by the compare-and-swap; \<open>modified_objs_lock\<close> is taken only after that,
  so that the other threads run between the two.
\<close>

definition stm_commit_transaction8 :: "nat \<Rightarrow> ext8 \<Rightarrow> nat \<Rightarrow> stm8 \<Rightarrow> (stm8, unit) res" where
  "stm_commit_transaction8 fuel X me s =
     bind_res (minor_collection8 fuel X me s) (\<lambda>_ s.
     bind_res (validate_and_add_to_commit_log8 fuel X me s) (\<lambda>_ s.
     bind_res (enter_safe_point_if_requested8 fuel X me
                 (invoke_and_clear_user_callbacks8 me 0 (clear_write_set8 me (interleave8 X s)))) (\<lambda>_ s.
       let s = forget_rewind8 (running_thread8 (segs8 s me)) s;
           s = (if globally_unique_transaction8 s \<and> transaction_state8 (segs8 s me) = TS_INEVITABLE8
                then committed_globally_unique_transaction8 me s else s)
       in Ret () (finish_transaction8 me s))))"

end
