(* ===== verification/C8trees.thy ===== *)
theory C8trees
  imports C8state
begin

text \<open>
  The counting trees of \<open>c8/stm/list.c\<close> as maps: their count is the number of items, and they
  satisfy the interface \<open>addr_map\<close> of the trees of \<open>c7\<close>.
\<close>

definition tree_inv8 :: "tree8 \<Rightarrow> bool" where
  "tree_inv8 t \<longleftrightarrow> tree_inv (nodes t) \<and> tcount t = card (set (tree_items8 t))"

definition tree_map8 :: "tree8 \<Rightarrow> u64 \<Rightarrow> u64 option" where
  "tree_map8 t = tree_map (nodes t)"

lemma tree_map8_Some: "tree_inv8 t \<Longrightarrow> tree_map8 t a = Some v \<longleftrightarrow> (a, v) \<in> set (tree_items8 t)"
  by (simp add: tree_inv8_def tree_map8_def tree_items8_def tree_map_Some)

lemma tree_find8_map: "tree_inv8 t \<Longrightarrow> a \<noteq> 0 \<Longrightarrow> tree_find8 t a = tree_map8 t a"
  by (simp add: tree_inv8_def tree_find8_def tree_map8_def tree_lookup_map)

lemma tree_contains8_map: "tree_inv8 t \<Longrightarrow> a \<noteq> 0 \<Longrightarrow> tree_contains8 t a \<longleftrightarrow> tree_map8 t a \<noteq> None"
  by (auto simp: tree_inv8_def tree_contains8_def tree_contains_def tree_map8_def tree_lookup_map split: option.splits)

lemma tree_items8_key:
  assumes "tree_inv8 t" and "(a, v) \<in> set (tree_items8 t)"
  shows "aligned8 a" and "a \<noteq> 0"
  using assms items_nonzero by (auto simp: tree_inv8_def tree_inv_def tree_items8_def tree_items_def)

lemma distinct_items8: "tree_inv8 t \<Longrightarrow> distinct (map fst (tree_items8 t))"
  by (auto simp: tree_inv8_def tree_inv_def tree_items8_def wf_tree_def tree_items_def dest: distinct_items)

lemma dom_tree_map8: "tree_inv8 t \<Longrightarrow> dom (tree_map8 t) = fst ` set (tree_items8 t)"
  by (force simp: tree_map8_Some dom_def image_iff)

text \<open>The count is what the loop of \<open>tree_insert\<close> and \<open>tree_delete_item\<close> keeps.\<close>

lemma card_items8: "tree_inv (nodes t) \<Longrightarrow> card (set (tree_items8 t)) = card (dom (tree_map8 t))"
proof -
  assume i: "tree_inv (nodes t)"
  have d: "dom (tree_map8 t) = fst ` set (tree_items8 t)"
    using i by (force simp: tree_map8_def tree_items8_def tree_map_Some dom_def image_iff)
  have "distinct (map fst (tree_items8 t))"
    using i by (auto simp: tree_inv_def tree_items8_def wf_tree_def tree_items_def dest: distinct_items)
  then show ?thesis unfolding d by (metis distinct_map card_image)
qed

lemma tree_inv8_iff: "tree_inv8 t \<longleftrightarrow> tree_inv (nodes t) \<and> tcount t = card (dom (tree_map8 t))"
  by (auto simp: tree_inv8_def card_items8)

lemma finite_dom_map8: "tree_inv8 t \<Longrightarrow> finite (dom (tree_map8 t))"
  by (simp add: dom_tree_map8)

lemma tree_insert8_map:
  assumes "tree_inv8 t" and "aligned8 a" and "a \<noteq> 0" and "tree_map8 t a = None"
  shows "\<exists>t'. tree_insert8 t a v = Inr t' \<and> tree_inv8 t' \<and> tree_map8 t' = (tree_map8 t)(a \<mapsto> v)"
proof -
  obtain n where n: "tree_insert insert_fuel (\<lambda>_. True) (nodes t) a v = Inr n" "tree_inv n"
    "tree_map n = (tree_map (nodes t))(a \<mapsto> v)"
    using tree_insert_map [of "nodes t" a "\<lambda>_. True" v] assms by (auto simp: tree_inv8_def tree_map8_def)
  have "card (insert a (dom (tree_map8 t))) = card (dom (tree_map8 t)) + 1"
    using finite_dom_map8 [OF assms(1)] assms(4) by (simp add: domIff)
  then show ?thesis using n assms(1) by (auto simp: tree_insert8_def tree_inv8_iff tree_map8_def)
qed

lemma tree_delete8_map:
  assumes "tree_inv8 t" and "a \<noteq> 0"
  shows "fst (tree_delete_item8 t a) = (tree_map8 t a \<noteq> None) \<and> tree_inv8 (snd (tree_delete_item8 t a)) \<and>
    tree_map8 (snd (tree_delete_item8 t a)) = (tree_map8 t)(a := None)"
proof -
  obtain found n where d: "tree_delete_item (nodes t) a = (found, n)" by fastforce
  have f: "found = (tree_map8 t a \<noteq> None)" "tree_inv n" "tree_map n = (tree_map8 t)(a := None)"
    using tree_delete_map [of "nodes t" a] assms d by (simp_all add: tree_inv8_def tree_map8_def)
  have "tree_inv8 \<lparr>nodes = n, tcount = tcount t - 1\<rparr>" if "tree_map8 t a \<noteq> None"
    using assms(1) f(2,3) that finite_dom_map8 [OF assms(1)] by (simp add: tree_inv8_iff tree_map8_def domIff)
  then show ?thesis using assms(1) d f by (auto simp: tree_delete_item8_def tree_map8_def fun_eq_iff)
qed

lemma tree_clear8_map: "tree_inv8 t \<Longrightarrow> tree_inv8 (tree_clear8 t) \<and> tree_map8 (tree_clear8 t) = Map.empty"
proof -
  assume t: "tree_inv8 t"
  have i: "tree_inv (nodes t)" using t by (simp add: tree_inv8_def)
  note c = tree_clear_spec [OF i]
  have "nodes t = tree_clear (nodes t)" if "tree_is_cleared (nodes t)"
    using that by (simp add: tree_clear_def tree_is_cleared_def)
  then have e: "nodes (tree_clear8 t) = tree_clear (nodes t)" by (auto simp: tree_clear8_def tree_is_cleared8_def)
  have m: "tree_map8 (tree_clear8 t) = Map.empty" using c by (simp add: tree_map8_def e)
  have "tcount (tree_clear8 t) = card (dom (tree_map8 (tree_clear8 t)))"
    using t c e unfolding m tree_clear8_def tree_is_cleared8_def
    by (cases "tree_is_cleared (nodes t)") (auto simp: tree_inv8_iff tree_map8_def)
  then show ?thesis using c m by (simp add: tree_inv8_iff e)
qed

lemma tree_create8_map: "tree_inv8 tree_create8 \<and> tree_map8 tree_create8 = Map.empty"
  using tree_inv_create tree_map_create by (simp add: tree_inv8_iff tree_map8_def tree_create8_def)

lemma tree_is_empty_map: "tree_inv8 t \<Longrightarrow> tree_is_empty t \<longleftrightarrow> tree_map8 t = Map.empty"
  using finite_dom_map8 [of t] by (simp add: tree_is_empty_def tree_inv8_iff)

interpretation trm8: addr_map tree_inv8 "\<lambda>a. aligned8 a \<and> a \<noteq> 0" tree_map8 tree_create8
  tree_insert8 tree_delete_item8 tree_clear8 tree_find8
  by unfold_locales (use tree_create8_map tree_clear8_map tree_delete8_map tree_find8_map tree_insert8_map in auto)

end
