(* ===== verification/C8coherent.thy ===== *)
theory C8coherent
  imports C8core C8trees
begin

text \<open>
  What the commit log of \<open>c8\<close> keeps true. Every segment has a committed version of each old
  object: its backup when the running transaction has modified the object, otherwise the bytes
  in its pages. The invariant says that all segments that have no entry of another segment left
  to replay for an object have the same version of it, the newest one.
\<close>

section \<open>Logs and versions\<close>

text \<open>
  Entries that segment \<open>g\<close> has not replayed start at \<open>pos g\<close>; only the first of them can be its
  own, as a segment replays the log up to its end before it attaches an entry.
\<close>

definition up_to_date :: "log_entry list \<Rightarrow> (nat \<Rightarrow> nat) \<Rightarrow> nat \<Rightarrow> nat \<Rightarrow> bool" where
  "up_to_date log pos g a \<longleftrightarrow>
     (\<forall>k. pos g \<le> k \<and> k < length log \<and> a \<in> set (written (log ! k)) \<longrightarrow> segment_num (log ! k) = g)"

definition newest :: "(nat \<Rightarrow> nat) \<Rightarrow> nat set \<Rightarrow> (nat \<Rightarrow> nat \<Rightarrow> nat \<Rightarrow> u8) \<Rightarrow> log_entry list \<Rightarrow> (nat \<Rightarrow> nat) \<Rightarrow> bool" where
  "newest sz objs ver log pos \<longleftrightarrow>
     (\<forall>a \<in> objs. \<exists>M. \<forall>g \<le> 3. up_to_date log pos g a \<longrightarrow> (\<forall>i < sz a. ver g a i = M i))"

definition positions_ok :: "log_entry list \<Rightarrow> (nat \<Rightarrow> nat) \<Rightarrow> bool" where
  "positions_ok log pos \<longleftrightarrow> (\<forall>g \<le> 3. pos g \<le> length log \<and>
     (\<forall>k. pos g \<le> k \<and> k < length log \<and> segment_num (log ! k) = g \<longrightarrow> k = pos g))"

lemma positions_okD:
  "positions_ok log pos \<Longrightarrow> g \<le> 3 \<Longrightarrow> pos g \<le> length log"
  "positions_ok log pos \<Longrightarrow> g \<le> 3 \<Longrightarrow> pos g \<le> k \<Longrightarrow> k < length log \<Longrightarrow> segment_num (log ! k) = g \<Longrightarrow> k = pos g"
  unfolding positions_ok_def by blast+

lemma newest_cong:
  assumes "newest sz objs ver log pos" and "\<And>g a i. g \<le> 3 \<Longrightarrow> a \<in> objs \<Longrightarrow> i < sz a \<Longrightarrow> ver' g a i = ver g a i"
  shows "newest sz objs ver' log pos"
  using assms unfolding newest_def by (metis (no_types, lifting))

lemma newest_agree:
  assumes "newest sz objs ver log pos" and "a \<in> objs" and "g \<le> 3" and "h \<le> 3"
    and "up_to_date log pos g a" and "up_to_date log pos h a" and "i < sz a"
  shows "ver g a i = ver h a i"
  using assms unfolding newest_def by metis

lemma positions_replay:
  assumes "positions_ok log pos" and "me \<le> 3" and "pos me < length log"
  shows "positions_ok log (pos(me := pos me + 1))"
  unfolding positions_ok_def
proof (intro allI impI conjI)
  fix g assume g: "g \<le> (3::nat)"
  show "(pos(me := pos me + 1)) g \<le> length log" using positions_okD(1) [OF assms(1) g] assms(3) by simp
  fix k assume k: "(pos(me := pos me + 1)) g \<le> k \<and> k < length log \<and> segment_num (log ! k) = g"
  have "pos g \<le> k" using k by (cases "g = me") simp_all
  then have "k = pos g" using positions_okD(2) [OF assms(1) g, of k] k by simp
  then show "k = (pos(me := pos me + 1)) g" using k by (cases "g = me") simp_all
qed

text \<open>After the last known entry was replayed, the segment is as up to date as it claims.\<close>

lemma newest_replay:
  assumes n: "newest sz objs ver log pos" and p: "positions_ok log pos"
    and me: "me \<le> 3" and l: "pos me < length log" and h: "h \<le> 3" "segment_num (log ! pos me) = h"
    and v: "\<And>g a i. g \<le> 3 \<Longrightarrow> a \<in> objs \<Longrightarrow> i < sz a \<Longrightarrow>
      ver' g a i = (if g = me \<and> a \<in> set (written (log ! pos me)) then ver h a i else ver g a i)"
  shows "newest sz objs ver' log (pos(me := pos me + 1))"
  unfolding newest_def
proof
  fix a assume a: "a \<in> objs"
  let ?pos = "pos(me := pos me + 1)"
  obtain M where M: "\<And>g i. g \<le> 3 \<Longrightarrow> up_to_date log pos g a \<Longrightarrow> i < sz a \<Longrightarrow> ver g a i = M i"
    using n a unfolding newest_def by metis
  have old: "up_to_date log pos g a" if "g \<noteq> me" "up_to_date log ?pos g a" for g
    using that by (simp add: up_to_date_def)
  show "\<exists>M. \<forall>g \<le> 3. up_to_date log ?pos g a \<longrightarrow> (\<forall>i < sz a. ver' g a i = M i)"
  proof (intro exI allI impI)
    fix g i assume g: "g \<le> 3" "up_to_date log ?pos g a" "i < sz a"
    show "ver' g a i = M i"
    proof (cases "g = me")
      case False
      then show ?thesis using v [OF g(1) a g(3)] M [OF g(1) old [OF False g(2)] g(3)] by simp
    next
      case True
      have foreign: "k \<ge> length log \<or> a \<notin> set (written (log ! k))" if "pos me < k" for k
      proof (rule ccontr)
        assume *: "\<not> ?thesis"
        then have "segment_num (log ! k) = me" using g(2) that True by (simp add: up_to_date_def)
        then have "k = pos me" using positions_okD(2) [OF p me, of k] * that by simp
        then show False using that by simp
      qed
      show ?thesis
      proof (cases "a \<in> set (written (log ! pos me))")
        case False
        then have "up_to_date log pos me a" using foreign unfolding up_to_date_def by (metis le_neq_implies_less not_le)
        then show ?thesis using v [OF g(1) a g(3)] M [OF me _ g(3)] True False by simp
      next
        case inW: True
        have "up_to_date log pos h a"
          unfolding up_to_date_def
        proof (intro allI impI)
          fix k assume k: "pos h \<le> k \<and> k < length log \<and> a \<in> set (written (log ! k))"
          then have "k \<le> pos me" using foreign [of k] by linarith
          then have "pos h \<le> pos me" using k by simp
          then have "pos me = pos h" using positions_okD(2) [OF p h(1) _ l] h(2) by simp
          then have "k = pos me" using k \<open>k \<le> pos me\<close> by simp
          then show "segment_num (log ! k) = h" using h(2) by simp
        qed
        then show ?thesis using v [OF g(1) a g(3)] M [OF h(1) _ g(3)] True inW by simp
      qed
    qed
  qed
qed

text \<open>A segment that is at the end of the log attaches its own versions.\<close>

lemma positions_attach:
  assumes "positions_ok log pos" and "segment_num e = me" and "pos me = length log"
  shows "positions_ok (log @ [e]) pos"
  unfolding positions_ok_def
proof (intro allI impI conjI)
  fix g assume g: "g \<le> (3::nat)"
  show "pos g \<le> length (log @ [e])" using positions_okD(1) [OF assms(1) g] by simp
  fix k assume "pos g \<le> k \<and> k < length (log @ [e]) \<and> segment_num ((log @ [e]) ! k) = g"
  then show "k = pos g"
    using positions_okD(2) [OF assms(1) g, of k] assms(2,3) by (cases "k < length log") (auto simp: nth_append)
qed

lemma newest_attach:
  assumes n: "newest sz objs ver log pos" and p: "positions_ok log pos"
    and me: "me \<le> 3" "segment_num e = me" "pos me = length log"
    and v: "\<And>g a i. g \<le> 3 \<Longrightarrow> a \<in> objs \<Longrightarrow> i < sz a \<Longrightarrow> g \<noteq> me \<or> a \<notin> set (written e) \<Longrightarrow> ver' g a i = ver g a i"
  shows "newest sz objs ver' (log @ [e]) pos"
  unfolding newest_def
proof
  fix a assume a: "a \<in> objs"
  have len: "pos g \<le> length log" if "g \<le> 3" for g using positions_okD(1) [OF p that] .
  show "\<exists>M. \<forall>g \<le> 3. up_to_date (log @ [e]) pos g a \<longrightarrow> (\<forall>i < sz a. ver' g a i = M i)"
  proof (cases "a \<in> set (written e)")
    case True
    have "g = me" if "g \<le> 3" "up_to_date (log @ [e]) pos g a" for g
      using that(2) len [OF that(1)] True me(2) unfolding up_to_date_def
      by (metis length_append_singleton lessI nth_append_length)
    then show ?thesis by (intro exI [of _ "ver' me a"]) auto
  next
    case False
    have "up_to_date log pos g a" if "up_to_date (log @ [e]) pos g a" for g
      using that unfolding up_to_date_def by (metis length_append_singleton less_SucI nth_append)
    then show ?thesis using n a v False unfolding newest_def by (metis (no_types, lifting))
  qed
qed

end
