(* ===== verification/C8replay.thy ===== *)
theory C8replay
  imports C8coherent
begin

text \<open>
  The invariant of the state of \<open>c8\<close> behind its commit log, and what replaying the entries of
  the log does to the versions that a segment has. \<open>objs\<close> are the old objects that
  transactions share, and \<open>sz\<close> their sizes.
\<close>

section \<open>Memory\<close>

lemma vread8_vfill8:
  "vread8 (vfill8 g a n f s) h x =
     (if a \<le> x \<and> x < a + n \<and> remap8 s g (x div 4096) = remap8 s h (x div 4096) then f x else vread8 s h x)"
  by (simp add: vread8_def vfill8_def)

lemma vfill8_frame [simp]:
  "remap8 (vfill8 g a n f s) = remap8 s" "rm8 (vfill8 g a n f s) = rm8 s" "segs8 (vfill8 g a n f s) = segs8 s"
  "by_segment8 (vfill8 g a n f s) = by_segment8 s" "blocks (vfill8 g a n f s) = blocks s"
  "commit_log (vfill8 g a n f s) = commit_log s" "log_taken (vfill8 g a n f s) = log_taken s"
  "uninitialized_page_start8 (vfill8 g a n f s) = uninitialized_page_start8 s" "tls8 (vfill8 g a n f s) = tls8 s"
  by (simp_all add: vfill8_def)

definition WB8_in :: "u32 \<Rightarrow> bool" where
  "WB8_in v \<longleftrightarrow> has_flag8 v GCFLAG_WRITE_BARRIER8"

lemma or_has_flag: "WB8_in v \<Longrightarrow> v OR GCFLAG_WRITE_BARRIER8 = v"
proof -
  assume "WB8_in v"
  then have b: "bit v 0" using mask1_neq_0 [of v 0] by (simp add: WB8_in_def has_flag8_def GCFLAG_WRITE_BARRIER8_def)
  show ?thesis
    by (rule bit_word_eqI) (use b in \<open>auto simp: bit_or_iff GCFLAG_WRITE_BARRIER8_def bit_1_iff\<close>)
qed

lemma or_WB8: "WB8_in (v OR GCFLAG_WRITE_BARRIER8)"
proof -
  have "bit (v OR GCFLAG_WRITE_BARRIER8) 0" by (simp add: bit_or_iff GCFLAG_WRITE_BARRIER8_def bit_1_iff)
  then show ?thesis using mask1_neq_0 [of "v OR GCFLAG_WRITE_BARRIER8" 0]
    by (simp add: WB8_in_def has_flag8_def GCFLAG_WRITE_BARRIER8_def)
qed

lemma load32_shift: "load32 m a = load32 (\<lambda>i. m (a + i)) 0"
  by (simp add: load32_def)

section \<open>Objects and their pages\<close>

text \<open>
  The size depends on the bytes of the object only, and not on its first four, which belong to
  the library.
\<close>

definition cb_ok8 :: "ext8 \<Rightarrow> bool" where
  "cb_ok8 X \<longleftrightarrow> (\<forall>f f'. (\<forall>i. 4 \<le> i \<and> i < stmcb_size_rounded_up8 X f \<longrightarrow> f i = f' i) \<longrightarrow>
     stmcb_size_rounded_up8 X f' = stmcb_size_rounded_up8 X f)"

lemma cb_ok8_flags:
  "cb_ok8 X \<Longrightarrow> stmcb_size_rounded_up8 X f = n \<Longrightarrow> (\<And>i. 4 \<le> i \<Longrightarrow> i < n \<Longrightarrow> f' i = f i) \<Longrightarrow> stmcb_size_rounded_up8 X f' = n"
  unfolding cb_ok8_def by metis

lemma cb_ok8D:
  "cb_ok8 X \<Longrightarrow> stmcb_size_rounded_up8 X f = n \<Longrightarrow> (\<And>i. i < n \<Longrightarrow> f' i = f i) \<Longrightarrow> stmcb_size_rounded_up8 X f' = n"
  by (rule cb_ok8_flags)

definition in_obj :: "(nat \<Rightarrow> nat) \<Rightarrow> nat \<Rightarrow> nat \<Rightarrow> bool" where
  "in_obj sz a x \<longleftrightarrow> a \<le> x \<and> x < a + sz a"

definition obj_pages8 :: "(nat \<Rightarrow> nat) \<Rightarrow> nat \<Rightarrow> nat set" where
  "obj_pages8 sz a = {a div 4096 .. (a + sz a - 1) div 4096}"

definition old_page8 :: "stm8 \<Rightarrow> nat \<Rightarrow> bool" where
  "old_page8 s p \<longleftrightarrow> END_NURSERY_PAGE8 \<le> p \<and> p * 4096 < uninitialized_page_start8 s"

definition layout8 :: "(nat \<Rightarrow> nat) \<Rightarrow> nat set \<Rightarrow> bool" where
  "layout8 sz objs \<longleftrightarrow>
     (\<forall>a \<in> objs. 16 \<le> sz a \<and> 16 dvd a \<and> END_NURSERY_PAGE8 * 4096 \<le> a \<and> a + sz a \<le> NB_PAGES8 * 4096) \<and>
     (\<forall>a \<in> objs. \<forall>b \<in> objs. a \<noteq> b \<longrightarrow> a + sz a \<le> b \<or> b + sz b \<le> a)"

definition private8 :: "stm8 \<Rightarrow> nat \<Rightarrow> bool" where
  "private8 s p \<longleftrightarrow> (\<forall>g \<le> 3. remap8 s g p = g)"

definition owned8 :: "(nat \<Rightarrow> nat) \<Rightarrow> stm8 \<Rightarrow> nat \<Rightarrow> bool" where
  "owned8 sz s a \<longleftrightarrow> (\<forall>p \<in> obj_pages8 sz a. private8 s p)"

lemma in_obj_offset: "i < sz a \<Longrightarrow> in_obj sz a (a + i)"
  by (simp add: in_obj_def)

lemma in_obj_page: "in_obj sz a x \<Longrightarrow> x div 4096 \<in> obj_pages8 sz a"
  unfolding in_obj_def obj_pages8_def by (auto intro: div_le_mono)

lemma in_obj_unique:
  "layout8 sz objs \<Longrightarrow> a \<in> objs \<Longrightarrow> b \<in> objs \<Longrightarrow> in_obj sz a x \<Longrightarrow> in_obj sz b x \<Longrightarrow> a = b"
  unfolding layout8_def in_obj_def by (metis le_less_trans less_le_not_le order_trans)

lemma layout8D:
  assumes "layout8 sz objs" and "a \<in> objs"
  shows "16 \<le> sz a" and "16 dvd a" and "END_NURSERY_PAGE8 * 4096 \<le> a" and "a + sz a \<le> NB_PAGES8 * 4096"
  using assms unfolding layout8_def by blast+

lemma obj_key:
  assumes "layout8 sz objs" and "a \<in> objs"
  shows "unat (of_nat a :: u64) = a" and "(of_nat a :: u64) \<noteq> 0" and "aligned8 (of_nat a)"
proof -
  have b: "0 < a" "a < 2 ^ 64"
    using layout8D [OF assms] by (simp_all add: page_consts8)
  then show u: "unat (of_nat a :: u64) = a" by (simp add: unat_of_nat)
  then show "(of_nat a :: u64) \<noteq> 0" using b by force
  have "unat (of_nat a AND 7 :: u64) = a AND 7" using u by (simp add: unsigned_and_eq)
  also have "(7 :: nat) = mask 3" by (simp add: mask_eq_exp_minus_1)
  also have "a AND mask 3 = 0"
    using dvd_trans [of 8 16 a] layout8D(2) [OF assms] by (simp add: take_bit_eq_mask [symmetric] take_bit_eq_mod)
  finally show "aligned8 (of_nat a)" by (simp add: aligned8_def unat_eq_zero)
qed

lemma obj_key_inj:
  "layout8 sz objs \<Longrightarrow> a \<in> objs \<Longrightarrow> b \<in> objs \<Longrightarrow> (of_nat a :: u64) = of_nat b \<longleftrightarrow> a = b"
  using obj_key(1) by metis

section \<open>The invariant\<close>

abbreviation mods8 :: "stm8 \<Rightarrow> nat \<Rightarrow> tree8" where
  "mods8 s g \<equiv> modified_old_objects8 (segs8 s g)"

abbreviation positions8 :: "stm8 \<Rightarrow> nat \<Rightarrow> nat" where
  "positions8 s g \<equiv> last_commit_log_entry (segs8 s g)"

definition backup8 :: "stm8 \<Rightarrow> nat \<Rightarrow> nat \<Rightarrow> u64 option" where
  "backup8 s g a = tree_map8 (mods8 s g) (of_nat a)"

text \<open>The committed version of an object in a segment.\<close>

definition version8 :: "stm8 \<Rightarrow> nat \<Rightarrow> nat \<Rightarrow> nat \<Rightarrow> u8" where
  "version8 s g a = (case backup8 s g a of Some v \<Rightarrow> block_bytes s v | None \<Rightarrow> obj_bytes8 s g a)"

definition maps8 :: "(nat \<Rightarrow> nat) \<Rightarrow> nat set \<Rightarrow> stm8 \<Rightarrow> bool" where
  "maps8 sz objs s \<longleftrightarrow> (\<forall>p. old_page8 s p \<longrightarrow> mapped8 s p) \<and> (\<forall>a \<in> objs. \<forall>p \<in> obj_pages8 sz a. old_page8 s p)"

definition trees_ok8 :: "(nat \<Rightarrow> nat) \<Rightarrow> nat set \<Rightarrow> stm8 \<Rightarrow> bool" where
  "trees_ok8 sz objs s \<longleftrightarrow> (\<forall>g \<le> 3. tree_inv8 (mods8 s g)) \<and>
     (\<forall>g \<le> 3. \<forall>k v. tree_map8 (mods8 s g) k = Some v \<longrightarrow>
        (\<exists>a \<in> objs. k = of_nat a \<and> owned8 sz s a) \<and> blocks s v \<noteq> None)"

definition apart8 :: "stm8 \<Rightarrow> bool" where
  "apart8 s \<longleftrightarrow> (\<forall>g \<le> 3. \<forall>h \<le> 3. \<forall>k l v.
     tree_map8 (mods8 s g) k = Some v \<longrightarrow> tree_map8 (mods8 s h) l = Some v \<longrightarrow> g = h \<and> k = l)"

definition log_ok8 :: "(nat \<Rightarrow> nat) \<Rightarrow> nat set \<Rightarrow> stm8 \<Rightarrow> bool" where
  "log_ok8 sz objs s \<longleftrightarrow> (\<forall>e \<in> set (commit_log s). segment_num e \<le> 3 \<and> (\<forall>a \<in> set (written e). a \<in> objs \<and> owned8 sz s a))"

definition content8 :: "ext8 \<Rightarrow> (nat \<Rightarrow> nat) \<Rightarrow> nat set \<Rightarrow> stm8 \<Rightarrow> bool" where
  "content8 X sz objs s \<longleftrightarrow> (\<forall>a \<in> objs. \<forall>g \<le> 3. stmcb_size_rounded_up8 X (version8 s g a) = sz a \<and>
     stmcb_size_rounded_up8 X (obj_bytes8 s g a) = sz a \<and> WB8_in (load32 (version8 s g a) 0))"

text \<open>What a segment has modified, it has also read.\<close>

definition readers8 :: "nat set \<Rightarrow> nat \<Rightarrow> stm8 \<Rightarrow> bool" where
  "readers8 objs g s \<longleftrightarrow> (\<forall>a \<in> objs. backup8 s g a \<noteq> None \<longrightarrow> stm_was_read g a s)"

definition solid8 :: "ext8 \<Rightarrow> (nat \<Rightarrow> nat) \<Rightarrow> nat set \<Rightarrow> stm8 \<Rightarrow> bool" where
  "solid8 X sz objs s \<longleftrightarrow> cb_ok8 X \<and> layout8 sz objs \<and> maps8 sz objs s \<and> trees_ok8 sz objs s \<and> apart8 s \<and>
     log_ok8 sz objs s \<and> content8 X sz objs s"

definition coherent8 :: "ext8 \<Rightarrow> (nat \<Rightarrow> nat) \<Rightarrow> nat set \<Rightarrow> stm8 \<Rightarrow> bool" where
  "coherent8 X sz objs s \<longleftrightarrow> solid8 X sz objs s \<and> (\<forall>g \<le> 3. readers8 objs g s) \<and>
     positions_ok (commit_log s) (positions8 s) \<and>
     newest sz objs (version8 s) (commit_log s) (positions8 s)"

lemma solidD:
  assumes "solid8 X sz objs s"
  shows "cb_ok8 X" and "layout8 sz objs" and "maps8 sz objs s" and "trees_ok8 sz objs s" and "apart8 s"
    and "log_ok8 sz objs s" and "content8 X sz objs s"
  using assms by (simp_all add: solid8_def)

lemma trees_okD:
  assumes "trees_ok8 sz objs s" and "g \<le> 3"
  shows "tree_inv8 (mods8 s g)"
    and "tree_map8 (mods8 s g) k = Some v \<Longrightarrow> \<exists>a \<in> objs. k = of_nat a \<and> owned8 sz s a"
    and "tree_map8 (mods8 s g) k = Some v \<Longrightarrow> blocks s v \<noteq> None"
  using assms unfolding trees_ok8_def by blast+

lemma contentD:
  assumes "content8 X sz objs s" and "a \<in> objs" and "g \<le> 3"
  shows "stmcb_size_rounded_up8 X (version8 s g a) = sz a" and "stmcb_size_rounded_up8 X (obj_bytes8 s g a) = sz a"
    and "WB8_in (load32 (version8 s g a) 0)"
  using assms unfolding content8_def by blast+

lemma owned_private: "owned8 sz s a \<Longrightarrow> in_obj sz a x \<Longrightarrow> g \<le> 3 \<Longrightarrow> remap8 s g (x div 4096) = g"
  using in_obj_page unfolding owned8_def private8_def by blast

lemma find_backup:
  assumes "solid8 X sz objs s" and "g \<le> 3" and "a \<in> objs"
  shows "tree_find8 (mods8 s g) (of_nat a) = backup8 s g a"
  using tree_find8_map [OF trees_okD(1) [OF solidD(4) [OF assms(1)] assms(2)] obj_key(2) [OF solidD(2) [OF assms(1)] assms(3)]]
  by (simp add: backup8_def)

section \<open>One object\<close>

text \<open>\<open>_update_obj_from\<close> only writes memory, and makes the bytes of the object the committed version there.\<close>

lemma update_obj_from8_mem: "\<exists>m. update_obj_from8 X me h a s = s\<lparr>mem8 := m\<rparr>"
proof -
  have v: "\<exists>m. vfill8 g a n f s = s\<lparr>mem8 := m\<rparr>" for g a n f s by (auto simp: vfill8_def)
  show ?thesis unfolding update_obj_from8_def memcpy8_def set_stm_flags8_def Let_def
    by (cases "tree_find8 (mods8 s h) (of_nat a)") (auto simp: vfill8_def)
qed

lemma update_obj_from8_view:
  assumes s: "solid8 X sz objs s" and a: "a \<in> objs" and h: "h \<le> 3" and me: "me \<le> 3" and o: "owned8 sz s a" and g: "g \<le> 3"
  shows "vread8 (update_obj_from8 X me h a s) g x =
    (if g = me \<and> in_obj sz a x then version8 s h a (x - a) else vread8 s g x)"
proof -
  note p = owned_private [OF o]
  note c = contentD [OF solidD(7) [OF s] a h]
  have fill: "vread8 (vfill8 me a (sz a) f t) g x = (if g = me \<and> in_obj sz a x then f x else vread8 t g x)"
    if "remap8 t = remap8 s" for f t
    using p [of x me] p [of x g] g me by (auto simp: vread8_vfill8 that in_obj_def)
  show ?thesis
  proof (cases "backup8 s h a")
    case (Some v)
    then have "version8 s h a = block_bytes s v" by (simp add: version8_def)
    then show ?thesis using c(1) Some by (simp add: update_obj_from8_def find_backup [OF s h a] fill)
  next
    case None
    then have v: "version8 s h a = obj_bytes8 s h a" by (simp add: version8_def)
    let ?t = "memcpy8 me a h a (sz a) s"
    have t: "vread8 ?t g' x = (if g' = me \<and> in_obj sz a x then version8 s h a (x - a) else vread8 s g' x)" if "g' \<le> 3" for g' x
      using p [of x me] p [of x g'] that me
      by (auto simp: memcpy8_def vread8_vfill8 in_obj_def v obj_bytes8_def)
    have z: "16 \<le> sz a" using layout8D(1) [OF solidD(2) [OF s] a] .
    have f: "stm_flags8 ?t me a = load32 (version8 s h a) 0"
      unfolding stm_flags8_def load32_shift [of _ a] using t [OF me] z by (intro load32_cong) (simp add: in_obj_def)
    have st: "vread8 (set_stm_flags8 me a w ?t) g x =
      (if g = me \<and> a \<le> x \<and> x < a + 4 then byte_of32 w (x - a) else vread8 ?t g x)" for w
      using p [of x me] p [of x g] g me z
      by (auto simp: set_stm_flags8_def vread8_vfill8 memcpy8_def in_obj_def)
    have "vread8 (update_obj_from8 X me h a s) g x = vread8 (set_stm_flags8 me a (load32 (version8 s h a) 0) ?t) g x"
      using None c(2) by (simp add: update_obj_from8_def find_backup [OF s h a] obj_size8_def Let_def f or_has_flag [OF c(3)])
    also have "\<dots> = (if g = me \<and> in_obj sz a x then version8 s h a (x - a) else vread8 s g x)"
      unfolding st using t [OF g, of x] z byte_of32_load32 [of "x - a" "version8 s h a" 0]
      by (auto simp: in_obj_def)
    finally show ?thesis .
  qed
qed

section \<open>Steps that drop backups\<close>

text \<open>A step that maps no page anew, only takes entries out of the trees, and makes all bytes of
  objects those of some version.\<close>

definition page_maps8 :: "stm8 \<Rightarrow> stm8 \<Rightarrow> bool" where
  "page_maps8 s t \<longleftrightarrow> remap8 t = remap8 s \<and> by_segment8 t = by_segment8 s \<and>
     uninitialized_page_start8 t = uninitialized_page_start8 s"

lemma maps8_cong: "page_maps8 s t \<Longrightarrow> maps8 sz objs t = maps8 sz objs s"
  by (simp add: page_maps8_def maps8_def old_page8_def mapped8_def is_shared_log_page_def)

lemma owned8_cong: "page_maps8 s t \<Longrightarrow> owned8 sz t a = owned8 sz s a"
  by (simp add: page_maps8_def owned8_def private8_def)

lemma content8_step:
  assumes c: "content8 X sz objs s" and cb: "cb_ok8 X" and l: "layout8 sz objs"
    and v: "\<And>g a. g \<le> 3 \<Longrightarrow> a \<in> objs \<Longrightarrow> \<exists>h \<le> 3. \<forall>i < sz a. version8 t g a i = version8 s h a i"
    and o: "\<And>g a. g \<le> 3 \<Longrightarrow> a \<in> objs \<Longrightarrow> (\<exists>h \<le> 3. \<forall>i < sz a. obj_bytes8 t g a i = version8 s h a i) \<or>
      (\<forall>i < sz a. obj_bytes8 t g a i = obj_bytes8 s g a i)"
  shows "content8 X sz objs t"
  unfolding content8_def
proof (intro ballI allI impI conjI)
  fix a g assume a: "a \<in> objs" and g: "g \<le> (3::nat)"
  obtain h where h: "h \<le> 3" "\<And>i. i < sz a \<Longrightarrow> version8 t g a i = version8 s h a i" using v [OF g a] by blast
  show "stmcb_size_rounded_up8 X (version8 t g a) = sz a"
    by (rule cb_ok8D [OF cb contentD(1) [OF c a h(1)] h(2)])
  have "load32 (version8 t g a) 0 = load32 (version8 s h a) 0"
    using layout8D(1) [OF l a] h(2) by (intro load32_cong) simp
  then show "WB8_in (load32 (version8 t g a) 0)" using contentD(3) [OF c a h(1)] by simp
  show "stmcb_size_rounded_up8 X (obj_bytes8 t g a) = sz a"
    using o [OF g a] cb_ok8D [OF cb contentD(1) [OF c a]] cb_ok8D [OF cb contentD(2) [OF c a g]] by metis
qed

lemma solid8_content:
  assumes s: "solid8 X sz objs s" and p: "page_maps8 s t" and cl: "commit_log t = commit_log s"
    and inv: "\<And>g. g \<le> 3 \<Longrightarrow> tree_inv8 (mods8 t g)"
    and sub: "\<And>g k v. g \<le> 3 \<Longrightarrow> tree_map8 (mods8 t g) k = Some v \<Longrightarrow> tree_map8 (mods8 s g) k = Some v"
    and blk: "\<And>g k v. g \<le> 3 \<Longrightarrow> tree_map8 (mods8 t g) k = Some v \<Longrightarrow> blocks t v = blocks s v"
    and c: "content8 X sz objs t"
  shows "solid8 X sz objs t"
  unfolding solid8_def
proof (intro conjI)
  note d = solidD [OF s]
  show "cb_ok8 X" "layout8 sz objs" by (fact d)+
  show "maps8 sz objs t" using d(3) by (simp add: maps8_cong [OF p])
  show "log_ok8 sz objs t" using d(6) by (simp add: log_ok8_def cl owned8_cong [OF p])
  show "content8 X sz objs t" by (rule c)
  show "apart8 t" using d(5) sub unfolding apart8_def by metis
  show "trees_ok8 sz objs t"
    unfolding trees_ok8_def owned8_cong [OF p]
  proof (intro conjI allI impI)
    fix g assume g: "g \<le> (3::nat)"
    show "tree_inv8 (mods8 t g)" by (rule inv [OF g])
    fix k v assume kv: "tree_map8 (mods8 t g) k = Some v"
    show "\<exists>a \<in> objs. k = of_nat a \<and> owned8 sz s a" by (rule trees_okD(2) [OF d(4) g sub [OF g kv]])
    show "blocks t v \<noteq> None" using trees_okD(3) [OF d(4) g sub [OF g kv]] blk [OF g kv] by simp
  qed
qed

lemma solid8_shrink:
  assumes s: "solid8 X sz objs s" and p: "page_maps8 s t" and cl: "commit_log t = commit_log s"
    and inv: "\<And>g. g \<le> 3 \<Longrightarrow> tree_inv8 (mods8 t g)"
    and sub: "\<And>g k v. g \<le> 3 \<Longrightarrow> tree_map8 (mods8 t g) k = Some v \<Longrightarrow> tree_map8 (mods8 s g) k = Some v"
    and blk: "\<And>g k v. g \<le> 3 \<Longrightarrow> tree_map8 (mods8 t g) k = Some v \<Longrightarrow> blocks t v = blocks s v"
    and v: "\<And>g a. g \<le> 3 \<Longrightarrow> a \<in> objs \<Longrightarrow> \<exists>h \<le> 3. \<forall>i < sz a. version8 t g a i = version8 s h a i"
    and o: "\<And>g a. g \<le> 3 \<Longrightarrow> a \<in> objs \<Longrightarrow> (\<exists>h \<le> 3. \<forall>i < sz a. obj_bytes8 t g a i = version8 s h a i) \<or>
      (\<forall>i < sz a. obj_bytes8 t g a i = obj_bytes8 s g a i)"
  shows "solid8 X sz objs t"
  by (rule solid8_content [OF s p cl inv sub blk content8_step [OF solidD(7,1,2) [OF s] v o]])

section \<open>Replaying one object\<close>

lemma drop_own_backup8_frame [simp]:
  "mem8 (drop_own_backup8 me a s) = mem8 s" "remap8 (drop_own_backup8 me a s) = remap8 s"
  "by_segment8 (drop_own_backup8 me a s) = by_segment8 s" "rm8 (drop_own_backup8 me a s) = rm8 s"
  "uninitialized_page_start8 (drop_own_backup8 me a s) = uninitialized_page_start8 s"
  "commit_log (drop_own_backup8 me a s) = commit_log s" "log_taken (drop_own_backup8 me a s) = log_taken s"
  "tls8 (drop_own_backup8 me a s) = tls8 s"
  by (auto simp: drop_own_backup8_def upd_seg8_def free_block_def split: option.splits)

lemma drop_own_backup8_segs:
  "segs8 (drop_own_backup8 me a s) g = (segs8 s g)\<lparr>modified_old_objects8 := mods8 (drop_own_backup8 me a s) g\<rparr>"
  by (auto simp: drop_own_backup8_def upd_seg8_def free_block_def split: option.splits)

lemma drop_own_backup8_map:
  assumes inv: "\<And>g. g \<le> 3 \<Longrightarrow> tree_inv8 (mods8 s g)" and k: "(of_nat a :: u64) \<noteq> 0" and me: "me \<le> 3" and g: "g \<le> 3"
  shows "tree_inv8 (mods8 (drop_own_backup8 me a s) g)"
    and "tree_map8 (mods8 (drop_own_backup8 me a s) g) =
      (if g = me then (tree_map8 (mods8 s g))(of_nat a := None) else tree_map8 (mods8 s g))"
    and "blocks (drop_own_backup8 me a s) w = (if backup8 s me a = Some w then None else blocks s w)"
proof -
  note d = tree_delete8_map [OF inv [OF me] k]
  have f: "tree_find8 (mods8 s me) (of_nat a) = backup8 s me a"
    using tree_find8_map [OF inv [OF me] k] by (simp add: backup8_def)
  show "tree_inv8 (mods8 (drop_own_backup8 me a s) g)"
    using d inv [OF g] by (auto simp: drop_own_backup8_def upd_seg8_def free_block_def split: option.splits)
  show "blocks (drop_own_backup8 me a s) w = (if backup8 s me a = Some w then None else blocks s w)"
    using f by (auto simp: drop_own_backup8_def upd_seg8_def free_block_def split: option.splits)
  show "tree_map8 (mods8 (drop_own_backup8 me a s) g) =
      (if g = me then (tree_map8 (mods8 s g))(of_nat a := None) else tree_map8 (mods8 s g))"
    using d f by (auto simp: drop_own_backup8_def upd_seg8_def free_block_def backup8_def fun_eq_iff split: option.splits)
qed

lemma update_obj_from8_frame [simp]:
  "remap8 (update_obj_from8 X me h a s) = remap8 s" "by_segment8 (update_obj_from8 X me h a s) = by_segment8 s"
  "rm8 (update_obj_from8 X me h a s) = rm8 s" "segs8 (update_obj_from8 X me h a s) = segs8 s"
  "blocks (update_obj_from8 X me h a s) = blocks s" "commit_log (update_obj_from8 X me h a s) = commit_log s"
  "log_taken (update_obj_from8 X me h a s) = log_taken s" "tls8 (update_obj_from8 X me h a s) = tls8 s"
  "uninitialized_page_start8 (update_obj_from8 X me h a s) = uninitialized_page_start8 s"
  using update_obj_from8_mem [of X me h a s] by auto

text \<open>Two states that have the same segments and read markers.\<close>

definition same_reads8 :: "stm8 \<Rightarrow> stm8 \<Rightarrow> bool" where
  "same_reads8 s t \<longleftrightarrow> rm8 t = rm8 s \<and>
     (\<forall>g. transaction_read_version8 (segs8 t g) = transaction_read_version8 (segs8 s g))"

lemma was_read_cong: "same_reads8 s t \<Longrightarrow> stm_was_read g a t = stm_was_read g a s"
  by (simp add: same_reads8_def stm_was_read_def)

text \<open>The state after one object of an entry was replayed.\<close>

definition object_replayed :: "ext8 \<Rightarrow> nat \<Rightarrow> nat \<Rightarrow> nat \<Rightarrow> stm8 \<Rightarrow> stm8" where
  "object_replayed X me h a s = snd (replay_object8 X me h a (False, s))"

lemma replay_object8_eq:
  "replay_object8 X me h a (na, s) = (na \<or> stm_was_read me a s, object_replayed X me h a s)"
  by (simp add: replay_object8_def object_replayed_def Let_def stm_was_read_def)

lemma object_replayed_cases:
  "object_replayed X me h a s = (if stm_was_read me a s
     then drop_own_backup8 me a (update_obj_from8 X me h a s) else update_obj_from8 X me h a s)"
  by (simp add: object_replayed_def replay_object8_def Let_def stm_was_read_def)

lemma object_replayed_frame [simp]:
  "remap8 (object_replayed X me h a s) = remap8 s" "by_segment8 (object_replayed X me h a s) = by_segment8 s"
  "rm8 (object_replayed X me h a s) = rm8 s" "commit_log (object_replayed X me h a s) = commit_log s"
  "log_taken (object_replayed X me h a s) = log_taken s" "tls8 (object_replayed X me h a s) = tls8 s"
  "uninitialized_page_start8 (object_replayed X me h a s) = uninitialized_page_start8 s"
  by (simp_all add: object_replayed_cases)

lemma object_replayed_segs:
  "segs8 (object_replayed X me h a s) g = (segs8 s g)\<lparr>modified_old_objects8 := mods8 (object_replayed X me h a s) g\<rparr>"
  unfolding object_replayed_cases using drop_own_backup8_segs [of me a "update_obj_from8 X me h a s" g] by simp

lemma solid8_mem:
  assumes s: "solid8 X sz objs s" and m: "t = s\<lparr>mem8 := m\<rparr>"
    and v: "\<And>g a. g \<le> 3 \<Longrightarrow> a \<in> objs \<Longrightarrow> \<exists>h \<le> 3. \<forall>i < sz a. version8 t g a i = version8 s h a i"
    and o: "\<And>g a. g \<le> 3 \<Longrightarrow> a \<in> objs \<Longrightarrow> (\<exists>h \<le> 3. \<forall>i < sz a. obj_bytes8 t g a i = version8 s h a i) \<or>
      (\<forall>i < sz a. obj_bytes8 t g a i = obj_bytes8 s g a i)"
  shows "solid8 X sz objs t"
  by (rule solid8_shrink [OF s _ _ _ _ _ v o])
    (use trees_okD(1) [OF solidD(4) [OF s]] in \<open>simp_all add: m page_maps8_def\<close>)

lemma object_replayed_map:
  assumes s: "solid8 X sz objs s" and r: "readers8 objs me s" and a: "a \<in> objs" and me: "me \<le> 3" and g: "g \<le> 3"
  shows "tree_inv8 (mods8 (object_replayed X me h a s) g)"
    and "tree_map8 (mods8 (object_replayed X me h a s) g) =
      (if g = me then (tree_map8 (mods8 s g))(of_nat a := None) else tree_map8 (mods8 s g))"
    and "blocks (object_replayed X me h a s) w = (if backup8 s me a = Some w then None else blocks s w)"
proof -
  let ?u = "update_obj_from8 X me h a s"
  have inv: "tree_inv8 (mods8 ?u g)" if "g \<le> 3" for g using trees_okD(1) [OF solidD(4) [OF s] that] by simp
  have u: "backup8 ?u me a = backup8 s me a" by (simp add: backup8_def)
  note d = drop_own_backup8_map [OF inv obj_key(2) [OF solidD(2) [OF s] a] me g]
  have n: "backup8 s me a = None" if "\<not> stm_was_read me a s" using r a that by (auto simp: readers8_def)
  show "tree_inv8 (mods8 (object_replayed X me h a s) g)"
    using d(1) inv [OF g] by (simp add: object_replayed_cases)
  show "tree_map8 (mods8 (object_replayed X me h a s) g) =
      (if g = me then (tree_map8 (mods8 s g))(of_nat a := None) else tree_map8 (mods8 s g))"
    using d(2) n by (auto simp: object_replayed_cases backup8_def fun_eq_iff)
  show "blocks (object_replayed X me h a s) w = (if backup8 s me a = Some w then None else blocks s w)"
    using d(3) n u by (auto simp: object_replayed_cases)
qed

lemma object_replayed_view:
  assumes "solid8 X sz objs s" and "a \<in> objs" and "h \<le> 3" and "me \<le> 3" and "owned8 sz s a" and "g \<le> 3"
  shows "vread8 (object_replayed X me h a s) g x =
    (if g = me \<and> in_obj sz a x then version8 s h a (x - a) else vread8 s g x)"
proof -
  have "vread8 (object_replayed X me h a s) g x = vread8 (update_obj_from8 X me h a s) g x"
    by (simp add: object_replayed_cases vread8_def)
  then show ?thesis using update_obj_from8_view [OF assms] by simp
qed

lemma object_replayed_bytes:
  assumes s: "solid8 X sz objs s" and a: "a \<in> objs" and h: "h \<le> 3" and me: "me \<le> 3" and o: "owned8 sz s a"
    and b: "b \<in> objs" and g: "g \<le> 3" and i: "i < sz b"
  shows "obj_bytes8 (object_replayed X me h a s) g b i =
    (if g = me \<and> b = a then version8 s h a i else obj_bytes8 s g b i)"
  using object_replayed_view [OF s a h me o g, of "b + i"] in_obj_offset [where sz = sz and a = b, OF i] in_obj_unique [OF solidD(2) [OF s] a b]
  by (auto simp: obj_bytes8_def)

text \<open>The segment's version of the object becomes the one of the entry's segment; nothing else changes.\<close>

lemma object_replayed_version:
  assumes s: "solid8 X sz objs s" and r: "readers8 objs me s" and a: "a \<in> objs" and h: "h \<le> 3" and me: "me \<le> 3"
    and o: "owned8 sz s a" and b: "b \<in> objs" and g: "g \<le> 3" and i: "i < sz b"
  shows "version8 (object_replayed X me h a s) g b i =
    (if g = me \<and> b = a then version8 s h a i else version8 s g b i)"
proof -
  let ?t = "object_replayed X me h a s"
  note m = object_replayed_map [OF s r a me, where h = h]
  have bk: "backup8 ?t g b = (if g = me \<and> b = a then None else backup8 s g b)"
    using m(2) [OF g] obj_key_inj [OF solidD(2) [OF s] b a] by (auto simp: backup8_def)
  have bl: "block_bytes ?t v = block_bytes s v" if "backup8 s g b = Some v" "\<not> (g = me \<and> b = a)" for v
  proof -
    have "backup8 s me a \<noteq> Some v"
    proof
      assume "backup8 s me a = Some v"
      then have "g = me \<and> (of_nat b :: u64) = of_nat a"
        using that(1) solidD(5) [OF s] g me unfolding apart8_def backup8_def by blast
      then show False using that(2) obj_key_inj [OF solidD(2) [OF s] b a] by simp
    qed
    then show ?thesis using m(3) [OF g, of v] by (simp add: block_bytes_def)
  qed
  show ?thesis
    using bk bl object_replayed_bytes [OF s a h me o b g i]
    by (cases "backup8 s g b") (auto simp: version8_def)
qed

lemma object_replayed_solid:
  assumes s: "solid8 X sz objs s" and r: "readers8 objs me s" and a: "a \<in> objs" and h: "h \<le> 3" and me: "me \<le> 3"
    and o: "owned8 sz s a"
  shows "solid8 X sz objs (object_replayed X me h a s)"
proof (rule solid8_shrink [OF s])
  let ?t = "object_replayed X me h a s"
  note m = object_replayed_map [OF s r a me, where h = h]
  show "page_maps8 s ?t" "commit_log ?t = commit_log s" by (simp_all add: page_maps8_def)
  fix g assume g: "g \<le> (3::nat)"
  show "tree_inv8 (mods8 ?t g)" by (rule m(1) [OF g])
  show sub: "tree_map8 (mods8 s g) k = Some v" if "tree_map8 (mods8 ?t g) k = Some v" for k v
    using that m(2) [OF g] by (auto split: if_splits)
  show "blocks ?t v = blocks s v" if kv: "tree_map8 (mods8 ?t g) k = Some v" for k v
  proof -
    have "backup8 s me a \<noteq> Some v"
    proof
      assume "backup8 s me a = Some v"
      then have "g = me \<and> k = of_nat a"
        using sub [OF kv] solidD(5) [OF s] g me unfolding apart8_def backup8_def by blast
      then show False using kv m(2) [OF g] by simp
    qed
    then show ?thesis using m(3) [OF g, of v] by simp
  qed
  fix b assume b: "b \<in> objs"
  show "\<exists>h \<le> 3. \<forall>i < sz b. version8 ?t g b i = version8 s h b i"
    using object_replayed_version [OF s r a h me o b g] g h by (cases "g = me \<and> b = a") auto
  show "(\<exists>h \<le> 3. \<forall>i < sz b. obj_bytes8 ?t g b i = version8 s h b i) \<or> (\<forall>i < sz b. obj_bytes8 ?t g b i = obj_bytes8 s g b i)"
    using object_replayed_bytes [OF s a h me o b g] h by (cases "g = me \<and> b = a") auto
qed

lemma object_replayed_readers:
  assumes s: "solid8 X sz objs s" and r: "readers8 objs me s" "readers8 objs g s" and a: "a \<in> objs" and me: "me \<le> 3" and g: "g \<le> 3"
  shows "readers8 objs g (object_replayed X me h a s)" and "same_reads8 s (object_replayed X me h a s)"
proof -
  have "transaction_read_version8 (segs8 (object_replayed X me h a s) g) = transaction_read_version8 (segs8 s g)" for g
    using arg_cong [OF object_replayed_segs, of transaction_read_version8 X me h a s g] by simp
  then show sr: "same_reads8 s (object_replayed X me h a s)" by (simp add: same_reads8_def)
  show "readers8 objs g (object_replayed X me h a s)"
    using r(2) object_replayed_map(2) [OF s r(1) a me g, where h = h]
    by (auto simp: readers8_def was_read_cong [OF sr] backup8_def split: if_splits)
qed

end
