(* ===== verification/C8validate.thy ===== *)
theory C8validate
  imports C8replay
begin

text \<open>
  Validation, abort and commit in \<open>c8\<close> keep the invariant \<open>coherent8\<close>, also when other
  threads run in between. What those may do is the rely condition \<open>rely8\<close>.
\<close>

section \<open>Replaying an entry\<close>

lemma upd_seg8_simps [simp]:
  "segs8 (upd_seg8 g f s) = (segs8 s)(g := f (segs8 s g))" "mem8 (upd_seg8 g f s) = mem8 s"
  "remap8 (upd_seg8 g f s) = remap8 s" "rm8 (upd_seg8 g f s) = rm8 s" "by_segment8 (upd_seg8 g f s) = by_segment8 s"
  "blocks (upd_seg8 g f s) = blocks s" "commit_log (upd_seg8 g f s) = commit_log s"
  "log_taken (upd_seg8 g f s) = log_taken s" "tls8 (upd_seg8 g f s) = tls8 s" "clock8 (upd_seg8 g f s) = clock8 s"
  "uninitialized_page_start8 (upd_seg8 g f s) = uninitialized_page_start8 s"
  by (simp_all add: upd_seg8_def)

lemma page_maps8_refl: "page_maps8 s s" and page_maps8_trans: "page_maps8 s t \<Longrightarrow> page_maps8 t u \<Longrightarrow> page_maps8 s u"
  by (simp_all add: page_maps8_def)

text \<open>Two states whose segments differ in their trees of modified objects only.\<close>

definition bare8 :: "pseg8 \<Rightarrow> pseg8" where
  "bare8 p = p\<lparr>modified_old_objects8 := tree_create8\<rparr>"

lemma bare8_fields:
  assumes "bare8 p = bare8 q"
  shows "transaction_read_version8 p = transaction_read_version8 q" "last_commit_log_entry p = last_commit_log_entry q"
    "transaction_state8 p = transaction_state8 q" "running_thread8 p = running_thread8 q" "nursery_end8 p = nursery_end8 q"
    "safe_point8 p = safe_point8 q"
proof -
  have *: "f p = f q" if "\<And>r m. f (r\<lparr>modified_old_objects8 := m\<rparr>) = f r" for f :: "pseg8 \<Rightarrow> 'b"
    using assms that unfolding bare8_def by metis
  show "transaction_read_version8 p = transaction_read_version8 q" "last_commit_log_entry p = last_commit_log_entry q"
    "transaction_state8 p = transaction_state8 q" "running_thread8 p = running_thread8 q" "nursery_end8 p = nursery_end8 q"
    "safe_point8 p = safe_point8 q" by (rule *, simp)+
qed

lemma bare8_upd: "segs8 t g = (segs8 s g)\<lparr>modified_old_objects8 := m\<rparr> \<Longrightarrow> bare8 (segs8 t g) = bare8 (segs8 s g)"
  by (simp add: bare8_def)

text \<open>What replaying the objects \<open>W\<close> from segment \<open>h\<close> does.\<close>

definition replays8 :: "ext8 \<Rightarrow> (nat \<Rightarrow> nat) \<Rightarrow> nat set \<Rightarrow> nat \<Rightarrow> nat \<Rightarrow> nat set \<Rightarrow> stm8 \<Rightarrow> stm8 \<Rightarrow> bool" where
  "replays8 X sz objs me h W s t \<longleftrightarrow> solid8 X sz objs t \<and> (\<forall>g \<le> 3. readers8 objs g t) \<and> same_reads8 s t \<and>
     page_maps8 s t \<and> commit_log t = commit_log s \<and> log_taken t = log_taken s \<and>
     (\<forall>g. bare8 (segs8 t g) = bare8 (segs8 s g)) \<and>
     (\<forall>g \<le> 3. \<forall>b \<in> objs. backup8 t g b = (if g = me \<and> b \<in> W then None else backup8 s g b)) \<and>
     (\<forall>g \<le> 3. \<forall>b \<in> objs. \<forall>i < sz b.
        version8 t g b i = (if g = me \<and> b \<in> W then version8 s h b i else version8 s g b i) \<and>
        obj_bytes8 t g b i = (if g = me \<and> b \<in> W then version8 s h b i else obj_bytes8 s g b i))"

lemma replays8D:
  assumes "replays8 X sz objs me h W s t"
  shows "solid8 X sz objs t" and "g \<le> 3 \<Longrightarrow> readers8 objs g t" and "same_reads8 s t" and "page_maps8 s t"
    and "commit_log t = commit_log s" and "log_taken t = log_taken s"
    and "bare8 (segs8 t g) = bare8 (segs8 s g)"
    and "g \<le> 3 \<Longrightarrow> b \<in> objs \<Longrightarrow> backup8 t g b = (if g = me \<and> b \<in> W then None else backup8 s g b)"
    and "g \<le> 3 \<Longrightarrow> b \<in> objs \<Longrightarrow> i < sz b \<Longrightarrow>
      version8 t g b i = (if g = me \<and> b \<in> W then version8 s h b i else version8 s g b i)"
    and "g \<le> 3 \<Longrightarrow> b \<in> objs \<Longrightarrow> i < sz b \<Longrightarrow>
      obj_bytes8 t g b i = (if g = me \<and> b \<in> W then version8 s h b i else obj_bytes8 s g b i)"
  using assms unfolding replays8_def by blast+

lemma replays8_one:
  assumes s: "solid8 X sz objs s" and r: "\<And>g. g \<le> 3 \<Longrightarrow> readers8 objs g s" and a: "a \<in> objs" and h: "h \<le> 3"
    and me: "me \<le> 3" and o: "owned8 sz s a"
  shows "replays8 X sz objs me h {a} s (object_replayed X me h a s)"
  unfolding replays8_def
proof (intro conjI allI impI ballI)
  note rd = object_replayed_readers [OF s r [OF me] r a me]
  show "solid8 X sz objs (object_replayed X me h a s)" by (rule object_replayed_solid [OF s r [OF me] a h me o])
  show "same_reads8 s (object_replayed X me h a s)" by (rule rd(2) [OF me me])
  show "readers8 objs g (object_replayed X me h a s)" if "g \<le> 3" for g by (rule rd(1) [OF that that])
  show "page_maps8 s (object_replayed X me h a s)" "commit_log (object_replayed X me h a s) = commit_log s"
    "log_taken (object_replayed X me h a s) = log_taken s" by (simp_all add: page_maps8_def)
  show "bare8 (segs8 (object_replayed X me h a s) g) = bare8 (segs8 s g)" for g
    by (rule bare8_upd [OF object_replayed_segs])
  fix g b assume g: "g \<le> (3::nat)" and b: "b \<in> objs"
  show "backup8 (object_replayed X me h a s) g b = (if g = me \<and> b \<in> {a} then None else backup8 s g b)"
    using object_replayed_map(2) [OF s r [OF me] a me g, where h = h] obj_key_inj [OF solidD(2) [OF s] b a]
    by (auto simp: backup8_def)
  fix i assume i: "i < sz b"
  show "version8 (object_replayed X me h a s) g b i =
      (if g = me \<and> b \<in> {a} then version8 s h b i else version8 s g b i)"
    using object_replayed_version [OF s r [OF me] a h me o b g i] by auto
  show "obj_bytes8 (object_replayed X me h a s) g b i =
      (if g = me \<and> b \<in> {a} then version8 s h b i else obj_bytes8 s g b i)"
    using object_replayed_bytes [OF s a h me o b g i] by auto
qed

lemma replays8_trans:
  assumes st: "replays8 X sz objs me h V s t" and tu: "replays8 X sz objs me h W t u" and h: "h \<le> 3"
  shows "replays8 X sz objs me h (V \<union> W) s u"
  unfolding replays8_def
proof (intro conjI allI impI ballI)
  note a = replays8D [OF st] and b = replays8D [OF tu]
  show "solid8 X sz objs u" "\<And>g. g \<le> 3 \<Longrightarrow> readers8 objs g u" using b(1,2) by blast+
  show "same_reads8 s u" using a(3) b(3) by (simp add: same_reads8_def)
  show "page_maps8 s u" "commit_log u = commit_log s" "log_taken u = log_taken s"
    using page_maps8_trans [OF a(4) b(4)] a(5,6) b(5,6) by simp_all
  show "bare8 (segs8 u g) = bare8 (segs8 s g)" for g using b(7) [of g] a(7) [of g] by simp
  fix g o' assume g: "g \<le> (3::nat)" and o: "o' \<in> objs"
  show "backup8 u g o' = (if g = me \<and> o' \<in> V \<union> W then None else backup8 s g o')"
    using a(8) [OF g o] b(8) [OF g o] by auto
  fix i assume i: "i < sz o'"
  show "version8 u g o' i = (if g = me \<and> o' \<in> V \<union> W then version8 s h o' i else version8 s g o' i)"
    using a(9) [OF g o i] a(9) [OF h o i] b(9) [OF g o i] by auto
  show "obj_bytes8 u g o' i = (if g = me \<and> o' \<in> V \<union> W then version8 s h o' i else obj_bytes8 s g o' i)"
    using a(10) [OF g o i] a(9) [OF h o i] b(10) [OF g o i] by auto
qed

lemma replays8_none:
  assumes "solid8 X sz objs s" and "\<And>g. g \<le> 3 \<Longrightarrow> readers8 objs g s"
  shows "replays8 X sz objs me h {} s s"
  using assms by (simp add: replays8_def same_reads8_def page_maps8_def)

lemma replay_list8:
  "solid8 X sz objs s \<Longrightarrow> (\<And>g. g \<le> 3 \<Longrightarrow> readers8 objs g s) \<Longrightarrow> (\<And>a. a \<in> set W \<Longrightarrow> a \<in> objs \<and> owned8 sz s a) \<Longrightarrow>
   h \<le> 3 \<Longrightarrow> me \<le> 3 \<Longrightarrow>
   \<exists>t. fold (replay_object8 X me h) W (na, s) = (na \<or> (\<exists>a \<in> set W. stm_was_read me a s), t) \<and>
     replays8 X sz objs me h (set W) s t"
proof (induction W arbitrary: s na)
  case Nil
  then show ?case using replays8_none [of X sz objs s me h] by simp
next
  case (Cons a W)
  let ?t = "object_replayed X me h a s"
  have a: "a \<in> objs" "owned8 sz s a" using Cons.prems(3) by auto
  note one = replays8_one [OF Cons.prems(1,2) a(1) Cons.prems(4,5) a(2)]
  note d = replays8D [OF one]
  have w: "b \<in> set W \<Longrightarrow> b \<in> objs \<and> owned8 sz ?t b" for b
    using Cons.prems(3) [of b] owned8_cong [OF d(4)] by simp
  obtain u where u: "fold (replay_object8 X me h) W (na \<or> stm_was_read me a s, ?t) =
      ((na \<or> stm_was_read me a s) \<or> (\<exists>b \<in> set W. stm_was_read me b ?t), u)" "replays8 X sz objs me h (set W) ?t u"
    using Cons.IH [of ?t "na \<or> stm_was_read me a s"] d(1,2) w Cons.prems(4,5) by blast
  have "replays8 X sz objs me h (set (a # W)) s u"
    using replays8_trans [OF one u(2) Cons.prems(4)] by simp
  moreover have "fold (replay_object8 X me h) (a # W) (na, s) = (na \<or> (\<exists>b \<in> set (a # W). stm_was_read me b s), u)"
    using u(1) by (auto simp: replay_object8_eq was_read_cong [OF d(3)])
  ultimately show ?case by blast
qed

section \<open>States that agree on the heap\<close>

definition same_heap8 :: "stm8 \<Rightarrow> stm8 \<Rightarrow> bool" where
  "same_heap8 s t \<longleftrightarrow> mem8 t = mem8 s \<and> blocks t = blocks s \<and> commit_log t = commit_log s \<and> page_maps8 s t \<and>
     same_reads8 s t \<and> (\<forall>g. mods8 t g = mods8 s g \<and> positions8 t g = positions8 s g)"

lemma same_heapD:
  assumes "same_heap8 s t"
  shows "backup8 t g a = backup8 s g a" and "obj_bytes8 t g a = obj_bytes8 s g a" and "version8 t g a = version8 s g a"
    and "readers8 objs g t = readers8 objs g s" and "positions8 t = positions8 s"
proof -
  have r: "same_reads8 s t" using assms by (simp add: same_heap8_def)
  show b: "backup8 t g a = backup8 s g a" for g a using assms by (simp add: same_heap8_def backup8_def)
  show o: "obj_bytes8 t g a = obj_bytes8 s g a"
    using assms by (simp add: same_heap8_def page_maps8_def obj_bytes8_def vread8_def fun_eq_iff)
  show "version8 t g a = version8 s g a"
    using assms b o by (auto simp: same_heap8_def version8_def block_bytes_def split: option.splits)
  show "readers8 objs g t = readers8 objs g s" using b by (simp add: readers8_def was_read_cong [OF r])
  show "positions8 t = positions8 s" using assms by (simp add: same_heap8_def fun_eq_iff)
qed

lemma coherent8_same_heap:
  assumes h: "same_heap8 s t" and c: "coherent8 X sz objs s"
  shows "coherent8 X sz objs t"
proof -
  note d = same_heapD [OF h]
  have s: "solid8 X sz objs s" using c by (simp add: coherent8_def)
  have p: "page_maps8 s t" "commit_log t = commit_log s" "blocks t = blocks s" "\<And>g. mods8 t g = mods8 s g"
    using h by (simp_all add: same_heap8_def)
  have "solid8 X sz objs t"
    by (rule solid8_shrink [OF s p(1,2)])
      (use trees_okD(1) [OF solidD(4) [OF s]] d in \<open>auto simp: p(3,4)\<close>)
  moreover have "version8 t = version8 s" by (intro ext) (simp add: d(3))
  ultimately show ?thesis using c d(4,5) p(2) by (simp add: coherent8_def)
qed

lemma same_heap8_upd_seg8:
  assumes "\<And>p. modified_old_objects8 (f p) = modified_old_objects8 p" and "\<And>p. last_commit_log_entry (f p) = last_commit_log_entry p"
    and "\<And>p. transaction_read_version8 (f p) = transaction_read_version8 p"
  shows "same_heap8 s (upd_seg8 g f s)"
  using assms by (simp add: same_heap8_def page_maps8_def same_reads8_def)

lemma same_heap8_refl: "same_heap8 s s" and same_heap8_trans: "same_heap8 s t \<Longrightarrow> same_heap8 t u \<Longrightarrow> same_heap8 s u"
  by (simp_all add: same_heap8_def page_maps8_def same_reads8_def)

lemma same_heap8_fields:
  "same_heap8 s (s\<lparr>clock8 := n\<rparr>)" "same_heap8 s (s\<lparr>tls8 := l\<rparr>)" "same_heap8 s (emit8 e s)" "same_heap8 s (s\<lparr>in_use8 := u\<rparr>)"
  "same_heap8 s (s\<lparr>pause_signalled8 := b\<rparr>)" "same_heap8 s (s\<lparr>globally_unique_transaction8 := b\<rparr>)"
  "same_heap8 s (s\<lparr>log_taken := b\<rparr>)"
  by (simp_all add: same_heap8_def page_maps8_def same_reads8_def emit8_def)

section \<open>What other threads may do\<close>

definition written_between :: "log_entry list \<Rightarrow> nat \<Rightarrow> nat \<Rightarrow> nat set" where
  "written_between log p q = (\<Union>k \<in> {p..<q}. set (written (log ! k)))"

text \<open>
  The log grows, the segment replays a part of it, and keeps what it has of the objects that
  are not written there.
\<close>

definition advance8 :: "(nat \<Rightarrow> nat) \<Rightarrow> nat set \<Rightarrow> nat \<Rightarrow> stm8 \<Rightarrow> stm8 \<Rightarrow> bool" where
  "advance8 sz objs me s t \<longleftrightarrow> (\<exists>new. commit_log t = commit_log s @ new) \<and>
     positions8 s me \<le> positions8 t me \<and> positions8 t me \<le> length (commit_log t) \<and> rm8 t me = rm8 s me \<and>
     transaction_read_version8 (segs8 t me) = transaction_read_version8 (segs8 s me) \<and>
     transaction_state8 (segs8 t me) = transaction_state8 (segs8 s me) \<and>
     (\<forall>b \<in> objs. backup8 t me b = None \<or> backup8 t me b = backup8 s me b) \<and>
     (\<forall>b \<in> objs - written_between (commit_log t) (positions8 s me) (positions8 t me).
        backup8 t me b = backup8 s me b \<and>
        (\<forall>i < sz b. obj_bytes8 t me b i = obj_bytes8 s me b i \<and> version8 t me b i = version8 s me b i))"

definition undisturbed8 :: "ext8 \<Rightarrow> (nat \<Rightarrow> nat) \<Rightarrow> nat set \<Rightarrow> nat \<Rightarrow> stm8 \<Rightarrow> stm8 \<Rightarrow> bool" where
  "undisturbed8 X sz objs me s t \<longleftrightarrow> coherent8 X sz objs t \<and> advance8 sz objs me s t \<and> mods8 t me = mods8 s me \<and>
     positions8 t me = positions8 s me"

definition rely8 :: "ext8 \<Rightarrow> (nat \<Rightarrow> nat) \<Rightarrow> nat set \<Rightarrow> nat \<Rightarrow> bool" where
  "rely8 X sz objs me \<longleftrightarrow> (\<forall>s n. coherent8 X sz objs s \<longrightarrow> undisturbed8 X sz objs me s (others_run8 X n s) \<and>
     (\<forall>c. undisturbed8 X sz objs me s (other_threads8 X n c s)))"

lemma coherent8_pos: "coherent8 X sz objs s \<Longrightarrow> me \<le> 3 \<Longrightarrow> positions8 s me \<le> length (commit_log s)"
  using positions_okD(1) [of "commit_log s" "positions8 s" me] by (simp add: coherent8_def)

lemma advance8_same_heap:
  assumes "same_heap8 s t" and "positions8 s me \<le> length (commit_log s)"
    and "transaction_state8 (segs8 t me) = transaction_state8 (segs8 s me)"
  shows "advance8 sz objs me s t"
  using assms same_heapD [OF assms(1)] by (simp add: advance8_def same_heap8_def same_reads8_def)

lemma written_between_append:
  "q \<le> length log \<Longrightarrow> written_between (log @ new) p q = written_between log p q"
  by (auto simp: written_between_def nth_append)

lemma written_between_split:
  "p \<le> q \<Longrightarrow> q \<le> r \<Longrightarrow> written_between log p r = written_between log p q \<union> written_between log q r"
  unfolding written_between_def by (simp add: ivl_disj_un_two(3) [of p q r, symmetric] UN_Un)

lemma advance8_trans:
  assumes st: "advance8 sz objs me s t" and tu: "advance8 sz objs me t u"
  shows "advance8 sz objs me s u"
proof -
  obtain m n where l: "commit_log t = commit_log s @ m" "commit_log u = commit_log t @ n"
    using st tu unfolding advance8_def by blast
  have p: "positions8 s me \<le> positions8 t me" "positions8 t me \<le> positions8 u me" "positions8 t me \<le> length (commit_log t)"
    using st tu by (simp_all add: advance8_def)
  have w: "written_between (commit_log u) (positions8 s me) (positions8 u me) =
      written_between (commit_log t) (positions8 s me) (positions8 t me) \<union>
      written_between (commit_log u) (positions8 t me) (positions8 u me)"
    using written_between_split [OF p(1,2)] written_between_append [OF p(3)] by (simp add: l(2))
  have "\<exists>new. commit_log u = commit_log s @ new" using l by simp
  moreover have "\<forall>b \<in> objs. backup8 u me b = None \<or> backup8 u me b = backup8 s me b"
    using st tu unfolding advance8_def by metis
  ultimately show ?thesis using st tu p unfolding advance8_def w by simp
qed

lemma undisturbed8_after:
  assumes c: "coherent8 X sz objs s" and me: "me \<le> 3" and h: "same_heap8 s t"
    and st: "transaction_state8 (segs8 t me) = transaction_state8 (segs8 s me)" and u: "undisturbed8 X sz objs me t u"
  shows "undisturbed8 X sz objs me s u"
  using advance8_trans [OF advance8_same_heap [OF h coherent8_pos [OF c me] st]] u h
  by (simp add: undisturbed8_def same_heap8_def)

lemma interleave8_undisturbed:
  assumes c: "coherent8 X sz objs s" and r: "rely8 X sz objs me" and me: "me \<le> 3"
  shows "undisturbed8 X sz objs me s (interleave8 X s)"
proof -
  let ?t = "s\<lparr>clock8 := Suc (clock8 s)\<rparr>"
  have h: "same_heap8 s ?t" by (rule same_heap8_fields)
  have "undisturbed8 X sz objs me ?t (interleave8 X s)"
    using r coherent8_same_heap [OF h c] unfolding rely8_def interleave8_def by blast
  then show ?thesis by (rule undisturbed8_after [OF c me h, rotated]) simp
qed

lemma cond_wait8_undisturbed:
  assumes c: "coherent8 X sz objs s" and r: "rely8 X sz objs me" and me: "me \<le> 3"
  shows "undisturbed8 X sz objs me s (cond_wait8 X c' s)"
proof -
  let ?t = "s\<lparr>clock8 := Suc (clock8 s)\<rparr>"
  have h: "same_heap8 s ?t" by (rule same_heap8_fields)
  have "undisturbed8 X sz objs me ?t (cond_wait8 X c' s)"
    using r coherent8_same_heap [OF h c] unfolding rely8_def cond_wait8_def by blast
  then show ?thesis by (rule undisturbed8_after [OF c me h, rotated]) simp
qed

section \<open>Loops over the write set\<close>

text \<open>
  An abort and a commit both go over the items of the tree: the backup is freed, and the bytes
  of the object are set, to the backup or to what they are.
\<close>

definition writes_back :: "nat \<Rightarrow> (nat \<Rightarrow> nat) \<Rightarrow> nat set \<Rightarrow> (u64 \<times> u64 \<Rightarrow> stm8 \<Rightarrow> stm8) \<Rightarrow>
    (stm8 \<Rightarrow> nat \<Rightarrow> u64 \<Rightarrow> nat \<Rightarrow> u8) \<Rightarrow> stm8 \<Rightarrow> bool" where
  "writes_back g sz objs f new s0 \<longleftrightarrow> (\<forall>s a v. a \<in> objs \<longrightarrow> owned8 sz s a \<longrightarrow> page_maps8 s0 s \<longrightarrow>
     blocks s v = blocks s0 v \<longrightarrow> (\<forall>i < sz a. obj_bytes8 s g a i = obj_bytes8 s0 g a i) \<longrightarrow>
     backup8 s0 g a = Some v \<longrightarrow>
     (\<exists>m. f (of_nat a, v) s = s\<lparr>mem8 := m, blocks := (blocks s)(v := None)\<rparr>) \<and>
     (\<forall>h \<le> 3. \<forall>x. vread8 (f (of_nat a, v) s) h x =
        (if h = g \<and> in_obj sz a x then new s0 a v (x - a) else vread8 s h x)))"

lemma writes_back_loop:
  assumes w: "writes_back g sz objs f new s0" and l: "layout8 sz objs" and g: "g \<le> 3"
  shows "page_maps8 s0 s \<Longrightarrow> distinct (map fst xs) \<Longrightarrow> distinct (map snd xs) \<Longrightarrow>
    (\<And>k v. (k, v) \<in> set xs \<Longrightarrow> \<exists>a \<in> objs. k = of_nat a \<and> owned8 sz s0 a \<and> backup8 s0 g a = Some v \<and>
       blocks s v = blocks s0 v \<and> (\<forall>i < sz a. obj_bytes8 s g a i = obj_bytes8 s0 g a i)) \<Longrightarrow>
    \<exists>m b. fold f xs s = s\<lparr>mem8 := m, blocks := b\<rparr> \<and> (\<forall>v. b v = (if v \<in> snd ` set xs then None else blocks s v)) \<and>
      (\<forall>h \<le> 3. \<forall>b \<in> objs. \<forall>i < sz b. obj_bytes8 (fold f xs s) h b i =
         (if h = g \<and> of_nat b \<in> fst ` set xs then new s0 b (the (map_of xs (of_nat b))) i else obj_bytes8 s h b i))"
proof (induction xs arbitrary: s)
  case Nil
  then show ?case by (intro exI [of _ "mem8 s"] exI [of _ "blocks s"]) simp
next
  case (Cons p xs)
  obtain k v where p: "p = (k, v)" by (cases p)
  obtain a where a: "a \<in> objs" "k = of_nat a" "owned8 sz s0 a" "backup8 s0 g a = Some v" "blocks s v = blocks s0 v"
      "\<forall>i < sz a. obj_bytes8 s g a i = obj_bytes8 s0 g a i"
    using Cons.prems(4) [of k v] p by auto
  let ?t = "f (of_nat a, v) s"
  have o: "owned8 sz s a" using a(3) owned8_cong [OF Cons.prems(1)] by simp
  have step: "\<exists>m. ?t = s\<lparr>mem8 := m, blocks := (blocks s)(v := None)\<rparr>"
    "\<And>h x. h \<le> 3 \<Longrightarrow> vread8 ?t h x = (if h = g \<and> in_obj sz a x then new s0 a v (x - a) else vread8 s h x)"
    using w a(1,4,5,6) o Cons.prems(1) unfolding writes_back_def by blast+
  then obtain m where m: "?t = s\<lparr>mem8 := m, blocks := (blocks s)(v := None)\<rparr>" by blast
  have ob: "obj_bytes8 ?t h b i = (if h = g \<and> b = a then new s0 a v i else obj_bytes8 s h b i)"
    if "h \<le> 3" "b \<in> objs" "i < sz b" for h b i
    using step(2) [OF that(1), of "b + i"] in_obj_offset [where sz = sz and a = b, OF that(3)]
      in_obj_unique [OF l a(1) that(2)] by (auto simp: obj_bytes8_def)
  have pm: "page_maps8 s0 ?t" using Cons.prems(1) unfolding m page_maps8_def by simp
  have dist: "distinct (map fst xs)" "distinct (map snd xs)" "k \<notin> fst ` set xs" "v \<notin> snd ` set xs"
    using Cons.prems(2,3) p by auto
  have rest: "\<exists>a \<in> objs. k' = of_nat a \<and> owned8 sz s0 a \<and> backup8 s0 g a = Some v' \<and>
       blocks ?t v' = blocks s0 v' \<and> (\<forall>i < sz a. obj_bytes8 ?t g a i = obj_bytes8 s0 g a i)"
    if kv: "(k', v') \<in> set xs" for k' v'
  proof -
    obtain a' where a': "a' \<in> objs" "k' = of_nat a'" "owned8 sz s0 a'" "backup8 s0 g a' = Some v'" "blocks s v' = blocks s0 v'"
      "\<forall>i < sz a'. obj_bytes8 s g a' i = obj_bytes8 s0 g a' i"
      using Cons.prems(4) [of k' v'] kv by auto
    have ne: "v' \<noteq> v" "k' \<noteq> k" using dist(3,4) kv by (force simp: image_iff)+
    then have "a' \<noteq> a" using a(2) a'(2) by blast
    then have "\<forall>i < sz a'. obj_bytes8 ?t g a' i = obj_bytes8 s0 g a' i" using ob [OF g a'(1)] a'(6) by simp
    moreover have "blocks ?t v' = blocks s0 v'" using a'(5) ne(1) unfolding m by simp
    ultimately show ?thesis using a' by blast
  qed
  obtain m' b' where ih: "fold f xs ?t = ?t\<lparr>mem8 := m', blocks := b'\<rparr>"
    "\<And>w. b' w = (if w \<in> snd ` set xs then None else blocks ?t w)"
    "\<And>h b i. h \<le> 3 \<Longrightarrow> b \<in> objs \<Longrightarrow> i < sz b \<Longrightarrow> obj_bytes8 (fold f xs ?t) h b i =
       (if h = g \<and> of_nat b \<in> fst ` set xs then new s0 b (the (map_of xs (of_nat b))) i else obj_bytes8 ?t h b i)"
    using Cons.IH [OF pm dist(1,2) rest] by metis
  have "fold f (p # xs) s = s\<lparr>mem8 := m', blocks := b'\<rparr>" using ih(1) m by (simp add: p a(2))
  moreover have "b' w = (if w \<in> snd ` set (p # xs) then None else blocks s w)" for w
    using ih(2) [of w] m p by auto
  moreover have "obj_bytes8 (fold f (p # xs) s) h b i =
     (if h = g \<and> of_nat b \<in> fst ` set (p # xs) then new s0 b (the (map_of (p # xs) (of_nat b))) i else obj_bytes8 s h b i)"
    if "h \<le> 3" "b \<in> objs" "i < sz b" for h b i
    using ih(3) [OF that] ob [OF that] dist(3) obj_key_inj [OF l that(2) a(1)] by (auto simp: p a(2))
  ultimately show ?case by blast
qed

text \<open>The loop and the clearing of the tree together; the segment has no backups afterwards.\<close>

definition after_write_set :: "nat \<Rightarrow> (u64 \<times> u64 \<Rightarrow> stm8 \<Rightarrow> stm8) \<Rightarrow> stm8 \<Rightarrow> stm8" where
  "after_write_set g f s = (let tree = mods8 s g; t = foreach_f (tree_items8 tree) f s
     in upd_seg8 g (\<lambda>p. p\<lparr>modified_old_objects8 := tree_clear8 tree\<rparr>) t)"

definition new_bytes_ok :: "ext8 \<Rightarrow> (nat \<Rightarrow> nat) \<Rightarrow> nat set \<Rightarrow> nat \<Rightarrow> (stm8 \<Rightarrow> nat \<Rightarrow> u64 \<Rightarrow> nat \<Rightarrow> u8) \<Rightarrow> stm8 \<Rightarrow> bool" where
  "new_bytes_ok X sz objs g new s \<longleftrightarrow> (\<forall>b \<in> objs. \<forall>v. backup8 s g b = Some v \<longrightarrow>
     stmcb_size_rounded_up8 X (new s b v) = sz b \<and> WB8_in (load32 (new s b v) 0))"

lemma after_write_set_bytes:
  assumes s: "solid8 X sz objs s" and g: "g \<le> 3" and w: "writes_back g sz objs f new s"
  shows "\<exists>m b. foreach_f (tree_items8 (mods8 s g)) f s = s\<lparr>mem8 := m, blocks := b\<rparr> \<and>
      (\<forall>v. b v = (if v \<in> ran (tree_map8 (mods8 s g)) then None else blocks s v)) \<and>
      (\<forall>h \<le> 3. \<forall>b \<in> objs. \<forall>i < sz b. obj_bytes8 (after_write_set g f s) h b i =
         (case backup8 s g b of Some v \<Rightarrow> if h = g then new s b v i else obj_bytes8 s h b i | None \<Rightarrow> obj_bytes8 s h b i))"
proof -
  let ?xs = "tree_items8 (mods8 s g)"
  note d = solidD [OF s]
  note inv = trees_okD(1) [OF d(4) g]
  note mp = tree_map8_Some [OF inv]
  have snds: "distinct (map snd ?xs)"
    unfolding distinct_map
  proof
    show "distinct ?xs" using distinct_items8 [OF inv] by (simp add: distinct_map)
    show "inj_on snd (set ?xs)"
      using d(5) g mp unfolding apart8_def by (intro inj_onI) (metis prod.collapse)
  qed
  have items: "\<exists>a \<in> objs. k = of_nat a \<and> owned8 sz s a \<and> backup8 s g a = Some v \<and>
       blocks s v = blocks s v \<and> (\<forall>i < sz a. obj_bytes8 s g a i = obj_bytes8 s g a i)" if "(k, v) \<in> set ?xs" for k v
    using that trees_okD(2) [OF d(4) g] mp by (auto simp: backup8_def)
  obtain m b where mb: "fold f ?xs s = s\<lparr>mem8 := m, blocks := b\<rparr>"
      "\<And>v. b v = (if v \<in> snd ` set ?xs then None else blocks s v)"
      "\<And>h b i. h \<le> 3 \<Longrightarrow> b \<in> objs \<Longrightarrow> i < sz b \<Longrightarrow> obj_bytes8 (fold f ?xs s) h b i =
         (if h = g \<and> of_nat b \<in> fst ` set ?xs then new s b (the (map_of ?xs (of_nat b))) i else obj_bytes8 s h b i)"
    using writes_back_loop [OF w d(2) g page_maps8_refl distinct_items8 [OF inv] snds items] by metis
  have rn: "ran (tree_map8 (mods8 s g)) = snd ` set ?xs"
    by (force simp: ran_def mp image_iff)
  have mo: "map_of ?xs = tree_map8 (mods8 s g)" by (simp add: tree_map8_def tree_map_def tree_items8_def)
  have keys: "k \<in> fst ` set ?xs \<longleftrightarrow> tree_map8 (mods8 s g) k \<noteq> None" for k
    using dom_tree_map8 [OF inv] by auto
  have ob: "obj_bytes8 (after_write_set g f s) h b i = obj_bytes8 (fold f ?xs s) h b i" for h b i
    by (simp add: after_write_set_def Let_def foreach_f_def obj_bytes8_def vread8_def)
  have "obj_bytes8 (after_write_set g f s) h b i =
      (case backup8 s g b of Some v \<Rightarrow> if h = g then new s b v i else obj_bytes8 s h b i | None \<Rightarrow> obj_bytes8 s h b i)"
    if "h \<le> 3" "b \<in> objs" "i < sz b" for h b i
    unfolding ob mb(3) [OF that] mo keys by (auto simp: backup8_def split: option.splits)
  then show ?thesis using mb(1,2) by (intro exI [of _ m] exI [of _ b] conjI allI impI ballI) (simp_all add: foreach_f_def rn)
qed

lemma after_write_set_solid:
  assumes s: "solid8 X sz objs s" and g: "g \<le> 3" and w: "writes_back g sz objs f new s" and n: "new_bytes_ok X sz objs g new s"
  defines "t \<equiv> after_write_set g f s"
  shows "solid8 X sz objs t"
    and "page_maps8 s t" "commit_log t = commit_log s" "log_taken t = log_taken s" "rm8 t = rm8 s" "tls8 t = tls8 s"
    and "bare8 (segs8 t h) = bare8 (segs8 s h)" and "backup8 t h b = (if h = g then None else backup8 s h b)"
    and "h \<le> 3 \<Longrightarrow> b \<in> objs \<Longrightarrow> i < sz b \<Longrightarrow> obj_bytes8 t h b i =
      (case backup8 s g b of Some v \<Rightarrow> if h = g then new s b v i else obj_bytes8 s h b i | None \<Rightarrow> obj_bytes8 s h b i)"
    and "h \<le> 3 \<Longrightarrow> b \<in> objs \<Longrightarrow> i < sz b \<Longrightarrow> version8 t h b i = (if h = g then obj_bytes8 t g b i else version8 s h b i)"
    and "h \<noteq> g \<Longrightarrow> mods8 t h = mods8 s h"
proof -
  note d = solidD [OF s]
  note inv = trees_okD(1) [OF d(4)]
  note cl = tree_clear8_map [OF inv [OF g]]
  obtain m bl where mb: "foreach_f (tree_items8 (mods8 s g)) f s = s\<lparr>mem8 := m, blocks := bl\<rparr>"
      "\<And>v. bl v = (if v \<in> ran (tree_map8 (mods8 s g)) then None else blocks s v)"
      "\<And>h b i. h \<le> 3 \<Longrightarrow> b \<in> objs \<Longrightarrow> i < sz b \<Longrightarrow> obj_bytes8 t h b i =
        (case backup8 s g b of Some v \<Rightarrow> if h = g then new s b v i else obj_bytes8 s h b i | None \<Rightarrow> obj_bytes8 s h b i)"
    using after_write_set_bytes [OF s g w, folded t_def] by blast
  have t: "t = upd_seg8 g (\<lambda>p. p\<lparr>modified_old_objects8 := tree_clear8 (mods8 s g)\<rparr>) (s\<lparr>mem8 := m, blocks := bl\<rparr>)"
    by (simp add: t_def after_write_set_def Let_def mb(1))
  show pm: "page_maps8 s t" and log: "commit_log t = commit_log s" and "log_taken t = log_taken s" "rm8 t = rm8 s" "tls8 t = tls8 s"
    by (simp_all add: t page_maps8_def)
  show "bare8 (segs8 t h) = bare8 (segs8 s h)" for h by (simp add: t bare8_def)
  have mods: "mods8 t h = (if h = g then tree_clear8 (mods8 s g) else mods8 s h)" for h by (simp add: t)
  then show "h \<noteq> g \<Longrightarrow> mods8 t h = mods8 s h" for h by simp
  have blk: "blocks t v = (if v \<in> ran (tree_map8 (mods8 s g)) then None else blocks s v)" for v
    by (simp add: t mb(2))
  show bk: "backup8 t h b = (if h = g then None else backup8 s h b)" for h b
    using cl by (simp add: backup8_def mods)
  show ob: "h \<le> 3 \<Longrightarrow> b \<in> objs \<Longrightarrow> i < sz b \<Longrightarrow> obj_bytes8 t h b i =
      (case backup8 s g b of Some v \<Rightarrow> if h = g then new s b v i else obj_bytes8 s h b i | None \<Rightarrow> obj_bytes8 s h b i)" for h b i
    by (rule mb(3))
  have keep: "blocks t v = blocks s v" if hv: "h \<le> 3" "h \<noteq> g" "tree_map8 (mods8 s h) k = Some v" for h k v
  proof -
    have "v \<notin> ran (tree_map8 (mods8 s g))"
    proof
      assume "v \<in> ran (tree_map8 (mods8 s g))"
      then obtain l where "tree_map8 (mods8 s g) l = Some v" unfolding ran_def by blast
      then show False using hv d(5) g unfolding apart8_def by blast
    qed
    then show ?thesis by (simp add: blk)
  qed
  show ver: "h \<le> 3 \<Longrightarrow> b \<in> objs \<Longrightarrow> i < sz b \<Longrightarrow> version8 t h b i = (if h = g then obj_bytes8 t g b i else version8 s h b i)" for h b i
    using bk [of h b] keep [of h "of_nat b"] ob [of h b i]
    by (auto simp: version8_def backup8_def block_bytes_def split: option.splits)
  have new_ok: "stmcb_size_rounded_up8 X (new s b v) = sz b" "WB8_in (load32 (new s b v) 0)"
    if "b \<in> objs" "backup8 s g b = Some v" for b v using n that unfolding new_bytes_ok_def by blast+
  have content: "content8 X sz objs t"
    unfolding content8_def
  proof (intro ballI allI impI conjI)
    fix b h assume b: "b \<in> objs" and h: "h \<le> (3::nat)"
    have z: "16 \<le> sz b" using layout8D(1) [OF d(2) b] .
    define F where "F = (case backup8 s g b of Some v \<Rightarrow> if h = g then new s b v else obj_bytes8 s h b | None \<Rightarrow> obj_bytes8 s h b)"
    define V where "V = (if h = g then F else version8 s h b)"
    have o: "obj_bytes8 t h b i = F i" if "i < sz b" for i
      using ob [OF h b that] by (auto simp: F_def split: option.splits)
    have v: "version8 t h b i = V i" if "i < sz b" for i
      using ver [OF h b that] o [OF that] by (auto simp: V_def)
    have f: "stmcb_size_rounded_up8 X F = sz b"
      using new_ok(1) [OF b] contentD(2) [OF d(7) b h] by (auto simp: F_def split: option.splits)
    have gv: "backup8 s g b = None \<Longrightarrow> version8 s g b = obj_bytes8 s g b" by (simp add: version8_def)
    show "stmcb_size_rounded_up8 X (obj_bytes8 t h b) = sz b" by (rule cb_ok8D [OF d(1) f o])
    have v': "stmcb_size_rounded_up8 X V = sz b" using f contentD(1) [OF d(7) b h] by (simp add: V_def)
    show "stmcb_size_rounded_up8 X (version8 t h b) = sz b" by (rule cb_ok8D [OF d(1) v' v])
    have "WB8_in (load32 V 0)"
      using new_ok(2) [OF b] contentD(3) [OF d(7) b h] gv by (auto simp: V_def F_def split: option.splits)
    moreover have "load32 (version8 t h b) 0 = load32 V 0" using v z by (intro load32_cong) simp
    ultimately show "WB8_in (load32 (version8 t h b) 0)" by simp
  qed
  show "solid8 X sz objs t"
  proof (rule solid8_content [OF s pm log _ _ _ content])
    fix h assume h: "h \<le> (3::nat)"
    show "tree_inv8 (mods8 t h)" using inv [OF h] cl by (simp add: mods)
    show sub: "tree_map8 (mods8 s h) k = Some v" if "tree_map8 (mods8 t h) k = Some v" for k v
      using that cl by (cases "h = g") (simp_all add: mods)
    show "blocks t v = blocks s v" if "tree_map8 (mods8 t h) k = Some v" for k v
      using that cl keep [OF h _ sub [OF that]] by (cases "h = g") (simp_all add: mods)
  qed
qed

section \<open>Abort\<close>

lemma restore_backup_writes_back:
  assumes s: "solid8 X sz objs s" and g: "g \<le> 3"
  shows "writes_back g sz objs (restore_backup X g) (\<lambda>s a v i. block_bytes s v i) s"
  unfolding writes_back_def
proof (intro allI impI conjI)
  fix t a v assume a: "a \<in> objs" and o: "owned8 sz t a" and bl: "blocks t v = blocks s v" and b: "backup8 s g a = Some v"
  have u: "unat (of_nat a :: u64) = a" by (rule obj_key(1) [OF solidD(2) [OF s] a])
  have bb: "block_bytes t v = block_bytes s v" using bl by (simp add: block_bytes_def)
  have z: "stmcb_size_rounded_up8 X (block_bytes s v) = sz a"
    using contentD(1) [OF solidD(7) [OF s] a g] b by (simp add: version8_def)
  have e: "restore_backup X g (of_nat a, v) t = free_block v (vfill8 g a (sz a) (\<lambda>x. block_bytes s v (x - a)) t)"
    by (simp add: restore_backup_def Let_def u bb z)
  show "\<exists>m. restore_backup X g (of_nat a, v) t = t\<lparr>mem8 := m, blocks := (blocks t)(v := None)\<rparr>"
    unfolding e by (simp add: free_block_def vfill8_def) (rule exI, rule refl)
  fix h x assume h: "h \<le> (3::nat)"
  show "vread8 (restore_backup X g (of_nat a, v) t) h x =
      (if h = g \<and> in_obj sz a x then block_bytes s v (x - a) else vread8 t h x)"
  proof -
    have "vread8 (free_block v w) h x = vread8 w h x" for w by (simp add: free_block_def vread8_def)
    then show ?thesis
      using owned_private [OF o, of x g] owned_private [OF o, of x h] g h
      unfolding e by (auto simp: vread8_vfill8 in_obj_def)
  qed
qed

lemma reset_modified_after: "reset_modified_from_backup_copies X g s = after_write_set g (restore_backup X g) s"
  by (simp add: reset_modified_from_backup_copies_def after_write_set_def Let_def)

lemma throw_away_nursery8_facts:
  fixes s :: stm8 and g :: nat
  assumes l: "layout8 sz objs"
  defines "t \<equiv> snd (throw_away_nursery8 g s)"
  shows "page_maps8 s t" and "commit_log t = commit_log s" and "log_taken t = log_taken s" and "blocks t = blocks s"
    and "tls8 t = tls8 s" and "mods8 t h = mods8 s h" and "positions8 t h = positions8 s h"
    and "transaction_read_version8 (segs8 t h) = transaction_read_version8 (segs8 s h)"
    and "running_thread8 (segs8 t h) = running_thread8 (segs8 s h)"
    and "transaction_state8 (segs8 t h) = transaction_state8 (segs8 s h)"
    and "h \<noteq> g \<Longrightarrow> rm8 t h = rm8 s h"
    and "a \<in> objs \<Longrightarrow> i < sz a \<Longrightarrow> obj_bytes8 t h a i = obj_bytes8 s h a i"
proof -
  define s1 where "s1 = upd_seg8 g (\<lambda>p. p\<lparr>nursery_current8 := NURSERY_START8\<rparr>)
    (vfill8 g NURSERY_START8 (nursery_used8 s g) (\<lambda>_. 0) s)"
  define clr where "clr = (\<lambda>(addr :: u64, val :: u64) s. s\<lparr>rm8 := (rm8 s)(g := (rm8 s g)(unat addr div 16 := 0))\<rparr> :: stm8)"
  have rm: "\<exists>r. fold clr xs u = u\<lparr>rm8 := r\<rparr> \<and> (\<forall>h. h \<noteq> g \<longrightarrow> r h = rm8 u h)" for xs u
  proof (induction xs arbitrary: u)
    case Nil
    show ?case by (intro exI [of _ "rm8 u"]) simp
  next
    case (Cons x xs)
    obtain r where "fold clr xs (clr x u) = (clr x u)\<lparr>rm8 := r\<rparr>" "\<forall>h. h \<noteq> g \<longrightarrow> r h = rm8 (clr x u) h"
      using Cons.IH by blast
    then show ?case by (intro exI [of _ r]) (auto simp: clr_def split: prod.splits)
  qed
  let ?y = "young_outside_nursery8 (segs8 s1 g)"
  obtain r where r: "foreach_f (tree_items8 ?y) clr s1 = s1\<lparr>rm8 := r\<rparr>" "\<forall>h. h \<noteq> g \<longrightarrow> r h = rm8 s1 h"
    using rm unfolding foreach_f_def by blast
  define s2 where "s2 = (if \<not> tree_is_cleared8 ?y then upd_seg8 g (\<lambda>p. p\<lparr>young_outside_nursery8 := tree_clear8 ?y\<rparr>)
      (if \<not> tree_is_empty ?y then s1\<lparr>rm8 := r\<rparr> else s1) else s1)"
  have t: "t = upd_seg8 g (\<lambda>p. p\<lparr>nursery_objects_shadows8 := tree_clear8 (nursery_objects_shadows8 p)\<rparr>) s2"
    unfolding t_def throw_away_nursery8_def Let_def snd_conv s1_def [symmetric] clr_def [symmetric] r(1) s2_def ..
  show "page_maps8 s t" "commit_log t = commit_log s" "log_taken t = log_taken s" "blocks t = blocks s" "tls8 t = tls8 s"
    "mods8 t h = mods8 s h" "positions8 t h = positions8 s h"
    "transaction_read_version8 (segs8 t h) = transaction_read_version8 (segs8 s h)"
    "running_thread8 (segs8 t h) = running_thread8 (segs8 s h)"
    "transaction_state8 (segs8 t h) = transaction_state8 (segs8 s h)"
    by (simp_all add: t s2_def s1_def page_maps8_def)
  show "h \<noteq> g \<Longrightarrow> rm8 t h = rm8 s h" using r(2) by (simp add: t s2_def s1_def)
  show "obj_bytes8 t h a i = obj_bytes8 s h a i" if "a \<in> objs" "i < sz a"
  proof -
    have "nursery_used8 s g \<le> NB_NURSERY_PAGES8 * 4096" by (simp add: nursery_used8_def Let_def)
    moreover have "END_NURSERY_PAGE8 * 4096 \<le> a" using layout8D(3) [OF l that(1)] .
    ultimately have "\<not> a + i < NURSERY_START8 + nursery_used8 s g"
      by (simp add: NURSERY_START8_def END_NURSERY_PAGE8_def)
    then have "vread8 (vfill8 g NURSERY_START8 (nursery_used8 s g) (\<lambda>_. 0) s) h (a + i) = vread8 s h (a + i)"
      by (simp add: vread8_vfill8)
    then show ?thesis by (simp add: t s2_def s1_def obj_bytes8_def vread8_def)
  qed
qed

text \<open>Steps outside of the heap.\<close>

lemma same_heap8_upd_tl8: "same_heap8 s (upd_tl8 t f s)"
  unfolding upd_tl8_def by (rule same_heap8_fields)

lemma same_heap8_emits: "same_heap8 s (fold (\<lambda>(k, c) s. emit8 (UserCallback8 k c) s) xs s)"
proof (induction xs arbitrary: s)
  case (Cons x xs)
  show ?case using same_heap8_trans [OF same_heap8_fields(3) Cons.IH] by (simp add: split_beta)
qed (simp add: same_heap8_refl)

lemma log_taken_emits: "log_taken (fold (\<lambda>(k, c) s. emit8 (UserCallback8 k c) s) xs s) = log_taken s"
  by (rule fold_frame) (auto simp: emit8_def)

lemma same_heap8_callbacks: "same_heap8 s (invoke_and_clear_user_callbacks8 me i s)"
  and callbacks8_state: "transaction_state8 (segs8 (invoke_and_clear_user_callbacks8 me i s) g) = transaction_state8 (segs8 s g)"
proof -
  let ?s = "if \<not> tree_is_cleared8 (callbacks_on_commit_and_abort8 (segs8 s me) (1 - i)) then
    upd_seg8 me (\<lambda>p. p\<lparr>callbacks_on_commit_and_abort8 := (callbacks_on_commit_and_abort8 p)(1 - i :=
      tree_clear8 (callbacks_on_commit_and_abort8 (segs8 s me) (1 - i)))\<rparr>) s else s"
  let ?c = "callbacks_on_commit_and_abort8 (segs8 ?s me) i"
  let ?t = "upd_seg8 me (\<lambda>p. p\<lparr>callbacks_on_commit_and_abort8 := (callbacks_on_commit_and_abort8 p)(i := tree_create8)\<rparr>) ?s"
  let ?e = "fold (\<lambda>(k, c) s. emit8 (UserCallback8 k c) s) (tree_items8 ?c) ?t"
  have e: "invoke_and_clear_user_callbacks8 me i s = (if tree_is_cleared8 ?c then ?s else ?e)"
    by (simp only: invoke_and_clear_user_callbacks8_def Let_def foreach_f_def)
  have 1: "same_heap8 s ?s" by (simp add: same_heap8_refl same_heap8_upd_seg8)
  have 2: "same_heap8 ?s ?t" by (rule same_heap8_upd_seg8) simp_all
  show "same_heap8 s (invoke_and_clear_user_callbacks8 me i s)"
    unfolding e using 1 same_heap8_trans [OF same_heap8_trans [OF 1 2] same_heap8_emits] by simp
  have f: "segs8 (fold (\<lambda>(k, c) s. emit8 (UserCallback8 k c) s) xs u) = segs8 u" for xs u
    by (rule fold_frame [where g = segs8]) (auto simp: emit8_def)
  show "transaction_state8 (segs8 (invoke_and_clear_user_callbacks8 me i s) g) = transaction_state8 (segs8 s g)"
    unfolding e by (simp add: f)
qed

lemma same_heap8_finish: "same_heap8 s (finish_transaction8 me s)"
proof -
  let ?s = "upd_seg8 me (\<lambda>p. p\<lparr>safe_point8 := SP_NO_TRANSACTION8, transaction_state8 := TS_NONE8,
      objects_pointing_to_nursery8 := []\<rparr>) s"
  have 1: "same_heap8 s ?s" by (rule same_heap8_upd_seg8) simp_all
  have r: "same_heap8 u (release_thread_segment8 me t u)" for t u
    unfolding release_thread_segment8_def Let_def
    by (rule same_heap8_trans [OF same_heap8_trans [OF same_heap8_fields(3) same_heap8_upd_seg8] same_heap8_fields(4)]) simp_all
  show ?thesis
    unfolding finish_transaction8_def Let_def
    using 1 same_heap8_trans [OF 1 r] by (simp split: option.split)
qed

lemma abort_data8_coherent:
  assumes c: "coherent8 X sz objs s" and g: "g \<le> 3" and r: "abort_data_structures8 X g s = Ret () t"
  shows "coherent8 X sz objs t" and "commit_log t = commit_log s" and "log_taken t = log_taken s" and "positions8 t = positions8 s"
    and "b \<in> objs \<Longrightarrow> h \<le> 3 \<Longrightarrow> i < sz b \<Longrightarrow> version8 t h b i = version8 s h b i"
    and "b \<in> objs \<Longrightarrow> i < sz b \<Longrightarrow> obj_bytes8 t g b i = version8 s g b i"
    and "b \<in> objs \<Longrightarrow> h \<le> 3 \<Longrightarrow> h \<noteq> g \<Longrightarrow> i < sz b \<Longrightarrow> obj_bytes8 t h b i = obj_bytes8 s h b i"
    and "backup8 t g b = None" and "h \<noteq> g \<Longrightarrow> rm8 t h = rm8 s h"
proof -
  let ?u = "snd (throw_away_nursery8 g s)"
  let ?v = "reset_modified_from_backup_copies X g ?u"
  have s: "solid8 X sz objs s" using c by (simp add: coherent8_def)
  note d = solidD [OF s]
  note th = throw_away_nursery8_facts [OF d(2), where g = g and s = s]
  have bk: "backup8 ?u h b = backup8 s h b" for h b by (simp add: backup8_def th(6))
  have vu: "version8 ?u h b i = version8 s h b i" if "b \<in> objs" "i < sz b" for h b i
    using th(12) [OF that] by (auto simp: version8_def bk block_bytes_def th(4) split: option.splits)
  have su: "solid8 X sz objs ?u"
    by (rule solid8_shrink [OF s th(1,2)]) (use trees_okD(1) [OF d(4)] th vu in auto)
  have rw: "writes_back g sz objs (restore_backup X g) (\<lambda>s a v i. block_bytes s v i) ?u"
    by (rule restore_backup_writes_back [OF su g])
  have nb: "new_bytes_ok X sz objs g (\<lambda>s a v i. block_bytes s v i) ?u"
    unfolding new_bytes_ok_def
  proof (intro ballI allI impI)
    fix b v assume b: "b \<in> objs" and v: "backup8 ?u g b = Some v"
    have "version8 ?u g b = block_bytes ?u v" using v by (simp add: version8_def)
    then show "stmcb_size_rounded_up8 X (\<lambda>i. block_bytes ?u v i) = sz b \<and> WB8_in (load32 (\<lambda>i. block_bytes ?u v i) 0)"
      using contentD(1,3) [OF solidD(7) [OF su] b g] by simp
  qed
  note a = after_write_set_solid [OF su g rw nb, folded reset_modified_after]
  have "t = (case running_thread8 (segs8 ?v g) of None \<Rightarrow> ?v
      | Some x \<Rightarrow> upd_tl8 x (\<lambda>l. l\<lparr>shadowstack8 := restore_ss (rjthread8 l) (shadowstack8 l),
          last_abort_bytes_in_nursery8 := fst (throw_away_nursery8 g s)\<rparr>) ?v)"
    using r by (auto simp: abort_data_structures8_def split_beta Let_def split: transaction_state8.splits)
  then have h: "same_heap8 ?v t" by (auto intro: same_heap8_refl same_heap8_upd_tl8 split: option.splits)
  have lt: "log_taken t = log_taken ?v"
    using \<open>t = _\<close> by (auto simp: upd_tl8_def split: option.splits)
  note e = same_heapD [OF h]
  have pos: "positions8 ?v = positions8 s"
    using bare8_fields(2) [OF a(7)] th(7) by (simp add: fun_eq_iff)
  have cl: "commit_log ?v = commit_log s" using a(3) th(2) by simp
  have bytes: "obj_bytes8 ?v g b i = version8 s g b i" if "b \<in> objs" "i < sz b" for b i
  proof -
    have "obj_bytes8 ?v g b i = version8 ?u g b i"
      using a(9) [OF g that] by (auto simp: version8_def split: option.splits)
    then show ?thesis using vu [OF that] by simp
  qed
  have ver: "version8 ?v h b i = version8 s h b i" if "b \<in> objs" "h \<le> 3" "i < sz b" for h b i
    using a(10) [OF that(2,1,3)] bytes [OF that(1,3)] vu [OF that(1,3)] by (cases "h = g") auto
  have rd: "readers8 objs h ?v" if "h \<le> 3" for h
  proof (cases "h = g")
    case True
    then show ?thesis by (simp add: readers8_def a(8))
  next
    case False
    have "rm8 ?v h = rm8 s h" using a(5) th(11) [OF False] by simp
    moreover have "transaction_read_version8 (segs8 ?v h) = transaction_read_version8 (segs8 s h)"
      using bare8_fields(1) [OF a(7)] th(8) by simp
    ultimately show ?thesis
      using c that False by (auto simp: coherent8_def readers8_def a(8) bk stm_was_read_def)
  qed
  have "newest sz objs (version8 ?v) (commit_log s) (positions8 s)"
  proof (rule newest_cong)
    show "newest sz objs (version8 s) (commit_log s) (positions8 s)" using c by (simp add: coherent8_def)
  qed (rule ver)
  then have "coherent8 X sz objs ?v" using a(1) rd c by (simp add: coherent8_def cl pos)
  then show "coherent8 X sz objs t" by (rule coherent8_same_heap [OF h])
  show "commit_log t = commit_log s" using h cl by (simp add: same_heap8_def)
  show "log_taken t = log_taken s" unfolding lt a(4) by (rule th(3))
  show "positions8 t = positions8 s" using e(5) pos by simp
  show "b \<in> objs \<Longrightarrow> h \<le> 3 \<Longrightarrow> i < sz b \<Longrightarrow> version8 t h b i = version8 s h b i" by (simp add: e(3) ver)
  show "b \<in> objs \<Longrightarrow> i < sz b \<Longrightarrow> obj_bytes8 t g b i = version8 s g b i" by (simp add: e(2) bytes)
  show "backup8 t g b = None" by (simp add: e(1) a(8))
  show "obj_bytes8 t h b i = obj_bytes8 s h b i" if "b \<in> objs" "h \<le> 3" "h \<noteq> g" "i < sz b"
    using a(9) [OF that(2,1,4)] th(12) [OF that(1,4)] that(3) by (auto simp: e(2) split: option.splits)
  show "h \<noteq> g \<Longrightarrow> rm8 t h = rm8 s h" using h a(5) th(11) [of h] by (simp add: same_heap8_def same_reads8_def)
qed

lemma abort_with_mutex8_ends:
  "abort_with_mutex8 X me s = Aborted u \<Longrightarrow> \<exists>t. abort_data_structures8 X me s = Ret () t \<and> same_heap8 t u \<and> log_taken u = log_taken t"
  "abort_with_mutex8 X me s \<noteq> Ret a u" "abort_with_mutex8 X me s \<noteq> Hang u"
proof -
  have c: "abort_data_structures8 X me s \<noteq> Aborted t" "abort_data_structures8 X me s \<noteq> Hang t" for t
    by (auto simp: abort_data_structures8_def split_beta Let_def split: transaction_state8.splits)
  show "abort_with_mutex8 X me s \<noteq> Ret a u" "abort_with_mutex8 X me s \<noteq> Hang u"
    using c by (auto simp: abort_with_mutex8_def abort_with_mutex_no_longjmp8_def res_simps Let_def split: option.splits)
  assume r: "abort_with_mutex8 X me s = Aborted u"
  obtain t where t: "abort_data_structures8 X me s = Ret () t"
    using r c by (cases "abort_data_structures8 X me s") (auto simp: abort_with_mutex8_def abort_with_mutex_no_longjmp8_def)
  define t1 where "t1 = (case running_thread8 (segs8 t me) of None \<Rightarrow> t
    | Some x \<Rightarrow> upd_tl8 x (\<lambda>l. l\<lparr>mem_clear_on_abort8 := map_option (\<lambda>m. replicate (length m) 0) (mem_clear_on_abort8 l)\<rparr>) t)"
  define t2 where "t2 = invoke_and_clear_user_callbacks8 me 1 t1"
  define t3 where "t3 = (if is_abort8 (nursery_end8 (segs8 t2 me)) then upd_seg8 me (\<lambda>p. p\<lparr>nursery_end8 :=
    if pause_signalled8 t2 then NSE_SIGPAUSE8 else NURSERY_END8\<rparr>) t2 else t2)"
  let ?f = "finish_transaction8 me t3"
  have n: "abort_with_mutex_no_longjmp8 X me s = Ret (running_thread8 (segs8 t me)) ?f"
    by (simp add: abort_with_mutex_no_longjmp8_def t Let_def t1_def t2_def t3_def)
  have lt: "log_taken ?f = log_taken t"
  proof -
    have cb: "log_taken (invoke_and_clear_user_callbacks8 me 1 w) = log_taken w" for w
      by (simp add: invoke_and_clear_user_callbacks8_def Let_def foreach_f_def log_taken_emits)
    have "log_taken ?f = log_taken t3"
      by (simp add: finish_transaction8_def release_thread_segment8_def Let_def emit8_def split: option.splits)
    also have "\<dots> = log_taken t2" by (simp add: t3_def)
    also have "\<dots> = log_taken t" unfolding t2_def cb by (simp add: t1_def upd_tl8_def split: option.splits)
    finally show ?thesis .
  qed
  have 1: "same_heap8 t t1" by (simp add: t1_def same_heap8_refl same_heap8_upd_tl8 split: option.splits)
  have 3: "same_heap8 t2 t3" by (simp add: t3_def same_heap8_refl same_heap8_upd_seg8)
  have f: "same_heap8 t ?f"
    using same_heap8_trans [OF same_heap8_trans [OF same_heap8_trans [OF 1 same_heap8_callbacks [of t1 me 1]] 3 [unfolded t2_def]] same_heap8_finish] .
  have "u = ?f \<or> (\<exists>x g. u = upd_tl8 x g ?f)"
    using r n by (auto simp: abort_with_mutex8_def split: option.splits)
  then show "\<exists>t. abort_data_structures8 X me s = Ret () t \<and> same_heap8 t u \<and> log_taken u = log_taken t"
    using t f lt same_heap8_trans [OF f same_heap8_upd_tl8] by (auto simp: upd_tl8_def)
qed

lemma abort_with_mutex8_coherent:
  assumes c: "coherent8 X sz objs s" and me: "me \<le> 3" and r: "abort_with_mutex8 X me s = Aborted u"
  shows "coherent8 X sz objs u" and "commit_log u = commit_log s" and "log_taken u = log_taken s"
    and "b \<in> objs \<Longrightarrow> h \<le> 3 \<Longrightarrow> i < sz b \<Longrightarrow> version8 u h b i = version8 s h b i"
    and "b \<in> objs \<Longrightarrow> i < sz b \<Longrightarrow> obj_bytes8 u me b i = version8 s me b i"
    and "b \<in> objs \<Longrightarrow> h \<le> 3 \<Longrightarrow> h \<noteq> me \<Longrightarrow> i < sz b \<Longrightarrow> obj_bytes8 u h b i = obj_bytes8 s h b i"
    and "backup8 u me b = None"
proof -
  obtain t where t: "abort_data_structures8 X me s = Ret () t" "same_heap8 t u" "log_taken u = log_taken t"
    using abort_with_mutex8_ends(1) [OF r] by blast
  note a = abort_data8_coherent [OF c me t(1)] and e = same_heapD [OF t(2)]
  show "coherent8 X sz objs u" by (rule coherent8_same_heap [OF t(2) a(1)])
  show "commit_log u = commit_log s" using t(2) a(2) by (simp add: same_heap8_def)
  show "log_taken u = log_taken s" using t(3) a(3) by simp
  show "b \<in> objs \<Longrightarrow> h \<le> 3 \<Longrightarrow> i < sz b \<Longrightarrow> version8 u h b i = version8 s h b i" by (simp add: e(3) a(5))
  show "b \<in> objs \<Longrightarrow> i < sz b \<Longrightarrow> obj_bytes8 u me b i = version8 s me b i" by (simp add: e(2) a(6))
  show "b \<in> objs \<Longrightarrow> h \<le> 3 \<Longrightarrow> h \<noteq> me \<Longrightarrow> i < sz b \<Longrightarrow> obj_bytes8 u h b i = obj_bytes8 s h b i" by (simp add: e(2) a(7))
  show "backup8 u me b = None" by (simp add: e(1) a(8))
qed

section \<open>Safe points\<close>

lemma undisturbed8_trans:
  "undisturbed8 X sz objs me s t \<Longrightarrow> undisturbed8 X sz objs me t u \<Longrightarrow> undisturbed8 X sz objs me s u"
  by (auto simp: undisturbed8_def intro: advance8_trans)

lemma undisturbed8_same_heap:
  assumes "coherent8 X sz objs s" and "me \<le> 3" and "same_heap8 s t"
    and "transaction_state8 (segs8 t me) = transaction_state8 (segs8 s me)"
  shows "undisturbed8 X sz objs me s t"
  using assms coherent8_same_heap [OF assms(3,1)] advance8_same_heap [OF assms(3) coherent8_pos [OF assms(1,2)] assms(4)]
  by (simp add: undisturbed8_def same_heap8_def)

lemma enter_safe_point_loop8_undisturbed:
  assumes r: "rely8 X sz objs me" and me: "me \<le> 3"
  shows "coherent8 X sz objs s \<Longrightarrow>
    (enter_safe_point_loop8 n X me s = Ret () t \<longrightarrow> undisturbed8 X sz objs me s t) \<and>
    (enter_safe_point_loop8 n X me s = Aborted t \<longrightarrow> coherent8 X sz objs t)"
proof (induction n arbitrary: s)
  case (Suc n)
  let ?s1 = "emit8 (CondSignal8 C_AT_SAFE_POINT8) s"
  let ?s2 = "set_safe_point8 me SP_WAIT_FOR_C_REQUEST_REMOVED8 ?s1"
  let ?s3 = "cond_wait8 X C_REQUEST_REMOVED8 ?s2"
  let ?s4 = "set_safe_point8 me SP_RUNNING8 ?s3"
  have h2: "same_heap8 s ?s2"
    by (rule same_heap8_trans [OF same_heap8_fields(3) same_heap8_upd_seg8]) simp_all
  have c2: "coherent8 X sz objs ?s2" by (rule coherent8_same_heap [OF h2 Suc.prems])
  have u3: "undisturbed8 X sz objs me ?s2 ?s3" by (rule cond_wait8_undisturbed [OF c2 r me])
  have u4: "undisturbed8 X sz objs me ?s3 ?s4"
    by (rule undisturbed8_same_heap [OF _ me same_heap8_upd_seg8]) (use u3 in \<open>simp_all add: undisturbed8_def\<close>)
  have u: "undisturbed8 X sz objs me s ?s4"
    by (rule undisturbed8_after [OF Suc.prems me h2 _ undisturbed8_trans [OF u3 u4]]) (simp add: emit8_def)
  have same: "undisturbed8 X sz objs me s s"
    by (rule undisturbed8_same_heap [OF Suc.prems me same_heap8_refl refl])
  have "coherent8 X sz objs ?s4" using u by (simp add: undisturbed8_def)
  note ih = Suc.IH [OF this]
  have "enter_safe_point_loop8 (Suc n) X me s = (if must_abort8 s me then abort_with_mutex8 X me s
      else if nursery_end8 (segs8 s me) = NURSERY_END8 then Ret () s else enter_safe_point_loop8 n X me ?s4)"
    by (simp add: Let_def)
  then show ?case
    using ih undisturbed8_trans [OF u] same abort_with_mutex8_ends(2) [where a = "()" and me = me and X = X and s = s] abort_with_mutex8_coherent(1) [OF Suc.prems me]
    by (auto simp del: enter_safe_point_loop8.simps split: if_splits)
qed simp

lemma collectable_safe_point8_undisturbed:
  assumes "rely8 X sz objs me" and "me \<le> 3" and "coherent8 X sz objs s"
  shows "stm_collectable_safe_point8 n X me s = Ret () t \<Longrightarrow> undisturbed8 X sz objs me s t"
    and "stm_collectable_safe_point8 n X me s = Aborted t \<Longrightarrow> coherent8 X sz objs t"
  using enter_safe_point_loop8_undisturbed [OF assms, of n t] undisturbed8_same_heap [OF assms(3,2) same_heap8_refl refl]
  by (auto simp: stm_collectable_safe_point8_def enter_safe_point_if_requested8_def split: if_splits)

end
