(* ===== verification/C8log.thy ===== *)
theory C8log
  imports C8validate
begin

text \<open>
  The properties of the commit log of \<open>c8\<close>: what a validation, a commit and an abort
  achieve while other threads run, and what a commit does when it is interrupted too early.
\<close>

section \<open>Validation\<close>

lemma replay_step8:
  assumes c: "coherent8 X sz objs s" and me: "me \<le> 3" and p: "positions8 s me = cl" and l: "cl < length (commit_log s)"
  shows "\<exists>t. replay_entry8 X me (commit_log s ! cl) na s =
      (na \<or> (\<exists>a \<in> set (written (commit_log s ! cl)). stm_was_read me a s), t) \<and>
    (let u = upd_seg8 me (\<lambda>p. p\<lparr>last_commit_log_entry := cl + 1\<rparr>) t
     in coherent8 X sz objs u \<and> advance8 sz objs me s u \<and> positions8 u me = cl + 1 \<and> commit_log u = commit_log s \<and>
        same_reads8 s u)"
proof -
  let ?e = "commit_log s ! cl"
  have s: "solid8 X sz objs s" and r: "\<And>g. g \<le> 3 \<Longrightarrow> readers8 objs g s" and po: "positions_ok (commit_log s) (positions8 s)"
    and nw: "newest sz objs (version8 s) (commit_log s) (positions8 s)" using c by (simp_all add: coherent8_def)
  have "?e \<in> set (commit_log s)" using l by simp
  then have h: "segment_num ?e \<le> 3" and w: "\<And>a. a \<in> set (written ?e) \<Longrightarrow> a \<in> objs \<and> owned8 sz s a"
    using solidD(6) [OF s] unfolding log_ok8_def by blast+
  obtain t where t: "fold (replay_object8 X me (segment_num ?e)) (written ?e) (na, s) =
      (na \<or> (\<exists>a \<in> set (written ?e). stm_was_read me a s), t)" "replays8 X sz objs me (segment_num ?e) (set (written ?e)) s t"
    using replay_list8 [OF s r w h me] by blast
  note d = replays8D [OF t(2)]
  define u where "u = upd_seg8 me (\<lambda>p. p\<lparr>last_commit_log_entry := cl + 1\<rparr>) t"
  have mods: "mods8 u g = mods8 t g" for g by (simp add: u_def)
  have fr: "mem8 u = mem8 t" "remap8 u = remap8 t" "blocks u = blocks t" "commit_log u = commit_log t" "rm8 u = rm8 t"
    "page_maps8 t u" "positions8 u me = cl + 1" "same_reads8 t u"
    "transaction_state8 (segs8 u me) = transaction_state8 (segs8 t me)"
    by (simp_all add: u_def page_maps8_def same_reads8_def)
  have pos: "positions8 u = (positions8 s)(me := positions8 s me + 1)"
    using bare8_fields(2) [OF d(7)] p by (auto simp: u_def fun_eq_iff)
  have bk: "backup8 u g b = backup8 t g b" for g b by (simp add: backup8_def mods)
  have ob: "obj_bytes8 u g b = obj_bytes8 t g b" for g b by (simp add: obj_bytes8_def vread8_def fr(1,2) fun_eq_iff)
  have ver: "version8 u = version8 t" by (intro ext) (auto simp: version8_def bk ob block_bytes_def fr(3) split: option.splits)
  have sr: "same_reads8 s u" using d(3) fr(8) by (simp add: same_reads8_def)
  have rd: "readers8 objs g u" if "g \<le> 3" for g
    using d(2) [OF that] by (simp add: readers8_def bk was_read_cong [OF fr(8)])
  have so: "solid8 X sz objs u"
    by (rule solid8_shrink [OF d(1) fr(6,4)])
      (use trees_okD(1) [OF solidD(4) [OF d(1)]] in \<open>auto simp: mods fr(3) ver ob\<close>)
  have "newest sz objs (version8 t) (commit_log s) ((positions8 s)(me := positions8 s me + 1))"
    using nw po me l [folded p] h refl d(9) unfolding p [symmetric] by (rule newest_replay)
  then have co: "coherent8 X sz objs u"
    using so rd positions_replay [OF po me l [folded p]] d(5) by (simp add: coherent8_def pos ver fr(4))
  have wb: "written_between (commit_log s) cl (cl + 1) = set (written ?e)" by (simp add: written_between_def)
  have "advance8 sz objs me s u"
    unfolding advance8_def
  proof (intro conjI ballI allI impI)
    show "\<exists>new. commit_log u = commit_log s @ new" using d(5) fr(4) by simp
    show "positions8 s me \<le> positions8 u me" "positions8 u me \<le> length (commit_log u)" using d(5) p l fr(4,7) by simp_all
    show "rm8 u me = rm8 s me"
      "transaction_read_version8 (segs8 u me) = transaction_read_version8 (segs8 s me)" using sr by (simp_all add: same_reads8_def)
    show "transaction_state8 (segs8 u me) = transaction_state8 (segs8 s me)" using bare8_fields(3) [OF d(7)] fr(9) by simp
    show "backup8 u me b = None \<or> backup8 u me b = backup8 s me b" if "b \<in> objs" for b
      using d(8) [OF me that] by (auto simp: bk)
    fix b assume "b \<in> objs - written_between (commit_log u) (positions8 s me) (positions8 u me)"
    then have b: "b \<in> objs" "b \<notin> set (written ?e)" using wb p d(5) fr(4,7) by auto
    show "backup8 u me b = backup8 s me b" using d(8) [OF me b(1)] b(2) by (simp add: bk)
    fix i assume i: "i < sz b"
    show "obj_bytes8 u me b i = obj_bytes8 s me b i" using d(10) [OF me b(1) i] b(2) by (simp add: ob)
    show "version8 u me b i = version8 s me b i" using d(9) [OF me b(1) i] b(2) by (simp add: ver)
  qed
  then have "coherent8 X sz objs u \<and> advance8 sz objs me s u \<and> positions8 u me = cl + 1 \<and>
      commit_log u = commit_log s \<and> same_reads8 s u"
    using co d(5) fr(4,7) sr by simp
  then show ?thesis using t(1) unfolding Let_def u_def
    by (intro exI [of _ t] conjI) (simp_all only: replay_entry8_def foreach_f_def)
qed

lemma advance8_read: "advance8 sz objs me s t \<Longrightarrow> stm_was_read me a t = stm_was_read me a s"
  by (simp add: advance8_def stm_was_read_def)

lemma advance8_log: "advance8 sz objs me s t \<Longrightarrow> \<exists>new. commit_log t = commit_log s @ new"
  by (simp add: advance8_def)

lemma ex_unit: "(\<exists>a :: unit. P a) \<longleftrightarrow> P ()"
  by (metis old.unit.exhaust)

lemma validate_loop8_spec:
  assumes r: "rely8 X sz objs me" and me: "me \<le> 3"
  shows "coherent8 X sz objs s \<Longrightarrow> positions8 s me = cl \<Longrightarrow>
    (\<forall>na' t. validate_loop8 n X me cl na s = Ret na' t \<longrightarrow> coherent8 X sz objs t \<and> advance8 sz objs me s t \<and>
       positions8 t me = length (commit_log t) \<and> \<not> log_taken t \<and>
       (na' \<longleftrightarrow> na \<or> (\<exists>a \<in> written_between (commit_log t) cl (length (commit_log t)). stm_was_read me a s))) \<and>
    (\<forall>t. validate_loop8 n X me cl na s = Aborted t \<longrightarrow> coherent8 X sz objs t)"
proof (induction n arbitrary: s cl na)
  case (Suc n)
  let ?s = "interleave8 X s"
  have u: "undisturbed8 X sz objs me s ?s" by (rule interleave8_undisturbed [OF Suc.prems(1) r me])
  have c: "coherent8 X sz objs ?s" and a: "advance8 sz objs me s ?s" and p: "positions8 ?s me = cl"
    using u Suc.prems(2) by (simp_all add: undisturbed8_def)
  show ?case
  proof (cases "cl < length (commit_log ?s)")
    case True
    let ?e = "commit_log ?s ! cl" let ?na = "na \<or> (\<exists>a \<in> set (written ?e). stm_was_read me a ?s)"
    obtain t where t: "replay_entry8 X me ?e na ?s = (?na, t)" and
      tu: "let u = upd_seg8 me (\<lambda>p. p\<lparr>last_commit_log_entry := cl + 1\<rparr>) t
       in coherent8 X sz objs u \<and> advance8 sz objs me ?s u \<and> positions8 u me = cl + 1 \<and>
          commit_log u = commit_log ?s \<and> same_reads8 ?s u"
      using replay_step8 [OF c me p True, of na] by blast
    define u where "u = upd_seg8 me (\<lambda>p. p\<lparr>last_commit_log_entry := cl + 1\<rparr>) t"
    have u: "coherent8 X sz objs u" "advance8 sz objs me ?s u" "positions8 u me = cl + 1" "commit_log u = commit_log ?s"
      using tu by (simp_all add: Let_def u_def)
    have step: "validate_loop8 (Suc n) X me cl na s = validate_loop8 n X me (cl + 1) ?na u"
      using True t by (simp add: Let_def u_def)
    note ih = Suc.IH [OF u(1,3), of ?na]
    have "coherent8 X sz objs v \<and> advance8 sz objs me s v \<and> positions8 v me = length (commit_log v) \<and> \<not> log_taken v \<and>
       (na' \<longleftrightarrow> na \<or> (\<exists>a \<in> written_between (commit_log v) cl (length (commit_log v)). stm_was_read me a s))"
      if v: "validate_loop8 n X me (cl + 1) ?na u = Ret na' v" for na' v
    proof -
      have i: "coherent8 X sz objs v" "advance8 sz objs me u v" "positions8 v me = length (commit_log v)" "\<not> log_taken v"
        "na' \<longleftrightarrow> ?na \<or> (\<exists>a \<in> written_between (commit_log v) (cl + 1) (length (commit_log v)). stm_was_read me a u)"
        using ih v by blast+
      obtain new where new: "commit_log v = commit_log u @ new" using advance8_log [OF i(2)] by blast
      have "written_between (commit_log v) cl (cl + 1) = set (written ?e)"
        using True new u(4) by (simp add: written_between_def nth_append)
      then have w: "written_between (commit_log v) cl (length (commit_log v)) =
          set (written ?e) \<union> written_between (commit_log v) (cl + 1) (length (commit_log v))"
        using written_between_split [of cl "cl + 1" "length (commit_log v)" "commit_log v"] True new u(4) by simp
      have rd: "stm_was_read me b u = stm_was_read me b s" "stm_was_read me b ?s = stm_was_read me b s" for b
        using advance8_read [OF a] advance8_read [OF u(2)] by simp_all
      have "na' \<longleftrightarrow> na \<or> (\<exists>a \<in> written_between (commit_log v) cl (length (commit_log v)). stm_was_read me a s)"
        unfolding w i(5) rd by blast
      then show ?thesis using i(1,3,4) advance8_trans [OF advance8_trans [OF a u(2)] i(2)] by simp
    qed
    then show ?thesis unfolding step using ih by blast
  next
    case False
    then have e: "cl = length (commit_log ?s)" using coherent8_pos [OF c me] p by simp
    show ?thesis
    proof (cases "log_taken ?s")
      case True
      have step: "validate_loop8 (Suc n) X me cl na s =
          bind_res (stm_collectable_safe_point8 n X me ?s) (\<lambda>_. validate_loop8 n X me cl na)"
        using False True by (simp add: Let_def)
      have ret: "coherent8 X sz objs v \<and> advance8 sz objs me s v \<and> positions8 v me = length (commit_log v) \<and> \<not> log_taken v \<and>
         (na' \<longleftrightarrow> na \<or> (\<exists>a \<in> written_between (commit_log v) cl (length (commit_log v)). stm_was_read me a s))"
        if sp: "stm_collectable_safe_point8 n X me ?s = Ret () w" and v: "validate_loop8 n X me cl na w = Ret na' v" for na' v w
      proof -
        have u: "undisturbed8 X sz objs me ?s w" by (rule collectable_safe_point8_undisturbed(1) [OF r me c sp])
        then have w: "coherent8 X sz objs w" "advance8 sz objs me ?s w" "positions8 w me = cl" using p by (simp_all add: undisturbed8_def)
        have aw: "advance8 sz objs me s w" by (rule advance8_trans [OF a w(2)])
        show ?thesis using Suc.IH [OF w(1,3), of na] v advance8_trans [OF aw] advance8_read [OF aw] by blast
      qed
      have ab: "coherent8 X sz objs v"
        if sp: "stm_collectable_safe_point8 n X me ?s = Ret () w" and v: "validate_loop8 n X me cl na w = Aborted v" for v w
      proof -
        have u: "undisturbed8 X sz objs me ?s w" by (rule collectable_safe_point8_undisturbed(1) [OF r me c sp])
        then have w: "coherent8 X sz objs w" "positions8 w me = cl" using p by (simp_all add: undisturbed8_def)
        show ?thesis using Suc.IH [OF w, of na] v by blast
      qed
      show ?thesis unfolding step res_simps ex_unit
        using ret ab collectable_safe_point8_undisturbed(2) [OF r me c] by blast
    next
      case nt: False
      have step: "validate_loop8 (Suc n) X me cl na s = Ret na ?s" using False nt by (simp add: Let_def)
      have "written_between (commit_log ?s) cl (length (commit_log ?s)) = {}" using e by (simp add: written_between_def)
      then show ?thesis unfolding step using c a p e nt by simp
    qed
  qed
qed simp

text \<open>A validation that returns has replayed the whole log, and nothing there was read.\<close>

lemma stm_validate8_spec:
  assumes r: "rely8 X sz objs me" and me: "me \<le> 3" and c: "coherent8 X sz objs s"
    and st: "transaction_state8 (segs8 s me) = TS_REGULAR8"
  shows "stm_validate8 n X me s = Ret () t \<Longrightarrow> coherent8 X sz objs t \<and> advance8 sz objs me s t \<and>
      positions8 t me = length (commit_log t) \<and>
      (\<forall>a \<in> written_between (commit_log t) (positions8 s me) (length (commit_log t)). \<not> stm_was_read me a s)"
    and "stm_validate8 n X me s = Aborted t \<Longrightarrow> coherent8 X sz objs t"
proof -
  note l = validate_loop8_spec [OF r me c refl, of n False]
  have e: "stm_validate8 n X me s = bind_res (validate_loop8 n X me (positions8 s me) False s)
      (\<lambda>na s. if na then abort_with_mutex8 X me s else Ret () s)"
    using st unfolding stm_validate8_def stm_abort_transaction8_def by simp
  show "stm_validate8 n X me s = Ret () t \<Longrightarrow> coherent8 X sz objs t \<and> advance8 sz objs me s t \<and>
      positions8 t me = length (commit_log t) \<and>
      (\<forall>a \<in> written_between (commit_log t) (positions8 s me) (length (commit_log t)). \<not> stm_was_read me a s)"
    unfolding e res_simps using l abort_with_mutex8_ends(2) [where a = "()"] by (auto split: if_splits)
  assume "stm_validate8 n X me s = Aborted t"
  then consider "validate_loop8 n X me (positions8 s me) False s = Aborted t"
    | na u where "validate_loop8 n X me (positions8 s me) False s = Ret na u" "abort_with_mutex8 X me u = (Aborted t :: (stm8, unit) res)"
    unfolding e res_simps by (auto split: if_splits)
  then show "coherent8 X sz objs t"
    using l abort_with_mutex8_coherent(1) [OF _ me] by cases blast+
qed

lemma attach_loop8_spec:
  assumes r: "rely8 X sz objs me" and me: "me \<le> 3"
  shows "coherent8 X sz objs s \<Longrightarrow> transaction_state8 (segs8 s me) = TS_REGULAR8 \<Longrightarrow>
    (\<forall>t. attach_loop8 n X me f s = Ret () t \<longrightarrow> (\<exists>u. t = f u \<and> coherent8 X sz objs u \<and> advance8 sz objs me s u \<and>
       positions8 u me = length (commit_log u) \<and> \<not> log_taken u \<and>
       (\<forall>a \<in> written_between (commit_log u) (positions8 s me) (length (commit_log u)). \<not> stm_was_read me a s))) \<and>
    (\<forall>t. attach_loop8 n X me f s = Aborted t \<longrightarrow> coherent8 X sz objs t)"
proof (induction n arbitrary: s)
  case (Suc n)
  note v = stm_validate8_spec [OF r me Suc.prems]
  let ?step = "\<lambda>w. if positions8 (interleave8 X w) me = length (commit_log (interleave8 X w)) \<and> \<not> log_taken (interleave8 X w)
     then Ret () (f (interleave8 X w)) else attach_loop8 n X me f (interleave8 X w)"
  have step: "attach_loop8 (Suc n) X me f s = bind_res (stm_validate8 n X me s) (\<lambda>_. ?step)" by (simp add: Let_def)
  have w: "coherent8 X sz objs u \<and> advance8 sz objs me s u \<and> transaction_state8 (segs8 u me) = TS_REGULAR8 \<and>
      (\<forall>a \<in> written_between (commit_log u) (positions8 s me) (positions8 u me). \<not> stm_was_read me a s)"
    if "stm_validate8 n X me s = Ret () x" "u = interleave8 X x" for x u
  proof -
    have x: "coherent8 X sz objs x" "advance8 sz objs me s x" "positions8 x me = length (commit_log x)"
      "\<forall>a \<in> written_between (commit_log x) (positions8 s me) (length (commit_log x)). \<not> stm_was_read me a s"
      using v(1) [OF that(1)] by blast+
    have u: "undisturbed8 X sz objs me x u" unfolding that(2) by (rule interleave8_undisturbed [OF x(1) r me])
    then have a: "advance8 sz objs me s u" using advance8_trans [OF x(2)] by (simp add: undisturbed8_def)
    have "advance8 sz objs me x u" using u by (simp add: undisturbed8_def)
    from advance8_log [OF this] obtain new where "commit_log u = commit_log x @ new" by blast
    then have "written_between (commit_log u) (positions8 s me) (positions8 u me) =
        written_between (commit_log x) (positions8 s me) (length (commit_log x))"
      using u x(3) written_between_append [of "length (commit_log x)" "commit_log x" new] by (simp add: undisturbed8_def)
    then show ?thesis using u a x(4) Suc.prems(2) by (simp add: undisturbed8_def advance8_def)
  qed
  have ret: "\<exists>u. t = f u \<and> coherent8 X sz objs u \<and> advance8 sz objs me s u \<and>
       positions8 u me = length (commit_log u) \<and> \<not> log_taken u \<and>
       (\<forall>a \<in> written_between (commit_log u) (positions8 s me) (length (commit_log u)). \<not> stm_was_read me a s)"
    if x: "stm_validate8 n X me s = Ret () x" and t: "?step x = Ret () t" for x t
  proof (cases "positions8 (interleave8 X x) me = length (commit_log (interleave8 X x)) \<and> \<not> log_taken (interleave8 X x)")
    case True
    then show ?thesis using w [OF x refl] t by (intro exI [of _ "interleave8 X x"]) auto
  next
    case False
    let ?w = "interleave8 X x"
    have y: "coherent8 X sz objs ?w" "advance8 sz objs me s ?w" "transaction_state8 (segs8 ?w me) = TS_REGULAR8"
      "\<forall>a \<in> written_between (commit_log ?w) (positions8 s me) (positions8 ?w me). \<not> stm_was_read me a s"
      using w [OF x refl] by blast+
    have "attach_loop8 n X me f ?w = Ret () t" using t False by (simp split: if_splits)
    then obtain u where u: "t = f u" "coherent8 X sz objs u" "advance8 sz objs me ?w u" "positions8 u me = length (commit_log u)"
        "\<not> log_taken u" "\<forall>a \<in> written_between (commit_log u) (positions8 ?w me) (length (commit_log u)). \<not> stm_was_read me a ?w"
      using Suc.IH [OF y(1,3)] by blast
    obtain new where new: "commit_log u = commit_log ?w @ new" using advance8_log [OF u(3)] by blast
    have "positions8 s me \<le> positions8 ?w me" "positions8 ?w me \<le> length (commit_log ?w)"
      using y(2) by (simp_all add: advance8_def)
    then have "written_between (commit_log u) (positions8 s me) (length (commit_log u)) =
        written_between (commit_log ?w) (positions8 s me) (positions8 ?w me) \<union>
        written_between (commit_log u) (positions8 ?w me) (length (commit_log u))"
      using written_between_split [of "positions8 s me" "positions8 ?w me" "length (commit_log u)" "commit_log u"]
        written_between_append [of "positions8 ?w me" "commit_log ?w" new] by (simp add: new)
    then show ?thesis using u y(4) advance8_read [OF y(2)] advance8_trans [OF y(2) u(3)] by blast
  qed
  have ab: "coherent8 X sz objs t" if x: "stm_validate8 n X me s = Ret () x" and t: "?step x = Aborted t" for x t
    using w [OF x refl] Suc.IH [of "interleave8 X x"] t by (auto split: if_splits)
  show ?case unfolding step res_simps ex_unit using ret ab v(2) by blast
qed simp

section \<open>Commit\<close>

text \<open>The bytes that a segment commits: its own, with the write barrier flag set again.\<close>

definition committed8 :: "stm8 \<Rightarrow> nat \<Rightarrow> nat \<Rightarrow> nat \<Rightarrow> u8" where
  "committed8 s g a i =
     (if i < 4 then byte_of32 (stm_flags8 s g a OR GCFLAG_WRITE_BARRIER8) i else obj_bytes8 s g a i)"

abbreviation clear_item8 :: "nat \<Rightarrow> u64 \<times> u64 \<Rightarrow> stm8 \<Rightarrow> stm8" where
  "clear_item8 me \<equiv> (\<lambda>(addr, val) s. let obj = unat addr; s = free_block val s
     in set_stm_flags8 me obj (stm_flags8 s me obj OR GCFLAG_WRITE_BARRIER8) s)"

lemma clear_write_set_after: "clear_write_set8 me s = after_write_set me (clear_item8 me) s"
  by (simp add: clear_write_set8_def after_write_set_def Let_def)

lemma clear_item8_writes_back:
  assumes s: "solid8 X sz objs s" and g: "g \<le> 3"
  shows "writes_back g sz objs (clear_item8 g) (\<lambda>s a v. committed8 s g a) s"
  unfolding writes_back_def
proof (intro allI impI conjI)
  fix t a v assume a: "a \<in> objs" and o: "owned8 sz t a" and eq: "\<forall>i < sz a. obj_bytes8 t g a i = obj_bytes8 s g a i"
  have u: "unat (of_nat a :: u64) = a" by (rule obj_key(1) [OF solidD(2) [OF s] a])
  have z: "16 \<le> sz a" by (rule layout8D(1) [OF solidD(2) [OF s] a])
  let ?w = "stm_flags8 s g a OR GCFLAG_WRITE_BARRIER8"
  have v: "vread8 (free_block v t) = vread8 t" by (simp add: free_block_def vread8_def fun_eq_iff)
  have "stm_flags8 t g a = stm_flags8 s g a"
    unfolding stm_flags8_def using eq z by (intro load32_cong) (simp add: obj_bytes8_def)
  then have e: "clear_item8 g (of_nat a, v) t = set_stm_flags8 g a ?w (free_block v t)"
    by (simp add: Let_def u stm_flags8_def v)
  show "\<exists>m. clear_item8 g (of_nat a, v) t = t\<lparr>mem8 := m, blocks := (blocks t)(v := None)\<rparr>"
    unfolding e by (intro exI [of _ "mem8 (set_stm_flags8 g a ?w (free_block v t))"] stm8.equality)
      (simp_all add: free_block_def set_stm_flags8_def vfill8_def)
  fix h x assume h: "h \<le> (3::nat)"
  have r: "remap8 (free_block v t) = remap8 t" by (simp add: free_block_def)
  have same: "vread8 t g x = vread8 s g x" if "in_obj sz a x"
    using eq [rule_format, of "x - a"] that by (simp add: in_obj_def obj_bytes8_def less_diff_conv2)
  show "vread8 (clear_item8 g (of_nat a, v) t) h x =
      (if h = g \<and> in_obj sz a x then committed8 s g a (x - a) else vread8 t h x)"
    unfolding e unfolding set_stm_flags8_def vread8_vfill8 r v
    using owned_private [OF o, of x g] owned_private [OF o, of x h] g h z same
    by (auto simp: in_obj_def committed8_def obj_bytes8_def)
qed

lemma committed8_ok:
  assumes s: "solid8 X sz objs s" and g: "g \<le> 3"
  shows "new_bytes_ok X sz objs g (\<lambda>s a v. committed8 s g a) s"
  unfolding new_bytes_ok_def
proof (intro ballI allI impI conjI)
  fix b assume b: "b \<in> objs"
  show "stmcb_size_rounded_up8 X (committed8 s g b) = sz b"
    by (rule cb_ok8_flags [OF solidD(1) [OF s] contentD(2) [OF solidD(7) [OF s] b g]]) (simp add: committed8_def)
  have "load32 (committed8 s g b) 0 = stm_flags8 s g b OR GCFLAG_WRITE_BARRIER8"
    by (rule load32_bytes) (simp add: committed8_def)
  then show "WB8_in (load32 (committed8 s g b) 0)" using or_WB8 by simp
qed

text \<open>The entry is attached, and nothing else has changed.\<close>

lemma attached8:
  fixes lt :: bool
  assumes s: "solid8 X sz objs u" and me: "me \<le> 3"
    and e: "segment_num e = me" "set (written e) = {b \<in> objs. backup8 u me b \<noteq> None}"
  defines "a \<equiv> u\<lparr>commit_log := commit_log u @ [e], log_taken := lt\<rparr>"
  shows "solid8 X sz objs a" and "backup8 a g b = backup8 u g b" and "obj_bytes8 a g b = obj_bytes8 u g b"
    and "version8 a g b = version8 u g b" and "committed8 a me b = committed8 u me b"
    and "\<And>b. b \<in> set (written e) \<Longrightarrow> owned8 sz u b" and "page_maps8 u a"
proof -
  note d = solidD [OF s]
  show fr: "page_maps8 u a" by (simp add: page_maps8_def a_def)
  have bl: "blocks a = blocks u" by (simp add: a_def)
  show bk: "backup8 a g b = backup8 u g b" for g b by (simp add: backup8_def a_def)
  show ob: "obj_bytes8 a g b = obj_bytes8 u g b" for g b by (simp add: obj_bytes8_def vread8_def fun_eq_iff a_def)
  show ver: "version8 a g b = version8 u g b" for g b
    by (cases "backup8 u g b") (simp_all add: version8_def bk ob block_bytes_def bl)
  show "committed8 a me b = committed8 u me b" for b
    by (simp add: committed8_def stm_flags8_def obj_bytes8_def vread8_def fun_eq_iff load32_def a_def)
  show w: "owned8 sz u b" if "b \<in> set (written e)" for b
  proof -
    from that obtain v where b: "b \<in> objs" "tree_map8 (mods8 u me) (of_nat b) = Some v"
      using e(2) by (auto simp: backup8_def)
    then obtain a where "a \<in> objs" "(of_nat b :: u64) = of_nat a" "owned8 sz u a" using trees_okD(2) [OF d(4) me b(2)] by blast
    then show ?thesis using obj_key_inj [OF d(2) b(1)] by simp
  qed
  show "solid8 X sz objs a"
    unfolding solid8_def
  proof (intro conjI)
    show "cb_ok8 X" "layout8 sz objs" by (fact d)+
    show "maps8 sz objs a" using d(3) maps8_cong [OF fr] by simp
    show "trees_ok8 sz objs a" using d(4) unfolding trees_ok8_def owned8_cong [OF fr] by (simp add: a_def)
    show "apart8 a" using d(5) unfolding apart8_def by (simp add: a_def)
    show "content8 X sz objs a" using d(7) unfolding content8_def ver ob .
    show "log_ok8 sz objs a"
      using d(6) e me w unfolding log_ok8_def owned8_cong [OF fr] by (auto simp: a_def)
  qed
qed

lemma publish8:
  fixes lt :: bool
  assumes c: "coherent8 X sz objs u" and me: "me \<le> 3" and p: "positions8 u me = length (commit_log u)"
    and e: "segment_num e = me" "set (written e) = {b \<in> objs. backup8 u me b \<noteq> None}"
  defines "t \<equiv> clear_write_set8 me (u\<lparr>commit_log := commit_log u @ [e], log_taken := lt\<rparr>)"
  shows "coherent8 X sz objs t" and "commit_log t = commit_log u @ [e]" and "log_taken t = lt"
    and "b \<in> objs \<Longrightarrow> h \<le> 3 \<Longrightarrow> i < sz b \<Longrightarrow>
      version8 t h b i = (if h = me \<and> b \<in> set (written e) then committed8 u me b i else version8 u h b i)"
    and "b \<in> objs \<Longrightarrow> i < sz b \<Longrightarrow> obj_bytes8 t me b i = version8 t me b i"
    and "positions8 t me = length (commit_log u)"
    and "bare8 (segs8 t h) = bare8 (segs8 u h)" and "rm8 t = rm8 u"
    and "h \<noteq> me \<Longrightarrow> mods8 t h = mods8 u h"
    and "b \<in> objs \<Longrightarrow> h \<le> 3 \<Longrightarrow> i < sz b \<Longrightarrow> h \<noteq> me \<Longrightarrow> obj_bytes8 t h b i = obj_bytes8 u h b i"
proof -
  let ?a = "u\<lparr>commit_log := commit_log u @ [e], log_taken := lt\<rparr>"
  have s: "solid8 X sz objs u" using c by (simp add: coherent8_def)
  note x = attached8(1-5) [OF s me e, where lt = lt]
  note sa = x(1) and bk = x(2) and ob = x(3) and ver = x(4) and co = x(5)
  note a = after_write_set_solid [OF sa me clear_item8_writes_back [OF sa me] committed8_ok [OF sa me],
      folded clear_write_set_after, folded t_def]
  show log: "commit_log t = commit_log u @ [e]" and "log_taken t = lt" using a(3,4) by simp_all
  have pos: "positions8 t = positions8 u" using bare8_fields(2) [OF a(7)] by (simp add: fun_eq_iff)
  show "positions8 t me = length (commit_log u)" using fun_cong [OF pos, of me] p by simp
  show "bare8 (segs8 t h) = bare8 (segs8 u h)" "rm8 t = rm8 u" for h using a(5,7) by simp_all
  show "h \<noteq> me \<Longrightarrow> mods8 t h = mods8 u h" for h using a(11) by simp
  show "obj_bytes8 t h b i = obj_bytes8 u h b i" if "b \<in> objs" "h \<le> 3" "i < sz b" "h \<noteq> me" for b h i
    using a(9) [OF that(2,1,3)] that(4) by (auto simp: ob split: option.splits)
  have inW: "b \<in> set (written e) \<longleftrightarrow> backup8 u me b \<noteq> None" if "b \<in> objs" for b using that e(2) by simp
  have bytes: "obj_bytes8 t me b i = (if b \<in> set (written e) then committed8 u me b i else version8 u me b i)"
    if "b \<in> objs" "i < sz b" for b i
    using a(9) [OF me that] inW [OF that(1)] by (auto simp: bk ob co version8_def split: option.splits)
  show vt: "b \<in> objs \<Longrightarrow> h \<le> 3 \<Longrightarrow> i < sz b \<Longrightarrow>
      version8 t h b i = (if h = me \<and> b \<in> set (written e) then committed8 u me b i else version8 u h b i)" for h b i
    using a(10) [of h b i] bytes [of b i] by (auto simp: ver)
  show "b \<in> objs \<Longrightarrow> i < sz b \<Longrightarrow> obj_bytes8 t me b i = version8 t me b i"
    using bytes vt me by simp
  have rd: "readers8 objs h t" if "h \<le> 3" for h
  proof -
    have "transaction_read_version8 (segs8 t h) = transaction_read_version8 (segs8 u h)" using bare8_fields(1) [OF a(7)] by simp
    then show ?thesis using c that a(5) by (auto simp: coherent8_def readers8_def a(8) bk stm_was_read_def split: if_splits)
  qed
  have "newest sz objs (version8 t) (commit_log u @ [e]) (positions8 u)"
  proof (rule newest_attach)
    show "newest sz objs (version8 u) (commit_log u) (positions8 u)" "positions_ok (commit_log u) (positions8 u)"
      using c by (simp_all add: coherent8_def)
    show "version8 t h b i = version8 u h b i" if "h \<le> 3" "b \<in> objs" "i < sz b" "h \<noteq> me \<or> b \<notin> set (written e)" for h b i
      using vt [OF that(2,1,3)] that(4) by auto
  qed (fact me e(1) p)+
  moreover have "positions_ok (commit_log u @ [e]) (positions8 u)"
    using c e(1) p by (intro positions_attach) (simp_all add: coherent8_def)
  ultimately show "coherent8 X sz objs t" using a(1) rd by (simp add: coherent8_def log pos)
qed

end
