(* ===== verification/C8write.thy ===== *)
theory C8write
  imports C8log
begin

text \<open>
  The write barrier of \<open>c8\<close>: the pages of the object become private, which nobody sees, and
  the segment keeps the committed version of the object in a backup before it may write.
\<close>

section \<open>Privatizing pages\<close>

text \<open>What privatizing pages leaves as it is.\<close>

definition privatized8 :: "stm8 \<Rightarrow> stm8 \<Rightarrow> bool" where
  "privatized8 s t \<longleftrightarrow> (\<forall>g \<le> 3. vread8 t g = vread8 s g) \<and> (\<forall>p. private8 s p \<longrightarrow> private8 t p) \<and>
     (\<forall>p. old_page8 s p \<longrightarrow> mapped8 t p) \<and> segs8 t = segs8 s \<and> rm8 t = rm8 s \<and> blocks t = blocks s \<and>
     commit_log t = commit_log s \<and> log_taken t = log_taken s \<and>
     uninitialized_page_start8 t = uninitialized_page_start8 s"

lemma privatized8_refl: "(\<And>p. old_page8 s p \<Longrightarrow> mapped8 s p) \<Longrightarrow> privatized8 s s"
  by (simp add: privatized8_def)

lemma old_page_index: "old_page8 s p \<Longrightarrow> PAGE_FLAG_START8 \<le> p"
  by (simp add: old_page8_def PAGE_FLAG_START8_def)

lemma privatize_one:
  assumes s: "privatized8 s0 s" and p: "old_page8 s0 p"
  shows "privatized8 s0 (privatize_if_shared8 p s) \<and> private8 (privatize_if_shared8 p s) p"
proof (cases "is_shared_log_page s p")
  case True
  let ?t = "privatize_shared_page p s"
  have t: "privatize_if_shared8 p s = ?t" using True by (simp add: privatize_if_shared8_def)
  have m: "mapped8 s p" using s p by (simp add: privatized8_def)
  note e = privatize_shared_page_eq [OF True]
  have priv: "private8 ?t q" if "private8 s q" for q using that unfolding e by (auto simp: private8_def)
  have map: "mapped8 ?t q" if "old_page8 s0 q" for q
    using privatize_shared_page_mapped(1) [OF _ True old_page_index [OF p] old_page_index [OF that]] s that
    by (simp add: privatized8_def)
  have "private8 ?t p"
    using m True unfolding e by (auto simp: private8_def mapped8_def)
  moreover have "privatized8 s0 ?t"
    using s priv map privatize_shared_page_views [OF m True] unfolding privatized8_def e by simp
  ultimately show ?thesis by (simp add: t)
next
  case False
  moreover have "private8 s p" using s p False by (simp add: privatized8_def private8_def mapped8_def)
  ultimately show ?thesis using s by (simp add: privatize_if_shared8_def)
qed

lemma privatize_range8:
  assumes "privatized8 s0 s" and "\<And>p. p \<in> set ps \<Longrightarrow> old_page8 s0 p"
  shows "privatized8 s0 (foreach_f ps privatize_if_shared8 s) \<and> (\<forall>p \<in> set ps. private8 (foreach_f ps privatize_if_shared8 s) p)"
  using assms
proof (induction ps arbitrary: s)
  case (Cons p ps)
  note one = privatize_one [OF Cons.prems(1), of p]
  let ?t = "privatize_if_shared8 p s"
  have t: "privatized8 s0 ?t" "private8 ?t p" using one Cons.prems(2) by simp_all
  have keep: "private8 (foreach_f qs privatize_if_shared8 u) p"
    if "privatized8 s0 u" "private8 u p" "\<And>q. q \<in> set qs \<Longrightarrow> old_page8 s0 q" for qs u
    using that
  proof (induction qs arbitrary: u)
    case (Cons q qs)
    have "private8 (privatize_if_shared8 q u) p"
      using Cons.prems(2) privatize_shared_page_eq [of u q]
      by (auto simp: privatize_if_shared8_def private8_def)
    then show ?case using Cons.IH privatize_one [OF Cons.prems(1)] Cons.prems(3) by (simp add: foreach_f_def)
  qed (simp add: foreach_f_def)
  have ih: "privatized8 s0 (foreach_f ps privatize_if_shared8 ?t) \<and> (\<forall>p \<in> set ps. private8 (foreach_f ps privatize_if_shared8 ?t) p)"
    using Cons.IH [OF t(1)] Cons.prems(2) by simp
  have k: "private8 (foreach_f ps privatize_if_shared8 ?t) p"
    using keep [OF t] Cons.prems(2) by simp
  have "foreach_f (p # ps) privatize_if_shared8 s = foreach_f ps privatize_if_shared8 ?t" by (simp add: foreach_f_def)
  then show ?case using ih k by simp
qed (simp add: foreach_f_def)

section \<open>The slow path of the barrier\<close>

text \<open>\<open>malloc\<close> returns a block that is not in use.\<close>

definition malloc_ok8 :: "ext8 \<Rightarrow> stm8 \<Rightarrow> bool" where
  "malloc_ok8 X s \<longleftrightarrow> blocks s (malloc X s) = None"

text \<open>The state when the backup was made, the pages are private, and the flag is cleared.\<close>

definition barrier_ready :: "ext8 \<Rightarrow> nat \<Rightarrow> nat \<Rightarrow> stm8 \<Rightarrow> stm8" where
  "barrier_ready X me a s =
     (let n = obj_size8 X s me a;
          s = stm_read8 me a s;
          s = snd (malloc_block X (\<lambda>i. if i < n then obj_bytes8 s me a i else 0) s);
          s = foreach_f [a div 4096..<Suc ((a + n - 1) div 4096)] privatize_if_shared8 s;
          s = set_stm_flags8 me a (stm_flags8 s me a AND NOT GCFLAG_WRITE_BARRIER8) s
      in trace_later8 me a s)"

lemma stm_write_slowpath8_eq:
  "stm_write_slowpath8 X me a s = register_backup8 me a (malloc X (stm_read8 me a s)) (barrier_ready X me a s)"
  by (simp add: stm_write_slowpath8_def barrier_ready_def malloc_block_def Let_def)

text \<open>Everything that the state knows then; \<open>p\<close> is the block with the backup.\<close>

lemma barrier_ready_facts:
  assumes c: "coherent8 X sz objs s" and me: "me \<le> 3" and a: "a \<in> objs" and m: "malloc_ok8 X (stm_read8 me a s)"
  defines "t \<equiv> barrier_ready X me a s" and "p \<equiv> malloc X (stm_read8 me a s)"
  shows "blocks s p = None" and "blocks t = (blocks s)(p \<mapsto> (\<lambda>i. if i < sz a then obj_bytes8 s me a i else 0))"
    and "maps8 sz objs t" and "private8 s q \<Longrightarrow> private8 t q" and "owned8 sz t a"
    and "commit_log t = commit_log s" and "log_taken t = log_taken s"
    and "mods8 t g = mods8 s g" and "positions8 t g = positions8 s g"
    and "transaction_read_version8 (segs8 t g) = transaction_read_version8 (segs8 s g)"
    and "rm8 t = (rm8 s)(me := (rm8 s me)(a div 16 := transaction_read_version8 (segs8 s me)))"
    and "g \<le> 3 \<Longrightarrow> b \<in> objs \<Longrightarrow> i < sz b \<Longrightarrow> \<not> (g = me \<and> b = a \<and> i < 4) \<Longrightarrow> obj_bytes8 t g b i = obj_bytes8 s g b i"
    and "objects_pointing_to_nursery8 (segs8 t me) = objects_pointing_to_nursery8 (segs8 s me) @ [a]"
    and "stm_flags8 t me a = stm_flags8 s me a AND NOT GCFLAG_WRITE_BARRIER8"
    and "transaction_state8 (segs8 t g) = transaction_state8 (segs8 s g)"
proof -
  have s: "solid8 X sz objs s" using c by (simp add: coherent8_def)
  note d = solidD [OF s]
  note l = layout8D [OF d(2) a]
  have n: "obj_size8 X s me a = sz a" using contentD(2) [OF d(7) a me] by (simp add: obj_size8_def)
  let ?s1 = "stm_read8 me a s" let ?f = "\<lambda>i. if i < sz a then obj_bytes8 s me a i else 0"
  define s2 where "s2 = ?s1\<lparr>blocks := (blocks ?s1)(malloc X ?s1 \<mapsto> ?f)\<rparr>"
  define ps where "ps = [a div 4096..<Suc ((a + sz a - 1) div 4096)]"
  define s3 where "s3 = foreach_f ps privatize_if_shared8 s2"
  define w where "w = stm_flags8 s3 me a AND NOT GCFLAG_WRITE_BARRIER8"
  define s4 where "s4 = set_stm_flags8 me a w s3"
  have b1: "obj_bytes8 ?s1 g b = obj_bytes8 s g b" for g b by (simp add: stm_read8_def obj_bytes8_def vread8_def fun_eq_iff)
  have t: "t = trace_later8 me a s4"
    unfolding t_def barrier_ready_def Let_def n malloc_block_def snd_conv b1 s4_def w_def s3_def ps_def s2_def ..
  have v2: "vread8 s2 g = vread8 s g" "remap8 s2 = remap8 s" "by_segment8 s2 = by_segment8 s" "segs8 s2 = segs8 s"
    "uninitialized_page_start8 s2 = uninitialized_page_start8 s" "commit_log s2 = commit_log s" "log_taken s2 = log_taken s" for g
    by (simp_all add: s2_def stm_read8_def vread8_def fun_eq_iff)
  have pm: "page_maps8 s s2" by (simp add: page_maps8_def v2)
  have old: "old_page8 s2 q = old_page8 s q" for q by (simp add: old_page8_def v2)
  have "maps8 sz objs s2" using d(3) maps8_cong [OF pm] by simp
  then have p2: "privatized8 s2 s2" by (intro privatized8_refl) (simp add: maps8_def)
  have set: "set ps = obj_pages8 sz a" by (auto simp: ps_def obj_pages8_def)
  have po: "\<And>q. q \<in> set ps \<Longrightarrow> old_page8 s2 q" using d(3) a by (auto simp: set maps8_def old)
  note pp = privatize_range8 [where ps = ps, OF p2 po, folded s3_def]
  have p3: "\<And>g. g \<le> 3 \<Longrightarrow> vread8 s3 g = vread8 s g" "\<And>q. private8 s q \<Longrightarrow> private8 s3 q" "\<And>q. old_page8 s q \<Longrightarrow> mapped8 s3 q"
    "segs8 s3 = segs8 s" "rm8 s3 = rm8 s2" "blocks s3 = blocks s2" "commit_log s3 = commit_log s" "log_taken s3 = log_taken s"
    "uninitialized_page_start8 s3 = uninitialized_page_start8 s"
    using pp by (simp_all add: privatized8_def private8_def v2 old)
  have o3: "owned8 sz s3 a" using pp by (simp add: owned8_def set)
  have fr: "remap8 t = remap8 s3" "by_segment8 t = by_segment8 s3" "uninitialized_page_start8 t = uninitialized_page_start8 s3"
    "blocks t = blocks s3" "rm8 t = rm8 s3" "mem8 t = mem8 s4" "remap8 s4 = remap8 s3"
    by (simp_all add: t trace_later8_def s4_def set_stm_flags8_def)
  have pmt: "page_maps8 s3 t" by (simp add: page_maps8_def fr)
  show "blocks s p = None" using m by (simp add: malloc_ok8_def p_def stm_read8_def)
  show "blocks t = (blocks s)(p \<mapsto> (\<lambda>i. if i < sz a then obj_bytes8 s me a i else 0))"
    by (simp add: fr p3 s2_def p_def stm_read8_def)
  show "maps8 sz objs t"
    using p3(3) d(3) fr unfolding maps8_def old_page8_def mapped8_def is_shared_log_page_def by (simp add: p3(9))
  show "private8 s q \<Longrightarrow> private8 t q" using p3(2) by (simp add: private8_def fr)
  show "owned8 sz t a" using o3 owned8_cong [OF pmt] by simp
  show "commit_log t = commit_log s" "log_taken t = log_taken s"
    by (simp_all add: t trace_later8_def s4_def set_stm_flags8_def p3)
  show "mods8 t g = mods8 s g" "positions8 t g = positions8 s g"
    "transaction_read_version8 (segs8 t g) = transaction_read_version8 (segs8 s g)"
    "objects_pointing_to_nursery8 (segs8 t me) = objects_pointing_to_nursery8 (segs8 s me) @ [a]"
    "transaction_state8 (segs8 t g) = transaction_state8 (segs8 s g)"
    by (simp_all add: t trace_later8_def s4_def set_stm_flags8_def p3)
  show "rm8 t = (rm8 s)(me := (rm8 s me)(a div 16 := transaction_read_version8 (segs8 s me)))"
    by (simp add: fr p3 s2_def stm_read8_def)
  have view: "vread8 t g x = (if g = me \<and> a \<le> x \<and> x < a + 4 then byte_of32 w (x - a) else vread8 s g x)" if "g \<le> 3" for g x
  proof -
    have "vread8 t g x = vread8 s4 g x" by (simp add: vread8_def fr)
    also have "\<dots> = (if g = me \<and> a \<le> x \<and> x < a + 4 then byte_of32 w (x - a) else vread8 s3 g x)"
      unfolding s4_def set_stm_flags8_def vread8_vfill8
      using owned_private [OF o3, of x g] owned_private [OF o3, of x me] that me l(1) by (auto simp: in_obj_def)
    finally show ?thesis using p3(1) [OF that] by simp
  qed
  show "obj_bytes8 t g b i = obj_bytes8 s g b i"
    if "g \<le> 3" "b \<in> objs" "i < sz b" "\<not> (g = me \<and> b = a \<and> i < 4)" for g b i
    using view [OF that(1), of "b + i"] that(4) in_obj_unique [OF d(2) a that(2), of "b + i"]
      in_obj_offset [where sz = sz and a = b, OF that(3)] l(1) by (auto simp: obj_bytes8_def in_obj_def)
  have "stm_flags8 t me a = w"
    unfolding stm_flags8_def by (rule load32_bytes) (simp add: view [OF me])
  then show "stm_flags8 t me a = stm_flags8 s me a AND NOT GCFLAG_WRITE_BARRIER8"
    using p3(1) [OF me] by (simp add: w_def stm_flags8_def)
qed

text \<open>A state that has the backup, or had one before, is coherent with the same versions as before.\<close>

lemma barrier_coherent:
  assumes c: "coherent8 X sz objs s" and me: "me \<le> 3" and a: "a \<in> objs" and m: "malloc_ok8 X (stm_read8 me a s)"
  defines "r \<equiv> barrier_ready X me a s" and "p \<equiv> malloc X (stm_read8 me a s)"
  assumes t: "t = r \<and> backup8 s me a \<noteq> None \<or>
    (\<exists>tr. t = upd_seg8 me (\<lambda>q. q\<lparr>modified_old_objects8 := tr\<rparr>) r \<and> tree_inv8 tr \<and>
       tree_map8 tr = (tree_map8 (mods8 s me))(of_nat a \<mapsto> p) \<and> backup8 s me a = None)"
  shows "coherent8 X sz objs t" and "g \<le> 3 \<Longrightarrow> b \<in> objs \<Longrightarrow> i < sz b \<Longrightarrow> version8 t g b i = version8 s g b i"
    and "g \<le> 3 \<Longrightarrow> b \<in> objs \<Longrightarrow> i < sz b \<Longrightarrow> \<not> (g = me \<and> b = a \<and> i < 4) \<Longrightarrow> obj_bytes8 t g b i = obj_bytes8 s g b i"
    and "backup8 t me a \<noteq> None" and "owned8 sz t a" and "stm_was_read me a t"
    and "stm_flags8 t me a = stm_flags8 s me a AND NOT GCFLAG_WRITE_BARRIER8"
    and "positions8 t = positions8 s" and "commit_log t = commit_log s"
proof -
  have s: "solid8 X sz objs s" using c by (simp add: coherent8_def)
  note d = solidD [OF s]
  note f = barrier_ready_facts [OF c me a m, folded r_def p_def]
  have fr: "mem8 t = mem8 r" "remap8 t = remap8 r" "blocks t = blocks r" "rm8 t = rm8 r" "commit_log t = commit_log s"
    "page_maps8 r t" "\<And>g. positions8 t g = positions8 s g"
    "\<And>g. transaction_read_version8 (segs8 t g) = transaction_read_version8 (segs8 s g)"
    using t f(6,9,10) by (auto simp: page_maps8_def)
  have pres: "v \<noteq> p" if "g \<le> 3" "tree_map8 (mods8 s g) k = Some v" for g k v
    using trees_okD(3) [OF d(4) that] f(1) by auto
  have inv: "tree_inv8 (mods8 t g)" if "g \<le> 3" for g
    using t f(8) trees_okD(1) [OF d(4) that] by (auto simp: fun_upd_def)
  have mp: "tree_map8 (mods8 t g) = (if g = me \<and> backup8 s me a = None then (tree_map8 (mods8 s me))(of_nat a \<mapsto> p)
      else tree_map8 (mods8 s g))" for g
    using t f(8) by auto
  have bk: "backup8 t g b = (if g = me \<and> b = a \<and> backup8 s me a = None then Some p else backup8 s g b)" if "b \<in> objs" for g b
    using obj_key_inj [OF d(2) that a] by (auto simp: backup8_def mp)
  have ob: "obj_bytes8 t g b = obj_bytes8 r g b" for g b by (simp add: obj_bytes8_def vread8_def fr(1,2) fun_eq_iff)
  show bytes: "g \<le> 3 \<Longrightarrow> b \<in> objs \<Longrightarrow> i < sz b \<Longrightarrow> \<not> (g = me \<and> b = a \<and> i < 4) \<Longrightarrow> obj_bytes8 t g b i = obj_bytes8 s g b i" for g b i
    unfolding ob by (rule f(12))
  have blk: "block_bytes t v = block_bytes s v" if "v \<noteq> p" for v by (simp add: block_bytes_def fr(3) f(2) that)
  show ver: "version8 t g b i = version8 s g b i" if g: "g \<le> 3" and b: "b \<in> objs" and i: "i < sz b" for g b i
  proof (cases "backup8 s g b")
    case None
    show ?thesis
    proof (cases "g = me \<and> b = a")
      case True
      then have "backup8 t g b = Some p" using None bk [OF b] by simp
      moreover have "block_bytes t p i = obj_bytes8 s me a i" using True i by (simp add: block_bytes_def fr(3) f(2))
      ultimately show ?thesis using None True by (simp add: version8_def)
    next
      case False
      then have "backup8 t g b = None" using None bk [OF b] by auto
      moreover have "obj_bytes8 t g b i = obj_bytes8 s g b i" using False bytes [OF g b i] by blast
      ultimately show ?thesis using None by (simp add: version8_def)
    qed
  next
    case (Some v)
    have "v \<noteq> p" using pres [OF g] Some by (simp add: backup8_def)
    then show ?thesis using Some bk [OF b] by (auto simp: version8_def blk)
  qed
  show "backup8 t me a \<noteq> None" using bk [OF a] by auto
  show own: "owned8 sz t a" using f(5) owned8_cong [OF fr(6)] by simp
  have ow: "owned8 sz t b" if "owned8 sz s b" for b
    using that f(4) owned8_cong [OF fr(6)] by (simp add: owned8_def)
  have rd: "stm_was_read g b t" if "stm_was_read g b s" for g b
    using that by (auto simp: stm_was_read_def fr(4,8) f(11))
  show ra: "stm_was_read me a t" by (simp add: stm_was_read_def fr(4,8) f(11))
  show "stm_flags8 t me a = stm_flags8 s me a AND NOT GCFLAG_WRITE_BARRIER8"
    using f(14) by (simp add: stm_flags8_def load32_def vread8_def fr(1,2))
  show pos: "positions8 t = positions8 s" using fr(7) by (simp add: fun_eq_iff)
  show "commit_log t = commit_log s" by (fact fr(5))
  have "content8 X sz objs t"
    unfolding content8_def
  proof (intro ballI allI impI conjI)
    fix b g assume b: "b \<in> objs" and g: "g \<le> (3::nat)"
    note ct = contentD [OF d(7) b g]
    show "stmcb_size_rounded_up8 X (version8 t g b) = sz b" by (rule cb_ok8D [OF d(1) ct(1) ver [OF g b]])
    show "stmcb_size_rounded_up8 X (obj_bytes8 t g b) = sz b"
      by (rule cb_ok8_flags [OF d(1) ct(2)]) (use bytes [OF g b] in auto)
    have "load32 (version8 t g b) 0 = load32 (version8 s g b) 0"
      using ver [OF g b] layout8D(1) [OF d(2) b] by (intro load32_cong) simp
    then show "WB8_in (load32 (version8 t g b) 0)" using ct(3) by simp
  qed
  moreover have "trees_ok8 sz objs t"
    unfolding trees_ok8_def
  proof (intro conjI allI impI)
    show "tree_inv8 (mods8 t g)" if "g \<le> 3" for g by (rule inv [OF that])
    fix g k v assume g: "g \<le> (3::nat)" and kv: "tree_map8 (mods8 t g) k = Some v"
    show "\<exists>a \<in> objs. k = of_nat a \<and> owned8 sz t a"
      using kv own a trees_okD(2) [OF d(4) g, of k] ow by (auto simp: mp split: if_splits)
    show "blocks t v \<noteq> None"
      using kv trees_okD(3) [OF d(4) g, of k] by (auto simp: mp fr(3) f(2) split: if_splits)
  qed
  moreover have "apart8 t"
    unfolding apart8_def
  proof (intro allI impI)
    fix g h k l v assume gh: "g \<le> (3::nat)" "h \<le> (3::nat)"
      and kl: "tree_map8 (mods8 t g) k = Some v" "tree_map8 (mods8 t h) l = Some v"
    have x: "v = p \<and> g' = me \<and> k' = of_nat a \<or> v \<noteq> p \<and> tree_map8 (mods8 s g') k' = Some v"
      if "g' \<le> 3" "tree_map8 (mods8 t g') k' = Some v" for g' k'
      using that pres [OF that(1), of k' v] by (auto simp: mp split: if_splits)
    show "g = h \<and> k = l"
      using x [OF gh(1) kl(1)] x [OF gh(2) kl(2)] d(5) gh unfolding apart8_def by blast
  qed
  moreover have "log_ok8 sz objs t" using d(6) ow unfolding log_ok8_def fr(5) by blast
  moreover have "maps8 sz objs t" using f(3) maps8_cong [OF fr(6)] by simp
  ultimately have "solid8 X sz objs t" using d(1,2) by (simp add: solid8_def)
  moreover have "readers8 objs g t" if "g \<le> 3" for g
    using c that rd ra by (auto simp: coherent8_def readers8_def bk split: if_splits)
  moreover have "newest sz objs (version8 t) (commit_log s) (positions8 s)"
  proof (rule newest_cong)
    show "newest sz objs (version8 s) (commit_log s) (positions8 s)" using c by (simp add: coherent8_def)
  qed (rule ver)
  ultimately show "coherent8 X sz objs t" using c by (simp add: coherent8_def fr(5) pos)
qed

lemma stm_write_slowpath8_returns:
  assumes c: "coherent8 X sz objs s" and me: "me \<le> 3" and a: "a \<in> objs" and m: "malloc_ok8 X (stm_read8 me a s)"
  defines "r \<equiv> barrier_ready X me a s" and "p \<equiv> malloc X (stm_read8 me a s)"
  obtains t where "stm_write_slowpath8 X me a s = Ret () t" and "t = r \<and> backup8 s me a \<noteq> None \<or>
    (\<exists>tr. t = upd_seg8 me (\<lambda>q. q\<lparr>modified_old_objects8 := tr\<rparr>) r \<and> tree_inv8 tr \<and>
       tree_map8 tr = (tree_map8 (mods8 s me))(of_nat a \<mapsto> p) \<and> backup8 s me a = None)"
proof -
  have s: "solid8 X sz objs s" using c by (simp add: coherent8_def)
  note k = obj_key [OF solidD(2) [OF s] a]
  note i = trees_okD(1) [OF solidD(4) [OF s] me]
  have mods: "mods8 r me = mods8 s me" using barrier_ready_facts(8) [OF c me a m] by (simp add: r_def)
  have ct: "tree_contains8 (mods8 r me) (of_nat a) \<longleftrightarrow> backup8 s me a \<noteq> None"
    using tree_contains8_map [OF i k(2)] by (simp add: mods backup8_def)
  show ?thesis
  proof (cases "backup8 s me a = None")
    case True
    then obtain tr where tr: "tree_insert8 (mods8 s me) (of_nat a) p = Inr tr" "tree_inv8 tr"
      "tree_map8 tr = (tree_map8 (mods8 s me))(of_nat a \<mapsto> p)"
      using tree_insert8_map [OF i k(3,2)] by (auto simp: backup8_def)
    have "stm_write_slowpath8 X me a s = Ret () (upd_seg8 me (\<lambda>q. q\<lparr>modified_old_objects8 := tr\<rparr>) r)"
      using True ct tr(1) by (simp add: stm_write_slowpath8_eq register_backup8_def Let_def r_def [symmetric] p_def [symmetric] mods)
    then show ?thesis using that True tr(2,3) by blast
  next
    case False
    then have "stm_write_slowpath8 X me a s = Ret () r"
      using ct by (simp add: stm_write_slowpath8_eq register_backup8_def Let_def r_def [symmetric] p_def [symmetric])
    then show ?thesis using that False by blast
  qed
qed

text \<open>All of this for one call; \<open>p\<close> is the block that \<open>malloc\<close> returns.\<close>

lemma barrier_step:
  assumes c: "coherent8 X sz objs s" and me: "me \<le> 3" and a: "a \<in> objs" and m: "malloc_ok8 X (stm_read8 me a s)"
  obtains t where "stm_write_slowpath8 X me a s = Ret () t" and "coherent8 X sz objs t"
    and "\<And>g b i. g \<le> 3 \<Longrightarrow> b \<in> objs \<Longrightarrow> i < sz b \<Longrightarrow> version8 t g b i = version8 s g b i"
    and "\<And>g b i. g \<le> 3 \<Longrightarrow> b \<in> objs \<Longrightarrow> i < sz b \<Longrightarrow> \<not> (g = me \<and> b = a \<and> i < 4) \<Longrightarrow> obj_bytes8 t g b i = obj_bytes8 s g b i"
    and "backup8 t me a \<noteq> None" and "owned8 sz t a" and "stm_was_read me a t"
    and "stm_flags8 t me a = stm_flags8 s me a AND NOT GCFLAG_WRITE_BARRIER8"
    and "positions8 t = positions8 s" and "commit_log t = commit_log s" and "log_taken t = log_taken s"
    and "\<And>g b. b \<in> objs \<Longrightarrow> \<not> (g = me \<and> b = a) \<Longrightarrow> backup8 t g b = backup8 s g b"
    and "\<And>g b. g \<noteq> me \<or> b div 16 \<noteq> a div 16 \<Longrightarrow> stm_was_read g b t = stm_was_read g b s"
    and "\<And>g. transaction_state8 (segs8 t g) = transaction_state8 (segs8 s g)"
    and "blocks t = (blocks s)(malloc X (stm_read8 me a s) \<mapsto> (\<lambda>i. if i < sz a then obj_bytes8 s me a i else 0))"
proof -
  obtain t where r: "stm_write_slowpath8 X me a s = Ret () t" and
    t: "t = barrier_ready X me a s \<and> backup8 s me a \<noteq> None \<or>
      (\<exists>tr. t = upd_seg8 me (\<lambda>q. q\<lparr>modified_old_objects8 := tr\<rparr>) (barrier_ready X me a s) \<and> tree_inv8 tr \<and>
       tree_map8 tr = (tree_map8 (mods8 s me))(of_nat a \<mapsto> malloc X (stm_read8 me a s)) \<and> backup8 s me a = None)"
    using stm_write_slowpath8_returns [OF c me a m] by blast
  note f = barrier_ready_facts [OF c me a m]
  note b = barrier_coherent [OF c me a m t]
  have l: "layout8 sz objs" using c by (simp add: coherent8_def solid8_def)
  have "log_taken t = log_taken s" "blocks t = blocks (barrier_ready X me a s)" "rm8 t = rm8 (barrier_ready X me a s)"
    using t f(7) by auto
  moreover have "backup8 t g b = backup8 s g b" if "b \<in> objs" "\<not> (g = me \<and> b = a)" for g b
    using t f(8) obj_key_inj [OF l that(1) a] that(2) by (auto simp: backup8_def)
  moreover have "transaction_state8 (segs8 t g) = transaction_state8 (segs8 s g)"
    "transaction_read_version8 (segs8 t g) = transaction_read_version8 (segs8 s g)" for g
    using t f(10,15) by auto
  ultimately show ?thesis
    using that [OF r b(1-9)] f(2,9,11) by (auto simp: stm_was_read_def)
qed

end
