(* ===== verification/C8setup.thy ===== *)
theory C8setup
  imports C8core
begin

text \<open>
  \<open>c8/stm/setup.c\<close>: the state after \<open>stm_setup\<close> and the ring of thread-locals; and
  \<open>prebuilt.c\<close>, which copies the objects of the program to the heap.
\<close>

section \<open>Starting the library\<close>

definition zero_pseg8 :: pseg8 where
  "zero_pseg8 = \<lparr>transaction_read_version8 = 0, nursery_current8 = 0, nursery_end8 = 0, running_thread8 = None,
     modified_old_objects8 = tree_create8, objects_pointing_to_nursery8 = [], young_outside_nursery8 = tree_create8,
     nursery_objects_shadows8 = tree_create8, safe_point8 = SP_NO_TRANSACTION8, transaction_state8 = TS_NONE8,
     callbacks_on_commit_and_abort8 = (\<lambda>_. tree_create8), last_commit_log_entry = 0,
     shadowstack_at_start_of_transaction8 = 0\<rparr>"

definition setup_segment8 :: "nat \<Rightarrow> stm8 \<Rightarrow> stm8" where
  "setup_segment8 i = upd_seg8 i (\<lambda>_. zero_pseg8\<lparr>last_commit_log_entry := 0, transaction_read_version8 := 0xff\<rparr>)"

text \<open>The new mapping is full of zeros, and every page of a segment is its own.\<close>

definition setup_mmap8 :: "stm8 \<Rightarrow> stm8" where
  "setup_mmap8 s = s\<lparr>mem8 := (\<lambda>_ _. 0), remap8 := (\<lambda>g _. g), rm8 := (\<lambda>_ _. 0)\<rparr>"

definition stm_setup8 :: "stm8 \<Rightarrow> stm8" where
  "stm_setup8 s =
     (let s = setup_mmap8 s;
          s = foreach_f segments8 setup_segment8 s;
          s = setup_nursery8 s
      in setup_gcpage8 s)"

text \<open>The static variables when the process starts; \<open>tls\<close> are the program's thread-locals.\<close>

definition static_state8 :: "(nat \<Rightarrow> tl8) \<Rightarrow> stm8" where
  "static_state8 t = \<lparr>mem8 = (\<lambda>_ _. 0), remap8 = (\<lambda>_ _. 0), rm8 = (\<lambda>_ _. 0), by_segment8 = (\<lambda>_. 0),
     segs8 = (\<lambda>_. zero_pseg8), blocks = (\<lambda>_. None), commit_log = [], log_taken = False, in_use8 = (\<lambda>_. 0),
     pause_signalled8 = False, globally_unique_transaction8 = False, uninitialized_page_start8 = 0,
     uninitialized_page_stop8 = 0, tls8 = t, stm_all_thread_locals8 = None, clock8 = 0, events8 = []\<rparr>"

text \<open>\<open>stm_teardown\<close>: the static variables that it resets; the flags of the threads stay.\<close>

definition stm_teardown8 :: "stm8 \<Rightarrow> stm8" where
  "stm_teardown8 s = teardown_pages8 (s\<lparr>commit_log := [], log_taken := False, in_use8 := (\<lambda>_. 0)\<rparr>)"

section \<open>Thread-locals\<close>

definition SS_STOPPER8 :: nat where "SS_STOPPER8 = 2 ^ 64 - 1"

definition stm_register_thread_local8 :: "nat \<Rightarrow> stm8 \<Rightarrow> nat \<times> stm8" where
  "stm_register_thread_local8 t s =
     (let (num, s) =
        (case stm_all_thread_locals8 s of
           None \<Rightarrow> (0, (upd_tl8 t (\<lambda>x. x\<lparr>tl_next8 := Some t, tl_prev8 := Some t\<rparr>) s)\<lparr>stm_all_thread_locals8 := Some t\<rparr>)
         | Some h \<Rightarrow>
             let s = upd_tl8 t (\<lambda>x. x\<lparr>tl_next8 := Some h\<rparr>) s;
                 s = upd_tl8 t (\<lambda>x. x\<lparr>tl_prev8 := tl_prev8 (tls8 s h)\<rparr>) s;
                 s = upd_tl8 (the (tl_prev8 (tls8 s h))) (\<lambda>x. x\<lparr>tl_next8 := Some t\<rparr>) s;
                 s = upd_tl8 h (\<lambda>x. x\<lparr>tl_prev8 := Some t\<rparr>) s
             in ((associated_segment_num8 (tls8 s (the (tl_prev8 (tls8 s t)))) + 1) mod NB_SEGMENTS8, s));
        s = upd_tl8 t (\<lambda>x. x\<lparr>associated_segment_num8 := num\<rparr>) s
      in (num, upd_tl8 t (\<lambda>x. x\<lparr>shadowstack8 := [SS_STOPPER8]\<rparr>) s))"

definition stm_unregister_thread_local8 :: "nat \<Rightarrow> stm8 \<Rightarrow> stm8" where
  "stm_unregister_thread_local8 t s =
     (let s = upd_tl8 t (\<lambda>x. x\<lparr>shadowstack8 := []\<rparr>) s;
          s = (if stm_all_thread_locals8 s = Some t
               then s\<lparr>stm_all_thread_locals8 := tl_next8 (tls8 s t)\<rparr> else s)
      in if stm_all_thread_locals8 s = Some t then s\<lparr>stm_all_thread_locals8 := None\<rparr>
         else let s = upd_tl8 (the (tl_prev8 (tls8 s t))) (\<lambda>x. x\<lparr>tl_next8 := tl_next8 (tls8 s t)\<rparr>) s;
                  s = upd_tl8 (the (tl_next8 (tls8 s t))) (\<lambda>x. x\<lparr>tl_prev8 := tl_prev8 (tls8 s t)\<rparr>) s
              in upd_tl8 t (\<lambda>x. x\<lparr>tl_prev8 := None, tl_next8 := None\<rparr>) s)"

definition is_tl_registered8 :: "nat \<Rightarrow> stm8 \<Rightarrow> bool" where
  "is_tl_registered8 t s \<longleftrightarrow> tl_next8 (tls8 s t) \<noteq> None"

section \<open>Prebuilt objects\<close>

type_synonym prebuilt8 = "tree8 \<times> nat list \<times> stm8"

text \<open>
  \<open>static\<close> is the memory of the program that holds the originals. The result is what
  \<open>prebuilt_trace\<close> stores into the field.
\<close>

definition prebuilt_trace8 :: "ext8 \<Rightarrow> (nat \<Rightarrow> u8) \<Rightarrow> nat \<Rightarrow> nat \<Rightarrow> prebuilt8 \<Rightarrow> (prebuilt8, nat) res" where
  "prebuilt_trace8 X static me obj st =
     (let (tr, todo, s) = st
      in if obj = 0 then Ret 0 st
         else case tree_find8 tr (of_nat obj) of
                Some v \<Rightarrow> Ret (unat v) st
              | None \<Rightarrow>
                  let sz = stmcb_size_rounded_up8 X (\<lambda>i. static (obj + i))
                  in case stm_allocate_old8 me (sz + 8) s of
                       Ret nobj s \<Rightarrow>
                         let s = vfill8 0 nobj sz (\<lambda>x. static (obj + (x - nobj))) s;
                             s = set_stm_flags8 me nobj GCFLAG_WRITE_BARRIER8 s
                         in (case tree_insert8 tr (of_nat obj) (of_nat nobj) of
                               Inl e \<Rightarrow> Fatal ''tree_insert'' (tr, todo, s)
                             | Inr tr \<Rightarrow> Ret nobj (tr, todo @ [nobj], s))
                     | Aborted s \<Rightarrow> Aborted (tr, todo, s)
                     | Fatal m s \<Rightarrow> Fatal m (tr, todo, s)
                     | Hang s \<Rightarrow> Hang (tr, todo, s))"

fun prebuilt_fields8 :: "ext8 \<Rightarrow> (nat \<Rightarrow> u8) \<Rightarrow> nat \<Rightarrow> nat \<Rightarrow> nat list \<Rightarrow> prebuilt8 \<Rightarrow> (prebuilt8, unit) res" where
  "prebuilt_fields8 X static me obj [] st = Ret () st"
| "prebuilt_fields8 X static me obj (off # offs) st =
     bind_res (prebuilt_trace8 X static me (vload64_8 (snd (snd st)) 0 (obj + off)) st)
       (\<lambda>p (tr, todo, s). prebuilt_fields8 X static me obj offs (tr, todo, vstore64_8 0 (obj + off) p s))"

text \<open>The fuel is the number of objects to copy.\<close>

fun prebuilt_loop8 :: "nat \<Rightarrow> ext8 \<Rightarrow> (nat \<Rightarrow> u8) \<Rightarrow> nat \<Rightarrow> prebuilt8 \<Rightarrow> (prebuilt8, unit) res" where
  "prebuilt_loop8 0 X static me (tr, todo, s) = (if todo = [] then Ret () (tr, todo, s) else Hang (tr, todo, s))"
| "prebuilt_loop8 (Suc n) X static me (tr, todo, s) =
     (if todo = [] then Ret () (tr, todo, s)
      else let obj = last todo
           in bind_res (prebuilt_fields8 X static me obj (stmcb_trace8 X (obj_bytes8 s 0 obj)) (tr, butlast todo, s))
                (\<lambda>_. prebuilt_loop8 n X static me))"

text \<open>\<open>tr\<close> is \<open>tree_prebuilt_objs\<close>, which lives on between the calls, None when NULL.\<close>

definition stm_setup_prebuilt8 ::
  "nat \<Rightarrow> ext8 \<Rightarrow> (nat \<Rightarrow> u8) \<Rightarrow> nat \<Rightarrow> nat \<Rightarrow> tree8 option \<Rightarrow> stm8 \<Rightarrow> (prebuilt8, nat) res" where
  "stm_setup_prebuilt8 fuel X static me staticobj tr s =
     (let tr = (case tr of None \<Rightarrow> tree_create8 | Some t \<Rightarrow> t)
      in bind_res (prebuilt_trace8 X static me staticobj (tr, [], s)) (\<lambda>obj st.
         bind_res (prebuilt_loop8 fuel X static me st) (\<lambda>_ st. Ret obj st)))"

end
