(* ===== verification/C8theorems.thy ===== *)
theory C8theorems
  imports C8write C8setup
begin

text \<open>
  The theorems about \<open>c8\<close>, with a heap of two objects on which their hypotheses hold.
\<close>

section \<open>Stores\<close>

text \<open>A store by the program in an object that the segment has a backup of.\<close>

lemma store_coherent8:
  fixes f :: "nat \<Rightarrow> u8"
  assumes c: "coherent8 X sz objs s" and me: "me \<le> 3" and a: "a \<in> objs" and b: "backup8 s me a \<noteq> None"
    and x: "a \<le> x" "x + n \<le> a + sz a"
  defines "t \<equiv> vfill8 me x n f s"
  assumes z: "stmcb_size_rounded_up8 X (obj_bytes8 t me a) = sz a"
  shows "coherent8 X sz objs t" and "g \<le> 3 \<Longrightarrow> o' \<in> objs \<Longrightarrow> i < sz o' \<Longrightarrow> version8 t g o' i = version8 s g o' i"
    and "i < n \<Longrightarrow> vread8 t me (x + i) = f (x + i)"
proof -
  have s: "solid8 X sz objs s" using c by (simp add: coherent8_def)
  note d = solidD [OF s]
  obtain v where v: "tree_map8 (mods8 s me) (of_nat a) = Some v" using b by (auto simp: backup8_def)
  have o: "owned8 sz s a"
    using trees_okD(2) [OF d(4) me v] obj_key_inj [OF d(2) a] by auto
  have view: "vread8 t g y = (if g = me \<and> x \<le> y \<and> y < x + n then f y else vread8 s g y)" if "g \<le> 3" for g y
    using owned_private [OF o, of y me] owned_private [OF o, of y g] that me x
    by (auto simp: t_def vread8_vfill8 in_obj_def)
  then show "i < n \<Longrightarrow> vread8 t me (x + i) = f (x + i)" using me by simp
  have fr: "page_maps8 s t" "commit_log t = commit_log s" "blocks t = blocks s" "segs8 t = segs8 s" "rm8 t = rm8 s"
    by (simp_all add: t_def page_maps8_def)
  have bk: "backup8 t g c = backup8 s g c" for g c by (simp add: backup8_def fr)
  have bytes: "obj_bytes8 t g c i = obj_bytes8 s g c i" if "g \<le> 3" "c \<in> objs" "i < sz c" "\<not> (g = me \<and> c = a)" for g c i
    using view [OF that(1), of "c + i"] in_obj_unique [OF d(2) a that(2), of "c + i"]
      in_obj_offset [where sz = sz and a = c, OF that(3)] that(4) x by (auto simp: obj_bytes8_def in_obj_def)
  have ver: "version8 t g c i = version8 s g c i" if "g \<le> 3" "c \<in> objs" "i < sz c" for g c i
  proof (cases "backup8 s g c")
    case None
    then have "\<not> (g = me \<and> c = a)" using b by auto
    then show ?thesis using bytes [OF that] None by (simp add: version8_def bk)
  qed (simp add: version8_def bk block_bytes_def fr)
  then show "g \<le> 3 \<Longrightarrow> o' \<in> objs \<Longrightarrow> i < sz o' \<Longrightarrow> version8 t g o' i = version8 s g o' i" by blast
  have "content8 X sz objs t"
    unfolding content8_def
  proof (intro ballI allI impI conjI)
    fix c g assume c: "c \<in> objs" and g: "g \<le> (3::nat)"
    note ct = contentD [OF d(7) c g]
    show "stmcb_size_rounded_up8 X (version8 t g c) = sz c" by (rule cb_ok8D [OF d(1) ct(1) ver [OF g c]])
    show "stmcb_size_rounded_up8 X (obj_bytes8 t g c) = sz c"
      using z cb_ok8D [OF d(1) ct(2) bytes [OF g c]] by (cases "g = me \<and> c = a") auto
    have "load32 (version8 t g c) 0 = load32 (version8 s g c) 0"
      using ver [OF g c] layout8D(1) [OF d(2) c] by (intro load32_cong) simp
    then show "WB8_in (load32 (version8 t g c) 0)" using ct(3) by simp
  qed
  then have "solid8 X sz objs t"
    by (intro solid8_content [OF s fr(1,2)]) (use trees_okD(1) [OF d(4)] in \<open>simp_all add: fr\<close>)
  moreover have "readers8 objs g t" if "g \<le> 3" for g
    using c that by (simp add: coherent8_def readers8_def bk stm_was_read_def fr)
  moreover have "newest sz objs (version8 t) (commit_log s) (positions8 s)"
  proof (rule newest_cong)
    show "newest sz objs (version8 s) (commit_log s) (positions8 s)" using c by (simp add: coherent8_def)
  qed (rule ver)
  ultimately show "coherent8 X sz objs t" using c by (simp add: coherent8_def fr)
qed

section \<open>Threads that do not interfere\<close>

definition quiet8 :: "ext8 \<Rightarrow> bool" where
  "quiet8 X \<longleftrightarrow> (\<forall>n s. others_run8 X n s = s) \<and> (\<forall>n c s. other_threads8 X n c s = s)"

lemma quiet8_rely: "quiet8 X \<Longrightarrow> me \<le> 3 \<Longrightarrow> rely8 X sz objs me"
  using undisturbed8_same_heap [OF _ _ same_heap8_refl refl] by (simp add: rely8_def quiet8_def)

text \<open>Then a validation needs one look at the log for each entry, and one for its end.\<close>

lemma quiet_validate_ends:
  assumes q: "quiet8 X" and me: "me \<le> 3"
  shows "coherent8 X sz objs s \<Longrightarrow> positions8 s me = cl \<Longrightarrow> \<not> log_taken s \<Longrightarrow> length (commit_log s) - cl < n \<Longrightarrow>
    \<exists>t. validate_loop8 n X me cl na s = Ret (na \<or> (\<exists>a \<in> written_between (commit_log s) cl (length (commit_log s)). stm_was_read me a s)) t \<and>
      transaction_state8 (segs8 t me) = transaction_state8 (segs8 s me)"
proof (induction n arbitrary: s cl na)
  case (Suc n)
  define r where "r = s\<lparr>clock8 := Suc (clock8 s)\<rparr>"
  have i: "interleave8 X s = r" using q by (simp add: interleave8_def quiet8_def r_def)
  have h: "same_heap8 s r" unfolding r_def by (rule same_heap8_fields)
  have c: "coherent8 X sz objs r" by (rule coherent8_same_heap [OF h Suc.prems(1)])
  have r: "positions8 r me = cl" "commit_log r = commit_log s" "\<not> log_taken r" "segs8 r = segs8 s" "rm8 r = rm8 s"
    using Suc.prems(2,3) by (simp_all add: r_def)
  show ?case
  proof (cases "cl < length (commit_log s)")
    case True
    let ?e = "commit_log r ! cl" let ?na = "na \<or> (\<exists>a \<in> set (written ?e). stm_was_read me a r)"
    have l: "cl < length (commit_log r)" using True r(2) by simp
    obtain t where t: "replay_entry8 X me ?e na r = (?na, t)" and
      tu: "let u = upd_seg8 me (\<lambda>p. p\<lparr>last_commit_log_entry := cl + 1\<rparr>) t
       in coherent8 X sz objs u \<and> advance8 sz objs me r u \<and> positions8 u me = cl + 1 \<and>
          commit_log u = commit_log r \<and> same_reads8 r u"
      using replay_step8 [OF c me r(1) l, of na] by blast
    define u where "u = upd_seg8 me (\<lambda>p. p\<lparr>last_commit_log_entry := cl + 1\<rparr>) t"
    have u: "coherent8 X sz objs u" "advance8 sz objs me r u" "positions8 u me = cl + 1" "commit_log u = commit_log s" "same_reads8 r u"
      using tu r(2) by (simp_all add: Let_def u_def)
    have lt: "\<not> log_taken u"
    proof -
      have "log_taken (snd (fold (replay_object8 X me h) W st)) = log_taken (snd st)" for h W and st :: "bool \<times> stm8"
        by (rule fold_frame [where g = "\<lambda>st. log_taken (snd st)"]) (auto simp: replay_object8_eq)
      then have "log_taken (snd (replay_entry8 X me ?e na r)) = log_taken r"
        by (simp add: replay_entry8_def foreach_f_def)
      then show ?thesis using t r(3) by (simp add: u_def)
    qed
    have "length (commit_log u) - (cl + 1) < n" using Suc.prems(4) True u(4) by simp
    note ih = Suc.IH [OF u(1,3) lt this, of ?na]
    have w: "written_between (commit_log s) cl (length (commit_log s)) =
        set (written ?e) \<union> written_between (commit_log s) (cl + 1) (length (commit_log s))"
      using written_between_split [of cl "cl + 1" "length (commit_log s)" "commit_log s"] True r(2)
      by (simp add: written_between_def [of _ cl "Suc cl"])
    have rd: "stm_was_read me b u = stm_was_read me b s" "stm_was_read me b r = stm_was_read me b s" for b
      using advance8_read [OF u(2), of b] by (simp_all add: stm_was_read_def [of me b r] stm_was_read_def [of me b s] r(4,5))
    have "transaction_state8 (segs8 u me) = transaction_state8 (segs8 s me)" using u(2) r(4) by (simp add: advance8_def)
    moreover have "validate_loop8 (Suc n) X me cl na s = validate_loop8 n X me (cl + 1) ?na u"
      using l t by (simp add: Let_def i u_def)
    ultimately show ?thesis using ih unfolding w u(4) rd by (simp add: bex_Un disj_assoc)
  next
    case False
    then have "written_between (commit_log s) cl (length (commit_log s)) = {}" by (simp add: written_between_def)
    moreover have "validate_loop8 (Suc n) X me cl na s = Ret na r" using False r(2,3) by (simp add: Let_def i)
    ultimately show ?thesis using r(4) by simp
  qed
qed simp

lemma abort_with_mutex8_regular:
  "transaction_state8 (segs8 s me) = TS_REGULAR8 \<Longrightarrow> \<exists>t. abort_with_mutex8 X me s = Aborted t"
  by (auto simp: abort_with_mutex8_def abort_with_mutex_no_longjmp8_def abort_data_structures8_def split_beta Let_def
    split: option.split)

lemma quiet_validate:
  assumes q: "quiet8 X" and me: "me \<le> 3" and c: "coherent8 X sz objs s" and st: "transaction_state8 (segs8 s me) = TS_REGULAR8"
    and lt: "\<not> log_taken s" and n: "length (commit_log s) - positions8 s me < n"
  shows "if \<exists>a \<in> written_between (commit_log s) (positions8 s me) (length (commit_log s)). stm_was_read me a s
    then \<exists>t. stm_validate8 n X me s = Aborted t else \<exists>t. stm_validate8 n X me s = Ret () t"
proof -
  obtain t where t: "validate_loop8 n X me (positions8 s me) False s =
      Ret (\<exists>a \<in> written_between (commit_log s) (positions8 s me) (length (commit_log s)). stm_was_read me a s) t"
      "transaction_state8 (segs8 t me) = TS_REGULAR8"
    using quiet_validate_ends [OF q me c refl lt n, of False] st by auto
  have "\<exists>u. abort_with_mutex8 X me t = (Aborted u :: (stm8, unit) res)" by (rule abort_with_mutex8_regular [OF t(2)])
  then show ?thesis using st t(1) by (auto simp: stm_validate8_def stm_abort_transaction8_def)
qed

section \<open>The write set as a log entry\<close>

lemma written_entry8:
  assumes s: "solid8 X sz objs s" and me: "me \<le> 3"
  shows "segment_num (create_commit_log_entry8 me s) = me"
    and "set (written (create_commit_log_entry8 me s)) = {a \<in> objs. backup8 s me a \<noteq> None}"
proof -
  note d = solidD [OF s]
  note i = trees_okD(1) [OF d(4) me]
  have k: "a \<in> objs \<Longrightarrow> unat (of_nat a :: u64) = a" for a by (rule obj_key(1) [OF d(2)])
  have "a \<in> set (written (create_commit_log_entry8 me s)) \<longleftrightarrow> (\<exists>x v. tree_map8 (mods8 s me) x = Some v \<and> a = unat x)" for a
    using tree_map8_Some [OF i] by (force simp: create_commit_log_entry8_def)
  moreover have "(\<exists>x v. tree_map8 (mods8 s me) x = Some v \<and> a = unat x) \<longleftrightarrow> a \<in> objs \<and> backup8 s me a \<noteq> None" for a
    using trees_okD(2) [OF d(4) me] k by (fastforce simp: backup8_def)
  ultimately show "set (written (create_commit_log_entry8 me s)) = {a \<in> objs. backup8 s me a \<noteq> None}" by auto
qed (simp add: create_commit_log_entry8_def)

text \<open>What a segment has modified, it has read, so it is not in the entries that a validation accepts.\<close>

lemma advance8_modified:
  assumes c: "coherent8 X sz objs s" and me: "me \<le> 3" and a: "advance8 sz objs me s t"
    and p: "positions8 t me = length (commit_log t)"
    and r: "\<forall>a \<in> written_between (commit_log t) (positions8 s me) (length (commit_log t)). \<not> stm_was_read me a s"
    and b: "b \<in> objs" "backup8 s me b \<noteq> None"
  shows "backup8 t me b = backup8 s me b" and "i < sz b \<Longrightarrow> obj_bytes8 t me b i = obj_bytes8 s me b i"
proof -
  have "stm_was_read me b s" using c me b by (simp add: coherent8_def readers8_def)
  then have "b \<notin> written_between (commit_log t) (positions8 s me) (positions8 t me)" using r p by auto
  then show "backup8 t me b = backup8 s me b" "i < sz b \<Longrightarrow> obj_bytes8 t me b i = obj_bytes8 s me b i"
    using a b(1) by (simp_all add: advance8_def)
qed

text \<open>
  The gap of a commit: from \<open>u\<close>, where the entry is attached, to \<open>v\<close>, where the lock for the
  clearing of the write set is taken. The other threads did not look at the log in between: they
  attached nothing, and what they did is what \<open>rely8\<close> allows when the new entry is not there yet.
\<close>

definition gap8 :: "ext8 \<Rightarrow> (nat \<Rightarrow> nat) \<Rightarrow> nat set \<Rightarrow> nat \<Rightarrow> stm8 \<Rightarrow> stm8 \<Rightarrow> bool" where
  "gap8 X sz objs me u v \<longleftrightarrow> commit_log v = commit_log u \<and>
     undisturbed8 X sz objs me (u\<lparr>commit_log := butlast (commit_log u)\<rparr>) (v\<lparr>commit_log := butlast (commit_log v)\<rparr>)"

lemma undisturbed8_keeps:
  assumes u: "undisturbed8 X sz objs me s t" and b: "b \<in> objs"
  shows "backup8 t me b = backup8 s me b" and "i < sz b \<Longrightarrow> obj_bytes8 t me b i = obj_bytes8 s me b i"
  using u b by (simp_all add: undisturbed8_def advance8_def written_between_def)

text \<open>A commit that has attached its entry, and then clears its write set.\<close>

lemma commit_attaches8:
  assumes r: "rely8 X sz objs me" and me: "me \<le> 3" and c: "coherent8 X sz objs s"
    and st: "transaction_state8 (segs8 s me) = TS_REGULAR8"
    and v: "validate_and_add_to_commit_log8 n X me s = Ret () u" and gap: "gap8 X sz objs me u v"
  defines "e \<equiv> create_commit_log_entry8 me s" and "t \<equiv> clear_write_set8 me v"
  shows "coherent8 X sz objs t" and "\<exists>new. commit_log t = commit_log s @ new @ [e] \<and>
      (\<forall>a \<in> written_between (commit_log t) (positions8 s me) (length (commit_log t) - 1). \<not> stm_was_read me a s)"
    and "a \<in> objs \<Longrightarrow> backup8 s me a \<noteq> None \<Longrightarrow> i < sz a \<Longrightarrow> version8 t me a i = committed8 s me a i"
    and "up_to_date (commit_log t) (positions8 t) me a"
proof -
  have s: "solid8 X sz objs s" using c by (simp add: coherent8_def)
  obtain w where w: "u = w\<lparr>commit_log := commit_log w @ [e]\<rparr>" "coherent8 X sz objs w" "advance8 sz objs me s w"
    "positions8 w me = length (commit_log w)" "\<forall>a \<in> written_between (commit_log w) (positions8 s me) (length (commit_log w)). \<not> stm_was_read me a s"
    using attach_loop8_spec [OF r me c st, of n "\<lambda>s. s\<lparr>commit_log := commit_log s @ [e]\<rparr>"] v st
    by (auto simp: validate_and_add_to_commit_log8_def Let_def e_def)
  note m = advance8_modified [OF c me w(3-5)]
  define w' where "w' = v\<lparr>commit_log := commit_log w\<rparr>"
  have gap': "undisturbed8 X sz objs me w w'" "commit_log v = commit_log w @ [e]"
    using gap by (auto simp: gap8_def w(1) w'_def)
  have w': "coherent8 X sz objs w'" "positions8 w' me = length (commit_log w')" "commit_log w' = commit_log w"
    using gap'(1) w(4) by (simp_all add: undisturbed8_def) (simp_all add: w'_def)
  note k = undisturbed8_keeps [OF gap'(1)]
  have bk: "backup8 w' me b \<noteq> None \<longleftrightarrow> backup8 s me b \<noteq> None" if "b \<in> objs" for b
    using m(1) [OF that] w(3) that k(1) [OF that] by (cases "backup8 s me b") (auto simp: advance8_def)
  then have e: "segment_num e = me" "set (written e) = {b \<in> objs. backup8 w' me b \<noteq> None}"
    using written_entry8 [OF s me] by (auto simp: e_def)
  have t: "t = clear_write_set8 me (w'\<lparr>commit_log := commit_log w' @ [e], log_taken := log_taken w'\<rparr>)"
  proof -
    have "v\<lparr>commit_log := commit_log w @ [e]\<rparr> = v" unfolding gap'(2) [symmetric] by simp
    then show ?thesis by (simp add: t_def w'_def)
  qed
  note p = publish8 [OF w'(1) me w'(2) e, where lt = "log_taken w'", folded t]
  show "coherent8 X sz objs t" by (rule p(1))
  obtain new where new: "commit_log w = commit_log s @ new" using advance8_log [OF w(3)] by blast
  have "written_between (commit_log t) (positions8 s me) (length (commit_log t) - 1) =
      written_between (commit_log w) (positions8 s me) (length (commit_log w))"
    unfolding p(2) w'(3) using written_between_append [of "length (commit_log w)" "commit_log w" "[e]"] by simp
  then show "\<exists>new. commit_log t = commit_log s @ new @ [e] \<and>
      (\<forall>a \<in> written_between (commit_log t) (positions8 s me) (length (commit_log t) - 1). \<not> stm_was_read me a s)"
    using w(5) p(2) new w'(3) by (intro exI [of _ new]) simp
  show "up_to_date (commit_log t) (positions8 t) me a"
    using p(2,6) e(1) by (auto simp: up_to_date_def nth_append)
  assume a: "a \<in> objs" "backup8 s me a \<noteq> None" and i: "i < sz a"
  have ob: "obj_bytes8 w' me a j = obj_bytes8 s me a j" if "j < sz a" for j
    using m(2) [OF a that] k(2) [OF a(1) that] by simp
  have "stm_flags8 w' me a = stm_flags8 s me a"
    unfolding stm_flags8_def using ob layout8D(1) [OF solidD(2) [OF s] a(1)]
    by (intro load32_cong) (simp add: obj_bytes8_def)
  then have "committed8 w' me a i = committed8 s me a i" using ob [OF i] by (simp add: committed8_def)
  then show "version8 t me a i = committed8 s me a i" using p(4) [OF a(1) me i] e(2) bk [OF a(1)] a by simp
qed

text \<open>Without interference, a commit attaches its entry if nothing that it read was written.\<close>

lemma quiet_commit:
  assumes q: "quiet8 X" and me: "me \<le> 3" and c: "coherent8 X sz objs s" and st: "transaction_state8 (segs8 s me) = TS_REGULAR8"
    and lt: "\<not> log_taken s" and n: "length (commit_log s) - positions8 s me < n"
    and ok: "\<not> (\<exists>a \<in> written_between (commit_log s) (positions8 s me) (length (commit_log s)). stm_was_read me a s)"
  shows "\<exists>t. validate_and_add_to_commit_log8 (Suc n) X me s = Ret () t"
proof -
  have r: "rely8 X sz objs me" by (rule quiet8_rely [OF q me])
  obtain t where t: "validate_loop8 n X me (positions8 s me) False s = Ret False t"
    using quiet_validate_ends [OF q me c refl lt n, of False] ok by auto
  have v: "stm_validate8 n X me s = Ret () t" using st t by (simp add: stm_validate8_def)
  have p: "positions8 t me = length (commit_log t)" "\<not> log_taken t"
    using validate_loop8_spec [OF r me c refl, of n False] t by blast+
  have "interleave8 X t = t\<lparr>clock8 := Suc (clock8 t)\<rparr>" using q by (simp add: interleave8_def quiet8_def)
  then show ?thesis using v p st by (simp add: validate_and_add_to_commit_log8_def Let_def)
qed

section \<open>A commit between its two steps\<close>

text \<open>
  Another segment \<open>h\<close> replays the new entry \<open>e\<close> of segment \<open>me\<close> before \<open>me\<close> has freed its backups.
\<close>

lemma replay_before_clear:
  fixes na :: bool
  assumes c: "coherent8 X sz objs u" and me: "me \<le> 3" and h: "h \<le> 3" "h \<noteq> me"
    and e: "segment_num e = me" "set (written e) = {b \<in> objs. backup8 u me b \<noteq> None}"
    and a: "a \<in> set (written e)" and i: "i < sz a"
  defines "t \<equiv> clear_write_set8 me (snd (replay_entry8 X h e na (u\<lparr>commit_log := commit_log u @ [e]\<rparr>)))"
  shows "obj_bytes8 t h a i = version8 u me a i" and "obj_bytes8 t me a i = committed8 u me a i"
    and "backup8 t h a = None" and "backup8 t me a = None"
proof -
  define s where "s = u\<lparr>commit_log := commit_log u @ [e]\<rparr>"
  have se: "s = u\<lparr>commit_log := commit_log u @ [e], log_taken := log_taken u\<rparr>" by (simp add: s_def)
  have u: "solid8 X sz objs u" using c by (simp add: coherent8_def)
  note x = attached8(1-5,7) [OF u me e, where lt = "log_taken u", folded se]
  have sr: "same_reads8 u s" by (simp add: s_def same_reads8_def)
  have rd: "readers8 objs g s" if "g \<le> 3" for g
    using c that by (simp add: coherent8_def readers8_def x(2) was_read_cong [OF sr])
  have o: "b \<in> set (written e) \<Longrightarrow> b \<in> objs \<and> owned8 sz s b" for b using e(2) attached8(6) [OF u me e] owned8_cong [OF x(6)] by simp
  obtain w where w: "fold (replay_object8 X h me) (written e) (na, s) = (na \<or> (\<exists>a \<in> set (written e). stm_was_read h a s), w)"
    "replays8 X sz objs h me (set (written e)) s w"
    using replay_list8 [OF x(1) rd o me h(1), where W = "written e" and na = na] by blast
  note d = replays8D [OF w(2)]
  have t: "t = after_write_set me (clear_item8 me) w"
    unfolding t_def clear_write_set_after s_def [symmetric] by (simp add: replay_entry8_def foreach_f_def e(1) w(1))
  note y = after_write_set_solid [OF d(1) me clear_item8_writes_back [OF d(1) me] committed8_ok [OF d(1) me], folded t]
  have ao: "a \<in> objs" "backup8 u me a \<noteq> None" using a e(2) by auto
  have bw: "backup8 w me a = backup8 u me a" "backup8 w h a = None" using d(8) [OF me ao(1)] d(8) [OF h(1) ao(1)] h(2) a by (simp_all add: x(2))
  have bm: "obj_bytes8 w me b j = obj_bytes8 u me b j" if "b \<in> objs" "j < sz b" for b j using d(10) [OF me that] h(2) by (simp add: x(3))
  have "stm_flags8 w me a = stm_flags8 u me a"
    unfolding stm_flags8_def using bm [OF ao(1)] layout8D(1) [OF solidD(2) [OF u] ao(1)]
    by (intro load32_cong) (simp add: obj_bytes8_def)
  then show "obj_bytes8 t me a i = committed8 u me a i"
    using y(9) [OF me ao(1) i] ao(2) bw bm [OF ao(1) i] by (auto simp: committed8_def)
  show "obj_bytes8 t h a i = version8 u me a i"
    using y(9) [OF h(1) ao(1) i] d(10) [OF h(1) ao(1) i] h(2) a by (auto simp: x(4) split: option.splits)
  show "backup8 t h a = None" "backup8 t me a = None" using y(8) h(2) bw by simp_all
qed

section \<open>A heap with two objects\<close>

definition A8 :: nat where "A8 = 41024 * 4096"
definition B8 :: nat where "B8 = 41024 * 4096 + 16"

definition X8 :: ext8 where
  "X8 = \<lparr>stmcb_size_rounded_up8 = (\<lambda>_. 16), stmcb_trace8 = (\<lambda>_. []),
     malloc = (\<lambda>s. if blocks s 8 = None then 8 else if blocks s 16 = None then 16 else 24),
     other_threads8 = (\<lambda>_ _ s. s), others_run8 = (\<lambda>_ s. s)\<rparr>"

abbreviation sz8 :: "nat \<Rightarrow> nat" where "sz8 \<equiv> (\<lambda>_. 16)"
abbreviation objs8 :: "nat set" where "objs8 \<equiv> {A8, B8}"

text \<open>Four transactions that have not done anything yet.\<close>

definition sample8 :: stm8 where
  "sample8 = (static_state8 (\<lambda>_. \<lparr>shadowstack8 = [], rjthread8 = rj_initial, mem_clear_on_abort8 = None,
      last_abort_bytes_in_nursery8 = 0, associated_segment_num8 = 0, tl_prev8 = None, tl_next8 = None\<rparr>))
    \<lparr>mem8 := (\<lambda>c x. if x = A8 \<or> x = B8 then 1 else 0),
     segs8 := (\<lambda>g. zero_pseg8\<lparr>transaction_read_version8 := 1, transaction_state8 := TS_REGULAR8,
       safe_point8 := SP_RUNNING8, nursery_current8 := NURSERY_START8, nursery_end8 := NURSERY_END8\<rparr>),
     uninitialized_page_start8 := 41026 * 4096, uninitialized_page_stop8 := NB_PAGES8 * 4096\<rparr>"

lemma quiet_X8: "quiet8 X8"
  by (simp add: quiet8_def X8_def)

lemma sample8_fields:
  "mods8 sample8 g = tree_create8" "positions8 sample8 g = 0" "commit_log sample8 = []" "log_taken sample8 = False"
  "blocks sample8 = (\<lambda>_. None)" "remap8 sample8 = (\<lambda>_ _. 0)" "by_segment8 sample8 = (\<lambda>_. 0)" "rm8 sample8 = (\<lambda>_ _. 0)"
  "transaction_state8 (segs8 sample8 g) = TS_REGULAR8" "transaction_read_version8 (segs8 sample8 g) = 1"
  "mem8 sample8 = (\<lambda>c x. if x = A8 \<or> x = B8 then 1 else 0)" "uninitialized_page_start8 sample8 = 41026 * 4096"
  by (simp_all add: sample8_def static_state8_def zero_pseg8_def)

lemma sample8_backup: "backup8 sample8 g a = None"
  using tree_create8_map by (simp add: backup8_def sample8_fields)

lemma sample8_coherent: "coherent8 X8 sz8 objs8 sample8"
proof -
  have v: "version8 sample8 g a i = (if a + i = A8 \<or> a + i = B8 then 1 else 0)" for g a i
    by (simp add: version8_def sample8_backup obj_bytes8_def vread8_def sample8_fields)
  have "cb_ok8 X8" by (simp add: cb_ok8_def X8_def)
  moreover have "layout8 sz8 objs8"
    by (simp add: layout8_def A8_def B8_def page_consts8)
  moreover have "maps8 sz8 objs8 sample8"
    by (simp add: maps8_def mapped8_def is_shared_log_page_def sample8_fields obj_pages8_def old_page8_def A8_def B8_def page_consts8)
  moreover have "trees_ok8 sz8 objs8 sample8"
    using tree_create8_map by (simp add: trees_ok8_def sample8_fields)
  moreover have "apart8 sample8" using tree_create8_map by (simp add: apart8_def sample8_fields)
  moreover have "log_ok8 sz8 objs8 sample8" by (simp add: log_ok8_def sample8_fields)
  moreover have "content8 X8 sz8 objs8 sample8"
  proof -
    have "WB8_in (load32 (version8 sample8 g a) 0)" if "a \<in> objs8" for g a
    proof -
      have "load32 (version8 sample8 g a) 0 = 1"
        unfolding load32_def v using that by (auto simp: A8_def B8_def)
      then show ?thesis by (simp add: WB8_in_def has_flag8_def GCFLAG_WRITE_BARRIER8_def)
    qed
    then show ?thesis by (simp add: content8_def X8_def)
  qed
  moreover have "newest sz8 objs8 (version8 sample8) [] (\<lambda>_. 0)"
    unfolding newest_def v by (intro ballI exI [of _ "\<lambda>i. if _ + i = A8 \<or> _ + i = B8 then 1 else 0"] allI impI) (rule refl)
  ultimately show ?thesis
    by (simp add: coherent8_def solid8_def readers8_def sample8_backup positions_ok_def sample8_fields)
qed

text \<open>Segment 1 has modified the first object, and segment 2 has committed the second.\<close>

lemma malloc_ok_X8: "blocks s 8 = None \<or> blocks s 16 = None \<or> blocks s 24 = None \<Longrightarrow> malloc_ok8 X8 (stm_read8 me a s)"
  by (auto simp: malloc_ok8_def X8_def stm_read8_def)

lemma committed_sample8:
  "\<exists>s. coherent8 X8 sz8 objs8 s \<and> transaction_state8 (segs8 s 1) = TS_REGULAR8 \<and> \<not> log_taken s \<and>
     positions8 s 1 = 0 \<and> commit_log s = [\<lparr>segment_num = 2, written = [B8]\<rparr>] \<and>
     \<not> stm_was_read 1 B8 s \<and> backup8 s 1 A8 \<noteq> None"
proof -
  note f = sample8_fields sample8_backup
  have ab: "A8 \<noteq> B8" "B8 div 16 \<noteq> A8 div 16" by (simp_all add: A8_def B8_def)
  obtain s where s: "coherent8 X8 sz8 objs8 s" "backup8 s 1 A8 \<noteq> None" "positions8 s = positions8 sample8" "commit_log s = commit_log sample8"
    "log_taken s = log_taken sample8" "\<And>g b. b \<in> objs8 \<Longrightarrow> \<not> (g = 1 \<and> b = A8) \<Longrightarrow> backup8 s g b = backup8 sample8 g b"
    "\<And>g b. g \<noteq> 1 \<or> b div 16 \<noteq> A8 div 16 \<Longrightarrow> stm_was_read g b s = stm_was_read g b sample8"
    "\<And>g. transaction_state8 (segs8 s g) = transaction_state8 (segs8 sample8 g)"
    "blocks s = (blocks sample8)(malloc X8 (stm_read8 1 A8 sample8) \<mapsto> (\<lambda>i. if i < 16 then obj_bytes8 sample8 1 A8 i else 0))"
    by (rule barrier_step [OF sample8_coherent, of 1 A8]) (auto simp: malloc_ok_X8 f)
  have free: "blocks s 16 = None" by (simp add: s(9) f X8_def stm_read8_def)
  obtain u where u: "coherent8 X8 sz8 objs8 u" "backup8 u 2 B8 \<noteq> None" "positions8 u = positions8 s" "commit_log u = commit_log s"
    "log_taken u = log_taken s" "\<And>g b. b \<in> objs8 \<Longrightarrow> \<not> (g = 2 \<and> b = B8) \<Longrightarrow> backup8 u g b = backup8 s g b"
    "\<And>g b. g \<noteq> 2 \<or> b div 16 \<noteq> B8 div 16 \<Longrightarrow> stm_was_read g b u = stm_was_read g b s"
    "\<And>g. transaction_state8 (segs8 u g) = transaction_state8 (segs8 s g)"
    by (rule barrier_step [OF s(1), of 2 B8]) (auto simp: malloc_ok_X8 free)
  have bk: "backup8 u 2 A8 = None" "backup8 u 1 A8 \<noteq> None" using u(6) s(2,6) ab f by auto
  let ?e = "\<lparr>segment_num = 2, written = [B8]\<rparr>"
  define t where "t = clear_write_set8 2 (u\<lparr>commit_log := commit_log u @ [?e], log_taken := False\<rparr>)"
  have pos: "positions8 u g = 0" for g using fun_cong [OF u(3), of g] fun_cong [OF s(3), of g] by (simp add: f)
  have at: "positions8 u 2 = length (commit_log u)" by (simp add: pos u(4) s(4) f)
  have wr: "set (written ?e) = {b \<in> objs8. backup8 u 2 b \<noteq> None}" using bk u(2) by auto
  note pub = publish8 [OF u(1) _ at _ wr, where lt = False, folded t_def]
  have p: "coherent8 X8 sz8 objs8 t" "commit_log t = commit_log u @ [?e]" "log_taken t = False"
    "bare8 (segs8 t 1) = bare8 (segs8 u 1)" "rm8 t = rm8 u" "mods8 t 1 = mods8 u 1"
    by ((rule pub; simp)+)
  note b = bare8_fields [OF p(4)]
  have "\<not> stm_was_read 1 B8 u" using u(7) s(7) ab f by (simp add: stm_was_read_def [of _ _ sample8])
  then have "\<not> stm_was_read 1 B8 t" unfolding stm_was_read_def p b .
  moreover have "positions8 t 1 = 0" "transaction_state8 (segs8 t 1) = TS_REGULAR8"
    unfolding b pos u(8) s(8) f by (rule refl)+
  moreover have "backup8 t 1 A8 \<noteq> None" using bk(2) unfolding backup8_def p .
  ultimately show ?thesis using p by (intro exI [of _ t]) (simp add: u(4) s(4) f)
qed

section \<open>The properties\<close>

text \<open>
  C9: a validation of \<open>c8\<close> that returns leaves the transaction with the newest version of every
  object: it has replayed the whole commit log, nothing that it had read is in the entries that it
  replayed, its version of each object is that of any other segment that is up to date for that
  object, and the objects that it has itself modified keep their content and their backup. The
  other threads may run at every step of it, under the contract \<open>rely8\<close>: they keep the heap coherent
  and leave this segment alone, they only add entries to the log, and each of them attaches its
  entry and clears its write set as one step. (C14 shows that the two steps of the code, seen
  apart, break the conclusion.)
\<close>

theorem validation_is_newest:
  assumes "rely8 X sz objs me" and "me \<le> 3" and "coherent8 X sz objs s" and "transaction_state8 (segs8 s me) = TS_REGULAR8"
    and "stm_validate8 n X me s = Ret () t"
  shows "coherent8 X sz objs t \<and> (\<exists>new. commit_log t = commit_log s @ new) \<and> positions8 t me = length (commit_log t) \<and>
    (\<forall>a \<in> written_between (commit_log t) (positions8 s me) (length (commit_log t)). \<not> stm_was_read me a s) \<and>
    (\<forall>a \<in> objs. \<forall>g \<le> 3. up_to_date (commit_log t) (positions8 t) g a \<longrightarrow> (\<forall>i < sz a. version8 t me a i = version8 t g a i)) \<and>
    (\<forall>a \<in> objs. backup8 s me a \<noteq> None \<longrightarrow>
       backup8 t me a = backup8 s me a \<and> (\<forall>i < sz a. obj_bytes8 t me a i = obj_bytes8 s me a i))"
proof -
  have t: "coherent8 X sz objs t" "advance8 sz objs me s t" "positions8 t me = length (commit_log t)"
    "\<forall>a \<in> written_between (commit_log t) (positions8 s me) (length (commit_log t)). \<not> stm_was_read me a s"
    using stm_validate8_spec(1) [OF assms] by blast+
  have "up_to_date (commit_log t) (positions8 t) me a" for a using t(3) by (simp add: up_to_date_def)
  moreover have "newest sz objs (version8 t) (commit_log t) (positions8 t)" using t(1) by (simp add: coherent8_def)
  ultimately have "version8 t me a i = version8 t g a i"
    if "a \<in> objs" "g \<le> 3" "up_to_date (commit_log t) (positions8 t) g a" "i < sz a" for a g i
    using that assms(2) newest_agree by blast
  then show ?thesis using t advance8_log [OF t(2)] advance8_modified [OF assms(3,2) t(2,3,4)] by blast
qed

theorem validation_is_newest_witness:
  "\<exists>s t. stm_validate8 2 X8 1 s = Ret () t \<and> backup8 s 1 A8 \<noteq> None \<and> commit_log s = [\<lparr>segment_num = 2, written = [B8]\<rparr>] \<and>
     positions8 t 1 = length (commit_log t) \<and> backup8 t 1 A8 \<noteq> None"
proof -
  obtain s where s: "coherent8 X8 sz8 objs8 s" "transaction_state8 (segs8 s 1) = TS_REGULAR8" "\<not> log_taken s"
    "positions8 s 1 = 0" "commit_log s = [\<lparr>segment_num = 2, written = [B8]\<rparr>]" "\<not> stm_was_read 1 B8 s" "backup8 s 1 A8 \<noteq> None"
    using committed_sample8 by blast
  have "written_between (commit_log s) 0 1 = {B8}" by (simp add: s(5) written_between_def)
  then obtain t where t: "stm_validate8 2 X8 1 s = Ret () t"
    using quiet_validate [OF quiet_X8 _ s(1) s(2,3), of 2] s(4,5,6) by auto
  have "A8 \<in> objs8" by simp
  then show ?thesis
    using validation_is_newest [OF quiet8_rely [OF quiet_X8] _ s(1,2) t] t s(5,7) by (intro exI [of _ s] exI [of _ t]) auto
qed

text \<open>
  C10: a regular transaction of \<open>c8\<close> that attaches its entry to the commit log, lets the other
  threads run, and then clears its write set has published it: the log ends with the entry of the
  objects that it had modified, nothing that it had read was written by the entries before, the
  heap is coherent, and every segment that is up to date for one of these objects, its own among
  them, has the version that the transaction wrote, with the barrier flag set again. Hypotheses on
  the other threads: \<open>rely8\<close> until the entry is attached, and in the gap up to the clearing
  \<open>gap8\<close>: they keep the contract as if the entry was not there yet, so that none replays it in
  between. (C14 shows what happens when one does.)
\<close>

theorem commit_publishes8:
  assumes "rely8 X sz objs me" and "me \<le> 3" and "coherent8 X sz objs s" and "transaction_state8 (segs8 s me) = TS_REGULAR8"
    and "validate_and_add_to_commit_log8 n X me s = Ret () u" and "gap8 X sz objs me u (interleave8 X u)"
  shows "let t = clear_write_set8 me (interleave8 X u) in
    coherent8 X sz objs t \<and>
    (\<exists>new. commit_log t = commit_log s @ new @ [create_commit_log_entry8 me s] \<and>
      (\<forall>a \<in> written_between (commit_log t) (positions8 s me) (length (commit_log t) - 1). \<not> stm_was_read me a s)) \<and>
    set (written (create_commit_log_entry8 me s)) = {a \<in> objs. backup8 s me a \<noteq> None} \<and>
    (\<forall>a \<in> objs. up_to_date (commit_log t) (positions8 t) me a) \<and>
    (\<forall>a \<in> objs. backup8 s me a \<noteq> None \<longrightarrow> (\<forall>g \<le> 3. up_to_date (commit_log t) (positions8 t) g a \<longrightarrow>
       (\<forall>i < sz a. version8 t g a i = committed8 s me a i)))"
proof -
  let ?t = "clear_write_set8 me (interleave8 X u)"
  note t = commit_attaches8 [OF assms]
  have "set (written (create_commit_log_entry8 me s)) = {a \<in> objs. backup8 s me a \<noteq> None}"
    using assms(3) by (intro written_entry8(2) [OF _ assms(2), where X = X and sz = sz]) (simp add: coherent8_def)
  moreover have "newest sz objs (version8 ?t) (commit_log ?t) (positions8 ?t)" using t(1) by (simp add: coherent8_def)
  note agree = newest_agree [OF this]
  have "version8 ?t g a i = committed8 s me a i"
    if "a \<in> objs" "backup8 s me a \<noteq> None" "g \<le> 3" "up_to_date (commit_log ?t) (positions8 ?t) g a" "i < sz a" for a g i
    using agree [OF that(1,3) assms(2) that(4) t(4) [of a] that(5)] t(3) [OF that(1,2,5)] by simp
  ultimately show ?thesis unfolding Let_def using t(1,2,4) by blast
qed

lemma quiet_gap8:
  assumes q: "quiet8 X" and me: "me \<le> 3" and c: "coherent8 X sz objs (u\<lparr>commit_log := butlast (commit_log u)\<rparr>)"
  shows "gap8 X sz objs me u (interleave8 X u)"
proof -
  have v: "interleave8 X u = u\<lparr>clock8 := Suc (clock8 u)\<rparr>" using q by (simp add: interleave8_def quiet8_def)
  let ?u = "u\<lparr>commit_log := butlast (commit_log u)\<rparr>"
  have "same_heap8 ?u (?u\<lparr>clock8 := Suc (clock8 ?u)\<rparr>)" by (rule same_heap8_fields)
  then have "undisturbed8 X sz objs me ?u (?u\<lparr>clock8 := Suc (clock8 ?u)\<rparr>)"
    using undisturbed8_same_heap [OF c me] by simp
  moreover have eq: "(u\<lparr>clock8 := Suc (clock8 u)\<rparr>)\<lparr>commit_log := butlast (commit_log u)\<rparr> = ?u\<lparr>clock8 := Suc (clock8 ?u)\<rparr>"
    by simp
  ultimately have "undisturbed8 X sz objs me ?u ((u\<lparr>clock8 := Suc (clock8 u)\<rparr>)\<lparr>commit_log := butlast (commit_log u)\<rparr>)"
    by (simp only: eq)
  moreover have "commit_log (u\<lparr>clock8 := Suc (clock8 u)\<rparr>) = commit_log u" by simp
  ultimately show ?thesis by (simp only: gap8_def v simp_thms)
qed

theorem commit_publishes8_witness:
  "\<exists>s u. validate_and_add_to_commit_log8 3 X8 1 s = Ret () u \<and> backup8 s 1 A8 \<noteq> None \<and>
     commit_log s = [\<lparr>segment_num = 2, written = [B8]\<rparr>] \<and>
     (let t = clear_write_set8 1 (interleave8 X8 u) in coherent8 X8 sz8 objs8 t \<and>
       (\<forall>i < 16. version8 t 1 A8 i = committed8 s 1 A8 i))"
proof -
  obtain s where s: "coherent8 X8 sz8 objs8 s" "transaction_state8 (segs8 s 1) = TS_REGULAR8" "\<not> log_taken s"
    "positions8 s 1 = 0" "commit_log s = [\<lparr>segment_num = 2, written = [B8]\<rparr>]" "\<not> stm_was_read 1 B8 s" "backup8 s 1 A8 \<noteq> None"
    using committed_sample8 by blast
  have "written_between (commit_log s) 0 1 = {B8}" by (simp add: s(5) written_between_def)
  then obtain u where u: "validate_and_add_to_commit_log8 (Suc 2) X8 1 s = Ret () u"
    using quiet_commit [OF quiet_X8 _ s(1) s(2,3), of 2] s(4,5,6) by auto
  have r: "rely8 X8 sz8 objs8 1" by (rule quiet8_rely [OF quiet_X8]) simp
  obtain w where "u = w\<lparr>commit_log := commit_log w @ [create_commit_log_entry8 1 s]\<rparr>" "coherent8 X8 sz8 objs8 w"
    using attach_loop8_spec [OF r _ s(1,2), of "Suc 2" "\<lambda>w. w\<lparr>commit_log := commit_log w @ [create_commit_log_entry8 1 s]\<rparr>"] u s(2)
    by (auto simp: validate_and_add_to_commit_log8_def Let_def)
  then have "gap8 X8 sz8 objs8 1 u (interleave8 X8 u)" using quiet_gap8 [OF quiet_X8, of 1] by simp
  from commit_publishes8 [OF r _ s(1,2) u this] show ?thesis
    using u s(5,7) by (intro exI [of _ s] exI [of _ u]) (simp add: numeral_3_eq_3 Let_def)
qed

text \<open>
  C12: an abort in \<open>c8\<close> undoes the transaction in its segment only: every object has in the
  segment again the version from before the transaction, no backup is left, the other
  segments and the commit log are as before, and the heap stays coherent.
\<close>

theorem abort_restores8:
  assumes "coherent8 X sz objs s" and "me \<le> 3" and "abort_with_mutex8 X me s = (Aborted t :: (stm8, unit) res)"
  shows "coherent8 X sz objs t \<and> commit_log t = commit_log s \<and>
    (\<forall>a \<in> objs. backup8 t me a = None \<and> (\<forall>i < sz a. obj_bytes8 t me a i = version8 s me a i) \<and>
      (\<forall>g \<le> 3. \<forall>i < sz a. version8 t g a i = version8 s g a i \<and> (g \<noteq> me \<longrightarrow> obj_bytes8 t g a i = obj_bytes8 s g a i)))"
  using abort_with_mutex8_coherent [OF assms] by blast

theorem abort_restores8_witness:
  "\<exists>s t. abort_with_mutex8 X8 1 s = (Aborted t :: (stm8, unit) res) \<and> backup8 s 1 A8 \<noteq> None \<and> backup8 t 1 A8 = None \<and>
     (\<forall>i < 16. obj_bytes8 t 1 A8 i = version8 s 1 A8 i)"
proof -
  obtain s where s: "coherent8 X8 sz8 objs8 s" "transaction_state8 (segs8 s 1) = TS_REGULAR8" "backup8 s 1 A8 \<noteq> None"
    using committed_sample8 by blast
  obtain t where t: "abort_with_mutex8 X8 1 s = (Aborted t :: (stm8, unit) res)" using abort_with_mutex8_regular [OF s(2)] by blast
  show ?thesis using abort_restores8 [OF s(1) _ t] t s(3) by (intro exI [of _ s] exI [of _ t]) simp
qed

text \<open>
  C11: the slow path of the write barrier of \<open>c8\<close> returns. It leaves every version of every
  object as it was in every segment, gives the object a backup, private pages and a read
  marker, and clears the barrier flag; after it, a store to the object in this segment (that
  leaves the size of the object alone) is seen by the segment and changes no version in any.
\<close>

theorem barrier_then_store8:
  assumes "coherent8 X sz objs s" and "me \<le> 3" and "a \<in> objs" and "malloc_ok8 X (stm_read8 me a s)"
  shows "\<exists>t. stm_write_slowpath8 X me a s = Ret () t \<and> coherent8 X sz objs t \<and>
    (\<forall>g \<le> 3. \<forall>b \<in> objs. \<forall>i < sz b. version8 t g b i = version8 s g b i) \<and>
    backup8 t me a \<noteq> None \<and> owned8 sz t a \<and> stm_was_read me a t \<and> stm_was_written me a t \<and>
    (\<forall>x n f. a \<le> x \<and> x + n \<le> a + sz a \<and> stmcb_size_rounded_up8 X (obj_bytes8 (vfill8 me x n f t) me a) = sz a \<longrightarrow>
       coherent8 X sz objs (vfill8 me x n f t) \<and> (\<forall>i < n. vread8 (vfill8 me x n f t) me (x + i) = f (x + i)) \<and>
       (\<forall>g \<le> 3. \<forall>b \<in> objs. \<forall>i < sz b. version8 (vfill8 me x n f t) g b i = version8 s g b i))"
proof -
  obtain t where t: "stm_write_slowpath8 X me a s = Ret () t" "coherent8 X sz objs t"
    "\<And>g b i. g \<le> 3 \<Longrightarrow> b \<in> objs \<Longrightarrow> i < sz b \<Longrightarrow> version8 t g b i = version8 s g b i"
    "backup8 t me a \<noteq> None" "owned8 sz t a" "stm_was_read me a t"
    "stm_flags8 t me a = stm_flags8 s me a AND NOT GCFLAG_WRITE_BARRIER8"
    by (rule barrier_step [OF assms]) (rule that, assumption+)
  have "stm_was_written me a t" by (simp add: stm_was_written_def t(7) and.assoc)
  moreover have "coherent8 X sz objs (vfill8 me x n f t) \<and> (\<forall>i < n. vread8 (vfill8 me x n f t) me (x + i) = f (x + i)) \<and>
       (\<forall>g \<le> 3. \<forall>b \<in> objs. \<forall>i < sz b. version8 (vfill8 me x n f t) g b i = version8 s g b i)"
    if "a \<le> x \<and> x + n \<le> a + sz a \<and> stmcb_size_rounded_up8 X (obj_bytes8 (vfill8 me x n f t) me a) = sz a" for x n f
    using store_coherent8 [OF t(2) assms(2,3) t(4), of x n f] that t(3) by simp
  ultimately show ?thesis using t(1-6) by blast
qed

theorem barrier_then_store8_witness:
  "malloc_ok8 X8 (stm_read8 1 A8 sample8) \<and>
   (\<exists>t. stm_write_slowpath8 X8 1 A8 sample8 = Ret () t \<and> coherent8 X8 sz8 objs8 (vfill8 1 (A8 + 8) 1 (\<lambda>_. 7) t) \<and>
      vread8 (vfill8 1 (A8 + 8) 1 (\<lambda>_. 7) t) 1 (A8 + 8) = 7)"
proof -
  have m: "malloc_ok8 X8 (stm_read8 1 A8 sample8)" by (simp add: malloc_ok_X8 sample8_fields)
  have z: "stmcb_size_rounded_up8 X8 f = 16" for f by (simp add: X8_def)
  have a: "A8 \<le> A8 + 8 \<and> A8 + 8 + 1 \<le> A8 + 16 \<and> stmcb_size_rounded_up8 X8 f = 16" for f by (simp add: z)
  have "A8 \<in> objs8" "1 \<le> (3 :: nat)" by simp_all
  from barrier_then_store8 [OF sample8_coherent this(2,1) m]
  obtain t where t: "stm_write_slowpath8 X8 1 A8 sample8 = Ret () t"
    "\<forall>x n f. A8 \<le> x \<and> x + n \<le> A8 + 16 \<and> stmcb_size_rounded_up8 X8 (obj_bytes8 (vfill8 1 x n f t) 1 A8) = 16 \<longrightarrow>
       coherent8 X8 sz8 objs8 (vfill8 1 x n f t) \<and> (\<forall>i < n. vread8 (vfill8 1 x n f t) 1 (x + i) = f (x + i)) \<and>
       (\<forall>g \<le> 3. \<forall>b \<in> objs8. \<forall>i < 16. version8 (vfill8 1 x n f t) g b i = version8 sample8 g b i)"
    by (elim exE conjE) (rule that, assumption+)
  note w = t(2) [THEN spec, THEN spec, THEN spec, THEN mp, OF a, of "\<lambda>_. 7"]
  have "vread8 (vfill8 1 (A8 + 8) 1 (\<lambda>_. 7) t) 1 (A8 + 8 + 0) = 7"
    by (rule w [THEN conjunct2, THEN conjunct1, rule_format]) (rule zero_less_one)
  then have "vread8 (vfill8 1 (A8 + 8) 1 (\<lambda>_. 7) t) 1 (A8 + 8) = 7" by (simp only: add_0_right)
  then show ?thesis using m t(1) conjunct1 [OF w] by blast
qed

text \<open>
  C13: when the other threads leave the state alone and no inevitable transaction holds the
  end of the log, a validation and a commit of \<open>c8\<close> end after one look at the log for each
  entry that is still to be replayed, and one more: with an abort exactly when an object that
  the transaction has read is in one of these entries.
\<close>

theorem validation_decides:
  assumes "quiet8 X" and "me \<le> 3" and "coherent8 X sz objs s" and "transaction_state8 (segs8 s me) = TS_REGULAR8"
    and "\<not> log_taken s" and "length (commit_log s) - positions8 s me < n"
  shows "if \<exists>a \<in> written_between (commit_log s) (positions8 s me) (length (commit_log s)). stm_was_read me a s
    then (\<exists>t. stm_validate8 n X me s = Aborted t) \<and> (\<exists>t. validate_and_add_to_commit_log8 (Suc n) X me s = Aborted t)
    else (\<exists>t. stm_validate8 n X me s = Ret () t) \<and> (\<exists>t. validate_and_add_to_commit_log8 (Suc n) X me s = Ret () t)"
proof -
  have "stm_validate8 n X me s = Aborted t \<Longrightarrow> validate_and_add_to_commit_log8 (Suc n) X me s = Aborted t" for t
    using assms(4) by (simp add: validate_and_add_to_commit_log8_def Let_def)
  then show ?thesis using quiet_validate [OF assms] quiet_commit [OF assms] by (auto split: if_splits)
qed

theorem validation_decides_witness:
  "\<exists>s. commit_log s = [\<lparr>segment_num = 2, written = [B8]\<rparr>] \<and> (\<exists>t. stm_validate8 2 X8 1 s = Ret () t) \<and>
     (\<exists>t. validate_and_add_to_commit_log8 (Suc 2) X8 1 s = Ret () t)"
proof -
  obtain s where s: "coherent8 X8 sz8 objs8 s" "transaction_state8 (segs8 s 1) = TS_REGULAR8" "\<not> log_taken s"
    "positions8 s 1 = 0" "commit_log s = [\<lparr>segment_num = 2, written = [B8]\<rparr>]" "\<not> stm_was_read 1 B8 s"
    using committed_sample8 by blast
  have "written_between (commit_log s) 0 1 = {B8}" by (simp add: s(5) written_between_def)
  then show ?thesis
    using validation_decides [OF quiet_X8 _ s(1) s(2,3), of 2] s(4,5,6) by (intro exI [of _ s]) simp
qed

text \<open>
  C14: \<open>stm_commit_transaction\<close> of \<open>c8\<close> attaches its entry before it takes the lock under which it
  clears its write set, so another segment may replay the entry in between. That segment then
  copies the backups: it ends with the version from before the transaction, although it has
  replayed the entry, and the two segments disagree from then on.
\<close>

theorem early_replay_loses_update:
  assumes "coherent8 X sz objs u" and "me \<le> 3" and "h \<le> 3" and "h \<noteq> me"
    and "a \<in> set (written (create_commit_log_entry8 me u))" and "i < sz a"
  shows "obj_bytes8 (clear_write_set8 me (snd (replay_entry8 X h (create_commit_log_entry8 me u) na
      (u\<lparr>commit_log := commit_log u @ [create_commit_log_entry8 me u]\<rparr>)))) h a i = version8 u me a i \<and>
    obj_bytes8 (clear_write_set8 me (snd (replay_entry8 X h (create_commit_log_entry8 me u) na
      (u\<lparr>commit_log := commit_log u @ [create_commit_log_entry8 me u]\<rparr>)))) me a i = committed8 u me a i"
proof -
  have "solid8 X sz objs u" using assms(1) by (simp add: coherent8_def)
  note e = written_entry8 [OF this assms(2)]
  show ?thesis using replay_before_clear [OF assms(1-4) e assms(5,6), of na] by simp
qed

text \<open>A store of 7 in the first object, committed by segment 1, and replayed too early by segment 2.\<close>

theorem early_replay_loses_update_witness:
  "\<exists>u. coherent8 X8 sz8 objs8 u \<and> (let e = create_commit_log_entry8 1 u;
          t = clear_write_set8 1 (snd (replay_entry8 X8 2 e False (u\<lparr>commit_log := commit_log u @ [e]\<rparr>)))
      in A8 \<in> set (written e) \<and> obj_bytes8 t 1 A8 8 = 7 \<and> obj_bytes8 t 2 A8 8 = 0)"
proof -
  have m: "malloc_ok8 X8 (stm_read8 1 A8 sample8)" by (simp add: malloc_ok_X8 sample8_fields)
  obtain r where r: "coherent8 X8 sz8 objs8 r" "backup8 r 1 A8 \<noteq> None"
    "\<And>g b i. g \<le> 3 \<Longrightarrow> b \<in> objs8 \<Longrightarrow> i < 16 \<Longrightarrow> version8 r g b i = version8 sample8 g b i"
    by (rule barrier_step [OF sample8_coherent _ _ m]) simp_all
  define u where "u = vfill8 1 (A8 + 8) 1 (\<lambda>_. 7) r"
  have z: "stmcb_size_rounded_up8 X8 f = 16" for f by (simp add: X8_def)
  have a: "A8 \<in> objs8" "A8 \<le> A8 + 8" "A8 + 8 + 1 \<le> A8 + 16" "1 \<le> (3 :: nat)" by simp_all
  note st = store_coherent8 [where f = "\<lambda>_. 7", OF r(1) a(4,1) r(2) a(2,3) z, folded u_def]
  have "backup8 u 1 A8 = backup8 r 1 A8" by (simp add: u_def backup8_def)
  then have w: "A8 \<in> set (written (create_commit_log_entry8 1 u))"
    using written_entry8(2) [of X8 sz8 objs8 u 1] st(1) [unfolded coherent8_def] r(2) by simp
  have v: "version8 u 1 A8 8 = 0"
  proof -
    have "version8 u 1 A8 8 = version8 sample8 1 A8 8" using st(2) [of 1 A8 8] r(3) [of 1 A8 8] by simp
    then show ?thesis by (simp add: version8_def sample8_backup obj_bytes8_def vread8_def sample8_fields A8_def B8_def)
  qed
  have c: "committed8 u 1 A8 8 = 7" using st(3) [of 0] by (simp add: committed8_def obj_bytes8_def)
  show ?thesis
    using early_replay_loses_update [OF st(1) _ _ _ w, of 2 8 False] w v c st(1)
    by (intro exI [of _ u]) (simp add: Let_def)
qed

text \<open>
  in \<open>c8\<close>, a thread whose segment is in use does not get another one: the loop of
  \<open>acquire_thread_segment\<close> looks at the same segment each time, so the thread waits for the
  condition variable although the other segments are free.
\<close>

theorem taken_segment_waits:
  assumes "associated_segment_num8 (tls8 s t) < NB_SEGMENTS8" and "in_use8 s (associated_segment_num8 (tls8 s t)) \<noteq> 0"
  shows "acquire_thread_segment8 X t s = (None, cond_wait8 X C_SEGMENT_FREE8 s)"
  using assms by (simp add: acquire_thread_segment8_def next_free_segment8_stuck Let_def)

theorem taken_segment_waits_witness:
  "acquire_thread_segment8 X8 5 (sample8\<lparr>in_use8 := (\<lambda>_. 0)(0 := 1)\<rparr>) =
     (None, cond_wait8 X8 C_SEGMENT_FREE8 (sample8\<lparr>in_use8 := (\<lambda>_. 0)(0 := 1)\<rparr>))"
  by (rule taken_segment_waits) (simp_all add: sample8_def static_state8_def NB_SEGMENTS8_def)

end
