(* ===== verification/Gil.thy ===== *)
theory Gil
  imports Prelude
begin

text \<open>
  \<open>gil-c7\<close> and \<open>htm-c7\<close>: the same interface as \<open>c7\<close>, where one global lock (or a hardware
  transaction) protects the whole of a transaction, with a nursery and a copying minor
  collection. Addresses are the real ones. The collector of \<open>htm-c7\<close> is that of \<open>gil-c7\<close> with
  another allocator and another nursery size, so these two are parameters.
\<close>

section \<open>State\<close>

text \<open>The shadow stack of a thread is the list of its items, the bottom first.\<close>

record gtl =
  shadowstack9 :: "nat list"
  thread_local_obj9 :: nat
  last_abort9 :: nat

text \<open>
  \<open>areas\<close> are the areas of memory in use, with their sizes: static data and what \<open>malloc\<close>
  returned. \<open>malloc_area\<close> is the base and the current end of the private area of \<open>htm-c7\<close>.
\<close>

record gil =
  gm :: "nat \<Rightarrow> u8"
  areas :: "(nat \<times> nat) list"
  malloc_area :: "nat \<times> nat"
  gtls :: "nat \<Rightarrow> gtl"
  tloc :: "nat option"
  gil_locked :: bool
  nursery_base9 :: nat
  nursery_current9 :: nat
  nursery_end9 :: nat
  objects_pointing_to_nursery9 :: "nat list"
  young_weakrefs9 :: "nat list"

text \<open>The user's callbacks see the bytes of an object; \<open>trace9\<close> gives the offsets of its references.\<close>

record gext =
  size9 :: "(nat \<Rightarrow> u8) \<Rightarrow> nat"
  trace9 :: "(nat \<Rightarrow> u8) \<Rightarrow> nat list"
  malloc9 :: "nat \<Rightarrow> gil \<Rightarrow> nat \<times> gil"
  nursery_size9 :: nat

definition obj_bytes9 :: "gil \<Rightarrow> nat \<Rightarrow> nat \<Rightarrow> u8" where
  "obj_bytes9 s a i = gm s (a + i)"

definition write9 :: "nat \<Rightarrow> nat \<Rightarrow> (nat \<Rightarrow> u8) \<Rightarrow> gil \<Rightarrow> gil" where
  "write9 a n f s = s\<lparr>gm := (\<lambda>x. if a \<le> x \<and> x < a + n then f (x - a) else gm s x)\<rparr>"

definition read_ref :: "gil \<Rightarrow> nat \<Rightarrow> nat" where
  "read_ref s a = unat (load64 (gm s) a)"

definition write_ref :: "nat \<Rightarrow> nat \<Rightarrow> gil \<Rightarrow> gil" where
  "write_ref a v s = write9 a 8 (byte_of64 (of_nat v)) s"

definition gil_flags :: "gil \<Rightarrow> nat \<Rightarrow> u32" where
  "gil_flags s obj = load32 (gm s) obj"

definition set_gil_flags :: "nat \<Rightarrow> u32 \<Rightarrow> gil \<Rightarrow> gil" where
  "set_gil_flags obj f s = write9 obj 4 (byte_of32 f) s"

definition STM_GCFLAG_WRITE_BARRIER9 :: u32 where
  "STM_GCFLAG_WRITE_BARRIER9 = 0x01"

definition STM_FAST_ALLOC9 :: nat where
  "STM_FAST_ALLOC9 = 66 * 1024"

section \<open>Old objects\<close>

definition stm_write_slowpath9 :: "nat \<Rightarrow> gil \<Rightarrow> gil" where
  "stm_write_slowpath9 obj s =
     (let s = set_gil_flags obj (gil_flags s obj AND NOT STM_GCFLAG_WRITE_BARRIER9) s
      in s\<lparr>objects_pointing_to_nursery9 := objects_pointing_to_nursery9 s @ [obj]\<rparr>)"

definition stm_write9 :: "nat \<Rightarrow> gil \<Rightarrow> gil" where
  "stm_write9 ob s =
     (if gil_flags s ob AND STM_GCFLAG_WRITE_BARRIER9 \<noteq> 0 then stm_write_slowpath9 ob s else s)"

definition stm_allocate_old9 :: "gext \<Rightarrow> nat \<Rightarrow> gil \<Rightarrow> nat \<times> gil" where
  "stm_allocate_old9 X n s =
     (let (p, s) = malloc9 X n s;
          s = write9 p n (\<lambda>_. 0) s
      in (p, set_gil_flags p STM_GCFLAG_WRITE_BARRIER9 s))"

definition stm_allocate_external9 :: "gext \<Rightarrow> nat \<Rightarrow> gil \<Rightarrow> nat \<times> gil" where
  "stm_allocate_external9 X n s =
     (let (p, s) = malloc9 X n s;
          s = write9 p n (\<lambda>_. 0) s
      in (p, stm_write_slowpath9 p s))"

definition stm_setup_prebuilt9 :: "nat \<Rightarrow> gil \<Rightarrow> nat \<times> gil" where
  "stm_setup_prebuilt9 preb s =
     (preb, if preb \<noteq> 0 then set_gil_flags preb (gil_flags s preb OR STM_GCFLAG_WRITE_BARRIER9) s else s)"

section \<open>The minor collection\<close>

definition is_in_nursery9 :: "gil \<Rightarrow> nat \<Rightarrow> bool" where
  "is_in_nursery9 s obj \<longleftrightarrow> nursery_base9 s \<le> obj \<and> obj < nursery_end9 s"

definition stm_can_move9 :: "nat \<Rightarrow> gil \<Rightarrow> bool" where
  "stm_can_move9 obj s = is_in_nursery9 s obj"

definition GCWORD_MOVED9 :: u64 where
  "GCWORD_MOVED9 = - 42"

text \<open>The result is what is in \<open>*pobj\<close> afterwards.\<close>

definition minor_trace_if_young9 :: "gext \<Rightarrow> nat \<Rightarrow> gil \<Rightarrow> nat \<times> gil" where
  "minor_trace_if_young9 X obj s =
     (if obj = 0 then (obj, s)
      else if is_in_nursery9 s obj
      then if load64 (gm s) obj = GCWORD_MOVED9 then (read_ref s (obj + 8), s)
           else (let n = size9 X (obj_bytes9 s obj);
                     (nobj, s) = malloc9 X n s;
                     s = write9 nobj n (obj_bytes9 s obj) s;
                     s = write9 obj 8 (byte_of64 GCWORD_MOVED9) s;
                     s = write_ref (obj + 8) nobj s
                 in (nobj, s\<lparr>objects_pointing_to_nursery9 := objects_pointing_to_nursery9 s @ [nobj]\<rparr>))
      else (obj, s))"

definition upd_gtl :: "nat \<Rightarrow> (gtl \<Rightarrow> gtl) \<Rightarrow> gil \<Rightarrow> gil" where
  "upd_gtl t f s = s\<lparr>gtls := (gtls s)(t := f (gtls s t))\<rparr>"

definition trace_stack_item :: "gext \<Rightarrow> nat \<Rightarrow> nat \<Rightarrow> gil \<Rightarrow> gil" where
  "trace_stack_item X t i s =
     (let (v, s) = minor_trace_if_young9 X (shadowstack9 (gtls s t) ! i) s
      in upd_gtl t (\<lambda>l. l\<lparr>shadowstack9 := (shadowstack9 l)[i := v]\<rparr>) s)"

definition collect_roots_in_nursery9 :: "gext \<Rightarrow> nat \<Rightarrow> gil \<Rightarrow> gil" where
  "collect_roots_in_nursery9 X t s =
     (let s = foreach_r [0..<length (shadowstack9 (gtls s t))] (trace_stack_item X t) s;
          (v, s) = minor_trace_if_young9 X (thread_local_obj9 (gtls s t)) s
      in upd_gtl t (\<lambda>l. l\<lparr>thread_local_obj9 := v\<rparr>) s)"

definition trace_field :: "gext \<Rightarrow> nat \<Rightarrow> gil \<Rightarrow> gil" where
  "trace_field X a s = (let (v, s) = minor_trace_if_young9 X (read_ref s a) s in write_ref a v s)"

definition collect_now9 :: "gext \<Rightarrow> nat \<Rightarrow> gil \<Rightarrow> (gil, unit) res" where
  "collect_now9 X obj s =
     (if is_in_nursery9 s obj \<or> gil_flags s obj AND STM_GCFLAG_WRITE_BARRIER9 \<noteq> 0 then Fatal ''assert'' s
      else let s = set_gil_flags obj (gil_flags s obj OR STM_GCFLAG_WRITE_BARRIER9) s
           in Ret () (foreach_f (trace9 X (obj_bytes9 s obj)) (\<lambda>off. trace_field X (obj + off)) s))"

fun collect_oldrefs_to_nursery9 :: "nat \<Rightarrow> gext \<Rightarrow> gil \<Rightarrow> (gil, unit) res" where
  "collect_oldrefs_to_nursery9 0 X s = (if objects_pointing_to_nursery9 s = [] then Ret () s else Hang s)"
| "collect_oldrefs_to_nursery9 (Suc n) X s =
     (let lst = objects_pointing_to_nursery9 s
      in if lst = [] then Ret () s
         else bind_res (collect_now9 X (last lst) (s\<lparr>objects_pointing_to_nursery9 := butlast lst\<rparr>)) (\<lambda>_ s.
                collect_oldrefs_to_nursery9 n X s))"

definition throw_away_nursery9 :: "gext \<Rightarrow> gil \<Rightarrow> gil" where
  "throw_away_nursery9 X s =
     (let s = (if nursery_base9 s = 0
               then let (p, s) = malloc9 X (nursery_size9 X) s
                    in s\<lparr>nursery_base9 := p, nursery_end9 := p + nursery_size9 X, nursery_current9 := p\<rparr>
               else s);
          s = write9 (nursery_base9 s) (nursery_current9 s - nursery_base9 s) (\<lambda>_. 0) s
      in s\<lparr>nursery_current9 := nursery_base9 s\<rparr>)"

text \<open>The field of a weakref is its last word; all weakrefs have 16 bytes.\<close>

definition move_young_weakref9 :: "nat \<Rightarrow> gil \<Rightarrow> gil" where
  "move_young_weakref9 item s =
     (if load64 (gm s) item \<noteq> GCWORD_MOVED9 then s
      else let item = read_ref s (item + 8);
               pointing_to = read_ref s (item + 8)
           in if is_in_nursery9 s pointing_to
              then if load64 (gm s) pointing_to \<noteq> GCWORD_MOVED9 then write_ref (item + 8) 0 s
                   else write_ref (item + 8) (read_ref s (pointing_to + 8)) s
              else s)"

definition move_young_weakrefs9 :: "gil \<Rightarrow> gil" where
  "move_young_weakrefs9 s = (foreach_r (young_weakrefs9 s) move_young_weakref9 s)\<lparr>young_weakrefs9 := []\<rparr>"

definition stm_collect9 :: "nat \<Rightarrow> gext \<Rightarrow> nat \<Rightarrow> gil \<Rightarrow> (gil, unit) res" where
  "stm_collect9 fuel X t s =
     (let s = collect_roots_in_nursery9 X t s
      in bind_res (collect_oldrefs_to_nursery9 fuel X s) (\<lambda>_ s.
           Ret () (throw_away_nursery9 X (move_young_weakrefs9 s))))"

section \<open>Allocation\<close>

definition stm_allocate_slowpath9 :: "nat \<Rightarrow> gext \<Rightarrow> nat \<Rightarrow> nat \<Rightarrow> gil \<Rightarrow> (gil, nat) res" where
  "stm_allocate_slowpath9 fuel X t n s =
     bind_res (stm_collect9 fuel X t (s\<lparr>nursery_current9 := nursery_current9 s - n\<rparr>)) (\<lambda>_ s.
       let p = nursery_current9 s; e = p + n
       in if e \<le> nursery_end9 s then Ret p (s\<lparr>nursery_current9 := e\<rparr>) else Fatal ''assert'' s)"

definition stm_allocate9 :: "nat \<Rightarrow> gext \<Rightarrow> nat \<Rightarrow> nat \<Rightarrow> gil \<Rightarrow> (gil, nat) res" where
  "stm_allocate9 fuel X t n s =
     (if \<not> (n \<ge> 16 \<and> n mod 8 = 0) then Fatal ''assert'' s
      else if n \<ge> STM_FAST_ALLOC9 then (let (p, s) = stm_allocate_external9 X n s in Ret p s)
      else let p = nursery_current9 s; e = p + n; s = s\<lparr>nursery_current9 := e\<rparr>
           in if e > nursery_end9 s then stm_allocate_slowpath9 fuel X t n s else Ret p s)"

definition stm_allocate_weakref9 :: "nat \<Rightarrow> gext \<Rightarrow> nat \<Rightarrow> nat \<Rightarrow> gil \<Rightarrow> (gil, nat) res" where
  "stm_allocate_weakref9 fuel X t n s =
     (if n \<noteq> 16 then Fatal ''assert'' s
      else bind_res (stm_allocate9 fuel X t n s) (\<lambda>obj s.
             Ret obj (s\<lparr>young_weakrefs9 := young_weakrefs9 s @ [obj]\<rparr>)))"

section \<open>Threads and transactions\<close>

text \<open>Waiting for the mutex is the outcome \<open>Hang\<close>.\<close>

definition stm_register_thread_local9 :: "gext \<Rightarrow> nat \<Rightarrow> gil \<Rightarrow> gil" where
  "stm_register_thread_local9 X t s =
     (let (p, s) = malloc9 X (768 * 1024) s
      in upd_gtl t (\<lambda>l. l\<lparr>thread_local_obj9 := 0, shadowstack9 := [], last_abort9 := 0\<rparr>) s)"

definition stm_start_inevitable_transaction9 :: "nat \<Rightarrow> gil \<Rightarrow> (gil, unit) res" where
  "stm_start_inevitable_transaction9 t s =
     (if gil_locked s then Hang s else Ret () (s\<lparr>gil_locked := True, tloc := Some t\<rparr>))"

definition stm_commit_transaction9 :: "nat \<Rightarrow> gext \<Rightarrow> nat \<Rightarrow> gil \<Rightarrow> (gil, unit) res" where
  "stm_commit_transaction9 fuel X t s =
     bind_res (stm_collect9 fuel X t s) (\<lambda>_ s. Ret () (s\<lparr>tloc := None, gil_locked := False\<rparr>))"

definition STM_PUSH_ROOT9 :: "nat \<Rightarrow> nat \<Rightarrow> gil \<Rightarrow> gil" where
  "STM_PUSH_ROOT9 t p s = upd_gtl t (\<lambda>l. l\<lparr>shadowstack9 := shadowstack9 l @ [p]\<rparr>) s"

definition STM_POP_ROOT9 :: "nat \<Rightarrow> gil \<Rightarrow> nat \<times> gil" where
  "STM_POP_ROOT9 t s =
     (last (shadowstack9 (gtls s t)), upd_gtl t (\<lambda>l. l\<lparr>shadowstack9 := butlast (shadowstack9 l)\<rparr>) s)"

definition gil_setup :: "gil \<Rightarrow> gil" where
  "gil_setup s = s\<lparr>objects_pointing_to_nursery9 := [], young_weakrefs9 := []\<rparr>"

end
