(* ===== verification/Gilcopy.thy ===== *)
theory Gilcopy
  imports Gil
begin

text \<open>
  The copying collector of \<open>Gil\<close>: the invariant while it runs, and what each step of it keeps.
\<close>

section \<open>The allocator\<close>

text \<open>
  What the collector asks of \<open>malloc\<close>: as long as there is \<open>room\<close>, the block is new, and
  nothing but the accounts of the allocator changes.
\<close>

definition in_use9 :: "gil \<Rightarrow> nat \<Rightarrow> bool" where
  "in_use9 s x \<longleftrightarrow> (\<exists>(p, n) \<in> set (areas s). p \<le> x \<and> x < p + n)"

locale allocator =
  fixes X :: gext and room :: "nat \<Rightarrow> gil \<Rightarrow> bool"
  assumes malloc_new: "room (n + k) s \<Longrightarrow> malloc9 X n s = (p, t) \<Longrightarrow>
      p \<noteq> 0 \<and> p + n \<le> 2 ^ 64 \<and> (\<forall>x. p \<le> x \<and> x < p + n \<longrightarrow> \<not> in_use9 s x)"
    and malloc_state: "room (n + k) s \<Longrightarrow> malloc9 X n s = (p, t) \<Longrightarrow>
      (\<exists>c. t = s\<lparr>areas := (p, n) # areas s, malloc_area := c\<rparr>) \<and> room k t"
    and room_less: "room (k + n) s \<Longrightarrow> room k s"
    and room_cong: "areas s = areas t \<Longrightarrow> malloc_area s = malloc_area t \<Longrightarrow> room k s \<Longrightarrow> room k t"

section \<open>Well-formed heaps\<close>

text \<open>The size and the references of an object are in the bytes that are not the flags or a reference.\<close>

definition in_ref :: "gext \<Rightarrow> (nat \<Rightarrow> u8) \<Rightarrow> nat \<Rightarrow> bool" where
  "in_ref X f i \<longleftrightarrow> (\<exists>off \<in> set (trace9 X f). off \<le> i \<and> i < off + 8)"

definition cb_ok9 :: "gext \<Rightarrow> bool" where
  "cb_ok9 X \<longleftrightarrow> (\<forall>f f'. (\<forall>i. 4 \<le> i \<and> i < size9 X f \<and> \<not> in_ref X f i \<longrightarrow> f' i = f i) \<longrightarrow>
     size9 X f' = size9 X f \<and> trace9 X f' = trace9 X f)"

abbreviation osz :: "gext \<Rightarrow> gil \<Rightarrow> nat \<Rightarrow> nat" where
  "osz X s a \<equiv> size9 X (obj_bytes9 s a)"

abbreviation orefs :: "gext \<Rightarrow> gil \<Rightarrow> nat \<Rightarrow> nat list" where
  "orefs X s a \<equiv> trace9 X (obj_bytes9 s a)"

definition layout9 :: "gext \<Rightarrow> nat set \<Rightarrow> nat set \<Rightarrow> gil \<Rightarrow> bool" where
  "layout9 X young old s \<longleftrightarrow>
     nursery_base9 s \<le> nursery_current9 s \<and> nursery_current9 s \<le> nursery_end9 s \<and>
     nursery_end9 s = (if nursery_base9 s = 0 then 0 else nursery_base9 s + nursery_size9 X) \<and>
     (\<forall>x. nursery_base9 s \<le> x \<and> x < nursery_end9 s \<longrightarrow> in_use9 s x) \<and>
     (\<forall>a \<in> young. nursery_base9 s \<le> a \<and> a + osz X s a \<le> nursery_current9 s) \<and>
     (\<forall>a \<in> old. \<forall>x. a \<le> x \<and> x < a + osz X s a \<longrightarrow> in_use9 s x \<and> \<not> (nursery_base9 s \<le> x \<and> x < nursery_end9 s)) \<and>
     (\<forall>a \<in> young \<union> old. 16 \<le> osz X s a \<and> a \<noteq> 0 \<and> a + osz X s a \<le> 2 ^ 64) \<and>
     (\<forall>a \<in> young \<union> old. \<forall>b \<in> young \<union> old. a \<noteq> b \<longrightarrow> a + osz X s a \<le> b \<or> b + osz X s b \<le> a)"

definition fields9 :: "gext \<Rightarrow> nat set \<Rightarrow> nat set \<Rightarrow> gil \<Rightarrow> bool" where
  "fields9 X young old s \<longleftrightarrow> (\<forall>a \<in> young \<union> old. distinct (orefs X s a) \<and>
     (\<forall>off \<in> set (orefs X s a). 4 \<le> off \<and> off + 8 \<le> osz X s a \<and> read_ref s (a + off) \<in> {0} \<union> young \<union> old \<and>
       (\<forall>off' \<in> set (orefs X s a). off \<noteq> off' \<longrightarrow> off + 8 \<le> off' \<or> off' + 8 \<le> off)))"

definition remembered9 :: "gext \<Rightarrow> nat set \<Rightarrow> nat set \<Rightarrow> gil \<Rightarrow> bool" where
  "remembered9 X young old s \<longleftrightarrow> distinct (objects_pointing_to_nursery9 s) \<and> set (objects_pointing_to_nursery9 s) \<subseteq> old \<and>
     (\<forall>a \<in> old. a \<in> set (objects_pointing_to_nursery9 s) \<longleftrightarrow> gil_flags s a AND STM_GCFLAG_WRITE_BARRIER9 = 0) \<and>
     (\<forall>a \<in> old - set (objects_pointing_to_nursery9 s). \<forall>off \<in> set (orefs X s a). read_ref s (a + off) \<notin> young)"

definition roots9 :: "gil \<Rightarrow> nat \<Rightarrow> nat set" where
  "roots9 s t = insert (thread_local_obj9 (gtls s t)) (set (shadowstack9 (gtls s t)))"

text \<open>The thread \<open>t\<close> runs the transaction; the others have no young objects.\<close>

definition rooted9 :: "nat \<Rightarrow> nat set \<Rightarrow> nat set \<Rightarrow> gil \<Rightarrow> bool" where
  "rooted9 t young old s \<longleftrightarrow> roots9 s t \<subseteq> {0} \<union> young \<union> old \<and> (\<forall>u. u \<noteq> t \<longrightarrow> roots9 s u \<subseteq> {0} \<union> old)"

text \<open>A weakref: its header says so, and it has no other reference.\<close>

definition weak9 :: "gext \<Rightarrow> (nat \<Rightarrow> u8) \<Rightarrow> bool" where
  "weak9 X f \<longleftrightarrow> (\<forall>f'. (\<forall>i. 4 \<le> i \<and> i < 8 \<longrightarrow> f' i = f i) \<longrightarrow> size9 X f' = 16 \<and> trace9 X f' = [])"

definition weakrefs9 :: "gext \<Rightarrow> nat set \<Rightarrow> nat set \<Rightarrow> gil \<Rightarrow> bool" where
  "weakrefs9 X young old s \<longleftrightarrow> distinct (young_weakrefs9 s) \<and> set (young_weakrefs9 s) \<subseteq> young \<and>
     (\<forall>w \<in> set (young_weakrefs9 s). weak9 X (obj_bytes9 s w) \<and> read_ref s (w + 8) \<in> young \<union> old)"

text \<open>No young object is marked as moved, and none has the flag of the write barrier.\<close>

definition unmoved9 :: "nat set \<Rightarrow> gil \<Rightarrow> bool" where
  "unmoved9 young s \<longleftrightarrow> (\<forall>a \<in> young. load64 (gm s) a \<noteq> GCWORD_MOVED9 \<and> gil_flags s a AND STM_GCFLAG_WRITE_BARRIER9 = 0)"

definition heap_ok9 :: "gext \<Rightarrow> nat \<Rightarrow> nat set \<Rightarrow> nat set \<Rightarrow> gil \<Rightarrow> bool" where
  "heap_ok9 X t young old s \<longleftrightarrow> layout9 X young old s \<and> fields9 X young old s \<and> remembered9 X young old s \<and>
     rooted9 t young old s \<and> weakrefs9 X young old s \<and> unmoved9 young s"

text \<open>The young objects that the collector has to keep.\<close>

inductive_set live9 :: "gext \<Rightarrow> nat \<Rightarrow> nat set \<Rightarrow> gil \<Rightarrow> nat set" for X t young s where
  root: "v \<in> roots9 s t \<Longrightarrow> v \<in> young \<Longrightarrow> v \<in> live9 X t young s"
| remembered: "a \<in> set (objects_pointing_to_nursery9 s) \<Longrightarrow> off \<in> set (orefs X s a) \<Longrightarrow> read_ref s (a + off) \<in> young \<Longrightarrow>
    read_ref s (a + off) \<in> live9 X t young s"
| field: "a \<in> live9 X t young s \<Longrightarrow> off \<in> set (orefs X s a) \<Longrightarrow> read_ref s (a + off) \<in> young \<Longrightarrow>
    read_ref s (a + off) \<in> live9 X t young s"

lemma live9_young: "a \<in> live9 X t young s \<Longrightarrow> a \<in> young"
  by (induction rule: live9.induct) auto

section \<open>Memory\<close>

lemma gm_write9: "gm (write9 a n f s) x = (if a \<le> x \<and> x < a + n then f (x - a) else gm s x)"
  by (simp add: write9_def)

lemma write9_fields [simp]:
  "areas (write9 a n f s) = areas s" "malloc_area (write9 a n f s) = malloc_area s" "gtls (write9 a n f s) = gtls s"
  "tloc (write9 a n f s) = tloc s" "gil_locked (write9 a n f s) = gil_locked s" "nursery_base9 (write9 a n f s) = nursery_base9 s"
  "nursery_current9 (write9 a n f s) = nursery_current9 s" "nursery_end9 (write9 a n f s) = nursery_end9 s"
  "objects_pointing_to_nursery9 (write9 a n f s) = objects_pointing_to_nursery9 s" "young_weakrefs9 (write9 a n f s) = young_weakrefs9 s"
  by (simp_all add: write9_def)

lemma load64_shift: "load64 (\<lambda>x. m (a + x)) 0 = load64 m a"
  by (simp add: load64_def load32_def numeral_eq_Suc)

lemma read_ref_cong: "(\<And>i. i < 8 \<Longrightarrow> gm t (b + i) = gm s (a + i)) \<Longrightarrow> read_ref t b = read_ref s a"
proof -
  assume h: "\<And>i. i < 8 \<Longrightarrow> gm t (b + i) = gm s (a + i)"
  have "load64 (\<lambda>x. gm t (b + x)) 0 = load64 (\<lambda>x. gm s (a + x)) 0" using h by (intro load64_cong) simp
  then show ?thesis by (simp add: read_ref_def load64_shift)
qed

lemma read_write_ref: "v < 2 ^ 64 \<Longrightarrow> read_ref (write_ref a v s) a = v"
proof -
  assume v: "v < 2 ^ 64"
  have "load64 (gm (write_ref a v s)) a = of_nat v" by (rule load64_bytes) (simp add: write_ref_def gm_write9)
  then show ?thesis using v by (simp add: read_ref_def unat_of_nat)
qed

lemma read_ref_bound: "read_ref s a < 2 ^ 64"
  unfolding read_ref_def by (rule order_less_le_trans [OF unsigned_less]) simp

lemma gm_write_ref_other: "x < a \<or> a + 8 \<le> x \<Longrightarrow> gm (write_ref a v s) x = gm s x"
  by (auto simp: write_ref_def gm_write9)

lemma load32_write_other: "x + 4 \<le> a \<or> a + n \<le> x \<Longrightarrow> load32 (gm (write9 a n f s)) x = load32 (gm s) x"
  by (intro load32_cong) (auto simp: gm_write9)

lemma load64_write_other: "x + 8 \<le> a \<or> a + n \<le> x \<Longrightarrow> load64 (gm (write9 a n f s)) x = load64 (gm s) x"
  by (intro load64_cong) (auto simp: gm_write9)

section \<open>The invariant of the collection\<close>

text \<open>
  \<open>s0\<close> is the state at the start; \<open>\<phi>\<close> says where young objects have moved to; \<open>d\<close> are the
  offsets of the references that have been updated.
\<close>

definition loc9 :: "(nat \<rightharpoonup> nat) \<Rightarrow> nat \<Rightarrow> nat" where
  "loc9 \<phi> v = (case \<phi> v of Some b \<Rightarrow> b | None \<Rightarrow> v)"

lemma loc9_simps: "\<phi> v = Some b \<Longrightarrow> loc9 \<phi> v = b" "\<phi> v = None \<Longrightarrow> loc9 \<phi> v = v"
  by (simp_all add: loc9_def)

definition content9 :: "gext \<Rightarrow> gil \<Rightarrow> (nat \<rightharpoonup> nat) \<Rightarrow> nat set \<Rightarrow> gil \<Rightarrow> nat \<Rightarrow> bool" where
  "content9 X s0 \<phi> d s a \<longleftrightarrow>
     (\<forall>i. 4 \<le> i \<and> i < osz X s0 a \<and> \<not> in_ref X (obj_bytes9 s0 a) i \<longrightarrow> gm s (loc9 \<phi> a + i) = gm s0 (a + i)) \<and>
     (\<forall>off \<in> set (orefs X s0 a). read_ref s (loc9 \<phi> a + off) =
        (if off \<in> d then loc9 \<phi> (read_ref s0 (a + off)) else read_ref s0 (a + off)))"

definition same_frame9 :: "nat \<Rightarrow> gil \<Rightarrow> gil \<Rightarrow> bool" where
  "same_frame9 t s0 s \<longleftrightarrow> nursery_base9 s = nursery_base9 s0 \<and> nursery_current9 s = nursery_current9 s0 \<and>
     nursery_end9 s = nursery_end9 s0 \<and> young_weakrefs9 s = young_weakrefs9 s0 \<and> tloc s = tloc s0 \<and>
     gil_locked s = gil_locked s0 \<and> (\<forall>u. u \<noteq> t \<longrightarrow> gtls s u = gtls s0 u) \<and> (\<forall>x. in_use9 s0 x \<longrightarrow> in_use9 s x)"

definition copies9 :: "gext \<Rightarrow> gil \<Rightarrow> (nat \<rightharpoonup> nat) \<Rightarrow> gil \<Rightarrow> bool" where
  "copies9 X s0 \<phi> s \<longleftrightarrow>
     (\<forall>a b. \<phi> a = Some b \<longrightarrow> b \<noteq> 0 \<and> b + osz X s0 a \<le> 2 ^ 64 \<and>
        (\<forall>x. b \<le> x \<and> x < b + osz X s0 a \<longrightarrow> in_use9 s x \<and> \<not> in_use9 s0 x)) \<and>
     (\<forall>a b a' b'. \<phi> a = Some b \<longrightarrow> \<phi> a' = Some b' \<longrightarrow> a \<noteq> a' \<longrightarrow> b + osz X s0 a \<le> b' \<or> b' + osz X s0 a' \<le> b)"

definition forwards9 :: "gext \<Rightarrow> nat set \<Rightarrow> gil \<Rightarrow> (nat \<rightharpoonup> nat) \<Rightarrow> gil \<Rightarrow> bool" where
  "forwards9 X young s0 \<phi> s \<longleftrightarrow> (\<forall>a \<in> young. case \<phi> a of
       None \<Rightarrow> \<forall>i < osz X s0 a. gm s (a + i) = gm s0 (a + i)
     | Some b \<Rightarrow> load64 (gm s) a = GCWORD_MOVED9 \<and> read_ref s (a + 8) = b)"

definition updated9 :: "gext \<Rightarrow> nat set \<Rightarrow> gil \<Rightarrow> (nat \<rightharpoonup> nat) \<Rightarrow> (nat \<Rightarrow> nat set) \<Rightarrow> gil \<Rightarrow> bool" where
  "updated9 X old s0 \<phi> D s \<longleftrightarrow> (\<forall>a \<in> old \<union> dom \<phi>. content9 X s0 \<phi> (D a) s a \<and> D a \<subseteq> set (orefs X s0 a) \<and>
     (\<forall>off \<in> D a. read_ref s0 (a + off) \<in> {0} \<union> old \<union> dom \<phi>))"

text \<open>The objects still to be traced are those in the list; \<open>c\<close> are those that are being traced.\<close>

definition worklist9 :: "gext \<Rightarrow> nat set \<Rightarrow> gil \<Rightarrow> (nat \<rightharpoonup> nat) \<Rightarrow> (nat \<Rightarrow> nat set) \<Rightarrow> nat set \<Rightarrow> gil \<Rightarrow> bool" where
  "worklist9 X old s0 \<phi> D c s \<longleftrightarrow> distinct (objects_pointing_to_nursery9 s) \<and> c \<subseteq> old \<union> dom \<phi> \<and>
     set (objects_pointing_to_nursery9 s) \<subseteq> loc9 \<phi> ` (old \<union> dom \<phi>) \<and>
     (\<forall>a \<in> old \<union> dom \<phi>. if loc9 \<phi> a \<in> set (objects_pointing_to_nursery9 s)
        then D a = {} \<and> a \<notin> c \<and> gil_flags s (loc9 \<phi> a) = gil_flags s0 a \<and> gil_flags s0 a AND STM_GCFLAG_WRITE_BARRIER9 = 0
        else gil_flags s (loc9 \<phi> a) = gil_flags s0 a OR STM_GCFLAG_WRITE_BARRIER9 \<and>
          (a \<notin> c \<longrightarrow> D a = set (orefs X s0 a)))"

definition cinv9 :: "gext \<Rightarrow> nat \<Rightarrow> nat set \<Rightarrow> nat set \<Rightarrow> gil \<Rightarrow> (nat \<rightharpoonup> nat) \<Rightarrow> (nat \<Rightarrow> nat set) \<Rightarrow> nat set \<Rightarrow> gil \<Rightarrow> bool" where
  "cinv9 X t young old s0 \<phi> D c s \<longleftrightarrow> cb_ok9 X \<and> heap_ok9 X t young old s0 \<and> dom \<phi> \<subseteq> live9 X t young s0 \<and>
     same_frame9 t s0 s \<and> copies9 X s0 \<phi> s \<and> forwards9 X young s0 \<phi> s \<and> updated9 X old s0 \<phi> D s \<and>
     worklist9 X old s0 \<phi> D c s"

lemma cinvD:
  assumes "cinv9 X t young old s0 \<phi> D c s"
  shows "cb_ok9 X" "heap_ok9 X t young old s0" "dom \<phi> \<subseteq> live9 X t young s0" "same_frame9 t s0 s" "copies9 X s0 \<phi> s"
    "forwards9 X young s0 \<phi> s" "updated9 X old s0 \<phi> D s" "worklist9 X old s0 \<phi> D c s"
  using assms by (simp_all add: cinv9_def)

lemma heapD:
  assumes "heap_ok9 X t young old s"
  shows "layout9 X young old s" "fields9 X young old s" "remembered9 X young old s" "rooted9 t young old s"
    "weakrefs9 X young old s" "unmoved9 young s"
  using assms by (simp_all add: heap_ok9_def)

lemma layoutD9:
  assumes "layout9 X young old s"
  shows "nursery_base9 s \<le> nursery_current9 s" "nursery_current9 s \<le> nursery_end9 s"
    "nursery_base9 s \<le> x \<Longrightarrow> x < nursery_end9 s \<Longrightarrow> in_use9 s x"
    "a \<in> young \<Longrightarrow> nursery_base9 s \<le> a" "a \<in> young \<Longrightarrow> a + osz X s a \<le> nursery_current9 s"
    "a \<in> old \<Longrightarrow> a \<le> x \<Longrightarrow> x < a + osz X s a \<Longrightarrow> in_use9 s x"
    "a \<in> old \<Longrightarrow> a \<le> x \<Longrightarrow> x < a + osz X s a \<Longrightarrow> \<not> (nursery_base9 s \<le> x \<and> x < nursery_end9 s)"
    "a \<in> young \<union> old \<Longrightarrow> 16 \<le> osz X s a" "a \<in> young \<union> old \<Longrightarrow> a \<noteq> 0" "a \<in> young \<union> old \<Longrightarrow> a + osz X s a \<le> 2 ^ 64"
    "a \<in> young \<union> old \<Longrightarrow> b \<in> young \<union> old \<Longrightarrow> a \<noteq> b \<Longrightarrow> a + osz X s a \<le> b \<or> b + osz X s b \<le> a"
    "nursery_end9 s = (if nursery_base9 s = 0 then 0 else nursery_base9 s + nursery_size9 X)"
proof -
  note d = assms [unfolded layout9_def]
  show "nursery_base9 s \<le> nursery_current9 s" "nursery_current9 s \<le> nursery_end9 s"
    "nursery_end9 s = (if nursery_base9 s = 0 then 0 else nursery_base9 s + nursery_size9 X)"
    using d by - (elim conjE, assumption)+
  have u: "\<forall>x. nursery_base9 s \<le> x \<and> x < nursery_end9 s \<longrightarrow> in_use9 s x"
    and y: "\<forall>a \<in> young. nursery_base9 s \<le> a \<and> a + osz X s a \<le> nursery_current9 s"
    and o: "\<forall>a \<in> old. \<forall>x. a \<le> x \<and> x < a + osz X s a \<longrightarrow> in_use9 s x \<and> \<not> (nursery_base9 s \<le> x \<and> x < nursery_end9 s)"
    and z: "\<forall>a \<in> young \<union> old. 16 \<le> osz X s a \<and> a \<noteq> 0 \<and> a + osz X s a \<le> 2 ^ 64"
    and ap: "\<forall>a \<in> young \<union> old. \<forall>b \<in> young \<union> old. a \<noteq> b \<longrightarrow> a + osz X s a \<le> b \<or> b + osz X s b \<le> a"
    using d by - (elim conjE, assumption)+
  show "nursery_base9 s \<le> x \<Longrightarrow> x < nursery_end9 s \<Longrightarrow> in_use9 s x" using u by blast
  show "a \<in> young \<Longrightarrow> nursery_base9 s \<le> a" "a \<in> young \<Longrightarrow> a + osz X s a \<le> nursery_current9 s" using y by blast+
  show "a \<in> old \<Longrightarrow> a \<le> x \<Longrightarrow> x < a + osz X s a \<Longrightarrow> in_use9 s x"
    "a \<in> old \<Longrightarrow> a \<le> x \<Longrightarrow> x < a + osz X s a \<Longrightarrow> \<not> (nursery_base9 s \<le> x \<and> x < nursery_end9 s)" using o by blast+
  show "a \<in> young \<union> old \<Longrightarrow> 16 \<le> osz X s a" "a \<in> young \<union> old \<Longrightarrow> a \<noteq> 0" "a \<in> young \<union> old \<Longrightarrow> a + osz X s a \<le> 2 ^ 64"
    using z by blast+
  show "a \<in> young \<union> old \<Longrightarrow> b \<in> young \<union> old \<Longrightarrow> a \<noteq> b \<Longrightarrow> a + osz X s a \<le> b \<or> b + osz X s b \<le> a" using ap by blast
qed

lemma fieldsD:
  assumes "fields9 X young old s" and "a \<in> young \<union> old"
  shows "distinct (orefs X s a)" "off \<in> set (orefs X s a) \<Longrightarrow> 4 \<le> off" "off \<in> set (orefs X s a) \<Longrightarrow> off + 8 \<le> osz X s a"
    "off \<in> set (orefs X s a) \<Longrightarrow> read_ref s (a + off) \<in> {0} \<union> young \<union> old"
    "off \<in> set (orefs X s a) \<Longrightarrow> off' \<in> set (orefs X s a) \<Longrightarrow> off \<noteq> off' \<Longrightarrow> off + 8 \<le> off' \<or> off' + 8 \<le> off"
  using assms unfolding fields9_def by blast+

lemma young_old_apart:
  assumes "layout9 X young old s" and "a \<in> young"
  shows "a \<notin> old"
proof
  assume o: "a \<in> old"
  note l = layoutD9 [OF assms(1)]
  have "16 \<le> osz X s a" using l(8) assms(2) by blast
  then show False using l(7) [OF o, of a] l(2) l(4,5) [OF assms(2)] by auto
qed

text \<open>Where the objects are during the collection.\<close>

lemma cinv_region:
  assumes c: "cinv9 X t young old s0 \<phi> D c s" and a: "a \<in> old \<union> dom \<phi>"
  shows "16 \<le> osz X s0 a" and "loc9 \<phi> a \<noteq> 0" and "loc9 \<phi> a + osz X s0 a \<le> 2 ^ 64"
    and "loc9 \<phi> a \<le> x \<Longrightarrow> x < loc9 \<phi> a + osz X s0 a \<Longrightarrow> in_use9 s x"
    and "loc9 \<phi> a \<le> x \<Longrightarrow> x < loc9 \<phi> a + osz X s0 a \<Longrightarrow> \<not> (nursery_base9 s \<le> x \<and> x < nursery_end9 s)"
    and "a \<in> young \<union> old"
proof -
  note i = cinvD [OF c] and h = heapD [OF cinvD(2) [OF c]]
  note l = layoutD9 [OF h(1)]
  have f: "nursery_base9 s = nursery_base9 s0" "nursery_end9 s = nursery_end9 s0" "\<And>x. in_use9 s0 x \<Longrightarrow> in_use9 s x"
    using i(4) by (simp_all add: same_frame9_def)
  have y: "dom \<phi> \<subseteq> young" using i(3) live9_young by blast
  show ay: "a \<in> young \<union> old" using a y by blast
  show "16 \<le> osz X s0 a" by (rule l(8) [OF ay])
  have "loc9 \<phi> a \<noteq> 0 \<and> loc9 \<phi> a + osz X s0 a \<le> 2 ^ 64 \<and> (loc9 \<phi> a \<le> x \<longrightarrow> x < loc9 \<phi> a + osz X s0 a \<longrightarrow>
      in_use9 s x \<and> \<not> (nursery_base9 s \<le> x \<and> x < nursery_end9 s))"
  proof (cases "\<phi> a")
    case None
    then have "a \<in> old" using a by auto
    then show ?thesis using l(6,7) [of a x] l(9,10) [OF ay] f None by (simp add: loc9_simps)
  next
    case (Some b)
    then have "b \<noteq> 0" "b + osz X s0 a \<le> 2 ^ 64" "b \<le> x \<Longrightarrow> x < b + osz X s0 a \<Longrightarrow> in_use9 s x \<and> \<not> in_use9 s0 x"
      using i(5) unfolding copies9_def by blast+
    then show ?thesis using l(3) [of x] f(1,2) Some by (auto simp: loc9_simps)
  qed
  then show "loc9 \<phi> a \<noteq> 0" "loc9 \<phi> a + osz X s0 a \<le> 2 ^ 64"
    "loc9 \<phi> a \<le> x \<Longrightarrow> x < loc9 \<phi> a + osz X s0 a \<Longrightarrow> in_use9 s x"
    "loc9 \<phi> a \<le> x \<Longrightarrow> x < loc9 \<phi> a + osz X s0 a \<Longrightarrow> \<not> (nursery_base9 s \<le> x \<and> x < nursery_end9 s)" by blast+
qed

lemma apart_points:
  fixes p q n m :: nat
  assumes "0 < n" and "0 < m" and "\<And>x. p \<le> x \<Longrightarrow> x < p + n \<Longrightarrow> q \<le> x \<Longrightarrow> x < q + m \<Longrightarrow> False"
  shows "p + n \<le> q \<or> q + m \<le> p"
  using assms(3) [of p] assms(3) [of q] assms(1,2) by (cases "p \<le> q") (auto simp: not_le not_less [symmetric])

lemma cinv_apart:
  assumes c: "cinv9 X t young old s0 \<phi> D c s" and a: "a \<in> old \<union> dom \<phi>" and b: "b \<in> old \<union> dom \<phi>" and ne: "a \<noteq> b"
  shows "loc9 \<phi> a + osz X s0 a \<le> loc9 \<phi> b \<or> loc9 \<phi> b + osz X s0 b \<le> loc9 \<phi> a"
proof -
  note i = cinvD [OF c]
  note l = layoutD9 [OF heapD(1) [OF i(2)]]
  have z: "0 < osz X s0 a" "0 < osz X s0 b" using cinv_region(1) [OF c a] cinv_region(1) [OF c b] by simp_all
  have mixed: "p + osz X s0 p \<le> v \<or> v + osz X s0 q \<le> p" if "p \<in> old" "\<phi> q = Some v" "0 < osz X s0 p" "0 < osz X s0 q" for p q v
    using that(3,4)
  proof (rule apart_points)
    fix x assume x: "p \<le> x" "x < p + osz X s0 p" "v \<le> x" "x < v + osz X s0 q"
    show False using l(6) [OF that(1) x(1,2)] i(5) that(2) x(3,4) unfolding copies9_def by blast
  qed
  show ?thesis
  proof (cases "\<phi> a"; cases "\<phi> b")
    assume "\<phi> a = None" "\<phi> b = None"
    then show ?thesis using a b ne l(11) [of a b] by (simp add: loc9_simps domIff)
  next
    fix v assume v: "\<phi> a = None" "\<phi> b = Some v"
    then show ?thesis using a mixed [of a b v] z by (auto simp: loc9_simps domIff)
  next
    fix v assume v: "\<phi> a = Some v" "\<phi> b = None"
    then show ?thesis using b mixed [of b a v] z by (auto simp: loc9_simps domIff)
  next
    fix v w assume v: "\<phi> a = Some v" "\<phi> b = Some w"
    then show ?thesis using i(5) ne unfolding copies9_def by (simp add: loc9_simps)
  qed
qed

lemma cinv_inj:
  assumes c: "cinv9 X t young old s0 \<phi> D c s" and a: "a \<in> old \<union> dom \<phi>" and b: "b \<in> old \<union> dom \<phi>"
  shows "loc9 \<phi> a = loc9 \<phi> b \<longleftrightarrow> a = b"
  using cinv_apart [OF c a b] cinv_region(1) [OF c a] cinv_region(1) [OF c b] by fastforce

text \<open>A change of memory that leaves alone what the invariant is about, except for one object.\<close>

lemma content9_cong:
  assumes f: "fields9 X young old s0" and a: "a \<in> young \<union> old"
    and "\<And>i. 4 \<le> i \<Longrightarrow> i < osz X s0 a \<Longrightarrow> gm s' (loc9 \<phi> a + i) = gm s (loc9 \<phi> a + i)"
  shows "content9 X s0 \<phi> d s' a = content9 X s0 \<phi> d s a"
proof -
  note d = fieldsD [OF f a]
  have "read_ref s' (loc9 \<phi> a + off) = read_ref s (loc9 \<phi> a + off)" if "off \<in> set (orefs X s0 a)" for off
    using d(2,3) [OF that] assms(3) [of "off + i" for i] by (intro read_ref_cong) (simp add: add.assoc)
  then show ?thesis using assms(3) by (simp add: content9_def)
qed

lemma content9_callbacks:
  assumes cb: "cb_ok9 X" and c: "content9 X s0 \<phi> d s a"
  shows "size9 X (obj_bytes9 s (loc9 \<phi> a)) = osz X s0 a" and "trace9 X (obj_bytes9 s (loc9 \<phi> a)) = orefs X s0 a"
proof -
  have "\<forall>i. 4 \<le> i \<and> i < osz X s0 a \<and> \<not> in_ref X (obj_bytes9 s0 a) i \<longrightarrow> obj_bytes9 s (loc9 \<phi> a) i = obj_bytes9 s0 a i"
    using c by (simp add: content9_def obj_bytes9_def)
  then show "size9 X (obj_bytes9 s (loc9 \<phi> a)) = osz X s0 a" "trace9 X (obj_bytes9 s (loc9 \<phi> a)) = orefs X s0 a"
    using cb unfolding cb_ok9_def by blast+
qed

section \<open>Copying one object\<close>

lemma loc9_upd: "v \<notin> dom \<phi> \<Longrightarrow> a \<noteq> v \<Longrightarrow> loc9 (\<phi>(v \<mapsto> p)) a = loc9 \<phi> a" "loc9 (\<phi>(v \<mapsto> p)) v = p"
  by (simp_all add: loc9_def)

lemma copy_keeps:
  assumes c: "cinv9 X t young old s0 \<phi> D c s" and v: "v \<in> live9 X t young s0" "\<phi> v = None"
    and new: "p \<noteq> 0" "p + osz X s0 v \<le> 2 ^ 64" "\<And>x. p \<le> x \<Longrightarrow> x < p + osz X s0 v \<Longrightarrow> \<not> in_use9 s x"
    and use: "\<And>x. in_use9 s' x \<longleftrightarrow> in_use9 s x \<or> p \<le> x \<and> x < p + osz X s0 v"
    and fr: "same_frame9 t s s'" "objects_pointing_to_nursery9 s' = objects_pointing_to_nursery9 s @ [p]"
    and m: "\<And>x. \<not> (p \<le> x \<and> x < p + osz X s0 v) \<Longrightarrow> \<not> (v \<le> x \<and> x < v + 16) \<Longrightarrow> gm s' x = gm s x"
    and cp: "\<And>i. i < osz X s0 v \<Longrightarrow> gm s' (p + i) = gm s (v + i)"
    and fw: "load64 (gm s') v = GCWORD_MOVED9" "read_ref s' (v + 8) = p"
  shows "cinv9 X t young old s0 (\<phi>(v \<mapsto> p)) (D(v := {})) c s'"
proof -
  let ?\<phi> = "\<phi>(v \<mapsto> p)" and ?D = "D(v := {})" and ?z = "osz X s0 v"
  note i = cinvD [OF c] note h = heapD [OF i(2)] note l = layoutD9 [OF h(1)]
  have vy: "v \<in> young" by (rule live9_young [OF v(1)])
  then have vo: "v \<notin> old" "v \<notin> old \<union> dom \<phi>" using young_old_apart [OF h(1)] v(2) by auto
  have z: "16 \<le> ?z" using l(8) vy by blast
  have sf: "nursery_base9 s = nursery_base9 s0" "nursery_end9 s = nursery_end9 s0" "\<And>x. in_use9 s0 x \<Longrightarrow> in_use9 s x"
    using i(4) by (simp_all add: same_frame9_def)
  have nv: "nursery_base9 s \<le> x \<and> x < nursery_end9 s" if "v \<le> x" "x < v + 16" for x
    using l(2) l(4,5) [OF vy] z that sf by linarith
  have keep: "gm s' (loc9 \<phi> a + j) = gm s (loc9 \<phi> a + j)" if "a \<in> old \<union> dom \<phi>" "j < osz X s0 a" for a j
    using cinv_region(4,5) [OF c that(1), of "loc9 \<phi> a + j"] that(2) new(3) [of "loc9 \<phi> a + j"] nv [of "loc9 \<phi> a + j"]
    by (intro m) auto
  have orig: "gm s (v + j) = gm s0 (v + j)" if "j < ?z" for j
    using i(6) vy v(2) that by (auto simp: forwards9_def)
  have dom: "dom ?\<phi> = insert v (dom \<phi>)" by auto
  have loc: "loc9 ?\<phi> a = loc9 \<phi> a" if "a \<in> {0} \<union> old \<union> dom \<phi>" for a
    using that vo l(9) [of v] vy v(2) by (intro loc9_upd(1)) auto
  have np: "loc9 \<phi> a \<noteq> p" if "a \<in> old \<union> dom \<phi>" for a
    using cinv_region(1) [OF c that] cinv_region(4) [OF c that, of "loc9 \<phi> a"] new(3) [of p] z by auto
  have "dom ?\<phi> \<subseteq> live9 X t young s0" using i(3) v(1) by auto
  moreover have "same_frame9 t s0 s'" using i(4) fr(1) by (simp add: same_frame9_def)
  moreover have "copies9 X s0 ?\<phi> s'"
  proof -
    have ap: "p + ?z \<le> b \<or> b + osz X s0 a \<le> p" if "\<phi> a = Some b" for a b
    proof (rule apart_points)
      show "0 < ?z" using z by simp
      have a: "a \<in> old \<union> dom \<phi>" using that by auto
      then show "0 < osz X s0 a" using cinv_region(1) [OF c] by force
      show False if x: "p \<le> x" "x < p + ?z" "b \<le> x" "x < b + osz X s0 a" for x
        using new(3) [OF x(1,2)] cinv_region(4) [OF c a, of x] x(3,4) \<open>\<phi> a = Some b\<close> by (simp add: loc9_simps)
    qed
    have "\<not> in_use9 s0 x" if "p \<le> x" "x < p + ?z" for x using new(3) [OF that] sf(3) by blast
    then show ?thesis using i(5) new(1,2) use ap unfolding copies9_def by (auto simp: fun_upd_def; fail)+
  qed
  moreover have "forwards9 X young s0 ?\<phi> s'"
    unfolding forwards9_def
  proof
    fix a assume a: "a \<in> young"
    have za: "16 \<le> osz X s0 a" using l(8) a by blast
    have same: "gm s' (a + j) = gm s (a + j)" if "a \<noteq> v" "j < osz X s0 a" for j
    proof (rule m)
      show "\<not> (v \<le> a + j \<and> a + j < v + 16)" using l(11) [of a v] a vy that z by auto
      have "nursery_base9 s0 \<le> a + j" "a + j < nursery_end9 s0" using l(2) l(4,5) [OF a] that(2) by linarith+
      then show "\<not> (p \<le> a + j \<and> a + j < p + ?z)" using new(3) sf(3) l(3) by blast
    qed
    show "case ?\<phi> a of None \<Rightarrow> \<forall>j < osz X s0 a. gm s' (a + j) = gm s0 (a + j)
        | Some b \<Rightarrow> load64 (gm s') a = GCWORD_MOVED9 \<and> read_ref s' (a + 8) = b"
    proof (cases "a = v")
      case True
      then show ?thesis using fw by simp
    next
      case False
      have "load64 (gm s') a = load64 (gm s) a" using same [OF False] za by (intro load64_cong) simp
      moreover have "read_ref s' (a + 8) = read_ref s (a + 8)"
        using same [OF False, of "8 + i" for i] za by (intro read_ref_cong) (simp add: add.assoc)
      ultimately show ?thesis using i(6) a False same [OF False] by (auto simp: forwards9_def split: option.splits)
    qed
  qed
  moreover have "updated9 X old s0 ?\<phi> ?D s'"
    unfolding updated9_def
  proof
    fix a assume a: "a \<in> old \<union> dom ?\<phi>"
    show "content9 X s0 ?\<phi> (?D a) s' a \<and> ?D a \<subseteq> set (orefs X s0 a) \<and>
       (\<forall>off \<in> ?D a. read_ref s0 (a + off) \<in> {0} \<union> old \<union> dom ?\<phi>)"
    proof (cases "a = v")
      case True
      have "read_ref s' (p + off) = read_ref s0 (v + off)" if "off \<in> set (orefs X s0 v)" for off
        using fieldsD(3) [OF h(2) _ that] vy cp [of "off + j" for j] orig [of "off + j" for j]
        by (intro read_ref_cong) (simp add: add.assoc)
      then show ?thesis using True cp orig by (simp add: content9_def loc9_upd(2))
    next
      case False
      then have ao: "a \<in> old \<union> dom \<phi>" using a dom by auto
      have u: "content9 X s0 \<phi> (D a) s a" "D a \<subseteq> set (orefs X s0 a)" "\<forall>off \<in> D a. read_ref s0 (a + off) \<in> {0} \<union> old \<union> dom \<phi>"
        using i(7) ao unfolding updated9_def by blast+
      have "content9 X s0 \<phi> (D a) s' a"
        using content9_cong [OF h(2) cinv_region(6) [OF c ao]] keep [OF ao] u(1) by blast
      moreover have "loc9 ?\<phi> a = loc9 \<phi> a" using loc ao by blast
      ultimately have "content9 X s0 ?\<phi> (D a) s' a" using u(3) loc by (simp add: content9_def)
      then show ?thesis using u(2,3) False dom by auto
    qed
  qed
  moreover have "worklist9 X old s0 ?\<phi> ?D c s'"
  proof -
    have w: "distinct (objects_pointing_to_nursery9 s)" "c \<subseteq> old \<union> dom \<phi>"
      "set (objects_pointing_to_nursery9 s) \<subseteq> loc9 \<phi> ` (old \<union> dom \<phi>)"
      "\<And>a. a \<in> old \<union> dom \<phi> \<Longrightarrow> if loc9 \<phi> a \<in> set (objects_pointing_to_nursery9 s)
         then D a = {} \<and> a \<notin> c \<and> gil_flags s (loc9 \<phi> a) = gil_flags s0 a \<and> gil_flags s0 a AND STM_GCFLAG_WRITE_BARRIER9 = 0
         else gil_flags s (loc9 \<phi> a) = gil_flags s0 a OR STM_GCFLAG_WRITE_BARRIER9 \<and> (a \<notin> c \<longrightarrow> D a = set (orefs X s0 a))"
      using i(8) unfolding worklist9_def by blast+
    have fl: "gil_flags s' (loc9 \<phi> a) = gil_flags s (loc9 \<phi> a)" if "a \<in> old \<union> dom \<phi>" for a
      unfolding gil_flags_def using keep [OF that] cinv_region(1) [OF c that] by (intro load32_cong) simp
    have fv: "gil_flags s' p = gil_flags s0 v"
    proof -
      have "load32 (\<lambda>x. gm s' (p + x)) 0 = load32 (\<lambda>x. gm s0 (v + x)) 0" using cp orig z by (intro load32_cong) simp
      then show ?thesis by (simp add: gil_flags_def load32_def)
    qed
    have img: "loc9 ?\<phi> ` (old \<union> dom ?\<phi>) = insert p (loc9 \<phi> ` (old \<union> dom \<phi>))"
    proof -
      have "loc9 ?\<phi> ` (old \<union> dom \<phi>) = loc9 \<phi> ` (old \<union> dom \<phi>)" using loc by (intro image_cong) auto
      then show ?thesis unfolding dom by (simp add: loc9_upd(2))
    qed
    have pn: "p \<notin> set (objects_pointing_to_nursery9 s)" using w(3) np by force
    have "if loc9 ?\<phi> a \<in> set (objects_pointing_to_nursery9 s')
         then ?D a = {} \<and> a \<notin> c \<and> gil_flags s' (loc9 ?\<phi> a) = gil_flags s0 a \<and> gil_flags s0 a AND STM_GCFLAG_WRITE_BARRIER9 = 0
         else gil_flags s' (loc9 ?\<phi> a) = gil_flags s0 a OR STM_GCFLAG_WRITE_BARRIER9 \<and> (a \<notin> c \<longrightarrow> ?D a = set (orefs X s0 a))"
      if a: "a \<in> old \<union> dom ?\<phi>" for a
    proof (cases "a = v")
      case True
      then show ?thesis using fv w(2) vo fr(2) h(6) vy by (auto simp: loc9_upd(2) unmoved9_def)
    next
      case False
      then have ao: "a \<in> old \<union> dom \<phi>" using a dom by auto
      have "loc9 ?\<phi> a = loc9 \<phi> a" using loc ao by blast
      then show ?thesis using w(4) [OF ao] fl [OF ao] np [OF ao] False fr(2) by simp
    qed
    moreover have "distinct (objects_pointing_to_nursery9 s')" using w(1) pn fr(2) by simp
    moreover have "c \<subseteq> old \<union> dom ?\<phi>" using w(2) dom by blast
    moreover have "set (objects_pointing_to_nursery9 s') \<subseteq> loc9 ?\<phi> ` (old \<union> dom ?\<phi>)" using w(3) fr(2) unfolding img by auto
    ultimately show ?thesis unfolding worklist9_def by blast
  qed
  ultimately show ?thesis using i(1,2) by (simp add: cinv9_def)
qed

section \<open>Visiting a reference\<close>

text \<open>The bytes that may still have to be allocated, and the objects that may still have to be traced.\<close>

definition rest9 :: "gext \<Rightarrow> nat set \<Rightarrow> gil \<Rightarrow> (nat \<rightharpoonup> nat) \<Rightarrow> nat" where
  "rest9 X young s0 \<phi> = (\<Sum>a \<in> young - dom \<phi>. osz X s0 a)"

definition pending9 :: "nat set \<Rightarrow> (nat \<rightharpoonup> nat) \<Rightarrow> gil \<Rightarrow> nat" where
  "pending9 young \<phi> s = length (objects_pointing_to_nursery9 s) + card (young - dom \<phi>)"

lemma rest9_copy:
  assumes "finite young" and "v \<in> young" and "\<phi> v = None"
  shows "rest9 X young s0 \<phi> = osz X s0 v + rest9 X young s0 (\<phi>(v \<mapsto> p))"
    and "card (young - dom \<phi>) = Suc (card (young - dom (\<phi>(v \<mapsto> p))))"
proof -
  have e: "young - dom \<phi> = insert v (young - dom (\<phi>(v \<mapsto> p)))" using assms by auto
  have n: "v \<notin> young - dom (\<phi>(v \<mapsto> p))" "finite (young - dom (\<phi>(v \<mapsto> p)))" using assms by auto
  show "rest9 X young s0 \<phi> = osz X s0 v + rest9 X young s0 (\<phi>(v \<mapsto> p))"
    unfolding rest9_def e using n by (simp add: sum.insert)
  show "card (young - dom \<phi>) = Suc (card (young - dom (\<phi>(v \<mapsto> p))))"
    unfolding e using n by simp
qed

text \<open>What a visit does, whatever the reference.\<close>

definition visited9 :: "gext \<Rightarrow> (nat \<Rightarrow> gil \<Rightarrow> bool) \<Rightarrow> nat \<Rightarrow> nat set \<Rightarrow> nat set \<Rightarrow> gil \<Rightarrow> nat set \<Rightarrow> nat \<Rightarrow>
    (nat \<rightharpoonup> nat) \<Rightarrow> (nat \<Rightarrow> nat set) \<Rightarrow> gil \<Rightarrow> (nat \<rightharpoonup> nat) \<Rightarrow> (nat \<Rightarrow> nat set) \<Rightarrow> gil \<Rightarrow> bool" where
  "visited9 X room t young old s0 c k \<phi> D s \<phi>' D' s' \<longleftrightarrow> cinv9 X t young old s0 \<phi>' D' c s' \<and> \<phi> \<subseteq>\<^sub>m \<phi>' \<and>
     (\<forall>a \<in> old \<union> dom \<phi>. D' a = D a) \<and> gtls s' = gtls s \<and> room (k + rest9 X young s0 \<phi>') s' \<and>
     pending9 young \<phi>' s' = pending9 young \<phi> s"

lemma visited9_refl:
  "cinv9 X t young old s0 \<phi> D c s \<Longrightarrow> room (k + rest9 X young s0 \<phi>) s \<Longrightarrow> visited9 X room t young old s0 c k \<phi> D s \<phi> D s"
  by (simp add: visited9_def)

lemma visit_old:
  assumes "v = 0 \<or> \<not> is_in_nursery9 s v"
  shows "minor_trace_if_young9 X v s = (v, s)"
  using assms by (auto simp: minor_trace_if_young9_def)

lemma young_in_nursery:
  assumes c: "cinv9 X t young old s0 \<phi> D c s" and v: "v \<in> young"
  shows "is_in_nursery9 s v" and "v \<noteq> 0"
proof -
  note i = cinvD [OF c] note l = layoutD9 [OF heapD(1) [OF i(2)]]
  have "16 \<le> osz X s0 v" using l(8) v by blast
  then show "is_in_nursery9 s v" using l(2) l(4,5) [OF v] i(4) by (simp add: is_in_nursery9_def same_frame9_def)
  show "v \<noteq> 0" using l(9) v by blast
qed

lemma old_not_in_nursery:
  assumes c: "cinv9 X t young old s0 \<phi> D c s" and a: "a \<in> old \<union> dom \<phi>"
  shows "\<not> is_in_nursery9 s (loc9 \<phi> a)"
  using cinv_region(1,5) [OF c a] by (auto simp: is_in_nursery9_def)

context allocator
begin

lemma copy_one:
  assumes c: "cinv9 X t young old s0 \<phi> D c s" and v: "v \<in> live9 X t young s0" "\<phi> v = None"
    and fin: "finite young" and rm: "room (k + rest9 X young s0 \<phi>) s"
  shows "\<exists>p s'. minor_trace_if_young9 X v s = (p, s') \<and>
    visited9 X room t young old s0 c k \<phi> D s (\<phi>(v \<mapsto> p)) (D(v := {})) s'"
proof -
  note i = cinvD [OF c] note h = heapD [OF i(2)] note l = layoutD9 [OF h(1)]
  let ?z = "osz X s0 v"
  have vy: "v \<in> young" by (rule live9_young [OF v(1)])
  have z: "16 \<le> ?z" using l(8) vy by blast
  have orig: "gm s (v + j) = gm s0 (v + j)" if "j < ?z" for j
    using i(6) vy v(2) that by (auto simp: forwards9_def)
  have n: "osz X s v = ?z"
    using i(1) orig unfolding cb_ok9_def by (metis obj_bytes9_def)
  obtain p u where pu: "malloc9 X ?z s = (p, u)" by (cases "malloc9 X ?z s")
  have rm': "room (?z + (k + rest9 X young s0 (\<phi>(v \<mapsto> p)))) s"
    using rm rest9_copy(1) [where \<phi> = \<phi>, OF fin vy v(2), of X s0 p] by (simp add: ac_simps)
  note new = malloc_new [OF rm' pu] and st = malloc_state [OF rm' pu]
  obtain q where u: "u = s\<lparr>areas := (p, ?z) # areas s, malloc_area := q\<rparr>" using st by blast
  define s' where "s' = (write_ref (v + 8) p (write9 v 8 (byte_of64 GCWORD_MOVED9) (write9 p ?z (obj_bytes9 u v) u)))
     \<lparr>objects_pointing_to_nursery9 := objects_pointing_to_nursery9 s @ [p]\<rparr>"
  have "load64 (gm s) v \<noteq> GCWORD_MOVED9"
  proof -
    have "load64 (gm s) v = load64 (gm s0) v" using orig z by (intro load64_cong) simp
    then show ?thesis using h(6) vy by (simp add: unmoved9_def)
  qed
  then have r: "minor_trace_if_young9 X v s = (p, s')"
    using young_in_nursery [OF c vy] by (simp add: minor_trace_if_young9_def n pu Let_def s'_def write_ref_def u)
  have gu: "gm u = gm s" by (simp add: u)
  have sf: "nursery_base9 s = nursery_base9 s0" "nursery_end9 s = nursery_end9 s0" "\<And>x. in_use9 s0 x \<Longrightarrow> in_use9 s x"
    using i(4) by (simp_all add: same_frame9_def)
  have nv: "in_use9 s x" if "v \<le> x" "x < v + ?z" for x
    using l(2,3) l(4,5) [OF vy] that sf(3) by (meson le_trans less_le_trans)
  have gs: "gm s' x = (if v + 8 \<le> x \<and> x < v + 16 then byte_of64 (of_nat p) (x - (v + 8)) else
      if v \<le> x \<and> x < v + 8 then byte_of64 GCWORD_MOVED9 (x - v) else
      if p \<le> x \<and> x < p + ?z then gm s (v + (x - p)) else gm s x)" for x
    by (simp add: s'_def write_ref_def gm_write9 gu obj_bytes9_def)
  have use: "in_use9 s' x \<longleftrightarrow> in_use9 s x \<or> p \<le> x \<and> x < p + ?z" for x
    by (auto simp: in_use9_def s'_def write_ref_def u)
  have "cinv9 X t young old s0 (\<phi>(v \<mapsto> p)) (D(v := {})) c s'"
  proof (rule copy_keeps [OF c v])
    show "p \<noteq> 0" "p + ?z \<le> 2 ^ 64" "\<And>x. p \<le> x \<Longrightarrow> x < p + ?z \<Longrightarrow> \<not> in_use9 s x" using new by blast+
    show "in_use9 s' x \<longleftrightarrow> in_use9 s x \<or> p \<le> x \<and> x < p + ?z" for x by (rule use)
    show "same_frame9 t s s'" using use by (simp add: same_frame9_def s'_def write_ref_def u)
    show "objects_pointing_to_nursery9 s' = objects_pointing_to_nursery9 s @ [p]" by (simp add: s'_def)
    show "gm s' x = gm s x" if "\<not> (p \<le> x \<and> x < p + ?z)" "\<not> (v \<le> x \<and> x < v + 16)" for x
      using that unfolding gs by auto
    show "gm s' (p + j) = gm s (v + j)" if "j < ?z" for j
      using nv [of "p + j"] new that z unfolding gs by auto
    show "load64 (gm s') v = GCWORD_MOVED9" by (rule load64_bytes) (simp add: gs)
    have "load64 (gm s') (v + 8) = of_nat p" by (rule load64_bytes) (simp add: gs)
    then show "read_ref s' (v + 8) = p" using new z by (simp add: read_ref_def unat_of_nat)
  qed
  moreover have "\<phi> \<subseteq>\<^sub>m \<phi>(v \<mapsto> p)" using v(2) by (auto simp: map_le_def domIff)
  moreover have "\<forall>a \<in> old \<union> dom \<phi>. (D(v := {})) a = D a" using young_old_apart [OF h(1) vy] v(2) by auto
  moreover have "gtls s' = gtls s" by (simp add: s'_def write_ref_def u)
  moreover have "room (k + rest9 X young s0 (\<phi>(v \<mapsto> p))) s'"
    using conjunct2 [OF st] by (rule room_cong [rotated 2]) (simp_all add: s'_def write_ref_def)
  moreover have "pending9 young (\<phi>(v \<mapsto> p)) s' = pending9 young \<phi> s"
    using rest9_copy(2) [where \<phi> = \<phi>, OF fin vy v(2), of p] by (simp add: pending9_def s'_def)
  ultimately have "visited9 X room t young old s0 c k \<phi> D s (\<phi>(v \<mapsto> p)) (D(v := {})) s'"
    unfolding visited9_def by blast
  then show ?thesis using r by blast
qed

lemma visit_ok:
  assumes c: "cinv9 X t young old s0 \<phi> D c s" and v: "v \<in> {0} \<union> old \<union> young" "v \<in> young \<Longrightarrow> v \<in> live9 X t young s0"
    and fin: "finite young" and rm: "room (k + rest9 X young s0 \<phi>) s"
  shows "\<exists>\<phi>' D' s'. minor_trace_if_young9 X v s = (loc9 \<phi>' v, s') \<and> visited9 X room t young old s0 c k \<phi> D s \<phi>' D' s' \<and>
    (v \<in> young \<longrightarrow> v \<in> dom \<phi>')"
proof (cases "v \<in> young")
  case False
  note i = cinvD [OF c]
  have "\<phi> v = None" using False i(3) live9_young by (metis domIff subsetD)
  moreover have "v = 0 \<or> \<not> is_in_nursery9 s v" using old_not_in_nursery [OF c, of v] v(1) False calculation by (auto simp: loc9_simps)
  moreover have "v = 0 \<or> \<not> is_in_nursery9 s v \<Longrightarrow> minor_trace_if_young9 X v s = (v, s)" by (rule visit_old)
  moreover have "visited9 X room t young old s0 c k \<phi> D s \<phi> D s" using visited9_refl [OF c] rm by blast
  ultimately show ?thesis
    using False by (intro exI [of _ \<phi>] exI [of _ D] exI [of _ s]) (auto simp: loc9_simps)
next
  case True
  show ?thesis
  proof (cases "\<phi> v")
    case None
    obtain p s' where p: "minor_trace_if_young9 X v s = (p, s')"
      "visited9 X room t young old s0 c k \<phi> D s (\<phi>(v \<mapsto> p)) (D(v := {})) s'"
      using copy_one [OF c v(2) [OF True] None fin rm] by blast
    then show ?thesis by (intro exI [of _ "\<phi>(v \<mapsto> p)"] exI conjI, unfold loc9_upd(2)) auto
  next
    case (Some b)
    then have "load64 (gm s) v = GCWORD_MOVED9" "read_ref s (v + 8) = b"
      using cinvD(6) [OF c] True by (auto simp: forwards9_def split: option.splits)
    then have "minor_trace_if_young9 X v s = (loc9 \<phi> v, s)"
      using young_in_nursery [OF c True] Some by (simp add: minor_trace_if_young9_def loc9_simps)
    then show ?thesis using visited9_refl [OF c] rm Some by blast
  qed
qed

end

section \<open>Tracing one object\<close>

lemma loc9_mono:
  assumes c: "cinv9 X t young old s0 \<phi> D c s" and c': "cinv9 X t young old s0 \<phi>' D' c' s'" and m: "\<phi> \<subseteq>\<^sub>m \<phi>'"
    and a: "a \<in> old \<union> dom \<phi>"
  shows "loc9 \<phi>' a = loc9 \<phi> a" and "a \<in> old \<union> dom \<phi>'"
proof -
  have y: "dom \<phi>' \<subseteq> young" using cinvD(3) [OF c'] live9_young by blast
  have o: "a \<in> old \<Longrightarrow> a \<notin> young" using young_old_apart [OF heapD(1) [OF cinvD(2) [OF c]]] by blast
  show "loc9 \<phi>' a = loc9 \<phi> a"
  proof (cases "\<phi> a")
    case None
    then have "\<phi>' a = None" using a o y by auto
    then show ?thesis using None by (simp add: loc9_simps)
  next
    case (Some b)
    then have "\<phi>' a = Some b" using m by (metis domI map_le_def)
    then show ?thesis using Some by (simp add: loc9_simps)
  qed
  show "a \<in> old \<union> dom \<phi>'" using a map_le_implies_dom_le [OF m] by blast
qed

lemma write_field_keeps:
  assumes c: "cinv9 X t young old s0 \<phi> D c s" and a: "a \<in> c" and off: "off \<in> set (orefs X s0 a)"
    and v: "read_ref s0 (a + off) \<in> {0} \<union> old \<union> dom \<phi>"
  shows "cinv9 X t young old s0 \<phi> (D(a := insert off (D a))) c (write_ref (loc9 \<phi> a + off) (loc9 \<phi> (read_ref s0 (a + off))) s)"
proof -
  let ?v = "loc9 \<phi> (read_ref s0 (a + off))" let ?b = "loc9 \<phi> a + off" let ?s = "write_ref ?b ?v s"
  let ?D = "D(a := insert off (D a))"
  note i = cinvD [OF c] note h = heapD [OF i(2)] note l = layoutD9 [OF h(1)]
  have w: "distinct (objects_pointing_to_nursery9 s)" "c \<subseteq> old \<union> dom \<phi>"
    "set (objects_pointing_to_nursery9 s) \<subseteq> loc9 \<phi> ` (old \<union> dom \<phi>)"
    "\<And>a. a \<in> old \<union> dom \<phi> \<Longrightarrow> if loc9 \<phi> a \<in> set (objects_pointing_to_nursery9 s)
       then D a = {} \<and> a \<notin> c \<and> gil_flags s (loc9 \<phi> a) = gil_flags s0 a \<and> gil_flags s0 a AND STM_GCFLAG_WRITE_BARRIER9 = 0
       else gil_flags s (loc9 \<phi> a) = gil_flags s0 a OR STM_GCFLAG_WRITE_BARRIER9 \<and> (a \<notin> c \<longrightarrow> D a = set (orefs X s0 a))"
    using i(8) unfolding worklist9_def by blast+
  have ao: "a \<in> old \<union> dom \<phi>" using a w(2) by blast
  have ay: "a \<in> young \<union> old" by (rule cinv_region(6) [OF c ao])
  note fd = fieldsD [OF h(2) ay]
  have fr: "objects_pointing_to_nursery9 ?s = objects_pointing_to_nursery9 s" "areas ?s = areas s" by (simp_all add: write_ref_def)
  have use: "in_use9 ?s = in_use9 s" by (simp add: in_use9_def fun_eq_iff fr)
  have bound: "?v < 2 ^ 64"
  proof (cases "read_ref s0 (a + off) = 0")
    case True
    have "0 \<notin> dom \<phi>" using i(3) l(9) live9_young by blast
    then show ?thesis using True by (auto simp: loc9_def domIff split: option.split)
  next
    case False
    then have "read_ref s0 (a + off) \<in> old \<union> dom \<phi>" using v by auto
    then show ?thesis using cinv_region(1,3) [OF c] by fastforce
  qed
  have keep: "gm ?s x = gm s x" if "x < ?b \<or> ?b + 8 \<le> x" for x by (rule gm_write_ref_other [OF that])
  have other: "gm ?s (loc9 \<phi> b + j) = gm s (loc9 \<phi> b + j)" if "b \<in> old \<union> dom \<phi>" "b \<noteq> a" "j < osz X s0 b" for b j
    using cinv_apart [OF c that(1) ao that(2)] that(3) fd(3) [OF off] by (intro keep) linarith
  have nurs: "gm ?s x = gm s x" if "nursery_base9 s \<le> x" "x < nursery_end9 s" for x
  proof (rule keep)
    have "\<not> (loc9 \<phi> a \<le> x \<and> x < loc9 \<phi> a + osz X s0 a)" using cinv_region(5) [OF c ao, of x] that by blast
    then show "x < ?b \<or> ?b + 8 \<le> x" using fd(3) [OF off] by linarith
  qed
  have sf: "nursery_base9 s = nursery_base9 s0" "nursery_end9 s = nursery_end9 s0" using i(4) by (simp_all add: same_frame9_def)
  have "same_frame9 t s0 ?s" using i(4) by (simp add: same_frame9_def use) (simp add: write_ref_def)
  moreover have "copies9 X s0 \<phi> ?s" using i(5) by (simp add: copies9_def use)
  moreover have "forwards9 X young s0 \<phi> ?s"
    unfolding forwards9_def
  proof
    fix b assume b: "b \<in> young"
    have z: "16 \<le> osz X s0 b" using l(8) b by blast
    have same: "gm ?s (b + j) = gm s (b + j)" if "j < osz X s0 b" for j
      using l(2) l(4,5) [OF b] that sf by (intro nurs) linarith+
    have "load64 (gm ?s) b = load64 (gm s) b" using same z by (intro load64_cong) simp
    moreover have "read_ref ?s (b + 8) = read_ref s (b + 8)"
      using same [of "8 + j" for j] z by (intro read_ref_cong) (simp add: add.assoc)
    ultimately show "case \<phi> b of None \<Rightarrow> \<forall>j < osz X s0 b. gm ?s (b + j) = gm s0 (b + j)
        | Some p \<Rightarrow> load64 (gm ?s) b = GCWORD_MOVED9 \<and> read_ref ?s (b + 8) = p"
      using i(6) b same by (auto simp: forwards9_def split: option.splits)
  qed
  moreover have "updated9 X old s0 \<phi> ?D ?s"
    unfolding updated9_def
  proof
    fix b assume b: "b \<in> old \<union> dom \<phi>"
    have u: "content9 X s0 \<phi> (D b) s b" "D b \<subseteq> set (orefs X s0 b)" "\<forall>off \<in> D b. read_ref s0 (b + off) \<in> {0} \<union> old \<union> dom \<phi>"
      using i(7) b unfolding updated9_def by blast+
    show "content9 X s0 \<phi> (?D b) ?s b \<and> ?D b \<subseteq> set (orefs X s0 b) \<and> (\<forall>off \<in> ?D b. read_ref s0 (b + off) \<in> {0} \<union> old \<union> dom \<phi>)"
    proof (cases "b = a")
      case False
      then show ?thesis using u content9_cong [OF h(2) cinv_region(6) [OF c b], of ?s \<phi> s "D b"] other [OF b] by simp
    next
      case True
      have "gm ?s (loc9 \<phi> a + j) = gm s (loc9 \<phi> a + j)" if "\<not> in_ref X (obj_bytes9 s0 a) j" for j
        using that off by (intro keep) (auto simp: in_ref_def not_less)
      moreover have "read_ref ?s (loc9 \<phi> a + o') = read_ref s (loc9 \<phi> a + o')"
        if "o' \<in> set (orefs X s0 a)" "o' \<noteq> off" for o'
        using fd(5) [OF off that(1)] that(2) by (intro read_ref_cong keep) auto
      moreover have "read_ref ?s ?b = ?v" by (rule read_write_ref [OF bound])
      ultimately have "content9 X s0 \<phi> (?D a) ?s a"
        using u(1) unfolding True content9_def fun_upd_same by (intro conjI ballI) (simp, metis insertCI insertE)
      then show ?thesis using u(2,3) off v True by auto
    qed
  qed
  moreover have "worklist9 X old s0 \<phi> ?D c ?s"
  proof -
    have fl: "gil_flags ?s (loc9 \<phi> b) = gil_flags s (loc9 \<phi> b)" if b: "b \<in> old \<union> dom \<phi>" for b
      unfolding gil_flags_def
    proof (rule load32_cong)
      fix j :: nat assume j: "j < 4"
      show "gm ?s (loc9 \<phi> b + j) = gm s (loc9 \<phi> b + j)"
      proof (cases "b = a")
        case True
        then show ?thesis using fd(2) [OF off] j by (intro keep) simp
      next
        case False
        then show ?thesis using cinv_region(1) [OF c b] j by (intro other [OF b]) simp_all
      qed
    qed
    have "if loc9 \<phi> b \<in> set (objects_pointing_to_nursery9 ?s)
       then ?D b = {} \<and> b \<notin> c \<and> gil_flags ?s (loc9 \<phi> b) = gil_flags s0 b \<and> gil_flags s0 b AND STM_GCFLAG_WRITE_BARRIER9 = 0
       else gil_flags ?s (loc9 \<phi> b) = gil_flags s0 b OR STM_GCFLAG_WRITE_BARRIER9 \<and> (b \<notin> c \<longrightarrow> ?D b = set (orefs X s0 b))"
      if b: "b \<in> old \<union> dom \<phi>" for b
      using w(4) [OF b] fl [OF b] a by (cases "b = a") (auto simp: fr split: if_splits)
    then show ?thesis using w(1,2,3) unfolding worklist9_def fr by blast
  qed
  ultimately show ?thesis using i(1,2,3) by (simp add: cinv9_def)
qed

text \<open>A reference of an object that is kept leads to an object that is to be kept.\<close>

lemma target_live:
  assumes c: "cinv9 X t young old s0 \<phi> D c s" and a: "a \<in> old \<union> dom \<phi>" and off: "off \<in> set (orefs X s0 a)"
    and y: "read_ref s0 (a + off) \<in> young"
  shows "read_ref s0 (a + off) \<in> live9 X t young s0"
proof (cases "a \<in> dom \<phi>")
  case True
  then show ?thesis using cinvD(3) [OF c] live9.field off y by blast
next
  case False
  then have "a \<in> old" using a by blast
  then have "a \<in> set (objects_pointing_to_nursery9 s0)"
    using heapD(3) [OF cinvD(2) [OF c]] off y unfolding remembered9_def by blast
  then show ?thesis using live9.remembered off y by blast
qed

text \<open>After the fields \<open>offs\<close> of the object \<open>a\<close> were traced.\<close>

definition traced9 :: "gext \<Rightarrow> (nat \<Rightarrow> gil \<Rightarrow> bool) \<Rightarrow> nat \<Rightarrow> nat set \<Rightarrow> nat set \<Rightarrow> gil \<Rightarrow> nat \<Rightarrow> nat \<Rightarrow> nat set \<Rightarrow>
    (nat \<rightharpoonup> nat) \<Rightarrow> (nat \<Rightarrow> nat set) \<Rightarrow> gil \<Rightarrow> (nat \<rightharpoonup> nat) \<Rightarrow> (nat \<Rightarrow> nat set) \<Rightarrow> gil \<Rightarrow> bool" where
  "traced9 X room t young old s0 a k offs \<phi> D s \<phi>' D' s' \<longleftrightarrow> cinv9 X t young old s0 \<phi>' D' {a} s' \<and> \<phi> \<subseteq>\<^sub>m \<phi>' \<and>
     D' a = D a \<union> offs \<and> gtls s' = gtls s \<and> room (k + rest9 X young s0 \<phi>') s' \<and> pending9 young \<phi>' s' = pending9 young \<phi> s"

lemma worklist_current: "worklist9 X old s0 \<phi> D c s \<Longrightarrow> a \<in> c \<Longrightarrow> a \<in> old \<union> dom \<phi>"
  unfolding worklist9_def by blast

context allocator
begin

lemma trace_field_ok:
  assumes c: "cinv9 X t young old s0 \<phi> D {a} s" and off: "off \<in> set (orefs X s0 a)" "off \<notin> D a"
    and fin: "finite young" and rm: "room (k + rest9 X young s0 \<phi>) s"
  shows "\<exists>\<phi>' D'. traced9 X room t young old s0 a k {off} \<phi> D s \<phi>' D' (trace_field X (loc9 \<phi> a + off) s)"
proof -
  let ?v = "read_ref s0 (a + off)"
  have a: "a \<in> old \<union> dom \<phi>" using worklist_current [OF cinvD(8) [OF c]] by blast
  have r: "read_ref s (loc9 \<phi> a + off) = ?v"
    using cinvD(7) [OF c] a off unfolding updated9_def content9_def by auto
  have v: "?v \<in> {0} \<union> old \<union> young"
    using fieldsD(4) [OF heapD(2) [OF cinvD(2) [OF c]] cinv_region(6) [OF c a] off(1)] by blast
  obtain \<phi>' D' s' where s': "minor_trace_if_young9 X ?v s = (loc9 \<phi>' ?v, s')"
    "visited9 X room t young old s0 {a} k \<phi> D s \<phi>' D' s'" "?v \<in> young \<longrightarrow> ?v \<in> dom \<phi>'"
    using visit_ok [OF c v target_live [OF c a off(1)] fin rm] by blast
  have c': "cinv9 X t young old s0 \<phi>' D' {a} s'" and m: "\<phi> \<subseteq>\<^sub>m \<phi>'" and D: "D' a = D a"
    using s'(2) a unfolding visited9_def by blast+
  have e: "trace_field X (loc9 \<phi> a + off) s = write_ref (loc9 \<phi>' a + off) (loc9 \<phi>' ?v) s'"
    using s'(1) loc9_mono(1) [OF c c' m a] by (simp add: trace_field_def r)
  have "?v \<in> {0} \<union> old \<union> dom \<phi>'" using v s'(3) by blast
  then have "cinv9 X t young old s0 \<phi>' (D'(a := insert off (D' a))) {a} (trace_field X (loc9 \<phi> a + off) s)"
    unfolding e by (intro write_field_keeps [OF c' _ off(1)]) auto
  moreover have "gtls (write_ref b v s') = gtls s'" "pending9 young \<phi>' (write_ref b v s') = pending9 young \<phi>' s'" for b v
    by (simp_all add: write_ref_def pending9_def)
  moreover have "room (k + rest9 X young s0 \<phi>') (write_ref b v s')" for b v
    by (rule room_cong [of s']) (use s'(2) in \<open>simp_all add: write_ref_def visited9_def\<close>)
  ultimately have "traced9 X room t young old s0 a k {off} \<phi> D s \<phi>' (D'(a := insert off (D' a))) (trace_field X (loc9 \<phi> a + off) s)"
    using s'(2) D m by (simp add: traced9_def visited9_def e)
  then show ?thesis by blast
qed

lemma trace_fields_ok:
  assumes fin: "finite young"
  shows "cinv9 X t young old s0 \<phi> D {a} s \<Longrightarrow> set offs \<subseteq> set (orefs X s0 a) \<Longrightarrow> distinct offs \<Longrightarrow> set offs \<inter> D a = {} \<Longrightarrow>
    room (k + rest9 X young s0 \<phi>) s \<Longrightarrow> b = loc9 \<phi> a \<Longrightarrow>
    \<exists>\<phi>' D'. traced9 X room t young old s0 a k (set offs) \<phi> D s \<phi>' D' (fold (\<lambda>off. trace_field X (b + off)) offs s)"
proof (induction offs arbitrary: \<phi> D s)
  case Nil
  then show ?case unfolding traced9_def by (intro exI [of _ \<phi>] exI [of _ D]) simp
next
  case (Cons off offs)
  let ?s = "trace_field X (b + off) s"
  obtain \<psi> E where one: "traced9 X room t young old s0 a k {off} \<phi> D s \<psi> E ?s"
    using trace_field_ok [OF Cons.prems(1) _ _ fin Cons.prems(5), of off] Cons.prems(2,4,6) by auto
  then have c: "cinv9 X t young old s0 \<psi> E {a} ?s" and m: "\<phi> \<subseteq>\<^sub>m \<psi>" and E: "E a = insert off (D a)"
    and rm: "room (k + rest9 X young s0 \<psi>) ?s" and p: "gtls ?s = gtls s" "pending9 young \<psi> ?s = pending9 young \<phi> s"
    unfolding traced9_def by auto
  have a: "a \<in> old \<union> dom \<phi>" using worklist_current [OF cinvD(8) [OF Cons.prems(1)]] by blast
  have "\<exists>\<phi>' D'. traced9 X room t young old s0 a k (set offs) \<psi> E ?s \<phi>' D' (fold (\<lambda>off. trace_field X (b + off)) offs ?s)"
  proof (rule Cons.IH [OF c _ _ _ rm])
    show "b = loc9 \<psi> a" using loc9_mono(1) [OF Cons.prems(1) c m a] Cons.prems(6) by simp
  qed (use Cons.prems E in auto)
  then obtain \<phi>' D' where rest: "traced9 X room t young old s0 a k (set offs) \<psi> E ?s \<phi>' D' (fold (\<lambda>off. trace_field X (b + off)) offs ?s)"
    by blast
  have "traced9 X room t young old s0 a k (set (off # offs)) \<phi> D s \<phi>' D' (fold (\<lambda>off. trace_field X (b + off)) (off # offs) s)"
    using rest map_le_trans [OF m] p E unfolding traced9_def by auto
  then show ?case by blast
qed

end

section \<open>The loop over the objects to be traced\<close>

lemma pop_keeps:
  assumes c: "cinv9 X t young old s0 \<phi> D {} s" and p: "objects_pointing_to_nursery9 s = xs @ [loc9 \<phi> a]" and a: "a \<in> old \<union> dom \<phi>"
  defines "s1 \<equiv> s\<lparr>objects_pointing_to_nursery9 := xs\<rparr>"
  defines "s' \<equiv> set_gil_flags (loc9 \<phi> a) (gil_flags s1 (loc9 \<phi> a) OR STM_GCFLAG_WRITE_BARRIER9) s1"
  shows "cinv9 X t young old s0 \<phi> D {a} s'" and "D a = {}" and "gil_flags s1 (loc9 \<phi> a) AND STM_GCFLAG_WRITE_BARRIER9 = 0"
    and "\<not> is_in_nursery9 s1 (loc9 \<phi> a)"
proof -
  note i = cinvD [OF c] note h = heapD [OF i(2)] note l = layoutD9 [OF h(1)]
  have w: "distinct (objects_pointing_to_nursery9 s)"
    "set (objects_pointing_to_nursery9 s) \<subseteq> loc9 \<phi> ` (old \<union> dom \<phi>)"
    "\<And>a. a \<in> old \<union> dom \<phi> \<Longrightarrow> if loc9 \<phi> a \<in> set (objects_pointing_to_nursery9 s)
       then D a = {} \<and> gil_flags s (loc9 \<phi> a) = gil_flags s0 a \<and> gil_flags s0 a AND STM_GCFLAG_WRITE_BARRIER9 = 0
       else gil_flags s (loc9 \<phi> a) = gil_flags s0 a OR STM_GCFLAG_WRITE_BARRIER9 \<and> D a = set (orefs X s0 a)"
    using i(8) unfolding worklist9_def by auto
  have fa: "D a = {}" "gil_flags s (loc9 \<phi> a) = gil_flags s0 a" using w(3) [OF a] p by simp_all
  then show "D a = {}" by simp
  show "gil_flags s1 (loc9 \<phi> a) AND STM_GCFLAG_WRITE_BARRIER9 = 0"
    using w(3) [OF a] p by (simp add: s1_def gil_flags_def)
  show "\<not> is_in_nursery9 s1 (loc9 \<phi> a)"
    using cinv_region(1) [OF c a] cinv_region(5) [OF c a, of "loc9 \<phi> a"] by (simp add: is_in_nursery9_def s1_def)
  let ?f = "gil_flags s0 a OR STM_GCFLAG_WRITE_BARRIER9" let ?b = "loc9 \<phi> a"
  have s': "s' = write9 ?b 4 (byte_of32 ?f) s1" using fa(2) by (simp add: s'_def set_gil_flags_def gil_flags_def s1_def)
  have g: "gm s' x = (if ?b \<le> x \<and> x < ?b + 4 then byte_of32 ?f (x - ?b) else gm s x)" for x
    by (simp add: s' gm_write9 s1_def)
  have fr: "objects_pointing_to_nursery9 s' = xs" "areas s' = areas s" by (simp_all add: s' s1_def)
  have use: "in_use9 s' = in_use9 s" by (simp add: in_use9_def fun_eq_iff fr)
  note za = cinv_region(1) [OF c a]
  have sf: "nursery_base9 s = nursery_base9 s0" "nursery_end9 s = nursery_end9 s0" using i(4) by (simp_all add: same_frame9_def)
  have nurs: "gm s' x = gm s x" if "nursery_base9 s \<le> x" "x < nursery_end9 s" for x
    using cinv_region(5) [OF c a, of x] that za unfolding g by auto
  have other: "gm s' (loc9 \<phi> b + j) = gm s (loc9 \<phi> b + j)" if "b \<in> old \<union> dom \<phi>" "b \<noteq> a" "j < osz X s0 b" for b j
    using cinv_apart [OF c that(1) a that(2)] that(3) za unfolding g by auto
  have "same_frame9 t s0 s'" using i(4) by (simp add: same_frame9_def use) (simp add: s' s1_def)
  moreover have "copies9 X s0 \<phi> s'" using i(5) by (simp add: copies9_def use)
  moreover have "forwards9 X young s0 \<phi> s'"
    unfolding forwards9_def
  proof
    fix b assume b: "b \<in> young"
    have z: "16 \<le> osz X s0 b" using l(8) b by blast
    have same: "gm s' (b + j) = gm s (b + j)" if "j < osz X s0 b" for j
      using l(2) l(4,5) [OF b] that sf by (intro nurs) linarith+
    have "load64 (gm s') b = load64 (gm s) b" using same z by (intro load64_cong) simp
    moreover have "read_ref s' (b + 8) = read_ref s (b + 8)"
      using same [of "8 + j" for j] z by (intro read_ref_cong) (simp add: add.assoc)
    ultimately show "case \<phi> b of None \<Rightarrow> \<forall>j < osz X s0 b. gm s' (b + j) = gm s0 (b + j)
        | Some p \<Rightarrow> load64 (gm s') b = GCWORD_MOVED9 \<and> read_ref s' (b + 8) = p"
      using i(6) b same by (auto simp: forwards9_def split: option.splits)
  qed
  moreover have "updated9 X old s0 \<phi> D s'"
    unfolding updated9_def
  proof
    fix b assume b: "b \<in> old \<union> dom \<phi>"
    have "gm s' (loc9 \<phi> b + j) = gm s (loc9 \<phi> b + j)" if "4 \<le> j" "j < osz X s0 b" for j
      using other [OF b _ that(2)] that(1) by (cases "b = a") (simp_all add: g)
    then have "content9 X s0 \<phi> (D b) s' b = content9 X s0 \<phi> (D b) s b"
      by (rule content9_cong [OF h(2) cinv_region(6) [OF c b]])
    then show "content9 X s0 \<phi> (D b) s' b \<and> D b \<subseteq> set (orefs X s0 b) \<and> (\<forall>off \<in> D b. read_ref s0 (b + off) \<in> {0} \<union> old \<union> dom \<phi>)"
      using i(7) b unfolding updated9_def by blast
  qed
  moreover have "worklist9 X old s0 \<phi> D {a} s'"
  proof -
    have f: "gil_flags s' ?b = ?f" unfolding gil_flags_def [of s'] by (rule load32_bytes) (simp add: g)
    have fl: "gil_flags s' (loc9 \<phi> b) = gil_flags s (loc9 \<phi> b)" if "b \<in> old \<union> dom \<phi>" "b \<noteq> a" for b
      unfolding gil_flags_def using other [OF that] cinv_region(1) [OF c that(1)] by (intro load32_cong) simp
    have "if loc9 \<phi> b \<in> set (objects_pointing_to_nursery9 s')
       then D b = {} \<and> b \<notin> {a} \<and> gil_flags s' (loc9 \<phi> b) = gil_flags s0 b \<and> gil_flags s0 b AND STM_GCFLAG_WRITE_BARRIER9 = 0
       else gil_flags s' (loc9 \<phi> b) = gil_flags s0 b OR STM_GCFLAG_WRITE_BARRIER9 \<and> (b \<notin> {a} \<longrightarrow> D b = set (orefs X s0 b))"
      if b: "b \<in> old \<union> dom \<phi>" for b
    proof (cases "b = a")
      case True
      then show ?thesis using w(1) p f fr by auto
    next
      case False
      then have "loc9 \<phi> b \<noteq> ?b" using cinv_inj [OF c b a] by blast
      then show ?thesis using w(3) [OF b] fl [OF b False] False p fr by auto
    qed
    then show ?thesis using w(1,2) a p fr unfolding worklist9_def by auto
  qed
  ultimately show "cinv9 X t young old s0 \<phi> D {a} s'" using i(1,2,3) by (simp add: cinv9_def)
qed

lemma trace_finished:
  assumes c: "cinv9 X t young old s0 \<phi> D {a} s" and D: "D a = set (orefs X s0 a)"
  shows "cinv9 X t young old s0 \<phi> D {} s"
proof -
  note i = cinvD [OF c]
  have "worklist9 X old s0 \<phi> D {} s"
    using i(8) D unfolding worklist9_def by (auto split: if_splits)
  then show ?thesis using i by (simp add: cinv9_def)
qed

context allocator
begin

lemma collect_now_ok:
  assumes c: "cinv9 X t young old s0 \<phi> D {} s" and p: "objects_pointing_to_nursery9 s = xs @ [b]"
    and fin: "finite young" and rm: "room (k + rest9 X young s0 \<phi>) s"
  shows "\<exists>s' \<phi>' D'. collect_now9 X b (s\<lparr>objects_pointing_to_nursery9 := xs\<rparr>) = Ret () s' \<and> cinv9 X t young old s0 \<phi>' D' {} s' \<and> \<phi> \<subseteq>\<^sub>m \<phi>' \<and> gtls s' = gtls s \<and> room (k + rest9 X young s0 \<phi>') s' \<and>
    Suc (pending9 young \<phi>' s') = pending9 young \<phi> s"
proof -
  obtain a where a: "a \<in> old \<union> dom \<phi>" "b = loc9 \<phi> a"
    using cinvD(8) [OF c] p unfolding worklist9_def by auto
  let ?s1 = "s\<lparr>objects_pointing_to_nursery9 := xs\<rparr>"
  define u where "u = set_gil_flags b (gil_flags ?s1 b OR STM_GCFLAG_WRITE_BARRIER9) ?s1"
  have cu: "cinv9 X t young old s0 \<phi> D {a} u" and D: "D a = {}"
    using pop_keeps [OF c p [unfolded a(2)] a(1)] by (simp_all add: u_def a(2))
  have "content9 X s0 \<phi> (D a) u a" using cinvD(7) [OF cu] a(1) unfolding updated9_def by blast
  then have tr: "orefs X u b = orefs X s0 a" unfolding a(2) by (rule content9_callbacks(2) [OF cinvD(1) [OF c]])
  define s' where s': "s' = fold (\<lambda>off. trace_field X (b + off)) (orefs X s0 a) u"
  have run: "collect_now9 X b ?s1 = Ret () s'"
    using pop_keeps(3,4) [OF c p [unfolded a(2)] a(1)]
    unfolding s' collect_now9_def by (simp add: Let_def u_def [symmetric] tr foreach_f_def flip: a(2))
  have rmu: "room (k + rest9 X young s0 \<phi>) u"
    by (rule room_cong [OF _ _ rm]) (simp_all add: u_def set_gil_flags_def)
  have d: "distinct (orefs X s0 a)" by (rule fieldsD(1) [OF heapD(2) [OF cinvD(2) [OF c]] cinv_region(6) [OF c a(1)]])
  obtain \<phi>' D' where t: "traced9 X room t young old s0 a k (set (orefs X s0 a)) \<phi> D u \<phi>' D' s'"
    using trace_fields_ok [OF fin cu order_refl d _ rmu a(2)] D unfolding s' by auto
  then have "cinv9 X t young old s0 \<phi>' D' {} s'"
    using trace_finished [of X t young old s0 \<phi>' D' a s'] D by (simp add: traced9_def)
  moreover have "gtls u = gtls s" "Suc (pending9 young \<phi> u) = pending9 young \<phi> s"
    by (simp_all add: u_def set_gil_flags_def pending9_def p)
  ultimately show ?thesis using t run unfolding traced9_def by (intro exI [of _ s'] exI [of _ \<phi>'] exI [of _ D']) auto
qed

lemma collect_oldrefs_ok:
  assumes fin: "finite young"
  shows "cinv9 X t young old s0 \<phi> D {} s \<Longrightarrow> room (k + rest9 X young s0 \<phi>) s \<Longrightarrow> pending9 young \<phi> s \<le> n \<Longrightarrow>
    \<exists>\<phi>' D' s'. collect_oldrefs_to_nursery9 n X s = Ret () s' \<and> cinv9 X t young old s0 \<phi>' D' {} s' \<and> \<phi> \<subseteq>\<^sub>m \<phi>' \<and>
      gtls s' = gtls s \<and> room (k + rest9 X young s0 \<phi>') s' \<and> objects_pointing_to_nursery9 s' = []"
proof (induction n arbitrary: \<phi> D s)
  case 0
  then have "objects_pointing_to_nursery9 s = []" by (simp add: pending9_def)
  then show ?case using 0 by (intro exI [of _ \<phi>] exI [of _ D] exI [of _ s]) simp
next
  case (Suc n)
  show ?case
  proof (cases "objects_pointing_to_nursery9 s = []")
    case True
    then show ?thesis using Suc.prems by (intro exI [of _ \<phi>] exI [of _ D] exI [of _ s]) simp
  next
    case False
    let ?l = "objects_pointing_to_nursery9 s"
    obtain u \<psi> E where run: "collect_now9 X (last ?l) (s\<lparr>objects_pointing_to_nursery9 := butlast ?l\<rparr>) = Ret () u"
      and one: "cinv9 X t young old s0 \<psi> E {} u" "\<phi> \<subseteq>\<^sub>m \<psi>" "gtls u = gtls s" "room (k + rest9 X young s0 \<psi>) u"
      "Suc (pending9 young \<psi> u) = pending9 young \<phi> s"
      using collect_now_ok [OF Suc.prems(1) _ fin Suc.prems(2), of "butlast ?l" "last ?l"] False by auto
    obtain \<phi>' D' s' where "collect_oldrefs_to_nursery9 n X u = Ret () s'" "cinv9 X t young old s0 \<phi>' D' {} s'" "\<psi> \<subseteq>\<^sub>m \<phi>'"
      "gtls s' = gtls u" "room (k + rest9 X young s0 \<phi>') s'" "objects_pointing_to_nursery9 s' = []"
      using Suc.IH [OF one(1,4)] one(5) Suc.prems(3) by fastforce
    then show ?thesis using False run one(2,3) map_le_trans [OF one(2)] by (auto simp: Let_def)
  qed
qed

end

end
