(* ===== verification/Gilheap.thy ===== *)
theory Gilheap
  imports Gilcopy
begin

text \<open>
  The minor collection of \<open>Gil\<close> as a whole: what it keeps, what it moves, and what is left.
\<close>

section \<open>The start of a collection\<close>

definition updated_at_start :: "gext \<Rightarrow> gil \<Rightarrow> nat \<Rightarrow> nat set" where
  "updated_at_start X s a = (if a \<in> set (objects_pointing_to_nursery9 s) then {} else set (orefs X s a))"

lemma flag_set: "f AND STM_GCFLAG_WRITE_BARRIER9 \<noteq> 0 \<Longrightarrow> f OR STM_GCFLAG_WRITE_BARRIER9 = f"
  using mask1_neq_0 [of f 0] by (intro bit_word_eqI) (auto simp: STM_GCFLAG_WRITE_BARRIER9_def bit_or_iff bit_1_iff)

lemma cinv_start:
  assumes cb: "cb_ok9 X" and ok: "heap_ok9 X t young old s"
  shows "cinv9 X t young old s Map.empty (updated_at_start X s) {} s"
proof -
  note h = heapD [OF ok]
  have e: "loc9 Map.empty a = a" for a by (simp add: loc9_def)
  have "updated9 X old s Map.empty (updated_at_start X s) s"
    unfolding updated9_def
  proof
    fix a assume "a \<in> old \<union> dom Map.empty"
    then have a: "a \<in> old" by simp
    have "read_ref s (a + off) \<in> {0} \<union> old" if "a \<notin> set (objects_pointing_to_nursery9 s)" "off \<in> set (orefs X s a)" for off
      using fieldsD(4) [OF h(2), of a off] h(3) a that unfolding remembered9_def by blast
    then show "content9 X s Map.empty (updated_at_start X s a) s a \<and> updated_at_start X s a \<subseteq> set (orefs X s a) \<and>
       (\<forall>off \<in> updated_at_start X s a. read_ref s (a + off) \<in> {0} \<union> old \<union> dom Map.empty)"
      by (simp add: content9_def e updated_at_start_def)
  qed
  moreover have "worklist9 X old s Map.empty (updated_at_start X s) {} s"
    using h(3) flag_set unfolding worklist9_def remembered9_def by (simp add: e updated_at_start_def)
  moreover have "same_frame9 t s s" "copies9 X s Map.empty s" "forwards9 X young s Map.empty s"
    by (simp_all add: same_frame9_def copies9_def forwards9_def)
  ultimately show ?thesis using cb ok by (simp add: cinv9_def)
qed

section \<open>The roots\<close>

lemma cinv_gtl: "cinv9 X t young old s0 \<phi> D c s \<Longrightarrow> cinv9 X t young old s0 \<phi> D c (upd_gtl t f s)"
proof -
  assume c: "cinv9 X t young old s0 \<phi> D c s"
  let ?s = "upd_gtl t f s"
  have f: "gm ?s = gm s" "in_use9 ?s = in_use9 s" "objects_pointing_to_nursery9 ?s = objects_pointing_to_nursery9 s"
    by (simp_all add: upd_gtl_def in_use9_def fun_eq_iff)
  have r: "read_ref ?s = read_ref s" "gil_flags ?s = gil_flags s" by (simp_all add: read_ref_def gil_flags_def f fun_eq_iff)
  have "same_frame9 t s0 s \<Longrightarrow> same_frame9 t s0 ?s" by (simp add: same_frame9_def f) (simp add: upd_gtl_def)
  then show ?thesis
    using c unfolding cinv9_def copies9_def forwards9_def updated9_def content9_def worklist9_def f r by blast
qed

lemma loc9_keep:
  assumes c: "cinv9 X t young old s0 \<phi> D c s" and c': "cinv9 X t young old s0 \<phi>' D' c' s'" and m: "\<phi> \<subseteq>\<^sub>m \<phi>'"
    and v: "v \<in> {0} \<union> old \<union> dom \<phi>"
  shows "loc9 \<phi>' v = loc9 \<phi> v" and "v \<in> {0} \<union> old \<union> dom \<phi>'"
proof -
  have "0 \<notin> young" using layoutD9(9) [OF heapD(1) [OF cinvD(2) [OF c]]] by blast
  then have z: "\<phi> 0 = None" "\<phi>' 0 = None" using cinvD(3) [OF c] cinvD(3) [OF c'] live9_young by (metis domIff subsetD)+
  show "loc9 \<phi>' v = loc9 \<phi> v" "v \<in> {0} \<union> old \<union> dom \<phi>'"
    using loc9_mono [OF c c' m] v z by (cases "v = 0"; auto simp: loc9_simps)+
qed

context allocator
begin

lemma trace_stack_ok:
  assumes fin: "finite young"
  shows "cinv9 X t young old s0 \<phi> D {} s \<Longrightarrow> room (k + rest9 X young s0 \<phi>) s \<Longrightarrow> distinct is \<Longrightarrow>
    (\<And>i. i \<in> set is \<Longrightarrow> i < length (shadowstack9 (gtls s t)) \<and> shadowstack9 (gtls s t) ! i \<in> roots9 s0 t) \<Longrightarrow>
    \<exists>\<phi>' D' s'. fold (trace_stack_item X t) is s = s' \<and> cinv9 X t young old s0 \<phi>' D' {} s' \<and> \<phi> \<subseteq>\<^sub>m \<phi>' \<and>
      room (k + rest9 X young s0 \<phi>') s' \<and> pending9 young \<phi>' s' = pending9 young \<phi> s \<and>
      thread_local_obj9 (gtls s' t) = thread_local_obj9 (gtls s t) \<and> last_abort9 (gtls s' t) = last_abort9 (gtls s t) \<and>
      length (shadowstack9 (gtls s' t)) = length (shadowstack9 (gtls s t)) \<and>
      (\<forall>i < length (shadowstack9 (gtls s t)). shadowstack9 (gtls s' t) ! i =
         (if i \<in> set is then loc9 \<phi>' (shadowstack9 (gtls s t) ! i) else shadowstack9 (gtls s t) ! i)) \<and>
      (\<forall>i \<in> set is. shadowstack9 (gtls s t) ! i \<in> {0} \<union> old \<union> dom \<phi>')"
proof (induction "is" arbitrary: \<phi> D s)
  case Nil
  then show ?case by (intro exI [of _ \<phi>] exI [of _ D] exI [of _ s]) simp
next
  case (Cons i "is")
  let ?v = "shadowstack9 (gtls s t) ! i" let ?n = "length (shadowstack9 (gtls s t))"
  note h = heapD [OF cinvD(2) [OF Cons.prems(1)]]
  have i: "i < ?n" "?v \<in> roots9 s0 t" using Cons.prems(4) [of i] by simp_all
  have v: "?v \<in> {0} \<union> old \<union> young" "?v \<in> young \<Longrightarrow> ?v \<in> live9 X t young s0"
    using h(4) i(2) live9.root unfolding rooted9_def by blast+
  obtain \<psi> E u where one: "minor_trace_if_young9 X ?v s = (loc9 \<psi> ?v, u)" "visited9 X room t young old s0 {} k \<phi> D s \<psi> E u"
    "?v \<in> young \<longrightarrow> ?v \<in> dom \<psi>"
    using visit_ok [OF Cons.prems(1) v fin Cons.prems(2)] by blast
  have vd: "?v \<in> {0} \<union> old \<union> dom \<psi>" using v(1) one(3) by blast
  define w where "w = upd_gtl t (\<lambda>l. l\<lparr>shadowstack9 := (shadowstack9 l)[i := loc9 \<psi> ?v]\<rparr>) u"
  have cu: "cinv9 X t young old s0 \<psi> E {} u" and m: "\<phi> \<subseteq>\<^sub>m \<psi>" and gu: "gtls u = gtls s"
    and ru: "room (k + rest9 X young s0 \<psi>) u" and pu: "pending9 young \<psi> u = pending9 young \<phi> s"
    using one(2) unfolding visited9_def by blast+
  have cw: "cinv9 X t young old s0 \<psi> E {} w" unfolding w_def by (rule cinv_gtl [OF cu])
  have rw: "room (k + rest9 X young s0 \<psi>) w" by (rule room_cong [OF _ _ ru]) (simp_all add: w_def upd_gtl_def)
  have pw: "pending9 young \<psi> w = pending9 young \<phi> s" using pu by (simp add: w_def upd_gtl_def pending9_def)
  have sw: "shadowstack9 (gtls w t) = (shadowstack9 (gtls s t))[i := loc9 \<psi> ?v]"
    "thread_local_obj9 (gtls w t) = thread_local_obj9 (gtls s t)" "last_abort9 (gtls w t) = last_abort9 (gtls s t)"
    by (simp_all add: w_def upd_gtl_def gu)
  have step: "fold (trace_stack_item X t) (i # is) s = fold (trace_stack_item X t) is w"
    by (simp add: trace_stack_item_def one(1) w_def)
  have ni: "i \<notin> set is" "distinct is" using Cons.prems(3) by simp_all
  have pre: "j < length (shadowstack9 (gtls w t)) \<and> shadowstack9 (gtls w t) ! j \<in> roots9 s0 t" if "j \<in> set is" for j
    using Cons.prems(4) [of j] that ni by (cases "j = i") (auto simp: sw)
  obtain \<phi>' D' s' where rest: "fold (trace_stack_item X t) is w = s'" "cinv9 X t young old s0 \<phi>' D' {} s'" "\<psi> \<subseteq>\<^sub>m \<phi>'"
    "room (k + rest9 X young s0 \<phi>') s'" "pending9 young \<phi>' s' = pending9 young \<psi> w"
    "thread_local_obj9 (gtls s' t) = thread_local_obj9 (gtls w t)" "last_abort9 (gtls s' t) = last_abort9 (gtls w t)"
    "length (shadowstack9 (gtls s' t)) = length (shadowstack9 (gtls w t))"
    "\<forall>j < length (shadowstack9 (gtls w t)). shadowstack9 (gtls s' t) ! j =
       (if j \<in> set is then loc9 \<phi>' (shadowstack9 (gtls w t) ! j) else shadowstack9 (gtls w t) ! j)"
    "\<forall>j \<in> set is. shadowstack9 (gtls w t) ! j \<in> {0} \<union> old \<union> dom \<phi>'"
    using Cons.IH [OF cw rw ni(2) pre] by blast
  have lv: "loc9 \<phi>' ?v = loc9 \<psi> ?v" "?v \<in> {0} \<union> old \<union> dom \<phi>'" using loc9_keep [OF cw rest(2,3) vd] by blast+
  have "shadowstack9 (gtls s' t) ! j = (if j \<in> set (i # is) then loc9 \<phi>' (shadowstack9 (gtls s t) ! j) else shadowstack9 (gtls s t) ! j)"
    if "j < ?n" for j
    using rest(9) [rule_format, of j] that ni(1) lv(1) by (cases "j = i") (auto simp: sw)
  moreover have "shadowstack9 (gtls s t) ! j \<in> {0} \<union> old \<union> dom \<phi>'" if "j \<in> set (i # is)" for j
    using rest(10) that ni(1) lv(2) by (cases "j = i") (auto simp: sw)
  ultimately show ?case
    unfolding step rest(1) using rest(2,4,5,6,7,8) map_le_trans [OF m rest(3)] pw sw
    by (intro exI [of _ \<phi>'] exI [of _ D'] exI [of _ s']) simp
qed

lemma collect_roots_ok:
  assumes cb: "cb_ok9 X" and ok: "heap_ok9 X t young old s" and fin: "finite young" and rm: "room (k + rest9 X young s Map.empty) s"
  shows "\<exists>\<phi> D s'. collect_roots_in_nursery9 X t s = s' \<and> cinv9 X t young old s \<phi> D {} s' \<and> room (k + rest9 X young s \<phi>) s' \<and>
    pending9 young \<phi> s' = pending9 young Map.empty s \<and> roots9 s t \<subseteq> {0} \<union> old \<union> dom \<phi> \<and>
    gtls s' t = (gtls s t)\<lparr>shadowstack9 := map (loc9 \<phi>) (shadowstack9 (gtls s t)),
                          thread_local_obj9 := loc9 \<phi> (thread_local_obj9 (gtls s t))\<rparr>"
proof -
  let ?is = "rev [0..<length (shadowstack9 (gtls s t))]" let ?st = "shadowstack9 (gtls s t)"
  have "i < length ?st \<and> ?st ! i \<in> roots9 s t" if "i \<in> set ?is" for i using that by (auto simp: roots9_def)
  then have pre: "distinct ?is" "\<And>i. i \<in> set ?is \<Longrightarrow> i < length ?st \<and> ?st ! i \<in> roots9 s t" by simp_all
  obtain \<phi> D u where u: "fold (trace_stack_item X t) ?is s = u" "cinv9 X t young old s \<phi> D {} u"
    "room (k + rest9 X young s \<phi>) u" "pending9 young \<phi> u = pending9 young Map.empty s"
    "thread_local_obj9 (gtls u t) = thread_local_obj9 (gtls s t)" "last_abort9 (gtls u t) = last_abort9 (gtls s t)"
    "length (shadowstack9 (gtls u t)) = length ?st"
    "\<forall>i < length ?st. shadowstack9 (gtls u t) ! i = (if i \<in> set ?is then loc9 \<phi> (?st ! i) else ?st ! i)"
    "\<forall>i \<in> set ?is. ?st ! i \<in> {0} \<union> old \<union> dom \<phi>"
    using trace_stack_ok [OF fin cinv_start [OF cb ok] rm pre] by blast
  let ?v = "thread_local_obj9 (gtls s t)"
  have v: "?v \<in> {0} \<union> old \<union> young" "?v \<in> young \<Longrightarrow> ?v \<in> live9 X t young s"
    using heapD(4) [OF ok] live9.root [of ?v s t young X] by (auto simp: rooted9_def roots9_def)
  obtain \<psi> E w where w: "minor_trace_if_young9 X ?v u = (loc9 \<psi> ?v, w)" "visited9 X room t young old s {} k \<phi> D u \<psi> E w"
    "?v \<in> young \<longrightarrow> ?v \<in> dom \<psi>"
    using visit_ok [OF u(2) v fin u(3)] by blast
  have cw: "cinv9 X t young old s \<psi> E {} w" and m: "\<phi> \<subseteq>\<^sub>m \<psi>" and gw: "gtls w = gtls u"
    and rw: "room (k + rest9 X young s \<psi>) w" and pw: "pending9 young \<psi> w = pending9 young \<phi> u"
    using w(2) unfolding visited9_def by blast+
  define s' where "s' = upd_gtl t (\<lambda>l. l\<lparr>thread_local_obj9 := loc9 \<psi> ?v\<rparr>) w"
  have e: "collect_roots_in_nursery9 X t s = s'"
    by (simp add: collect_roots_in_nursery9_def foreach_r_def u(1,5) w(1) s'_def Let_def del: upt_Suc)
  have c': "cinv9 X t young old s \<psi> E {} s'" unfolding s'_def by (rule cinv_gtl [OF cw])
  have st: "?st ! i \<in> {0} \<union> old \<union> dom \<phi>" if "i < length ?st" for i using u(9) that by simp
  have lk: "loc9 \<psi> (?st ! i) = loc9 \<phi> (?st ! i)" "?st ! i \<in> {0} \<union> old \<union> dom \<psi>" if "i < length ?st" for i
    using loc9_keep [OF u(2) cw m st [OF that]] by blast+
  have "shadowstack9 (gtls u t) = map (loc9 \<psi>) ?st" using u(7,8) lk(1) by (intro nth_equalityI) simp_all
  then have "gtls s' t = (gtls s t)\<lparr>shadowstack9 := map (loc9 \<psi>) ?st, thread_local_obj9 := loc9 \<psi> ?v\<rparr>"
    using u(6) by (simp add: s'_def upd_gtl_def gw)
  moreover have "roots9 s t \<subseteq> {0} \<union> old \<union> dom \<psi>"
    using v(1) w(3) lk(2) unfolding roots9_def by (auto simp only: in_set_conv_nth set_simps insert_iff subset_iff Un_iff)
  moreover have "room (k + rest9 X young s \<psi>) s'" by (rule room_cong [OF _ _ rw]) (simp_all add: s'_def upd_gtl_def)
  moreover have "pending9 young \<psi> s' = pending9 young Map.empty s" using pw u(4) by (simp add: s'_def upd_gtl_def pending9_def)
  ultimately show ?thesis using e c' by blast
qed

text \<open>The state when the list of objects to be traced is empty.\<close>

lemma copied_all:
  assumes cb: "cb_ok9 X" and ok: "heap_ok9 X t young old s" and fin: "finite young" and rm: "room (k + rest9 X young s Map.empty) s"
    and n: "pending9 young Map.empty s \<le> n"
  shows "\<exists>\<phi> D s'. collect_oldrefs_to_nursery9 n X (collect_roots_in_nursery9 X t s) = Ret () s' \<and> cinv9 X t young old s \<phi> D {} s' \<and>
    room (k + rest9 X young s \<phi>) s' \<and> objects_pointing_to_nursery9 s' = [] \<and> dom \<phi> = live9 X t young s \<and>
    gtls s' t = (gtls s t)\<lparr>shadowstack9 := map (loc9 \<phi>) (shadowstack9 (gtls s t)),
                          thread_local_obj9 := loc9 \<phi> (thread_local_obj9 (gtls s t))\<rparr>"
proof -
  obtain \<psi> E u where u: "collect_roots_in_nursery9 X t s = u" "cinv9 X t young old s \<psi> E {} u" "room (k + rest9 X young s \<psi>) u"
    "pending9 young \<psi> u = pending9 young Map.empty s" "roots9 s t \<subseteq> {0} \<union> old \<union> dom \<psi>"
    "gtls u t = (gtls s t)\<lparr>shadowstack9 := map (loc9 \<psi>) (shadowstack9 (gtls s t)), thread_local_obj9 := loc9 \<psi> (thread_local_obj9 (gtls s t))\<rparr>"
    using collect_roots_ok [OF cb ok fin rm] by blast
  have pn: "pending9 young \<psi> u \<le> n" using u(4) n by simp
  obtain \<phi> D s' where s': "collect_oldrefs_to_nursery9 n X u = Ret () s'" "cinv9 X t young old s \<phi> D {} s'" "\<psi> \<subseteq>\<^sub>m \<phi>"
    "gtls s' = gtls u" "room (k + rest9 X young s \<phi>) s'" "objects_pointing_to_nursery9 s' = []"
    using collect_oldrefs_ok [OF fin u(2,3) pn] by blast
  have keep: "loc9 \<phi> v = loc9 \<psi> v" "v \<in> {0} \<union> old \<union> dom \<phi>" if "v \<in> roots9 s t" for v
    using loc9_keep [OF u(2) s'(2,3)] that u(5) by blast+
  have "map (loc9 \<psi>) (shadowstack9 (gtls s t)) = map (loc9 \<phi>) (shadowstack9 (gtls s t))"
    using keep(1) by (simp add: roots9_def)
  then have g: "gtls s' t = (gtls s t)\<lparr>shadowstack9 := map (loc9 \<phi>) (shadowstack9 (gtls s t)), thread_local_obj9 := loc9 \<phi> (thread_local_obj9 (gtls s t))\<rparr>"
    using u(6) s'(4) keep(1) [of "thread_local_obj9 (gtls s t)"] by (simp add: roots9_def)
  note h = heapD [OF ok]
  have yo: "v \<in> young \<Longrightarrow> v \<in> {0} \<union> old \<union> dom \<phi> \<Longrightarrow> v \<in> dom \<phi>" for v
    using young_old_apart [OF h(1)] layoutD9(9) [OF h(1), of v] by auto
  have all: "D a = set (orefs X s a)" if "a \<in> old \<union> dom \<phi>" for a
    using cinvD(8) [OF s'(2)] that s'(6) unfolding worklist9_def by simp
  have close: "read_ref s (a + off) \<in> dom \<phi>"
    if "a \<in> old \<union> dom \<phi>" "off \<in> set (orefs X s a)" "read_ref s (a + off) \<in> young" for a off
    using cinvD(7) [OF s'(2)] that all [OF that(1)] yo unfolding updated9_def by blast
  have "v \<in> dom \<phi>" if "v \<in> live9 X t young s" for v
    using that
  proof induction
    case (root v)
    then show ?case using keep(2) yo by blast
  next
    case (remembered a off)
    then have "a \<in> old" using h(3) unfolding remembered9_def by blast
    then show ?case using close remembered by blast
  next
    case (field a off)
    then show ?case using close by blast
  qed
  then have "dom \<phi> = live9 X t young s" using cinvD(3) [OF s'(2)] by blast
  then show ?thesis using u(1) s' g by blast
qed

end

end
