(* ===== verification/Gilcollect.thy ===== *)
theory Gilcollect
  imports Gilheap
begin

text \<open>
  What a minor collection of \<open>Gil\<close> achieves: weakrefs, the nursery, and the heap that is left.
\<close>

section \<open>Weakrefs\<close>

text \<open>Where the referent is after the collection; NULL if it was not kept.\<close>

definition weak_target9 :: "nat set \<Rightarrow> (nat \<rightharpoonup> nat) \<Rightarrow> nat \<Rightarrow> nat" where
  "weak_target9 young \<phi> p = (if p \<in> young then (case \<phi> p of Some b \<Rightarrow> b | None \<Rightarrow> 0) else p)"

definition weak_slot :: "(nat \<rightharpoonup> nat) \<Rightarrow> nat \<Rightarrow> nat \<Rightarrow> bool" where
  "weak_slot \<phi> w x \<longleftrightarrow> loc9 \<phi> w + 8 \<le> x \<and> x < loc9 \<phi> w + 16"

definition weak_done :: "nat set \<Rightarrow> gil \<Rightarrow> (nat \<rightharpoonup> nat) \<Rightarrow> gil \<Rightarrow> nat set \<Rightarrow> gil \<Rightarrow> bool" where
  "weak_done young s0 \<phi> s1 P s \<longleftrightarrow> (\<exists>m. s = s1\<lparr>gm := m\<rparr>) \<and>
     (\<forall>x. (\<forall>w \<in> P \<inter> dom \<phi>. \<not> weak_slot \<phi> w x) \<longrightarrow> gm s x = gm s1 x) \<and>
     (\<forall>w \<in> P \<inter> dom \<phi>. read_ref s (loc9 \<phi> w + 8) = weak_target9 young \<phi> (read_ref s0 (w + 8)))"

lemma weak_step:
  assumes c: "cinv9 X t young old s0 \<phi> D {} s1" and w: "w \<in> set (young_weakrefs9 s0)" "w \<notin> P" and P: "P \<subseteq> set (young_weakrefs9 s0)"
    and d: "weak_done young s0 \<phi> s1 P s"
  shows "weak_done young s0 \<phi> s1 (insert w P) (move_young_weakref9 w s)"
proof -
  note i = cinvD [OF c] note h = heapD [OF i(2)] note l = layoutD9 [OF h(1)]
  have wy: "w \<in> young" "weak9 X (obj_bytes9 s0 w)" "read_ref s0 (w + 8) \<in> young \<union> old"
    using h(5) w(1) unfolding weakrefs9_def by blast+
  have sz: "osz X s0 v = 16" if "v \<in> set (young_weakrefs9 s0)" for v
    using h(5) that unfolding weakrefs9_def weak9_def by blast
  have sf: "nursery_base9 s1 = nursery_base9 s0" "nursery_end9 s1 = nursery_end9 s0" using i(4) by (simp_all add: same_frame9_def)
  obtain m where m: "s = s1\<lparr>gm := m\<rparr>" using d unfolding weak_done_def by blast
  have keep: "gm s x = gm s1 x" if "\<And>v. v \<in> P \<Longrightarrow> v \<in> dom \<phi> \<Longrightarrow> \<not> weak_slot \<phi> v x" for x
    using d that unfolding weak_done_def by blast
  have nurs: "gm s x = gm s1 x" if "nursery_base9 s1 \<le> x" "x < nursery_end9 s1" for x
  proof (rule keep)
    fix v assume v: "v \<in> P" "v \<in> dom \<phi>"
    then have "osz X s0 v = 16" using sz P by blast
    then show "\<not> weak_slot \<phi> v x"
      using cinv_region(5) [OF c, of v x] v(2) that by (auto simp: weak_slot_def)
  qed
  have young: "load64 (gm s) v = GCWORD_MOVED9 \<longleftrightarrow> v \<in> dom \<phi>" "v \<in> dom \<phi> \<Longrightarrow> read_ref s (v + 8) = loc9 \<phi> v"
    "is_in_nursery9 s v" if v: "v \<in> young" for v
  proof -
    have z: "16 \<le> osz X s0 v" using l(8) v by blast
    have "nursery_base9 s0 \<le> v" "v + 16 \<le> nursery_end9 s0" using l(2) l(4,5) [OF v] z by linarith+
    then have same: "gm s (v + j) = gm s1 (v + j)" if "j < 16" for j using that sf by (intro nurs) simp_all
    have e: "load64 (gm s) v = load64 (gm s1) v" "read_ref s (v + 8) = read_ref s1 (v + 8)"
      using same [of "8 + j" for j] by (auto intro!: load64_cong read_ref_cong same simp: add.assoc)
    show "load64 (gm s) v = GCWORD_MOVED9 \<longleftrightarrow> v \<in> dom \<phi>"
    proof (cases "\<phi> v")
      case None
      have "gm s1 (v + j) = gm s0 (v + j)" if "j < osz X s0 v" for j
        using i(6) v None that by (auto simp: forwards9_def)
      then have "load64 (gm s1) v = load64 (gm s0) v" using z by (intro load64_cong) simp
      then show ?thesis using h(6) v None e(1) by (auto simp: unmoved9_def)
    next
      case (Some b)
      then show ?thesis using i(6) v e(1) by (auto simp: forwards9_def split: option.splits)
    qed
    show "v \<in> dom \<phi> \<Longrightarrow> read_ref s (v + 8) = loc9 \<phi> v"
      using i(6) v e(2) by (auto simp: forwards9_def loc9_def split: option.splits)
    have "is_in_nursery9 s v = is_in_nursery9 s1 v" by (simp add: is_in_nursery9_def m)
    then show "is_in_nursery9 s v" using young_in_nursery(1) [OF c v] by simp
  qed
  show ?thesis
  proof (cases "w \<in> dom \<phi>")
    case False
    then have "move_young_weakref9 w s = s" using young(1) [OF wy(1)] by (simp add: move_young_weakref9_def)
    moreover have "insert w P \<inter> dom \<phi> = P \<inter> dom \<phi>" using False by blast
    ultimately show ?thesis using d by (simp add: weak_done_def)
  next
    case True
    let ?b = "loc9 \<phi> w" and ?p = "read_ref s0 (w + 8)"
    let ?v = "weak_target9 young \<phi> ?p"
    have wo: "w \<in> old \<union> dom \<phi>" using True by blast
    have slot: "\<not> weak_slot \<phi> u x" if "weak_slot \<phi> w x" "u \<in> set (young_weakrefs9 s0)" "u \<in> dom \<phi>" "u \<noteq> w" for u x
      using cinv_apart [OF c wo _ that(4) [symmetric]] that sz [OF w(1)] sz [OF that(2)] by (fastforce simp: weak_slot_def)
    have "read_ref s (?b + 8) = read_ref s1 (?b + 8)"
    proof (rule read_ref_cong, rule keep)
      fix j v :: nat assume "j < 8" "v \<in> P" "v \<in> dom \<phi>"
      then show "\<not> weak_slot \<phi> v (?b + 8 + j)" using slot [of "?b + 8 + j" v] P w(2) by (auto simp: weak_slot_def)
    qed
    also have "\<dots> = ?p"
    proof (rule read_ref_cong)
      fix j :: nat assume j: "j < 8"
      have tr: "orefs X s0 w = []" using wy(2) unfolding weak9_def by blast
      have "content9 X s0 \<phi> (D w) s1 w" using i(7) wo unfolding updated9_def by blast
      then have "gm s1 (?b + (8 + j)) = gm s0 (w + (8 + j))"
        using j sz [OF w(1)] tr unfolding content9_def in_ref_def by auto
      then show "gm s1 (?b + 8 + j) = gm s0 (w + 8 + j)" by (simp add: add.assoc)
    qed
    finally have rp: "read_ref s (?b + 8) = ?p" .
    have b8: "read_ref s (w + 8) = ?b" by (rule young(2) [OF wy(1) True])
    have step: "move_young_weakref9 w s = write_ref (?b + 8) ?v s \<or> move_young_weakref9 w s = s \<and> ?v = ?p"
    proof (cases "?p \<in> young")
      case True
      show ?thesis
      proof (cases "?p \<in> dom \<phi>")
        case True
        then have "?v = loc9 \<phi> ?p" using \<open>?p \<in> young\<close> by (auto simp: weak_target9_def loc9_def)
        then show ?thesis
          using young [OF wy(1)] young [OF \<open>?p \<in> young\<close>] \<open>w \<in> dom \<phi>\<close> \<open>?p \<in> dom \<phi>\<close>
          by (simp add: move_young_weakref9_def b8 rp Let_def)
      next
        case False
        then have "?v = 0" using \<open>?p \<in> young\<close> by (auto simp: weak_target9_def domIff)
        then show ?thesis
          using young [OF wy(1)] young [OF \<open>?p \<in> young\<close>] \<open>w \<in> dom \<phi>\<close> False
          by (simp add: move_young_weakref9_def b8 rp Let_def)
      qed
    next
      case False
      then have p: "?p \<in> old" "\<phi> ?p = None" using wy(3) i(3) live9_young by (blast, metis domIff subsetD)
      then have "\<not> is_in_nursery9 s ?p"
        using old_not_in_nursery [OF c, of ?p] by (simp add: loc9_simps is_in_nursery9_def m)
      then show ?thesis using young [OF wy(1)] True False by (simp add: move_young_weakref9_def b8 rp Let_def weak_target9_def)
    qed
    have vb: "?v < 2 ^ 64"
    proof (cases "?p \<in> young")
      case True
      then show ?thesis using cinv_region(1,3) [OF c, of ?p] by (fastforce simp: weak_target9_def loc9_def split: option.splits)
    next
      case False
      then show ?thesis using l(8,10) [of ?p] wy(3) by (simp add: weak_target9_def)
    qed
    let ?s = "move_young_weakref9 w s"
    have out: "gm ?s x = gm s x" if "\<not> weak_slot \<phi> w x" for x
      using step that gm_write_ref_other [of x "?b + 8" ?v s] by (auto simp: weak_slot_def not_le not_less)
    have "\<exists>m. ?s = s1\<lparr>gm := m\<rparr>" using step m by (auto simp: write_ref_def write9_def)
    moreover have "read_ref ?s (?b + 8) = ?v" using step rp read_write_ref [OF vb] by auto
    moreover have "read_ref ?s (loc9 \<phi> u + 8) = read_ref s (loc9 \<phi> u + 8)" if u: "u \<in> P" "u \<in> dom \<phi>" for u
    proof (rule read_ref_cong, rule out)
      fix j :: nat assume "j < 8"
      then have "weak_slot \<phi> u (loc9 \<phi> u + 8 + j)" by (simp add: weak_slot_def)
      then show "\<not> weak_slot \<phi> w (loc9 \<phi> u + 8 + j)" using slot u P w(2) by blast
    qed
    moreover have "gm ?s x = gm s1 x" if "\<forall>v \<in> insert w P \<inter> dom \<phi>. \<not> weak_slot \<phi> v x" for x
    proof -
      have "gm ?s x = gm s x" using that True by (intro out) blast
      also have "\<dots> = gm s1 x" using that by (intro keep) blast
      finally show ?thesis .
    qed
    ultimately show ?thesis using d unfolding weak_done_def by auto
  qed
qed

lemma weak_fold:
  assumes c: "cinv9 X t young old s0 \<phi> D {} s1"
  shows "set ws \<subseteq> set (young_weakrefs9 s0) \<Longrightarrow> distinct ws \<Longrightarrow> set ws \<inter> P = {} \<Longrightarrow> P \<subseteq> set (young_weakrefs9 s0) \<Longrightarrow>
    weak_done young s0 \<phi> s1 P s \<Longrightarrow> weak_done young s0 \<phi> s1 (P \<union> set ws) (fold move_young_weakref9 ws s)"
proof (induction ws arbitrary: P s)
  case (Cons w ws)
  have "weak_done young s0 \<phi> s1 (insert w P) (move_young_weakref9 w s)"
    using weak_step [OF c] Cons.prems by auto
  then have "weak_done young s0 \<phi> s1 (insert w P \<union> set ws) (fold move_young_weakref9 ws (move_young_weakref9 w s))"
    using Cons.prems by (intro Cons.IH) auto
  then show ?case by simp
qed simp

section \<open>The nursery\<close>

definition need9 :: "gext \<Rightarrow> gil \<Rightarrow> nat" where
  "need9 X s = (if nursery_base9 s = 0 then nursery_size9 X else 0)"

context allocator
begin

lemma throw_away_ok:
  assumes b: "nursery_base9 s \<le> nursery_current9 s" "nursery_current9 s \<le> nursery_end9 s" "nursery_end9 s = (if nursery_base9 s = 0 then 0 else nursery_base9 s + nursery_size9 X)"
    and u: "\<forall>x. nursery_base9 s \<le> x \<and> x < nursery_end9 s \<longrightarrow> in_use9 s x" and rm: "room (need9 X s + k) s"
  defines "t \<equiv> throw_away_nursery9 X s"
  shows "nursery_base9 t \<noteq> 0" and "nursery_current9 t = nursery_base9 t" and "nursery_end9 t = nursery_base9 t + nursery_size9 X"
    and "nursery_base9 t \<le> x \<Longrightarrow> x < nursery_end9 t \<Longrightarrow> in_use9 t x" and "in_use9 s x \<Longrightarrow> in_use9 t x"
    and "in_use9 s x \<Longrightarrow> \<not> (nursery_base9 s \<le> x \<and> x < nursery_end9 s) \<Longrightarrow> \<not> (nursery_base9 t \<le> x \<and> x < nursery_end9 t)"
    and "gm t x = (if nursery_base9 s \<le> x \<and> x < nursery_current9 s then 0 else gm s x)" and "room k t"
    and "gtls t = gtls s" and "objects_pointing_to_nursery9 t = objects_pointing_to_nursery9 s"
    and "young_weakrefs9 t = young_weakrefs9 s" and "tloc t = tloc s" and "gil_locked t = gil_locked s"
proof -
  have "nursery_base9 t \<noteq> 0 \<and> nursery_current9 t = nursery_base9 t \<and> nursery_end9 t = nursery_base9 t + nursery_size9 X \<and>
    (nursery_base9 t \<le> x \<longrightarrow> x < nursery_end9 t \<longrightarrow> in_use9 t x) \<and> (in_use9 s x \<longrightarrow> in_use9 t x) \<and>
    (in_use9 s x \<longrightarrow> \<not> (nursery_base9 s \<le> x \<and> x < nursery_end9 s) \<longrightarrow> \<not> (nursery_base9 t \<le> x \<and> x < nursery_end9 t)) \<and>
    gm t x = (if nursery_base9 s \<le> x \<and> x < nursery_current9 s then 0 else gm s x) \<and> room k t \<and> gtls t = gtls s \<and>
    objects_pointing_to_nursery9 t = objects_pointing_to_nursery9 s \<and> young_weakrefs9 t = young_weakrefs9 s \<and> tloc t = tloc s \<and>
    gil_locked t = gil_locked s" for x
  proof (cases "nursery_base9 s = 0")
    case False
    have t: "t = (write9 (nursery_base9 s) (nursery_current9 s - nursery_base9 s) (\<lambda>_. 0) s)\<lparr>nursery_current9 := nursery_base9 s\<rparr>"
      using False by (simp add: t_def throw_away_nursery9_def)
    have r: "room k t" using rm False by (intro room_cong [of s t]) (simp_all add: t need9_def)
    have g: "gm t x = (if nursery_base9 s \<le> x \<and> x < nursery_current9 s then 0 else gm s x)"
      using b(1) by (auto simp: t gm_write9)
    have "in_use9 t = in_use9 s" by (simp add: t in_use9_def fun_eq_iff)
    then show ?thesis using r g False b u by (simp add: t)
  next
    case True
    let ?n = "nursery_size9 X"
    obtain p v where pv: "malloc9 X ?n s = (p, v)" by (cases "malloc9 X ?n s")
    have rm': "room (?n + k) s" using rm True by (simp add: need9_def)
    note new = malloc_new [OF rm' pv] and st = malloc_state [OF rm' pv]
    obtain q where v: "v = s\<lparr>areas := (p, ?n) # areas s, malloc_area := q\<rparr>" using st by blast
    have t: "t = (write9 p 0 (\<lambda>_. 0) (v\<lparr>nursery_base9 := p, nursery_end9 := p + ?n, nursery_current9 := p\<rparr>))\<lparr>nursery_current9 := p\<rparr>"
      using True by (simp add: t_def throw_away_nursery9_def pv)
    have r: "room k t" using conjunct2 [OF st] by (rule room_cong [rotated 2]) (simp_all add: t)
    have g: "gm t x = gm s x" by (auto simp: t gm_write9 v)
    have use: "in_use9 t x \<longleftrightarrow> in_use9 s x \<or> p \<le> x \<and> x < p + ?n" for x by (auto simp: t in_use9_def v)
    have c: "nursery_current9 s = 0" using b True by simp
    show ?thesis using r g use new True c by (auto simp: t v)
  qed
  then show "nursery_base9 t \<noteq> 0" "nursery_current9 t = nursery_base9 t" "nursery_end9 t = nursery_base9 t + nursery_size9 X"
    "nursery_base9 t \<le> x \<Longrightarrow> x < nursery_end9 t \<Longrightarrow> in_use9 t x" "in_use9 s x \<Longrightarrow> in_use9 t x"
    "in_use9 s x \<Longrightarrow> \<not> (nursery_base9 s \<le> x \<and> x < nursery_end9 s) \<Longrightarrow> \<not> (nursery_base9 t \<le> x \<and> x < nursery_end9 t)"
    "gm t x = (if nursery_base9 s \<le> x \<and> x < nursery_current9 s then 0 else gm s x)" "room k t"
    "gtls t = gtls s" "objects_pointing_to_nursery9 t = objects_pointing_to_nursery9 s" "young_weakrefs9 t = young_weakrefs9 s"
    "tloc t = tloc s" "gil_locked t = gil_locked s"
    by blast+
qed

end

section \<open>The heap after a collection\<close>

text \<open>
  \<open>\<phi>\<close> says where the young objects that are kept have moved to. Every object has its contents,
  with references to objects that have moved redirected; so have the roots.
\<close>

definition collected9 :: "gext \<Rightarrow> nat \<Rightarrow> nat set \<Rightarrow> nat set \<Rightarrow> gil \<Rightarrow> (nat \<rightharpoonup> nat) \<Rightarrow> gil \<Rightarrow> bool" where
  "collected9 X t young old s \<phi> s' \<longleftrightarrow>
     (\<forall>a \<in> old \<union> dom \<phi>. osz X s' (loc9 \<phi> a) = osz X s a \<and> orefs X s' (loc9 \<phi> a) = orefs X s a \<and>
        gil_flags s' (loc9 \<phi> a) = gil_flags s a OR STM_GCFLAG_WRITE_BARRIER9 \<and>
        (\<forall>off \<in> set (orefs X s a). read_ref s' (loc9 \<phi> a + off) = loc9 \<phi> (read_ref s (a + off))) \<and>
        (\<forall>i. 4 \<le> i \<and> i < osz X s a \<and> \<not> in_ref X (obj_bytes9 s a) i \<and> \<not> (a \<in> set (young_weakrefs9 s) \<and> 8 \<le> i) \<longrightarrow>
           obj_bytes9 s' (loc9 \<phi> a) i = obj_bytes9 s a i)) \<and>
     (\<forall>w \<in> set (young_weakrefs9 s) \<inter> dom \<phi>. read_ref s' (loc9 \<phi> w + 8) = weak_target9 young \<phi> (read_ref s (w + 8))) \<and>
     (\<forall>a \<in> dom \<phi>. \<forall>b \<in> dom \<phi>. \<phi> a = \<phi> b \<longrightarrow> a = b) \<and>
     (\<forall>a \<in> dom \<phi>. \<forall>x. loc9 \<phi> a \<le> x \<and> x < loc9 \<phi> a + osz X s a \<longrightarrow> \<not> in_use9 s x) \<and>
     gtls s' = (gtls s)(t := (gtls s t)\<lparr>shadowstack9 := map (loc9 \<phi>) (shadowstack9 (gtls s t)),
                                       thread_local_obj9 := loc9 \<phi> (thread_local_obj9 (gtls s t))\<rparr>) \<and>
     tloc s' = tloc s \<and> gil_locked s' = gil_locked s \<and>
     nursery_current9 s' = nursery_base9 s' \<and> nursery_base9 s' \<noteq> 0 \<and>
     (\<forall>x. nursery_base9 s \<le> x \<and> x < nursery_current9 s \<longrightarrow> gm s' x = 0)"

text \<open>The state after the weakrefs, and the one after the nursery was cleared.\<close>

lemma after_weakrefs:
  assumes c: "cinv9 X t young old s \<phi> D {} s1"
  shows "weak_done young s \<phi> s1 (set (young_weakrefs9 s)) ((move_young_weakrefs9 s1)\<lparr>young_weakrefs9 := young_weakrefs9 s1\<rparr>)"
proof -
  have y: "young_weakrefs9 s1 = young_weakrefs9 s" using cinvD(4) [OF c] by (simp add: same_frame9_def)
  have d: "distinct (rev (young_weakrefs9 s))" using heapD(5) [OF cinvD(2) [OF c]] by (simp add: weakrefs9_def)
  have "weak_done young s \<phi> s1 {} s1" by (auto simp: weak_done_def intro: exI [of _ "gm s1"])
  then have w: "weak_done young s \<phi> s1 (set (young_weakrefs9 s)) (fold move_young_weakref9 (rev (young_weakrefs9 s)) s1)"
    using weak_fold [OF c _ d, of "{}" s1] by simp
  then obtain m where m: "fold move_young_weakref9 (rev (young_weakrefs9 s)) s1 = s1\<lparr>gm := m\<rparr>"
    unfolding weak_done_def by blast
  have "(move_young_weakrefs9 s1)\<lparr>young_weakrefs9 := young_weakrefs9 s1\<rparr> = fold move_young_weakref9 (rev (young_weakrefs9 s)) s1"
    by (simp add: move_young_weakrefs9_def foreach_r_def y m)
  then show ?thesis using w by simp
qed

lemma weak_done_bytes:
  assumes c: "cinv9 X t young old s \<phi> D {} s1" and w: "weak_done young s \<phi> s1 (set (young_weakrefs9 s)) u"
    and a: "a \<in> old \<union> dom \<phi>" and i: "i < osz X s a" "\<not> (a \<in> set (young_weakrefs9 s) \<and> 8 \<le> i)"
  shows "gm u (loc9 \<phi> a + i) = gm s1 (loc9 \<phi> a + i)"
proof -
  have "\<not> weak_slot \<phi> v (loc9 \<phi> a + i)" if v: "v \<in> set (young_weakrefs9 s)" "v \<in> dom \<phi>" for v
  proof (cases "v = a")
    case True
    then show ?thesis using i v by (auto simp: weak_slot_def)
  next
    case False
    have "osz X s v = 16" using heapD(5) [OF cinvD(2) [OF c]] v(1) unfolding weakrefs9_def weak9_def by blast
    then show ?thesis using cinv_apart [OF c _ a False] v(2) i(1) by (auto simp: weak_slot_def)
  qed
  then show ?thesis using w unfolding weak_done_def by blast
qed

context allocator
begin

lemma collected_ok:
  assumes c: "cinv9 X t young old s \<phi> D {} s1" and o: "objects_pointing_to_nursery9 s1 = []"
    and rm: "room (need9 X s + k) s1"
    and g: "gtls s1 t = (gtls s t)\<lparr>shadowstack9 := map (loc9 \<phi>) (shadowstack9 (gtls s t)),
                                  thread_local_obj9 := loc9 \<phi> (thread_local_obj9 (gtls s t))\<rparr>"
  defines "s' \<equiv> throw_away_nursery9 X (move_young_weakrefs9 s1)"
  shows "collected9 X t young old s \<phi> s'" and "room k s'" and "young_weakrefs9 s' = []" and "objects_pointing_to_nursery9 s' = []"
    and "nursery_end9 s' = nursery_base9 s' + nursery_size9 X" and "nursery_base9 s' \<le> x \<Longrightarrow> x < nursery_end9 s' \<Longrightarrow> in_use9 s' x"
    and "a \<in> old \<union> dom \<phi> \<Longrightarrow> loc9 \<phi> a \<le> x \<Longrightarrow> x < loc9 \<phi> a + osz X s a \<Longrightarrow>
      in_use9 s' x \<and> \<not> (nursery_base9 s' \<le> x \<and> x < nursery_end9 s')"
proof -
  note i = cinvD [OF c] note h = heapD [OF i(2)] note l = layoutD9 [OF h(1)]
  define u where "u = move_young_weakrefs9 s1"
  define v where "v = u\<lparr>young_weakrefs9 := young_weakrefs9 s1\<rparr>"
  have w: "weak_done young s \<phi> s1 (set (young_weakrefs9 s)) v" unfolding u_def v_def by (rule after_weakrefs [OF c])
  obtain m where m: "v = s1\<lparr>gm := m\<rparr>" using w unfolding weak_done_def by blast
  have yu: "young_weakrefs9 u = []" by (simp add: u_def move_young_weakrefs9_def)
  have u: "u = s1\<lparr>gm := m, young_weakrefs9 := []\<rparr>"
  proof -
    have "u = v\<lparr>young_weakrefs9 := []\<rparr>" using yu by (simp add: v_def)
    then show ?thesis by (simp add: m)
  qed
  have sf: "nursery_base9 u = nursery_base9 s" "nursery_end9 u = nursery_end9 s" "nursery_current9 u = nursery_current9 s"
    "\<And>x. in_use9 s x \<Longrightarrow> in_use9 u x" "\<And>t'. t' \<noteq> t \<Longrightarrow> gtls u t' = gtls s t'" "tloc u = tloc s" "gil_locked u = gil_locked s"
    using i(4) by (simp_all add: same_frame9_def u in_use9_def)
  have uu: "in_use9 u = in_use9 s1" "need9 X u = need9 X s" using sf by (simp_all add: u in_use9_def fun_eq_iff need9_def)
  have ru: "room (need9 X u + k) u" unfolding uu by (rule room_cong [OF _ _ rm]) (simp_all add: u)
  have nu: "nursery_base9 u \<le> nursery_current9 u" "nursery_current9 u \<le> nursery_end9 u" "nursery_end9 u = (if nursery_base9 u = 0 then 0 else nursery_base9 u + nursery_size9 X)"
    "\<forall>x. nursery_base9 u \<le> x \<and> x < nursery_end9 u \<longrightarrow> in_use9 u x"
    unfolding sf using l(1,2,3,12) sf(4) by simp_all
  note ta = throw_away_ok [OF nu ru, folded s'_def [folded u_def]]
  have reg: "in_use9 s' x \<and> \<not> (nursery_base9 s' \<le> x \<and> x < nursery_end9 s') \<and> \<not> (nursery_base9 u \<le> x \<and> x < nursery_current9 u)"
    if a: "a \<in> old \<union> dom \<phi>" "loc9 \<phi> a \<le> x" "x < loc9 \<phi> a + osz X s a" for a x
  proof -
    have x: "in_use9 u x" "\<not> (nursery_base9 u \<le> x \<and> x < nursery_end9 u)"
      using cinv_region(4,5) [OF c a] i(4) unfolding uu sf by (simp_all add: same_frame9_def)
    then show ?thesis using ta(5) [OF x(1)] ta(6) [OF x] nu(2) by auto
  qed
  show "a \<in> old \<union> dom \<phi> \<Longrightarrow> loc9 \<phi> a \<le> x \<Longrightarrow> x < loc9 \<phi> a + osz X s a \<Longrightarrow>
      in_use9 s' x \<and> \<not> (nursery_base9 s' \<le> x \<and> x < nursery_end9 s')" using reg by blast
  show "room k s'" "young_weakrefs9 s' = []" "objects_pointing_to_nursery9 s' = []" "nursery_end9 s' = nursery_base9 s' + nursery_size9 X"
    "nursery_base9 s' \<le> x \<Longrightarrow> x < nursery_end9 s' \<Longrightarrow> in_use9 s' x"
    using ta(3,4,8,10,11) yu o by (simp_all add: u)
  have same: "gm s' (loc9 \<phi> a + j) = gm v (loc9 \<phi> a + j)" if "a \<in> old \<union> dom \<phi>" "j < osz X s a" for a j
    using reg [OF that(1), of "loc9 \<phi> a + j"] that(2) ta(7) [of "loc9 \<phi> a + j"] by (auto simp: u m)
  have bytes: "gm s' (loc9 \<phi> a + j) = gm s1 (loc9 \<phi> a + j)"
    if "a \<in> old \<union> dom \<phi>" "j < osz X s a" "\<not> (a \<in> set (young_weakrefs9 s) \<and> 8 \<le> j)" for a j
    using same [OF that(1,2)] weak_done_bytes [OF c w that] by simp
  have obj: "osz X s' (loc9 \<phi> a) = osz X s a \<and> orefs X s' (loc9 \<phi> a) = orefs X s a \<and>
        gil_flags s' (loc9 \<phi> a) = gil_flags s a OR STM_GCFLAG_WRITE_BARRIER9 \<and>
        (\<forall>off \<in> set (orefs X s a). read_ref s' (loc9 \<phi> a + off) = loc9 \<phi> (read_ref s (a + off))) \<and>
        (\<forall>j. 4 \<le> j \<and> j < osz X s a \<and> \<not> in_ref X (obj_bytes9 s a) j \<and> \<not> (a \<in> set (young_weakrefs9 s) \<and> 8 \<le> j) \<longrightarrow>
           obj_bytes9 s' (loc9 \<phi> a) j = obj_bytes9 s a j)"
    if a: "a \<in> old \<union> dom \<phi>" for a
  proof -
    have z: "16 \<le> osz X s a" by (rule cinv_region(1) [OF c a])
    have ct: "content9 X s \<phi> (D a) s1 a" and Da: "D a = set (orefs X s a)"
      and fl: "gil_flags s1 (loc9 \<phi> a) = gil_flags s a OR STM_GCFLAG_WRITE_BARRIER9"
      using i(7,8) a o unfolding updated9_def worklist9_def by auto
    have raw: "obj_bytes9 s' (loc9 \<phi> a) j = obj_bytes9 s a j"
      if "4 \<le> j" "j < osz X s a" "\<not> in_ref X (obj_bytes9 s a) j" "\<not> (a \<in> set (young_weakrefs9 s) \<and> 8 \<le> j)" for j
      using ct that bytes [OF a that(2,4)] by (simp add: content9_def obj_bytes9_def)
    have cbs: "osz X s' (loc9 \<phi> a) = osz X s a \<and> orefs X s' (loc9 \<phi> a) = orefs X s a"
    proof (cases "a \<in> set (young_weakrefs9 s)")
      case False
      then show ?thesis using i(1) raw unfolding cb_ok9_def by blast
    next
      case True
      then have wk: "weak9 X (obj_bytes9 s a)" using h(5) unfolding weakrefs9_def by blast
      then have e: "osz X s a = 16" "orefs X s a = []" unfolding weak9_def by blast+
      then have "obj_bytes9 s' (loc9 \<phi> a) j = obj_bytes9 s a j" if "4 \<le> j" "j < 8" for j
        using raw [of j] that by (simp add: in_ref_def)
      then show ?thesis using wk e unfolding weak9_def by metis
    qed
    have "gil_flags s' (loc9 \<phi> a) = gil_flags s1 (loc9 \<phi> a)"
      unfolding gil_flags_def using bytes [OF a] z by (intro load32_cong) simp
    moreover have "read_ref s' (loc9 \<phi> a + off) = loc9 \<phi> (read_ref s (a + off))" if off: "off \<in> set (orefs X s a)" for off
    proof -
      have "a \<notin> set (young_weakrefs9 s)" using h(5) off unfolding weakrefs9_def weak9_def by force
      then have "read_ref s' (loc9 \<phi> a + off) = read_ref s1 (loc9 \<phi> a + off)"
        using bytes [OF a, of "off + j" for j] fieldsD(3) [OF h(2) cinv_region(6) [OF c a] off]
        by (intro read_ref_cong) (simp add: add.assoc)
      then show ?thesis using ct off Da unfolding content9_def by simp
    qed
    ultimately show ?thesis using cbs fl raw by simp
  qed
  have weak: "read_ref s' (loc9 \<phi> a + 8) = weak_target9 young \<phi> (read_ref s (a + 8))"
    if a: "a \<in> set (young_weakrefs9 s)" "a \<in> dom \<phi>" for a
  proof -
    have "osz X s a = 16" using h(5) a(1) unfolding weakrefs9_def weak9_def by blast
    then have "read_ref s' (loc9 \<phi> a + 8) = read_ref v (loc9 \<phi> a + 8)"
      using same [of a "8 + j" for j] a(2) by (intro read_ref_cong) (simp add: add.assoc)
    then show ?thesis using w a unfolding weak_done_def by simp
  qed
  have inj: "a = b" if "a \<in> dom \<phi>" "b \<in> dom \<phi>" "\<phi> a = \<phi> b" for a b
    using cinv_inj [OF c, of a b] that by (auto simp: loc9_def)
  have fresh: "\<not> in_use9 s x" if "a \<in> dom \<phi>" "loc9 \<phi> a \<le> x" "x < loc9 \<phi> a + osz X s a" for a x
    using i(5) that unfolding copies9_def by (fastforce simp: loc9_def)
  have gt: "gtls s' = (gtls s)(t := (gtls s t)\<lparr>shadowstack9 := map (loc9 \<phi>) (shadowstack9 (gtls s t)),
                                       thread_local_obj9 := loc9 \<phi> (thread_local_obj9 (gtls s t))\<rparr>)"
    using g sf(5) unfolding ta(9) by (auto simp: fun_eq_iff u)
  have zero: "gm s' x = 0" if "nursery_base9 s \<le> x" "x < nursery_current9 s" for x using ta(7) [of x] that sf by simp
  show "collected9 X t young old s \<phi> s'"
    unfolding collected9_def using obj weak inj fresh gt zero ta(1,2,12,13) sf(6,7) by simp
qed

text \<open>The heap is well-formed again, with no young object.\<close>

lemma collected_heap:
  assumes c: "cinv9 X t young old s \<phi> D {} s1" and o: "objects_pointing_to_nursery9 s1 = []" and live: "dom \<phi> = live9 X t young s"
    and rt: "roots9 s t \<subseteq> {0} \<union> old \<union> dom \<phi>" and rm: "room (need9 X s + k) s1"
    and g: "gtls s1 t = (gtls s t)\<lparr>shadowstack9 := map (loc9 \<phi>) (shadowstack9 (gtls s t)),
                                  thread_local_obj9 := loc9 \<phi> (thread_local_obj9 (gtls s t))\<rparr>"
  defines "s' \<equiv> throw_away_nursery9 X (move_young_weakrefs9 s1)"
  shows "heap_ok9 X t {} (old \<union> ran \<phi>) s'"
proof -
  note co = collected_ok [OF c o rm g, folded s'_def]
  note h = heapD [OF cinvD(2) [OF c]]
  let ?P = "old \<union> dom \<phi>"
  have oy: "a \<in> old \<Longrightarrow> \<phi> a = None" for a
    using cinvD(3) [OF c] live9_young young_old_apart [OF h(1)] by (metis domIff subsetD)
  have img: "loc9 \<phi> ` ?P = old \<union> ran \<phi>"
  proof -
    have "loc9 \<phi> ` old = old" using oy by (simp add: loc9_def cong: image_cong)
    moreover have "loc9 \<phi> ` dom \<phi> = ran \<phi>" by (auto simp: loc9_def ran_def image_def dom_def)
    ultimately show ?thesis by (simp add: image_Un)
  qed
  have ob: "osz X s' (loc9 \<phi> a) = osz X s a" "orefs X s' (loc9 \<phi> a) = orefs X s a"
    "gil_flags s' (loc9 \<phi> a) = gil_flags s a OR STM_GCFLAG_WRITE_BARRIER9"
    "off \<in> set (orefs X s a) \<Longrightarrow> read_ref s' (loc9 \<phi> a + off) = loc9 \<phi> (read_ref s (a + off))" if "a \<in> ?P" for a off
    using co(1) that unfolding collected9_def by blast+
  have zero: "loc9 \<phi> 0 = 0"
    using cinvD(3) [OF c] live9_young layoutD9(9) [OF h(1), of 0] by (auto simp: loc9_def split: option.split)
  have lo: "loc9 \<phi> v \<in> {0} \<union> (old \<union> ran \<phi>)" if "v \<in> {0} \<union> ?P" for v
    using that zero unfolding img [symmetric] by auto
  have all: "Q b" if "b \<in> old \<union> ran \<phi>" "\<And>a. a \<in> ?P \<Longrightarrow> Q (loc9 \<phi> a)" for Q b
    using that unfolding img [symmetric] by blast
  have nurs: "nursery_current9 s' = nursery_base9 s'" "nursery_base9 s' \<noteq> 0" using co(1) by (simp_all add: collected9_def)
  have "layout9 X {} (old \<union> ran \<phi>) s'"
  proof -
    have one: "16 \<le> osz X s' b \<and> b \<noteq> 0 \<and> b + osz X s' b \<le> 2 ^ 64 \<and>
      (\<forall>x. b \<le> x \<and> x < b + osz X s' b \<longrightarrow> in_use9 s' x \<and> \<not> (nursery_base9 s' \<le> x \<and> x < nursery_end9 s'))"
      if "b \<in> old \<union> ran \<phi>" for b
      using that
    proof (rule all)
      fix a assume a: "a \<in> ?P"
      show "16 \<le> osz X s' (loc9 \<phi> a) \<and> loc9 \<phi> a \<noteq> 0 \<and> loc9 \<phi> a + osz X s' (loc9 \<phi> a) \<le> 2 ^ 64 \<and>
        (\<forall>x. loc9 \<phi> a \<le> x \<and> x < loc9 \<phi> a + osz X s' (loc9 \<phi> a) \<longrightarrow> in_use9 s' x \<and> \<not> (nursery_base9 s' \<le> x \<and> x < nursery_end9 s'))"
        unfolding ob(1) [OF a] using cinv_region(1,2,3) [OF c a] co(7) [OF a] by blast
    qed
    have two: "b + osz X s' b \<le> b' \<or> b' + osz X s' b' \<le> b" if b: "b \<in> old \<union> ran \<phi>" "b' \<in> old \<union> ran \<phi>" "b \<noteq> b'" for b b'
    proof -
      obtain a a' where a: "a \<in> ?P" "b = loc9 \<phi> a" "a' \<in> ?P" "b' = loc9 \<phi> a'" using b(1,2) unfolding img [symmetric] by blast
      then have "a \<noteq> a'" using b(3) by blast
      then show ?thesis using cinv_apart [OF c a(1,3)] ob(1) [OF a(1)] ob(1) [OF a(3)] a(2,4) by simp
    qed
    show ?thesis unfolding layout9_def nurs using one two co(5,6) nurs(2) by simp
  qed
  moreover have "fields9 X {} (old \<union> ran \<phi>) s'"
  proof -
    have "distinct (orefs X s' b) \<and> (\<forall>off \<in> set (orefs X s' b). 4 \<le> off \<and> off + 8 \<le> osz X s' b \<and>
        read_ref s' (b + off) \<in> {0} \<union> {} \<union> (old \<union> ran \<phi>) \<and>
        (\<forall>off' \<in> set (orefs X s' b). off \<noteq> off' \<longrightarrow> off + 8 \<le> off' \<or> off' + 8 \<le> off))" if "b \<in> old \<union> ran \<phi>" for b
      using that
    proof (rule all)
      fix a assume a: "a \<in> ?P"
      note f = fieldsD [OF h(2) cinv_region(6) [OF c a]]
      have "read_ref s (a + off) \<in> {0} \<union> ?P" if off: "off \<in> set (orefs X s a)" for off
        using f(4) [OF off] target_live [OF c a off] live by blast
      then have "read_ref s' (loc9 \<phi> a + off) \<in> {0} \<union> (old \<union> ran \<phi>)" if "off \<in> set (orefs X s a)" for off
        using lo ob(4) [OF a that] that by simp
      then show "distinct (orefs X s' (loc9 \<phi> a)) \<and> (\<forall>off \<in> set (orefs X s' (loc9 \<phi> a)). 4 \<le> off \<and> off + 8 \<le> osz X s' (loc9 \<phi> a) \<and>
        read_ref s' (loc9 \<phi> a + off) \<in> {0} \<union> {} \<union> (old \<union> ran \<phi>) \<and>
        (\<forall>off' \<in> set (orefs X s' (loc9 \<phi> a)). off \<noteq> off' \<longrightarrow> off + 8 \<le> off' \<or> off' + 8 \<le> off))"
        unfolding ob(1,2) [OF a] using f(1,2,3,5) by simp
    qed
    then show ?thesis by (simp add: fields9_def)
  qed
  moreover have "remembered9 X {} (old \<union> ran \<phi>) s'"
  proof -
    have "gil_flags s' b AND STM_GCFLAG_WRITE_BARRIER9 \<noteq> 0" if "b \<in> old \<union> ran \<phi>" for b
      using that
    proof (rule all)
      fix a assume "a \<in> ?P"
      then show "gil_flags s' (loc9 \<phi> a) AND STM_GCFLAG_WRITE_BARRIER9 \<noteq> 0"
        using mask1_neq_0 [of "gil_flags s a OR 1" 0] by (simp add: ob(3) STM_GCFLAG_WRITE_BARRIER9_def bit_or_iff)
    qed
    then show ?thesis by (simp add: remembered9_def co(4))
  qed
  moreover have "rooted9 t {} (old \<union> ran \<phi>) s'"
  proof -
    have gt: "gtls s' = (gtls s)(t := (gtls s t)\<lparr>shadowstack9 := map (loc9 \<phi>) (shadowstack9 (gtls s t)),
                                       thread_local_obj9 := loc9 \<phi> (thread_local_obj9 (gtls s t))\<rparr>)"
      using co(1) by (simp add: collected9_def)
    have img_roots: "roots9 s' t = loc9 \<phi> ` roots9 s t" by (simp add: roots9_def gt)
    have r: "roots9 s' t \<subseteq> {0} \<union> (old \<union> ran \<phi>)"
      unfolding img_roots
    proof (rule image_subsetI)
      fix v assume "v \<in> roots9 s t"
      then have "v \<in> {0} \<union> ?P" using subsetD [OF rt] by (simp only: Un_assoc)
      then show "loc9 \<phi> v \<in> {0} \<union> (old \<union> ran \<phi>)" by (rule lo)
    qed
    have "roots9 s' u \<subseteq> {0} \<union> old" if "u \<noteq> t" for u
      using h(4) that unfolding rooted9_def by (simp add: roots9_def gt)
    with r show ?thesis unfolding rooted9_def by auto
  qed
  ultimately show ?thesis by (simp add: heap_ok9_def weakrefs9_def unmoved9_def co(3))
qed

text \<open>The whole collection.\<close>

lemma collect_ok:
  assumes cb: "cb_ok9 X" and ok: "heap_ok9 X t young old s" and fin: "finite young"
    and rm: "room (need9 X s + k + rest9 X young s Map.empty) s" and n: "length (objects_pointing_to_nursery9 s) + card young \<le> n"
  shows "\<exists>\<phi> s'. stm_collect9 n X t s = Ret () s' \<and> dom \<phi> = live9 X t young s \<and> collected9 X t young old s \<phi> s' \<and>
    heap_ok9 X t {} (old \<union> ran \<phi>) s' \<and> room k s'"
proof -
  have pn: "pending9 young Map.empty s \<le> n" using n by (simp add: pending9_def)
  obtain \<phi> D s1 where s1: "collect_oldrefs_to_nursery9 n X (collect_roots_in_nursery9 X t s) = Ret () s1"
    "cinv9 X t young old s \<phi> D {} s1" "room (need9 X s + k + rest9 X young s \<phi>) s1" "objects_pointing_to_nursery9 s1 = []"
    "dom \<phi> = live9 X t young s"
    "gtls s1 t = (gtls s t)\<lparr>shadowstack9 := map (loc9 \<phi>) (shadowstack9 (gtls s t)), thread_local_obj9 := loc9 \<phi> (thread_local_obj9 (gtls s t))\<rparr>"
    using copied_all [OF cb ok fin rm pn] by blast
  have rm1: "room (need9 X s + (k + rest9 X young s \<phi>)) s1" using s1(3) by (simp add: add.assoc)
  have rt: "roots9 s t \<subseteq> {0} \<union> old \<union> dom \<phi>"
    using heapD(4) [OF ok] live9.root unfolding rooted9_def s1(5) by blast
  let ?s = "throw_away_nursery9 X (move_young_weakrefs9 s1)"
  have "room (k + rest9 X young s \<phi>) ?s" by (rule collected_ok(2) [OF s1(2,4) rm1 s1(6)])
  then have "room k ?s" by (rule room_less)
  moreover have "stm_collect9 n X t s = Ret () ?s" by (simp add: stm_collect9_def s1(1))
  ultimately show ?thesis
    using collected_ok(1) [OF s1(2,4) rm1 s1(6)] collected_heap [OF s1(2,4,5) rt rm1 s1(6)] s1(5) by blast
qed

end

end
