(* ===== verification/Htm.thy ===== *)
theory Htm
  imports Gilcollect
begin

text \<open>
  \<open>htm-c7\<close>: hardware transactions that fall back to the global lock, and the private area from
  which a thread allocates. What the processor answers, and what other threads do, are
  parameters.
\<close>

section \<open>The private area\<close>

definition MAX_MALLOC :: nat where
  "MAX_MALLOC = 1000 * 1024 * 1024"

definition tl_malloc :: "(nat \<Rightarrow> gil \<Rightarrow> nat) \<Rightarrow> nat \<Rightarrow> gil \<Rightarrow> (gil, nat) res" where
  "tl_malloc libc_malloc n s =
     (let s = (if fst (malloc_area s) = 0 then let p = libc_malloc MAX_MALLOC s in s\<lparr>malloc_area := (p, p)\<rparr> else s);
          (base, cur) = malloc_area s;
          s = s\<lparr>malloc_area := (base, cur + n)\<rparr>
      in if cur + n - base > MAX_MALLOC then Fatal ''abort'' s
         else Ret cur (s\<lparr>areas := (cur, n) # areas s\<rparr>))"

text \<open>The allocator that the collector uses; where \<open>tl_malloc\<close> ends the process, the result does not matter.\<close>

definition htm_callbacks :: "((nat \<Rightarrow> u8) \<Rightarrow> nat) \<Rightarrow> ((nat \<Rightarrow> u8) \<Rightarrow> nat list) \<Rightarrow> (nat \<Rightarrow> gil \<Rightarrow> nat) \<Rightarrow> gext" where
  "htm_callbacks sz tr libc_malloc = \<lparr>size9 = sz, trace9 = tr,
     malloc9 = (\<lambda>n s. case tl_malloc libc_malloc n s of Ret p s \<Rightarrow> (p, s) | r \<Rightarrow> (0, res_state r)),
     nursery_size9 = 1 * 4096\<rparr>"

text \<open>The area was allocated when the thread was registered, and nothing else is in its free part.\<close>

definition tl_room :: "nat \<Rightarrow> gil \<Rightarrow> bool" where
  "tl_room k s \<longleftrightarrow> (case malloc_area s of (base, cur) \<Rightarrow> base \<noteq> 0 \<and> base \<le> cur \<and> cur - base + k \<le> MAX_MALLOC \<and>
     base + MAX_MALLOC \<le> 2 ^ 64 \<and> (\<forall>x. cur \<le> x \<and> x < base + MAX_MALLOC \<longrightarrow> \<not> in_use9 s x))"

interpretation tlm: allocator "htm_callbacks sz tr lm" tl_room for sz tr lm
proof
  fix n k s p t
  assume r: "tl_room (n + k) s" and m: "malloc9 (htm_callbacks sz tr lm) n s = (p, t)"
  obtain b c where bc: "malloc_area s = (b, c)" by fastforce
  have f: "b \<noteq> 0" "b \<le> c" "c - b + (n + k) \<le> MAX_MALLOC" "b + MAX_MALLOC \<le> 2 ^ 64"
    "\<And>x. c \<le> x \<Longrightarrow> x < b + MAX_MALLOC \<Longrightarrow> \<not> in_use9 s x"
    using r unfolding tl_room_def bc prod.case by blast+
  have t: "p = c" "t = s\<lparr>malloc_area := (b, c + n), areas := (c, n) # areas s\<rparr>"
    using m f(1,2,3) by (auto simp: htm_callbacks_def tl_malloc_def bc Let_def split: if_splits)
  show "p \<noteq> 0 \<and> p + n \<le> 2 ^ 64 \<and> (\<forall>x. p \<le> x \<and> x < p + n \<longrightarrow> \<not> in_use9 s x)"
    using f t(1) by auto
  have "in_use9 t x \<longleftrightarrow> in_use9 s x \<or> c \<le> x \<and> x < c + n" for x by (auto simp: in_use9_def t(2))
  moreover have "c + n - b + k \<le> MAX_MALLOC" using f(2,3) by linarith
  ultimately have "tl_room k t" using f by (simp add: tl_room_def t(2))
  then show "(\<exists>q. t = s\<lparr>areas := (p, n) # areas s, malloc_area := q\<rparr>) \<and> tl_room k t"
    using t by (intro conjI exI [of _ "(b, c + n)"]) simp_all
next
  fix k n s assume "tl_room (k + n) s"
  then show "tl_room k s" by (auto simp: tl_room_def split: prod.splits)
next
  fix s t :: gil and k assume "areas s = areas t" "malloc_area s = malloc_area t" "tl_room k s"
  moreover have "in_use9 s = in_use9 t" using \<open>areas s = areas t\<close> by (simp add: in_use9_def fun_eq_iff)
  ultimately show "tl_room k t" by (simp add: tl_room_def)
qed

text \<open>A structure \<open>stm_segment_info_s\<close> has 32 bytes.\<close>

definition htm_register_thread_local :: "gext \<Rightarrow> nat \<Rightarrow> gil \<Rightarrow> gil" where
  "htm_register_thread_local X t s =
     (let s = s\<lparr>objects_pointing_to_nursery9 := [], young_weakrefs9 := []\<rparr>;
          (seg, s) = malloc9 X 32 s;
          (base, s) = malloc9 X (768 * 1024) s
      in upd_gtl t (\<lambda>l. l\<lparr>thread_local_obj9 := 0, shadowstack9 := [], last_abort9 := 0\<rparr>) s)"

section \<open>Starting and ending transactions\<close>

record htm =
  hg :: gil
  in_transaction :: bool
  retry_counter :: nat
  use_gil :: bool
  running_thread9 :: "nat option"
  gil_transactions :: nat
  htm_transactions :: nat
  gil_retry_acquire :: nat
  gil_spin_retry_acquire :: nat
  transient_retry_acquire :: nat
  persistent_acquire :: nat
  xbegins :: nat
  looks :: nat
  mutex_read :: bool

text \<open>
  \<open>mutex_read\<close>: the running hardware transaction has read the mutex, so that the processor aborts
  it when somebody takes the mutex later.
\<close>

text \<open>
  \<open>xstatus n\<close> is what the \<open>n\<close>th \<open>xbegin\<close> returns; a hardware transaction that aborts later goes
  back there too, with everything as before, so it is one that returned the status of its
  abort. \<open>locked_at n\<close> says if the mutex is taken at the \<open>n\<close>th look, and \<open>wait_gil\<close> is what the
  other threads do while this one waits for the mutex.
\<close>

record henv =
  xstatus :: "nat \<Rightarrow> u32"
  locked_at :: "nat \<Rightarrow> bool"
  wait_gil :: "gil \<Rightarrow> gil"

definition XBEGIN_OK :: u32 where "XBEGIN_OK = NOT 0"
definition XBEGIN_XABORT :: u32 where "XBEGIN_XABORT = 1"
definition XBEGIN_MAYBE_RETRY :: u32 where "XBEGIN_MAYBE_RETRY = 2"
definition XBEGIN_NORMAL_CONFLICT :: u32 where "XBEGIN_NORMAL_CONFLICT = 4"

definition XBEGIN_XABORT_ARG :: "u32 \<Rightarrow> u32" where
  "XBEGIN_XABORT_ARG x = drop_bit 24 x AND 0xFF"

definition ABORT_GIL_LOCKED :: u32 where "ABORT_GIL_LOCKED = 1"

definition is_persistent :: "u32 \<Rightarrow> bool" where
  "is_persistent status =
     (if status AND XBEGIN_XABORT \<noteq> 0 \<and> XBEGIN_XABORT_ARG status = ABORT_GIL_LOCKED then False
      else if status AND (XBEGIN_MAYBE_RETRY OR XBEGIN_NORMAL_CONFLICT) \<noteq> 0 then False
      else if status = 0 then False else True)"

text \<open>\<open>Hang\<close>: the mutex is still taken when the others have done what they do meanwhile.\<close>

definition acquire_gil :: "henv \<Rightarrow> nat \<Rightarrow> htm \<Rightarrow> (htm, unit) res" where
  "acquire_gil E th s =
     (let s = s\<lparr>hg := wait_gil E (hg s)\<rparr>
      in if gil_locked (hg s) then Hang s
         else Ret () (s\<lparr>hg := (hg s)\<lparr>gil_locked := True, tloc := Some th\<rparr>, running_thread9 := Some th, use_gil := True\<rparr>))"

definition mutex_locked :: "henv \<Rightarrow> htm \<Rightarrow> bool \<times> htm" where
  "mutex_locked E s =
     (locked_at E (looks s), s\<lparr>looks := Suc (looks s), mutex_read := mutex_read s \<or> in_transaction s\<rparr>)"

text \<open>The result is 0 or 1.\<close>

fun spin_loop :: "nat \<Rightarrow> henv \<Rightarrow> nat \<Rightarrow> htm \<Rightarrow> (htm, nat) res" where
  "spin_loop 0 E th s =
     (let s = s\<lparr>gil_spin_retry_acquire := Suc (gil_spin_retry_acquire s)\<rparr>
      in bind_res (acquire_gil E th s) (\<lambda>_. Ret 1))"
| "spin_loop (Suc n) E th s =
     (let (l, s) = mutex_locked E s in if \<not> l then Ret 0 s else spin_loop n E th s)"

definition spin_and_acquire_gil :: "henv \<Rightarrow> nat \<Rightarrow> htm \<Rightarrow> (htm, nat) res" where
  "spin_and_acquire_gil E th s = spin_loop 500 E th s"

text \<open>\<open>xabort\<close> goes back to \<open>xbegin\<close>, which returns the argument of the abort in its status.\<close>

definition xabort :: "u32 \<Rightarrow> htm \<Rightarrow> u32 \<times> htm" where
  "xabort arg s = (XBEGIN_XABORT OR push_bit 24 arg, s\<lparr>in_transaction := False, mutex_read := False\<rparr>)"

text \<open>An attempt: the status with which the code goes on, and whether the transaction runs.\<close>

definition xbegin_checked :: "henv \<Rightarrow> htm \<Rightarrow> u32 \<times> htm" where
  "xbegin_checked E s =
     (let status = xstatus E (xbegins s); s = s\<lparr>xbegins := Suc (xbegins s)\<rparr>
      in if status = XBEGIN_OK
         then let (l, s) = mutex_locked E (s\<lparr>in_transaction := True, mutex_read := False\<rparr>)
              in if l then xabort ABORT_GIL_LOCKED s else (status, s)
         else (status, s))"

definition set_running :: "nat \<Rightarrow> htm \<Rightarrow> htm" where
  "set_running th s = s\<lparr>hg := (hg s)\<lparr>tloc := Some th\<rparr>, running_thread9 := Some th\<rparr>"

function transaction_retry :: "henv \<Rightarrow> nat \<Rightarrow> nat \<Rightarrow> nat \<Rightarrow> htm \<Rightarrow> (htm, unit) res" where
  "transaction_retry E th transient gil_retry s =
     (let (status, s) = xbegin_checked E s
      in if status = XBEGIN_OK then Ret () (set_running th s)
         else if status AND XBEGIN_XABORT \<noteq> 0 \<and> XBEGIN_XABORT_ARG status = ABORT_GIL_LOCKED
         then if gil_retry - 1 > 0
              then bind_res (spin_and_acquire_gil E th s) (\<lambda>got s.
                     if got \<noteq> 0 then Ret () s else transaction_retry E th transient (gil_retry - 1) s)
              else let s = s\<lparr>gil_retry_acquire := Suc (gil_retry_acquire s)\<rparr>
                   in bind_res (acquire_gil E th s) (\<lambda>_ s. Ret () (set_running th s))
         else if is_persistent status
         then let s = s\<lparr>persistent_acquire := Suc (persistent_acquire s)\<rparr>
              in bind_res (acquire_gil E th s) (\<lambda>_ s. Ret () (set_running th s))
         else let s = s\<lparr>retry_counter := Suc (retry_counter s)\<rparr>
              in if transient - 1 > 0 then transaction_retry E th (transient - 1) gil_retry s
                 else let s = s\<lparr>transient_retry_acquire := Suc (transient_retry_acquire s)\<rparr>
                      in bind_res (acquire_gil E th s) (\<lambda>_ s. Ret () (set_running th s)))"
  by pat_completeness auto

termination
  by (relation "measure (\<lambda>(E, th, transient, gil_retry, s). transient + gil_retry)") auto

declare transaction_retry.simps [simp del]

definition TRANSIENT_RETRY_MAX :: nat where "TRANSIENT_RETRY_MAX = 100"
definition GIL_RETRY_MAX :: nat where "GIL_RETRY_MAX = 10"

definition htm_start_inevitable_transaction :: "henv \<Rightarrow> nat \<Rightarrow> htm \<Rightarrow> (htm, unit) res" where
  "htm_start_inevitable_transaction E th s =
     transaction_retry E th TRANSIENT_RETRY_MAX GIL_RETRY_MAX (s\<lparr>retry_counter := 0, use_gil := False\<rparr>)"

text \<open>The assertion on \<open>xtest\<close>: who holds the mutex is not in a hardware transaction.\<close>

definition htm_commit_transaction :: "nat \<Rightarrow> gext \<Rightarrow> nat \<Rightarrow> htm \<Rightarrow> (htm, unit) res" where
  "htm_commit_transaction fuel X th s =
     (case stm_collect9 fuel X th (hg s) of
        Ret _ g \<Rightarrow> (let s = s\<lparr>hg := g\<lparr>tloc := None\<rparr>, running_thread9 := None\<rparr>
                    in if use_gil s
                       then if in_transaction s then Fatal ''OPT_ASSERT'' s
                            else Ret () (s\<lparr>hg := (hg s)\<lparr>gil_locked := False\<rparr>, gil_transactions := Suc (gil_transactions s)\<rparr>)
                       else Ret () (s\<lparr>in_transaction := False, mutex_read := False, htm_transactions := Suc (htm_transactions s)\<rparr>))
      | Fatal m g \<Rightarrow> Fatal m (s\<lparr>hg := g\<rparr>)
      | Aborted g \<Rightarrow> Aborted (s\<lparr>hg := g\<rparr>)
      | Hang g \<Rightarrow> Hang (s\<lparr>hg := g\<rparr>))"

end
