(* ===== verification/Gilalloc.thy ===== *)
theory Gilalloc
  imports Htm
begin

text \<open>
  Allocation in \<open>gil-c7\<close> and \<open>htm-c7\<close>, and the start of a transaction in \<open>htm-c7\<close>.
\<close>

section \<open>Allocation from the nursery\<close>

lemma heap_ok9_current:
  assumes h: "heap_ok9 X t young old s" and "nursery_current9 s \<le> c" and "c \<le> nursery_end9 s"
  shows "heap_ok9 X t young old (s\<lparr>nursery_current9 := c\<rparr>)"
proof -
  let ?s = "s\<lparr>nursery_current9 := c\<rparr>"
  have f: "in_use9 ?s = in_use9 s" "obj_bytes9 ?s = obj_bytes9 s" "read_ref ?s = read_ref s" "gil_flags ?s = gil_flags s"
    "roots9 ?s = roots9 s"
    by (simp_all add: in_use9_def obj_bytes9_def read_ref_def gil_flags_def roots9_def fun_eq_iff)
  have "layout9 X young old s" using h by (simp add: heap_ok9_def)
  then have "layout9 X young old ?s" using assms(2,3) unfolding layout9_def f by (auto intro: le_trans)
  then show ?thesis
    using h unfolding heap_ok9_def fields9_def remembered9_def rooted9_def weakrefs9_def unmoved9_def f by simp
qed


context allocator
begin

lemma allocate_ok:
  assumes cb: "cb_ok9 X" and ok: "heap_ok9 X t young old s" and fin: "finite young"
    and rm: "room (need9 X s + k + rest9 X young s Map.empty) s" and n: "length (objects_pointing_to_nursery9 s) + card young \<le> fuel"
    and sz: "sz < STM_FAST_ALLOC9" "sz \<le> nursery_size9 X" "16 \<le> sz" "sz mod 8 = 0"
  shows "\<exists>p s' young' old'. stm_allocate9 fuel X t sz s = Ret p s' \<and> heap_ok9 X t young' old' s' \<and> room k s' \<and>
    nursery_base9 s' \<le> p \<and> p + sz = nursery_current9 s' \<and> (\<forall>a \<in> young'. a + osz X s' a \<le> p) \<and>
    (young' = young \<and> old' = old \<and> gm s' = gm s \<and> gtls s' = gtls s \<or>
     (\<exists>\<phi> u. young' = {} \<and> old' = old \<union> ran \<phi> \<and> dom \<phi> = live9 X t young s \<and> collected9 X t young old s \<phi> u \<and>
        s' = u\<lparr>nursery_current9 := nursery_current9 u + sz\<rparr>))"
proof (cases "nursery_current9 s + sz \<le> nursery_end9 s")
  case True
  let ?s = "s\<lparr>nursery_current9 := nursery_current9 s + sz\<rparr>"
  have "stm_allocate9 fuel X t sz s = Ret (nursery_current9 s) ?s" using True sz by (simp add: stm_allocate9_def Let_def)
  moreover have "heap_ok9 X t young old ?s" using True by (intro heap_ok9_current [OF ok]) simp_all
  moreover have "room k ?s"
  proof -
    have "room (k + (need9 X s + rest9 X young s Map.empty)) s" using rm by (simp add: ac_simps)
    then have "room k s" by (rule room_less)
    then show ?thesis by (rule room_cong [rotated 2]) simp_all
  qed
  moreover have "nursery_base9 s \<le> nursery_current9 s" "\<forall>a \<in> young. a + osz X s a \<le> nursery_current9 s"
    using layoutD9(1,5) [OF heapD(1) [OF ok]] by blast+
  moreover have "obj_bytes9 ?s = obj_bytes9 s" by (simp add: obj_bytes9_def fun_eq_iff)
  ultimately show ?thesis
    by (intro exI [of _ "nursery_current9 s"] exI [of _ ?s] exI [of _ young] exI [of _ old]) simp
next
  case False
  have reset: "s\<lparr>nursery_current9 := nursery_current9 s + sz, nursery_current9 := nursery_current9 s\<rparr> = s" by simp
  obtain \<phi> u where u: "stm_collect9 fuel X t s = Ret () u" "dom \<phi> = live9 X t young s" "collected9 X t young old s \<phi> u"
    "heap_ok9 X t {} (old \<union> ran \<phi>) u" "room k u"
    using collect_ok [OF cb ok fin rm n] by blast
  have c: "nursery_current9 u = nursery_base9 u" "nursery_base9 u \<noteq> 0" using u(3) by (simp_all add: collected9_def)
  then have e: "nursery_end9 u = nursery_base9 u + nursery_size9 X" using layoutD9(12) [OF heapD(1) [OF u(4)]] by simp
  let ?u = "u\<lparr>nursery_current9 := nursery_current9 u + sz\<rparr>"
  have "stm_allocate9 fuel X t sz s = Ret (nursery_current9 u) ?u"
    using False sz u(1) e c(1) by (simp add: stm_allocate9_def stm_allocate_slowpath9_def Let_def reset)
  moreover have "heap_ok9 X t {} (old \<union> ran \<phi>) ?u" using e c(1) sz(2) by (intro heap_ok9_current [OF u(4)]) simp_all
  moreover have "room k ?u" using u(5) by (rule room_cong [rotated 2]) simp_all
  moreover have "nursery_base9 ?u \<le> nursery_current9 u" "nursery_current9 u + sz = nursery_current9 ?u" using c(1) by simp_all
  ultimately show ?thesis using u(2,3) by blast
qed

text \<open>An object that is smaller than the limit for the nursery, but larger than the nursery.\<close>

lemma allocate_too_large:
  assumes cb: "cb_ok9 X" and ok: "heap_ok9 X t young old s" and fin: "finite young"
    and rm: "room (need9 X s + k + rest9 X young s Map.empty) s" and n: "length (objects_pointing_to_nursery9 s) + card young \<le> fuel"
    and sz: "sz < STM_FAST_ALLOC9" "nursery_size9 X < sz"
  shows "\<exists>s'. stm_allocate9 fuel X t sz s = Fatal ''assert'' s' \<and>
    (16 \<le> sz \<and> sz mod 8 = 0 \<longrightarrow> (\<exists>\<phi>. collected9 X t young old s \<phi> s'))"
proof -
  note l = layoutD9 [OF heapD(1) [OF ok]]
  have reset: "s\<lparr>nursery_current9 := nursery_current9 s + sz, nursery_current9 := nursery_current9 s\<rparr> = s" by simp
  have f: "\<not> nursery_current9 s + sz \<le> nursery_end9 s" using l(1,12) sz(2) by (simp split: if_splits)
  obtain \<phi> u where u: "stm_collect9 fuel X t s = Ret () u" "collected9 X t young old s \<phi> u" "heap_ok9 X t {} (old \<union> ran \<phi>) u"
    using collect_ok [OF cb ok fin rm n] by blast
  have c: "nursery_current9 u = nursery_base9 u" "nursery_base9 u \<noteq> 0" using u(2) by (simp_all add: collected9_def)
  then have e: "nursery_end9 u = nursery_base9 u + nursery_size9 X" using layoutD9(12) [OF heapD(1) [OF u(3)]] by simp
  have "stm_allocate9 fuel X t sz s = Fatal ''assert'' (if 16 \<le> sz \<and> sz mod 8 = 0 then u else s)"
    using f sz u(1) e c(1) by (simp add: stm_allocate9_def stm_allocate_slowpath9_def Let_def reset)
  then show ?thesis using u(2) by auto
qed

end

section \<open>The start of a hardware transaction\<close>

text \<open>How often the code fell back to the lock.\<close>

definition fallbacks :: "htm \<Rightarrow> nat" where
  "fallbacks s = gil_retry_acquire s + gil_spin_retry_acquire s + transient_retry_acquire s + persistent_acquire s"

definition granted :: "henv \<Rightarrow> bool" where
  "granted E \<longleftrightarrow> (\<forall>g. \<not> gil_locked (wait_gil E g))"

text \<open>
  The transaction of \<open>t\<close> was started in the state \<open>s\<close>, with at most \<open>n\<close> attempts in hardware. If it
  runs in hardware, it has the mutex among what it has read, its last look at the mutex came after
  \<open>s\<close>, and it saw the mutex free.
\<close>

definition htm_started :: "henv \<Rightarrow> nat \<Rightarrow> nat \<Rightarrow> htm \<Rightarrow> htm \<Rightarrow> bool" where
  "htm_started E th n s t \<longleftrightarrow> running_thread9 t = Some th \<and> tloc (hg t) = Some th \<and> xbegins t \<le> xbegins s + n \<and>
     (if use_gil t then gil_locked (hg t)
      else in_transaction t \<and> mutex_read t \<and> looks s < looks t \<and> \<not> locked_at E (looks t - 1) \<and>
        hg t = (hg s)\<lparr>tloc := Some th\<rparr>) \<and>
     fallbacks t = fallbacks s + (if use_gil t then 1 else 0)"

lemma acquire_ok:
  "granted E \<Longrightarrow> acquire_gil E th s = Ret () (s\<lparr>hg := (wait_gil E (hg s))\<lparr>gil_locked := True, tloc := Some th\<rparr>,
     running_thread9 := Some th, use_gil := True\<rparr>)"
  by (simp add: granted_def acquire_gil_def Let_def)

lemma spin_ok:
  assumes "granted E"
  shows "(\<exists>k b. looks s \<le> k \<and> spin_loop n E th s = Ret 0 (s\<lparr>looks := k, mutex_read := b\<rparr>)) \<or>
    (\<exists>t. spin_loop n E th s = Ret 1 t \<and> running_thread9 t = Some th \<and> tloc (hg t) = Some th \<and> use_gil t \<and> gil_locked (hg t) \<and>
       xbegins t = xbegins s \<and> fallbacks t = Suc (fallbacks s))"
proof (induction n arbitrary: s)
  case 0
  then show ?case by (simp add: Let_def acquire_ok [OF assms] fallbacks_def)
next
  case (Suc n)
  let ?s = "s\<lparr>looks := Suc (looks s), mutex_read := mutex_read s \<or> in_transaction s\<rparr>"
  show ?case
  proof (cases "locked_at E (looks s)")
    case False
    then have "spin_loop (Suc n) E th s = Ret 0 ?s" by (simp add: mutex_locked_def)
    then show ?thesis by (intro disjI1 exI conjI) simp_all
  next
    case True
    then have e: "spin_loop (Suc n) E th s = spin_loop n E th ?s" by (simp add: mutex_locked_def)
    from Suc.IH [of ?s] show ?thesis
    proof
      assume "\<exists>k b. looks ?s \<le> k \<and> spin_loop n E th ?s = Ret 0 (?s\<lparr>looks := k, mutex_read := b\<rparr>)"
      then obtain k b where k: "looks ?s \<le> k" "spin_loop n E th ?s = Ret 0 (?s\<lparr>looks := k, mutex_read := b\<rparr>)" by blast
      have "looks s \<le> k" "spin_loop (Suc n) E th s = Ret 0 (s\<lparr>looks := k, mutex_read := b\<rparr>)"
        using k unfolding e by simp_all
      then show ?thesis by blast
    next
      assume "\<exists>t. spin_loop n E th ?s = Ret 1 t \<and> running_thread9 t = Some th \<and> tloc (hg t) = Some th \<and> use_gil t \<and>
        gil_locked (hg t) \<and> xbegins t = xbegins ?s \<and> fallbacks t = Suc (fallbacks ?s)"
      moreover have "xbegins ?s = xbegins s" "fallbacks ?s = fallbacks s" by (simp_all add: fallbacks_def)
      ultimately show ?thesis unfolding e by simp
    qed
  qed
qed

lemma xbegin_checked_fields:
  assumes "xbegin_checked E s = (st, t)"
  shows "xbegins t = Suc (xbegins s)" and "hg t = hg s" and "fallbacks t = fallbacks s" and "use_gil t = use_gil s"
    and "looks s \<le> looks t"
    and "st = XBEGIN_OK \<Longrightarrow> in_transaction t \<and> mutex_read t \<and> looks s < looks t \<and> \<not> locked_at E (looks t - 1)"
proof -
  have "XBEGIN_XABORT OR push_bit 24 ABORT_GIL_LOCKED \<noteq> XBEGIN_OK"
    by (simp add: XBEGIN_XABORT_def ABORT_GIL_LOCKED_def XBEGIN_OK_def)
  then show "xbegins t = Suc (xbegins s)" "hg t = hg s" "fallbacks t = fallbacks s" "use_gil t = use_gil s"
    "looks s \<le> looks t"
    "st = XBEGIN_OK \<Longrightarrow> in_transaction t \<and> mutex_read t \<and> looks s < looks t \<and> \<not> locked_at E (looks t - 1)"
    using assms by (auto simp: xbegin_checked_def mutex_locked_def xabort_def fallbacks_def Let_def split: if_splits)
qed

lemma started_acquired:
  assumes "xbegins u = Suc (xbegins s)" and "fallbacks u = Suc (fallbacks s)" and "0 < n"
  shows "htm_started E th n s (set_running th (u\<lparr>hg := (wait_gil E (hg u))\<lparr>gil_locked := True, tloc := Some th\<rparr>,
     running_thread9 := Some th, use_gil := True\<rparr>))"
  using assms by (simp add: htm_started_def set_running_def fallbacks_def)

lemma htm_started_trans:
  assumes "htm_started E th n u t" and "hg u = hg s" and "xbegins u \<le> Suc (xbegins s)" and "fallbacks u = fallbacks s"
    and "looks s \<le> looks u"
  shows "htm_started E th (Suc n) s t"
  using assms by (auto simp: htm_started_def split: if_splits)

lemma retry_ok:
  assumes gr: "granted E"
  shows "0 < m \<Longrightarrow> 0 < g \<Longrightarrow> \<not> use_gil s \<Longrightarrow>
    \<exists>t. transaction_retry E th m g s = Ret () t \<and> htm_started E th (m + g - 1) s t"
proof (induction "m + g" arbitrary: m g s rule: less_induct)
  case less
  obtain st u where x: "xbegin_checked E s = (st, u)" by fastforce
  note f = xbegin_checked_fields [OF x]
  let ?n = "m + g - 1"
  have n: "0 < ?n" using less.prems by simp
  have fallback: "\<exists>t. bind_res (acquire_gil E th v) (\<lambda>_ s. Ret () (set_running th s)) = Ret () t \<and> htm_started E th ?n s t"
    if "xbegins v = xbegins u" "fallbacks v = Suc (fallbacks u)" for v
    using started_acquired [where u = v and s = s and n = ?n and th = th and E = E] that f n by (simp add: acquire_ok [OF gr])
  have again: "\<exists>t. transaction_retry E th m' g' v = Ret () t \<and> htm_started E th ?n s t"
    if "m' + g' = m + g - 1" "0 < m'" "0 < g'" "hg v = hg u" "xbegins v = xbegins u" "fallbacks v = fallbacks u" "use_gil v = use_gil u"
      "looks u \<le> looks v"
    for m' g' v
  proof -
    note pre = that
    have lt: "m' + g' < m + g" "\<not> use_gil v" using that(1,7) less.prems f(4) by simp_all
    obtain t where t: "transaction_retry E th m' g' v = Ret () t" "htm_started E th (m' + g' - 1) v t"
      using less.hyps [OF lt(1) pre(2,3) lt(2)] by blast
    have "htm_started E th (Suc (m' + g' - 1)) s t" using t(2) that(4,5,6,8) f by (intro htm_started_trans [OF t(2)]) simp_all
    moreover have "Suc (m' + g' - 1) = ?n" using that(1,2) n by linarith
    ultimately show ?thesis using t(1) by simp
  qed
  note step = transaction_retry.simps [of E th m g s, unfolded x Let_def prod.case]
  consider "st = XBEGIN_OK"
    | "st \<noteq> XBEGIN_OK" "st AND XBEGIN_XABORT \<noteq> 0 \<and> XBEGIN_XABORT_ARG st = ABORT_GIL_LOCKED" "0 < g - 1"
    | "st \<noteq> XBEGIN_OK" "st AND XBEGIN_XABORT \<noteq> 0 \<and> XBEGIN_XABORT_ARG st = ABORT_GIL_LOCKED" "\<not> 0 < g - 1"
    | "st \<noteq> XBEGIN_OK" "\<not> (st AND XBEGIN_XABORT \<noteq> 0 \<and> XBEGIN_XABORT_ARG st = ABORT_GIL_LOCKED)" "is_persistent st"
    | "st \<noteq> XBEGIN_OK" "\<not> (st AND XBEGIN_XABORT \<noteq> 0 \<and> XBEGIN_XABORT_ARG st = ABORT_GIL_LOCKED)" "\<not> is_persistent st" "0 < m - 1"
    | "st \<noteq> XBEGIN_OK" "\<not> (st AND XBEGIN_XABORT \<noteq> 0 \<and> XBEGIN_XABORT_ARG st = ABORT_GIL_LOCKED)" "\<not> is_persistent st" "\<not> 0 < m - 1"
    by blast
  then show ?case
  proof cases
    case 1
    then have "htm_started E th ?n s (set_running th u)"
      using f n less.prems(3) by (simp add: htm_started_def set_running_def fallbacks_def)
    then show ?thesis unfolding step using 1 by simp
  next
    case 2
    have e: "transaction_retry E th m g s = bind_res (spin_loop 500 E th u) (\<lambda>got s.
       if got \<noteq> 0 then Ret () s else transaction_retry E th m (g - 1) s)"
      unfolding step using 2 by (simp add: spin_and_acquire_gil_def)
    consider k b where "looks u \<le> k" "spin_loop 500 E th u = Ret 0 (u\<lparr>looks := k, mutex_read := b\<rparr>)"
      | t where "spin_loop 500 E th u = Ret 1 t" "running_thread9 t = Some th" "tloc (hg t) = Some th" "use_gil t" "gil_locked (hg t)"
        "xbegins t = xbegins u" "fallbacks t = Suc (fallbacks u)"
      using spin_ok [OF gr, where n = 500 and th = th and s = u] by blast
    then show ?thesis
    proof cases
      case 1
      then show ?thesis unfolding e using again [of m "g - 1" "u\<lparr>looks := k, mutex_read := b\<rparr>"] less.prems 2(3)
        by (simp add: fallbacks_def)
    next
      case t: 2
      then have "htm_started E th ?n s t" using f n by (simp add: htm_started_def)
      then show ?thesis unfolding e t(1) by simp
    qed
  next
    case 3
    then show ?thesis unfolding step using fallback by (simp add: fallbacks_def)
  next
    case 4
    show ?thesis unfolding step if_not_P [OF 4(1)] if_not_P [OF 4(2)] if_P [OF 4(3)] by (rule fallback) (simp_all add: fallbacks_def)
  next
    case 5
    show ?thesis unfolding step if_not_P [OF 5(1)] if_not_P [OF 5(2)] if_not_P [OF 5(3)] if_P [OF 5(4)]
      using less.prems 5(4) by (intro again) (simp_all add: fallbacks_def)
  next
    case 6
    show ?thesis unfolding step if_not_P [OF 6(1)] if_not_P [OF 6(2)] if_not_P [OF 6(3)] if_not_P [OF 6(4)]
      by (rule fallback) (simp_all add: fallbacks_def)
  qed
qed

section \<open>A small heap\<close>

text \<open>One young object, with a reference to itself, on the stack of thread 0.\<close>

abbreviation X9 :: gext where
  "X9 \<equiv> htm_callbacks (\<lambda>_. 16) (\<lambda>f. if f 4 = 0 then [8] else []) (\<lambda>_ _. 0x100000)"

definition Y9 :: nat where "Y9 = 0x10000"

definition sample9 :: gil where
  "sample9 = \<lparr>gm = (\<lambda>x. if x = Y9 + 10 then 1 else 0), areas = [(Y9, 4096)], malloc_area = (0x100000, 0x100000),
     gtls = (\<lambda>_. \<lparr>shadowstack9 = [], thread_local_obj9 = 0, last_abort9 = 0\<rparr>)
       (0 := \<lparr>shadowstack9 = [Y9], thread_local_obj9 = 0, last_abort9 = 0\<rparr>),
     tloc = Some 0, gil_locked = True, nursery_base9 = Y9, nursery_current9 = Y9 + 16, nursery_end9 = Y9 + 4096,
     objects_pointing_to_nursery9 = [], young_weakrefs9 = []\<rparr>"

lemma X9_simps: "size9 X9 f = 16" "trace9 X9 f = (if f 4 = 0 then [8] else [])" "nursery_size9 X9 = 4096"
  by (simp_all add: htm_callbacks_def)

lemma cb_ok_X9: "cb_ok9 X9"
  unfolding cb_ok9_def X9_simps
proof (intro allI impI conjI refl)
  fix f f' :: "nat \<Rightarrow> u8"
  assume h: "\<forall>i. 4 \<le> i \<and> i < 16 \<and> \<not> in_ref X9 f i \<longrightarrow> f' i = f i"
  have "\<not> in_ref X9 f 4" by (simp add: in_ref_def X9_simps)
  then have "f' 4 = f 4" using h by simp
  then show "(if f' 4 = 0 then [8] else []) = (if f 4 = 0 then [8] else [])" by simp
qed

lemma sample9_ref: "read_ref sample9 (Y9 + 8) = Y9" "load64 (gm sample9) Y9 = 0"
  by (simp_all add: read_ref_def load64_def load32_def sample9_def Y9_def)

lemma sample9_heap: "heap_ok9 X9 0 {Y9} {} sample9"
proof -
  have r: "orefs X9 sample9 Y9 = [8]" by (simp add: X9_simps obj_bytes9_def sample9_def Y9_def)
  have "layout9 X9 {Y9} {} sample9"
    unfolding layout9_def X9_simps by (simp add: sample9_def Y9_def in_use9_def)
  moreover have "fields9 X9 {Y9} {} sample9" by (simp add: fields9_def r X9_simps sample9_ref)
  moreover have "remembered9 X9 {Y9} {} sample9" by (simp add: remembered9_def sample9_def)
  moreover have "rooted9 0 {Y9} {} sample9" by (simp add: rooted9_def roots9_def sample9_def)
  moreover have "weakrefs9 X9 {Y9} {} sample9" by (simp add: weakrefs9_def sample9_def)
  moreover have "unmoved9 {Y9} sample9"
    by (simp add: unmoved9_def sample9_ref GCWORD_MOVED9_def gil_flags_def load32_def) (simp add: sample9_def Y9_def)
  ultimately show ?thesis by (simp add: heap_ok9_def)
qed

lemma sample9_room: "tl_room (need9 X9 sample9 + 0 + rest9 X9 {Y9} sample9 Map.empty) sample9"
  unfolding tl_room_def need9_def rest9_def X9_simps by (simp add: sample9_def Y9_def MAX_MALLOC_def in_use9_def)

lemma sample9_live: "Y9 \<in> live9 X9 0 {Y9} sample9"
  by (rule live9.root) (simp_all add: roots9_def sample9_def)

section \<open>The properties\<close>

text \<open>
  C18: the minor collection of \<open>gil-c7\<close> is correct, for every allocator that returns unused
  memory. With as much fuel as there are objects to be traced it returns, and the assertions on
  the objects that it traces hold; exactly the young objects that can be reached from the roots or
  from old objects that were written to have been moved, each to memory of its own; every object
  that is kept has its contents and size, its references and the roots redirected to where the
  objects have moved; a weakref has its referent, or NULL if that was not kept; and the heap is
  well-formed again, without a young object. The nursery is empty, and the part of it that was in
  use before is zeroed (nothing is said of the contents of a nursery that was only allocated now).
\<close>

theorem minor_collection_copies:
  assumes "allocator X room" and "cb_ok9 X" and "heap_ok9 X t young old s" and "finite young"
    and "room (need9 X s + 0 + rest9 X young s Map.empty) s" and "length (objects_pointing_to_nursery9 s) + card young \<le> n"
  shows "\<exists>\<phi> s'. stm_collect9 n X t s = Ret () s' \<and> dom \<phi> = live9 X t young s \<and> collected9 X t young old s \<phi> s' \<and>
    heap_ok9 X t {} (old \<union> ran \<phi>) s'"
  using allocator.collect_ok [OF assms] by blast

theorem minor_collection_copies_witness:
  "\<exists>\<phi> s'. stm_collect9 1 X9 0 sample9 = Ret () s' \<and> Y9 \<in> dom \<phi> \<and> shadowstack9 (gtls s' 0) = [loc9 \<phi> Y9] \<and>
     heap_ok9 X9 0 {} (ran \<phi>) s'"
proof -
  have "length (objects_pointing_to_nursery9 sample9) + card {Y9} \<le> 1" by (simp add: sample9_def)
  from minor_collection_copies [OF tlm.allocator_axioms cb_ok_X9 sample9_heap _ sample9_room this]
  obtain \<phi> s' where c: "stm_collect9 1 X9 0 sample9 = Ret () s'" "dom \<phi> = live9 X9 0 {Y9} sample9"
    "collected9 X9 0 {Y9} {} sample9 \<phi> s'" "heap_ok9 X9 0 {} ({} \<union> ran \<phi>) s'" by auto
  have "shadowstack9 (gtls s' 0) = [loc9 \<phi> Y9]" using c(3) by (simp add: collected9_def sample9_def)
  moreover have "heap_ok9 X9 0 {} (ran \<phi>) s'" "Y9 \<in> dom \<phi>" using c(2,4) sample9_live by simp_all
  ultimately show ?thesis using c(1) by blast
qed

text \<open>
  C19: an allocation of \<open>htm-c7\<close> that fits into the nursery, of at least 16 bytes and a multiple of
  8, returns an area of the nursery in which there is no object, after a correct minor collection
  if there was not enough space left.
\<close>

theorem allocation_is_unused:
  assumes "cb_ok9 (htm_callbacks szs tr lm)" and "heap_ok9 (htm_callbacks szs tr lm) t young old s" and "finite young"
    and "tl_room (need9 (htm_callbacks szs tr lm) s + 0 + rest9 (htm_callbacks szs tr lm) young s Map.empty) s"
    and "length (objects_pointing_to_nursery9 s) + card young \<le> fuel"
    and "n < STM_FAST_ALLOC9" and "n \<le> nursery_size9 (htm_callbacks szs tr lm)" and "16 \<le> n" and "n mod 8 = 0"
  shows "\<exists>p s' young' old'. stm_allocate9 fuel (htm_callbacks szs tr lm) t n s = Ret p s' \<and>
    heap_ok9 (htm_callbacks szs tr lm) t young' old' s' \<and> nursery_base9 s' \<le> p \<and> p + n = nursery_current9 s' \<and>
    (\<forall>a \<in> young'. a + osz (htm_callbacks szs tr lm) s' a \<le> p) \<and>
    (young' = young \<and> old' = old \<and> gm s' = gm s \<and> gtls s' = gtls s \<or>
     (\<exists>\<phi> u. young' = {} \<and> old' = old \<union> ran \<phi> \<and> dom \<phi> = live9 (htm_callbacks szs tr lm) t young s \<and>
        collected9 (htm_callbacks szs tr lm) t young old s \<phi> u \<and> s' = u\<lparr>nursery_current9 := nursery_current9 u + n\<rparr>))"
  using tlm.allocate_ok [OF assms] by blast

theorem allocation_is_unused_witness:
  "\<exists>p s' young' old'. stm_allocate9 1 X9 0 4088 sample9 = Ret p s' \<and> heap_ok9 X9 0 young' old' s' \<and> p + 4088 = nursery_current9 s'"
proof -
  have "length (objects_pointing_to_nursery9 sample9) + card {Y9} \<le> 1" "(4088 :: nat) < STM_FAST_ALLOC9" "4088 \<le> nursery_size9 X9"
    "16 \<le> (4088 :: nat)" "4088 mod 8 = (0 :: nat)"
    by (simp_all add: sample9_def STM_FAST_ALLOC9_def X9_simps)
  from allocation_is_unused [OF cb_ok_X9 sample9_heap _ sample9_room this] show ?thesis by blast
qed

text \<open>
  C38: \<open>htm-c7\<close> allocates objects of less than 66 KB in a nursery of 4 KB: for every size in between
  an assertion fails. For the sizes that are multiples of 8 it is that of the slow path, although
  a correct collection has just emptied the nursery (and without assertions the object
  reaches past the end of the nursery); the others fail the assertion on the size.
\<close>

theorem large_allocation_fails:
  assumes "cb_ok9 (htm_callbacks szs tr lm)" and "heap_ok9 (htm_callbacks szs tr lm) t young old s" and "finite young"
    and "tl_room (need9 (htm_callbacks szs tr lm) s + 0 + rest9 (htm_callbacks szs tr lm) young s Map.empty) s"
    and "length (objects_pointing_to_nursery9 s) + card young \<le> fuel" and "4096 < n" and "n < 66 * 1024"
  shows "\<exists>s'. stm_allocate9 fuel (htm_callbacks szs tr lm) t n s = Fatal ''assert'' s' \<and>
    (n mod 8 = 0 \<longrightarrow> (\<exists>\<phi>. collected9 (htm_callbacks szs tr lm) t young old s \<phi> s'))"
  using tlm.allocate_too_large [OF assms(1-5), of n] assms(6,7) by (auto simp: STM_FAST_ALLOC9_def htm_callbacks_def)

theorem large_allocation_fails_witness:
  "\<exists>s'. stm_allocate9 1 X9 0 4104 sample9 = Fatal ''assert'' s'"
proof -
  have "length (objects_pointing_to_nursery9 sample9) + card {Y9} \<le> 1" by (simp add: sample9_def)
  from large_allocation_fails [OF cb_ok_X9 sample9_heap _ sample9_room this, of 4104] show ?thesis by auto
qed

text \<open>
  C20: starting a transaction in \<open>htm-c7\<close> ends, whatever the processor answers, if the mutex is
  granted to who waits for it: after at most 109 attempts the thread runs either a hardware
  transaction, which has read the mutex and saw it free at that look, with nothing else changed, or
  it holds the mutex, after exactly one fallback.
\<close>

theorem hardware_start_ends:
  assumes "granted E"
  shows "\<exists>t. htm_start_inevitable_transaction E th s = Ret () t \<and> htm_started E th 109 s t"
proof -
  let ?s = "s\<lparr>retry_counter := 0, use_gil := False\<rparr>"
  obtain t where t: "transaction_retry E th 100 10 ?s = Ret () t" "htm_started E th (100 + 10 - 1) ?s t"
    using retry_ok [OF assms, of 100 10 ?s th] by auto
  then have "htm_started E th 109 s t" by (cases "use_gil t") (simp_all add: htm_started_def fallbacks_def)
  then show ?thesis using t(1) by (auto simp: htm_start_inevitable_transaction_def TRANSIENT_RETRY_MAX_def GIL_RETRY_MAX_def)
qed

theorem hardware_start_ends_witness:
  "\<exists>s t. htm_start_inevitable_transaction
     \<lparr>xstatus = (\<lambda>n. if n < 3 then 4 else XBEGIN_OK), locked_at = (\<lambda>n. n < 600), wait_gil = gil_locked_update (\<lambda>_. False)\<rparr> 7 s = Ret () t \<and>
     xbegins t \<le> xbegins s + 109"
proof -
  have "granted \<lparr>xstatus = (\<lambda>n. if n < 3 then 4 else XBEGIN_OK), locked_at = (\<lambda>n. n < 600), wait_gil = gil_locked_update (\<lambda>_. False)\<rparr>"
    by (simp add: granted_def)
  from hardware_start_ends [OF this] show ?thesis unfolding htm_started_def by blast
qed

end
