(* ===== verification/Mixed.thy ===== *)
theory Mixed
  imports Sample
begin

text \<open>
  The two write barriers of \<open>c7\<close> on the same object: the card barrier, a minor collection, then
  the barrier for the whole object.
\<close>

lemma full_write_owned:
  assumes "write_locks s (get_write_lock_idx obj) = write_lock_num (segs s me)" and "write_lock_num (segs s me) \<noteq> 0"
    and "\<not> IS_OVERFLOW_OBJ s me (stm_flags s me obj)" and "has_flag (stm_flags s me obj) GCFLAG_WRITE_BARRIER"
    and "\<not> has_flag (stm_flags s me obj) GCFLAG_CARDS_SET"
  shows "\<exists>s1. stm_write (Suc n) X me obj s = Ret () s1 \<and> write_locks s1 = write_locks s \<and>
    \<not> has_flag (stm_flags s1 me obj) GCFLAG_WRITE_BARRIER \<and> remap s1 = remap s \<and> by_segment s1 = by_segment s \<and>
    (\<forall>g x. x < obj \<or> obj + 4 \<le> x \<longrightarrow> vread s1 g x = vread s g x) \<and>
    stm_flags s1 me obj = stm_flags s me obj AND NOT (GCFLAG_WRITE_BARRIER OR GCFLAG_CARDS_SET)"
proof -
  let ?r = "stm_read me obj s"
  have v: "stm_flags t me obj = stm_flags s me obj" if "mem t = mem s" "remap t = remap s" for t
    using that by (simp add: stm_flags_def vload32_def vread_def [abs_def])
  have r: "stm_flags ?r me obj = stm_flags s me obj" "segs ?r = segs s" "write_locks ?r = write_locks s"
    by (rule v) (simp_all add: stm_read_def)
  let ?s1 = "write_slowpath_owned X me obj False ?r"
  have "stm_write (Suc n) X me obj s = Ret () ?s1"
    using assms r by (simp add: stm_write_def stm_write_slowpath_def write_slowpath_common_def Let_def)
  moreover have "write_locks ?s1 = write_locks s"
    using assms(5) v [of "upd_seg me f ?r" for f] r
    by (simp add: write_slowpath_owned_def Let_def stm_flags_and_not_def upd_seg_def stm_read_def)
  moreover have "\<not> has_flag (stm_flags ?s1 me obj) GCFLAG_WRITE_BARRIER"
    by (simp only: write_slowpath_owned_def Let_def stm_flags_and_not_def stm_flags_set flag_masks(6) not_False_eq_True if_True)
  moreover have "remap ?s1 = remap s" "by_segment ?s1 = by_segment s"
    by (simp_all add: write_slowpath_owned_def Let_def stm_flags_and_not_def stm_read_def)
  moreover have "\<forall>g x. x < obj \<or> obj + 4 \<le> x \<longrightarrow> vread ?s1 g x = vread s g x"
    using assms(5) v [of "upd_seg me f ?r" for f] r
    by (auto simp: write_slowpath_owned_def Let_def stm_flags_and_not_def stm_read_def vread_set_stm_flags)
       (simp_all add: vread_def)
  moreover have "stm_flags ?s1 me obj = stm_flags s me obj AND NOT (GCFLAG_WRITE_BARRIER OR GCFLAG_CARDS_SET)"
    using assms(5) v [of "upd_seg me f ?r" for f] r
    by (simp add: write_slowpath_owned_def Let_def stm_flags_and_not_def upd_seg_def stm_read_def stm_flags_set)
  ultimately show ?thesis by blast
qed

text \<open>The size, the cards and the layout of an object, which no store changes.\<close>

definition same_shape :: "ext \<Rightarrow> nat \<Rightarrow> nat \<Rightarrow> stm \<Rightarrow> stm \<Rightarrow> bool" where
  "same_shape X me obj s t \<longleftrightarrow> obj_size X t me obj = obj_size X s me obj \<and>
     stmcb_obj_supports_cards X (obj_bytes t me obj) = stmcb_obj_supports_cards X (obj_bytes s me obj) \<and>
     stmcb_get_card_base_itemsize X (obj_bytes t me obj) = stmcb_get_card_base_itemsize X (obj_bytes s me obj)"

lemma same_shapeD:
  assumes "same_shape X me obj s t" and "write_locks t = write_locks s"
  shows "obj_should_use_cards X t me obj = obj_should_use_cards X s me obj"
    and "marked_bytes X t me obj = marked_bytes X s me obj" and "no_card_marked X t me obj = no_card_marked X s me obj"
    and "seems_all_marked X t me obj = seems_all_marked X s me obj"
  using assms by (simp_all add: same_shape_def obj_should_use_cards_def marked_bytes_def no_card_marked_def
    seems_all_marked_def last_card_index_def)

lemma only_marked_published:
  assumes "cb_ok X" and "me \<in> {1..4}" and "obj_mapped X t me obj" and "obj_should_use_cards X t me obj"
    and "\<not> has_flag (stm_flags t me obj) GCFLAG_SMALL_UNIFORM" and "\<not> has_flag (stm_flags t me obj) GCFLAG_CARDS_SET"
    and "\<not> no_card_marked X t me obj" and "\<not> seems_all_marked X t me obj"
  shows "\<exists>t'. synchronize_object_now X me obj False t = Ret () t' \<and> published t me (marked_bytes X t me obj) t'"
proof -
  have "stmcb_obj_supports_cards X (obj_bytes t me obj)" using assms(4) by (auto simp: obj_should_use_cards_def split: if_splits)
  then obtain R where "published t me R (card_wise_synchronize_object_now X me obj t)"
    "\<not> no_card_marked X t me obj \<longrightarrow> \<not> seems_all_marked X t me obj \<longrightarrow> R = marked_bytes X t me obj"
    using card_wise_published [OF assms(2,1,3,6)] by blast
  then have "published t me (marked_bytes X t me obj) (card_wise_synchronize_object_now X me obj t)" using assms(7,8) by simp
  then show ?thesis using assms(4,5) by (simp add: synchronize_object_now_def)
qed

text \<open>
  C37: a write is lost when the two write barriers are mixed. Take an object of the transaction
  where some cards are marked, by the card barrier and the minor collection after it. The barrier
  for the whole object then returns without marking the other cards, and is not taken again; but
  the commit publishes the marked cards only (unless the three cards are marked that it looks
  at). What was stored to the rest of the object is in no other segment.
\<close>

theorem mixed_barriers_lose_write:
  assumes "cb_ok X" and "me \<in> {1..4}" and "obj_should_use_cards X s me obj"
    and "write_locks s (get_write_lock_idx obj) = write_lock_num (segs s me)" and "write_lock_num (segs s me) \<noteq> 0"
    and "\<not> IS_OVERFLOW_OBJ s me (stm_flags s me obj)" and "has_flag (stm_flags s me obj) GCFLAG_WRITE_BARRIER"
    and "\<not> has_flag (stm_flags s me obj) GCFLAG_CARDS_SET"
    and "\<not> no_card_marked X s me obj" and "\<not> seems_all_marked X s me obj"
  shows "\<exists>s1. stm_write (Suc n) X me obj s = Ret () s1 \<and> \<not> has_flag (stm_flags s1 me obj) GCFLAG_WRITE_BARRIER \<and>
    (\<forall>t. write_locks t = write_locks s1 \<and> same_shape X me obj s t \<and> obj_mapped X t me obj \<and>
       \<not> has_flag (stm_flags t me obj) GCFLAG_SMALL_UNIFORM \<and> \<not> has_flag (stm_flags t me obj) GCFLAG_CARDS_SET \<longrightarrow>
       (\<exists>t'. synchronize_object_now X me obj False t = Ret () t' \<and>
          (\<forall>g \<le> 4. \<forall>x. vread t' g x = (if x \<in> marked_bytes X s me obj then vread t me x else vread t g x))))"
proof -
  obtain s1 where s1: "stm_write (Suc n) X me obj s = Ret () s1" "write_locks s1 = write_locks s"
    "\<not> has_flag (stm_flags s1 me obj) GCFLAG_WRITE_BARRIER"
    using full_write_owned [OF assms(4-8)] by blast
  have "\<exists>t'. synchronize_object_now X me obj False t = Ret () t' \<and> published t me (marked_bytes X s me obj) t'"
    if t: "write_locks t = write_locks s1" "same_shape X me obj s t" "obj_mapped X t me obj"
      "\<not> has_flag (stm_flags t me obj) GCFLAG_SMALL_UNIFORM" "\<not> has_flag (stm_flags t me obj) GCFLAG_CARDS_SET" for t
  proof -
    note e = same_shapeD [OF t(2) t(1) [unfolded s1(2)]]
    show ?thesis using only_marked_published [OF assms(1,2) t(3) _ t(4,5)] assms(3,9,10) unfolding e by blast
  qed
  then have "\<forall>t. write_locks t = write_locks s1 \<and> same_shape X me obj s t \<and> obj_mapped X t me obj \<and>
       \<not> has_flag (stm_flags t me obj) GCFLAG_SMALL_UNIFORM \<and> \<not> has_flag (stm_flags t me obj) GCFLAG_CARDS_SET \<longrightarrow>
       (\<exists>t'. synchronize_object_now X me obj False t = Ret () t' \<and>
          (\<forall>g \<le> 4. \<forall>x. vread t' g x = (if x \<in> marked_bytes X s me obj then vread t me x else vread t g x)))"
    unfolding published_def by blast
  then show ?thesis using s1(1,3) by blast
qed


section \<open>A program with cards\<close>

text \<open>One object of 544 bytes with 66 items of 8 bytes, so that it has three cards.\<close>

definition big_ext :: ext where
  "big_ext = sample_ext\<lparr>stmcb_size_rounded_up := (\<lambda>_. 544), stmcb_obj_supports_cards := (\<lambda>_. True),
     stmcb_get_card_base_itemsize := (\<lambda>_. (16, 8))\<rparr>"

lemma big_cb_ok: "cb_ok big_ext"
  by (simp add: cb_ok_def big_ext_def)

lemma big_ext_simps [simp]: "timing_enabled big_ext = False" "stmcb_trace_cards big_ext b i j = []"
  "obj_size big_ext s g a = 544" "obj_should_use_cards big_ext s g a" "last_card_index big_ext s g a = 3"
  "stmcb_obj_supports_cards big_ext b" "stmcb_get_card_base_itemsize big_ext b = (16, 8)"
  by (simp_all add: big_ext_def sample_ext_def obj_size_def obj_should_use_cards_def last_card_index_def
    get_index_to_card_index_def card_consts)

lemma big_isolated: "isolated big_ext {OBJ1} sample"
proof -
  have old: "old_page sample p \<longleftrightarrow> PAGE_FLAG_START \<le> p \<and> p < PAGE_FLAG_START + 20" for p
    by (simp add: old_page_def sample_frame)
  have pages: "object_pages big_ext sample OBJ1 = {PAGE_FLAG_START}"
    by (auto simp: object_pages_def OBJ1_def PAGE_FLAG_START_def page_consts)
  have flag: "stm_flags sample g OBJ1 = 1" for g using sample_flags [of g OBJ1] by simp
  have "maps_ok sample" "locks_ok {OBJ1} sample"
    using sample_isolated by (auto simp: isolated_def locks_ok_def sample_mods)
  moreover have "layout_ok big_ext {OBJ1} sample" using pages old by (simp add: layout_ok_def OBJ1_def page_consts)
  moreover have "heads_ok big_ext {OBJ1} sample" using flag by (auto simp: heads_ok_def has_flag_def gcflags)
  ultimately show ?thesis by (simp add: isolated_def own_ok_def views_ok_def sample_mods sample_vread)
qed

text \<open>The card barrier for the first item, and what a minor collection does to the card.\<close>

definition carded :: stm where
  "carded = res_state (stm_write_card 1 big_ext 1 OBJ1 0 sample)"

definition traced :: stm where
  "traced = res_state (trace_card_object big_ext 1 OBJ1 carded)"


lemma carded_eq:
  "stm_write_card 1 big_ext 1 OBJ1 0 sample = Ret () carded"
  "carded = (let s = stm_flags_or 1 OBJ1 GCFLAG_CARDS_SET (claim_object big_ext 1 OBJ1 (stm_read 1 OBJ1 sample));
                 s = upd_seg 1 (\<lambda>p. p\<lparr>old_objects_with_cards := old_objects_with_cards p @ [OBJ1]\<rparr>) s
             in s\<lparr>write_locks := (write_locks s)(get_write_lock_idx OBJ1 + 1 := CARD_MARKED)\<rparr>)"
proof -
  have "stm_write_card 1 big_ext 1 OBJ1 0 sample = Ret () (let s = stm_flags_or 1 OBJ1 GCFLAG_CARDS_SET (claim_object big_ext 1 OBJ1 (stm_read 1 OBJ1 sample));
                 s = upd_seg 1 (\<lambda>p. p\<lparr>old_objects_with_cards := old_objects_with_cards p @ [OBJ1]\<rparr>) s
             in s\<lparr>write_locks := (write_locks s)(get_write_lock_idx OBJ1 + 1 := CARD_MARKED)\<rparr>)"
    using sample_has_flag sample_overflow big_isolated
    by (simp add: stm_write_card_def stm_write_slowpath_card_def stm_write_slowpath_card_extra_def
      write_slowpath_common_def sample_frame Let_def write_slowpath_owned_def isolated_def heads_ok_def
      get_index_to_card_index_def)
  then show "stm_write_card 1 big_ext 1 OBJ1 0 sample = Ret () carded"
    "carded = (let s = stm_flags_or 1 OBJ1 GCFLAG_CARDS_SET (claim_object big_ext 1 OBJ1 (stm_read 1 OBJ1 sample));
                 s = upd_seg 1 (\<lambda>p. p\<lparr>old_objects_with_cards := old_objects_with_cards p @ [OBJ1]\<rparr>) s
             in s\<lparr>write_locks := (write_locks s)(get_write_lock_idx OBJ1 + 1 := CARD_MARKED)\<rparr>)"
    unfolding carded_def by simp_all
qed


lemma claimed:
  fixes c :: stm
  defines "c \<equiv> claim_object big_ext 1 OBJ1 (stm_read 1 OBJ1 sample)"
  shows "maps_ok c" and "g \<le> 4 \<Longrightarrow> vread c g = vread sample g"
    and "g \<in> {1..4} \<Longrightarrow> is_private_page c g PAGE_FLAG_START \<longleftrightarrow> g = 1"
    and "write_locks c = (\<lambda>_. 0)(get_write_lock_idx OBJ1 := 1)"
    and "write_lock_num (segs c 1) = 1" and "overflow_number (segs c 1) = overflow_number (segs sample 1)"
proof -
  let ?r = "stm_read 1 OBJ1 sample"
  have v: "vread ?r = vread sample" by (simp add: stm_read_def vread_def [abs_def])
  note iso = isolated_read [OF big_isolated, of 1 OBJ1]
  have m: "1 \<in> {1..4 :: nat}" "OBJ1 \<in> {OBJ1}" by simp_all
  note f = claim_form [OF iso m, folded c_def]
  show "maps_ok c" "g \<le> 4 \<Longrightarrow> vread c g = vread sample g" using f(1,3) v by simp_all
  have "old_page ?r PAGE_FLAG_START" by (simp add: old_page_def sample_frame)
  moreover have "PAGE_FLAG_START \<in> object_pages big_ext ?r OBJ1"
    by (simp add: object_pages_def OBJ1_def PAGE_FLAG_START_def page_consts)
  ultimately show "g \<in> {1..4} \<Longrightarrow> is_private_page c g PAGE_FLAG_START \<longleftrightarrow> g = 1"
    using f(4) [of g PAGE_FLAG_START] by (simp add: is_private_page_def sample_frame)
  show "write_locks c = (\<lambda>_. 0)(get_write_lock_idx OBJ1 := 1)" "write_lock_num (segs c 1) = 1"
    using f(6,7) by (simp_all add: sample_frame sample_seg started_running started_seg zero_pseg_def)
  show "overflow_number (segs c 1) = overflow_number (segs sample 1)"
    by (simp add: c_def claim_object_def Let_def privatize_object_pages_frame timing_record_write_def segs_upd_seg)
qed


lemma stm_flags_cong: "mem t = mem s \<Longrightarrow> remap t = remap s \<Longrightarrow> stm_flags t g a = stm_flags s g a"
  by (simp add: stm_flags_def vload32_def vread_def [abs_def])

lemma traced_eq:
  "trace_card_object big_ext 1 OBJ1 carded = Ret () traced"
  "traced = stm_flags_and_not 1 OBJ1 GCFLAG_CARDS_SET (carded\<lparr>write_locks :=
     (\<lambda>_. 0)(get_write_lock_idx OBJ1 := 1, get_write_lock_idx OBJ1 + 1 := CARD_MARKED_OLD)\<rparr>)"
proof -
  let ?c = "claim_object big_ext 1 OBJ1 (stm_read 1 OBJ1 sample)"
  have "stm_flags carded 1 OBJ1 = stm_flags (stm_flags_or 1 OBJ1 GCFLAG_CARDS_SET ?c) 1 OBJ1"
    by (rule stm_flags_cong) (simp_all add: carded_eq(2) Let_def)
  moreover have "stm_flags ?c 1 OBJ1 = 1" using claimed(2) [of 1] sample_flags [of 1 OBJ1] by (simp add: stm_flags_def vload32_def)
  ultimately have fl: "stm_flags carded 1 OBJ1 = 9" by (simp add: stm_flags_or_def stm_flags_set gcflags)
  have ovn: "overflow_number (segs carded 1) = overflow_number (segs sample 1)"
    using claimed(6) by (simp add: carded_eq(2) Let_def stm_flags_or_def segs_upd_seg)
  have wl: "write_locks carded = (\<lambda>_. 0)(get_write_lock_idx OBJ1 := 1, get_write_lock_idx OBJ1 + 1 := CARD_MARKED)"
    using claimed(4) by (simp add: carded_eq(2) Let_def stm_flags_or_def)
  have ov: "\<not> IS_OVERFLOW_OBJ carded 1 9"
    unfolding IS_OVERFLOW_OBJ_def ovn by (simp add: sample_seg started_running started_seg gcflags)
  have cards: "[Suc 0..<3] = [1, 2]" by (simp add: numeral_3_eq_3)
  have "trace_card_object big_ext 1 OBJ1 carded = Ret () (stm_flags_and_not 1 OBJ1 GCFLAG_CARDS_SET (carded\<lparr>write_locks :=
     (\<lambda>_. 0)(get_write_lock_idx OBJ1 := 1, get_write_lock_idx OBJ1 + 1 := CARD_MARKED_OLD)\<rparr>))"
    using ov fl wl by (simp add: trace_card_object_def Let_def cards card_consts)
  then show "trace_card_object big_ext 1 OBJ1 carded = Ret () traced" "traced = stm_flags_and_not 1 OBJ1 GCFLAG_CARDS_SET (carded\<lparr>write_locks :=
     (\<lambda>_. 0)(get_write_lock_idx OBJ1 := 1, get_write_lock_idx OBJ1 + 1 := CARD_MARKED_OLD)\<rparr>)"
    unfolding traced_def by simp_all
qed


lemma traced:
  "stm_flags traced 1 OBJ1 = 1" "write_lock_num (segs traced 1) = 1" "\<not> IS_OVERFLOW_OBJ traced 1 1"
  "write_locks traced = (\<lambda>_. 0)(get_write_lock_idx OBJ1 := 1, get_write_lock_idx OBJ1 + 1 := CARD_MARKED_OLD)"
  "mapped_ok traced PAGE_FLAG_START" "is_private_page traced 1 PAGE_FLAG_START"
  "h \<le> 4 \<Longrightarrow> x < OBJ1 \<or> OBJ1 + 4 \<le> x \<Longrightarrow> vread traced h x = vread sample h x"
proof -
  let ?c = "claim_object big_ext 1 OBJ1 (stm_read 1 OBJ1 sample)"
  let ?d = "carded\<lparr>write_locks := (\<lambda>_. 0)(get_write_lock_idx OBJ1 := 1, get_write_lock_idx OBJ1 + 1 := CARD_MARKED_OLD)\<rparr>"
  have "stm_flags ?d 1 OBJ1 = stm_flags (stm_flags_or 1 OBJ1 GCFLAG_CARDS_SET ?c) 1 OBJ1"
    by (rule stm_flags_cong) (simp_all add: carded_eq(2) Let_def)
  moreover have "stm_flags ?c 1 OBJ1 = 1" using claimed(2) [of 1] sample_flags [of 1 OBJ1] by (simp add: stm_flags_def vload32_def)
  ultimately have "stm_flags ?d 1 OBJ1 = 9" by (simp add: stm_flags_or_def stm_flags_set gcflags)
  then show "stm_flags traced 1 OBJ1 = 1" unfolding traced_eq(2) stm_flags_and_not_def stm_flags_set by (simp add: gcflags)
  show "write_lock_num (segs traced 1) = 1" "\<not> IS_OVERFLOW_OBJ traced 1 1"
    using claimed(5,6) by (simp_all add: traced_eq(2) stm_flags_and_not_def carded_eq(2) Let_def stm_flags_or_def segs_upd_seg
      IS_OVERFLOW_OBJ_def sample_seg started_running started_seg gcflags)
  show "write_locks traced = (\<lambda>_. 0)(get_write_lock_idx OBJ1 := 1, get_write_lock_idx OBJ1 + 1 := CARD_MARKED_OLD)"
    by (simp add: traced_eq(2) stm_flags_and_not_def)
  have m: "remap traced = remap ?c" "by_segment traced = by_segment ?c"
    by (simp_all add: traced_eq(2) stm_flags_and_not_def carded_eq(2) Let_def stm_flags_or_def)
  have "old_page ?c PAGE_FLAG_START"
    using claim_form(2) [OF isolated_read [OF big_isolated], of 1 OBJ1 1 OBJ1] by (simp add: old_page_def sample_frame)
  then have "mapped_ok ?c PAGE_FLAG_START" using claimed(1) by (simp add: maps_ok_def)
  then show "mapped_ok traced PAGE_FLAG_START" "is_private_page traced 1 PAGE_FLAG_START"
    using mapped_ok_cong [OF m(2,1)] claimed(3) [of 1] m by (simp_all add: is_private_page_def)
  show "h \<le> 4 \<Longrightarrow> x < OBJ1 \<or> OBJ1 + 4 \<le> x \<Longrightarrow> vread traced h x = vread sample h x"
    using claimed(2) [of h] by (auto simp: traced_eq(2) stm_flags_and_not_def carded_eq(2) Let_def stm_flags_or_def vread_set_stm_flags)
qed


text \<open>The program stores 7 into the last item, and the minor collection at the commit sets the flag.\<close>

definition stored :: "stm \<Rightarrow> stm" where
  "stored s1 = stm_flags_or 1 OBJ1 GCFLAG_WRITE_BARRIER (vfill 1 (OBJ1 + 528) 8 (\<lambda>_. 7) s1)"

theorem mixed_barriers_lose_write_witness:
  "\<exists>s1 t'. stm_write 1 big_ext 1 OBJ1 traced = Ret () s1 \<and>
     synchronize_object_now big_ext 1 OBJ1 False (stored s1) = Ret () t' \<and>
     vread (stored s1) 1 (OBJ1 + 528) = 7 \<and> vread t' 2 (OBJ1 + 528) = 0"
proof -
  have idx: "get_write_lock_idx OBJ1 + 1 \<noteq> get_write_lock_idx OBJ1" by simp
  have nc: "\<not> no_card_marked big_ext traced 1 OBJ1"
    unfolding no_card_marked_def using idx by (simp add: traced(4)) (intro exI [of _ 1], simp)
  have sm: "\<not> seems_all_marked big_ext traced 1 OBJ1" by (simp add: seems_all_marked_def traced(4) card_consts)
  have fl: "has_flag (stm_flags traced 1 OBJ1) GCFLAG_WRITE_BARRIER" "\<not> has_flag (stm_flags traced 1 OBJ1) GCFLAG_CARDS_SET"
    "write_locks traced (get_write_lock_idx OBJ1) = write_lock_num (segs traced 1)" "write_lock_num (segs traced 1) \<noteq> 0"
    "\<not> IS_OVERFLOW_OBJ traced 1 (stm_flags traced 1 OBJ1)"
    using traced(1-4) by (simp_all add: has_flag_def gcflags)
  obtain s1 where s1: "stm_write (Suc 0) big_ext 1 OBJ1 traced = Ret () s1"
    "\<And>t. write_locks t = write_locks s1 \<Longrightarrow> same_shape big_ext 1 OBJ1 traced t \<Longrightarrow> obj_mapped big_ext t 1 OBJ1 \<Longrightarrow>
       \<not> has_flag (stm_flags t 1 OBJ1) GCFLAG_SMALL_UNIFORM \<Longrightarrow> \<not> has_flag (stm_flags t 1 OBJ1) GCFLAG_CARDS_SET \<Longrightarrow>
       \<exists>t'. synchronize_object_now big_ext 1 OBJ1 False t = Ret () t' \<and>
          (\<forall>g \<le> 4. \<forall>x. vread t' g x = (if x \<in> marked_bytes big_ext traced 1 OBJ1 then vread t 1 x else vread t g x))"
    using mixed_barriers_lose_write [OF big_cb_ok _ _ fl(3,4,5,1,2) nc sm, of 0] by auto
  have f: "remap s1 = remap traced" "by_segment s1 = by_segment traced" "stm_flags s1 1 OBJ1 = 0"
    "x < OBJ1 \<or> OBJ1 + 4 \<le> x \<Longrightarrow> vread s1 g x = vread traced g x" for g x
    using full_write_owned [OF fl(3,4,5,1,2), of 0 big_ext] s1(1) traced(1) by (auto simp: gcflags)
  let ?t = "stored s1"
  have "stm_flags (vfill 1 (OBJ1 + 528) 8 (\<lambda>_. 7) s1) 1 OBJ1 = stm_flags s1 1 OBJ1"
    by (simp add: stm_flags_def vload32_def load32_def vread_vfill)
  then have tf: "stm_flags ?t 1 OBJ1 = 1" using f(3) by (simp add: stored_def stm_flags_or_def stm_flags_set gcflags)
  have page: "(OBJ1 + 528) div 4096 = PAGE_FLAG_START" "OBJ1 div 4096 = PAGE_FLAG_START" "(OBJ1 + 543) div 4096 = PAGE_FLAG_START"
    by (simp_all add: OBJ1_def PAGE_FLAG_START_def page_consts)
  have "mapped_ok ?t = mapped_ok traced" by (rule mapped_ok_cong) (simp_all add: stored_def stm_flags_or_def f)
  then have "obj_mapped big_ext ?t 1 OBJ1" using traced(5) page by (simp add: obj_mapped_def add.commute)
  moreover have "write_locks ?t = write_locks s1" by (simp add: stored_def stm_flags_or_def)
  moreover have "same_shape big_ext 1 OBJ1 traced ?t" by (simp add: same_shape_def)
  ultimately obtain t' where t': "synchronize_object_now big_ext 1 OBJ1 False ?t = Ret () t'"
    "vread t' 2 (OBJ1 + 528) = (if OBJ1 + 528 \<in> marked_bytes big_ext traced 1 OBJ1 then vread ?t 1 (OBJ1 + 528) else vread ?t 2 (OBJ1 + 528))"
    using s1(2) [of ?t] tf by (auto simp: has_flag_def gcflags)
  have "remap traced 1 PAGE_FLAG_START \<noteq> remap traced 2 PAGE_FLAG_START"
    using mappedD [OF traced(5), of 1] mappedD [OF traced(5), of 2] traced(6) by (auto split: if_splits)
  then have "vread ?t 1 (OBJ1 + 528) = 7" "vread ?t 2 (OBJ1 + 528) = vread traced 2 (OBJ1 + 528)"
    using page f(1) f(4) [of "OBJ1 + 528" 2] by (simp_all add: stored_def stm_flags_or_def vread_set_stm_flags vread_vfill)
  moreover have "vread traced 2 (OBJ1 + 528) = 0"
    using traced(7) [of 2 "OBJ1 + 528"] by (simp add: sample_vread OBJ1_def OBJ2_def)
  moreover have "OBJ1 + 528 \<notin> marked_bytes big_ext traced 1 OBJ1"
    by (auto simp: marked_bytes_def traced(4) card_bytes_def card_offset_def card_consts get_card_index_to_index_def split: if_splits)
  ultimately show ?thesis using s1(1) t' by (intro exI [of _ s1] exI [of _ t']) simp
qed

end
