(* ===== verification/Fork.thy ===== *)
theory Fork
  imports Threads
begin

text \<open>
  \<open>c7/stm/forksupport.c\<close>: \<open>fork()\<close>. The shared mapping is copied before the fork, and the child
  moves the copy over the mapping, forgets the other threads and aborts their transactions. The
  kernel copies all the rest of the memory, so the static variables need no step of their own.
  \<open>same_thread\<close> says which thread-locals were registered by the thread that calls \<open>fork()\<close>.
  The handlers are modelled for a library that was set up (\<open>stm_object_pages\<close> is not NULL); the
  protection of pages is not modelled.
\<close>

section \<open>Before the fork\<close>

text \<open>The copy of the mapping, and the static variables that remember it.\<close>

record fork_s =
  big_mem :: "nat \<Rightarrow> nat \<Rightarrow> u8"
  big_rm :: "nat \<Rightarrow> nat \<Rightarrow> u8"
  big_segs :: "nat \<Rightarrow> pseg"
  fork_this_tl :: nat
  fork_was_in_transaction :: bool

definition page_is_null :: "(nat \<Rightarrow> u8) \<Rightarrow> nat \<Rightarrow> bool" where
  "page_is_null m p \<longleftrightarrow> list_all (\<lambda>i. m (p * 4096 + i) = 0) [0..<4096]"

definition fork_copy_page :: "nat \<Rightarrow> (nat \<Rightarrow> u8) \<Rightarrow> (nat \<Rightarrow> u8) \<Rightarrow> nat \<Rightarrow> u8" where
  "fork_copy_page p src dst x = (if x div 4096 = p then src x else dst x)"

text \<open>The loop over the ring of thread-locals, from \<open>t\<close> until it comes back to the head.\<close>

fun find_this_tl :: "nat \<Rightarrow> (nat \<Rightarrow> bool) \<Rightarrow> nat \<Rightarrow> nat \<Rightarrow> nat option \<Rightarrow> stm \<Rightarrow> (stm, nat option) res" where
  "find_this_tl 0 same_thread h t this_tl s = Hang s"
| "find_this_tl (Suc n) same_thread h t this_tl s =
     (if same_thread t \<and> this_tl \<noteq> None
      then Fatal ''fork(): found several stm_thread_local_t from the same thread'' s
      else let this_tl = (if same_thread t then Some t else this_tl); next = the (tl_next (tls s t))
           in if next = h then Ret this_tl s else find_this_tl n same_thread h next this_tl s)"

text \<open>Read markers are in the pages before the objects, and nurseries in those behind.\<close>

definition fork_segment_page :: "stm \<Rightarrow> nat \<Rightarrow> nat \<Rightarrow> fork_s \<Rightarrow> fork_s" where
  "fork_segment_page s i p b =
     (if p < FIRST_OBJECT_PAGE
      then (if \<not> page_is_null (rm s i) p
            then b\<lparr>big_rm := (big_rm b)(i := fork_copy_page p (rm s i) (big_rm b i))\<rparr> else b)
      else (if \<not> page_is_null (vread s i) p
            then b\<lparr>big_mem := (big_mem b)(i := fork_copy_page p (vread s i) (big_mem b i))\<rparr> else b))"

definition fork_copy_segment :: "stm \<Rightarrow> nat \<Rightarrow> fork_s \<Rightarrow> fork_s" where
  "fork_copy_segment s i b =
     foreach_f [FIRST_READMARKER div 4096..<END_NURSERY_PAGE] (fork_segment_page s i)
       (b\<lparr>big_segs := (big_segs b)(i := segs s i)\<rparr>)"

definition fork_copy_objects :: "stm \<Rightarrow> nat \<Rightarrow> fork_s \<Rightarrow> fork_s" where
  "fork_copy_objects s p b =
     (let b = b\<lparr>big_mem := (big_mem b)(0 := fork_copy_page p (vread s 0) (big_mem b 0))\<rparr>;
          ps = by_segment s (p - PAGE_FLAG_START)
      in if ps \<noteq> 0
         then foreach_f [0..<NB_SEGMENTS] (\<lambda>j b.
                if ps AND push_bit j 1 \<noteq> 0
                then b\<lparr>big_mem := (big_mem b)(j + 1 := fork_copy_page p (vread s (j + 1)) (big_mem b (j + 1)))\<rparr>
                else b) b
         else b)"

text \<open>The pages of the two ranges of objects, with one page more on the inner side.\<close>

definition fork_pages :: "stm \<Rightarrow> nat list" where
  "fork_pages s =
     (let endpagenum = uninitialized_page_start s div 4096;
          endpagenum = (if endpagenum < NB_PAGES then endpagenum + 1 else endpagenum)
      in [END_NURSERY_PAGE..<endpagenum] @
         (if endpagenum = NB_PAGES then [] else [uninitialized_page_stop s div 4096 - 1..<NB_PAGES]))"

definition fork_empty :: "nat \<Rightarrow> bool \<Rightarrow> fork_s" where
  "fork_empty t was_in_transaction = \<lparr>big_mem = (\<lambda>_ _. 0), big_rm = (\<lambda>_ _. 0), big_segs = (\<lambda>_. zero_pseg),
     fork_this_tl = t, fork_was_in_transaction = was_in_transaction\<rparr>"

definition fork_copy :: "nat \<Rightarrow> bool \<Rightarrow> stm \<Rightarrow> fork_s" where
  "fork_copy t was_in_transaction s =
     foreach_f (fork_pages s) (fork_copy_objects s)
       (foreach_f segments (fork_copy_segment s) (fork_empty t was_in_transaction))"

text \<open>With no thread-local registered the loop goes through a NULL pointer.\<close>

definition forksupport_prepare ::
  "nat \<Rightarrow> ext \<Rightarrow> (nat \<Rightarrow> bool) \<Rightarrow> (nat \<Rightarrow> u8) \<Rightarrow> nat \<Rightarrow> bool \<Rightarrow> stm \<Rightarrow> (stm, fork_s) res" where
  "forksupport_prepare fuel X same_thread stk sp again s =
     (case stm_all_thread_locals s of
        None \<Rightarrow> Fatal ''NULL pointer'' s
      | Some h \<Rightarrow>
          bind_res (find_this_tl fuel same_thread h h None s) (\<lambda>this_tl s.
            case this_tl of
              None \<Rightarrow> Fatal ''fork(): found no stm_thread_local_t from this thread'' s
            | Some t \<Rightarrow>
                let was_in_transaction = stm_in_transaction s t
                in bind_res (if \<not> was_in_transaction
                             then bind_res (stm_start_transaction fuel X t stk sp again s) (\<lambda>(me, _) s. Ret me s)
                             else Ret (associated_segment_num (tls s t)) s) (\<lambda>me s.
                   bind_res (stm_become_inevitable fuel X me t s) (\<lambda>_ s.
                   bind_res (synchronize_all_threads fuel X me STOP_OTHERS_UNTIL_MUTEX_UNLOCK s) (\<lambda>_ s.
                     Ret (fork_copy t was_in_transaction s) s)))))"

section \<open>After the fork\<close>

text \<open>The parent unmaps the copy.\<close>

definition forksupport_parent ::
  "nat \<Rightarrow> ext \<Rightarrow> nat \<Rightarrow> nat \<Rightarrow> (nat \<Rightarrow> u8) \<Rightarrow> (nat \<Rightarrow> u8) \<Rightarrow> nat \<Rightarrow> bool \<Rightarrow> bool \<Rightarrow> fork_s \<Rightarrow> stm \<Rightarrow> (stm, unit) res" where
  "forksupport_parent fuel X buf frame stk stk' sp again lock_free b s =
     (if \<not> fork_was_in_transaction b
      then stm_commit_transaction fuel X (associated_segment_num (tls s (fork_this_tl b))) buf frame stk stk' sp again lock_free s
      else Ret () s)"

text \<open>The copy is a fresh mapping, in which every page of a segment is its own.\<close>

definition fork_move_copy :: "fork_s \<Rightarrow> stm \<Rightarrow> stm" where
  "fork_move_copy b s = s\<lparr>mem := big_mem b, rm := big_rm b, remap := (\<lambda>g _. g),
     segs := (\<lambda>g. if g \<in> {1..NB_SEGMENTS} then big_segs b g else segs s g)\<rparr>"

fun unregister_others :: "nat \<Rightarrow> nat \<Rightarrow> stm \<Rightarrow> (stm, unit) res" where
  "unregister_others 0 t s = Hang s"
| "unregister_others (Suc n) t s =
     (case stm_all_thread_locals s of
        None \<Rightarrow> Fatal ''NULL pointer'' s
      | Some h \<Rightarrow>
          if tl_next (tls s h) = Some h then Ret () s
          else unregister_others n t (stm_unregister_thread_local (if h = t then the (tl_next (tls s h)) else h) s))"

text \<open>
  The loop goes on to a second range, whose end it sets to \<open>NB_PAGES\<close> right before it stops if
  the end is \<open>NB_PAGES\<close>: only the first range is made shared.
\<close>

definition fork_reshare_page :: "nat \<Rightarrow> stm \<Rightarrow> stm" where
  "fork_reshare_page p s =
     foreach_f [0..<NB_SEGMENTS] (\<lambda>j s.
       if by_segment s (p - PAGE_FLAG_START) AND push_bit j 1 = 0 then page_do_reshare (j + 1) p s else s) s"

definition fork_reshare :: "stm \<Rightarrow> stm" where
  "fork_reshare s = foreach_f [END_NURSERY_PAGE..<uninitialized_page_start s div 4096] fork_reshare_page s"

definition fork_abort_thread :: "ext \<Rightarrow> nat \<Rightarrow> nat \<Rightarrow> stm \<Rightarrow> (stm, unit) res" where
  "fork_abort_thread X i t s =
     (let s = upd_tl t (\<lambda>x. x\<lparr>shadowstack := []\<rparr>) s;
          s = upd_seg i (\<lambda>p. p\<lparr>shadowstack_at_start_of_transaction := 0\<rparr>) s;
          s = upd_tl t (\<lambda>x. x\<lparr>rjthread := rewind_jmp_forget (rjthread x)\<rparr>) s
      in bind_res (abort_with_mutex_no_longjmp X i s) (\<lambda>_ s. Ret () s))"

definition fork_abort_segment :: "ext \<Rightarrow> nat \<Rightarrow> nat \<Rightarrow> stm \<Rightarrow> (stm, unit) res" where
  "fork_abort_segment X t i s =
     (case running_thread (segs s i) of
        None \<Rightarrow> Ret () s
      | Some u \<Rightarrow> if u \<noteq> t then fork_abort_thread X i u s else Ret () s)"

definition forksupport_child ::
  "nat \<Rightarrow> ext \<Rightarrow> nat \<Rightarrow> nat \<Rightarrow> (nat \<Rightarrow> u8) \<Rightarrow> (nat \<Rightarrow> u8) \<Rightarrow> nat \<Rightarrow> bool \<Rightarrow> bool \<Rightarrow> fork_s \<Rightarrow> stm \<Rightarrow> (stm, unit) res" where
  "forksupport_child fuel X buf frame stk stk' sp again lock_free b s =
     (let t = fork_this_tl b; s = fork_move_copy b s
      in bind_res (unregister_others fuel t s) (\<lambda>_ s.
         bind_res (foreach_res segments (fork_abort_segment X t) (fork_reshare s)) (\<lambda>_ s.
           if \<not> fork_was_in_transaction b
           then stm_commit_transaction fuel X (associated_segment_num (tls s t)) buf frame stk stk' sp again lock_free s
           else Ret () s)))"

end
