(* ===== verification/Forking.thy ===== *)
theory Forking
  imports Fork Sampleheap
begin

text \<open>
  What \<open>fork()\<close> achieves: the child sees the memory that the parent saw, and only the thread
  that called is left.
\<close>

section \<open>The copy\<close>

lemma page_is_nullD: "page_is_null m p \<Longrightarrow> x div 4096 = p \<Longrightarrow> m x = 0"
proof -
  assume n: "page_is_null m p" and x: "x div 4096 = p"
  have "m (p * 4096 + x mod 4096) = 0" using n by (simp add: page_is_null_def list_all_iff)
  moreover have "p * 4096 + x mod 4096 = x" using x div_mult_mod_eq [of x 4096] by simp
  ultimately show ?thesis by simp
qed

lemma seg_step_same: "big_segs (fork_segment_page s i p b) = big_segs b" "fork_this_tl (fork_segment_page s i p b) = fork_this_tl b"
  "fork_was_in_transaction (fork_segment_page s i p b) = fork_was_in_transaction b"
  "j \<noteq> i \<Longrightarrow> big_rm (fork_segment_page s i p b) j = big_rm b j" "j \<noteq> i \<Longrightarrow> big_mem (fork_segment_page s i p b) j = big_mem b j"
  by (simp_all add: fork_segment_page_def)

lemma seg_steps_same: "big_segs (fold (fork_segment_page s i) ps b) = big_segs b" "fork_this_tl (fold (fork_segment_page s i) ps b) = fork_this_tl b"
  "fork_was_in_transaction (fold (fork_segment_page s i) ps b) = fork_was_in_transaction b"
  "j \<noteq> i \<Longrightarrow> big_rm (fold (fork_segment_page s i) ps b) j = big_rm b j" "j \<noteq> i \<Longrightarrow> big_mem (fold (fork_segment_page s i) ps b) j = big_mem b j"
  by (induction ps arbitrary: b) (simp_all add: seg_step_same)

lemma seg_steps:
  assumes "\<And>x. big_rm b i x = 0 \<or> big_rm b i x = rm s i x" and "\<And>x. big_mem b i x = 0 \<or> big_mem b i x = vread s i x"
  shows "x div 4096 \<in> set ps \<Longrightarrow> x div 4096 < FIRST_OBJECT_PAGE \<Longrightarrow> big_rm (fold (fork_segment_page s i) ps b) i x = rm s i x"
    and "x div 4096 \<in> set ps \<Longrightarrow> FIRST_OBJECT_PAGE \<le> x div 4096 \<Longrightarrow> big_mem (fold (fork_segment_page s i) ps b) i x = vread s i x"
proof -
  have "(\<forall>x. big_rm (fold (fork_segment_page s i) ps b) i x = 0 \<or> big_rm (fold (fork_segment_page s i) ps b) i x = rm s i x) \<and>
    (\<forall>x. big_mem (fold (fork_segment_page s i) ps b) i x = 0 \<or> big_mem (fold (fork_segment_page s i) ps b) i x = vread s i x) \<and>
    (\<forall>x. x div 4096 \<in> set ps \<longrightarrow> x div 4096 < FIRST_OBJECT_PAGE \<longrightarrow> big_rm (fold (fork_segment_page s i) ps b) i x = rm s i x) \<and>
    (\<forall>x. x div 4096 \<in> set ps \<longrightarrow> FIRST_OBJECT_PAGE \<le> x div 4096 \<longrightarrow> big_mem (fold (fork_segment_page s i) ps b) i x = vread s i x)"
  proof (induction ps rule: rev_induct)
    case (snoc p ps)
    define c where "c = fold (fork_segment_page s i) ps b"
    have f: "fold (fork_segment_page s i) (ps @ [p]) b = fork_segment_page s i p c" by (simp add: c_def)
    note IH = snoc.IH [folded c_def]
    have r: "big_rm (fork_segment_page s i p c) i x = (if x div 4096 = p \<and> p < FIRST_OBJECT_PAGE then rm s i x else big_rm c i x)" for x
      using IH page_is_nullD [of "rm s i" p x] by (auto simp: fork_segment_page_def fork_copy_page_def)
    have m: "big_mem (fork_segment_page s i p c) i x = (if x div 4096 = p \<and> FIRST_OBJECT_PAGE \<le> p then vread s i x else big_mem c i x)" for x
      using IH page_is_nullD [of "vread s i" p x] by (auto simp: fork_segment_page_def fork_copy_page_def)
    show ?case unfolding f r m using IH by auto
  qed (use assms in simp)
  then show "x div 4096 \<in> set ps \<Longrightarrow> x div 4096 < FIRST_OBJECT_PAGE \<Longrightarrow> big_rm (fold (fork_segment_page s i) ps b) i x = rm s i x"
    "x div 4096 \<in> set ps \<Longrightarrow> FIRST_OBJECT_PAGE \<le> x div 4096 \<Longrightarrow> big_mem (fold (fork_segment_page s i) ps b) i x = vread s i x" by blast+
qed


lemma fork_copy_segment_eq:
  "fork_copy_segment s i b = fold (fork_segment_page s i) [FIRST_READMARKER div 4096..<END_NURSERY_PAGE] (b\<lparr>big_segs := (big_segs b)(i := segs s i)\<rparr>)"
  by (simp add: fork_copy_segment_def foreach_f_def)

definition copied_segment :: "stm \<Rightarrow> fork_s \<Rightarrow> nat \<Rightarrow> bool" where
  "copied_segment s b i \<longleftrightarrow> big_segs b i = segs s i \<and>
     (\<forall>x. FIRST_READMARKER \<le> x \<and> x < READMARKERS_END \<longrightarrow> big_rm b i x = rm s i x) \<and>
     (\<forall>x. NURSERY_START \<le> x \<and> x < NURSERY_END \<longrightarrow> big_mem b i x = vread s i x)"

lemma fork_segment:
  assumes "big_rm b i = (\<lambda>_. 0)" and "big_mem b i = (\<lambda>_. 0)"
  shows "copied_segment s (fork_copy_segment s i b) i"
    and "j \<noteq> i \<Longrightarrow> big_rm (fork_copy_segment s i b) j = big_rm b j" and "j \<noteq> i \<Longrightarrow> big_mem (fork_copy_segment s i b) j = big_mem b j"
    and "j \<noteq> i \<Longrightarrow> copied_segment s (fork_copy_segment s i b) j = copied_segment s b j"
    and "fork_this_tl (fork_copy_segment s i b) = fork_this_tl b"
    and "fork_was_in_transaction (fork_copy_segment s i b) = fork_was_in_transaction b"
proof -
  let ?b = "b\<lparr>big_segs := (big_segs b)(i := segs s i)\<rparr>" and ?ps = "[FIRST_READMARKER div 4096..<END_NURSERY_PAGE]"
  have z: "\<And>x. big_rm ?b i x = 0 \<or> big_rm ?b i x = rm s i x" "\<And>x. big_mem ?b i x = 0 \<or> big_mem ?b i x = vread s i x"
    using assms by simp_all
  have c: "FIRST_READMARKER = 2500 * 4096" "READMARKERS_END = 40000 * 4096" "NURSERY_START = 40000 * 4096" "NURSERY_END = 41024 * 4096"
    "END_NURSERY_PAGE = 41024" "FIRST_OBJECT_PAGE = 40000"
    by (simp_all add: FIRST_READMARKER_def READMARKERS_END_def page_consts)
  have "x div 4096 \<in> set ?ps \<and> x div 4096 < FIRST_OBJECT_PAGE" if "FIRST_READMARKER \<le> x" "x < READMARKERS_END" for x
    using that unfolding c set_upt atLeastLessThan_iff by auto
  moreover have "x div 4096 \<in> set ?ps \<and> FIRST_OBJECT_PAGE \<le> x div 4096" if "NURSERY_START \<le> x" "x < NURSERY_END" for x
    using that unfolding c set_upt atLeastLessThan_iff by auto
  ultimately show "copied_segment s (fork_copy_segment s i b) i"
    using seg_steps [where b = ?b and i = i and s = s and ps = ?ps, OF z]
    by (simp add: copied_segment_def fork_copy_segment_eq seg_steps_same del: set_upt)
  show "j \<noteq> i \<Longrightarrow> big_rm (fork_copy_segment s i b) j = big_rm b j" "j \<noteq> i \<Longrightarrow> big_mem (fork_copy_segment s i b) j = big_mem b j"
    "j \<noteq> i \<Longrightarrow> copied_segment s (fork_copy_segment s i b) j = copied_segment s b j"
    "fork_this_tl (fork_copy_segment s i b) = fork_this_tl b"
    "fork_was_in_transaction (fork_copy_segment s i b) = fork_was_in_transaction b"
    by (simp_all add: copied_segment_def fork_copy_segment_eq seg_steps_same)
qed

text \<open>Which copies of a page the loop over the objects copies.\<close>

definition kept_copy :: "stm \<Rightarrow> nat \<Rightarrow> nat \<Rightarrow> bool" where
  "kept_copy s p c \<longleftrightarrow> c = 0 \<or> c \<in> {1..4} \<and> is_private_page s c p"

lemma fork_objects_page:
  "big_mem (fork_copy_objects s p b) c x = (if x div 4096 = p \<and> kept_copy s p c then vread s c x else big_mem b c x)"
  "big_rm (fork_copy_objects s p b) = big_rm b" "big_segs (fork_copy_objects s p b) = big_segs b"
  "fork_this_tl (fork_copy_objects s p b) = fork_this_tl b"
  "fork_was_in_transaction (fork_copy_objects s p b) = fork_was_in_transaction b"
proof -
  have four: "[0..<NB_SEGMENTS] = [0, 1, 2, 3]" by (simp add: NB_SEGMENTS_def upt_rec)
  have c4: "c \<in> {1..4} \<longleftrightarrow> c = 1 \<or> c = 2 \<or> c = 3 \<or> c = 4" by auto
  show "big_mem (fork_copy_objects s p b) c x = (if x div 4096 = p \<and> kept_copy s p c then vread s c x else big_mem b c x)"
    unfolding fork_copy_objects_def Let_def four foreach_f_def kept_copy_def c4 is_private_page_def
    by (auto simp: fork_copy_page_def)
  show "big_rm (fork_copy_objects s p b) = big_rm b" "big_segs (fork_copy_objects s p b) = big_segs b"
    "fork_this_tl (fork_copy_objects s p b) = fork_this_tl b"
    "fork_was_in_transaction (fork_copy_objects s p b) = fork_was_in_transaction b"
    unfolding fork_copy_objects_def Let_def four foreach_f_def by simp_all
qed

lemma fork_objects_pages:
  "big_mem (fold (fork_copy_objects s) ps b) c x =
     (if x div 4096 \<in> set ps \<and> kept_copy s (x div 4096) c then vread s c x else big_mem b c x) \<and>
   big_rm (fold (fork_copy_objects s) ps b) = big_rm b \<and> big_segs (fold (fork_copy_objects s) ps b) = big_segs b \<and>
   fork_this_tl (fold (fork_copy_objects s) ps b) = fork_this_tl b \<and>
   fork_was_in_transaction (fold (fork_copy_objects s) ps b) = fork_was_in_transaction b"
  by (induction ps arbitrary: b) (auto simp: fork_objects_page)


lemma fork_copy_segments:
  fixes s :: stm and t :: nat and w :: bool
  defines "b \<equiv> foreach_f segments (fork_copy_segment s) (fork_empty t w)"
  shows "i \<in> {1..4} \<Longrightarrow> copied_segment s b i" and "fork_this_tl b = t" and "fork_was_in_transaction b = w"
proof -
  note seg = fork_segment
  define b0 where "b0 = fork_empty t w"
  define b1 where "b1 = fork_copy_segment s 1 b0"
  define b2 where "b2 = fork_copy_segment s 2 b1"
  define b3 where "b3 = fork_copy_segment s 3 b2"
  have b: "b = fork_copy_segment s 4 b3" by (simp add: b_def segments_eq foreach_f_def b0_def b1_def b2_def b3_def)
  have z0: "big_rm b0 j = (\<lambda>_. 0)" "big_mem b0 j = (\<lambda>_. 0)" for j by (simp_all add: b0_def fork_empty_def)
  note s1 = seg [where b = b0 and i = 1 and s = s, OF z0, folded b1_def]
  have z1: "big_rm b1 2 = (\<lambda>_. 0)" "big_mem b1 2 = (\<lambda>_. 0)" "big_rm b1 3 = (\<lambda>_. 0)" "big_mem b1 3 = (\<lambda>_. 0)"
    "big_rm b1 4 = (\<lambda>_. 0)" "big_mem b1 4 = (\<lambda>_. 0)" using s1(2,3) by (simp_all add: z0)
  note s2 = seg [where b = b1 and i = 2 and s = s, OF z1(1,2), folded b2_def]
  have z2: "big_rm b2 3 = (\<lambda>_. 0)" "big_mem b2 3 = (\<lambda>_. 0)" "big_rm b2 4 = (\<lambda>_. 0)" "big_mem b2 4 = (\<lambda>_. 0)"
    using s2(2,3) by (simp_all add: z1)
  note s3 = seg [where b = b2 and i = 3 and s = s, OF z2(1,2), folded b3_def]
  have z3: "big_rm b3 4 = (\<lambda>_. 0)" "big_mem b3 4 = (\<lambda>_. 0)" using s3(2,3) by (simp_all add: z2)
  note s4 = seg [where b = b3 and i = 4 and s = s, OF z3, folded b]
  have "copied_segment s b 1" "copied_segment s b 2" "copied_segment s b 3" "copied_segment s b 4"
    using s1(1,4) s2(1,4) s3(1,4) s4(1,4) by simp_all
  moreover have "i \<in> {1..4} \<longleftrightarrow> i = 1 \<or> i = 2 \<or> i = 3 \<or> i = 4" by auto
  ultimately show "i \<in> {1..4} \<Longrightarrow> copied_segment s b i" by blast
  show "fork_this_tl b = t" "fork_was_in_transaction b = w" using s1(5,6) s2(5,6) s3(5,6) s4(5,6) by (simp_all add: b0_def fork_empty_def)
qed

text \<open>The pages behind the nurseries: those of the objects, and the ones that the kernel never saw.\<close>

lemma fork_pages_range:
  assumes "(END_NURSERY_PAGE + 1) * 4096 \<le> uninitialized_page_stop s"
  shows "p \<in> set (fork_pages s) \<Longrightarrow> END_NURSERY_PAGE \<le> p" and "old_page s p \<Longrightarrow> p \<in> set (fork_pages s)"
proof -
  have "(END_NURSERY_PAGE + 1) * 4096 div 4096 \<le> uninitialized_page_stop s div 4096" using assms by (rule div_le_mono)
  then have "END_NURSERY_PAGE \<le> uninitialized_page_stop s div 4096 - 1" by simp
  then show "p \<in> set (fork_pages s) \<Longrightarrow> END_NURSERY_PAGE \<le> p"
    by (auto simp: fork_pages_def Let_def simp del: upt_Suc split: if_splits)
  show "old_page s p \<Longrightarrow> p \<in> set (fork_pages s)"
    by (auto simp: fork_pages_def Let_def old_page_def PAGE_FLAG_START_def simp del: upt_Suc)
qed

lemma fork_copied:
  assumes "(END_NURSERY_PAGE + 1) * 4096 \<le> uninitialized_page_stop s"
  shows "i \<in> {1..4} \<Longrightarrow> copied_segment s (fork_copy t w s) i"
    and "old_page s (x div 4096) \<Longrightarrow> kept_copy s (x div 4096) c \<Longrightarrow> big_mem (fork_copy t w s) c x = vread s c x"
    and "fork_this_tl (fork_copy t w s) = t" and "fork_was_in_transaction (fork_copy t w s) = w"
proof -
  define b where "b = foreach_f segments (fork_copy_segment s) (fork_empty t w)"
  have f: "fork_copy t w s = fold (fork_copy_objects s) (fork_pages s) b"
    by (simp add: fork_copy_def b_def foreach_f_def)
  note seg = fork_copy_segments [where s = s and t = t and w = w, folded b_def]
  note obj = fork_objects_pages [where s = s and ps = "fork_pages s" and b = b]
  show "fork_this_tl (fork_copy t w s) = t" "fork_was_in_transaction (fork_copy t w s) = w" using seg(2,3) obj by (simp_all add: f)
  show "old_page s (x div 4096) \<Longrightarrow> kept_copy s (x div 4096) c \<Longrightarrow> big_mem (fork_copy t w s) c x = vread s c x"
    using obj fork_pages_range(2) [OF assms] by (simp add: f)
  show "copied_segment s (fork_copy t w s) i" if i: "i \<in> {1..4}"
  proof -
    have "big_mem (fold (fork_copy_objects s) (fork_pages s) b) i x = vread s i x" if "NURSERY_START \<le> x" "x < NURSERY_END" for x
    proof -
      have "x div 4096 < END_NURSERY_PAGE" using that(2) by (simp add: page_consts)
      then have "x div 4096 \<notin> set (fork_pages s)" using fork_pages_range(1) [OF assms] by fastforce
      then show ?thesis using obj [of i x] seg(1) [OF i] that by (simp add: copied_segment_def)
    qed
    then show ?thesis using seg(1) [OF i] obj unfolding f copied_segment_def by simp
  qed
qed


section \<open>The memory of the child\<close>

lemma fork_reshare_page_eq:
  "fork_reshare_page p u = u\<lparr>remap := (\<lambda>g q. if q = p \<and> g \<in> {1..4} \<and> \<not> is_private_page u g p then 0 else remap u g q)\<rparr>"
proof -
  have four: "[0..<NB_SEGMENTS] = [0, 1, 2, 3]" by (simp add: NB_SEGMENTS_def upt_rec)
  have c4: "c \<in> {1..4} \<longleftrightarrow> c = 1 \<or> c = 2 \<or> c = 3 \<or> c = 4" for c :: nat by auto
  have one: "p \<le> q \<and> q < Suc p \<longleftrightarrow> q = p" for q by auto
  show ?thesis
    unfolding fork_reshare_page_def four foreach_f_def c4 is_private_page_def
    by (rule stm.equality) (auto simp: page_do_reshare_def d_remap_file_pages_def fun_eq_iff one)
qed

lemma fork_reshare_eq:
  "fork_reshare u = u\<lparr>remap := (\<lambda>g q. if old_page u q \<and> g \<in> {1..4} \<and> \<not> is_private_page u g q then 0 else remap u g q)\<rparr>"
proof -
  have "fold fork_reshare_page ps u = u\<lparr>remap := (\<lambda>g q. if q \<in> set ps \<and> g \<in> {1..4} \<and> \<not> is_private_page u g q then 0 else remap u g q)\<rparr>" for ps
  proof (induction ps rule: rev_induct)
    case (snoc p ps)
    have "is_private_page (u\<lparr>remap := r\<rparr>) = is_private_page u" for r by (simp add: is_private_page_def fun_eq_iff)
    then show ?case using snoc by (auto simp: fork_reshare_page_eq fun_eq_iff intro!: stm.equality)
  qed (simp add: stm.equality)
  then show ?thesis by (simp add: fork_reshare_def foreach_f_def old_page_def PAGE_FLAG_START_def)
qed

text \<open>\<open>u\<close> is the child with the copy moved over the mapping, \<open>s\<close> the parent before the fork.\<close>

definition moved_over :: "nat \<Rightarrow> bool \<Rightarrow> stm \<Rightarrow> stm \<Rightarrow> bool" where
  "moved_over t w s u \<longleftrightarrow> mem u = big_mem (fork_copy t w s) \<and> rm u = big_rm (fork_copy t w s) \<and> remap u = (\<lambda>g _. g) \<and>
     by_segment u = by_segment s \<and> uninitialized_page_start u = uninitialized_page_start s \<and>
     segs u = (\<lambda>g. if g \<in> {1..NB_SEGMENTS} then big_segs (fork_copy t w s) g else segs s g)"

lemma moved_over_copy: "moved_over t w s (fork_move_copy (fork_copy t w s) s)"
  by (simp add: moved_over_def fork_move_copy_def)

lemma child_memory:
  assumes m: "moved_over t w s u" and ok: "maps_ok s" and stop: "(END_NURSERY_PAGE + 1) * 4096 \<le> uninitialized_page_stop s"
  defines "c \<equiv> fork_reshare u"
  shows "old_page s (x div 4096) \<Longrightarrow> g \<le> 4 \<Longrightarrow> vread c g x = vread s g x"
    and "g \<in> {1..4} \<Longrightarrow> NURSERY_START \<le> x \<Longrightarrow> x < NURSERY_END \<Longrightarrow> vread c g x = vread s g x"
    and "g \<in> {1..4} \<Longrightarrow> FIRST_READMARKER \<le> x \<Longrightarrow> x < READMARKERS_END \<Longrightarrow> rm c g x = rm s g x"
    and "segs c = segs s" and "maps_ok c" and "by_segment c = by_segment s"
    and "uninitialized_page_start c = uninitialized_page_start s"
proof -
  note cp = fork_copied [OF stop, where t = t and w = w]
  have pr: "is_private_page u = is_private_page s" and op: "old_page u = old_page s"
    using m by (simp_all add: moved_over_def is_private_page_def old_page_def fun_eq_iff)
  have rem: "remap c g q = (if old_page s q \<and> g \<in> {1..4} \<and> \<not> is_private_page s g q then 0 else g)" for g q
    using m by (simp add: c_def fork_reshare_eq pr op moved_over_def)
  have mem: "mem c = big_mem (fork_copy t w s)" using m by (simp add: c_def fork_reshare_eq moved_over_def)
  show bs: "by_segment c = by_segment s" "uninitialized_page_start c = uninitialized_page_start s"
    using m by (simp_all add: c_def fork_reshare_eq moved_over_def)
  show "vread c g x = vread s g x" if o: "old_page s (x div 4096)" and g: "g \<le> 4"
  proof -
    have mo: "mapped_ok s (x div 4096)" using ok o by (simp add: maps_ok_def)
    show ?thesis
    proof (cases "g \<in> {1..4} \<and> \<not> is_private_page s g (x div 4096)")
      case True
      have "vread c g x = big_mem (fork_copy t w s) 0 x" using True o by (simp add: vread_def rem mem)
      also have "\<dots> = vread s 0 x" using cp(2) [OF o, of 0] by (simp add: kept_copy_def)
      also have "\<dots> = vread s g x" using mo True by (simp add: vread_def mapped_ok_def)
      finally show ?thesis .
    next
      case False
      then have "vread c g x = big_mem (fork_copy t w s) g x" using o by (auto simp: vread_def rem mem)
      also have "\<dots> = vread s g x" using cp(2) [OF o, of g] False g by (cases "g = 0") (simp_all add: kept_copy_def)
      finally show ?thesis .
    qed
  qed
  show "vread c g x = vread s g x" if g: "g \<in> {1..4}" and x: "NURSERY_START \<le> x" "x < NURSERY_END"
  proof -
    have "\<not> old_page s (x div 4096)" using x(2) by (simp add: old_page_def page_consts)
    then have "vread c g x = big_mem (fork_copy t w s) g x" by (simp add: vread_def rem mem)
    then show ?thesis using cp(1) [OF g] x by (simp add: copied_segment_def)
  qed
  show "rm c g x = rm s g x" if "g \<in> {1..4}" "FIRST_READMARKER \<le> x" "x < READMARKERS_END"
    using cp(1) [OF that(1)] that m by (simp add: c_def fork_reshare_eq moved_over_def copied_segment_def)
  show "segs c = segs s"
    using cp(1) m by (auto simp: c_def fork_reshare_eq moved_over_def copied_segment_def fun_eq_iff NB_SEGMENTS_def)
  have "is_private_page c = is_private_page s" "old_page c = old_page s"
    using bs by (simp_all add: is_private_page_def old_page_def fun_eq_iff)
  then show "maps_ok c" by (auto simp: maps_ok_def mapped_ok_def remap_dom_def rem)
qed


section \<open>Only one thread is left\<close>

text \<open>What unregistering a thread does not look at.\<close>

definition same_but_ring :: "nat \<Rightarrow> stm \<Rightarrow> stm \<Rightarrow> bool" where
  "same_but_ring t s s' \<longleftrightarrow> s' = s\<lparr>tls := tls s', stm_all_thread_locals := stm_all_thread_locals s'\<rparr> \<and>
     (\<forall>v. tls s' v = (tls s v)\<lparr>shadowstack := shadowstack (tls s' v), tl_prev := tl_prev (tls s' v), tl_next := tl_next (tls s' v)\<rparr>) \<and>
     shadowstack (tls s' t) = shadowstack (tls s t)"

lemma same_but_ring_refl: "same_but_ring t s s"
  by (simp add: same_but_ring_def)

lemma same_but_ring_trans: "same_but_ring t s u \<Longrightarrow> same_but_ring t u v \<Longrightarrow> same_but_ring t s v"
proof -
  assume a: "same_but_ring t s u" "same_but_ring t u v"
  have "v = s\<lparr>tls := tls v, stm_all_thread_locals := stm_all_thread_locals v\<rparr>"
    using a unfolding same_but_ring_def by (cases s; cases u; cases v) simp
  moreover have "tls v w = (tls s w)\<lparr>shadowstack := shadowstack (tls v w), tl_prev := tl_prev (tls v w), tl_next := tl_next (tls v w)\<rparr>" for w
  proof -
    have "tls u w = (tls s w)\<lparr>shadowstack := shadowstack (tls u w), tl_prev := tl_prev (tls u w), tl_next := tl_next (tls u w)\<rparr>"
      "tls v w = (tls u w)\<lparr>shadowstack := shadowstack (tls v w), tl_prev := tl_prev (tls v w), tl_next := tl_next (tls v w)\<rparr>"
      using a unfolding same_but_ring_def by blast+
    then show ?thesis by (cases "tls s w"; cases "tls u w"; cases "tls v w") simp
  qed
  ultimately show ?thesis using a unfolding same_but_ring_def by simp
qed

lemma unregister_same: "x \<noteq> t \<Longrightarrow> same_but_ring t s (stm_unregister_thread_local x s)"
  unfolding same_but_ring_def stm_unregister_thread_local_def done_shadow_stack_def Let_def upd_tl_def by auto

lemma unregister_others_ok:
  "ring s ts \<Longrightarrow> t \<in> set ts \<Longrightarrow> length ts \<le> n \<Longrightarrow>
   \<exists>s'. unregister_others n t s = Ret () s' \<and> ring s' [t] \<and> same_but_ring t s s'"
proof (induction n arbitrary: s ts)
  case (Suc n)
  obtain h us where ts: "ts = h # us" using Suc.prems(2) by (cases ts) auto
  have h: "stm_all_thread_locals s = Some h" "links s (h # us @ [h])" "distinct (h # us)"
    using Suc.prems(1) by (simp_all add: ring_def ts)
  have nx: "tl_next (tls s h) = Some (hd (us @ [h]))" by (rule links_ends(1) [OF h(2)])
  show ?case
  proof (cases us)
    case Nil
    then show ?thesis using Suc.prems ts h(1) nx same_but_ring_refl by simp
  next
    case (Cons y ys)
    define x where "x = (if h = t then y else h)"
    have x: "x \<in> set ts" "x \<noteq> t" using h(3) Cons ts by (auto simp: x_def)
    let ?u = "stm_unregister_thread_local x s"
    have "ring ?u (remove1 x ts)" by (rule unregister_ring(1) [OF Suc.prems(1) x(1)])
    moreover have "t \<in> set (remove1 x ts)" using Suc.prems(2) x(2) by (simp add: in_set_remove1)
    moreover have "length (remove1 x ts) \<le> n" using Suc.prems(3) x(1) by (simp add: length_remove1)
    ultimately obtain s' where s': "unregister_others n t ?u = Ret () s'" "ring s' [t]" "same_but_ring t ?u s'"
      using Suc.IH by blast
    have "y \<noteq> h" using h(3) Cons by auto
    then have "unregister_others (Suc n) t s = Ret () s'" using h(1) nx Cons s'(1) by (cases "h = t") (simp_all add: x_def)
    then show ?thesis using s'(2,3) same_but_ring_trans [OF unregister_same [OF x(2)]] by blast
  qed
qed (auto simp: ring_def)

lemma mem_only_head: "mem_only s s' \<Longrightarrow> stm_all_thread_locals s' = stm_all_thread_locals s"
  unfolding mem_only_def by (cases s; cases s') simp

lemma abort_data_ring:
  assumes "abort_data_structures_from_segment_num X me g s = Ret () s'"
  shows "stm_all_thread_locals s' = stm_all_thread_locals s" and "tl_next (tls s' v) = tl_next (tls s v)"
    and "tl_prev (tls s' v) = tl_prev (tls s v)" and "running_thread (segs s g) \<noteq> Some v \<Longrightarrow> tls s' v = tls s v"
proof -
  have ts: "transaction_state (segs s g) = TS_REGULAR" by (rule abort_data_frame(6) [OF assms])
  define s1 where "s1 = snd (throw_away_nursery g (abort_finalizers me g s))"
  define n where "n = fst (throw_away_nursery g (abort_finalizers me g s))"
  define s2 where "s2 = (case large_overflow_objects (segs s1 g) of None \<Rightarrow> s1
               | Some lst \<Rightarrow> fold (reset_overflow_cards X g) (rev lst) s1)"
  define f where "f = fold (reset_modified_object X me g) (rev (modified_old_objects (segs s2 g))) s2"
  have s': "s' = upd_seg g (\<lambda>p. p\<lparr>objects_pointing_to_nursery := None, old_objects_with_cards := [],
                     large_overflow_objects := None, young_weakrefs := []\<rparr>)
        (restore_thread g n (upd_seg g (\<lambda>p. p\<lparr>modified_old_objects := [], modified_old_objects_markers := []\<rparr>) f))"
    using assms unfolding abort_data_unfold [OF ts] Let_def s1_def n_def s2_def f_def
    by (simp add: reset_modified_from_other_segments_def foreach_r_def split: if_splits)
  note st1 = abort_step1 [where me = me and g = g and s = s, folded s1_def]
  have m: "mem_only s1 f"
    unfolding f_def
    by (rule mem_only_trans [OF abort_step2(1) [where X = X and g = g and ?s1.0 = s1, folded s2_def] mem_only_fold])
      (rule mem_only_reset_modified)
  have "stm_all_thread_locals s1 = stm_all_thread_locals s"
  proof -
    obtain l e where f: "abort_finalizers me g s = (upd_seg g (\<lambda>p. p\<lparr>finalizers := None, young_objects_with_light_finalizers := [],
        old_objects_with_light_finalizers := l\<rparr>) s)\<lparr>events := e\<rparr>" using abort_finalizers_form by blast
    let ?s = "abort_finalizers me g s"
    obtain rr ll where t: "s1 = (upd_seg g (\<lambda>p. p\<lparr>nursery_current := NURSERY_START, young_outside_nursery := tree_clear (young_outside_nursery p),
        nursery_objects_shadows := tree_clear (nursery_objects_shadows p)\<rparr>)
       (memset0 g NURSERY_START (nursery_used ?s g) ?s))\<lparr>rm := (rm ?s)(g := rr), lm := ll\<rparr>"
      unfolding s1_def using throw_away_form by blast
    show ?thesis by (simp add: t f memset0_def vfill_def)
  qed
  then show "stm_all_thread_locals s' = stm_all_thread_locals s"
    using mem_only_head [OF m] by (simp add: s' restore_thread_def upd_tl_def split: option.split)
  have "tls f = tls s" "running_thread (segs f g) = running_thread (segs s g)"
    using mem_only_tls [OF m] mem_only_segs [OF m] st1(4,8) by simp_all
  then show "tl_next (tls s' v) = tl_next (tls s v)" "tl_prev (tls s' v) = tl_prev (tls s v)"
    "running_thread (segs s g) \<noteq> Some v \<Longrightarrow> tls s' v = tls s v"
    by (auto simp: s' restore_thread_def upd_tl_def segs_upd_seg split: option.split)
qed


text \<open>What an interrupted segment looks like, and what the abort of segment \<open>i\<close> leaves alone.\<close>

definition seg_idle :: "pseg \<Rightarrow> bool" where
  "seg_idle p \<longleftrightarrow> running_thread p = None \<and> transaction_state p = TS_NONE \<and> safe_point p = SP_NO_TRANSACTION \<and>
     modified_old_objects p = [] \<and> objects_pointing_to_nursery p = None"

definition apart_from :: "nat \<Rightarrow> nat set \<Rightarrow> stm \<Rightarrow> stm \<Rightarrow> bool" where
  "apart_from t is s s' \<longleftrightarrow> stm_all_thread_locals s' = stm_all_thread_locals s \<and>
     (\<forall>v. tl_next (tls s' v) = tl_next (tls s v) \<and> tl_prev (tls s' v) = tl_prev (tls s v)) \<and> tls s' t = tls s t \<and>
     (\<forall>h. h \<notin> is \<longrightarrow> segs s' h = segs s h \<and> rm s' h = rm s h)"

lemma apart_from_trans: "apart_from t is s u \<Longrightarrow> apart_from t js u v \<Longrightarrow> apart_from t (is \<union> js) s v"
  by (simp add: apart_from_def)

lemma invoke_parts:
  fixes m k :: nat and z :: stm
  defines "u \<equiv> invoke_and_clear_user_callbacks m k z"
  shows "rm u = rm z" and "stm_all_thread_locals u = stm_all_thread_locals z" and "tls u = tls z"
    and "h \<noteq> m \<Longrightarrow> segs u h = segs z h" and "running_thread (segs u m) = running_thread (segs z m)"
    and "modified_old_objects (segs u m) = modified_old_objects (segs z m)"
  by (simp_all add: u_def invoke_and_clear_user_callbacks_def Let_def foreach_f_def emit_callbacks upd_seg_def)

lemma fork_abort_ok:
  assumes u: "running_thread (segs s i) = Some u" "u \<noteq> t" and ts: "transaction_state (segs s i) = TS_REGULAR"
  shows "\<exists>s'. fork_abort_segment X t i s = Ret () s' \<and> apart_from t {i} s s' \<and> seg_idle (segs s' i)"
proof -
  define s1 where "s1 = upd_tl u (\<lambda>x. x\<lparr>rjthread := rewind_jmp_forget (rjthread x)\<rparr>)
    (upd_seg i (\<lambda>p. p\<lparr>shadowstack_at_start_of_transaction := 0\<rparr>) (upd_tl u (\<lambda>x. x\<lparr>shadowstack := []\<rparr>) s))"
  have s1: "segs s1 h = (if h = i then (segs s i)\<lparr>shadowstack_at_start_of_transaction := 0\<rparr> else segs s h)"
    "tls s1 t = tls s t" "tl_next (tls s1 v) = tl_next (tls s v)" "tl_prev (tls s1 v) = tl_prev (tls s v)"
    "stm_all_thread_locals s1 = stm_all_thread_locals s" "rm s1 = rm s" for h v
    using u(2) by (simp_all add: s1_def upd_tl_def upd_seg_def)
  have "transaction_state (segs s1 i) = TS_REGULAR" using ts s1 by simp
  moreover have "length (restored_shadowstack (tls s1 v)) = shadowstack_at_start_of_transaction (segs s1 i)"
    if "running_thread (segs s1 i) = Some v" for v
  proof -
    have "v = u" using that u(1) s1(1) by simp
    then show ?thesis by (simp add: s1_def upd_tl_def upd_seg_def restored_shadowstack_def)
  qed
  ultimately obtain s2 where s2: "abort_data_structures_from_segment_num X i i s1 = Ret () s2"
    using abort_data_returns by blast
  note fr = abort_data_frame [OF s2] and rg = abort_data_ring [OF s2]
  have run: "running_thread (segs s2 i) = Some u" using fr(7) s1(1) u(1) by simp
  define s3 where "s3 = clear_mem_on_abort (Some u) s2"
  define s4 where "s4 = invoke_and_clear_user_callbacks i 1 s3"
  define s5 where "s5 = (if is_abort (nursery_end (segs s4 i))
      then upd_seg i (\<lambda>p. p\<lparr>nursery_end := if pause_signalled s4 then NSE_SIGPAUSE else NURSERY_END\<rparr>) s4 else s4)"
  define s6 where "s6 = cond_broadcast C_ABORTED (finish_transaction X i STM_TRANSACTION_ABORT s5)"
  have "abort_with_mutex_no_longjmp X i s1 = Ret (Some u) s6"
    unfolding abort_with_mutex_no_longjmp_def s2 bind_res.simps run Let_def
      s3_def [symmetric] s4_def [symmetric] s5_def [symmetric] s6_def ..
  then have r: "fork_abort_segment X t i s = Ret () s6"
    using u by (simp add: fork_abort_segment_def fork_abort_thread_def Let_def s1_def [symmetric])
  have s3: "segs s3 = segs s2" "rm s3 = rm s2" "stm_all_thread_locals s3 = stm_all_thread_locals s2" "tls s3 t = tls s2 t"
    "tl_next (tls s3 v) = tl_next (tls s2 v)" "tl_prev (tls s3 v) = tl_prev (tls s2 v)" for v
    using u(2) by (simp_all add: s3_def clear_mem_on_abort_def upd_tl_def)
  have s4: "rm s4 = rm s3" "stm_all_thread_locals s4 = stm_all_thread_locals s3" "tls s4 = tls s3"
    "h \<noteq> i \<Longrightarrow> segs s4 h = segs s3 h" "running_thread (segs s4 i) = running_thread (segs s3 i)"
    "modified_old_objects (segs s4 i) = modified_old_objects (segs s3 i)" for h
    by (simp_all only: s4_def invoke_parts not_False_eq_True)
  have s5: "rm s5 = rm s4" "stm_all_thread_locals s5 = stm_all_thread_locals s4" "tls s5 = tls s4"
    "h \<noteq> i \<Longrightarrow> segs s5 h = segs s4 h" "running_thread (segs s5 i) = running_thread (segs s4 i)"
    "modified_old_objects (segs s5 i) = modified_old_objects (segs s4 i)" for h
    by (simp_all add: s5_def)
  have run5: "running_thread (segs s5 i) = Some u" using s5(5) s4(5) s3(1) run by simp
  have s6: "rm s6 = rm s5" "stm_all_thread_locals s6 = stm_all_thread_locals s5" "tls s6 = tls s5"
    "h \<noteq> i \<Longrightarrow> segs s6 h = segs s5 h" "seg_idle (segs s6 i) \<longleftrightarrow> modified_old_objects (segs s5 i) = []" for h
    using run5 by (simp_all add: s6_def finish_transaction_def Let_def release_thread_segment_def cond_broadcast_def
      cond_signal_def timing_event_def emit_def segs_upd_seg upd_seg_def seg_idle_def)
  have "apart_from t {i} s s6"
    using s6(1-4) s5(1-4) s4(1-4) s3 rg(1-3) rg(4) [of t] fr(1,2) s1 u by (simp add: apart_from_def)
  moreover have "seg_idle (segs s6 i)" using s6(5) s5(6) s4(6) s3(1) fr(8) by simp
  ultimately show ?thesis using r by blast
qed


text \<open>The loop over the segments: those of other threads are interrupted, the others keep their state.\<close>

definition others_regular :: "nat \<Rightarrow> stm \<Rightarrow> nat \<Rightarrow> bool" where
  "others_regular t s g \<longleftrightarrow> (\<forall>u. running_thread (segs s g) = Some u \<and> u \<noteq> t \<longrightarrow> transaction_state (segs s g) = TS_REGULAR)"

definition interrupted :: "nat \<Rightarrow> stm \<Rightarrow> stm \<Rightarrow> nat \<Rightarrow> bool" where
  "interrupted t s s' g \<longleftrightarrow>
     (if running_thread (segs s g) = None \<or> running_thread (segs s g) = Some t then segs s' g = segs s g else seg_idle (segs s' g))"

lemma fork_abort_segment_ok:
  assumes "others_regular t s i"
  shows "\<exists>s'. fork_abort_segment X t i s = Ret () s' \<and> apart_from t {i} s s' \<and> interrupted t s s' i"
proof (cases "running_thread (segs s i) = None \<or> running_thread (segs s i) = Some t")
  case True
  then have "fork_abort_segment X t i s = Ret () s" by (auto simp: fork_abort_segment_def)
  then show ?thesis using True by (auto simp: apart_from_def interrupted_def)
next
  case False
  then obtain u where u: "running_thread (segs s i) = Some u" "u \<noteq> t" by auto
  then have "transaction_state (segs s i) = TS_REGULAR" using assms by (simp add: others_regular_def)
  then show ?thesis using fork_abort_ok [OF u] u by (simp add: interrupted_def)
qed

lemma fork_aborts_ok:
  "distinct is \<Longrightarrow> (\<And>i. i \<in> set is \<Longrightarrow> others_regular t s i) \<Longrightarrow>
   \<exists>s'. foreach_res is (fork_abort_segment X t) s = Ret () s' \<and> apart_from t (set is) s s' \<and>
        (\<forall>i \<in> set is. interrupted t s s' i)"
proof (induction "is" arbitrary: s)
  case Nil
  then show ?case by (simp add: apart_from_def)
next
  case (Cons i "is")
  obtain u where u: "fork_abort_segment X t i s = Ret () u" "apart_from t {i} s u" "interrupted t s u i"
    using fork_abort_segment_ok Cons.prems(2) by (metis list.set_intros(1))
  have eq: "segs u j = segs s j" if "j \<in> set is" for j
    using that u(2) Cons.prems(1) unfolding apart_from_def by auto
  have "others_regular t u j" if "j \<in> set is" for j
    using that Cons.prems(2) by (simp add: others_regular_def eq)
  then obtain s' where s': "foreach_res is (fork_abort_segment X t) u = Ret () s'" "apart_from t (set is) u s'"
    "\<forall>j \<in> set is. interrupted t u s' j"
    using Cons.IH [of u] Cons.prems(1) by auto
  have "segs s' i = segs u i" using s'(2) Cons.prems(1) by (simp add: apart_from_def)
  then have "interrupted t s s' i" using u(3) by (simp add: interrupted_def)
  moreover have "\<forall>j \<in> set is. interrupted t s s' j" using s'(3) eq by (simp add: interrupted_def)
  ultimately show ?case using u(1) s'(1) apart_from_trans [OF u(2) s'(2)] by auto
qed

section \<open>The child as a whole\<close>

lemma ring_cong:
  "stm_all_thread_locals s' = stm_all_thread_locals s \<Longrightarrow>
   (\<And>v. tl_next (tls s' v) = tl_next (tls s v) \<and> tl_prev (tls s' v) = tl_prev (tls s v)) \<Longrightarrow> ring s' ts = ring s ts"
proof -
  assume h: "stm_all_thread_locals s' = stm_all_thread_locals s"
    and l: "\<And>v. tl_next (tls s' v) = tl_next (tls s v) \<and> tl_prev (tls s' v) = tl_prev (tls s v)"
  have "links s' vs = links s vs" for vs by (induction vs rule: induct_list012) (simp_all add: l)
  then show "ring s' ts = ring s ts" by (simp add: ring_def h split: list.split)
qed


text \<open>
  C24: A fork leaves one running thread and the memory of the parent. When the mapping is well formed
  and every other running transaction is regular, the child handler returns for a copy taken inside
  a transaction. Before it interrupts the other segments, all segments see the old
  pages, the nurseries and the read markers of the parent, the pages that no segment has
  privatized are shared again, and no segment has changed. Afterwards the calling
  thread is alone in the ring, with its shadow stack and its segment as they were, the segments of the
  other threads run nothing, and the idle segments are untouched.
\<close>

theorem fork_child:
  assumes "maps_ok s" and "(END_NURSERY_PAGE + 1) * 4096 \<le> uninitialized_page_stop s"
    and "ring s ts" and "t \<in> set ts" and "length ts \<le> fuel"
    and "\<forall>g \<in> {1..4}. \<forall>u. running_thread (segs s g) = Some u \<and> u \<noteq> t \<longrightarrow> transaction_state (segs s g) = TS_REGULAR"
  shows "\<exists>c s'. forksupport_child fuel X buf frame stk stk' sp again lock_free (fork_copy t True s) s = Ret () s' \<and>
    foreach_res segments (fork_abort_segment X t) c = Ret () s' \<and>
    (\<forall>g x. g \<le> 4 \<longrightarrow> old_page s (x div 4096) \<longrightarrow> vread c g x = vread s g x) \<and>
    (\<forall>g \<in> {1..4}. \<forall>x. NURSERY_START \<le> x \<longrightarrow> x < NURSERY_END \<longrightarrow> vread c g x = vread s g x) \<and>
    (\<forall>g \<in> {1..4}. \<forall>x. FIRST_READMARKER \<le> x \<longrightarrow> x < READMARKERS_END \<longrightarrow> rm c g x = rm s g x) \<and>
    maps_ok c \<and> segs c = segs s \<and>
    ring s' [t] \<and> shadowstack (tls s' t) = shadowstack (tls s t) \<and>
    (\<forall>g \<in> {1..4}. if running_thread (segs s g) = None \<or> running_thread (segs s g) = Some t
       then segs s' g = segs s g
       else running_thread (segs s' g) = None \<and> transaction_state (segs s' g) = TS_NONE \<and> modified_old_objects (segs s' g) = [])"
proof -
  define b where "b = fork_copy t True s"
  note cp = fork_copied(3,4) [OF assms(2), where t = t and w = True, folded b_def]
  let ?u = "fork_move_copy b s"
  have "ring ?u ts" using assms(3) ring_cong [of ?u s ts] by (simp add: fork_move_copy_def)
  then obtain v where v: "unregister_others fuel t ?u = Ret () v" "ring v [t]" "same_but_ring t ?u v"
    using unregister_others_ok assms(4,5) by blast
  have mv: "moved_over t True s v"
    using v(3) moved_over_copy [of t True s, folded b_def] unfolding same_but_ring_def moved_over_def by (cases v) simp
  define c where "c = fork_reshare v"
  note mem = child_memory [OF mv assms(1,2), folded c_def]
  have tl: "stm_all_thread_locals c = stm_all_thread_locals v" "tls c = tls v" by (simp_all add: c_def fork_reshare_eq)
  have reg: "others_regular t c g" if "g \<in> set segments" for g
    using that assms(6) mem(4) by (auto simp: others_regular_def segments_eq)
  have "distinct segments" by (simp add: segments_eq)
  then obtain s' where s': "foreach_res segments (fork_abort_segment X t) c = Ret () s'" "apart_from t (set segments) c s'"
    "\<forall>g \<in> set segments. interrupted t c s' g"
    using fork_aborts_ok reg by blast
  have r: "forksupport_child fuel X buf frame stk stk' sp again lock_free b s = Ret () s'"
    using v(1) s'(1) cp by (simp add: forksupport_child_def Let_def c_def)
  have ap: "stm_all_thread_locals s' = stm_all_thread_locals c" "tl_next (tls s' w) = tl_next (tls c w)"
    "tl_prev (tls s' w) = tl_prev (tls c w)" "tls s' t = tls c t" for w
    using s'(2) by (simp_all add: apart_from_def)
  have "ring s' [t]" using v(2) ring_cong [of s' v] ap tl by simp
  moreover have "shadowstack (tls s' t) = shadowstack (tls s t)"
    using ap(4) tl(2) v(3) by (simp add: same_but_ring_def fork_move_copy_def)
  moreover have "if running_thread (segs s g) = None \<or> running_thread (segs s g) = Some t
       then segs s' g = segs s g
       else running_thread (segs s' g) = None \<and> transaction_state (segs s' g) = TS_NONE \<and> modified_old_objects (segs s' g) = []"
    if "g \<in> {1..4}" for g
  proof -
    have "g \<in> set segments" using that by (auto simp: segments_eq)
    then have "interrupted t c s' g" using s'(3) by blast
    then show ?thesis by (auto simp: interrupted_def mem(4) seg_idle_def split: if_splits)
  qed
  moreover have "maps_ok c" "segs c = segs s" by (fact mem)+
  ultimately show ?thesis unfolding b_def [symmetric] using r s'(1) mem(1-3) by blast
qed


text \<open>Thread 1 forks inside a transaction in segment 2, while thread 0 runs one in segment 1.\<close>

definition fork_sample :: stm where
  "fork_sample = (upd_tl 0 (\<lambda>x. x\<lparr>tl_next := Some 1, tl_prev := Some 1\<rparr>)
     (upd_tl 1 (\<lambda>x. x\<lparr>tl_next := Some 0, tl_prev := Some 0, associated_segment_num := 2\<rparr>)
     (upd_seg 2 (\<lambda>p. p\<lparr>running_thread := Some 1, transaction_state := TS_REGULAR, safe_point := SP_RUNNING\<rparr>) sample)))
     \<lparr>stm_all_thread_locals := Some 0\<rparr>"

lemma fork_sample_ok:
  "maps_ok fork_sample" "uninitialized_page_stop fork_sample = NB_PAGES * 4096" "ring fork_sample [0, 1]"
  "running_thread (segs fork_sample 1) = Some 0" "transaction_state (segs fork_sample 1) = TS_REGULAR"
  "running_thread (segs fork_sample 2) = Some 1" "transaction_state (segs fork_sample 2) = TS_REGULAR"
  "g \<in> {1..4} \<Longrightarrow> g \<noteq> 1 \<Longrightarrow> g \<noteq> 2 \<Longrightarrow> running_thread (segs fork_sample g) = None"
proof -
  have "maps_ok sample" using sample_isolated by (simp add: isolated_def)
  then show "maps_ok fork_sample"
    by (simp add: fork_sample_def maps_ok_def mapped_ok_def remap_dom_def old_page_def is_private_page_def upd_tl_def upd_seg_def)
  show "uninitialized_page_stop fork_sample = NB_PAGES * 4096"
    by (simp add: fork_sample_def upd_tl_def upd_seg_def sample_def running_lm)
  show "ring fork_sample [0, 1]" by (simp add: fork_sample_def ring_def upd_tl_def)
  show "running_thread (segs fork_sample 1) = Some 0" "transaction_state (segs fork_sample 1) = TS_REGULAR"
    "running_thread (segs fork_sample 2) = Some 1" "transaction_state (segs fork_sample 2) = TS_REGULAR"
    by (simp_all add: fork_sample_def upd_tl_def segs_upd_seg sample_seg started_running)
  show "g \<in> {1..4} \<Longrightarrow> g \<noteq> 1 \<Longrightarrow> g \<noteq> 2 \<Longrightarrow> running_thread (segs fork_sample g) = None"
    by (simp add: fork_sample_def upd_tl_def segs_upd_seg sample_seg started_running started_seg zero_pseg_def)
qed

lemma fork_child_witness:
  "\<exists>s'. forksupport_child 2 sample_ext 0 0 (\<lambda>_. 0) (\<lambda>_. 0) 0 False True (fork_copy 1 True fork_sample) fork_sample = Ret () s' \<and>
    ring s' [1] \<and> running_thread (segs s' 1) = None \<and> segs s' 2 = segs fork_sample 2"
proof -
  have st: "(END_NURSERY_PAGE + 1) * 4096 \<le> uninitialized_page_stop fork_sample"
    by (simp add: fork_sample_ok(2) page_consts)
  have reg: "\<forall>g \<in> {1..4}. \<forall>u. running_thread (segs fork_sample g) = Some u \<and> u \<noteq> 1 \<longrightarrow> transaction_state (segs fork_sample g) = TS_REGULAR"
    using fork_sample_ok(4-8) by (metis option.distinct(1) option.inject)
  from fork_child [OF fork_sample_ok(1) st fork_sample_ok(3), of 1 2 sample_ext 0 0 "\<lambda>_. 0" "\<lambda>_. 0" 0 False True] reg
  show ?thesis using fork_sample_ok(4,6) by (fastforce split: if_splits)
qed

end
