(* ===== verification/C4lists.thy ===== *)
theory C4lists
  imports Lists Tree
begin

text \<open>
  The containers of \<open>c4/lists.h\<close> and \<open>c4/lists.c\<close>, on which the first design of the library
  rests: the radix tree \<open>struct G2L\<close> from public to private objects, growable arrays of pointers,
  and the cache of the objects that were read recently. The tree is the ancestor of the one in
  \<open>c7\<close> and has the same nodes, but it looks at the address itself and not at a hash of it.
\<close>

section \<open>The tree\<close>

type_synonym g2l = tree_s

definition g2l_empty :: g2l where
  "g2l_empty = \<lparr>raw_size = 0, raw_used = 0, toplevel = replicate TREE_ARITY ENull\<rparr>"

definition g2l_clear :: "g2l \<Rightarrow> g2l" where
  "g2l_clear t = (if raw_used t \<noteq> 0
     then t\<lparr>toplevel := replicate TREE_ARITY ENull, raw_used := 0\<rparr> else t)"

definition g2l_delete :: "g2l \<Rightarrow> g2l" where
  "g2l_delete t = g2l_empty"

definition g2l_any_entry :: "g2l \<Rightarrow> bool" where
  "g2l_any_entry t \<longleftrightarrow> raw_used t \<noteq> 0"

text \<open>
  The loop of \<open>_G2L_LOOP\<close> and \<open>_deleted_factor\<close> at its end; as for the trees of \<open>c7\<close>, overflowing
  the array \<open>_stack\<close> is \<open>None\<close>. Without the factor it gives the items in the order of the slots.
\<close>

definition G2L_DEPTH_MAX :: nat where "G2L_DEPTH_MAX = (64 - 2 + TREE_BITS - 1) div TREE_BITS"

function g2l_loop :: "tree_entry list \<Rightarrow> tree_entry list list \<Rightarrow> int \<Rightarrow> ((u64 \<times> u64) list \<times> int) option" where
  "g2l_loop [] [] d = Some ([], d)"
| "g2l_loop [] (nxt # stk) d = g2l_loop nxt stk d"
| "g2l_loop (ENull # nxt) stk d = g2l_loop nxt stk d"
| "g2l_loop (ENode xs # nxt) stk d =
     (if length stk < G2L_DEPTH_MAX then g2l_loop xs (nxt # stk) d else None)"
| "g2l_loop (EItem a v # nxt) stk d =
     (if a = 0 then g2l_loop nxt stk (d + 3)
      else map_option (\<lambda>(xs, d). ((a, v) # xs, d)) (g2l_loop nxt stk (d - 4)))"
  by pat_completeness auto
termination
  by (relation "measure (\<lambda>(nxt, stk, d). sum_list (map entry_weight nxt)
        + sum_list (map (\<lambda>fr. Suc (sum_list (map entry_weight fr))) stk))") auto

definition g2l_items :: "g2l \<Rightarrow> (u64 \<times> u64) list" where
  "g2l_items t = tree_items t"

text \<open>The macro \<open>G2L_FIND\<close>; \<open>_g2l_find\<close> follows the nodes in the same way as \<open>_tree_find\<close>.\<close>

definition G2L_FIND :: "g2l \<Rightarrow> u64 \<Rightarrow> u64 option" where
  "G2L_FIND t addr =
     (let entry = toplevel t ! slot addr 0
      in if entry = ENull then None
         else case tree_find_entry entry addr of
                None \<Rightarrow> None
              | Some (a, v) \<Rightarrow> if a \<noteq> addr then None else Some v)"

definition g2l_contains :: "g2l \<Rightarrow> u64 \<Rightarrow> bool" where
  "g2l_contains t addr = (case G2L_FIND t addr of None \<Rightarrow> False | Some _ \<Rightarrow> True)"

definition g2l_delete_item :: "g2l \<Rightarrow> u64 \<Rightarrow> bool \<times> g2l" where
  "g2l_delete_item t addr =
     (case G2L_FIND t addr of
        None \<Rightarrow> (False, t)
      | Some _ \<Rightarrow> (let i = slot addr 0
           in (True, t\<lparr>toplevel := (toplevel t)[i := tree_zero_entry (toplevel t ! i) addr]\<rparr>)))"

text \<open>
  The loop of \<open>g2l_insert\<close>. \<open>IDepth\<close> is the failed assertion that the key is not present, or
  a shift by more than the width of the key.
\<close>

function g2l_ins :: "u64 \<Rightarrow> u64 \<Rightarrow> nat \<Rightarrow> nat \<Rightarrow> nat \<Rightarrow> tree_entry \<Rightarrow> ins_result" where
  "g2l_ins addr val cap shift used ENull =
     (let used = used + 16
      in if used > cap then IRetry ENull used 16 else IDone (EItem addr val) used)"
| "g2l_ins addr val cap shift used (ENode xs) =
     (if shift < 64
      then let i = slot addr shift
           in set_slot xs i (g2l_ins addr val cap (shift + TREE_BITS) used (xs ! i))
      else IDepth)"
| "g2l_ins addr val cap shift used (EItem a v) =
     (if a = 0 then IDone (EItem addr val) used
      else if a = addr then IDepth
      else let used = used + 128
           in if used > cap then IRetry (EItem a v) used 128
              else g2l_ins addr val cap shift used
                     (ENode ((replicate TREE_ARITY ENull)[slot a shift := EItem a v])))"
  by pat_completeness auto
termination
  by (relation "measure (\<lambda>(addr, val, cap, shift, used, e).
        2 * (64 - shift) + (case e of EItem _ _ \<Rightarrow> 1 | _ \<Rightarrow> 0))")
    (auto simp: TREE_BITS_def split: tree_entry.splits)

declare g2l_ins.simps [simp del]

definition g2l_newalloc :: "nat \<Rightarrow> nat \<Rightarrow> nat" where
  "g2l_newalloc alloc extra = ((alloc + extra + alloc div 4 + 31) div 16) * 16"

text \<open>\<open>g2l_insert\<close> with \<open>_g2l_grow\<close> unfolded at the \<open>goto retry\<close>; the fuel bounds the retries.\<close>

fun g2l_insert :: "nat \<Rightarrow> g2l \<Rightarrow> u64 \<Rightarrow> u64 \<Rightarrow> tree_error + g2l" where
  "g2l_insert 0 t addr val = Inl TreeFuel"
| "g2l_insert (Suc n) t addr val =
     (case g2l_ins addr val (raw_size t) 0 (raw_used t) (ENode (toplevel t)) of
        IDone e u \<Rightarrow> Inr (t\<lparr>toplevel := node_slots e, raw_used := u\<rparr>)
      | IDepth \<Rightarrow> Inl TreeDepth
      | IRetry e u extra \<Rightarrow>
          (let t = t\<lparr>toplevel := node_slots e, raw_used := u\<rparr>
           in case foldl (\<lambda>r (a, v). case r of Inl e \<Rightarrow> Inl e | Inr t' \<Rightarrow> g2l_insert n t' a v)
                       (Inr \<lparr>raw_size = g2l_newalloc (raw_size t) extra, raw_used = 0,
                             toplevel = replicate TREE_ARITY ENull\<rparr>) (g2l_items t) of
                Inl e \<Rightarrow> Inl e
              | Inr t' \<Rightarrow> g2l_insert n t' addr val))"

definition g2l_compress :: "nat \<Rightarrow> g2l \<Rightarrow> tree_error + g2l" where
  "g2l_compress n t =
     foldl (\<lambda>r (a, v). case r of Inl e \<Rightarrow> Inl e | Inr t' \<Rightarrow> g2l_insert n t' a v) (Inr g2l_empty) (g2l_items t)"

section \<open>The lists\<close>

text \<open>An access past \<open>alloc\<close> is the error \<open>OutOfBounds\<close>; allocation succeeds, as in the code.\<close>

record gcptrlist =
  gsize :: nat
  galloc :: nat
  gitems :: "nat \<Rightarrow> u64"

definition gstore :: "gcptrlist \<Rightarrow> nat \<Rightarrow> u64 \<Rightarrow> list_error + gcptrlist" where
  "gstore l i v = (if i < galloc l then Inr (l\<lparr>gitems := (gitems l)(i := v)\<rparr>) else Inl OutOfBounds)"

definition gcptrlist_clear :: "gcptrlist \<Rightarrow> gcptrlist" where
  "gcptrlist_clear l = l\<lparr>gsize := 0\<rparr>"

definition gcptrlist_delete :: "gcptrlist \<Rightarrow> gcptrlist" where
  "gcptrlist_delete l = l\<lparr>gsize := 0, gitems := (\<lambda>_. 0), galloc := 0\<rparr>"

definition gcptrlist_compress :: "gcptrlist \<Rightarrow> gcptrlist" where
  "gcptrlist_compress l = (if galloc l \<le> gsize l + 64 then l else l\<lparr>galloc := gsize l\<rparr>)"

definition gcptrlist_grow :: "(nat \<Rightarrow> u64) \<Rightarrow> gcptrlist \<Rightarrow> gcptrlist" where
  "gcptrlist_grow junk l =
     (let newalloc = galloc l + galloc l div 2 + 64
      in l\<lparr>gitems := (\<lambda>i. if i < gsize l then gitems l i else junk i), galloc := newalloc\<rparr>)"

definition gcptrlist_insert :: "(nat \<Rightarrow> u64) \<Rightarrow> gcptrlist \<Rightarrow> u64 \<Rightarrow> list_error + gcptrlist" where
  "gcptrlist_insert junk l newitem =
     (let l = (if gsize l = galloc l then gcptrlist_grow junk l else l)
      in case gstore l (gsize l) newitem of Inl e \<Rightarrow> Inl e | Inr l \<Rightarrow> Inr (l\<lparr>gsize := gsize l + 1\<rparr>))"

definition gcptrlist_insert2 :: "(nat \<Rightarrow> u64) \<Rightarrow> gcptrlist \<Rightarrow> u64 \<Rightarrow> u64 \<Rightarrow> list_error + gcptrlist" where
  "gcptrlist_insert2 junk l newitem1 newitem2 =
     (let i = gsize l; l = (if galloc l - i < 2 then gcptrlist_grow junk l else l)
      in case gstore l (i + 0) newitem1 of Inl e \<Rightarrow> Inl e
       | Inr l \<Rightarrow> (case gstore l (i + 1) newitem2 of Inl e \<Rightarrow> Inl e | Inr l \<Rightarrow> Inr (l\<lparr>gsize := i + 2\<rparr>)))"

definition gcptrlist_insert3 :: "(nat \<Rightarrow> u64) \<Rightarrow> gcptrlist \<Rightarrow> u64 \<Rightarrow> u64 \<Rightarrow> u64 \<Rightarrow> list_error + gcptrlist" where
  "gcptrlist_insert3 junk l newitem1 newitem2 newitem3 =
     (let i = gsize l; l = (if galloc l - i < 3 then gcptrlist_grow junk l else l)
      in case gstore l (i + 0) newitem1 of Inl e \<Rightarrow> Inl e
       | Inr l \<Rightarrow> (case gstore l (i + 1) newitem2 of Inl e \<Rightarrow> Inl e
       | Inr l \<Rightarrow> (case gstore l (i + 2) newitem3 of Inl e \<Rightarrow> Inl e | Inr l \<Rightarrow> Inr (l\<lparr>gsize := i + 3\<rparr>))))"

definition gcptrlist_insert_at_index :: "(nat \<Rightarrow> u64) \<Rightarrow> gcptrlist \<Rightarrow> nat \<Rightarrow> u64 \<Rightarrow> list_error + gcptrlist" where
  "gcptrlist_insert_at_index junk l index newitem =
     (let lastitem = gsize l
      in case gcptrlist_insert junk l 0 of Inl e \<Rightarrow> Inl e
       | Inr l \<Rightarrow> (case gstore l lastitem (gitems l index) of Inl e \<Rightarrow> Inl e | Inr l \<Rightarrow> gstore l index newitem))"

definition gcptrlist_pop :: "gcptrlist \<Rightarrow> list_error + (u64 \<times> gcptrlist)" where
  "gcptrlist_pop l =
     (if gsize l = 0 \<or> galloc l \<le> gsize l - 1 then Inl OutOfBounds
      else Inr (gitems l (gsize l - 1), l\<lparr>gsize := gsize l - 1\<rparr>))"

text \<open>The loop that grows until there is room: each turn adds 64 places or more.\<close>

function gcptrlist_room :: "(nat \<Rightarrow> u64) \<Rightarrow> nat \<Rightarrow> gcptrlist \<Rightarrow> gcptrlist" where
  "gcptrlist_room junk n l =
     (if int (galloc l) - int (gsize l) < int n then gcptrlist_room junk n (gcptrlist_grow junk l) else l)"
  by pat_completeness auto
termination
  by (relation "measure (\<lambda>(junk, n, l). nat (int n + int (gsize l) - int (galloc l)))")
    (auto simp: gcptrlist_grow_def Let_def)

declare gcptrlist_room.simps [simp del]

definition gcptrlist_merge :: "(nat \<Rightarrow> u64) \<Rightarrow> gcptrlist \<Rightarrow> gcptrlist \<Rightarrow> gcptrlist" where
  "gcptrlist_merge junk l src =
     (let i = gsize l; n = gsize src
      in if n = 0 then l
         else let l = gcptrlist_room junk n l
              in l\<lparr>gitems := (\<lambda>k. if i \<le> k \<and> k < i + n then gitems src (k - i) else gitems l k), gsize := i + n\<rparr>)"

definition gcptrlist_move :: "(nat \<Rightarrow> u64) \<Rightarrow> gcptrlist \<Rightarrow> gcptrlist \<Rightarrow> gcptrlist \<times> gcptrlist" where
  "gcptrlist_move junk l src = (gcptrlist_merge junk l src, gcptrlist_clear src)"

section \<open>The cache\<close>

definition FX_MASK :: u64 where "FX_MASK = 65535"
definition FX_ENTRIES :: nat where "FX_ENTRIES = (65535 + 1) div 8"
definition FX_TOTAL :: nat where "FX_TOTAL = FX_ENTRIES * 4 div 3"

record fxcache =
  fx_shift :: nat
  fx_cache :: "nat \<Rightarrow> u64"

text \<open>The entry that \<open>FXCACHE_AT\<close> reads or writes, counted from the start of the array.\<close>

definition fx_index :: "fxcache \<Rightarrow> u64 \<Rightarrow> nat" where
  "fx_index c obj = fx_shift c + unat (obj AND FX_MASK) div 8"

definition FXCACHE_AT :: "fxcache \<Rightarrow> u64 \<Rightarrow> u64" where
  "FXCACHE_AT c obj = fx_cache c (fx_index c obj)"

definition fxcache_reset :: "fxcache \<Rightarrow> fxcache" where
  "fxcache_reset c = c\<lparr>fx_shift := 0, fx_cache := (\<lambda>_. 0)\<rparr>"

definition fxcache_clear :: "fxcache \<Rightarrow> fxcache" where
  "fxcache_clear c =
     (let c = c\<lparr>fx_shift := fx_shift c + 1\<rparr>
      in if fx_shift c > FX_TOTAL - FX_ENTRIES then fxcache_reset c else c)"

definition fxcache_add :: "fxcache \<Rightarrow> u64 \<Rightarrow> fxcache" where
  "fxcache_add c newobj = c\<lparr>fx_cache := (fx_cache c)(fx_index c newobj := newobj)\<rparr>"

definition fxcache_remove :: "fxcache \<Rightarrow> u64 \<Rightarrow> fxcache" where
  "fxcache_remove c oldobj = c\<lparr>fx_cache := (fx_cache c)(fx_index c oldobj := 0)\<rparr>"

end
