(* ===== verification/C4maps.thy ===== *)
theory C4maps
  imports C4lists
begin

text \<open>
  The containers of \<open>C4lists\<close> keep their promises. The tree is the tree of \<open>c7\<close> up to a renaming
  of the keys: an address here is the hash of a key there. So it is a map as well, and satisfies
  the same interface; the lists are the stacks of words of \<open>Lists\<close>.
\<close>

section \<open>Renaming the keys of a tree\<close>

fun ren :: "tree_entry \<Rightarrow> tree_entry" where
  "ren ENull = ENull"
| "ren (EItem a v) = EItem (TREE_HASH a) v"
| "ren (ENode xs) = ENode (map ren xs)"

definition ren_tree :: "tree_s \<Rightarrow> g2l" where
  "ren_tree t = t\<lparr>toplevel := map ren (toplevel t)\<rparr>"

fun ren_ins :: "ins_result \<Rightarrow> ins_result" where
  "ren_ins (IDone e u) = IDone (ren e) u"
| "ren_ins (IRetry e u x) = IRetry (ren e) u x"
| "ren_ins IDepth = IDepth"

abbreviation hashed :: "u64 \<times> u64 \<Rightarrow> u64 \<times> u64" where
  "hashed p \<equiv> (TREE_HASH (fst p), snd p)"

text \<open>The hash is a bijection that keeps addresses aligned.\<close>

lemma hash_inj: "inj TREE_HASH"
proof (rule injI)
  fix a b
  assume eq: "TREE_HASH a = TREE_HASH b"
  show "a = b"
  proof (rule bit_word_eqI)
    fix n :: nat
    assume "n < LENGTH(64)"
    then show "bit a n = bit b n"
    proof (induction n rule: less_induct)
      case (less n)
      have "4 \<le> n \<Longrightarrow> bit a (n - 4) = bit b (n - 4)" using less by simp
      then show ?case using arg_cong [OF eq, of "\<lambda>w. bit w n"] less.prems by (auto simp: TREE_HASH_bit)
    qed
  qed
qed

lemma hash_surj: "\<exists>k. TREE_HASH k = a"
  using finite_UNIV_inj_surj [OF _ hash_inj] by (metis finite surjD)

lemma hash_eq [simp]: "TREE_HASH a = TREE_HASH b \<longleftrightarrow> a = b"
  using hash_inj by (auto dest: injD)

lemma hash_0 [simp]: "TREE_HASH a = 0 \<longleftrightarrow> a = 0"
  using hash_eq [of a 0] by (simp add: TREE_HASH_def)

lemma hash_aligned [simp]: "aligned8 (TREE_HASH a) \<longleftrightarrow> aligned8 a"
proof -
  have "TREE_HASH a AND 7 = a AND 7"
  proof (rule bit_word_eqI)
    fix n :: nat
    have "bit (7 :: u64) n \<Longrightarrow> n < 3" by (auto simp: bit_simps numeral_eq_Suc less_Suc_eq)
    then show "bit (TREE_HASH a AND 7) n = bit (a AND 7) n" by (auto simp: bit_and_iff TREE_HASH_bit)
  qed
  then show ?thesis by (simp add: aligned8_def)
qed

lemma ren_entry_items: "entry_items (ren e) = map hashed (entry_items e)"
  by (induction e rule: entry_items.induct) (auto simp: entry_items.simps(3) map_concat intro!: arg_cong [where f = concat])

lemma ren_items: "g2l_items (ren_tree t) = map hashed (tree_items t)"
  using ren_entry_items [of "ENode (toplevel t)"] by (simp add: g2l_items_def ren_tree_def tree_items_def)

lemma ren_single: "map ren (single s a v) = (replicate TREE_ARITY ENull)[slot (TREE_HASH a) s := EItem (TREE_HASH a) v]"
  by (simp add: single_def map_update)

lemma ren_set_slot: "set_slot (map ren xs) i (ren_ins r) = ren_ins (set_slot xs i r)"
  by (cases r) (simp_all add: map_update)

lemma g2l_ins_ren:
  "wf_entry s e \<Longrightarrow> addr \<noteq> 0 \<Longrightarrow> (\<And>v. (addr, v) \<notin> items e) \<Longrightarrow>
   g2l_ins (TREE_HASH addr) val cap s used (ren e) = ren_ins (ins_entry addr val cap s used e)"
proof (induction s used e rule: ins_induct [where addr = addr])
  case (null s used)
  then show ?case by (simp add: ins_entry_null g2l_ins.simps Let_def)
next
  case (item s used a v)
  show ?case
  proof (cases "a = 0 \<or> used + 128 > cap")
    case True
    then show ?thesis using item.prems(2) item.prems(3) [of v] by (auto simp: ins_entry_item g2l_ins.simps(3) Let_def)
  next
    case False
    show ?thesis
    proof (cases "s < 64")
      case True
      have "g2l_ins (TREE_HASH addr) val cap s (used + 128) (ren (ENode (single s a v))) =
          ren_ins (ins_entry addr val cap s (used + 128) (ENode (single s a v)))"
        using item True by (simp add: wf_single items_single)
      then show ?thesis using False item.prems(2) item.prems(3) [of v] by (auto simp: ins_entry_item g2l_ins.simps(3) Let_def ren_single)
    next
      case False
      then show ?thesis using item.prems(2) item.prems(3) [of v]
        by (auto simp: ins_entry_item ins_entry_node g2l_ins.simps(2,3) Let_def)
    qed
  qed
next
  case (node s used xs)
  have len: "length xs = 16" "s < 64" and wf: "wf_entry (s + 4) (xs ! slot (TREE_HASH addr) s)"
    using node.prems(1) slot_less [of "TREE_HASH addr" s] unfolding wf_node_iff by blast+
  have "(addr, v) \<notin> items (xs ! slot (TREE_HASH addr) s)" for v
    using node.prems(3) [of v] items_node_slot [OF node.prems(1)] by blast
  from node.IH [OF len(2) wf node.prems(2) this]
  show ?case using len by (simp add: ins_entry_node g2l_ins.simps(2) Let_def TREE_BITS_def ren_set_slot)
qed

lemma ren_node_slots: "node_slots (ren (ENode xs)) = map ren (node_slots (ENode xs))"
  by simp

abbreviation g2l_fold :: "nat \<Rightarrow> tree_error + g2l \<Rightarrow> (u64 \<times> u64) list \<Rightarrow> tree_error + g2l" where
  "g2l_fold n r xs \<equiv> foldl (\<lambda>r (a, v). case r of Inl e \<Rightarrow> Inl e | Inr t' \<Rightarrow> g2l_insert n t' a v) r xs"

lemma ins_fold_Inl: "ins_fold n ok (Inl e) xs = Inl e"
  by (induction xs) auto

lemma g2l_insert_ren:
  "tree_insert n (\<lambda>_. True) t a v = Inr t' \<Longrightarrow> tree_inv t \<Longrightarrow> aligned8 a \<Longrightarrow> a \<noteq> 0 \<Longrightarrow>
   (\<And>w. (a, w) \<notin> set (tree_items t)) \<Longrightarrow>
   g2l_insert n (ren_tree t) (TREE_HASH a) v = Inr (ren_tree t') \<and> tree_inv t' \<and>
   set (tree_items t') = insert (a, v) (set (tree_items t))"
proof (induction n arbitrary: t a v t')
  case (Suc n)
  have wf: "wf_entry 0 (ENode (toplevel t))" using Suc.prems(2) by (simp add: tree_inv_def wf_tree_def)
  note sim = g2l_ins_ren [OF wf Suc.prems(4) Suc.prems(5) [unfolded tree_items_def], of v "raw_size t" "raw_used t"]
  have top: "ENode (toplevel (ren_tree t)) = ren (ENode (toplevel t))" "raw_size (ren_tree t) = raw_size t"
    "raw_used (ren_tree t) = raw_used t" by (simp_all add: ren_tree_def)
  show ?case
  proof (cases "ins_entry a v (raw_size t) 0 (raw_used t) (ENode (toplevel t))")
    case (IDone e u)
    obtain ys where e: "e = ENode ys" using ins_entry_is_node(1) IDone by blast
    have t': "t' = t\<lparr>toplevel := node_slots e, raw_used := u\<rparr>" using Suc.prems(1) IDone by simp
    have "g2l_insert (Suc n) (ren_tree t) (TREE_HASH a) v = Inr (ren_tree t')"
      using sim unfolding g2l_insert.simps(2) top IDone by (simp add: ren_tree_def t' e)
    then show ?thesis using tree_insert_done [OF Suc.prems(2,3,4,5) IDone] by (simp add: t')
  next
    case (IRetry e u x)
    obtain ys where e: "e = ENode ys" using ins_entry_is_node(2) IRetry by blast
    have re: "items e = items (ENode (toplevel t))" "wf_entry 0 e" using ins_entry_retry [OF wf IRetry] by simp_all
    define t1 where "t1 = t\<lparr>toplevel := node_slots e, raw_used := u\<rparr>"
    have t1: "set (tree_items t1) = set (tree_items t)" "distinct (map fst (tree_items t1))"
      using re distinct_items by (simp_all add: t1_def tree_items_def e)
    define t0 where "t0 = \<lparr>raw_size = tree_newalloc (raw_size t) x, raw_used = 0, toplevel = replicate TREE_ARITY ENull\<rparr>"
    have fold: "set (tree_items tt) \<inter> {p. \<exists>q \<in> set xs. fst q = fst p} = {} \<Longrightarrow> distinct (map fst xs) \<Longrightarrow>
        (\<forall>p \<in> set xs. aligned8 (fst p) \<and> fst p \<noteq> 0) \<Longrightarrow> tree_inv tt \<Longrightarrow>
        ins_fold n (\<lambda>_. True) (Inr tt) xs = Inr t2 \<Longrightarrow>
        g2l_fold n (Inr (ren_tree tt)) (map hashed xs) = Inr (ren_tree t2) \<and> tree_inv t2 \<and>
        set (tree_items t2) = set (tree_items tt) \<union> set xs" for tt t2 xs
    proof (induction xs arbitrary: tt)
      case (Cons p xs)
      obtain b w where p: "p = (b, w)" by (cases p)
      obtain t3 where t3: "tree_insert n (\<lambda>_. True) tt b w = Inr t3" "ins_fold n (\<lambda>_. True) (Inr t3) xs = Inr t2"
        using Cons.prems(5) by (cases "tree_insert n (\<lambda>_. True) tt b w") (simp_all add: p ins_fold_Inl)
      have new: "(b, w') \<notin> set (tree_items tt)" for w' using Cons.prems(1) by (auto simp: p)
      have s: "g2l_insert n (ren_tree tt) (TREE_HASH b) w = Inr (ren_tree t3)" "tree_inv t3"
        "set (tree_items t3) = insert (b, w) (set (tree_items tt))"
        using Suc.IH [OF t3(1) Cons.prems(4) _ _ new] Cons.prems(3) by (simp_all add: p)
      have "set (tree_items t3) \<inter> {p. \<exists>q \<in> set xs. fst q = fst p} = {}"
        using Cons.prems(1,2) unfolding s(3) by (force simp: p image_iff)
      then show ?case using Cons.IH [OF _ _ _ s(2) t3(2)] Cons.prems(2,3) s(1,3) by (simp add: p)
    qed simp
    obtain t2 where t2: "ins_fold n (\<lambda>_. True) (Inr t0) (tree_items t1) = Inr t2" "tree_insert n (\<lambda>_. True) t2 a v = Inr t'"
      using Suc.prems(1) IRetry by (simp add: Let_def t1_def [symmetric] t0_def [symmetric] split: sum.splits)
    have "tree_inv t0" "tree_items t0 = []"
    proof -
      have "entry_items (ENode (toplevel t0)) = []" by (simp add: t0_def entry_items.simps(3) TREE_ARITY_def)
      then show "tree_items t0 = []" by (simp add: tree_items_def)
      then show "tree_inv t0" using wf_empty_top space_empty_top
        by (simp add: tree_inv_def wf_tree_def t0_def del: entry_space.simps(3))
    qed
    moreover have "\<forall>p \<in> set (tree_items t1). aligned8 (fst p) \<and> fst p \<noteq> 0"
      using Suc.prems(2) items_nonzero unfolding t1(1) by (force simp: tree_inv_def tree_items_def)
    ultimately have f: "g2l_fold n (Inr (ren_tree t0)) (map hashed (tree_items t1)) = Inr (ren_tree t2)" "tree_inv t2"
      "set (tree_items t2) = set (tree_items t)"
      using fold [of t0 "tree_items t1", OF _ t1(2) _ _ t2(1)] t1(1) by simp_all
    have r: "g2l_insert n (ren_tree t2) (TREE_HASH a) v = Inr (ren_tree t')" "tree_inv t'"
      "set (tree_items t') = insert (a, v) (set (tree_items t2))"
      using Suc.IH [OF t2(2) f(2) Suc.prems(3,4)] Suc.prems(5) f(3) by simp_all
    have "ren_tree t1 = (ren_tree t)\<lparr>toplevel := node_slots (ren e), raw_used := u\<rparr>" by (simp add: ren_tree_def t1_def e)
    moreover have "ren_tree t0 = \<lparr>raw_size = g2l_newalloc (raw_size t) x, raw_used = 0, toplevel = replicate TREE_ARITY ENull\<rparr>"
      by (simp add: ren_tree_def t0_def g2l_newalloc_def tree_newalloc_def)
    ultimately have "g2l_insert (Suc n) (ren_tree t) (TREE_HASH a) v = Inr (ren_tree t')"
      using sim f(1) r(1) ren_items [of t1] unfolding g2l_insert.simps(2) top IRetry by (simp add: Let_def top(2))
    then show ?thesis using r(2,3) f(3) by simp
  next
    case IDepth
    then show ?thesis using Suc.prems(1) by simp
  qed
qed simp


section \<open>The tree is a map\<close>

definition g2l_inv :: "g2l \<Rightarrow> bool" where
  "g2l_inv t \<longleftrightarrow> (\<exists>k. tree_inv k \<and> t = ren_tree k)"

definition g2l_map :: "g2l \<Rightarrow> u64 \<Rightarrow> u64 option" where
  "g2l_map t = map_of (g2l_items t)"

lemma find_ren: "tree_find_entry (ren e) key = map_option hashed (tree_find_entry e key)"
  by (induction e key rule: tree_find_entry.induct) (simp_all add: Let_def)

lemma zero_ren: "tree_zero_entry (ren e) key = ren (tree_zero_entry e key)"
  by (induction e key rule: tree_zero_entry.induct) (simp_all add: Let_def map_update)

lemma ren_ENull: "ren e = ENull \<longleftrightarrow> e = ENull"
  by (cases e) simp_all

lemma G2L_FIND_ren:
  assumes "tree_inv k"
  shows "G2L_FIND (ren_tree k) (TREE_HASH a) = tree_lookup k a"
proof -
  have "length (toplevel k) = 16" using assms unfolding tree_inv_def wf_tree_def wf_node_iff by blast
  then have "toplevel (ren_tree k) ! slot (TREE_HASH a) 0 = ren (toplevel k ! slot (TREE_HASH a) 0)"
    by (simp add: ren_tree_def)
  then show ?thesis by (simp add: G2L_FIND_def tree_lookup_def Let_def find_ren ren_ENull split: option.split)
qed

lemma g2l_delete_ren:
  assumes "tree_inv k"
  shows "g2l_delete_item (ren_tree k) (TREE_HASH a) = map_prod id ren_tree (tree_delete_item k a)"
proof -
  have "length (toplevel k) = 16" using assms unfolding tree_inv_def wf_tree_def wf_node_iff by blast
  then show ?thesis
    using G2L_FIND_ren [OF assms, of a, unfolded ren_tree_def]
    by (simp add: g2l_delete_item_def tree_delete_item_def Let_def ren_tree_def zero_ren map_update split: option.split)
qed

lemma g2l_clear_ren: "g2l_clear (ren_tree k) = ren_tree (tree_clear k)"
  by (simp add: g2l_clear_def tree_clear_def ren_tree_def)

lemma g2l_map_ren: "g2l_map (ren_tree k) (TREE_HASH a) = tree_map k a"
proof -
  have "map_of (map hashed xs) (TREE_HASH a) = map_of xs a" for xs by (induction xs) auto
  then show ?thesis by (simp add: g2l_map_def tree_map_def ren_items)
qed

lemma g2l_map_eqI: "(\<And>a. g2l_map t (TREE_HASH a) = m (TREE_HASH a)) \<Longrightarrow> g2l_map t = m"
  by (rule ext) (metis hash_surj)

lemma g2l_empty_ok: "g2l_inv g2l_empty" "g2l_map g2l_empty = Map.empty"
proof -
  have e: "g2l_empty = ren_tree tree_create" by (simp add: g2l_empty_def tree_create_def ren_tree_def)
  show "g2l_inv g2l_empty" using e tree_inv_create unfolding g2l_inv_def by blast
  show "g2l_map g2l_empty = Map.empty" by (rule g2l_map_eqI) (simp add: e g2l_map_ren tree_map_create)
qed

interpretation g2m: addr_map g2l_inv "\<lambda>a. aligned8 a \<and> a \<noteq> 0" g2l_map g2l_empty
  "g2l_insert insert_fuel" g2l_delete_item g2l_clear G2L_FIND
proof unfold_locales
  show "g2l_inv g2l_empty" "g2l_map g2l_empty = Map.empty" by (rule g2l_empty_ok)+
  fix t :: g2l
  assume "g2l_inv t"
  then obtain k where k: "tree_inv k" "t = ren_tree k" unfolding g2l_inv_def by blast
  have "g2l_map (ren_tree (tree_clear k)) = Map.empty"
    by (rule g2l_map_eqI) (use tree_clear_spec [OF k(1)] in \<open>simp add: g2l_map_ren\<close>)
  then show "g2l_inv (g2l_clear t) \<and> g2l_map (g2l_clear t) = Map.empty"
    using tree_clear_spec [OF k(1)] unfolding k(2) g2l_clear_ren g2l_inv_def by blast
  fix a v
  obtain b where b: "a = TREE_HASH b" using hash_surj by metis
  assume a: "aligned8 a \<and> a \<noteq> 0"
  then have b0: "aligned8 b" "b \<noteq> 0" by (simp_all add: b)
  show "G2L_FIND t a = g2l_map t a"
    using tree_lookup_map [OF k(1) b0(2)] by (simp add: k(2) b G2L_FIND_ren [OF k(1)] g2l_map_ren)
  note d = tree_delete_map [OF k(1) b0(2)]
  have "g2l_map (ren_tree (snd (tree_delete_item k b))) = (g2l_map t)(a := None)"
    by (rule g2l_map_eqI) (use d in \<open>simp add: g2l_map_ren k(2) b\<close>)
  then show "fst (g2l_delete_item t a) = (g2l_map t a \<noteq> None) \<and> g2l_inv (snd (g2l_delete_item t a)) \<and>
      g2l_map (snd (g2l_delete_item t a)) = (g2l_map t)(a := None)"
    using d unfolding k(2) b g2l_delete_ren [OF k(1)] g2l_inv_def by (auto simp: g2l_map_ren)
  assume new: "g2l_map t a = None"
  then have n: "tree_map k b = None" by (simp add: k(2) b g2l_map_ren)
  obtain k' where k': "tree_insert insert_fuel (\<lambda>_. True) k b v = Inr k'" "tree_map k' = (tree_map k)(b \<mapsto> v)"
    using tree_insert_map [OF k(1) b0 n, of "\<lambda>_. True" v] by blast
  have "(b, w) \<notin> set (tree_items k)" for w using n tree_map_Some [OF k(1)] by (metis option.distinct(1))
  from g2l_insert_ren [OF k'(1) k(1) b0 this]
  have s: "g2l_insert insert_fuel t a v = Inr (ren_tree k')" "tree_inv k'" by (simp_all add: k(2) b)
  have "g2l_map (ren_tree k') = (g2l_map t)(a \<mapsto> v)"
    by (rule g2l_map_eqI) (simp add: g2l_map_ren k'(2) k(2) b)
  then show "\<exists>t'. g2l_insert insert_fuel t a v = Inr t' \<and> g2l_inv t' \<and> g2l_map t' = (g2l_map t)(a \<mapsto> v)"
    using s unfolding g2l_inv_def by blast
qed

text \<open>The keys of a tree are distinct addresses, and the loop visits the items.\<close>

lemma g2l_items_ok:
  assumes "g2l_inv t"
  shows "distinct (map fst (g2l_items t))" and "(a, v) \<in> set (g2l_items t) \<Longrightarrow> aligned8 a \<and> a \<noteq> 0"
    and "g2l_map t a = Some v \<longleftrightarrow> (a, v) \<in> set (g2l_items t)"
proof -
  obtain k where k: "tree_inv k" "t = ren_tree k" using assms unfolding g2l_inv_def by blast
  have "distinct (map fst (tree_items k))"
    using k(1) distinct_items by (auto simp: tree_inv_def wf_tree_def tree_items_def)
  then have "distinct (map TREE_HASH (map fst (tree_items k)))" by (simp only: distinct_map) (auto intro: inj_onI)
  then show d: "distinct (map fst (g2l_items t))" by (simp add: k(2) ren_items comp_def)
  show "(a, v) \<in> set (g2l_items t) \<Longrightarrow> aligned8 a \<and> a \<noteq> 0"
    using k(1) items_nonzero by (force simp: k(2) ren_items tree_inv_def tree_items_def)
  show "g2l_map t a = Some v \<longleftrightarrow> (a, v) \<in> set (g2l_items t)" using d by (simp add: g2l_map_def map_of_eq_Some_iff)
qed

lemma g2l_loop_fst: "map_option fst (g2l_loop nxt stk d) = tree_loop nxt stk"
proof (induction nxt stk d rule: g2l_loop.induct)
  case (4 xs nxt stk d)
  then show ?case by (simp add: G2L_DEPTH_MAX_def TREE_DEPTH_MAX_def TREE_BITS_def)
next
  case (5 a v nxt stk d)
  then show ?case by (simp add: 5(2) [symmetric] option.map_comp comp_def case_prod_beta)
qed simp_all

lemma tree_loop_ren:
  "tree_loop (map ren nxt) (map (map ren) stk) = map_option (map hashed) (tree_loop nxt stk)"
  by (induction nxt stk rule: tree_loop.induct) (simp_all add: option.map_comp comp_def)

lemma g2l_loop_items:
  assumes "g2l_inv t"
  shows "map_option fst (g2l_loop (toplevel t) [] 0) = Some (g2l_items t)"
proof -
  obtain k where k: "tree_inv k" "t = ren_tree k" using assms unfolding g2l_inv_def by blast
  have "tree_loop (toplevel k) [] = Some (tree_items k)" using k(1) tree_loop_items by (simp add: tree_inv_def)
  then show ?thesis using tree_loop_ren [of "toplevel k" "[]"]
    unfolding g2l_loop_fst k(2) ren_items by (simp add: ren_tree_def)
qed

lemma g2l_fold_insert_all: "g2l_fold insert_fuel (Inr t) xs = g2m.insert_all t xs"
proof (induction xs arbitrary: t)
  case (Cons p xs)
  have "g2l_fold n (Inl e) xs = Inl e" for n e by (induction xs) auto
  then show ?case using Cons by (cases p) (simp split: sum.split)
qed simp

lemma g2l_compress_ok:
  assumes "g2l_inv t"
  shows "\<exists>t'. g2l_compress insert_fuel t = Inr t' \<and> g2l_inv t' \<and> g2l_map t' = g2l_map t"
proof -
  have "\<forall>(k, v) \<in> set (g2l_items t). (aligned8 k \<and> k \<noteq> 0) \<and> g2l_map g2l_empty k = None"
    using g2l_items_ok(2) [OF assms] by (auto simp: g2l_empty_ok)
  from g2m.insert_all_abs [OF g2l_empty_ok(1) g2l_items_ok(1) [OF assms] this]
  show ?thesis unfolding g2l_compress_def g2l_fold_insert_all g2l_map_def [of t] by (simp add: g2l_empty_ok(2))
qed


section \<open>The lists are stacks of words\<close>

definition gcptrlist_inv :: "gcptrlist \<Rightarrow> bool" where
  "gcptrlist_inv l \<longleftrightarrow> gsize l \<le> galloc l"

definition gcptrlist_abs :: "gcptrlist \<Rightarrow> u64 list" where
  "gcptrlist_abs l = map (gitems l) [0..<gsize l]"

lemma gcptrlist_abs_eqI: "gsize l = length xs \<Longrightarrow> (\<And>i. i < length xs \<Longrightarrow> gitems l i = xs ! i) \<Longrightarrow> gcptrlist_abs l = xs"
  by (rule nth_equalityI) (simp_all add: gcptrlist_abs_def)

lemma gcptrlist_grow_ok: "gcptrlist_abs (gcptrlist_grow junk l) = gcptrlist_abs l"
  "gsize (gcptrlist_grow junk l) = gsize l" "galloc l + 64 \<le> galloc (gcptrlist_grow junk l)"
  by (simp_all add: gcptrlist_grow_def Let_def gcptrlist_abs_def)

lemma gcptrlist_insert_ok:
  assumes "gcptrlist_inv l"
  shows "\<exists>l'. gcptrlist_insert junk l x = Inr l' \<and> gcptrlist_inv l' \<and> gcptrlist_abs l' = gcptrlist_abs l @ [x]"
proof -
  define m where "m = (if gsize l = galloc l then gcptrlist_grow junk l else l)"
  have m: "gsize m = gsize l" "gsize l < galloc m" "gcptrlist_abs m = gcptrlist_abs l"
    using assms gcptrlist_grow_ok [where junk = junk and l = l] by (auto simp: m_def gcptrlist_inv_def)
  let ?l = "m\<lparr>gitems := (gitems m)(gsize l := x), gsize := gsize m + 1\<rparr>"
  have "gcptrlist_abs ?l = gcptrlist_abs m @ [x]" using m(1) by (simp add: gcptrlist_abs_def)
  moreover have "gcptrlist_insert junk l x = Inr ?l"
    using m(1,2) by (simp add: gcptrlist_insert_def Let_def m_def [symmetric] gstore_def)
  ultimately show ?thesis using m by (simp add: gcptrlist_inv_def)
qed

lemma gcptrlist_pop_ok:
  "gcptrlist_inv l \<Longrightarrow> gcptrlist_abs l \<noteq> [] \<Longrightarrow>
   \<exists>l'. gcptrlist_pop l = Inr (last (gcptrlist_abs l), l') \<and> gcptrlist_inv l' \<and> gcptrlist_abs l' = butlast (gcptrlist_abs l)"
  by (cases "gsize l") (auto simp: gcptrlist_pop_def gcptrlist_inv_def gcptrlist_abs_def)

interpretation gcl: word_stack gcptrlist_inv gcptrlist_abs "gcptrlist_insert junk" gcptrlist_pop gcptrlist_clear
  by unfold_locales
    (use gcptrlist_insert_ok gcptrlist_pop_ok in \<open>auto simp: gcptrlist_clear_def gcptrlist_inv_def gcptrlist_abs_def\<close>)

lemma gcptrlist_insert2_ok:
  assumes "gcptrlist_inv l"
  shows "\<exists>l'. gcptrlist_insert2 junk l x y = Inr l' \<and> gcptrlist_inv l' \<and> gcptrlist_abs l' = gcptrlist_abs l @ [x, y]"
proof -
  define m where "m = (if galloc l - gsize l < 2 then gcptrlist_grow junk l else l)"
  have m: "gsize m = gsize l" "gsize l + 2 \<le> galloc m" "gcptrlist_abs m = gcptrlist_abs l"
    using assms gcptrlist_grow_ok [where junk = junk and l = l] by (auto simp: m_def gcptrlist_inv_def)
  let ?l = "m\<lparr>gitems := (gitems m)(gsize l := x, gsize l + 1 := y), gsize := gsize l + 2\<rparr>"
  have "gcptrlist_abs ?l = gcptrlist_abs m @ [x, y]" using m(1) by (simp add: gcptrlist_abs_def)
  moreover have "gcptrlist_insert2 junk l x y = Inr ?l"
    using m(1,2) by (simp add: gcptrlist_insert2_def Let_def m_def [symmetric] gstore_def)
  ultimately show ?thesis using m by (simp add: gcptrlist_inv_def)
qed

lemma gcptrlist_insert3_ok:
  assumes "gcptrlist_inv l"
  shows "\<exists>l'. gcptrlist_insert3 junk l x y z = Inr l' \<and> gcptrlist_inv l' \<and> gcptrlist_abs l' = gcptrlist_abs l @ [x, y, z]"
proof -
  define m where "m = (if galloc l - gsize l < 3 then gcptrlist_grow junk l else l)"
  have m: "gsize m = gsize l" "gsize l + 3 \<le> galloc m" "gcptrlist_abs m = gcptrlist_abs l"
    using assms gcptrlist_grow_ok [where junk = junk and l = l] by (auto simp: m_def gcptrlist_inv_def)
  let ?l = "m\<lparr>gitems := (gitems m)(gsize l := x, gsize l + 1 := y, gsize l + 2 := z), gsize := gsize l + 3\<rparr>"
  have "gcptrlist_abs ?l = gcptrlist_abs m @ [x, y, z]" using m(1) by (simp add: gcptrlist_abs_def numeral_3_eq_3)
  moreover have "gcptrlist_insert3 junk l x y z = Inr ?l"
    using m(1,2) by (simp add: gcptrlist_insert3_def Let_def m_def [symmetric] gstore_def)
  ultimately show ?thesis using m by (simp add: gcptrlist_inv_def)
qed

text \<open>Insertion at an index moves the item that was there to the end.\<close>

lemma gcptrlist_insert_at_ok:
  assumes "gcptrlist_inv l" and "i < gsize l"
  shows "\<exists>l'. gcptrlist_insert_at_index junk l i x = Inr l' \<and> gcptrlist_inv l' \<and>
    gcptrlist_abs l' = (gcptrlist_abs l)[i := x] @ [gcptrlist_abs l ! i]"
proof -
  obtain m where m: "gcptrlist_insert junk l 0 = Inr m" "gcptrlist_inv m" "gcptrlist_abs m = gcptrlist_abs l @ [0]"
    using gcptrlist_insert_ok [OF assms(1)] by blast
  have size: "gsize m = gsize l + 1" using arg_cong [OF m(3), of length] by (simp add: gcptrlist_abs_def)
  have nth: "gitems m j = gitems l j" if "j < gsize l" for j
    using arg_cong [OF m(3), of "\<lambda>xs. xs ! j"] that size by (simp add: gcptrlist_abs_def nth_append del: upt_Suc)
  let ?l = "m\<lparr>gitems := (gitems m)(gsize l := gitems m i, i := x)\<rparr>"
  have "gsize l < galloc m" using m(2) size by (simp add: gcptrlist_inv_def)
  then have "gcptrlist_insert_at_index junk l i x = Inr ?l"
    using m(1) assms(2) by (simp add: gcptrlist_insert_at_index_def Let_def gstore_def)
  moreover have "gcptrlist_abs ?l = (gcptrlist_abs l)[i := x] @ [gcptrlist_abs l ! i]"
    using assms(2) size nth
    by (intro gcptrlist_abs_eqI) (auto simp: gcptrlist_abs_def nth_append nth_list_update less_Suc_eq)
  moreover have "gcptrlist_inv ?l" using m(2) by (simp add: gcptrlist_inv_def)
  ultimately show ?thesis by blast
qed

lemma gcptrlist_room_ok:
  "gcptrlist_abs (gcptrlist_room junk n l) = gcptrlist_abs l \<and> gsize (gcptrlist_room junk n l) = gsize l \<and>
   gsize l + n \<le> galloc (gcptrlist_room junk n l)"
proof (induction junk n l rule: gcptrlist_room.induct)
  case (1 junk n l)
  show ?case
  proof (cases "int (galloc l) - int (gsize l) < int n")
    case True
    then show ?thesis using 1 [OF True] gcptrlist_grow_ok [where junk = junk and l = l] by (simp add: gcptrlist_room.simps [of junk n l])
  next
    case False
    then show ?thesis by (simp add: gcptrlist_room.simps [of junk n l])
  qed
qed

lemma gcptrlist_merge_ok:
  assumes "gcptrlist_inv l"
  shows "gcptrlist_inv (gcptrlist_merge junk l src)" and "gcptrlist_abs (gcptrlist_merge junk l src) = gcptrlist_abs l @ gcptrlist_abs src"
proof -
  define m where "m = gcptrlist_room junk (gsize src) l"
  have m: "gcptrlist_abs m = gcptrlist_abs l" "gsize m = gsize l" "gsize l + gsize src \<le> galloc m"
    using gcptrlist_room_ok by (simp_all add: m_def)
  show "gcptrlist_inv (gcptrlist_merge junk l src)"
    using assms m by (simp add: gcptrlist_merge_def Let_def gcptrlist_inv_def m_def [symmetric])
  have nth: "gitems m j = gitems l j" if "j < gsize l" for j
    using arg_cong [OF m(1), of "\<lambda>xs. xs ! j"] that m(2) by (simp add: gcptrlist_abs_def)
  show "gcptrlist_abs (gcptrlist_merge junk l src) = gcptrlist_abs l @ gcptrlist_abs src"
    using nth m(2)
    by (cases "gsize src = 0")
      (auto simp: gcptrlist_merge_def Let_def m_def [symmetric] gcptrlist_abs_def list_eq_iff_nth_eq nth_append)
qed

lemma gcptrlist_compress_ok:
  "gcptrlist_inv l \<Longrightarrow> gcptrlist_inv (gcptrlist_compress l) \<and> gcptrlist_abs (gcptrlist_compress l) = gcptrlist_abs l"
  by (simp add: gcptrlist_compress_def gcptrlist_inv_def gcptrlist_abs_def)

section \<open>The cache of recent reads\<close>

text \<open>
  Every entry is where an earlier shift, or the present one, put it. The cache hits an object
  when its entry is the object.
\<close>

definition fx_inv :: "fxcache \<Rightarrow> bool" where
  "fx_inv c \<longleftrightarrow> fx_shift c \<le> FX_TOTAL - FX_ENTRIES \<and>
     (\<forall>k. fx_cache c k \<noteq> 0 \<longrightarrow> (\<exists>s \<le> fx_shift c. k = s + unat (fx_cache c k AND FX_MASK) div 8))"

lemma fx_invD: "fx_inv c \<Longrightarrow> fx_cache c k \<noteq> 0 \<Longrightarrow> \<exists>s \<le> fx_shift c. k = s + unat (fx_cache c k AND FX_MASK) div 8"
  by (simp add: fx_inv_def)

definition fx_hits :: "fxcache \<Rightarrow> u64 set" where
  "fx_hits c = {p. p \<noteq> 0 \<and> FXCACHE_AT c p = p}"

lemma fx_offset: "unat (p AND FX_MASK) div 8 < FX_ENTRIES"
proof -
  have "p AND FX_MASK \<le> FX_MASK" by (rule word_and_le1)
  then have "unat (p AND FX_MASK) \<le> 65535" by (simp add: word_le_nat_alt FX_MASK_def)
  then show ?thesis by (simp add: FX_ENTRIES_def)
qed

lemma fx_clear_ok: "fx_inv c \<Longrightarrow> fx_inv (fxcache_clear c) \<and> fx_hits (fxcache_clear c) = {}"
proof -
  assume i: "fx_inv c"
  show ?thesis
  proof (cases "fx_shift c + 1 > FX_TOTAL - FX_ENTRIES")
    case True
    then show ?thesis
      by (auto simp: fxcache_clear_def Let_def fxcache_reset_def fx_inv_def fx_hits_def FXCACHE_AT_def)
  next
    case False
    have "FXCACHE_AT (c\<lparr>fx_shift := fx_shift c + 1\<rparr>) p \<noteq> p" if "p \<noteq> 0" for p
    proof
      assume p: "FXCACHE_AT (c\<lparr>fx_shift := fx_shift c + 1\<rparr>) p = p"
      let ?k = "fx_shift c + 1 + unat (p AND FX_MASK) div 8"
      have k: "fx_cache c ?k = p" using p by (simp add: FXCACHE_AT_def fx_index_def)
      from fx_invD [OF i, of ?k] that show False by (simp only: k) linarith
    qed
    moreover have "fx_inv (c\<lparr>fx_shift := fx_shift c + 1\<rparr>)"
      using i False by (auto simp: fx_inv_def) (meson le_SucI)
    ultimately show ?thesis using False by (auto simp: fxcache_clear_def Let_def fx_hits_def)
  qed
qed

lemma fx_add_ok:
  assumes "fx_inv c" and "p \<noteq> 0"
  shows "fx_inv (fxcache_add c p)" and "fx_hits (fxcache_add c p) = insert p {q \<in> fx_hits c. fx_index c q \<noteq> fx_index c p}"
  using assms by (auto simp: fx_inv_def fxcache_add_def fx_hits_def FXCACHE_AT_def fx_index_def)

lemma fx_remove_ok:
  assumes "fx_inv c"
  shows "fx_inv (fxcache_remove c p)" and "fx_hits (fxcache_remove c p) = {q \<in> fx_hits c. fx_index c q \<noteq> fx_index c p}"
  using assms by (auto simp: fx_inv_def fxcache_remove_def fx_hits_def FXCACHE_AT_def fx_index_def)


text \<open>
  The cache of recent reads only hits objects that were added since it was last cleared.
  Every access stays inside the array; clearing forgets all objects, although it only moves the
  start of the cache by one entry and leaves the entries in place; adding an object makes it a
  hit and forgets at most the objects in the same place; removing one forgets it.
\<close>

theorem fxcache_forgets:
  assumes "fx_inv c"
  shows "fx_index c p < FX_TOTAL \<and>
    fx_inv (fxcache_clear c) \<and> fx_hits (fxcache_clear c) = {} \<and>
    (p \<noteq> 0 \<longrightarrow> fx_inv (fxcache_add c p) \<and>
       fx_hits (fxcache_add c p) = insert p {q \<in> fx_hits c. fx_index c q \<noteq> fx_index c p}) \<and>
    fx_inv (fxcache_remove c p) \<and>
    fx_hits (fxcache_remove c p) = {q \<in> fx_hits c. fx_index c q \<noteq> fx_index c p}"
proof -
  have "fx_shift c \<le> FX_TOTAL - FX_ENTRIES" "FX_ENTRIES \<le> FX_TOTAL"
    using assms by (simp_all add: fx_inv_def FX_TOTAL_def)
  then have "fx_index c p < FX_TOTAL" using fx_offset [of p] by (simp add: fx_index_def)
  then show ?thesis using fx_clear_ok [OF assms] fx_add_ok [OF assms, of p] fx_remove_ok [OF assms, of p] by simp
qed

theorem fxcache_forgets_witness:
  "16 \<in> fx_hits (fxcache_add (fxcache_reset \<lparr>fx_shift = 7, fx_cache = (\<lambda>_. 0)\<rparr>) 16) \<and>
   16 \<notin> fx_hits (fxcache_clear (fxcache_add (fxcache_reset \<lparr>fx_shift = 7, fx_cache = (\<lambda>_. 0)\<rparr>) 16))"
proof -
  have "fx_inv (fxcache_reset \<lparr>fx_shift = 7, fx_cache = (\<lambda>_. 0)\<rparr>)" by (simp add: fx_inv_def fxcache_reset_def)
  from fxcache_forgets [OF this, of 16] fxcache_forgets [of "fxcache_add (fxcache_reset \<lparr>fx_shift = 7, fx_cache = (\<lambda>_. 0)\<rparr>) 16" 16]
  show ?thesis by auto
qed

text \<open>
  C34: The tree from public to private objects is a map. On a well-formed tree, inserting a new
  aligned address succeeds and updates the map, whatever the tree has to rebuild, deleting an
  address removes it, looking one up gives its value, and compressing keeps the map. The
  loop visits each address once, with its value.
\<close>

theorem g2l_is_map:
  assumes "g2l_inv t" and "aligned8 a" and "a \<noteq> 0"
  shows "G2L_FIND t a = g2l_map t a \<and>
    (g2l_map t a = None \<longrightarrow>
       (\<exists>t'. g2l_insert insert_fuel t a v = Inr t' \<and> g2l_inv t' \<and> g2l_map t' = (g2l_map t)(a \<mapsto> v))) \<and>
    g2l_inv (snd (g2l_delete_item t a)) \<and> g2l_map (snd (g2l_delete_item t a)) = (g2l_map t)(a := None) \<and>
    (\<exists>t'. g2l_compress insert_fuel t = Inr t' \<and> g2l_inv t' \<and> g2l_map t' = g2l_map t) \<and>
    (\<exists>d. g2l_loop (toplevel t) [] 0 = Some (g2l_items t, d)) \<and>
    distinct (map fst (g2l_items t)) \<and> g2l_map t = map_of (g2l_items t)"
proof -
  have a: "aligned8 a \<and> a \<noteq> 0" using assms(2,3) by simp
  have "\<exists>d. g2l_loop (toplevel t) [] 0 = Some (g2l_items t, d)"
    using g2l_loop_items [OF assms(1)] by (cases "g2l_loop (toplevel t) [] 0") auto
  moreover have "g2l_map t = map_of (g2l_items t)" by (simp add: g2l_map_def)
  ultimately show ?thesis
    using g2m.look_abs [OF assms(1) a] g2m.insert_new_abs [OF assms(1) a, of v] g2m.delete_abs [OF assms(1) a]
      g2l_compress_ok [OF assms(1)] g2l_items_ok(1) [OF assms(1)] by blast
qed

theorem g2l_is_map_witness:
  "\<exists>t'. g2l_insert insert_fuel g2l_empty 64 8 = Inr t' \<and> g2l_map t' 64 = Some 8"
  using g2l_is_map [OF g2l_empty_ok(1), of 64 8] by (auto simp: aligned8_def g2l_empty_ok(2))

end
