(* ===== verification/C4et.thy ===== *)
theory C4et
  imports C4maps
begin

text \<open>
  The transactions of the first design, \<open>c4/et.c\<close> and \<open>c4/et.h\<close>: extendable timestamps. An object
  carries a revision, which is an odd time when the object is current, the address of a newer
  version when it is not, and a lock while somebody commits. Public objects are read-only, and a
  transaction writes to private copies; protected objects of the own thread are turned private
  in place, with a backup copy. This theory has the state, validation, abort, commit and
  inevitable transactions; the barriers are in \<open>C4barrier\<close>.

  An object is its three header words, the thread word that only stubs have, and the words behind
  the header. A compare-and-swap is a step that succeeds; where the code spins or waits,
  other threads run (\<open>others4\<close>). Sections under a \<open>collection_lock\<close> are atomic, and the read-write
  lock of the collector is not modelled. Assertions are left out, and so is the summary of an abort
  in \<open>longest_abort_info\<close>. Times do not wrap around, as the code assumes too.
\<close>

section \<open>The state\<close>

record obj4 =
  h_tid :: u64
  h_revision :: u64
  h_original :: u64
  stub_thread :: nat
  fields4 :: "u64 list"

record tx4 =
  collection_lock :: string
  stolen_objects :: "(u64 \<times> u64) list"
  stolen_young_stubs :: "u64 list"
  setjmp_buf :: bool
  longjmp_callback :: bool
  start_time4 :: u64
  my_lock :: u64
  stm_thread_local_obj :: u64
  old_thread_local_obj :: u64
  atomic4 :: int
  count_reads :: nat
  reads_size_limit :: nat
  reads_size_limit_nonatomic :: nat
  stm_active :: int
  max_aborts :: int
  num_commits :: nat
  num_aborts :: "nat \<Rightarrow> nat"
  num_spinloops :: "nat \<Rightarrow> nat"
  list_of_read_objects :: "u64 list"
  private_from_protected :: "u64 list"
  num_private_from_protected_known_old :: nat
  num_read_objects_known_old :: nat
  public_to_private :: g2l
  stm_private_rev_num :: u64
  recent_reads_cache :: fxcache
  old_objects_to_trace :: "u64 list"
  public_with_young_copy :: "u64 list"
  mem_clear_on_abort4 :: "(u64 \<times> nat) option"
  callbacks_on_abort :: g2l
  nursery_base :: u64
  nursery_end4 :: u64
  nursery_current4 :: u64
  nursery_nextlimit :: u64
  already_cleared4 :: bool
  young_weakrefs4 :: "u64 list"
  old_weakrefs4 :: "u64 list"
  shadowstack4 :: "u64 list"
  abortinfo :: "(u64 \<times> int list) list"

datatype event4 = CallOnAbort u64 u64 | ClearOnAbort u64 nat

record stm4 =
  heap4 :: "u64 \<Rightarrow> obj4 option"
  thr :: "nat \<Rightarrow> tx4"
  global_cur_time :: u64
  inev_mutex :: bool
  stm_prebuilt_gcroots :: "u64 list"
  stm_tx_list :: "nat list"
  free_descriptors :: "nat list"
  next_descriptor :: nat
  sync_required :: bool
  in_single_thread :: "nat option"
  single_thread_nesting :: int
  stm_regular_length_limit :: nat
  registered_objs :: g2l
  objects_to_trace :: "(u64 \<times> nat option) list"
  countdown_next_major_coll :: nat
  events4 :: "event4 list"

text \<open>
  The program and the machine: the size of an object in bytes, where the next old object goes,
  what other threads do while a thread waits, and the reference fields of an object.
\<close>

record ext4 =
  size4 :: "obj4 \<Rightarrow> nat"
  old_alloc :: "stm4 \<Rightarrow> u64"
  others4 :: "nat \<Rightarrow> stm4 \<Rightarrow> stm4"
  refs4 :: "obj4 \<Rightarrow> nat list"

definition obj_at :: "stm4 \<Rightarrow> u64 \<Rightarrow> obj4" where
  "obj_at s p = (case heap4 s p of Some x \<Rightarrow> x
     | None \<Rightarrow> \<lparr>h_tid = 0, h_revision = 0, h_original = 0, stub_thread = 0, fields4 = []\<rparr>)"

definition set_obj :: "u64 \<Rightarrow> obj4 \<Rightarrow> stm4 \<Rightarrow> stm4" where
  "set_obj p x s = s\<lparr>heap4 := (heap4 s)(p \<mapsto> x)\<rparr>"

definition upd_obj :: "u64 \<Rightarrow> (obj4 \<Rightarrow> obj4) \<Rightarrow> stm4 \<Rightarrow> stm4" where
  "upd_obj p f s = set_obj p (f (obj_at s p)) s"

definition free_obj :: "u64 \<Rightarrow> stm4 \<Rightarrow> stm4" where
  "free_obj p s = s\<lparr>heap4 := (heap4 s)(p := None)\<rparr>"

definition upd_thr :: "nat \<Rightarrow> (tx4 \<Rightarrow> tx4) \<Rightarrow> stm4 \<Rightarrow> stm4" where
  "upd_thr me f s = s\<lparr>thr := (thr s)(me := f (thr s me))\<rparr>"

definition MAX_THREADS :: nat where "MAX_THREADS = 1024"
definition LOCKED :: u64 where "LOCKED = 0x7fffffffffffffff - 2 * (1024 - 1)"

definition gcflag4 :: "nat \<Rightarrow> u64" where "gcflag4 i = push_bit (32 + i) 1"
definition GCFLAG4_OLD :: u64 where "GCFLAG4_OLD = gcflag4 0"
definition GCFLAG4_VISITED :: u64 where "GCFLAG4_VISITED = gcflag4 1"
definition GCFLAG4_PUBLIC :: u64 where "GCFLAG4_PUBLIC = gcflag4 2"
definition GCFLAG4_PREBUILT_ORIGINAL :: u64 where "GCFLAG4_PREBUILT_ORIGINAL = gcflag4 3"
definition GCFLAG4_PUBLIC_TO_PRIVATE :: u64 where "GCFLAG4_PUBLIC_TO_PRIVATE = gcflag4 4"
definition GCFLAG4_WRITE_BARRIER :: u64 where "GCFLAG4_WRITE_BARRIER = gcflag4 5"
definition GCFLAG4_MOVED :: u64 where "GCFLAG4_MOVED = gcflag4 6"
definition GCFLAG4_BACKUP_COPY :: u64 where "GCFLAG4_BACKUP_COPY = gcflag4 7"
definition GCFLAG4_STUB :: u64 where "GCFLAG4_STUB = gcflag4 8"
definition GCFLAG4_PRIVATE_FROM_PROTECTED :: u64 where "GCFLAG4_PRIVATE_FROM_PROTECTED = gcflag4 9"
definition GCFLAG4_HAS_ID :: u64 where "GCFLAG4_HAS_ID = gcflag4 10"
definition GCFLAG4_SMALLSTUB :: u64 where "GCFLAG4_SMALLSTUB = gcflag4 12"
definition GCFLAG4_MARKED :: u64 where "GCFLAG4_MARKED = gcflag4 13"
definition GCFLAG4_WEAKREF :: u64 where "GCFLAG4_WEAKREF = gcflag4 14"
definition USER_TID_MASK :: u64 where "USER_TID_MASK = push_bit 32 1 - 1"

definition flag4 :: "stm4 \<Rightarrow> u64 \<Rightarrow> u64 \<Rightarrow> bool" where
  "flag4 s p f \<longleftrightarrow> h_tid (obj_at s p) AND f \<noteq> 0"

definition or_tid :: "u64 \<Rightarrow> u64 \<Rightarrow> stm4 \<Rightarrow> stm4" where
  "or_tid p f = upd_obj p (\<lambda>x. x\<lparr>h_tid := h_tid x OR f\<rparr>)"

definition andnot_tid :: "u64 \<Rightarrow> u64 \<Rightarrow> stm4 \<Rightarrow> stm4" where
  "andnot_tid p f = upd_obj p (\<lambda>x. x\<lparr>h_tid := h_tid x AND NOT f\<rparr>)"

definition rev_of :: "stm4 \<Rightarrow> u64 \<Rightarrow> u64" where
  "rev_of s p = h_revision (obj_at s p)"

definition set_rev :: "u64 \<Rightarrow> u64 \<Rightarrow> stm4 \<Rightarrow> stm4" where
  "set_rev p v = upd_obj p (\<lambda>x. x\<lparr>h_revision := v\<rparr>)"

definition IS_POINTER :: "u64 \<Rightarrow> bool" where
  "IS_POINTER v \<longleftrightarrow> v AND 1 = 0"

definition is_private :: "stm4 \<Rightarrow> nat \<Rightarrow> u64 \<Rightarrow> bool" where
  "is_private s me p \<longleftrightarrow> rev_of s p = stm_private_rev_num (thr s me) \<or> flag4 s p GCFLAG4_PRIVATE_FROM_PROTECTED"

definition is_inevitable4 :: "stm4 \<Rightarrow> nat \<Rightarrow> bool" where
  "is_inevitable4 s me \<longleftrightarrow> stm_active (thr s me) = 2"

definition ABRT_MANUAL :: nat where "ABRT_MANUAL = 0"
definition ABRT_COMMIT :: nat where "ABRT_COMMIT = 1"
definition ABRT_STOLEN_MODIFIED :: nat where "ABRT_STOLEN_MODIFIED = 2"
definition ABRT_VALIDATE_INFLIGHT :: nat where "ABRT_VALIDATE_INFLIGHT = 3"
definition ABRT_VALIDATE_COMMIT :: nat where "ABRT_VALIDATE_COMMIT = 4"
definition ABRT_VALIDATE_INEV :: nat where "ABRT_VALIDATE_INEV = 5"
definition SPLP_ABORT :: nat where "SPLP_ABORT = 0"
definition SPLP_LOCKED_INFLIGHT :: nat where "SPLP_LOCKED_INFLIGHT = 1"
definition SPLP_LOCKED_VALIDATE :: nat where "SPLP_LOCKED_VALIDATE = 2"
definition SPLP_LOCKED_COMMIT :: nat where "SPLP_LOCKED_COMMIT = 3"

definition SpinLoop :: "nat \<Rightarrow> nat \<Rightarrow> stm4 \<Rightarrow> stm4" where
  "SpinLoop num me = upd_thr me (\<lambda>d. d\<lparr>num_spinloops := (num_spinloops d)(num := num_spinloops d num + 1)\<rparr>)"

definition spinlock_acquire4 :: "nat \<Rightarrow> string \<Rightarrow> stm4 \<Rightarrow> stm4" where
  "spinlock_acquire4 pd c = upd_thr pd (\<lambda>d. d\<lparr>collection_lock := c\<rparr>)"

definition spinlock_release4 :: "nat \<Rightarrow> stm4 \<Rightarrow> stm4" where
  "spinlock_release4 pd = upd_thr pd (\<lambda>d. d\<lparr>collection_lock := ''''\<rparr>)"

section \<open>Stolen objects\<close>

text \<open>The items of \<open>stolen_objects\<close> come in pairs.\<close>

fun normalize_items :: "nat \<Rightarrow> (u64 \<times> u64) list \<Rightarrow> stm4 \<Rightarrow> (stm4, unit) res" where
  "normalize_items me [] s = Ret () s"
| "normalize_items me ((B, L) # xs) s =
     (let s = upd_thr me (\<lambda>d. d\<lparr>recent_reads_cache := fxcache_remove (recent_reads_cache d) B\<rparr>) s
      in if L = 0 then normalize_items me xs s
         else case g2l_insert insert_fuel (public_to_private (thr s me)) B L of
                Inl e \<Rightarrow> Fatal ''g2l_insert'' s
              | Inr t \<Rightarrow>
                  let s = upd_thr me (\<lambda>d. d\<lparr>public_to_private := t, list_of_read_objects := list_of_read_objects d @ [B]\<rparr>) s;
                      s = (if \<not> flag4 s L GCFLAG4_OLD
                           then upd_thr me (\<lambda>d. d\<lparr>public_with_young_copy := public_with_young_copy d @ [B]\<rparr>) s else s)
                  in normalize_items me xs s)"

definition stm_normalize_stolen_objects :: "nat \<Rightarrow> stm4 \<Rightarrow> (stm4, unit) res" where
  "stm_normalize_stolen_objects me s =
     bind_res (normalize_items me (stolen_objects (thr s me)) s) (\<lambda>_ s.
       Ret () (upd_thr me (\<lambda>d. d\<lparr>stolen_objects := []\<rparr>) s))"

definition normalize_if_stolen :: "nat \<Rightarrow> stm4 \<Rightarrow> (stm4, unit) res" where
  "normalize_if_stolen me s = (if stolen_objects (thr s me) \<noteq> [] then stm_normalize_stolen_objects me s else Ret () s)"

section \<open>Locks\<close>

text \<open>The first item whose private object has its usual revision ends the loop.\<close>

fun cancel_items :: "nat \<Rightarrow> (u64 \<times> u64) list \<Rightarrow> stm4 \<Rightarrow> stm4" where
  "cancel_items me [] s = s"
| "cancel_items me ((R, L) # xs) s =
     (if L = 0 then cancel_items me xs s
      else let v = rev_of s L;
               expected = (if flag4 s L GCFLAG4_PRIVATE_FROM_PROTECTED then R else stm_private_rev_num (thr s me))
           in if v = expected then s
              else cancel_items me xs (set_rev R v (set_rev L expected s)))"

definition CancelLocks :: "nat \<Rightarrow> stm4 \<Rightarrow> stm4" where
  "CancelLocks me s =
     (if \<not> g2l_any_entry (public_to_private (thr s me)) then s
      else cancel_items me (g2l_items (public_to_private (thr s me))) s)"

section \<open>Start\<close>

definition ULONG_MAX :: nat where "ULONG_MAX = 2 ^ 64 - 1"

definition update_reads_size_limit :: "nat \<Rightarrow> stm4 \<Rightarrow> stm4" where
  "update_reads_size_limit me = upd_thr me (\<lambda>d. d\<lparr>reads_size_limit :=
     if atomic4 d \<noteq> 0 then ULONG_MAX else reads_size_limit_nonatomic d\<rparr>)"

definition stm_atomic :: "int \<Rightarrow> nat \<Rightarrow> stm4 \<Rightarrow> int \<times> stm4" where
  "stm_atomic delta me s =
     (let s = update_reads_size_limit me (upd_thr me (\<lambda>d. d\<lparr>atomic4 := atomic4 d + delta\<rparr>) s)
      in (atomic4 (thr s me), s))"

definition init_transaction :: "nat \<Rightarrow> stm4 \<Rightarrow> stm4" where
  "init_transaction me = upd_thr me (\<lambda>d. d\<lparr>count_reads := 1, recent_reads_cache := fxcache_clear (recent_reads_cache d),
     abortinfo := []\<rparr>)"

definition GetGlobalCurTime :: "stm4 \<Rightarrow> u64" where
  "GetGlobalCurTime s = global_cur_time s AND NOT 1"

definition stm_begin_transaction :: "nat \<Rightarrow> bool \<Rightarrow> stm4 \<Rightarrow> stm4" where
  "stm_begin_transaction me callback s =
     (let s = init_transaction me s;
          s = upd_thr me (\<lambda>d. d\<lparr>stm_active := 1, setjmp_buf := True, longjmp_callback := callback,
                old_thread_local_obj := stm_thread_local_obj d, start_time4 := GetGlobalCurTime s\<rparr>) s
      in update_reads_size_limit me s)"

section \<open>Abort\<close>

definition abort_private_from_protected1 :: "u64 \<Rightarrow> stm4 \<Rightarrow> stm4" where
  "abort_private_from_protected1 P s =
     (let s = andnot_tid P GCFLAG4_PRIVATE_FROM_PROTECTED s; B = rev_of s P
      in if flag4 s B GCFLAG4_PUBLIC
         then let s = or_tid P GCFLAG4_PUBLIC s
              in if \<not> flag4 s P GCFLAG4_OLD then or_tid P GCFLAG4_MOVED s else s
         else let s = upd_obj P (\<lambda>x. x\<lparr>h_revision := rev_of s B, fields4 := fields4 (obj_at s B)\<rparr>) s
              in free_obj B s)"

definition AbortPrivateFromProtected :: "nat \<Rightarrow> stm4 \<Rightarrow> stm4" where
  "AbortPrivateFromProtected me s =
     upd_thr me (\<lambda>d. d\<lparr>private_from_protected := [], num_private_from_protected_known_old := 0,
         num_read_objects_known_old := 0\<rparr>)
       (foreach_f (private_from_protected (thr s me)) abort_private_from_protected1 s)"

definition purge_private_objs_from_old_objects_to_trace :: "nat \<Rightarrow> stm4 \<Rightarrow> stm4" where
  "purge_private_objs_from_old_objects_to_trace me s =
     upd_thr me (\<lambda>d. d\<lparr>old_objects_to_trace :=
       map (\<lambda>p. if p \<noteq> 0 \<and> rev_of s p = stm_private_rev_num d then 0 else p) (old_objects_to_trace d)\<rparr>) s"

definition lower_reads_limit :: "tx4 \<Rightarrow> tx4" where
  "lower_reads_limit d =
     (let limit = min (count_reads d) (reads_size_limit_nonatomic d)
      in if limit > 0 then d\<lparr>reads_size_limit_nonatomic := limit - limit div 16\<rparr> else d)"

definition clear_mem_and_call :: "nat \<Rightarrow> stm4 \<Rightarrow> stm4" where
  "clear_mem_and_call me s =
     (let s = (case mem_clear_on_abort4 (thr s me) of None \<Rightarrow> s
               | Some (p, n) \<Rightarrow> s\<lparr>events4 := events4 s @ [ClearOnAbort p n]\<rparr>);
          s = s\<lparr>events4 := events4 s @ map (\<lambda>(k, f). CallOnAbort k f) (g2l_items (callbacks_on_abort (thr s me)))\<rparr>
      in upd_thr me (\<lambda>d. d\<lparr>callbacks_on_abort := g2l_clear (callbacks_on_abort d)\<rparr>) s)"

text \<open>The jump back is the outcome \<open>Aborted\<close>.\<close>

definition AbortTransaction :: "nat \<Rightarrow> nat \<Rightarrow> stm4 \<Rightarrow> (stm4, 'a) res" where
  "AbortTransaction num me s =
     bind_res (if collection_lock (thr s me) \<noteq> ''C'' then normalize_if_stolen me (spinlock_acquire4 me ''C'' s)
               else Ret () (CancelLocks me s)) (\<lambda>_ s.
       let s = upd_thr me (\<lambda>d. d\<lparr>num_aborts := (num_aborts d)(num := num_aborts d num + 1)\<rparr>) s;
           s = upd_thr me lower_reads_limit s;
           s = AbortPrivateFromProtected me s;
           s = upd_thr me (\<lambda>d. d\<lparr>list_of_read_objects := [], public_to_private := g2l_clear (public_to_private d),
                 stm_thread_local_obj := old_thread_local_obj d, old_thread_local_obj := 0\<rparr>) s;
           s = purge_private_objs_from_old_objects_to_trace me s;
           s = SpinLoop SPLP_ABORT me s;
           s = upd_thr me (\<lambda>d. d\<lparr>stm_active := 0, atomic4 := 0\<rparr>) s;
           s = spinlock_release4 me s;
           s = clear_mem_and_call me s;
           left = max_aborts (thr s me);
           s = (if num \<noteq> ABRT_MANUAL \<and> left \<ge> 0 then upd_thr me (\<lambda>d. d\<lparr>max_aborts := left - 1\<rparr>) s else s)
       in if num \<noteq> ABRT_MANUAL \<and> left = 0 then Fatal ''unexpected abort!'' s
          else if longjmp_callback (thr s me) then Aborted (stm_begin_transaction me True s)
          else Aborted s)"

definition AbortTransactionAfterCollect :: "nat \<Rightarrow> nat \<Rightarrow> stm4 \<Rightarrow> stm4" where
  "AbortTransactionAfterCollect reason me s =
     (if stm_active (thr s me) \<ge> 0 then upd_thr me (\<lambda>d. d\<lparr>stm_active := - int reason\<rparr>) s else s)"

definition AbortNowIfDelayed :: "nat \<Rightarrow> stm4 \<Rightarrow> (stm4, unit) res" where
  "AbortNowIfDelayed me s =
     (let active = stm_active (thr s me)
      in if active < 0 then AbortTransaction (nat (- active)) me (upd_thr me (\<lambda>d. d\<lparr>stm_active := 1\<rparr>) s)
         else Ret () s)"

definition inev_mutex_release :: "stm4 \<Rightarrow> stm4" where
  "inev_mutex_release s = s\<lparr>inev_mutex := False\<rparr>"

definition inev_mutex_acquire :: "ext4 \<Rightarrow> nat \<Rightarrow> stm4 \<Rightarrow> (stm4, unit) res" where
  "inev_mutex_acquire X me s =
     (let s = others4 X me s
      in if inev_mutex s then Hang s
         else let s = s\<lparr>inev_mutex := True\<rparr>
              in if stm_active (thr s me) < 0
                 then bind_res (AbortNowIfDelayed me (inev_mutex_release s)) (\<lambda>_ s. Fatal ''abort'' s)
                 else Ret () s)"


section \<open>Validation\<close>

text \<open>One read object, after the \<open>goto retry\<close>s: is it still current?\<close>

fun validate_object :: "nat \<Rightarrow> ext4 \<Rightarrow> nat \<Rightarrow> bool \<Rightarrow> u64 \<Rightarrow> stm4 \<Rightarrow> (stm4, bool) res" where
  "validate_object 0 X me during_commit R s = Hang s"
| "validate_object (Suc n) X me during_commit R s =
     (let v = rev_of s R
      in if IS_POINTER v
         then if flag4 s R GCFLAG4_PRIVATE_FROM_PROTECTED
              then if flag4 s v GCFLAG4_PUBLIC then validate_object n X me during_commit v s else Ret True s
              else if flag4 s R GCFLAG4_PUBLIC \<and> flag4 s R GCFLAG4_MOVED
                   then validate_object n X me during_commit v s
                   else Ret False s
         else if LOCKED \<le>s v
              then if \<not> during_commit
                   then validate_object n X me during_commit R (others4 X me (SpinLoop SPLP_LOCKED_VALIDATE me s))
                   else Ret (v = my_lock (thr s me)) s
              else Ret True s)"

fun validate_objects :: "nat \<Rightarrow> ext4 \<Rightarrow> nat \<Rightarrow> bool \<Rightarrow> u64 list \<Rightarrow> stm4 \<Rightarrow> (stm4, bool) res" where
  "validate_objects n X me during_commit [] s = Ret True s"
| "validate_objects n X me during_commit (R # Rs) s =
     bind_res (validate_object n X me during_commit R s) (\<lambda>ok s.
       if ok then validate_objects n X me during_commit Rs s else Ret False s)"

definition ValidateDuringTransaction :: "nat \<Rightarrow> ext4 \<Rightarrow> nat \<Rightarrow> bool \<Rightarrow> stm4 \<Rightarrow> (stm4, bool) res" where
  "ValidateDuringTransaction n X me during_commit s =
     validate_objects n X me during_commit (list_of_read_objects (thr s me)) s"

definition ValidateNow :: "nat \<Rightarrow> ext4 \<Rightarrow> nat \<Rightarrow> stm4 \<Rightarrow> (stm4, unit) res" where
  "ValidateNow n X me s =
     bind_res (normalize_if_stolen me (upd_thr me (\<lambda>d. d\<lparr>start_time4 := GetGlobalCurTime s\<rparr>) s)) (\<lambda>_ s.
     bind_res (ValidateDuringTransaction n X me False s) (\<lambda>ok s.
       if ok then Ret () s else AbortTransaction ABRT_VALIDATE_INFLIGHT me s))"

section \<open>Commit\<close>

fun acquire_item :: "nat \<Rightarrow> ext4 \<Rightarrow> nat \<Rightarrow> u64 \<Rightarrow> u64 \<Rightarrow> stm4 \<Rightarrow> (stm4, unit) res" where
  "acquire_item 0 X me R L s = Hang s"
| "acquire_item (Suc n) X me R L s =
     (let v = rev_of s R
      in if IS_POINTER v then AbortTransaction ABRT_COMMIT me s
         else if LOCKED \<le>s v then acquire_item n X me R L (others4 X me (SpinLoop SPLP_LOCKED_COMMIT me s))
         else Ret () (set_rev L v (set_rev R (my_lock (thr s me)) s)))"

fun acquire_items :: "nat \<Rightarrow> ext4 \<Rightarrow> nat \<Rightarrow> (u64 \<times> u64) list \<Rightarrow> stm4 \<Rightarrow> (stm4, unit) res" where
  "acquire_items n X me [] s = Ret () s"
| "acquire_items n X me ((R, L) # xs) s =
     bind_res (acquire_item n X me R L s) (\<lambda>_ s. acquire_items n X me xs s)"

definition AcquireLocks :: "nat \<Rightarrow> ext4 \<Rightarrow> nat \<Rightarrow> stm4 \<Rightarrow> (stm4, unit) res" where
  "AcquireLocks n X me s =
     (if \<not> g2l_any_entry (public_to_private (thr s me)) then Ret () s
      else acquire_items n X me (g2l_items (public_to_private (thr s me))) s)"

text \<open>
  The first loop of \<open>UpdateChainHeads\<close> gives each private object its new revision and makes a stub
  that points to it; the second links the public object to the stub.
\<close>

definition new_stub :: "ext4 \<Rightarrow> nat \<Rightarrow> u64 \<Rightarrow> stm4 \<Rightarrow> (stm4, u64) res" where
  "new_stub X me L s =
     (let stub = old_alloc X s; x = obj_at s L
      in if h_original x = 0 \<and> h_tid x AND GCFLAG4_OLD = 0 then Fatal ''assert'' s
         else Ret stub (set_obj stub \<lparr>h_tid = (h_tid x AND USER_TID_MASK) OR GCFLAG4_PUBLIC OR GCFLAG4_STUB
                  OR GCFLAG4_SMALLSTUB OR GCFLAG4_OLD, h_revision = L OR 2,
                h_original = (if h_original x \<noteq> 0 then h_original x else L), stub_thread = me, fields4 = []\<rparr> s))"

fun stub_items :: "ext4 \<Rightarrow> nat \<Rightarrow> u64 \<Rightarrow> (u64 \<times> u64) list \<Rightarrow> stm4 \<Rightarrow> (stm4, (u64 \<times> u64) list) res" where
  "stub_items X me new_revision [] s = Ret [] s"
| "stub_items X me new_revision ((R, L) # xs) s =
     bind_res (new_stub X me L (set_rev L new_revision s)) (\<lambda>stub s.
     bind_res (stub_items X me new_revision xs s) (\<lambda>ys s. Ret ((R, stub) # ys) s))"

definition link_item :: "u64 \<times> u64 \<Rightarrow> stm4 \<Rightarrow> stm4" where
  "link_item = (\<lambda>(R, v) s.
     let s = set_rev R v s
     in if flag4 s R GCFLAG4_PREBUILT_ORIGINAL
        then s\<lparr>stm_prebuilt_gcroots := stm_prebuilt_gcroots s @ [R]\<rparr> else s)"

definition UpdateChainHeads :: "ext4 \<Rightarrow> nat \<Rightarrow> u64 \<Rightarrow> stm4 \<Rightarrow> (stm4, unit) res" where
  "UpdateChainHeads X me cur_time s =
     (if \<not> g2l_any_entry (public_to_private (thr s me)) then Ret () s
      else bind_res (stub_items X me (cur_time + 1) (g2l_items (public_to_private (thr s me))) s) (\<lambda>items s.
        Ret () (upd_thr me (\<lambda>d. d\<lparr>public_to_private := g2l_clear (public_to_private d)\<rparr>)
          (foreach_f items link_item s))))"

fun commit_pfp_items :: "nat \<Rightarrow> u64 \<Rightarrow> u64 list \<Rightarrow> stm4 \<Rightarrow> (stm4, unit) res" where
  "commit_pfp_items me new_revision [] s = Ret () s"
| "commit_pfp_items me new_revision (P # Ps) s =
     (let s = andnot_tid P GCFLAG4_PRIVATE_FROM_PROTECTED s; B = rev_of s P
      in if \<not> IS_POINTER B then commit_pfp_items me new_revision Ps s
         else let s = set_rev P new_revision s
              in if flag4 s B GCFLAG4_PUBLIC
                 then if IS_POINTER (rev_of s B) then AbortTransaction ABRT_STOLEN_MODIFIED me s
                      else commit_pfp_items me new_revision Ps (set_rev B P s)
                 else commit_pfp_items me new_revision Ps (free_obj B s))"

definition CommitPrivateFromProtected :: "nat \<Rightarrow> u64 \<Rightarrow> stm4 \<Rightarrow> (stm4, unit) res" where
  "CommitPrivateFromProtected me cur_time s =
     bind_res (commit_pfp_items me (cur_time + 1) (private_from_protected (thr s me)) s) (\<lambda>_ s.
       Ret () (upd_thr me (\<lambda>d. d\<lparr>private_from_protected := [], num_private_from_protected_known_old := 0,
         num_read_objects_known_old := 0\<rparr>) s))"

text \<open>The loop that moves the global time on, while other transactions are inevitable.\<close>

fun commit_time :: "nat \<Rightarrow> ext4 \<Rightarrow> nat \<Rightarrow> stm4 \<Rightarrow> (stm4, u64) res" where
  "commit_time 0 X me s = Hang s"
| "commit_time (Suc n) X me s =
     (let cur_time = global_cur_time s
      in if cur_time AND 1 \<noteq> 0
         then bind_res (inev_mutex_acquire X me (spinlock_release4 me (CancelLocks me s))) (\<lambda>_ s.
              bind_res (normalize_if_stolen me (spinlock_acquire4 me ''C'' (inev_mutex_release s))) (\<lambda>_ s.
              bind_res (AcquireLocks n X me s) (\<lambda>_ s. commit_time n X me s)))
         else Ret cur_time (s\<lparr>global_cur_time := cur_time + 2\<rparr>))"

definition commit_validated :: "nat \<Rightarrow> ext4 \<Rightarrow> nat \<Rightarrow> bool \<Rightarrow> stm4 \<Rightarrow> (stm4, u64) res" where
  "commit_validated n X me stay_inevitable s =
     (if is_inevitable4 s me
      then let cur_time = start_time4 (thr s me)
           in if global_cur_time s \<noteq> cur_time + 1
              then Fatal ''global_cur_time modified even though we are inev'' s
              else let s = s\<lparr>global_cur_time := cur_time + 2\<rparr>
                   in Ret cur_time (if \<not> stay_inevitable then inev_mutex_release s else s)
      else bind_res (commit_time n X me s) (\<lambda>cur_time s.
             if cur_time \<noteq> start_time4 (thr s me)
             then bind_res (ValidateDuringTransaction n X me True s) (\<lambda>ok s.
                    if ok then Ret cur_time s else AbortTransaction ABRT_VALIDATE_COMMIT me s)
             else Ret cur_time s))"

definition CommitTransaction :: "nat \<Rightarrow> ext4 \<Rightarrow> nat \<Rightarrow> bool \<Rightarrow> stm4 \<Rightarrow> (stm4, unit) res" where
  "CommitTransaction n X me stay_inevitable s =
     bind_res (normalize_if_stolen me (spinlock_acquire4 me ''C'' s)) (\<lambda>_ s.
     bind_res (AcquireLocks n X me s) (\<lambda>_ s.
     bind_res (commit_validated n X me stay_inevitable s) (\<lambda>cur_time s.
     bind_res (CommitPrivateFromProtected me cur_time s) (\<lambda>_ s.
     let s = upd_thr me (\<lambda>d. d\<lparr>setjmp_buf := False, old_thread_local_obj := 0, list_of_read_objects := [],
               stm_private_rev_num := - (cur_time + 1)\<rparr>) s
     in bind_res (UpdateChainHeads X me cur_time s) (\<lambda>_ s.
     Ret () (upd_thr me (\<lambda>d. d\<lparr>num_commits := num_commits d + 1, stm_active := 0,
               callbacks_on_abort := g2l_clear (callbacks_on_abort d)\<rparr>) (spinlock_release4 me s)))))))"

section \<open>Inevitable transactions\<close>

definition make_inevitable :: "nat \<Rightarrow> stm4 \<Rightarrow> stm4" where
  "make_inevitable me s =
     update_reads_size_limit me (upd_thr me (\<lambda>d. d\<lparr>setjmp_buf := False, old_thread_local_obj := 0,
        stm_active := 2, reads_size_limit_nonatomic := 0\<rparr>) s)"

definition acquire_inev_mutex_and_mark_global_cur_time :: "ext4 \<Rightarrow> nat \<Rightarrow> stm4 \<Rightarrow> (stm4, u64) res" where
  "acquire_inev_mutex_and_mark_global_cur_time X me s =
     bind_res (inev_mutex_acquire X me s) (\<lambda>_ s.
       Ret (global_cur_time s) (s\<lparr>global_cur_time := global_cur_time s + 1\<rparr>))"

definition BecomeInevitable :: "nat \<Rightarrow> ext4 \<Rightarrow> nat \<Rightarrow> stm4 \<Rightarrow> (stm4, unit) res" where
  "BecomeInevitable n X me s =
     (if stm_active (thr s me) \<noteq> 1 then Ret () s
      else bind_res (acquire_inev_mutex_and_mark_global_cur_time X me s) (\<lambda>cur_time s.
        if start_time4 (thr s me) \<noteq> cur_time
        then bind_res (ValidateDuringTransaction n X me False (upd_thr me (\<lambda>d. d\<lparr>start_time4 := cur_time\<rparr>) s)) (\<lambda>ok s.
               if \<not> ok
               then AbortTransaction ABRT_VALIDATE_INEV me (inev_mutex_release (s\<lparr>global_cur_time := cur_time\<rparr>))
               else Ret () (make_inevitable me s))
        else Ret () (make_inevitable me s)))"

definition BeginInevitableTransaction :: "ext4 \<Rightarrow> nat \<Rightarrow> bool \<Rightarrow> stm4 \<Rightarrow> (stm4, unit) res" where
  "BeginInevitableTransaction X me already_inevitable s =
     (let s = init_transaction me s
      in bind_res (if already_inevitable
                   then Ret (global_cur_time s) (s\<lparr>global_cur_time := global_cur_time s + 1\<rparr>)
                   else acquire_inev_mutex_and_mark_global_cur_time X me s) (\<lambda>cur_time s.
         Ret () (make_inevitable me (upd_thr me (\<lambda>d. d\<lparr>start_time4 := cur_time\<rparr>) s))))"

end
