(* ===== verification/C4nursery.thy ===== *)
theory C4nursery
  imports C4et
begin

text \<open>
  The nursery of the first design (\<open>c4/nursery.c\<close>, \<open>c4/nursery.h\<close>): its sections, allocation in
  it without a collection, and the copies of objects that the barriers make. An object is in the
  heap at its address; memory that is cleared or not used yet has no object.
\<close>

definition GC_NURSERY :: nat where "GC_NURSERY = 4190208"
definition GC_NURSERY_SECTION :: nat where "GC_NURSERY_SECTION = 135168"
definition END_MARKER_OFF :: u64 where "END_MARKER_OFF = 16"
definition END_MARKER_ON :: u64 where "END_MARKER_ON = 24"

definition stmgc_is_in_nursery :: "stm4 \<Rightarrow> nat \<Rightarrow> u64 \<Rightarrow> bool" where
  "stmgc_is_in_nursery s me obj \<longleftrightarrow> nursery_base (thr s me) \<le> obj \<and> obj < nursery_end4 (thr s me)"

definition clear_memory4 :: "u64 \<Rightarrow> nat \<Rightarrow> stm4 \<Rightarrow> stm4" where
  "clear_memory4 a n s = s\<lparr>heap4 := (\<lambda>p. if unat a \<le> unat p \<and> unat p < unat a + n then None else heap4 s p)\<rparr>"

text \<open>A cleared object of some size behind its header word \<open>h_tid\<close>.\<close>

definition cleared_obj :: "nat \<Rightarrow> u64 \<Rightarrow> obj4" where
  "cleared_obj sz tid = \<lparr>h_tid = tid, h_revision = 0, h_original = 0, stub_thread = 0,
     fields4 = replicate ((sz - 24) div 8) 0\<rparr>"

definition stmgc_init_nursery :: "nat \<Rightarrow> u64 \<Rightarrow> stm4 \<Rightarrow> stm4" where
  "stmgc_init_nursery me base = upd_thr me (\<lambda>d. d\<lparr>nursery_base := base, nursery_end4 := base + of_nat GC_NURSERY,
     nursery_current4 := base, nursery_nextlimit := base, already_cleared4 := False\<rparr>)"

definition stmgc_done_nursery :: "nat \<Rightarrow> stm4 \<Rightarrow> stm4" where
  "stmgc_done_nursery me s = upd_thr me (\<lambda>d. d\<lparr>old_objects_to_trace := [], public_with_young_copy := [],
     young_weakrefs4 := []\<rparr>) (clear_memory4 (nursery_base (thr s me)) GC_NURSERY s)"

definition stmgc_minor_collect_soon :: "nat \<Rightarrow> stm4 \<Rightarrow> stm4" where
  "stmgc_minor_collect_soon me = upd_thr me (\<lambda>d. d\<lparr>nursery_current4 := nursery_end4 d\<rparr>)"

text \<open>The end of \<open>allocate_next_section\<close>, and the fast path of \<open>allocate_nursery\<close>.\<close>

definition take_section :: "nat \<Rightarrow> nat \<Rightarrow> u64 \<Rightarrow> stm4 \<Rightarrow> u64 \<times> stm4" where
  "take_section me sz tid s =
     (let d = thr s me;
          s = (if \<not> already_cleared4 d then clear_memory4 (nursery_nextlimit d) GC_NURSERY_SECTION s else s);
          s = upd_thr me (\<lambda>d. d\<lparr>nursery_nextlimit := nursery_nextlimit d + of_nat GC_NURSERY_SECTION\<rparr>) s;
          P = nursery_current4 (thr s me);
          s = upd_thr me (\<lambda>d. d\<lparr>nursery_current4 := nursery_current4 d + of_nat sz\<rparr>) s
      in (P, set_obj P (cleared_obj sz tid) s))"

text \<open>\<open>allocate_nursery\<close> with the tid -1, which must not collect.\<close>

definition allocate_nursery_no_collect :: "nat \<Rightarrow> nat \<Rightarrow> stm4 \<Rightarrow> u64 option \<times> stm4" where
  "allocate_nursery_no_collect me sz s =
     (let cur = nursery_current4 (thr s me); end = cur + of_nat sz;
          s = upd_thr me (\<lambda>d. d\<lparr>nursery_current4 := end\<rparr>) s
      in if end > nursery_nextlimit (thr s me)
         then let s = upd_thr me (\<lambda>d. d\<lparr>nursery_current4 := nursery_current4 d - of_nat sz\<rparr>) s; d = thr s me
              in if sz > GC_NURSERY_SECTION \<or> nursery_nextlimit d = nursery_end4 d \<or> nursery_current4 d = nursery_end4 d
                 then (None, s)
                 else let (P, s) = take_section me sz (-1) s in (Some P, s)
         else (Some cur, set_obj cur (cleared_obj sz (-1)) s))"

section \<open>Copies\<close>

definition stmgc_duplicate_old :: "ext4 \<Rightarrow> u64 \<Rightarrow> stm4 \<Rightarrow> u64 \<times> stm4" where
  "stmgc_duplicate_old X P s =
     (let L = old_alloc X s; x = obj_at s P in (L, set_obj L (x\<lparr>h_tid := h_tid x OR GCFLAG4_OLD\<rparr>) s))"

definition stmgc_duplicate :: "ext4 \<Rightarrow> nat \<Rightarrow> u64 \<Rightarrow> stm4 \<Rightarrow> u64 \<times> stm4" where
  "stmgc_duplicate X me P s =
     (case allocate_nursery_no_collect me (size4 X (obj_at s P)) s of
        (None, s) \<Rightarrow> stmgc_duplicate_old X P s
      | (Some L, s) \<Rightarrow> (let x = obj_at s P
          in (L, set_obj L (x\<lparr>h_tid := (h_tid x AND NOT GCFLAG4_OLD) AND NOT GCFLAG4_HAS_ID\<rparr>) s)))"

definition stm_copy_to_old_id_copy :: "u64 \<Rightarrow> u64 \<Rightarrow> stm4 \<Rightarrow> stm4" where
  "stm_copy_to_old_id_copy P id_copy s =
     (let x = obj_at s P
      in set_obj id_copy (x\<lparr>h_tid := (h_tid x AND NOT GCFLAG4_HAS_ID) OR GCFLAG4_OLD\<rparr>) s)"

end
