(* ===== verification/C4barrier.thy ===== *)
theory C4barrier
  imports C4nursery
begin

text \<open>
  The barriers of the first design (\<open>c4/et.c\<close>, \<open>c4/stmgc.h\<close>) and stealing
  (\<open>c4/steal.c\<close>). A read follows the chain of revisions
  to the newest public version, or to the private version of the own transaction; an object that
  only another thread may read is stolen from it: it, or its backup, becomes public, and its
  references to objects of that thread become references to stubs.
\<close>

section \<open>Private copies\<close>

definition LocalizeProtected :: "ext4 \<Rightarrow> nat \<Rightarrow> u64 \<Rightarrow> stm4 \<Rightarrow> u64 \<times> stm4" where
  "LocalizeProtected X me P s =
     (let (B, s) = stmgc_duplicate_old X P s;
          s = upd_obj B (\<lambda>x. x\<lparr>h_tid := (h_tid x OR GCFLAG4_BACKUP_COPY) AND NOT GCFLAG4_HAS_ID\<rparr>) s;
          s = (if h_original (obj_at s P) = 0 \<and> flag4 s P GCFLAG4_OLD
               then upd_obj B (\<lambda>x. x\<lparr>h_original := P\<rparr>) s else s);
          s = set_rev P B (or_tid P GCFLAG4_PRIVATE_FROM_PROTECTED s)
      in (P, upd_thr me (\<lambda>d. d\<lparr>private_from_protected := private_from_protected d @ [P]\<rparr>) s))"

definition LocalizePublic :: "ext4 \<Rightarrow> nat \<Rightarrow> u64 \<Rightarrow> stm4 \<Rightarrow> (stm4, u64) res" where
  "LocalizePublic X me R s =
     (let s = or_tid R GCFLAG4_PUBLIC_TO_PRIVATE s; (L, s) = stmgc_duplicate X me R s;
          s = (if h_original (obj_at s L) = 0 \<or> flag4 s L GCFLAG4_PREBUILT_ORIGINAL
               then upd_obj L (\<lambda>x. x\<lparr>h_original := R\<rparr>) s else s);
          s = andnot_tid L (GCFLAG4_VISITED OR GCFLAG4_MARKED OR GCFLAG4_PUBLIC OR GCFLAG4_PREBUILT_ORIGINAL OR
                GCFLAG4_PUBLIC_TO_PRIVATE OR GCFLAG4_WRITE_BARRIER) s;
          s = set_rev L (stm_private_rev_num (thr s me)) s
      in case g2l_insert insert_fuel (public_to_private (thr s me)) R L of
           Inl e \<Rightarrow> Fatal ''g2l_insert'' s
         | Inr t \<Rightarrow> Ret L (upd_thr me (\<lambda>d. d\<lparr>public_to_private := t,
                       recent_reads_cache := fxcache_remove (recent_reads_cache d) R\<rparr>) s))"

section \<open>Stealing\<close>

text \<open>
  One reference of a stolen object. The dictionary of the stubs that were made so far is passed
  along; \<open>stm_stub_malloc\<close> only looks at the size of the object for the room that it takes.
\<close>

definition replace_ptr_to_protected_with_stub :: "ext4 \<Rightarrow> nat \<Rightarrow> u64 \<Rightarrow> g2l \<Rightarrow> stm4 \<Rightarrow> (stm4, u64 \<times> g2l) res" where
  "replace_ptr_to_protected_with_stub X foreign p all_stubs s =
     (if p = 0 \<or> flag4 s p GCFLAG4_PUBLIC \<and> flag4 s p GCFLAG4_OLD then Ret (p, all_stubs) s
      else case G2L_FIND all_stubs p of
        Some stub \<Rightarrow> Ret (stub, all_stubs) s
      | None \<Rightarrow>
          let x = obj_at s p;
              big = h_original x = 0 \<and> h_tid x AND GCFLAG4_OLD = 0;
              stub = old_alloc X s;
              s = set_obj stub \<lparr>h_tid = (h_tid x AND USER_TID_MASK) OR GCFLAG4_PUBLIC OR GCFLAG4_STUB OR GCFLAG4_OLD
                      OR (if \<not> big then GCFLAG4_SMALLSTUB else 0), h_revision = p OR 2,
                    h_original = (if h_original x \<noteq> 0 then h_original x else if h_tid x AND GCFLAG4_OLD \<noteq> 0 then p else 0),
                    stub_thread = foreign, fields4 = []\<rparr> s;
              s = (if big
                   then let s = upd_obj p (\<lambda>x. x\<lparr>h_original := stub\<rparr>) s
                        in if flag4 s p GCFLAG4_PRIVATE_FROM_PROTECTED
                           then upd_obj (rev_of s p) (\<lambda>x. x\<lparr>h_original := stub\<rparr>) s else s
                   else s)
          in case g2l_insert insert_fuel all_stubs p stub of
               Inl e \<Rightarrow> Fatal ''g2l_insert'' s
             | Inr t \<Rightarrow> Ret (stub, t) (if h_tid x AND GCFLAG4_OLD = 0
                 then upd_thr foreign (\<lambda>d. d\<lparr>stolen_young_stubs := stolen_young_stubs d @ [stub]\<rparr>) s else s))"

fun trace_stolen :: "ext4 \<Rightarrow> nat \<Rightarrow> u64 \<Rightarrow> nat list \<Rightarrow> g2l \<Rightarrow> stm4 \<Rightarrow> (stm4, unit) res" where
  "trace_stolen X foreign L [] all_stubs s = Ret () s"
| "trace_stolen X foreign L (i # is) all_stubs s =
     bind_res (replace_ptr_to_protected_with_stub X foreign (fields4 (obj_at s L) ! i) all_stubs s) (\<lambda>(stub, t) s.
       trace_stolen X foreign L is t (upd_obj L (\<lambda>x. x\<lparr>fields4 := (fields4 x)[i := stub]\<rparr>) s))"

text \<open>
  The object that becomes public: the backup of a private object, a copy of a young one, or the
  object itself. The flag says whether it was public already.
\<close>

definition steal_target :: "ext4 \<Rightarrow> nat \<Rightarrow> u64 \<Rightarrow> stm4 \<Rightarrow> (bool \<times> u64) \<times> stm4" where
  "steal_target X foreign L s =
     (if flag4 s L GCFLAG4_PRIVATE_FROM_PROTECTED
      then let B = rev_of s L;
               s = (if h_original (obj_at s L) = 0 \<and> flag4 s L GCFLAG4_OLD
                    then upd_obj B (\<lambda>x. x\<lparr>h_original := L\<rparr>) s else s);
               s = andnot_tid B GCFLAG4_BACKUP_COPY s
           in if flag4 s B GCFLAG4_PUBLIC_TO_PRIVATE then ((True, B), s)
              else let s = or_tid B GCFLAG4_PUBLIC_TO_PRIVATE s;
                       s = upd_thr foreign (\<lambda>d. d\<lparr>stolen_objects := stolen_objects d @ [(B, L)]\<rparr>) s
                   in ((False, B), s)
      else if flag4 s L GCFLAG4_PUBLIC
      then ((True, if flag4 s L GCFLAG4_MOVED then rev_of s L else L), s)
      else if \<not> flag4 s L GCFLAG4_OLD
      then let (Q, s) =
                 (if flag4 s L GCFLAG4_HAS_ID
                  then let Q = h_original (obj_at s L);
                           s = stm_copy_to_old_id_copy L Q (andnot_tid L GCFLAG4_HAS_ID s)
                       in (Q, upd_obj Q (\<lambda>x. x\<lparr>h_original := 0\<rparr>) s)
                  else let (Q, s) = stmgc_duplicate_old X L s
                       in (Q, if h_original (obj_at s L) = 0 then upd_obj L (\<lambda>x. x\<lparr>h_original := Q\<rparr>) s else s));
               s = or_tid L (GCFLAG4_PUBLIC OR GCFLAG4_MOVED) (set_rev L Q s);
               s = upd_thr foreign (\<lambda>d. d\<lparr>stolen_objects := stolen_objects d @ [(L, 0)]\<rparr>) s
           in ((False, Q), s)
      else ((False, L), s))"

definition stm_steal_stub :: "ext4 \<Rightarrow> u64 \<Rightarrow> stm4 \<Rightarrow> (stm4, unit) res" where
  "stm_steal_stub X P s =
     (let foreign = stub_thread (obj_at s P); s = spinlock_acquire4 foreign ''S'' s; v = rev_of s P
      in if v AND 3 \<noteq> 2 then Ret () (spinlock_release4 foreign s)
         else let ((already, L), s) = steal_target X foreign (v - 2) s
              in bind_res (if already then Ret () s
                           else let s = or_tid L GCFLAG4_PUBLIC s
                                in trace_stolen X foreign L (refs4 X (obj_at s L) @
                                     (if flag4 s L GCFLAG4_WEAKREF then [length (fields4 (obj_at s L)) - 1] else [])) g2l_empty s) (\<lambda>_ s.
                 Ret () (spinlock_release4 foreign (set_rev P L s))))"

section \<open>Reading\<close>

definition at_cache :: "stm4 \<Rightarrow> nat \<Rightarrow> u64 \<Rightarrow> bool" where
  "at_cache s me P \<longleftrightarrow> FXCACHE_AT (recent_reads_cache (thr s me)) P = P"

text \<open>
  From a public object whose revision \<open>v\<close> is a pointer: follow the chain, with the shortcut over
  the second step, until a stub (\<open>True\<close>) or an object whose revision is a time.
\<close>

fun follow_chain :: "nat \<Rightarrow> u64 \<Rightarrow> u64 \<Rightarrow> stm4 \<Rightarrow> (stm4, bool \<times> u64 \<times> u64) res" where
  "follow_chain 0 P v s = Hang s"
| "follow_chain (Suc n) P v s =
     (if v AND 2 \<noteq> 0 then Ret (True, P, v) s
      else let P_prev = P; P = v; v = rev_of s P
           in if IS_POINTER v
              then if v AND 2 \<noteq> 0 then Ret (True, P, v) s
                   else let s = set_rev P_prev v s; P = v; v = rev_of s P
                        in if IS_POINTER v then follow_chain n P v s else Ret (False, P, v) s
              else Ret (False, P, v) s)"

definition add_read :: "bool \<Rightarrow> nat \<Rightarrow> u64 \<Rightarrow> stm4 \<Rightarrow> (stm4, u64) res" where
  "add_read in_list me P s =
     (let s = (if in_list then upd_thr me (\<lambda>d. d\<lparr>list_of_read_objects := list_of_read_objects d @ [P]\<rparr>) s else s)
      in Ret P (upd_thr me (\<lambda>d. d\<lparr>recent_reads_cache := fxcache_add (recent_reads_cache d) P\<rparr>) s))"

text \<open>The entry of the own transaction for a public object, also if it still waits among the stolen ones.\<close>

definition find_private :: "nat \<Rightarrow> u64 \<Rightarrow> stm4 \<Rightarrow> (stm4, u64 option) res" where
  "find_private me P s =
     (if \<not> flag4 s P GCFLAG4_PUBLIC_TO_PRIVATE then Ret None s
      else case G2L_FIND (public_to_private (thr s me)) P of
        Some L \<Rightarrow> Ret (Some L) s
      | None \<Rightarrow> if stolen_objects (thr s me) \<noteq> []
                then bind_res (stm_normalize_stolen_objects me s) (\<lambda>_ s.
                       Ret (G2L_FIND (public_to_private (thr s me)) P) s)
                else Ret None s)"

text \<open>\<open>public_only\<close> is the label \<open>restart_all_public\<close>, otherwise it is \<open>restart_all\<close>.\<close>

fun read_loop :: "nat \<Rightarrow> ext4 \<Rightarrow> nat \<Rightarrow> bool \<Rightarrow> u64 \<Rightarrow> stm4 \<Rightarrow> (stm4, u64) res" where
  "read_loop 0 X me public_only P s = Hang s"
| "read_loop (Suc n) X me public_only P s =
     (if \<not> public_only \<and> flag4 s P GCFLAG4_PRIVATE_FROM_PROTECTED
      then if IS_POINTER (rev_of s (rev_of s P)) then AbortTransaction ABRT_STOLEN_MODIFIED me s
           else add_read False me P s
      else if public_only \<or> flag4 s P GCFLAG4_PUBLIC
      then let v = rev_of s P; moved = IS_POINTER v
           in bind_res (if moved then follow_chain n P v s else Ret (False, P, v) s) (\<lambda>(stub, P, v) s.
              if stub
              then if stub_thread (obj_at s P) = me
                   then let P = v - 2
                        in if rev_of s P \<noteq> stm_private_rev_num (thr s me) \<and> \<not> at_cache s me P
                           then read_loop n X me False P s else Ret P s
                   else bind_res (stm_steal_stub X P s) (\<lambda>_ s. read_loop n X me True P s)
              else if moved \<and> at_cache s me P then Ret P s
              else bind_res (find_private me P s) (\<lambda>found s.
                case found of
                  Some L \<Rightarrow> Ret L s
                | None \<Rightarrow>
                    if start_time4 (thr s me) <s v
                    then if LOCKED \<le>s v
                         then read_loop n X me True P (others4 X me (SpinLoop SPLP_LOCKED_INFLIGHT me s))
                         else bind_res (ValidateNow n X me s) (\<lambda>_ s. read_loop n X me True P s)
                    else add_read True me P s))
      else add_read True me P s)"

definition stm_DirectReadBarrier :: "nat \<Rightarrow> ext4 \<Rightarrow> nat \<Rightarrow> u64 \<Rightarrow> stm4 \<Rightarrow> (stm4, u64) res" where
  "stm_DirectReadBarrier n X me G s =
     read_loop n X me False G (upd_thr me (\<lambda>d. d\<lparr>count_reads := count_reads d + 1\<rparr>) s)"

definition stm_read_barrier :: "nat \<Rightarrow> ext4 \<Rightarrow> nat \<Rightarrow> u64 \<Rightarrow> stm4 \<Rightarrow> (stm4, u64) res" where
  "stm_read_barrier n X me P s =
     (if rev_of s P \<noteq> stm_private_rev_num (thr s me) \<and> \<not> at_cache s me P
      then stm_DirectReadBarrier n X me P s else Ret P s)"

definition stm_RepeatReadBarrier :: "nat \<Rightarrow> u64 \<Rightarrow> stm4 \<Rightarrow> u64" where
  "stm_RepeatReadBarrier me P s =
     (let moved = flag4 s P GCFLAG4_MOVED; P = (if moved then rev_of s P else P)
      in if moved \<and> \<not> flag4 s P GCFLAG4_PUBLIC_TO_PRIVATE then P
         else case G2L_FIND (public_to_private (thr s me)) P of Some L \<Rightarrow> L | None \<Rightarrow> P)"

definition stm_repeat_read_barrier :: "nat \<Rightarrow> u64 \<Rightarrow> stm4 \<Rightarrow> u64" where
  "stm_repeat_read_barrier me P s =
     (if flag4 s P (GCFLAG4_PUBLIC_TO_PRIVATE OR GCFLAG4_MOVED) then stm_RepeatReadBarrier me P s else P)"

text \<open>The retry at the end goes through the macro \<open>stm_immut_read_barrier\<close>, which looks for a stub.\<close>

fun stm_immut_read_barrier :: "nat \<Rightarrow> ext4 \<Rightarrow> nat \<Rightarrow> u64 \<Rightarrow> stm4 \<Rightarrow> (stm4, u64) res" where
  "stm_immut_read_barrier 0 X me P s = Hang s"
| "stm_immut_read_barrier (Suc n) X me P s =
     (if \<not> flag4 s P GCFLAG4_STUB then Ret P s
      else let v = rev_of s P
           in if v AND 2 = 0 then stm_immut_read_barrier n X me v s
              else if stub_thread (obj_at s P) = me then stm_immut_read_barrier n X me (v - 2) s
              else bind_res (stm_steal_stub X P s) (\<lambda>_ s. stm_immut_read_barrier n X me P s))"

section \<open>Writing\<close>

definition record_write_barrier :: "nat \<Rightarrow> u64 \<Rightarrow> stm4 \<Rightarrow> stm4" where
  "record_write_barrier me P s =
     (if flag4 s P GCFLAG4_WRITE_BARRIER
      then upd_thr me (\<lambda>d. d\<lparr>old_objects_to_trace := old_objects_to_trace d @ [P]\<rparr>) (andnot_tid P GCFLAG4_WRITE_BARRIER s)
      else s)"

definition stm_RepeatWriteBarrier :: "nat \<Rightarrow> u64 \<Rightarrow> stm4 \<Rightarrow> u64 \<times> stm4" where
  "stm_RepeatWriteBarrier me P s =
     (P, upd_thr me (\<lambda>d. d\<lparr>old_objects_to_trace := old_objects_to_trace d @ [P]\<rparr>) (andnot_tid P GCFLAG4_WRITE_BARRIER s))"

definition localize_object :: "ext4 \<Rightarrow> nat \<Rightarrow> u64 \<Rightarrow> stm4 \<Rightarrow> (stm4, u64) res" where
  "localize_object X me R s =
     (if flag4 s R GCFLAG4_PUBLIC
      then let R = (if flag4 s R GCFLAG4_MOVED then rev_of s R else R)
           in bind_res (LocalizePublic X me R s) (\<lambda>W s.
                Ret W (if flag4 s W GCFLAG4_OLD
                       then upd_thr me (\<lambda>d. d\<lparr>old_objects_to_trace := old_objects_to_trace d @ [W]\<rparr>) s
                       else upd_thr me (\<lambda>d. d\<lparr>public_with_young_copy := public_with_young_copy d @ [R]\<rparr>) s))
      else let (W, s) = LocalizeProtected X me R s in Ret W (record_write_barrier me W s))"

definition stm_WriteBarrier :: "nat \<Rightarrow> ext4 \<Rightarrow> nat \<Rightarrow> u64 \<Rightarrow> stm4 \<Rightarrow> (stm4, u64) res" where
  "stm_WriteBarrier n X me P s =
     (if is_private s me P then Ret P (record_write_barrier me P s)
      else bind_res (stm_read_barrier n X me P s) (\<lambda>R s.
        if is_private s me R then Ret R (record_write_barrier me R s)
        else bind_res (normalize_if_stolen me (spinlock_acquire4 me ''L'' s)) (\<lambda>_ s.
             bind_res (localize_object X me R s) (\<lambda>W s.
               Ret W (spinlock_release4 me s)))))"

definition stm_write_barrier :: "nat \<Rightarrow> ext4 \<Rightarrow> nat \<Rightarrow> u64 \<Rightarrow> stm4 \<Rightarrow> (stm4, u64) res" where
  "stm_write_barrier n X me P s =
     (if rev_of s P \<noteq> stm_private_rev_num (thr s me) \<or> flag4 s P GCFLAG4_WRITE_BARRIER
      then stm_WriteBarrier n X me P s else Ret P s)"

end
