(* ===== verification/C4commit.thy ===== *)
theory C4commit
  imports C4et
begin

text \<open>
  Commit, abort and locks of the first design. A commit that is cancelled leaves no trace; a
  commit that succeeds makes every other transaction that has read one of its objects fail
  its validation; an abort gives the protected objects their old contents.
\<close>

named_theorems heap4_simps

lemma obj_set_obj [heap4_simps]: "obj_at (set_obj p x s) q = (if q = p then x else obj_at s q)"
  by (simp add: obj_at_def set_obj_def)

lemma obj_upd_obj [heap4_simps]: "obj_at (upd_obj p f s) q = (if q = p then f (obj_at s p) else obj_at s q)"
  by (simp add: upd_obj_def obj_set_obj)

lemma obj_upd_thr [heap4_simps]: "obj_at (upd_thr me f s) = obj_at s" "heap4 (upd_thr me f s) = heap4 s"
  "thr (upd_thr me f s) = (thr s)(me := f (thr s me))" "global_cur_time (upd_thr me f s) = global_cur_time s"
  by (simp_all add: upd_thr_def obj_at_def fun_eq_iff)

lemma dom_set_obj [heap4_simps]: "heap4 (set_obj p x s) = (heap4 s)(p \<mapsto> x)" "thr (set_obj p x s) = thr s"
  "global_cur_time (set_obj p x s) = global_cur_time s"
  by (simp_all add: set_obj_def)

lemma set_rev_fields [simp]:
  "thr (set_rev p v s) = thr s" "global_cur_time (set_rev p v s) = global_cur_time s"
  "rev_of (set_rev p v s) q = (if q = p then v else rev_of s q)" "flag4 (set_rev p v s) = flag4 s"
  "inev_mutex (set_rev p v s) = inev_mutex s" "fields4 (obj_at (set_rev p v s) q) = fields4 (obj_at s q)"
  "h_tid (obj_at (set_rev p v s) q) = h_tid (obj_at s q)" "h_original (obj_at (set_rev p v s) q) = h_original (obj_at s q)"
  by (simp_all add: set_rev_def upd_obj_def set_obj_def rev_of_def flag4_def obj_at_def fun_eq_iff)

lemma set_rev_dom [simp]: "heap4 s p \<noteq> None \<Longrightarrow> (heap4 (set_rev p v s) q = None) = (heap4 s q = None)"
  by (simp add: set_rev_def upd_obj_def set_obj_def)

lemma set_rev_other [simp]: "q \<noteq> p \<Longrightarrow> heap4 (set_rev p v s) q = heap4 s q"
  by (simp add: set_rev_def upd_obj_def set_obj_def)

lemma set_rev_same: "heap4 s p \<noteq> None \<Longrightarrow> set_rev p (rev_of s p) s = s"
  by (auto simp: set_rev_def upd_obj_def set_obj_def rev_of_def obj_at_def intro!: stm4.equality)

lemma set_rev_twice: "set_rev p v (set_rev p w s) = set_rev p v s"
  by (simp add: set_rev_def upd_obj_def set_obj_def obj_at_def)

lemma set_rev_commute: "p \<noteq> q \<Longrightarrow> set_rev p v (set_rev q w s) = set_rev q w (set_rev p v s)"
  by (simp add: set_rev_def upd_obj_def set_obj_def obj_at_def fun_upd_twist)

section \<open>Taking the locks and giving them back\<close>

text \<open>What the loop of \<open>AcquireLocks\<close> does to the heap when it meets no obstacle.\<close>

fun acquired :: "nat \<Rightarrow> (u64 \<times> u64) list \<Rightarrow> stm4 \<Rightarrow> stm4" where
  "acquired me [] s = s"
| "acquired me ((R, L) # xs) s = acquired me xs (set_rev L (rev_of s R) (set_rev R (my_lock (thr s me)) s))"

definition places :: "(u64 \<times> u64) list \<Rightarrow> u64 set" where
  "places xs = fst ` set xs \<union> snd ` set xs"

definition apart4 :: "(u64 \<times> u64) list \<Rightarrow> bool" where
  "apart4 xs \<longleftrightarrow> distinct (map fst xs @ map snd xs)"

definition usual_rev :: "stm4 \<Rightarrow> nat \<Rightarrow> u64 \<times> u64 \<Rightarrow> u64" where
  "usual_rev s me = (\<lambda>(R, L). if flag4 s L GCFLAG4_PRIVATE_FROM_PROTECTED then R else stm_private_rev_num (thr s me))"

text \<open>The private objects are unlocked: \<open>L\<close> is a private copy of \<open>R\<close>, in the usual form.\<close>

definition unlocked_items :: "nat \<Rightarrow> (u64 \<times> u64) list \<Rightarrow> stm4 \<Rightarrow> bool" where
  "unlocked_items me xs s \<longleftrightarrow> apart4 xs \<and>
     (\<forall>(R, L) \<in> set xs. heap4 s R \<noteq> None \<and> heap4 s L \<noteq> None \<and> L \<noteq> 0 \<and> IS_POINTER R \<and> IS_POINTER L \<and> rev_of s L = usual_rev s me (R, L))"

definition current_rev :: "nat \<Rightarrow> stm4 \<Rightarrow> u64 \<Rightarrow> bool" where
  "current_rev me s R \<longleftrightarrow> \<not> IS_POINTER (rev_of s R) \<and> \<not> LOCKED \<le>s rev_of s R \<and> rev_of s R \<noteq> stm_private_rev_num (thr s me)"

lemma places_simps [simp]: "places [] = {}" "places ((R, L) # xs) = insert R (insert L (places xs))"
  by (auto simp: places_def)

lemma apart4_Cons [simp]: "apart4 ((R, L) # xs) \<longleftrightarrow> R \<noteq> L \<and> R \<notin> places xs \<and> L \<notin> places xs \<and> apart4 xs"
  by (auto simp: apart4_def places_def image_iff)

lemma acquired_frame: "thr (acquired me xs s) = thr s" "flag4 (acquired me xs s) = flag4 s"
  "global_cur_time (acquired me xs s) = global_cur_time s" "inev_mutex (acquired me xs s) = inev_mutex s"
  "fields4 (obj_at (acquired me xs s) p) = fields4 (obj_at s p)" "h_tid (obj_at (acquired me xs s) p) = h_tid (obj_at s p)"
  "h_original (obj_at (acquired me xs s) p) = h_original (obj_at s p)"
  by (induction me xs s rule: acquired.induct) simp_all

lemma acquired_other: "p \<notin> places xs \<Longrightarrow> heap4 (acquired me xs s) p = heap4 s p \<and> rev_of (acquired me xs s) p = rev_of s p"
  by (induction me xs s rule: acquired.induct) auto

lemma acquired_commute: "p \<notin> places xs \<Longrightarrow> set_rev p v (acquired me xs s) = acquired me xs (set_rev p v s)"
proof (induction me xs s rule: acquired.induct)
  case (2 me R L xs s)
  then show ?case by (auto simp: set_rev_commute [of p R] set_rev_commute [of p L])
qed simp

lemma acquired_dom: "(\<forall>(R, L) \<in> set xs. heap4 s R \<noteq> None \<and> heap4 s L \<noteq> None) \<Longrightarrow>
  (heap4 (acquired me xs s) p = None) = (heap4 s p = None)"
proof (induction me xs s rule: acquired.induct)
  case (2 me R L xs s)
  have "\<forall>(R', L') \<in> set xs. heap4 (set_rev L (rev_of s R) (set_rev R (my_lock (thr s me)) s)) R' \<noteq> None \<and>
      heap4 (set_rev L (rev_of s R) (set_rev R (my_lock (thr s me)) s)) L' \<noteq> None"
    using 2(2) by (auto simp: set_rev_def upd_obj_def set_obj_def)
  then show ?case using 2 by simp
qed simp

lemma acquired_revs:
  "apart4 xs \<Longrightarrow> (R, L) \<in> set xs \<Longrightarrow>
   rev_of (acquired me xs s) R = my_lock (thr s me) \<and> rev_of (acquired me xs s) L = rev_of s R"
proof (induction me xs s rule: acquired.induct)
  case (2 me R' L' xs s)
  show ?case
  proof (cases "(R, L) = (R', L')")
    case True
    then show ?thesis using 2(2) acquired_other [of _ xs] by simp
  next
    case False
    then have "(R, L) \<in> set xs" using 2(3) by auto
    moreover have "R \<in> places xs" using calculation by (force simp: places_def)
    ultimately show ?thesis using 2 by auto
  qed
qed simp

lemma acquire_items_acquired:
  "apart4 (xs @ ys) \<Longrightarrow> (\<forall>(R, L) \<in> set xs. current_rev me s R) \<Longrightarrow>
   acquire_items (Suc n) X me (xs @ ys) s = acquire_items (Suc n) X me ys (acquired me xs s)"
proof (induction me xs s rule: acquired.induct)
  case (2 me R L xs s)
  let ?s = "set_rev L (rev_of s R) (set_rev R (my_lock (thr s me)) s)"
  have "current_rev me ?s R'" if "(R', L') \<in> set xs" for R' L'
  proof -
    have "R' \<in> places (xs @ ys)" using that by (force simp: places_def)
    then have "R' \<noteq> R" "R' \<noteq> L" using 2(2) by auto
    then show ?thesis using 2(3) that by (auto simp: current_rev_def)
  qed
  then show ?case using 2 by (auto simp: current_rev_def Let_def)
qed simp

lemma cancel_acquired:
  "unlocked_items me (xs @ ys) s \<Longrightarrow> (\<forall>(R, L) \<in> set xs. current_rev me s R) \<Longrightarrow>
   cancel_items me (xs @ ys) (acquired me xs s) = s"
proof (induction xs arbitrary: s)
  case Nil
  show ?case
  proof (cases ys)
    case (Cons p zs)
    then show ?thesis using Nil(1) by (cases p) (auto simp: unlocked_items_def usual_rev_def)
  qed simp
next
  case (Cons p xs)
  obtain R L where p: "p = (R, L)" by (cases p)
  define lock where "lock = my_lock (thr s me)"
  define s1 where "s1 = set_rev L (rev_of s R) (set_rev R lock s)"
  have u: "apart4 ((R, L) # xs @ ys)" "heap4 s R \<noteq> None" "heap4 s L \<noteq> None" "L \<noteq> 0" "IS_POINTER R"
    "rev_of s L = usual_rev s me (R, L)" and c: "current_rev me s R"
    using Cons.prems by (simp_all add: unlocked_items_def p)
  have R: "R \<notin> places xs" and L: "L \<notin> places xs" and RL: "R \<noteq> L" using u(1) by (auto simp: places_def)
  have acq: "acquired me (p # xs) s = acquired me xs s1" by (simp add: p s1_def lock_def)
  have rL: "rev_of (acquired me xs s1) L = rev_of s R" using acquired_other [OF L] RL by (simp add: s1_def)
  have fl: "flag4 (acquired me xs s1) = flag4 s" "thr (acquired me xs s1) = thr s" by (simp_all add: acquired_frame s1_def)
  have ne: "rev_of s R \<noteq> usual_rev s me (R, L)" using c u(5) by (auto simp: current_rev_def usual_rev_def)
  have undo: "set_rev R (rev_of s R) (set_rev L (rev_of s L) s1) = s"
  proof -
    have "set_rev L (rev_of s L) s1 = set_rev R lock s"
      using set_rev_same [OF u(3)] RL by (simp add: s1_def set_rev_twice) (metis set_rev_commute set_rev_same u(3))
    then show ?thesis using set_rev_same [OF u(2)] by (simp add: set_rev_twice)
  qed
  have "cancel_items me (p # xs @ ys) (acquired me xs s1) =
      cancel_items me (xs @ ys) (set_rev R (rev_of s R) (set_rev L (usual_rev s me (R, L)) (acquired me xs s1)))"
    using ne u(4) by (auto simp: p rL fl usual_rev_def Let_def)
  also have "set_rev R (rev_of s R) (set_rev L (usual_rev s me (R, L)) (acquired me xs s1)) = acquired me xs s"
    using undo u(6) by (simp add: acquired_commute [OF L] acquired_commute [OF R])
  also have "cancel_items me (xs @ ys) (acquired me xs s) = s"
    using Cons.IH [of s] Cons.prems by (auto simp: unlocked_items_def p)
  finally show ?case by (simp add: acq)
qed

lemma abort_bind: "bind_res (AbortTransaction num me s) f = AbortTransaction num me s"
  unfolding AbortTransaction_def bind_res_assoc
  by (rule arg_cong [where f = "bind_res _"]) (simp add: Let_def fun_eq_iff)

lemma no_entry_items: "g2l_inv t \<Longrightarrow> \<not> g2l_any_entry t \<Longrightarrow> g2l_items t = []"
proof -
  assume "g2l_inv t" and n: "\<not> g2l_any_entry t"
  then obtain k where k: "tree_inv k" "t = ren_tree k" unfolding g2l_inv_def by blast
  have "raw_used k = 0" using n by (simp add: k(2) g2l_any_entry_def ren_tree_def)
  then have "sum_list (map entry_space (toplevel k)) = 0" using k(1) by (simp add: tree_inv_def)
  from tree_space_0 [OF this] have "tree_items k = []" by (simp only: tree_items_def entry_items.simps(3))
  then show ?thesis by (simp add: k(2) ren_items)
qed

section \<open>The parts of a commit\<close>

definition validates :: "nat \<Rightarrow> stm4 \<Rightarrow> u64 \<Rightarrow> bool" where
  "validates me s Q \<longleftrightarrow>
     (if IS_POINTER (rev_of s Q) then flag4 s Q GCFLAG4_PRIVATE_FROM_PROTECTED \<and> \<not> flag4 s (rev_of s Q) GCFLAG4_PUBLIC
      else LOCKED \<le>s rev_of s Q \<longrightarrow> rev_of s Q = my_lock (thr s me))"

lemma validate_ok: "(\<forall>Q \<in> set Qs. validates me s Q) \<Longrightarrow> validate_objects (Suc n) X me True Qs s = Ret True s"
  by (induction Qs) (auto simp: validates_def Let_def)

lemma andnot_tid_fields [simp]:
  "thr (andnot_tid p f s) = thr s" "global_cur_time (andnot_tid p f s) = global_cur_time s"
  "rev_of (andnot_tid p f s) q = rev_of s q" "fields4 (obj_at (andnot_tid p f s) q) = fields4 (obj_at s q)"
  "h_original (obj_at (andnot_tid p f s) q) = h_original (obj_at s q)"
  "h_tid (obj_at (andnot_tid p f s) q) = (if q = p then h_tid (obj_at s p) AND NOT f else h_tid (obj_at s q))"
  by (simp_all add: andnot_tid_def upd_obj_def set_obj_def rev_of_def obj_at_def)

lemma andnot_tid_heap [simp]: "q \<noteq> p \<Longrightarrow> heap4 (andnot_tid p f s) q = heap4 s q"
  "heap4 (andnot_tid p f s) p \<noteq> None"
  by (simp_all add: andnot_tid_def upd_obj_def set_obj_def)

lemma set_rev_heap [simp]: "heap4 (set_rev p v s) p \<noteq> None"
  by (simp add: set_rev_def upd_obj_def set_obj_def)

lemma heap_eq_obj: "heap4 s' p = heap4 s p \<Longrightarrow> obj_at s' p = obj_at s p \<and> rev_of s' p = rev_of s p \<and> flag4 s' p f = flag4 s p f"
  by (simp add: obj_at_def rev_of_def flag4_def)

lemma free_obj_fields [simp]: "thr (free_obj p s) = thr s" "global_cur_time (free_obj p s) = global_cur_time s"
  "q \<noteq> p \<Longrightarrow> heap4 (free_obj p s) q = heap4 s q"
  by (simp_all add: free_obj_def)

text \<open>An object whose private version came from a protected one, after the commit.\<close>

definition pfp_committed :: "u64 \<Rightarrow> stm4 \<Rightarrow> stm4 \<Rightarrow> u64 \<Rightarrow> bool" where
  "pfp_committed nr s s' P \<longleftrightarrow> heap4 s' P \<noteq> None \<and> fields4 (obj_at s' P) = fields4 (obj_at s P) \<and>
     h_original (obj_at s' P) = h_original (obj_at s P) \<and>
     h_tid (obj_at s' P) = h_tid (obj_at s P) AND NOT GCFLAG4_PRIVATE_FROM_PROTECTED \<and>
     rev_of s' P = (if IS_POINTER (rev_of s P) then nr else rev_of s P)"

lemma pfp_committed_cong: "heap4 s P = heap4 u P \<Longrightarrow> pfp_committed nr s s' P = pfp_committed nr u s' P"
  using heap_eq_obj [of s P u] by (simp add: pfp_committed_def)

lemma commit_pfp_ok:
  "distinct Ps \<Longrightarrow> (\<forall>P \<in> set Ps. heap4 s P \<noteq> None \<and> IS_POINTER P \<and>
      (IS_POINTER (rev_of s P) \<longrightarrow> \<not> flag4 s (rev_of s P) GCFLAG4_PUBLIC \<and> rev_of s P \<notin> set Ps)) \<Longrightarrow>
   \<exists>s'. commit_pfp_items me nr Ps s = Ret () s' \<and> thr s' = thr s \<and> global_cur_time s' = global_cur_time s \<and>
     (\<forall>p. p \<notin> set Ps \<longrightarrow> p \<notin> rev_of s ` set Ps \<longrightarrow> heap4 s' p = heap4 s p) \<and>
     (\<forall>p. p \<notin> set Ps \<longrightarrow> heap4 s p = None \<longrightarrow> heap4 s' p = None) \<and>
     (\<forall>P \<in> set Ps. pfp_committed nr s s' P)"
proof (induction Ps arbitrary: s)
  case (Cons P Ps)
  define B where "B = rev_of s P"
  define u where "u = (let s1 = andnot_tid P GCFLAG4_PRIVATE_FROM_PROTECTED s in
      if IS_POINTER B then free_obj B (set_rev P nr s1) else s1)"
  have BP: "IS_POINTER B \<Longrightarrow> B \<noteq> P \<and> B \<notin> set Ps \<and> \<not> flag4 s B GCFLAG4_PUBLIC" using Cons.prems(2) by (auto simp: B_def)
  have step: "commit_pfp_items me nr (P # Ps) s = commit_pfp_items me nr Ps u"
    using BP by (auto simp: u_def B_def Let_def flag4_def)
  have uh: "heap4 u q = heap4 s q" if "q \<noteq> P" "q \<noteq> B" for q using that by (simp add: u_def Let_def)
  have uP: "pfp_committed nr s u P"
    using BP by (auto simp: u_def B_def Let_def pfp_committed_def obj_at_def rev_of_def free_obj_def)
      (simp_all add: set_rev_def andnot_tid_def upd_obj_def set_obj_def obj_at_def)
  have uT: "thr u = thr s" "global_cur_time u = global_cur_time s" by (simp_all add: u_def Let_def)
  have same: "heap4 u Q = heap4 s Q \<and> rev_of u Q = rev_of s Q" if "Q \<in> set Ps" for Q
  proof -
    have "Q \<noteq> P" using that Cons.prems(1) by auto
    moreover have "Q \<noteq> B \<or> \<not> IS_POINTER B" using BP that by auto
    moreover have "heap4 u Q = heap4 s Q" if "\<not> IS_POINTER B" "Q \<noteq> P" using that by (simp add: u_def Let_def)
    ultimately have "heap4 u Q = heap4 s Q" using uh by blast
    then show ?thesis using heap_eq_obj by blast
  qed
  have nopub: "\<not> flag4 u (rev_of s Q) GCFLAG4_PUBLIC"
    if "Q \<in> set Ps" "IS_POINTER (rev_of s Q)" for Q
  proof -
    let ?C = "rev_of s Q"
    have C: "\<not> flag4 s ?C GCFLAG4_PUBLIC" "?C \<noteq> P" using Cons.prems(2) that by auto
    show ?thesis
    proof (cases "?C = B")
      case True
      then have "heap4 u ?C = None" using that(2) C(2) by (simp add: u_def Let_def free_obj_def)
      then show ?thesis by (simp add: flag4_def obj_at_def)
    next
      case False
      then show ?thesis using uh [OF C(2)] C(1) heap_eq_obj by metis
    qed
  qed
  have "\<forall>Q \<in> set Ps. heap4 u Q \<noteq> None \<and> IS_POINTER Q \<and> (IS_POINTER (rev_of u Q) \<longrightarrow> \<not> flag4 u (rev_of u Q) GCFLAG4_PUBLIC \<and> rev_of u Q \<notin> set Ps)"
    using Cons.prems(2) same nopub by simp
  then obtain s' where s': "commit_pfp_items me nr Ps u = Ret () s'" "thr s' = thr u" "global_cur_time s' = global_cur_time u"
    "\<forall>p. p \<notin> set Ps \<longrightarrow> p \<notin> rev_of u ` set Ps \<longrightarrow> heap4 s' p = heap4 u p" "\<forall>Q \<in> set Ps. pfp_committed nr u s' Q"
    "\<forall>p. p \<notin> set Ps \<longrightarrow> heap4 u p = None \<longrightarrow> heap4 s' p = None"
    using Cons.IH [of u] Cons.prems(1) by auto
  have img: "rev_of u ` set Ps = rev_of s ` set Ps" using same by (intro image_cong) auto
  have rest: "\<forall>p. p \<notin> set (P # Ps) \<longrightarrow> p \<notin> rev_of s ` set (P # Ps) \<longrightarrow> heap4 s' p = heap4 s p"
    using s'(4) uh unfolding img by (simp add: B_def)
  have "heap4 u q = None" if "q \<noteq> P" "heap4 s q = None" for q
    using that uh [of q] by (cases "q = B") (auto simp: u_def Let_def free_obj_def)
  then have none: "\<forall>p. p \<notin> set (P # Ps) \<longrightarrow> heap4 s p = None \<longrightarrow> heap4 s' p = None" using s'(6) by simp
  have "P \<notin> rev_of s ` set Ps"
    using Cons.prems(2) by auto
  then have "heap4 s' P = heap4 u P" using s'(4) Cons.prems(1) unfolding img by simp
  then have "pfp_committed nr s s' P" using uP heap_eq_obj [of s' P u] unfolding pfp_committed_def by simp
  moreover have "\<forall>Q \<in> set Ps. pfp_committed nr s s' Q" using s'(5) same pfp_committed_cong by blast
  ultimately show ?case using step s'(1,2,3) uT rest none by auto
qed (simp add: pfp_committed_def)

text \<open>Allocation takes a free place out of a pool, as long as there is one; addresses are even.\<close>

definition free4 :: "u64 list \<Rightarrow> stm4 \<Rightarrow> u64 set" where
  "free4 pool s = {p \<in> set pool. heap4 s p = None}"

definition alloc_ok4 :: "u64 list \<Rightarrow> ext4 \<Rightarrow> bool" where
  "alloc_ok4 pool X \<longleftrightarrow> (\<forall>p \<in> set pool. IS_POINTER p) \<and> (\<forall>s. free4 pool s \<noteq> {} \<longrightarrow> old_alloc X s \<in> free4 pool s)"

definition stub_tid :: "u64 \<Rightarrow> u64" where
  "stub_tid tid = (tid AND USER_TID_MASK) OR GCFLAG4_PUBLIC OR GCFLAG4_STUB OR GCFLAG4_SMALLSTUB OR GCFLAG4_OLD"

definition stub_for :: "nat \<Rightarrow> stm4 \<Rightarrow> u64 \<Rightarrow> u64 \<Rightarrow> bool" where
  "stub_for me s L st \<longleftrightarrow> heap4 s st \<noteq> None \<and> h_revision (obj_at s st) = L OR 2 \<and> stub_thread (obj_at s st) = me \<and>
     h_tid (obj_at s st) = stub_tid (h_tid (obj_at s L))"

definition stubbable :: "stm4 \<Rightarrow> u64 \<Rightarrow> bool" where
  "stubbable s L \<longleftrightarrow> heap4 s L \<noteq> None \<and> (h_original (obj_at s L) \<noteq> 0 \<or> h_tid (obj_at s L) AND GCFLAG4_OLD \<noteq> 0)"

lemma stub_for_keep: "stub_for me s L st \<Longrightarrow> heap4 s' st = heap4 s st \<Longrightarrow> h_tid (obj_at s' L) = h_tid (obj_at s L) \<Longrightarrow> stub_for me s' L st"
  using heap_eq_obj [of s' st s] by (simp add: stub_for_def)

lemma set_obj_fields [simp]: "thr (set_obj p x s) = thr s" "global_cur_time (set_obj p x s) = global_cur_time s"
  "q \<noteq> p \<Longrightarrow> heap4 (set_obj p x s) q = heap4 s q" "heap4 (set_obj p x s) p = Some x" "obj_at (set_obj p x s) p = x"
  by (simp_all add: set_obj_def obj_at_def)

definition stubbed :: "nat \<Rightarrow> u64 \<Rightarrow> (u64 \<times> u64) list \<Rightarrow> stm4 \<Rightarrow> (u64 \<times> u64) list \<Rightarrow> stm4 \<Rightarrow> bool" where
  "stubbed me nr xs s ys s' \<longleftrightarrow> thr s' = thr s \<and> global_cur_time s' = global_cur_time s \<and>
     map fst ys = map fst xs \<and>
     (\<forall>p. heap4 s p \<noteq> None \<longrightarrow> p \<notin> snd ` set xs \<longrightarrow> heap4 s' p = heap4 s p) \<and>
     (\<forall>(R, L) \<in> set xs. heap4 s' L \<noteq> None \<and> rev_of s' L = nr \<and> h_tid (obj_at s' L) = h_tid (obj_at s L) \<and>
        fields4 (obj_at s' L) = fields4 (obj_at s L)) \<and>
     (\<forall>R L st. (R, L) \<in> set xs \<and> (R, st) \<in> set ys \<longrightarrow> heap4 s st = None \<and> IS_POINTER st \<and> stub_for me s' L st)"

lemma stub_items_ok:
  assumes X: "alloc_ok4 pool X"
  shows "apart4 xs \<Longrightarrow> (\<forall>(R, L) \<in> set xs. heap4 s R \<noteq> None \<and> stubbable s L) \<Longrightarrow> length xs \<le> card (free4 pool s) \<Longrightarrow>
   \<exists>ys s'. stub_items X me nr xs s = Ret ys s' \<and> stubbed me nr xs s ys s'"
proof (induction xs arbitrary: s)
  case (Cons p xs)
  obtain R L where p: "p = (R, L)" by (cases p)
  define s1 where "s1 = set_rev L nr s"
  define st where "st = old_alloc X s1"
  have L: "stubbable s L" "heap4 s L \<noteq> None" and R: "heap4 s R \<noteq> None" using Cons.prems(2) by (auto simp: p stubbable_def)
  have fr: "free4 pool s1 = free4 pool s" using L(2) by (auto simp: free4_def s1_def)
  then have "free4 pool s1 \<noteq> {}" using Cons.prems(3) by auto
  then have st_in: "st \<in> free4 pool s1" using X by (simp add: alloc_ok4_def st_def)
  then have fresh: "heap4 s1 st = None" "IS_POINTER st" using X by (simp_all add: alloc_ok4_def free4_def)
  define u where "u = set_obj st \<lparr>h_tid = stub_tid (h_tid (obj_at s1 L)), h_revision = L OR 2,
     h_original = (if h_original (obj_at s1 L) \<noteq> 0 then h_original (obj_at s1 L) else L), stub_thread = me, fields4 = []\<rparr> s1"
  have new: "new_stub X me L s1 = Ret st u"
    using L(1) by (simp add: new_stub_def Let_def u_def st_def stub_tid_def stubbable_def s1_def)
  have s_st: "heap4 s st = None" "st \<noteq> L" "st \<noteq> R" using fresh(1) L(2) R by (auto simp: s1_def)
  have uh: "heap4 u q = heap4 s q" if "q \<noteq> L" "q \<noteq> st" for q using that by (simp add: u_def s1_def)
  have uL: "heap4 u L = heap4 s1 L" using s_st by (simp add: u_def)
  have uLne_aux: "heap4 u L \<noteq> None" "heap4 u st \<noteq> None" using uL by (simp_all add: s1_def u_def)
  have apart: "R \<notin> places xs" "L \<notin> places xs" "R \<noteq> L" "apart4 xs" using Cons.prems(1) by (simp_all add: p)
  have u_in: "heap4 u q = heap4 s q" if "q \<in> places xs" "heap4 s q \<noteq> None" for q
    using that apart(2) s_st(1) by (intro uh) auto
  have "free4 pool u = free4 pool s - {st}"
    using s_st L(2) uLne_aux uh by (auto simp: free4_def) (metis option.distinct(1))+
  then have room: "length xs \<le> card (free4 pool u)"
    using Cons.prems(3) st_in fr by (simp add: p)
  have "heap4 u R' \<noteq> None \<and> stubbable u L'" if "(R', L') \<in> set xs" for R' L'
  proof -
    have "R' \<in> places xs" "L' \<in> places xs" using that by (force simp: places_def)+
    moreover have "heap4 s R' \<noteq> None" "stubbable s L'" using Cons.prems(2) that by auto
    ultimately show ?thesis using u_in heap_eq_obj [of u L' s] by (simp add: stubbable_def)
  qed
  then have "\<forall>(R, L) \<in> set xs. heap4 u R \<noteq> None \<and> stubbable u L" by blast
  then obtain ys s' where s1': "stub_items X me nr xs u = Ret ys s'" "stubbed me nr xs u ys s'"
    using Cons.IH [of u] apart(4) room by blast
  then have s': "stub_items X me nr xs u = Ret ys s'" "thr s' = thr u" "global_cur_time s' = global_cur_time u"
    "map fst ys = map fst xs"
    "\<forall>p. heap4 u p \<noteq> None \<longrightarrow> p \<notin> snd ` set xs \<longrightarrow> heap4 s' p = heap4 u p"
    "\<forall>(R, L) \<in> set xs. heap4 s' L \<noteq> None \<and> rev_of s' L = nr \<and> h_tid (obj_at s' L) = h_tid (obj_at u L) \<and>
        fields4 (obj_at s' L) = fields4 (obj_at u L)"
    "\<forall>R L st. (R, L) \<in> set xs \<and> (R, st) \<in> set ys \<longrightarrow> heap4 u st = None \<and> IS_POINTER st \<and> stub_for me s' L st"
    by (simp_all add: stubbed_def)
  have r: "stub_items X me nr (p # xs) s = Ret ((R, st) # ys) s'" using new s'(1) by (simp add: p s1_def)
  have uLne: "heap4 u L \<noteq> None" using uL by (simp add: s1_def)
  have L': "heap4 s' L = heap4 s1 L" using s'(5) uLne uL apart(2) by (force simp: places_def)
  have st_xs: "st \<notin> places xs" using Cons.prems(2) s_st(1) by (auto simp: p places_def stubbable_def)
  have st': "heap4 s' st = heap4 u st" using s'(5) st_xs by (auto simp: u_def places_def)
  have objL: "rev_of s' L = nr" "h_tid (obj_at s' L) = h_tid (obj_at s L)" "fields4 (obj_at s' L) = fields4 (obj_at s L)"
    "heap4 s' L \<noteq> None"
    using heap_eq_obj [OF L'] L' by (simp_all add: s1_def)
  have "stub_for me u L st" using heap_eq_obj [OF uL] by (simp add: stub_for_def u_def s1_def)
  then have stub: "stub_for me s' L st"
    using stub_for_keep [of me u L st s'] st' objL(2) heap_eq_obj [OF uL] by (simp add: s1_def)
  have A: "\<forall>q. heap4 s q \<noteq> None \<longrightarrow> q \<notin> snd ` set (p # xs) \<longrightarrow> heap4 s' q = heap4 s q"
  proof (intro allI impI)
    fix q
    assume q: "heap4 s q \<noteq> None" "q \<notin> snd ` set (p # xs)"
    then have "heap4 u q = heap4 s q" using s_st(1) by (intro uh) (auto simp: p)
    moreover have "heap4 s' q = heap4 u q" using s'(5) q calculation by (simp add: p)
    ultimately show "heap4 s' q = heap4 s q" by simp
  qed
  have B: "\<forall>(R, L) \<in> set (p # xs). heap4 s' L \<noteq> None \<and> rev_of s' L = nr \<and> h_tid (obj_at s' L) = h_tid (obj_at s L) \<and>
        fields4 (obj_at s' L) = fields4 (obj_at s L)"
  proof -
    have "heap4 u L' = heap4 s L'" if "(R', L') \<in> set xs" for R' L'
      using u_in that Cons.prems(2) by (force simp: places_def stubbable_def)
    then show ?thesis using s'(6) objL heap_eq_obj [of u _ s] by (fastforce simp: p)
  qed
  have keys: "fst ` set ys = fst ` set xs" using arg_cong [OF s'(4), of set] by simp
  have C: "heap4 s st' = None \<and> IS_POINTER st' \<and> stub_for me s' L' st'"
    if "(R', L') \<in> set (p # xs)" "(R', st') \<in> set ((R, st) # ys)" for R' L' st'
  proof (cases "R' = R")
    case True
    then have "(R', L') = p" "(R', st') = (R, st)"
      using that apart(1) keys by (force simp: p places_def)+
    then show ?thesis using s_st(1) fresh(2) stub by (simp add: p)
  next
    case False
    then have i: "(R', L') \<in> set xs" "(R', st') \<in> set ys" using that by (auto simp: p)
    then have h: "heap4 u st' = None" "IS_POINTER st'" "stub_for me s' L' st'" using s'(7) by blast+
    have "st' \<noteq> L" "st' \<noteq> st" using h(1) uLne by (auto simp: u_def)
    then show ?thesis using h uh by metis
  qed
  have T: "thr s' = thr s" "global_cur_time s' = global_cur_time s" using s'(2,3) by (simp_all add: u_def s1_def)
  have "stubbed me nr (p # xs) s ((R, st) # ys) s'"
    unfolding stubbed_def
  proof (intro conjI)
    show "map fst ((R, st) # ys) = map fst (p # xs)" using s'(4) by (simp add: p)
    show "\<forall>R' L' st'. (R', L') \<in> set (p # xs) \<and> (R', st') \<in> set ((R, st) # ys) \<longrightarrow>
        heap4 s st' = None \<and> IS_POINTER st' \<and> stub_for me s' L' st'" using C by blast
  qed (fact T A B)+
  then show ?case using r by blast
qed (simp add: stubbed_def)

lemma link_item_fields: "thr (link_item (R, v) s) = thr s" "global_cur_time (link_item (R, v) s) = global_cur_time s"
  "rev_of (link_item (R, v) s) q = (if q = R then v else rev_of s q)" "flag4 (link_item (R, v) s) = flag4 s"
  "q \<noteq> R \<Longrightarrow> heap4 (link_item (R, v) s) q = heap4 s q"
proof -
  have g: "flag4 (s\<lparr>stm_prebuilt_gcroots := r\<rparr>) = flag4 s" "rev_of (s\<lparr>stm_prebuilt_gcroots := r\<rparr>) = rev_of s" for s r
    by (simp_all add: flag4_def rev_of_def obj_at_def fun_eq_iff)
  show "thr (link_item (R, v) s) = thr s" "global_cur_time (link_item (R, v) s) = global_cur_time s"
    "rev_of (link_item (R, v) s) q = (if q = R then v else rev_of s q)" "flag4 (link_item (R, v) s) = flag4 s"
    "q \<noteq> R \<Longrightarrow> heap4 (link_item (R, v) s) q = heap4 s q"
    by (simp_all add: link_item_def Let_def g)
qed

lemma link_items_ok:
  "distinct (map fst ys) \<Longrightarrow> thr (fold link_item ys s) = thr s \<and> global_cur_time (fold link_item ys s) = global_cur_time s \<and>
     flag4 (fold link_item ys s) = flag4 s \<and>
     (\<forall>p. p \<notin> fst ` set ys \<longrightarrow> heap4 (fold link_item ys s) p = heap4 s p) \<and>
     (\<forall>(R, st) \<in> set ys. rev_of (fold link_item ys s) R = st)"
proof (induction ys arbitrary: s)
  case (Cons p ys)
  obtain R st where p: "p = (R, st)" by (cases p)
  define u where "u = link_item (R, st) s"
  note IH = Cons.IH [of u]
  have R: "R \<notin> fst ` set ys" using Cons.prems by (auto simp: p)
  have "rev_of (fold link_item ys u) R = st"
    using IH R Cons.prems heap_eq_obj [of "fold link_item ys u" R u] by (simp add: p u_def link_item_fields)
  then show ?case using IH Cons.prems by (auto simp: p u_def [symmetric]) (auto simp: u_def link_item_fields)
qed simp

section \<open>A commit\<close>

text \<open>
  A transaction that can commit: it is not inevitable, its modified objects are current and unlocked,
  its private copies have the usual form, the objects that it turned private still
  have their backups, and what it has read is current, or nobody has committed since it started.
\<close>

definition read_ok :: "nat \<Rightarrow> stm4 \<Rightarrow> u64 \<Rightarrow> bool" where
  "read_ok me s Q \<longleftrightarrow> Q \<in> places (g2l_items (public_to_private (thr s me))) \<or>
     (if IS_POINTER (rev_of s Q) then flag4 s Q GCFLAG4_PRIVATE_FROM_PROTECTED \<and> \<not> flag4 s (rev_of s Q) GCFLAG4_PUBLIC
      else \<not> LOCKED \<le>s rev_of s Q)"

definition commit_ready :: "nat \<Rightarrow> stm4 \<Rightarrow> bool" where
  "commit_ready me s \<longleftrightarrow>
     (let d = thr s me; wl = g2l_items (public_to_private d); Ps = private_from_protected d
      in g2l_inv (public_to_private d) \<and> stolen_objects d = [] \<and> stm_active d = 1 \<and> \<not> IS_POINTER (my_lock d) \<and>
         IS_POINTER (global_cur_time s) \<and> unlocked_items me wl s \<and>
         (\<forall>(R, L) \<in> set wl. current_rev me s R \<and> stubbable s L \<and> \<not> flag4 s R GCFLAG4_MOVED \<and>
            \<not> flag4 s R GCFLAG4_PRIVATE_FROM_PROTECTED \<and> R \<notin> set Ps) \<and>
         distinct Ps \<and>
         (\<forall>P \<in> set Ps. heap4 s P \<noteq> None \<and> IS_POINTER P \<and> (P \<notin> snd ` set wl \<longrightarrow> IS_POINTER (rev_of s P) \<and>
            \<not> flag4 s (rev_of s P) GCFLAG4_PUBLIC \<and> rev_of s P \<notin> set Ps \<and> rev_of s P \<notin> places wl)) \<and>
         (start_time4 d = global_cur_time s \<or> (\<forall>Q \<in> set (list_of_read_objects d). read_ok me s Q)))"

lemma odd_plus: "IS_POINTER t \<Longrightarrow> \<not> IS_POINTER (t + 1)" "IS_POINTER t \<Longrightarrow> IS_POINTER (t + 2)"
  by (auto simp: IS_POINTER_def and_one_eq mod2_eq_if split: if_splits)

lemma commit_steps:
  fixes s :: stm4 and me :: nat
  defines "wl \<equiv> g2l_items (public_to_private (thr s me))" and "t \<equiv> global_cur_time s"
    and "Ps \<equiv> private_from_protected (thr s me)"
  assumes c: "commit_ready me s" and X: "alloc_ok4 pool X" and room: "length wl \<le> card (free4 pool s)"
  shows "\<exists>s'. CommitTransaction (Suc n) X me stay s = Ret () s' \<and> global_cur_time s' = t + 2 \<and>
    (\<forall>(R, L) \<in> set wl. \<exists>st. rev_of s' R = st \<and> IS_POINTER st \<and> flag4 s' R = flag4 s R \<and>
       stub_for me s' L st \<and> rev_of s' L = t + 1 \<and> fields4 (obj_at s' L) = fields4 (obj_at s L)) \<and>
    (\<forall>P \<in> set Ps. P \<notin> snd ` set wl \<longrightarrow> pfp_committed (t + 1) s s' P) \<and>
    (\<forall>p. heap4 s p \<noteq> None \<longrightarrow> IS_POINTER p \<longrightarrow> p \<notin> places wl \<longrightarrow> p \<notin> set Ps \<longrightarrow> p \<notin> rev_of s ` set Ps \<longrightarrow> heap4 s' p = heap4 s p) \<and>
    stm_private_rev_num (thr s' me) = - (t + 1) \<and> stm_active (thr s' me) = 0 \<and> collection_lock (thr s' me) = '''' \<and>
    (\<forall>d. d \<noteq> me \<longrightarrow> thr s' d = thr s d)"
proof -
  have inv: "g2l_inv (public_to_private (thr s me))" and st: "stolen_objects (thr s me) = []" and act: "stm_active (thr s me) = 1"
    and lock: "\<not> IS_POINTER (my_lock (thr s me))" and t: "IS_POINTER t" and un: "unlocked_items me wl s"
    and it: "\<forall>(R, L) \<in> set wl. current_rev me s R \<and> stubbable s L \<and> \<not> flag4 s R GCFLAG4_MOVED \<and>
            \<not> flag4 s R GCFLAG4_PRIVATE_FROM_PROTECTED \<and> R \<notin> set Ps"
    and Ps: "distinct Ps" "\<forall>P \<in> set Ps. heap4 s P \<noteq> None \<and> IS_POINTER P \<and> (P \<notin> snd ` set wl \<longrightarrow> IS_POINTER (rev_of s P) \<and>
            \<not> flag4 s (rev_of s P) GCFLAG4_PUBLIC \<and> rev_of s P \<notin> set Ps \<and> rev_of s P \<notin> places wl)"
    and rd: "start_time4 (thr s me) = t \<or> (\<forall>Q \<in> set (list_of_read_objects (thr s me)). read_ok me s Q)"
    using c [unfolded commit_ready_def Let_def, folded wl_def t_def Ps_def] by blast+
  have ap: "apart4 wl" and ih: "\<forall>(R, L) \<in> set wl. heap4 s R \<noteq> None \<and> heap4 s L \<noteq> None"
    using un by (auto simp: unlocked_items_def)
  define s0 where "s0 = spinlock_acquire4 me ''C'' s"
  have s0: "heap4 s0 = heap4 s" "rev_of s0 = rev_of s" "flag4 s0 = flag4 s" "global_cur_time s0 = t"
    "public_to_private (thr s0 me) = public_to_private (thr s me)" "my_lock (thr s0 me) = my_lock (thr s me)"
    "stm_private_rev_num (thr s0 me) = stm_private_rev_num (thr s me)" "stolen_objects (thr s0 me) = []"
    "stm_active (thr s0 me) = 1" "start_time4 (thr s0 me) = start_time4 (thr s me)"
    "list_of_read_objects (thr s0 me) = list_of_read_objects (thr s me)"
    "private_from_protected (thr s0 me) = Ps" "d \<noteq> me \<Longrightarrow> thr s0 d = thr s d" for d
    using st act
    by (simp_all add: s0_def spinlock_acquire4_def rev_of_def flag4_def fun_eq_iff heap4_simps t_def Ps_def)
  have o0: "obj_at s0 = obj_at s" by (simp add: s0_def spinlock_acquire4_def heap4_simps)
  define s1 where "s1 = acquired me wl s0"
  have s1: "thr s1 = thr s0" "flag4 s1 = flag4 s" "global_cur_time s1 = t"
    using s0 by (simp_all add: s1_def acquired_frame)
  have acq: "AcquireLocks (Suc n) X me s0 = Ret () s1"
  proof (cases "g2l_any_entry (public_to_private (thr s me))")
    case True
    have "\<forall>(R, L) \<in> set wl. current_rev me s0 R" using it s0 by (auto simp: current_rev_def)
    then show ?thesis using acquire_items_acquired [of wl "[]" me s0 n X] ap True s0
      by (simp add: AcquireLocks_def s1_def wl_def)
  next
    case False
    then have "wl = []" using no_entry_items [OF inv] by (simp add: wl_def)
    then show ?thesis using False s0 by (simp add: AcquireLocks_def s1_def)
  qed
  have r1: "rev_of s1 R = my_lock (thr s me) \<and> rev_of s1 L = rev_of s R" if "(R, L) \<in> set wl" for R L
    using acquired_revs [OF ap that, of me s0] s0 by (simp add: s1_def)
  have o1: "heap4 s1 p = heap4 s p \<and> rev_of s1 p = rev_of s p" if "p \<notin> places wl" for p
    using acquired_other [OF that, of me s0] s0 by (simp add: s1_def)
  have d1: "(heap4 s1 p = None) = (heap4 s p = None)" for p
    using acquired_dom [of wl s0 me p] ih s0 by (auto simp: s1_def)
  have f1: "fields4 (obj_at s1 p) = fields4 (obj_at s p)" "h_tid (obj_at s1 p) = h_tid (obj_at s p)"
    "h_original (obj_at s1 p) = h_original (obj_at s p)" for p
    by (simp_all add: s1_def acquired_frame o0)
  define s2 where "s2 = s1\<lparr>global_cur_time := t + 2\<rparr>"
  have s2: "heap4 s2 = heap4 s1" "rev_of s2 = rev_of s1" "flag4 s2 = flag4 s1" "thr s2 = thr s1" "obj_at s2 = obj_at s1"
    "global_cur_time s2 = t + 2"
    by (simp_all add: s2_def rev_of_def flag4_def obj_at_def fun_eq_iff)
  have val: "validates me s2 Q" if "read_ok me s Q" for Q
  proof (cases "Q \<in> places wl")
    case True
    then obtain R L where RL: "(R, L) \<in> set wl" "Q = R \<or> Q = L" by (auto simp: places_def)
    then have "rev_of s2 Q = my_lock (thr s me) \<or> rev_of s2 Q = rev_of s R" using r1 s2 by auto
    moreover have "current_rev me s R" using it RL(1) by blast
    ultimately show ?thesis using lock s2 s1 s0 by (auto simp: validates_def current_rev_def)
  next
    case False
    then show ?thesis using that o1 [of Q] s2 s1 by (simp add: validates_def read_ok_def wl_def [symmetric])
  qed
  have "commit_validated (Suc n) X me stay s1 = Ret t s2"
  proof -
    have "commit_time (Suc n) X me s1 = Ret t s2" using t s1 by (simp add: Let_def s2_def IS_POINTER_def)
    moreover have "ValidateDuringTransaction (Suc n) X me True s2 = Ret True s2" if "start_time4 (thr s me) \<noteq> t"
      using rd that val validate_ok [of _ me s2 n X] s2 s1 s0 by (simp add: ValidateDuringTransaction_def)
    ultimately show ?thesis using s2 s1 s0 by (simp add: commit_validated_def is_inevitable4_def)
  qed
  note cv = this
  have rPs: "rev_of s1 P = (if P \<in> snd ` set wl then rev_of s1 P else rev_of s P)" if "P \<in> set Ps" for P
  proof -
    have "P \<notin> fst ` set wl" using it that by auto
    then show ?thesis using o1 [of P] by (auto simp: places_def)
  qed
  have odd1: "\<not> IS_POINTER (rev_of s1 P)" if "P \<in> snd ` set wl" for P
    using that r1 it by (force simp: current_rev_def)
  have pfp: "\<forall>P \<in> set Ps. heap4 s2 P \<noteq> None \<and> IS_POINTER P \<and>
      (IS_POINTER (rev_of s2 P) \<longrightarrow> \<not> flag4 s2 (rev_of s2 P) GCFLAG4_PUBLIC \<and> rev_of s2 P \<notin> set Ps)"
    using Ps(2) d1 rPs odd1 s2 s1 by metis
  obtain s3 where s3: "commit_pfp_items me (t + 1) Ps s2 = Ret () s3" "thr s3 = thr s2" "global_cur_time s3 = global_cur_time s2"
    "\<forall>p. p \<notin> set Ps \<longrightarrow> p \<notin> rev_of s2 ` set Ps \<longrightarrow> heap4 s3 p = heap4 s2 p" "\<forall>P \<in> set Ps. pfp_committed (t + 1) s2 s3 P"
    "\<forall>p. p \<notin> set Ps \<longrightarrow> heap4 s2 p = None \<longrightarrow> heap4 s3 p = None"
    using commit_pfp_ok [OF Ps(1) pfp] by blast
  define s4 where "s4 = upd_thr me (\<lambda>d. d\<lparr>private_from_protected := [], num_private_from_protected_known_old := 0,
         num_read_objects_known_old := 0\<rparr>) s3"
  have cp: "CommitPrivateFromProtected me t s2 = Ret () s4"
    using s3(1) s2 s1 s0 by (simp add: CommitPrivateFromProtected_def s4_def)
  define s5 where "s5 = upd_thr me (\<lambda>d. d\<lparr>setjmp_buf := False, old_thread_local_obj := 0, list_of_read_objects := [],
               stm_private_rev_num := - (t + 1)\<rparr>) s4"
  have s5: "heap4 s5 = heap4 s3" "rev_of s5 = rev_of s3" "flag4 s5 = flag4 s3" "obj_at s5 = obj_at s3"
    "global_cur_time s5 = t + 2" "public_to_private (thr s5 me) = public_to_private (thr s me)"
    "stm_private_rev_num (thr s5 me) = - (t + 1)" "d \<noteq> me \<Longrightarrow> thr s5 d = thr s d" for d
    using s3 s2 s1 s0 by (simp_all add: s5_def s4_def heap4_simps rev_of_def flag4_def fun_eq_iff)
  \<comment> \<open>the objects of the wl after the loop over the protected ones\<close>
  have key3: "heap4 s3 R = heap4 s1 R" if "(R, L) \<in> set wl" for R L
  proof -
    have "R \<notin> set Ps" using it that by auto
    moreover have "rev_of s2 P \<noteq> R" if "P \<in> set Ps" for P
    proof (cases "P \<in> snd ` set wl")
      case True
      then show ?thesis using odd1 s2 un \<open>(R, L) \<in> set wl\<close> by (auto simp: unlocked_items_def)
    next
      case False
      then have "rev_of s P \<notin> places wl" using Ps(2) that by blast
      then show ?thesis using rPs [OF that] False s2 \<open>(R, L) \<in> set wl\<close> by (force simp: places_def)
    qed
    ultimately show ?thesis using s3(4) s2 by auto
  qed
  have val3: "heap4 s3 L \<noteq> None \<and> fields4 (obj_at s3 L) = fields4 (obj_at s L) \<and> h_original (obj_at s3 L) = h_original (obj_at s L) \<and>
      (h_tid (obj_at s3 L) = h_tid (obj_at s L) \<or> h_tid (obj_at s3 L) = h_tid (obj_at s L) AND NOT GCFLAG4_PRIVATE_FROM_PROTECTED)"
    if "(R, L) \<in> set wl" for R L
  proof (cases "L \<in> set Ps")
    case True
    then show ?thesis using s3(5) s2 f1 by (auto simp: pfp_committed_def)
  next
    case False
    have "rev_of s2 P \<noteq> L" if "P \<in> set Ps" for P
    proof (cases "P \<in> snd ` set wl")
      case True
      then have "\<not> IS_POINTER (rev_of s2 P)" using odd1 s2 by simp
      moreover have "IS_POINTER L" using un \<open>(R, L) \<in> set wl\<close> by (auto simp: unlocked_items_def)
      ultimately show ?thesis by auto
    next
      case False
      then have "rev_of s P \<notin> places wl" using Ps(2) that by blast
      then show ?thesis using rPs [OF that] False s2 \<open>(R, L) \<in> set wl\<close> by (force simp: places_def)
    qed
    then have "heap4 s3 L = heap4 s1 L" using s3(4) False s2 by auto
    then show ?thesis using heap_eq_obj [of s3 L s1] f1 d1 ih that by auto
  qed
  have old: "(x AND NOT GCFLAG4_PRIVATE_FROM_PROTECTED) AND GCFLAG4_OLD = x AND GCFLAG4_OLD" for x
  proof -
    have "NOT GCFLAG4_PRIVATE_FROM_PROTECTED AND GCFLAG4_OLD = GCFLAG4_OLD"
      by (simp add: GCFLAG4_PRIVATE_FROM_PROTECTED_def GCFLAG4_OLD_def gcflag4_def)
    then show ?thesis by (simp add: and.assoc)
  qed
  have pre: "\<forall>(R, L) \<in> set wl. heap4 s5 R \<noteq> None \<and> stubbable s5 L"
  proof clarify
    fix R L
    assume RL: "(R, L) \<in> set wl"
    have "heap4 s5 R \<noteq> None" using key3 [OF RL] d1 ih RL s5(1) by auto
    moreover have "stubbable s L" using it RL by auto
    then have "stubbable s5 L" using val3 [OF RL] s5(1,4) old by (auto simp: stubbable_def)
    ultimately show "heap4 s5 R \<noteq> None \<and> stubbable s5 L" ..
  qed
  have "free4 pool s \<subseteq> free4 pool s5" using s3(6) Ps(2) d1 s2(1) s5(1) by (auto simp: free4_def) (metis option.distinct(1))
  then have room5: "length wl \<le> card (free4 pool s5)"
    using room card_mono [of "free4 pool s5" "free4 pool s"] by (auto simp: free4_def)
  obtain ys s6 where s6: "stub_items X me (t + 1) wl s5 = Ret ys s6" "stubbed me (t + 1) wl s5 ys s6"
    using stub_items_ok [OF X ap pre room5] by blast
  have mf: "map fst ys = map fst wl" and s6t: "thr s6 = thr s5" "global_cur_time s6 = t + 2"
    and s6o: "\<And>p. heap4 s5 p \<noteq> None \<Longrightarrow> p \<notin> snd ` set wl \<Longrightarrow> heap4 s6 p = heap4 s5 p"
    and s6L: "\<And>R L. (R, L) \<in> set wl \<Longrightarrow> heap4 s6 L \<noteq> None \<and> rev_of s6 L = t + 1 \<and> h_tid (obj_at s6 L) = h_tid (obj_at s5 L) \<and>
        fields4 (obj_at s6 L) = fields4 (obj_at s5 L)"
    and s6s: "\<And>R L st. (R, L) \<in> set wl \<Longrightarrow> (R, st) \<in> set ys \<Longrightarrow> heap4 s5 st = None \<and> IS_POINTER st \<and> stub_for me s6 L st"
    using s6(2) s5(5) unfolding stubbed_def by (blast, simp, simp, blast, fast, blast)
  define s7 where "s7 = fold link_item ys s6"
  have dk: "distinct (map fst ys)" using ap mf by (simp add: apart4_def)
  have keys: "fst ` set ys = fst ` set wl" using arg_cong [OF mf, of set] by simp
  note lk = link_items_ok [OF dk, of s6, folded s7_def]
  have s7t: "thr s7 = thr s5" "global_cur_time s7 = t + 2" "flag4 s7 = flag4 s6" using lk s6t by simp_all
  have s7o: "heap4 s7 p = heap4 s6 p" if "p \<notin> fst ` set wl" for p using lk that keys by blast
  have s7R: "rev_of s7 R = st" if "(R, st) \<in> set ys" for R st using lk that by auto
  obtain s8 where s8: "UpdateChainHeads X me t s5 = Ret () s8" "heap4 s8 = heap4 s7" "global_cur_time s8 = t + 2"
    "stm_private_rev_num (thr s8 me) = - (t + 1)" "\<And>d. d \<noteq> me \<Longrightarrow> thr s8 d = thr s d"
  proof (cases "g2l_any_entry (public_to_private (thr s me))")
    case True
    then have "UpdateChainHeads X me t s5 = Ret () (upd_thr me (\<lambda>d. d\<lparr>public_to_private := g2l_clear (public_to_private d)\<rparr>) s7)"
      using s6(1) s5(6) by (simp add: UpdateChainHeads_def wl_def s7_def foreach_f_def)
    then show ?thesis using that s7t s5 by (simp add: heap4_simps)
  next
    case False
    then have "wl = []" using no_entry_items [OF inv] by (simp add: wl_def)
    then have "s7 = s5" using s6(1) by (simp add: s7_def)
    moreover have "UpdateChainHeads X me t s5 = Ret () s5" using False s5(6) by (simp add: UpdateChainHeads_def)
    ultimately show ?thesis using that s5 by simp
  qed
  define s9 where "s9 = upd_thr me (\<lambda>d. d\<lparr>num_commits := num_commits d + 1, stm_active := 0,
               callbacks_on_abort := g2l_clear (callbacks_on_abort d)\<rparr>) (spinlock_release4 me s8)"
  have s9: "heap4 s9 = heap4 s7" "global_cur_time s9 = t + 2" "stm_private_rev_num (thr s9 me) = - (t + 1)"
    "stm_active (thr s9 me) = 0" "collection_lock (thr s9 me) = ''''" "\<And>d. d \<noteq> me \<Longrightarrow> thr s9 d = thr s d"
    using s8 by (simp_all add: s9_def spinlock_release4_def heap4_simps)
  have o9: "obj_at s9 = obj_at s7" "rev_of s9 = rev_of s7" "flag4 s9 = flag4 s7"
    using s9(1) by (simp_all add: obj_at_def rev_of_def flag4_def fun_eq_iff)
  have neq: "\<not> [] \<noteq> ([] :: (u64 \<times> u64) list)" by simp
  have run: "CommitTransaction (Suc n) X me stay s = Ret () s9"
    unfolding CommitTransaction_def s0_def [symmetric] normalize_if_stolen_def s0(8) if_not_P [OF neq] bind_res.simps
      acq cv cp Let_def s5_def [symmetric] s8(1) s9_def ..
  have items9: "\<forall>(R, L) \<in> set wl. \<exists>st. rev_of s9 R = st \<and> IS_POINTER st \<and> flag4 s9 R = flag4 s R \<and>
       stub_for me s9 L st \<and> rev_of s9 L = t + 1 \<and> fields4 (obj_at s9 L) = fields4 (obj_at s L)"
  proof clarify
    fix R L
    assume RL: "(R, L) \<in> set wl"
    then have "R \<in> fst ` set ys" using keys by force
    then obtain st where st: "(R, st) \<in> set ys" by force
    note S = s6s [OF RL st]
    have L: "L \<notin> fst ` set wl" and R: "R \<notin> snd ` set wl" using ap RL by (force simp: apart4_def)+
    have L7: "heap4 s7 L = heap4 s6 L" by (rule s7o [OF L])
    have R5: "heap4 s5 R \<noteq> None" "heap4 s5 R = heap4 s1 R" using bspec [OF pre RL] key3 [OF RL] s5(1) by simp_all
    have "st \<notin> fst ` set wl" using S pre by force
    then have "heap4 s7 st = heap4 s6 st" by (rule s7o)
    then have "stub_for me s7 L st" using S stub_for_keep heap_eq_obj [OF L7] by metis
    then have "stub_for me s9 L st" using s9(1) o9(1) by (simp add: stub_for_def)
    moreover have "flag4 s9 R = flag4 s R"
    proof
      fix f
      have "flag4 s9 R f = flag4 s6 R f" using o9(3) s7t(3) by simp
      also have "\<dots> = flag4 s5 R f" using heap_eq_obj [OF s6o [OF R5(1) R]] by blast
      also have "\<dots> = flag4 s1 R f" using heap_eq_obj [OF R5(2)] by blast
      finally show "flag4 s9 R f = flag4 s R f" using s1(2) by simp
    qed
    moreover have "rev_of s9 L = t + 1 \<and> fields4 (obj_at s9 L) = fields4 (obj_at s L)"
      using s6L [OF RL] heap_eq_obj [OF L7] o9 val3 [OF RL] s5(4) by simp
    ultimately show "\<exists>st. rev_of s9 R = st \<and> IS_POINTER st \<and> flag4 s9 R = flag4 s R \<and>
       stub_for me s9 L st \<and> rev_of s9 L = t + 1 \<and> fields4 (obj_at s9 L) = fields4 (obj_at s L)"
      using s7R [OF st] S o9(2) by auto
  qed
  have pfp9: "pfp_committed (t + 1) s s9 P" if P: "P \<in> set Ps" "P \<notin> snd ` set wl" for P
  proof -
    have k: "P \<notin> fst ` set wl" using it P(1) by auto
    have c3: "pfp_committed (t + 1) s2 s3 P" using s3(5) P(1) by blast
    have "heap4 s5 P \<noteq> None" using c3 s5(1) by (simp add: pfp_committed_def)
    then have "heap4 s9 P = heap4 s3 P" using s9(1) s7o [OF k] s6o [OF _ P(2)] s5(1) by simp
    then have "pfp_committed (t + 1) s2 s9 P" using c3 heap_eq_obj [of s9 P s3] by (simp add: pfp_committed_def)
    moreover have "heap4 s2 P = heap4 s P" using o1 [of P] k P(2) s2(1) by (simp add: places_def)
    ultimately show ?thesis using pfp_committed_cong by blast
  qed
  have rest9: "heap4 s9 p = heap4 s p"
    if p: "heap4 s p \<noteq> None" "IS_POINTER p" "p \<notin> places wl" "p \<notin> set Ps" "p \<notin> rev_of s ` set Ps" for p
  proof -
    have "p \<notin> rev_of s2 ` set Ps"
    proof
      assume "p \<in> rev_of s2 ` set Ps"
      then obtain P where P: "P \<in> set Ps" "p = rev_of s1 P" using s2 by auto
      then show False using odd1 [of P] rPs [of P] p(2,5) by (cases "P \<in> snd ` set wl") auto
    qed
    then have h3: "heap4 s5 p = heap4 s p" using s3(4) p(4) s2(1) o1 [OF p(3)] s5(1) by simp
    then show ?thesis using s9(1) s7o [of p] s6o [of p] p(1,3) by (simp add: places_def)
  qed
  show ?thesis
    using run s9 items9 pfp9 rest9 by (intro exI [of _ s9]) (simp add: t_def [symmetric])
qed

section \<open>An abort\<close>

definition pfp_restored :: "stm4 \<Rightarrow> stm4 \<Rightarrow> u64 \<Rightarrow> bool" where
  "pfp_restored s s' P \<longleftrightarrow>
     (let B = rev_of s P; x = obj_at s P; tid = h_tid x AND NOT GCFLAG4_PRIVATE_FROM_PROTECTED
      in if flag4 s B GCFLAG4_PUBLIC
         then heap4 s' B = heap4 s B \<and>
              heap4 s' P = Some (x\<lparr>h_tid := tid OR GCFLAG4_PUBLIC OR (if tid AND GCFLAG4_OLD = 0 then GCFLAG4_MOVED else 0)\<rparr>)
         else heap4 s' B = None \<and>
              heap4 s' P = Some (x\<lparr>h_tid := tid, h_revision := rev_of s B, fields4 := fields4 (obj_at s B)\<rparr>))"

lemma pfp_restored_cong:
  assumes "heap4 u P = heap4 s P" and "heap4 u (rev_of s P) = heap4 s (rev_of s P)"
  shows "pfp_restored u s' P = pfp_restored s s' P"
  using heap_eq_obj [OF assms(1)] heap_eq_obj [OF assms(2)] by (simp add: pfp_restored_def assms)

lemma abort_pfp1:
  fixes s :: stm4 and P :: u64
  defines "u \<equiv> abort_private_from_protected1 P s"
  assumes P: "heap4 s P \<noteq> None" and B: "rev_of s P \<noteq> P"
  shows "pfp_restored s u P" and "thr u = thr s"
    and "q \<noteq> P \<Longrightarrow> q \<noteq> rev_of s P \<Longrightarrow> heap4 u q = heap4 s q"
proof -
  have or: "(tid OR GCFLAG4_PUBLIC) AND GCFLAG4_OLD = tid AND GCFLAG4_OLD" for tid
    by (simp add: word_ao_dist GCFLAG4_PUBLIC_def GCFLAG4_OLD_def gcflag4_def)
  let ?B = "rev_of s P"
  have u: "u = (let s = andnot_tid P GCFLAG4_PRIVATE_FROM_PROTECTED s
      in if flag4 s ?B GCFLAG4_PUBLIC
         then let s = or_tid P GCFLAG4_PUBLIC s
              in if \<not> flag4 s P GCFLAG4_OLD then or_tid P GCFLAG4_MOVED s else s
         else free_obj ?B (upd_obj P (\<lambda>x. x\<lparr>h_revision := rev_of s ?B, fields4 := fields4 (obj_at s ?B)\<rparr>) s))"
    by (simp add: u_def abort_private_from_protected1_def Let_def)
  show "pfp_restored s u P"
    using B by (auto simp: u pfp_restored_def Let_def flag4_def or_tid_def heap4_simps andnot_tid_def upd_obj_def free_obj_def or or.assoc
      rev_of_def)
  show "thr u = thr s" by (simp add: u Let_def or_tid_def upd_obj_def heap4_simps)
  show "q \<noteq> P \<Longrightarrow> q \<noteq> rev_of s P \<Longrightarrow> heap4 u q = heap4 s q"
    by (simp add: u Let_def or_tid_def upd_obj_def heap4_simps)
qed

lemma abort_pfp_ok:
  "distinct Ps \<Longrightarrow> inj_on (rev_of s) (set Ps) \<Longrightarrow> (\<forall>P \<in> set Ps. heap4 s P \<noteq> None \<and> rev_of s P \<notin> set Ps) \<Longrightarrow>
   thr (fold abort_private_from_protected1 Ps s) = thr s \<and>
   (\<forall>P \<in> set Ps. pfp_restored s (fold abort_private_from_protected1 Ps s) P) \<and>
   (\<forall>q. q \<notin> set Ps \<longrightarrow> q \<notin> rev_of s ` set Ps \<longrightarrow> heap4 (fold abort_private_from_protected1 Ps s) q = heap4 s q)"
proof (induction Ps arbitrary: s)
  case (Cons P Ps)
  define u where "u = abort_private_from_protected1 P s"
  have P: "heap4 s P \<noteq> None" "rev_of s P \<noteq> P" "P \<notin> set Ps" "rev_of s P \<notin> set Ps" "P \<notin> rev_of s ` set Ps"
    "rev_of s P \<notin> rev_of s ` set Ps"
    using Cons.prems by (auto simp: inj_on_def)
  note a = abort_pfp1 [OF P(1,2), folded u_def]
  have same: "heap4 u Q = heap4 s Q" "rev_of u Q = rev_of s Q" "heap4 u (rev_of s Q) = heap4 s (rev_of s Q)" if "Q \<in> set Ps" for Q
  proof -
    have Q: "Q \<noteq> P" "Q \<noteq> rev_of s P" "rev_of s Q \<noteq> P" "rev_of s Q \<noteq> rev_of s P"
      using P that by (metis imageI)+
    show "heap4 u Q = heap4 s Q" "heap4 u (rev_of s Q) = heap4 s (rev_of s Q)" using a(3) Q by simp_all
    then show "rev_of u Q = rev_of s Q" using heap_eq_obj by blast
  qed
  have img: "rev_of u ` set Ps = rev_of s ` set Ps" using same by (intro image_cong) auto
  have "inj_on (rev_of u) (set Ps)" using Cons.prems(2) same(2) by (simp add: inj_on_def)
  moreover have "\<forall>Q \<in> set Ps. heap4 u Q \<noteq> None \<and> rev_of u Q \<notin> set Ps" using Cons.prems(3) same(1,2) by simp
  ultimately have IH: "thr (fold abort_private_from_protected1 Ps u) = thr u"
    "\<forall>Q \<in> set Ps. pfp_restored u (fold abort_private_from_protected1 Ps u) Q"
    "\<And>q. q \<notin> set Ps \<Longrightarrow> q \<notin> rev_of s ` set Ps \<Longrightarrow> heap4 (fold abort_private_from_protected1 Ps u) q = heap4 u q"
    using Cons.IH [of u] Cons.prems(1) img by auto
  have "pfp_restored s (fold abort_private_from_protected1 Ps u) P"
    using a(1) unfolding pfp_restored_def Let_def IH(3) [OF P(3,5)] IH(3) [OF P(4,6)] .
  moreover have "pfp_restored s (fold abort_private_from_protected1 Ps u) Q" if "Q \<in> set Ps" for Q
    using IH(2) that pfp_restored_cong [of u Q s] same(1,3) by blast
  ultimately show ?case using IH(1,3) a(2,3) by (simp add: u_def [symmetric])
qed simp

end
