(* ===== verification/C4theorems.thy ===== *)
theory C4theorems
  imports C4commit
begin

text \<open>
  What commits, aborts and locks of the first design achieve, and a small heap on which the
  theorems are instantiated. Thread 0 has a private
  copy of the public object at 64, and has turned the protected object at 192 private in place;
  thread 1 has read the object at 64.
\<close>

definition pool4 :: "u64 list" where "pool4 = [256, 264]"

definition ext4_sample :: ext4 where
  "ext4_sample = \<lparr>size4 = (\<lambda>x. 24 + 8 * length (fields4 x)),
     old_alloc = (\<lambda>s. case find (\<lambda>p. heap4 s p = None) pool4 of Some p \<Rightarrow> p | None \<Rightarrow> 256),
     others4 = (\<lambda>_ s. s), refs4 = (\<lambda>_. [])\<rparr>"

lemma alloc_ok4_sample: "alloc_ok4 pool4 ext4_sample"
  by (auto simp: alloc_ok4_def ext4_sample_def pool4_def IS_POINTER_def free4_def)

definition tree4 :: g2l where
  "tree4 = (case g2l_insert insert_fuel g2l_empty 64 128 of Inr t \<Rightarrow> t | Inl _ \<Rightarrow> g2l_empty)"

lemma tree4_ok: "g2l_inv tree4" "g2l_items tree4 = [(64, 128)]"
proof -
  have a: "aligned8 (64 :: u64) \<and> (64 :: u64) \<noteq> 0" by (simp add: aligned8_def)
  have n: "g2l_map g2l_empty 64 = None" by (simp add: g2l_empty_ok(2))
  from g2m.insert_new_abs [OF g2l_empty_ok(1) a n, of 128]
  obtain t where t: "g2l_insert insert_fuel g2l_empty 64 128 = Inr t" "g2l_inv t" "g2l_map t = [64 \<mapsto> 128]"
    unfolding g2l_empty_ok(2) by blast
  then have tr: "tree4 = t" unfolding tree4_def by (simp only: sum.case)
  then show "g2l_inv tree4" using t(2) by simp
  have m: "(a, v) \<in> set (g2l_items t) \<longleftrightarrow> a = 64 \<and> v = 128" for a v
    by (simp add: g2l_items_ok(3) [OF t(2), symmetric] t(3))
  then have st: "set (g2l_items t) = {(64, 128)}" by auto
  have "g2l_items t = [(64, 128)]"
  proof (cases "g2l_items t")
    case (Cons p ps)
    then have "p = (64, 128)" "set ps \<subseteq> {(64, 128)}" "fst p \<notin> fst ` set ps"
      using st g2l_items_ok(1) [OF t(2)] by auto
    then have "ps = []" by (cases ps) auto
    then show ?thesis using Cons \<open>p = (64, 128)\<close> by simp
  qed (use st in simp)
  then show "g2l_items tree4 = [(64, 128)]" by (simp add: tr)
qed

definition object4 :: "u64 \<Rightarrow> obj4 option" where
  "object4 = [64 \<mapsto> \<lparr>h_tid = GCFLAG4_PUBLIC OR GCFLAG4_PUBLIC_TO_PRIVATE OR GCFLAG4_OLD, h_revision = 1, h_original = 0,
                stub_thread = 0, fields4 = [5]\<rparr>,
     128 \<mapsto> \<lparr>h_tid = GCFLAG4_OLD, h_revision = - LOCKED, h_original = 64, stub_thread = 0, fields4 = [7]\<rparr>,
     192 \<mapsto> \<lparr>h_tid = GCFLAG4_PRIVATE_FROM_PROTECTED OR GCFLAG4_OLD, h_revision = 320, h_original = 0,
                stub_thread = 0, fields4 = [9]\<rparr>,
     320 \<mapsto> \<lparr>h_tid = GCFLAG4_OLD OR GCFLAG4_BACKUP_COPY, h_revision = 1, h_original = 192, stub_thread = 0, fields4 = [8]\<rparr>]"

definition thread4 :: "g2l \<Rightarrow> u64 list \<Rightarrow> u64 list \<Rightarrow> u64 \<Rightarrow> tx4" where
  "thread4 t reads Ps lock = \<lparr>collection_lock = '''', stolen_objects = [], stolen_young_stubs = [], setjmp_buf = True,
     longjmp_callback = False, start_time4 = 2, my_lock = lock, stm_thread_local_obj = 0, old_thread_local_obj = 0,
     atomic4 = 0, count_reads = 1, reads_size_limit = 1000, reads_size_limit_nonatomic = 1000, stm_active = 1,
     max_aborts = - 1, num_commits = 0, num_aborts = (\<lambda>_. 0), num_spinloops = (\<lambda>_. 0), list_of_read_objects = reads,
     private_from_protected = Ps, num_private_from_protected_known_old = 0, num_read_objects_known_old = 0,
     public_to_private = t, stm_private_rev_num = - lock, recent_reads_cache = fxcache_reset \<lparr>fx_shift = 0, fx_cache = (\<lambda>_. 0)\<rparr>,
     old_objects_to_trace = [], public_with_young_copy = [], mem_clear_on_abort4 = None, callbacks_on_abort = g2l_empty,
     nursery_base = 0, nursery_end4 = 0, nursery_current4 = 0, nursery_nextlimit = 0, already_cleared4 = False,
     young_weakrefs4 = [], old_weakrefs4 = [], shadowstack4 = [24], abortinfo = []\<rparr>"

definition sample4 :: stm4 where
  "sample4 = \<lparr>heap4 = object4,
     thr = (\<lambda>i. if i = 0 then thread4 tree4 [64, 192] [192] LOCKED else thread4 g2l_empty [64] [] (LOCKED + 2)),
     global_cur_time = 2, inev_mutex = False, stm_prebuilt_gcroots = [], stm_tx_list = [0, 1],
     free_descriptors = [], next_descriptor = 2, sync_required = False, in_single_thread = None, single_thread_nesting = 0,
     stm_regular_length_limit = 10000, registered_objs = g2l_empty, objects_to_trace = [],
     countdown_next_major_coll = 16777216, events4 = []\<rparr>"

lemma sample4_fields:
  "rev_of sample4 64 = 1" "rev_of sample4 128 = - LOCKED" "rev_of sample4 192 = 320" "rev_of sample4 320 = 1"
  "\<exists>y. heap4 sample4 64 = Some y" "\<exists>y. heap4 sample4 128 = Some y" "\<exists>y. heap4 sample4 192 = Some y" "\<exists>y. heap4 sample4 320 = Some y"
  "fields4 (obj_at sample4 128) = [7]" "fields4 (obj_at sample4 320) = [8]" "global_cur_time sample4 = 2"
  "free4 pool4 sample4 = {256, 264}"
  by (auto simp: rev_of_def obj_at_def sample4_def object4_def free4_def pool4_def)

lemma sample4_thread:
  "public_to_private (thr sample4 0) = tree4" "private_from_protected (thr sample4 0) = [192]"
  "my_lock (thr sample4 0) = LOCKED" "stm_private_rev_num (thr sample4 0) = - LOCKED" "stm_active (thr sample4 0) = 1"
  "stolen_objects (thr sample4 0) = []" "start_time4 (thr sample4 0) = 2" "max_aborts (thr sample4 0) = - 1"
  "collection_lock (thr sample4 0) = ''''" "\<not> longjmp_callback (thr sample4 0)"
  by (simp_all add: sample4_def thread4_def)

lemma sample4_flags:
  "\<not> flag4 sample4 64 GCFLAG4_MOVED" "\<not> flag4 sample4 64 GCFLAG4_PRIVATE_FROM_PROTECTED"
  "\<not> flag4 sample4 128 GCFLAG4_PRIVATE_FROM_PROTECTED" "\<not> flag4 sample4 320 GCFLAG4_PUBLIC"
  "h_original (obj_at sample4 128) = 64"
  by (simp_all add: flag4_def obj_at_def sample4_def object4_def GCFLAG4_MOVED_def GCFLAG4_PRIVATE_FROM_PROTECTED_def
      GCFLAG4_PUBLIC_def GCFLAG4_PUBLIC_TO_PRIVATE_def GCFLAG4_OLD_def GCFLAG4_BACKUP_COPY_def gcflag4_def)

lemma locked_facts: "\<not> LOCKED \<le>s 1" "\<not> IS_POINTER LOCKED" "(1 :: u64) \<noteq> - LOCKED"
  by (simp_all add: LOCKED_def IS_POINTER_def word_sle_eq)

lemma sample4_unlocked: "unlocked_items 0 [(64, 128)] sample4"
  by (simp add: unlocked_items_def apart4_def usual_rev_def sample4_fields sample4_thread sample4_flags IS_POINTER_def del: apart4_Cons)

lemma sample4_current: "current_rev 0 sample4 64"
  by (simp add: current_rev_def sample4_fields sample4_thread locked_facts) (simp add: IS_POINTER_def)

lemma sample4_ready: "commit_ready 0 sample4"
  by (simp add: commit_ready_def Let_def sample4_thread sample4_fields tree4_ok sample4_unlocked sample4_current
      stubbable_def sample4_flags locked_facts places_def) (simp add: IS_POINTER_def)

section \<open>Locks, aborts and commits\<close>

text \<open>
  C15: A commit is seen by whoever read what it changed. A transaction that is ready commits, if
  there is room for its stubs: the time advances, each modified public object leads to
  a stub of the thread, and the stub to the private copy, which is current at the new time and has
  its contents; objects that were private in place are current as well; no other object changes.
  From then on, the validation of every transaction, in any thread, fails for every
  object that was modified.
\<close>

theorem commit_conflicts:
  assumes "commit_ready me s" and "alloc_ok4 pool X"
    and "length (g2l_items (public_to_private (thr s me))) \<le> card (free4 pool s)"
  shows "\<exists>s'. CommitTransaction (Suc n) X me stay s = Ret () s' \<and> global_cur_time s' = global_cur_time s + 2 \<and>
    (\<forall>(R, L) \<in> set (g2l_items (public_to_private (thr s me))).
       stub_for me s' L (rev_of s' R) \<and> rev_of s' L = global_cur_time s + 1 \<and> fields4 (obj_at s' L) = fields4 (obj_at s L) \<and>
       (\<forall>m Y d during_commit. validate_object (Suc m) Y d during_commit R s' = Ret False s')) \<and>
    (\<forall>P \<in> set (private_from_protected (thr s me)). P \<notin> snd ` set (g2l_items (public_to_private (thr s me))) \<longrightarrow>
       pfp_committed (global_cur_time s + 1) s s' P) \<and>
    (\<forall>p. heap4 s p \<noteq> None \<longrightarrow> IS_POINTER p \<longrightarrow> p \<notin> places (g2l_items (public_to_private (thr s me))) \<longrightarrow>
       p \<notin> set (private_from_protected (thr s me)) \<longrightarrow> p \<notin> rev_of s ` set (private_from_protected (thr s me)) \<longrightarrow>
       heap4 s' p = heap4 s p) \<and>
    stm_private_rev_num (thr s' me) = - (global_cur_time s + 1) \<and> stm_active (thr s' me) = 0 \<and>
    (\<forall>d. d \<noteq> me \<longrightarrow> thr s' d = thr s d)"
proof -
  let ?w = "g2l_items (public_to_private (thr s me))"
  have fl: "\<not> flag4 s R GCFLAG4_MOVED \<and> \<not> flag4 s R GCFLAG4_PRIVATE_FROM_PROTECTED" if "(R, L) \<in> set ?w" for R L
    using assms(1) that unfolding commit_ready_def Let_def by blast
  obtain s' where s': "CommitTransaction (Suc n) X me stay s = Ret () s'" "global_cur_time s' = global_cur_time s + 2"
    "\<forall>(R, L) \<in> set ?w. \<exists>st. rev_of s' R = st \<and> IS_POINTER st \<and> flag4 s' R = flag4 s R \<and>
       stub_for me s' L st \<and> rev_of s' L = global_cur_time s + 1 \<and> fields4 (obj_at s' L) = fields4 (obj_at s L)"
    and rest: "(\<forall>P \<in> set (private_from_protected (thr s me)). P \<notin> snd ` set ?w \<longrightarrow> pfp_committed (global_cur_time s + 1) s s' P) \<and>
    (\<forall>p. heap4 s p \<noteq> None \<longrightarrow> IS_POINTER p \<longrightarrow> p \<notin> places ?w \<longrightarrow>
       p \<notin> set (private_from_protected (thr s me)) \<longrightarrow> p \<notin> rev_of s ` set (private_from_protected (thr s me)) \<longrightarrow>
       heap4 s' p = heap4 s p) \<and>
    stm_private_rev_num (thr s' me) = - (global_cur_time s + 1) \<and> stm_active (thr s' me) = 0 \<and>
    (\<forall>d. d \<noteq> me \<longrightarrow> thr s' d = thr s d)"
    using commit_steps [OF assms, of n stay] by blast
  have "stub_for me s' L (rev_of s' R) \<and> rev_of s' L = global_cur_time s + 1 \<and> fields4 (obj_at s' L) = fields4 (obj_at s L) \<and>
       (\<forall>m Y d during_commit. validate_object (Suc m) Y d during_commit R s' = Ret False s')" if RL: "(R, L) \<in> set ?w" for R L
  proof -
    have "IS_POINTER (rev_of s' R)" "flag4 s' R = flag4 s R" "stub_for me s' L (rev_of s' R)" "rev_of s' L = global_cur_time s + 1"
      "fields4 (obj_at s' L) = fields4 (obj_at s L)"
      using s'(3) RL by auto
    then show ?thesis using fl [OF RL] by (simp add: Let_def)
  qed
  then show ?thesis using s'(1,2) rest by (intro exI [of _ s']) blast
qed

theorem commit_conflicts_witness:
  "\<exists>s'. CommitTransaction 1 ext4_sample 0 False sample4 = Ret () s' \<and> rev_of s' 128 = 3 \<and>
     validate_object 1 ext4_sample 1 False 64 s' = Ret False s'"
proof -
  have room: "length (g2l_items (public_to_private (thr sample4 0))) \<le> card (free4 pool4 sample4)"
    by (simp add: sample4_thread tree4_ok sample4_fields)
  have w: "(64, 128) \<in> set (g2l_items (public_to_private (thr sample4 0)))" by (simp add: sample4_thread tree4_ok)
  obtain s' where s': "CommitTransaction (Suc 0) ext4_sample 0 False sample4 = Ret () s'"
    "\<forall>(R, L) \<in> set (g2l_items (public_to_private (thr sample4 0))). rev_of s' L = global_cur_time sample4 + 1 \<and>
       (\<forall>m Y d during_commit. validate_object (Suc m) Y d during_commit R s' = Ret False s')"
    using commit_conflicts [OF sample4_ready alloc_ok4_sample room, of 0 False] by fast
  from bspec [OF s'(2) w] have "rev_of s' 128 = global_cur_time sample4 + 1"
    "validate_object (Suc 0) ext4_sample 1 False 64 s' = Ret False s'" by (simp_all del: validate_object.simps)
  then show ?thesis using s'(1) by (auto simp: sample4_fields simp del: validate_object.simps)
qed

text \<open>
  C26: Locks that are taken for a commit and given back leave no trace. If all public objects that
  the transaction modified are current, \<open>AcquireLocks\<close> returns with all of them locked, and
  cancelling restores the whole state. If it meets an outdated object, it aborts, in a
  state where cancelling, which is the next step of the abort, restores the whole state as well.
\<close>

theorem cancel_undoes_acquire:
  assumes "g2l_inv (public_to_private (thr s me))" and "unlocked_items me (g2l_items (public_to_private (thr s me))) s"
    and "g2l_items (public_to_private (thr s me)) = xs @ ys" and "\<forall>(R, L) \<in> set xs. current_rev me s R"
  shows "(ys = [] \<longrightarrow> (\<exists>s1. AcquireLocks (Suc n) X me s = Ret () s1 \<and>
      (\<forall>(R, L) \<in> set xs. rev_of s1 R = my_lock (thr s me) \<and> rev_of s1 L = rev_of s R) \<and> CancelLocks me s1 = s)) \<and>
    (\<forall>R L zs. ys = (R, L) # zs \<and> IS_POINTER (rev_of s R) \<longrightarrow>
      (\<exists>s1. AcquireLocks (Suc n) X me s = AbortTransaction ABRT_COMMIT me s1 \<and> CancelLocks me s1 = s))"
proof -
  let ?t = "public_to_private (thr s me)"
  define s1 where "s1 = acquired me xs s"
  have th: "thr s1 = thr s" by (simp add: s1_def acquired_frame)
  have ap: "apart4 (xs @ ys)" using assms(2) by (simp add: unlocked_items_def assms(3))
  have acq: "AcquireLocks (Suc n) X me s = acquire_items (Suc n) X me ys s1"
  proof (cases "g2l_any_entry ?t")
    case True
    then show ?thesis using acquire_items_acquired [OF ap assms(4), of n X] by (simp add: AcquireLocks_def assms(3) s1_def)
  next
    case False
    then have "xs = []" "ys = []" using no_entry_items [OF assms(1)] assms(3) by auto
    then show ?thesis using False by (simp add: AcquireLocks_def s1_def)
  qed
  have can: "CancelLocks me s1 = s"
  proof (cases "g2l_any_entry ?t")
    case True
    then show ?thesis using cancel_acquired [OF assms(2) [unfolded assms(3)] assms(4)]
      by (simp add: CancelLocks_def th assms(3)) (simp add: s1_def)
  next
    case False
    then have "xs = []" using no_entry_items [OF assms(1)] assms(3) by auto
    then show ?thesis using False by (simp add: CancelLocks_def s1_def)
  qed
  show ?thesis
  proof (intro conjI impI allI)
    assume y: "ys = []"
    have "\<forall>(R, L) \<in> set xs. rev_of s1 R = my_lock (thr s me) \<and> rev_of s1 L = rev_of s R"
      using acquired_revs [of xs] ap y by (auto simp: s1_def)
    then show "\<exists>s1. AcquireLocks (Suc n) X me s = Ret () s1 \<and>
      (\<forall>(R, L) \<in> set xs. rev_of s1 R = my_lock (thr s me) \<and> rev_of s1 L = rev_of s R) \<and> CancelLocks me s1 = s"
      using acq can y by auto
  next
    fix R L zs
    assume y: "ys = (R, L) # zs \<and> IS_POINTER (rev_of s R)"
    then have "R \<notin> places xs" using ap by (auto simp: apart4_def places_def)
    then have "IS_POINTER (rev_of s1 R)" using y acquired_other by (simp add: s1_def)
    then have "acquire_items (Suc n) X me ys s1 = AbortTransaction ABRT_COMMIT me s1"
      using y by (simp add: Let_def abort_bind)
    then show "\<exists>s1. AcquireLocks (Suc n) X me s = AbortTransaction ABRT_COMMIT me s1 \<and> CancelLocks me s1 = s"
      using acq can by auto
  qed
qed

theorem cancel_undoes_acquire_witness:
  "\<exists>s1. AcquireLocks 1 ext4_sample 0 sample4 = Ret () s1 \<and> rev_of s1 64 = LOCKED \<and> CancelLocks 0 s1 = sample4"
  using cancel_undoes_acquire [where me = 0 and s = sample4 and xs = "[(64, 128)]" and ys = "[]" and n = 0 and X = ext4_sample]
    sample4_unlocked sample4_current by (auto simp: sample4_thread tree4_ok)

text \<open>
  C17: An abort gives the protected objects back. A transaction that is not committing, whose
  protected objects have each a backup of their own, is aborted by \<open>AbortTransaction\<close>: each
  object that it turned private in place has its old contents and revision again and its backup is
  freed, unless another thread stole the backup, which stays, and to which the object then leads
  as an outdated public object. No other object changes, and the lists of the
  transaction, its map from public to private objects and its thread-local object are reset.
\<close>

theorem abort_restores_protected:
  fixes s :: stm4 and me :: nat
  assumes "collection_lock (thr s me) \<noteq> ''C''" and "stolen_objects (thr s me) = []" and "max_aborts (thr s me) < 0"
    and "\<not> longjmp_callback (thr s me)" and "g2l_inv (public_to_private (thr s me))"
    and "distinct (private_from_protected (thr s me))" and "inj_on (rev_of s) (set (private_from_protected (thr s me)))"
    and "\<forall>P \<in> set (private_from_protected (thr s me)). heap4 s P \<noteq> None \<and> rev_of s P \<notin> set (private_from_protected (thr s me))"
  shows "\<exists>s'. (AbortTransaction num me s :: (stm4, 'a) res) = Aborted s' \<and>
    (\<forall>P \<in> set (private_from_protected (thr s me)). pfp_restored s s' P) \<and>
    (\<forall>q. q \<notin> set (private_from_protected (thr s me)) \<longrightarrow> q \<notin> rev_of s ` set (private_from_protected (thr s me)) \<longrightarrow>
       heap4 s' q = heap4 s q) \<and>
    list_of_read_objects (thr s' me) = [] \<and> private_from_protected (thr s' me) = [] \<and>
    g2l_map (public_to_private (thr s' me)) = Map.empty \<and>
    stm_thread_local_obj (thr s' me) = old_thread_local_obj (thr s me) \<and> stm_active (thr s' me) = 0 \<and>
    collection_lock (thr s' me) = ''''"
proof -
  let ?Ps = "private_from_protected (thr s me)"
  define s0 where "s0 = spinlock_acquire4 me ''C'' s"
  have "normalize_if_stolen me s0 = Ret () s0"
    using assms(2) by (simp add: s0_def normalize_if_stolen_def spinlock_acquire4_def heap4_simps)
  note nz = this
  define s1 where "s1 = upd_thr me lower_reads_limit (upd_thr me (\<lambda>d. d\<lparr>num_aborts := (num_aborts d)(num := num_aborts d num + 1)\<rparr>) s0)"
  have lim: "private_from_protected (lower_reads_limit d) = private_from_protected d" "max_aborts (lower_reads_limit d) = max_aborts d"
    "public_to_private (lower_reads_limit d) = public_to_private d" "old_thread_local_obj (lower_reads_limit d) = old_thread_local_obj d"
    "longjmp_callback (lower_reads_limit d) = longjmp_callback d" for d
    by (simp_all add: lower_reads_limit_def Let_def)
  have s1: "heap4 s1 = heap4 s" "private_from_protected (thr s1 me) = ?Ps" "max_aborts (thr s1 me) = max_aborts (thr s me)"
    "public_to_private (thr s1 me) = public_to_private (thr s me)" "old_thread_local_obj (thr s1 me) = old_thread_local_obj (thr s me)"
    "longjmp_callback (thr s1 me) = longjmp_callback (thr s me)"
    by (simp_all add: s1_def s0_def spinlock_acquire4_def heap4_simps lim)
  have r1: "rev_of s1 = rev_of s" "obj_at s1 = obj_at s" "flag4 s1 = flag4 s"
    using s1(1) by (simp_all add: rev_of_def obj_at_def flag4_def fun_eq_iff)
  define s2 where "s2 = fold abort_private_from_protected1 ?Ps s1"
  have ab: "thr s2 = thr s1" "\<forall>P \<in> set ?Ps. pfp_restored s1 s2 P"
    "\<forall>q. q \<notin> set ?Ps \<longrightarrow> q \<notin> rev_of s ` set ?Ps \<longrightarrow> heap4 s2 q = heap4 s q"
    using abort_pfp_ok [of ?Ps s1] assms(6-8) by (simp_all add: s2_def r1 s1(1))
  have ab2: "\<forall>P \<in> set ?Ps. pfp_restored s s2 P" using ab(2) unfolding pfp_restored_def r1 s1(1) .
  define s3 where "s3 = SpinLoop SPLP_ABORT me (purge_private_objs_from_old_objects_to_trace me (upd_thr me (\<lambda>d. d\<lparr>list_of_read_objects := [],
      public_to_private := g2l_clear (public_to_private d), stm_thread_local_obj := old_thread_local_obj d, old_thread_local_obj := 0\<rparr>)
      (AbortPrivateFromProtected me s1)))"
  define s4 where "s4 = clear_mem_and_call me (spinlock_release4 me (upd_thr me (\<lambda>d. d\<lparr>stm_active := 0, atomic4 := 0\<rparr>) s3))"
  have s3: "heap4 s3 = heap4 s2" "max_aborts (thr s3 me) = max_aborts (thr s me)" "list_of_read_objects (thr s3 me) = []"
    "private_from_protected (thr s3 me) = []" "public_to_private (thr s3 me) = g2l_clear (public_to_private (thr s me))"
    "stm_thread_local_obj (thr s3 me) = old_thread_local_obj (thr s me)" "longjmp_callback (thr s3 me) = longjmp_callback (thr s me)"
    using ab(1) s1 by (simp_all add: s3_def SpinLoop_def purge_private_objs_from_old_objects_to_trace_def heap4_simps
      AbortPrivateFromProtected_def foreach_f_def s2_def)
  have cm: "heap4 (clear_mem_and_call me z) = heap4 z" "max_aborts (thr (clear_mem_and_call me z) me) = max_aborts (thr z me)"
    "list_of_read_objects (thr (clear_mem_and_call me z) me) = list_of_read_objects (thr z me)"
    "private_from_protected (thr (clear_mem_and_call me z) me) = private_from_protected (thr z me)"
    "public_to_private (thr (clear_mem_and_call me z) me) = public_to_private (thr z me)"
    "stm_thread_local_obj (thr (clear_mem_and_call me z) me) = stm_thread_local_obj (thr z me)"
    "longjmp_callback (thr (clear_mem_and_call me z) me) = longjmp_callback (thr z me)"
    "stm_active (thr (clear_mem_and_call me z) me) = stm_active (thr z me)"
    "collection_lock (thr (clear_mem_and_call me z) me) = collection_lock (thr z me)" for z
    by (simp_all add: clear_mem_and_call_def Let_def heap4_simps split: option.split)
  have s4: "heap4 s4 = heap4 s2" "max_aborts (thr s4 me) < 0" "list_of_read_objects (thr s4 me) = []"
    "private_from_protected (thr s4 me) = []" "public_to_private (thr s4 me) = g2l_clear (public_to_private (thr s me))"
    "stm_thread_local_obj (thr s4 me) = old_thread_local_obj (thr s me)" "\<not> longjmp_callback (thr s4 me)"
    "stm_active (thr s4 me) = 0" "collection_lock (thr s4 me) = ''''"
    using s3 assms(3,4) by (simp_all add: s4_def cm spinlock_release4_def heap4_simps)
  have "(AbortTransaction num me s :: (stm4, 'a) res) = Aborted s4"
    unfolding AbortTransaction_def s0_def [symmetric] if_P [OF assms(1)] nz bind_res.simps Let_def
      s1_def [symmetric] s3_def [symmetric] s4_def [symmetric] using s4(2,7) by simp
  moreover have "g2l_map (public_to_private (thr s4 me)) = Map.empty" using g2m.clear_abs [OF assms(5)] s4(5) by simp
  moreover have "\<forall>P \<in> set ?Ps. pfp_restored s s4 P" using ab2 unfolding pfp_restored_def s4(1) .
  ultimately show ?thesis using s4 ab(3) by (intro exI [of _ s4]) simp
qed

theorem abort_restores_protected_witness:
  "\<exists>s'. (AbortTransaction ABRT_COMMIT 0 sample4 :: (stm4, unit) res) = Aborted s' \<and>
     fields4 (obj_at s' 192) = [8] \<and> heap4 s' 320 = None \<and> heap4 s' 64 = heap4 sample4 64"
proof -
  from abort_restores_protected [where s = sample4 and me = 0 and num = ABRT_COMMIT and 'a = unit]
  obtain s' where s': "(AbortTransaction ABRT_COMMIT 0 sample4 :: (stm4, unit) res) = Aborted s'" "pfp_restored sample4 s' 192"
    "\<forall>q. q \<noteq> 192 \<longrightarrow> q \<noteq> 320 \<longrightarrow> heap4 s' q = heap4 sample4 q"
    by (auto simp: sample4_thread sample4_fields tree4_ok)
  then show ?thesis
    using sample4_flags(4) by (auto simp: pfp_restored_def Let_def sample4_fields obj_at_def [of s'] split: if_splits)
qed

end
