(* ===== verification/C4read.thy ===== *)
theory C4read
  imports C4barrier C4theorems
begin

text \<open>
  The read barrier of the first design finds the newest version: it follows the chain of
  revisions, and the shortcuts that it stores on the way do not change where a chain ends.
\<close>

section \<open>Chains of revisions\<close>

inductive leads_in :: "stm4 \<Rightarrow> nat \<Rightarrow> u64 \<Rightarrow> u64 \<Rightarrow> bool" for s where
  here: "\<not> IS_POINTER (rev_of s Q) \<Longrightarrow> leads_in s 0 Q Q"
| step: "IS_POINTER (rev_of s P) \<Longrightarrow> rev_of s P AND 2 = 0 \<Longrightarrow> leads_in s k (rev_of s P) Q \<Longrightarrow> leads_in s (Suc k) P Q"

inductive_cases leads_0E: "leads_in s 0 P Q"
inductive_cases leads_SucE: "leads_in s (Suc k) P Q"

lemma leads_0: "leads_in s 0 P Q \<longleftrightarrow> P = Q \<and> \<not> IS_POINTER (rev_of s Q)"
  by (auto elim: leads_0E intro: leads_in.here)

lemma leads_Suc: "leads_in s (Suc k) P Q \<longleftrightarrow> IS_POINTER (rev_of s P) \<and> rev_of s P AND 2 = 0 \<and> leads_in s k (rev_of s P) Q"
  by (auto elim: leads_SucE intro: leads_in.step)

lemma leads_unique: "leads_in s k P Q \<Longrightarrow> leads_in s j P R \<Longrightarrow> j = k \<and> R = Q"
proof (induction arbitrary: j rule: leads_in.induct)
  case (here Q)
  then show ?case by (cases j) (auto simp: leads_0 leads_Suc)
next
  case (step P k Q)
  then show ?case by (cases j) (auto simp: leads_0 leads_Suc)
qed

lemma leads_end: "leads_in s k P Q \<Longrightarrow> \<not> IS_POINTER (rev_of s Q)"
  by (induction rule: leads_in.induct) auto

text \<open>A change to the revision of an object further up does not matter.\<close>

lemma leads_below: "leads_in s j A Q \<Longrightarrow> leads_in s k P R \<Longrightarrow> j < k \<Longrightarrow> leads_in (set_rev P v s) j A Q"
proof (induction arbitrary: rule: leads_in.induct)
  case (here Q)
  then have "Q \<noteq> P" using leads_unique [of s 0 Q Q k R] leads_in.here by auto
  then show ?case using here by (simp add: leads_0)
next
  case (step A j Q)
  have "A \<noteq> P" using leads_unique [OF leads_in.step [OF step.hyps] , of k R] step.prems by auto
  then show ?case using step by (simp add: leads_Suc)
qed

text \<open>The shortcut over one object.\<close>

lemma leads_shortcut:
  assumes "IS_POINTER (rev_of s P)" and "rev_of s P AND 2 = 0" and "IS_POINTER (rev_of s (rev_of s P))"
    and "rev_of s (rev_of s P) AND 2 = 0"
  shows "leads_in s k A B \<Longrightarrow> \<exists>j. leads_in (set_rev P (rev_of s (rev_of s P)) s) j A B"
proof (induction rule: leads_in.induct)
  case (here Q)
  then have "Q \<noteq> P" using assms(1) by auto
  then show ?case using here by (auto simp: leads_0 intro!: exI [of _ 0])
next
  case (step A k Q)
  let ?s = "set_rev P (rev_of s (rev_of s P)) s"
  obtain j where j: "leads_in ?s j (rev_of s A) Q" using step.IH by blast
  show ?case
  proof (cases "A = P")
    case False
    then have "leads_in ?s (Suc j) A Q" using step.hyps j by (simp add: leads_Suc)
    then show ?thesis by blast
  next
    case True
    show ?thesis
    proof (cases "rev_of s P = P")
      case True
      then show ?thesis using j \<open>A = P\<close> by auto
    next
      case False
      then obtain i where "leads_in ?s i (rev_of s (rev_of s P)) Q"
        using j assms(3) \<open>A = P\<close> by (cases j) (auto simp: leads_0 leads_Suc)
      then have "leads_in ?s (Suc i) P Q" using assms(3,4) by (simp add: leads_Suc)
      then show ?thesis using True by blast
    qed
  qed
qed

definition same_ends :: "stm4 \<Rightarrow> stm4 \<Rightarrow> bool" where
  "same_ends s s' \<longleftrightarrow> thr s' = thr s \<and> flag4 s' = flag4 s \<and> (\<forall>k A B. leads_in s k A B \<longrightarrow> (\<exists>j. leads_in s' j A B))"

lemma follow_chain_ok:
  "leads_in s (Suc k) P Q \<Longrightarrow> k < n \<Longrightarrow>
   \<exists>s'. follow_chain n P (rev_of s P) s = Ret (False, Q, rev_of s Q) s' \<and> same_ends s s' \<and> rev_of s' Q = rev_of s Q"
proof (induction n arbitrary: k s P)
  case (Suc n)
  define P1 where "P1 = rev_of s P"
  have P: "IS_POINTER P1" "P1 AND 2 = 0" "leads_in s k P1 Q" using Suc.prems(1) by (simp_all add: leads_Suc P1_def)
  show ?case
  proof (cases k)
    case 0
    then have "P1 = Q" "\<not> IS_POINTER (rev_of s Q)" using P(3) by (simp_all add: leads_0)
    then show ?thesis using P(2) by (simp add: P1_def [symmetric] Let_def same_ends_def) blast
  next
    case (Suc j)
    define P2 where "P2 = rev_of s P1"
    have P2: "IS_POINTER P2" "P2 AND 2 = 0" "leads_in s j P2 Q" using P(3) Suc by (simp_all add: leads_Suc P2_def)
    define u where "u = set_rev P P2 s"
    have l2: "leads_in u j P2 Q" unfolding u_def by (rule leads_below [OF P2(3) Suc.prems(1)]) (simp add: Suc)
    have ne: "P2 \<noteq> P" using leads_unique [OF P2(3), of "Suc k" Q] Suc.prems(1) Suc by auto
    have neQ: "Q \<noteq> P" using leads_end [OF P(3)] P(1) by (auto simp: P1_def)
    have ends: "same_ends s u"
      using leads_shortcut [of s P] P P2 by (auto simp: same_ends_def u_def P1_def P2_def)
    have step: "follow_chain (Suc n) P (rev_of s P) s =
        (if IS_POINTER (rev_of u P2) then follow_chain n P2 (rev_of u P2) u else Ret (False, P2, rev_of u P2) u)"
      unfolding follow_chain.simps Let_def P1_def [symmetric] P2_def [symmetric] u_def [symmetric] using P(2) P2(1,2) by simp
    show ?thesis
    proof (cases j)
      case 0
      then have "P2 = Q" "\<not> IS_POINTER (rev_of u Q)" using l2 by (simp_all add: leads_0)
      then show ?thesis using step ends neQ by (simp add: u_def)
    next
      case (Suc i)
      have "i < n" using Suc.prems(2) \<open>k = Suc j\<close> \<open>j = Suc i\<close> by simp
      then obtain s' where s': "follow_chain n P2 (rev_of u P2) u = Ret (False, Q, rev_of u Q) s'" "same_ends u s'"
        "rev_of s' Q = rev_of u Q"
        using Suc.IH [of u i P2] l2 \<open>j = Suc i\<close> by blast
      moreover have "IS_POINTER (rev_of u P2)" using l2 \<open>j = Suc i\<close> by (simp add: leads_Suc)
      moreover have "same_ends s s'" using ends s'(2) unfolding same_ends_def by (metis)
      ultimately show ?thesis using step neQ by (simp add: u_def)
    qed
  qed
qed simp


lemma leads_cong: "rev_of s' = rev_of s \<Longrightarrow> leads_in s' k P Q = leads_in s k P Q"
  by (induction k arbitrary: P) (simp_all add: leads_0 leads_Suc)

lemma upd_thr_rev: "rev_of (upd_thr me f s) = rev_of s" "flag4 (upd_thr me f s) = flag4 s"
  by (simp_all add: fun_eq_iff rev_of_def flag4_def heap4_simps)

definition private_of :: "stm4 \<Rightarrow> nat \<Rightarrow> u64 \<Rightarrow> u64 option" where
  "private_of s me Q = (if flag4 s Q GCFLAG4_PUBLIC_TO_PRIVATE then G2L_FIND (public_to_private (thr s me)) Q else None)"

text \<open>
  C16: The read barrier finds the version that the transaction must see. Let \<open>G\<close> be public and not
  private-from-protected, let its chain of revisions be of direct pointers (no stubs) and end at
  an object \<open>Q\<close> that is not newer than the start time of the transaction, and let no stolen objects
  wait to be normalized. If \<open>Q\<close> is another object than \<open>G\<close> and among the recent reads, the
  barrier returns \<open>Q\<close>, also when there is a private version of it. Otherwise it returns the
  transaction's private version of \<open>Q\<close> if there is one, and else \<open>Q\<close>, which it records as read.
  It neither waits nor aborts, and the shortcuts that it stores change the end of no chain in the
  heap and no flag.
\<close>

theorem read_finds_newest:
  assumes "leads_in s k G Q" and "k \<le> n" and "flag4 s G GCFLAG4_PUBLIC" and "\<not> flag4 s G GCFLAG4_PRIVATE_FROM_PROTECTED"
    and "stolen_objects (thr s me) = []" and "\<not> start_time4 (thr s me) <s rev_of s Q"
  shows "\<exists>s'. stm_DirectReadBarrier (Suc n) X me G s =
      Ret (case private_of s me Q of Some L \<Rightarrow> if G \<noteq> Q \<and> at_cache s me Q then Q else L | None \<Rightarrow> Q) s' \<and>
    (private_of s me Q = None \<longrightarrow> G \<noteq> Q \<and> at_cache s me Q \<or> Q \<in> set (list_of_read_objects (thr s' me))) \<and>
    (\<forall>j A B. leads_in s j A B \<longrightarrow> (\<exists>i. leads_in s' i A B)) \<and> flag4 s' = flag4 s"
proof -
  define s0 where "s0 = upd_thr me (\<lambda>d. d\<lparr>count_reads := count_reads d + 1\<rparr>) s"
  have s0: "rev_of s0 = rev_of s" "flag4 s0 = flag4 s" by (simp_all add: s0_def upd_thr_rev)
  have th0: "public_to_private (thr s0 me) = public_to_private (thr s me)" "stolen_objects (thr s0 me) = []"
    "start_time4 (thr s0 me) = start_time4 (thr s me)" "recent_reads_cache (thr s0 me) = recent_reads_cache (thr s me)"
    using assms(5) by (simp_all add: s0_def heap4_simps)
  have Q: "\<not> IS_POINTER (rev_of s Q)" by (rule leads_end [OF assms(1)])
  have G: "IS_POINTER (rev_of s G) \<longleftrightarrow> G \<noteq> Q"
  proof (cases k)
    case 0
    then show ?thesis using assms(1) Q by (simp add: leads_0)
  next
    case (Suc j)
    then show ?thesis using assms(1) Q by (auto simp: leads_Suc)
  qed
  obtain s1 where s1: "(if IS_POINTER (rev_of s0 G) then follow_chain n G (rev_of s0 G) s0 else Ret (False, G, rev_of s0 G) s0) =
      Ret (False, Q, rev_of s Q) s1" "same_ends s0 s1" "rev_of s1 Q = rev_of s Q"
  proof (cases k)
    case 0
    then have "G = Q" using assms(1) by (simp add: leads_0)
    then show ?thesis using that [of s0] Q s0 by (auto simp: same_ends_def)
  next
    case (Suc j)
    then have "leads_in s0 (Suc j) G Q" "j < n" using assms(1,2) leads_cong [OF s0(1)] by simp_all
    from follow_chain_ok [OF this] show ?thesis using that s0 assms(1) Suc by (auto simp: leads_Suc)
  qed
  have th1: "thr s1 = thr s0" "flag4 s1 = flag4 s" using s1(2) s0 by (simp_all add: same_ends_def)
  have ends: "\<forall>j A B. leads_in s j A B \<longrightarrow> (\<exists>i. leads_in s1 i A B)"
    using s1(2) leads_cong [OF s0(1)] by (simp add: same_ends_def)
  have cache: "at_cache s1 me Q = at_cache s me Q" using th1 th0 by (simp add: at_cache_def)
  have fp: "find_private me Q s1 = Ret (private_of s me Q) s1"
    using th1 th0 by (simp add: find_private_def private_of_def split: option.split)
  have run: "stm_DirectReadBarrier (Suc n) X me G s =
      (if G \<noteq> Q \<and> at_cache s me Q then Ret Q s1
       else case private_of s me Q of Some L \<Rightarrow> Ret L s1 | None \<Rightarrow> add_read True me Q s1)"
    unfolding stm_DirectReadBarrier_def s0_def [symmetric] read_loop.simps Let_def
    using assms(3,4,6) s0 s1(1) G cache fp th1 th0 by (simp split: option.split)
  define s2 where "s2 = (if G \<noteq> Q \<and> at_cache s me Q \<or> private_of s me Q \<noteq> None then s1 else res_state (add_read True me Q s1))"
  have s2: "rev_of s2 = rev_of s1" "flag4 s2 = flag4 s1" by (simp_all add: s2_def add_read_def Let_def upd_thr_rev)
  have "\<forall>j A B. leads_in s j A B \<longrightarrow> (\<exists>i. leads_in s2 i A B)" using ends leads_cong [OF s2(1)] by simp
  moreover have "private_of s me Q = None \<longrightarrow> G \<noteq> Q \<and> at_cache s me Q \<or> Q \<in> set (list_of_read_objects (thr s2 me))"
    by (simp add: s2_def add_read_def Let_def heap4_simps)
  moreover have "stm_DirectReadBarrier (Suc n) X me G s =
      Ret (case private_of s me Q of Some L \<Rightarrow> if G \<noteq> Q \<and> at_cache s me Q then Q else L | None \<Rightarrow> Q) s2"
    using run by (auto simp: s2_def add_read_def Let_def split: option.split)
  ultimately show ?thesis using s2(2) th1(2) by (intro exI [of _ s2]) simp
qed

theorem read_finds_newest_witness:
  "\<exists>s'. stm_DirectReadBarrier 1 ext4_sample 0 64 sample4 = Ret 128 s'"
proof -
  have "leads_in sample4 0 64 64" by (simp add: leads_0 sample4_fields IS_POINTER_def)
  moreover have "flag4 sample4 64 GCFLAG4_PUBLIC"
    by (simp add: flag4_def obj_at_def sample4_def object4_def GCFLAG4_PUBLIC_def GCFLAG4_PUBLIC_TO_PRIVATE_def
        GCFLAG4_OLD_def gcflag4_def)
  moreover have "private_of sample4 0 64 = Some 128"
  proof -
    have "flag4 sample4 64 GCFLAG4_PUBLIC_TO_PRIVATE"
      by (simp add: flag4_def obj_at_def sample4_def object4_def GCFLAG4_PUBLIC_def GCFLAG4_PUBLIC_TO_PRIVATE_def
          GCFLAG4_OLD_def gcflag4_def)
    moreover have "G2L_FIND tree4 64 = Some 128"
      using g2m.look_abs [OF tree4_ok(1), of 64] tree4_ok(2) by (simp add: aligned8_def g2l_map_def)
    ultimately show ?thesis by (simp add: private_of_def sample4_thread)
  qed
  moreover have "\<not> start_time4 (thr sample4 0) <s rev_of sample4 64"
    by (simp add: sample4_thread sample4_fields word_sless_alt)
  ultimately show ?thesis
    using read_finds_newest [of sample4 0 64 64 0 0 ext4_sample] sample4_flags(2) sample4_thread(6) by auto
qed

end
