(* ===== verification/C4minor.thy ===== *)
theory C4minor
  imports C4nursery
begin

text \<open>
  Minor collections of the first design (\<open>c4/nursery.c\<close>, \<open>c4/weakref.c\<close>). The objects of the
  nursery that can be reached are copied to old objects; \<open>old_objects_to_trace\<close> is the list of what
  is left to trace. The values in \<open>public_to_private\<close> are updated in place. A thread is
  identified with its public descriptor. The words in \<open>longest_abort_info\<close> are not modelled.
\<close>

section \<open>Moving one object\<close>

definition visit_if_young :: "ext4 \<Rightarrow> nat \<Rightarrow> u64 \<Rightarrow> stm4 \<Rightarrow> u64 \<times> stm4" where
  "visit_if_young X me obj s =
     (if \<not> stmgc_is_in_nursery s me obj then (obj, s)
      else if flag4 s obj GCFLAG4_MOVED then (rev_of s obj, s)
      else let (fresh, s) =
             (if flag4 s obj GCFLAG4_HAS_ID
              then let id_obj = h_original (obj_at s obj);
                       s = upd_obj id_obj (\<lambda>x. x\<lparr>h_original := 0\<rparr>) (stm_copy_to_old_id_copy obj id_obj s)
                   in (id_obj, andnot_tid obj GCFLAG4_HAS_ID s)
              else let (fresh, s) = stmgc_duplicate_old X obj s
                   in (fresh, if flag4 s obj GCFLAG4_PRIVATE_FROM_PROTECTED \<and> h_original (obj_at s obj) = 0
                              then upd_obj (rev_of s obj) (\<lambda>x. x\<lparr>h_original := fresh\<rparr>) s else s));
               s = set_rev obj fresh (or_tid obj GCFLAG4_MOVED s)
           in (fresh, upd_thr me (\<lambda>d. d\<lparr>old_objects_to_trace := old_objects_to_trace d @ [fresh]\<rparr>) s))"

text \<open>\<open>stmgc_trace\<close>: the reference fields of an object, one after the other.\<close>

fun trace_fields4 :: "(u64 \<Rightarrow> stm4 \<Rightarrow> u64 \<times> stm4) \<Rightarrow> u64 \<Rightarrow> nat list \<Rightarrow> stm4 \<Rightarrow> stm4" where
  "trace_fields4 visit obj [] s = s"
| "trace_fields4 visit obj (i # is) s =
     (let (v, s) = visit (fields4 (obj_at s obj) ! i) s
      in trace_fields4 visit obj is (upd_obj obj (\<lambda>x. x\<lparr>fields4 := (fields4 x)[i := v]\<rparr>) s))"

definition stmgc_trace :: "ext4 \<Rightarrow> (u64 \<Rightarrow> stm4 \<Rightarrow> u64 \<times> stm4) \<Rightarrow> u64 \<Rightarrow> stm4 \<Rightarrow> stm4" where
  "stmgc_trace X visit obj s = trace_fields4 visit obj (refs4 X (obj_at s obj)) s"

section \<open>Roots\<close>

text \<open>The shadow stack from its end; running below it is the failed assertion.\<close>

fun mark_stack_from_end :: "ext4 \<Rightarrow> nat \<Rightarrow> u64 list \<Rightarrow> stm4 \<Rightarrow> (stm4, u64 list) res" where
  "mark_stack_from_end X me [] s = Fatal ''assert'' s"
| "mark_stack_from_end X me (item # below) s =
     (if item AND NOT (END_MARKER_OFF OR END_MARKER_ON) \<noteq> 0
      then let (v, s) = visit_if_young X me item s
           in bind_res (mark_stack_from_end X me below s) (\<lambda>xs s. Ret (v # xs) s)
      else if item = END_MARKER_OFF
      then bind_res (mark_stack_from_end X me below s) (\<lambda>xs s. Ret (END_MARKER_ON # xs) s)
      else if item \<noteq> 0 then Ret (item # below) s
      else bind_res (mark_stack_from_end X me below s) (\<lambda>xs s. Ret (item # xs) s))"

definition mark_young_roots :: "ext4 \<Rightarrow> nat \<Rightarrow> stm4 \<Rightarrow> (stm4, unit) res" where
  "mark_young_roots X me s =
     bind_res (mark_stack_from_end X me (rev (shadowstack4 (thr s me))) s) (\<lambda>xs s.
       Ret () (upd_thr me (\<lambda>d. d\<lparr>shadowstack4 := rev xs\<rparr>) s))"

fun visit_abort_items :: "(u64 \<Rightarrow> stm4 \<Rightarrow> u64 \<times> stm4) \<Rightarrow> (u64 \<times> int list) list \<Rightarrow> stm4 \<Rightarrow>
    (u64 \<times> int list) list \<times> stm4" where
  "visit_abort_items visit [] s = ([], s)"
| "visit_abort_items visit ((obj, fieldoffsets) # xs) s =
     (let (v, s) = visit obj s; (ys, s) = visit_abort_items visit xs s in ((v, fieldoffsets) # ys, s))"

definition stm_visit_abort_info :: "nat \<Rightarrow> (u64 \<Rightarrow> stm4 \<Rightarrow> u64 \<times> stm4) \<Rightarrow> stm4 \<Rightarrow> stm4" where
  "stm_visit_abort_info me visit s =
     (let (ys, s) = visit_abort_items visit (abortinfo (thr s me)) s in upd_thr me (\<lambda>d. d\<lparr>abortinfo := ys\<rparr>) s)"

definition mark_extra_stuff :: "ext4 \<Rightarrow> nat \<Rightarrow> stm4 \<Rightarrow> stm4" where
  "mark_extra_stuff X me s =
     (let (v, s) = visit_if_young X me (stm_thread_local_obj (thr s me)) s;
          s = upd_thr me (\<lambda>d. d\<lparr>stm_thread_local_obj := v\<rparr>) s;
          (v, s) = visit_if_young X me (old_thread_local_obj (thr s me)) s;
          s = upd_thr me (\<lambda>d. d\<lparr>old_thread_local_obj := v\<rparr>) s
      in stm_visit_abort_info me (visit_if_young X me) s)"

text \<open>A protected object that was turned private, and its backup.\<close>

fun mark_pfp_items :: "ext4 \<Rightarrow> nat \<Rightarrow> u64 list \<Rightarrow> stm4 \<Rightarrow> u64 list \<times> stm4" where
  "mark_pfp_items X me [] s = ([], s)"
| "mark_pfp_items X me (P # Ps) s =
     (let (v, s) = visit_if_young X me P s;
          s = stmgc_trace X (visit_if_young X me) (rev_of s v) s;
          (vs, s) = mark_pfp_items X me Ps s
      in (v # vs, s))"

definition mark_private_from_protected :: "ext4 \<Rightarrow> nat \<Rightarrow> stm4 \<Rightarrow> stm4" where
  "mark_private_from_protected X me s =
     (let d = thr s me; known = num_private_from_protected_known_old d; Ps = private_from_protected d;
          (vs, s) = mark_pfp_items X me (drop known Ps) s
      in upd_thr me (\<lambda>d. d\<lparr>private_from_protected := take known Ps @ vs,
           num_private_from_protected_known_old := length Ps\<rparr>) s)"

section \<open>Public objects that lead to young ones\<close>

definition SPLP_LOCKED_COLLECT :: nat where "SPLP_LOCKED_COLLECT = 4"
definition ABRT_COLLECT_MINOR :: nat where "ABRT_COLLECT_MINOR = 6"

fun trace_stub :: "nat \<Rightarrow> ext4 \<Rightarrow> nat \<Rightarrow> u64 \<Rightarrow> stm4 \<Rightarrow> (stm4, unit) res" where
  "trace_stub 0 X me S s = Hang s"
| "trace_stub (Suc n) X me S s =
     (let w = rev_of s S
      in if \<not> IS_POINTER w \<and> LOCKED \<le>s w
         then trace_stub n X me S (others4 X me (SpinLoop SPLP_LOCKED_COLLECT me s))
         else if w AND 3 \<noteq> 2 then Ret () s
         else if stub_thread (obj_at s S) \<noteq> me then Ret () s
         else let (L, s) = visit_if_young X me (w - 2) s in Ret () (set_rev S (L OR 2) s))"

fun trace_stubs :: "nat \<Rightarrow> ext4 \<Rightarrow> nat \<Rightarrow> u64 list \<Rightarrow> stm4 \<Rightarrow> (stm4, unit) res" where
  "trace_stubs n X me [] s = Ret () s"
| "trace_stubs n X me (S # Ss) s = bind_res (trace_stub n X me S s) (\<lambda>_ s. trace_stubs n X me Ss s)"

definition mark_stolen_young_stubs :: "nat \<Rightarrow> ext4 \<Rightarrow> nat \<Rightarrow> stm4 \<Rightarrow> (stm4, unit) res" where
  "mark_stolen_young_stubs n X me s =
     bind_res (trace_stubs n X me (stolen_young_stubs (thr s me)) s) (\<lambda>_ s.
       Ret () (upd_thr me (\<lambda>d. d\<lparr>stolen_young_stubs := []\<rparr>) s))"

text \<open>The assignment to \<open>item->val\<close>, for the item with some address.\<close>

fun set_entry_val :: "u64 \<Rightarrow> u64 \<Rightarrow> tree_entry \<Rightarrow> tree_entry" where
  "set_entry_val addr val ENull = ENull"
| "set_entry_val addr val (EItem a v) = (if a = addr then EItem a val else EItem a v)"
| "set_entry_val addr val (ENode xs) = ENode (map (set_entry_val addr val) xs)"

definition g2l_set_val :: "g2l \<Rightarrow> u64 \<Rightarrow> u64 \<Rightarrow> g2l" where
  "g2l_set_val t addr val = t\<lparr>toplevel := map (set_entry_val addr val) (toplevel t)\<rparr>"

fun not_in_public_to_private :: "nat \<Rightarrow> ext4 \<Rightarrow> nat \<Rightarrow> u64 \<Rightarrow> stm4 \<Rightarrow> (stm4, unit) res" where
  "not_in_public_to_private 0 X me P s = Hang s"
| "not_in_public_to_private (Suc n) X me P s =
     (let v = rev_of s P
      in if \<not> IS_POINTER v
         then if LOCKED \<le>s v
              then not_in_public_to_private n X me P (others4 X me (SpinLoop SPLP_LOCKED_COLLECT me s))
              else Ret () s
         else trace_stub n X me v s)"

definition mark_public_item :: "nat \<Rightarrow> ext4 \<Rightarrow> nat \<Rightarrow> u64 \<Rightarrow> stm4 \<Rightarrow> (stm4, unit) res" where
  "mark_public_item n X me P s =
     (case G2L_FIND (public_to_private (thr s me)) P of
        Some L \<Rightarrow>
          if IS_POINTER (rev_of s P)
          then Ret () (AbortTransactionAfterCollect ABRT_COLLECT_MINOR me
                 (upd_thr me (\<lambda>d. d\<lparr>public_to_private := g2l_set_val (public_to_private d) P 0\<rparr>) s))
          else let (v, s) = visit_if_young X me L s
               in Ret () (upd_thr me (\<lambda>d. d\<lparr>public_to_private := g2l_set_val (public_to_private d) P v\<rparr>) s)
      | None \<Rightarrow> not_in_public_to_private n X me P s)"

fun mark_public_items :: "nat \<Rightarrow> ext4 \<Rightarrow> nat \<Rightarrow> u64 list \<Rightarrow> stm4 \<Rightarrow> (stm4, unit) res" where
  "mark_public_items n X me [] s = Ret () s"
| "mark_public_items n X me (P # Ps) s =
     bind_res (mark_public_item n X me P s) (\<lambda>_ s. mark_public_items n X me Ps s)"

definition mark_public_to_young :: "nat \<Rightarrow> ext4 \<Rightarrow> nat \<Rightarrow> stm4 \<Rightarrow> (stm4, unit) res" where
  "mark_public_to_young n X me s =
     bind_res (mark_public_items n X me (public_with_young_copy (thr s me)) s) (\<lambda>_ s.
       Ret () (upd_thr me (\<lambda>d. d\<lparr>public_with_young_copy := []\<rparr>) s))"

section \<open>The collection\<close>

definition visit_outside_object :: "ext4 \<Rightarrow> nat \<Rightarrow> u64 \<Rightarrow> stm4 \<Rightarrow> stm4" where
  "visit_outside_object X me obj s =
     stmgc_trace X (visit_if_young X me) obj
       (if \<not> flag4 s obj GCFLAG4_PUBLIC then or_tid obj GCFLAG4_WRITE_BARRIER s else s)"

fun visit_all_outside_objects :: "nat \<Rightarrow> ext4 \<Rightarrow> nat \<Rightarrow> stm4 \<Rightarrow> (stm4, unit) res" where
  "visit_all_outside_objects n X me s =
     (if old_objects_to_trace (thr s me) = [] then Ret () s
      else case n of 0 \<Rightarrow> Hang s
       | Suc n \<Rightarrow>
          (let obj = last (old_objects_to_trace (thr s me));
               s = upd_thr me (\<lambda>d. d\<lparr>old_objects_to_trace := butlast (old_objects_to_trace d)\<rparr>) s
           in visit_all_outside_objects n X me (if obj = 0 then s else visit_outside_object X me obj s)))"

declare visit_all_outside_objects.simps [simp del]

text \<open>The list of read objects from its end down to \<open>limit\<close>; the last object takes a free place.\<close>

fun fix_reads :: "stm4 \<Rightarrow> nat \<Rightarrow> nat \<Rightarrow> nat \<Rightarrow> u64 list \<Rightarrow> u64 list" where
  "fix_reads s me limit 0 its = its"
| "fix_reads s me limit (Suc i) its =
     (if i < limit then its
      else let obj = its ! i
           in fix_reads s me limit i
                (if \<not> stmgc_is_in_nursery s me obj then its
                 else if flag4 s obj GCFLAG4_MOVED then its[i := rev_of s obj]
                 else butlast (its[i := last its])))"

definition fix_list_of_read_objects :: "nat \<Rightarrow> stm4 \<Rightarrow> stm4" where
  "fix_list_of_read_objects me s =
     (let d = thr s me;
          its = (if stm_active d = 2 then [] else list_of_read_objects d);
          its = fix_reads s me (num_read_objects_known_old d) (length its) its
      in upd_thr me (\<lambda>d. d\<lparr>list_of_read_objects := its, num_read_objects_known_old := length its,
           recent_reads_cache := fxcache_clear (recent_reads_cache d)\<rparr>) s)"

text \<open>\<open>stm_move_young_weakrefs4\<close> takes the weakrefs from the end of their list.\<close>

definition WEAKREF_PTR4 :: "obj4 \<Rightarrow> nat" where
  "WEAKREF_PTR4 x = length (fields4 x) - 1"

definition set_weakref :: "u64 \<Rightarrow> u64 \<Rightarrow> stm4 \<Rightarrow> stm4" where
  "set_weakref w v = upd_obj w (\<lambda>x. x\<lparr>fields4 := (fields4 x)[WEAKREF_PTR4 x := v]\<rparr>)"

definition move_young_weakref4 :: "nat \<Rightarrow> u64 \<Rightarrow> stm4 \<Rightarrow> stm4" where
  "move_young_weakref4 me weakref s =
     (if \<not> flag4 s weakref GCFLAG4_MOVED then s
      else let weakref = rev_of s weakref; x = obj_at s weakref; pointing_to = fields4 x ! WEAKREF_PTR4 x
           in if stmgc_is_in_nursery s me pointing_to \<and> \<not> flag4 s pointing_to GCFLAG4_MOVED
              then set_weakref weakref 0 s
              else upd_thr me (\<lambda>d. d\<lparr>old_weakrefs4 := old_weakrefs4 d @ [weakref]\<rparr>)
                     (if stmgc_is_in_nursery s me pointing_to then set_weakref weakref (rev_of s pointing_to) s else s))"

definition stm_move_young_weakrefs4 :: "nat \<Rightarrow> stm4 \<Rightarrow> stm4" where
  "stm_move_young_weakrefs4 me s =
     upd_thr me (\<lambda>d. d\<lparr>young_weakrefs4 := []\<rparr>) (foreach_f (rev (young_weakrefs4 (thr s me))) (move_young_weakref4 me) s)"

definition setup_minor_collect :: "nat \<Rightarrow> stm4 \<Rightarrow> (stm4, unit) res" where
  "setup_minor_collect me s = normalize_if_stolen me (spinlock_acquire4 me ''M'' s)"

definition teardown_minor_collect :: "nat \<Rightarrow> stm4 \<Rightarrow> stm4" where
  "teardown_minor_collect me = spinlock_release4 me"

definition reset_nursery4 :: "nat \<Rightarrow> stm4 \<Rightarrow> stm4" where
  "reset_nursery4 me s =
     (let d = thr s me; few = unat (nursery_nextlimit d - nursery_base d) < GC_NURSERY div 10
      in upd_thr me (\<lambda>d. d\<lparr>already_cleared4 := few, nursery_current4 := nursery_base d, nursery_nextlimit := nursery_base d\<rparr>)
           (if few then clear_memory4 (nursery_base d) GC_NURSERY s else s))"

definition minor_collect :: "nat \<Rightarrow> ext4 \<Rightarrow> nat \<Rightarrow> stm4 \<Rightarrow> (stm4, unit) res" where
  "minor_collect n X me s =
     bind_res (setup_minor_collect me s) (\<lambda>_ s.
     bind_res (mark_public_to_young n X me s) (\<lambda>_ s.
     bind_res (mark_young_roots X me s) (\<lambda>_ s.
     bind_res (mark_stolen_young_stubs n X me (mark_extra_stuff X me s)) (\<lambda>_ s.
     bind_res (visit_all_outside_objects n X me (mark_private_from_protected X me s)) (\<lambda>_ s.
     Ret () (reset_nursery4 me (teardown_minor_collect me
       (stm_move_young_weakrefs4 me (fix_list_of_read_objects me s)))))))))"

definition stmgc_minor_collect :: "nat \<Rightarrow> ext4 \<Rightarrow> nat \<Rightarrow> stm4 \<Rightarrow> (stm4, unit) res" where
  "stmgc_minor_collect n X me s = bind_res (minor_collect n X me s) (\<lambda>_ s. AbortNowIfDelayed me s)"

definition stmgc_minor_collect_no_abort :: "nat \<Rightarrow> ext4 \<Rightarrow> nat \<Rightarrow> stm4 \<Rightarrow> (stm4, unit) res" where
  "stmgc_minor_collect_no_abort n X me s = minor_collect n X me s"

end
