(* ===== verification/C4pages.thy ===== *)
theory C4pages
  imports C4nursery
begin

text \<open>
  The pages of old objects of the first design (\<open>c4/gcpage.c\<close>, \<open>c4/gcpage.h\<close>): small objects live
  in pages of one size class each, whose free places are in a chained list, and large objects are
  in a set. The chained lists are HOL lists. A place that is free has no object in the heap.
  \<open>mc\<close> is the C function \<open>malloc\<close>, with the result 0 when there is no memory.
\<close>

definition GC_SMALL_REQUESTS :: nat where "GC_SMALL_REQUESTS = 36"
definition GC_PAGE_SIZE :: nat where "GC_PAGE_SIZE = 1021 * 8"
definition GC_SMALL_REQUEST_THRESHOLD :: nat where "GC_SMALL_REQUEST_THRESHOLD = (36 - 1) * 8"
definition GC_MIN4 :: nat where "GC_MIN4 = 16 * 1024 * 1024"
definition GC_EXPAND :: nat where "GC_EXPAND = 7 * 1024 * 1024"

record gcp4 =
  pages_for_size :: "nat \<Rightarrow> u64 list"
  free_loc_for_size :: "nat \<Rightarrow> u64 list"
  count_pages :: nat
  nonsmall_objects :: g2l

definition nblocks_for_size :: "nat \<Rightarrow> nat" where
  "nblocks_for_size i = (GC_PAGE_SIZE - 8) div (8 * i)"

text \<open>The places of a page, behind its header.\<close>

definition page_slots :: "nat \<Rightarrow> u64 \<Rightarrow> u64 list" where
  "page_slots c page = map (\<lambda>j. page + 8 + of_nat (j * (c * 8))) [0..<nblocks_for_size c]"

definition size_class4 :: "nat \<Rightarrow> nat" where
  "size_class4 sz = (sz + 8 - 1) div 8"

section \<open>Allocation\<close>

definition stmgcpage_reduce_threshold :: "nat \<Rightarrow> nat \<Rightarrow> stm4 \<Rightarrow> stm4" where
  "stmgcpage_reduce_threshold me sz s =
     (let nxt = countdown_next_major_coll s
      in if nxt \<ge> sz then s\<lparr>countdown_next_major_coll := nxt - sz\<rparr>
         else (stmgc_minor_collect_soon me s)\<lparr>countdown_next_major_coll := 0\<rparr>)"

definition alloc_tracked_memory :: "(stm4 \<Rightarrow> gcp4 \<Rightarrow> nat \<Rightarrow> u64) \<Rightarrow> nat \<Rightarrow> nat \<Rightarrow> gcp4 \<Rightarrow> stm4 \<Rightarrow> (stm4, u64) res" where
  "alloc_tracked_memory mc me sz g s =
     (let s = stmgcpage_reduce_threshold me sz s; result = mc s g sz
      in if result = 0 then Fatal ''out of memory'' s else Ret result s)"

definition allocate_new_page :: "(stm4 \<Rightarrow> gcp4 \<Rightarrow> nat \<Rightarrow> u64) \<Rightarrow> nat \<Rightarrow> nat \<Rightarrow> gcp4 \<Rightarrow> stm4 \<Rightarrow> (stm4, gcp4) res" where
  "allocate_new_page mc me c g s =
     bind_res (alloc_tracked_memory mc me GC_PAGE_SIZE g s) (\<lambda>page s.
       Ret (g\<lparr>count_pages := count_pages g + 1,
              pages_for_size := (pages_for_size g)(c := page # pages_for_size g c),
              free_loc_for_size := (free_loc_for_size g)(c := page_slots c page @ free_loc_for_size g c)\<rparr>) s)"

definition stmgcpage_malloc :: "(stm4 \<Rightarrow> gcp4 \<Rightarrow> nat \<Rightarrow> u64) \<Rightarrow> nat \<Rightarrow> nat \<Rightarrow> gcp4 \<Rightarrow> stm4 \<Rightarrow> (stm4, u64 \<times> gcp4) res" where
  "stmgcpage_malloc mc me sz g s =
     (if sz \<le> GC_SMALL_REQUEST_THRESHOLD
      then let c = size_class4 sz
           in bind_res (if free_loc_for_size g c = [] then allocate_new_page mc me c g s else Ret g s) (\<lambda>g s.
                Ret (hd (free_loc_for_size g c),
                     g\<lparr>free_loc_for_size := (free_loc_for_size g)(c := tl (free_loc_for_size g c))\<rparr>) s)
      else bind_res (alloc_tracked_memory mc me sz g s) (\<lambda>result s.
             case g2l_insert insert_fuel (nonsmall_objects g) result result of
               Inl e \<Rightarrow> Fatal ''g2l_insert'' s
             | Inr t \<Rightarrow> Ret (result, g\<lparr>nonsmall_objects := t\<rparr>) s))"

definition stmgcpage_free :: "ext4 \<Rightarrow> u64 \<Rightarrow> gcp4 \<Rightarrow> stm4 \<Rightarrow> (stm4, gcp4) res" where
  "stmgcpage_free X obj g s =
     (let sz = size4 X (obj_at s obj); s = free_obj obj s
      in if sz \<le> GC_SMALL_REQUEST_THRESHOLD
         then let c = size_class4 sz
              in Ret (g\<lparr>free_loc_for_size := (free_loc_for_size g)(c := obj # free_loc_for_size g c)\<rparr>) s
         else let (deleted, t) = g2l_delete_item (nonsmall_objects g) obj
              in if deleted then Ret (g\<lparr>nonsmall_objects := t\<rparr>) s else Fatal ''assert'' s)"

section \<open>Sweeping\<close>

text \<open>One place: the object that stays alive loses its marks, any other place becomes free.\<close>

record sweep4 =
  sw_heap :: stm4
  sw_surviving :: "u64 list"
  sw_freelist :: "u64 list"
  sw_count_pages :: nat
  mc_total_in_use :: nat
  mc_total_reserved :: nat

definition unmark4 :: "u64 \<Rightarrow> stm4 \<Rightarrow> stm4" where
  "unmark4 p = andnot_tid p (GCFLAG4_VISITED OR GCFLAG4_MARKED)"

definition sweep_slot :: "nat \<Rightarrow> u64 \<Rightarrow> sweep4 \<Rightarrow> sweep4" where
  "sweep_slot obj_size p w =
     (if flag4 (sw_heap w) p GCFLAG4_MARKED
      then w\<lparr>sw_heap := unmark4 p (sw_heap w), mc_total_in_use := mc_total_in_use w + obj_size\<rparr>
      else w\<lparr>sw_heap := free_obj p (sw_heap w), sw_freelist := p # sw_freelist w\<rparr>)"

definition sweep_page :: "nat \<Rightarrow> u64 \<Rightarrow> sweep4 \<Rightarrow> sweep4" where
  "sweep_page c lpage w =
     (let slots = page_slots c lpage
      in if \<exists>p \<in> set slots. flag4 (sw_heap w) p GCFLAG4_MARKED
         then let w = foreach_f slots (sweep_slot (c * 8)) (w\<lparr>sw_surviving := lpage # sw_surviving w\<rparr>)
              in w\<lparr>mc_total_reserved := mc_total_reserved w + c * 8 * nblocks_for_size c\<rparr>
         else w\<lparr>sw_heap := foreach_f slots free_obj (sw_heap w), sw_count_pages := sw_count_pages w - 1\<rparr>)"

definition sweep_pages :: "nat \<Rightarrow> gcp4 \<times> stm4 \<times> nat \<times> nat \<Rightarrow> gcp4 \<times> stm4 \<times> nat \<times> nat" where
  "sweep_pages c = (\<lambda>(g, s, in_use, reserved).
     let w = foreach_f (pages_for_size g c) (sweep_page c)
               \<lparr>sw_heap = s, sw_surviving = [], sw_freelist = [], sw_count_pages = count_pages g,
                mc_total_in_use = in_use, mc_total_reserved = reserved\<rparr>
     in (g\<lparr>pages_for_size := (pages_for_size g)(c := sw_surviving w),
           free_loc_for_size := (free_loc_for_size g)(c := sw_freelist w), count_pages := sw_count_pages w\<rparr>,
         sw_heap w, mc_total_in_use w, mc_total_reserved w))"

text \<open>The large objects; the tree is compressed when many of its entries are deleted.\<close>

definition sweep_large4 :: "u64 \<Rightarrow> g2l \<times> stm4 \<times> int \<Rightarrow> g2l \<times> stm4 \<times> int" where
  "sweep_large4 p = (\<lambda>(t, s, deleted).
     if flag4 s p GCFLAG4_MARKED then (t, unmark4 p s, deleted)
     else (snd (g2l_delete_item t p), free_obj p s, deleted + 6))"

definition sweep_all_large4 :: "g2l \<times> stm4 \<Rightarrow> g2l \<times> stm4" where
  "sweep_all_large4 = (\<lambda>(t, s).
     let factor = (case g2l_loop (toplevel t) [] 0 of Some (_, d) \<Rightarrow> d | None \<Rightarrow> 0);
         (t, s, deleted) = foreach_f (map fst (g2l_items t)) sweep_large4 (t, s, factor)
     in (if deleted > 9 then case g2l_compress insert_fuel t of Inr t \<Rightarrow> t | Inl _ \<Rightarrow> t else t, s))"

definition free_unused_local_pages :: "gcp4 \<times> stm4 \<times> nat \<times> nat \<Rightarrow> gcp4 \<times> stm4 \<times> nat \<times> nat" where
  "free_unused_local_pages gs =
     (let (g, s, in_use, reserved) = foreach_f [1..<GC_SMALL_REQUESTS] sweep_pages gs;
          (t, s) = sweep_all_large4 (nonsmall_objects g, s)
      in (g\<lparr>nonsmall_objects := t\<rparr>, s, in_use, reserved))"

text \<open>The factor of \<open>GC_MAJOR_COLLECT\<close> minus one, a floating-point 0.82, is the parameter \<open>grow\<close>.\<close>

definition update_next_threshold :: "(nat \<Rightarrow> nat) \<Rightarrow> nat \<Rightarrow> nat \<Rightarrow> stm4 \<Rightarrow> stm4" where
  "update_next_threshold grow in_use reserved s =
     (let nxt = max (grow in_use) GC_MIN4;
          free_space_in_pages = reserved - in_use;
          nxt = (if nxt \<ge> free_space_in_pages then nxt - free_space_in_pages else 0)
      in s\<lparr>countdown_next_major_coll := max nxt GC_EXPAND\<rparr>)"

end
