(* ===== verification/C4major.thy ===== *)
theory C4major
  imports C4minor C4pages C4barrier
begin

text \<open>
  Major collections of the first design (\<open>c4/gcpage.c\<close>, \<open>c4/weakref.c\<close>, \<open>c4/stmsync.c\<close>): with
  all other threads stopped, the objects that can be reached are marked; the newest public version
  of an object is copied back over its original, so that old versions can be freed. \<open>gcp\<close> is
  the thread that a reference belongs to, where the code passes its public descriptor.
\<close>

section \<open>Marking\<close>

definition copy_over_original :: "u64 \<Rightarrow> u64 \<Rightarrow> stm4 \<Rightarrow> stm4" where
  "copy_over_original obj id_copy s =
     (let s = or_tid obj GCFLAG4_MOVED s; x = obj_at s obj;
          s = upd_obj id_copy (\<lambda>y. if flag4 s obj GCFLAG4_STUB then y\<lparr>stub_thread := stub_thread x\<rparr>
                                else y\<lparr>fields4 := fields4 x\<rparr>) s;
          s = set_rev id_copy (h_revision x) s
      in or_tid id_copy (h_tid x AND GCFLAG4_STUB) (andnot_tid id_copy GCFLAG4_STUB s))"

definition to_trace :: "u64 \<Rightarrow> nat option \<Rightarrow> stm4 \<Rightarrow> stm4" where
  "to_trace obj gcp s = s\<lparr>objects_to_trace := objects_to_trace s @ [(obj, gcp)]\<rparr>"

definition visit_nonpublic :: "u64 \<Rightarrow> nat option \<Rightarrow> stm4 \<Rightarrow> stm4" where
  "visit_nonpublic obj gcp s =
     (if flag4 s obj GCFLAG4_VISITED then s
      else let s = to_trace obj gcp (or_tid obj (GCFLAG4_VISITED OR GCFLAG4_MARKED) s); orig = h_original (obj_at s obj)
           in if orig \<noteq> 0 then or_tid orig GCFLAG4_MARKED s else s)"

text \<open>
  The walk to the head of the chain in \<open>visit_public\<close>. \<open>Inl\<close> is the early return of an object
  that belongs to the thread \<open>gcp\<close>.
\<close>

fun public_head :: "nat \<Rightarrow> u64 \<Rightarrow> nat option \<Rightarrow> stm4 \<Rightarrow> (stm4, u64 + u64) res" where
  "public_head 0 obj gcp s = Hang s"
| "public_head (Suc n) obj gcp s =
     (let v = rev_of s obj
      in if \<not> IS_POINTER v then Ret (Inr obj) s
         else if v AND 2 = 0 then public_head n v gcp s
         else let obj2 = v - 2; own = Some (stub_thread (obj_at s obj)) = gcp
              in if flag4 s obj2 GCFLAG4_PUBLIC then public_head n obj2 gcp s
                 else if flag4 s obj2 GCFLAG4_PRIVATE_FROM_PROTECTED
                 then let obj3 = rev_of s obj2
                      in if flag4 s obj3 GCFLAG4_PUBLIC then public_head n obj3 gcp s
                         else Ret (if own then Inl obj2 else Inr obj) s
                 else Ret (if own then Inl obj2 else Inr obj)
                        (visit_nonpublic obj2 (Some (stub_thread (obj_at s obj))) s))"

definition mark_original :: "u64 \<Rightarrow> stm4 \<Rightarrow> (stm4, u64) res" where
  "mark_original original s =
     (let s = or_tid original (GCFLAG4_VISITED OR GCFLAG4_MARKED) s
      in Ret original (if \<not> flag4 s original GCFLAG4_STUB then to_trace original None s else s))"

definition visit_public :: "nat \<Rightarrow> u64 \<Rightarrow> nat option \<Rightarrow> stm4 \<Rightarrow> (stm4, u64) res" where
  "visit_public n obj gcp s =
     (let orig = h_original (obj_at s obj);
          (original, s) =
            (if orig \<noteq> 0 \<and> \<not> flag4 s obj GCFLAG4_PREBUILT_ORIGINAL
             then if \<not> flag4 s orig GCFLAG4_PUBLIC then (None, or_tid orig GCFLAG4_MARKED s) else (Some orig, s)
             else (Some obj, s))
      in case original of
           Some first \<Rightarrow> if flag4 s first GCFLAG4_VISITED then Ret first s
             else bind_res (public_head n obj gcp s) (\<lambda>r s.
               case r of Inl obj2 \<Rightarrow> Ret obj2 s
               | Inr head \<Rightarrow> mark_original first (if head \<noteq> first then copy_over_original head first s else s))
         | None \<Rightarrow> bind_res (public_head n obj gcp s) (\<lambda>r s.
               case r of Inl obj2 \<Rightarrow> Ret obj2 s
               | Inr head \<Rightarrow> if flag4 s head GCFLAG4_VISITED then Ret head s else mark_original head s))"

definition visit_take_protected :: "nat \<Rightarrow> nat option \<Rightarrow> u64 \<Rightarrow> stm4 \<Rightarrow> (stm4, u64) res" where
  "visit_take_protected n gcp obj s =
     (if obj = 0 then Ret obj s
      else if \<not> flag4 s obj GCFLAG4_PUBLIC then Ret obj (visit_nonpublic obj gcp s)
      else visit_public n obj gcp s)"

definition stmgcpage_visit :: "nat \<Rightarrow> u64 \<Rightarrow> stm4 \<Rightarrow> (stm4, u64) res" where
  "stmgcpage_visit n obj s =
     (if \<not> flag4 s obj GCFLAG4_PUBLIC then Ret obj (visit_nonpublic obj None s) else visit_public n obj None s)"

fun trace_fields_major :: "nat \<Rightarrow> nat option \<Rightarrow> u64 \<Rightarrow> nat list \<Rightarrow> stm4 \<Rightarrow> (stm4, unit) res" where
  "trace_fields_major n gcp obj [] s = Ret () s"
| "trace_fields_major n gcp obj (i # is) s =
     bind_res (visit_take_protected n gcp (fields4 (obj_at s obj) ! i) s) (\<lambda>v s.
       trace_fields_major n gcp obj is (upd_obj obj (\<lambda>x. x\<lparr>fields4 := (fields4 x)[i := v]\<rparr>) s))"

fun visit_all_objects :: "nat \<Rightarrow> ext4 \<Rightarrow> stm4 \<Rightarrow> (stm4, unit) res" where
  "visit_all_objects 0 X s = (if objects_to_trace s = [] then Ret () s else Hang s)"
| "visit_all_objects (Suc n) X s =
     (if objects_to_trace s = [] then Ret () s
      else let (obj, gcp) = last (objects_to_trace s); s = s\<lparr>objects_to_trace := butlast (objects_to_trace s)\<rparr>
           in bind_res (trace_fields_major (Suc n) gcp obj (refs4 X (obj_at s obj)) s) (\<lambda>_ s. visit_all_objects n X s))"

section \<open>Roots\<close>

fun mark_prebuilt_items :: "nat \<Rightarrow> u64 list \<Rightarrow> stm4 \<Rightarrow> (stm4, unit) res" where
  "mark_prebuilt_items n [] s = Ret () s"
| "mark_prebuilt_items n (obj # objs) s =
     bind_res (visit_public n obj None (unmark4 obj s)) (\<lambda>_ s. mark_prebuilt_items n objs s)"

definition mark_prebuilt_roots :: "nat \<Rightarrow> stm4 \<Rightarrow> (stm4, unit) res" where
  "mark_prebuilt_roots n s = mark_prebuilt_items n (stm_prebuilt_gcroots s) s"

fun mark_registered :: "nat \<Rightarrow> u64 list \<Rightarrow> stm4 \<Rightarrow> (stm4, unit) res" where
  "mark_registered n [] s = Ret () s"
| "mark_registered n (R # Rs) s =
     (if flag4 s R GCFLAG4_PREBUILT_ORIGINAL then mark_registered n Rs s
      else let s = or_tid R (GCFLAG4_MARKED OR GCFLAG4_VISITED) s; v = rev_of s R
           in if v AND 2 \<noteq> 0
              then bind_res (stmgcpage_visit n (v - 2) s) (\<lambda>L s. mark_registered n Rs (set_rev R (L OR 2) s))
              else bind_res (stmgcpage_visit n v s) (\<lambda>L s. mark_registered n Rs (set_rev R L s)))"

definition mark_registered_objs :: "nat \<Rightarrow> stm4 \<Rightarrow> (stm4, unit) res" where
  "mark_registered_objs n s = mark_registered n (map fst (g2l_items (registered_objs s))) s"

fun mark_roots4 :: "nat \<Rightarrow> nat option \<Rightarrow> u64 list \<Rightarrow> stm4 \<Rightarrow> (stm4, u64 list) res" where
  "mark_roots4 n gcp [] s = Ret [] s"
| "mark_roots4 n gcp (item # xs) s =
     bind_res (if item AND NOT (END_MARKER_OFF OR END_MARKER_ON) \<noteq> 0 then visit_take_protected n gcp item s
               else Ret (if item = END_MARKER_OFF then END_MARKER_ON else item) s) (\<lambda>v s.
     bind_res (mark_roots4 n gcp xs s) (\<lambda>vs s. Ret (v # vs) s))"

fun mark_abort_items :: "nat \<Rightarrow> nat option \<Rightarrow> (u64 \<times> int list) list \<Rightarrow> stm4 \<Rightarrow> (stm4, (u64 \<times> int list) list) res" where
  "mark_abort_items n gcp [] s = Ret [] s"
| "mark_abort_items n gcp ((obj, fieldoffsets) # xs) s =
     bind_res (visit_take_protected n gcp obj s) (\<lambda>v s.
     bind_res (mark_abort_items n gcp xs s) (\<lambda>ys s. Ret ((v, fieldoffsets) # ys) s))"

text \<open>
  The private copies of public objects. The items whose public object got another place are
  collected, deleted, and inserted again after the loop.
\<close>

fun mark_private_copies :: "nat \<Rightarrow> nat \<Rightarrow> (u64 \<times> u64) list \<Rightarrow> stm4 \<Rightarrow> (stm4, (u64 \<times> u64) list) res" where
  "mark_private_copies n me [] s = Ret [] s"
| "mark_private_copies n me ((R, L) # xs) s =
     bind_res (visit_public n R None s) (\<lambda>new_R s.
       let s = (if new_R \<noteq> R
                then upd_thr me (\<lambda>d. d\<lparr>public_to_private := snd (g2l_delete_item (public_to_private d) R)\<rparr>) s else s);
           s = (if L \<noteq> 0 then visit_nonpublic L (Some me) s else s)
       in bind_res (mark_private_copies n me xs s) (\<lambda>new s.
            Ret (if new_R \<noteq> R then (new_R, L) # new else new) s))"

fun reinsert_copies :: "nat \<Rightarrow> (u64 \<times> u64) list \<Rightarrow> stm4 \<Rightarrow> (stm4, unit) res" where
  "reinsert_copies me [] s = Ret () s"
| "reinsert_copies me ((R, L) # xs) s =
     (case g2l_insert insert_fuel (public_to_private (thr s me)) R L of
        Inl e \<Rightarrow> Fatal ''g2l_insert'' s
      | Inr t \<Rightarrow> reinsert_copies me xs (upd_thr me (\<lambda>d. d\<lparr>public_to_private := t\<rparr>) s))"

fun mark_protected_copies :: "nat \<Rightarrow> nat \<Rightarrow> u64 list \<Rightarrow> stm4 \<Rightarrow> (stm4, unit) res" where
  "mark_protected_copies n me [] s = Ret () s"
| "mark_protected_copies n me (obj # objs) s =
     (let s = visit_nonpublic obj (Some me) s; B = rev_of s obj
      in if \<not> flag4 s B GCFLAG4_PUBLIC then mark_protected_copies n me objs (visit_nonpublic B (Some me) s)
         else bind_res (visit_public n B None s) (\<lambda>B' s. mark_protected_copies n me objs (set_rev obj B' s)))"

definition mark_thread_roots :: "nat \<Rightarrow> nat \<Rightarrow> stm4 \<Rightarrow> (stm4, unit) res" where
  "mark_thread_roots n me s =
     (case shadowstack4 (thr s me) of [] \<Rightarrow> Fatal ''assert'' s
      | mk # roots \<Rightarrow>
        bind_res (mark_roots4 n (Some me) roots s) (\<lambda>vs s.
        bind_res (visit_take_protected n (Some me) (stm_thread_local_obj (thr s me))
                    (upd_thr me (\<lambda>d. d\<lparr>shadowstack4 := mk # vs\<rparr>) s)) (\<lambda>v s.
        bind_res (visit_take_protected n (Some me) (old_thread_local_obj (thr s me))
                    (upd_thr me (\<lambda>d. d\<lparr>stm_thread_local_obj := v\<rparr>) s)) (\<lambda>w s.
        bind_res (mark_abort_items n (Some me) (abortinfo (thr s me))
                    (upd_thr me (\<lambda>d. d\<lparr>old_thread_local_obj := w\<rparr>) s)) (\<lambda>ys s.
        bind_res (mark_private_copies n me (g2l_items (public_to_private (thr s me)))
                    (upd_thr me (\<lambda>d. d\<lparr>abortinfo := ys\<rparr>) s)) (\<lambda>new s.
        bind_res (reinsert_copies me new s) (\<lambda>_ s.
          mark_protected_copies n me (rev (private_from_protected (thr s me))) s)))))))"

fun mark_threads :: "nat \<Rightarrow> nat list \<Rightarrow> stm4 \<Rightarrow> (stm4, unit) res" where
  "mark_threads n [] s = Ret () s"
| "mark_threads n (t # ts) s = bind_res (mark_thread_roots n t s) (\<lambda>_ s. mark_threads n ts s)"

definition mark_all_stack_roots :: "nat \<Rightarrow> stm4 \<Rightarrow> (stm4, unit) res" where
  "mark_all_stack_roots n s = mark_threads n (stm_tx_list s) s"

section \<open>Weak references\<close>

definition is_partially_visited :: "stm4 \<Rightarrow> u64 \<Rightarrow> bool" where
  "is_partially_visited s obj \<longleftrightarrow> flag4 s obj GCFLAG4_MARKED \<or>
     (h_original (obj_at s obj) \<noteq> 0 \<and> flag4 s (h_original (obj_at s obj)) GCFLAG4_MARKED)"

definition all_descriptors :: "stm4 \<Rightarrow> nat list" where
  "all_descriptors s = stm_tx_list s @ free_descriptors s"

definition update_old_weakrefs_list :: "nat \<Rightarrow> stm4 \<Rightarrow> stm4" where
  "update_old_weakrefs_list t s = upd_thr t (\<lambda>d. d\<lparr>old_weakrefs4 :=
     map (\<lambda>w. if flag4 s w GCFLAG4_MOVED then h_original (obj_at s w) else w) (old_weakrefs4 d)\<rparr>) s"

fun visit_weakrefs :: "nat \<Rightarrow> u64 list \<Rightarrow> stm4 \<Rightarrow> (stm4, unit) res" where
  "visit_weakrefs n [] s = Ret () s"
| "visit_weakrefs n (w # ws) s =
     (let x = obj_at s w; pointing_to = fields4 x ! WEAKREF_PTR4 x
      in if flag4 s w GCFLAG4_VISITED \<and> is_partially_visited s pointing_to
         then bind_res (stmgcpage_visit n pointing_to s) (\<lambda>v s. visit_weakrefs n ws (set_weakref w v s))
         else visit_weakrefs n ws s)"

fun visit_all_weakrefs :: "nat \<Rightarrow> nat list \<Rightarrow> stm4 \<Rightarrow> (stm4, unit) res" where
  "visit_all_weakrefs n [] s = Ret () s"
| "visit_all_weakrefs n (t # ts) s =
     bind_res (visit_weakrefs n (old_weakrefs4 (thr s t)) s) (\<lambda>_ s. visit_all_weakrefs n ts s)"

text \<open>From the end of the list; the last weakref takes the place of one that is removed.\<close>

fun clean_weakrefs :: "nat \<Rightarrow> u64 list \<times> stm4 \<Rightarrow> u64 list \<times> stm4" where
  "clean_weakrefs 0 (ws, s) = (ws, s)"
| "clean_weakrefs (Suc i) (ws, s) =
     (let w = ws ! i; x = obj_at s w; removed = butlast (ws[i := last ws])
      in if flag4 s w GCFLAG4_VISITED
         then if flag4 s (fields4 x ! WEAKREF_PTR4 x) GCFLAG4_VISITED then clean_weakrefs i (ws, s)
              else clean_weakrefs i (removed, set_weakref w 0 s)
         else clean_weakrefs i (removed, s))"

definition clean_old_weakrefs :: "nat \<Rightarrow> stm4 \<Rightarrow> stm4" where
  "clean_old_weakrefs t s =
     (let ws = old_weakrefs4 (thr s t); (ws, s) = clean_weakrefs (length ws) (ws, s)
      in upd_thr t (\<lambda>d. d\<lparr>old_weakrefs4 := ws\<rparr>) s)"

text \<open>The loop of \<open>major_collect\<close> until nothing is left to trace.\<close>

fun mark_with_weakrefs :: "nat \<Rightarrow> ext4 \<Rightarrow> stm4 \<Rightarrow> (stm4, unit) res" where
  "mark_with_weakrefs 0 X s = Hang s"
| "mark_with_weakrefs (Suc n) X s =
     bind_res (visit_all_objects (Suc n) X s) (\<lambda>_ s.
       let s = foreach_f (all_descriptors s) update_old_weakrefs_list s
       in bind_res (visit_all_weakrefs (Suc n) (all_descriptors s) s) (\<lambda>_ s.
            if objects_to_trace s \<noteq> [] then mark_with_weakrefs n X s else Ret () s))"

section \<open>The lists of read objects\<close>

definition ABRT_COLLECT_MAJOR :: nat where "ABRT_COLLECT_MAJOR = 7"
definition ABRT_OTHER_THREADS :: nat where "ABRT_OTHER_THREADS = 8"

text \<open>\<open>None\<close> says that an object was outdated, so that the transaction has to abort.\<close>

fun clean_reads :: "stm4 \<Rightarrow> nat \<Rightarrow> u64 list \<Rightarrow> u64 list option" where
  "clean_reads s 0 xs = Some xs"
| "clean_reads s (Suc i) xs =
     (let obj = xs ! i; moved = flag4 s obj GCFLAG4_MOVED;
          xs = (if moved then xs[i := h_original (obj_at s obj)] else xs);
          obj = (if moved then h_original (obj_at s obj)
                 else if flag4 s obj GCFLAG4_PRIVATE_FROM_PROTECTED then rev_of s obj else obj)
      in if flag4 s obj GCFLAG4_STUB \<or> IS_POINTER (rev_of s obj) then None
         else clean_reads s i (if \<not> flag4 s obj GCFLAG4_VISITED then butlast (xs[i := last xs]) else xs))"

definition clear_reads :: "nat \<Rightarrow> stm4 \<Rightarrow> stm4" where
  "clear_reads t = upd_thr t (\<lambda>d. d\<lparr>list_of_read_objects := [], num_read_objects_known_old := 0\<rparr>)"

definition cleanup_for_thread :: "nat \<Rightarrow> stm4 \<Rightarrow> stm4" where
  "cleanup_for_thread t s =
     (if stm_active (thr s t) < 0 then clear_reads t s
      else let xs = (if stm_active (thr s t) = 2 then [] else list_of_read_objects (thr s t))
           in case clean_reads s (length xs) xs of
                None \<Rightarrow> clear_reads t (AbortTransactionAfterCollect ABRT_COLLECT_MAJOR t s)
              | Some xs \<Rightarrow>
                  let s = upd_thr t (\<lambda>d. d\<lparr>list_of_read_objects := xs, num_read_objects_known_old := length xs\<rparr>) s
                  in foreach_f (map fst (g2l_items (public_to_private (thr s t))))
                       (\<lambda>R. or_tid R GCFLAG4_PUBLIC_TO_PRIVATE) s)"

section \<open>The collection\<close>

fun free_local_pages :: "nat list \<Rightarrow> (nat \<Rightarrow> gcp4) \<times> stm4 \<times> nat \<times> nat \<Rightarrow> (nat \<Rightarrow> gcp4) \<times> stm4 \<times> nat \<times> nat" where
  "free_local_pages [] w = w"
| "free_local_pages (t # ts) (gs, s, in_use, reserved) =
     (let (g, s, in_use, reserved) = free_unused_local_pages (gs t, s, in_use, reserved)
      in free_local_pages ts (gs(t := g), s, in_use, reserved))"

definition free_closed_descriptor :: "nat \<Rightarrow> stm4 \<Rightarrow> stm4" where
  "free_closed_descriptor t = upd_thr t (\<lambda>d. d\<lparr>stolen_objects := [], stolen_young_stubs := []\<rparr>)"

fun minor_collections :: "nat \<Rightarrow> ext4 \<Rightarrow> nat list \<Rightarrow> stm4 \<Rightarrow> (stm4, unit) res" where
  "minor_collections n X [] s = Ret () s"
| "minor_collections n X (t # ts) s =
     bind_res (stmgc_minor_collect_no_abort n X t s) (\<lambda>_ s. minor_collections n X ts s)"

definition force_minor_collections :: "nat \<Rightarrow> ext4 \<Rightarrow> nat \<Rightarrow> stm4 \<Rightarrow> (stm4, unit) res" where
  "force_minor_collections n X me s = minor_collections n X (filter (\<lambda>t. t \<noteq> me) (stm_tx_list s) @ [me]) s"

text \<open>The allocators of the threads are \<open>gs\<close>; the result has what the sweep leaves of them.\<close>

definition major_collect :: "nat \<Rightarrow> ext4 \<Rightarrow> (nat \<Rightarrow> nat) \<Rightarrow> nat \<Rightarrow> (nat \<Rightarrow> gcp4) \<Rightarrow> stm4 \<Rightarrow> (stm4, nat \<Rightarrow> gcp4) res" where
  "major_collect n X grow me gs s =
     bind_res (force_minor_collections n X me s) (\<lambda>_ s.
     bind_res (mark_prebuilt_roots n s) (\<lambda>_ s.
     bind_res (mark_registered_objs n s) (\<lambda>_ s.
     bind_res (mark_all_stack_roots n s) (\<lambda>_ s.
     bind_res (mark_with_weakrefs n X s) (\<lambda>_ s.
       let s = foreach_f (stm_tx_list s) cleanup_for_thread s;
           s = foreach_f (all_descriptors s) clean_old_weakrefs s;
           (gs, s, in_use, reserved) = free_local_pages (all_descriptors s) (gs, s, 0, 0);
           s = foreach_f (free_descriptors s) free_closed_descriptor s
       in Ret gs (update_next_threshold grow in_use reserved s))))))"

section \<open>Stopping the other threads\<close>

text \<open>Waiting for the read-write lock of the transactions lets the other threads run.\<close>

definition stm_start_single_thread :: "ext4 \<Rightarrow> nat \<Rightarrow> stm4 \<Rightarrow> (stm4, unit) res" where
  "stm_start_single_thread X me s =
     (let s = others4 X me (s\<lparr>sync_required := True\<rparr>)
      in bind_res (AbortNowIfDelayed me s) (\<lambda>_ s.
           Ret () (s\<lparr>sync_required := False, in_single_thread := Some me\<rparr>)))"

definition stm_stop_single_thread :: "ext4 \<Rightarrow> nat \<Rightarrow> stm4 \<Rightarrow> (stm4, unit) res" where
  "stm_stop_single_thread X me s = AbortNowIfDelayed me (others4 X me (s\<lparr>in_single_thread := None\<rparr>))"

definition stm_possible_safe_point :: "ext4 \<Rightarrow> nat \<Rightarrow> stm4 \<Rightarrow> (stm4, unit) res" where
  "stm_possible_safe_point X me s =
     (if \<not> sync_required s then Ret () s else AbortNowIfDelayed me (others4 X me s))"

definition stmgcpage_possibly_major_collect :: "nat \<Rightarrow> ext4 \<Rightarrow> (nat \<Rightarrow> nat) \<Rightarrow> bool \<Rightarrow> nat \<Rightarrow> (nat \<Rightarrow> gcp4) \<Rightarrow> stm4 \<Rightarrow>
    (stm4, nat \<Rightarrow> gcp4) res" where
  "stmgcpage_possibly_major_collect n X grow force me gs s =
     (let s = (if force then stmgcpage_reduce_threshold me ULONG_MAX s else s)
      in if countdown_next_major_coll s > 0 then Ret gs s
         else let single_threaded = (in_single_thread s = Some me)
              in bind_res (if \<not> single_threaded then stm_start_single_thread X me s else Ret () s) (\<lambda>_ s.
                 bind_res (if countdown_next_major_coll s = 0 then major_collect n X grow me gs s else Ret gs s) (\<lambda>gs s.
                 bind_res (if \<not> single_threaded then stm_stop_single_thread X me s else Ret () s) (\<lambda>_ s.
                 bind_res (AbortNowIfDelayed me s) (\<lambda>_ s. Ret gs s)))))"

definition stm_minor_collect :: "nat \<Rightarrow> ext4 \<Rightarrow> (nat \<Rightarrow> nat) \<Rightarrow> nat \<Rightarrow> (nat \<Rightarrow> gcp4) \<Rightarrow> stm4 \<Rightarrow> (stm4, nat \<Rightarrow> gcp4) res" where
  "stm_minor_collect n X grow me gs s =
     bind_res (stmgc_minor_collect n X me s) (\<lambda>_ s. stmgcpage_possibly_major_collect n X grow False me gs s)"

definition stm_major_collect :: "nat \<Rightarrow> ext4 \<Rightarrow> (nat \<Rightarrow> nat) \<Rightarrow> nat \<Rightarrow> (nat \<Rightarrow> gcp4) \<Rightarrow> stm4 \<Rightarrow> (stm4, nat \<Rightarrow> gcp4) res" where
  "stm_major_collect n X grow me gs s =
     bind_res (stmgc_minor_collect n X me s) (\<lambda>_ s. stmgcpage_possibly_major_collect n X grow True me gs s)"

section \<open>Allocation in the nursery\<close>

definition allocate_next_section :: "nat \<Rightarrow> ext4 \<Rightarrow> (nat \<Rightarrow> nat) \<Rightarrow> nat \<Rightarrow> (nat \<Rightarrow> gcp4) \<Rightarrow> nat \<Rightarrow> u64 \<Rightarrow> stm4 \<Rightarrow>
    (stm4, u64 \<times> (nat \<Rightarrow> gcp4)) res" where
  "allocate_next_section n X grow me gs sz tid s =
     (let s = upd_thr me (\<lambda>d. d\<lparr>nursery_current4 := nursery_current4 d - of_nat sz\<rparr>) s; d = thr s me
      in if sz > GC_NURSERY_SECTION
         then let P = old_alloc X s; s = set_obj P (cleared_obj sz (tid OR GCFLAG4_OLD)) s
              in Ret (P, gs) (upd_thr me (\<lambda>d. d\<lparr>old_objects_to_trace := old_objects_to_trace d @ [P]\<rparr>) s)
         else bind_res (if nursery_nextlimit d = nursery_end4 d \<or> nursery_current4 d = nursery_end4 d
                        then stm_minor_collect n X grow me gs s else Ret gs s) (\<lambda>gs s.
                let (P, s) = take_section me sz tid s in Ret (P, gs) s))"

definition allocate_nursery :: "nat \<Rightarrow> ext4 \<Rightarrow> (nat \<Rightarrow> nat) \<Rightarrow> nat \<Rightarrow> (nat \<Rightarrow> gcp4) \<Rightarrow> nat \<Rightarrow> u64 \<Rightarrow> stm4 \<Rightarrow>
    (stm4, u64 \<times> (nat \<Rightarrow> gcp4)) res" where
  "allocate_nursery n X grow me gs sz tid s =
     (let cur = nursery_current4 (thr s me); end = cur + of_nat sz;
          s = upd_thr me (\<lambda>d. d\<lparr>nursery_current4 := end\<rparr>) s
      in if end > nursery_nextlimit (thr s me) then allocate_next_section n X grow me gs sz tid s
         else Ret (cur, gs) (set_obj cur (cleared_obj sz tid) s))"

definition stm_allocate4 :: "nat \<Rightarrow> ext4 \<Rightarrow> (nat \<Rightarrow> nat) \<Rightarrow> nat \<Rightarrow> (nat \<Rightarrow> gcp4) \<Rightarrow> nat \<Rightarrow> u64 \<Rightarrow> stm4 \<Rightarrow>
    (stm4, u64 \<times> (nat \<Rightarrow> gcp4)) res" where
  "stm_allocate4 n X grow me gs sz tid s =
     bind_res (allocate_nursery n X grow me gs sz tid s) (\<lambda>(P, gs) s.
       Ret (P, gs) (set_rev P (stm_private_rev_num (thr s me)) s))"

definition GCFLAG4_IMMUTABLE :: u64 where "GCFLAG4_IMMUTABLE = gcflag4 11"

definition stm_allocate_immutable :: "nat \<Rightarrow> ext4 \<Rightarrow> (nat \<Rightarrow> nat) \<Rightarrow> nat \<Rightarrow> (nat \<Rightarrow> gcp4) \<Rightarrow> nat \<Rightarrow> u64 \<Rightarrow> stm4 \<Rightarrow>
    (stm4, u64 \<times> (nat \<Rightarrow> gcp4)) res" where
  "stm_allocate_immutable n X grow me gs sz tid s =
     bind_res (stm_allocate4 n X grow me gs sz tid s) (\<lambda>(P, gs) s. Ret (P, gs) (or_tid P GCFLAG4_IMMUTABLE s))"

definition stm_push_root4 :: "nat \<Rightarrow> u64 \<Rightarrow> stm4 \<Rightarrow> stm4" where
  "stm_push_root4 me obj = upd_thr me (\<lambda>d. d\<lparr>shadowstack4 := shadowstack4 d @ [obj]\<rparr>)"

definition stm_pop_root4 :: "nat \<Rightarrow> stm4 \<Rightarrow> u64 \<times> stm4" where
  "stm_pop_root4 me s = (last (shadowstack4 (thr s me)), upd_thr me (\<lambda>d. d\<lparr>shadowstack4 := butlast (shadowstack4 d)\<rparr>) s)"

definition stm_weakref_allocate :: "nat \<Rightarrow> ext4 \<Rightarrow> (nat \<Rightarrow> nat) \<Rightarrow> nat \<Rightarrow> (nat \<Rightarrow> gcp4) \<Rightarrow> nat \<Rightarrow> u64 \<Rightarrow> u64 \<Rightarrow> stm4 \<Rightarrow>
    (stm4, u64 \<times> (nat \<Rightarrow> gcp4)) res" where
  "stm_weakref_allocate n X grow me gs sz tid obj s =
     bind_res (stm_allocate_immutable n X grow me gs sz tid (stm_push_root4 me obj s)) (\<lambda>(weakref, gs) s.
       let (obj, s) = stm_pop_root4 me s; s = or_tid weakref GCFLAG4_WEAKREF s; s = set_weakref weakref obj s
       in Ret (weakref, gs) (upd_thr me (\<lambda>d. d\<lparr>young_weakrefs4 := young_weakrefs4 d @ [weakref]\<rparr>) s))"

end
