(* ===== verification/C4extra.thy ===== *)
theory C4extra
  imports C4major
begin

text \<open>
  Identities and hashes, callbacks on abort, and integer addresses of the first design
  (\<open>c4/extra.c\<close>, \<open>c4/gcpage.c\<close>), the transactions seen by the program and the threads
  (\<open>c4/stmsync.c\<close>, \<open>c4/et.c\<close>). The original of an object is its first old copy; its address is
  the identity of the object, and never changes. An object that has to know its identity while
  it is young gets a place for its old copy at once.
\<close>

section \<open>Callbacks\<close>

definition stm_clear_on_abort :: "nat \<Rightarrow> u64 \<Rightarrow> nat \<Rightarrow> stm4 \<Rightarrow> stm4" where
  "stm_clear_on_abort me start bytes =
     upd_thr me (\<lambda>d. d\<lparr>mem_clear_on_abort4 := if start = 0 then None else Some (start, bytes)\<rparr>)"

definition stm_call_on_abort4 :: "nat \<Rightarrow> u64 \<Rightarrow> u64 \<Rightarrow> stm4 \<Rightarrow> (stm4, unit) res" where
  "stm_call_on_abort4 me key callback s =
     (if stm_active (thr s me) \<noteq> 1 then Ret () s
      else if callback = 0
      then Ret () (upd_thr me (\<lambda>d. d\<lparr>callbacks_on_abort := snd (g2l_delete_item (callbacks_on_abort d) key)\<rparr>) s)
      else case g2l_insert insert_fuel (callbacks_on_abort (thr s me)) key callback of
             Inl e \<Rightarrow> Fatal ''g2l_insert'' s
           | Inr t \<Rightarrow> Ret () (upd_thr me (\<lambda>d. d\<lparr>callbacks_on_abort := t\<rparr>) s))"

definition stm_clear_callbacks_on_abort :: "nat \<Rightarrow> stm4 \<Rightarrow> stm4" where
  "stm_clear_callbacks_on_abort me = upd_thr me (\<lambda>d. if g2l_any_entry (callbacks_on_abort d)
     then d\<lparr>callbacks_on_abort := g2l_clear (callbacks_on_abort d)\<rparr> else d)"

section \<open>Identities\<close>

definition mangle_hash4 :: "u64 \<Rightarrow> u64" where
  "mangle_hash4 n = n XOR drop_bit 4 n"

text \<open>
  The shadow of a young object has its header; the rest of it is undefined until the
  object is copied there, and is 0 here.
\<close>

definition stm_id4 :: "ext4 \<Rightarrow> u64 \<Rightarrow> stm4 \<Rightarrow> u64 \<times> stm4" where
  "stm_id4 X p s =
     (let x = obj_at s p
      in if h_original x \<noteq> 0 then (if flag4 s p GCFLAG4_PREBUILT_ORIGINAL then p else h_original x, s)
         else if flag4 s p GCFLAG4_OLD then (p, s)
         else let shadow = old_alloc X s;
                  s = set_obj shadow (x\<lparr>h_tid := h_tid x OR GCFLAG4_OLD, fields4 := map (\<lambda>_. 0) (fields4 x)\<rparr>) s;
                  s = upd_obj p (\<lambda>x. x\<lparr>h_original := shadow, h_tid := h_tid x OR GCFLAG4_HAS_ID\<rparr>) s;
                  s = (if flag4 s p GCFLAG4_PRIVATE_FROM_PROTECTED
                       then upd_obj (rev_of s p) (\<lambda>x. x\<lparr>h_original := shadow\<rparr>) s else s)
              in (shadow, s))"

definition stm_hash :: "ext4 \<Rightarrow> u64 \<Rightarrow> stm4 \<Rightarrow> u64 \<times> stm4" where
  "stm_hash X p s =
     (let h = h_original (obj_at s p)
      in if h \<noteq> 0 \<and> flag4 s p GCFLAG4_PREBUILT_ORIGINAL then (h, s)
         else if h \<noteq> 0 \<and> flag4 s h GCFLAG4_PREBUILT_ORIGINAL \<and> h_original (obj_at s h) \<noteq> 0 then (h_original (obj_at s h), s)
         else let (i, s) = stm_id4 X p s in (mangle_hash4 i, s))"

definition resolve_original :: "stm4 \<Rightarrow> u64 \<Rightarrow> u64" where
  "resolve_original s p =
     (if h_original (obj_at s p) \<noteq> 0 \<and> \<not> flag4 s p GCFLAG4_PREBUILT_ORIGINAL then h_original (obj_at s p) else p)"

definition stm_direct_pointer_equal :: "stm4 \<Rightarrow> u64 \<Rightarrow> u64 \<Rightarrow> bool" where
  "stm_direct_pointer_equal s p1 p2 \<longleftrightarrow> resolve_original s p1 = resolve_original s p2"

definition stm_pointer_equal :: "stm4 \<Rightarrow> u64 \<Rightarrow> u64 \<Rightarrow> bool" where
  "stm_pointer_equal s p1 p2 \<longleftrightarrow> p1 = p2 \<or> p1 \<noteq> 0 \<and> p2 \<noteq> 0 \<and> stm_direct_pointer_equal s p1 p2"

definition stm_pointer_equal_prebuilt :: "stm4 \<Rightarrow> u64 \<Rightarrow> u64 \<Rightarrow> bool" where
  "stm_pointer_equal_prebuilt s p1 p2 \<longleftrightarrow> p1 = p2 \<or>
     p1 \<noteq> 0 \<and> h_original (obj_at s p1) = p2 \<and> \<not> flag4 s p1 GCFLAG4_PREBUILT_ORIGINAL"

section \<open>Information about aborts\<close>

definition stm_abort_info_push :: "nat \<Rightarrow> ext4 \<Rightarrow> nat \<Rightarrow> u64 \<Rightarrow> int list \<Rightarrow> stm4 \<Rightarrow> (stm4, unit) res" where
  "stm_abort_info_push n X me obj fieldoffsets s =
     bind_res (stm_read_barrier n X me obj s) (\<lambda>obj s.
       Ret () (upd_thr me (\<lambda>d. d\<lparr>abortinfo := abortinfo d @ [(obj, fieldoffsets)]\<rparr>) s))"

definition stm_abort_info_pop :: "nat \<Rightarrow> nat \<Rightarrow> stm4 \<Rightarrow> stm4" where
  "stm_abort_info_pop me count = upd_thr me (\<lambda>d. d\<lparr>abortinfo := take (length (abortinfo d) - count) (abortinfo d)\<rparr>)"

section \<open>Integer addresses\<close>

text \<open>
  The reference counts of the objects whose address was given out as an integer. In
  \<open>stm_is_registered\<close> the assignment \<open>res = 1\<close> comes after the jump to the end.
\<close>

definition stm_is_registered :: "u64 \<Rightarrow> stm4 \<Rightarrow> bool \<times> stm4" where
  "stm_is_registered obj s =
     (case G2L_FIND (registered_objs s) obj of
        None \<Rightarrow> (False, s)
      | Some c \<Rightarrow> (False, s\<lparr>registered_objs := g2l_set_val (registered_objs s) obj (c + 1)\<rparr>))"

definition stm_register_integer_address :: "u64 \<Rightarrow> stm4 \<Rightarrow> (stm4, unit) res" where
  "stm_register_integer_address obj s =
     (case G2L_FIND (registered_objs s) obj of
        Some c \<Rightarrow> Ret () (s\<lparr>registered_objs := g2l_set_val (registered_objs s) obj (c + 1)\<rparr>)
      | None \<Rightarrow>
          (case g2l_insert insert_fuel (registered_objs s) obj 1 of
             Inl e \<Rightarrow> Fatal ''g2l_insert'' s
           | Inr t \<Rightarrow> Ret () (s\<lparr>registered_objs := t\<rparr>)))"

definition stm_unregister_integer_address :: "nat \<Rightarrow> ext4 \<Rightarrow> nat \<Rightarrow> u64 \<Rightarrow> stm4 \<Rightarrow> (stm4, unit) res" where
  "stm_unregister_integer_address n X me obj s =
     bind_res (BecomeInevitable n X me s) (\<lambda>_ s.
       case G2L_FIND (registered_objs s) obj of
         None \<Rightarrow> Fatal ''assert'' s
       | Some c \<Rightarrow>
           let t = g2l_set_val (registered_objs s) obj (c - 1)
           in Ret () (s\<lparr>registered_objs := (if c - 1 = 0 then snd (g2l_delete_item t obj) else t)\<rparr>))"

definition stm_allocate_public_integer_address :: "nat \<Rightarrow> ext4 \<Rightarrow> (nat \<Rightarrow> nat) \<Rightarrow> nat \<Rightarrow> (nat \<Rightarrow> gcp4) \<Rightarrow> u64 \<Rightarrow> stm4 \<Rightarrow>
    (stm4, u64 \<times> (nat \<Rightarrow> gcp4)) res" where
  "stm_allocate_public_integer_address n X grow me gs obj s =
     bind_res (BecomeInevitable n X me (stm_push_root4 me obj s)) (\<lambda>_ s.
       let (obj, s) = stm_pop_root4 me s
       in bind_res (if \<not> flag4 s obj GCFLAG4_OLD
                    then bind_res (stm_minor_collect n X grow me gs (stm_push_root4 me obj s)) (\<lambda>gs s.
                           let (obj, s) = stm_pop_root4 me s in Ret (obj, gs) s)
                    else Ret (obj, gs) s) (\<lambda>(obj, gs) s.
          let (registered, s) = stm_is_registered obj s
          in if registered then bind_res (stm_register_integer_address obj s) (\<lambda>_ s. Ret (obj, gs) s)
             else let x = obj_at s obj; prebuilt = flag4 s obj GCFLAG4_PREBUILT_ORIGINAL;
                      orig = (if h_original x = 0 \<or> prebuilt then obj else h_original x);
                      (result, s) =
                        (if flag4 s orig GCFLAG4_PUBLIC \<and> prebuilt then (orig, s)
                         else let stub = old_alloc X s
                              in (stub, set_obj stub \<lparr>h_tid = (h_tid x AND USER_TID_MASK) OR GCFLAG4_PUBLIC OR GCFLAG4_STUB
                                            OR GCFLAG4_SMALLSTUB OR GCFLAG4_OLD, h_revision = obj OR 2,
                                          h_original = (if \<not> prebuilt \<and> h_original x \<noteq> 0 then h_original x else obj),
                                          stub_thread = me, fields4 = []\<rparr> s))
                  in bind_res (stm_register_integer_address result s) (\<lambda>_ s. Ret (result, gs) s)))"

section \<open>The program's transactions\<close>

definition stm_set_transaction_length :: "nat \<Rightarrow> ext4 \<Rightarrow> nat \<Rightarrow> int \<Rightarrow> stm4 \<Rightarrow> (stm4, unit) res" where
  "stm_set_transaction_length n X me length_max s =
     bind_res (BecomeInevitable n X me s) (\<lambda>_ s.
       Ret () (s\<lparr>stm_regular_length_limit := nat (if length_max \<le> 0 then 1 else length_max)\<rparr>))"

definition stm_should_break_transaction :: "nat \<Rightarrow> stm4 \<Rightarrow> bool" where
  "stm_should_break_transaction me s \<longleftrightarrow>
     (if sync_required s then ULONG_MAX else count_reads (thr s me)) \<ge> reads_size_limit (thr s me)"

definition stm_set_max_aborts :: "nat \<Rightarrow> int \<Rightarrow> stm4 \<Rightarrow> stm4" where
  "stm_set_max_aborts me m = upd_thr me (\<lambda>d. d\<lparr>max_aborts := m\<rparr>)"

text \<open>A transaction after one that committed early may be twice as long, up to the usual limit.\<close>

definition raise_reads_limit :: "nat \<Rightarrow> stm4 \<Rightarrow> stm4" where
  "raise_reads_limit me s =
     (let limit = reads_size_limit_nonatomic (thr s me); regular = stm_regular_length_limit s
      in upd_thr me (\<lambda>d. d\<lparr>reads_size_limit_nonatomic :=
           if limit \<noteq> 0 \<and> limit < regular div 2 then 2 * limit + 1 else regular\<rparr>) s)"

definition stm_transaction_break :: "nat \<Rightarrow> ext4 \<Rightarrow> nat \<Rightarrow> bool \<Rightarrow> stm4 \<Rightarrow> (stm4, unit) res" where
  "stm_transaction_break n X me longjmp s =
     (if atomic4 (thr s me) \<noteq> 0 then stm_possible_safe_point X me s
      else bind_res (CommitTransaction n X me False s) (\<lambda>_ s.
             Ret () (stm_begin_transaction me longjmp (raise_reads_limit me s))))"

definition stm_commit_transaction4 :: "nat \<Rightarrow> ext4 \<Rightarrow> nat \<Rightarrow> stm4 \<Rightarrow> (stm4, unit) res" where
  "stm_commit_transaction4 n X me s =
     (if atomic4 (thr s me) = 0 then CommitTransaction n X me False s else BecomeInevitable n X me s)"

definition stm_begin_inevitable_transaction :: "ext4 \<Rightarrow> nat \<Rightarrow> stm4 \<Rightarrow> (stm4, unit) res" where
  "stm_begin_inevitable_transaction X me s =
     (if atomic4 (thr s me) = 0 then BeginInevitableTransaction X me False s else Ret () s)"

definition stm_become_inevitable4 :: "nat \<Rightarrow> ext4 \<Rightarrow> nat \<Rightarrow> stm4 \<Rightarrow> (stm4, unit) res" where
  "stm_become_inevitable4 n X me s = BecomeInevitable n X me s"

definition stm_in_transaction4 :: "nat \<Rightarrow> stm4 \<Rightarrow> bool" where
  "stm_in_transaction4 me s \<longleftrightarrow> stm_active (thr s me) \<noteq> 0"

text \<open>
  The loop of \<open>stm_perform_transaction\<close>. The callback gets the argument and the number of the
  try. An abort comes back to the \<open>setjmp\<close> of the outermost call, which
  continues with the next number.
\<close>

definition perform_one :: "nat \<Rightarrow> ext4 \<Rightarrow> nat \<Rightarrow> (u64 \<Rightarrow> nat \<Rightarrow> stm4 \<Rightarrow> (stm4, int) res) \<Rightarrow> nat \<Rightarrow> nat \<Rightarrow> stm4 \<Rightarrow> (stm4, int) res" where
  "perform_one n X me callback saved counter s =
     (let s = (if counter = 0 \<and> stm_active (thr s me) \<noteq> 2 then raise_reads_limit me s else s)
      in bind_res (if atomic4 (thr s me) = 0 then Ret () (stm_begin_transaction me False s)
                   else stm_possible_safe_point X me s) (\<lambda>_ s.
         bind_res (callback (shadowstack4 (thr s me) ! saved) counter s) (\<lambda>result s.
         bind_res (if atomic4 (thr s me) = 0 then CommitTransaction n X me False s else Ret () s) (\<lambda>_ s.
           Ret result s))))"

text \<open>
  After the last call. \<open>BecomeInevitable\<close> may still abort, and the transaction runs again.
\<close>

definition perform_leave :: "nat \<Rightarrow> ext4 \<Rightarrow> nat \<Rightarrow> bool \<Rightarrow> stm4 \<Rightarrow> (stm4, unit) res" where
  "perform_leave n X me nested s =
     (if atomic4 (thr s me) \<noteq> 0
      then if \<not> nested \<and> setjmp_buf (thr s me) then BecomeInevitable n X me s else Ret () s
      else BeginInevitableTransaction X me False s)"

fun perform_loop :: "nat \<Rightarrow> ext4 \<Rightarrow> nat \<Rightarrow> (u64 \<Rightarrow> nat \<Rightarrow> stm4 \<Rightarrow> (stm4, int) res) \<Rightarrow> nat \<Rightarrow> bool \<Rightarrow> nat \<Rightarrow> stm4 \<Rightarrow> (stm4, unit) res" where
  "perform_loop 0 X me callback saved nested counter s = Hang s"
| "perform_loop (Suc n) X me callback saved nested counter s =
     (case bind_res (perform_one n X me callback saved counter s) (\<lambda>result s.
             if result > 0 then Ret True s else bind_res (perform_leave n X me nested s) (\<lambda>_ s. Ret False s)) of
        Ret again s \<Rightarrow> if again then perform_loop n X me callback saved nested 0 s else Ret () s
      | Aborted s \<Rightarrow> if nested then Aborted s
          else perform_loop n X me callback saved nested (counter + 1)
                 (upd_thr me (\<lambda>d. d\<lparr>shadowstack4 := take (saved + 2) (shadowstack4 d)\<rparr>) s)
      | Fatal m s \<Rightarrow> Fatal m s
      | Hang s \<Rightarrow> Hang s)"

definition stm_perform_transaction :: "nat \<Rightarrow> ext4 \<Rightarrow> nat \<Rightarrow> u64 \<Rightarrow> (u64 \<Rightarrow> nat \<Rightarrow> stm4 \<Rightarrow> (stm4, int) res) \<Rightarrow> stm4 \<Rightarrow> (stm4, unit) res" where
  "stm_perform_transaction n X me arg callback s =
     (let saved = length (shadowstack4 (thr s me)); nested = (atomic4 (thr s me) \<noteq> 0);
          s = stm_push_root4 me END_MARKER_OFF (stm_push_root4 me arg s)
      in bind_res (if \<not> nested then CommitTransaction n X me False s else Ret () s) (\<lambda>_ s.
         bind_res (perform_loop n X me callback saved nested 0 s) (\<lambda>_ s.
           Ret () (snd (stm_pop_root4 me (snd (stm_pop_root4 me s)))))))"

section \<open>Stopping all other threads\<close>

definition stm_stop_all_other_threads :: "nat \<Rightarrow> ext4 \<Rightarrow> nat \<Rightarrow> stm4 \<Rightarrow> (stm4, unit) res" where
  "stm_stop_all_other_threads n X me s =
     bind_res (BecomeInevitable n X me s) (\<lambda>_ s.
     bind_res (if single_thread_nesting s = 0
               then bind_res (stm_start_single_thread X me s) (\<lambda>_ s.
                      Ret () (foreach_f (stm_tx_list s) (\<lambda>t s. if stm_active (thr s t) = 1
                        then AbortTransactionAfterCollect ABRT_OTHER_THREADS t s else s) s))
               else Ret () s) (\<lambda>_ s.
       Ret () (s\<lparr>single_thread_nesting := single_thread_nesting s + 1\<rparr>)))"

definition stm_partial_commit_and_resume_other_threads :: "nat \<Rightarrow> ext4 \<Rightarrow> nat \<Rightarrow> stm4 \<Rightarrow> (stm4, unit) res" where
  "stm_partial_commit_and_resume_other_threads n X me s =
     (let atomic = atomic4 (thr s me); s = s\<lparr>single_thread_nesting := single_thread_nesting s - 1\<rparr>
      in if single_thread_nesting s \<noteq> 0 then Ret () s
         else bind_res (CommitTransaction n X me True (snd (stm_atomic (- atomic) me s))) (\<lambda>_ s.
              bind_res (BeginInevitableTransaction X me True s) (\<lambda>_ s.
                stm_stop_single_thread X me (snd (stm_atomic atomic me s)))))"

definition stm_add_prebuilt_root :: "u64 \<Rightarrow> stm4 \<Rightarrow> stm4" where
  "stm_add_prebuilt_root obj s = s\<lparr>stm_prebuilt_gcroots := stm_prebuilt_gcroots s @ [obj]\<rparr>"

section \<open>Threads\<close>

definition new_descriptor :: "nat \<Rightarrow> u64 list \<Rightarrow> tx4" where
  "new_descriptor i weakrefs = (let lock = LOCKED + 2 * of_nat i in
     \<lparr>collection_lock = '''', stolen_objects = [], stolen_young_stubs = [], setjmp_buf = False,
      longjmp_callback = False, start_time4 = 0, my_lock = lock, stm_thread_local_obj = 0, old_thread_local_obj = 0,
      atomic4 = 0, count_reads = 0, reads_size_limit = 0, reads_size_limit_nonatomic = 0, stm_active = 0,
      max_aborts = - 1, num_commits = 0, num_aborts = (\<lambda>_. 0), num_spinloops = (\<lambda>_. 0), list_of_read_objects = [],
      private_from_protected = [], num_private_from_protected_known_old = 0, num_read_objects_known_old = 0,
      public_to_private = g2l_empty, stm_private_rev_num = - lock,
      recent_reads_cache = \<lparr>fx_shift = 0, fx_cache = (\<lambda>_. 0)\<rparr>,
      old_objects_to_trace = [], public_with_young_copy = [], mem_clear_on_abort4 = None, callbacks_on_abort = g2l_empty,
      nursery_base = 0, nursery_end4 = 0, nursery_current4 = 0, nursery_nextlimit = 0, already_cleared4 = False,
      young_weakrefs4 = [], old_weakrefs4 = weakrefs, shadowstack4 = [], abortinfo = []\<rparr>)"

text \<open>The result is the number of the thread; the end of the free list is the first unused number.\<close>

definition DescriptorInit :: "stm4 \<Rightarrow> (stm4, nat) res" where
  "DescriptorInit s =
     (let start = (\<lambda>i weakrefs s. Ret i (s\<lparr>thr := (thr s)(i := new_descriptor i weakrefs), stm_tx_list := i # stm_tx_list s\<rparr>))
      in case free_descriptors s of
           i # rest \<Rightarrow> start i (old_weakrefs4 (thr s i)) (s\<lparr>free_descriptors := rest\<rparr>)
         | [] \<Rightarrow> let i = next_descriptor s; s = s\<lparr>next_descriptor := i + 1\<rparr>
                 in if next_descriptor s = MAX_THREADS then Fatal ''error: too many threads at the same time'' s
                    else start i [] s)"

definition DescriptorDone :: "nat \<Rightarrow> stm4 \<Rightarrow> stm4" where
  "DescriptorDone me s =
     upd_thr me (\<lambda>d. d\<lparr>stolen_objects := [], stolen_young_stubs := [], stm_thread_local_obj := 0xBB,
       public_to_private := g2l_delete (public_to_private d), private_from_protected := [], list_of_read_objects := [],
       abortinfo := []\<rparr>) (s\<lparr>free_descriptors := me # free_descriptors s, stm_tx_list := remove1 me (stm_tx_list s)\<rparr>)"

definition init_shadowstack :: "nat \<Rightarrow> stm4 \<Rightarrow> stm4" where
  "init_shadowstack me s = stm_push_root4 me END_MARKER_ON (upd_thr me (\<lambda>d. d\<lparr>shadowstack4 := []\<rparr>) s)"

definition done_shadowstack :: "nat \<Rightarrow> stm4 \<Rightarrow> (stm4, unit) res" where
  "done_shadowstack me s =
     (if shadowstack4 (thr s me) = [END_MARKER_ON] then Ret () (snd (stm_pop_root4 me s)) else Fatal ''assert'' s)"

text \<open>
  Entering and leaving a callback from outside; \<open>known\<close> is the thread if it has a descriptor already
  (the code's \<open>token\<close> is 1 if not), and \<open>base\<close> is where \<open>malloc\<close> puts the nursery.
\<close>

definition stm_enter_callback_call :: "ext4 \<Rightarrow> u64 \<Rightarrow> nat option \<Rightarrow> stm4 \<Rightarrow> (stm4, nat) res" where
  "stm_enter_callback_call X base known s =
     bind_res (case known of Some me \<Rightarrow> Ret me s
               | None \<Rightarrow> bind_res (DescriptorInit s) (\<lambda>me s.
                   Ret me (init_shadowstack me (stmgc_init_nursery me base s)))) (\<lambda>me s.
     bind_res (BeginInevitableTransaction X me False s) (\<lambda>_ s. Ret me s))"

definition stm_leave_callback_call :: "nat \<Rightarrow> ext4 \<Rightarrow> bool \<Rightarrow> nat \<Rightarrow> stm4 \<Rightarrow> (stm4, unit) res" where
  "stm_leave_callback_call n X token me s =
     bind_res (if token then stmgc_minor_collect n X me s else Ret () s) (\<lambda>_ s.
     bind_res (CommitTransaction n X me False s) (\<lambda>_ s.
       if token then bind_res (done_shadowstack me s) (\<lambda>_ s. Ret () (DescriptorDone me (stmgc_done_nursery me s)))
       else Ret () s))"

end
