(* ===== verification/C4ids.thy ===== *)
theory C4ids
  imports C4extra C4read
begin

text \<open>
  What identities and integer addresses of the first design promise: the identity of an object does
  not change when it is copied; an object that is registered already is not recognized.
\<close>

section \<open>Changing the value of an item\<close>

abbreviation reval :: "u64 \<Rightarrow> u64 \<Rightarrow> u64 \<times> u64 \<Rightarrow> u64 \<times> u64" where
  "reval a v p \<equiv> (if fst p = a then (a, v) else p)"

lemma set_val_ren: "ren (set_entry_val b v e) = set_entry_val (TREE_HASH b) v (ren e)"
  by (induction e rule: ren.induct) auto

lemma set_val_items: "entry_items (set_entry_val a v e) = map (reval a v) (entry_items e)"
  by (induction e rule: entry_items.induct) (auto simp: entry_items.simps(3) map_concat intro!: arg_cong [where f = concat])

lemma set_val_space: "entry_space (set_entry_val a v e) = entry_space e"
  by (induction e rule: entry_items.induct) (auto simp: comp_def intro!: arg_cong [where f = sum_list])

lemma set_val_wf: "wf_entry s e \<Longrightarrow> wf_entry s (set_entry_val a v e)"
proof (induction rule: wf_entry.induct)
  case (node xs s)
  have "wf_entry s (ENode (map (set_entry_val a v) xs))"
  proof (rule wf_entry.node)
    fix i x w
    assume i: "i < 16" "(x, w) \<in> set (entry_items (map (set_entry_val a v) xs ! i))"
    then obtain p where "p \<in> set (entry_items (xs ! i))" "(x, w) = reval a v p"
      using node.hyps(1) by (auto simp: set_val_items)
    then have "(x, snd p) \<in> set (entry_items (xs ! i))" by (cases p) (auto split: if_splits)
    then show "slot (TREE_HASH x) s = i" using node.hyps(4) i(1) by blast
  qed (use node in simp_all)
  then show ?case by simp
qed simp_all

lemma map_of_reval: "map_of (map (reval a v) xs) = (if a \<in> fst ` set xs then (map_of xs)(a \<mapsto> v) else map_of xs)"
  by (induction xs) (auto simp: fun_eq_iff)

lemma g2l_set_val_ok:
  assumes "g2l_inv t" and "g2l_map t a \<noteq> None"
  shows "g2l_inv (g2l_set_val t a v) \<and> g2l_map (g2l_set_val t a v) = (g2l_map t)(a \<mapsto> v)"
proof
  obtain k where k: "tree_inv k" "t = ren_tree k" using assms(1) unfolding g2l_inv_def by blast
  obtain b where b: "a = TREE_HASH b" using hash_surj by metis
  let ?k = "k\<lparr>toplevel := map (set_entry_val b v) (toplevel k)\<rparr>"
  have r: "g2l_set_val t a v = ren_tree ?k"
    by (simp add: g2l_set_val_def ren_tree_def k(2) b set_val_ren)
  have e: "ENode (map (set_entry_val b v) (toplevel k)) = set_entry_val b v (ENode (toplevel k))" by simp
  have it: "tree_items ?k = map (reval b v) (tree_items k)"
    using set_val_items [of b v "ENode (toplevel k)"] by (simp add: tree_items_def)
  have "tree_inv ?k"
    using k(1) set_val_wf [of 0 "ENode (toplevel k)" b v] set_val_space [of b v "ENode (toplevel k)"] it
    unfolding tree_inv_def wf_tree_def by (auto simp del: entry_space.simps(3) split: if_splits)
  then show "g2l_inv (g2l_set_val t a v)" unfolding r g2l_inv_def by blast
  have "g2l_items (g2l_set_val t a v) = map (reval a v) (g2l_items t)"
    using set_val_items [of a v "ENode (toplevel t)"] by (simp add: g2l_items_def tree_items_def g2l_set_val_def)
  then show "g2l_map (g2l_set_val t a v) = (g2l_map t)(a \<mapsto> v)"
    using assms(2) by (auto simp: g2l_map_def map_of_reval map_of_eq_None_iff)
qed

section \<open>Integer addresses\<close>

lemma or_and_iff: "(a OR b) AND c \<noteq> (0 :: u64) \<longleftrightarrow> a AND c \<noteq> 0 \<or> b AND c \<noteq> 0"
  by (simp add: bit.conj_disj_distrib2 or_eq_0_iff)

lemma flag_or_tid [heap4_simps]: "flag4 (or_tid p f s) q g \<longleftrightarrow> flag4 s q g \<or> q = p \<and> f AND g \<noteq> 0"
  by (auto simp: flag4_def or_tid_def heap4_simps or_and_iff)

lemma push_pop [simp]: "stm_pop_root4 me (stm_push_root4 me obj s) = (obj, s)"
  by (simp add: stm_pop_root4_def stm_push_root4_def upd_thr_def)

lemma push_active [simp]: "stm_active (thr (stm_push_root4 me obj s) me) = stm_active (thr s me)"
  by (simp add: stm_push_root4_def upd_thr_def)

lemma inevitable_stays: "stm_active (thr s me) = 2 \<Longrightarrow> BecomeInevitable n X me s = Ret () s"
  by (simp add: BecomeInevitable_def)

lemma registered_fields [simp]: "thr (s\<lparr>registered_objs := t\<rparr>) = thr s" "obj_at (s\<lparr>registered_objs := t\<rparr>) = obj_at s"
  "flag4 (s\<lparr>registered_objs := t\<rparr>) = flag4 s" "rev_of (s\<lparr>registered_objs := t\<rparr>) = rev_of s"
  "heap4 (s\<lparr>registered_objs := t\<rparr>) = heap4 s"
  by (simp_all add: obj_at_def flag4_def rev_of_def fun_eq_iff)

text \<open>
  C28: A registered object is not recognized, unless it is a prebuilt original. Let the transaction
  be inevitable, and let \<open>obj\<close> be old, registered and not a prebuilt original (those are
  returned themselves in any case): a stub, say, whose address was given out before. Asking for
  its address once more does not return the object itself, as the code intends to prevent stubs
  that point to stubs, but a new stub that leads to the object; the object is counted once more
  all the same, and when the new address is unregistered, the additional count stays.
\<close>

theorem registered_not_recognized:
  assumes "stm_active (thr s me) = 2" and "flag4 s obj GCFLAG4_OLD" and "\<not> flag4 s obj GCFLAG4_PREBUILT_ORIGINAL"
    and "g2l_inv (registered_objs s)" and "aligned8 obj" and "obj \<noteq> 0" and "G2L_FIND (registered_objs s) obj = Some c"
    and "\<forall>t. aligned8 (old_alloc X (s\<lparr>registered_objs := t\<rparr>)) \<and> old_alloc X (s\<lparr>registered_objs := t\<rparr>) \<noteq> 0 \<and>
      G2L_FIND (registered_objs s) (old_alloc X (s\<lparr>registered_objs := t\<rparr>)) = None"
  shows "\<exists>stub s1 s2. stm_allocate_public_integer_address n X grow me gs obj s = Ret (stub, gs) s1 \<and>
    stub \<noteq> obj \<and> flag4 s1 stub GCFLAG4_STUB \<and> rev_of s1 stub = obj OR 2 \<and>
    stm_unregister_integer_address n X me stub s1 = Ret () s2 \<and>
    G2L_FIND (registered_objs s2) stub = None \<and> G2L_FIND (registered_objs s2) obj = Some (c + 1)"
proof -
  let ?t = "registered_objs s" and ?ok = "\<lambda>a. aligned8 a \<and> a \<noteq> 0"
  let ?t1 = "g2l_set_val ?t obj (c + 1)"
  define sa where "sa = s\<lparr>registered_objs := ?t1\<rparr>"
  define stub where "stub = old_alloc X sa"
  have stub: "aligned8 stub" "stub \<noteq> 0" "G2L_FIND ?t stub = None" using assms(8) by (simp_all add: stub_def sa_def)
  have f: "G2L_FIND ?t obj = g2l_map ?t obj" "G2L_FIND ?t stub = g2l_map ?t stub"
    using g2m.look_abs [OF assms(4)] assms(5,6) stub(1,2) by auto
  have ne: "stub \<noteq> obj" using stub(3) assms(7) by auto
  have m: "g2l_map ?t obj \<noteq> None" by (simp add: f(1) [symmetric] assms(7))
  have t1: "g2l_inv ?t1" "g2l_map ?t1 = (g2l_map ?t)(obj \<mapsto> c + 1)"
    using g2l_set_val_ok [OF assms(4) m, of "c + 1"] by blast+
  have n1: "g2l_map ?t1 stub = None" using t1(2) f(2) stub(3) ne by simp
  obtain t2 where t2: "g2l_insert insert_fuel ?t1 stub 1 = Inr t2" "g2l_inv t2" "g2l_map t2 = (g2l_map ?t1)(stub \<mapsto> 1)"
    using g2m.insert_new_abs [OF t1(1) _ n1, of 1] stub(1,2) by auto
  have n1': "G2L_FIND ?t1 stub = None" using g2m.look_abs [OF t1(1)] stub(1,2) n1 by simp
  have f2: "G2L_FIND t2 stub = Some 1" using g2m.look_abs [OF t2(2)] stub(1,2) t2(3) by simp
  have m2: "g2l_map t2 stub \<noteq> None" using t2(3) by simp
  let ?t3 = "g2l_set_val t2 stub 0"
  have t3: "g2l_inv ?t3" "g2l_map ?t3 = (g2l_map t2)(stub \<mapsto> 0)"
    using g2l_set_val_ok [OF t2(2) m2, of 0] by blast+
  let ?t4 = "snd (g2l_delete_item ?t3 stub)"
  have t4: "g2l_inv ?t4" "g2l_map ?t4 = (g2l_map ?t3)(stub := None)"
    using g2m.delete_abs [OF t3(1), of stub] stub(1,2) by auto
  have fin: "G2L_FIND ?t4 stub = None" "G2L_FIND ?t4 obj = Some (c + 1)"
    using g2m.look_abs [OF t4(1)] stub(1,2) assms(5,6) t4(2) t3(2) t2(3) t1(2) ne by simp_all
  let ?x = "obj_at s obj"
  define sb where "sb = set_obj stub \<lparr>h_tid = (h_tid ?x AND USER_TID_MASK) OR GCFLAG4_PUBLIC OR GCFLAG4_STUB
      OR GCFLAG4_SMALLSTUB OR GCFLAG4_OLD, h_revision = obj OR 2,
      h_original = (if h_original ?x \<noteq> 0 then h_original ?x else obj), stub_thread = me, fields4 = []\<rparr> sa"
  have sb: "thr sb = thr s" "registered_objs sb = ?t1" by (simp_all add: sb_def sa_def set_obj_def)
  have fa: "obj_at sa = obj_at s" "flag4 sa = flag4 s" by (simp_all add: sa_def)
  have "stm_is_registered obj s = (False, sa)" using assms(7) by (simp add: stm_is_registered_def sa_def)
  moreover have "stm_register_integer_address stub sb = Ret () (sb\<lparr>registered_objs := t2\<rparr>)"
    using n1' t2(1) sb(2) by (simp add: stm_register_integer_address_def)
  ultimately have run: "stm_allocate_public_integer_address n X grow me gs obj s = Ret (stub, gs) (sb\<lparr>registered_objs := t2\<rparr>)"
    using assms(1-3)
    by (cases "h_original (obj_at s obj) = 0")
      (simp_all add: stm_allocate_public_integer_address_def inevitable_stays Let_def sb_def stub_def [symmetric] fa)
  define s2 where "s2 = sb\<lparr>registered_objs := ?t4\<rparr>"
  have un: "stm_unregister_integer_address n X me stub (sb\<lparr>registered_objs := t2\<rparr>) = Ret () s2"
    using assms(1) f2 sb(1) by (simp add: stm_unregister_integer_address_def inevitable_stays Let_def s2_def)
  have st: "flag4 sb stub GCFLAG4_STUB" "rev_of sb stub = obj OR 2"
    by (simp_all add: sb_def flag4_def rev_of_def heap4_simps or_and_iff GCFLAG4_STUB_def gcflag4_def)
  show ?thesis
    using run un ne st fin by (intro exI [of _ stub] exI [of _ "sb\<lparr>registered_objs := t2\<rparr>"] exI [of _ s2]) (simp add: s2_def)
qed


definition no_pages4 :: "nat \<Rightarrow> gcp4" where
  "no_pages4 = (\<lambda>_. \<lparr>pages_for_size = (\<lambda>_. []), free_loc_for_size = (\<lambda>_. []), count_pages = 0, nonsmall_objects = g2l_empty\<rparr>)"

definition sample4_inevitable :: stm4 where
  "sample4_inevitable = upd_thr 0 (\<lambda>d. d\<lparr>stm_active := 2\<rparr>) (sample4\<lparr>registered_objs := tree4\<rparr>)"

lemma tree4_find: "aligned8 a \<Longrightarrow> a \<noteq> 0 \<Longrightarrow> G2L_FIND tree4 a = (if a = 64 then Some 128 else None)"
  using g2m.look_abs [OF tree4_ok(1), of a] tree4_ok(2) by (simp add: g2l_map_def)

theorem registered_not_recognized_witness:
  "\<exists>stub s1 s2. stm_allocate_public_integer_address 1 ext4_sample id 0 no_pages4 64 sample4_inevitable = Ret (stub, no_pages4) s1 \<and>
     stm_unregister_integer_address 1 ext4_sample 0 stub s1 = Ret () s2 \<and> G2L_FIND (registered_objs s2) 64 = Some 129"
proof -
  have f: "stm_active (thr sample4_inevitable 0) = 2" "registered_objs sample4_inevitable = tree4"
    "heap4 sample4_inevitable = object4"
    by (simp_all add: sample4_inevitable_def upd_thr_def) (simp add: sample4_def)
  have fl: "flag4 sample4_inevitable 64 GCFLAG4_OLD" "\<not> flag4 sample4_inevitable 64 GCFLAG4_PREBUILT_ORIGINAL"
    by (simp_all add: flag4_def obj_at_def f(3) object4_def GCFLAG4_OLD_def GCFLAG4_PREBUILT_ORIGINAL_def GCFLAG4_PUBLIC_def
        GCFLAG4_PUBLIC_TO_PRIVATE_def gcflag4_def)
  have al: "old_alloc ext4_sample (sample4_inevitable\<lparr>registered_objs := t\<rparr>) = 256" for t
    by (simp add: ext4_sample_def pool4_def f(3) object4_def)
  have g: "G2L_FIND tree4 64 = Some 128" "G2L_FIND tree4 256 = None" by (simp_all add: tree4_find aligned8_def)
  show ?thesis
    using registered_not_recognized [of sample4_inevitable 0 64 128 ext4_sample 1 id no_pages4] f fl al g tree4_ok(1)
    by (auto simp: aligned8_def)
qed

section \<open>Identities\<close>

lemma andnot_and: "f AND g = 0 \<Longrightarrow> (t AND NOT f) AND g = t AND (g :: u64)"
proof -
  assume "f AND g = 0"
  then have "\<not> (bit f n \<and> bit g n)" for n by (metis bit_and_iff bit_0_eq bot_apply bot_bool_def)
  then show ?thesis by (intro bit_word_eqI) (auto simp: bit_simps)
qed

lemma flag_andnot [heap4_simps]:
  "f AND g = 0 \<Longrightarrow> flag4 (andnot_tid p f s) q g = flag4 s q g" "g AND NOT f = 0 \<Longrightarrow> \<not> flag4 (andnot_tid p f s) p g"
proof -
  assume "f AND g = 0"
  then show "flag4 (andnot_tid p f s) q g = flag4 s q g" by (simp add: flag4_def andnot_and)
next
  assume "g AND NOT f = 0"
  then have "(t AND NOT f) AND g = 0" for t :: u64
    by (metis and.assoc and.commute and_zero_eq)
  then show "\<not> flag4 (andnot_tid p f s) p g" by (simp add: flag4_def)
qed

lemma flag_other [heap4_simps]: "flag4 (upd_thr me h s) = flag4 s" "rev_of (upd_thr me h s) = rev_of s"
  by (simp_all add: flag4_def rev_of_def heap4_simps fun_eq_iff)

lemma or_tid_obj [heap4_simps]: "h_original (obj_at (or_tid p f s) q) = h_original (obj_at s q)" "thr (or_tid p f s) = thr s"
  "rev_of (or_tid p f s) q = rev_of s q" "fields4 (obj_at (or_tid p f s) q) = fields4 (obj_at s q)"
  by (simp_all add: or_tid_def heap4_simps rev_of_def upd_obj_def)

text \<open>A nursery whose parts are in order, with room behind it.\<close>

definition nursery_ok :: "stm4 \<Rightarrow> nat \<Rightarrow> nat \<Rightarrow> bool" where
  "nursery_ok s me sz \<longleftrightarrow> (let d = thr s me in nursery_base d \<le> nursery_current4 d \<and> nursery_current4 d \<le> nursery_end4 d \<and>
     nursery_base d \<le> nursery_nextlimit d \<and> nursery_nextlimit d \<le> nursery_end4 d \<and>
     (nursery_nextlimit d \<noteq> nursery_end4 d \<longrightarrow> unat (nursery_nextlimit d) + GC_NURSERY_SECTION \<le> unat (nursery_end4 d)) \<and>
     unat (nursery_end4 d) + sz < 2 ^ 64 \<and> 0 < sz)"

lemma obj_clear_memory: "\<not> (unat a \<le> unat p \<and> unat p < unat a + n) \<Longrightarrow> obj_at (clear_memory4 a n s) p = obj_at s p"
  by (auto simp: obj_at_def clear_memory4_def)

lemma take_section_ok:
  "fst (take_section me sz tid s) = nursery_current4 (thr s me) \<and>
   stm_private_rev_num (thr (snd (take_section me sz tid s)) me) = stm_private_rev_num (thr s me) \<and>
   (p \<noteq> nursery_current4 (thr s me) \<and>
    \<not> (unat (nursery_nextlimit (thr s me)) \<le> unat p \<and> unat p < unat (nursery_nextlimit (thr s me)) + GC_NURSERY_SECTION) \<longrightarrow>
      heap4 (snd (take_section me sz tid s)) p = heap4 s p \<and> obj_at (snd (take_section me sz tid s)) p = obj_at s p)"
  by (auto simp: take_section_def Let_def heap4_simps clear_memory4_def obj_at_def)

lemma allocate_nursery_ok:
  assumes "nursery_ok s me sz" and "allocate_nursery_no_collect me sz s = (r, s')" and "\<not> stmgc_is_in_nursery s me p"
  shows "obj_at s' p = obj_at s p \<and> r \<noteq> Some p \<and> (heap4 s' p = heap4 s p) \<and>
    stm_private_rev_num (thr s' me) = stm_private_rev_num (thr s me)"
proof -
  define d where "d = thr s me"
  have ok: "nursery_base d \<le> nursery_current4 d" "nursery_current4 d \<le> nursery_end4 d"
    "nursery_base d \<le> nursery_nextlimit d" "nursery_nextlimit d \<le> nursery_end4 d"
    "nursery_nextlimit d \<noteq> nursery_end4 d \<Longrightarrow> unat (nursery_nextlimit d) + GC_NURSERY_SECTION \<le> unat (nursery_end4 d)"
    "unat (nursery_end4 d) + sz < 2 ^ 64" "0 < sz"
    using assms(1) by (simp_all add: nursery_ok_def d_def Let_def)
  have out: "\<not> (nursery_base d \<le> p \<and> p < nursery_end4 d)" using assms(3) by (simp add: stmgc_is_in_nursery_def d_def)
  have sum: "unat (nursery_current4 d + of_nat sz) = unat (nursery_current4 d) + sz"
    using ok(2,6) by (simp add: word_le_nat_alt unat_word_ariths take_bit_eq_mod unat_of_nat)
  show ?thesis
  proof (cases "nursery_current4 d + of_nat sz > nursery_nextlimit d")
    case False
    then have "nursery_current4 d < nursery_end4 d"
      using ok(4,7) sum by (simp add: word_le_nat_alt word_less_nat_alt)
    then have "p \<noteq> nursery_current4 d" using out ok(1) by auto
    then show ?thesis using assms(2) False
      by (auto simp: allocate_nursery_no_collect_def Let_def d_def heap4_simps)
  next
    case True
    have restored: "upd_thr me (\<lambda>d. d\<lparr>nursery_current4 := nursery_current4 d - of_nat sz\<rparr>)
        (upd_thr me (\<lambda>d. d\<lparr>nursery_current4 := nursery_current4 (thr s me) + of_nat sz\<rparr>) s) = s"
      by (simp add: upd_thr_def)
    let ?full = "sz > GC_NURSERY_SECTION \<or> nursery_nextlimit d = nursery_end4 d \<or> nursery_current4 d = nursery_end4 d"
    have run: "(r, s') = (if ?full then (None, s) else (Some (fst (take_section me sz (- 1) s)), snd (take_section me sz (- 1) s)))"
      using assms(2) True restored by (simp add: allocate_nursery_no_collect_def Let_def d_def heap4_simps split_def split: if_splits)
    show ?thesis
    proof (cases ?full)
      case False
      then have "nursery_current4 d < nursery_end4 d" using ok(2) by (simp add: order.strict_iff_order)
      then have ne: "p \<noteq> nursery_current4 d" using out ok(1) by auto
      have room: "unat (nursery_nextlimit d) + GC_NURSERY_SECTION \<le> unat (nursery_end4 d)" using ok(5) False by simp
      have far: "\<not> (unat (nursery_nextlimit d) \<le> unat p \<and> unat p < unat (nursery_nextlimit d) + GC_NURSERY_SECTION)"
        using out ok(3) room by (auto simp: word_le_nat_alt word_less_nat_alt)
      show ?thesis using run False ne far take_section_ok [of me sz "- 1" s p] by (simp add: d_def)
    qed (use run in simp)
  qed
qed


text \<open>What \<open>stm_id4\<close> answers without a new object: the original of an object that has one, or is old.\<close>

lemma known_id: "h_original (obj_at s p) \<noteq> 0 \<or> flag4 s p GCFLAG4_OLD \<Longrightarrow>
  stm_id4 X p s = (if h_original (obj_at s p) \<noteq> 0 \<and> \<not> flag4 s p GCFLAG4_PREBUILT_ORIGINAL then h_original (obj_at s p) else p, s)"
  by (auto simp: stm_id4_def Let_def)

definition copied_object :: "stm4 \<Rightarrow> nat \<Rightarrow> u64 \<Rightarrow> obj4" where
  "copied_object s me R = (let x = obj_at s R in
     x\<lparr>h_revision := stm_private_rev_num (thr s me),
       h_original := if h_original x = 0 \<or> h_tid x AND GCFLAG4_PREBUILT_ORIGINAL \<noteq> 0 then R else h_original x\<rparr>)"

lemma flag_of_obj: "flag4 s p g \<longleftrightarrow> h_tid (obj_at s p) AND g \<noteq> 0"
  by (simp add: flag4_def)

lemma duplicate_ok:
  assumes "nursery_ok s me (size4 X (obj_at s R))" and "\<not> stmgc_is_in_nursery s me R" and "\<forall>s'. heap4 s' R \<noteq> None \<longrightarrow> old_alloc X s' \<noteq> R"
    and "heap4 s R \<noteq> None" and "stmgc_duplicate X me R s = (L, s')"
  shows "L \<noteq> R \<and> obj_at s' R = obj_at s R \<and> h_original (obj_at s' L) = h_original (obj_at s R) \<and>
    (h_tid (obj_at s' L) AND GCFLAG4_PREBUILT_ORIGINAL = h_tid (obj_at s R) AND GCFLAG4_PREBUILT_ORIGINAL)"
proof -
  obtain r s1 where r: "allocate_nursery_no_collect me (size4 X (obj_at s R)) s = (r, s1)" by (metis surj_pair)
  note ok = allocate_nursery_ok [OF assms(1) r assms(2)]
  have b: "GCFLAG4_OLD AND GCFLAG4_PREBUILT_ORIGINAL = 0" "GCFLAG4_HAS_ID AND GCFLAG4_PREBUILT_ORIGINAL = 0"
    by (simp_all add: GCFLAG4_OLD_def GCFLAG4_PREBUILT_ORIGINAL_def GCFLAG4_HAS_ID_def gcflag4_def)
  have or: "(t OR GCFLAG4_OLD) AND GCFLAG4_PREBUILT_ORIGINAL = t AND GCFLAG4_PREBUILT_ORIGINAL" for t
    by (simp add: bit.conj_disj_distrib2 b)
  show ?thesis
  proof (cases r)
    case None
    then have "L = old_alloc X s1" "heap4 s1 R \<noteq> None"
      using assms(4,5) ok by (auto simp: stmgc_duplicate_def r stmgc_duplicate_old_def Let_def)
    then have "L \<noteq> R" using assms(3) by blast
    moreover have "s' = set_obj L ((obj_at s1 R)\<lparr>h_tid := h_tid (obj_at s1 R) OR GCFLAG4_OLD\<rparr>) s1"
      using assms(5) None by (auto simp: stmgc_duplicate_def r stmgc_duplicate_old_def Let_def)
    ultimately show ?thesis using ok or by (simp add: heap4_simps)
  next
    case (Some M)
    then have "L = M" "M \<noteq> R" "s' = set_obj M ((obj_at s1 R)\<lparr>h_tid := (h_tid (obj_at s1 R) AND NOT GCFLAG4_OLD) AND NOT GCFLAG4_HAS_ID\<rparr>) s1"
      using assms(5) ok by (auto simp: stmgc_duplicate_def r Let_def)
    then show ?thesis using ok by (simp add: heap4_simps andnot_and b)
  qed
qed


lemma disjoint_prebuilt [simp]:
  "GCFLAG4_PUBLIC_TO_PRIVATE AND GCFLAG4_PREBUILT_ORIGINAL = 0" "GCFLAG4_PUBLIC_TO_PRIVATE AND GCFLAG4_OLD = 0"
  "GCFLAG4_PREBUILT_ORIGINAL AND NOT (GCFLAG4_VISITED OR GCFLAG4_MARKED OR GCFLAG4_PUBLIC OR GCFLAG4_PREBUILT_ORIGINAL OR
     GCFLAG4_PUBLIC_TO_PRIVATE OR GCFLAG4_WRITE_BARRIER) = 0"
  by (simp_all add: GCFLAG4_OLD_def GCFLAG4_PREBUILT_ORIGINAL_def GCFLAG4_HAS_ID_def GCFLAG4_PUBLIC_TO_PRIVATE_def
      GCFLAG4_VISITED_def GCFLAG4_MARKED_def GCFLAG4_PUBLIC_def GCFLAG4_WRITE_BARRIER_def gcflag4_def)

text \<open>A private copy refers to the original of the public object, or to that object itself.\<close>

lemma localized_originals:
  assumes "nursery_ok s me (size4 X (obj_at s R))" and "\<not> stmgc_is_in_nursery s me R" and "\<forall>s'. heap4 s' R \<noteq> None \<longrightarrow> old_alloc X s' \<noteq> R"
    and "heap4 s R \<noteq> None" and "R \<noteq> 0" and "LocalizePublic X me R s = Ret L s'"
    and "\<forall>x. size4 X (x\<lparr>h_tid := h_tid x OR GCFLAG4_PUBLIC_TO_PRIVATE\<rparr>) = size4 X x"
  shows "L \<noteq> R \<and> h_original (obj_at s' R) = h_original (obj_at s R) \<and>
    flag4 s' R GCFLAG4_PREBUILT_ORIGINAL = flag4 s R GCFLAG4_PREBUILT_ORIGINAL \<and> flag4 s' R GCFLAG4_OLD = flag4 s R GCFLAG4_OLD \<and>
    \<not> flag4 s' L GCFLAG4_PREBUILT_ORIGINAL \<and>
    h_original (obj_at s' L) = (if h_original (obj_at s R) = 0 \<or> flag4 s R GCFLAG4_PREBUILT_ORIGINAL then R else h_original (obj_at s R))"
proof -
  define s1 where "s1 = or_tid R GCFLAG4_PUBLIC_TO_PRIVATE s"
  obtain M s2 where d: "stmgc_duplicate X me R s1 = (M, s2)" by (metis surj_pair)
  have th: "thr s1 = thr s" "heap4 s1 R \<noteq> None" by (simp_all add: s1_def heap4_simps or_tid_def upd_obj_def set_obj_def)
  have sz: "size4 X (obj_at s1 R) = size4 X (obj_at s R)" using assms(7) by (simp add: s1_def or_tid_def heap4_simps)
  have d': "M \<noteq> R \<and> obj_at s2 R = obj_at s1 R \<and> h_original (obj_at s2 M) = h_original (obj_at s1 R) \<and>
    (h_tid (obj_at s2 M) AND GCFLAG4_PREBUILT_ORIGINAL = h_tid (obj_at s1 R) AND GCFLAG4_PREBUILT_ORIGINAL)"
  proof (rule duplicate_ok [OF _ _ assms(3) _ d])
    show "nursery_ok s1 me (size4 X (obj_at s1 R))" using assms(1) by (simp add: nursery_ok_def th sz)
  qed (use assms(2) th in \<open>simp_all add: stmgc_is_in_nursery_def\<close>)
  have f: "h_original (obj_at s1 R) = h_original (obj_at s R)" "flag4 s1 R GCFLAG4_PREBUILT_ORIGINAL = flag4 s R GCFLAG4_PREBUILT_ORIGINAL"
    "flag4 s1 R GCFLAG4_OLD = flag4 s R GCFLAG4_OLD"
    by (simp_all add: s1_def heap4_simps)
  define s3 where "s3 = (if h_original (obj_at s2 M) = 0 \<or> flag4 s2 M GCFLAG4_PREBUILT_ORIGINAL
    then upd_obj M (\<lambda>x. x\<lparr>h_original := R\<rparr>) s2 else s2)"
  define s4 where "s4 = andnot_tid M (GCFLAG4_VISITED OR GCFLAG4_MARKED OR GCFLAG4_PUBLIC OR GCFLAG4_PREBUILT_ORIGINAL OR
                GCFLAG4_PUBLIC_TO_PRIVATE OR GCFLAG4_WRITE_BARRIER) s3"
  obtain h where s': "L = M" "s' = upd_thr me h (set_rev M (stm_private_rev_num (thr s4 me)) s4)"
    using assms(6) d unfolding LocalizePublic_def s1_def [symmetric] Let_def
    by (auto simp: s3_def [symmetric] s4_def [symmetric] split: sum.splits)
  have R3: "obj_at s3 R = obj_at s1 R" using d' by (auto simp: s3_def heap4_simps)
  have R': "obj_at s' R = obj_at s1 R"
    using d' R3 by (auto simp: s'(2) heap4_simps set_rev_def s4_def andnot_tid_def)
  have "\<not> flag4 s4 M GCFLAG4_PREBUILT_ORIGINAL" unfolding s4_def by (rule flag_andnot(2), rule disjoint_prebuilt(3))
  then have "\<not> flag4 s' L GCFLAG4_PREBUILT_ORIGINAL" by (simp add: s' heap4_simps)
  moreover have "h_original (obj_at s' L) = (if h_original (obj_at s1 R) = 0 \<or> flag4 s1 R GCFLAG4_PREBUILT_ORIGINAL then R else h_original (obj_at s1 R))"
    using d' by (simp add: s' heap4_simps s4_def s3_def flag_of_obj)
  ultimately show ?thesis using d' R' f by (simp add: s'(1) flag_of_obj)
qed


text \<open>An object that moves out of the nursery keeps what \<open>stm_id4\<close> has answered for it.\<close>

lemma has_id_bits: "GCFLAG4_HAS_ID AND GCFLAG4_MOVED = 0" "GCFLAG4_HAS_ID AND GCFLAG4_PREBUILT_ORIGINAL = 0"
  "GCFLAG4_OLD \<noteq> 0" "GCFLAG4_OLD AND GCFLAG4_PREBUILT_ORIGINAL = 0"
  by (simp_all add: GCFLAG4_OLD_def GCFLAG4_PREBUILT_ORIGINAL_def GCFLAG4_HAS_ID_def GCFLAG4_MOVED_def gcflag4_def)

lemma moved_id:
  assumes "stmgc_is_in_nursery s me p" and "\<not> flag4 s p GCFLAG4_MOVED" and "\<not> flag4 s p GCFLAG4_OLD"
    and "\<not> flag4 s p GCFLAG4_PREBUILT_ORIGINAL" and "flag4 s p GCFLAG4_HAS_ID \<longrightarrow> h_original (obj_at s p) \<noteq> 0"
    and "h_original (obj_at s p) \<noteq> p" and "\<forall>s'. heap4 s' p \<noteq> None \<longrightarrow> old_alloc X s' \<notin> {0, p}" and "heap4 s p \<noteq> None"
    and "stm_id4 X p s = (i, s1)" and "visit_if_young X me p s1 = (q, s2)"
  shows "stm_id4 X q s2 = (i, s2)"
proof -
  have i: "h_original (obj_at s1 p) = i \<and> i \<noteq> 0 \<and> i \<noteq> p \<and> heap4 s1 p \<noteq> None \<and> thr s1 = thr s \<and>
    \<not> flag4 s1 p GCFLAG4_MOVED \<and> \<not> flag4 s1 p GCFLAG4_PREBUILT_ORIGINAL"
  proof (cases "h_original (obj_at s p) = 0")
    case True
    define shadow where "shadow = old_alloc X s"
    have sh: "shadow \<noteq> 0" "shadow \<noteq> p" using assms(7,8) by (auto simp: shadow_def)
    define sb where "sb = upd_obj p (\<lambda>x. x\<lparr>h_original := shadow, h_tid := h_tid x OR GCFLAG4_HAS_ID\<rparr>)
      (set_obj shadow ((obj_at s p)\<lparr>h_tid := h_tid (obj_at s p) OR GCFLAG4_OLD, fields4 := map (\<lambda>_. 0) (fields4 (obj_at s p))\<rparr>) s)"
    have r: "i = shadow" "s1 = (if flag4 sb p GCFLAG4_PRIVATE_FROM_PROTECTED then upd_obj (rev_of sb p) (\<lambda>x. x\<lparr>h_original := shadow\<rparr>) sb else sb)"
      using assms(3,9) True by (auto simp: stm_id4_def Let_def shadow_def sb_def)
    have b: "h_original (obj_at sb p) = shadow" "h_tid (obj_at sb p) = h_tid (obj_at s p) OR GCFLAG4_HAS_ID"
      "heap4 sb p \<noteq> None" "thr sb = thr s"
      using sh by (simp_all add: sb_def heap4_simps upd_obj_def)
    have "h_original (obj_at s1 p) = shadow \<and> h_tid (obj_at s1 p) = h_tid (obj_at s p) OR GCFLAG4_HAS_ID \<and> heap4 s1 p \<noteq> None \<and> thr s1 = thr s"
      using b by (auto simp: r(2) heap4_simps upd_obj_def)
    then show ?thesis using sh r(1) assms(2,4) by (simp add: flag_of_obj or_and_iff has_id_bits)
  next
    case False
    then show ?thesis using assms(2,4,6,8,9) by (auto simp: known_id)
  qed
  have young: "stmgc_is_in_nursery s1 me p" using assms(1) i by (simp add: stmgc_is_in_nursery_def)
  show ?thesis
  proof (cases "flag4 s1 p GCFLAG4_HAS_ID")
    case True
    define sc where "sc = upd_obj i (\<lambda>x. x\<lparr>h_original := 0\<rparr>) (stm_copy_to_old_id_copy p i s1)"
    have "q = i" and s2: "s2 = upd_thr me (\<lambda>d. d\<lparr>old_objects_to_trace := old_objects_to_trace d @ [i]\<rparr>)
        (set_rev p i (or_tid p GCFLAG4_MOVED (andnot_tid p GCFLAG4_HAS_ID sc)))"
      using assms(10) young True i by (auto simp: visit_if_young_def Let_def sc_def)
    have "h_original (obj_at sc i) = 0" "flag4 sc i GCFLAG4_OLD"
      by (simp_all add: sc_def stm_copy_to_old_id_copy_def heap4_simps Let_def flag_of_obj or_and_iff has_id_bits)
    then have "h_original (obj_at s2 i) = 0 \<and> flag4 s2 i GCFLAG4_OLD"
      using i by (simp add: s2 heap4_simps flag_of_obj or_tid_def set_rev_def andnot_tid_def)
    then show ?thesis using \<open>q = i\<close> by (simp add: known_id)
  next
    case False
    define fresh where "fresh = old_alloc X s1"
    have fr: "fresh \<noteq> p" using assms(7) i by (auto simp: fresh_def)
    define sd where "sd = set_obj fresh ((obj_at s1 p)\<lparr>h_tid := h_tid (obj_at s1 p) OR GCFLAG4_OLD\<rparr>) s1"
    have "h_original (obj_at sd p) = i" using i fr by (simp add: sd_def heap4_simps)
    then have "q = fresh" and s2: "s2 = upd_thr me (\<lambda>d. d\<lparr>old_objects_to_trace := old_objects_to_trace d @ [fresh]\<rparr>)
        (set_rev p fresh (or_tid p GCFLAG4_MOVED sd))"
      using assms(10) young False i by (auto simp: visit_if_young_def stmgc_duplicate_old_def Let_def sd_def fresh_def)
    have "h_original (obj_at s2 fresh) = i" "\<not> flag4 s2 fresh GCFLAG4_PREBUILT_ORIGINAL"
      using i fr by (simp_all add: s2 heap4_simps flag_of_obj or_tid_def set_rev_def sd_def or_and_iff has_id_bits)
    then show ?thesis using \<open>q = fresh\<close> i by (simp add: known_id)
  qed
qed


text \<open>
  C27: The identity of an object survives its copies. When a public old object gets a private copy,
  \<open>stm_id4\<close>, \<open>stm_hash\<close> and the comparison of pointers do not tell the two apart,
  and give the identity that the object had before; this takes into account prebuilt objects, whose own
  header has a hash in the place of the original. When the identity of a young object was
  asked for, the object has the same identity after a minor collection has moved it.
\<close>

theorem identity_kept:
  assumes "heap4 s p \<noteq> None" and "p \<noteq> 0" and "\<forall>s'. heap4 s' p \<noteq> None \<longrightarrow> old_alloc X s' \<notin> {0, p}"
    and "\<forall>x. size4 X (x\<lparr>h_tid := h_tid x OR GCFLAG4_PUBLIC_TO_PRIVATE\<rparr>) = size4 X x"
  shows "(flag4 s p GCFLAG4_OLD \<and> \<not> stmgc_is_in_nursery s me p \<and> nursery_ok s me (size4 X (obj_at s p)) \<and>
      LocalizePublic X me p s = Ret L s' \<longrightarrow>
      stm_id4 X L s' = (fst (stm_id4 X p s), s') \<and> stm_id4 X p s' = (fst (stm_id4 X p s), s') \<and>
      stm_hash X L s' = stm_hash X p s' \<and> stm_direct_pointer_equal s' p L) \<and>
    (stmgc_is_in_nursery s me p \<and> \<not> flag4 s p (GCFLAG4_MOVED OR GCFLAG4_OLD OR GCFLAG4_PREBUILT_ORIGINAL) \<and>
      (flag4 s p GCFLAG4_HAS_ID \<longrightarrow> h_original (obj_at s p) \<noteq> 0) \<and> h_original (obj_at s p) \<noteq> p \<and>
      stm_id4 X p s = (i, s1) \<and> visit_if_young X me p s1 = (q, s2) \<longrightarrow> stm_id4 X q s2 = (i, s2))"
proof (intro conjI [of "_ \<longrightarrow> _"] impI)
  assume a: "flag4 s p GCFLAG4_OLD \<and> \<not> stmgc_is_in_nursery s me p \<and> nursery_ok s me (size4 X (obj_at s p)) \<and>
      LocalizePublic X me p s = Ret L s'"
  then have l: "h_original (obj_at s' p) = h_original (obj_at s p)"
    "flag4 s' p GCFLAG4_PREBUILT_ORIGINAL = flag4 s p GCFLAG4_PREBUILT_ORIGINAL" "flag4 s' p GCFLAG4_OLD"
    "\<not> flag4 s' L GCFLAG4_PREBUILT_ORIGINAL"
    "h_original (obj_at s' L) = (if h_original (obj_at s p) = 0 \<or> flag4 s p GCFLAG4_PREBUILT_ORIGINAL then p else h_original (obj_at s p))"
    using localized_originals [of s me X p L s'] assms by simp_all
  have "h_original (obj_at s' L) \<noteq> 0" using l(5) assms(2) by simp
  then show "stm_id4 X L s' = (fst (stm_id4 X p s), s') \<and> stm_id4 X p s' = (fst (stm_id4 X p s), s') \<and>
      stm_hash X L s' = stm_hash X p s' \<and> stm_direct_pointer_equal s' p L"
    using a l assms(2)
    by (auto simp: known_id stm_hash_def stm_direct_pointer_equal_def resolve_original_def Let_def)
next
  assume a: "stmgc_is_in_nursery s me p \<and> \<not> flag4 s p (GCFLAG4_MOVED OR GCFLAG4_OLD OR GCFLAG4_PREBUILT_ORIGINAL) \<and>
      (flag4 s p GCFLAG4_HAS_ID \<longrightarrow> h_original (obj_at s p) \<noteq> 0) \<and> h_original (obj_at s p) \<noteq> p \<and>
      stm_id4 X p s = (i, s1) \<and> visit_if_young X me p s1 = (q, s2)"
  then have "\<not> flag4 s p GCFLAG4_MOVED" "\<not> flag4 s p GCFLAG4_OLD" "\<not> flag4 s p GCFLAG4_PREBUILT_ORIGINAL"
    by (simp_all add: flag_of_obj bit.conj_disj_distrib or_eq_0_iff)
  then show "stm_id4 X q s2 = (i, s2)" using moved_id [of s me p X i s1 q s2] a assms(1,3) by blast
qed

lemma allocate_full:
  "nursery_nextlimit (thr s me) < nursery_current4 (thr s me) + of_nat sz \<Longrightarrow> nursery_nextlimit (thr s me) = nursery_end4 (thr s me) \<Longrightarrow>
   allocate_nursery_no_collect me sz s = (None, s)"
  by (simp add: allocate_nursery_no_collect_def Let_def upd_thr_def)

definition sample4_young :: stm4 where
  "sample4_young = upd_thr 0 (\<lambda>d. d\<lparr>nursery_base := 512, nursery_end4 := 1024\<rparr>) (set_obj 512 (cleared_obj 32 7) sample4)"

theorem identity_kept_witness:
  "\<exists>s'. LocalizePublic ext4_sample 1 64 sample4 = Ret 256 s' \<and> stm_id4 ext4_sample 256 s' = (64, s') \<and>
     (\<exists>s1 q s2. stm_id4 ext4_sample 512 sample4_young = (256, s1) \<and> visit_if_young ext4_sample 0 512 s1 = (q, s2) \<and>
       stm_id4 ext4_sample q s2 = (256, s2))"
proof -
  have sz: "size4 ext4_sample x = 24 + 8 * length (fields4 x)" for x by (simp add: ext4_sample_def)
  have al: "old_alloc ext4_sample s = (case find (\<lambda>p. heap4 s p = None) pool4 of Some p \<Rightarrow> p | None \<Rightarrow> 256)" for s
    by (simp add: ext4_sample_def)
  then have al2: "old_alloc ext4_sample s \<in> {256, 264}" for s by (simp add: pool4_def)
  have al3: "\<forall>s'. heap4 s' p \<noteq> None \<longrightarrow> old_alloc ext4_sample s' \<notin> {0, p}" if "p \<notin> {256, 264}" for p
  proof (intro allI impI)
    fix s'
    show "old_alloc ext4_sample s' \<notin> {0, p}" using al2 [of s'] that by auto
  qed
  have n: "nursery_ok sample4 1 32" "\<not> stmgc_is_in_nursery sample4 1 64"
    by (simp_all add: nursery_ok_def stmgc_is_in_nursery_def sample4_def thread4_def Let_def)
  define s1 where "s1 = or_tid 64 GCFLAG4_PUBLIC_TO_PRIVATE sample4"
  have h1: "heap4 s1 256 = None" "thr s1 = thr sample4" "fields4 (obj_at s1 64) = [5]"
    by (simp_all add: s1_def or_tid_def upd_obj_def set_obj_def obj_at_def) (simp_all add: sample4_def object4_def)
  have th: "nursery_current4 (thr sample4 (Suc 0)) = 0" "nursery_nextlimit (thr sample4 (Suc 0)) = 0" "nursery_end4 (thr sample4 (Suc 0)) = 0"
    "public_to_private (thr sample4 (Suc 0)) = g2l_empty"
    by (simp_all add: sample4_def thread4_def)
  have "allocate_nursery_no_collect 1 32 s1 = (None, s1)"
    by (rule allocate_full) (simp_all add: h1 th)
  then obtain s2 where d: "stmgc_duplicate ext4_sample 1 64 s1 = (256, s2)" "thr s2 = thr sample4"
    by (auto simp: stmgc_duplicate_def stmgc_duplicate_old_def Let_def sz h1 al pool4_def)
  obtain t where t: "g2l_insert insert_fuel g2l_empty 64 256 = Inr t"
    using g2m.insert_new_abs [OF g2l_empty_ok(1), of 64 256] g2l_empty_ok(2) by (auto simp: aligned8_def)
  have "\<exists>s'. LocalizePublic ext4_sample 1 64 sample4 = Ret 256 s'"
    using d t th by (simp add: LocalizePublic_def s1_def [symmetric] Let_def heap4_simps upd_obj_def)
  then obtain s' where L: "LocalizePublic ext4_sample 1 64 sample4 = Ret 256 s'" by blast
  have fl: "flag4 sample4 64 GCFLAG4_OLD" "h_original (obj_at sample4 64) = 0" "heap4 sample4 64 \<noteq> None"
    "fields4 (obj_at sample4 64) = [5]"
    by (simp_all add: flag4_def obj_at_def sample4_def object4_def GCFLAG4_OLD_def GCFLAG4_PUBLIC_def GCFLAG4_PUBLIC_TO_PRIVATE_def gcflag4_def)
  have one: "stm_id4 ext4_sample 256 s' = (64, s')"
    using identity_kept [of sample4 64 ext4_sample 1 256 s', OF _ _ al3] fl n L by (simp add: sz known_id)
  let ?y = sample4_young
  have y: "obj_at ?y 512 = cleared_obj 32 7" "heap4 ?y 512 \<noteq> None" "heap4 ?y 256 = None" "stmgc_is_in_nursery ?y 0 512"
    by (simp_all add: sample4_young_def heap4_simps stmgc_is_in_nursery_def) (simp add: sample4_def object4_def)
  have yf: "\<not> flag4 ?y 512 f" if "f AND 7 = 0" for f using that by (simp add: flag4_def y cleared_obj_def and.commute)
  have yf': "\<not> flag4 ?y 512 GCFLAG4_OLD" "\<not> flag4 ?y 512 (GCFLAG4_MOVED OR GCFLAG4_OLD OR GCFLAG4_PREBUILT_ORIGINAL)"
    "\<not> flag4 ?y 512 GCFLAG4_HAS_ID"
    by (rule yf, simp add: GCFLAG4_OLD_def GCFLAG4_MOVED_def GCFLAG4_PREBUILT_ORIGINAL_def GCFLAG4_HAS_ID_def gcflag4_def)+
  obtain ya where ya: "stm_id4 ext4_sample 512 ?y = (256, ya)"
    using yf' y by (simp add: stm_id4_def Let_def cleared_obj_def al pool4_def)
  obtain q yb where yb: "visit_if_young ext4_sample 0 512 ya = (q, yb)" by (metis surj_pair)
  have "stm_id4 ext4_sample q yb = (256, yb)"
    using identity_kept [of ?y 512 ext4_sample 0 256 undefined 256 ya q yb, OF _ _ al3] y yf' ya yb by (simp add: sz cleared_obj_def)
  then show ?thesis using L one ya yb by blast
qed

end
