(* ===== verification/Spec2Isabelle.thy ===== *)
theory Spec2Isabelle
  imports Prebuilt Hashmap Sampleheap C8theorems Gilalloc Mixed Forking C4read C4ids
begin

text \<open>
  A verification of stmgc-c7, the software transactional memory library with a garbage
  collector in \<open>c7/\<close> (\<open>stmgc.h\<close> and \<open>stm/*.c\<close>), of its successor in \<open>c8/\<close>, of
  the variants \<open>gil-c7/\<close> and \<open>htm-c7/\<close>, and of an earlier design, \<open>c4/\<close>.

  The program. Threads run transactions in up to 4 segments. A segment is a view of one file of
  pages: by default a page is mapped to the shared copy (segment 0), and a segment that writes to
  an old object first gets private copies of its pages. Objects are addressed by their offset,
  which is the same in all segments. New objects are made in a segment's nursery; a minor
  collection moves the survivors to old pages; a major collection, with all threads stopped,
  marks and sweeps the old ones. A transaction records the objects that it reads (a version byte
  per 16 bytes) and locks the ones that it writes; at commit it stops the others, aborts those
  that read what it wrote, and copies its objects to everybody else.

  How the code is modelled. One record \<open>stm\<close> holds the global variables and the memory;
  \<open>mem\<close> has one copy of every page per segment, \<open>remap\<close> says to which copy a page of a
  segment is mapped, \<open>vread\<close> reads through it. An operation takes the user's callbacks
  \<open>X :: ext\<close>, the number \<open>me\<close> of the current segment (the code's \<open>%gs\<close>) and the state,
  and has an outcome: \<open>Ret\<close>, \<open>Aborted\<close> (the longjmp of an aborted transaction), \<open>Fatal\<close>
  (\<open>stm_fatalerror\<close>) or \<open>Hang\<close> (out of fuel, for the loops that wait for other threads or
  for an allocation). A section under a lock is one atomic step; waiting on a condition variable
  applies \<open>other_threads X\<close>, what the other threads do meanwhile. Callbacks, light
  finalizers, timing events and wake-ups are entries of the log \<open>events\<close>. The theories use
  HOL lists for \<open>struct list_s\<close>.

  The theories, in the order of the code:
  \<^item> \<open>Prelude\<close>: outcomes, the two list loops, little-endian loads and stores.
  \<^item> \<open>Lists\<close> (\<open>list.c\<close>, \<open>list.h\<close>): growable arrays, with every access checked against the
    allocated block; the locale \<open>word_stack\<close> is what the other theories rely on.
  \<^item> \<open>Tree\<close> (\<open>list.c\<close>): the hash tree of addresses, with its memory limit and rebuilding;
    insertion, deletion, lookup and iteration are those of a map (locale \<open>addr_map\<close>).
  \<^item> \<open>Rewind\<close> (\<open>rewind_setjmp.c\<close>): saving and restoring the C stack and the shadow stack.
  \<^item> \<open>Pagectl\<close>, \<open>Largemalloc\<close>, \<open>Gcalloc\<close> (\<open>pages.c\<close>, \<open>largemalloc.c\<close>, \<open>gcpage.c\<close>): memory
    accounting and the allocator of old objects.
  \<^item> \<open>State\<close>, \<open>Pages\<close> (\<open>core.h\<close>, \<open>pages.c\<close>): the state; private and shared pages.
  \<^item> \<open>Cards\<close>, \<open>Marker\<close>, \<open>Extra\<close>, \<open>Barrier\<close>, \<open>Syncobj\<close>, \<open>Abort\<close>, \<open>Commit\<close> (\<open>core.c\<close>,
    \<open>marker.c\<close>, \<open>extra.c\<close>): barriers, publishing, abort, start and commit of transactions.
  \<^item> \<open>Sync\<close>, \<open>Contention\<close> (\<open>sync.c\<close>, \<open>contention.c\<close>): segments, safe points, contention.
  \<^item> \<open>Nursery\<close>, \<open>Minor\<close>, \<open>Mark\<close>, \<open>Majorgc\<close>, \<open>Finalizer\<close> (\<open>nursery.c\<close>, \<open>gcpage.c\<close>,
    \<open>weakref.c\<close>, \<open>finalizer.c\<close>): the two collectors and the finalizers.
  \<^item> \<open>Setup\<close>, \<open>Prebuilt\<close>, \<open>Hashtable\<close> (\<open>setup.c\<close>, \<open>prebuilt.c\<close>, \<open>hashtable.c\<close>).
  \<^item> \<open>Publish\<close>, \<open>Undo\<close>, \<open>Conflict\<close>, \<open>Txn\<close>: the facts about commit, abort, conflict
    detection and the start of transactions.
  \<^item> \<open>Isolation\<close>, \<open>Refine\<close>: the invariant \<open>isolated\<close> of the old objects, and the refinement of
    an abstract heap by every run of barriers, stores, commits and aborts.
  \<^item> \<open>Bins\<close>, \<open>Arena\<close>, \<open>Sweep\<close>: the free chunks in their bins; the arena as a row of chunks, and
    what allocation, freeing, sweeping and resizing do to the row.
  \<^item> \<open>Threads\<close>, \<open>Marking\<close>, \<open>Collecting\<close>: the ring of thread-locals; the mark phase computes
    reachability; the sweep frees what is not marked.
  \<^item> \<open>Probing\<close>, \<open>Hashmap\<close>: the probe sequence has full period; a hashtable is a map.
  \<^item> \<open>Fork\<close>, \<open>Forking\<close> (\<open>forksupport.c\<close>): what happens around \<open>fork()\<close>; the child has the
    memory of the parent and one thread.
  \<^item> \<open>Sample\<close>, \<open>Sampleheap\<close>: a program with two objects, on which the theorems are instantiated.
  \<^item> \<open>Mixed\<close>: what is lost when the card barrier and the full barrier are used on one object,
    which is why \<open>committable\<close> asks that what was changed is in marked cards.

  \<^item> \<open>C8state\<close>, \<open>C8pages\<close>, \<open>C8sync\<close>, \<open>C8nursery\<close>, \<open>C8core\<close>, \<open>C8setup\<close> (\<open>c8/stm/*.c\<close>): the
    second library. Names that clash with those of \<open>c7\<close> end in \<open>8\<close>.
  \<^item> \<open>C8trees\<close>, \<open>C8coherent\<close>, \<open>C8replay\<close>, \<open>C8validate\<close>, \<open>C8log\<close>, \<open>C8write\<close>, \<open>C8theorems\<close>: the
    commit log as a protocol, the heap invariant \<open>coherent8\<close>, and that replaying, validating,
    committing, aborting and the write barrier keep it.

  \<^item> \<open>Gil\<close> (\<open>gil-c7/stmgc.c\<close>, \<open>gil-c7/stmgc.h\<close>), \<open>Htm\<close> (\<open>htm-c7/stmgc.c\<close>, \<open>htm-c7/htm.h\<close>): the
    two libraries with the interface of \<open>c7\<close> where one lock, or the processor's transactions,
    isolate the threads. They have the same collector, with another allocator and another size
    of the nursery, which are parameters. Names that clash with the others end in \<open>9\<close>.
  \<^item> \<open>Gilcopy\<close>, \<open>Gilheap\<close>, \<open>Gilcollect\<close>, \<open>Gilalloc\<close>: the copying collector under the contract of
    the locale \<open>allocator\<close>, which \<open>Htm\<close> interprets; the heap invariant \<open>heap_ok9\<close>; that exactly
    the reachable objects are copied; allocation; and that starting a transaction ends.

  The commit log of \<open>c8\<close>. A transaction that writes to an old object keeps a backup of it, and
  its commit attaches the list of the objects to a log. A segment that meets a new entry copies
  the objects from the segment that wrote them: the backup where there is one, else the object.
  \<open>version8\<close> is that copy; \<open>coherent8\<close> says that all segments that have replayed every entry
  about an object agree on its version. The code does not hold the mutex here, so in the model
  other threads run before each look at the end of the log and at each wait (\<open>interleave8\<close>,
  \<open>cond_wait8\<close>); the theorems hold for every behaviour of them that keeps \<open>coherent8\<close>, only adds
  entries, and leaves the segment alone (\<open>rely8\<close>). In that contract another
  thread attaches its entry and clears its write set as one step. In the code these are two steps,
  and \<open>stm_commit_transaction8\<close> lets the others run in between; the theorem about a commit assumes
  of this gap that nobody replays the new entry there (\<open>gap8\<close>), and \<open>early_replay_loses_update\<close>
  shows what happens when somebody does.

  \<^item> \<open>C4lists\<close> (\<open>c4/lists.c\<close>, \<open>c4/lists.h\<close>): the containers of the earlier design; \<open>C4maps\<close>: its
    tree is the one of \<open>c7\<close> with another hash, and interprets the locale \<open>addr_map\<close> again.
  \<^item> \<open>C4et\<close> (\<open>c4/et.c\<close>, \<open>c4/et.h\<close>), \<open>C4barrier\<close> (\<open>c4/et.c\<close>, \<open>c4/steal.c\<close>, \<open>c4/stmgc.h\<close>): its
    transactions and barriers. Names that clash with the others end in \<open>4\<close>, flags begin with
    \<open>GCFLAG4\<close>.
  \<^item> \<open>C4nursery\<close>, \<open>C4minor\<close> (\<open>c4/nursery.c\<close>, \<open>c4/weakref.c\<close>), \<open>C4pages\<close>, \<open>C4major\<close> (\<open>c4/gcpage.c\<close>,
    \<open>c4/weakref.c\<close>, \<open>c4/stmsync.c\<close>): its collectors. \<open>C4extra\<close> (\<open>c4/extra.c\<close>, \<open>c4/stmsync.c\<close>):
    identities, integer addresses, callbacks, the program's transactions, threads.
  \<^item> \<open>C4commit\<close>, \<open>C4theorems\<close>, \<open>C4read\<close>, \<open>C4ids\<close>: that commits, aborts, locks, reads and identities
    do what they promise, on a sample heap as well.

  The objects of \<open>c4\<close>. There are no segments: an object has a revision, and a newer version
  is another object to which the older one points. A commit locks the public objects that the
  transaction modified by putting its own number into their revisions, advances the global
  time, and links each of them, through a stub, to its private copy. A transaction notices by
  validating its reads, which must not have become outdated. The identity of an object is the
  address of its original, its first old copy; a major collection copies the newest public
  version back over the original, so that the others can be freed. In the model a
  compare-and-swap succeeds, other threads run (\<open>others4\<close>) where the code spins, waits for the
  inevitable transaction or for the read-write lock, and a section under a \<open>collection_lock\<close> is one
  step. The place of a new old object is the parameter \<open>old_alloc\<close>; \<open>C4pages\<close> models the allocator
  behind it.

  Fuel. Loops over data recurse on it. A loop that waits has as fuel the number of times that it
  may be woken up; theorems about its result hold for every fuel, and where the code has to
  return, the theorem says so (\<open>\<exists>s'. ... = Ret () s'\<close>). \<open>insert_fuel\<close> is enough for every
  well-formed tree; \<open>probe_fuel\<close> is enough for every table with a free slot.

  Not modelled: \<open>bag.c\<close>, which does not compile; \<open>prof.c\<close> and \<open>fprintcolor.c\<close>, which
  are about output; the accessors for tests in
  \<open>misc.c\<close>; the assembly of \<open>atomic.h\<close>; the mapping of the read markers of the nursery to one
  page. Weak memory is not modelled: the races that the code resolves with a compare-and-swap
  are interleavings of atomic steps. Of \<open>c4\<close>, \<open>dbgmem.c\<close>, the
  summary of the longest abort in \<open>extra.c\<close>, \<open>stm_invalidate_jmp_buf\<close> and the assertions are
  left out. \<open>c3\<close> is an unfinished design of which only
  the collectors are in the repository, and \<open>duhton\<close> is a client. The statistics that \<open>htm-c7\<close> prints are left out.

  Assertions. Those on which a result depends are outcomes \<open>Fatal\<close> of the model: that the others
  are stopped when \<open>synchronize_all_threads\<close> returns early, that an abort in \<open>c7\<close> has put the
  shadow stack back to where the transaction found it, the sizes of allocations and the flags of
  the objects that the collector of \<open>gil-c7\<close> traces, and others where they appear. Assertions about the mutex,
  about the debugging of safe points, and those that repeat what the invariants say are left out:
  in \<open>Gil\<close>, that a young weakref is in the nursery, its copy is not, and its referent is not NULL
  (\<open>weakrefs9\<close>), and in \<open>c8\<close> the one about the shadow stack. Counters of events
  (\<open>global_start_time\<close> of \<open>c7\<close>, which has 64 bits) are natural numbers. \<open>G2L_FIND\<close> shifts the key as
  an unsigned word, which is the same for addresses below \<open>2 ^ 63\<close>.
\<close>

section \<open>Isolation of transactions\<close>

text \<open>
  C1: The implementation refines the abstract machine. In every run of the read and write
  barriers, the stores behind them, commits and aborts of all segments in any order, each step
  is a step of a heap with one shared copy, a view for every segment, and owners of objects;
  pages, mappings, write locks and copies never show. The invariant \<open>isolated\<close>, by which
  a segment sees the last committed version of what it does not own, is kept.
\<close>

theorem old_objects_refine:
  assumes "run X objs s tr s'" and "cb_ok X" and "isolated X objs s" and "sized X objs sz s"
  shows "isolated X objs s' \<and> sized X objs sz s' \<and> spec_run sz (heap_abs sz objs s) tr (heap_abs sz objs s')"
  by (rule run_refines [OF assms])

theorem old_objects_refine_witness:
  "\<exists>s'. run sample_ext sample_objs sample [(1, Acquire OBJ1), (1, Write OBJ1), (1, Rearm), (1, Commit)] s' \<and>
     vread s' 2 (OBJ1 + 8) = 7 \<and> isolated sample_ext sample_objs s' \<and>
     spec_run (\<lambda>_. 16) (heap_abs (\<lambda>_. 16) sample_objs sample)
       [(1, Acquire OBJ1), (1, Write OBJ1), (1, Rearm), (1, Commit)] (heap_abs (\<lambda>_. 16) sample_objs s')"
  using sample_run old_objects_refine [OF _ sample_cb_ok sample_isolated sample_sized] by blast

text \<open>
  C2: A commit publishes. After the copying at commit, which never fails on such objects, every
  segment and the shared copy have the committing segment's bytes of all objects that it
  modified; no other byte changes, in any segment; no object is locked by it any more.
\<close>

theorem commit_publishes:
  assumes "isolated X objs s" and "me \<in> {1..4}" and "cb_ok X" and "committable X s me"
  shows "\<exists>s'. push_modified_to_other_segments X me s = Ret () s' \<and>
    (\<forall>h \<le> 4. \<forall>x. vread s' h x =
       (if x \<in> (\<Union>a \<in> set (mods s me). extent X s 0 a) then vread s me x else vread s h x)) \<and>
    (\<forall>a \<in> set (mods s me). write_locks s' (get_write_lock_idx a) \<noteq> of_nat me) \<and> mods s' me = [] \<and>
    (\<forall>g. g \<noteq> me \<longrightarrow> mods s' g = mods s g)"
proof -
  obtain s' where s': "push_modified_to_other_segments X me s = Ret () s'" "isolated X objs s'" "mods s' me = []"
    "\<forall>g. g \<noteq> me \<longrightarrow> mods s' g = mods s g"
    "\<forall>h \<le> 4. \<forall>x. vread s' h x = (if x \<in> (\<Union>a \<in> set (mods s me). extent X s 0 a) then vread s me x else vread s h x)"
    using commit_ok [OF assms] by blast
  moreover have "set (mods s me) \<subseteq> objs" by (rule owned_objs [OF assms(1,2)])
  moreover have "write_locks s' (get_write_lock_idx a) \<noteq> of_nat me" if "a \<in> objs" for a
    using s'(2,3) assms(2) that unfolding isolated_def locks_ok_def by fastforce
  ultimately show ?thesis by blast
qed

theorem commit_publishes_witness:
  "\<exists>s'. push_modified_to_other_segments sample_ext 1 sample_ready = Ret () s' \<and>
     vread sample_ready 2 (OBJ1 + 8) = 0 \<and> vread s' 2 (OBJ1 + 8) = 7 \<and> vread s' 0 (OBJ1 + 8) = 7"
proof -
  have "vread sample_ready 2 (OBJ1 + 8) = 0"
  proof -
    have "vread (vfill 1 (OBJ1 + 8) 8 (\<lambda>_. 7) sample_owned) 2 (OBJ1 + 8) = 0"
      using own_vfill [OF sample_owned(1), of 1 OBJ1 "OBJ1 + 8" 8 "\<lambda>_. 7" 2 "OBJ1 + 8"] sample_owned(2)
        sample_owned(4) [of 2 "OBJ1 + 8"] by (simp add: extent_def sample_vread OBJ1_def OBJ2_def)
    then show ?thesis by (simp add: sample_ready_def stm_flags_or_def vread_set_stm_flags)
  qed
  then show ?thesis
    using commit_publishes [OF sample_ready(1) _ sample_cb_ok sample_ready(3)] sample_ready(2,4)
    by (auto simp: extent_def)
qed

text \<open>
  C4: The write barrier on an object that no other segment has locked always returns. The
  segment then has the object, its flag is off so that the barrier is not taken again, no
  segment's view of any object changed, and no other segment's list of objects changed.
\<close>

theorem barrier_claims:
  assumes "isolated X objs s" and "me \<in> {1..4}" and "obj \<in> objs" and "cb_ok X"
    and "write_locks s (get_write_lock_idx obj) \<in> {0, of_nat me}"
    and "\<not> IS_OVERFLOW_OBJ s me (stm_flags s me obj)"
    and "has_flag (stm_flags s me obj) GCFLAG_WRITE_BARRIER"
  shows "\<exists>s'. stm_write (Suc n) X me obj s = Ret () s' \<and> isolated X objs s' \<and>
    write_locks s' (get_write_lock_idx obj) = of_nat me \<and> set (mods s' me) = insert obj (set (mods s me)) \<and>
    (\<forall>g. g \<noteq> me \<longrightarrow> mods s' g = mods s g) \<and> \<not> has_flag (stm_flags s' me obj) GCFLAG_WRITE_BARRIER \<and>
    (\<forall>p \<in> object_pages X s' obj. is_private_page s' me p) \<and>
    (\<forall>h \<le> 4. \<forall>x. h \<noteq> me \<or> x \<notin> {obj..<obj + 4} \<longrightarrow> vread s' h x = vread s h x)"
proof -
  obtain s' where s': "stm_write (Suc n) X me obj s = Ret () s'" "isolated X objs s'" "obj \<in> set (mods s' me)"
    "\<forall>g. g \<noteq> me \<longrightarrow> mods s' g = mods s g" "set (mods s' me) = insert obj (set (mods s me))"
    "\<not> has_flag (stm_flags s' me obj) GCFLAG_WRITE_BARRIER"
    "\<forall>h \<le> 4. \<forall>x. h \<noteq> me \<or> x \<notin> {obj..<obj + 4} \<longrightarrow> vread s' h x = vread s h x"
    using barrier_ok [OF assms] by blast
  have "write_locks s' (get_write_lock_idx obj) = of_nat me"
    using s'(2,3) assms(2,3) unfolding isolated_def locks_ok_def by blast
  moreover have "\<forall>p \<in> object_pages X s' obj. is_private_page s' me p"
    using s'(2,3) assms(2) unfolding isolated_def own_ok_def by blast
  ultimately show ?thesis using s' by blast
qed

theorem barrier_claims_witness:
  "\<exists>s'. stm_write 1 sample_ext 1 OBJ1 sample = Ret () s' \<and> write_locks s' (get_write_lock_idx OBJ1) = 1 \<and>
     set (mods s' 1) = {OBJ1}"
  using barrier_claims [OF sample_isolated, of 1 OBJ1 0] sample_cb_ok sample_overflow sample_has_flag sample_mods [of 1]
  by (auto simp: sample_frame)

text \<open>
  C3: An abort restores. Suppose the transaction is not inevitable, the pages are mapped to copies of
  their own segment or to the shared ones, the shared copies of the objects
  it modified are beyond the nursery, without the flag of marked cards and apart from the flags of
  its overflow objects (\<open>abortable\<close>), and the thread did the \<open>setjmp\<close> of the start of the transaction with
  the shadow stack \<open>ss0\<close>, whatever frames it entered or left since and whatever it did to the newer
  part of its stacks (\<open>saved_at_start\<close>). Then the abort returns, its assertion included; every object the segment had
  modified reads again like the shared copy and is unlocked; the nursery is empty; the shadow stack
  is \<open>ss0\<close> and the thread-local object that of the start of the transaction; the private data of the
  other segments and everything that they see beyond the nursery, except for the flags of the
  overflow objects of the aborted transaction, is untouched.
\<close>

theorem abort_undoes:
  assumes "cb_ok X" and "g \<in> {1..4}" and "transaction_state (segs s g) = TS_REGULAR" and "abortable X s g"
    and "saved_at_start s g ss0"
  shows "\<exists>s'. abort_data_structures_from_segment_num X me g s = Ret () s' \<and>
    (\<forall>a \<in> set (modified_old_objects (segs s g)).
       (\<forall>x \<in> extent X s 0 a. vread s' g x = vread s 0 x) \<and> write_locks s' (get_write_lock_idx a) = 0) \<and>
    (\<forall>h x. h \<noteq> g \<longrightarrow> NURSERY_END \<le> x \<longrightarrow> x \<notin> overflow_flags s g \<longrightarrow> vread s' h x = vread s h x) \<and>
    (\<forall>h. h \<noteq> g \<longrightarrow> segs s' h = segs s h) \<and>
    modified_old_objects (segs s' g) = [] \<and> MINOR_NOTHING_TO_DO (segs s' g) \<and>
    (\<forall>t. running_thread (segs s g) = Some t \<longrightarrow>
       shadowstack (tls s' t) = ss0 \<and>
       thread_local_obj (tls s' t) = threadlocal_at_start_of_transaction (segs s g))"
  by (rule abort_restores [OF assms])

theorem abort_undoes_witness:
  "\<exists>s'. abort_data_structures_from_segment_num sample_ext 2 1 sample_ready = Ret () s' \<and>
     vread sample_ready 1 (OBJ1 + 8) = 7 \<and> vread s' 1 (OBJ1 + 8) = vread sample_ready 0 (OBJ1 + 8) \<and>
     shadowstack (tls s' 0) = [SS_STOPPER]"
proof -
  have ts: "transaction_state (segs sample_ready 1) = TS_REGULAR"
    by (simp add: sample_ready_seg sample_seg started_running)
  have "abortable sample_ext sample_ready 1"
    unfolding abortable_def
  proof (intro conjI ballI allI impI)
    show "remap_dom sample_ready" using sample_ready(1) by (simp add: isolated_def maps_ok_def)
    fix a
    assume "a \<in> set (mods sample_ready 1)"
    then have a: "a = OBJ1" using sample_ready(2) by simp
    show "\<not> has_flag (stm_flags sample_ready 0 a) GCFLAG_CARDS_SET"
      using headsD(3) [of sample_ext sample_objs sample_ready OBJ1 0] sample_ready(1) by (simp add: isolated_def a)
    show "NURSERY_END \<le> a" by (simp add: a OBJ1_def page_consts)
  qed (simp add: sample_ready_seg sample_seg started_running started_seg zero_pseg_def)
  moreover have run: "running_thread (segs sample_ready 1) = Some 0"
    by (simp add: sample_ready_seg sample_seg started_running)
  moreover have "saved_at_start sample_ready 1 [SS_STOPPER]"
    by (rule sample_setjmp_saved [OF run]) (simp_all add: sample_ready_tls sample_ready_seg sample_seg started_running)
  ultimately obtain s' where s': "abort_data_structures_from_segment_num sample_ext 2 1 sample_ready = Ret () s'"
    "\<forall>x \<in> extent sample_ext sample_ready 0 OBJ1. vread s' 1 x = vread sample_ready 0 x"
    "shadowstack (tls s' 0) = [SS_STOPPER]"
    using abort_undoes [OF sample_cb_ok _ ts, of "[SS_STOPPER]" 2] sample_ready(2) by force
  then show ?thesis using sample_ready(4) by (auto simp: extent_def)
qed

section \<open>Conflicts, safe points and segments\<close>

text \<open>
  C7: Conflict detection is safe. When \<open>detect_write_read_conflicts\<close> ends without asking for a
  restart, every other segment runs no transaction, is being aborted, or has read none of the
  objects that the committing transaction modified.
\<close>

theorem detection_is_safe:
  assumes "detect_write_read_conflicts X me s = Ret False s'" and "i \<in> {1..4}" and "i \<noteq> me"
    and "transaction_state (segs s' i) \<noteq> TS_NONE" and "\<not> is_aborting_now s' i"
    and "obj \<in> set (modified_old_objects (segs s' me))"
  shows "rm s' i (obj div 16) \<noteq> transaction_read_version (segs s' i)"
  using detect_conflicts_False [OF assms(1,2)] assms(3-6) by (auto simp: no_conflict_def was_read_remote_def)

text \<open>The sample with a transaction in segment 2 that has read nothing of segment 1's object.\<close>

definition sample_two :: stm where
  "sample_two = upd_seg 2 (\<lambda>p. p\<lparr>transaction_state := TS_REGULAR, transaction_read_version := 1\<rparr>) sample_ready"

lemma sample_two_seg: "segs sample_two g = (if g = 2 then
    (segs sample 2)\<lparr>transaction_state := TS_REGULAR, transaction_read_version := 1\<rparr> else segs sample_ready g)"
  by (simp add: sample_two_def segs_upd_seg sample_ready_seg)

lemma sample_two_rm: "rm sample_two g = (if g = 1 then (rm sample 1)(OBJ1 div 16 := 1) else rm sample g)"
  by (simp add: sample_two_def sample_ready_def stm_flags_or_def sample_owned_eq write_slowpath_owned_def Let_def
    claim_object_def privatize_object_pages_frame timing_record_write_def stm_flags_and_not_def sample_seg
    started_running started_seg zero_pseg_def stm_read_def)

lemma sample_two_detect: "detect_write_read_conflicts sample_ext 1 sample_two = Ret False sample_two"
  by (simp add: detect_write_read_conflicts_def segments_eq sample_two_seg sample_ready_seg sample_seg started_running
    started_seg zero_pseg_def was_read_remote_def sample_two_rm sample_frame is_aborting_now_def page_consts)

theorem detection_is_safe_witness:
  "detect_write_read_conflicts sample_ext 1 sample_two = Ret False sample_two \<and>
   rm sample_two 2 (OBJ1 div 16) \<noteq> transaction_read_version (segs sample_two 2)"
  using detection_is_safe [OF sample_two_detect, of 2 OBJ1] sample_two_detect
  by (simp add: sample_two_seg sample_ready_seg sample_seg started_running started_seg zero_pseg_def is_aborting_now_def
    is_abort_def nse_consts page_consts)

text \<open>
  C8: A transaction commits only in a state where its segment has no local finalizer left to run,
  all the other threads are stopped (none is \<open>SP_RUNNING\<close>), and no other transaction conflicts with it.
\<close>

theorem commit_is_validated:
  assumes "commit_validate n fuel X me restart_all s = Ret u s'"
  shows "\<not> any_local_finalizers me s' \<and> others_stopped me s' \<and> (\<forall>i \<in> {1..4}. no_conflict me s' i)"
  using assms by (rule commit_validate_Ret)

lemma sample_validated: "\<exists>s'. commit_validate 1 1 sample_ext 1 False sample = Ret () s'"
proof -
  have "nursery_end (segs sample 1) = NURSERY_END" by (simp add: sample_seg started_running started_seg)
  moreover have "count_other_threads_sp_running 1 (signal_everybody_to_pause_running sample) = 0"
    by (simp add: count_zero signal_everybody_segs) (auto simp: sample_seg started_running started_seg zero_pseg_def)
  ultimately have sy: "synchronize_all_threads (Suc 0) sample_ext (Suc 0) STOP_OTHERS_UNTIL_MUTEX_UNLOCK sample =
    Ret () (remove_requests_for_safe_point (signal_everybody_to_pause_running sample))"
    by (simp add: synchronize_all_threads_def enter_safe_point_if_requested_def sample_frame)
  show ?thesis
    by (simp add: sy any_local_finalizers_def detect_write_read_conflicts_def segments_eq remove_requests_segs
      signal_everybody_segs sample_seg started_running started_seg zero_pseg_def)
qed

theorem commit_is_validated_witness:
  "\<exists>s'. commit_validate 1 1 sample_ext 1 False sample = Ret () s' \<and> others_stopped 1 s' \<and> no_conflict 1 s' 2"
  using sample_validated commit_is_validated [of 1 1 sample_ext 1 False sample] by force

text \<open>
  C21: A new read version is fresh. After the start of a transaction no object counts as read by
  it, also when the 8-bit version wraps around and the read markers are cleared instead; and
  the markers stay below the version, so that the same holds for the next one.
\<close>

theorem new_version_is_fresh:
  assumes "markers_ok s me" and "FIRST_OBJECT_PAGE * 4096 \<le> obj" and "obj < NB_PAGES * 4096"
  shows "\<not> was_read_remote (next_read_version me s) me obj
      (transaction_read_version (segs (next_read_version me s) me)) \<and> markers_ok (next_read_version me s) me"
  using fresh_version [OF assms] by blast

theorem new_version_is_fresh_witness:
  "\<not> was_read_remote (next_read_version 1 started) 1 OBJ1 1 \<and> transaction_read_version (segs started 1) = 0xff"
proof -
  have "markers_ok started 1" by (simp add: markers_ok_def started_frame)
  from new_version_is_fresh [OF this, of OBJ1] show ?thesis
    by (simp add: next_read_version_def started_seg zero_pseg_def Let_def reset_transaction_read_version_def
      OBJ1_def page_consts)
qed

text \<open>
  C22: When \<open>synchronize_all_threads\<close> returns, no other thread is running, whatever was requested;
  with the stronger request this transaction has also become the globally unique one.
\<close>

theorem synchronize_stops_others:
  assumes "synchronize_all_threads fuel X me ty s = Ret u s'"
  shows "(\<forall>i \<in> {1..4}. i \<noteq> me \<longrightarrow> safe_point (segs s' i) \<noteq> SP_RUNNING) \<and>
    (ty = STOP_OTHERS_AND_BECOME_GLOBALLY_UNIQUE \<longrightarrow> globally_unique_transaction s')"
  using synchronize_Ret [OF assms] by (auto simp: count_zero)

lemma sample_synchronize:
  "\<exists>s'. synchronize_all_threads 1 sample_ext 1 STOP_OTHERS_AND_BECOME_GLOBALLY_UNIQUE sample = Ret () s'"
proof -
  have "nursery_end (segs sample 1) = NURSERY_END" by (simp add: sample_seg started_running started_seg)
  moreover have "count_other_threads_sp_running 1 (signal_everybody_to_pause_running sample) = 0"
    by (simp add: count_zero signal_everybody_segs) (auto simp: sample_seg started_running started_seg zero_pseg_def)
  ultimately show ?thesis
    by (simp add: synchronize_all_threads_def enter_safe_point_if_requested_def sample_frame signal_everybody_segs Let_def)
qed

theorem synchronize_stops_others_witness:
  "\<exists>s'. synchronize_all_threads 1 sample_ext 1 STOP_OTHERS_AND_BECOME_GLOBALLY_UNIQUE sample = Ret () s' \<and>
     globally_unique_transaction s' \<and> safe_point (segs s' 2) \<noteq> SP_RUNNING"
proof -
  obtain s' where s': "synchronize_all_threads 1 sample_ext 1 STOP_OTHERS_AND_BECOME_GLOBALLY_UNIQUE sample = Ret () s'"
    using sample_synchronize by blast
  from synchronize_stops_others [OF this] s' show ?thesis by force
qed

text \<open>
  C23: At most one transaction is inevitable: when a regular transaction has become inevitable,
  no other one is, and its saved stack is gone so that it cannot be restarted.
\<close>

theorem inevitable_is_unique:
  assumes "become_inevitable fuel X me s = Ret u s'"
    and "enter_safe_point_if_requested fuel X me s = Ret u1 s1" and "transaction_state (segs s1 me) = TS_REGULAR"
  shows "transaction_state (segs s' me) = TS_INEVITABLE \<and>
    (\<forall>i \<in> {1..4}. i \<noteq> me \<longrightarrow> transaction_state (segs s' i) \<noteq> TS_INEVITABLE) \<and>
    (\<forall>t. running_thread (segs s' me) = Some t \<longrightarrow> stm_is_inevitable t s')"
  using become_inevitable_unique [OF assms] by blast

lemma sample_become: "\<exists>s'. become_inevitable 1 sample_ext 1 sample = Ret () s'"
  by (simp add: become_inevitable_def enter_safe_point_if_requested_def sample_seg started_running started_seg Let_def
    timing_fetch_inev_def first_inevitable_def segments_eq zero_pseg_def)

theorem inevitable_is_unique_witness:
  "\<exists>s'. become_inevitable 1 sample_ext 1 sample = Ret () s' \<and> transaction_state (segs s' 1) = TS_INEVITABLE"
proof -
  obtain s' where s': "become_inevitable 1 sample_ext 1 sample = Ret () s'" using sample_become by blast
  have e: "enter_safe_point_if_requested 1 sample_ext 1 sample = Ret () sample"
    by (simp add: enter_safe_point_if_requested_def sample_seg started_running started_seg)
  have "transaction_state (segs sample 1) = TS_REGULAR" by (simp add: sample_seg started_running)
  from inevitable_is_unique [OF s' e this] s' show ?thesis by blast
qed

text \<open>
  Segments are owned by one thread each. A thread without a segment that acquires one gets a
  free one, the ownership of all segments stays consistent, and releasing it gives it back.
\<close>

theorem acquire_release_segment:
  assumes "owned s" and "idle t s" and "acquire_thread_segment X t s = (Some me, s')"
  shows "owned s' \<and> me \<in> {1..4} \<and> in_use1 s (me - 1) = 0 \<and>
    (\<forall>i \<in> {1..4}. running_thread (segs s' i) = Some t \<longleftrightarrow> i = me) \<and>
    owned (release_thread_segment me t s') \<and> idle t (release_thread_segment me t s') \<and>
    in_use1 (release_thread_segment me t s') (me - 1) = 0"
proof -
  note a = acquire_Some [OF assms]
  note r = release_owned [OF a(1,2,4)]
  have "i = me" if "i \<in> {1..4}" "running_thread (segs s' i) = Some t" for i
    by (rule owned_unique [OF a(1) that(1) a(2) that(2) a(4)])
  then show ?thesis using a r by blast
qed

theorem acquire_release_segment_witness:
  "\<exists>s'. acquire_thread_segment sample_ext 1 sample = (Some 2, s') \<and> owned s' \<and> in_use1 sample 0 = 1"
proof -
  have o: "owned sample"
  proof -
    have "i = 1 \<or> i = 2 \<or> i = 3 \<or> i = 4" if "i \<in> {1..4}" for i :: nat using that by auto
    then show ?thesis
      unfolding owned_def by (fastforce simp: sample_frame sample_seg started_running started_seg zero_pseg_def sample_tl_def)
  qed
  have i: "idle 1 sample"
    by (auto simp: idle_def sample_frame sample_seg started_running started_seg zero_pseg_def sample_tl_def)
  obtain s' where s': "acquire_thread_segment sample_ext 1 sample = (Some 2, s')"
    by (simp add: acquire_thread_segment_def sample_frame sample_tl_def Let_def NB_SEGMENTS_Suc)
  then show ?thesis using acquire_release_segment [OF o i s'] by (simp add: sample_frame)
qed

text \<open>The start times tell all the running transactions apart.\<close>

definition times_ok :: "stm \<Rightarrow> bool" where
  "times_ok s \<longleftrightarrow> (\<forall>i \<in> {1..4}. transaction_state (segs s i) \<noteq> TS_NONE \<longrightarrow>
     unique_start_time (segs s i) < global_start_time s \<and>
     (\<forall>j \<in> {1..4}. transaction_state (segs s j) \<noteq> TS_NONE \<longrightarrow>
        unique_start_time (segs s j) = unique_start_time (segs s i) \<longrightarrow> j = i))"

text \<open>
  A new transaction is younger than all the running ones, and no two running transactions
  have the same start time.
\<close>

theorem start_times_unique:
  assumes "times_ok s" and "me \<in> {1..4}"
  shows "times_ok (begin_transaction X me t s) \<and>
    (\<forall>i \<in> {1..4}. i \<noteq> me \<longrightarrow> transaction_state (segs s i) \<noteq> TS_NONE \<longrightarrow>
       unique_start_time (segs s i) < unique_start_time (segs (begin_transaction X me t s) me))"
proof -
  let ?s = "begin_transaction X me t s"
  have g: "global_start_time ?s = global_start_time s + 1"
    by (simp add: begin_transaction_def Let_def timing_event_def)
  have sg: "segs ?s i = segs s i" if "i \<noteq> me" for i using that by (simp add: begin_transaction_def Let_def)
  have m: "unique_start_time (segs ?s me) = global_start_time s"
    by (simp add: begin_transaction_def Let_def timing_event_def)
  have old: "unique_start_time (segs s i) < global_start_time s"
    if "i \<in> {1..4}" "transaction_state (segs s i) \<noteq> TS_NONE" for i
    using assms(1) that unfolding times_ok_def by blast
  have "times_ok ?s"
    unfolding times_ok_def
  proof (intro ballI impI conjI)
    fix i
    assume i: "i \<in> {1..4}" "transaction_state (segs ?s i) \<noteq> TS_NONE"
    show "unique_start_time (segs ?s i) < global_start_time ?s"
      using old [of i] i sg [of i] g m by (cases "i = me") simp_all
    fix j
    assume j: "j \<in> {1..4}" "transaction_state (segs ?s j) \<noteq> TS_NONE"
      and eq: "unique_start_time (segs ?s j) = unique_start_time (segs ?s i)"
    show "j = i"
    proof (cases "i = me \<or> j = me")
      case True
      then show ?thesis using old [of i] old [of j] i j sg [of i] sg [of j] m eq by (cases "i = me"; cases "j = me") auto
    next
      case False
      then show ?thesis using assms(1) i j eq sg [of i] sg [of j] unfolding times_ok_def by metis
    qed
  qed
  then show ?thesis using m old by simp
qed

theorem start_times_unique_witness:
  "times_ok (begin_transaction sample_ext 2 1 sample)"
proof -
  have "global_start_time sample = 2"
    by (simp add: sample_def started_running)
  then have "times_ok sample"
    by (auto simp: times_ok_def sample_seg started_running started_seg zero_pseg_def split: if_splits)
  from start_times_unique [OF this, of 2] show ?thesis by simp
qed

text \<open>
  A contention has exactly one loser. Of two transactions of which neither is already being
  aborted and at most one is inevitable, one would abort the other whichever of the two meets
  the conflict first, and an inevitable one is never the one that goes.
\<close>

theorem contention_has_one_loser:
  assumes "times_ok s" and "i \<in> {1..4}" and "j \<in> {1..4}" and "i \<noteq> j"
    and "transaction_state (segs s i) \<noteq> TS_NONE" and "transaction_state (segs s j) \<noteq> TS_NONE"
    and "\<not> is_abort (nursery_end (segs s i))" and "\<not> is_abort (nursery_end (segs s j))"
    and "\<not> (transaction_state (segs s i) = TS_INEVITABLE \<and> transaction_state (segs s j) = TS_INEVITABLE)"
  shows "abort_other (contention_choice s i j) \<noteq> abort_other (contention_choice s j i) \<and>
    (transaction_state (segs s i) = TS_INEVITABLE \<longrightarrow> abort_other (contention_choice s i j))"
proof -
  have "unique_start_time (segs s i) \<noteq> unique_start_time (segs s j)"
    using assms(1-6) unfolding times_ok_def by metis
  then show ?thesis
    using assms(7-9) by (auto simp: contention_choice_def cm_pause_if_younger_def Let_def)
qed

theorem contention_has_one_loser_witness:
  "abort_other (contention_choice sample_two 1 2) \<noteq> abort_other (contention_choice sample_two 2 1)"
proof -
  have g: "global_start_time sample_two = 2"
    by (simp add: sample_two_def sample_ready_time)
  have "times_ok sample_two"
    by (auto simp: times_ok_def g sample_two_seg sample_ready_seg sample_seg started_running started_seg zero_pseg_def
      split: if_splits)
  from contention_has_one_loser [OF this, of 1 2] show ?thesis
    by (simp add: sample_two_seg sample_ready_seg sample_seg started_running started_seg zero_pseg_def is_abort_def
      nse_consts page_consts)
qed

section \<open>Pages and copies\<close>

text \<open>
  C25: Copying one object at commit, page by page or card by card, makes every segment agree
  with the committing one on all its bytes, and changes nothing else, as long as the changed
  bytes are in marked cards or no card is marked at all.
\<close>

theorem synchronize_agrees:
  assumes "me \<in> {1..4}" and "cb_ok X" and "obj_mapped X s me obj"
    and "\<not> has_flag (stm_flags s me obj) GCFLAG_SMALL_UNIFORM" and "\<not> has_flag (stm_flags s me obj) GCFLAG_CARDS_SET"
    and "\<forall>g \<le> 4. g \<noteq> me \<longrightarrow> (\<forall>x \<in> extent X s me obj. vread s g x = vread s 0 x)"
    and "changes_covered X s me obj ign"
  shows "\<exists>s'. synchronize_object_now X me obj ign s = Ret () s' \<and>
    (\<forall>g \<le> 4. \<forall>x. vread s' g x = (if x \<in> extent X s me obj then vread s me x else vread s g x))"
proof -
  obtain s' where s': "synchronize_object_now X me obj ign s = Ret () s'"
    "published s me {obj..<obj + obj_size X s me obj} s'"
    using synchronize_object_agree [OF assms(1-5) _ assms(7)] assms(6) by (auto simp: extent_def)
  then show ?thesis using publishedD [OF s'(2)] by (auto simp: extent_def)
qed

theorem synchronize_agrees_witness:
  "\<exists>s'. synchronize_object_now sample_ext 1 OBJ1 False sample_ready = Ret () s' \<and> vread s' 3 (OBJ1 + 8) = 7"
proof -
  have o: "OBJ1 \<in> sample_objs" by simp
  have hd: "heads_ok sample_ext sample_objs sample_ready" and lk: "locks_ok sample_objs sample_ready"
    using sample_ready(1) by (simp_all add: isolated_def)
  have m: "obj_mapped sample_ext sample_ready 1 OBJ1"
    using isolated_mapped [OF sample_ready(1) o] by (simp add: obj_mapped_def object_pages_def)
  have v: "\<forall>g \<le> 4. g \<noteq> 1 \<longrightarrow> (\<forall>x \<in> extent sample_ext sample_ready 1 OBJ1. vread sample_ready g x = vread sample_ready 0 x)"
  proof (intro allI impI ballI)
    fix g x :: nat
    assume g: "g \<le> 4" "g \<noteq> 1" and x: "x \<in> extent sample_ext sample_ready 1 OBJ1"
    show "vread sample_ready g x = vread sample_ready 0 x"
    proof (cases "g = 0")
      case False
      then have g1: "g \<in> {1..4}" using g by simp
      have "OBJ1 \<notin> set (mods sample_ready g)" using one_owner [OF lk g1, of 1 OBJ1] g(2) sample_ready(2) by auto
      then show ?thesis using sample_ready(1) g1 x unfolding isolated_def views_ok_def by (simp add: extent_def)
    qed simp
  qed
  have c: "changes_covered sample_ext sample_ready 1 OBJ1 False" by (simp add: changes_covered_def)
  obtain s' where "synchronize_object_now sample_ext 1 OBJ1 False sample_ready = Ret () s'"
    "\<forall>g \<le> 4. \<forall>x. vread s' g x = (if x \<in> extent sample_ext sample_ready 1 OBJ1 then vread sample_ready 1 x else vread sample_ready g x)"
    using synchronize_agrees [OF _ sample_cb_ok m headsD(2,3) [OF hd o] v c] by auto
  then show ?thesis using sample_ready(4) by (auto simp: extent_def)
qed

section \<open>Data structures\<close>

text \<open>
  C33: Inserting a new 8-aligned non-zero key into a tree, with its own growth and rebuilding,
  always succeeds, keeps the tree well-formed, and is the update of the map it stands for.
\<close>

theorem tree_insert_is_update:
  assumes "tree_inv t" and "aligned8 a" and "a \<noteq> 0" and "tree_map t a = None"
  shows "\<exists>t'. tree_insert insert_fuel (\<lambda>_. True) t a v = Inr t' \<and> tree_inv t' \<and>
    tree_map t' = (tree_map t)(a \<mapsto> v) \<and> tree_lookup t' a = Some v"
  using trm.insert_new_abs [of t a v] trm.look_abs assms by fastforce

theorem tree_insert_is_update_witness:
  "\<exists>t'. tree_insert insert_fuel (\<lambda>_. True) tree_create 8 5 = Inr t' \<and> tree_inv t' \<and>
    tree_map t' = (tree_map tree_create)(8 \<mapsto> 5) \<and> tree_lookup t' 8 = Some 5"
  by (rule tree_insert_is_update) (simp_all add: trm.inv_empty trm.abs_empty aligned8_def)

text \<open>
  The stack of the loop \<open>TREE_LOOP_FORWARD\<close>, \<open>TREE_DEPTH_MAX\<close> entries, never overflows,
  and the loop visits exactly the items that \<open>TREE_FIND\<close> finds.
\<close>

theorem tree_loop_visits_all:
  assumes "tree_inv t"
  shows "\<exists>its. tree_loop (toplevel t) [] = Some its \<and> distinct (map fst its) \<and>
    (\<forall>a v. a \<noteq> 0 \<longrightarrow> ((a, v) \<in> set its \<longleftrightarrow> tree_lookup t a = Some v))"
proof -
  have wf: "wf_tree t" using assms by (simp add: tree_inv_def)
  have "distinct (map fst (tree_items t))"
    using distinct_items wf unfolding tree_items_def wf_tree_def by blast
  then show ?thesis
    using tree_loop_items [OF wf] tree_map_Some [OF assms] tree_lookup_map [OF assms]
    by (intro exI [of _ "tree_items t"]) simp
qed

theorem tree_loop_visits_all_witness:
  "\<exists>its. tree_loop (toplevel tree_create) [] = Some its \<and> distinct (map fst its) \<and>
    (\<forall>a v. a \<noteq> 0 \<longrightarrow> ((a, v) \<in> set its \<longleftrightarrow> tree_lookup tree_create a = Some v))"
  by (rule tree_loop_visits_all) (rule trm.inv_empty)

text \<open>
  Deleting from a tree removes the key from the map it stands for, and the result tells
  whether it was there.
\<close>

theorem tree_delete_is_update:
  assumes "tree_inv t" and "a \<noteq> 0"
  shows "fst (tree_delete_item t a) = (tree_lookup t a \<noteq> None) \<and> tree_inv (snd (tree_delete_item t a)) \<and>
    tree_map (snd (tree_delete_item t a)) = (tree_map t)(a := None)"
  using tree_delete_map [OF assms] tree_lookup_map [OF assms] by simp

theorem tree_delete_is_update_witness: "tree_map (snd (tree_delete_item tree_create 8)) = Map.empty"
  using tree_delete_is_update [OF trm.inv_empty, of 8] trm.abs_empty by simp

section \<open>Hashtables\<close>

text \<open>
  C32: The probing of a hashtable visits every slot: in a table whose size is a power of two and
  that has a free slot, every probing ends, whatever the index, within the fuel.
\<close>

theorem probing_ends:
  assumes "table_sized k t" and "j < length (items t)" and "items t ! j = 0"
  shows "\<exists>i. probe_from (probe_fuel t) stop t index = Some i"
  by (rule probe_stops [OF assms(1,2)]) (simp add: assms(3))

theorem probing_ends_witness:
  "\<exists>i. probe_from 21 (\<lambda>_. False) (init_table 8) 12345 = Some i"
proof -
  have "table_sized 3 (init_table 8)" by (simp add: table_sized_def init_table_def)
  from probing_ends [OF this, of 0 "\<lambda>_. False" 12345] show ?thesis by (simp add: init_table_def probe_fuel_def)
qed

text \<open>
  Looking up an index that is in the table returns its entry and changes nothing.
\<close>

theorem hashtable_finds:
  assumes "hashtable_rep (entry_index s me) h M" and "M index = Some e"
  shows "stm_hashtable_lookup fuel X ud mv me hobj h index s = Ret (e, h) s"
  by (rule lookup_found [OF assms])

text \<open>
  C30: Looking up a new index in an old hashtable makes an entry that every segment reads the
  same way, with a NULL object, and the table stands for the map with this entry added, also
  when it had to grow first; no other entry changes.
\<close>

theorem hashtable_adds:
  assumes "hashtable_rep (entry_index s me) h M" and "M index = None" and "me \<le> 4" and "\<not> is_in_nursery hobj"
    and "\<forall>t. hs_tables h (hs_table h) = Some t \<longrightarrow> mask t < 2 ^ 58"
    and "allocate_outside_nursery_large ENTRY_SIZE s = Ret e s1" and "e \<noteq> 0"
    and "\<forall>x \<in> ran M. (x + 24 \<le> e \<or> e + 24 \<le> x) \<and> entry_index s1 me x = entry_index s me x"
  shows "\<exists>h' s'. stm_hashtable_lookup fuel X ud mv me hobj h index s = Ret (e, h') s' \<and>
    hashtable_rep (entry_index s' me) h' (M(index \<mapsto> e)) \<and>
    (\<forall>g \<le> 4. entry_index s' g e = index \<and> entry_object s' g e = 0 \<and> vload32 s' g (e + 4) = ud \<and>
       stm_flags s' g e = GCFLAG_WRITE_BARRIER \<and> (\<forall>x. x < e \<or> e + 24 \<le> x \<longrightarrow> vread s' g x = vread s1 g x))"
proof -
  let ?s = "fill_old_entry ud index e s1"
  have "\<exists>h'. stm_hashtable_lookup fuel X ud mv me hobj h index s = Ret (e, h') ?s \<and>
      additions h' = additions h + 0x100 \<and> hashtable_rep (entry_index ?s me) h' (M(index \<mapsto> e))"
    by (rule lookup_missing_old) (use assms in auto)
  then obtain h' where "stm_hashtable_lookup fuel X ud mv me hobj h index s = Ret (e, h') ?s"
    "hashtable_rep (entry_index ?s me) h' (M(index \<mapsto> e))" by blast
  then show ?thesis using fill_old_entry_fields(1-4) fill_old_entry_read
    by (intro exI [of _ h'] exI [of _ ?s]) auto
qed

theorem hashtable_adds_witness:
  "\<exists>e h' s'. stm_hashtable_lookup 1 sample_ext 0 (\<lambda>_ x. x) 1 NURSERY_END (stm_hashtable_create 4096) 5 running = Ret (e, h') s' \<and>
     hashtable_rep (entry_index s' 1) h' [5 \<mapsto> e] \<and> entry_index s' 2 e = 5"
proof -
  obtain e s1 where e: "allocate_outside_nursery_large ENTRY_SIZE running = Ret e s1" "e \<noteq> 0" using running_alloc by (auto simp: page_consts)
  have m: "\<forall>t. hs_tables (stm_hashtable_create 4096) (hs_table (stm_hashtable_create 4096)) = Some t \<longrightarrow> mask t < 2 ^ 58"
    by (simp add: stm_hashtable_create_def init_table_def INITIAL_HASHTABLE_SIZE_def)
  from hashtable_adds [where me = 1 and index = 5 and hobj = NURSERY_END and fuel = 1 and X = sample_ext and ud = 0
    and mv = "\<lambda>_ x. x", OF create_rep _ _ _ m e] show ?thesis by (simp add: is_in_nursery_def) fastforce
qed

theorem hashtable_finds_witness:
  "\<exists>e h' s'. stm_hashtable_lookup 1 sample_ext 0 (\<lambda>_ x. x) 1 NURSERY_END (stm_hashtable_create 4096) 5 running = Ret (e, h') s' \<and>
     stm_hashtable_lookup 1 sample_ext 0 (\<lambda>_ x. x) 1 NURSERY_END h' 5 s' = Ret (e, h') s'"
proof -
  obtain e s1 where e: "allocate_outside_nursery_large ENTRY_SIZE running = Ret e s1" "e \<noteq> 0" using running_alloc by (auto simp: page_consts)
  have "\<exists>h'. stm_hashtable_lookup 1 sample_ext 0 (\<lambda>_ x. x) 1 NURSERY_END (stm_hashtable_create 4096) 5 running =
      Ret (e, h') (fill_old_entry 0 5 e s1) \<and> additions h' = additions (stm_hashtable_create 4096) + 0x100 \<and>
      hashtable_rep (entry_index (fill_old_entry 0 5 e s1) 1) h' [5 \<mapsto> e]"
    by (rule lookup_missing_old [OF create_rep _ _ _ _ e])
      (auto simp: is_in_nursery_def stm_hashtable_create_def init_table_def INITIAL_HASHTABLE_SIZE_def)
  then show ?thesis using hashtable_finds by fastforce
qed

text \<open>
  C31: Compaction removes exactly the dead entries, those with a NULL object that no segment has
  read, when there were enough additions since the last one; afterwards the only tables in
  memory are the initial and the current one.
\<close>

theorem hashtable_compacts:
  assumes "hashtable_rep (entry_index s me) h M" and "chained h ps" and "length ps < fuel"
    and "hs_malloc h \<notin> set ps" and "IS_EVEN (hs_malloc h)" and "IS_EVEN (hs_table h)"
    and "hs_tables h (hs_table h) = Some t"
  shows "\<exists>h'. compact_hashtable fuel s me h = Some h' \<and>
    hashtable_rep (entry_index s me) h' (\<lambda>index. case M index of None \<Rightarrow> None
      | Some e \<Rightarrow> if compacting h t \<and> dead_entry s (last_adder h) e then None else Some e) \<and>
    dom (hs_tables h') = {INITIAL_TABLE, hs_table h'}"
proof -
  have "(if compacting h t then without (dead_entry s (last_adder h)) M else M) = (\<lambda>index. case M index of None \<Rightarrow> None
      | Some e \<Rightarrow> if compacting h t \<and> dead_entry s (last_adder h) e then None else Some e)"
    by (auto simp: without_def fun_eq_iff split: option.split)
  then show ?thesis using compact_rep [OF assms] by auto
qed

theorem hashtable_compacts_witness:
  "\<exists>h'. compact_hashtable 2 sample 1 (stm_hashtable_create 4096) = Some h' \<and>
     hashtable_rep (entry_index sample 1) h' (\<lambda>_. None)"
proof -
  have "INITIAL_TABLE \<noteq> 4096" "IS_EVEN INITIAL_TABLE" by (simp_all add: INITIAL_TABLE_def IS_EVEN_def)
  then show ?thesis
    using hashtable_compacts [OF create_rep create_chained, of 2 4096 "init_table 8" sample 1]
    by (auto simp: stm_hashtable_create_def IS_EVEN_def INITIAL_HASHTABLE_SIZE_def)
qed

section \<open>The allocator of old objects\<close>

definition sample_arena :: lm_s where
  "sample_arena = largemalloc_init_arena 1000 500 \<lparr>prev_size = \<lambda>_. 0, chunk_size = \<lambda>_. 0, first_chunk = 0, last_chunk = 0,
     largebins = \<lambda>_. [], ctl = setup_pages \<lparr>major_collection_requested = False, total_allocated = 0, total_allocated_bound = 0\<rparr>\<rparr>"

lemma sample_arena_ok: "arena_ok sample_arena [(1000, 468, True)]"
  using init_ok [of 500 1000] by (simp add: sample_arena_def)

lemma sample_malloc:
  "\<exists>s'. large_malloc 100 sample_arena = (Some 1016, s') \<and> arena_ok s' [(1000, 100, False), (1116, 352, True)]"
  using malloc_ok [OF sample_arena_ok, of 100] by (auto simp: carve_def Cons_eq_append_conv)

text \<open>
  C35: Allocation is best fit and cuts exactly. It fails only when every free chunk is too small
  for the request, rounded up to 32 bytes; otherwise it takes a smallest free chunk that is large
  enough, and gives the rest of it back as a free chunk unless the rest is below 48 bytes. The
  chunks still tile the arena with correct boundary tags, the free ones and only they are in the
  bin of their size, and the account grows by what is taken.
\<close>

theorem malloc_best_fit:
  fixes request_size :: nat
  assumes "arena_ok s cs"
  shows "(\<exists>xs c n ys s'. large_malloc request_size s = (Some (c + 16), s') \<and> cs = xs @ (c, n, True) # ys \<and>
      max 32 request_size \<le> n \<and> (\<forall>d m. (d, m, True) \<in> set cs \<longrightarrow> max 32 request_size \<le> m \<longrightarrow> n \<le> m) \<and>
      arena_ok s' (xs @ carve c n (max 32 request_size) @ ys) \<and> last_chunk s' = last_chunk s \<and>
      ctl s' = increment_total_allocated
        (int ((if n - max 32 request_size < 48 then n else max 32 request_size) + 16)) (ctl s)) \<or>
    (\<exists>s'. large_malloc request_size s = (None, s') \<and> (\<forall>d m. (d, m, True) \<in> set cs \<longrightarrow> m < max 32 request_size) \<and>
      arena_ok s' cs \<and> ctl s' = ctl s)"
  using malloc_ok [OF assms, of request_size] by blast

theorem malloc_best_fit_witness:
  "\<exists>s'. large_malloc 100 sample_arena = (Some 1016, s') \<and> arena_ok s' [(1000, 100, False), (1116, 352, True)]"
  using malloc_best_fit [OF sample_arena_ok, of 100] by (auto simp: carve_def Cons_eq_append_conv)

text \<open>
  Freeing merges. The freed chunk becomes one free chunk together with the free neighbours
  on both sides, headers included, so that no two free chunks ever touch; all the other chunks
  stay as they are, and the account shrinks by what the chunk had cost.
\<close>

theorem free_merges:
  assumes "arena_ok s (xs @ (c, n, False) # ys)"
  shows "arena_ok (large_free (c + 16) s) (freed xs c n ys) \<and> last_chunk (large_free (c + 16) s) = last_chunk s \<and>
    ctl (large_free (c + 16) s) = increment_total_allocated (- int (n + 16)) (ctl s)"
  using free_ok [OF assms] by blast

theorem free_merges_witness:
  "\<exists>s'. large_malloc 100 sample_arena = (Some 1016, s') \<and> arena_ok (large_free 1016 s') [(1000, 468, True)]"
proof -
  obtain s' where s': "large_malloc 100 sample_arena = (Some 1016, s')"
    "arena_ok s' ([] @ (1000, 100, False) # [(1116, 352, True)])"
    using sample_malloc by auto
  then show ?thesis using free_merges [OF s'(2)] by (simp add: freed_def)
qed

text \<open>
  C40: Growing the arena by at least 48 bytes adds the new space to the free chunks, merged with
  the last one if that is free. It is freed without having been allocated: the account of the
  allocated memory is decreased by the whole increment, and wraps around below zero.
\<close>

theorem resize_grow_account:
  assumes "arena_ok s cs" and "last_chunk s + 48 \<le> first_chunk s + (new_size - 16)" and "96 \<le> new_size"
  shows "\<exists>s'. largemalloc_resize_arena new_size s = (True, s') \<and>
    arena_ok s' (freed cs (last_chunk s) (first_chunk s + (new_size - 16) - (last_chunk s + 16)) []) \<and>
    last_chunk s' = first_chunk s + (new_size - 16) \<and>
    total_allocated (ctl s') = total_allocated (ctl s) - word_of_nat (first_chunk s + (new_size - 16) - last_chunk s)"
  using resize_grow [OF assms] by blast

theorem resize_grow_account_witness:
  "\<exists>s'. largemalloc_resize_arena 600 sample_arena = (True, s') \<and> arena_ok s' [(1000, 568, True)] \<and>
     total_allocated (ctl sample_arena) = 0 \<and> total_allocated (ctl s') = - 100"
proof -
  have f: "first_chunk sample_arena = 1000" "last_chunk sample_arena = 1484" "total_allocated (ctl sample_arena) = 0"
    by (simp_all add: sample_arena_def largemalloc_init_arena_def Let_def lm_consts insert_unsorted_def setup_pages_def)
  show ?thesis using resize_grow_account [OF sample_arena_ok, of 600] by (auto simp: f freed_def)
qed

section \<open>The mark phase and the sweep\<close>

text \<open>
  C5: The mark phase marks exactly the live objects, and ends. An object is live in the view of a
  segment when a root of the segment reaches it through the references that the segment sees. On
  a heap where segments agree on the objects that they did not modify, the phase returns, with
  one more unit of fuel than there are live objects, and in the result exactly the live objects'
  locks are the visit mark; nothing else in the state has changed.
\<close>

theorem mark_is_reachability:
  assumes "markable X s (roots ts s)" and "coherent X s (roots ts s)" and "next_ring s ts"
    and "card (live_objects X s (roots ts s)) < fuel" and "length ts \<le> fuel"
    and "0 \<notin> mods_all s" and "modified_old_objects (segs s 0) = []"
    and "\<forall>i \<in> {1..4}. transaction_state (segs s i) \<noteq> TS_NONE \<longrightarrow> running_thread (segs s i) \<noteq> None"
    and "\<forall>t \<in> set ts. associated_segment_num (tls s t) \<le> 4"
  shows "major_mark fuel X s = Ret () (s\<lparr>write_locks := (\<lambda>i.
    if i \<in> mark_loc ` live_objects X s (roots ts s) then WL_VISITED else write_locks s i)\<rparr>)"
  using major_mark_ok [OF assms(1,2) _ assms(3,5-9)] assms(4) by (simp add: enough_def visit_def)

theorem mark_is_reachability_witness:
  "\<exists>s'. major_mark 3 heap_ext heap = Ret () s' \<and> (\<forall>obj \<in> {OBJ1, OBJ2}. mark_visited_test s' obj) \<and>
     \<not> mark_visited_test heap OBJ2"
proof -
  have seg: "modified_old_objects (segs heap j) = []" "transaction_state (segs heap j) \<noteq> TS_NONE \<longrightarrow> running_thread (segs heap j) \<noteq> None"
    if "j \<in> {1..4}" for j
    using that by (auto simp: heap_frame sample_seg started_running started_seg zero_pseg_def)
  have "card {OBJ1, OBJ2} < 3" by (simp add: card_insert_if)
  moreover have "0 \<notin> mods_all heap" using seg(1) by (simp add: mods_all_def)
  moreover have "modified_old_objects (segs heap 0) = []"
    by (simp add: heap_frame sample_seg started_running heap_seg0)
  moreover have "\<forall>t \<in> set [0]. associated_segment_num (tls heap t) \<le> 4" by (simp add: heap_frame sample_tl_def)
  ultimately show ?thesis
    using mark_is_reachability [OF heap_markable heap_ring, of 3] seg(2)
    by (auto simp: heap_live_objects mark_visited_test_def heap_frame WL_VISITED_def)
qed

text \<open>
  C6: The sweep frees exactly what is not marked. Of the objects in the arena those with the
  visit mark stay, with the mark removed for the next collection; the chunks of the others become free
  and merged, and their read markers are reset in all segments, so that a new object at the same place
  does not look as if it had been read.
\<close>

theorem sweep_frees_unmarked:
  assumes "arena_ok (lm s) cs" and "NURSERY_END \<le> first_chunk (lm s)" and "length (in_use cs) < fuel"
  shows "\<exists>cs' s'. sweep_large_objects fuel s = Ret () s' \<and> arena_ok (lm s') cs' \<and>
    in_use cs' = filter (\<lambda>(c, n). mark_visited_test s (c + 16)) (in_use cs) \<and>
    (\<forall>(c, n) \<in> set (in_use cs'). \<not> mark_visited_test s' (c + 16)) \<and>
    (\<forall>(c, n) \<in> set (in_use cs). \<not> mark_visited_test s (c + 16) \<longrightarrow>
       (\<forall>g \<in> {1..4}. rm s' g ((c + 16) div 16) = 0))"
proof -
  obtain cs' l where l: "sweep_large_objects fuel s =
      Ret () ((forget_reads (dead s (in_use cs)) (unmark (objects_of (kept s (in_use cs))) s))\<lparr>lm := l\<rparr>)"
    "arena_ok l cs'" "in_use cs' = kept s (in_use cs)" using sweep_frees [OF assms] by blast
  let ?s' = "(forget_reads (dead s (in_use cs)) (unmark (objects_of (kept s (in_use cs))) s))\<lparr>lm := l\<rparr>"
  have "\<not> mark_visited_test ?s' (c + 16)" if "(c, n) \<in> set (kept s (in_use cs))" for c n
  proof -
    have "mark_loc (c + 16) \<in> mark_loc ` objects_of (kept s (in_use cs))" using that by (force simp: objects_of_def)
    then show ?thesis by (simp add: mark_visited_test_def forget_reads_def unmark_def WL_VISITED_def)
  qed
  moreover have "rm ?s' g ((c + 16) div 16) = 0" if "(c, n) \<in> set (in_use cs)" "\<not> mark_visited_test s (c + 16)" "g \<in> {1..4}" for c n g
  proof -
    have "(c + 16) div 16 \<in> (\<lambda>obj. obj div 16) ` dead s (in_use cs)" using that(1,2) by (force simp: dead_def objects_of_def)
    then show ?thesis using that(3) by (simp add: forget_reads_def)
  qed
  ultimately show ?thesis using l by (intro exI [of _ cs'] exI [of _ ?s']) (auto simp: kept_def)
qed

theorem sweep_frees_unmarked_witness:
  "\<exists>l s'. large_malloc 100 (lm heap) = (Some (NURSERY_END + 16), l) \<and> sweep_large_objects 2 (heap\<lparr>lm := l\<rparr>) = Ret () s' \<and>
     (\<exists>cs. arena_ok (lm s') cs \<and> in_use cs = []) \<and> rm s' 1 ((NURSERY_END + 16) div 16) = 0"
proof -
  have a: "arena_ok (lm heap) [(NURSERY_END, (NB_PAGES - END_NURSERY_PAGE) * 4096 - 32, True)]" "first_chunk (lm heap) = NURSERY_END"
    by (simp_all add: heap_lm)
  obtain l where l: "large_malloc 100 (lm heap) = (Some (NURSERY_END + 16), l)" "first_chunk l = NURSERY_END"
    "arena_ok l [(NURSERY_END, 100, False), (NURSERY_END + 116, (NB_PAGES - END_NURSERY_PAGE) * 4096 - 148, True)]"
    using malloc_ok [OF a(1), of 100] a(2) by (auto simp: carve_def Cons_eq_append_conv page_consts)
  have v: "\<not> mark_visited_test (heap\<lparr>lm := l\<rparr>) (NURSERY_END + 16)"
    by (simp add: mark_visited_test_def heap_frame WL_VISITED_def)
  obtain cs' s' where s': "sweep_large_objects 2 (heap\<lparr>lm := l\<rparr>) = Ret () s'" "arena_ok (lm s') cs'" "in_use cs' = []"
    "\<forall>g \<in> {1..4}. rm s' g ((NURSERY_END + 16) div 16) = 0"
    using sweep_frees_unmarked [of "heap\<lparr>lm := l\<rparr>" _ 2, OF _ _ _] l v by fastforce
  then have "rm s' 1 ((NURSERY_END + 16) div 16) = 0" by simp
  then show ?thesis using l(1) s'(1-3) by blast
qed

section \<open>The registered threads\<close>

text \<open>
  C36: The ring of thread-locals is a list. Registering appends to it; unregistering removes from
  it, wherever the thread is. An unregistered thread does not look registered, except
  when it was the last one: then its own links stay.
\<close>

theorem threads_ring:
  assumes "ring s ts"
  shows "(t \<notin> set ts \<longrightarrow> ring (snd (stm_register_thread_local t s)) (ts @ [t])) \<and>
    (t \<in> set ts \<longrightarrow> ring (stm_unregister_thread_local t s) (remove1 t ts) \<and>
       (is_tl_registered t (stm_unregister_thread_local t s) \<longleftrightarrow> ts = [t]))"
  using register_ring [OF assms] unregister_ring [OF assms] by blast

theorem threads_ring_witness:
  "let s1 = snd (stm_register_thread_local 5 started) in
   ring (snd (stm_register_thread_local 7 s1)) [5, 7] \<and> is_tl_registered 5 (stm_unregister_thread_local 5 s1)"
proof -
  have "ring started []" by (simp add: ring_def started_threads)
  then have "ring (snd (stm_register_thread_local 5 started)) [5]" using threads_ring [of started "[]" 5] by simp
  then show ?thesis using threads_ring [of "snd (stm_register_thread_local 5 started)" "[5]"] by (simp add: Let_def)
qed

section \<open>The rewindable stack\<close>

text \<open>
  C29: Whatever frames the thread entered and left since \<open>rewind_jmp_setjmp\<close>, and whatever it
  wrote into the newer part of its stacks, an abort restores the shadow stack of the
  \<open>setjmp\<close> and every byte of the C stack above the saved position.
\<close>

theorem rewind_restores:
  assumes "rewind_jmp_setjmp rj stk ss sp again = (n, rj0)" and "rj_head rj = f # old"
    and "nested (f # old)" and "shadowstack_base f \<le> length ss" and "sp \<le> frame_base f"
    and "again \<Longrightarrow> initial_head rj = rj_head rj"
    and "rj_step\<^sup>*\<^sup>* (rj0, stk, ss) (rj', stk', ss')"
  shows "restore_ss rj' ss' = ss \<and> (\<forall>a \<ge> sp. snd (rewind_jmp_longjmp rj' m stk') a = stk a)"
  using rj_saved_restores [OF rj_saved_steps [OF assms(7) rj_saved_setjmp [OF assms(1-6)]]] by blast

definition sample_rj :: rewind_jmp_thread where
  "sample_rj = rj_initial\<lparr>rj_head := [\<lparr>shadowstack_base = 1, jit = False, frame_base = 100, buf_addr = 100\<rparr>]\<rparr>"

theorem rewind_restores_witness:
  "restore_ss (snd (rewind_jmp_setjmp sample_rj (\<lambda>_. 0) [7, 8] 50 False)) [7, 9, 10] = [7, 8]"
proof -
  obtain n rj0 where r: "rewind_jmp_setjmp sample_rj (\<lambda>_. 0) [7, 8] 50 False = (n, rj0)" by fastforce
  have h: "rj_head sample_rj = \<lparr>shadowstack_base = 1, jit = False, frame_base = 100, buf_addr = 100\<rparr> # []"
    by (simp add: sample_rj_def)
  have "moved_off_ssbase rj0 = Some 1"
    using r by (auto simp: rewind_jmp_setjmp_def sample_rj_def rj_initial_def copy_stack_def Let_def)
  then have "rj_step (rj0, \<lambda>_. 0, [7, 8]) (rj0, \<lambda>_. 0, [7, 9, 10])" by (rule rj_step.run) simp_all
  then have "rj_step\<^sup>*\<^sup>* (rj0, \<lambda>_. 0, [7, 8]) (rj0, \<lambda>_. 0, [7, 9, 10])" by blast
  from rewind_restores [OF r h _ _ _ _ this] show ?thesis using r by simp
qed

section \<open>Finalizers that make others ready\<close>

text \<open>
  C39: \<open>_execute_finalizers\<close> repeats the finalizers that are appended while it runs. Let the list to
  be run be \<open>ys\<close>, without repetitions, and let the finalizer of \<open>a\<close>, one of them, not NULL and not
  among \<open>xs\<close>, append the objects \<open>xs\<close> (a major collection that runs in it does that), while the
  other calls leave the list alone; no other invocation is active. Then the
  function returns with the list freed, and it has called \<open>stmcb_finalizer\<close> for \<open>ys\<close>, for \<open>xs\<close>, and then,
  as the count of the list was not decreased, for as many stale items as \<open>ys\<close> has: the NULLs
  that the first pass stored, as far as there are more of them than \<open>xs\<close>, and the last objects of
  \<open>xs\<close> once more. \<open>noted_calls\<close>: the callback notes its argument in \<open>calls\<close>.
\<close>

theorem appended_finalizer_repeats:
  assumes "noted_calls X me j a xs note_call calls"
    and "get_finalizers j s = Some f" and "run_finalizers f = Some ys" and "running_next f = None"
    and "distinct ys" and "a \<in> set ys" and "a \<noteq> 0" and "a \<notin> set xs" and "xs \<noteq> []" and "length ys + length xs < fuel"
  shows "\<exists>s' f'. execute_finalizers fuel X me j s = Ret () s' \<and>
    calls s' = calls s @ ys @ xs @ drop (length xs) (replicate (length ys) 0 @ xs) \<and>
    get_finalizers j s' = Some f' \<and> run_finalizers f' = None \<and> running_next f' = None"
  by (rule execute_appended [OF assms])

text \<open>Objects 16, 32 and 48 in the list; the finalizer of 32 appends 64.\<close>

definition noting_ext :: ext where
  "noting_ext = sample_ext\<lparr>stmcb_finalizer := (\<lambda>me obj s.
     if obj = 32 then append_run_finalizers 0 [64] (emit (LightFinalizer 0 obj) s) else emit (LightFinalizer 0 obj) s)\<rparr>"

definition noted :: "stm \<Rightarrow> nat list" where
  "noted s = map (\<lambda>e. case e of LightFinalizer _ obj \<Rightarrow> obj | _ \<Rightarrow> 0) (events s)"

theorem appended_finalizer_repeats_witness:
  "\<exists>s'. execute_finalizers 5 noting_ext 1 0
       (sample\<lparr>g_finalizers := init_finalizers\<lparr>run_finalizers := Some [16, 32, 48]\<rparr>, events := []\<rparr>) = Ret () s' \<and>
     noted s' = [16, 32, 48, 64, 0, 0, 64]"
proof -
  let ?s = "sample\<lparr>g_finalizers := init_finalizers\<lparr>run_finalizers := Some [16, 32, 48]\<rparr>, events := []\<rparr>"
  have "noted_calls noting_ext 1 0 32 [64] (\<lambda>obj. emit (LightFinalizer 0 obj)) noted"
    by (simp add: noted_calls_def noting_ext_def noted_def get_finalizers_def set_finalizers_def emit_def)
  from appended_finalizer_repeats [OF this, of ?s "init_finalizers\<lparr>run_finalizers := Some [16, 32, 48]\<rparr>" "[16, 32, 48]" 5]
  show ?thesis by (auto simp: get_finalizers_def init_finalizers_def noted_def numeral_2_eq_2 numeral_3_eq_3)
qed

end
